(* ===== verification/Prelude.thy ===== *)
theory Prelude
  imports Main "HOL-Library.Word"
begin

unbundle bit_operations_syntax

text \<open>
  Shared ground of the development: the machine integers of the Rust sources, byte buffers
  with Rust's slice operations (\<open>xs[a..b]\<close>, \<open>copy_from_slice\<close>, \<open>resize\<close>), the big- and
  little-endian codecs of the standard library (\<open>to_be_bytes\<close>, \<open>from_be_bytes\<close> and their
  little-endian twins), \<open>Result\<close> combinators, and the lemma collections the component theories
  rewrite with:
  \<^item> \<open>buf_simps\<close>: reading a slice of a buffer that has just been written;
  \<^item> \<open>codec_simps\<close>: decoding what was encoded;
  \<^item> \<open>result_simps\<close>: the Rust \<open>?\<close> operator on successes and failures.
\<close>

named_theorems buf_simps \<open>slices of updated buffers\<close>
named_theorems codec_simps \<open>integer codecs\<close>
named_theorems result_simps \<open>propagation of results\<close>

section \<open>Machine integers\<close>

text \<open>
  Rust's fixed-width integers are words. A signed \<open>i64\<close> is the 64-bit word with the same bit
  pattern and is read with \<open>sint\<close>; \<open>as\<close> casts between widths are \<open>ucast\<close> (truncation and
  zero extension), a cast between \<open>i64\<close> and \<open>u64\<close> is the identity. \<open>usize\<close> is \<open>nat\<close>.
\<close>

type_synonym u8 = "8 word"
type_synonym u16 = "16 word"
type_synonym u32 = "32 word"
type_synonym u64 = "64 word"
type_synonym i64 = "64 word"
type_synonym bytes = "u8 list"

text \<open>Whether a \<open>usize\<close> result is out of range (what \<open>checked_add\<close> tests).\<close>

definition usize_overflow :: "nat \<Rightarrow> bool" where
  "usize_overflow n \<longleftrightarrow> (2 :: int) ^ 64 \<le> int n"

lemma usize_overflow_iff [simp]: "usize_overflow n \<longleftrightarrow> 2 ^ 64 \<le> n"
  by (simp add: usize_overflow_def)

section \<open>Slices of buffers\<close>

text \<open>\<open>xs[a..b]\<close> on a buffer known to be long enough.\<close>

definition sub :: "nat \<Rightarrow> nat \<Rightarrow> 'a list \<Rightarrow> 'a list" where
  "sub a b xs = take (b - a) (drop a xs)"

text \<open>\<open>xs[a..a + src.len()].copy_from_slice(src)\<close> on a buffer known to be long enough.\<close>

definition put_at :: "nat \<Rightarrow> 'a list \<Rightarrow> 'a list \<Rightarrow> 'a list" where
  "put_at a src xs = take a xs @ src @ drop (a + length src) xs"

text \<open>\<open>Vec::resize(n, 0)\<close>: truncate or extend with zeros.\<close>

definition resize :: "nat \<Rightarrow> 'a::zero list \<Rightarrow> 'a list" where
  "resize n xs = take n xs @ replicate (n - length xs) 0"

lemma length_sub [simp]: "length (sub a b xs) = min (b - a) (length xs - a)"
  by (simp add: sub_def min_def)

lemma length_put_at [simp]:
  "a + length src \<le> length xs \<Longrightarrow> length (put_at a src xs) = length xs"
  by (simp add: put_at_def)

lemma length_resize [simp]: "length (resize n xs) = n"
  by (simp add: resize_def)

lemma nth_sub [simp]: "i < b - a \<Longrightarrow> a + i < length xs \<Longrightarrow> sub a b xs ! i = xs ! (a + i)"
  by (simp add: sub_def)

lemma nth_put_at:
  "a + length src \<le> length xs \<Longrightarrow> i < length xs \<Longrightarrow>
   put_at a src xs ! i = (if a \<le> i \<and> i < a + length src then src ! (i - a) else xs ! i)"
  by (auto simp: put_at_def nth_append min_def)

lemma nth_put_at_out [buf_simps]:
  "a + length src \<le> length xs \<Longrightarrow> i < length xs \<Longrightarrow> i < a \<or> a + length src \<le> i \<Longrightarrow>
   put_at a src xs ! i = xs ! i"
  by (auto simp: nth_put_at)

lemma nth_put_at_in [buf_simps]:
  "a + length src \<le> length xs \<Longrightarrow> a \<le> i \<Longrightarrow> i < a + length src \<Longrightarrow>
   put_at a src xs ! i = src ! (i - a)"
  by (auto simp: nth_put_at)

lemma sub_put_at_same [buf_simps]:
  "a + length src \<le> length xs \<Longrightarrow> b = a + length src \<Longrightarrow> sub a b (put_at a src xs) = src"
  by (simp add: sub_def put_at_def)

lemma sub_put_at_disj [buf_simps]:
  assumes "c + length src \<le> length xs" and "b \<le> c \<or> c + length src \<le> a"
  shows "sub a b (put_at c src xs) = sub a b xs"
proof (rule nth_equalityI)
  show "length (sub a b (put_at c src xs)) = length (sub a b xs)"
    using assms(1) by simp
next
  fix i
  assume "i < length (sub a b (put_at c src xs))"
  then have i: "i < b - a" "a + i < length xs" using assms(1) by auto
  then show "sub a b (put_at c src xs) ! i = sub a b xs ! i"
    using assms by (auto simp: nth_put_at)
qed

lemma sub_put_at_inside:
  "c + length src \<le> length xs \<Longrightarrow> c \<le> a \<Longrightarrow> b \<le> c + length src \<Longrightarrow>
   sub a b (put_at c src xs) = sub (a - c) (b - c) src"
  by (rule nth_equalityI) (auto simp: nth_put_at)

lemma sub_sub: "c + b \<le> d \<Longrightarrow> sub a b (sub c d xs) = sub (c + a) (c + b) xs"
proof -
  assume "c + b \<le> d"
  then have "min (b - a) (d - c - a) = b - a" by simp
  then show ?thesis by (simp add: sub_def drop_take add.commute)
qed

lemma take_put_at_below: "b \<le> c \<Longrightarrow> c \<le> length xs \<Longrightarrow> take b (put_at c src xs) = take b xs"
  by (simp add: put_at_def min_def)

lemma drop_put_at_above: "c + length src \<le> a \<Longrightarrow> c \<le> length xs \<Longrightarrow> drop a (put_at c src xs) = drop a xs"
  by (simp add: put_at_def)

lemma sub_full [simp]: "sub 0 (length xs) xs = xs"
  by (simp add: sub_def)

lemma sub_empty [simp]: "b \<le> a \<Longrightarrow> sub a b xs = []"
  by (simp add: sub_def)

lemma sub_split: "a \<le> b \<Longrightarrow> b \<le> c \<Longrightarrow> sub a b xs @ sub b c xs = sub a c xs"
proof -
  assume "a \<le> b" and "b \<le> c"
  then have "c - a = (b - a) + (c - b)" and "drop b xs = drop (b - a) (drop a xs)"
    by simp_all
  then show ?thesis by (simp add: sub_def take_add)
qed

lemma sub_append_left: "b \<le> length xs \<Longrightarrow> sub a b (xs @ ys) = sub a b xs"
  by (simp add: sub_def)

lemma sub_append_right:
  "length xs \<le> a \<Longrightarrow> sub a b (xs @ ys) = sub (a - length xs) (b - length xs) ys"
  by (simp add: sub_def)

lemma drop_eq_sub: "b = length xs \<Longrightarrow> sub a b xs = drop a xs"
  by (simp add: sub_def)

lemma put_at_sub_id: "a \<le> b \<Longrightarrow> b \<le> length xs \<Longrightarrow> put_at a (sub a b xs) xs = xs"
proof -
  assume ab: "a \<le> b" "b \<le> length xs"
  have "sub 0 a xs @ sub a b xs @ sub b (length xs) xs = xs"
    using ab by (metis sub_split append_assoc sub_full le0)
  then show ?thesis using ab by (simp add: put_at_def sub_def)
qed

lemma nth_resize:
  "i < n \<Longrightarrow> resize n xs ! i = (if i < length xs then xs ! i else 0)"
  by (auto simp: resize_def nth_append min_def)

lemma resize_id [simp]: "resize (length xs) xs = xs"
  by (simp add: resize_def)

text \<open>A sequence of \<open>copy_from_slice\<close> statements, applied in order.\<close>

fun put_all :: "(nat \<times> 'a list) list \<Rightarrow> 'a list \<Rightarrow> 'a list" where
  "put_all [] xs = xs"
| "put_all ((a, src) # ws) xs = put_all ws (put_at a src xs)"

text \<open>The writes are in increasing, non-overlapping order and fit into \<open>n\<close> bytes.\<close>

fun layout :: "nat \<Rightarrow> (nat \<times> 'a list) list \<Rightarrow> nat \<Rightarrow> bool" where
  "layout lo [] n \<longleftrightarrow> lo \<le> n"
| "layout lo ((a, src) # ws) n \<longleftrightarrow> lo \<le> a \<and> layout (a + length src) ws n"

lemma layout_bound: "layout lo ws n \<Longrightarrow> lo \<le> n"
  by (induction lo ws n rule: layout.induct) auto

lemma length_put_all: "layout lo ws (length xs) \<Longrightarrow> length (put_all ws xs) = length xs"
proof (induction ws arbitrary: lo xs)
  case (Cons w ws)
  obtain a src where w: "w = (a, src)" by force
  then have "layout (a + length src) ws (length (put_at a src xs))"
    using Cons.prems layout_bound by fastforce
  from Cons.IH [OF this] w show ?case
    using Cons.prems layout_bound by fastforce
qed simp

lemma sub_put_all_below:
  "layout lo ws (length xs) \<Longrightarrow> b \<le> lo \<Longrightarrow> sub a b (put_all ws xs) = sub a b xs"
proof (induction ws arbitrary: lo xs)
  case (Cons w ws)
  obtain c src where w: "w = (c, src)" by force
  then have l: "layout (c + length src) ws (length xs)" "c + length src \<le> length xs" "lo \<le> c"
    using Cons.prems layout_bound by auto
  then have "sub a b (put_all ws (put_at c src xs)) = sub a b (put_at c src xs)"
    using Cons.prems by (intro Cons.IH [of "c + length src"]) auto
  then show ?case using w l Cons.prems by (simp add: sub_put_at_disj)
qed simp

lemma sub_put_all:
  "layout lo ws (length xs) \<Longrightarrow> (a, src) \<in> set ws \<Longrightarrow> b = a + length src \<Longrightarrow>
   sub a b (put_all ws xs) = src"
proof (induction ws arbitrary: lo xs)
  case (Cons w ws)
  obtain c s where w: "w = (c, s)" by force
  then have l: "layout (c + length s) ws (length xs)" "c + length s \<le> length xs"
    using Cons.prems layout_bound by auto
  show ?case
  proof (cases "(a, src) = w")
    case True
    then have "sub a b (put_all ws (put_at c s xs)) = sub a b (put_at c s xs)"
      using l w Cons.prems by (intro sub_put_all_below [of "c + length s"]) auto
    then show ?thesis using True w l Cons.prems by (simp add: sub_put_at_same)
  next
    case False
    then have "sub a b (put_all ws (put_at c s xs)) = src"
      using l w Cons.prems by (intro Cons.IH [of "c + length s"]) auto
    then show ?thesis using w by simp
  qed
qed simp

lemma nth_put_all:
  assumes "layout lo ws (length xs)" and "(a, [v]) \<in> set ws"
  shows "put_all ws xs ! a = v"
proof -
  have l: "length (put_all ws xs) = length xs" using assms by (simp add: length_put_all)
  have s: "sub a (a + 1) (put_all ws xs) = [v]" using assms by (intro sub_put_all) auto
  then have "a < length (put_all ws xs)" by (cases "a < length (put_all ws xs)") (auto simp: sub_def)
  then show ?thesis using s nth_sub [of 0 "a + 1" a "put_all ws xs"] by simp
qed

lemma put_all_eqI:
  assumes "layout lo ws (length xs)" and "length ys = length xs"
    and "\<And>a src. (a, src) \<in> set ws \<Longrightarrow> sub a (a + length src) ys = src"
    and "\<And>i. i < length xs \<Longrightarrow>
          (\<exists>(a, src) \<in> set ws. a \<le> i \<and> i < a + length src) \<or> ys ! i = xs ! i"
  shows "put_all ws xs = ys"
  using assms
proof (induction ws arbitrary: lo xs)
  case Nil
  then show ?case by (auto intro: nth_equalityI)
next
  case (Cons w ws)
  obtain c s where w: "w = (c, s)" by force
  then have l: "layout (c + length s) ws (length xs)" "c + length s \<le> length xs"
    using Cons.prems(1) layout_bound by auto
  have s: "sub c (c + length s) ys = s" using Cons.prems(3) w by simp
  have "put_all ws (put_at c s xs) = ys"
  proof (rule Cons.IH)
    fix i
    assume i: "i < length (put_at c s xs)"
    show "(\<exists>(a, src) \<in> set ws. a \<le> i \<and> i < a + length src) \<or> ys ! i = put_at c s xs ! i"
    proof (cases "c \<le> i \<and> i < c + length s")
      case True
      then have "ys ! i = s ! (i - c)"
        using s nth_sub [of "i - c" "c + length s" c ys] i l(2) Cons.prems(2) by fastforce
      then show ?thesis using True i l(2) by (simp add: nth_put_at)
    next
      case False
      then show ?thesis using Cons.prems(4) [of i] i l(2) w by (auto simp: nth_put_at)
    qed
  qed (use l Cons.prems in auto)
  then show ?case using w by simp
qed

text \<open>The writes tile the range from \<open>lo\<close> to \<open>hi\<close>.\<close>

fun tiles :: "nat \<Rightarrow> (nat \<times> 'a list) list \<Rightarrow> nat \<Rightarrow> bool" where
  "tiles lo [] hi \<longleftrightarrow> lo = hi"
| "tiles lo ((a, src) # ws) hi \<longleftrightarrow> a = lo \<and> tiles (a + length src) ws hi"

lemma tiles_cover:
  "tiles lo ws hi \<Longrightarrow> lo \<le> i \<Longrightarrow> i < hi \<Longrightarrow>
   \<exists>(a, src) \<in> set ws. a \<le> i \<and> i < a + length src"
proof (induction lo ws hi rule: tiles.induct)
  case (2 lo a src ws hi)
  then show ?case by (cases "i < a + length src") fastforce+
qed simp

lemma tiles_le: "tiles lo ws hi \<Longrightarrow> lo \<le> hi"
  by (induction lo ws hi rule: tiles.induct) auto

lemma tiles_put_all:
  "tiles lo ws hi \<Longrightarrow> hi \<le> length xs \<Longrightarrow>
   put_all ws xs = take lo xs @ concat (map snd ws) @ drop hi xs"
proof (induction lo ws hi arbitrary: xs rule: tiles.induct)
  case (1 lo hi)
  then show ?case by simp
next
  case (2 lo a src ws hi)
  then have t: "a = lo" "tiles (lo + length src) ws hi" by auto
  then have "lo + length src \<le> hi" by (blast dest: tiles_le)
  then have "take (lo + length src) (put_at lo src xs) = take lo xs @ src"
    "drop hi (put_at lo src xs) = drop hi xs"
    using 2(3) by (simp_all add: put_at_def min_absorb2)
  then show ?case using 2 t \<open>lo + length src \<le> hi\<close> by simp
qed

text \<open>Rust panics when the range is out of bounds; \<open>get_range\<close> is \<open>xs.get(a..b)\<close>.\<close>

definition get_range :: "nat \<Rightarrow> nat \<Rightarrow> 'a list \<Rightarrow> 'a list option" where
  "get_range a b xs = (if a \<le> b \<and> b \<le> length xs then Some (sub a b xs) else None)"

text \<open>\<open>xs.get(i)\<close>.\<close>

definition get_opt :: "'a list \<Rightarrow> nat \<Rightarrow> 'a option" where
  "get_opt xs i = (if i < length xs then Some (xs ! i) else None)"

lemma get_opt_Some [simp]: "i < length xs \<Longrightarrow> get_opt xs i = Some (xs ! i)"
  by (simp add: get_opt_def)

lemma get_opt_append: "i < length xs \<Longrightarrow> get_opt (xs @ ys) i = get_opt xs i"
  by (simp add: get_opt_def nth_append)

section \<open>Big- and little-endian codecs\<close>

text \<open>
  \<open>be_enc n w\<close> is \<open>w.to_be_bytes()\<close> for a word of \<open>n\<close> bytes; \<open>be_dec\<close> is
  \<open>from_be_bytes\<close>. Both work at every width.
\<close>

definition be_enc :: "nat \<Rightarrow> 'a::len word \<Rightarrow> bytes" where
  "be_enc n w = map (\<lambda>i. ucast (drop_bit (8 * (n - 1 - i)) w)) [0..<n]"

definition be_dec :: "bytes \<Rightarrow> 'a::len word" where
  "be_dec bs = foldl (\<lambda>acc b. push_bit 8 acc OR ucast b) 0 bs"

definition le_enc :: "nat \<Rightarrow> 'a::len word \<Rightarrow> bytes" where
  "le_enc n w = rev (be_enc n w)"

definition le_dec :: "bytes \<Rightarrow> 'a::len word" where
  "le_dec bs = be_dec (rev bs)"

lemma length_be_enc [simp]: "length (be_enc n w) = n"
  by (simp add: be_enc_def)

lemma length_le_enc [simp]: "length (le_enc n w) = n"
  by (simp add: le_enc_def)

lemma be_dec_Nil [simp]: "be_dec [] = 0"
  by (simp add: be_dec_def)

lemma be_dec_snoc: "be_dec (bs @ [b]) = push_bit 8 (be_dec bs) OR ucast b"
  by (simp add: be_dec_def)

lemma bit_be_enc:
  "i < n \<Longrightarrow> bit (be_enc n w ! i) k \<longleftrightarrow> k < 8 \<and> bit w (8 * (n - 1 - i) + k)"
  by (simp add: be_enc_def bit_simps)

lemma bit_be_dec:
  "bit (be_dec bs :: 'a::len word) k \<longleftrightarrow>
     k < LENGTH('a) \<and> k < 8 * length bs \<and> bit (bs ! (length bs - 1 - k div 8)) (k mod 8)"
proof (induction bs arbitrary: k rule: rev_induct)
  case Nil
  then show ?case by simp
next
  case (snoc b bs)
  show ?case
  proof (cases "k < 8")
    case True
    then show ?thesis by (auto simp: be_dec_snoc bit_simps nth_append)
  next
    case False
    then have k: "(k - 8) div 8 = k div 8 - 1" "(k - 8) mod 8 = k mod 8" "1 \<le> k div 8"
      by (auto simp: le_div_geq le_mod_geq)
    have nb: "\<not> bit b k" using False bit_imp_le_length [of b k] by auto
    have step: "bit (be_dec (bs @ [b]) :: 'a word) k \<longleftrightarrow>
        k < LENGTH('a) \<and> bit (be_dec bs :: 'a word) (k - 8)"
      using False nb by (auto simp: be_dec_snoc bit_simps)
    have eq: "length bs - 1 - (k - 8) div 8 = length bs - k div 8"
      using k by simp
    have idx: "(bs @ [b]) ! (length (bs @ [b]) - 1 - k div 8) = bs ! (length bs - k div 8)"
      if "k < 8 * length (bs @ [b])"
    proof -
      have "length bs - k div 8 < length bs" using that k(3) by (cases bs) auto
      then show ?thesis by (simp add: nth_append)
    qed
    have "k - 8 < 8 * length bs \<longleftrightarrow> k < 8 * length (bs @ [b])" using False by auto
    then show ?thesis
      unfolding step snoc [of "k - 8"] eq k(2) using idx by auto
  qed
qed

lemma be_dec_enc:
  assumes "LENGTH('a) \<le> 8 * n"
  shows "be_dec (be_enc n (w :: 'a::len word)) = w"
proof (rule bit_word_eqI)
  fix k
  assume k: "k < LENGTH('a)"
  then have "k div 8 < n" using assms by auto
  then have "n - Suc (n - Suc (k div 8)) = k div 8" and "n - Suc (k div 8) < n" by auto
  then show "bit (be_dec (be_enc n w) :: 'a word) k = bit w k"
    using k assms by (simp add: bit_be_dec bit_be_enc)
qed

lemma be_enc_dec:
  assumes "length bs = n" and "8 * n \<le> LENGTH('a)"
  shows "be_enc n (be_dec bs :: 'a::len word) = bs"
proof (rule nth_equalityI)
  show "length (be_enc n (be_dec bs :: 'a word)) = length bs" using assms by simp
next
  fix i
  assume "i < length (be_enc n (be_dec bs :: 'a word))"
  then have i: "i < n" by simp
  show "be_enc n (be_dec bs :: 'a word) ! i = bs ! i"
  proof (rule bit_word_eqI)
    fix k
    assume k: "k < LENGTH(8)"
    have "8 * (n - Suc i) + k < 8 * n" using i k by simp
    moreover have "n - Suc (n - Suc i) = i" using i by simp
    ultimately show "bit (be_enc n (be_dec bs :: 'a word) ! i) k = bit (bs ! i) k"
      using i k assms by (simp add: bit_be_dec bit_be_enc)
  qed
qed

lemma be_dec_enc_u16 [codec_simps]: "be_dec (be_enc 2 (w :: u16)) = w"
  by (rule be_dec_enc) simp

lemma be_dec_enc_u32 [codec_simps]: "be_dec (be_enc 4 (w :: u32)) = w"
  by (rule be_dec_enc) simp

lemma be_dec_enc_u64 [codec_simps]: "be_dec (be_enc 8 (w :: u64)) = w"
  by (rule be_dec_enc) simp

lemma be_enc_dec_u32 [codec_simps]: "length bs = 4 \<Longrightarrow> be_enc 4 (be_dec bs :: u32) = bs"
  by (rule be_enc_dec) simp_all

lemma be_enc_dec_u16 [codec_simps]: "length bs = 2 \<Longrightarrow> be_enc 2 (be_dec bs :: u16) = bs"
  by (rule be_enc_dec) simp_all

lemma be_enc_dec_u64 [codec_simps]: "length bs = 8 \<Longrightarrow> be_enc 8 (be_dec bs :: u64) = bs"
  by (rule be_enc_dec) simp_all

lemma le_dec_enc_u32 [codec_simps]: "le_dec (le_enc 4 (w :: u32)) = w"
  by (simp add: le_dec_def le_enc_def codec_simps)

lemma le_dec_enc_u16 [codec_simps]: "le_dec (le_enc 2 (w :: u16)) = w"
  by (simp add: le_dec_def le_enc_def codec_simps)

text \<open>Decimal and hexadecimal rendering, as \<open>format!("{}", n)\<close> does it.\<close>

fun dec_digits :: "nat \<Rightarrow> nat list" where
  "dec_digits n = (if n < 10 then [n] else dec_digits (n div 10) @ [n mod 10])"

declare dec_digits.simps [simp del]

definition dec :: "nat \<Rightarrow> string" where
  "dec n = map (\<lambda>d. char_of (48 + d)) (dec_digits n)"

definition hex_digit :: "nat \<Rightarrow> char" where
  "hex_digit d = (if d < 10 then char_of (48 + d) else char_of (87 + d))"

text \<open>\<open>format!("{:#04x}", b)\<close> of a byte.\<close>

definition hex_byte :: "u8 \<Rightarrow> string" where
  "hex_byte b = ''0x'' @ [hex_digit (unat b div 16), hex_digit (unat b mod 16)]"

section \<open>Results\<close>

text \<open>
  A Rust \<open>Result\<close> (or a computation that may panic) is a sum with the failure on the left.
  \<open>and_then\<close> is the \<open>?\<close> operator followed by the rest of the function body; \<open>ok_or\<close> turns an
  \<open>Option\<close> into a \<open>Result\<close>.
\<close>

definition and_then :: "'e + 'a \<Rightarrow> ('a \<Rightarrow> 'e + 'b) \<Rightarrow> 'e + 'b" where
  "and_then r f = (case r of Inl e \<Rightarrow> Inl e | Inr x \<Rightarrow> f x)"

definition ok_or :: "'e \<Rightarrow> 'a option \<Rightarrow> 'e + 'a" where
  "ok_or e r = (case r of None \<Rightarrow> Inl e | Some x \<Rightarrow> Inr x)"

definition ensure :: "'e \<Rightarrow> bool \<Rightarrow> 'e + unit" where
  "ensure e b = (if b then Inr () else Inl e)"

lemma and_then_Inr [simp]: "and_then (Inr x) f = f x"
  by (simp add: and_then_def)

lemma and_then_Inl [simp]: "and_then (Inl e) f = Inl e"
  by (simp add: and_then_def)

lemma and_then_eq_Inr [result_simps]:
  "and_then r f = Inr y \<longleftrightarrow> (\<exists>x. r = Inr x \<and> f x = Inr y)"
  by (cases r) simp_all

lemma and_then_eq_Inl [result_simps]:
  "and_then r f = Inl e \<longleftrightarrow> r = Inl e \<or> (\<exists>x. r = Inr x \<and> f x = Inl e)"
  by (cases r) auto

lemma ok_or_simps [simp]:
  "ok_or e None = Inl e"
  "ok_or e (Some x) = Inr x"
  by (simp_all add: ok_or_def)

lemma ok_or_eq_Inr [result_simps]: "ok_or e r = Inr x \<longleftrightarrow> r = Some x"
  by (cases r) simp_all

lemma ensure_eq_Inr [result_simps]: "ensure e b = Inr u \<longleftrightarrow> b"
  by (simp add: ensure_def)

lemma ensure_True [simp]: "b \<Longrightarrow> ensure e b = Inr ()"
  by (simp add: ensure_def)

lemma ensure_False [simp]: "\<not> b \<Longrightarrow> ensure e b = Inl e"
  by (simp add: ensure_def)

text \<open>A Rust \<open>for\<close> loop whose body may fail, threading an accumulator.\<close>

fun fold_result :: "('a \<Rightarrow> 's \<Rightarrow> 'e + 's) \<Rightarrow> 'a list \<Rightarrow> 's \<Rightarrow> 'e + 's" where
  "fold_result f [] s = Inr s"
| "fold_result f (x # xs) s = and_then (f x s) (fold_result f xs)"

text \<open>Mapping a fallible function over a list, stopping at the first failure.\<close>

fun map_result :: "('a \<Rightarrow> 'e + 'b) \<Rightarrow> 'a list \<Rightarrow> 'e + 'b list" where
  "map_result f [] = Inr []"
| "map_result f (x # xs) = and_then (f x) (\<lambda>y. and_then (map_result f xs) (\<lambda>ys. Inr (y # ys)))"

lemma map_result_Inr:
  "(\<And>x. x \<in> set xs \<Longrightarrow> f x = Inr (g x)) \<Longrightarrow> map_result f xs = Inr (map g xs)"
  by (induction xs) simp_all

lemma map_result_length: "map_result f xs = Inr ys \<Longrightarrow> length ys = length xs"
  by (induction xs arbitrary: ys) (auto simp: result_simps)

section \<open>Fixed-layout records\<close>

text \<open>
  The contract shared by every fixed-layout on-disk record: its fields tile the first \<open>n\<close> bytes
  of the buffer they are written into. Reading any field back gives the bytes written, and the
  rest of the buffer is untouched.
\<close>

locale tiled_record =
  fixes wf :: "'a \<Rightarrow> bool" and fields :: "'a \<Rightarrow> (nat \<times> bytes) list" and n :: nat
  assumes tiled: "wf x \<Longrightarrow> tiles 0 (fields x) n"
begin

lemma written:
  "wf x \<Longrightarrow> n \<le> length out \<Longrightarrow> put_all (fields x) out = concat (map snd (fields x)) @ drop n out"
  using tiles_put_all [OF tiled] by simp

lemma length_fields: "wf x \<Longrightarrow> length (concat (map snd (fields x))) = n"
proof -
  have "length (concat (map snd ws)) = hi - lo" if "tiles lo ws hi"
    for lo hi and ws :: "(nat \<times> bytes) list"
    using that by (induction lo ws hi rule: tiles.induct) (auto dest: tiles_le)
  then show "wf x \<Longrightarrow> length (concat (map snd (fields x))) = n" using tiled [of x] by force
qed

lemma length_written: "wf x \<Longrightarrow> n \<le> length out \<Longrightarrow> length (put_all (fields x) out) = length out"
  by (simp add: written length_fields)

lemma fits: "wf x \<Longrightarrow> n \<le> length out \<Longrightarrow> layout 0 (fields x) (length out)"
proof -
  have "layout lo ws m" if "tiles lo ws hi" "hi \<le> m" for lo hi m and ws :: "(nat \<times> bytes) list"
    using that by (induction lo ws hi rule: tiles.induct) auto
  then show "wf x \<Longrightarrow> n \<le> length out \<Longrightarrow> layout 0 (fields x) (length out)" using tiled by blast
qed

lemma field_read:
  "wf x \<Longrightarrow> (a, src) \<in> set (fields x) \<Longrightarrow> b = a + length src \<Longrightarrow> n \<le> length out \<Longrightarrow>
   sub a b (put_all (fields x) out) = src"
  using sub_put_all [OF fits] by blast

lemma byte_read:
  "wf x \<Longrightarrow> (a, [v]) \<in> set (fields x) \<Longrightarrow> n \<le> length out \<Longrightarrow> put_all (fields x) out ! a = v"
  using nth_put_all [OF fits] by blast

lemma rest_unchanged: "wf x \<Longrightarrow> n \<le> length out \<Longrightarrow> drop n (put_all (fields x) out) = drop n out"
  by (simp add: written length_fields)

end
end
