(* ===== verification/Errors.thy ===== *)
theory Errors
  imports Prelude
begin

text \<open>
  Result codes and the engine's error value (\<open>error.rs\<close>). A fallible operation of the engine is
  a \<open>'a result\<close>: \<open>Inr\<close> is Rust's \<open>Ok\<close>, \<open>Inl (Err e)\<close> is \<open>Err(e)\<close>, and \<open>Inl Panic\<close> is a
  Rust panic (an out-of-range index or slice, a failed \<open>assert!\<close> or \<open>expect\<close>).
\<close>

datatype result_code =
    Rc_Ok | Rc_Error | Rc_Internal | Rc_Perm | Rc_Abort | Rc_Busy | Rc_Locked | Rc_NoMem
  | Rc_ReadOnly | Rc_Interrupt | Rc_IoErr | Rc_Corrupt | Rc_NotFound | Rc_Full | Rc_CantOpen
  | Rc_Protocol | Rc_Empty | Rc_Schema | Rc_TooBig | Rc_Constraint | Rc_Mismatch | Rc_Misuse
  | Rc_NoLfs | Rc_Auth | Rc_Format | Rc_Range | Rc_NotADb | Rc_Notice | Rc_Warning
  | Rc_Row | Rc_Done

fun result_code_code :: "result_code \<Rightarrow> int" where
  "result_code_code Rc_Ok = 0"
| "result_code_code Rc_Error = 1"
| "result_code_code Rc_Internal = 2"
| "result_code_code Rc_Perm = 3"
| "result_code_code Rc_Abort = 4"
| "result_code_code Rc_Busy = 5"
| "result_code_code Rc_Locked = 6"
| "result_code_code Rc_NoMem = 7"
| "result_code_code Rc_ReadOnly = 8"
| "result_code_code Rc_Interrupt = 9"
| "result_code_code Rc_IoErr = 10"
| "result_code_code Rc_Corrupt = 11"
| "result_code_code Rc_NotFound = 12"
| "result_code_code Rc_Full = 13"
| "result_code_code Rc_CantOpen = 14"
| "result_code_code Rc_Protocol = 15"
| "result_code_code Rc_Empty = 16"
| "result_code_code Rc_Schema = 17"
| "result_code_code Rc_TooBig = 18"
| "result_code_code Rc_Constraint = 19"
| "result_code_code Rc_Mismatch = 20"
| "result_code_code Rc_Misuse = 21"
| "result_code_code Rc_NoLfs = 22"
| "result_code_code Rc_Auth = 23"
| "result_code_code Rc_Format = 24"
| "result_code_code Rc_Range = 25"
| "result_code_code Rc_NotADb = 26"
| "result_code_code Rc_Notice = 27"
| "result_code_code Rc_Warning = 28"
| "result_code_code Rc_Row = 100"
| "result_code_code Rc_Done = 101"

record error =
  err_code :: result_code
  err_extended_code :: int
  err_message :: string

definition error_new :: "result_code \<Rightarrow> string \<Rightarrow> error" where
  "error_new code message =
     \<lparr>err_code = code, err_extended_code = result_code_code code, err_message = message\<rparr>"

datatype failure = Err error | Panic

type_synonym 'a result = "failure + 'a"

definition corrupt :: "string \<Rightarrow> failure" where
  "corrupt message = Err (error_new Rc_Corrupt message)"

definition not_a_db :: "string \<Rightarrow> failure" where
  "not_a_db message = Err (error_new Rc_NotADb message)"

definition io_err :: "string \<Rightarrow> failure" where
  "io_err message = Err (error_new Rc_IoErr message)"

definition busy :: "string \<Rightarrow> failure" where
  "busy message = Err (error_new Rc_Busy message)"

definition error_msg :: "string \<Rightarrow> failure" where
  "error_msg message = Err (error_new Rc_Error message)"

definition failure_code :: "failure \<Rightarrow> result_code option" where
  "failure_code f = (case f of Err e \<Rightarrow> Some (err_code e) | Panic \<Rightarrow> None)"

lemma failure_code_simps [simp]:
  "failure_code (corrupt m) = Some Rc_Corrupt"
  "failure_code (not_a_db m) = Some Rc_NotADb"
  "failure_code (io_err m) = Some Rc_IoErr"
  "failure_code (busy m) = Some Rc_Busy"
  "failure_code (error_msg m) = Some Rc_Error"
  "failure_code Panic = None"
  by (simp_all add: failure_code_def corrupt_def not_a_db_def io_err_def busy_def error_msg_def
      error_new_def)

lemma not_panic [simp]:
  "corrupt m \<noteq> Panic" "not_a_db m \<noteq> Panic" "io_err m \<noteq> Panic" "busy m \<noteq> Panic"
  "error_msg m \<noteq> Panic"
  by (simp_all add: corrupt_def not_a_db_def io_err_def busy_def error_msg_def)

text \<open>\<open>xs[a..b]\<close> where nothing guards the range: out of bounds panics.\<close>

definition index_range :: "nat \<Rightarrow> nat \<Rightarrow> 'a list \<Rightarrow> 'a list result" where
  "index_range a b xs = ok_or Panic (get_range a b xs)"

lemma index_range_Inr [simp]: "a \<le> b \<Longrightarrow> b \<le> length xs \<Longrightarrow> index_range a b xs = Inr (sub a b xs)"
  by (simp add: index_range_def get_range_def)

lemma index_range_eq_Inr [result_simps]:
  "index_range a b xs = Inr ys \<longleftrightarrow> a \<le> b \<and> b \<le> length xs \<and> ys = sub a b xs"
  by (auto simp: index_range_def get_range_def)

lemma result_code_code_inj: "result_code_code a = result_code_code b \<Longrightarrow> a = b"
  by (cases a; cases b) simp_all

end
