(* ===== verification/State_Ops.thy ===== *)
theory State_Ops
  imports Errors "HOL-Library.AList"
begin

text \<open>
  Operations on a state that may fail, the shape of every method of the pager and of the b-tree:
  an operation takes the state and returns the new state beside a result. An error keeps the state
  reached so far, as a Rust method that returns early with \<open>?\<close> keeps the mutations it has made.
  Hash maps are association lists updated with \<open>AList.update\<close>; the lemmas on \<open>retain\<close> and
  \<open>update\<close> are shared by the cache, the dirty overlay and the savepoint snapshots.
\<close>

type_synonym ('s, 'a) op = "'s \<Rightarrow> 's \<times> 'a result"

named_theorems op_simps \<open>unfolding of operations\<close>

definition ret_op :: "'a \<Rightarrow> ('s, 'a) op" where
  "ret_op x s = (s, Inr x)"

definition fail_op :: "failure \<Rightarrow> ('s, 'a) op" where
  "fail_op e s = (s, Inl e)"

definition lift_op :: "'a result \<Rightarrow> ('s, 'a) op" where
  "lift_op r s = (s, r)"

definition get_op :: "('s \<Rightarrow> 'a) \<Rightarrow> ('s, 'a) op" where
  "get_op f s = (s, Inr (f s))"

definition modify_op :: "('s \<Rightarrow> 's) \<Rightarrow> ('s, unit) op" where
  "modify_op f s = (f s, Inr ())"

definition bind_op :: "('s, 'a) op \<Rightarrow> ('a \<Rightarrow> ('s, 'b) op) \<Rightarrow> ('s, 'b) op" where
  "bind_op m f s = (case m s of (s', Inl e) \<Rightarrow> (s', Inl e) | (s', Inr x) \<Rightarrow> f x s')"

definition then_op :: "('s, unit) op \<Rightarrow> ('s, 'b) op \<Rightarrow> ('s, 'b) op" where
  "then_op m n = bind_op m (\<lambda>_. n)"

fun each_op :: "('a \<Rightarrow> ('s, unit) op) \<Rightarrow> 'a list \<Rightarrow> ('s, unit) op" where
  "each_op f [] s = (s, Inr ())"
| "each_op f (x # xs) s = bind_op (f x) (\<lambda>_. each_op f xs) s"

text \<open>A loop that pushes one result per element.\<close>

fun map_op :: "('a \<Rightarrow> ('s, 'b) op) \<Rightarrow> 'a list \<Rightarrow> ('s, 'b list) op" where
  "map_op f [] = (\<lambda>s. (s, Inr []))"
| "map_op f (x # xs) = bind_op (f x) (\<lambda>y. bind_op (map_op f xs) (\<lambda>ys s. (s, Inr (y # ys))))"

lemma op_apply [simp, op_simps]:
  "ret_op x s = (s, Inr x)" "fail_op e s = (s, Inl e)" "lift_op r s = (s, r)"
  "get_op f s = (s, Inr (f s))" "modify_op g s = (g s, Inr ())"
  by (simp_all add: ret_op_def fail_op_def lift_op_def get_op_def modify_op_def)

lemma bind_op_Inr [simp]: "m s = (s', Inr x) \<Longrightarrow> bind_op m f s = f x s'"
  by (simp add: bind_op_def)

lemma bind_op_Inl [simp]: "m s = (s', Inl e) \<Longrightarrow> bind_op m f s = (s', Inl e)"
  by (simp add: bind_op_def)

lemma then_op_Inr [simp]: "m s = (s', Inr u) \<Longrightarrow> then_op m n s = n s'"
  by (simp add: then_op_def)

lemma then_op_Inl [simp]: "m s = (s', Inl e) \<Longrightarrow> then_op m n s = (s', Inl e)"
  by (simp add: then_op_def)

lemma bind_op_ret [simp]: "bind_op (ret_op x) f = f x" "bind_op (fail_op e) f = fail_op e"
  "bind_op (lift_op (Inr x)) f = f x" "bind_op (lift_op (Inl e)) f = fail_op e"
  by (rule ext, simp)+

lemma bind_op_success:
  "bind_op m f s = (s'', Inr y) \<longleftrightarrow> (\<exists>s' x. m s = (s', Inr x) \<and> f x s' = (s'', Inr y))"
  by (auto simp: bind_op_def split: prod.splits sum.splits)

lemma then_op_success:
  "then_op m n s = (s'', Inr y) \<longleftrightarrow> (\<exists>s'. m s = (s', Inr ()) \<and> n s' = (s'', Inr y))"
  by (auto simp: then_op_def bind_op_success)

text \<open>A property every step keeps is kept by a sequence of steps.\<close>

definition keeps :: "('s \<Rightarrow> bool) \<Rightarrow> ('s, 'a) op \<Rightarrow> bool" where
  "keeps P m \<longleftrightarrow> (\<forall>s. P s \<longrightarrow> P (fst (m s)))"

lemma keepsD: "keeps P m \<Longrightarrow> P s \<Longrightarrow> m s = (s', r) \<Longrightarrow> P s'"
  by (metis keeps_def fst_conv)

lemma keeps_basic [simp]: "keeps P (ret_op x)" "keeps P (fail_op e)" "keeps P (lift_op r)" "keeps P (get_op f)"
  by (simp_all add: keeps_def)

lemma keeps_modify: "(\<And>s. P s \<Longrightarrow> P (f s)) \<Longrightarrow> keeps P (modify_op f)"
  by (simp add: keeps_def)

lemma keeps_bind: "keeps P m \<Longrightarrow> (\<And>x. keeps P (f x)) \<Longrightarrow> keeps P (bind_op m f)"
  by (auto simp: keeps_def bind_op_def split: prod.splits sum.splits)

lemma keeps_then: "keeps P m \<Longrightarrow> keeps P n \<Longrightarrow> keeps P (then_op m n)"
  by (simp add: then_op_def keeps_bind)

lemma keeps_each: "(\<And>x. keeps P (f x)) \<Longrightarrow> keeps P (each_op f xs)"
  by (induction xs) (simp_all add: keeps_def keeps_bind [unfolded keeps_def])

text \<open>A relation between states that every step of a loop keeps, with the results of the steps.\<close>

lemma map_op_results:
  assumes "R s s" and "\<And>a b c. R a b \<Longrightarrow> R b c \<Longrightarrow> R a c"
    and "\<And>s' x. R s s' \<Longrightarrow> x \<in> set xs \<Longrightarrow> \<exists>s''. f x s' = (s'', Inr (g x)) \<and> R s' s''"
  shows "\<exists>s'. map_op f xs s = (s', Inr (map g xs)) \<and> R s s'"
proof -
  have "\<exists>s''. map_op f ys s' = (s'', Inr (map g ys)) \<and> R s s''" if "set ys \<subseteq> set xs" "R s s'" for ys s'
    using that
  proof (induction ys arbitrary: s')
    case (Cons y ys)
    have "y \<in> set xs" "set ys \<subseteq> set xs" using Cons.prems(1) by auto
    obtain s1 where s1: "f y s' = (s1, Inr (g y))" "R s' s1"
      using assms(3) [OF Cons.prems(2) \<open>y \<in> set xs\<close>] by blast
    have "R s s1" using Cons.prems(2) s1(2) by (rule assms(2))
    then obtain s2 where "map_op f ys s1 = (s2, Inr (map g ys))" "R s s2"
      using Cons.IH [OF \<open>set ys \<subseteq> set xs\<close>] by blast
    then show ?case using s1 by (intro exI [of _ s2]) simp
  qed simp
  then show ?thesis using assms(1) by blast
qed

section \<open>Hash maps as association lists\<close>

abbreviation put :: "'k \<Rightarrow> 'v \<Rightarrow> ('k \<times> 'v) list \<Rightarrow> ('k \<times> 'v) list" where
  "put \<equiv> AList.update"

definition retain :: "('k \<Rightarrow> bool) \<Rightarrow> ('k \<times> 'v) list \<Rightarrow> ('k \<times> 'v) list" where
  "retain P m = filter (\<lambda>(k, v). P k) m"

lemma map_of_put [simp]: "map_of (put k v m) = (map_of m)(k \<mapsto> v)"
  by (rule update_conv')

lemma distinct_put [simp]: "distinct (map fst m) \<Longrightarrow> distinct (map fst (put k v m))"
  by (rule distinct_update)

lemma keys_put [simp]: "fst ` set (put k v m) = insert k (fst ` set m)"
  by (simp add: dom_update)

lemma set_put: "distinct (map fst m) \<Longrightarrow> kv \<in> set (put k v m) \<longleftrightarrow> kv = (k, v) \<or> (kv \<in> set m \<and> fst kv \<noteq> k)"
proof -
  assume d: "distinct (map fst m)"
  then have "kv \<in> set (put k v m) \<longleftrightarrow> map_of (put k v m) (fst kv) = Some (snd kv)"
    by (metis distinct_put map_of_eq_Some_iff prod.collapse)
  moreover have "kv \<in> set m \<longleftrightarrow> map_of m (fst kv) = Some (snd kv)"
    using d by (metis map_of_eq_Some_iff prod.collapse)
  ultimately show ?thesis by (cases kv) auto
qed

lemma set_put_subset: "set (put k v m) \<subseteq> insert (k, v) (set m)"
  by (induction m) auto

lemma map_of_retain [simp]: "map_of (retain P m) k = (if P k then map_of m k else None)"
  by (induction m) (auto simp: retain_def)

lemma set_retain [simp]: "kv \<in> set (retain P m) \<longleftrightarrow> kv \<in> set m \<and> P (fst kv)"
  by (cases kv) (simp add: retain_def)

lemma distinct_retain [simp]: "distinct (map fst m) \<Longrightarrow> distinct (map fst (retain P m))"
  by (induction m) (auto simp: retain_def)

end
