(* ===== verification/Header.thy ===== *)
theory Header
  imports Errors
begin

text \<open>
  The 100-byte database header (\<open>format/header.rs\<close>): \<open>parse\<close> and \<open>serialize\<close> of \<open>DbHeader\<close>,
  field for field. Every page-level component reads the page size, the freelist and the page
  count from it.
\<close>

section \<open>The header record\<close>

definition MAGIC :: bytes where
  "MAGIC = [0x53, 0x51, 0x4c, 0x69, 0x74, 0x65, 0x20, 0x66,
            0x6f, 0x72, 0x6d, 0x61, 0x74, 0x20, 0x33, 0x00]"

datatype text_encoding = Utf8 | Utf16Le | Utf16Be

definition text_encoding_from_code :: "u32 \<Rightarrow> text_encoding" where
  "text_encoding_from_code code =
     (if code = 2 then Utf16Le else if code = 3 then Utf16Be else Utf8)"

fun text_encoding_code :: "text_encoding \<Rightarrow> u32" where
  "text_encoding_code Utf8 = 1"
| "text_encoding_code Utf16Le = 2"
| "text_encoding_code Utf16Be = 3"

text \<open>The two \<open>i32\<close> fields are kept as their bit patterns.\<close>

record db_header =
  page_size :: u32
  write_version :: u8
  read_version :: u8
  reserved_space :: u8
  file_change_counter :: u32
  db_size_pages :: u32
  first_freelist_trunk :: u32
  freelist_count :: u32
  schema_cookie :: u32
  schema_format :: u32
  default_cache_size :: u32
  largest_root_page :: u32
  text_encoding :: text_encoding
  user_version :: u32
  incremental_vacuum :: u32
  application_id :: u32
  version_valid_for :: u32
  sqlite_version_number :: u32

definition usable_size :: "db_header \<Rightarrow> u32" where
  "usable_size h = page_size h - ucast (reserved_space h)"

text \<open>\<open>u32::is_power_of_two\<close>: exactly one bit is set.\<close>

definition is_power_of_two :: "u32 \<Rightarrow> bool" where
  "is_power_of_two n \<longleftrightarrow> length (filter (bit n) [0..<32]) = 1"

definition is_valid_page_size :: "u32 \<Rightarrow> bool" where
  "is_valid_page_size n \<longleftrightarrow> 512 \<le> n \<and> n \<le> 65536 \<and> is_power_of_two n"

definition be_u16 :: "bytes \<Rightarrow> u16" where
  "be_u16 b = be_dec (take 2 b)"

definition be_u32 :: "bytes \<Rightarrow> u32" where
  "be_u32 b = be_dec (take 4 b)"

section \<open>Parsing and serializing\<close>

definition header_page_size :: "bytes \<Rightarrow> u32" where
  "header_page_size b =
     (let raw_page_size = be_u16 (sub 16 18 b) in
      if raw_page_size = 1 then 65536 else ucast raw_page_size)"

definition parse_fields :: "bytes \<Rightarrow> db_header" where
  "parse_fields b =
     \<lparr>page_size = header_page_size b,
      write_version = b ! 18,
      read_version = b ! 19,
      reserved_space = b ! 20,
      file_change_counter = be_u32 (sub 24 28 b),
      db_size_pages = be_u32 (sub 28 32 b),
      first_freelist_trunk = be_u32 (sub 32 36 b),
      freelist_count = be_u32 (sub 36 40 b),
      schema_cookie = be_u32 (sub 40 44 b),
      schema_format = be_u32 (sub 44 48 b),
      default_cache_size = be_u32 (sub 48 52 b),
      largest_root_page = be_u32 (sub 52 56 b),
      text_encoding = text_encoding_from_code (be_u32 (sub 56 60 b)),
      user_version = be_u32 (sub 60 64 b),
      incremental_vacuum = be_u32 (sub 64 68 b),
      application_id = be_u32 (sub 68 72 b),
      version_valid_for = be_u32 (sub 92 96 b),
      sqlite_version_number = be_u32 (sub 96 100 b)\<rparr>"

definition parse_header :: "bytes \<Rightarrow> db_header result" where
  "parse_header b =
     (if length b < 100 then Inl (not_a_db ''file is shorter than the 100-byte header'')
      else if sub 0 16 b \<noteq> MAGIC
      then Inl (not_a_db ''file is not a database (bad header magic)'')
      else if \<not> is_valid_page_size (header_page_size b)
      then Inl (corrupt (''invalid page size '' @ dec (unat (header_page_size b))))
      else if header_page_size b < 480 + ucast (b ! 20)
      then Inl (not_a_db ''usable page size is below the 480-byte minimum'')
      else if b ! 19 > 2
      then Inl (not_a_db (''unsupported file format read version '' @ dec (unat (b ! 19))))
      else Inr (parse_fields b))"

definition raw_page_size :: "db_header \<Rightarrow> u16" where
  "raw_page_size h = (if page_size h = 65536 then 1 else ucast (page_size h))"

text \<open>The writes of \<open>serialize\<close>, in the order of the source.\<close>

definition serialize_fields :: "db_header \<Rightarrow> (nat \<times> bytes) list" where
  "serialize_fields h =
     [(0, MAGIC),
      (16, be_enc 2 (raw_page_size h)),
      (18, [write_version h]),
      (19, [read_version h]),
      (20, [reserved_space h]),
      (21, [64]),
      (22, [32]),
      (23, [32]),
      (24, be_enc 4 (file_change_counter h)),
      (28, be_enc 4 (db_size_pages h)),
      (32, be_enc 4 (first_freelist_trunk h)),
      (36, be_enc 4 (freelist_count h)),
      (40, be_enc 4 (schema_cookie h)),
      (44, be_enc 4 (schema_format h)),
      (48, be_enc 4 (default_cache_size h)),
      (52, be_enc 4 (largest_root_page h)),
      (56, be_enc 4 (text_encoding_code (text_encoding h))),
      (60, be_enc 4 (user_version h)),
      (64, be_enc 4 (incremental_vacuum h)),
      (68, be_enc 4 (application_id h)),
      (92, be_enc 4 (version_valid_for h)),
      (96, be_enc 4 (sqlite_version_number h))]"

definition serialize_header :: "db_header \<Rightarrow> bytes" where
  "serialize_header h = put_all (serialize_fields h) (replicate 100 0)"

section \<open>Round trips\<close>

lemma header_layout: "layout 0 (serialize_fields h) (length (replicate 100 (0 :: u8)))"
  by (simp add: serialize_fields_def MAGIC_def)

lemma length_serialize_header [simp]: "length (serialize_header h) = 100"
  using length_put_all [OF header_layout] by (simp add: serialize_header_def)

lemma serialize_slice:
  "(a, src) \<in> set (serialize_fields h) \<Longrightarrow> b = a + length src \<Longrightarrow> sub a b (serialize_header h) = src"
  unfolding serialize_header_def by (rule sub_put_all [OF header_layout])

lemma serialize_byte: "(a, [v]) \<in> set (serialize_fields h) \<Longrightarrow> serialize_header h ! a = v"
  unfolding serialize_header_def by (rule nth_put_all [OF header_layout])

lemma serialize_slices [buf_simps]:
  "sub 0 16 (serialize_header h) = MAGIC"
  "sub 16 18 (serialize_header h) = be_enc 2 (raw_page_size h)"
  "sub 24 28 (serialize_header h) = be_enc 4 (file_change_counter h)"
  "sub 28 32 (serialize_header h) = be_enc 4 (db_size_pages h)"
  "sub 32 36 (serialize_header h) = be_enc 4 (first_freelist_trunk h)"
  "sub 36 40 (serialize_header h) = be_enc 4 (freelist_count h)"
  "sub 40 44 (serialize_header h) = be_enc 4 (schema_cookie h)"
  "sub 44 48 (serialize_header h) = be_enc 4 (schema_format h)"
  "sub 48 52 (serialize_header h) = be_enc 4 (default_cache_size h)"
  "sub 52 56 (serialize_header h) = be_enc 4 (largest_root_page h)"
  "sub 56 60 (serialize_header h) = be_enc 4 (text_encoding_code (text_encoding h))"
  "sub 60 64 (serialize_header h) = be_enc 4 (user_version h)"
  "sub 64 68 (serialize_header h) = be_enc 4 (incremental_vacuum h)"
  "sub 68 72 (serialize_header h) = be_enc 4 (application_id h)"
  "sub 92 96 (serialize_header h) = be_enc 4 (version_valid_for h)"
  "sub 96 100 (serialize_header h) = be_enc 4 (sqlite_version_number h)"
  by (rule serialize_slice; simp add: serialize_fields_def MAGIC_def)+

lemma serialize_bytes [buf_simps]:
  "serialize_header h ! 18 = write_version h"
  "serialize_header h ! 19 = read_version h"
  "serialize_header h ! 20 = reserved_space h"
  by (rule serialize_byte; simp add: serialize_fields_def)+

lemma be_u16_enc [codec_simps]: "be_u16 (be_enc 2 w) = w"
  by (simp add: be_u16_def codec_simps)

lemma be_u32_enc [codec_simps]: "be_u32 (be_enc 4 w) = w"
  by (simp add: be_u32_def codec_simps)

lemma text_encoding_roundtrip [simp]: "text_encoding_from_code (text_encoding_code e) = e"
  by (cases e) (simp_all add: text_encoding_from_code_def)

lemma header_page_size_serialize:
  assumes "is_valid_page_size (page_size h)"
  shows "header_page_size (serialize_header h) = page_size h"
proof (cases "page_size h = 65536")
  case True
  then show ?thesis
    by (simp add: header_page_size_def buf_simps codec_simps raw_page_size_def)
next
  case False
  then have r: "512 \<le> unat (page_size h)" "unat (page_size h) < 65536"
    using assms by (auto simp: is_valid_page_size_def word_le_nat_alt word_unat_eq_iff)
  then have c: "ucast (ucast (page_size h) :: u16) = page_size h"
    by (intro word_unat_eq_iff [THEN iffD2]) (simp add: unsigned_ucast_eq unsigned_take_bit_eq take_bit_nat_eq_self)
  have "unat (ucast (page_size h) :: u16) = unat (page_size h)"
    using r by (simp add: unsigned_ucast_eq take_bit_nat_eq_self)
  then have "(ucast (page_size h) :: u16) \<noteq> 1" using r by auto
  then show ?thesis
    using False c by (simp add: header_page_size_def buf_simps codec_simps raw_page_size_def)
qed

text \<open>What \<open>DbHeader::parse\<close> accepts.\<close>

definition valid_header :: "db_header \<Rightarrow> bool" where
  "valid_header h \<longleftrightarrow> is_valid_page_size (page_size h)
     \<and> 480 + ucast (reserved_space h) \<le> page_size h \<and> read_version h \<le> 2"

lemma parse_serialize_fields:
  "is_valid_page_size (page_size h) \<Longrightarrow> parse_fields (serialize_header h) = h"
  by (simp add: parse_fields_def header_page_size_serialize buf_simps codec_simps)

lemma parse_header_errors:
  "length b < 100 \<Longrightarrow>
     parse_header b = Inl (not_a_db ''file is shorter than the 100-byte header'')"
  "100 \<le> length b \<Longrightarrow> sub 0 16 b \<noteq> MAGIC \<Longrightarrow>
     parse_header b = Inl (not_a_db ''file is not a database (bad header magic)'')"
  by (simp_all add: parse_header_def)

lemma parse_header_valid: "parse_header b = Inr h \<Longrightarrow> valid_header h \<and> 100 \<le> length b"
  by (auto simp: parse_header_def valid_header_def parse_fields_def not_less split: if_splits)

lemma header_roundtrip [codec_simps]:
  assumes "valid_header h"
  shows "parse_header (serialize_header h @ rest) = Inr h"
proof -
  have app: "parse_fields (serialize_header h @ rest) = parse_fields (serialize_header h)"
    "header_page_size (serialize_header h @ rest) = header_page_size (serialize_header h)"
    "sub 0 16 (serialize_header h @ rest) = sub 0 16 (serialize_header h)"
    "(serialize_header h @ rest) ! 19 = serialize_header h ! 19"
    "(serialize_header h @ rest) ! 20 = serialize_header h ! 20"
    by (simp_all add: parse_fields_def header_page_size_def sub_append_left nth_append)
  show ?thesis
    using assms
    by (simp add: parse_header_def app valid_header_def buf_simps header_page_size_serialize
        parse_serialize_fields not_less)
qed

text \<open>
  C7. Parsing a serialized header gives the header back: for every header that \<open>parse\<close> can
  accept at all (a valid page size, at least 480 usable bytes, read version at most 2), parsing
  the 100 bytes of \<open>serialize\<close>, followed by anything, succeeds with exactly that header.
\<close>

theorem parse_serialize_header:
  assumes "valid_header h"
  shows "parse_header (serialize_header h @ rest) = Inr h"
  using assms by (rule header_roundtrip)

definition demo_header :: db_header where
  "demo_header =
     \<lparr>page_size = 4096, write_version = 1, read_version = 1, reserved_space = 0,
      file_change_counter = 7, db_size_pages = 3, first_freelist_trunk = 2, freelist_count = 1,
      schema_cookie = 5, schema_format = 4, default_cache_size = -2000, largest_root_page = 0,
      text_encoding = Utf8, user_version = 0, incremental_vacuum = 0, application_id = 0,
      version_valid_for = 7, sqlite_version_number = 3053001\<rparr>"

theorem parse_serialize_header_witness:
  "parse_header (serialize_header demo_header @ [1, 2, 3]) = Inr demo_header"
  by (rule parse_serialize_header) code_simp

text \<open>
  The bytes \<open>parse\<close> does not store have the values \<open>serialize\<close> writes: the three payload
  fractions, the reserved-for-expansion area, and one of the three defined encodings.
\<close>

definition canonical_header_bytes :: "bytes \<Rightarrow> bool" where
  "canonical_header_bytes b \<longleftrightarrow> length b = 100 \<and> sub 21 24 b = [64, 32, 32]
     \<and> sub 72 92 b = replicate 20 0 \<and> be_u32 (sub 56 60 b) \<in> {1, 2, 3}"

lemma be_enc_u32_slice:
  "b = a + 4 \<Longrightarrow> b \<le> length xs \<Longrightarrow> be_enc 4 (be_u32 (sub a b xs)) = sub a b xs"
  by (simp add: be_u32_def codec_simps)

lemma be_enc_u16_slice:
  "b = a + 2 \<Longrightarrow> b \<le> length xs \<Longrightarrow> be_enc 2 (be_u16 (sub a b xs)) = sub a b xs"
  by (simp add: be_u16_def codec_simps)

lemma raw_page_size_parse: "raw_page_size (parse_fields b) = be_u16 (sub 16 18 b)"
proof -
  have "(ucast w :: u32) \<noteq> 65536" for w :: u16
  proof
    assume "(ucast w :: u32) = 65536"
    then have "unat (ucast w :: u32) = 65536" by simp
    moreover have "unat w < 65536" using unsigned_less [of w] by simp
    ultimately show False by (simp add: unsigned_ucast_eq take_bit_nat_eq_self)
  qed
  moreover have "ucast (ucast w :: u32) = w" for w :: u16
    by (rule bit_word_eqI) (simp add: bit_simps)
  ultimately show ?thesis
    unfolding raw_page_size_def parse_fields_def header_page_size_def Let_def by auto
qed

lemma sub_single: "b = Suc i \<Longrightarrow> i < length xs \<Longrightarrow> sub i b xs = [xs ! i]"
  by (simp add: sub_def take_Suc_conv_app_nth)

lemma serialize_fields_parse:
  assumes "canonical_header_bytes b" and "sub 0 16 b = MAGIC"
    and "(a, src) \<in> set (serialize_fields (parse_fields b))"
  shows "sub a (a + length src) b = src"
proof -
  have c: "length b = 100" "b ! 21 = 64" "b ! 22 = 32" "b ! 23 = 32"
    using assms(1) nth_sub [of 0 24 21 b] nth_sub [of 1 24 21 b] nth_sub [of 2 24 21 b]
    by (simp_all add: canonical_header_bytes_def)
  have e: "text_encoding_code (text_encoding_from_code (be_u32 (sub 56 60 b))) =
      be_u32 (sub 56 60 b)"
    using assms(1) by (auto simp: canonical_header_bytes_def text_encoding_from_code_def)
  have m: "length MAGIC = 16" by (simp add: MAGIC_def)
  show ?thesis
    using assms(2,3) unfolding serialize_fields_def raw_page_size_parse
    by (auto simp: parse_fields_def be_enc_u32_slice be_enc_u16_slice c e m sub_single)
qed

lemma header_gap:
  assumes "i < 100"
  shows "(\<exists>(a, src) \<in> set (serialize_fields h). a \<le> i \<and> i < a + length src) \<or> 72 \<le> i \<and> i < 92"
proof -
  have "tiles 0 (take 20 (serialize_fields h)) 72" "tiles 92 (drop 20 (serialize_fields h)) 100"
    by (simp_all add: serialize_fields_def MAGIC_def)
  from tiles_cover [OF this(1), of i] tiles_cover [OF this(2), of i]
  have "i < 72 \<or> 92 \<le> i \<Longrightarrow> \<exists>(a, src) \<in> set (serialize_fields h). a \<le> i \<and> i < a + length src"
    using assms by (blast dest: in_set_takeD in_set_dropD)
  then show ?thesis by linarith
qed

text \<open>
  Serializing a parsed header reproduces the file byte for byte: if \<open>parse\<close> accepts a
  100-byte header whose unstored bytes have their fixed values (payload fractions 64, 32, 32, a
  zero expansion area, a defined text encoding), \<open>serialize\<close> returns exactly those bytes.
\<close>

theorem serialize_parse_header:
  assumes "parse_header b = Inr h" and "canonical_header_bytes b"
  shows "serialize_header h = b"
proof -
  have p: "h = parse_fields b" "sub 0 16 b = MAGIC" and l: "length b = 100"
    using assms by (auto simp: parse_header_def canonical_header_bytes_def split: if_splits)
  have gap: "b ! i = 0" if "72 \<le> i" "i < 92" for i
  proof -
    have "sub 72 92 b ! (i - 72) = 0"
      using assms(2) that by (simp add: canonical_header_bytes_def)
    then show ?thesis using that l by simp
  qed
  show ?thesis
    unfolding serialize_header_def
  proof (rule put_all_eqI [OF header_layout])
    fix i
    assume "i < length (replicate 100 (0 :: u8))"
    then show "(\<exists>(a, src) \<in> set (serialize_fields h). a \<le> i \<and> i < a + length src)
        \<or> b ! i = replicate 100 0 ! i"
      using header_gap [of i h] gap by fastforce
  qed (use serialize_fields_parse p l assms in auto)
qed

definition demo_header_bytes :: bytes where
  "demo_header_bytes = MAGIC @ [0x10, 0, 1, 1, 0, 64, 32, 32, 0, 0, 0, 7, 0, 0, 0, 3, 0, 0, 0, 2,
     0, 0, 0, 1, 0, 0, 0, 5, 0, 0, 0, 4, 0xff, 0xff, 0xf8, 0x30, 0, 0, 0, 0, 0, 0, 0, 1,
     0, 0, 0, 0, 0, 0, 0, 0, 0, 0, 0, 0] @ replicate 20 0 @ [0, 0, 0, 7, 0, 0x2e, 0x95, 0xc9]"

theorem serialize_parse_header_witness:
  "parse_header demo_header_bytes = Inr demo_header \<and> serialize_header demo_header = demo_header_bytes"
proof -
  have "parse_header demo_header_bytes = Inr demo_header" by code_simp
  moreover have "canonical_header_bytes demo_header_bytes" by code_simp
  ultimately show ?thesis using serialize_parse_header by blast
qed

end
