(* ===== verification/Ptrmap.thy ===== *)
theory Ptrmap
  imports Header
begin

text \<open>
  Pointer-map arithmetic of \<open>btree/ptrmap.rs\<close>: which page holds the entry of a page, and where.
  (Reading and writing an entry goes through the pager and is in \<open>Pager\<close>.) The lemmas show that
  an entry always lies inside the usable part of its pointer-map page and that two pages never
  share an entry.
\<close>

definition PTRMAP_ENTRY_SIZE :: nat where "PTRMAP_ENTRY_SIZE = 5"

datatype ptrmap_type = RootPage | FreePage | Overflow1 | Overflow2 | Btree

fun ptrmap_code :: "ptrmap_type \<Rightarrow> u8" where
  "ptrmap_code RootPage = 1"
| "ptrmap_code FreePage = 2"
| "ptrmap_code Overflow1 = 3"
| "ptrmap_code Overflow2 = 4"
| "ptrmap_code Btree = 5"

definition ptrmap_from_code :: "u8 \<Rightarrow> ptrmap_type result" where
  "ptrmap_from_code c =
     (if c = 1 then Inr RootPage
      else if c = 2 then Inr FreePage
      else if c = 3 then Inr Overflow1
      else if c = 4 then Inr Overflow2
      else if c = 5 then Inr Btree
      else Inl (corrupt (''invalid ptrmap type '' @ dec (unat c))))"

definition PENDING_BYTE :: u64 where "PENDING_BYTE = 0x40000000"

definition pending_byte_page :: "nat \<Rightarrow> u32" where
  "pending_byte_page psize = ucast (PENDING_BYTE div 4096 + 1)"

definition is_pending_byte_page :: "nat \<Rightarrow> u32 \<Rightarrow> bool" where
  "is_pending_byte_page usable pgno \<longleftrightarrow> pgno = pending_byte_page 0"

definition pages_per_map_page :: "nat \<Rightarrow> u32" where
  "pages_per_map_page usable = (of_nat usable :: u32) div 5 + 1"

text \<open>
  The group index and the first page of the group are computed in 64 bits and cast back; both are
  at most \<open>pgno\<close>, so the model computes them as natural numbers.
\<close>

definition ptrmap_pageno :: "nat \<Rightarrow> u32 \<Rightarrow> u32" where
  "ptrmap_pageno usable pgno =
     (if pgno < 2 then 0
      else (let npp = unat (pages_per_map_page usable);
                i = (unat pgno - 2) div npp;
                ret = of_nat (i * npp) + 2
            in if ret = pending_byte_page 0 then ret + 1 else ret))"

definition is_ptrmap_page :: "nat \<Rightarrow> u32 \<Rightarrow> bool" where
  "is_ptrmap_page usable pgno \<longleftrightarrow> 2 \<le> pgno \<and> ptrmap_pageno usable pgno = pgno"

definition is_reserved_page :: "nat \<Rightarrow> u32 \<Rightarrow> bool" where
  "is_reserved_page usable pgno \<longleftrightarrow> is_ptrmap_page usable pgno \<or> is_pending_byte_page usable pgno"

text \<open>\<open>pgno - ptrmap_pgno - 1\<close> underflows (a panic) for a page that precedes or is its own map page.\<close>

definition ptrmap_offset :: "u32 \<Rightarrow> u32 \<Rightarrow> nat result" where
  "ptrmap_offset pm pgno =
     (if pgno \<le> pm then Inl Panic else Inr (PTRMAP_ENTRY_SIZE * (unat pgno - unat pm - 1)))"

section \<open>Entries lie inside their page and are distinct\<close>

lemma ptrmap_code_roundtrip [simp]: "ptrmap_from_code (ptrmap_code t) = Inr t"
  by (cases t) (simp_all add: ptrmap_from_code_def)

lemma pending_byte_page_val [simp]: "pending_byte_page n = 262145"
  by (simp add: pending_byte_page_def PENDING_BYTE_def)

lemma pages_per_map_page_nat:
  "usable \<le> 65536 \<Longrightarrow> unat (pages_per_map_page usable) = usable div 5 + 1"
proof -
  assume u: "usable \<le> 65536"
  have "unat (of_nat usable :: u32) = usable" using u by (simp add: unat_of_nat)
  then have d: "unat ((of_nat usable :: u32) div 5) = usable div 5" by (simp add: unat_div)
  have "unat ((of_nat usable :: u32) div 5 + 1) = usable div 5 + 1"
    using u d by (simp add: unat_word_ariths)
  then show ?thesis by (simp add: pages_per_map_page_def)
qed

text \<open>The map page as a natural number: the start of the page's group, one more at the pending page.\<close>

definition group_start :: "nat \<Rightarrow> nat \<Rightarrow> nat" where
  "group_start usable p = (p - 2) div (usable div 5 + 1) * (usable div 5 + 1) + 2"

lemma group_start_bounds:
  "2 \<le> p \<Longrightarrow> group_start usable p \<le> p \<and> p \<le> group_start usable p + usable div 5"
proof -
  assume p: "2 \<le> p"
  let ?n = "usable div 5 + 1"
  have "(p - 2) div ?n * ?n + (p - 2) mod ?n = p - 2" by (rule div_mult_mod_eq)
  moreover have "(p - 2) mod ?n \<le> usable div 5" using mod_less_divisor [of ?n "p - 2"] by arith
  ultimately show ?thesis using p unfolding group_start_def by linarith
qed

lemma ptrmap_pageno_nat:
  assumes "usable \<le> 65536" and "2 \<le> pgno"
  shows "unat (ptrmap_pageno usable pgno) =
    (if group_start usable (unat pgno) = 262145 then 262146 else group_start usable (unat pgno))"
proof -
  have p: "2 \<le> unat pgno" using assms(2) by (simp add: word_le_nat_alt)
  have npp: "unat (pages_per_map_page usable) = usable div 5 + 1"
    using assms(1) by (rule pages_per_map_page_nat)
  define g where "g = (unat pgno - 2) div (usable div 5 + 1) * (usable div 5 + 1)"
  have g: "g + 2 \<le> unat pgno" using group_start_bounds [OF p, of usable] by (simp add: group_start_def g_def)
  have "unat pgno < 2 ^ 32" using unsigned_less [of pgno, where ?'a = nat] by simp
  then have lt: "g + 2 < 2 ^ 32" using g by linarith
  have u: "unat (of_nat g + 2 :: u32) = g + 2"
    using lt by (simp add: unat_word_ariths unat_of_nat)
  have e: "(of_nat g + 2 :: u32) = 262145 \<longleftrightarrow> g + 2 = 262145"
    unfolding word_unat_eq_iff u by simp
  have not_lt: "\<not> pgno < 2" using assms(2) by simp
  show ?thesis
  proof -
    have gs: "group_start usable (unat pgno) = g + 2" by (simp add: group_start_def g_def)
    have "ptrmap_pageno usable pgno = (if (of_nat g + 2 :: u32) = 262145 then of_nat g + 2 + 1 else of_nat g + 2)"
      using not_lt unfolding ptrmap_pageno_def Let_def npp g_def [symmetric] pending_byte_page_val
      by (simp only: if_False)
    then show ?thesis using u e by (cases "g + 2 = 262145") (simp_all only: gs if_True if_False, simp)
  qed
qed

lemma reserved_nat:
  assumes "usable \<le> 65536" and "2 \<le> pgno" and "\<not> is_reserved_page usable pgno"
  shows "unat (ptrmap_pageno usable pgno) < unat pgno"
    and "unat pgno \<le> unat (ptrmap_pageno usable pgno) + usable div 5"
proof -
  have p: "2 \<le> unat pgno" using assms(2) by (simp add: word_le_nat_alt)
  have np: "unat pgno \<noteq> 262145"
    using assms(3) by (auto simp: is_reserved_page_def is_pending_byte_page_def word_unat_eq_iff)
  have ne: "unat (ptrmap_pageno usable pgno) \<noteq> unat pgno"
    using assms(2,3) by (simp add: is_reserved_page_def is_ptrmap_page_def word_unat_eq_iff)
  show "unat (ptrmap_pageno usable pgno) < unat pgno"
    "unat pgno \<le> unat (ptrmap_pageno usable pgno) + usable div 5"
    using group_start_bounds [OF p, of usable] ne np ptrmap_pageno_nat [OF assms(1,2)]
    by (auto split: if_splits)
qed

text \<open>
  C24. Every page that can hold data has its pointer-map entry inside the usable area of an earlier
  page, and two such pages never share an entry: when the map pages agree and the offsets agree,
  the pages agree.
\<close>

theorem ptrmap_slot_unique:
  assumes "usable \<le> 65536" and "2 \<le> p" and "\<not> is_reserved_page usable p"
    and "2 \<le> q" and "\<not> is_reserved_page usable q"
  shows "\<exists>i j. ptrmap_offset (ptrmap_pageno usable p) p = Inr i
    \<and> ptrmap_offset (ptrmap_pageno usable q) q = Inr j
    \<and> i + PTRMAP_ENTRY_SIZE \<le> usable
    \<and> (p = q \<or> ptrmap_pageno usable p \<noteq> ptrmap_pageno usable q
        \<or> i + PTRMAP_ENTRY_SIZE \<le> j \<or> j + PTRMAP_ENTRY_SIZE \<le> i)"
proof -
  note P = reserved_nat [OF assms(1,2,3)] and Q = reserved_nat [OF assms(1,4,5)]
  let ?i = "5 * (unat p - unat (ptrmap_pageno usable p) - 1)"
  let ?j = "5 * (unat q - unat (ptrmap_pageno usable q) - 1)"
  have "unat p - unat (ptrmap_pageno usable p) - 1 \<le> usable div 5 - 1" using P by arith
  moreover have "5 * (usable div 5) \<le> usable" by simp
  ultimately have "?i + 5 \<le> usable" using P by linarith
  moreover have "p = q \<or> ptrmap_pageno usable p \<noteq> ptrmap_pageno usable q \<or> ?i + 5 \<le> ?j \<or> ?j + 5 \<le> ?i"
  proof (cases "ptrmap_pageno usable p = ptrmap_pageno usable q \<and> p \<noteq> q")
    case True
    then have "unat p \<noteq> unat q" by (simp add: word_unat_eq_iff)
    then show ?thesis using P(1) Q(1) True by (simp add: word_le_nat_alt) arith
  qed auto
  ultimately show ?thesis
    using P(1) Q(1) by (simp add: ptrmap_offset_def PTRMAP_ENTRY_SIZE_def word_le_nat_alt)
qed

theorem ptrmap_slot_unique_witness:
  "\<exists>i j. ptrmap_offset (ptrmap_pageno 512 4) 4 = Inr i \<and> ptrmap_offset (ptrmap_pageno 512 106) 106 = Inr j
    \<and> i + PTRMAP_ENTRY_SIZE \<le> 512
    \<and> (ptrmap_pageno 512 4 \<noteq> ptrmap_pageno 512 106 \<or> i + PTRMAP_ENTRY_SIZE \<le> j \<or> j + PTRMAP_ENTRY_SIZE \<le> i)"
proof -
  have "\<not> is_reserved_page 512 4" "\<not> is_reserved_page 512 106" by code_simp+
  then show ?thesis using ptrmap_slot_unique [of 512 4 106] by simp
qed

end
