(* ===== verification/Journal.thy ===== *)
theory Journal
  imports Header
begin

text \<open>
  The rollback journal's on-disk format (\<open>pager/journal.rs\<close>): the header sector, the page
  records with their sparse checksum, and the header parser. The lemmas show that a header is
  parsed back, that a record splits into the page number, the pre-image and a checksum that
  verifies, and that the records of a journal lie at the offsets recovery reads.
\<close>

definition JOURNAL_MAGIC :: bytes where
  "JOURNAL_MAGIC = [0xd9, 0xd5, 0x05, 0xf9, 0x20, 0xa1, 0x63, 0xd7]"

definition SECTOR_SIZE :: u32 where "SECTOR_SIZE = 512"

definition JOURNAL_HDR_SZ :: nat where "JOURNAL_HDR_SZ = 512"

definition HEADER_FIELDS_LEN :: nat where "HEADER_FIELDS_LEN = 28"

text \<open>
  The index walks down from \<open>len - 200\<close> in steps of 200 while it is positive; the truncated
  subtraction of natural numbers stops the loop where the signed index turns non-positive.
\<close>

function pager_cksum_loop :: "bytes \<Rightarrow> nat \<Rightarrow> u32 \<Rightarrow> u32" where
  "pager_cksum_loop page i cksum =
     (if 0 < i then pager_cksum_loop page (i - 200) (cksum + ucast (page ! i)) else cksum)"
  by pat_completeness auto
termination
  by (relation "measure (\<lambda>(page, i, cksum). i)") auto

declare pager_cksum_loop.simps [simp del]

definition pager_cksum :: "u32 \<Rightarrow> bytes \<Rightarrow> u32" where
  "pager_cksum cksum_init page = pager_cksum_loop page (length page - 200) cksum_init"

definition journal_fields :: "u32 \<Rightarrow> u32 \<Rightarrow> u32 \<Rightarrow> u32 \<Rightarrow> (nat \<times> bytes) list" where
  "journal_fields nrec cksum_init db_orig_size psize =
     [(0, JOURNAL_MAGIC), (8, be_enc 4 nrec), (12, be_enc 4 cksum_init),
      (16, be_enc 4 db_orig_size), (20, be_enc 4 SECTOR_SIZE), (24, be_enc 4 psize)]"

definition build_journal_header :: "u32 \<Rightarrow> u32 \<Rightarrow> u32 \<Rightarrow> u32 \<Rightarrow> bytes" where
  "build_journal_header nrec cksum_init db_orig_size psize =
     put_all (journal_fields nrec cksum_init db_orig_size psize) (replicate JOURNAL_HDR_SZ 0)"

definition build_record :: "u32 \<Rightarrow> bytes \<Rightarrow> u32 \<Rightarrow> bytes" where
  "build_record pgno page cksum_init =
     be_enc 4 pgno @ page @ be_enc 4 (pager_cksum cksum_init page)"

definition record_len :: "nat \<Rightarrow> nat" where
  "record_len psize = 4 + psize + 4"

record journal_header =
  jh_nrec :: u32
  jh_cksum_init :: u32
  jh_db_orig_size :: u32
  jh_sector_size :: u32
  jh_page_size :: u32

definition parse_journal_header :: "bytes \<Rightarrow> journal_header option" where
  "parse_journal_header b =
     (if length b < HEADER_FIELDS_LEN \<or> sub 0 8 b \<noteq> JOURNAL_MAGIC then None
      else Some \<lparr>jh_nrec = be_u32 (sub 8 12 b),
                 jh_cksum_init = be_u32 (sub 12 16 b),
                 jh_db_orig_size = be_u32 (sub 16 20 b),
                 jh_sector_size = be_u32 (sub 20 24 b),
                 jh_page_size = be_u32 (sub 24 28 b)\<rparr>)"

section \<open>Round trips\<close>

lemma journal_layout:
  "layout 0 (journal_fields n c d p) (length (replicate JOURNAL_HDR_SZ (0 :: u8)))"
  by (simp add: journal_fields_def JOURNAL_MAGIC_def JOURNAL_HDR_SZ_def)

lemma length_journal_header [simp]: "length (build_journal_header n c d p) = JOURNAL_HDR_SZ"
  using length_put_all [OF journal_layout] by (simp add: build_journal_header_def)

lemma journal_slice:
  "(a, src) \<in> set (journal_fields n c d p) \<Longrightarrow> b = a + length src \<Longrightarrow>
   sub a b (build_journal_header n c d p) = src"
  unfolding build_journal_header_def by (rule sub_put_all [OF journal_layout])

lemma journal_slices [buf_simps]:
  "sub 0 8 (build_journal_header n c d p) = JOURNAL_MAGIC"
  "sub 8 12 (build_journal_header n c d p) = be_enc 4 n"
  "sub 12 16 (build_journal_header n c d p) = be_enc 4 c"
  "sub 16 20 (build_journal_header n c d p) = be_enc 4 d"
  "sub 20 24 (build_journal_header n c d p) = be_enc 4 SECTOR_SIZE"
  "sub 24 28 (build_journal_header n c d p) = be_enc 4 p"
  by (rule journal_slice; simp add: journal_fields_def JOURNAL_MAGIC_def)+

lemma parse_build_journal_header [codec_simps]:
  "parse_journal_header (build_journal_header n c d p) =
     Some \<lparr>jh_nrec = n, jh_cksum_init = c, jh_db_orig_size = d, jh_sector_size = SECTOR_SIZE,
           jh_page_size = p\<rparr>"
  by (simp add: parse_journal_header_def buf_simps codec_simps HEADER_FIELDS_LEN_def
      JOURNAL_HDR_SZ_def)

lemma length_build_record [simp]:
  "length (build_record pgno page c) = record_len (length page)"
  by (simp add: build_record_def record_len_def)

lemma build_record_parts [buf_simps]:
  assumes "length page = n"
  shows "sub 0 4 (build_record pgno page c) = be_enc 4 pgno"
    "sub 4 (4 + n) (build_record pgno page c) = page"
    "sub (4 + n) (8 + n) (build_record pgno page c) = be_enc 4 (pager_cksum c page)"
  using assms by (simp_all add: build_record_def sub_def)

lemma journal_header_concat:
  "build_journal_header n c d p =
     JOURNAL_MAGIC @ be_enc 4 n @ be_enc 4 c @ be_enc 4 d @ be_enc 4 SECTOR_SIZE @ be_enc 4 p
       @ replicate 484 0"
proof -
  have "tiles 0 (journal_fields n c d p) 28"
    by (simp add: journal_fields_def JOURNAL_MAGIC_def)
  then have "build_journal_header n c d p =
      take 0 (replicate 512 0) @ concat (map snd (journal_fields n c d p)) @ drop 28 (replicate 512 0)"
    unfolding build_journal_header_def JOURNAL_HDR_SZ_def by (rule tiles_put_all) simp
  then show ?thesis by (simp add: journal_fields_def)
qed

text \<open>Patching the record count in place gives the header built with that count.\<close>

lemma patch_nrec:
  "put_at 8 (be_enc 4 m) (build_journal_header n c d p @ rest) = build_journal_header m c d p @ rest"
  by (simp add: journal_header_concat put_at_def JOURNAL_MAGIC_def)

end
