(* ===== verification/Locks.thy ===== *)
theory Locks
  imports Errors "HOL-Library.Multiset"
begin

text \<open>
  The five-level file lock (\<open>vfs/mod.rs\<close>: \<open>LockLevel\<close>, \<open>LockState::apply_lock\<close>,
  \<open>LockState::apply_unlock\<close>) and the handles that share it (\<open>MemFile::lock\<close>, \<open>unlock\<close>,
  \<open>check_reserved_lock\<close> in \<open>vfs/memvfs.rs\<close>). The handles of one path and their shared state are
  a state machine, \<open>lock_step\<close>, in which every request may be granted or refused. A refused
  upgrade from SHARED to EXCLUSIVE has already given the reader's slot away, so the machine counts
  these refusals, and the invariant is stated relative to their number: one writer at most, at
  most that many readers beside an exclusive writer, a reader count that is too low by at most
  that number. Without a refusal this is the exclusion the lock is meant to give; with refusals
  the bound is reached, which is shown for every number of readers.
\<close>

section \<open>Levels and the shared state\<close>

datatype lock_level = Unlocked | Shared | Reserved | Pending | Exclusive

fun lock_level_u8 :: "lock_level \<Rightarrow> nat" where
  "lock_level_u8 Unlocked = 0"
| "lock_level_u8 Shared = 1"
| "lock_level_u8 Reserved = 2"
| "lock_level_u8 Pending = 3"
| "lock_level_u8 Exclusive = 4"

definition lock_level_from_u8 :: "nat \<Rightarrow> lock_level" where
  "lock_level_from_u8 v =
     (if v = 0 then Unlocked else if v = 1 then Shared else if v = 2 then Reserved
      else if v = 3 then Pending else if v = 4 then Exclusive else Unlocked)"

text \<open>The derived order of \<open>LockLevel\<close>.\<close>

instantiation lock_level :: linorder
begin

definition less_eq_lock_level :: "lock_level \<Rightarrow> lock_level \<Rightarrow> bool" where
  "less_eq_lock_level a b \<longleftrightarrow> lock_level_u8 a \<le> lock_level_u8 b"

definition less_lock_level :: "lock_level \<Rightarrow> lock_level \<Rightarrow> bool" where
  "less_lock_level a b \<longleftrightarrow> lock_level_u8 a < lock_level_u8 b"

instance
proof
  fix a b :: lock_level
  show "a \<le> b \<Longrightarrow> b \<le> a \<Longrightarrow> a = b"
    by (cases a; cases b) (simp_all add: less_eq_lock_level_def)
qed (auto simp: less_eq_lock_level_def less_lock_level_def)

end

lemmas level_order = less_eq_lock_level_def less_lock_level_def

record lock_state =
  n_shared :: nat
  writer :: "lock_level option"

definition lock_state_default :: lock_state where
  "lock_state_default = \<lparr>n_shared = 0, writer = None\<rparr>"

definition db_locked :: failure where
  "db_locked = busy ''database is locked''"

text \<open>The state is returned beside the result: a failing call may already have changed it.\<close>

definition apply_lock :: "lock_level \<Rightarrow> lock_level \<Rightarrow> lock_state \<Rightarrow> lock_state \<times> unit result" where
  "apply_lock cur target st =
     (if target \<le> cur then (st, Inr ())
      else if cur = Unlocked \<and> target = Shared then
        (if writer st = Some Pending \<or> writer st = Some Exclusive then (st, Inl db_locked)
         else (st\<lparr>n_shared := n_shared st + 1\<rparr>, Inr ()))
      else if cur = Shared \<and> target = Reserved then
        (if writer st \<noteq> None then (st, Inl db_locked)
         else (st\<lparr>writer := Some Reserved, n_shared := n_shared st - 1\<rparr>, Inr ()))
      else if target = Exclusive then
        (let st1 = (if cur = Shared then st\<lparr>n_shared := n_shared st - 1\<rparr> else st) in
         if 0 < n_shared st1 \<or> writer st1 \<noteq> None then (st1, Inl db_locked)
         else (st1\<lparr>writer := Some Exclusive\<rparr>, Inr ()))
      else (st, Inr ()))"

definition apply_unlock :: "lock_level \<Rightarrow> lock_level \<Rightarrow> lock_state \<Rightarrow> lock_state" where
  "apply_unlock cur target st =
     (if Shared < cur then
        (let st1 = st\<lparr>writer := None\<rparr> in
         if target = Shared then st1\<lparr>n_shared := n_shared st1 + 1\<rparr> else st1)
      else if cur = Shared \<and> target = Unlocked then st\<lparr>n_shared := n_shared st - 1\<rparr>
      else st)"

section \<open>The handles of one path\<close>

record lock_sys =
  shared_state :: lock_state
  levels :: "lock_level list"

definition mem_lock :: "nat \<Rightarrow> lock_level \<Rightarrow> lock_sys \<Rightarrow> lock_sys \<times> unit result" where
  "mem_lock h level s =
     (let cur = levels s ! h in
      if level \<le> cur then (s, Inr ())
      else (case apply_lock cur level (shared_state s) of
              (st, Inl e) \<Rightarrow> (s\<lparr>shared_state := st\<rparr>, Inl e)
            | (st, Inr _) \<Rightarrow> (s\<lparr>shared_state := st, levels := (levels s)[h := level]\<rparr>, Inr ())))"

definition mem_unlock :: "nat \<Rightarrow> lock_level \<Rightarrow> lock_sys \<Rightarrow> lock_sys" where
  "mem_unlock h level s =
     (let cur = levels s ! h in
      if cur \<le> level then s
      else s\<lparr>shared_state := apply_unlock cur level (shared_state s),
             levels := (levels s)[h := level]\<rparr>)"

definition check_reserved_lock :: "lock_sys \<Rightarrow> bool" where
  "check_reserved_lock s \<longleftrightarrow> writer (shared_state s) \<noteq> None"

definition new_sys :: "nat \<Rightarrow> lock_sys" where
  "new_sys n = \<lparr>shared_state = lock_state_default, levels = replicate n Unlocked\<rparr>"

text \<open>
  The requests the pager makes: SHARED first, then RESERVED or EXCLUSIVE; recovery asks for
  EXCLUSIVE directly. A handle that holds nothing never asks for RESERVED, and nobody asks for
  PENDING.
\<close>

definition pager_request :: "lock_level \<Rightarrow> lock_level \<Rightarrow> bool" where
  "pager_request cur level \<longleftrightarrow>
     level \<in> {Shared, Reserved, Exclusive} \<and> \<not> (cur = Unlocked \<and> level = Reserved)"

text \<open>A step carries the number of reader slots it loses: one for a refused upgrade.\<close>

definition slots_lost :: "lock_level \<Rightarrow> lock_level \<Rightarrow> unit result \<Rightarrow> nat" where
  "slots_lost cur level r = (if r \<noteq> Inr () \<and> cur = Shared \<and> level = Exclusive then 1 else 0)"

inductive lock_step :: "lock_sys \<Rightarrow> nat \<Rightarrow> lock_sys \<Rightarrow> bool" where
  acquire: "h < length (levels s) \<Longrightarrow> pager_request (levels s ! h) level \<Longrightarrow>
    mem_lock h level s = (s', r) \<Longrightarrow> lock_step s (slots_lost (levels s ! h) level r) s'"
| release: "h < length (levels s) \<Longrightarrow> level \<in> {Unlocked, Shared} \<Longrightarrow>
    lock_step s 0 (mem_unlock h level s)"

inductive lock_reachable :: "nat \<Rightarrow> nat \<Rightarrow> lock_sys \<Rightarrow> bool" for n where
  start: "lock_reachable n 0 (new_sys n)"
| step: "lock_reachable n k s \<Longrightarrow> lock_step s j s' \<Longrightarrow> lock_reachable n (k + j) s'"

lemma lock_reachable_step:
  "lock_reachable n k s \<Longrightarrow> lock_step s 0 s' \<Longrightarrow> lock_reachable n k s'"
  using lock_reachable.step [of n k s 0 s'] by simp

section \<open>The invariant\<close>

definition writers :: "lock_sys \<Rightarrow> lock_level multiset" where
  "writers s = filter_mset (\<lambda>l. Shared < l) (mset (levels s))"

definition readers :: "lock_sys \<Rightarrow> nat" where
  "readers s = count (mset (levels s)) Shared"

definition lock_inv :: "nat \<Rightarrow> lock_sys \<Rightarrow> bool" where
  "lock_inv k s \<longleftrightarrow> n_shared (shared_state s) \<le> readers s
     \<and> readers s \<le> n_shared (shared_state s) + k
     \<and> writers s = (case writer (shared_state s) of None \<Rightarrow> {#} | Some w \<Rightarrow> {#w#})
     \<and> Pending \<notin> set (levels s)
     \<and> (writer (shared_state s) = Some Exclusive \<longrightarrow> readers s \<le> k)"

lemma mset_levels_update:
  "h < length xs \<Longrightarrow> mset (xs[h := l]) = add_mset l (mset xs - {#xs ! h#})"
  by (simp add: mset_update)

lemma writers_update:
  "h < length (levels s) \<Longrightarrow>
   writers (s\<lparr>shared_state := st, levels := (levels s)[h := l]\<rparr>) =
     (if Shared < l then {#l#} else {#})
       + (if Shared < levels s ! h then writers s - {#levels s ! h#} else writers s)"
  by (simp add: writers_def mset_levels_update filter_mset_add_mset)

lemma readers_update:
  "h < length (levels s) \<Longrightarrow>
   readers (s\<lparr>shared_state := st, levels := (levels s)[h := l]\<rparr>) =
     (if l = Shared then 1 else 0)
       + (if levels s ! h = Shared then readers s - 1 else readers s)"
  by (simp add: readers_def mset_levels_update)

lemma writer_held:
  assumes "lock_inv k s" and "h < length (levels s)" and "Shared < levels s ! h"
  shows "writer (shared_state s) = Some (levels s ! h)"
proof -
  have "levels s ! h \<in># writers s" using assms(2,3) by (simp add: writers_def)
  then show ?thesis using assms(1) by (auto simp: lock_inv_def split: option.splits)
qed

lemma reader_counted:
  "h < length (levels s) \<Longrightarrow> levels s ! h = Shared \<Longrightarrow> 1 \<le> readers s"
  by (metis readers_def count_greater_eq_one_iff in_multiset_in_set nth_mem)

lemma set_levels_update: "l \<noteq> Pending \<Longrightarrow> Pending \<notin> set xs \<Longrightarrow> Pending \<notin> set (xs[h := l])"
  by (auto dest: set_update_subset_insert [THEN subsetD])

lemma acquire_granted:
  assumes inv: "lock_inv k s" and h: "h < length (levels s)"
    and req: "pager_request (levels s ! h) level" and up: "\<not> level \<le> levels s ! h"
    and ok: "apply_lock (levels s ! h) level (shared_state s) = (st, Inr u)"
  shows "lock_inv k (s\<lparr>shared_state := st, levels := (levels s)[h := level]\<rparr>)"
proof -
  have np: "levels s ! h \<noteq> Pending" "Pending \<notin> set (levels s)"
    using inv nth_mem [OF h] by (auto simp: lock_inv_def)
  note upd = writers_update [OF h] readers_update [OF h] set_levels_update
  consider "levels s ! h = Unlocked" "level = Shared" | "levels s ! h = Unlocked" "level = Exclusive"
    | "levels s ! h = Shared" "level = Reserved" | "levels s ! h = Shared" "level = Exclusive"
    | "levels s ! h = Reserved" "level = Exclusive"
    using req up np by (cases "levels s ! h"; cases level) (auto simp: pager_request_def level_order)
  then show ?thesis
  proof cases
    case 1
    then show ?thesis using ok inv np
      by (auto simp: lock_inv_def apply_lock_def upd level_order split: if_splits option.splits)
  next
    case 2
    then show ?thesis using ok inv np
      by (auto simp: lock_inv_def apply_lock_def upd level_order Let_def split: if_splits)
  next
    case 3
    then show ?thesis using ok inv np reader_counted [OF h]
      by (auto simp: lock_inv_def apply_lock_def upd level_order split: if_splits)
  next
    case 4
    then show ?thesis using ok inv np reader_counted [OF h]
      by (auto simp: lock_inv_def apply_lock_def upd level_order Let_def split: if_splits)
  next
    case 5
    then show ?thesis using ok writer_held [OF inv h]
      by (auto simp: apply_lock_def level_order split: if_splits)
  qed
qed

lemma acquire_refused:
  assumes inv: "lock_inv k s"
    and no: "apply_lock cur level (shared_state s) = (st, Inl e)"
  shows "lock_inv (k + slots_lost cur level (Inl e)) (s\<lparr>shared_state := st\<rparr>)"
proof (cases "cur = Shared \<and> level = Exclusive")
  case True
  then have "st = (shared_state s)\<lparr>n_shared := n_shared (shared_state s) - 1\<rparr>"
    using no by (auto simp: apply_lock_def Let_def level_order split: if_splits)
  then show ?thesis using inv True
    by (auto simp: lock_inv_def slots_lost_def readers_def writers_def)
next
  case False
  then have "st = shared_state s" using no by (auto simp: apply_lock_def Let_def split: if_splits)
  then show ?thesis using inv False by (auto simp: slots_lost_def)
qed

lemma release_inv:
  assumes inv: "lock_inv k s" and h: "h < length (levels s)" and l: "level \<in> {Unlocked, Shared}"
  shows "lock_inv k (mem_unlock h level s)"
proof (cases "levels s ! h \<le> level")
  case True
  then show ?thesis using inv by (simp add: mem_unlock_def)
next
  case False
  note upd = writers_update [OF h] readers_update [OF h] set_levels_update
  have np: "Pending \<notin> set (levels s)" using inv by (simp add: lock_inv_def)
  show ?thesis
  proof (cases "Shared < levels s ! h")
    case True
    then show ?thesis using False inv np l writer_held [OF inv h True]
      by (auto simp: mem_unlock_def apply_unlock_def lock_inv_def upd Let_def level_order)
  next
    case sh: False
    then have "levels s ! h = Shared" "level = Unlocked"
      using False l by (cases "levels s ! h"; auto simp: level_order)+
    then show ?thesis using inv np
      by (auto simp: mem_unlock_def apply_unlock_def lock_inv_def upd Let_def level_order
          split: option.splits)
  qed
qed

lemma lock_step_inv: "lock_step s j s' \<Longrightarrow> lock_inv k s \<Longrightarrow> lock_inv (k + j) s'"
proof (induction rule: lock_step.induct)
  case (acquire h s level s' r)
  show ?case
  proof (cases "level \<le> levels s ! h")
    case True
    then show ?thesis using acquire by (auto simp: mem_lock_def slots_lost_def)
  next
    case False
    obtain st r' where a: "apply_lock (levels s ! h) level (shared_state s) = (st, r')" by force
    show ?thesis
    proof (cases r')
      case (Inl e)
      then have "r = Inl e" "s' = s\<lparr>shared_state := st\<rparr>"
        using acquire(3) a False by (simp_all add: mem_lock_def)
      then show ?thesis using acquire_refused [OF acquire.prems] a Inl by simp
    next
      case (Inr u)
      then have "r = Inr ()" "s' = s\<lparr>shared_state := st, levels := (levels s)[h := level]\<rparr>"
        using acquire(3) a False by (simp_all add: mem_lock_def)
      then show ?thesis
        using acquire_granted [OF acquire.prems acquire(1,2) False, of st u] a Inr
        by (simp add: slots_lost_def)
    qed
  qed
next
  case (release h s level)
  then show ?case by (simp add: release_inv)
qed

lemma lock_reachable_inv: "lock_reachable n k s \<Longrightarrow> lock_inv k s"
proof (induction rule: lock_reachable.induct)
  case start
  then show ?case
    by (auto simp: lock_inv_def new_sys_def lock_state_default_def readers_def writers_def level_order)
next
  case (step k s j s')
  then show ?case by (simp add: lock_step_inv)
qed

lemma readers_filter: "readers s = length (filter (\<lambda>l. l = Shared) (levels s))"
proof -
  have "(=) Shared = (\<lambda>l. l = Shared)" by auto
  then show ?thesis by (simp add: readers_def count_mset count_list_eq_length_filter)
qed

lemma one_writer:
  assumes inv: "lock_inv k s" and ij: "i < length (levels s)" "j < length (levels s)" "i \<noteq> j"
    and wi: "Shared < levels s ! i"
  shows "\<not> Shared < levels s ! j"
proof
  assume wj: "Shared < levels s ! j"
  have "levels s ! j = (levels s)[i := Unlocked] ! j" using ij by simp
  then have "levels s ! j \<in># mset ((levels s)[i := Unlocked])"
    using ij by (metis length_list_update nth_mem set_mset_mset)
  then have "levels s ! j \<in># mset (levels s) - {#levels s ! i#}"
    using ij wj by (auto simp: mset_levels_update level_order)
  then have "levels s ! j \<in># filter_mset (\<lambda>l. Shared < l) (mset (levels s) - {#levels s ! i#})"
    using wj unfolding set_mset_filter by blast
  then have "levels s ! j \<in># writers s - {#levels s ! i#}"
    using wi by (simp only: writers_def filter_diff_mset) simp
  moreover have "writers s = {#levels s ! i#}"
    using inv writer_held [OF inv ij(1) wi] by (simp add: lock_inv_def)
  ultimately show False by simp
qed

text \<open>
  C30. Mutual exclusion of the file lock: in every state that any number of handles on one path
  reach by lock and unlock requests of the pager, granted or refused, with \<open>k\<close> the number of
  upgrades from SHARED to EXCLUSIVE refused so far, at most one handle holds a level above SHARED;
  while one holds EXCLUSIVE at most \<open>k\<close> handles hold SHARED, so none holds any lock when no upgrade
  was refused; and the shared reader count never exceeds the number of readers and falls short of
  it by at most \<open>k\<close>.
\<close>

theorem lock_exclusion:
  assumes "lock_reachable n k s" and "i < length (levels s)" and "j < length (levels s)" and "i \<noteq> j"
  shows "\<not> (Shared < levels s ! i \<and> Shared < levels s ! j)
    \<and> (levels s ! i = Exclusive \<longrightarrow> length (filter (\<lambda>l. l = Shared) (levels s)) \<le> k)
    \<and> (levels s ! i = Exclusive \<and> k = 0 \<longrightarrow> levels s ! j = Unlocked)
    \<and> n_shared (shared_state s) \<le> length (filter (\<lambda>l. l = Shared) (levels s))
    \<and> length (filter (\<lambda>l. l = Shared) (levels s)) \<le> n_shared (shared_state s) + k"
proof -
  have inv: "lock_inv k s" using assms(1) by (rule lock_reachable_inv)
  note one = one_writer [OF inv assms(2-4)]
  have few: "readers s \<le> k" if "levels s ! i = Exclusive"
    using writer_held [OF inv assms(2)] that inv by (simp add: level_order lock_inv_def)
  have "levels s ! j = Unlocked" if e: "levels s ! i = Exclusive" and "k = 0"
  proof -
    have "levels s ! j \<noteq> Shared" using reader_counted [OF assms(3)] few [OF e] \<open>k = 0\<close> by auto
    moreover have "\<not> Shared < levels s ! j" using one e by (simp add: level_order)
    ultimately show ?thesis by (cases "levels s ! j") (auto simp: level_order)
  qed
  then show ?thesis using one few inv by (auto simp: lock_inv_def readers_filter)
qed

definition demo_locked :: lock_sys where
  "demo_locked = fst (mem_lock 1 Exclusive (fst (mem_lock 1 Exclusive
     (fst (mem_lock 1 Shared (fst (mem_lock 0 Shared (new_sys 2))))))))"

lemma two_readers_reachable:
  "lock_reachable 2 0 (fst (mem_lock 1 Shared (fst (mem_lock 0 Shared (new_sys 2)))))"
proof -
  let ?s1 = "fst (mem_lock 0 Shared (new_sys 2))"
  have "lock_step (new_sys 2) (slots_lost (levels (new_sys 2) ! 0) Shared (Inr ())) ?s1"
    by (rule lock_step.acquire) code_simp+
  moreover have "lock_step ?s1 (slots_lost (levels ?s1 ! 1) Shared (Inr ())) (fst (mem_lock 1 Shared ?s1))"
    by (rule lock_step.acquire) code_simp+
  moreover have "slots_lost cur Shared r = 0" for cur r by (simp add: slots_lost_def)
  ultimately show ?thesis
    using lock_reachable_step [OF lock_reachable_step [OF lock_reachable.start]] by simp
qed

lemma demo_locked_reachable: "lock_reachable 2 1 demo_locked"
proof -
  let ?s2 = "fst (mem_lock 1 Shared (fst (mem_lock 0 Shared (new_sys 2))))"
  let ?s3 = "fst (mem_lock 1 Exclusive ?s2)"
  have "lock_step ?s2 (slots_lost (levels ?s2 ! 1) Exclusive (Inl db_locked)) ?s3"
    by (rule lock_step.acquire) code_simp+
  moreover have "slots_lost (levels ?s2 ! 1) Exclusive (Inl db_locked) = 1" by code_simp
  moreover have "lock_step ?s3 (slots_lost (levels ?s3 ! 1) Exclusive (Inr ())) demo_locked"
    by (rule lock_step.acquire) code_simp+
  moreover have "slots_lost (levels ?s3 ! 1) Exclusive (Inr ()) = 0" by code_simp
  ultimately show ?thesis
    using lock_reachable.step [OF two_readers_reachable, of 1 ?s3] lock_reachable_step [of 2 1 ?s3]
    by simp
qed

text \<open>The bound is reached: after one refusal a reader stands beside the exclusive writer.\<close>

theorem lock_exclusion_witness: "levels demo_locked = [Shared, Exclusive]
    \<and> length (filter (\<lambda>l. l = Shared) (levels demo_locked)) \<le> 1
    \<and> n_shared (shared_state demo_locked) \<le> 1"
proof -
  have l: "levels demo_locked = [Shared, Exclusive]" by code_simp
  then show ?thesis using lock_exclusion [OF demo_locked_reachable, of 1 0] by simp
qed

section \<open>Repeated upgrades\<close>

definition retry :: "nat \<Rightarrow> lock_sys \<Rightarrow> lock_sys" where
  "retry h s = fst (mem_lock h Exclusive s)"

lemma upgrade_refused:
  assumes "levels s ! h = Shared" and "2 \<le> n_shared (shared_state s)"
  shows "mem_lock h Exclusive s =
    (s\<lparr>shared_state := (shared_state s)\<lparr>n_shared := n_shared (shared_state s) - 1\<rparr>\<rparr>, Inl db_locked)"
  using assms by (simp add: mem_lock_def apply_lock_def level_order Let_def)

lemma retry_state:
  assumes "levels s ! h = Shared" and "i < n_shared (shared_state s)"
  shows "(retry h ^^ i) s
    = s\<lparr>shared_state := (shared_state s)\<lparr>n_shared := n_shared (shared_state s) - i\<rparr>\<rparr>"
  using assms(2)
proof (induction i)
  case (Suc i)
  then show ?case using assms(1) by (simp add: retry_def upgrade_refused)
qed simp

text \<open>
  C31. A refused upgrade to EXCLUSIVE gives the reader's slot away: in every state reached without
  a refusal, when a handle reads together with \<open>m \<ge> 1\<close> others and there is no writer, its first
  \<open>m\<close> requests for EXCLUSIVE are refused as busy, and the next one is granted although the \<open>m\<close>
  other handles still hold SHARED.
\<close>

theorem refused_upgrade_breaks_exclusion:
  assumes "lock_reachable n 0 s" and "h < length (levels s)" and "levels s ! h = Shared"
    and "writer (shared_state s) = None"
    and "length (filter (\<lambda>l. l = Shared) (levels s)) = Suc m" and "1 \<le> m"
  shows "(\<forall>i. i < m \<longrightarrow> snd (mem_lock h Exclusive ((retry h ^^ i) s)) = Inl db_locked)
    \<and> snd (mem_lock h Exclusive ((retry h ^^ m) s)) = Inr ()
    \<and> levels ((retry h ^^ Suc m) s) = (levels s)[h := Exclusive]
    \<and> length (filter (\<lambda>l. l = Shared) (levels ((retry h ^^ Suc m) s))) = m"
proof -
  have n: "n_shared (shared_state s) = Suc m"
    using lock_reachable_inv [OF assms(1)] assms(5) by (simp add: lock_inv_def readers_filter)
  have last: "mem_lock h Exclusive ((retry h ^^ m) s) =
      (s\<lparr>shared_state := \<lparr>n_shared = 0, writer = Some Exclusive\<rparr>,
         levels := (levels s)[h := Exclusive]\<rparr>, Inr ())"
    using n assms(3,4) retry_state [of s h m]
    by (simp add: mem_lock_def apply_lock_def level_order Let_def)
  have "snd (mem_lock h Exclusive ((retry h ^^ i) s)) = Inl db_locked" if "i < m" for i
    using that n assms(3) by (simp add: retry_state upgrade_refused)
  moreover have "(retry h ^^ Suc m) s = s\<lparr>shared_state := \<lparr>n_shared = 0, writer = Some Exclusive\<rparr>,
         levels := (levels s)[h := Exclusive]\<rparr>"
    using last by (simp add: retry_def)
  moreover have "readers (s\<lparr>shared_state := st, levels := (levels s)[h := Exclusive]\<rparr>) = m" for st
    using assms(3,5) by (simp add: readers_update [OF assms(2)] readers_filter [of s])
  ultimately show ?thesis using last by (simp add: readers_filter)
qed

theorem refused_upgrade_breaks_exclusion_witness:
  "let s = fst (mem_lock 1 Shared (fst (mem_lock 0 Shared (new_sys 2))))
   in snd (mem_lock 0 Exclusive s) = Inl db_locked \<and> snd (mem_lock 0 Exclusive (retry 0 s)) = Inr ()
      \<and> levels (retry 0 (retry 0 s)) = [Exclusive, Shared]"
proof -
  let ?s = "fst (mem_lock 1 Shared (fst (mem_lock 0 Shared (new_sys 2))))"
  have l: "levels ?s = [Shared, Shared]" "writer (shared_state ?s) = None" by code_simp+
  show ?thesis
    using refused_upgrade_breaks_exclusion [OF two_readers_reachable, of 0 1] l by (simp add: Let_def)
qed

text \<open>
  A handle that holds RESERVED can never reach EXCLUSIVE: in every reachable state its request
  is refused as busy, even when it is the only handle, because its own RESERVED entry counts as
  another writer.
\<close>

theorem reserved_cannot_upgrade:
  assumes "lock_reachable n k s" and "h < length (levels s)" and "levels s ! h = Reserved"
  shows "mem_lock h Exclusive s = (s, Inl db_locked)"
proof -
  have "writer (shared_state s) = Some Reserved"
    using writer_held [OF lock_reachable_inv [OF assms(1)] assms(2)] assms(3)
    by (simp add: level_order)
  then show ?thesis using assms(3) by (simp add: mem_lock_def apply_lock_def level_order)
qed

definition demo_reserved :: lock_sys where
  "demo_reserved = fst (mem_lock 0 Reserved (fst (mem_lock 0 Shared (new_sys 1))))"

theorem reserved_cannot_upgrade_witness:
  "levels demo_reserved = [Reserved] \<and> mem_lock 0 Exclusive demo_reserved = (demo_reserved, Inl db_locked)"
proof -
  let ?s1 = "fst (mem_lock 0 Shared (new_sys 1))"
  have "lock_step (new_sys 1) (slots_lost (levels (new_sys 1) ! 0) Shared (Inr ())) ?s1"
    by (rule lock_step.acquire) code_simp+
  moreover have "lock_step ?s1 (slots_lost (levels ?s1 ! 0) Reserved (Inr ())) demo_reserved"
    by (rule lock_step.acquire) code_simp+
  moreover have "slots_lost cur Shared r = 0" "slots_lost cur Reserved r = 0" for cur r
    by (simp_all add: slots_lost_def)
  ultimately have r: "lock_reachable 1 0 demo_reserved"
    using lock_reachable_step [OF lock_reachable_step [OF lock_reachable.start]] by simp
  have l: "levels demo_reserved = [Reserved]" by code_simp
  then show ?thesis using reserved_cannot_upgrade [OF r, of 0] by simp
qed

end
