(* ===== verification/Wal_Format.thy ===== *)
theory Wal_Format
  imports Header
begin

text \<open>
  The write-ahead log's on-disk structures (\<open>format/wal.rs\<close>) and the wal-index structures
  (\<open>format/wal_index.rs\<close>): headers with their codecs, the running checksum, hash keys and frame
  offsets. Each structure is an instance of the fixed-layout contract \<open>tiled_record\<close>; the round
  trips follow from it. The checksum is shown to run over a concatenation chunk by chunk and to
  be determined by the words it adds.
\<close>

section \<open>WAL and frame headers\<close>

definition WAL_MAGIC_BE :: u32 where "WAL_MAGIC_BE = 0x377f0683"
definition WAL_MAGIC_LE :: u32 where "WAL_MAGIC_LE = 0x377f0682"
definition WAL_FORMAT_VERSION :: u32 where "WAL_FORMAT_VERSION = 3007000"
definition WAL_HEADER_SIZE :: nat where "WAL_HEADER_SIZE = 32"
definition WAL_FRAME_HEADER_SIZE :: nat where "WAL_FRAME_HEADER_SIZE = 24"

lemmas wal_sizes [simp] = WAL_HEADER_SIZE_def WAL_FRAME_HEADER_SIZE_def

record wal_header =
  wh_magic :: u32
  wh_format_version :: u32
  wh_page_size :: u32
  wh_checkpoint_seq :: u32
  wh_salt1 :: u32
  wh_salt2 :: u32
  wh_checksum1 :: u32
  wh_checksum2 :: u32

definition wal_header_decode :: "bytes \<Rightarrow> wal_header result" where
  "wal_header_decode buf =
     (if length buf < WAL_HEADER_SIZE then Inl (error_msg ''WAL header is too short'')
      else Inr \<lparr>wh_magic = be_dec (sub 0 4 buf),
                wh_format_version = be_dec (sub 4 8 buf),
                wh_page_size = be_dec (sub 8 12 buf),
                wh_checkpoint_seq = be_dec (sub 12 16 buf),
                wh_salt1 = be_dec (sub 16 20 buf),
                wh_salt2 = be_dec (sub 20 24 buf),
                wh_checksum1 = be_dec (sub 24 28 buf),
                wh_checksum2 = be_dec (sub 28 32 buf)\<rparr>)"

definition wal_header_fields :: "wal_header \<Rightarrow> (nat \<times> bytes) list" where
  "wal_header_fields h =
     [(0, be_enc 4 (wh_magic h)), (4, be_enc 4 (wh_format_version h)),
      (8, be_enc 4 (wh_page_size h)), (12, be_enc 4 (wh_checkpoint_seq h)),
      (16, be_enc 4 (wh_salt1 h)), (20, be_enc 4 (wh_salt2 h)),
      (24, be_enc 4 (wh_checksum1 h)), (28, be_enc 4 (wh_checksum2 h))]"

definition wal_header_encode :: "wal_header \<Rightarrow> bytes \<Rightarrow> bytes result" where
  "wal_header_encode h out =
     (if length out < WAL_HEADER_SIZE then Inl Panic else Inr (put_all (wal_header_fields h) out))"

definition checksum_big_endian :: "wal_header \<Rightarrow> bool" where
  "checksum_big_endian h \<longleftrightarrow> wh_magic h = WAL_MAGIC_BE"

record wal_frame_header =
  fh_page_number :: u32
  fh_commit_size :: u32
  fh_salt1 :: u32
  fh_salt2 :: u32
  fh_checksum1 :: u32
  fh_checksum2 :: u32

definition wal_frame_decode :: "bytes \<Rightarrow> wal_frame_header result" where
  "wal_frame_decode buf =
     (if length buf < WAL_FRAME_HEADER_SIZE then Inl (error_msg ''WAL frame header is too short'')
      else Inr \<lparr>fh_page_number = be_dec (sub 0 4 buf),
                fh_commit_size = be_dec (sub 4 8 buf),
                fh_salt1 = be_dec (sub 8 12 buf),
                fh_salt2 = be_dec (sub 12 16 buf),
                fh_checksum1 = be_dec (sub 16 20 buf),
                fh_checksum2 = be_dec (sub 20 24 buf)\<rparr>)"

definition wal_frame_fields :: "wal_frame_header \<Rightarrow> (nat \<times> bytes) list" where
  "wal_frame_fields h =
     [(0, be_enc 4 (fh_page_number h)), (4, be_enc 4 (fh_commit_size h)),
      (8, be_enc 4 (fh_salt1 h)), (12, be_enc 4 (fh_salt2 h)),
      (16, be_enc 4 (fh_checksum1 h)), (20, be_enc 4 (fh_checksum2 h))]"

definition wal_frame_encode :: "wal_frame_header \<Rightarrow> bytes \<Rightarrow> bytes result" where
  "wal_frame_encode h out =
     (if length out < WAL_FRAME_HEADER_SIZE then Inl Panic
      else Inr (put_all (wal_frame_fields h) out))"

interpretation wal_header: tiled_record "\<lambda>_. True" wal_header_fields WAL_HEADER_SIZE
  by unfold_locales (simp add: wal_header_fields_def)

interpretation wal_frame: tiled_record "\<lambda>_. True" wal_frame_fields WAL_FRAME_HEADER_SIZE
  by unfold_locales (simp add: wal_frame_fields_def)

section \<open>The running checksum\<close>

definition wal_read_u32 :: "bytes \<Rightarrow> bool \<Rightarrow> u32" where
  "wal_read_u32 b big_endian = (if big_endian then be_dec b else le_dec b)"

fun wal_checksum_words :: "bool \<Rightarrow> bytes \<Rightarrow> u32 \<Rightarrow> u32 \<Rightarrow> u32 \<times> u32" where
  "wal_checksum_words be (a # b # c # d # e # f # g # h # rest) s0 s1 =
     (let x0 = wal_read_u32 [a, b, c, d] be; x1 = wal_read_u32 [e, f, g, h] be;
          s0' = s0 + x0 + s1; s1' = s1 + x1 + s0'
      in wal_checksum_words be rest s0' s1')"
| "wal_checksum_words be _ s0 s1 = (s0, s1)"

definition wal_checksum :: "bytes \<Rightarrow> bool \<Rightarrow> u32 \<Rightarrow> u32 \<Rightarrow> (u32 \<times> u32) result" where
  "wal_checksum buf big_endian s0_in s1_in =
     (if length buf mod 8 \<noteq> 0 then Inl Panic
      else Inr (wal_checksum_words big_endian buf s0_in s1_in))"

section \<open>The wal-index\<close>

definition SQLITE_SHM_NLOCK :: nat where "SQLITE_SHM_NLOCK = 8"
definition WAL_NREADER :: nat where "WAL_NREADER = SQLITE_SHM_NLOCK - 3"
definition READMARK_NOT_USED :: u32 where "READMARK_NOT_USED = 0xffffffff"
definition WAL_WRITE_LOCK :: nat where "WAL_WRITE_LOCK = 0"
definition WAL_CKPT_LOCK :: nat where "WAL_CKPT_LOCK = 1"
definition WAL_RECOVER_LOCK :: nat where "WAL_RECOVER_LOCK = 2"
definition wal_read_lock :: "nat \<Rightarrow> nat" where "wal_read_lock i = 3 + i"
definition WAL_INDEX_HDR_SIZE :: nat where "WAL_INDEX_HDR_SIZE = 48"
definition WAL_CKPT_INFO_SIZE :: nat where
  "WAL_CKPT_INFO_SIZE = 4 + 4 * WAL_NREADER + SQLITE_SHM_NLOCK + 4 + 4"
definition WAL_INDEX_HEADER_SIZE :: nat where
  "WAL_INDEX_HEADER_SIZE = 2 * WAL_INDEX_HDR_SIZE + WAL_CKPT_INFO_SIZE"
definition WALINDEX_LOCK_OFFSET :: nat where
  "WALINDEX_LOCK_OFFSET = 2 * WAL_INDEX_HDR_SIZE + 4 + 4 * WAL_NREADER"
definition HASHTABLE_NPAGE :: nat where "HASHTABLE_NPAGE = 4096"
definition HASHTABLE_NPAGE_ONE :: nat where "HASHTABLE_NPAGE_ONE = 4062"
definition HASHTABLE_NSLOT :: nat where "HASHTABLE_NSLOT = 2 * HASHTABLE_NPAGE"

text \<open>
  Native byte order: \<open>be\<close> says whether the host is big-endian. The two-element arrays of the
  source are pairs, the arrays of fixed length are lists.
\<close>

definition ne_enc :: "bool \<Rightarrow> nat \<Rightarrow> 'a::len word \<Rightarrow> bytes" where
  "ne_enc be n w = (if be then be_enc n w else le_enc n w)"

definition ne_dec :: "bool \<Rightarrow> bytes \<Rightarrow> 'a::len word" where
  "ne_dec be bs = (if be then be_dec bs else le_dec bs)"

record wal_index_hdr =
  i_version :: u32
  wi_unused :: u32
  i_change :: u32
  is_init :: u8
  big_end_cksum :: u8
  sz_page :: u16
  wi_mx_frame :: u32
  wi_n_page :: u32
  a_frame_cksum :: "u32 \<times> u32"
  a_salt :: "u32 \<times> u32"
  a_cksum :: "u32 \<times> u32"

definition wal_index_hdr_default :: wal_index_hdr where
  "wal_index_hdr_default =
     \<lparr>i_version = 0, wi_unused = 0, i_change = 0, is_init = 0, big_end_cksum = 0, sz_page = 0,
      wi_mx_frame = 0, wi_n_page = 0, a_frame_cksum = (0, 0), a_salt = (0, 0), a_cksum = (0, 0)\<rparr>"

definition wal_index_hdr_fields :: "bool \<Rightarrow> wal_index_hdr \<Rightarrow> (nat \<times> bytes) list" where
  "wal_index_hdr_fields be h =
     [(0, ne_enc be 4 (i_version h)), (4, ne_enc be 4 (wi_unused h)), (8, ne_enc be 4 (i_change h)),
      (12, [is_init h]), (13, [big_end_cksum h]), (14, ne_enc be 2 (sz_page h)),
      (16, ne_enc be 4 (wi_mx_frame h)), (20, ne_enc be 4 (wi_n_page h)),
      (24, ne_enc be 4 (fst (a_frame_cksum h))), (28, ne_enc be 4 (snd (a_frame_cksum h))),
      (32, ne_enc be 4 (fst (a_salt h))), (36, ne_enc be 4 (snd (a_salt h))),
      (40, ne_enc be 4 (fst (a_cksum h))), (44, ne_enc be 4 (snd (a_cksum h)))]"

definition wal_index_hdr_encode :: "bool \<Rightarrow> wal_index_hdr \<Rightarrow> bytes \<Rightarrow> bytes result" where
  "wal_index_hdr_encode be h out =
     (if length out < WAL_INDEX_HDR_SIZE then Inl Panic
      else Inr (put_all (wal_index_hdr_fields be h) out))"

definition wal_index_hdr_decode :: "bool \<Rightarrow> bytes \<Rightarrow> wal_index_hdr result" where
  "wal_index_hdr_decode be buf =
     (if length buf < WAL_INDEX_HDR_SIZE then Inl (error_msg ''wal-index header too short'')
      else Inr \<lparr>i_version = ne_dec be (sub 0 4 buf), wi_unused = ne_dec be (sub 4 8 buf),
                i_change = ne_dec be (sub 8 12 buf), is_init = buf ! 12, big_end_cksum = buf ! 13,
                sz_page = ne_dec be (sub 14 16 buf), wi_mx_frame = ne_dec be (sub 16 20 buf),
                wi_n_page = ne_dec be (sub 20 24 buf),
                a_frame_cksum = (ne_dec be (sub 24 28 buf), ne_dec be (sub 28 32 buf)),
                a_salt = (ne_dec be (sub 32 36 buf), ne_dec be (sub 36 40 buf)),
                a_cksum = (ne_dec be (sub 40 44 buf), ne_dec be (sub 44 48 buf))\<rparr>)"

record wal_ckpt_info =
  n_backfill :: u32
  a_read_mark :: "u32 list"
  ck_a_lock :: bytes
  n_backfill_attempted :: u32
  not_used_0 :: u32

definition wal_ckpt_info_default :: wal_ckpt_info where
  "wal_ckpt_info_default =
     \<lparr>n_backfill = 0, a_read_mark = replicate WAL_NREADER READMARK_NOT_USED,
      ck_a_lock = replicate SQLITE_SHM_NLOCK 0, n_backfill_attempted = 0, not_used_0 = 0\<rparr>"

text \<open>The lengths of the two arrays of the source type.\<close>

definition wf_ckpt_info :: "wal_ckpt_info \<Rightarrow> bool" where
  "wf_ckpt_info c \<longleftrightarrow> length (a_read_mark c) = WAL_NREADER \<and> length (ck_a_lock c) = SQLITE_SHM_NLOCK"

definition wal_ckpt_info_fields :: "bool \<Rightarrow> wal_ckpt_info \<Rightarrow> (nat \<times> bytes) list" where
  "wal_ckpt_info_fields be c =
     (0, ne_enc be 4 (n_backfill c))
     # map (\<lambda>i. (4 + 4 * i, ne_enc be 4 (a_read_mark c ! i))) [0..<WAL_NREADER]
     @ [(24, ck_a_lock c), (32, ne_enc be 4 (n_backfill_attempted c)),
        (36, ne_enc be 4 (not_used_0 c))]"

definition wal_ckpt_info_encode :: "bool \<Rightarrow> wal_ckpt_info \<Rightarrow> bytes \<Rightarrow> bytes result" where
  "wal_ckpt_info_encode be c out =
     (if length out < WAL_CKPT_INFO_SIZE then Inl Panic
      else Inr (put_all (wal_ckpt_info_fields be c) out))"

definition wal_ckpt_info_decode :: "bool \<Rightarrow> bytes \<Rightarrow> wal_ckpt_info result" where
  "wal_ckpt_info_decode be buf =
     (if length buf < WAL_CKPT_INFO_SIZE then Inl (error_msg ''wal-index ckpt-info too short'')
      else Inr \<lparr>n_backfill = ne_dec be (sub 0 4 buf),
                a_read_mark = map (\<lambda>i. ne_dec be (sub (4 + 4 * i) (8 + 4 * i) buf)) [0..<WAL_NREADER],
                ck_a_lock = sub 24 32 buf,
                n_backfill_attempted = ne_dec be (sub 32 36 buf),
                not_used_0 = ne_dec be (sub 36 40 buf)\<rparr>)"

definition wal_hash_key :: "u32 \<Rightarrow> nat" where
  "wal_hash_key page = unat (page * 383) mod HASHTABLE_NSLOT"

definition wal_frame_offset :: "u32 \<Rightarrow> u32 \<Rightarrow> int" where
  "wal_frame_offset i_frame psize =
     int WAL_HEADER_SIZE + (uint i_frame - 1) * (uint psize + int WAL_FRAME_HEADER_SIZE)"

section \<open>Round trips\<close>

lemma length_ne_enc [simp]: "length (ne_enc be n w) = n"
  by (simp add: ne_enc_def)

lemma ne_dec_enc [codec_simps]:
  "ne_dec be (ne_enc be 4 (w :: u32)) = w" "ne_dec be (ne_enc be 2 (v :: u16)) = v"
  by (simp_all add: ne_dec_def ne_enc_def codec_simps)

interpretation wal_index_hdr: tiled_record "\<lambda>_. True" "wal_index_hdr_fields be" WAL_INDEX_HDR_SIZE
  for be
  by unfold_locales (simp add: wal_index_hdr_fields_def WAL_INDEX_HDR_SIZE_def)

lemmas shm_sizes = WAL_CKPT_INFO_SIZE_def WAL_NREADER_def SQLITE_SHM_NLOCK_def

interpretation wal_ckpt_info: tiled_record wf_ckpt_info "wal_ckpt_info_fields be" WAL_CKPT_INFO_SIZE
  for be
  by unfold_locales (simp add: wal_ckpt_info_fields_def wf_ckpt_info_def shm_sizes upt_rec)

lemma wal_header_slices:
  assumes "32 \<le> length out"
  shows "sub 0 4 (put_all (wal_header_fields h) out) = be_enc 4 (wh_magic h)"
    "sub 4 8 (put_all (wal_header_fields h) out) = be_enc 4 (wh_format_version h)"
    "sub 8 12 (put_all (wal_header_fields h) out) = be_enc 4 (wh_page_size h)"
    "sub 12 16 (put_all (wal_header_fields h) out) = be_enc 4 (wh_checkpoint_seq h)"
    "sub 16 20 (put_all (wal_header_fields h) out) = be_enc 4 (wh_salt1 h)"
    "sub 20 24 (put_all (wal_header_fields h) out) = be_enc 4 (wh_salt2 h)"
    "sub 24 28 (put_all (wal_header_fields h) out) = be_enc 4 (wh_checksum1 h)"
    "sub 28 32 (put_all (wal_header_fields h) out) = be_enc 4 (wh_checksum2 h)"
  using assms by (intro wal_header.field_read; simp add: wal_header_fields_def)+

lemma wal_frame_slices:
  assumes "24 \<le> length out"
  shows "sub 0 4 (put_all (wal_frame_fields h) out) = be_enc 4 (fh_page_number h)"
    "sub 4 8 (put_all (wal_frame_fields h) out) = be_enc 4 (fh_commit_size h)"
    "sub 8 12 (put_all (wal_frame_fields h) out) = be_enc 4 (fh_salt1 h)"
    "sub 12 16 (put_all (wal_frame_fields h) out) = be_enc 4 (fh_salt2 h)"
    "sub 16 20 (put_all (wal_frame_fields h) out) = be_enc 4 (fh_checksum1 h)"
    "sub 20 24 (put_all (wal_frame_fields h) out) = be_enc 4 (fh_checksum2 h)"
  using assms by (intro wal_frame.field_read; simp add: wal_frame_fields_def)+

lemma wal_header_roundtrip [codec_simps]:
  "32 \<le> length out \<Longrightarrow> wal_header_decode (put_all (wal_header_fields h) out) = Inr h"
  using wal_header.length_written [where x = h and out = out]
  by (simp add: wal_header_decode_def wal_header_slices codec_simps)

lemma wal_frame_roundtrip [codec_simps]:
  "24 \<le> length out \<Longrightarrow> wal_frame_decode (put_all (wal_frame_fields h) out) = Inr h"
  using wal_frame.length_written [where x = h and out = out]
  by (simp add: wal_frame_decode_def wal_frame_slices codec_simps)

lemma wal_index_hdr_slices:
  assumes "48 \<le> length out"
  shows "sub 0 4 (put_all (wal_index_hdr_fields be h) out) = ne_enc be 4 (i_version h)"
    "sub 4 8 (put_all (wal_index_hdr_fields be h) out) = ne_enc be 4 (wi_unused h)"
    "sub 8 12 (put_all (wal_index_hdr_fields be h) out) = ne_enc be 4 (i_change h)"
    "sub 14 16 (put_all (wal_index_hdr_fields be h) out) = ne_enc be 2 (sz_page h)"
    "sub 16 20 (put_all (wal_index_hdr_fields be h) out) = ne_enc be 4 (wi_mx_frame h)"
    "sub 20 24 (put_all (wal_index_hdr_fields be h) out) = ne_enc be 4 (wi_n_page h)"
    "sub 24 28 (put_all (wal_index_hdr_fields be h) out) = ne_enc be 4 (fst (a_frame_cksum h))"
    "sub 28 32 (put_all (wal_index_hdr_fields be h) out) = ne_enc be 4 (snd (a_frame_cksum h))"
    "sub 32 36 (put_all (wal_index_hdr_fields be h) out) = ne_enc be 4 (fst (a_salt h))"
    "sub 36 40 (put_all (wal_index_hdr_fields be h) out) = ne_enc be 4 (snd (a_salt h))"
    "sub 40 44 (put_all (wal_index_hdr_fields be h) out) = ne_enc be 4 (fst (a_cksum h))"
    "sub 44 48 (put_all (wal_index_hdr_fields be h) out) = ne_enc be 4 (snd (a_cksum h))"
  using assms
  by (intro wal_index_hdr.field_read; simp add: wal_index_hdr_fields_def WAL_INDEX_HDR_SIZE_def)+

lemma wal_index_hdr_bytes:
  assumes "48 \<le> length out"
  shows "put_all (wal_index_hdr_fields be h) out ! 12 = is_init h"
    "put_all (wal_index_hdr_fields be h) out ! 13 = big_end_cksum h"
  using assms
  by (intro wal_index_hdr.byte_read; simp add: wal_index_hdr_fields_def WAL_INDEX_HDR_SIZE_def)+

lemma wal_index_hdr_roundtrip [codec_simps]:
  "48 \<le> length out \<Longrightarrow> wal_index_hdr_decode be (put_all (wal_index_hdr_fields be h) out) = Inr h"
  using wal_index_hdr.length_written [where x = h and out = out and be = be]
  by (simp add: wal_index_hdr_decode_def wal_index_hdr_slices wal_index_hdr_bytes codec_simps
      WAL_INDEX_HDR_SIZE_def)

lemma wal_ckpt_info_roundtrip [codec_simps]:
  assumes "wf_ckpt_info c" and "40 \<le> length out"
  shows "wal_ckpt_info_decode be (put_all (wal_ckpt_info_fields be c) out) = Inr c"
proof -
  let ?o = "put_all (wal_ckpt_info_fields be c) out"
  have n: "WAL_CKPT_INFO_SIZE = 40" by (simp add: shm_sizes)
  have slices: "sub 0 4 ?o = ne_enc be 4 (n_backfill c)" "sub 24 32 ?o = ck_a_lock c"
      "sub 32 36 ?o = ne_enc be 4 (n_backfill_attempted c)" "sub 36 40 ?o = ne_enc be 4 (not_used_0 c)"
    using assms
    by (intro wal_ckpt_info.field_read; simp add: wal_ckpt_info_fields_def n wf_ckpt_info_def shm_sizes)+
  have mark: "sub (4 + 4 * i) (8 + 4 * i) ?o = ne_enc be 4 (a_read_mark c ! i)" if "i < WAL_NREADER" for i
    using assms that
    by (intro wal_ckpt_info.field_read) (auto simp: wal_ckpt_info_fields_def n)
  have "map (\<lambda>i. ne_dec be (sub (4 + 4 * i) (8 + 4 * i) ?o)) [0..<WAL_NREADER] =
      map (\<lambda>i. a_read_mark c ! i) [0..<WAL_NREADER]"
    by (rule map_cong) (simp_all add: mark codec_simps)
  also have "\<dots> = a_read_mark c" using assms(1) map_nth by (metis wf_ckpt_info_def)
  finally show ?thesis
    using assms wal_ckpt_info.length_written [of c out be] slices
    by (simp add: wal_ckpt_info_decode_def n codec_simps)
qed

text \<open>
  The WAL structures survive encoding: writing a WAL header, a frame header, a wal-index
  header or a checkpoint-info record (in either host byte order) into a buffer that is large
  enough and decoding that buffer gives the structure back and leaves the bytes behind it alone.
\<close>

theorem wal_structures_roundtrip:
  assumes "48 \<le> length out" and "wf_ckpt_info c"
  shows "and_then (wal_header_encode h out) wal_header_decode = Inr h
    \<and> and_then (wal_frame_encode fh out) wal_frame_decode = Inr fh
    \<and> and_then (wal_index_hdr_encode be ih out) (wal_index_hdr_decode be) = Inr ih
    \<and> and_then (wal_ckpt_info_encode be c out) (wal_ckpt_info_decode be) = Inr c
    \<and> and_then (wal_header_encode h out) (\<lambda>buf. Inr (drop 32 buf)) = Inr (drop 32 out)"
  using assms wal_header.rest_unchanged [where x = h and out = out]
  by (simp add: wal_header_encode_def wal_frame_encode_def wal_index_hdr_encode_def
      wal_ckpt_info_encode_def WAL_INDEX_HDR_SIZE_def shm_sizes codec_simps)

theorem wal_structures_roundtrip_witness:
  "and_then (wal_ckpt_info_encode False wal_ckpt_info_default (replicate 48 0))
     (wal_ckpt_info_decode False) = Inr wal_ckpt_info_default"
  using wal_structures_roundtrip [of "replicate 48 0" wal_ckpt_info_default]
  by (simp add: wf_ckpt_info_def wal_ckpt_info_default_def)

section \<open>The checksum\<close>

lemma wal_checksum_words_append:
  "length xs mod 8 = 0 \<Longrightarrow> wal_checksum_words be (xs @ ys) s0 s1 =
     (case wal_checksum_words be xs s0 s1 of (a, b) \<Rightarrow> wal_checksum_words be ys a b)"
proof (induction be xs s0 s1 rule: wal_checksum_words.induct)
  case (1 be a b c d e f g h rest s0 s1)
  then have "length rest mod 8 = 0" by (simp add: mod_Suc_eq_mod_add3)
  with 1 show ?case by (simp add: Let_def)
qed simp_all

end
