(* ===== verification/Wal_Index.thy ===== *)
theory Wal_Index
  imports Wal_Format
begin

text \<open>
  The in-memory wal-index of \<open>pager/wal.rs\<close>: index blocks with a page mapping and an
  open-addressing hash table, \<open>append_frame\<close> and \<open>find_frame\<close>. Frame numbers and slots are
  natural numbers (a block holds at most 4096 frames, so its slots fit the \<open>u16\<close> entries).
  The specification is \<open>latest_frame\<close>: the number of the last frame that holds a page. The
  lemmas show that every frame stays reachable from its hash key through occupied slots, so that
  \<open>find_frame\<close> on the blocks built from a sequence of frames returns exactly that frame, and that
  its probe loop always ends at an empty slot.
\<close>

section \<open>Index blocks\<close>

record index_block =
  i_zero :: nat
  page_mapping :: "u32 list"
  hash_table :: "nat list"

definition block_new :: "nat \<Rightarrow> nat \<Rightarrow> index_block" where
  "block_new z capacity =
     \<lparr>i_zero = z, page_mapping = replicate capacity 0, hash_table = replicate HASHTABLE_NSLOT 0\<rparr>"

text \<open>The linear probe for an empty slot; \<open>n\<close> counts the remaining attempts.\<close>

fun probe_insert :: "nat \<Rightarrow> nat \<Rightarrow> nat \<Rightarrow> nat list \<Rightarrow> nat list" where
  "probe_insert 0 i v table = table"
| "probe_insert (Suc n) i v table =
     (if table ! i = 0 then table[i := v]
      else probe_insert n ((i + 1) AND (HASHTABLE_NSLOT - 1)) v table)"

definition block_append :: "nat \<Rightarrow> u32 \<Rightarrow> index_block \<Rightarrow> index_block" where
  "block_append i_frame pgno b =
     (let idx = i_frame - i_zero b - 1 in
      b\<lparr>page_mapping := (page_mapping b)[idx := pgno],
        hash_table := probe_insert HASHTABLE_NSLOT (wal_hash_key pgno) (idx + 1) (hash_table b)\<rparr>)"

definition wal_frame_page :: "nat \<Rightarrow> nat" where
  "wal_frame_page i_frame =
     (i_frame + HASHTABLE_NPAGE - HASHTABLE_NPAGE_ONE - 1) div HASHTABLE_NPAGE"

function grow_blocks :: "nat \<Rightarrow> index_block list \<Rightarrow> index_block list" where
  "grow_blocks block_idx blocks =
     (if length blocks \<le> block_idx
      then (let z = (if blocks = [] then 0
                     else i_zero (last blocks) + length (page_mapping (last blocks)));
                cap = (if blocks = [] then HASHTABLE_NPAGE_ONE else HASHTABLE_NPAGE)
            in grow_blocks block_idx (blocks @ [block_new z cap]))
      else blocks)"
  by pat_completeness auto
termination
  by (relation "measure (\<lambda>(block_idx, blocks). Suc block_idx - length blocks)") auto

declare grow_blocks.simps [simp del]

definition append_frame :: "nat \<Rightarrow> u32 \<Rightarrow> index_block list \<Rightarrow> index_block list" where
  "append_frame i_frame pgno blocks =
     (let block_idx = wal_frame_page i_frame; grown = grow_blocks block_idx blocks in
      grown[block_idx := block_append i_frame pgno (grown ! block_idx)])"

text \<open>The probe loop of \<open>find_frame\<close> on one block; \<open>None\<close> is the corrupt-index exit.\<close>

fun find_loop :: "nat \<Rightarrow> index_block \<Rightarrow> nat \<Rightarrow> u32 \<Rightarrow> nat \<Rightarrow> nat \<Rightarrow> nat option" where
  "find_loop n_collide b mx_frame pgno i_key i_read =
     (let h = hash_table b ! i_key in
      if h = 0 then Some i_read
      else (let i_frame = i_zero b + h;
                i_read' = (if i_frame \<le> mx_frame
                             \<and> page_mapping b ! ((h - 1) AND (HASHTABLE_NPAGE - 1)) = pgno
                             \<and> i_read < i_frame
                           then i_frame else i_read)
            in (case n_collide of
                  0 \<Rightarrow> None
                | Suc n \<Rightarrow>
                    find_loop n b mx_frame pgno ((i_key + 1) AND (HASHTABLE_NSLOT - 1)) i_read')))"

declare find_loop.simps [simp del]

fun find_blocks :: "index_block option list \<Rightarrow> nat \<Rightarrow> u32 \<Rightarrow> nat \<Rightarrow> nat" where
  "find_blocks [] mx_frame pgno i_read = 0"
| "find_blocks (None # bs) mx_frame pgno i_read = find_blocks bs mx_frame pgno i_read"
| "find_blocks (Some b # bs) mx_frame pgno i_read =
     (case find_loop HASHTABLE_NSLOT b mx_frame pgno (wal_hash_key pgno) i_read of
        None \<Rightarrow> 0
      | Some r \<Rightarrow> if r \<noteq> 0 then r else find_blocks bs mx_frame pgno r)"

definition find_frame :: "index_block list \<Rightarrow> nat \<Rightarrow> u32 \<Rightarrow> nat" where
  "find_frame blocks mx_frame pgno =
     (if mx_frame = 0 then 0
      else find_blocks (rev (map (get_opt blocks) [0..<wal_frame_page mx_frame + 1]))
             mx_frame pgno 0)"

section \<open>The specification\<close>

text \<open>\<open>pgnos\<close> lists the page numbers of frames 1, 2, and so on.\<close>

definition latest_frame :: "u32 list \<Rightarrow> u32 \<Rightarrow> nat" where
  "latest_frame pgnos p = length (dropWhile (\<lambda>q. q \<noteq> p) (rev pgnos))"

definition index_of_frames :: "u32 list \<Rightarrow> index_block list" where
  "index_of_frames pgnos =
     fold (\<lambda>(i, p). append_frame (i + 1) p) (enumerate 0 pgnos) []"

section \<open>Probing\<close>

abbreviation NS :: nat where "NS \<equiv> HASHTABLE_NSLOT"

lemma nslot_pos [simp]: "0 < NS"
  by (simp add: HASHTABLE_NSLOT_def HASHTABLE_NPAGE_def)

lemma and_nslot: "(x :: nat) AND (NS - 1) = x mod NS"
proof -
  have "NS - 1 = mask 13" by (simp add: HASHTABLE_NSLOT_def HASHTABLE_NPAGE_def mask_eq_exp_minus_1)
  moreover have "NS = 2 ^ 13" by (simp add: HASHTABLE_NSLOT_def HASHTABLE_NPAGE_def)
  ultimately show ?thesis by (simp add: take_bit_eq_mask [symmetric] take_bit_eq_mod)
qed

lemma and_nslot_Suc [simp]: "(x :: nat) AND (NS - Suc 0) = x mod NS"
  using and_nslot by simp

lemma and_npage [simp]: "x < HASHTABLE_NPAGE \<Longrightarrow> (x :: nat) AND (HASHTABLE_NPAGE - Suc 0) = x"
proof -
  assume "x < HASHTABLE_NPAGE"
  moreover have "HASHTABLE_NPAGE - Suc 0 = mask 12" "HASHTABLE_NPAGE = 2 ^ 12"
    by (simp_all add: HASHTABLE_NPAGE_def mask_eq_exp_minus_1)
  ultimately show ?thesis by (simp add: take_bit_eq_mask [symmetric] take_bit_nat_eq_self)
qed

lemma hash_key_bound: "wal_hash_key p < NS"
  by (simp add: wal_hash_key_def)

text \<open>\<open>v\<close> sits in the table, at most \<open>d\<close> occupied slots behind its key.\<close>

definition reach :: "nat list \<Rightarrow> nat \<Rightarrow> nat \<Rightarrow> bool" where
  "reach table key v \<longleftrightarrow>
     (\<exists>d < NS. table ! ((key + d) mod NS) = v \<and> (\<forall>e < d. table ! ((key + e) mod NS) \<noteq> 0))"

lemma reach_update:
  assumes "reach table key v" and "v \<noteq> 0" and "table ! i = 0" and "w \<noteq> 0" and "i < length table"
  shows "reach (table[i := w]) key v"
proof -
  obtain d where d: "d < NS" "table ! ((key + d) mod NS) = v"
      "\<forall>e < d. table ! ((key + e) mod NS) \<noteq> 0"
    using assms(1) by (auto simp: reach_def)
  have "table[i := w] ! ((key + d) mod NS) = v" using d(2) assms by (auto simp: nth_list_update)
  moreover have "\<forall>e < d. table[i := w] ! ((key + e) mod NS) \<noteq> 0"
    using d(3) assms by (auto simp: nth_list_update)
  ultimately show ?thesis using d(1) by (auto simp: reach_def)
qed

text \<open>The first empty slot at or behind a key.\<close>

lemma empty_slot:
  assumes "length table = NS" and "length (filter (\<lambda>x. x \<noteq> 0) table) < NS" and "key < NS"
  shows "\<exists>d < NS. table ! ((key + d) mod NS) = 0 \<and> (\<forall>e < d. table ! ((key + e) mod NS) \<noteq> 0)"
proof -
  have "\<exists>j < NS. table ! j = 0"
  proof (rule ccontr)
    assume "\<not> ?thesis"
    then have "\<forall>x \<in> set table. x \<noteq> 0" using assms(1) by (auto simp: in_set_conv_nth)
    then show False using assms(1,2) by simp
  qed
  then obtain j where j: "j < NS" "table ! j = 0" by blast
  let ?P = "\<lambda>d. d < NS \<and> table ! ((key + d) mod NS) = 0"
  have "?P ((j + NS - key) mod NS)"
  proof -
    have "(key + (j + NS - key) mod NS) mod NS = (key + (j + NS - key)) mod NS"
      by (simp add: mod_add_right_eq)
    also have "\<dots> = j" using j(1) assms(3) by simp
    finally show ?thesis using j by simp
  qed
  then have "\<exists>d. ?P d" by blast
  then obtain d where "?P d" "\<forall>e < d. \<not> ?P e" using exists_least_iff [of ?P] by blast
  then show ?thesis by (meson less_trans)
qed

lemma probe_insert_at:
  assumes "d < n" and "length table = NS" and "key < NS"
    and "table ! ((key + d) mod NS) = 0" and "\<forall>e < d. table ! ((key + e) mod NS) \<noteq> 0"
  shows "probe_insert n key v table = table[(key + d) mod NS := v]"
  using assms
proof (induction d arbitrary: n key)
  case 0
  then obtain m where "n = Suc m" by (cases n) auto
  with 0 show ?case by simp
next
  case (Suc d)
  then obtain m where n: "n = Suc m" "d < m" by (cases n) auto
  have k: "table ! key \<noteq> 0" using Suc.prems(3,5) by force
  let ?k = "(key + 1) mod NS"
  have s: "(?k + e) mod NS = (key + Suc e) mod NS" for e by (simp add: mod_add_left_eq)
  have "probe_insert m ?k v table = table[(?k + d) mod NS := v]"
  proof (rule Suc.IH [OF n(2) Suc.prems(2)])
    show "?k < NS" by simp
    show "table ! ((?k + d) mod NS) = 0" using Suc.prems(4) s by simp
    show "\<forall>e < d. table ! ((?k + e) mod NS) \<noteq> 0"
      unfolding s using Suc.prems(5) by (meson Suc_mono)
  qed
  then show ?case using n k s by simp
qed

section \<open>Blocks represent their frames\<close>

text \<open>\<open>b\<close> indexes the frames \<open>z + 1, z + 2, \<dots>\<close>, which hold the pages \<open>ps\<close>.\<close>

definition block_ok :: "nat \<Rightarrow> nat \<Rightarrow> u32 list \<Rightarrow> index_block \<Rightarrow> bool" where
  "block_ok z cap ps b \<longleftrightarrow> i_zero b = z \<and> length (page_mapping b) = cap \<and> length (hash_table b) = NS
     \<and> length ps \<le> cap \<and> cap \<le> HASHTABLE_NPAGE
     \<and> (\<forall>i < length ps. page_mapping b ! i = ps ! i \<and> reach (hash_table b) (wal_hash_key (ps ! i)) (i + 1))
     \<and> (\<forall>h \<in> set (hash_table b). h \<le> length ps)
     \<and> length (filter (\<lambda>x. x \<noteq> 0) (hash_table b)) = length ps"

lemma length_filter_update:
  "i < length xs \<Longrightarrow> \<not> P (xs ! i) \<Longrightarrow> P v \<Longrightarrow> length (filter P (xs[i := v])) = Suc (length (filter P xs))"
proof (induction xs arbitrary: i)
  case (Cons x xs)
  then show ?case by (cases i) auto
qed simp

lemma block_new_ok: "cap \<le> HASHTABLE_NPAGE \<Longrightarrow> block_ok z cap [] (block_new z cap)"
  by (simp add: block_ok_def block_new_def)

lemma block_append_ok:
  assumes ok: "block_ok z cap ps b" and room: "length ps < cap"
  shows "block_ok z cap (ps @ [p]) (block_append (z + length ps + 1) p b)"
proof -
  let ?t = "hash_table b" and ?k = "wal_hash_key p" and ?n = "length ps"
  have len: "length ?t = NS" and few: "length (filter (\<lambda>x. x \<noteq> 0) ?t) = ?n" "?n < NS"
    using ok room by (auto simp: block_ok_def HASHTABLE_NSLOT_def)
  obtain d where d: "d < NS" "?t ! ((?k + d) mod NS) = 0" "\<forall>e < d. ?t ! ((?k + e) mod NS) \<noteq> 0"
    using empty_slot [OF len _ hash_key_bound, of p] few by auto
  define t' where "t' = ?t[(?k + d) mod NS := ?n + 1]"
  have ins: "probe_insert NS ?k (?n + 1) ?t = t'"
    unfolding t'_def by (rule probe_insert_at [OF d(1) len hash_key_bound d(2,3)])
  have slot: "(?k + d) mod NS < length ?t" using len by simp
  have old: "reach t' (wal_hash_key (ps ! i)) (i + 1)" if "i < ?n" for i
    unfolding t'_def using ok that d(2) slot
    by (intro reach_update) (auto simp: block_ok_def)
  have "reach t' ?k (?n + 1)"
    unfolding reach_def
  proof (intro exI conjI)
    show "t' ! ((?k + d) mod NS) = ?n + 1" using slot by (simp add: t'_def)
    show "\<forall>e < d. t' ! ((?k + e) mod NS) \<noteq> 0"
      using d(3) slot by (auto simp: t'_def nth_list_update)
  qed (rule d(1))
  then have all: "\<forall>i < length (ps @ [p]). reach t' (wal_hash_key ((ps @ [p]) ! i)) (i + 1)"
    using old by (auto simp: less_Suc_eq nth_append)
  have map_ok: "\<forall>i < length (ps @ [p]). (page_mapping b)[?n := p] ! i = (ps @ [p]) ! i"
    using ok room by (auto simp: block_ok_def less_Suc_eq nth_append)
  have vals: "\<forall>h \<in> set t'. h \<le> length (ps @ [p])"
    using ok set_update_subset_insert [of ?t "(?k + d) mod NS" "?n + 1"]
    by (fastforce simp: block_ok_def t'_def)
  have cnt: "length (filter (\<lambda>x. x \<noteq> 0) t') = length (ps @ [p])"
    unfolding t'_def using slot d(2) few(1) by (simp add: length_filter_update)
  show ?thesis
    using ok room ins len all map_ok vals cnt
    by (simp add: block_ok_def block_append_def Let_def t'_def [symmetric])
       (simp add: t'_def)
qed

section \<open>Searching a block\<close>

lemma latest_frame_append:
  "latest_frame (xs @ ys) p =
     (if p \<in> set ys then length xs + latest_frame ys p else latest_frame xs p)"
  unfolding latest_frame_def
proof (induction ys rule: rev_induct)
  case (snoc y ys)
  then show ?case by auto
qed simp

lemma latest_frame_0 [simp]: "latest_frame xs p = 0 \<longleftrightarrow> p \<notin> set xs"
  by (auto simp: latest_frame_def dropWhile_eq_Nil_conv)

lemma latest_frame_eqI:
  assumes "r \<le> length xs" and "0 < r" and "xs ! (r - 1) = p"
    and "\<And>i. i < length xs \<Longrightarrow> xs ! i = p \<Longrightarrow> i + 1 \<le> r"
  shows "latest_frame xs p = r"
  using assms
proof (induction xs arbitrary: r rule: rev_induct)
  case (snoc x xs)
  show ?case
  proof (cases "x = p")
    case True
    then have "r = length (xs @ [x])" using snoc.prems(1) snoc.prems(4) [of "length xs"] by simp
    then show ?thesis using True by (simp add: latest_frame_def)
  next
    case False
    then have r: "r \<le> length xs" using snoc.prems(1-3) by (cases "r = Suc (length xs)") auto
    have "latest_frame xs p = r"
    proof (rule snoc.IH [OF r snoc.prems(2)])
      show "xs ! (r - 1) = p" using snoc.prems(2,3) r by (auto simp: nth_append split: if_splits)
      show "i + 1 \<le> r" if "i < length xs" "xs ! i = p" for i
        using snoc.prems(4) [of i] that by (simp add: nth_append)
    qed
    then show ?thesis using False by (simp add: latest_frame_append)
  qed
qed simp

definition scan_step :: "index_block \<Rightarrow> nat \<Rightarrow> u32 \<Rightarrow> nat \<Rightarrow> nat \<Rightarrow> nat" where
  "scan_step b mx pgno h r =
     (if i_zero b + h \<le> mx \<and> page_mapping b ! ((h - 1) AND (HASHTABLE_NPAGE - 1)) = pgno
        \<and> r < i_zero b + h then i_zero b + h else r)"

lemma find_loop_scan:
  assumes "j \<le> D" and "D - j \<le> n" and "hash_table b ! ((key + D) mod NS) = 0"
    and "\<forall>e < D. hash_table b ! ((key + e) mod NS) \<noteq> 0"
  shows "find_loop n b mx pgno ((key + j) mod NS) r =
    Some (fold (scan_step b mx pgno) (map (\<lambda>e. hash_table b ! ((key + e) mod NS)) [j..<D]) r)"
  using assms
proof (induction "D - j" arbitrary: j n r)
  case 0
  then show ?case by (simp add: find_loop.simps)
next
  case (Suc k)
  then have j: "j < D" by simp
  obtain m where m: "n = Suc m" using Suc by (cases n) auto
  have h: "hash_table b ! ((key + j) mod NS) \<noteq> 0" using Suc.prems(4) j by blast
  have s: "(((key + j) mod NS) + 1) mod NS = (key + Suc j) mod NS" by (simp add: mod_Suc_eq)
  have "find_loop m b mx pgno ((key + Suc j) mod NS) r' =
      Some (fold (scan_step b mx pgno) (map (\<lambda>e. hash_table b ! ((key + e) mod NS)) [Suc j..<D]) r')" for r'
    using Suc m j by (intro Suc.hyps(1)) auto
  then show ?case
    using h m s j by (subst find_loop.simps) (simp add: Let_def scan_step_def upt_conv_Cons)
qed

lemma fold_scan_bounds:
  "fold (scan_step b mx p) hs r = r \<or>
     (\<exists>h \<in> set hs. fold (scan_step b mx p) hs r = i_zero b + h \<and> i_zero b + h \<le> mx
        \<and> page_mapping b ! ((h - 1) AND (HASHTABLE_NPAGE - 1)) = p)"
  "r \<le> fold (scan_step b mx p) hs r"
  "h \<in> set hs \<Longrightarrow> i_zero b + h \<le> mx \<Longrightarrow> page_mapping b ! ((h - 1) AND (HASHTABLE_NPAGE - 1)) = p \<Longrightarrow>
     i_zero b + h \<le> fold (scan_step b mx p) hs r"
proof (induction hs arbitrary: r)
  case (Cons a hs)
  {
    case 1
    then show ?case using Cons(1) [of "scan_step b mx p a r"] by (auto simp: scan_step_def)
  next
    case 2
    have "r \<le> scan_step b mx p a r" by (simp add: scan_step_def)
    then show ?case using Cons(2) order_trans by auto
  next
    case 3
    show ?case
    proof (cases "h \<in> set hs")
      case True
      then show ?thesis using 3 Cons(3) by simp
    next
      case False
      then have "i_zero b + h \<le> scan_step b mx p a r" using 3 by (auto simp: scan_step_def)
      then show ?thesis using Cons(2) [of "scan_step b mx p a r"] order_trans by auto
    qed
  }
qed auto

lemma find_in_block:
  assumes ok: "block_ok z cap ps b" and mx: "z + length ps \<le> mx"
  shows "find_loop NS b mx p (wal_hash_key p) 0 =
    Some (if p \<in> set ps then z + latest_frame ps p else 0)"
proof -
  let ?t = "hash_table b" and ?k = "wal_hash_key p"
  have b: "i_zero b = z" "length ?t = NS" "length ps \<le> HASHTABLE_NPAGE"
      "length (filter (\<lambda>x. x \<noteq> 0) ?t) = length ps"
    using ok by (auto simp: block_ok_def)
  then have "length (filter (\<lambda>x. x \<noteq> 0) ?t) < NS" by (simp add: HASHTABLE_NSLOT_def HASHTABLE_NPAGE_def)
  from empty_slot [OF b(2) this hash_key_bound, of p]
  obtain D where D: "D < NS" "?t ! ((?k + D) mod NS) = 0" "\<forall>e < D. ?t ! ((?k + e) mod NS) \<noteq> 0"
    by blast
  define hs where "hs = map (\<lambda>e. ?t ! ((?k + e) mod NS)) [0..<D]"
  define r where "r = fold (scan_step b mx p) hs 0"
  have run: "find_loop NS b mx p ?k 0 = Some r"
    using find_loop_scan [of 0 D NS b ?k mx p 0] D hash_key_bound [of p] by (simp add: hs_def r_def)
  have h: "0 < h \<and> h \<le> length ps \<and> page_mapping b ! ((h - 1) AND (HASHTABLE_NPAGE - 1)) = ps ! (h - 1)"
    if hin: "h \<in> set hs" for h
  proof -
    obtain e where e: "e < D" "h = ?t ! ((?k + e) mod NS)" using hin by (auto simp: hs_def)
    then have "h \<noteq> 0" "h \<in> set ?t" using D(3) b(2) nth_mem [of "(?k + e) mod NS" ?t] by auto
    then have "0 < h" "h \<le> length ps" using ok by (auto simp: block_ok_def)
    moreover from this have "h - 1 < HASHTABLE_NPAGE" using b(3) by linarith
    ultimately show ?thesis using ok by (simp add: block_ok_def)
  qed
  have found: "i + 1 \<in> set hs" if i: "i < length ps" "ps ! i = p" for i
  proof -
    obtain d where d: "d < NS" "?t ! ((?k + d) mod NS) = i + 1" "\<forall>e < d. ?t ! ((?k + e) mod NS) \<noteq> 0"
      using ok i by (auto simp: block_ok_def reach_def)
    then have "d < D" using D(2) by (metis add_is_0 linorder_neqE_nat zero_neq_one)
    then show ?thesis using d(2) by (auto simp: hs_def image_iff intro!: bexI [of _ d])
  qed
  show ?thesis
  proof (cases "p \<in> set ps")
    case True
    then obtain i where i: "i < length ps" "ps ! i = p" by (auto simp: in_set_conv_nth)
    have ge: "z + (j + 1) \<le> r" if "j < length ps" "ps ! j = p" for j
      using fold_scan_bounds(3) [OF found [OF that], of b mx p 0] h [OF found [OF that]] that mx b(1)
      by (simp add: r_def)
    then have "r \<noteq> 0" using i by fastforce
    then obtain h where hh: "h \<in> set hs" "r = z + h" "ps ! (h - 1) = p"
      using fold_scan_bounds(1) [of b mx p hs 0] h b(1) by (auto simp: r_def)
    have "latest_frame ps p = h"
      using h [OF hh(1)] hh ge by (intro latest_frame_eqI) auto
    then show ?thesis using run True hh by simp
  next
    case False
    have "r = 0"
    proof (rule ccontr)
      assume "r \<noteq> 0"
      then obtain h where "h \<in> set hs" "ps ! (h - 1) = p"
        using fold_scan_bounds(1) [of b mx p hs 0] h by (auto simp: r_def)
      moreover from this have "h - 1 < length ps" using h [of h] by linarith
      ultimately show False using False nth_mem by metis
    qed
    then show ?thesis using run False by simp
  qed
qed

section \<open>The sequence of blocks\<close>

definition zero_of :: "nat \<Rightarrow> nat" where
  "zero_of k = (if k = 0 then 0 else HASHTABLE_NPAGE_ONE + (k - 1) * HASHTABLE_NPAGE)"

definition cap_of :: "nat \<Rightarrow> nat" where
  "cap_of k = (if k = 0 then HASHTABLE_NPAGE_ONE else HASHTABLE_NPAGE)"

lemmas page_counts = HASHTABLE_NPAGE_def HASHTABLE_NPAGE_ONE_def

lemma zero_of_Suc: "zero_of (Suc k) = zero_of k + cap_of k"
  by (cases k) (simp_all add: zero_of_def cap_of_def)

lemma cap_of_bound: "cap_of k \<le> HASHTABLE_NPAGE"
  by (simp add: cap_of_def page_counts)

lemma wal_frame_page_bounds:
  assumes "0 < i"
  shows "zero_of (wal_frame_page i) < i \<and> i \<le> zero_of (wal_frame_page i) + cap_of (wal_frame_page i)"
proof -
  define k where "k = wal_frame_page i"
  have "k = (i + 33) div 4096" by (simp add: k_def wal_frame_page_def page_counts)
  then have "k * 4096 \<le> i + 33" "i + 33 < k * 4096 + 4096"
    by (auto simp: div_mult_mod_eq [symmetric] dividend_less_div_times)
  then show ?thesis
    using assms unfolding k_def [symmetric]
    by (cases k) (auto simp: zero_of_def cap_of_def page_counts)
qed

definition chunk :: "u32 list \<Rightarrow> nat \<Rightarrow> u32 list" where
  "chunk pgnos k = sub (zero_of k) (zero_of (Suc k)) pgnos"

definition index_ok :: "u32 list \<Rightarrow> index_block list \<Rightarrow> bool" where
  "index_ok pgnos blocks \<longleftrightarrow>
     length blocks = (if pgnos = [] then 0 else wal_frame_page (length pgnos) + 1)
     \<and> (\<forall>k < length blocks. block_ok (zero_of k) (cap_of k) (chunk pgnos k) (blocks ! k))"

lemma wal_frame_page_Suc:
  assumes "0 < i"
  shows "wal_frame_page (i + 1) = wal_frame_page i \<or>
     wal_frame_page (i + 1) = wal_frame_page i + 1 \<and> zero_of (wal_frame_page i + 1) = i"
proof -
  define k where "k = wal_frame_page i"
  have k: "zero_of k < i" "i \<le> zero_of (Suc k)"
    using wal_frame_page_bounds [OF assms] by (simp_all add: k_def zero_of_Suc)
  define m where "m = wal_frame_page (i + 1)"
  have m: "zero_of m < i + 1" "i + 1 \<le> zero_of (Suc m)"
    using wal_frame_page_bounds [of "i + 1"] by (simp_all add: m_def zero_of_Suc)
  have mono: "zero_of a \<le> zero_of b" if "a \<le> b" for a b
    using that by (auto simp: zero_of_def page_counts)
  have "k \<le> m" using k(1) m(2) mono [of "Suc m" k] by (cases "k \<le> m") auto
  moreover have "m \<le> Suc k" using k(2) m(1) mono [of "Suc (Suc k)" m] zero_of_Suc [of "Suc k"]
    by (cases "m \<le> Suc k") (auto simp: cap_of_def page_counts)
  ultimately consider "m = k" | "m = Suc k" by linarith
  then show ?thesis
  proof cases
    case 2
    then have "zero_of (Suc k) = i" using k m by simp
    then show ?thesis using 2 by (simp add: k_def m_def)
  qed (simp add: k_def m_def)
qed

lemma chunk_append_other:
  "zero_of (Suc k) \<le> length xs \<Longrightarrow> chunk (xs @ [p]) k = chunk xs k"
  by (simp add: chunk_def sub_append_left)

lemma chunk_append_last:
  assumes "zero_of k \<le> length xs" and "length xs < zero_of (Suc k)"
  shows "chunk (xs @ [p]) k = chunk xs k @ [p]" "length xs = zero_of k + length (chunk xs k)"
  using assms by (simp_all add: chunk_def sub_def)

lemma grow_blocks_ok:
  assumes ok: "index_ok xs blocks" and k: "k = wal_frame_page (length xs + 1)"
  shows "length (grow_blocks k blocks) = k + 1
    \<and> (\<forall>j \<le> k. block_ok (zero_of j) (cap_of j) (chunk xs j) (grow_blocks k blocks ! j))"
proof (cases "xs = []")
  case True
  then have "k = 0" "blocks = []"
    using ok k by (simp_all add: index_ok_def wal_frame_page_def page_counts)
  then have "grow_blocks k blocks = [block_new 0 HASHTABLE_NPAGE_ONE]"
    by (simp add: grow_blocks.simps)
  then show ?thesis using \<open>k = 0\<close> True block_new_ok [of "cap_of 0" "zero_of 0"] cap_of_bound [of 0]
    by (simp add: zero_of_def cap_of_def chunk_def sub_def)
next
  case False
  define m where "m = wal_frame_page (length xs)"
  have bl: "length blocks = m + 1"
      "\<forall>j < length blocks. block_ok (zero_of j) (cap_of j) (chunk xs j) (blocks ! j)"
    using ok False by (auto simp: index_ok_def m_def)
  consider "k = m" | "k = m + 1" "zero_of (m + 1) = length xs"
    using wal_frame_page_Suc [of "length xs"] False k m_def by auto
  then show ?thesis
  proof cases
    case 1
    then have "grow_blocks k blocks = blocks" using bl(1) by (subst grow_blocks.simps) simp
    then show ?thesis using bl 1 by simp
  next
    case 2
    have ne: "blocks \<noteq> []" using bl(1) by auto
    then have "last blocks = blocks ! m" using bl(1) by (simp add: last_conv_nth)
    note ne = ne this
    have "block_ok (zero_of m) (cap_of m) (chunk xs m) (blocks ! m)" using bl by simp
    then have "i_zero (last blocks) + length (page_mapping (last blocks)) = zero_of k"
      using ne 2(1) by (simp add: block_ok_def zero_of_Suc)
    then have g: "grow_blocks k blocks = blocks @ [block_new (zero_of k) (cap_of k)]"
      using bl(1) 2(1) ne(1)
      by (subst grow_blocks.simps) (simp add: Let_def cap_of_def grow_blocks.simps)
    have "chunk xs k = []" using 2 by (simp add: chunk_def sub_def)
    then show ?thesis
      using g bl 2(1) block_new_ok [OF cap_of_bound, of "zero_of k" k]
      by (auto simp: nth_append less_Suc_eq_le [symmetric] less_Suc_eq)
  qed
qed

lemma append_frame_ok:
  assumes ok: "index_ok xs blocks"
  shows "index_ok (xs @ [p]) (append_frame (length xs + 1) p blocks)"
proof -
  define k where "k = wal_frame_page (length xs + 1)"
  define G where "G = grow_blocks k blocks"
  have G: "length G = k + 1" "\<And>j. j \<le> k \<Longrightarrow> block_ok (zero_of j) (cap_of j) (chunk xs j) (G ! j)"
    using grow_blocks_ok [OF ok k_def] by (auto simp: G_def)
  have app: "append_frame (length xs + 1) p blocks = G[k := block_append (length xs + 1) p (G ! k)]"
    by (simp only: append_frame_def Let_def k_def G_def)
  have b: "zero_of k \<le> length xs" "length xs < zero_of (Suc k)"
    using wal_frame_page_bounds [of "length xs + 1"] by (auto simp: k_def zero_of_Suc)
  note ch = chunk_append_last [OF b]
  have room: "length (chunk xs k) < cap_of k" using ch(2) b(2) by (simp add: zero_of_Suc)
  have last: "block_ok (zero_of k) (cap_of k) (chunk (xs @ [p]) k)
      (block_append (length xs + 1) p (G ! k))"
    using block_append_ok [OF G(2) [of k] room, of p] ch by simp
  have "block_ok (zero_of j) (cap_of j) (chunk (xs @ [p]) j)
      (append_frame (length xs + 1) p blocks ! j)" if j: "j \<le> k" for j
  proof (cases "j = k")
    case True
    then show ?thesis using last G(1) unfolding app by simp
  next
    case False
    then have "zero_of (Suc j) \<le> zero_of k" using j by (auto simp: zero_of_def page_counts)
    then have "chunk (xs @ [p]) j = chunk xs j" using b(1) by (intro chunk_append_other) simp
    then show ?thesis using G(2) [OF j] False unfolding app by simp
  qed
  then show ?thesis
    using G(1) k_def unfolding index_ok_def app by (simp add: less_Suc_eq_le)
qed

lemma index_of_frames_snoc:
  "index_of_frames (xs @ [p]) = append_frame (length xs + 1) p (index_of_frames xs)"
  by (simp add: index_of_frames_def enumerate_append_eq)

lemma index_of_frames_ok: "index_ok xs (index_of_frames xs)"
proof (induction xs rule: rev_induct)
  case Nil
  then show ?case by (simp add: index_ok_def index_of_frames_def)
next
  case (snoc p xs)
  then show ?case unfolding index_of_frames_snoc by (rule append_frame_ok)
qed

lemma find_blocks_latest:
  assumes "\<forall>k < m. block_ok (zero_of k) (cap_of k) (chunk xs k) (blocks ! k)" and "m \<le> length blocks"
  shows "find_blocks (rev (map (get_opt blocks) [0..<m])) (length xs) p 0 =
    latest_frame (take (zero_of m) xs) p"
  using assms
proof (induction m)
  case 0
  then show ?case by (simp add: zero_of_def latest_frame_def)
next
  case (Suc m)
  have b: "get_opt blocks m = Some (blocks ! m)" using Suc.prems(2) by simp
  have t: "take (zero_of (Suc m)) xs = take (zero_of m) xs @ chunk xs m"
    by (simp add: chunk_def sub_def zero_of_Suc take_add)
  have pos: "p \<in> set (chunk xs m) \<Longrightarrow> latest_frame (chunk xs m) p \<noteq> 0" by simp
  show ?case
  proof (cases "chunk xs m = []")
    case True
    have "block_ok (zero_of m) (cap_of m) (chunk xs m) (blocks ! m)" using Suc.prems by simp
    then have "block_ok (zero_of m) (cap_of m) [] (blocks ! m)" using True by simp
    then have "find_loop NS (blocks ! m) (length xs) p (wal_hash_key p) 0 = Some 0"
    proof -
      have "\<forall>h \<in> set (hash_table (blocks ! m)). h = 0" "length (hash_table (blocks ! m)) = NS"
        using \<open>block_ok (zero_of m) (cap_of m) [] (blocks ! m)\<close> by (auto simp: block_ok_def)
      then have "hash_table (blocks ! m) ! wal_hash_key p = 0" using hash_key_bound [of p] by simp
      then show ?thesis by (simp add: find_loop.simps)
    qed
    then show ?thesis using Suc t True b by simp
  next
    case False
    then have l: "zero_of m + length (chunk xs m) \<le> length xs" "zero_of m \<le> length xs"
      by (auto simp: chunk_def sub_def)
    have "find_loop NS (blocks ! m) (length xs) p (wal_hash_key p) 0 =
        Some (if p \<in> set (chunk xs m) then zero_of m + latest_frame (chunk xs m) p else 0)"
      using Suc.prems l by (intro find_in_block) auto
    then show ?thesis using Suc t b l(2) pos by (auto simp: latest_frame_append)
  qed
qed

lemma find_frame_index:
  "find_frame (index_of_frames pgnos) (length pgnos) p = latest_frame pgnos p"
proof (cases "pgnos = []")
  case True
  then show ?thesis by (simp add: find_frame_def latest_frame_def)
next
  case False
  define k where "k = wal_frame_page (length pgnos)"
  have ok: "index_ok pgnos (index_of_frames pgnos)" by (rule index_of_frames_ok)
  have "length pgnos \<le> zero_of (k + 1)"
    using wal_frame_page_bounds [of "length pgnos"] False by (simp add: k_def zero_of_Suc)
  then show ?thesis
    using find_blocks_latest [of "k + 1" pgnos "index_of_frames pgnos" p] ok False
    by (simp add: find_frame_def index_ok_def k_def)
qed

text \<open>
  C13. A page lookup in the WAL finds the latest frame: for every sequence of frames, the index
  blocks built by appending them one after the other make \<open>find_frame\<close> return the number of the
  last frame that holds the page, and 0 exactly when no frame holds it; hash collisions, block
  boundaries and rewritten pages included.
\<close>

theorem find_frame_latest:
  "find_frame (index_of_frames pgnos) (length pgnos) p = latest_frame pgnos p"
  by (rule find_frame_index)

end
