(* ===== verification/Mem_File.thy ===== *)
theory Mem_File
  imports Errors
begin

text \<open>
  Positioned file I/O of the in-memory VFS (\<open>MemFile::read_at\<close>, \<open>write_at\<close>, \<open>truncate\<close>,
  \<open>file_size\<close> in \<open>vfs/memvfs.rs\<close>). The contract the pager and the write-ahead log rely on is the
  locale \<open>byte_file\<close>: what a read returns after a write or a truncation, and when two files are
  equal. Inside it a file is viewed as a sequence of fixed-size pages, and copying saved pages
  back over a damaged file is shown to restore it. The locale is interpreted on the operations of
  \<open>MemFile\<close>.
\<close>

section \<open>The operations\<close>

text \<open>
  \<open>read_at\<close> fills a prefix of the buffer and returns its length; \<open>file_read_at\<close> gives that prefix,
  \<open>file_read_buf\<close> the whole buffer (zeroed before the call).
\<close>

definition file_read_at :: "bytes \<Rightarrow> nat \<Rightarrow> nat \<Rightarrow> bytes" where
  "file_read_at data start len =
     (if length data \<le> start then []
      else (let n = min len (length data - start) in sub start (start + n) data))"

definition file_read_buf :: "bytes \<Rightarrow> nat \<Rightarrow> nat \<Rightarrow> bytes" where
  "file_read_buf data start len = put_at 0 (file_read_at data start len) (replicate len 0)"

definition file_write_at :: "bytes \<Rightarrow> nat \<Rightarrow> bytes \<Rightarrow> bytes" where
  "file_write_at data offset src =
     (let e = offset + length src;
          data1 = (if length data < e then resize e data else data)
      in put_at offset src data1)"

definition file_truncate :: "bytes \<Rightarrow> nat \<Rightarrow> bytes" where
  "file_truncate data n = resize n data"

definition file_size :: "bytes \<Rightarrow> nat" where
  "file_size data = length data"

section \<open>The contract of a file\<close>

locale byte_file =
  fixes rd :: "'f \<Rightarrow> nat \<Rightarrow> nat \<Rightarrow> bytes"
    and wr :: "'f \<Rightarrow> nat \<Rightarrow> bytes \<Rightarrow> 'f"
    and tr :: "'f \<Rightarrow> nat \<Rightarrow> 'f"
    and sz :: "'f \<Rightarrow> nat"
  assumes length_rd: "length (rd f off n) = min n (sz f - off)"
    and sz_wr: "sz (wr f off src) = max (sz f) (off + length src)"
    and sz_tr: "sz (tr f n) = n"
    and rd_wr_same: "rd (wr f off src) off (length src) = src"
    and rd_wr_other: "off' + n \<le> sz f \<Longrightarrow> off' + n \<le> off \<or> off + length src \<le> off' \<Longrightarrow>
      rd (wr f off src) off' n = rd f off' n"
    and rd_tr: "off + n \<le> sz f \<Longrightarrow> off + n \<le> k \<Longrightarrow> rd (tr f k) off n = rd f off n"
    and rd_byte: "i < n \<Longrightarrow> off + i < sz f \<Longrightarrow> rd f (off + i) 1 = [rd f off n ! i]"
    and file_eqI: "sz f = sz g \<Longrightarrow> (\<And>i. i < sz f \<Longrightarrow> rd f i 1 = rd g i 1) \<Longrightarrow> f = g"
begin

text \<open>Page \<open>k\<close> (counted from 0) of a file of pages of \<open>p\<close> bytes, and writing one.\<close>

definition page_of :: "nat \<Rightarrow> 'f \<Rightarrow> nat \<Rightarrow> bytes" where
  "page_of p f k = rd f (k * p) p"

definition put_page :: "nat \<Rightarrow> nat \<times> bytes \<Rightarrow> 'f \<Rightarrow> 'f" where
  "put_page p kd f = wr f (fst kd * p) (snd kd)"

lemma page_fits: "length (page_of p f k) = p \<Longrightarrow> 0 < p \<Longrightarrow> k * p + p \<le> sz f"
  by (simp add: page_of_def length_rd)

lemma pages_disjoint: "(j :: nat) \<noteq> k \<Longrightarrow> j * p + p \<le> k * p \<or> k * p + p \<le> j * p"
  by (metis add.commute linorder_neq_iff mult_Suc mult_le_mono1 Suc_leI)

lemma page_put_same: "length d = p \<Longrightarrow> page_of p (put_page p (k, d) f) k = d"
  using rd_wr_same [of f "k * p" d] by (simp add: page_of_def put_page_def)

lemma page_put_other:
  "length d = p \<Longrightarrow> j \<noteq> k \<Longrightarrow> j * p + p \<le> sz f \<Longrightarrow> page_of p (put_page p (k, d) f) j = page_of p f j"
  using pages_disjoint [of j k p] by (simp add: page_of_def put_page_def rd_wr_other)

lemma sz_put_page: "sz f \<le> sz (put_page p kd f)"
  by (simp add: put_page_def sz_wr)

lemma page_eq_by_pages:
  assumes "0 < p" and "sz f = n * p" and "sz g = n * p"
    and "\<And>k. k < n \<Longrightarrow> page_of p f k = page_of p g k"
  shows "f = g"
proof (rule file_eqI)
  show "sz f = sz g" using assms by simp
  fix i
  assume i: "i < sz f"
  then have k: "i div p < n" using assms(1,2) by (simp add: less_mult_imp_div_less)
  have j: "i mod p < p" "i div p * p + i mod p = i" using assms(1) by simp_all
  have "rd f (i div p * p + i mod p) 1 = [rd f (i div p * p) p ! (i mod p)]"
    using i j by (intro rd_byte) simp_all
  moreover have "rd g (i div p * p + i mod p) 1 = [rd g (i div p * p) p ! (i mod p)]"
    using i j assms(2,3) by (intro rd_byte) simp_all
  ultimately show "rd f i 1 = rd g i 1" using assms(4) [OF k] j(2) by (simp add: page_of_def)
qed

text \<open>Copying a list of saved pages over a file.\<close>

lemma replay_pages:
  assumes "0 < p" and "\<forall>(k, d) \<in> set recs. length d = p \<and> d = page_of p f0 k"
    and "length (page_of p f0 j) = p"
    and "j \<in> fst ` set recs \<or> page_of p f j = page_of p f0 j"
  shows "page_of p (fold (put_page p) recs f) j = page_of p f0 j"
  using assms
proof (induction recs arbitrary: f)
  case Nil
  then show ?case by simp
next
  case (Cons kd recs)
  obtain k d where kd: "kd = (k, d)" by force
  have d: "length d = p" "d = page_of p f0 k" using Cons.prems(2) kd by auto
  have "page_of p (fold (put_page p) recs (put_page p (k, d) f)) j = page_of p f0 j"
  proof (rule Cons.IH)
    show "j \<in> fst ` set recs \<or> page_of p (put_page p (k, d) f) j = page_of p f0 j"
    proof (cases "j = k")
      case True
      then show ?thesis using d page_put_same by simp
    next
      case False
      then show ?thesis
        using Cons.prems(1,3,4) kd d(1) page_put_other [of d p j k f] page_fits [of p f j] by auto
    qed
  qed (use Cons.prems in auto)
  then show ?case using kd by simp
qed

lemma replay_restores:
  assumes p: "0 < p" and n: "sz f0 = n * p"
    and recs: "\<forall>(k, d) \<in> set recs. k < n \<and> d = page_of p f0 k"
    and rest: "\<And>k. k < n \<Longrightarrow> k \<notin> fst ` set recs \<Longrightarrow> page_of p f k = page_of p f0 k"
  shows "tr (fold (put_page p) recs f) (n * p) = f0"
proof (rule page_eq_by_pages [OF p _ n])
  show "sz (tr (fold (put_page p) recs f) (n * p)) = n * p" by (rule sz_tr)
  fix k
  assume k: "k < n"
  have fit: "j * p + p \<le> n * p" if "j < n" for j
    using that mult_le_mono1 [of "Suc j" n p] by (simp add: add.commute)
  have l: "length (page_of p f0 j) = p" if "j < n" for j
    using fit [OF that] n by (simp add: page_of_def length_rd)
  have pk: "page_of p (fold (put_page p) recs f) k = page_of p f0 k"
    using recs rest [OF k] k l by (intro replay_pages p) auto
  then have "k * p + p \<le> sz (fold (put_page p) recs f)" using l [OF k] p page_fits by metis
  then show "page_of p (tr (fold (put_page p) recs f) (n * p)) k = page_of p f0 k"
    using fit [OF k] pk by (simp add: page_of_def rd_tr)
qed

text \<open>Writing pages one after the other: the last one written to a position stays.\<close>

lemma page_fold_put:
  assumes "0 < p" and "\<forall>(k, d) \<in> set recs. length d = p"
    and "j \<in> fst ` set recs \<or> j * p + p \<le> sz f"
  shows "page_of p (fold (put_page p) recs f) j =
    (case map_of (rev recs) j of None \<Rightarrow> page_of p f j | Some d \<Rightarrow> d)"
  using assms
proof (induction recs arbitrary: f rule: rev_induct)
  case (snoc kd recs)
  obtain k d where kd: "kd = (k, d)" by force
  have d: "length d = p" using snoc.prems(2) kd by auto
  let ?g = "fold (put_page p) recs f"
  show ?case
  proof (cases "j = k")
    case True
    then show ?thesis using kd d page_put_same by simp
  next
    case False
    then have prem: "j \<in> fst ` set recs \<or> j * p + p \<le> sz f" using snoc.prems(3) kd by auto
    have IH: "page_of p ?g j = (case map_of (rev recs) j of None \<Rightarrow> page_of p f j | Some d \<Rightarrow> d)"
      using snoc.prems prem by (intro snoc.IH) auto
    have "length (page_of p ?g j) = p"
    proof (cases "map_of (rev recs) j")
      case None
      then have "j \<notin> fst ` set recs" by (simp add: map_of_eq_None_iff)
      then show ?thesis using IH None prem by (simp add: page_of_def length_rd)
    next
      case (Some e)
      then have "(j, e) \<in> set recs" by (auto dest: map_of_SomeD)
      then show ?thesis using IH Some snoc.prems(2) by auto
    qed
    then have "j * p + p \<le> sz ?g" using page_fits snoc.prems(1) by blast
    then show ?thesis using False kd d IH page_put_other [of d p j k ?g] by simp
  qed
qed simp

end

section \<open>In-memory files meet the contract\<close>

lemma file_read_at_sub: "file_read_at data off n = sub off (off + n) data"
  by (simp add: file_read_at_def sub_def Let_def min_def)

lemma length_file_write_at [simp]:
  "length (file_write_at data off src) = max (length data) (off + length src)"
  by (simp add: file_write_at_def Let_def max_def)

lemma sub_resize: "b \<le> length xs \<Longrightarrow> b \<le> k \<Longrightarrow> sub a b (resize k xs) = sub a b xs"
  by (rule nth_equalityI) (auto simp: nth_resize)

lemma file_write_at_same: "sub off (off + length src) (file_write_at data off src) = src"
  by (simp add: file_write_at_def Let_def sub_put_at_same)

lemma file_write_at_other:
  "b \<le> length data \<Longrightarrow> b \<le> off \<or> off + length src \<le> a \<Longrightarrow>
   sub a b (file_write_at data off src) = sub a b data"
  by (auto simp: file_write_at_def Let_def sub_put_at_disj sub_resize)

interpretation mem_file: byte_file file_read_at file_write_at file_truncate file_size
proof
  fix f g :: bytes
  assume l: "file_size f = file_size g"
    and b: "\<And>i. i < file_size f \<Longrightarrow> file_read_at f i 1 = file_read_at g i 1"
  show "f = g"
  proof (rule nth_equalityI)
    show "length f = length g" using l by (simp add: file_size_def)
    fix i
    assume "i < length f"
    then show "f ! i = g ! i"
      using b [of i] l nth_sub [of 0 "Suc i" i f] nth_sub [of 0 "Suc i" i g]
      by (simp add: file_size_def file_read_at_sub)
  qed
next
  fix i n off and f :: bytes
  assume "i < n" "off + i < file_size f"
  then show "file_read_at f (off + i) 1 = [file_read_at f off n ! i]"
    by (intro nth_equalityI) (simp_all add: file_read_at_sub file_size_def)
qed (simp_all add: file_read_at_sub file_size_def file_truncate_def file_write_at_same
    file_write_at_other sub_resize)

lemma file_read_buf_full:
  "length (file_read_at data start len) = len \<Longrightarrow> file_read_buf data start len = file_read_at data start len"
  by (simp add: file_read_buf_def put_at_def)

end
