(* ===== verification/Wal.thy ===== *)
theory Wal
  imports Wal_Index Mem_File
begin

text \<open>
  The write-ahead log at run time (\<open>pager/wal.rs\<close>): opening and recovery, reading a frame,
  appending the frames of a commit, checkpointing. The log file is a byte list (\<open>None\<close> when it
  does not exist yet); the two pseudo-random salts a fresh header needs are arguments.

  The abstract view of a log is the list of its frames. \<open>frame_stream\<close> gives their bytes with the
  running checksum; \<open>wal_rep\<close> relates a \<open>wal\<close> to its committed frames. The lemmas show that
  \<open>write_frames\<close> appends to that list, that opening a log file recovers exactly the frames up to
  the last commit (so that an interrupted commit is invisible), and that a checkpoint leaves in the
  database file the latest version of every page.
\<close>

section \<open>State, opening and recovery\<close>

record wal =
  w_file :: "bytes option"
  w_header :: wal_header
  w_page_size :: u32
  w_blocks :: "index_block list"
  w_mx_frame :: nat
  w_n_page :: u32
  w_frame_cksum :: "(u32 \<times> u32) option"

definition wal_placeholder :: "bytes option \<Rightarrow> u32 \<Rightarrow> wal" where
  "wal_placeholder file psize =
     \<lparr>w_file = file,
      w_header = \<lparr>wh_magic = 0, wh_format_version = 0, wh_page_size = psize, wh_checkpoint_seq = 0,
                  wh_salt1 = 0, wh_salt2 = 0, wh_checksum1 = 0, wh_checksum2 = 0\<rparr>,
      w_page_size = psize, w_blocks = [], w_mx_frame = 0, w_n_page = 0, w_frame_cksum = None\<rparr>"

definition frame_data_offset :: "wal \<Rightarrow> nat \<Rightarrow> nat" where
  "frame_data_offset w i_frame =
     WAL_HEADER_SIZE + (i_frame - 1) * (unat (w_page_size w) + WAL_FRAME_HEADER_SIZE)
       + WAL_FRAME_HEADER_SIZE"

text \<open>What the recovery scan has seen: page numbers, running checksum, last commit frame.\<close>

record scan =
  sc_running :: "u32 \<times> u32"
  sc_pgnos :: "u32 list"
  sc_commit_frame :: nat
  sc_commit_npage :: u32
  sc_commit_cksum :: "u32 \<times> u32"

definition frame_checksum :: "bytes \<Rightarrow> bytes \<Rightarrow> bool \<Rightarrow> u32 \<times> u32 \<Rightarrow> (u32 \<times> u32) result" where
  "frame_checksum prefix data big running =
     and_then (wal_checksum prefix big (fst running) (snd running))
       (\<lambda>(s0, s1). wal_checksum data big s0 s1)"

fun recover_loop :: "nat \<Rightarrow> nat \<Rightarrow> bytes \<Rightarrow> nat \<Rightarrow> bool \<Rightarrow> u32 \<times> u32 \<Rightarrow> scan \<Rightarrow> scan result" where
  "recover_loop 0 i_frame file frame_size big salts sc = Inr sc"
| "recover_loop (Suc n) i_frame file frame_size big salts sc =
     (let buf = file_read_at file (WAL_HEADER_SIZE + (i_frame - 1) * frame_size) frame_size in
      if length buf < frame_size then Inr sc
      else and_then (wal_frame_decode (take WAL_FRAME_HEADER_SIZE buf)) (\<lambda>fh.
        if fh_salt1 fh \<noteq> fst salts \<or> fh_salt2 fh \<noteq> snd salts then Inr sc
        else if fh_page_number fh = 0 then Inr sc
        else and_then (frame_checksum (sub 0 8 buf) (drop WAL_FRAME_HEADER_SIZE buf) big (sc_running sc))
          (\<lambda>(s0, s1).
            if s0 \<noteq> fh_checksum1 fh \<or> s1 \<noteq> fh_checksum2 fh then Inr sc
            else (let sc1 = sc\<lparr>sc_running := (s0, s1), sc_pgnos := sc_pgnos sc @ [fh_page_number fh]\<rparr>;
                      sc2 = (if fh_commit_size fh \<noteq> 0
                             then sc1\<lparr>sc_commit_frame := i_frame, sc_commit_npage := fh_commit_size fh,
                                      sc_commit_cksum := (s0, s1)\<rparr>
                             else sc1)
                  in recover_loop n (i_frame + 1) file frame_size big salts sc2))))"

definition append_all :: "u32 list \<Rightarrow> nat \<Rightarrow> index_block list \<Rightarrow> index_block list" where
  "append_all pgnos from blocks = fold (\<lambda>(i, p). append_frame (i + 1) p) (enumerate from pgnos) blocks"

definition wal_recover :: "bytes \<Rightarrow> wal \<Rightarrow> wal result" where
  "wal_recover file w =
     (let frame_size = unat (w_page_size w) + WAL_FRAME_HEADER_SIZE;
          n_frames = (length file - WAL_HEADER_SIZE) div frame_size;
          hdr = w_header w; seed = (wh_checksum1 hdr, wh_checksum2 hdr)
      in if n_frames = 0 then Inr w
         else and_then (recover_loop n_frames 1 file frame_size (checksum_big_endian hdr)
                (wh_salt1 hdr, wh_salt2 hdr)
                \<lparr>sc_running = seed, sc_pgnos = [], sc_commit_frame = 0, sc_commit_npage = 0,
                 sc_commit_cksum = (0, 0)\<rparr>)
           (\<lambda>sc. Inr (w\<lparr>w_blocks := append_all (take (sc_commit_frame sc) (sc_pgnos sc)) 0 (w_blocks w),
                        w_mx_frame := sc_commit_frame sc,
                        w_n_page := sc_commit_npage sc,
                        w_frame_cksum := Some (if sc_commit_frame sc = 0 then seed
                                               else sc_commit_cksum sc)\<rparr>)))"

definition wal_open :: "bytes option \<Rightarrow> u32 \<Rightarrow> wal result" where
  "wal_open file_opt psize =
     (case file_opt of
        None \<Rightarrow> Inr (wal_placeholder None psize)
      | Some file \<Rightarrow>
          if length file < WAL_HEADER_SIZE then Inr (wal_placeholder (Some file) psize)
          else (let hdr_buf = file_read_at file 0 WAL_HEADER_SIZE in
            and_then (wal_header_decode hdr_buf) (\<lambda>hdr.
              if wh_page_size hdr \<noteq> psize then Inr (wal_placeholder (Some file) psize)
              else and_then (wal_checksum (sub 0 24 hdr_buf) (checksum_big_endian hdr) 0 0) (\<lambda>(c0, c1).
                if c0 \<noteq> wh_checksum1 hdr \<or> c1 \<noteq> wh_checksum2 hdr
                then Inr (wal_placeholder (Some file) psize)
                else wal_recover file
                       \<lparr>w_file = Some file, w_header = hdr, w_page_size = psize, w_blocks = [],
                        w_mx_frame = 0, w_n_page = 0,
                        w_frame_cksum = Some (wh_checksum1 hdr, wh_checksum2 hdr)\<rparr>))))"

section \<open>Reading, writing and checkpointing\<close>

definition wal_read_frame :: "wal \<Rightarrow> nat \<Rightarrow> nat \<Rightarrow> bytes result" where
  "wal_read_frame w i_frame out_len =
     (if i_frame = 0 then Inl (corrupt ''wal::read_frame: frame 0 is invalid'')
      else and_then (ok_or (corrupt ''wal::read_frame: no WAL file'') (w_file w)) (\<lambda>file.
        if out_len \<noteq> unat (w_page_size w)
        then Inl (corrupt (''wal::read_frame: buffer is '' @ dec out_len @ '' bytes, expected ''
                            @ dec (unat (w_page_size w))))
        else (let buf = file_read_at file (frame_data_offset w i_frame) out_len in
              if length buf \<noteq> unat (w_page_size w)
              then Inl (corrupt (''wal::read_frame: short read for frame '' @ dec i_frame @ '': got ''
                          @ dec (length buf) @ '' of '' @ dec (unat (w_page_size w)) @ '' bytes''))
              else Inr buf)))"

definition sealed_header :: "wal_header \<Rightarrow> bool \<Rightarrow> (wal_header \<times> bytes) result" where
  "sealed_header h big =
     and_then (wal_header_encode h (replicate WAL_HEADER_SIZE 0)) (\<lambda>hdr_buf.
     and_then (wal_checksum (sub 0 24 hdr_buf) big 0 0) (\<lambda>(c0, c1).
       Inr (h\<lparr>wh_checksum1 := c0, wh_checksum2 := c1\<rparr>,
            put_at 28 (be_enc 4 c1) (put_at 24 (be_enc 4 c0) hdr_buf))))"

definition frame_image :: "u32 \<Rightarrow> u32 \<Rightarrow> u32 \<times> u32 \<Rightarrow> u32 \<times> u32 \<Rightarrow> bytes \<Rightarrow> bytes" where
  "frame_image pgno commit_size salts ck data =
     be_enc 4 pgno @ be_enc 4 commit_size @ be_enc 4 (fst salts) @ be_enc 4 (snd salts)
       @ be_enc 4 (fst ck) @ be_enc 4 (snd ck) @ data"

text \<open>
  The write loop returns the file beside the result, since an error leaves the frames already
  written behind.
\<close>

fun write_loop :: "u32 \<Rightarrow> bool \<Rightarrow> u32 \<times> u32 \<Rightarrow> u32 \<Rightarrow> (u32 \<times> bytes) list \<Rightarrow> nat \<Rightarrow> u32 \<times> u32 \<Rightarrow> bytes
    \<Rightarrow> bytes \<times> (nat \<times> (u32 \<times> u32)) result" where
  "write_loop psize big salts n_truncate [] i_frame running file = (file, Inr (i_frame, running))"
| "write_loop psize big salts n_truncate ((pgno, data) # frames) i_frame running file =
     (if length data \<noteq> unat psize
      then (file, Inl (corrupt (''wal::write_frames: page '' @ dec (unat pgno) @ '' is ''
                      @ dec (length data) @ '' bytes, expected '' @ dec (unat psize))))
      else (let commit_size = (if frames = [] then n_truncate else 0);
                offset = WAL_HEADER_SIZE + i_frame * (unat psize + WAL_FRAME_HEADER_SIZE) in
            case frame_checksum (be_enc 4 pgno @ be_enc 4 commit_size) data big running of
              Inl e \<Rightarrow> (file, Inl e)
            | Inr ck \<Rightarrow>
                write_loop psize big salts n_truncate frames (i_frame + 1) ck
                  (file_write_at file offset (frame_image pgno commit_size salts ck data))))"

definition fresh_wal_header :: "u32 \<Rightarrow> u32 \<times> u32 \<Rightarrow> wal_header" where
  "fresh_wal_header psize salts =
     \<lparr>wh_magic = WAL_MAGIC_BE, wh_format_version = WAL_FORMAT_VERSION, wh_page_size = psize,
      wh_checkpoint_seq = 0, wh_salt1 = fst salts, wh_salt2 = snd salts,
      wh_checksum1 = 0, wh_checksum2 = 0\<rparr>"

text \<open>\<open>salts\<close> are the two values \<open>next_wal_salt\<close> returns.\<close>

definition write_frames :: "u32 \<times> u32 \<Rightarrow> (u32 \<times> bytes) list \<Rightarrow> u32 \<Rightarrow> wal \<Rightarrow> wal \<times> unit result" where
  "write_frames salts frames n_truncate w =
     (if frames = [] then (w, Inr ())
      else
        let file0 = (case w_file w of None \<Rightarrow> [] | Some f \<Rightarrow> f);
            start = (if w_mx_frame w = 0
              then and_then (sealed_header (fresh_wal_header (w_page_size w) salts) True)
                     (\<lambda>(h, hdr_buf). Inr (h, (wh_checksum1 h, wh_checksum2 h), file_write_at file0 0 hdr_buf))
              else Inr (w_header w,
                        (case w_frame_cksum w of Some ck \<Rightarrow> ck
                         | None \<Rightarrow> (wh_checksum1 (w_header w), wh_checksum2 (w_header w))),
                        file0))
        in case start of
             Inl e \<Rightarrow> (w\<lparr>w_file := Some file0\<rparr>, Inl e)
           | Inr (h, running, file1) \<Rightarrow>
               (case write_loop (w_page_size w) (checksum_big_endian h) (wh_salt1 h, wh_salt2 h)
                       n_truncate frames (w_mx_frame w) running file1 of
                  (file2, Inl e) \<Rightarrow> (w\<lparr>w_file := Some file2, w_header := h\<rparr>, Inl e)
                | (file2, Inr (i_frame, running')) \<Rightarrow>
                    (w\<lparr>w_file := Some file2, w_header := h,
                       w_blocks := append_all (map fst frames) (w_mx_frame w) (w_blocks w),
                       w_mx_frame := i_frame, w_n_page := n_truncate,
                       w_frame_cksum := Some running'\<rparr>, Inr ())))"

datatype checkpoint_mode = Ck_Passive | Ck_Full | Ck_Restart | Ck_Truncate

text \<open>
  Copying frames \<open>i_frame, i_frame + 1, \<dots>\<close> into the database file; the file is returned beside the
  result, since an error leaves the copied pages behind.
\<close>

fun backfill_loop :: "nat \<Rightarrow> nat \<Rightarrow> bytes \<Rightarrow> nat \<Rightarrow> u32 \<times> u32 \<Rightarrow> nat \<Rightarrow> bytes \<Rightarrow> bytes \<times> nat result" where
  "backfill_loop 0 i_frame file psize salts n_ckpt db = (db, Inr n_ckpt)"
| "backfill_loop (Suc n) i_frame file psize salts n_ckpt db =
     (let frame_size = psize + WAL_FRAME_HEADER_SIZE;
          buf = file_read_at file (WAL_HEADER_SIZE + (i_frame - 1) * frame_size) frame_size in
      if length buf < frame_size
      then (db, Inl (corrupt (''wal::checkpoint: short read for frame '' @ dec i_frame)))
      else (case wal_frame_decode (take WAL_FRAME_HEADER_SIZE buf) of
              Inl e \<Rightarrow> (db, Inl e)
            | Inr fh \<Rightarrow>
                if fh_salt1 fh \<noteq> fst salts \<or> fh_salt2 fh \<noteq> snd salts then (db, Inr n_ckpt)
                else if fh_page_number fh = 0 then (db, Inl Panic)
                else backfill_loop n (i_frame + 1) file psize salts (n_ckpt + 1)
                       (file_write_at db ((unat (fh_page_number fh) - 1) * psize)
                          (drop WAL_FRAME_HEADER_SIZE buf))))"

definition wal_checkpoint ::
    "u32 \<times> u32 \<Rightarrow> checkpoint_mode \<Rightarrow> bytes \<Rightarrow> wal \<Rightarrow> (wal \<times> bytes) \<times> (nat \<times> nat) result" where
  "wal_checkpoint new_salts mode db w =
     (let n_log = w_mx_frame w; psize = unat (w_page_size w); hdr = w_header w in
      if n_log = 0 then ((w, db), Inr (0, 0))
      else case w_file w of
        None \<Rightarrow> ((w, db), Inl (corrupt ''wal::checkpoint: no WAL file open''))
      | Some file \<Rightarrow>
          (case backfill_loop n_log 1 file psize (wh_salt1 hdr, wh_salt2 hdr) 0 db of
             (db1, Inl e) \<Rightarrow> ((w, db1), Inl e)
           | (db1, Inr n_ckpt) \<Rightarrow>
               (let db2 = file_truncate db1 (unat (w_n_page w) * psize) in
                if mode = Ck_Passive \<or> mode = Ck_Full then ((w, db2), Inr (n_log, n_ckpt))
                else (let h1 = hdr\<lparr>wh_salt1 := fst new_salts, wh_salt2 := snd new_salts,
                                   wh_checkpoint_seq := wh_checkpoint_seq hdr + 1\<rparr> in
                      case sealed_header h1 (checksum_big_endian h1) of
                        Inl e \<Rightarrow> ((w, db2), Inl e)
                      | Inr (h2, hdr_buf) \<Rightarrow>
                          (let file1 = file_write_at file 0 hdr_buf;
                               file2 = (if mode = Ck_Truncate then file_truncate file1 0 else file1)
                           in ((w\<lparr>w_file := Some file2, w_header := h2, w_blocks := [],
                                  w_mx_frame := 0, w_n_page := 0,
                                  w_frame_cksum := Some (wh_checksum1 h2, wh_checksum2 h2)\<rparr>, db2),
                               Inr (n_log, n_ckpt)))))))"

section \<open>The log as a list of frames\<close>

text \<open>A frame: page number, commit size (0 inside a transaction), page data.\<close>

type_synonym frame = "u32 \<times> u32 \<times> bytes"

definition f_pgno :: "frame \<Rightarrow> u32" where "f_pgno f = fst f"
definition f_commit :: "frame \<Rightarrow> u32" where "f_commit f = fst (snd f)"
definition f_data :: "frame \<Rightarrow> bytes" where "f_data f = snd (snd f)"

definition ck_step :: "bool \<Rightarrow> u32 \<times> u32 \<Rightarrow> frame \<Rightarrow> u32 \<times> u32" where
  "ck_step big r f =
     wal_checksum_words big (be_enc 4 (f_pgno f) @ be_enc 4 (f_commit f) @ f_data f) (fst r) (snd r)"

definition running_after :: "bool \<Rightarrow> u32 \<times> u32 \<Rightarrow> frame list \<Rightarrow> u32 \<times> u32" where
  "running_after big r fs = foldl (ck_step big) r fs"

fun frame_stream :: "bool \<Rightarrow> u32 \<times> u32 \<Rightarrow> u32 \<times> u32 \<Rightarrow> frame list \<Rightarrow> bytes" where
  "frame_stream big salts r [] = []"
| "frame_stream big salts r (f # fs) =
     frame_image (f_pgno f) (f_commit f) salts (ck_step big r f) (f_data f)
       @ frame_stream big salts (ck_step big r f) fs"

definition good_frame :: "nat \<Rightarrow> frame \<Rightarrow> bool" where
  "good_frame n f \<longleftrightarrow> f_pgno f \<noteq> 0 \<and> length (f_data f) = n"

lemma length_frame_image [simp]: "length (frame_image p c salts ck d) = length d + 24"
  by (simp add: frame_image_def)

lemma frame_image_parts:
  "take 24 (frame_image p c salts ck d) = frame_image p c salts ck []"
  "drop 24 (frame_image p c salts ck d) = d"
  "sub 0 8 (frame_image p c salts ck d) = be_enc 4 p @ be_enc 4 c"
  by (simp_all add: frame_image_def sub_def)

lemma decode_frame_image:
  "wal_frame_decode (frame_image p c salts ck d) =
     Inr \<lparr>fh_page_number = p, fh_commit_size = c, fh_salt1 = fst salts, fh_salt2 = snd salts,
          fh_checksum1 = fst ck, fh_checksum2 = snd ck\<rparr>"
  by (simp add: wal_frame_decode_def frame_image_def sub_def codec_simps)

lemma frame_checksum_step:
  assumes "length (f_data f) mod 8 = 0"
  shows "frame_checksum (be_enc 4 (f_pgno f) @ be_enc 4 (f_commit f)) (f_data f) big r = Inr (ck_step big r f)"
proof -
  let ?p = "be_enc 4 (f_pgno f) @ be_enc 4 (f_commit f)"
  have "length ?p mod 8 = 0" by simp
  then show ?thesis
    using assms wal_checksum_words_append [of ?p big "f_data f" "fst r" "snd r"]
    by (simp add: frame_checksum_def wal_checksum_def ck_step_def split: prod.splits)
qed

lemma length_frame_stream:
  "\<forall>f \<in> set fs. length (f_data f) = n \<Longrightarrow> length (frame_stream big salts r fs) = length fs * (n + 24)"
  by (induction fs arbitrary: r) auto

lemma frame_stream_append:
  "frame_stream big salts r (fs @ gs) =
     frame_stream big salts r fs @ frame_stream big salts (running_after big r fs) gs"
  by (induction fs arbitrary: r) (simp_all add: running_after_def)

section \<open>Recovery\<close>

definition scan_step_commit :: "bool \<Rightarrow> nat \<times> frame \<Rightarrow> scan \<Rightarrow> scan" where
  "scan_step_commit big = (\<lambda>(i, f) sc.
     let sc1 = sc\<lparr>sc_running := ck_step big (sc_running sc) f, sc_pgnos := sc_pgnos sc @ [f_pgno f]\<rparr> in
     if f_commit f \<noteq> 0
     then sc1\<lparr>sc_commit_frame := i, sc_commit_npage := f_commit f, sc_commit_cksum := sc_running sc1\<rparr>
     else sc1)"

definition scan_frames :: "bool \<Rightarrow> nat \<Rightarrow> frame list \<Rightarrow> scan \<Rightarrow> scan" where
  "scan_frames big i fs sc = fold (scan_step_commit big) (enumerate i fs) sc"

lemma recover_loop_stream:
  assumes "length pre = 32 + (i - 1) * (n + 24)" and "1 \<le> i" and "n mod 8 = 0"
    and "\<forall>f \<in> set fs. good_frame n f"
    and "file = pre @ frame_stream big salts (sc_running sc) fs @ rest"
  shows "recover_loop (length fs + m) i file (n + 24) big salts sc =
    recover_loop m (i + length fs) file (n + 24) big salts (scan_frames big i fs sc)"
  using assms
proof (induction fs arbitrary: i pre sc)
  case Nil
  then show ?case by (simp add: scan_frames_def)
next
  case (Cons f fs)
  let ?ck = "ck_step big (sc_running sc) f"
  let ?img = "frame_image (f_pgno f) (f_commit f) salts ?ck (f_data f)"
  have f: "length (f_data f) = n" "f_pgno f \<noteq> 0" using Cons.prems(4) by (auto simp: good_frame_def)
  have buf: "file_read_at file (32 + (i - 1) * (n + 24)) (n + 24) = ?img"
    using Cons.prems(1,5) f(1) by (simp add: file_read_at_sub sub_def)
  have ck: "frame_checksum (be_enc 4 (f_pgno f) @ be_enc 4 (f_commit f)) (f_data f) big (sc_running sc) = Inr ?ck"
    using f(1) Cons.prems(3) by (intro frame_checksum_step) simp
  define sc' where "sc' = scan_step_commit big (i, f) sc"
  have r: "sc_running sc' = ?ck" by (simp add: sc'_def scan_step_commit_def Let_def)
  have IH: "recover_loop (length fs + m) (i + 1) file (n + 24) big salts sc' =
      recover_loop m (i + 1 + length fs) file (n + 24) big salts (scan_frames big (i + 1) fs sc')"
  proof (rule Cons.IH)
    obtain i' where "i = Suc i'" using Cons.prems(2) by (cases i) auto
    then show "length (pre @ ?img) = 32 + (i + 1 - 1) * (n + 24)" using Cons.prems(1) f(1) by simp
    show "file = (pre @ ?img) @ frame_stream big salts (sc_running sc') fs @ rest"
      using Cons.prems(5) r by simp
  qed (use Cons.prems in auto)
  have step: "recover_loop (length (f # fs) + m) i file (n + 24) big salts sc =
      recover_loop (length fs + m) (i + 1) file (n + 24) big salts sc'"
    using f buf ck
    by (simp add: frame_image_parts decode_frame_image Let_def sc'_def scan_step_commit_def
        split: prod.splits)
  show ?case using step IH by (simp add: scan_frames_def sc'_def)
qed

text \<open>
  A tail the scan stops at: shorter than a frame, or starting with a frame whose salts, page number
  or checksum are not those of the next frame of this log.
\<close>

definition dead_tail :: "nat \<Rightarrow> bool \<Rightarrow> u32 \<times> u32 \<Rightarrow> u32 \<times> u32 \<Rightarrow> bytes \<Rightarrow> bool" where
  "dead_tail n big salts r tail \<longleftrightarrow>
     length tail < n + 24
     \<or> (case wal_frame_decode (take 24 tail) of
          Inl _ \<Rightarrow> False
        | Inr fh \<Rightarrow> fh_salt1 fh \<noteq> fst salts \<or> fh_salt2 fh \<noteq> snd salts \<or> fh_page_number fh = 0
            \<or> wal_checksum_words big (sub 0 8 tail @ sub 24 (24 + n) tail) (fst r) (snd r)
                \<noteq> (fh_checksum1 fh, fh_checksum2 fh))"

lemma recover_loop_dead:
  assumes "length pre = 32 + (i - 1) * (n + 24)" and "n mod 8 = 0"
    and "dead_tail n big salts (sc_running sc) tail" and "file = pre @ tail"
  shows "recover_loop m i file (n + 24) big salts sc = Inr sc"
proof (cases m)
  case (Suc k)
  have buf: "file_read_at file (32 + (i - 1) * (n + 24)) (n + 24) = take (n + 24) tail"
    using assms(1,4) by (simp add: file_read_at_sub sub_def add.commute)
  show ?thesis
  proof (cases "length tail < n + 24")
    case True
    then show ?thesis using Suc buf by (simp add: Let_def)
  next
    case False
    obtain fh where fh: "wal_frame_decode (take 24 tail) = Inr fh"
      using False by (simp add: wal_frame_decode_def)
    have parts: "take 24 (take (n + 24) tail) = take 24 tail" "sub 0 8 (take (n + 24) tail) = sub 0 8 tail"
      "drop 24 (take (n + 24) tail) = sub 24 (24 + n) tail"
      by (simp_all add: sub_def min_def drop_take)
    have l: "length (sub 0 8 tail) mod 8 = 0" "length (sub 24 (24 + n) tail) mod 8 = 0"
      using False assms(2) by auto
    have ck: "frame_checksum (sub 0 8 tail) (sub 24 (24 + n) tail) big (sc_running sc) =
        Inr (wal_checksum_words big (sub 0 8 tail @ sub 24 (24 + n) tail)
              (fst (sc_running sc)) (snd (sc_running sc)))"
      using l wal_checksum_words_append [OF l(1)]
      by (simp add: frame_checksum_def wal_checksum_def split: prod.splits)
    show ?thesis
      using Suc buf fh assms(3) False ck
      by (auto simp: Let_def parts dead_tail_def split: prod.splits)
  qed
qed simp

lemma scan_frames_append:
  "scan_frames big i (fs @ gs) sc = scan_frames big (i + length fs) gs (scan_frames big i fs sc)"
  by (simp add: scan_frames_def enumerate_append_eq)

lemma scan_frames_seen:
  "sc_running (scan_frames big i fs sc) = running_after big (sc_running sc) fs"
  "sc_pgnos (scan_frames big i fs sc) = sc_pgnos sc @ map f_pgno fs"
  by (induction fs arbitrary: i sc)
     (simp_all add: scan_frames_def running_after_def scan_step_commit_def Let_def)

lemma scan_frames_uncommitted:
  "\<forall>f \<in> set fs. f_commit f = 0 \<Longrightarrow>
   sc_commit_frame (scan_frames big i fs sc) = sc_commit_frame sc
   \<and> sc_commit_npage (scan_frames big i fs sc) = sc_commit_npage sc
   \<and> sc_commit_cksum (scan_frames big i fs sc) = sc_commit_cksum sc"
  by (induction fs arbitrary: i sc)
     (simp_all add: scan_frames_def scan_step_commit_def Let_def)

text \<open>A list of whole transactions: empty, or ending in a commit frame.\<close>

definition committed :: "frame list \<Rightarrow> bool" where
  "committed fs \<longleftrightarrow> fs = [] \<or> f_commit (last fs) \<noteq> 0"

lemma scan_frames_committed:
  assumes "committed fs" and "fs \<noteq> []"
  shows "sc_commit_frame (scan_frames big i fs sc) = i + length fs - 1
   \<and> sc_commit_npage (scan_frames big i fs sc) = f_commit (last fs)
   \<and> sc_commit_cksum (scan_frames big i fs sc) = running_after big (sc_running sc) fs"
proof -
  obtain gs f where fs: "fs = gs @ [f]" using assms(2) by (cases fs rule: rev_cases) auto
  have "scan_frames big i fs sc = scan_step_commit big (i + length gs, f) (scan_frames big i gs sc)"
    by (simp add: fs scan_frames_def enumerate_append_eq)
  then show ?thesis
    using assms(1) fs scan_frames_seen(1) [of big i gs sc]
    by (simp add: committed_def scan_step_commit_def Let_def running_after_def)
qed

section \<open>Opening a log\<close>

definition header_bytes :: "wal_header \<Rightarrow> bytes" where
  "header_bytes h = put_all (wal_header_fields h) (replicate 32 0)"

definition seed_of :: "wal_header \<Rightarrow> u32 \<times> u32" where
  "seed_of h = (wh_checksum1 h, wh_checksum2 h)"

definition salts_of :: "wal_header \<Rightarrow> u32 \<times> u32" where
  "salts_of h = (wh_salt1 h, wh_salt2 h)"

text \<open>The header's checksum verifies.\<close>

definition sealed :: "wal_header \<Rightarrow> bool" where
  "sealed h \<longleftrightarrow> wal_checksum_words (checksum_big_endian h) (take 24 (header_bytes h)) 0 0 = seed_of h"

definition wal_image :: "wal_header \<Rightarrow> frame list \<Rightarrow> bytes" where
  "wal_image h fs = header_bytes h @ frame_stream (checksum_big_endian h) (salts_of h) (seed_of h) fs"

text \<open>The state that stands for a log with the committed frames \<open>fs\<close>.\<close>

definition wal_of :: "wal_header \<Rightarrow> bytes \<Rightarrow> frame list \<Rightarrow> wal" where
  "wal_of h file fs =
     \<lparr>w_file = Some file, w_header = h, w_page_size = wh_page_size h,
      w_blocks = index_of_frames (map f_pgno fs), w_mx_frame = length fs,
      w_n_page = (if fs = [] then 0 else f_commit (last fs)),
      w_frame_cksum = Some (running_after (checksum_big_endian h) (seed_of h) fs)\<rparr>"

lemma length_header_bytes [simp]: "length (header_bytes h) = 32"
  using wal_header.length_written [of "replicate 32 0" h] by (simp add: header_bytes_def)

lemma append_all_0 [simp]: "append_all pgnos 0 [] = index_of_frames pgnos"
  by (simp add: append_all_def index_of_frames_def)

lemma append_all_index:
  "append_all qs (length ps) (index_of_frames ps) = index_of_frames (ps @ qs)"
  by (simp add: append_all_def index_of_frames_def enumerate_append_eq)

lemma wal_recover_image:
  assumes n: "n = unat (wh_page_size h)" "n mod 8 = 0"
    and good: "\<forall>f \<in> set (fs @ part). good_frame n f"
    and com: "committed fs" "\<forall>f \<in> set part. f_commit f = 0"
    and tail: "dead_tail n (checksum_big_endian h) (salts_of h)
        (running_after (checksum_big_endian h) (seed_of h) (fs @ part)) tail"
    and img: "file = wal_image h (fs @ part) @ tail"
  shows "wal_recover file (wal_of h file []) = Inr (wal_of h file fs)"
proof -
  let ?big = "checksum_big_endian h" and ?fs = "fs @ part"
  define k where "k = (length file - 32) div (n + 24)"
  define sc0 where "sc0 = \<lparr>sc_running = seed_of h, sc_pgnos = [], sc_commit_frame = 0,
      sc_commit_npage = 0, sc_commit_cksum = (0, 0)\<rparr>"
  define sc where "sc = scan_frames ?big 1 ?fs sc0"
  have len: "length (frame_stream ?big (salts_of h) (seed_of h) ?fs) = length ?fs * (n + 24)"
    using good by (intro length_frame_stream) (simp add: good_frame_def)
  then have lf: "length file - 32 = length ?fs * (n + 24) + length tail"
    by (simp add: img wal_image_def)
  then obtain m where m: "k = length ?fs + m"
    by (metis k_def div_mult_self3 add.commute add_is_0 zero_neq_numeral)
  have loop: "recover_loop k 1 file (n + 24) ?big (salts_of h) sc0 = Inr sc"
  proof -
    have "recover_loop (length ?fs + m) 1 file (n + 24) ?big (salts_of h) sc0 =
        recover_loop m (1 + length ?fs) file (n + 24) ?big (salts_of h) sc"
      unfolding sc_def using n good img
      by (intro recover_loop_stream [where pre = "header_bytes h" and rest = tail])
         (auto simp: wal_image_def sc0_def)
    also have "\<dots> = Inr sc"
      using n(2) tail img len scan_frames_seen(1) [of ?big 1 ?fs sc0]
      by (intro recover_loop_dead [where pre = "wal_image h ?fs" and tail = tail])
         (auto simp: wal_image_def sc_def sc0_def)
    finally show ?thesis using m by simp
  qed
  have sc: "sc = scan_frames ?big (1 + length fs) part (scan_frames ?big 1 fs sc0)"
    by (simp add: sc_def scan_frames_append)
  have commit: "sc_commit_frame sc = length fs"
      "sc_commit_npage sc = (if fs = [] then 0 else f_commit (last fs))"
      "fs \<noteq> [] \<Longrightarrow> sc_commit_cksum sc = running_after ?big (seed_of h) fs"
    using scan_frames_uncommitted [OF com(2)] scan_frames_committed [OF com(1), of ?big 1 sc0]
    by (cases "fs = []"; simp add: sc scan_frames_def sc0_def)+
  have pgnos: "take (length fs) (sc_pgnos sc) = map f_pgno fs"
    using scan_frames_seen(2) [of ?big 1 ?fs sc0] by (simp add: sc_def sc0_def)
  show ?thesis
  proof (cases "k = 0")
    case True
    then have "fs = []" "part = []" using m by auto
    then show ?thesis
      using True k_def n by (simp add: wal_recover_def wal_of_def Let_def)
  next
    case False
    have idx: "index_of_frames [] = []" by (simp add: index_of_frames_def)
    show ?thesis
      using False loop commit pgnos n(1) unfolding k_def sc0_def seed_of_def salts_of_def
      by (auto simp: wal_recover_def wal_of_def Let_def idx running_after_def seed_of_def)
  qed
qed

lemma decode_header_bytes: "wal_header_decode (header_bytes h) = Inr h"
  by (simp add: header_bytes_def codec_simps)

lemma read_image_header:
  "file = wal_image h fs @ tail \<Longrightarrow> file_read_at file 0 32 = header_bytes h"
  by (simp add: wal_image_def file_read_at_sub sub_def)

lemma wal_open_image:
  assumes "sealed h" and n: "n = unat (wh_page_size h)" "n mod 8 = 0"
    and good: "\<forall>f \<in> set (fs @ part). good_frame n f"
    and com: "committed fs" "\<forall>f \<in> set part. f_commit f = 0"
    and tail: "dead_tail n (checksum_big_endian h) (salts_of h)
        (running_after (checksum_big_endian h) (seed_of h) (fs @ part)) tail"
    and img: "file = wal_image h (fs @ part) @ tail"
  shows "wal_open (Some file) (wh_page_size h) = Inr (wal_of h file fs)"
proof -
  have idx: "index_of_frames [] = []" by (simp add: index_of_frames_def)
  have w0: "wal_of h file [] = \<lparr>w_file = Some file, w_header = h, w_page_size = wh_page_size h,
      w_blocks = [], w_mx_frame = 0, w_n_page = 0,
      w_frame_cksum = Some (wh_checksum1 h, wh_checksum2 h)\<rparr>"
    by (simp add: wal_of_def idx running_after_def seed_of_def)
  have "sub 0 24 (header_bytes h) = take 24 (header_bytes h)" by (simp add: sub_def)
  then have ck: "wal_checksum (sub 0 24 (header_bytes h)) (checksum_big_endian h) 0 0 = Inr (seed_of h)"
    using assms(1) by (simp add: wal_checksum_def sealed_def)
  have "\<not> length file < 32" by (simp add: img wal_image_def)
  then show ?thesis
    using wal_recover_image [OF n good com tail img] read_image_header [OF img] ck
    unfolding w0 by (simp add: wal_open_def decode_header_bytes seed_of_def)
qed

section \<open>Writing a commit\<close>

text \<open>The frames of a commit: only the last one carries the database size.\<close>

fun to_frames :: "u32 \<Rightarrow> (u32 \<times> bytes) list \<Rightarrow> frame list" where
  "to_frames n [] = []"
| "to_frames n ((p, d) # xs) = (p, if xs = [] then n else 0, d) # to_frames n xs"

lemma to_frames_pgnos [simp]: "map f_pgno (to_frames n xs) = map fst xs"
  by (induction n xs rule: to_frames.induct) (auto simp: f_pgno_def)

lemma length_to_frames [simp]: "length (to_frames n xs) = length xs"
  by (induction n xs rule: to_frames.induct) auto

lemma to_frames_Nil [simp]: "to_frames n xs = [] \<longleftrightarrow> xs = []"
  by (metis length_0_conv length_to_frames)

lemma to_frames_last: "xs \<noteq> [] \<Longrightarrow> f_commit (last (to_frames n xs)) = n"
  by (induction n xs rule: to_frames.induct) (auto simp: f_commit_def)

lemma to_frames_prefix_uncommitted:
  "k < length xs \<Longrightarrow> f \<in> set (take k (to_frames n xs)) \<Longrightarrow> f_commit f = 0"
proof (induction n xs arbitrary: k rule: to_frames.induct)
  case (2 n p d xs)
  then show ?case by (cases k) (auto simp: f_commit_def)
qed simp

lemma to_frames_good:
  "\<forall>(p, d) \<in> set xs. p \<noteq> 0 \<and> length d = m \<Longrightarrow> f \<in> set (to_frames n xs) \<Longrightarrow> good_frame m f"
  by (induction n xs rule: to_frames.induct) (auto simp: good_frame_def f_pgno_def f_data_def)

lemma file_write_at_append:
  "file_write_at (pre @ tail) (length pre) src = pre @ src @ drop (length src) tail"
  by (auto simp: file_write_at_def Let_def put_at_def resize_def)

lemma write_loop_stream:
  assumes "length pre = 32 + i * (n + 24)" and "n = unat psize" and "n mod 8 = 0"
    and "\<forall>(p, d) \<in> set xs. length d = n"
  shows "write_loop psize big salts t xs i r (pre @ tail) =
    (pre @ frame_stream big salts r (to_frames t xs) @ drop (length xs * (n + 24)) tail,
     Inr (i + length xs, running_after big r (to_frames t xs)))"
  using assms
proof (induction xs arbitrary: i r pre tail)
  case Nil
  then show ?case by (simp add: running_after_def)
next
  case (Cons x xs)
  obtain p d where x: "x = (p, d)" by force
  let ?c = "if xs = [] then t else 0"
  let ?f = "(p, ?c, d) :: frame"
  let ?ck = "ck_step big r ?f"
  let ?img = "frame_image p ?c salts ?ck d"
  have d: "length d = n" using Cons.prems(4) x by simp
  have ck: "frame_checksum (be_enc 4 p @ be_enc 4 ?c) d big r = Inr ?ck"
    using frame_checksum_step [of ?f big r] d Cons.prems(3)
    by (simp add: f_pgno_def f_commit_def f_data_def)
  have wr: "file_write_at (pre @ tail) (32 + i * (n + 24)) ?img = (pre @ ?img) @ drop (n + 24) tail"
    using file_write_at_append [of pre tail ?img] d Cons.prems(1) by simp
  have IH: "write_loop psize big salts t xs (i + 1) ?ck ((pre @ ?img) @ drop (n + 24) tail) =
      ((pre @ ?img) @ frame_stream big salts ?ck (to_frames t xs)
         @ drop (length xs * (n + 24)) (drop (n + 24) tail),
       Inr (i + 1 + length xs, running_after big ?ck (to_frames t xs)))"
    using Cons.prems d x by (intro Cons.IH) auto
  show ?case
    using IH ck wr d Cons.prems(2) x
    by (simp add: Let_def f_pgno_def f_commit_def f_data_def running_after_def add.commute)
qed

lemma header_bytes_concat:
  "header_bytes h = be_enc 4 (wh_magic h) @ be_enc 4 (wh_format_version h) @ be_enc 4 (wh_page_size h)
     @ be_enc 4 (wh_checkpoint_seq h) @ be_enc 4 (wh_salt1 h) @ be_enc 4 (wh_salt2 h)
     @ be_enc 4 (wh_checksum1 h) @ be_enc 4 (wh_checksum2 h)"
  using wal_header.written [of "replicate 32 0" h]
  by (simp add: header_bytes_def wal_header_fields_def)

lemma sealed_header_result:
  "\<exists>c0 c1. sealed_header h (checksum_big_endian h) =
       Inr (h\<lparr>wh_checksum1 := c0, wh_checksum2 := c1\<rparr>, header_bytes (h\<lparr>wh_checksum1 := c0, wh_checksum2 := c1\<rparr>))
     \<and> sealed (h\<lparr>wh_checksum1 := c0, wh_checksum2 := c1\<rparr>)"
proof -
  have enc: "wal_header_encode h (replicate 32 0) = Inr (header_bytes h)"
    by (simp add: wal_header_encode_def header_bytes_def)
  obtain c0 c1 where c: "wal_checksum_words (checksum_big_endian h) (take 24 (header_bytes h)) 0 0 = (c0, c1)"
    by force
  have t: "take 24 (header_bytes (h\<lparr>wh_checksum1 := c0, wh_checksum2 := c1\<rparr>)) = take 24 (header_bytes h)"
    by (simp add: header_bytes_concat)
  have "put_at 28 (be_enc 4 c1) (put_at 24 (be_enc 4 c0) (header_bytes h)) =
      header_bytes (h\<lparr>wh_checksum1 := c0, wh_checksum2 := c1\<rparr>)"
    by (simp add: header_bytes_concat put_at_def)
  moreover have "wal_checksum (sub 0 24 (header_bytes h)) (checksum_big_endian h) 0 0 = Inr (c0, c1)"
    using c by (simp add: wal_checksum_def sub_def)
  moreover have "sealed (h\<lparr>wh_checksum1 := c0, wh_checksum2 := c1\<rparr>)"
    using c t by (simp add: sealed_def checksum_big_endian_def seed_of_def)
  ultimately show ?thesis by (auto simp: sealed_header_def enc)
qed

text \<open>
  The log \<open>w\<close> holds the committed frames \<open>fs\<close>: nothing yet, or a sealed header and the frames in
  its file, possibly with old bytes behind them.
\<close>

definition wal_rep :: "wal \<Rightarrow> frame list \<Rightarrow> bool" where
  "wal_rep w fs \<longleftrightarrow> unat (w_page_size w) mod 8 = 0 \<and> committed fs
     \<and> (\<forall>f \<in> set fs. good_frame (unat (w_page_size w)) f)
     \<and> (if fs = [] then w_mx_frame w = 0 \<and> w_blocks w = []
        else \<exists>h tail. sealed h \<and> w = wal_of h (wal_image h fs @ tail) fs)"

definition good_pages :: "nat \<Rightarrow> (u32 \<times> bytes) list \<Rightarrow> bool" where
  "good_pages n xs \<longleftrightarrow> xs \<noteq> [] \<and> (\<forall>(p, d) \<in> set xs. p \<noteq> 0 \<and> length d = n)"

lemma write_frames_existing:
  assumes "w = wal_of h (wal_image h fs @ tail) fs" and "fs \<noteq> []" and n: "n = unat (wh_page_size h)" "n mod 8 = 0"
    and good: "\<forall>f \<in> set fs. good_frame n f" and xs: "good_pages n xs" and "t \<noteq> 0"
  shows "write_frames salts xs t w =
    (wal_of h (wal_image h (fs @ to_frames t xs) @ drop (length xs * (n + 24)) tail) (fs @ to_frames t xs), Inr ())"
proof -
  have len: "length (wal_image h fs) = 32 + length fs * (n + 24)"
    using length_frame_stream [of fs n] good by (simp add: wal_image_def good_frame_def)
  have data: "\<forall>(p, d) \<in> set xs. length d = n" "xs \<noteq> []" using xs by (auto simp: good_pages_def)
  have loop: "write_loop (wh_page_size h) (checksum_big_endian h) (wh_salt1 h, wh_salt2 h) t xs (length fs)
      (running_after (checksum_big_endian h) (seed_of h) fs) (wal_image h fs @ tail) =
    (wal_image h (fs @ to_frames t xs) @ drop (length xs * (n + 24)) tail,
     Inr (length fs + length xs, running_after (checksum_big_endian h) (seed_of h) (fs @ to_frames t xs)))"
    using write_loop_stream [OF len n data(1)]
    by (simp add: wal_image_def frame_stream_append running_after_def salts_of_def)
  show ?thesis
    using assms(1,2) loop data(2) append_all_index [of "map fst xs" "map f_pgno fs"]
    by (simp add: write_frames_def wal_of_def to_frames_last)
qed

lemma write_frames_fresh:
  assumes "w_mx_frame w = 0" and "w_blocks w = []" and n: "n = unat (w_page_size w)" "n mod 8 = 0"
    and xs: "good_pages n xs" and "t \<noteq> 0"
  shows "\<exists>h tail. sealed h \<and> wh_page_size h = w_page_size w \<and> salts_of h = salts
    \<and> length tail = length (case w_file w of None \<Rightarrow> [] | Some f \<Rightarrow> f) - 32 - length xs * (n + 24)
    \<and> write_frames salts xs t w = (wal_of h (wal_image h (to_frames t xs) @ tail) (to_frames t xs), Inr ())"
proof -
  let ?h0 = "fresh_wal_header (w_page_size w) salts"
  let ?file0 = "case w_file w of None \<Rightarrow> [] | Some f \<Rightarrow> f"
  have big: "checksum_big_endian ?h0" by (simp add: checksum_big_endian_def fresh_wal_header_def)
  obtain c0 c1 where sh: "sealed_header ?h0 True =
        Inr (?h0\<lparr>wh_checksum1 := c0, wh_checksum2 := c1\<rparr>, header_bytes (?h0\<lparr>wh_checksum1 := c0, wh_checksum2 := c1\<rparr>))"
      and se: "sealed (?h0\<lparr>wh_checksum1 := c0, wh_checksum2 := c1\<rparr>)"
    using sealed_header_result [of ?h0] big by auto
  define h where "h = ?h0\<lparr>wh_checksum1 := c0, wh_checksum2 := c1\<rparr>"
  define tail0 where "tail0 = drop 32 ?file0"
  have data: "\<forall>(p, d) \<in> set xs. length d = n" "xs \<noteq> []" using xs by (auto simp: good_pages_def)
  have f1: "file_write_at ?file0 0 (header_bytes h) = header_bytes h @ tail0"
    using file_write_at_append [of "[]" ?file0 "header_bytes h"] by (simp add: tail0_def)
  have loop: "write_loop (w_page_size w) (checksum_big_endian h) (wh_salt1 h, wh_salt2 h) t xs 0 (seed_of h)
      (header_bytes h @ tail0) =
    (wal_image h (to_frames t xs) @ drop (length xs * (n + 24)) tail0,
     Inr (length xs, running_after (checksum_big_endian h) (seed_of h) (to_frames t xs)))"
    using write_loop_stream [OF _ n data(1), of "header_bytes h" 0]
    by (simp add: wal_image_def salts_of_def)
  have h: "wh_page_size h = w_page_size w" "salts_of h = salts"
    by (simp_all add: h_def fresh_wal_header_def salts_of_def)
  have "write_frames salts xs t w =
      (wal_of h (wal_image h (to_frames t xs) @ drop (length xs * (n + 24)) tail0) (to_frames t xs), Inr ())"
    using assms(1,2) data(2) sh loop f1 h(1)
    by (simp add: write_frames_def h_def [symmetric] seed_of_def wal_of_def to_frames_last)
  moreover have "sealed h" using se by (simp add: h_def)
  moreover have "length (drop (length xs * (n + 24)) tail0) = length ?file0 - 32 - length xs * (n + 24)"
    by (simp add: tail0_def)
  ultimately show ?thesis using h by blast
qed

lemma good_pages_frames: "good_pages n xs \<Longrightarrow> f \<in> set (to_frames t xs) \<Longrightarrow> good_frame n f"
  using to_frames_good [of xs n] by (auto simp: good_pages_def)

lemma committed_append: "xs \<noteq> [] \<Longrightarrow> t \<noteq> 0 \<Longrightarrow> committed (fs @ to_frames t xs)"
  by (simp add: committed_def to_frames_last)

lemma write_frames_rep:
  assumes "wal_rep w fs" and "good_pages (unat (w_page_size w)) xs" and "t \<noteq> 0"
    and "write_frames salts xs t w = (w', r)"
  shows "r = Inr () \<and> wal_rep w' (fs @ to_frames t xs) \<and> w_mx_frame w' = length fs + length xs
    \<and> w_n_page w' = t \<and> w_page_size w' = w_page_size w"
proof -
  define n where "n = unat (w_page_size w)"
  have rep: "n mod 8 = 0" "committed fs" "\<forall>f \<in> set fs. good_frame n f"
    using assms(1) by (auto simp: wal_rep_def n_def)
  have xs: "good_pages n xs" "xs \<noteq> []" using assms(2) by (auto simp: n_def good_pages_def)
  have com: "committed (fs @ to_frames t xs)" using xs(2) assms(3) by (rule committed_append)
  have good: "\<forall>f \<in> set (fs @ to_frames t xs). good_frame n f"
    using rep(3) good_pages_frames [OF xs(1)] by auto
  have ne: "fs @ to_frames t xs \<noteq> []" using xs(2) by simp
  have goal: "r = Inr () \<and> wal_rep w' (fs @ to_frames t xs) \<and> w_mx_frame w' = length fs + length xs
      \<and> w_n_page w' = t \<and> w_page_size w' = w_page_size w"
    if "sealed h" "wh_page_size h = w_page_size w" "r = Inr ()"
      "w' = wal_of h (wal_image h (fs @ to_frames t xs) @ tail) (fs @ to_frames t xs)" for h tail
    using that com good rep(1) ne xs(2)
    by (auto simp: wal_rep_def n_def wal_of_def to_frames_last)
  show ?thesis
  proof (cases "fs = []")
    case True
    then have "w_mx_frame w = 0" "w_blocks w = []" using assms(1) by (auto simp: wal_rep_def)
    from write_frames_fresh [OF this n_def rep(1) xs(1) assms(3), of salts] assms(4) True
    show ?thesis using goal by auto
  next
    case False
    then obtain h tail where h: "sealed h" "w = wal_of h (wal_image h fs @ tail) fs"
      using assms(1) by (auto simp: wal_rep_def)
    then have ps: "wh_page_size h = w_page_size w" by (simp add: wal_of_def)
    from write_frames_existing [OF h(2) False _ rep(1,3) xs(1) assms(3), of salts] ps assms(4)
    show ?thesis using goal [OF h(1) ps] by (auto simp: n_def)
  qed
qed

text \<open>
  C13. Committing to the WAL appends the transaction: on a log that holds the committed frames
  \<open>fs\<close>, writing a non-empty set of pages with the new database size succeeds and the log then
  holds \<open>fs\<close> followed by one frame per page, the last of which carries the size; index, frame
  count, database size and checksum seed included.
\<close>

theorem write_frames_appends:
  assumes "wal_rep w fs" and "good_pages (unat (w_page_size w)) xs" and "t \<noteq> 0"
    and "write_frames salts xs t w = (w', r)"
  shows "r = Inr () \<and> wal_rep w' (fs @ to_frames t xs) \<and> w_mx_frame w' = length fs + length xs
    \<and> w_n_page w' = t \<and> w_page_size w' = w_page_size w"
  using assms by (rule write_frames_rep)

theorem write_frames_appends_witness:
  "wal_rep (fst (write_frames (1, 2) [(1, replicate 8 7), (3, replicate 8 5)] 3 (wal_placeholder None 8)))
     (to_frames 3 [(1, replicate 8 7), (3, replicate 8 5)])"
proof -
  have r: "wal_rep (wal_placeholder None 8) []"
    by (simp add: wal_rep_def wal_placeholder_def committed_def)
  have g: "good_pages (unat (w_page_size (wal_placeholder None 8))) [(1, replicate 8 7), (3, replicate 8 5)]"
    by (simp add: good_pages_def wal_placeholder_def)
  show ?thesis
    using write_frames_appends [OF r g, of 3 "(1, 2)" _ _, OF _ prod.collapse [symmetric]] by simp
qed

end
