(* ===== verification/Wal_Log.thy ===== *)
theory Wal_Log
  imports Wal
begin

text \<open>
  Crash safety and checkpointing of the write-ahead log. A commit only appends to the log file, so
  a crash leaves a prefix of the bytes it writes behind the old log: opening such a file gives the
  old frames unless every byte of the commit arrived. A checkpoint copies the frames into the
  database file in order, so that every page then holds there what a reader of the log saw.
\<close>

section \<open>Crashes during a commit\<close>

lemma take_frame_stream:
  assumes "\<forall>f \<in> set fs. length (f_data f) = n"
  shows "\<exists>tail. take j (frame_stream big salts r fs) =
      frame_stream big salts r (take (j div (n + 24)) fs) @ tail \<and> length tail < n + 24"
proof -
  define q where "q = j div (n + 24)"
  let ?a = "frame_stream big salts r (take q fs)"
  let ?b = "frame_stream big salts (running_after big r (take q fs)) (drop q fs)"
  have s: "frame_stream big salts r fs = ?a @ ?b"
    using frame_stream_append [of big salts r "take q fs" "drop q fs"] by simp
  have la: "length ?a = min q (length fs) * (n + 24)"
    using assms by (subst length_frame_stream) (auto dest: in_set_takeD simp: min.commute)
  have lb: "length ?b = (length fs - q) * (n + 24)"
    using assms by (subst length_frame_stream) (auto dest: in_set_dropD)
  have j: "j = q * (n + 24) + j mod (n + 24)" by (simp only: q_def div_mult_mod_eq)
  have m: "j mod (n + 24) < n + 24" by simp
  have "take j (?a @ ?b) = ?a @ take (j - length ?a) ?b"
    using la j by (simp add: min_def) (metis le_add1 mult_le_mono1 nat_le_linear order_trans)
  moreover have "length (take (j - length ?a) ?b) < n + 24"
  proof (cases "q \<le> length fs")
    case True
    then have "j - length ?a = j mod (n + 24)"
      using la by (simp only: min.absorb1 q_def minus_div_mult_eq_mod)
    then show ?thesis using m by (metis length_take min.cobounded2 le_less_trans)
  qed (use lb in simp)
  ultimately show ?thesis using s by (auto simp: q_def)
qed

lemma wal_open_prefix:
  assumes "sealed h" and n: "n = unat (wh_page_size h)" "n mod 8 = 0"
    and fs: "committed fs" "\<forall>f \<in> set fs. good_frame n f"
    and xs: "good_pages n xs" "t \<noteq> 0"
    and m: "length (wal_image h fs) \<le> m" and f: "f = take m (wal_image h (fs @ to_frames t xs))"
  shows "wal_open (Some f) (wh_page_size h) =
    Inr (wal_of h f (if m < length (wal_image h (fs @ to_frames t xs)) then fs else fs @ to_frames t xs))"
proof -
  let ?big = "checksum_big_endian h" and ?ys = "to_frames t xs"
  let ?r = "running_after ?big (seed_of h) fs"
  have ys: "\<forall>f \<in> set ?ys. good_frame n f" using good_pages_frames [OF xs(1)] by auto
  then have data: "\<forall>f \<in> set ?ys. length (f_data f) = n" by (simp add: good_frame_def)
  have img: "wal_image h (fs @ ?ys) = wal_image h fs @ frame_stream ?big (salts_of h) ?r ?ys"
    by (simp add: wal_image_def frame_stream_append)
  have len: "length (frame_stream ?big (salts_of h) ?r ?ys) = length xs * (n + 24)"
    using length_frame_stream [OF data] by simp
  define j where "j = m - length (wal_image h fs)"
  define q where "q = j div (n + 24)"
  obtain tail where tail: "take j (frame_stream ?big (salts_of h) ?r ?ys) =
      frame_stream ?big (salts_of h) ?r (take q ?ys) @ tail" "length tail < n + 24"
    using take_frame_stream [OF data] q_def by blast
  have fe: "f = wal_image h (fs @ take q ?ys) @ tail"
    using m tail(1) by (simp add: f img j_def wal_image_def frame_stream_append)
  have dead: "dead_tail n b s r tail" for b s r using tail(2) by (simp add: dead_tail_def)
  show ?thesis
  proof (cases "m < length (wal_image h (fs @ ?ys))")
    case True
    then have "j < length xs * (n + 24)" using m len by (simp add: img j_def)
    then have q: "q < length xs" by (simp add: q_def less_mult_imp_div_less)
    have "wal_open (Some f) (wh_page_size h) = Inr (wal_of h f fs)"
      using fs ys to_frames_prefix_uncommitted [OF q]
      by (intro wal_open_image [OF assms(1) n _ fs(1) _ dead fe]) (auto dest: in_set_takeD)
    then show ?thesis using True by simp
  next
    case False
    have ne: "xs \<noteq> []" using xs(1) by (simp add: good_pages_def)
    have "f = wal_image h ((fs @ ?ys) @ []) @ []" using False f by simp
    then have "wal_open (Some f) (wh_page_size h) = Inr (wal_of h f (fs @ ?ys))"
      using fs ys committed_append [OF ne xs(2)]
      by (intro wal_open_image [OF assms(1) n, where part = "[]" and tail = "[]"]) (auto simp: dead_tail_def)
    then show ?thesis using False by simp
  qed
qed

text \<open>
  C11. A commit to the write-ahead log is atomic. Let the log file hold exactly the committed frames
  \<open>fs\<close>; a commit succeeds, and if the process stops after any number of bytes of the commit have
  reached the file (a torn frame included), opening the file recovers \<open>fs\<close> when a byte is missing
  and \<open>fs\<close> followed by the whole transaction when none is, with the index, frame count, database
  size and checksum seed of that log.
\<close>

theorem wal_commit_crash_atomic:
  assumes "sealed h" and "unat (wh_page_size h) mod 8 = 0" and "fs \<noteq> []" and "committed fs"
    and "\<forall>f \<in> set fs. good_frame (unat (wh_page_size h)) f"
    and "good_pages (unat (wh_page_size h)) xs" and "t \<noteq> 0"
    and "w = wal_of h (wal_image h fs) fs" and "length (wal_image h fs) \<le> m"
  shows "\<exists>new. write_frames salts xs t w = (wal_of h new (fs @ to_frames t xs), Inr ())
    \<and> take (length (wal_image h fs)) new = wal_image h fs
    \<and> wal_open (Some (take m new)) (wh_page_size h) =
        Inr (wal_of h (take m new) (if m < length new then fs else fs @ to_frames t xs))"
proof -
  define n where "n = unat (wh_page_size h)"
  have n8: "n mod 8 = 0" and g: "\<forall>f \<in> set fs. good_frame n f" and x: "good_pages n xs"
    using assms(2,5,6) by (simp_all add: n_def)
  have w: "w = wal_of h (wal_image h fs @ []) fs" using assms(8) by simp
  have wr: "write_frames salts xs t w = (wal_of h (wal_image h (fs @ to_frames t xs)) (fs @ to_frames t xs), Inr ())"
    using write_frames_existing [OF w assms(3) n_def n8 g x assms(7)] by simp
  have "take (length (wal_image h fs)) (wal_image h (fs @ to_frames t xs)) = wal_image h fs"
    by (simp add: wal_image_def frame_stream_append)
  moreover note wal_open_prefix [OF assms(1) n_def n8 assms(4) g x assms(7) assms(9) refl]
  ultimately show ?thesis using wr by blast
qed

text \<open>The three-frame log the witnesses use.\<close>

definition sample_header :: wal_header where
  "sample_header = fst (projr (sealed_header (fresh_wal_header 8 (1, 2)) True))"

lemma sample_header: "sealed sample_header" "wh_page_size sample_header = 8"
proof -
  let ?h = "fresh_wal_header 8 (1, 2)"
  have "checksum_big_endian ?h" by (simp add: checksum_big_endian_def fresh_wal_header_def)
  then show "sealed sample_header" "wh_page_size sample_header = 8"
    using sealed_header_result [of ?h]
    by (auto simp: sample_header_def fresh_wal_header_def)
qed

theorem wal_commit_crash_atomic_witness:
  "\<exists>new. write_frames (5, 6) [(2, replicate 8 9), (3, replicate 8 4)] 3
       (wal_of sample_header (wal_image sample_header [(1, 1, replicate 8 7)]) [(1, 1, replicate 8 7)]) =
     (wal_of sample_header new ((1, 1, replicate 8 7) # to_frames 3 [(2, replicate 8 9), (3, replicate 8 4)]), Inr ())
   \<and> take (length (wal_image sample_header [(1, 1, replicate 8 7)])) new =
       wal_image sample_header [(1, 1, replicate 8 7)]
   \<and> wal_open (Some (take 100 new)) 8 =
       Inr (wal_of sample_header (take 100 new)
             (if 100 < length new then [(1, 1, replicate 8 7)]
              else [(1, 1, replicate 8 7)] @ to_frames 3 [(2, replicate 8 9), (3, replicate 8 4)]))"
proof -
  have l: "length (wal_image sample_header [(1, 1, replicate 8 7)]) \<le> 100"
    by (simp add: wal_image_def f_data_def)
  show ?thesis
    using wal_commit_crash_atomic [OF sample_header(1) _ _ _ _ _ _ refl l,
        where xs = "[(2, replicate 8 9), (3, replicate 8 4)]" and t = 3 and salts = "(5, 6)"]
    by (simp add: sample_header(2) committed_def f_commit_def good_frame_def f_pgno_def f_data_def
        good_pages_def del: to_frames.simps split del: if_split)
qed

section \<open>Checkpointing\<close>

definition frame_page :: "frame \<Rightarrow> nat \<times> bytes" where
  "frame_page f = (unat (f_pgno f) - 1, f_data f)"

lemma backfill_stream:
  assumes "length pre = 32 + (i - 1) * (n + 24)" and "1 \<le> i" and "\<forall>f \<in> set fs. good_frame n f"
    and "file = pre @ frame_stream big salts r fs @ rest"
  shows "backfill_loop (length fs) i file n salts c db =
    (fold (mem_file.put_page n) (map frame_page fs) db, Inr (c + length fs))"
  using assms
proof (induction fs arbitrary: i pre r c db)
  case (Cons f fs)
  let ?img = "frame_image (f_pgno f) (f_commit f) salts (ck_step big r f) (f_data f)"
  have f: "length (f_data f) = n" "f_pgno f \<noteq> 0" using Cons.prems(3) by (auto simp: good_frame_def)
  have buf: "file_read_at file (32 + (i - 1) * (n + 24)) (n + 24) = ?img"
    using Cons.prems(1,4) f(1) by (simp add: file_read_at_sub sub_def)
  obtain i' where "i = Suc i'" using Cons.prems(2) by (cases i) auto
  then have IH: "backfill_loop (length fs) (i + 1) file n salts (c + 1) (mem_file.put_page n (frame_page f) db) =
      (fold (mem_file.put_page n) (map frame_page fs) (mem_file.put_page n (frame_page f) db), Inr (c + 1 + length fs))"
    using Cons.prems f(1) by (intro Cons.IH [where pre = "pre @ ?img"]) auto
  moreover have "mem_file.put_page n (frame_page f) db =
      file_write_at db ((unat (f_pgno f) - 1) * n) (f_data f)"
    by (simp add: mem_file.put_page_def frame_page_def)
  ultimately show ?case
    using f(2) buf by (simp add: f(1) frame_image_parts decode_frame_image)
qed simp

lemma latest_frame_le: "latest_frame ps p \<le> length ps"
  using length_dropWhile_le [of "\<lambda>q. q \<noteq> p" "rev ps"] by (simp add: latest_frame_def)

lemma map_of_frames:
  assumes "\<forall>f \<in> set fs. f_pgno f \<noteq> 0" and "p \<noteq> 0"
  shows "map_of (rev (map frame_page fs)) (unat p - 1) =
    (if p \<in> set (map f_pgno fs) then Some (f_data (fs ! (latest_frame (map f_pgno fs) p - 1))) else None)"
  using assms(1)
proof (induction fs rule: rev_induct)
  case (snoc f fs)
  have eq: "unat (f_pgno f) - 1 = unat p - 1 \<longleftrightarrow> f_pgno f = p"
  proof
    assume "unat (f_pgno f) - 1 = unat p - 1"
    moreover have "0 < unat (f_pgno f)" "0 < unat p" using snoc.prems assms(2) by (auto simp: unat_gt_0)
    ultimately have "unat (f_pgno f) = unat p" by arith
    then show "f_pgno f = p" by (simp add: word_unat_eq_iff)
  qed simp
  have le: "latest_frame (map f_pgno fs) p - 1 < length fs" if "p \<in> f_pgno ` set fs"
  proof -
    have "latest_frame (map f_pgno fs) p \<le> length fs"
      using latest_frame_le [of "map f_pgno fs" p] by simp
    moreover have "fs \<noteq> []" using that by auto
    ultimately show ?thesis by (cases fs) auto
  qed
  have one: "latest_frame [f_pgno f] (f_pgno f) = 1" by (simp add: latest_frame_def)
  show ?case
  proof (cases "f_pgno f = p")
    case True
    then show ?thesis using eq one by (simp add: frame_page_def latest_frame_append)
  next
    case False
    then show ?thesis
      using snoc eq le by (auto simp: frame_page_def latest_frame_append nth_append)
  qed
qed simp

lemma wal_read_frame_rep:
  assumes "w = wal_of h (wal_image h fs @ tail) fs" and "n = unat (wh_page_size h)"
    and "\<forall>f \<in> set fs. good_frame n f" and "0 < i" and "i \<le> length fs"
  shows "wal_read_frame w i n = Inr (f_data (fs ! (i - 1)))"
proof -
  define f where "f = fs ! (i - 1)"
  let ?big = "checksum_big_endian h"
  have split: "fs = take (i - 1) fs @ f # drop i fs"
    using assms(4,5) id_take_nth_drop [of "i - 1" fs] by (simp add: f_def)
  let ?pre = "frame_stream ?big (salts_of h) (seed_of h) (take (i - 1) fs)"
  obtain rest where st: "frame_stream ?big (salts_of h) (seed_of h) fs =
      ?pre @ frame_image (f_pgno f) (f_commit f) (salts_of h)
        (ck_step ?big (running_after ?big (seed_of h) (take (i - 1) fs)) f) [] @ f_data f @ rest"
    using frame_stream_append [of ?big "salts_of h" "seed_of h" "take (i - 1) fs" "f # drop i fs"] split
    by (auto simp: frame_image_def)
  have lp: "length ?pre = (i - 1) * (n + 24)"
    using assms(3,5) by (subst length_frame_stream [of _ n]) (auto dest: in_set_takeD simp: good_frame_def)
  have "f \<in> set fs" using assms(4,5) by (simp add: f_def)
  then have ld: "length (f_data f) = n" using assms(3) by (simp add: good_frame_def)
  have "file_read_at (wal_image h fs @ tail) (32 + (i - 1) * (n + 24) + 24) n = f_data f"
    using lp ld by (simp add: file_read_at_sub sub_def wal_image_def st)
  then show ?thesis
    using assms(1,2,4) ld
    by (simp add: wal_read_frame_def wal_of_def frame_data_offset_def f_def)
qed

text \<open>What a reader of the database sees of page \<open>p\<close>: the latest frame, or else the database file.\<close>

definition read_through :: "wal \<Rightarrow> bytes \<Rightarrow> u32 \<Rightarrow> bytes result" where
  "read_through w db p =
     (let n = unat (w_page_size w); i = find_frame (w_blocks w) (w_mx_frame w) p in
      if i \<noteq> 0 then wal_read_frame w i n else Inr (file_read_at db ((unat p - 1) * n) n))"

lemma wal_checkpoint_result:
  assumes "wal_rep w fs" and "fs \<noteq> []" and "n = unat (w_page_size w)"
  shows "\<exists>w'. wal_checkpoint salts mode db w =
      ((w', file_truncate (fold (mem_file.put_page n) (map frame_page fs) db) (unat (w_n_page w) * n)),
       Inr (length fs, length fs))
    \<and> wal_rep w' (if mode = Ck_Passive \<or> mode = Ck_Full then fs else [])"
proof -
  obtain h tail where h: "sealed h" "w = wal_of h (wal_image h fs @ tail) fs"
    using assms(1,2) by (auto simp: wal_rep_def)
  have good: "\<forall>f \<in> set fs. good_frame n f" using assms(1,3) by (simp add: wal_rep_def)
  have bf: "backfill_loop (length fs) 1 (wal_image h fs @ tail) n (salts_of h) 0 db =
      (fold (mem_file.put_page n) (map frame_page fs) db, Inr (0 + length fs))"
    using good by (intro backfill_stream [where pre = "header_bytes h"]) (auto simp: wal_image_def)
  let ?h1 = "h\<lparr>wh_salt1 := fst salts, wh_salt2 := snd salts, wh_checkpoint_seq := wh_checkpoint_seq h + 1\<rparr>"
  obtain c0 c1 where sh: "sealed_header ?h1 (checksum_big_endian ?h1) =
      Inr (?h1\<lparr>wh_checksum1 := c0, wh_checksum2 := c1\<rparr>, header_bytes (?h1\<lparr>wh_checksum1 := c0, wh_checksum2 := c1\<rparr>))"
    using sealed_header_result [of ?h1] by auto
  have w: "w_mx_frame w = length fs" "w_file w = Some (wal_image h fs @ tail)" "w_header w = h"
    using h(2) by (simp_all add: wal_of_def)
  show ?thesis
    using assms w bf sh
    by (auto simp: wal_checkpoint_def Let_def salts_of_def wal_rep_def committed_def)
qed

lemma read_through_log:
  assumes "wal_rep w fs" and "fs \<noteq> []" and "n = unat (w_page_size w)"
  shows "read_through w db p =
    Inr (if p \<in> set (map f_pgno fs) then f_data (fs ! (latest_frame (map f_pgno fs) p - 1))
         else file_read_at db ((unat p - 1) * n) n)"
proof -
  obtain h tail where h: "w = wal_of h (wal_image h fs @ tail) fs"
    using assms(1,2) by (auto simp: wal_rep_def)
  have good: "\<forall>f \<in> set fs. good_frame n f" using assms(1,3) by (simp add: wal_rep_def)
  have ps: "n = unat (wh_page_size h)" "w_page_size w = wh_page_size h" using h assms(3) by (simp_all add: wal_of_def)
  have ix: "find_frame (w_blocks w) (w_mx_frame w) p = latest_frame (map f_pgno fs) p"
    using find_frame_index [of "map f_pgno fs" p] h by (simp add: wal_of_def)
  have latest_frame_pos: "0 < latest_frame (map f_pgno fs) p \<longleftrightarrow> p \<in> f_pgno ` set fs"
    using latest_frame_0 [of "map f_pgno fs" p] by (metis image_set neq0_conv)
  show ?thesis
    using wal_read_frame_rep [OF h ps(1) good, of "latest_frame (map f_pgno fs) p"]
      latest_frame_le [of "map f_pgno fs" p]
    by (cases "p \<in> set (map f_pgno fs)")
       (simp_all add: read_through_def latest_frame_pos ix Let_def ps(2) ps(1) [symmetric])
qed

text \<open>
  C12. A checkpoint moves the log into the database file without changing what a reader sees: it
  copies every frame, cuts the file to the committed number of pages, and each page of the database
  then reads from the file exactly as it read through the log before, provided the page was in the
  log or in the file. PASSIVE and FULL keep the log's frames; RESTART and TRUNCATE empty it.
\<close>

theorem checkpoint_preserves_pages:
  assumes "wal_rep w fs" and "fs \<noteq> []" and "w_page_size w \<noteq> 0"
    and "p \<noteq> 0" and "p \<le> w_n_page w"
    and "p \<in> set (map f_pgno fs) \<or> unat p * unat (w_page_size w) \<le> length db"
  shows "\<exists>w' db'. wal_checkpoint salts mode db w = ((w', db'), Inr (length fs, length fs))
    \<and> length db' = unat (w_n_page w) * unat (w_page_size w)
    \<and> read_through w db p =
        Inr (file_read_at db' ((unat p - 1) * unat (w_page_size w)) (unat (w_page_size w)))
    \<and> wal_rep w' (if mode = Ck_Passive \<or> mode = Ck_Full then fs else [])"
proof -
  define n where "n = unat (w_page_size w)"
  have n: "0 < n" using assms(3) by (simp add: n_def unat_gt_0)
  let ?recs = "map frame_page fs"
  let ?db1 = "fold (mem_file.put_page n) ?recs db"
  let ?db2 = "file_truncate ?db1 (unat (w_n_page w) * n)"
  obtain w' where ck: "wal_checkpoint salts mode db w = ((w', ?db2), Inr (length fs, length fs))"
      "wal_rep w' (if mode = Ck_Passive \<or> mode = Ck_Full then fs else [])"
    using wal_checkpoint_result [OF assms(1,2) n_def, of salts mode db] by blast
  have good: "\<forall>f \<in> set fs. good_frame n f" using assms(1) by (simp add: wal_rep_def n_def)
  then have pg: "\<forall>f \<in> set fs. f_pgno f \<noteq> 0" by (simp add: good_frame_def)
  let ?j = "unat p - 1"
  have up: "0 < unat p" "unat p \<le> unat (w_n_page w)"
    using assms(4,5) by (simp_all add: unat_gt_0 word_le_nat_alt)
  have jp: "?j * n + n = unat p * n" using up(1) by (cases "unat p") auto
  have inr: "?j \<in> fst ` set ?recs" if "p \<in> set (map f_pgno fs)"
    using that by (force simp: frame_page_def)
  have inr': "?j \<in> fst ` set ?recs \<or> ?j * n + n \<le> file_size db"
    using assms(6) inr jp by (auto simp: n_def file_size_def)
  have page: "mem_file.page_of n ?db1 ?j =
      (case map_of (rev ?recs) ?j of None \<Rightarrow> mem_file.page_of n db ?j | Some d \<Rightarrow> d)"
    using good by (intro mem_file.page_fold_put n inr') (auto simp: good_frame_def frame_page_def)
  have v: "read_through w db p = Inr (mem_file.page_of n ?db1 ?j)"
    unfolding read_through_log [OF assms(1,2) n_def] page map_of_frames [OF pg assms(4)]
    by (simp add: mem_file.page_of_def)
  have "length (mem_file.page_of n ?db1 ?j) = n"
  proof (cases "p \<in> set (map f_pgno fs)")
    case True
    then have "latest_frame (map f_pgno fs) p - 1 < length fs"
      using latest_frame_le [of "map f_pgno fs" p] assms(2) by (cases fs) auto
    then show ?thesis using True page good map_of_frames [OF pg assms(4)] by (simp add: good_frame_def)
  next
    case False
    then show ?thesis
      using page assms(6) jp map_of_frames [OF pg assms(4)]
      by (simp add: mem_file.page_of_def mem_file.length_rd file_size_def n_def)
  qed
  then have fit: "?j * n + n \<le> file_size ?db1" using mem_file.page_fits n by blast
  have "file_read_at ?db2 (?j * n) n = mem_file.page_of n ?db1 ?j"
    unfolding mem_file.page_of_def using fit jp up(2) by (intro mem_file.rd_tr) auto
  moreover have "length ?db2 = unat (w_n_page w) * n" by (simp add: file_truncate_def)
  ultimately show ?thesis using ck v by (auto simp: n_def)
qed

theorem checkpoint_preserves_pages_witness:
  "\<exists>w' db'. wal_checkpoint (5, 6) Ck_Truncate (replicate 16 3)
      (wal_of sample_header (wal_image sample_header [(1, 0, replicate 8 7), (2, 2, replicate 8 9)])
        [(1, 0, replicate 8 7), (2, 2, replicate 8 9)]) = ((w', db'), Inr (2, 2))
    \<and> file_read_at db' 8 8 = replicate 8 9"
proof -
  let ?fs = "[(1, 0, replicate 8 7), (2, 2, replicate 8 9)] :: frame list"
  let ?w = "wal_of sample_header (wal_image sample_header ?fs) ?fs"
  have rep: "wal_rep ?w ?fs"
    unfolding wal_rep_def
    by (auto simp: wal_of_def sample_header committed_def f_commit_def good_frame_def f_pgno_def f_data_def
        intro!: exI [of _ sample_header] exI [of _ "[]"])
  have w: "w_page_size ?w = 8" "w_n_page ?w = 2" by (simp_all add: wal_of_def sample_header f_commit_def)
  have v: "read_through ?w (replicate 16 3) 2 = Inr (replicate 8 9)"
    using read_through_log [OF rep _ refl, of "replicate 16 3" 2]
    by (simp add: f_pgno_def f_data_def latest_frame_def)
  show ?thesis
    using checkpoint_preserves_pages [OF rep, of 2 "replicate 16 3" "(5, 6)" Ck_Truncate] v
    by (auto simp: w f_pgno_def)
qed

end
