(* ===== verification/Pager.thy ===== *)
theory Pager
  imports State_Ops Ptrmap Journal Locks Wal_Log
begin

text \<open>
  The pager (\<open>pager/mod.rs\<close>): page cache, dirty overlay, rollback journal, savepoints, WAL mode.
  One record holds the fields of \<open>Pager\<close>, \<open>PagerState\<close> and the files it works on: the database
  file, the \<open>-journal\<close> sidecar (\<open>None\<close> when it does not exist) and the \<open>-wal\<close> sidecar (kept in
  the \<open>wal\<close> handle while there is one, in \<open>p_walfile\<close> otherwise). The mutexes of the source are
  never held across a call that takes them again, so one call is one state transformer. Values the
  source draws from outside are arguments: the journal seed of \<open>next_cksum_init\<close>, the salts of
  \<open>next_wal_salt\<close> and the order in which a \<open>HashMap\<close> is drained.
\<close>

section \<open>Journal modes and names\<close>

datatype journal_mode = J_Delete | J_Persist | J_Off | J_Truncate | J_Memory | J_Wal | J_Query

fun journal_mode_name :: "journal_mode \<Rightarrow> string" where
  "journal_mode_name J_Delete = ''delete''"
| "journal_mode_name J_Persist = ''persist''"
| "journal_mode_name J_Off = ''off''"
| "journal_mode_name J_Truncate = ''truncate''"
| "journal_mode_name J_Memory = ''memory''"
| "journal_mode_name J_Wal = ''wal''"
| "journal_mode_name J_Query = ''query''"

definition char_lower :: "char \<Rightarrow> char" where
  "char_lower c = (if of_char c \<ge> (65 :: nat) \<and> of_char c \<le> (90 :: nat)
                   then char_of ((of_char c :: nat) + 32) else c)"

definition eq_ignore_case :: "string \<Rightarrow> string \<Rightarrow> bool" where
  "eq_ignore_case a b \<longleftrightarrow> map char_lower a = map char_lower b"

definition journal_mode_matches :: "string \<Rightarrow> journal_mode \<Rightarrow> bool" where
  "journal_mode_matches name m \<longleftrightarrow>
     eq_ignore_case name (journal_mode_name m)
     \<or> (1 \<le> length name \<and> length name \<le> length (journal_mode_name m)
        \<and> eq_ignore_case (take (length name) (journal_mode_name m)) name)"

definition journal_mode_from_name :: "string \<Rightarrow> journal_mode option" where
  "journal_mode_from_name name =
     find (journal_mode_matches name) [J_Delete, J_Persist, J_Off, J_Truncate, J_Memory, J_Wal]"

definition is_rollback :: "journal_mode \<Rightarrow> bool" where
  "is_rollback m \<longleftrightarrow> m \<noteq> J_Wal \<and> m \<noteq> J_Query"

definition checkpoint_mode_from_name :: "string \<Rightarrow> checkpoint_mode option" where
  "checkpoint_mode_from_name name =
     (let n = map char_lower name in
      if n = ''passive'' then Some Ck_Passive
      else if n = ''full'' then Some Ck_Full
      else if n = ''restart'' then Some Ck_Restart
      else if n = ''truncate'' then Some Ck_Truncate
      else None)"

definition SQLITE_VERSION_NUMBER :: u32 where "SQLITE_VERSION_NUMBER = 3053001"

section \<open>State\<close>

type_synonym pages = "(u32 \<times> bytes) list"

record write_txn =
  t_cksum_init :: u32
  t_db_orig_size :: u32
  t_nrec :: u32
  t_journal_off :: nat
  t_journaled :: "u32 set"

record pager_savepoint =
  sp_name :: string
  sp_n_orig :: u32
  sp_dirty :: pages

record pager =
  p_path :: string
  p_db :: bytes
  p_journal :: "bytes option"
  p_walfile :: "bytes option"
  p_locks :: lock_sys
  p_handle :: nat
  p_page_size :: nat
  p_usable_size :: nat
  p_header :: db_header
  p_page_count :: u32
  p_cache :: pages
  p_dirty :: pages
  p_txn :: "write_txn option"
  p_savepoints :: "pager_savepoint list"
  p_wal :: "wal option"

definition pager_lock :: "lock_level \<Rightarrow> (pager, unit) op" where
  "pager_lock level p =
     (case mem_lock (p_handle p) level (p_locks p) of (l, r) \<Rightarrow> (p\<lparr>p_locks := l\<rparr>, r))"

definition pager_unlock :: "lock_level \<Rightarrow> pager \<Rightarrow> pager" where
  "pager_unlock level p = p\<lparr>p_locks := mem_unlock (p_handle p) level (p_locks p)\<rparr>"

section \<open>Fresh databases\<close>

definition fresh_header :: "u32 \<Rightarrow> db_header" where
  "fresh_header psize =
     \<lparr>page_size = psize, write_version = 1, read_version = 1, reserved_space = 0,
      file_change_counter = 0, db_size_pages = 1, first_freelist_trunk = 0, freelist_count = 0,
      schema_cookie = 0, schema_format = 4, default_cache_size = 0, largest_root_page = 0,
      text_encoding = Utf8, user_version = 0, incremental_vacuum = 0, application_id = 0,
      version_valid_for = 0, sqlite_version_number = SQLITE_VERSION_NUMBER\<rparr>"

definition build_fresh_page1 :: "db_header \<Rightarrow> nat \<Rightarrow> bytes" where
  "build_fresh_page1 h psize =
     (let ccs = (if psize = 65536 then 0 else of_nat psize) :: u16 in
      put_all [(0, serialize_header h), (100, [0x0d]), (101, be_enc 2 (0 :: u16)),
               (103, be_enc 2 (0 :: u16)), (105, be_enc 2 ccs), (107, [0])]
        (replicate psize 0))"

section \<open>Hot-journal recovery\<close>

text \<open>The files recovery works on: database, journal, locks.\<close>

type_synonym disk = "bytes \<times> bytes option \<times> lock_sys"

fun replay_loop :: "nat \<Rightarrow> nat \<Rightarrow> journal_header \<Rightarrow> bytes \<Rightarrow> bytes \<Rightarrow> bytes" where
  "replay_loop 0 off hdr j db = db"
| "replay_loop (Suc n) off hdr j db =
     (let psize = unat (jh_page_size hdr);
          rec_len = record_len psize;
          rc = file_read_at j off rec_len in
      if length rc < rec_len then db
      else (let pgno = be_u32 (sub 0 4 rc);
                data = sub 4 (4 + psize) rc;
                stored = be_u32 (sub (4 + psize) (8 + psize) rc) in
            if pgno = 0 \<or> pager_cksum (jh_cksum_init hdr) data \<noteq> stored then db
            else replay_loop n (off + rec_len) hdr j
                   (if pgno \<le> jh_db_orig_size hdr
                    then file_write_at db ((unat pgno - 1) * psize) data else db)))"

definition recover_hot_journal :: "nat \<Rightarrow> (disk, unit) op" where
  "recover_hot_journal h d =
     (case d of (db, jopt, locks) \<Rightarrow>
       (case jopt of
          None \<Rightarrow> (d, Inr ())
        | Some j \<Rightarrow>
            if check_reserved_lock locks then (d, Inr ())
            else (case parse_journal_header (file_read_at j 0 JOURNAL_HDR_SZ) of
                None \<Rightarrow> ((db, None, locks), Inr ())
              | Some hdr \<Rightarrow>
                  if jh_page_size hdr = 0 then ((db, None, locks), Inr ())
                  else (case mem_lock h Exclusive locks of
                      (locks1, Inl e) \<Rightarrow> ((db, jopt, locks1), Inl e)
                    | (locks1, Inr _) \<Rightarrow>
                        (let db1 = replay_loop (unat (jh_nrec hdr)) JOURNAL_HDR_SZ hdr j db;
                             db2 = file_truncate db1 (unat (jh_db_orig_size hdr) * unat (jh_page_size hdr))
                         in ((db2, None, mem_unlock h Shared locks1), Inr ()))))))"

section \<open>Opening\<close>

definition pager_of :: "string \<Rightarrow> nat \<Rightarrow> bytes option \<Rightarrow> disk \<Rightarrow> db_header \<Rightarrow> u32 \<Rightarrow> pages \<Rightarrow> wal option \<Rightarrow> pager" where
  "pager_of path h walfile d hdr n_pages cache w =
     \<lparr>p_path = path, p_db = fst d, p_journal = fst (snd d), p_walfile = walfile,
      p_locks = snd (snd d), p_handle = h,
      p_page_size = unat (page_size hdr), p_usable_size = unat (usable_size hdr),
      p_header = hdr, p_page_count = n_pages, p_cache = cache, p_dirty = [],
      p_txn = None, p_savepoints = [], p_wal = w\<rparr>"

definition pager_open :: "string \<Rightarrow> nat \<Rightarrow> bytes option \<Rightarrow> disk \<Rightarrow> disk \<times> pager result" where
  "pager_open path h walfile d =
     bind_op (recover_hot_journal h) (\<lambda>_ d1.
       let db = fst d1; head = file_read_at db 0 100 in
       if length head < 100 then (d1, Inl (not_a_db ''file is shorter than the 100-byte header''))
       else case parse_header head of
         Inl e \<Rightarrow> (d1, Inl e)
       | Inr hdr \<Rightarrow>
           (let n_pages = of_nat (file_size db div unat (page_size hdr)) in
            if write_version hdr = 2 \<or> read_version hdr = 2
            then (case wal_open walfile (page_size hdr) of
                    Inl e \<Rightarrow> (d1, Inl e)
                  | Inr w \<Rightarrow> (d1, Inr (pager_of path h None d1 hdr n_pages [] (Some w))))
            else (d1, Inr (pager_of path h walfile d1 hdr n_pages [] None)))) d"

definition create_fresh :: "string \<Rightarrow> nat \<Rightarrow> bytes option \<Rightarrow> disk \<Rightarrow> u32 \<Rightarrow> disk \<times> pager result" where
  "create_fresh path h walfile d psize =
     (if psize < 512 \<or> 65536 < psize \<or> \<not> is_power_of_two psize
      then (d, Inl (error_msg (''invalid page size '' @ dec (unat psize))))
      else (let hdr = fresh_header psize;
                page1 = build_fresh_page1 hdr (unat psize);
                d1 = (file_write_at (fst d) 0 page1, snd d)
            in (d1, Inr (pager_of path h walfile d1 hdr 1 [(1, page1)] None))))"

section \<open>Page access\<close>

definition pager_page_count :: "pager \<Rightarrow> u32" where
  "pager_page_count p =
     (case p_wal p of
        Some w \<Rightarrow> if w_mx_frame w \<noteq> 0 then max (w_n_page w) (p_page_count p) else p_page_count p
      | None \<Rightarrow> p_page_count p)"

definition auto_vacuum :: "pager \<Rightarrow> bool" where
  "auto_vacuum p \<longleftrightarrow> largest_root_page (p_header p) \<noteq> 0"

definition incr_vacuum :: "pager \<Rightarrow> bool" where
  "incr_vacuum p \<longleftrightarrow> incremental_vacuum (p_header p) \<noteq> 0"

definition with_header_mut :: "(db_header \<Rightarrow> db_header) \<Rightarrow> pager \<Rightarrow> pager" where
  "with_header_mut f p = p\<lparr>p_header := f (p_header p)\<rparr>"

definition set_auto_vacuum :: "u8 \<Rightarrow> (pager, unit) op" where
  "set_auto_vacuum mode p =
     (if 1 < pager_page_count p
      then (p, Inl (error_msg ''cannot change auto_vacuum mode after the database has been written''))
      else (with_header_mut (\<lambda>h. h\<lparr>largest_root_page := (if mode \<noteq> 0 then 1 else 0),
                                    incremental_vacuum := (if mode = 2 then 1 else 0)\<rparr>) p, Inr ()))"

definition btree_header_offset :: "u32 \<Rightarrow> nat" where
  "btree_header_offset pgno = (if pgno = 1 then 100 else 0)"

definition begin_read :: "(pager, unit) op" where
  "begin_read = pager_lock Shared"

definition cached :: "pager \<Rightarrow> u32 \<Rightarrow> bytes option" where
  "cached p pgno = (case map_of (p_dirty p) pgno of Some d \<Rightarrow> Some d | None \<Rightarrow> map_of (p_cache p) pgno)"

definition wal_frame_of :: "pager \<Rightarrow> u32 \<Rightarrow> nat" where
  "wal_frame_of p pgno =
     (case p_wal p of None \<Rightarrow> 0 | Some w \<Rightarrow> find_frame (w_blocks w) (w_mx_frame w) pgno)"

definition cache_page :: "u32 \<Rightarrow> bytes \<Rightarrow> (pager, bytes) op" where
  "cache_page pgno page p = (p\<lparr>p_cache := put pgno page (p_cache p)\<rparr>, Inr page)"

definition read_wal_page :: "u32 \<Rightarrow> nat \<Rightarrow> (pager, bytes) op" where
  "read_wal_page pgno i_frame p =
     (case p_wal p of
        None \<Rightarrow> (p, Inl Panic)
      | Some w \<Rightarrow> (case w_file w of
            None \<Rightarrow> (p, Inl Panic)
          | Some f \<Rightarrow> cache_page pgno (file_read_buf f (frame_data_offset w i_frame) (p_page_size p)) p))"

definition read_db_page :: "u32 \<Rightarrow> (pager, bytes) op" where
  "read_db_page pgno p =
     (let buf = file_read_at (p_db p) ((unat pgno - 1) * p_page_size p) (p_page_size p) in
      if length buf < p_page_size p
      then (p, Inl (corrupt (''short read for page '' @ dec (unat pgno) @ '': got '' @ dec (length buf)
                     @ '' of '' @ dec (p_page_size p) @ '' bytes'')))
      else cache_page pgno buf p)"

definition get_page :: "u32 \<Rightarrow> (pager, bytes) op" where
  "get_page pgno p =
     (if pgno = 0 \<or> pager_page_count p < pgno
      then (p, Inl (corrupt (''page '' @ dec (unat pgno) @ '' out of range (page count ''
                     @ dec (unat (pager_page_count p)) @ '')'')))
      else (case cached p pgno of
          Some page \<Rightarrow> (p, Inr page)
        | None \<Rightarrow> (let i_frame = wal_frame_of p pgno in
                   if i_frame \<noteq> 0 then read_wal_page pgno i_frame p else read_db_page pgno p)))"

definition journal_page :: "u32 \<Rightarrow> bytes \<Rightarrow> (pager, unit) op" where
  "journal_page pgno preimage p =
     (if p_wal p \<noteq> None then (p, Inr ())
      else (case p_txn p of
          None \<Rightarrow> (p, Inr ())
        | Some t \<Rightarrow>
            if t_db_orig_size t < pgno \<or> pgno \<in> t_journaled t then (p, Inr ())
            else (let t1 = t\<lparr>t_journaled := insert pgno (t_journaled t), t_nrec := t_nrec t + 1,
                             t_journal_off := t_journal_off t + record_len (p_page_size p)\<rparr>;
                      j = (case p_journal p of None \<Rightarrow> [] | Some j \<Rightarrow> j)
                  in (p\<lparr>p_txn := Some t1,
                        p_journal := Some (file_write_at j (t_journal_off t)
                                             (build_record pgno preimage (t_cksum_init t)))\<rparr>,
                      Inr ()))))"

definition read_page_for_write :: "u32 \<Rightarrow> (pager, bytes) op" where
  "read_page_for_write pgno =
     bind_op (get_page pgno) (\<lambda>page. then_op (journal_page pgno page) (ret_op page))"

definition write_page :: "u32 \<Rightarrow> bytes \<Rightarrow> (pager, unit) op" where
  "write_page pgno data p =
     (if length data \<noteq> p_page_size p
      then (p, Inl (corrupt (''write_page: page '' @ dec (unat pgno) @ '' is '' @ dec (length data)
                     @ '' bytes, expected '' @ dec (p_page_size p))))
      else (p\<lparr>p_dirty := put pgno data (p_dirty p)\<rparr>, Inr ()))"

section \<open>Pointer-map entries\<close>

definition ptrmap_get :: "u32 \<Rightarrow> (pager, ptrmap_type \<times> u32) op" where
  "ptrmap_get pgno p =
     (let usable = p_usable_size p; pm = ptrmap_pageno usable pgno in
      if pm = 0 then (p, Inl (corrupt (''ptrmap_get: page '' @ dec (unat pgno) @ '' has no ptrmap'')))
      else bind_op (get_page pm) (\<lambda>page.
        bind_op (lift_op (ptrmap_offset pm pgno)) (\<lambda>off.
          if usable < off + PTRMAP_ENTRY_SIZE
          then fail_op (corrupt (''ptrmap_get: offset '' @ dec off @ '' out of range''))
          else lift_op (and_then (ptrmap_from_code (page ! off))
                 (\<lambda>t. Inr (t, be_u32 (sub (off + 1) (off + 5) page)))))) p)"

text \<open>Whether the entry differs; an unreadable map page counts as different, a panic stays one.\<close>

definition ptrmap_needs_write :: "u32 \<Rightarrow> u32 \<Rightarrow> ptrmap_type \<Rightarrow> u32 \<Rightarrow> (pager, bool) op" where
  "ptrmap_needs_write pm pgno ty parent p =
     (case get_page pm p of
        (p1, Inl Panic) \<Rightarrow> (p1, Inl Panic)
      | (p1, Inl (Err _)) \<Rightarrow> (p1, Inr True)
      | (p1, Inr page) \<Rightarrow>
          (p1, and_then (ptrmap_offset pm pgno) (\<lambda>off.
             if p_usable_size p < off + PTRMAP_ENTRY_SIZE
             then Inl (corrupt (''ptrmap_put: offset '' @ dec off @ '' out of range''))
             else Inr (page ! off \<noteq> ptrmap_code ty \<or> be_u32 (sub (off + 1) (off + 5) page) \<noteq> parent))))"

definition ptrmap_put :: "u32 \<Rightarrow> ptrmap_type \<Rightarrow> u32 \<Rightarrow> (pager, unit) op" where
  "ptrmap_put pgno ty parent p =
     (let pm = ptrmap_pageno (p_usable_size p) pgno in
      if pm = 0 then (p, Inl (corrupt (''ptrmap_put: page '' @ dec (unat pgno) @ '' has no ptrmap'')))
      else bind_op (ptrmap_needs_write pm pgno ty parent) (\<lambda>needs.
        if \<not> needs then ret_op ()
        else bind_op (read_page_for_write pm) (\<lambda>page.
          bind_op (lift_op (ptrmap_offset pm pgno)) (\<lambda>off.
            if length page < off + 5 then fail_op Panic
            else write_page pm (put_at (off + 1) (be_enc 4 parent) (put_at off [ptrmap_code ty] page))))) p)"

definition init_ptrmap_page :: "u32 \<Rightarrow> (pager, unit) op" where
  "init_ptrmap_page pgno =
     bind_op (read_page_for_write pgno) (\<lambda>page p.
       write_page pgno (put_at 0 (replicate (p_usable_size p) 0) page) p)"

section \<open>Allocating and freeing\<close>

text \<open>
  The freelist path of \<open>allocate_page\<close>; an unreadable trunk page is read as zeroes. Indexing past
  the end of the trunk page and a count of zero panic.
\<close>

definition read_trunk :: "u32 \<Rightarrow> (pager, bytes) op" where
  "read_trunk pgno p =
     (case get_page pgno p of
        (p1, Inl (Err _)) \<Rightarrow> (p1, Inr (replicate (p_page_size p) 0))
      | r \<Rightarrow> r)"

definition allocate_from_freelist :: "u32 \<Rightarrow> (pager, u32) op" where
  "allocate_from_freelist first_trunk =
     bind_op (read_trunk first_trunk) (\<lambda>trunk p.
       let k = be_u32 (sub 4 8 trunk); new_count = freelist_count (p_header p) - 1;
           leaf_offset = 4 + unat k * 4; leaf_pgno = be_u32 (sub leaf_offset (leaf_offset + 4) trunk);
           finish = (\<lambda>pgno new_first p1.
             (let p2 = with_header_mut (\<lambda>h. if pgno = first_trunk
                         then h\<lparr>first_freelist_trunk := new_first, freelist_count := new_count\<rparr>
                         else h\<lparr>freelist_count := new_count\<rparr>) p1
              in (p2\<lparr>p_dirty := put pgno (replicate (p_page_size p2) 0) (p_dirty p2)\<rparr>, Inr pgno)))
       in if freelist_count (p_header p) = 0 then (p, Inl Panic)
          else if k = 0 then finish first_trunk (be_u32 (sub 0 4 trunk)) p
          else if length trunk < leaf_offset + 4 then (p, Inl Panic)
          else bind_op (write_page first_trunk (put_at 4 (be_enc 4 (k - 1)) trunk))
                 (\<lambda>_. finish leaf_pgno first_trunk) p)"

text \<open>\<open>page_count += 1\<close> panics on overflow, which also ends the loop.\<close>

lemma page_count_measure:
  fixes n :: u32
  assumes "n \<noteq> - 1"
  shows "2 ^ 32 - unat (n + 1) < 2 ^ 32 - unat n"
proof -
  have "1 + n \<noteq> 0" using assms by (metis add.commute add_eq_0_iff)
  then have "unat (n + 1) = Suc (unat n)" using unatSuc [of n] by (simp add: add.commute)
  moreover have "unat (n + 1) < 2 ^ 32" using unsigned_less [of "n + 1", where ?'a = nat] by simp
  ultimately show ?thesis by linarith
qed

function extend_pages :: "pager \<Rightarrow> pager \<times> u32 result" where
  "extend_pages p =
     (if p_page_count p = -1 then (p, Inl Panic)
      else (let pgno = p_page_count p + 1;
                p1 = p\<lparr>p_page_count := pgno,
                       p_dirty := put pgno (replicate (p_page_size p) 0) (p_dirty p)\<rparr> in
            if is_pending_byte_page (p_usable_size p) pgno then extend_pages p1
            else if largest_root_page (p_header p) \<noteq> 0 \<and> is_ptrmap_page (p_usable_size p) pgno
            then extend_pages p1
            else (p1, Inr pgno)))"
  by pat_completeness auto
termination
  by (relation "measure (\<lambda>p. 2 ^ 32 - unat (p_page_count p))") (auto simp: page_count_measure [simplified])

declare extend_pages.simps [simp del]

definition allocate_page :: "(pager, u32) op" where
  "allocate_page p =
     (if 0 < freelist_count (p_header p) \<and> first_freelist_trunk (p_header p) \<noteq> 0
      then allocate_from_freelist (first_freelist_trunk (p_header p)) p
      else extend_pages p)"

definition free_page :: "u32 \<Rightarrow> (pager, unit) op" where
  "free_page pgno =
     bind_op (get_page pgno) (\<lambda>preimage.
     then_op (journal_page pgno preimage) (\<lambda>p.
       let prev_first = first_freelist_trunk (p_header p);
           buf = put_at 0 (be_enc 4 prev_first) (replicate (length preimage) 0)
       in then_op (write_page pgno buf)
          (then_op (modify_op (with_header_mut (\<lambda>h. h\<lparr>first_freelist_trunk := pgno,
                      freelist_count := freelist_count h + 1\<rparr>)))
          (\<lambda>p. if auto_vacuum p then ptrmap_put pgno FreePage 0 p else (p, Inr ()))) p))"

definition truncate_image :: "u32 \<Rightarrow> pager \<Rightarrow> pager" where
  "truncate_image n_fin p =
     p\<lparr>p_cache := retain (\<lambda>q. q \<le> n_fin) (p_cache p),
       p_dirty := retain (\<lambda>q. q \<le> n_fin) (p_dirty p), p_page_count := n_fin\<rparr>"

section \<open>Transactions\<close>

definition in_write_txn :: "pager \<Rightarrow> bool" where
  "in_write_txn p \<longleftrightarrow> p_txn p \<noteq> None"

text \<open>\<open>cksum_init\<close> is the value \<open>next_cksum_init\<close> returns.\<close>

definition begin_write :: "u32 \<Rightarrow> bool \<Rightarrow> (pager, unit) op" where
  "begin_write cksum_init ex_flag p =
     (if in_write_txn p then (p, Inr ())
      else then_op (pager_lock Shared)
        (then_op (pager_lock (if ex_flag then Exclusive else Reserved)) (\<lambda>p1.
          let orig = pager_page_count p1 in
          if p_wal p1 \<noteq> None
          then (p1\<lparr>p_txn := Some \<lparr>t_cksum_init = 0, t_db_orig_size = orig, t_nrec = 0,
                                 t_journal_off = 0, t_journaled = {}\<rparr>\<rparr>, Inr ())
          else (p1\<lparr>p_journal := Some (build_journal_header 0 cksum_init orig (of_nat (p_page_size p1))),
                   p_txn := Some \<lparr>t_cksum_init = cksum_init, t_db_orig_size = orig, t_nrec = 0,
                                  t_journal_off = JOURNAL_HDR_SZ, t_journaled = {}\<rparr>\<rparr>, Inr ()))) p)"

definition end_txn :: "pager \<Rightarrow> pager" where
  "end_txn p = (pager_unlock Shared p)\<lparr>p_journal := None, p_txn := None, p_savepoints := []\<rparr>"

text \<open>Writing pages into the database file; page 0 makes the offset underflow, a panic.\<close>

fun write_pending :: "nat \<Rightarrow> pages \<Rightarrow> bytes \<Rightarrow> bytes \<times> unit result" where
  "write_pending psize [] db = (db, Inr ())"
| "write_pending psize ((pgno, data) # pages) db =
     (if pgno = 0 then (db, Inl Panic)
      else write_pending psize pages (file_write_at db ((unat pgno - 1) * psize) data))"

definition promote :: "pages \<Rightarrow> pages \<Rightarrow> pages" where
  "promote pending cache = fold (\<lambda>(pgno, data). put pgno data) pending cache"

definition stamp_header :: "u32 \<Rightarrow> db_header \<Rightarrow> db_header" where
  "stamp_header n_pages h =
     h\<lparr>file_change_counter := file_change_counter h + 1,
       version_valid_for := file_change_counter h + 1,
       sqlite_version_number := SQLITE_VERSION_NUMBER, db_size_pages := n_pages\<rparr>"

definition stamp_page1 :: "(pager, unit) op" where
  "stamp_page1 =
     bind_op (read_page_for_write 1) (\<lambda>page1 p.
       write_page 1 (put_at 0 (serialize_header (p_header p)) page1) p)"

text \<open>
  The WAL half of \<open>commit\<close>: the overlay is drained before the frames are written, in page order;
  \<open>salts\<close> are the values of \<open>next_wal_salt\<close>.
\<close>

definition commit_wal :: "u32 \<times> u32 \<Rightarrow> u32 \<Rightarrow> wal \<Rightarrow> (pager, unit) op" where
  "commit_wal salts n_pages w p =
     (let pending = sort_key fst (p_dirty p) in
      case write_frames salts pending n_pages w of
        (w1, Inl e) \<Rightarrow> (p\<lparr>p_dirty := [], p_wal := Some w1\<rparr>, Inl e)
      | (w1, Inr _) \<Rightarrow>
          (end_txn (p\<lparr>p_dirty := [], p_wal := Some w1, p_cache := promote pending (p_cache p)\<rparr>), Inr ()))"

text \<open>
  The rollback-journal half: patch the record count into the journal, write the pages in the order
  \<open>drain\<close> gives, cut the file, then end the transaction (which deletes the journal).
\<close>

definition patched_journal :: "write_txn \<Rightarrow> bytes option \<Rightarrow> bytes" where
  "patched_journal t j = file_write_at (case j of None \<Rightarrow> [] | Some j \<Rightarrow> j) 8 (be_enc 4 (t_nrec t))"

definition commit_journal :: "(pages \<Rightarrow> pages) \<Rightarrow> u32 \<Rightarrow> write_txn \<Rightarrow> (pager, unit) op" where
  "commit_journal drain n_pages t p =
     (let p1 = p\<lparr>p_journal := Some (patched_journal t (p_journal p)), p_dirty := []\<rparr>;
          pending = drain (p_dirty p) in
      case write_pending (p_page_size p) pending (p_db p) of
        (db1, Inl e) \<Rightarrow> (p1\<lparr>p_db := db1\<rparr>, Inl e)
      | (db1, Inr _) \<Rightarrow>
          (end_txn (p1\<lparr>p_db := file_truncate db1 (unat n_pages * p_page_size p),
                       p_cache := promote pending (p_cache p)\<rparr>), Inr ()))"

text \<open>\<open>autovac\<close> is \<open>btree::autovac::auto_vacuum_commit\<close>.\<close>

definition prepare_commit :: "u32 \<Rightarrow> (pager, unit) op" where
  "prepare_commit n_pages = then_op (modify_op (with_header_mut (stamp_header n_pages))) stamp_page1"

definition pager_commit ::
    "(pager, unit) op \<Rightarrow> (pages \<Rightarrow> pages) \<Rightarrow> u32 \<times> u32 \<Rightarrow> (pager, unit) op" where
  "pager_commit autovac drain salts p =
     (if \<not> in_write_txn p then (p, Inr ())
      else if p_dirty p = [] then (end_txn p, Inr ())
      else then_op
        (if auto_vacuum p \<and> \<not> incr_vacuum p \<and> 0 < freelist_count (p_header p) then autovac else ret_op ())
        (\<lambda>p1. let n_pages = pager_page_count p1 in
          then_op (prepare_commit n_pages) (\<lambda>p2.
            case (p_wal p2, p_txn p2) of
              (Some w, _) \<Rightarrow> commit_wal salts n_pages w p2
            | (None, None) \<Rightarrow> (p2, Inl Panic)
            | (None, Some t) \<Rightarrow> commit_journal drain n_pages t p2) p1) p)"

definition pager_rollback :: "pager \<Rightarrow> pager" where
  "pager_rollback p =
     (case p_txn p of
        None \<Rightarrow> p
      | Some t \<Rightarrow>
          end_txn (p\<lparr>p_dirty := [], p_cache := retain (\<lambda>q. q \<le> t_db_orig_size t) (p_cache p),
                     p_page_count := t_db_orig_size t\<rparr>))"

section \<open>Savepoints\<close>

definition open_savepoint :: "string \<Rightarrow> pager \<Rightarrow> pager" where
  "open_savepoint name p =
     p\<lparr>p_savepoints := p_savepoints p
         @ [\<lparr>sp_name = name, sp_n_orig = p_page_count p, sp_dirty = p_dirty p\<rparr>]\<rparr>"

fun position :: "('a \<Rightarrow> bool) \<Rightarrow> 'a list \<Rightarrow> nat option" where
  "position P [] = None"
| "position P (x # xs) = (if P x then Some 0 else map_option Suc (position P xs))"

definition savepoint_index :: "string \<Rightarrow> pager \<Rightarrow> nat option" where
  "savepoint_index name p = position (\<lambda>s. eq_ignore_case (sp_name s) name) (p_savepoints p)"

definition drop_savepoint_named :: "string \<Rightarrow> pager \<Rightarrow> pager \<times> nat" where
  "drop_savepoint_named name p =
     (case position (\<lambda>s. sp_name s = name) (p_savepoints p) of
        Some idx \<Rightarrow> (p\<lparr>p_savepoints := take idx (p_savepoints p)\<rparr>, length (p_savepoints p) - idx)
      | None \<Rightarrow> (p, 0))"

definition release_savepoint :: "string \<Rightarrow> (pager, bool) op" where
  "release_savepoint name p =
     (case savepoint_index name p of
        None \<Rightarrow> (p, Inl (error_msg (''no such savepoint: '' @ name)))
      | Some idx \<Rightarrow> (p\<lparr>p_savepoints := take idx (p_savepoints p)\<rparr>, Inr True))"

definition rollback_to_savepoint :: "string \<Rightarrow> (pager, unit) op" where
  "rollback_to_savepoint name p =
     (case savepoint_index name p of
        None \<Rightarrow> (p, Inl (error_msg (''no such savepoint: '' @ name)))
      | Some idx \<Rightarrow>
          (let sp = p_savepoints p ! idx in
           (p\<lparr>p_savepoints := take (idx + 1) (p_savepoints p), p_dirty := sp_dirty sp,
              p_cache := retain (\<lambda>q. q \<le> sp_n_orig sp) (p_cache p), p_page_count := sp_n_orig sp\<rparr>,
            Inr ())))"

definition clear_savepoints :: "pager \<Rightarrow> pager" where
  "clear_savepoints p = p\<lparr>p_savepoints := []\<rparr>"

definition savepoint_depth :: "pager \<Rightarrow> nat" where
  "savepoint_depth p = length (p_savepoints p)"

section \<open>Flushing, checkpoints and journal modes\<close>

definition flush_dirty :: "(pages \<Rightarrow> pages) \<Rightarrow> (pager, unit) op" where
  "flush_dirty drain p =
     (let pending = drain (p_dirty p) in
      if pending = [] then (p\<lparr>p_dirty := []\<rparr>, Inr ())
      else case write_pending (p_page_size p) pending (p_db p) of
        (db1, Inl e) \<Rightarrow> (p\<lparr>p_dirty := [], p_db := db1\<rparr>, Inl e)
      | (db1, Inr _) \<Rightarrow> (p\<lparr>p_dirty := [], p_db := db1, p_cache := promote pending (p_cache p)\<rparr>, Inr ()))"

definition pager_journal_mode :: "pager \<Rightarrow> journal_mode" where
  "pager_journal_mode p = (if p_wal p \<noteq> None then J_Wal else J_Delete)"

definition is_in_memory :: "pager \<Rightarrow> bool" where
  "is_in_memory p \<longleftrightarrow> p_path p = '':memory:'' \<or> p_path p = []"

definition pager_checkpoint :: "u32 \<times> u32 \<Rightarrow> checkpoint_mode \<Rightarrow> (pager, nat \<times> nat) op" where
  "pager_checkpoint salts mode p =
     (case p_wal p of
        None \<Rightarrow> (p, Inr (0, 0))
      | Some w \<Rightarrow>
          if w_mx_frame w = 0 then (p, Inr (0, 0))
          else (case wal_checkpoint salts mode (p_db p) w of
                  ((w1, db1), r) \<Rightarrow> (p\<lparr>p_wal := Some w1, p_db := db1\<rparr>, r)))"

definition persist_header_bytes ::
    "(pager, unit) op \<Rightarrow> (pages \<Rightarrow> pages) \<Rightarrow> u32 \<times> u32 \<Rightarrow> u32 \<Rightarrow> (pager, unit) op" where
  "persist_header_bytes autovac drain salts cksum_init =
     then_op (begin_write cksum_init True)
     (then_op stamp_page1
     (then_op (pager_commit autovac drain salts)
     (modify_op end_txn)))"

definition set_versions :: "u8 \<Rightarrow> pager \<Rightarrow> pager" where
  "set_versions v = with_header_mut (\<lambda>h. h\<lparr>write_version := v, read_version := v\<rparr>)"

definition set_journal_mode ::
    "(pager, unit) op \<Rightarrow> (pages \<Rightarrow> pages) \<Rightarrow> u32 \<times> u32 \<Rightarrow> u32 \<Rightarrow> journal_mode \<Rightarrow> (pager, journal_mode) op" where
  "set_journal_mode autovac drain salts cksum_init to p =
     (let current = pager_journal_mode p;
          to_eff = (if is_rollback to then J_Delete else to) in
      if to = J_Query then (p, Inr current)
      else if to_eff = current then (p, Inr to_eff)
      else if to_eff = J_Wal \<and> is_in_memory p then (p, Inr current)
      else if in_write_txn p
      then (p, Inl (error_msg (''cannot change '' @ (if to_eff = J_Wal then ''into'' else ''out of'')
                                 @ '' wal mode from within a transaction'')))
      else if current = J_Wal \<and> to_eff = J_Delete then
        bind_op (pager_checkpoint salts Ck_Truncate) (\<lambda>_.
        then_op (modify_op (\<lambda>p. set_versions 1 (p\<lparr>p_wal := None, p_walfile := None\<rparr>)))
        (then_op (persist_header_bytes autovac drain salts cksum_init)
        (ret_op J_Delete))) p
      else if current = J_Delete \<and> to_eff = J_Wal then
        then_op (modify_op (set_versions 2))
        (then_op (persist_header_bytes autovac drain salts cksum_init) (\<lambda>p1.
           case wal_open (p_walfile p1) (of_nat (p_page_size p1)) of
             Inl e \<Rightarrow> (p1, Inl e)
           | Inr w \<Rightarrow> (p1\<lparr>p_wal := Some w, p_walfile := None\<rparr>, Inr J_Wal))) p
      else (p, Inr to_eff))"

end
