(* ===== verification/Pager_View.thy ===== *)
theory Pager_View
  imports Pager
begin

text \<open>
  What a pager in rollback-journal mode shows its clients. The abstract view of a page is the
  version in the dirty overlay, else the page of the database file; \<open>pager_ok\<close> is the invariant
  under which \<open>get_page\<close> returns exactly the view. The overlay is an interface: the locale
  \<open>page_store\<close> states the laws of reading and writing pages that the b-tree relies on, and the
  pager's operations are an instance of it.
\<close>

definition base_page :: "pager \<Rightarrow> u32 \<Rightarrow> bytes" where
  "base_page p k = file_read_at (p_db p) ((unat k - 1) * p_page_size p) (p_page_size p)"

lemma base_page_update [simp]:
  "base_page (p\<lparr>p_txn := t\<rparr>) = base_page p" "base_page (p\<lparr>p_journal := j\<rparr>) = base_page p"
  "base_page (p\<lparr>p_cache := c\<rparr>) = base_page p" "base_page (p\<lparr>p_dirty := c\<rparr>) = base_page p"
  "base_page (p\<lparr>p_header := h\<rparr>) = base_page p" "base_page (p\<lparr>p_page_count := n\<rparr>) = base_page p"
  "base_page (p\<lparr>p_savepoints := s\<rparr>) = base_page p" "base_page (p\<lparr>p_locks := l\<rparr>) = base_page p"
  by (simp_all add: base_page_def fun_eq_iff)

definition view :: "pager \<Rightarrow> u32 \<Rightarrow> bytes" where
  "view p k = (case map_of (p_dirty p) k of Some d \<Rightarrow> d | None \<Rightarrow> base_page p k)"

definition overlay_ok :: "nat \<Rightarrow> nat \<Rightarrow> u32 \<Rightarrow> pages \<Rightarrow> bool" where
  "overlay_ok psize db_len n_pages m \<longleftrightarrow>
     distinct (map fst m)
     \<and> (\<forall>(k, d) \<in> set m. k \<noteq> 0 \<and> k \<le> n_pages \<and> length d = psize)
     \<and> (\<forall>k. k \<noteq> 0 \<longrightarrow> k \<le> n_pages \<longrightarrow> k \<in> fst ` set m \<or> unat k * psize \<le> db_len)"

definition cache_ok :: "pager \<Rightarrow> bool" where
  "cache_ok p \<longleftrightarrow> distinct (map fst (p_cache p))
     \<and> (\<forall>(k, d) \<in> set (p_cache p). k \<noteq> 0 \<and> k \<le> p_page_count p \<and> length d = p_page_size p \<and> d = base_page p k)"

definition pager_ok :: "pager \<Rightarrow> bool" where
  "pager_ok p \<longleftrightarrow> 0 < p_page_size p \<and> p_wal p = None \<and> cache_ok p
     \<and> overlay_ok (p_page_size p) (length (p_db p)) (p_page_count p) (p_dirty p)"

definition in_range :: "pager \<Rightarrow> u32 \<Rightarrow> bool" where
  "in_range p k \<longleftrightarrow> k \<noteq> 0 \<and> k \<le> p_page_count p"

lemma page_bytes: "k \<noteq> 0 \<Longrightarrow> (unat k - 1) * n + n = unat k * n" for k :: u32
  by (cases "unat k") (auto simp: unat_eq_0)

lemma length_base_page:
  "k \<noteq> 0 \<Longrightarrow> unat k * p_page_size p \<le> length (p_db p) \<Longrightarrow> length (base_page p k) = p_page_size p"
  using page_bytes [of k "p_page_size p"]
  by (simp add: base_page_def mem_file.length_rd file_size_def)

lemma overlay_map_of:
  "overlay_ok n l c m \<Longrightarrow> map_of m k = Some d \<Longrightarrow> k \<noteq> 0 \<and> k \<le> c \<and> length d = n"
  by (auto simp: overlay_ok_def dest!: map_of_SomeD)

lemma length_view:
  assumes "pager_ok p" and "in_range p k"
  shows "length (view p k) = p_page_size p"
proof (cases "map_of (p_dirty p) k")
  case None
  then have "k \<notin> fst ` set (p_dirty p)" by (simp add: map_of_eq_None_iff)
  then have "unat k * p_page_size p \<le> length (p_db p)"
    using assms by (auto simp: pager_ok_def overlay_ok_def in_range_def)
  then show ?thesis using None assms length_base_page by (simp add: view_def in_range_def)
next
  case (Some d)
  then show ?thesis using assms overlay_map_of [of _ _ _ "p_dirty p" k d] by (auto simp: view_def pager_ok_def)
qed

lemma page_count_rollback [simp]: "p_wal p = None \<Longrightarrow> pager_page_count p = p_page_count p"
  by (simp add: pager_page_count_def)

text \<open>A pager that only differs in its cache.\<close>

definition same_but_cache :: "pager \<Rightarrow> pager \<Rightarrow> bool" where
  "same_but_cache p q \<longleftrightarrow> q\<lparr>p_cache := p_cache p\<rparr> = p"

lemma same_but_cache_refl [simp]: "same_but_cache p p"
  by (simp add: same_but_cache_def)

lemma same_but_cache_fields:
  assumes "same_but_cache p q"
  shows "p_db q = p_db p" "p_journal q = p_journal p" "p_page_size q = p_page_size p"
    "p_page_count q = p_page_count p" "p_dirty q = p_dirty p" "p_txn q = p_txn p"
    "p_savepoints q = p_savepoints p" "p_wal q = p_wal p" "p_header q = p_header p"
    "p_usable_size q = p_usable_size p" "p_locks q = p_locks p" "p_handle q = p_handle p"
    "p_walfile q = p_walfile p" "p_path q = p_path p"
  using assms unfolding same_but_cache_def by (cases p; cases q; auto)+

lemma same_but_cache_view: "same_but_cache p q \<Longrightarrow> view q = view p"
  by (rule ext) (simp add: view_def base_page_def same_but_cache_fields cong: option.case_cong)

lemma get_page_view:
  assumes "pager_ok p" and "in_range p k"
  shows "\<exists>q. get_page k p = (q, Inr (view p k)) \<and> pager_ok q \<and> same_but_cache p q"
proof (cases "cached p k")
  case (Some d)
  have "d = view p k"
    using Some assms(1)
    by (auto simp: cached_def view_def pager_ok_def cache_ok_def split: option.splits dest!: map_of_SomeD)
  then show ?thesis using assms Some by (auto simp: get_page_def pager_ok_def in_range_def)
next
  case None
  then have nd: "map_of (p_dirty p) k = None" by (simp add: cached_def split: option.splits)
  then have v: "view p k = base_page p k" by (simp add: view_def)
  let ?q = "p\<lparr>p_cache := put k (base_page p k) (p_cache p)\<rparr>"
  have len: "length (base_page p k) = p_page_size p" using length_view [OF assms] v by simp
  have "get_page k p = (?q, Inr (view p k))"
    using assms None len unfolding v
    by (simp add: not_less Let_def get_page_def in_range_def pager_ok_def wal_frame_of_def read_db_page_def
        cache_page_def base_page_def)
  moreover have "pager_ok ?q"
  proof -
    have "distinct (map fst (p_cache p))" using assms(1) by (simp add: pager_ok_def cache_ok_def)
    then have "cache_ok ?q"
      using assms len by (auto simp: cache_ok_def pager_ok_def in_range_def set_put)
    then show ?thesis using assms(1) by (simp add: pager_ok_def)
  qed
  ultimately show ?thesis by (auto simp: same_but_cache_def)
qed

lemma get_page_out_of_range:
  "p_wal p = None \<Longrightarrow> \<not> in_range p k \<Longrightarrow> \<exists>m. get_page k p = (p, Inl (corrupt m))"
  by (auto simp: get_page_def in_range_def not_le)

lemma overlay_put:
  assumes "overlay_ok n l c m" and "k \<noteq> 0" and "k \<le> c" and "length d = n"
  shows "overlay_ok n l c (put k d m)"
proof -
  have "distinct (map fst m)" using assms(1) by (simp add: overlay_ok_def)
  then show ?thesis using assms unfolding overlay_ok_def by (auto simp: set_put)
qed

lemma write_page_ok:
  assumes "pager_ok p" and "in_range p k" and "length d = p_page_size p"
  shows "write_page k d p = (p\<lparr>p_dirty := put k d (p_dirty p)\<rparr>, Inr ())"
    and "pager_ok (p\<lparr>p_dirty := put k d (p_dirty p)\<rparr>)"
    and "view (p\<lparr>p_dirty := put k d (p_dirty p)\<rparr>) = (view p)(k := d)"
proof -
  let ?q = "p\<lparr>p_dirty := put k d (p_dirty p)\<rparr>"
  show "write_page k d p = (?q, Inr ())" using assms(3) by (simp add: write_page_def)
  have "overlay_ok (p_page_size p) (length (p_db p)) (p_page_count p) (put k d (p_dirty p))"
    using assms by (intro overlay_put) (auto simp: pager_ok_def in_range_def)
  then show "pager_ok ?q"
    using assms(1) by (auto simp: pager_ok_def cache_ok_def)
  show "view ?q = (view p)(k := d)"
    by (rule ext) (simp add: view_def base_page_def cong: option.case_cong)
qed

section \<open>The page store as an interface\<close>

text \<open>
  \<open>ok\<close> is the provider's invariant, \<open>valid\<close> the pages it has, \<open>vw\<close> what it holds. \<open>update\<close> is the
  copy-modify-write step of the b-tree code.
\<close>

locale page_store =
  fixes ok :: "'s \<Rightarrow> bool" and valid :: "'s \<Rightarrow> u32 \<Rightarrow> bool" and vw :: "'s \<Rightarrow> u32 \<Rightarrow> bytes"
    and psize :: "'s \<Rightarrow> nat" and rd :: "u32 \<Rightarrow> ('s, bytes) op" and wr :: "u32 \<Rightarrow> bytes \<Rightarrow> ('s, unit) op"
  assumes rd_ok: "ok s \<Longrightarrow> valid s k \<Longrightarrow>
      \<exists>s'. rd k s = (s', Inr (vw s k)) \<and> ok s' \<and> vw s' = vw s \<and> valid s' = valid s \<and> psize s' = psize s"
    and rd_invalid: "ok s \<Longrightarrow> \<not> valid s k \<Longrightarrow> \<exists>m. rd k s = (s, Inl (corrupt m))"
    and length_vw: "ok s \<Longrightarrow> valid s k \<Longrightarrow> length (vw s k) = psize s"
    and wr_ok: "ok s \<Longrightarrow> valid s k \<Longrightarrow> length d = psize s \<Longrightarrow>
      \<exists>s'. wr k d s = (s', Inr ()) \<and> ok s' \<and> vw s' = (vw s)(k := d) \<and> valid s' = valid s \<and> psize s' = psize s"
begin

definition update_page :: "u32 \<Rightarrow> (bytes \<Rightarrow> bytes) \<Rightarrow> ('s, unit) op" where
  "update_page k f = bind_op (rd k) (\<lambda>page. wr k (f page))"

lemma read_after_write:
  assumes "ok s" and "valid s k" and "length d = psize s" and "valid s j"
  shows "snd (bind_op (wr k d) (\<lambda>_. rd j) s) = Inr (if j = k then d else vw s j)"
proof -
  obtain s' where s': "wr k d s = (s', Inr ())" "ok s'" "vw s' = (vw s)(k := d)" "valid s' = valid s"
    using wr_ok [OF assms(1-3)] by blast
  obtain s'' where "rd j s' = (s'', Inr (vw s' j))" using rd_ok [OF s'(2)] s'(4) assms(4) by auto
  then show ?thesis using s' by simp
qed

lemma update_page_ok:
  assumes "ok s" and "valid s k" and "\<And>page. length page = psize s \<Longrightarrow> length (f page) = psize s"
  shows "\<exists>s'. update_page k f s = (s', Inr ()) \<and> ok s' \<and> vw s' = (vw s)(k := f (vw s k))
    \<and> valid s' = valid s \<and> psize s' = psize s"
proof -
  obtain s1 where s1: "rd k s = (s1, Inr (vw s k))" "ok s1" "vw s1 = vw s" "valid s1 = valid s"
      "psize s1 = psize s"
    using rd_ok [OF assms(1,2)] by blast
  have "length (f (vw s k)) = psize s1" using length_vw [OF assms(1,2)] assms(3) s1(5) by simp
  from wr_ok [OF s1(2) _ this, of k] show ?thesis
    using s1 assms(2) by (auto simp: update_page_def)
qed

text \<open>A list of writes to valid pages leaves the last version of each.\<close>

lemma writes_ok:
  assumes "ok s" and "\<forall>(k, d) \<in> set ws. valid s k \<and> length d = psize s"
  shows "\<exists>s'. each_op (\<lambda>(k, d). wr k d) ws s = (s', Inr ()) \<and> ok s' \<and> valid s' = valid s \<and> psize s' = psize s
    \<and> vw s' = (\<lambda>j. case map_of (rev ws) j of Some d \<Rightarrow> d | None \<Rightarrow> vw s j)"
  using assms
proof (induction ws arbitrary: s)
  case (Cons kd ws)
  obtain k d where kd: "kd = (k, d)" by force
  obtain s1 where s1: "wr k d s = (s1, Inr ())" "ok s1" "vw s1 = (vw s)(k := d)" "valid s1 = valid s"
      "psize s1 = psize s"
    using wr_ok [of s k d] Cons.prems kd by auto
  obtain s2 where s2: "each_op (\<lambda>(k, d). wr k d) ws s1 = (s2, Inr ())" "ok s2" "valid s2 = valid s1"
      "psize s2 = psize s1" "vw s2 = (\<lambda>j. case map_of (rev ws) j of Some d \<Rightarrow> d | None \<Rightarrow> vw s1 j)"
    using Cons.IH [OF s1(2)] Cons.prems(2) s1(4,5) by auto
  have "vw s2 = (\<lambda>j. case map_of (rev (kd # ws)) j of Some d \<Rightarrow> d | None \<Rightarrow> vw s j)"
    using s2(5) s1(3) kd by (auto simp: map_add_def fun_eq_iff split: option.splits)
  then show ?case using s1 s2 kd by auto
qed simp

end

interpretation pager_store: page_store pager_ok in_range view p_page_size get_page write_page
proof
  fix s k
  assume "pager_ok s" "in_range s k"
  then show "\<exists>s'. get_page k s = (s', Inr (view s k)) \<and> pager_ok s' \<and> view s' = view s
      \<and> in_range s' = in_range s \<and> p_page_size s' = p_page_size s"
    using get_page_view [of s k] same_but_cache_view same_but_cache_fields
    by (fastforce simp: in_range_def fun_eq_iff)
next
  fix s k
  assume "pager_ok s" "\<not> in_range s k"
  then show "\<exists>m. get_page k s = (s, Inl (corrupt m))"
    by (intro get_page_out_of_range) (auto simp: pager_ok_def)
next
  fix s k and d :: bytes
  assume "pager_ok s" "in_range s k" "length d = p_page_size s"
  from write_page_ok [OF this]
  show "\<exists>s'. write_page k d s = (s', Inr ()) \<and> pager_ok s' \<and> view s' = (view s)(k := d)
      \<and> in_range s' = in_range s \<and> p_page_size s' = p_page_size s"
    by (auto simp: in_range_def fun_eq_iff)
qed (rule length_view)

text \<open>
  C6. The pager is a page store: in rollback-journal mode a page read after any sequence of page
  writes is the last version written to it, or what it was before when none was; reading goes
  through overlay, cache and file and never changes what another read returns.
\<close>

theorem pager_read_your_writes:
  assumes "pager_ok p" and "\<forall>(k, d) \<in> set ws. in_range p k \<and> length d = p_page_size p" and "in_range p j"
  shows "snd (bind_op (each_op (\<lambda>(k, d). write_page k d) ws) (\<lambda>_. get_page j) p) =
    Inr (case map_of (rev ws) j of Some d \<Rightarrow> d | None \<Rightarrow> view p j)"
proof -
  obtain q where q: "each_op (\<lambda>(k, d). write_page k d) ws p = (q, Inr ())" "pager_ok q" "in_range q = in_range p"
      "view q = (\<lambda>j. case map_of (rev ws) j of Some d \<Rightarrow> d | None \<Rightarrow> view p j)"
    using pager_store.writes_ok [OF assms(1,2)] by blast
  obtain q' where "get_page j q = (q', Inr (view q j))"
    using pager_store.rd_ok [OF q(2), of j] q(3) assms(3) by auto
  then show ?thesis using q by simp
qed

text \<open>A two-page database of eight-byte pages, for the witnesses.\<close>

definition sample_pager :: pager where
  "sample_pager = pager_of ''db'' 0 None (replicate 16 7, None, new_sys 2) (fresh_header 8) 2 [] None"

lemma sample_pager_ok: "pager_ok sample_pager" "in_range sample_pager k \<longleftrightarrow> k \<noteq> 0 \<and> k \<le> 2"
  "p_page_size sample_pager = 8"
proof -
  have le: "unat k * 8 \<le> 16" if "k \<le> 2" for k :: u32 using that by (simp add: word_le_nat_alt)
  show "pager_ok sample_pager"
    using le by (auto simp: pager_ok_def cache_ok_def overlay_ok_def sample_pager_def pager_of_def fresh_header_def)
qed (simp_all add: in_range_def sample_pager_def pager_of_def fresh_header_def)

theorem pager_read_your_writes_witness:
  "snd (bind_op (each_op (\<lambda>(k, d). write_page k d) [(2, replicate 8 1), (2, replicate 8 5)])
         (\<lambda>_. get_page 2) sample_pager) = Inr (replicate 8 5)"
  using pager_read_your_writes [OF sample_pager_ok(1), of "[(2, replicate 8 1), (2, replicate 8 5)]" 2]
  by (simp add: sample_pager_ok)

end
