(* ===== verification/Pager_Crash.thy ===== *)
theory Pager_Crash
  imports Pager_View
begin

text \<open>
  Crash safety of rollback-journal transactions. A journal is the image of the pages' pre-images;
  recovery copies them back and cuts the file. \<open>txn_ok\<close> is the invariant of an open transaction:
  the database file is untouched and every overlaid page of the original database has its pre-image
  in the journal. From it: whatever point of a commit a crash hits, recovery gives the old database,
  or the new one once the journal is gone.
\<close>

section \<open>Playing a journal back\<close>

definition journal_image :: "u32 \<Rightarrow> u32 \<Rightarrow> u32 \<Rightarrow> u32 \<Rightarrow> pages \<Rightarrow> bytes" where
  "journal_image nrec ck orig psize recs =
     build_journal_header nrec ck orig psize @ concat (map (\<lambda>(k, d). build_record k d ck) recs)"

definition good_records :: "nat \<Rightarrow> u32 \<Rightarrow> pages \<Rightarrow> bool" where
  "good_records psize orig recs \<longleftrightarrow> (\<forall>(k, d) \<in> set recs. k \<noteq> 0 \<and> k \<le> orig \<and> length d = psize)"

definition slot_of :: "u32 \<times> bytes \<Rightarrow> nat \<times> bytes" where
  "slot_of kd = (unat (fst kd) - 1, snd kd)"

lemma replay_loop_records:
  assumes "length pre = off" and "good_records psize orig recs"
    and "jh_page_size hdr = of_nat psize" and "psize < 2 ^ 32"
    and "jh_cksum_init hdr = ck" and "jh_db_orig_size hdr = orig"
  shows "replay_loop (length recs) off hdr (pre @ concat (map (\<lambda>(k, d). build_record k d ck) recs) @ rest) db =
    fold (mem_file.put_page psize) (map slot_of recs) db"
  using assms(1,2)
proof (induction recs arbitrary: pre off db)
  case (Cons kd recs)
  obtain k d where kd: "kd = (k, d)" by force
  have d: "k \<noteq> 0" "k \<le> orig" "length d = psize" using Cons.prems(2) kd by (auto simp: good_records_def)
  have ps: "unat (jh_page_size hdr) = psize" using assms(3,4) by (simp add: unat_of_nat)
  let ?rest = "concat (map (\<lambda>(k, d). build_record k d ck) recs) @ rest"
  let ?j = "pre @ build_record k d ck @ ?rest"
  have rc: "file_read_at ?j off (record_len psize) = build_record k d ck"
    using Cons.prems(1) d(3) by (simp add: file_read_at_sub sub_def)
  have IH: "replay_loop (length recs) (off + record_len psize) hdr ((pre @ build_record k d ck) @ ?rest)
      (mem_file.put_page psize (slot_of kd) db) =
      fold (mem_file.put_page psize) (map slot_of recs) (mem_file.put_page psize (slot_of kd) db)"
    using Cons.prems d(3) by (intro Cons.IH) (auto simp: good_records_def)
  have wr: "mem_file.put_page psize (slot_of kd) db = file_write_at db ((unat k - 1) * psize) d"
    by (simp add: mem_file.put_page_def slot_of_def kd)
  have "replay_loop (Suc (length recs)) off hdr ?j db =
      replay_loop (length recs) (off + record_len psize) hdr ?j (file_write_at db ((unat k - 1) * psize) d)"
    using rc d assms(5,6)
    by (simp add: ps Let_def build_record_parts [OF d(3)] codec_simps be_u32_def)
  then show ?case using IH wr kd by simp
qed simp

lemma replay_loop_nothing: "replay_loop 0 off hdr j db = db"
  by simp

lemma new_sys_locks:
  assumes "h < n"
  shows "\<not> check_reserved_lock (new_sys n)"
    and "\<exists>l. mem_lock h Exclusive (new_sys n) = (l, Inr ())"
  using assms
  by (simp_all add: check_reserved_lock_def new_sys_def lock_state_default_def mem_lock_def apply_lock_def
      level_order Let_def)

lemma recover_image:
  assumes "j = journal_image nrec ck orig (of_nat psize) recs" and "good_records psize orig recs"
    and "0 < psize" "psize < 2 ^ 32" and "h < n" and "length recs < 2 ^ 32"
    and "nrec = of_nat (length recs) \<or> nrec = 0"
  shows "\<exists>l. recover_hot_journal h (db, Some j, new_sys n) =
    ((file_truncate (if nrec = 0 then db else fold (mem_file.put_page psize) (map slot_of recs) db)
        (unat orig * psize), None, l), Inr ())"
proof -
  define hdr where "hdr = \<lparr>jh_nrec = nrec, jh_cksum_init = ck, jh_db_orig_size = orig,
      jh_sector_size = SECTOR_SIZE, jh_page_size = of_nat psize\<rparr>"
  have ps1: "unat (of_nat psize :: u32) = psize" using assms(4) by (simp add: unat_of_nat)
  then have "(of_nat psize :: u32) \<noteq> 0" using assms(3) by (metis unsigned_0 less_irrefl)
  note ps = ps1 this
  have p: "parse_journal_header (file_read_at j 0 JOURNAL_HDR_SZ) = Some hdr"
    by (simp add: assms(1) journal_image_def file_read_at_sub sub_def codec_simps hdr_def)
  obtain l where l: "mem_lock h Exclusive (new_sys n) = (l, Inr ())" using new_sys_locks(2) [OF assms(5)] by blast
  have replay: "replay_loop (unat nrec) JOURNAL_HDR_SZ hdr j db =
      (if nrec = 0 then db else fold (mem_file.put_page psize) (map slot_of recs) db)"
  proof (cases "nrec = 0")
    case False
    then have "unat nrec = length recs" using assms(6,7) by (simp add: unat_of_nat)
    then show ?thesis
      using False replay_loop_records [of "build_journal_header nrec ck orig (of_nat psize)" JOURNAL_HDR_SZ
          psize orig recs hdr ck "[]" db] assms(1,2,4)
      by (simp add: journal_image_def hdr_def)
  qed simp
  show ?thesis
    using p l new_sys_locks(1) [OF assms(5)] ps replay
    by (simp add: recover_hot_journal_def hdr_def Let_def)
qed

section \<open>The invariant of a transaction\<close>

definition covered :: "u32 \<Rightarrow> u32 set \<Rightarrow> pages \<Rightarrow> bool" where
  "covered orig J m \<longleftrightarrow> (\<forall>k \<in> fst ` set m. k \<le> orig \<longrightarrow> k \<in> J)"

definition savepoint_ok :: "pager \<Rightarrow> u32 \<Rightarrow> u32 set \<Rightarrow> pager_savepoint \<Rightarrow> bool" where
  "savepoint_ok p orig J sp \<longleftrightarrow> orig \<le> sp_n_orig sp
     \<and> overlay_ok (p_page_size p) (length (p_db p)) (sp_n_orig sp) (sp_dirty sp)
     \<and> covered orig J (sp_dirty sp)"

text \<open>\<open>ks\<close> lists the journaled pages in the order of their records.\<close>

definition journal_ok :: "pager \<Rightarrow> write_txn \<Rightarrow> u32 list \<Rightarrow> bool" where
  "journal_ok p t ks \<longleftrightarrow> distinct ks \<and> t_journaled t = set ks
     \<and> (\<forall>k \<in> set ks. k \<noteq> 0 \<and> k \<le> t_db_orig_size t)
     \<and> t_nrec t = of_nat (length ks)
     \<and> t_journal_off t = JOURNAL_HDR_SZ + length ks * record_len (p_page_size p)
     \<and> p_journal p = Some (journal_image 0 (t_cksum_init t) (t_db_orig_size t) (of_nat (p_page_size p))
                              (map (\<lambda>k. (k, base_page p k)) ks))"

definition txn_ok :: "pager \<Rightarrow> bool" where
  "txn_ok p \<longleftrightarrow> pager_ok p \<and> p_page_size p < 2 ^ 32
     \<and> (case p_txn p of None \<Rightarrow> False | Some t \<Rightarrow>
          t_db_orig_size t \<le> p_page_count p
          \<and> length (p_db p) = unat (t_db_orig_size t) * p_page_size p
          \<and> covered (t_db_orig_size t) (t_journaled t) (p_dirty p)
          \<and> (\<forall>sp \<in> set (p_savepoints p). savepoint_ok p (t_db_orig_size t) (t_journaled t) sp)
          \<and> (\<exists>ks. journal_ok p t ks))"

lemma txn_okE:
  assumes "txn_ok p"
  obtains t ks where "p_txn p = Some t" "pager_ok p" "0 < p_page_size p" "p_page_size p < 2 ^ 32"
    "p_wal p = None" "t_db_orig_size t \<le> p_page_count p"
    "length (p_db p) = unat (t_db_orig_size t) * p_page_size p"
    "covered (t_db_orig_size t) (t_journaled t) (p_dirty p)"
    "\<forall>sp \<in> set (p_savepoints p). savepoint_ok p (t_db_orig_size t) (t_journaled t) sp"
    "journal_ok p t ks"
  using assms by (auto simp: txn_ok_def pager_ok_def split: option.splits)

lemma distinct_pages_bound:
  assumes "distinct ks" and "\<forall>k \<in> set ks. k \<noteq> 0 \<and> k \<le> (n :: u32)"
  shows "length ks \<le> unat n"
proof -
  have "inj_on unat (set ks)" by (simp add: inj_on_def word_unat_eq_iff)
  then have "length ks = card (unat ` set ks)" using assms(1) by (simp add: card_image distinct_card)
  also have "unat ` set ks \<subseteq> {1..unat n}" using assms(2) by (auto simp: word_le_nat_alt unat_gt_0 Suc_le_eq)
  then have "card (unat ` set ks) \<le> card {1..unat n}" by (intro card_mono) auto
  finally show ?thesis by simp
qed

lemma orig_page_length:
  assumes "length (p_db p) = unat n * p_page_size p" and "k \<noteq> 0" and "k \<le> n"
  shows "length (base_page p k) = p_page_size p"
  using assms by (intro length_base_page) (simp_all add: word_le_nat_alt)

lemma journal_records_good:
  assumes "journal_ok p t ks" and "length (p_db p) = unat (t_db_orig_size t) * p_page_size p"
  shows "good_records (p_page_size p) (t_db_orig_size t) (map (\<lambda>k. (k, base_page p k)) ks)"
    and "length ks < 2 ^ 32"
proof -
  show "good_records (p_page_size p) (t_db_orig_size t) (map (\<lambda>k. (k, base_page p k)) ks)"
    using assms orig_page_length [OF assms(2)] by (auto simp: good_records_def journal_ok_def)
  have "length ks \<le> unat (t_db_orig_size t)"
    using assms(1) by (intro distinct_pages_bound) (auto simp: journal_ok_def)
  also have "\<dots> < 2 ^ 32" using unsigned_less [of "t_db_orig_size t", where ?'a = nat] by simp
  finally show "length ks < 2 ^ 32" .
qed

text \<open>Replaying the pre-images over a file whose other original pages are intact gives the old file.\<close>

lemma replay_gives_original:
  assumes "0 < p_page_size p" and "journal_ok p t ks"
    and "length (p_db p) = unat (t_db_orig_size t) * p_page_size p"
    and "\<And>k. k \<noteq> 0 \<Longrightarrow> k \<le> t_db_orig_size t \<Longrightarrow> k \<notin> set ks \<Longrightarrow>
        file_read_at db ((unat k - 1) * p_page_size p) (p_page_size p) = base_page p k"
  shows "file_truncate (fold (mem_file.put_page (p_page_size p)) (map (slot_of \<circ> (\<lambda>k. (k, base_page p k))) ks) db)
      (unat (t_db_orig_size t) * p_page_size p) = p_db p"
proof (rule mem_file.replay_restores)
  let ?recs = "map (slot_of \<circ> (\<lambda>k. (k, base_page p k))) ks"
  have ks: "\<forall>k \<in> set ks. k \<noteq> 0 \<and> k \<le> t_db_orig_size t" using assms(2) by (simp add: journal_ok_def)
  then show "\<forall>(k, d) \<in> set ?recs. k < unat (t_db_orig_size t) \<and> d = mem_file.page_of (p_page_size p) (p_db p) k"
    by (auto simp: slot_of_def base_page_def mem_file.page_of_def word_le_nat_alt unat_gt_0 Suc_le_eq
        intro: less_le_trans diff_less)
  fix k
  assume k: "k < unat (t_db_orig_size t)" "k \<notin> fst ` set ?recs"
  define w where "w = (of_nat (Suc k) :: u32)"
  have "Suc k < 2 ^ 32" using k(1) unsigned_less [of "t_db_orig_size t", where ?'a = nat] by simp
  then have u: "unat w = Suc k" by (simp only: w_def unat_of_nat len_num1 len_bit0 len_bit1) simp
  have "w \<notin> set ks" using k(2) u by (force simp: slot_of_def)
  moreover have "w \<noteq> 0" "w \<le> t_db_orig_size t" using u k(1) by (auto simp: word_le_nat_alt)
  ultimately show "mem_file.page_of (p_page_size p) db k = mem_file.page_of (p_page_size p) (p_db p) k"
    using assms(4) [of w] u by (simp add: mem_file.page_of_def base_page_def)
qed (use assms in \<open>simp_all add: file_size_def\<close>)

section \<open>Steps of a transaction keep the invariant\<close>

lemma txn_ok_cache:
  assumes "txn_ok p" and "same_but_cache p q" and "pager_ok q"
  shows "txn_ok q"
proof -
  note f = same_but_cache_fields [OF assms(2)]
  have b: "base_page q = base_page p" by (rule ext) (simp add: base_page_def f)
  then show ?thesis
    using assms(1,3) unfolding txn_ok_def
    by (auto simp: f b journal_ok_def savepoint_ok_def split: option.splits)
qed

lemma get_page_txn:
  assumes "txn_ok p" and "in_range p k"
  shows "\<exists>q. get_page k p = (q, Inr (view p k)) \<and> txn_ok q \<and> same_but_cache p q"
proof -
  have "pager_ok p" using assms(1) by (simp add: txn_ok_def)
  then show ?thesis using get_page_view [OF _ assms(2)] txn_ok_cache [OF assms(1)] by blast
qed

lemma journal_image_append:
  "journal_image n ck orig ps (recs @ [(k, d)]) = journal_image n ck orig ps recs @ build_record k d ck"
  by (simp add: journal_image_def)

lemma length_journal_image:
  "\<forall>(k, d) \<in> set recs. length d = n \<Longrightarrow>
   length (journal_image c ck orig ps recs) = JOURNAL_HDR_SZ + length recs * record_len n"
  by (induction recs) (auto simp: journal_image_def)

text \<open>What journaling a page changes: nothing but the journal and the transaction record.\<close>

definition same_but_journal :: "pager \<Rightarrow> pager \<Rightarrow> bool" where
  "same_but_journal p q \<longleftrightarrow> q\<lparr>p_journal := p_journal p, p_txn := p_txn p\<rparr> = p"

lemma same_but_journal_fields:
  assumes "same_but_journal p q"
  shows "p_db q = p_db p" "p_page_size q = p_page_size p" "p_page_count q = p_page_count p"
    "p_dirty q = p_dirty p" "p_cache q = p_cache p" "p_savepoints q = p_savepoints p"
    "p_wal q = p_wal p" "p_header q = p_header p" "p_usable_size q = p_usable_size p"
    "p_locks q = p_locks p" "p_handle q = p_handle p"
  using assms unfolding same_but_journal_def by (cases p; cases q; auto)+

lemma same_but_journal_view: "same_but_journal p q \<Longrightarrow> view q = view p" "same_but_journal p q \<Longrightarrow> base_page q = base_page p"
  by (rule ext, simp add: view_def base_page_def same_but_journal_fields cong: option.case_cong)+

lemma pager_ok_journal: "same_but_journal p q \<Longrightarrow> pager_ok q = pager_ok p"
  using same_but_journal_view(2) [of p q]
  by (simp add: pager_ok_def cache_ok_def same_but_journal_fields)

definition journaled :: "pager \<Rightarrow> u32 \<Rightarrow> bool" where
  "journaled p k \<longleftrightarrow> (case p_txn p of None \<Rightarrow> False | Some t \<Rightarrow> t_db_orig_size t < k \<or> k \<in> t_journaled t)"

lemma journal_page_txn:
  assumes "txn_ok p" and "in_range p k"
  shows "\<exists>q. journal_page k (view p k) p = (q, Inr ()) \<and> txn_ok q \<and> same_but_journal p q
    \<and> journaled q k \<and> (\<forall>j. journaled p j \<longrightarrow> journaled q j)"
  using assms(1)
proof (rule txn_okE)
  fix t ks
  assume t: "p_txn p = Some t" and pok: "pager_ok p" "p_wal p = None" "p_page_size p < 2 ^ 32"
    and sz: "t_db_orig_size t \<le> p_page_count p" "length (p_db p) = unat (t_db_orig_size t) * p_page_size p"
    and cov: "covered (t_db_orig_size t) (t_journaled t) (p_dirty p)"
    and sps: "\<forall>sp \<in> set (p_savepoints p). savepoint_ok p (t_db_orig_size t) (t_journaled t) sp"
    and j: "journal_ok p t ks"
  show ?thesis
  proof (cases "t_db_orig_size t < k \<or> k \<in> t_journaled t")
    case True
    then have "journal_page k (view p k) p = (p, Inr ())" "journaled p k"
      using t pok(2) by (simp_all add: journal_page_def journaled_def)
    then show ?thesis using assms(1) by (auto simp: same_but_journal_def)
  next
    case False
    then have k: "k \<le> t_db_orig_size t" "k \<notin> set ks" "k \<noteq> 0"
      using j assms(2) by (auto simp: journal_ok_def in_range_def)
    have "k \<notin> fst ` set (p_dirty p)" using cov False k(1) by (auto simp: covered_def)
    then have v: "view p k = base_page p k" by (simp add: view_def map_of_eq_None_iff [THEN iffD2])
    let ?jf = "journal_image 0 (t_cksum_init t) (t_db_orig_size t) (of_nat (p_page_size p))"
    let ?recs = "\<lambda>ks. map (\<lambda>k. (k, base_page p k)) ks"
    let ?t = "t\<lparr>t_journaled := insert k (t_journaled t), t_nrec := t_nrec t + 1,
                 t_journal_off := t_journal_off t + record_len (p_page_size p)\<rparr>"
    let ?q = "p\<lparr>p_txn := Some ?t, p_journal := Some (?jf (?recs (ks @ [k])))\<rparr>"
    have "\<forall>(k, d) \<in> set (?recs ks). length d = p_page_size p"
      using journal_records_good(1) [OF j sz(2)] by (auto simp: good_records_def)
    then have len: "length (?jf (?recs ks)) = t_journal_off t"
      using j length_journal_image [of "?recs ks" "p_page_size p"] by (simp add: journal_ok_def)
    have "file_write_at (?jf (?recs ks)) (t_journal_off t) (build_record k (base_page p k) (t_cksum_init t)) =
        ?jf (?recs (ks @ [k]))"
      using file_write_at_append [of "?jf (?recs ks)" "[]"] len by (simp add: journal_image_append)
    then have step: "journal_page k (view p k) p = (?q, Inr ())"
      using t pok(2) False j v by (simp add: journal_page_def journal_ok_def)
    have same: "same_but_journal p ?q" by (simp add: same_but_journal_def)
    have "journal_ok ?q ?t (ks @ [k])"
      using j k by (auto simp: journal_ok_def)
    moreover have "covered (t_db_orig_size t) (insert k (t_journaled t)) (p_dirty p)"
      using cov by (auto simp: covered_def)
    moreover have "\<forall>sp \<in> set (p_savepoints p). savepoint_ok ?q (t_db_orig_size t) (insert k (t_journaled t)) sp"
      using sps by (auto simp: savepoint_ok_def covered_def)
    ultimately have "txn_ok ?q"
      using pok sz pager_ok_journal [OF same] unfolding txn_ok_def by auto
    then show ?thesis using step same t by (auto simp: journaled_def)
  qed
qed

text \<open>What a read for writing leaves alone.\<close>

definition steady :: "pager \<Rightarrow> pager \<Rightarrow> bool" where
  "steady p q \<longleftrightarrow> p_db q = p_db p \<and> p_page_size q = p_page_size p \<and> p_usable_size q = p_usable_size p
     \<and> p_page_count q = p_page_count p \<and> p_dirty q = p_dirty p \<and> p_savepoints q = p_savepoints p
     \<and> p_header q = p_header p \<and> p_locks q = p_locks p \<and> p_handle q = p_handle p
     \<and> map_option t_db_orig_size (p_txn q) = map_option t_db_orig_size (p_txn p)"

lemma steady_view: "steady p q \<Longrightarrow> view q = view p" "steady p q \<Longrightarrow> in_range q = in_range p"
  by (rule ext, simp add: steady_def view_def in_range_def base_page_def cong: option.case_cong)+

lemma steady_cache: "same_but_cache p q \<Longrightarrow> steady p q"
  by (simp add: steady_def same_but_cache_fields)

lemma journaled_orig:
  assumes "journal_page k d p = (q, r)"
  shows "map_option t_db_orig_size (p_txn q) = map_option t_db_orig_size (p_txn p)"
  using assms by (auto simp: journal_page_def Let_def split: if_splits option.splits)

lemma read_for_write_txn:
  assumes "txn_ok p" and "in_range p k"
  shows "\<exists>q. read_page_for_write k p = (q, Inr (view p k)) \<and> txn_ok q \<and> steady p q \<and> journaled q k"
proof -
  obtain p1 where p1: "get_page k p = (p1, Inr (view p k))" "txn_ok p1" "same_but_cache p p1"
    using get_page_txn [OF assms] by blast
  have s1: "steady p p1" using p1(3) by (rule steady_cache)
  have v: "view p1 k = view p k" "in_range p1 k" using steady_view [OF s1] assms(2) by simp_all
  obtain q where q: "journal_page k (view p k) p1 = (q, Inr ())" "txn_ok q" "same_but_journal p1 q" "journaled q k"
    using journal_page_txn [OF p1(2) v(2)] v(1) by auto
  have "steady p q"
    using s1 journaled_orig [OF q(1)] by (simp add: steady_def same_but_journal_fields [OF q(3)])
  then show ?thesis using p1(1) q by (auto simp: read_page_for_write_def)
qed

lemma txn_ok_dirty:
  assumes "txn_ok p" and "journaled p k" and "in_range p k" and "length d = p_page_size p"
  shows "txn_ok (p\<lparr>p_dirty := put k d (p_dirty p)\<rparr>)"
  using assms(1)
proof (rule txn_okE)
  fix t ks
  assume t: "p_txn p = Some t" "pager_ok p" "p_page_size p < 2 ^ 32" "t_db_orig_size t \<le> p_page_count p"
    "length (p_db p) = unat (t_db_orig_size t) * p_page_size p"
    "covered (t_db_orig_size t) (t_journaled t) (p_dirty p)"
    "\<forall>sp \<in> set (p_savepoints p). savepoint_ok p (t_db_orig_size t) (t_journaled t) sp" "journal_ok p t ks"
  have "covered (t_db_orig_size t) (t_journaled t) (put k d (p_dirty p))"
    using t(1,6) assms(2) by (auto simp: covered_def journaled_def)
  moreover have "journal_ok (p\<lparr>p_dirty := put k d (p_dirty p)\<rparr>) t ks"
    using t(8) by (simp add: journal_ok_def)
  ultimately show ?thesis
    using t write_page_ok(2) [OF t(2) assms(3,4)] by (auto simp: txn_ok_def savepoint_ok_def)
qed

text \<open>Read for writing, change, write back: the way every client changes a page.\<close>

definition edit_page :: "u32 \<Rightarrow> (bytes \<Rightarrow> bytes) \<Rightarrow> (pager, unit) op" where
  "edit_page k f = bind_op (read_page_for_write k) (\<lambda>page. write_page k (f page))"

lemma edit_page_txn:
  assumes "txn_ok p" and "in_range p k" and "length (f (view p k)) = p_page_size p"
  shows "\<exists>q. edit_page k f p = (q, Inr ()) \<and> txn_ok q \<and> view q = (view p)(k := f (view p k))
    \<and> in_range q = in_range p \<and> p_db q = p_db p \<and> p_page_size q = p_page_size p
    \<and> p_page_count q = p_page_count p \<and> p_header q = p_header p \<and> p_savepoints q = p_savepoints p
    \<and> map_option t_db_orig_size (p_txn q) = map_option t_db_orig_size (p_txn p)"
proof -
  obtain q where q: "read_page_for_write k p = (q, Inr (view p k))" "txn_ok q" "steady p q" "journaled q k"
    using read_for_write_txn [OF assms(1,2)] by blast
  note v = steady_view [OF q(3)]
  have l: "length (f (view p k)) = p_page_size q" "in_range q k" "pager_ok q"
    using assms(2,3) q(2,3) v by (simp_all add: steady_def txn_ok_def)
  let ?r = "q\<lparr>p_dirty := put k (f (view p k)) (p_dirty q)\<rparr>"
  have "edit_page k f p = (?r, Inr ())"
    using q(1) write_page_ok(1) [OF l(3,2,1)] by (simp add: edit_page_def)
  moreover have "txn_ok ?r" using txn_ok_dirty [OF q(2,4) l(2,1)] .
  moreover have "view ?r = (view p)(k := f (view p k))" using write_page_ok(3) [OF l(3,2,1)] v(1) by simp
  moreover have "in_range ?r = in_range p" using v(2) by (simp add: in_range_def fun_eq_iff)
  ultimately show ?thesis using q(3) by (auto simp: steady_def)
qed

text \<open>The general shape, with a step that may fail between reading and writing.\<close>

lemma edit_keeps: "keeps txn_ok (bind_op (read_page_for_write k) (\<lambda>page. bind_op (lift_op (g page)) (write_page k)))"
proof -
  have "txn_ok (fst (bind_op (read_page_for_write k) (\<lambda>page. bind_op (lift_op (g page)) (write_page k)) p))"
    if p: "txn_ok p" for p
  proof (cases "in_range p k")
    case True
    then obtain q where q: "read_page_for_write k p = (q, Inr (view p k))" "txn_ok q" "steady p q" "journaled q k"
      using read_for_write_txn [OF p] by blast
    have r: "in_range q k" using True steady_view(2) [OF q(3)] by simp
    show ?thesis
    proof (cases "g (view p k)")
      case (Inl e)
      then show ?thesis using q by simp
    next
      case (Inr d)
      then show ?thesis
        using q r txn_ok_dirty [OF q(2,4) r] by (simp add: write_page_def)
    qed
  next
    case False
    then obtain m where "get_page k p = (p, Inl (corrupt m))"
      using get_page_out_of_range [of p k] p by (auto simp: txn_ok_def pager_ok_def)
    then show ?thesis using p by (simp add: read_page_for_write_def)
  qed
  then show ?thesis by (simp add: keeps_def)
qed

lemma edit_page_keeps: "keeps txn_ok (edit_page k f)"
  using edit_keeps [of k "\<lambda>page. Inr (f page)"]
  by (simp add: edit_page_def)

lemma journal_ok_update [simp]:
  "journal_ok (p\<lparr>p_header := h\<rparr>) = journal_ok p" "journal_ok (p\<lparr>p_dirty := m\<rparr>) = journal_ok p"
  "journal_ok (p\<lparr>p_cache := m\<rparr>) = journal_ok p" "journal_ok (p\<lparr>p_page_count := n\<rparr>) = journal_ok p"
  "journal_ok (p\<lparr>p_savepoints := sps\<rparr>) = journal_ok p"
  by (simp_all add: journal_ok_def fun_eq_iff)

lemma savepoint_ok_update [simp]:
  "savepoint_ok (p\<lparr>p_header := h\<rparr>) = savepoint_ok p" "savepoint_ok (p\<lparr>p_dirty := m\<rparr>) = savepoint_ok p"
  "savepoint_ok (p\<lparr>p_cache := m\<rparr>) = savepoint_ok p" "savepoint_ok (p\<lparr>p_page_count := n\<rparr>) = savepoint_ok p"
  "savepoint_ok (p\<lparr>p_savepoints := sps\<rparr>) = savepoint_ok p"
  by (simp_all add: savepoint_ok_def fun_eq_iff)

lemma txn_ok_header [simp]: "txn_ok (with_header_mut f p) = txn_ok p"
  by (simp add: txn_ok_def with_header_mut_def pager_ok_def cache_ok_def cong: option.case_cong)

lemma get_page_keeps: "keeps txn_ok (get_page k)"
proof -
  have "txn_ok (fst (get_page k p))" if p: "txn_ok p" for p
  proof (cases "in_range p k")
    case True
    then show ?thesis using get_page_txn [OF p True] by force
  next
    case False
    then obtain m where "get_page k p = (p, Inl (corrupt m))"
      using p get_page_out_of_range [of p k] by (auto simp: txn_ok_def pager_ok_def)
    then show ?thesis using p by simp
  qed
  then show ?thesis by (simp add: keeps_def)
qed

lemma ptrmap_put_keeps: "keeps txn_ok (ptrmap_put pgno ty parent)"
proof -
  have needs: "keeps txn_ok (ptrmap_needs_write pm pgno ty parent)" for pm
    using get_page_keeps [of pm]
    by (auto simp: keeps_def ptrmap_needs_write_def split: prod.splits sum.splits failure.splits)
  have "keeps txn_ok (bind_op (read_page_for_write pm) (\<lambda>page.
      bind_op (lift_op (ptrmap_offset pm pgno)) (\<lambda>off.
        if length page < off + 5 then fail_op Panic
        else write_page pm (put_at (off + 1) (be_enc 4 parent) (put_at off [ptrmap_code ty] page)))))" for pm
  proof -
    let ?g = "\<lambda>page. and_then (ptrmap_offset pm pgno) (\<lambda>off. if length page < off + 5 then Inl Panic
        else Inr (put_at (off + 1) (be_enc 4 parent) (put_at off [ptrmap_code ty] page)))"
    have "bind_op (lift_op (ptrmap_offset pm pgno)) (\<lambda>off.
        if length page < off + 5 then fail_op Panic
        else write_page pm (put_at (off + 1) (be_enc 4 parent) (put_at off [ptrmap_code ty] page))) =
      bind_op (lift_op (?g page)) (write_page pm)" for page
      by (rule ext) (auto simp: bind_op_def and_then_def split: sum.splits)
    then show ?thesis using edit_keeps [of pm ?g] by simp
  qed
  then have "keeps txn_ok (bind_op (ptrmap_needs_write pm pgno ty parent) (\<lambda>needs.
      if \<not> needs then ret_op ()
      else bind_op (read_page_for_write pm) (\<lambda>page.
        bind_op (lift_op (ptrmap_offset pm pgno)) (\<lambda>off.
          if length page < off + 5 then fail_op Panic
          else write_page pm (put_at (off + 1) (be_enc 4 parent) (put_at off [ptrmap_code ty] page))))))" for pm
    by (intro keeps_bind needs) simp
  then show ?thesis by (auto simp: keeps_def ptrmap_put_def Let_def)
qed

lemma free_page_keeps: "keeps txn_ok (free_page k)"
proof -
  let ?buf = "\<lambda>p page. put_at 0 (be_enc 4 (first_freelist_trunk (p_header p))) (replicate (length page) 0)"
  let ?rest = "then_op (modify_op (with_header_mut (\<lambda>h. h\<lparr>first_freelist_trunk := k,
        freelist_count := freelist_count h + 1\<rparr>)))
      (\<lambda>p. if auto_vacuum p then ptrmap_put k FreePage 0 p else (p, Inr ()))"
  have rest: "keeps txn_ok ?rest"
    by (intro keeps_then keeps_modify) (use ptrmap_put_keeps [of k FreePage 0] in \<open>auto simp: keeps_def\<close>)
  have "txn_ok (fst (free_page k p))" if p: "txn_ok p" for p
  proof -
    have h: "p_header q = p_header p" if "read_page_for_write k p = (q, Inr page)" for q page
    proof (cases "in_range p k")
      case True
      then show ?thesis using read_for_write_txn [OF p True] that by (auto simp: steady_def)
    next
      case False
      then show ?thesis
        using that get_page_out_of_range [of p k] p
        by (auto simp: read_page_for_write_def txn_ok_def pager_ok_def)
    qed
    have "free_page k p = bind_op (bind_op (read_page_for_write k) (\<lambda>page. write_page k (?buf p page))) (\<lambda>_. ?rest) p"
      using h
      by (auto simp: free_page_def read_page_for_write_def bind_op_def then_op_def Let_def
          split: prod.splits sum.splits)
    then show ?thesis
      using keeps_bind [OF edit_page_keeps [of k "?buf p"] rest] p by (simp add: edit_page_def keeps_def)
  qed
  then show ?thesis by (simp add: keeps_def)
qed

section \<open>Growing the database\<close>

definition add_page :: "pager \<Rightarrow> pager" where
  "add_page p = p\<lparr>p_page_count := p_page_count p + 1,
     p_dirty := put (p_page_count p + 1) (replicate (p_page_size p) 0) (p_dirty p)\<rparr>"

lemma next_page:
  fixes n k :: u32
  assumes "n \<noteq> - 1"
  shows "n < n + 1" "k \<le> n + 1 \<longleftrightarrow> k \<le> n \<or> k = n + 1" "n + 1 \<noteq> 0"
proof -
  have z: "1 + n \<noteq> 0" using assms by (metis add.commute add_eq_0_iff)
  then have u: "unat (n + 1) = Suc (unat n)" using unatSuc [of n] by (simp add: add.commute)
  show "n < n + 1" using u by (simp add: word_less_nat_alt)
  show "k \<le> n + 1 \<longleftrightarrow> k \<le> n \<or> k = n + 1" using u by (auto simp: word_le_nat_alt word_unat_eq_iff)
  show "n + 1 \<noteq> 0" using z by (simp add: add.commute)
qed

lemma overlay_grow:
  assumes "overlay_ok n l c m" and "c \<noteq> -1" and "length d = n"
  shows "overlay_ok n l (c + 1) (put (c + 1) d m)"
proof -
  note np = next_page [OF assms(2)]
  have "distinct (map fst m)" using assms(1) by (simp add: overlay_ok_def)
  then show ?thesis
    using assms(1,3) np by (auto simp: overlay_ok_def set_put np(2) less_imp_le)
qed

lemma add_page_ok:
  assumes "pager_ok p" and "p_page_count p \<noteq> -1"
  shows "pager_ok (add_page p)" and "in_range (add_page p) (p_page_count p + 1)"
    and "view (add_page p) = (view p)(p_page_count p + 1 := replicate (p_page_size p) 0)"
    and "in_range p k \<Longrightarrow> in_range (add_page p) k"
proof -
  note np = next_page [OF assms(2)]
  show "pager_ok (add_page p)"
    using assms overlay_grow [of "p_page_size p" "length (p_db p)" "p_page_count p" "p_dirty p"]
    by (auto simp: pager_ok_def add_page_def cache_ok_def np(2))
  show "in_range (add_page p) (p_page_count p + 1)"
    using np by (simp add: in_range_def add_page_def)
  show "view (add_page p) = (view p)(p_page_count p + 1 := replicate (p_page_size p) 0)"
    by (rule ext) (simp add: view_def add_page_def cong: option.case_cong)
  show "in_range (add_page p) k" if "in_range p k"
    using that np(2) by (simp add: in_range_def add_page_def)
qed

lemma add_page_txn:
  assumes "txn_ok p" and "p_page_count p \<noteq> -1"
  shows "txn_ok (add_page p)"
proof -
  note np = next_page [OF assms(2)]
  have "pager_ok p" using assms(1) by (simp add: txn_ok_def)
  then have "pager_ok (add_page p)" using add_page_ok(1) assms(2) by blast
  moreover obtain t where t: "p_txn p = Some t" "t_db_orig_size t \<le> p_page_count p"
    using assms(1) by (auto elim: txn_okE)
  moreover have "\<not> p_page_count p + 1 \<le> t_db_orig_size t" using np(1) t(2) by (meson leD le_less_trans)
  ultimately show ?thesis
    using assms(1) np(2) by (auto simp: txn_ok_def add_page_def covered_def)
qed

text \<open>\<open>q\<close> has all of \<open>p\<close> and possibly more pages.\<close>

definition grown :: "pager \<Rightarrow> pager \<Rightarrow> bool" where
  "grown p q \<longleftrightarrow> pager_ok q \<and> (txn_ok p \<longrightarrow> txn_ok q) \<and> p_db q = p_db p \<and> p_page_size q = p_page_size p
    \<and> p_usable_size q = p_usable_size p
    \<and> p_header q = p_header p \<and> p_savepoints q = p_savepoints p \<and> p_txn q = p_txn p
    \<and> p_page_count p \<le> p_page_count q
    \<and> (\<forall>k. in_range p k \<longrightarrow> in_range q k \<and> view q k = view p k)"

lemma grown_refl: "pager_ok p \<Longrightarrow> grown p p"
  by (simp add: grown_def)

lemma grown_trans: "grown p q \<Longrightarrow> grown q r \<Longrightarrow> grown p r"
  unfolding grown_def by (metis order_trans)

lemma grown_add_page:
  assumes "pager_ok p" and "p_page_count p \<noteq> -1"
  shows "grown p (add_page p)"
proof -
  note np = next_page [OF assms(2)] and ap = add_page_ok [OF assms]
  have "in_range (add_page p) k \<and> view (add_page p) k = view p k" if "in_range p k" for k
    using ap(3,4) that np(1) by (auto simp: in_range_def dest: leD)
  moreover have "p_page_count p \<le> p_page_count (add_page p)" using np(1) by (simp add: add_page_def less_imp_le)
  ultimately show ?thesis
    using ap(1) add_page_txn [OF _ assms(2)] by (simp add: grown_def add_page_def)
qed

lemma extend_pages_unfold:
  "extend_pages p =
     (if p_page_count p = -1 then (p, Inl Panic)
      else if is_pending_byte_page (p_usable_size p) (p_page_count p + 1)
              \<or> (auto_vacuum p \<and> is_ptrmap_page (p_usable_size p) (p_page_count p + 1))
      then extend_pages (add_page p) else (add_page p, Inr (p_page_count p + 1)))"
  by (simp add: extend_pages.simps [of p] Let_def add_page_def auto_vacuum_def)

lemma extend_pages_induct [case_names step]:
  assumes "\<And>p. (p_page_count p \<noteq> -1 \<Longrightarrow> P (add_page p)) \<Longrightarrow> P p"
  shows "P p"
proof (induction "2 ^ 32 - unat (p_page_count p)" arbitrary: p rule: less_induct)
  case less
  then show ?case
    using assms [of p] page_count_measure [of "p_page_count p"] by (simp add: add_page_def)
qed

lemma extend_pages_ok:
  assumes "pager_ok p" and "extend_pages p = (q, r)"
  shows "grown p q" and "r = Inr n \<Longrightarrow> n = p_page_count q \<and> p_page_count p < n
      \<and> view q n = replicate (p_page_size p) 0 \<and> \<not> is_pending_byte_page (p_usable_size p) n
      \<and> (auto_vacuum p \<longrightarrow> \<not> is_ptrmap_page (p_usable_size p) n)"
  using assms
proof (induction p rule: extend_pages_induct)
  case (step p)
  let ?n = "p_page_count p + 1"
  let ?skip = "is_pending_byte_page (p_usable_size p) ?n \<or> (auto_vacuum p \<and> is_ptrmap_page (p_usable_size p) ?n)"
  {
    case 1
    show ?case
    proof (cases "p_page_count p = -1")
      case True
      then show ?thesis using 1 extend_pages_unfold [of p] grown_refl by simp
    next
      case False
      note ap = grown_add_page [OF 1(1) False] add_page_ok(1) [OF 1(1) False]
      show ?thesis
      proof (cases ?skip)
        case True
        then have "extend_pages (add_page p) = (q, r)" using 1(2) extend_pages_unfold [of p] False by simp
        then show ?thesis using step(1) [OF False ap(2)] ap(1) grown_trans by blast
      next
        case sk: False
        then have "q = add_page p" using 1(2) extend_pages_unfold [of p] False by (simp split: if_splits)
        then show ?thesis using ap(1) by simp
      qed
    qed
  next
    case 2
    have False: "p_page_count p \<noteq> -1" using 2 extend_pages_unfold [of p] by auto
    note ap = add_page_ok [OF 2(2) False]
    have f: "p_page_count (add_page p) = ?n" "p_usable_size (add_page p) = p_usable_size p"
      "p_page_size (add_page p) = p_page_size p" "auto_vacuum (add_page p) = auto_vacuum p"
      by (simp_all add: add_page_def auto_vacuum_def)
    show ?case
    proof (cases ?skip)
      case True
      then have e: "extend_pages (add_page p) = (q, r)" using 2(3) extend_pages_unfold [of p] False by simp
      show ?thesis
        using step(2) [OF False 2(1) ap(1) e] next_page(1) [OF False] unfolding f by (meson less_trans)
    next
      case sk: False
      then have "q = add_page p" "n = ?n" using 2 extend_pages_unfold [of p] False by auto
      then show ?thesis using ap(3) f sk next_page(1) [OF False] by simp
    qed
  }
qed

end
