(* ===== verification/Pager_Txn.thy ===== *)
theory Pager_Txn
  imports Pager_Crash
begin

text \<open>
  Whole transactions of a pager in rollback-journal mode: a step relation for what a client does
  between \<open>begin_write\<close> and the end of the transaction, the invariant along its runs, and the
  properties of rollback, of savepoints and of a commit that may be cut short by a crash.
\<close>

section \<open>Beginning and running a transaction\<close>

text \<open>Idle: no transaction, nothing pending, the file exactly as long as its pages.\<close>

definition idle :: "pager \<Rightarrow> bool" where
  "idle p \<longleftrightarrow> pager_ok p \<and> p_txn p = None \<and> p_dirty p = [] \<and> p_savepoints p = []
     \<and> p_page_size p < 2 ^ 32 \<and> length (p_db p) = unat (p_page_count p) * p_page_size p"

definition same_base :: "pager \<Rightarrow> pager \<Rightarrow> bool" where
  "same_base p q \<longleftrightarrow> p_db q = p_db p \<and> p_page_size q = p_page_size p \<and> p_handle q = p_handle p
     \<and> map_option t_db_orig_size (p_txn q) = map_option t_db_orig_size (p_txn p)"

lemma same_base_trans: "same_base p q \<Longrightarrow> same_base q r \<Longrightarrow> same_base p r"
  by (simp add: same_base_def)

lemma same_base_update [simp]:
  "same_base p0 (p\<lparr>p_header := h\<rparr>) = same_base p0 p" "same_base p0 (p\<lparr>p_dirty := m\<rparr>) = same_base p0 p"
  "same_base p0 (p\<lparr>p_cache := m\<rparr>) = same_base p0 p" "same_base p0 (p\<lparr>p_page_count := n\<rparr>) = same_base p0 p"
  "same_base p0 (p\<lparr>p_savepoints := sps\<rparr>) = same_base p0 p"
  by (simp_all add: same_base_def)

lemma base_keeps_get: "keeps (same_base p0) (get_page k)"
  by (auto simp: keeps_def get_page_def read_wal_page_def read_db_page_def cache_page_def Let_def
      split: option.splits)

lemma base_keeps_journal: "keeps (same_base p0) (journal_page k d)"
  by (auto simp: keeps_def journal_page_def Let_def same_base_def split: option.splits)

lemma base_keeps_write: "keeps (same_base p0) (write_page k d)"
  by (auto simp: keeps_def write_page_def)

lemma base_keeps_read: "keeps (same_base p0) (read_page_for_write k)"
  unfolding read_page_for_write_def
  by (intro keeps_bind keeps_then base_keeps_get base_keeps_journal keeps_basic)

lemma base_keeps_edit: "keeps (same_base p0) (edit_page k f)"
  unfolding edit_page_def by (intro keeps_bind base_keeps_read base_keeps_write)

lemma base_keeps_ptrmap: "keeps (same_base p0) (ptrmap_put pgno ty parent)"
proof -
  have needs: "keeps (same_base p0) (ptrmap_needs_write pm pgno ty parent)" for pm
    using base_keeps_get [of p0 pm]
    by (auto simp: keeps_def ptrmap_needs_write_def split: prod.splits sum.splits failure.splits)
  have "keeps (same_base p0) (bind_op (ptrmap_needs_write pm pgno ty parent) (\<lambda>needs.
      if \<not> needs then ret_op ()
      else bind_op (read_page_for_write pm) (\<lambda>page.
        bind_op (lift_op (ptrmap_offset pm pgno)) (\<lambda>off.
          if length page < off + 5 then fail_op Panic
          else write_page pm (put_at (off + 1) (be_enc 4 parent) (put_at off [ptrmap_code ty] page))))))" for pm
    by (intro keeps_bind needs) (auto intro!: keeps_bind base_keeps_read base_keeps_write)
  then show ?thesis by (auto simp: keeps_def ptrmap_put_def Let_def)
qed

lemma base_keeps_free: "keeps (same_base p0) (free_page k)"
proof -
  have w: "keeps (same_base p0) (then_op (write_page k buf) (then_op (modify_op (with_header_mut h))
      (\<lambda>p. if auto_vacuum p then ptrmap_put k FreePage 0 p else (p, Inr ()))))" for buf h
    using base_keeps_ptrmap [of p0 k FreePage 0]
    by (intro keeps_then base_keeps_write keeps_modify) (auto simp: keeps_def with_header_mut_def)
  show ?thesis
    unfolding free_page_def
    by (intro keeps_bind keeps_then base_keeps_get base_keeps_journal)
       (use w in \<open>auto simp: keeps_def Let_def\<close>)
qed

lemma base_extend: "extend_pages p = (q, r) \<Longrightarrow> same_base p q"
proof (induction p rule: extend_pages_induct)
  case (step p)
  then show ?case
    using extend_pages_unfold [of p]
    by (auto simp: add_page_def same_base_def split: if_splits)
qed

inductive txn_step :: "pager \<Rightarrow> pager \<Rightarrow> bool" where
  read: "get_page k p = (q, r) \<Longrightarrow> txn_step p q"
| edit: "edit_page k f p = (q, r') \<Longrightarrow> txn_step p q"
| grow: "extend_pages p = (q, n) \<Longrightarrow> txn_step p q"
| free: "free_page k p = (q, r') \<Longrightarrow> txn_step p q"
| ptrmap: "ptrmap_put k ty parent p = (q, r') \<Longrightarrow> txn_step p q"
| header: "txn_step p (with_header_mut h p)"
| savepoint: "txn_step p (open_savepoint name p)"
| release: "release_savepoint name p = (q, b) \<Longrightarrow> txn_step p q"
| rollback_to: "rollback_to_savepoint name p = (q, r') \<Longrightarrow> txn_step p q"

lemma position_bound: "position P xs = Some i \<Longrightarrow> i < length xs \<and> P (xs ! i)"
  by (induction P xs arbitrary: i rule: position.induct) (auto split: if_splits)

lemma txn_ok_savepoints:
  assumes "txn_ok p" and "set sps \<subseteq> set (p_savepoints p)"
  shows "txn_ok (p\<lparr>p_savepoints := sps\<rparr>)"
  using assms unfolding txn_ok_def
  by (auto simp: pager_ok_def cache_ok_def split: option.splits)

lemma open_savepoint_txn: "txn_ok p \<Longrightarrow> txn_ok (open_savepoint name p)"
  unfolding txn_ok_def open_savepoint_def
  by (auto simp: pager_ok_def cache_ok_def savepoint_ok_def split: option.splits)

lemma rollback_to_txn:
  assumes "txn_ok p" and "savepoint_index name p = Some i" and "rollback_to_savepoint name p = (q, r)"
  shows "txn_ok q"
proof -
  let ?sp = "p_savepoints p ! i"
  have i: "i < length (p_savepoints p)"
    using assms(2) position_bound by (auto simp: savepoint_index_def)
  then have sp: "?sp \<in> set (p_savepoints p)" by simp
  have q: "q = p\<lparr>p_savepoints := take (i + 1) (p_savepoints p), p_dirty := sp_dirty ?sp,
      p_cache := retain (\<lambda>q. q \<le> sp_n_orig ?sp) (p_cache p), p_page_count := sp_n_orig ?sp\<rparr>"
    using assms(2,3) by (auto simp: rollback_to_savepoint_def Let_def)
  obtain t where t: "p_txn p = Some t" "savepoint_ok p (t_db_orig_size t) (t_journaled t) ?sp"
    using assms(1) sp by (auto elim: txn_okE)
  show ?thesis
    using assms(1) t unfolding txn_ok_def
    by (auto simp: q pager_ok_def cache_ok_def savepoint_ok_def dest: in_set_takeD)
qed

lemma keeps_both:
  assumes "keeps txn_ok m" and "\<And>p0. keeps (same_base p0) m" and "m p = (q, r)" and "txn_ok p"
  shows "txn_ok q \<and> same_base p q"
proof -
  have "same_base p p" by (simp add: same_base_def)
  then show ?thesis using keepsD [OF assms(1,4,3)] keepsD [OF assms(2) _ assms(3)] by blast
qed

lemma txn_step_ok:
  assumes "txn_step p q" and "txn_ok p"
  shows "txn_ok q \<and> same_base p q"
  using assms
proof cases
  case (read k r)
  show ?thesis by (rule keeps_both [OF get_page_keeps base_keeps_get read assms(2)])
next
  case (edit k f r')
  show ?thesis by (rule keeps_both [OF edit_page_keeps base_keeps_edit edit assms(2)])
next
  case (grow n)
  have "pager_ok p" using assms(2) by (simp add: txn_ok_def)
  then have "grown p q" using extend_pages_ok(1) grow by blast
  then show ?thesis using base_extend [OF grow] assms(2) by (simp add: grown_def)
next
  case (free k r')
  show ?thesis by (rule keeps_both [OF free_page_keeps base_keeps_free free assms(2)])
next
  case (ptrmap k ty parent r')
  show ?thesis by (rule keeps_both [OF ptrmap_put_keeps base_keeps_ptrmap ptrmap assms(2)])
next
  case (header h)
  then show ?thesis using assms(2) by (simp add: same_base_def) (simp add: with_header_mut_def)
next
  case (savepoint name)
  then show ?thesis using assms(2) open_savepoint_txn by (simp add: open_savepoint_def same_base_def)
next
  case (release name b)
  then show ?thesis
    using assms(2) txn_ok_savepoints [OF assms(2)]
    by (auto simp: release_savepoint_def same_base_def split: option.splits dest: in_set_takeD)
next
  case (rollback_to name r')
  then show ?thesis
    using assms(2) rollback_to_txn [OF assms(2), of name]
    by (auto simp: rollback_to_savepoint_def same_base_def Let_def split: option.splits)
qed

lemma txn_run_ok:
  "txn_step\<^sup>*\<^sup>* p q \<Longrightarrow> txn_ok p \<Longrightarrow> txn_ok q \<and> same_base p q"
  by (induction rule: rtranclp_induct) (auto dest: txn_step_ok same_base_trans simp: same_base_def)

lemma pager_lock_success: "pager_lock l p = (q, r) \<Longrightarrow> \<exists>ls. q = p\<lparr>p_locks := ls\<rparr>"
  by (auto simp: pager_lock_def split: prod.splits)

lemma begin_write_txn:
  assumes "idle p" and "begin_write ck ex p = (q, Inr ())"
  shows "txn_ok q" and "p_db q = p_db p" and "p_page_size q = p_page_size p" and "p_page_count q = p_page_count p"
    and "map_option t_db_orig_size (p_txn q) = Some (p_page_count p)"
proof -
  obtain ls where q: "q = p\<lparr>p_locks := ls,
      p_journal := Some (build_journal_header 0 ck (p_page_count p) (of_nat (p_page_size p))),
      p_txn := Some \<lparr>t_cksum_init = ck, t_db_orig_size = p_page_count p, t_nrec = 0,
                     t_journal_off = JOURNAL_HDR_SZ, t_journaled = {}\<rparr>\<rparr>"
    using assms
    by (auto simp: begin_write_def idle_def pager_ok_def in_write_txn_def then_op_success Let_def
        dest!: pager_lock_success)
  have "journal_ok q (the (p_txn q)) []"
    by (simp add: q journal_ok_def journal_image_def)
  then show "txn_ok q"
    using assms(1)
    by (auto simp: txn_ok_def q idle_def pager_ok_def cache_ok_def covered_def)
qed (use assms in \<open>auto simp: begin_write_def idle_def pager_ok_def in_write_txn_def then_op_success Let_def
        dest!: pager_lock_success\<close>)

section \<open>Rollback\<close>

lemma end_txn_fields [simp]:
  "p_db (end_txn p) = p_db p" "p_page_size (end_txn p) = p_page_size p" "p_page_count (end_txn p) = p_page_count p"
  "p_cache (end_txn p) = p_cache p" "p_dirty (end_txn p) = p_dirty p" "p_wal (end_txn p) = p_wal p"
  "p_journal (end_txn p) = None" "p_txn (end_txn p) = None" "p_savepoints (end_txn p) = []"
  "p_header (end_txn p) = p_header p" "p_handle (end_txn p) = p_handle p"
  by (simp_all add: end_txn_def pager_unlock_def)

lemma rollback_idle:
  assumes "txn_ok p"
  shows "idle (pager_rollback p)" and "p_db (pager_rollback p) = p_db p"
    and "p_page_size (pager_rollback p) = p_page_size p" and "p_journal (pager_rollback p) = None"
    and "Some (p_page_count (pager_rollback p)) = map_option t_db_orig_size (p_txn p)"
proof -
  obtain t where t: "p_txn p = Some t" "pager_ok p" "p_page_size p < 2 ^ 32"
      "length (p_db p) = unat (t_db_orig_size t) * p_page_size p"
    using assms by (auto elim: txn_okE)
  let ?q = "pager_rollback p"
  have b: "base_page ?q = base_page p" using t by (simp add: pager_rollback_def base_page_def fun_eq_iff)
  have "overlay_ok (p_page_size p) (length (p_db p)) (t_db_orig_size t) []"
    using t(4) by (auto simp: overlay_ok_def word_le_nat_alt)
  moreover have "cache_ok ?q"
    using t(1,2) b by (auto simp: cache_ok_def pager_ok_def pager_rollback_def)
  ultimately show "idle ?q"
    using t by (auto simp: idle_def pager_ok_def pager_rollback_def)
qed (use assms in \<open>auto simp: pager_rollback_def elim!: txn_okE\<close>)

lemma idle_view: "idle p \<Longrightarrow> view p k = base_page p k"
  by (simp add: idle_def view_def)

text \<open>
  C4. Rolling a transaction back undoes it: after any run of page edits, allocations that extend
  the file, page frees, header changes and savepoint operations, \<open>rollback\<close> leaves no
  transaction and no journal, the page count it began with, and every page reads as it did before
  \<open>begin_write\<close>.
\<close>

theorem rollback_restores_pages:
  assumes "idle p" and "begin_write ck ex p = (q0, Inr ())" and "txn_step\<^sup>*\<^sup>* q0 q" and "in_range p k"
  shows "idle (pager_rollback q) \<and> p_db (pager_rollback q) = p_db p \<and> p_journal (pager_rollback q) = None
    \<and> p_page_count (pager_rollback q) = p_page_count p
    \<and> snd (get_page k (pager_rollback q)) = Inr (view p k)"
proof -
  note b = begin_write_txn [OF assms(1,2)]
  have q: "txn_ok q" "same_base q0 q" using txn_run_ok [OF assms(3) b(1)] by auto
  note r = rollback_idle [OF q(1)]
  have f: "p_db (pager_rollback q) = p_db p" "p_page_size (pager_rollback q) = p_page_size p"
    "p_page_count (pager_rollback q) = p_page_count p"
    using r b q(2) by (auto simp: same_base_def)
  have "in_range (pager_rollback q) k" using assms(4) f(3) by (simp add: in_range_def)
  moreover have "view (pager_rollback q) k = view p k"
    using idle_view [OF r(1)] idle_view [OF assms(1)] f by (simp add: base_page_def)
  ultimately have "snd (get_page k (pager_rollback q)) = Inr (view p k)"
    using get_page_view [of "pager_rollback q" k] r(1) by (auto simp: idle_def)
  then show ?thesis using r f by simp
qed

lemma sample_idle: "idle sample_pager"
  by (simp add: idle_def sample_pager_ok(1)) (simp add: sample_pager_def pager_of_def fresh_header_def)

lemma sample_begin: "begin_write 5 True sample_pager = (fst (begin_write 5 True sample_pager), Inr ())"
  by (simp add: begin_write_def in_write_txn_def sample_pager_def pager_of_def then_op_def bind_op_def
      pager_lock_def mem_lock_def new_sys_def lock_state_default_def apply_lock_def level_order Let_def)

theorem rollback_restores_pages_witness:
  "snd (get_page 2 (pager_rollback (fst (edit_page 2 (\<lambda>_. replicate 8 9)
     (fst (begin_write 5 True sample_pager)))))) = Inr (replicate 8 7)"
proof -
  let ?q0 = "fst (begin_write 5 True sample_pager)"
  have "txn_step ?q0 (fst (edit_page 2 (\<lambda>_. replicate 8 9) ?q0))"
    by (rule txn_step.edit [OF prod.collapse [symmetric]])
  then have run: "txn_step\<^sup>*\<^sup>* ?q0 (fst (edit_page 2 (\<lambda>_. replicate 8 9) ?q0))" by blast
  have "view sample_pager 2 = replicate 8 7"
    by (simp add: view_def base_page_def sample_pager_def pager_of_def fresh_header_def file_read_at_sub sub_def)
  then show ?thesis
    using rollback_restores_pages [OF sample_idle sample_begin run, of 2] by (simp add: sample_pager_ok(2))
qed

section \<open>Savepoints\<close>

lemma position_append:
  "position P (xs @ ys) = (case position P xs of Some i \<Rightarrow> Some i | None \<Rightarrow> map_option ((+) (length xs)) (position P ys))"
proof (induction xs)
  case Nil
  then show ?case by (cases "position P ys") simp_all
next
  case (Cons x xs)
  then show ?case by (cases "position P ys"; cases "position P xs") simp_all
qed

text \<open>
  C5. Rolling back to a savepoint undoes exactly what followed it: take a savepoint under a new
  name, run any steps that keep it on the stack, and roll back to it. The roll back succeeds, the
  page count and every page are what they were when the savepoint was taken, later savepoints are
  gone and the savepoint itself stays.
\<close>

theorem rollback_to_savepoint_restores:
  assumes "txn_ok p" and "savepoint_index name p = None"
    and "txn_step\<^sup>*\<^sup>* (open_savepoint name p) q"
    and "p_savepoints q = p_savepoints (open_savepoint name p) @ later"
  shows "\<exists>r. rollback_to_savepoint name q = (r, Inr ()) \<and> txn_ok r \<and> p_page_count r = p_page_count p
    \<and> p_savepoints r = p_savepoints (open_savepoint name p) \<and> view r = view p"
proof -
  let ?s = "open_savepoint name p"
  have run: "txn_ok q" "same_base ?s q" using txn_run_ok [OF assms(3) open_savepoint_txn [OF assms(1)]] by auto
  let ?i = "length (p_savepoints p)"
  have idx: "savepoint_index name q = Some ?i"
    using assms(2,4) by (simp add: savepoint_index_def position_append open_savepoint_def eq_ignore_case_def)
  let ?sp = "\<lparr>sp_name = name, sp_n_orig = p_page_count p, sp_dirty = p_dirty p\<rparr>"
  have sp: "p_savepoints q ! ?i = ?sp" "take (?i + 1) (p_savepoints q) = p_savepoints ?s"
    using assms(4) by (simp_all add: open_savepoint_def nth_append)
  let ?r = "q\<lparr>p_savepoints := p_savepoints ?s, p_dirty := p_dirty p,
      p_cache := retain (\<lambda>k. k \<le> p_page_count p) (p_cache q), p_page_count := p_page_count p\<rparr>"
  have rb: "rollback_to_savepoint name q = (?r, Inr ())"
    using idx sp by (simp add: rollback_to_savepoint_def Let_def)
  moreover have "view ?r = view p"
    using run(2) by (rule_tac ext) (simp add: view_def base_page_def same_base_def open_savepoint_def
        cong: option.case_cong)
  ultimately show ?thesis using rollback_to_txn [OF run(1) idx rb] by auto
qed

theorem rollback_to_savepoint_restores_witness:
  "\<exists>r. rollback_to_savepoint ''sp'' (fst (edit_page 2 (\<lambda>_. replicate 8 9)
      (open_savepoint ''sp'' (fst (begin_write 5 True sample_pager))))) = (r, Inr ()) \<and> p_page_count r = 2"
proof -
  let ?q0 = "fst (begin_write 5 True sample_pager)"
  let ?s = "open_savepoint ''sp'' ?q0"
  let ?e = "fst (edit_page 2 (\<lambda>_. replicate 8 9) ?s)"
  note b = begin_write_txn [OF sample_idle sample_begin]
  have no: "p_savepoints ?q0 = []"
    by (simp add: begin_write_def in_write_txn_def sample_pager_def pager_of_def then_op_def bind_op_def
        pager_lock_def mem_lock_def new_sys_def lock_state_default_def apply_lock_def level_order Let_def)
  have s: "txn_ok ?s" using b(1) by (rule open_savepoint_txn)
  have c: "p_page_count ?q0 = 2" "p_page_size ?q0 = 8"
    using b(3,4) by (simp_all add: sample_pager_def pager_of_def fresh_header_def)
  have "in_range ?s 2" using c by (simp add: in_range_def open_savepoint_def)
  then obtain q where q: "edit_page 2 (\<lambda>_. replicate 8 9) ?s = (q, Inr ())" "p_savepoints q = p_savepoints ?s"
    using edit_page_txn [OF s, of 2 "\<lambda>_. replicate 8 9"] c by (auto simp: open_savepoint_def)
  have "txn_step ?s ?e" by (rule txn_step.edit [OF prod.collapse [symmetric]])
  then have run: "txn_step\<^sup>*\<^sup>* ?s ?e" by blast
  show ?thesis
    using rollback_to_savepoint_restores [OF b(1) _ run, of "[]"] q no c
    by (auto simp: savepoint_index_def)
qed

end
