(* ===== verification/Pager_Commit.thy ===== *)
theory Pager_Commit
  imports Pager_Txn
begin

text \<open>
  Committing a rollback-journal transaction. The disk phase of \<open>commit\<close> patches the record count
  into the journal, writes the dirty pages in whatever order the hash map yields them, cuts the
  file and deletes the journal. \<open>commit_crash\<close> lists the disk states a crash can leave, a torn page
  write included; recovery of each of them is the old or the new database.
\<close>

section \<open>What the disk phase writes\<close>

lemma write_pending_fold:
  assumes "\<forall>(k, d) \<in> set xs. k \<noteq> 0"
  shows "write_pending psize xs db = (fold (mem_file.put_page psize) (map slot_of xs) db, Inr ())"
  using assms
  by (induction psize xs db rule: write_pending.induct)
     (auto simp: mem_file.put_page_def slot_of_def)





section \<open>Crashes\<close>

definition committed_db :: "(pages \<Rightarrow> pages) \<Rightarrow> pager \<Rightarrow> bytes" where
  "committed_db drain p =
     file_truncate (fst (write_pending (p_page_size p) (drain (p_dirty p)) (p_db p)))
       (unat (p_page_count p) * p_page_size p)"





text \<open>The order in which a hash map is drained: any rearrangement of its entries.\<close>

definition drains :: "(pages \<Rightarrow> pages) \<Rightarrow> pages \<Rightarrow> bool" where
  "drains drain m \<longleftrightarrow> mset (drain m) = mset m"

lemma drains_set: "drains drain m \<Longrightarrow> set (drain m) = set m"
  unfolding drains_def by (rule mset_eq_setD)

lemma drains_map_of:
  assumes "drains drain m" and "distinct (map fst m)"
  shows "map_of (rev (drain m)) = map_of m"
proof -
  have "mset (map fst (rev (drain m))) = mset (map fst m)" using assms(1) by (simp add: drains_def)
  then have "distinct (map fst (rev (drain m)))" using assms(2) by (metis mset_eq_imp_distinct_iff)
  then show ?thesis
    using assms drains_set [OF assms(1)] map_of_inject_set [of "rev (drain m)" m] by simp
qed

lemma dirty_entries:
  "pager_ok p \<Longrightarrow> drains drain (p_dirty p) \<Longrightarrow>
   \<forall>(a, d) \<in> set (drain (p_dirty p)). a \<noteq> 0 \<and> a \<le> p_page_count p \<and> length d = p_page_size p"
  using drains_set by (fastforce simp: pager_ok_def overlay_ok_def)


section \<open>Whole commits\<close>

lemma stamp_page1_edit:
  assumes "txn_ok p" and "in_range p 1"
  shows "stamp_page1 p = edit_page 1 (put_at 0 (serialize_header (p_header p))) p"
proof -
  obtain q where "read_page_for_write 1 p = (q, Inr (view p 1))" "steady p q"
    using read_for_write_txn [OF assms] by blast
  then show ?thesis by (simp add: stamp_page1_def edit_page_def steady_def)
qed

lemma prepare_commit_ok:
  assumes "txn_ok p" and "in_range p 1" and "100 \<le> p_page_size p"
  shows "\<exists>q. prepare_commit n p = (q, Inr ()) \<and> txn_ok q
    \<and> view q = (view p)(1 := put_at 0 (serialize_header (stamp_header n (p_header p))) (view p 1))
    \<and> p_header q = stamp_header n (p_header p) \<and> same_base p q
    \<and> in_range q = in_range p \<and> p_page_count q = p_page_count p"
proof -
  let ?p = "with_header_mut (stamp_header n) p"
  have p: "txn_ok ?p" "in_range ?p = in_range p" "view ?p = view p" "p_page_size ?p = p_page_size p"
      "p_page_count ?p = p_page_count p" "p_header ?p = stamp_header n (p_header p)" "same_base p ?p"
    using assms(1) txn_ok_header [of "stamp_header n" p]
    by (simp_all add: with_header_mut_def in_range_def view_def fun_eq_iff same_base_def cong: option.case_cong)
  have "pager_ok p" using assms(1) by (simp add: txn_ok_def)
  then have "length (view p 1) = p_page_size p" using length_view assms(2) by blast
  then have len: "length (put_at 0 (serialize_header (p_header ?p)) (view ?p 1)) = p_page_size ?p"
    using assms(3) p(3,4) by simp
  obtain q where q: "edit_page 1 (put_at 0 (serialize_header (p_header ?p))) ?p = (q, Inr ())" "txn_ok q"
      "view q = (view ?p)(1 := put_at 0 (serialize_header (p_header ?p)) (view ?p 1))"
      "in_range q = in_range ?p" "p_header q = p_header ?p" "p_page_count q = p_page_count ?p"
    using edit_page_txn [OF p(1), of 1 "put_at 0 (serialize_header (p_header ?p))"] len p(2) assms(2) by auto
  have "same_base p q" using keepsD [OF base_keeps_edit p(7) q(1)] .
  moreover have "prepare_commit n p = (q, Inr ())"
    using q(1) stamp_page1_edit [OF p(1)] p(2) assms(2) by (simp add: prepare_commit_def)
  ultimately show ?thesis using q p by auto
qed

lemma committed_pages:
  assumes "txn_ok p" and "drains drain (p_dirty p)" and "in_range p k"
  shows "file_read_at (committed_db drain p) ((unat k - 1) * p_page_size p) (p_page_size p) = view p k"
proof -
  obtain t where t: "pager_ok p" "0 < p_page_size p" using assms(1) by (auto elim!: txn_okE)
  let ?n = "p_page_size p" and ?recs = "map slot_of (drain (p_dirty p))"
  note e = dirty_entries [OF t(1) assms(2)]
  have k: "k \<noteq> 0" "k \<le> p_page_count p" using assms(3) by (auto simp: in_range_def)
  let ?db1 = "fold (mem_file.put_page ?n) ?recs (p_db p)"
  have db1: "fst (write_pending ?n (drain (p_dirty p)) (p_db p)) = ?db1"
    using e by (subst write_pending_fold) auto
  have inj: "unat a - 1 = unat k - 1 \<longleftrightarrow> a = k" if "a \<noteq> 0" for a :: u32
  proof -
    have "0 < unat a" "0 < unat k" using that k(1) by (simp_all add: unat_gt_0)
    then have "unat a - 1 = unat k - 1 \<longleftrightarrow> unat a = unat k" by arith
    then show ?thesis by (simp add: word_unat_eq_iff)
  qed
  have inj': "unat k - 1 = unat a - 1 \<longleftrightarrow> k = a" if "a \<noteq> 0" for a :: u32
    using inj [OF that] by metis
  have mo: "map_of (rev (map slot_of m)) (unat k - 1) = map_of (rev m) k" if "\<forall>(a, d) \<in> set m. a \<noteq> 0" for m
    using that by (induction m) (auto simp: slot_of_def map_add_def inj' [simplified] split: option.splits)
  have dirty: "map_of (rev ?recs) (unat k - 1) = map_of (p_dirty p) k"
    using mo [of "drain (p_dirty p)"] e drains_map_of [OF assms(2)] t(1)
    by (auto simp: pager_ok_def overlay_ok_def)
  have cover: "unat k - 1 \<in> fst ` set ?recs \<or> (unat k - 1) * ?n + ?n \<le> file_size (p_db p)"
    using t(1) k drains_set [OF assms(2)] page_bytes [OF k(1), of ?n]
    by (force simp: pager_ok_def overlay_ok_def slot_of_def file_size_def)
  have "mem_file.page_of ?n ?db1 (unat k - 1) =
      (case map_of (rev ?recs) (unat k - 1) of None \<Rightarrow> mem_file.page_of ?n (p_db p) (unat k - 1) | Some d \<Rightarrow> d)"
    using e by (intro mem_file.page_fold_put t(2) cover) (auto simp: slot_of_def)
  then have v: "mem_file.page_of ?n ?db1 (unat k - 1) = view p k"
    unfolding dirty by (simp add: view_def base_page_def mem_file.page_of_def split: option.splits)
  then have fit: "(unat k - 1) * ?n + ?n \<le> file_size ?db1"
    using length_view [OF t(1) assms(3)] t(2) by (intro mem_file.page_fits) simp_all
  have "unat k * ?n \<le> unat (p_page_count p) * ?n" using k(2) by (simp add: word_le_nat_alt)
  then show ?thesis
    using v fit page_bytes [OF k(1), of ?n] unfolding committed_db_def db1
    by (subst mem_file.rd_tr) (auto simp: mem_file.page_of_def)
qed

lemma promote_spec:
  assumes "distinct (map fst c)"
  shows "distinct (map fst (promote pending c))"
    and "map_of (promote pending c) k = (case map_of (rev pending) k of Some d \<Rightarrow> Some d | None \<Rightarrow> map_of c k)"
  using assms
  by (induction pending arbitrary: c)
     (auto simp: promote_def map_add_def split: option.splits)

lemma commit_journal_ok:
  assumes "txn_ok p" and "p_txn p = Some t" and "drains drain (p_dirty p)"
  shows "\<exists>q. commit_journal drain (p_page_count p) t p = (q, Inr ()) \<and> idle q \<and> p_db q = committed_db drain p
    \<and> p_header q = p_header p \<and> p_page_count q = p_page_count p \<and> p_page_size q = p_page_size p
    \<and> p_journal q = None"
proof -
  let ?n = "p_page_size p" and ?pend = "drain (p_dirty p)"
  have ok: "pager_ok p" "0 < ?n" "?n < 2 ^ 32" "p_wal p = None" "cache_ok p"
    using assms(1) by (auto elim!: txn_okE simp: pager_ok_def)
  have e: "\<forall>(a, d) \<in> set ?pend. a \<noteq> 0" using dirty_entries [OF ok(1) assms(3)] by auto
  have wp: "write_pending ?n ?pend (p_db p) = (fst (write_pending ?n ?pend (p_db p)), Inr ())"
    by (simp add: write_pending_fold [OF e])
  let ?q = "end_txn (p\<lparr>p_journal := Some (patched_journal t (p_journal p)), p_dirty := [],
      p_db := committed_db drain p, p_cache := promote ?pend (p_cache p)\<rparr>)"
  have q: "commit_journal drain (p_page_count p) t p = (?q, Inr ())"
    unfolding commit_journal_def Let_def by (subst wp) (simp add: committed_db_def)
  have len: "length (committed_db drain p) = unat (p_page_count p) * ?n"
    by (simp add: committed_db_def file_truncate_def)
  have base: "base_page ?q k = view p k" if "in_range p k" for k
    using committed_pages [OF assms(1,3) that] by (simp add: base_page_def)
  note dist = ok(5) [unfolded cache_ok_def, THEN conjunct1]
  have "cache_ok ?q"
    unfolding cache_ok_def
  proof (intro conjI ballI, simp add: promote_spec(1) [OF dist])
    fix kd
    assume "kd \<in> set (p_cache ?q)"
    moreover obtain k d where kd: "kd = (k, d)" by force
    ultimately have "map_of (promote ?pend (p_cache p)) k = Some d"
      using promote_spec(1) [OF dist, of ?pend] by (simp add: map_of_eq_Some_iff)
    then have "map_of (p_dirty p) k = Some d \<or> (map_of (p_dirty p) k = None \<and> map_of (p_cache p) k = Some d)"
      using promote_spec(2) [OF dist] drains_map_of [OF assms(3)] ok(1)
      by (auto simp: pager_ok_def overlay_ok_def split: option.splits)
    then have "in_range p k \<and> d = view p k"
      using ok(1,5) overlay_map_of [of ?n "length (p_db p)" "p_page_count p" "p_dirty p" k d]
      by (auto simp: view_def in_range_def pager_ok_def cache_ok_def dest: map_of_SomeD)
    then show "case kd of (k, d) \<Rightarrow> k \<noteq> 0 \<and> k \<le> p_page_count ?q \<and> length d = p_page_size ?q \<and> d = base_page ?q k"
      using base length_view [OF ok(1)] kd by (auto simp: in_range_def)
  qed
  moreover have "overlay_ok ?n (length (committed_db drain p)) (p_page_count p) []"
    using len by (auto simp: overlay_ok_def word_le_nat_alt)
  ultimately have "idle ?q" using ok len by (simp add: idle_def pager_ok_def)
  then show ?thesis using q by auto
qed

text \<open>
  C3. Committing makes the transaction durable. When no auto-vacuum is due, a commit of pending
  changes succeeds whatever order the dirty pages are drained in; afterwards the pager is idle with
  no journal, the file has exactly the page count's pages, and every page reads from it as it read
  through the overlay, page 1 with the stamped header.
\<close>

theorem commit_makes_durable:
  assumes "txn_ok p" and "in_range p 1" and "100 \<le> p_page_size p" and "p_dirty p \<noteq> []"
    and "\<not> auto_vacuum p" and "\<forall>m. drains drain m" and "in_range p k"
  shows "\<exists>q. pager_commit autovac drain salts p = (q, Inr ()) \<and> idle q \<and> p_journal q = None
    \<and> p_page_count q = p_page_count p
    \<and> p_header q = stamp_header (p_page_count p) (p_header p)
    \<and> view q k = (if k = 1 then put_at 0 (serialize_header (p_header q)) (view p 1) else view p k)"
proof -
  let ?n = "p_page_count p"
  obtain p2 where p2: "prepare_commit ?n p = (p2, Inr ())" "txn_ok p2"
      "view p2 = (view p)(1 := put_at 0 (serialize_header (stamp_header ?n (p_header p))) (view p 1))"
      "p_header p2 = stamp_header ?n (p_header p)" "in_range p2 = in_range p" "p_page_count p2 = ?n"
    using prepare_commit_ok [OF assms(1-3)] by blast
  obtain t where t: "p_txn p2 = Some t" "p_wal p2 = None" using p2(2) by (auto elim!: txn_okE)
  have dr: "drains drain (p_dirty p2)" using assms(6) by simp
  obtain q where q: "commit_journal drain (p_page_count p2) t p2 = (q, Inr ())" "idle q"
      "p_db q = committed_db drain p2" "p_header q = p_header p2" "p_page_count q = p_page_count p2"
      "p_page_size q = p_page_size p2" "p_journal q = None"
    using commit_journal_ok [OF p2(2) t(1) dr] by blast
  have "in_write_txn p" "p_wal p = None" using assms(1) by (auto simp: in_write_txn_def elim!: txn_okE)
  then have c: "pager_commit autovac drain salts p = (q, Inr ())"
    using assms(4,5) p2(1,6) t q(1) by (simp add: pager_commit_def Let_def)
  have "view q k = view p2 k"
    using committed_pages [OF p2(2) dr, of k] assms(7) p2(5) idle_view [OF q(2)] q(3,6) by (simp add: base_page_def)
  then show ?thesis using c q p2 by auto
qed


section \<open>A concrete transaction\<close>

definition sample_db :: pager where
  "sample_db = pager_of ''db'' 0 None (replicate 1024 7, None, new_sys 2) (fresh_header 512) 2 [] None"

lemma sample_db_fields [simp]:
  "p_page_size sample_db = 512" "p_page_count sample_db = 2" "p_header sample_db = fresh_header 512"
  "p_db sample_db = replicate 1024 7"
  by (simp_all add: sample_db_def pager_of_def fresh_header_def)

lemma sample_db_idle: "idle sample_db"
proof -
  have le: "unat k * 512 \<le> 1024" if "k \<le> 2" for k :: u32 using that by (simp add: word_le_nat_alt)
  then show ?thesis
    by (auto simp: idle_def pager_ok_def cache_ok_def overlay_ok_def)
       (simp_all add: sample_db_def pager_of_def)
qed

lemma sample_db_begin: "begin_write 5 True sample_db = (fst (begin_write 5 True sample_db), Inr ())"
  by (simp add: begin_write_def in_write_txn_def sample_db_def pager_of_def then_op_def bind_op_def
      pager_lock_def mem_lock_def new_sys_def lock_state_default_def apply_lock_def level_order Let_def)

definition sample_txn :: pager where
  "sample_txn = fst (edit_page 2 (\<lambda>_. replicate 512 9) (fst (begin_write 5 True sample_db)))"

lemma sample_txn:
  "txn_ok sample_txn" "in_range sample_txn k \<longleftrightarrow> k \<noteq> 0 \<and> k \<le> 2" "p_page_size sample_txn = 512"
  "p_dirty sample_txn \<noteq> []" "\<not> auto_vacuum sample_txn" "view sample_txn 2 = replicate 512 9"
  "p_page_count sample_txn = 2" "p_db sample_txn = replicate 1024 7"
proof -
  let ?b = "fst (begin_write 5 True sample_db)"
  note b = begin_write_txn [OF sample_db_idle sample_db_begin]
  have h: "p_header ?b = fresh_header 512"
    by (simp add: begin_write_def in_write_txn_def sample_db_def pager_of_def then_op_def bind_op_def
        pager_lock_def mem_lock_def new_sys_def lock_state_default_def apply_lock_def level_order Let_def)
  have r: "in_range ?b 2" using b(4) by (simp add: in_range_def)
  obtain q where q: "edit_page 2 (\<lambda>_. replicate 512 9) ?b = (q, Inr ())" "txn_ok q"
      "view q = (view ?b)(2 := replicate 512 9)" "in_range q = in_range ?b" "p_page_size q = p_page_size ?b"
      "p_page_count q = p_page_count ?b" "p_header q = p_header ?b" "p_db q = p_db ?b"
    using edit_page_txn [OF b(1) r, of "\<lambda>_. replicate 512 9"] b(3) by auto
  have s: "sample_txn = q" by (simp add: sample_txn_def q(1))
  show "txn_ok sample_txn" "p_page_size sample_txn = 512" "view sample_txn 2 = replicate 512 9"
    "p_page_count sample_txn = 2" "p_db sample_txn = replicate 1024 7"
    using q b s by simp_all
  show "in_range sample_txn k \<longleftrightarrow> k \<noteq> 0 \<and> k \<le> 2" using q(4) b(4) s by (simp add: in_range_def)
  show "\<not> auto_vacuum sample_txn" using q(7) h s by (simp add: auto_vacuum_def fresh_header_def)
  show "p_dirty sample_txn \<noteq> []"
  proof
    assume d: "p_dirty sample_txn = []"
    have "view sample_txn 2 = replicate 512 7"
      using q(5,8) b(2,3) s d by (simp add: view_def base_page_def file_read_at_sub sub_def)
    then show False using q(3) s by simp
  qed
qed

theorem commit_makes_durable_witness:
  "\<exists>q. pager_commit (ret_op ()) id (1, 2) sample_txn = (q, Inr ()) \<and> idle q \<and> view q 2 = replicate 512 9"
  using commit_makes_durable [OF sample_txn(1), of id 2 "ret_op ()" "(1, 2)"]
  by (auto simp: sample_txn drains_def)


end
