(* ===== verification/Pager_Limits.thy ===== *)
theory Pager_Limits
  imports Pager_Commit
begin

text \<open>
  Where the pager does less than its comments say: the in-memory header is not part of what a
  rollback undoes, a page taken from the freelist changes its trunk without a journal record, and a
  database opened on a log that has grown past the file allocates pages the log already uses.
\<close>

lemma free_page_result:
  assumes "txn_ok p" and "in_range p k" and "\<not> auto_vacuum p" and "4 \<le> p_page_size p"
  shows "\<exists>q. free_page k p = (q, Inr ()) \<and> txn_ok q \<and> first_freelist_trunk (p_header q) = k
    \<and> freelist_count (p_header q) = freelist_count (p_header p) + 1
    \<and> view q k = be_enc 4 (first_freelist_trunk (p_header p)) @ replicate (p_page_size p - 4) 0
    \<and> same_base p q"
proof -
  let ?f = "\<lambda>page. put_at 0 (be_enc 4 (first_freelist_trunk (p_header p))) (replicate (length page) 0)"
  have pok: "pager_ok p" using assms(1) by (simp add: txn_ok_def)
  note len = length_view [OF pok assms(2)]
  obtain q where q: "edit_page k ?f p = (q, Inr ())" "txn_ok q" "view q = (view p)(k := ?f (view p k))"
      "p_header q = p_header p"
    using edit_page_txn [OF assms(1,2), of ?f] len assms(4) by auto
  let ?h = "\<lambda>h. h\<lparr>first_freelist_trunk := k, freelist_count := freelist_count h + 1\<rparr>"
  obtain r where r: "read_page_for_write k p = (r, Inr (view p k))" "steady p r"
    using read_for_write_txn [OF assms(1,2)] by blast
  have "write_page k (?f (view p k)) r = (q, Inr ())" using q(1) r(1) by (simp add: edit_page_def)
  then have "free_page k p = (with_header_mut ?h q, Inr ())"
    using r q(4) assms(3)
    by (auto simp: free_page_def read_page_for_write_def bind_op_def then_op_def Let_def steady_def
        auto_vacuum_def with_header_mut_def split: prod.splits sum.splits)
  moreover have "same_base p q"
    using keepsD [OF base_keeps_edit _ q(1), of p] by (simp add: same_base_def)
  moreover have "?f (view p k) = be_enc 4 (first_freelist_trunk (p_header p)) @ replicate (p_page_size p - 4) 0"
    using len assms(4) by (simp add: put_at_def)
  moreover have "view (with_header_mut ?h q) = view q"
    by (rule ext) (simp add: view_def with_header_mut_def cong: option.case_cong)
  ultimately show ?thesis using q txn_ok_header [of ?h q]
    by (auto simp: with_header_mut_def same_base_def)
qed

text \<open>
  C25. A rollback does not undo the freelist head: when a transaction frees page \<open>k\<close> and rolls back,
  the page has its old content again but the header still names it as the first trunk page, so a
  later allocation takes a page that is in use.
\<close>

theorem rollback_keeps_freelist_head:
  assumes "idle p" and "begin_write ck ex p = (q0, Inr ())" and "in_range p k"
    and "\<not> auto_vacuum q0" and "4 \<le> p_page_size p"
  shows "\<exists>q. free_page k q0 = (q, Inr ())
    \<and> first_freelist_trunk (p_header (pager_rollback q)) = k
    \<and> freelist_count (p_header (pager_rollback q)) = freelist_count (p_header q0) + 1
    \<and> view (pager_rollback q) k = view p k"
proof -
  note b = begin_write_txn [OF assms(1,2)]
  have r: "in_range q0 k" "4 \<le> p_page_size q0" using assms(3,5) b by (simp_all add: in_range_def)
  obtain q where q: "free_page k q0 = (q, Inr ())" "txn_ok q" "first_freelist_trunk (p_header q) = k"
      "freelist_count (p_header q) = freelist_count (p_header q0) + 1" "same_base q0 q"
    using free_page_result [OF b(1) r(1) assms(4) r(2)] by blast
  note rb = rollback_idle [OF q(2)]
  obtain t where "p_txn q = Some t" using q(2) by (auto elim!: txn_okE)
  then have "p_header (pager_rollback q) = p_header q" by (simp add: pager_rollback_def)
  moreover have "view (pager_rollback q) k = view p k"
    using idle_view [OF rb(1)] idle_view [OF assms(1)] rb b q(5) by (simp add: base_page_def same_base_def)
  ultimately show ?thesis using q by auto
qed

lemma sample_db_begin_header: "p_header (fst (begin_write 5 True sample_db)) = fresh_header 512"
  by (simp add: begin_write_def in_write_txn_def sample_db_def pager_of_def then_op_def bind_op_def
      pager_lock_def mem_lock_def new_sys_def lock_state_default_def apply_lock_def level_order Let_def)

theorem rollback_keeps_freelist_head_witness:
  "\<exists>q. free_page 2 (fst (begin_write 5 True sample_db)) = (q, Inr ())
    \<and> first_freelist_trunk (p_header (pager_rollback q)) = 2 \<and> view (pager_rollback q) 2 = replicate 512 7"
proof -
  have v: "view sample_db 2 = replicate 512 7"
    by (simp add: idle_view [OF sample_db_idle] base_page_def file_read_at_sub sub_def)
  show ?thesis
    using rollback_keeps_freelist_head [OF sample_db_idle sample_db_begin, of 2] v
    by (auto simp: in_range_def auto_vacuum_def sample_db_begin_header fresh_header_def)
qed

text \<open>
  C34. A page taken from the freelist changes the trunk page without journaling it: in a transaction
  whose first trunk has leaf pointers and has not been touched, \<open>allocate_page\<close> puts a new version of
  the trunk into the overlay while the journal holds no record of it, so that a crash during the
  commit cannot restore it.
\<close>

theorem freelist_trunk_not_journaled:
  assumes "txn_ok p" and "trunk = first_freelist_trunk (p_header p)" and "in_range p trunk"
    and "freelist_count (p_header p) \<noteq> 0" and "\<not> journaled p trunk"
    and "n = be_u32 (sub 4 8 (view p trunk))" and "n \<noteq> 0" and "8 + unat n * 4 \<le> p_page_size p"
  shows "\<exists>q leaf. allocate_page p = (q, Inr leaf) \<and> trunk \<in> fst ` set (p_dirty q) \<and> \<not> journaled q trunk
    \<and> \<not> txn_ok q"
proof -
  obtain p1 where p1: "get_page trunk p = (p1, Inr (view p trunk))" "txn_ok p1" "same_but_cache p p1"
    using get_page_txn [OF assms(1,3)] by blast
  note f = same_but_cache_fields [OF p1(3)]
  have pok: "pager_ok p" using assms(1) by (simp add: txn_ok_def)
  note len = length_view [OF pok assms(3)]
  have nz: "trunk \<noteq> 0" using assms(3) by (simp add: in_range_def)
  have alloc: "allocate_page p = allocate_from_freelist trunk p"
    using assms(2,4) nz by (simp add: allocate_page_def word_neq_0_conv [symmetric])
  let ?leaf = "be_u32 (sub (4 + unat n * 4) (8 + unat n * 4) (view p trunk))"
  have fin: "\<exists>q leaf. allocate_page p = (q, Inr leaf) \<and> trunk \<in> fst ` set (p_dirty q) \<and> p_txn q = p_txn p"
    using alloc p1(1) assms(4,6-8) len f
    by (simp add: allocate_from_freelist_def read_trunk_def bind_op_def Let_def write_page_def
        with_header_mut_def add.commute)
  then obtain q leaf where q: "allocate_page p = (q, Inr leaf)" "trunk \<in> fst ` set (p_dirty q)" "p_txn q = p_txn p"
    by blast
  have nj: "\<not> journaled q trunk" using assms(5) q(3) by (simp add: journaled_def)
  then have "\<not> txn_ok q"
    using q(2) by (force simp: txn_ok_def journaled_def covered_def not_less split: option.splits)
  then show ?thesis using q nj by blast
qed

text \<open>A database of three pages whose second page is a trunk with the third as its leaf.\<close>

definition sample_freelist :: pager where
  "sample_freelist = pager_of ''db'' 0 None
     (replicate 512 7 @ (be_enc 4 (0 :: u32) @ be_enc 4 (1 :: u32) @ be_enc 4 (3 :: u32) @ replicate 500 0)
        @ replicate 512 0, None, new_sys 2)
     ((fresh_header 512)\<lparr>first_freelist_trunk := 2, freelist_count := 2\<rparr>) 3 [] None"

lemma sample_freelist_fields:
  "p_page_size sample_freelist = 512" "p_page_count sample_freelist = 3"
  "first_freelist_trunk (p_header sample_freelist) = 2" "freelist_count (p_header sample_freelist) = 2"
  "length (p_db sample_freelist) = 1536" "idle sample_freelist"
proof -
  have le: "unat k * 512 \<le> 1536" if "k \<le> 3" for k :: u32 using that by (simp add: word_le_nat_alt)
  show "idle sample_freelist"
    unfolding idle_def pager_ok_def cache_ok_def overlay_ok_def using le
    by (auto simp: sample_freelist_def pager_of_def fresh_header_def)
qed (simp_all add: sample_freelist_def pager_of_def fresh_header_def)

theorem freelist_trunk_not_journaled_witness:
  "\<exists>q leaf. allocate_page (fst (begin_write 5 True sample_freelist)) = (q, Inr leaf) \<and> \<not> txn_ok q"
proof -
  let ?p = "fst (begin_write 5 True sample_freelist)"
  have bw: "begin_write 5 True sample_freelist = (?p, Inr ())" and h: "p_header ?p = p_header sample_freelist"
    and j: "\<not> journaled ?p 2" and d: "p_dirty ?p = []"
    by (simp_all add: begin_write_def in_write_txn_def sample_freelist_def pager_of_def then_op_def bind_op_def
      pager_lock_def mem_lock_def new_sys_def lock_state_default_def apply_lock_def level_order Let_def journaled_def
      pager_page_count_def)
  note b = begin_write_txn [OF sample_freelist_fields(6) bw]
  have "view ?p 2 = file_read_at (p_db sample_freelist) 512 512"
    using b d by (simp add: view_def base_page_def sample_freelist_fields)
  also have "\<dots> = be_enc 4 (0 :: u32) @ be_enc 4 (1 :: u32) @ be_enc 4 (3 :: u32) @ replicate 500 0"
    by (simp add: file_read_at_sub sub_def sample_freelist_def pager_of_def)
  finally have v: "be_u32 (sub 4 8 (view ?p 2)) = 1" by (simp add: sub_def be_u32_def codec_simps)
  show ?thesis
    using freelist_trunk_not_journaled [OF b(1), of 2 1] v h j b(3,4)
    by (auto simp: in_range_def sample_freelist_fields)
qed

text \<open>
  C26. In WAL mode the pager may hand out a page that is already in use: when the log's committed
  page count is larger than that of the database file at opening, \<open>allocate_page\<close> returns the page
  after the file's last one, which the log already holds, and overlays it with zeroes.
\<close>

theorem wal_allocates_used_page:
  assumes "p_wal p = Some w" and "w_mx_frame w \<noteq> 0" and "p_page_count p < w_n_page w"
    and "freelist_count (p_header p) = 0" and "\<not> auto_vacuum p"
    and "\<not> is_pending_byte_page (p_usable_size p) (p_page_count p + 1)"
  shows "\<exists>q. allocate_page p = (q, Inr (p_page_count p + 1)) \<and> p_page_count p + 1 \<le> pager_page_count p
    \<and> snd (get_page (p_page_count p + 1) q) = Inr (replicate (p_page_size p) 0)"
proof -
  have ne: "p_page_count p \<noteq> -1" using assms(3) by (metis word_order.extremum_strict)
  note np = next_page [OF ne]
  have le: "p_page_count p + 1 \<le> w_n_page w"
    using assms(3) np(2) [of "w_n_page w"] by (metis inc_le)
  have a: "allocate_page p = (add_page p, Inr (p_page_count p + 1))"
    using assms(4-6) ne by (simp add: allocate_page_def extend_pages_unfold [of p])
  have "pager_page_count (add_page p) = w_n_page w"
    using assms(1,2) le by (simp add: pager_page_count_def add_page_def max_def)
  then have "snd (get_page (p_page_count p + 1) (add_page p)) = Inr (replicate (p_page_size p) 0)"
    using le np(3) by (simp add: get_page_def cached_def not_less) (simp add: add_page_def)
  then show ?thesis
    using a le assms(1,2,3) by (auto simp: pager_page_count_def max_def)
qed

theorem wal_allocates_used_page_witness:
  "\<exists>q. allocate_page (sample_pager\<lparr>p_wal :=
        Some (wal_of sample_header (wal_image sample_header [(3, 3, replicate 8 7)]) [(3, 3, replicate 8 7)])\<rparr>) =
      (q, Inr 3) \<and> snd (get_page 3 q) = Inr (replicate 8 0)"
  using wal_allocates_used_page [of "sample_pager\<lparr>p_wal :=
        Some (wal_of sample_header (wal_image sample_header [(3, 3, replicate 8 7)]) [(3, 3, replicate 8 7)])\<rparr>"]
  by (auto simp: wal_of_def f_commit_def sample_pager_def pager_of_def fresh_header_def auto_vacuum_def
      is_pending_byte_page_def)

end
