(* ===== verification/Varint.thy ===== *)
theory Varint
  imports Errors
begin

text \<open>
  The SQLite varint codec (\<open>format/varint.rs\<close>): big-endian groups of seven bits, at most nine
  bytes, the ninth carrying eight bits. \<open>read_varint\<close>, \<open>varint_len\<close> and \<open>write_varint\<close> follow
  the loops of the source; the lemmas show that the writer's bytes are read back, that
  \<open>varint_len\<close> predicts their number, and that the reader never looks past nine bytes or past the
  end of the buffer.
\<close>

section \<open>The codec\<close>

fun read_varint_loop :: "nat \<Rightarrow> bytes \<Rightarrow> nat \<Rightarrow> u64 \<Rightarrow> (u64 \<times> nat) option" where
  "read_varint_loop 0 buf i result =
     (case get_opt buf 8 of
        None \<Rightarrow> None
      | Some byte \<Rightarrow> Some (push_bit 8 result OR ucast byte, 9))"
| "read_varint_loop (Suc k) buf i result =
     (case get_opt buf i of
        None \<Rightarrow> None
      | Some byte \<Rightarrow>
          (let result' = push_bit 7 result OR ucast (byte AND 0x7f) in
           if byte AND 0x80 = 0 then Some (result', i + 1)
           else read_varint_loop k buf (i + 1) result'))"

definition read_varint :: "bytes \<Rightarrow> (u64 \<times> nat) option" where
  "read_varint buf = read_varint_loop 8 buf 0 0"

text \<open>The cast \<open>v as i64\<close> keeps the bit pattern.\<close>

definition read_varint_i64 :: "bytes \<Rightarrow> (i64 \<times> nat) option" where
  "read_varint_i64 buf = map_option (\<lambda>(v, n). (v, n)) (read_varint buf)"

lemma drop_bit_7_decreases: "v \<noteq> 0 \<Longrightarrow> unat (drop_bit 7 v) < unat (v :: u64)"
proof -
  assume "v \<noteq> 0"
  then have "0 < unat v" by (simp add: unat_gt_0)
  moreover have "unat (drop_bit 7 v) = unat v div 2 ^ 7" by (simp add: drop_bit_eq_div unat_div)
  ultimately show ?thesis by simp
qed

function varint_len_loop :: "u64 \<Rightarrow> nat \<Rightarrow> nat" where
  "varint_len_loop v len = (if v \<noteq> 0 then varint_len_loop (drop_bit 7 v) (len + 1) else len)"
  by pat_completeness auto
termination
  by (relation "measure (\<lambda>(v, len). unat v)") (auto simp: drop_bit_7_decreases)

definition varint_len :: "u64 \<Rightarrow> nat" where
  "varint_len v =
     (if v AND 0xff00000000000000 \<noteq> 0 then 9 else varint_len_loop (drop_bit 7 v) 1)"

text \<open>
  The nine-byte form fills eight slots from the last one down; the short form emits the groups
  least significant first into \<open>tmp\<close>, clears the continuation bit of \<open>tmp[0]\<close> and pushes \<open>tmp\<close>
  in reverse. \<open>write_varint\<close> gives the bytes appended to \<open>out\<close>; the returned count is their
  number.
\<close>

definition group_byte :: "u64 \<Rightarrow> u8" where
  "group_byte v = (ucast v AND 0x7f) OR 0x80"

fun fill_groups :: "nat \<Rightarrow> u64 \<Rightarrow> bytes \<Rightarrow> bytes" where
  "fill_groups 0 v acc = acc"
| "fill_groups (Suc n) v acc = fill_groups n (drop_bit 7 v) (group_byte v # acc)"

function low_groups :: "u64 \<Rightarrow> bytes" where
  "low_groups v =
     group_byte v # (if drop_bit 7 v = 0 then [] else low_groups (drop_bit 7 v))"
  by pat_completeness auto
termination
proof (relation "measure unat", simp)
  fix v :: u64
  assume "drop_bit 7 v \<noteq> 0"
  then have "v \<noteq> 0" by auto
  then show "(drop_bit 7 v, v) \<in> measure unat" by (simp add: drop_bit_7_decreases)
qed

definition write_varint :: "u64 \<Rightarrow> bytes" where
  "write_varint v =
     (if v AND 0xff00000000000000 \<noteq> 0
      then fill_groups 8 (drop_bit 8 v) [] @ [ucast (v AND 0xff)]
      else (let tmp = low_groups v in rev (tmp[0 := tmp ! 0 AND 0x7f])))"

declare varint_len_loop.simps [simp del] low_groups.simps [simp del]

section \<open>Reading groups\<close>

definition read_group :: "u64 \<Rightarrow> u8 \<Rightarrow> u64" where
  "read_group acc b = push_bit 7 acc OR ucast (b AND 0x7f)"

lemma group_byte_continues [simp]: "group_byte v AND 0x80 \<noteq> 0"
proof -
  have "bit (group_byte v AND 0x80) 7" by (simp add: group_byte_def bit_simps)
  then show ?thesis by (metis bit_0_eq bot_fun_def bot_bool_def)
qed

lemma masked_stops [simp]: "(b AND 0x7f) AND 0x80 = (0 :: u8)"
  by (simp add: and.assoc)

lemma read_group_masked [simp]: "read_group acc (b AND 0x7f) = read_group acc b"
  by (simp add: read_group_def and.assoc)

lemma and_7f: "(b :: u8) AND 0x7f = take_bit 7 b"
  by (simp add: take_bit_eq_mask mask_eq_exp_minus_1)

lemma bit_80: "bit (0x80 :: u8) k \<longleftrightarrow> k = 7"
  using bit_exp_iff [of 7 k, where 'a = u8] by (auto simp: possible_bit_def)

lemma read_group_group_byte [simp]: "read_group (drop_bit 7 v) (group_byte v) = v"
proof (rule bit_word_eqI)
  fix k
  assume "k < LENGTH(64)"
  then show "bit (read_group (drop_bit 7 v) (group_byte v)) k = bit v k"
    by (cases "k < 7") (simp_all add: read_group_def group_byte_def and_7f bit_simps bit_80)
qed

lemma read_varint_groups:
  assumes "\<forall>b \<in> set cont. b AND 0x80 \<noteq> 0" and "length cont < k" and "final AND 0x80 = 0"
    and "k + length pre = 8"
  shows "read_varint_loop k (pre @ cont @ final # rest) (length pre) acc =
     Some (foldl read_group acc (cont @ [final]), length pre + length cont + 1)"
  using assms
proof (induction cont arbitrary: k pre acc)
  case Nil
  then obtain k' where "k = Suc k'" by (cases k) auto
  with Nil show ?case by (simp add: Let_def read_group_def)
next
  case (Cons b cont)
  then obtain k' where k: "k = Suc k'" by (cases k) auto
  have "read_varint_loop k' ((pre @ [b]) @ cont @ final # rest) (length (pre @ [b]))
          (read_group acc b) =
        Some (foldl read_group (read_group acc b) (cont @ [final]),
          length (pre @ [b]) + length cont + 1)"
    by (rule Cons.IH) (use Cons.prems k in auto)
  then show ?case using Cons.prems k by (simp add: Let_def flip: read_group_def)
qed

lemma read_varint_nine:
  assumes "\<forall>b \<in> set cont. b AND 0x80 \<noteq> 0" and "length cont = k" and "k + length pre = 8"
  shows "read_varint_loop k (pre @ cont @ final # rest) (length pre) acc =
     Some (push_bit 8 (foldl read_group acc cont) OR ucast final, 9)"
  using assms
proof (induction cont arbitrary: k pre acc)
  case Nil
  then have "(pre @ final # rest) ! 8 = final" by (metis add_0 list.size(3) nth_append_length)
  with Nil show ?case by simp
next
  case (Cons b cont)
  then obtain k' where k: "k = Suc k'" by (cases k) auto
  have "read_varint_loop k' ((pre @ [b]) @ cont @ final # rest) (length (pre @ [b]))
          (read_group acc b) =
        Some (push_bit 8 (foldl read_group (read_group acc b) cont) OR ucast final, 9)"
    by (rule Cons.IH) (use Cons.prems k in auto)
  then show ?case using Cons.prems k by (simp add: Let_def flip: read_group_def)
qed

section \<open>The writer's groups\<close>

lemma fill_groups_append: "fill_groups n v acc = fill_groups n v [] @ acc"
proof (induction n arbitrary: v acc)
  case 0
  then show ?case by simp
next
  case (Suc n)
  show ?case
    by (simp add: Suc [of _ "group_byte v # acc"] Suc [of _ "[group_byte v]"])
qed

lemma length_fill_groups [simp]: "length (fill_groups n v acc) = n + length acc"
  by (induction n v acc rule: fill_groups.induct) auto

lemma fill_groups_continue:
  "\<forall>b \<in> set acc. b AND 0x80 \<noteq> 0 \<Longrightarrow> b \<in> set (fill_groups n v acc) \<Longrightarrow> b AND 0x80 \<noteq> 0"
  by (induction n v acc rule: fill_groups.induct) auto

lemma foldl_fill_groups:
  "drop_bit (7 * n) v = 0 \<Longrightarrow> foldl read_group 0 (fill_groups n v []) = v"
proof (induction n arbitrary: v)
  case 0
  then show ?case by simp
next
  case (Suc n)
  then have "foldl read_group 0 (fill_groups n (drop_bit 7 v) []) = drop_bit 7 v"
    by (simp add: drop_bit_drop_bit add.commute)
  then show ?case
    by (simp add: fill_groups_append [of n _ "[group_byte v]"])
qed

lemma low_groups_nonempty [simp]: "low_groups v \<noteq> []"
  by (subst low_groups.simps) simp

lemma low_groups_hd: "low_groups v ! 0 = group_byte v"
  by (subst low_groups.simps) simp

lemma low_groups_continue: "b \<in> set (low_groups v) \<Longrightarrow> b AND 0x80 \<noteq> 0"
proof (induction v rule: low_groups.induct)
  case (1 v)
  then show ?case by (cases "drop_bit 7 v = 0") (auto simp: low_groups.simps [of v])
qed

lemma length_low_groups_bound: "drop_bit (7 * Suc n) v = 0 \<Longrightarrow> length (low_groups v) \<le> Suc n"
proof (induction n arbitrary: v)
  case 0
  then show ?case by (subst low_groups.simps) simp
next
  case (Suc n)
  then have "drop_bit (7 * Suc n) (drop_bit 7 v) = 0"
    by (simp add: drop_bit_drop_bit add.commute)
  from Suc.IH [OF this] show ?case by (subst low_groups.simps) simp
qed

lemma foldl_low_groups: "foldl read_group 0 (rev (low_groups v)) = v"
proof (induction v rule: low_groups.induct)
  case (1 v)
  show ?case
  proof (cases "drop_bit 7 v = 0")
    case True
    then show ?thesis using read_group_group_byte [of v] by (simp add: low_groups.simps [of v])
  next
    case False
    with 1 show ?thesis by (simp add: low_groups.simps [of v])
  qed
qed

lemma varint_len_loop_groups:
  "varint_len_loop (drop_bit 7 v) n = n + length (low_groups v) - 1"
proof (induction v arbitrary: n rule: low_groups.induct)
  case (1 v)
  show ?case
  proof (cases "drop_bit 7 v = 0")
    case True
    then show ?thesis by (simp add: varint_len_loop.simps low_groups.simps [of v])
  next
    case False
    with 1 [of "n + 1"] show ?thesis
      by (simp add: varint_len_loop.simps [of "drop_bit 7 v"] low_groups.simps [of v])
  qed
qed

lemma top_byte_clear: "v AND 0xff00000000000000 = 0 \<longleftrightarrow> drop_bit 56 (v :: u64) = 0"
proof -
  have m: "(0xff00000000000000 :: u64) = push_bit 56 (mask 8)"
    by (simp add: mask_eq_exp_minus_1 push_bit_eq_mult)
  have "v AND push_bit 56 (mask 8) = push_bit 56 (drop_bit 56 v)"
  proof (rule bit_word_eqI)
    fix k
    assume "k < LENGTH(64)"
    then show "bit (v AND push_bit 56 (mask 8)) k = bit (push_bit 56 (drop_bit 56 v)) k"
      by (auto simp: bit_simps)
  qed
  moreover have "push_bit 56 (drop_bit 56 v) = 0 \<longleftrightarrow> drop_bit 56 v = 0"
  proof
    assume *: "push_bit 56 (drop_bit 56 v) = 0"
    show "drop_bit 56 v = 0"
    proof (rule bit_word_eqI)
      fix k
      assume k: "k < LENGTH(64)"
      have "bit (push_bit 56 (drop_bit 56 v)) (k + 56) = bit (0 :: u64) (k + 56)" using * by simp
      then show "bit (drop_bit 56 v) k = bit (0 :: u64) k"
        using bit_imp_le_length [of v "56 + k"] by (auto simp: bit_simps)
    qed
  qed simp
  ultimately show ?thesis by (simp add: m)
qed


lemma write_short:
  assumes "v AND 0xff00000000000000 = 0"
  shows "\<exists>cont. write_varint v = cont @ [group_byte v AND 0x7f]
     \<and> cont = rev (tl (low_groups v)) \<and> length cont < 8"
proof -
  obtain gs where gs: "low_groups v = group_byte v # gs"
    using low_groups_hd [of v] by (cases "low_groups v") auto
  have "length (low_groups v) \<le> Suc 7"
    using assms by (intro length_low_groups_bound) (simp add: top_byte_clear)
  then show ?thesis using assms gs by (simp add: write_varint_def Let_def)
qed

section \<open>Correctness of the codec\<close>

lemma length_write_varint: "length (write_varint v) = varint_len v"
  by (auto simp: write_varint_def varint_len_def Let_def varint_len_loop_groups)

lemma varint_len_bounds: "1 \<le> varint_len v" "varint_len v \<le> 9"
proof -
  have "length (low_groups v) \<le> Suc 7" if "v AND 0xff00000000000000 = 0"
    using that by (intro length_low_groups_bound) (simp add: top_byte_clear)
  then show "1 \<le> varint_len v" "varint_len v \<le> 9"
    by (auto simp: varint_len_def varint_len_loop_groups Suc_le_eq)
qed

lemma read_write_varint [codec_simps]:
  "read_varint (write_varint v @ rest) = Some (v, varint_len v)"
proof (cases "v AND 0xff00000000000000 = 0")
  case True
  then obtain cont where w: "write_varint v = cont @ [group_byte v AND 0x7f]"
    and c: "cont = rev (tl (low_groups v))" and l: "length cont < 8"
    using write_short by blast
  have g: "low_groups v = group_byte v # tl (low_groups v)"
    using low_groups_hd [of v] by (cases "low_groups v") auto
  have "\<forall>b \<in> set cont. b AND 0x80 \<noteq> 0"
    using c low_groups_continue [of _ v] g by (metis list.set_intros(2) set_rev)
  then have "read_varint_loop 8 ([] @ cont @ (group_byte v AND 0x7f) # rest)
        (length ([] :: bytes)) 0 =
      Some (foldl read_group 0 (cont @ [group_byte v AND 0x7f]),
        length ([] :: bytes) + length cont + 1)"
    by (rule read_varint_groups) (use l in simp_all)
  moreover have "foldl read_group 0 (cont @ [group_byte v AND 0x7f]) = v"
    using foldl_low_groups [of v] c g by (metis foldl_append foldl_Cons foldl_Nil
        read_group_masked rev.simps(2))
  moreover have "length cont + 1 = varint_len v"
    using length_write_varint [of v] w by simp
  ultimately show ?thesis using w by (simp add: read_varint_def)
next
  case False
  let ?cont = "fill_groups 8 (drop_bit 8 v) []"
  have w: "write_varint v = ?cont @ [ucast (v AND 0xff)]"
    using False by (simp add: write_varint_def)
  have "read_varint_loop 8 ([] @ ?cont @ ucast (v AND 0xff) # rest) (length ([] :: bytes)) 0 =
      Some (push_bit 8 (foldl read_group 0 ?cont) OR ucast (ucast (v AND 0xff) :: u8), 9)"
    by (rule read_varint_nine) (use fill_groups_continue [where acc = "[]"] in simp_all)
  moreover have "foldl read_group 0 ?cont = drop_bit 8 v"
    by (rule foldl_fill_groups) (simp add: drop_bit_drop_bit drop_bit_eq_zero_iff_not_bit_last)
  moreover have "push_bit 8 (drop_bit 8 v) OR ucast (ucast (v AND 0xff) :: u8) = v"
  proof (rule bit_word_eqI)
    fix k
    assume "k < LENGTH(64)"
    have "(v AND 0xff) = take_bit 8 v" by (simp add: take_bit_eq_mask mask_eq_exp_minus_1)
    with \<open>k < LENGTH(64)\<close>
    show "bit (push_bit 8 (drop_bit 8 v) OR ucast (ucast (v AND 0xff) :: u8)) k = bit v k"
      by (cases "k < 8") (simp_all add: bit_simps)
  qed
  moreover have "varint_len v = 9" using False by (simp add: varint_len_def)
  ultimately show ?thesis using w by (simp add: read_varint_def)
qed

section \<open>Length as a function of the magnitude\<close>

lemma drop_bit_0_iff: "drop_bit n (v :: u64) = 0 \<longleftrightarrow> unat v < 2 ^ n"
proof -
  have "unat (drop_bit n v) = unat v div 2 ^ n"
    unfolding unat_drop_bit_eq by (simp add: drop_bit_eq_div)
  then have "drop_bit n v = 0 \<longleftrightarrow> unat v div 2 ^ n = 0" by (metis unat_eq_zero)
  then show ?thesis by (simp add: div_eq_0_iff)
qed

lemma length_low_groups_iff: "length (low_groups v) \<le> Suc n \<longleftrightarrow> drop_bit (7 * Suc n) v = 0"
proof
  show "length (low_groups v) \<le> Suc n \<Longrightarrow> drop_bit (7 * Suc n) v = 0"
  proof (induction n arbitrary: v)
    case 0
    then show ?case by (subst (asm) low_groups.simps) (auto split: if_splits)
  next
    case (Suc n)
    show ?case
    proof (cases "drop_bit 7 v = 0")
      case True
      then have "drop_bit (7 * Suc n + 7) v = 0" by (metis drop_bit_drop_bit drop_bit_of_0)
      then show ?thesis by (simp add: add.commute)
    next
      case False
      then have "length (low_groups (drop_bit 7 v)) \<le> Suc n"
        using Suc.prems by (subst (asm) low_groups.simps) simp
      from Suc.IH [OF this] show ?thesis by (simp add: drop_bit_drop_bit add.commute)
    qed
  qed
qed (rule length_low_groups_bound)

lemma varint_len_le_iff:
  assumes "1 \<le> n" and "n \<le> 8"
  shows "varint_len v \<le> n \<longleftrightarrow> unat v < 2 ^ (7 * n)"
proof -
  obtain m where n: "n = Suc m" using assms by (cases n) auto
  show ?thesis
  proof (cases "v AND 0xff00000000000000 = 0")
    case True
    then have "varint_len v = length (low_groups v)"
      by (simp add: varint_len_def varint_len_loop_groups Suc_le_eq)
    then show ?thesis unfolding n by (simp only: length_low_groups_iff drop_bit_0_iff)
  next
    case False
    then have "2 ^ 56 \<le> unat v" using drop_bit_0_iff [of 56 v] top_byte_clear [of v] by simp
    moreover have "(2 :: nat) ^ (7 * n) \<le> 2 ^ 56" using assms by (intro power_increasing) auto
    ultimately show ?thesis using False assms by (simp add: varint_len_def)
  qed
qed

lemma varint_len_mono: "unat a \<le> unat b \<Longrightarrow> varint_len a \<le> varint_len b"
proof (cases "varint_len b \<le> 8")
  case True
  assume "unat a \<le> unat b"
  then have "unat a < 2 ^ (7 * varint_len b)"
    using varint_len_le_iff [of "varint_len b" b] varint_len_bounds(1) [of b] True by simp
  then show ?thesis using varint_len_le_iff [of "varint_len b" a] varint_len_bounds(1) [of b] True
    by simp
next
  case False
  then show ?thesis using varint_len_bounds(2) [of a] by linarith
qed

end
