(* ===== verification/Btree_Page.thy ===== *)
theory Btree_Page
  imports Header
begin

text \<open>
  B-tree pages (\<open>btree/page.rs\<close>): header parsing, the cell-pointer array, empty pages, inserting a
  cell and rewriting a page from a list of cells. The functions work on the page buffer the pager
  hands out and panic where a slice would be out of range.

  The abstract view is the list of cells a page holds, in the order of its pointer array
  (\<open>holds\<close>). The lemmas show that an empty page holds nothing, that inserting a cell inserts it
  into the list at that index and fails only for want of room, and that a rewritten page holds
  exactly the cells given.
\<close>

datatype page_type = InteriorIndex | InteriorTable | LeafIndex | LeafTable

definition page_type_from_byte :: "u8 \<Rightarrow> page_type result" where
  "page_type_from_byte b =
     (if b = 0x02 then Inr InteriorIndex
      else if b = 0x05 then Inr InteriorTable
      else if b = 0x0a then Inr LeafIndex
      else if b = 0x0d then Inr LeafTable
      else Inl (corrupt (''invalid b-tree page type '' @ hex_byte b)))"

definition is_leaf :: "page_type \<Rightarrow> bool" where
  "is_leaf t \<longleftrightarrow> t = LeafIndex \<or> t = LeafTable"

definition is_table :: "page_type \<Rightarrow> bool" where
  "is_table t \<longleftrightarrow> t = InteriorTable \<or> t = LeafTable"

record page_header =
  ph_page_type :: page_type
  ph_first_freeblock :: u16
  ph_num_cells :: u16
  ph_cell_content_start :: nat
  ph_fragmented_free_bytes :: u8
  ph_right_most_pointer :: "u32 option"
  ph_header_size :: nat
  ph_base_offset :: nat

definition content_start_of :: "u16 \<Rightarrow> nat" where
  "content_start_of raw = (if raw = 0 then 65536 else unat raw)"

definition page_header_parse :: "bytes \<Rightarrow> nat \<Rightarrow> page_header result" where
  "page_header_parse page h =
     (if length page < h + 8 then Inl (corrupt ''page too small for a b-tree header'')
      else and_then (page_type_from_byte (page ! h)) (\<lambda>t.
        if \<not> is_leaf t \<and> length page < h + 12
        then Inl (corrupt ''interior page too small for a 12-byte header'')
        else Inr \<lparr>ph_page_type = t,
                  ph_first_freeblock = be_u16 (sub (h + 1) (h + 3) page),
                  ph_num_cells = be_u16 (sub (h + 3) (h + 5) page),
                  ph_cell_content_start = content_start_of (be_u16 (sub (h + 5) (h + 7) page)),
                  ph_fragmented_free_bytes = page ! (h + 7),
                  ph_right_most_pointer = (if is_leaf t then None else Some (be_u32 (sub (h + 8) (h + 12) page))),
                  ph_header_size = (if is_leaf t then 8 else 12),
                  ph_base_offset = h\<rparr>))"

definition cell_pointer :: "page_header \<Rightarrow> bytes \<Rightarrow> nat \<Rightarrow> nat result" where
  "cell_pointer ph page i =
     (let ptr_off = ph_base_offset ph + ph_header_size ph + i * 2 in
      if length page < ptr_off + 2 then Inl (corrupt ''cell pointer array out of range'')
      else Inr (unat (be_u16 (sub ptr_off (ptr_off + 2) page))))"

section \<open>Empty pages\<close>

definition stored_start :: "nat \<Rightarrow> u16" where
  "stored_start n = (if n = 65536 then 0 else of_nat n)"

text \<open>The body the four initialisers share: zero the page from \<open>h\<close> on, then write the header.\<close>

definition empty_header :: "u8 \<Rightarrow> nat \<Rightarrow> nat \<Rightarrow> (nat \<times> bytes) list" where
  "empty_header ty h psize =
     [(h, [ty]), (h + 1, be_enc 2 (0 :: u16)), (h + 3, be_enc 2 (0 :: u16)),
      (h + 5, be_enc 2 (stored_start psize)), (h + 7, [0])]"

definition zero_from :: "nat \<Rightarrow> bytes \<Rightarrow> bytes" where
  "zero_from h page = take h page @ replicate (length page - h) 0"

definition init_leaf_page :: "u8 \<Rightarrow> bytes \<Rightarrow> nat \<Rightarrow> bytes result" where
  "init_leaf_page ty page h =
     (if length page < h + 8 then Inl Panic
      else Inr (put_all (empty_header ty h (length page)) (zero_from h page)))"

definition init_interior_page :: "u8 \<Rightarrow> bytes \<Rightarrow> nat \<Rightarrow> u32 \<Rightarrow> bytes result" where
  "init_interior_page ty page h right_most =
     (if length page < h + 12 then Inl Panic
      else Inr (put_all (empty_header ty h (length page) @ [(h + 8, be_enc 4 right_most)])
                  (zero_from h page)))"

definition init_empty_index_leaf :: "bytes \<Rightarrow> nat \<Rightarrow> bytes result" where
  "init_empty_index_leaf = init_leaf_page 0x0a"

definition init_empty_interior_index :: "bytes \<Rightarrow> nat \<Rightarrow> u32 \<Rightarrow> bytes result" where
  "init_empty_interior_index = init_interior_page 0x02"

definition init_empty_leaf :: "bytes \<Rightarrow> nat \<Rightarrow> bytes result" where
  "init_empty_leaf = init_leaf_page 0x0d"

definition init_empty_interior :: "bytes \<Rightarrow> nat \<Rightarrow> u32 \<Rightarrow> bytes result" where
  "init_empty_interior = init_interior_page 0x05"

section \<open>Inserting a cell\<close>

definition LEAF_HEADER_SIZE :: nat where "LEAF_HEADER_SIZE = 8"
definition INTERIOR_HEADER_SIZE :: nat where "INTERIOR_HEADER_SIZE = 12"

definition page_full_error :: failure where
  "page_full_error = error_msg ''btree page is full''"

definition num_cells :: "bytes \<Rightarrow> nat \<Rightarrow> nat" where
  "num_cells page h = unat (be_u16 (sub (h + 3) (h + 5) page))"

definition content_start :: "bytes \<Rightarrow> nat \<Rightarrow> nat" where
  "content_start page h = content_start_of (be_u16 (sub (h + 5) (h + 7) page))"

definition leaf_free_space :: "bytes \<Rightarrow> nat \<Rightarrow> nat" where
  "leaf_free_space page h = content_start page h - (h + LEAF_HEADER_SIZE + num_cells page h * 2)"

definition interior_free_space :: "bytes \<Rightarrow> nat \<Rightarrow> nat" where
  "interior_free_space page h = content_start page h - (h + INTERIOR_HEADER_SIZE + num_cells page h * 2)"

text \<open>
  The tail the leaf and interior insertions share, for a header of \<open>hs\<close> bytes: copy the cell below
  the content area, shift the pointers from \<open>idx\<close> on, write the new pointer, update the header.
\<close>

definition place_cell :: "nat \<Rightarrow> bytes \<Rightarrow> nat \<Rightarrow> nat \<Rightarrow> bytes \<Rightarrow> bytes result" where
  "place_cell hs page h idx cell =
     (let n = num_cells page h; ccs = content_start page h; ptr_at = (\<lambda>i. h + hs + i * 2) in
      if ccs < ptr_at n + length cell + 2 then Inl page_full_error
      else if length page < ccs then Inl Panic
      else (let ncs = ccs - length cell;
                p1 = put_at ncs cell page;
                p2 = (if idx < n then put_at (ptr_at (idx + 1)) (sub (ptr_at idx) (ptr_at n) p1) p1 else p1);
                p3 = put_at (ptr_at idx) (be_enc 2 (of_nat ncs :: u16)) p2;
                p4 = put_at (h + 3) (be_enc 2 (of_nat (n + 1) :: u16)) p3
            in Inr (put_at (h + 5) (be_enc 2 (stored_start ncs)) p4)))"

definition insert_leaf_cell :: "bytes \<Rightarrow> nat \<Rightarrow> nat \<Rightarrow> bytes \<Rightarrow> bytes result" where
  "insert_leaf_cell page h idx cell =
     (if length page \<le> h then Inl Panic
      else if page ! h \<noteq> 0x0d \<and> page ! h \<noteq> 0x0a
      then Inl (corrupt ''insert_leaf_cell: not a leaf-table or leaf-index page'')
      else if length page < h + 5 then Inl Panic
      else if num_cells page h < idx then Inl (corrupt ''insert_leaf_cell: index past cell count'')
      else if length page < h + 7 then Inl Panic
      else place_cell LEAF_HEADER_SIZE page h idx cell)"

definition insert_interior_cell :: "bytes \<Rightarrow> nat \<Rightarrow> nat \<Rightarrow> bytes \<Rightarrow> bytes result" where
  "insert_interior_cell page h idx cell =
     (if length page \<le> h then Inl Panic
      else if page ! h \<noteq> 0x05 \<and> page ! h \<noteq> 0x02
      then Inl (corrupt ''insert_interior_cell: not an interior-table or interior-index page'')
      else if length page < h + 5 then Inl Panic
      else if num_cells page h < idx then Inl (corrupt ''insert_interior_cell: index past cell count'')
      else if length page < h + 7 then Inl Panic
      else place_cell INTERIOR_HEADER_SIZE page h idx cell)"

section \<open>Rewriting a page\<close>

fun page_type_byte :: "page_type \<Rightarrow> u8" where
  "page_type_byte LeafTable = 0x0d"
| "page_type_byte InteriorTable = 0x05"
| "page_type_byte LeafIndex = 0x0a"
| "page_type_byte InteriorIndex = 0x02"

text \<open>
  The offsets of the cells, laid out from the end of the page downwards, the last cell first;
  \<open>None\<close> when the subtraction of a length underflows (a panic).
\<close>

fun cell_offsets :: "nat \<Rightarrow> bytes list \<Rightarrow> (nat list \<times> nat) option" where
  "cell_offsets psize [] = Some ([], psize)"
| "cell_offsets psize (c # cs) =
     (case cell_offsets psize cs of
        None \<Rightarrow> None
      | Some (offs, ccs) \<Rightarrow> if ccs < length c then None else Some ((ccs - length c) # offs, ccs - length c))"

fun write_cells :: "nat \<Rightarrow> (nat \<times> bytes) list \<Rightarrow> nat \<Rightarrow> bytes \<Rightarrow> bytes" where
  "write_cells ptr0 [] i page = page"
| "write_cells ptr0 ((off, cell) # cs) i page =
     write_cells ptr0 cs (i + 1)
       (put_at (ptr0 + i * 2) (be_enc 2 (of_nat off :: u16)) (put_at off cell page))"

text \<open>The \<open>u16\<close> beside each cell is not used by the source either; the model drops it.\<close>

definition write_page_cells :: "bytes \<Rightarrow> nat \<Rightarrow> page_type \<Rightarrow> u32 option \<Rightarrow> bytes list \<Rightarrow> bytes result" where
  "write_page_cells page h ty right_most cells =
     (let psize = length page; hs = (if is_leaf ty then 8 else 12) in
      if psize < h + 5 then Inl Panic
      else (let p0 = put_at (h + 3) (be_enc 2 (of_nat (length cells) :: u16))
                       (put_at (h + 1) (be_enc 2 (0 :: u16)) (put_at h [page_type_byte ty] (zero_from h page))) in
        case cell_offsets psize cells of
          None \<Rightarrow> Inl Panic
        | Some (offs, ccs) \<Rightarrow>
            if ccs < h + hs + length cells * 2 then Inl page_full_error
            else (let p1 = write_cells (h + hs) (zip offs cells) 0 p0;
                      p2 = put_at (h + 7) [0] (put_at (h + 5) (be_enc 2 (stored_start ccs)) p1)
                  in case right_most of
                       Some rm \<Rightarrow> if psize < h + 12 then Inl Panic else Inr (put_at (h + 8) (be_enc 4 rm) p2)
                     | None \<Rightarrow> Inr p2)))"

section \<open>The cells a page holds\<close>

definition ptr_of :: "nat \<Rightarrow> nat \<Rightarrow> bytes \<Rightarrow> nat \<Rightarrow> nat" where
  "ptr_of hs h page i = unat (be_u16 (sub (h + hs + i * 2) (h + hs + i * 2 + 2) page))"

definition holds :: "nat \<Rightarrow> nat \<Rightarrow> bytes \<Rightarrow> bytes list \<Rightarrow> bool" where
  "holds hs h page cs \<longleftrightarrow>
     length page \<le> 65536 \<and> num_cells page h = length cs
     \<and> h + hs + length cs * 2 \<le> content_start page h \<and> content_start page h \<le> length page
     \<and> (\<forall>i < length cs. content_start page h \<le> ptr_of hs h page i
          \<and> ptr_of hs h page i + length (cs ! i) \<le> length page
          \<and> sub (ptr_of hs h page i) (ptr_of hs h page i + length (cs ! i)) page = cs ! i)"

declare be_u16_enc [simp] and be_u32_enc [simp]

lemma unat_u16_small: "n < 65536 \<Longrightarrow> unat (of_nat n :: u16) = n"
  by (simp add: unat_of_nat)

lemma content_start_stored [simp]: "0 < n \<Longrightarrow> n \<le> 65536 \<Longrightarrow> content_start_of (stored_start n) = n"
proof -
  assume n: "0 < n" "n \<le> 65536"
  show ?thesis
  proof (cases "n = 65536")
    case False
    then have u: "unat (of_nat n :: u16) = n" using n by (intro unat_u16_small) simp
    then have "(of_nat n :: u16) \<noteq> 0" using n(1) by (metis unsigned_0 less_irrefl)
    then show ?thesis using False u by (simp add: content_start_of_def stored_start_def)
  qed (simp add: content_start_of_def stored_start_def)
qed

text \<open>
  A page with room for one more cell (\<open>hs\<close> is 8 or 12): the five writes of an insertion, and what
  they leave in the pointer array, the header and the content area.
\<close>

lemma place_cell_result:
  assumes "holds hs h page cs" and "8 \<le> hs" and "idx \<le> length cs" and "0 < length cell"
    and "h + hs + length cs * 2 + length cell + 2 \<le> content_start page h"
  shows "\<exists>page'. place_cell hs page h idx cell = Inr page' \<and> length page' = length page
    \<and> num_cells page' h = length cs + 1 \<and> content_start page' h = content_start page h - length cell
    \<and> (\<forall>i < length cs + 1. ptr_of hs h page' i =
          (if i < idx then ptr_of hs h page i
           else if i = idx then content_start page h - length cell else ptr_of hs h page (i - 1)))
    \<and> sub (content_start page h - length cell) (content_start page h) page' = cell
    \<and> drop (content_start page h) page' = drop (content_start page h) page
    \<and> take (h + 3) page' = take (h + 3) page \<and> sub (h + 7) (h + hs) page' = sub (h + 7) (h + hs) page"
proof -
  define n c L where "n = length cs" and "c = content_start page h" and "L = length cell"
  define P where "P i = h + hs + i * 2" for i
  define ncs where "ncs = c - L"
  have b: "c \<le> length page" "length page \<le> 65536" "num_cells page h = n" "P n + L + 2 \<le> c" "idx \<le> n" "0 < L"
    using assms by (auto simp: holds_def n_def c_def L_def P_def)
  then have ord: "P idx \<le> P n" "P n + 2 \<le> ncs" "ncs + L = c" "h + 8 \<le> P 0"
    using assms(2) by (auto simp: P_def ncs_def)
  define p1 where "p1 = put_at ncs cell page"
  define p2 where "p2 = (if idx < n then put_at (P (idx + 1)) (sub (P idx) (P n) p1) p1 else p1)"
  define p3 where "p3 = put_at (P idx) (be_enc 2 (of_nat ncs :: u16)) p2"
  define p4 where "p4 = put_at (h + 3) (be_enc 2 (of_nat (n + 1) :: u16)) p3"
  define p5 where "p5 = put_at (h + 5) (be_enc 2 (stored_start ncs)) p4"
  have pc: "place_cell hs page h idx cell = Inr p5"
    unfolding place_cell_def Let_def b(3) p5_def p4_def p3_def p2_def p1_def
    using b by (simp add: c_def [symmetric] ncs_def L_def P_def)
  have l1: "length p1 = length page" using ord b by (simp add: p1_def L_def)
  have ls: "length (sub (P idx) (P n) p1) = P n - P idx" using ord b l1 by simp
  have fit2: "P (idx + 1) + length (sub (P idx) (P n) p1) = P (n + 1)" using ord(1) ls by (simp add: P_def)
  have Pn: "P (n + 1) \<le> ncs" using ord(2) by (simp add: P_def)
  have l2: "length p2 = length page" using fit2 Pn ord b l1 by (simp add: p2_def)
  have Pi: "P i + 2 \<le> P n" if "i < n" for i using that by (simp add: P_def)
  have l3: "length p3 = length page" using l2 ord b by (simp add: p3_def)
  have hl: "h + 7 \<le> length page" using ord b by (simp add: P_def)
  have l4: "length p4 = length page" using l3 hl by (simp add: p4_def)
  have l5: "length p5 = length page" using l4 hl by (simp add: p5_def)
  have high: "sub x y p5 = sub x y p3" if "h + 7 \<le> x" for x y
    using that hl l3 l4 by (simp add: p5_def p4_def sub_put_at_disj)
  have n16: "num_cells p5 h = n + 1"
  proof -
    have "n + 1 < 65536" using ord(2) b by (simp add: P_def)
    then show ?thesis
      using hl l3 l4 unat_u16_small [of "n + 1"]
      by (simp add: num_cells_def p5_def p4_def sub_put_at_disj sub_put_at_same)
  qed
  have cs5: "content_start p5 h = ncs"
    using hl l4 ord b by (simp add: content_start_def p5_def sub_put_at_same P_def)
  have ptr: "ptr_of hs h p5 i = (if i < idx then ptr_of hs h page i else if i = idx then ncs else ptr_of hs h page (i - 1))"
    if i: "i < n + 1" for i
  proof -
    have e: "sub (P i) (P i + 2) p5 = sub (P i) (P i + 2) p3"
      using ord(4) by (intro high) (simp add: P_def)
    have below: "sub (P k) (P k + 2) p1 = sub (P k) (P k + 2) page" if "k < n" for k
      using Pi [OF that] ord b by (simp add: p1_def L_def sub_put_at_disj)
    consider "i < idx" | "i = idx" | "idx < i" by linarith
    then show ?thesis
    proof cases
      case 1
      then have "P i + 2 \<le> P idx" by (simp add: P_def)
      moreover have "P i + 2 \<le> P (idx + 1)" using 1 by (simp add: P_def)
      ultimately have "sub (P i) (P i + 2) p3 = sub (P i) (P i + 2) p1"
        using l1 l2 fit2 Pn ord b unfolding p3_def p2_def
        by (auto simp: sub_put_at_disj)
      then show ?thesis using 1 e below [of i] b(5) by (simp add: ptr_of_def P_def)
    next
      case 2
      then have "sub (P i) (P i + 2) p3 = be_enc 2 (of_nat ncs :: u16)"
        using l2 ord b by (simp add: p3_def sub_put_at_same)
      then show ?thesis using 2 e ord b unat_u16_small [of ncs] by (simp add: ptr_of_def P_def)
    next
      case 3
      then have idx: "idx < n" "i - 1 < n" and i1: "idx + 1 \<le> i" using i by auto
      have "sub (P i) (P i + 2) p3 = sub (P i) (P i + 2) p2"
        using 3 l2 ord b unfolding p3_def by (intro sub_put_at_disj) (auto simp: P_def)
      also have "\<dots> = sub (P i - P (idx + 1)) (P i + 2 - P (idx + 1)) (sub (P idx) (P n) p1)"
        using idx(1) i i1 fit2 Pn ord b l1 unfolding p2_def
        by (simp only: if_True, intro sub_put_at_inside) (auto simp: P_def)
      also have "\<dots> = sub (P (i - 1)) (P (i - 1) + 2) p1"
        using i1 i by (subst sub_sub) (auto simp: P_def intro!: arg_cong2 [where f = "\<lambda>x y. sub x y p1"])
      finally show ?thesis using 3 e below [OF idx(2)] by (simp add: ptr_of_def P_def)
    qed
  qed
  have keep: "sub x y p5 = sub x y p1" if "P (n + 1) \<le> x" for x y
  proof -
    have "h + 7 \<le> x" using that ord(4) by (simp add: P_def)
    then have "sub x y p5 = sub x y p3" by (rule high)
    also have "\<dots> = sub x y p2"
      using that l2 ord b unfolding p3_def by (intro sub_put_at_disj) (auto simp: P_def)
    also have "\<dots> = sub x y p1" using that fit2 Pn ord b l1 by (simp add: p2_def sub_put_at_disj)
    finally show ?thesis .
  qed
  have cell: "sub ncs c p5 = cell"
    using keep [OF Pn] ord b by (simp add: p1_def L_def sub_put_at_same)
  have "sub c (length page) p5 = sub c (length page) p1" using Pn ord by (intro keep) simp
  also have "\<dots> = sub c (length page) page" using ord b by (simp add: p1_def L_def sub_put_at_disj)
  finally have dr: "drop c p5 = drop c page" using l5 by (metis drop_eq_sub)
  have tk: "take (h + 3) p5 = take (h + 3) page"
    using l1 l2 l3 l4 hl ord b unfolding p5_def p4_def p3_def p2_def p1_def
    by (simp add: take_put_at_below P_def)
  have mid: "sub (h + 7) (h + hs) p5 = sub (h + 7) (h + hs) page"
  proof -
    have "sub (h + 7) (h + hs) p5 = sub (h + 7) (h + hs) p3" by (rule high) simp
    also have "\<dots> = sub (h + 7) (h + hs) p2" using l2 ord b unfolding p3_def by (intro sub_put_at_disj) (auto simp: P_def)
    also have "\<dots> = sub (h + 7) (h + hs) p1" using fit2 Pn ord b l1 by (auto simp: p2_def P_def intro: sub_put_at_disj)
    also have "\<dots> = sub (h + 7) (h + hs) page" using ord b by (auto simp: p1_def L_def P_def intro: sub_put_at_disj)
    finally show ?thesis .
  qed
  show ?thesis
    using pc l5 n16 cs5 ptr cell dr tk mid unfolding n_def c_def L_def ncs_def by blast
qed


text \<open>So the page holds the list with the cell inserted.\<close>

lemma place_cell_holds:
  assumes "holds hs h page cs" and "8 \<le> hs" and "idx \<le> length cs" and "0 < length cell"
    and "h + hs + length cs * 2 + length cell + 2 \<le> content_start page h"
  shows "\<exists>page'. place_cell hs page h idx cell = Inr page' \<and> length page' = length page
    \<and> holds hs h page' (take idx cs @ [cell] @ drop idx cs)
    \<and> take (h + 3) page' = take (h + 3) page \<and> sub (h + 7) (h + hs) page' = sub (h + 7) (h + hs) page"
proof -
  define c where "c = content_start page h"
  obtain q where q: "place_cell hs page h idx cell = Inr q" "length q = length page"
      "num_cells q h = length cs + 1" "content_start q h = c - length cell"
      "\<And>i. i < length cs + 1 \<Longrightarrow> ptr_of hs h q i =
          (if i < idx then ptr_of hs h page i else if i = idx then c - length cell else ptr_of hs h page (i - 1))"
      "sub (c - length cell) c q = cell" "drop c q = drop c page"
      "take (h + 3) q = take (h + 3) page" "sub (h + 7) (h + hs) q = sub (h + 7) (h + hs) page"
    using place_cell_result [OF assms] unfolding c_def by blast
  have old: "c \<le> ptr_of hs h page i" "ptr_of hs h page i + length (cs ! i) \<le> length page"
      "sub (ptr_of hs h page i) (ptr_of hs h page i + length (cs ! i)) q = cs ! i" if "i < length cs" for i
  proof -
    show le: "c \<le> ptr_of hs h page i" "ptr_of hs h page i + length (cs ! i) \<le> length page"
      using assms(1) that unfolding holds_def c_def by auto
    have "sub x y q = sub x y page" if "c \<le> x" for x y
      using q(7) that by (metis sub_def drop_drop le_add_diff_inverse2)
    then show "sub (ptr_of hs h page i) (ptr_of hs h page i + length (cs ! i)) q = cs ! i"
      using assms(1) le \<open>i < length cs\<close> unfolding holds_def by auto
  qed
  have bnd: "length page \<le> 65536" "c \<le> length page" "length cell \<le> c"
    using assms(1,5) unfolding holds_def c_def by auto
  let ?l = "take idx cs @ [cell] @ drop idx cs"
  have at: "c - length cell \<le> ptr_of hs h q i \<and> ptr_of hs h q i + length (?l ! i) \<le> length page
      \<and> sub (ptr_of hs h q i) (ptr_of hs h q i + length (?l ! i)) q = ?l ! i" if i: "i < length cs + 1" for i
  proof -
    consider "i < idx" | "i = idx" | "idx < i" by linarith
    then show ?thesis
    proof cases
      case 1
      then show ?thesis using i assms(3) q(5) [OF i] old [of i] by (simp add: nth_append)
    next
      case 2
      then show ?thesis using assms(3) q(5) [OF i] q(6) bnd by (simp add: nth_append)
    next
      case 3
      then obtain d where "i = idx + Suc d" using less_iff_Suc_add [of idx i] by auto
      then have "?l ! i = cs ! (i - 1)" "i - 1 < length cs" using i assms(3) by (simp_all add: nth_append)
      then show ?thesis using 3 q(5) [OF i] old [of "i - 1"] by simp
    qed
  qed
  have "holds hs h q ?l"
    unfolding holds_def q(2-4) using at bnd assms(3,5) by (auto simp: c_def)
  then show ?thesis using q by blast
qed

lemma holds_bounds:
  "holds hs h page cs \<Longrightarrow> 8 \<le> hs \<Longrightarrow> h + 8 \<le> length page \<and> num_cells page h = length cs
     \<and> content_start page h \<le> length page"
  by (auto simp: holds_def)

lemma place_cell_full:
  "holds hs h page cs \<Longrightarrow> content_start page h < h + hs + length cs * 2 + length cell + 2 \<Longrightarrow>
   place_cell hs page h idx cell = Inl page_full_error"
  by (simp add: place_cell_def holds_def Let_def)

text \<open>
  Inserting into a leaf either inserts the cell at its index among the cells of the page and keeps
  the rest of the header, or reports a full page, and does the latter exactly when the free space
  is short of the cell and its pointer.
\<close>

lemma insert_leaf_cell_cases:
  assumes "holds 8 h page cs" and "page ! h = 0x0d \<or> page ! h = 0x0a" and "idx \<le> length cs" and "0 < length cell"
  shows "if length cell + 2 \<le> leaf_free_space page h
    then \<exists>page'. insert_leaf_cell page h idx cell = Inr page' \<and> length page' = length page
           \<and> holds 8 h page' (take idx cs @ [cell] @ drop idx cs) \<and> take (h + 3) page' = take (h + 3) page
    else insert_leaf_cell page h idx cell = Inl page_full_error"
proof -
  have b: "h + 8 \<le> length page" "num_cells page h = length cs" using holds_bounds [OF assms(1)] by auto
  then have i: "insert_leaf_cell page h idx cell = place_cell 8 page h idx cell"
    using assms(2,3) by (auto simp: insert_leaf_cell_def LEAF_HEADER_SIZE_def)
  have room: "length cell + 2 \<le> leaf_free_space page h \<longleftrightarrow>
      h + 8 + length cs * 2 + length cell + 2 \<le> content_start page h"
    using b by (auto simp: leaf_free_space_def LEAF_HEADER_SIZE_def)
  show ?thesis
    using place_cell_holds [OF assms(1) _ assms(3,4)] place_cell_full [OF assms(1)]
    unfolding i room by (auto simp: not_le)
qed

lemma insert_interior_cell_cases:
  assumes "holds 12 h page cs" and "page ! h = 0x05 \<or> page ! h = 0x02" and "idx \<le> length cs" and "0 < length cell"
  shows "if length cell + 2 \<le> interior_free_space page h
    then \<exists>page'. insert_interior_cell page h idx cell = Inr page' \<and> length page' = length page
           \<and> holds 12 h page' (take idx cs @ [cell] @ drop idx cs) \<and> take (h + 3) page' = take (h + 3) page
           \<and> sub (h + 8) (h + 12) page' = sub (h + 8) (h + 12) page
    else insert_interior_cell page h idx cell = Inl page_full_error"
proof -
  have b: "h + 8 \<le> length page" "num_cells page h = length cs" using holds_bounds [OF assms(1)] by auto
  then have i: "insert_interior_cell page h idx cell = place_cell 12 page h idx cell"
    using assms(2,3) by (auto simp: insert_interior_cell_def INTERIOR_HEADER_SIZE_def)
  have room: "length cell + 2 \<le> interior_free_space page h \<longleftrightarrow>
      h + 12 + length cs * 2 + length cell + 2 \<le> content_start page h"
    using b by (auto simp: interior_free_space_def INTERIOR_HEADER_SIZE_def)
  have rm: "sub (h + 8) (h + 12) p = sub 1 5 (sub (h + 7) (h + 12) p)" for p :: bytes
    by (simp add: sub_sub add.commute)
  have "\<exists>page'. place_cell 12 page h idx cell = Inr page' \<and> length page' = length page
           \<and> holds 12 h page' (take idx cs @ [cell] @ drop idx cs) \<and> take (h + 3) page' = take (h + 3) page
           \<and> sub (h + 8) (h + 12) page' = sub (h + 8) (h + 12) page"
    if "h + 12 + length cs * 2 + length cell + 2 \<le> content_start page h"
    using place_cell_holds [OF assms(1) _ assms(3,4) that] unfolding rm by fastforce
  then show ?thesis using place_cell_full [OF assms(1)] unfolding i room by (auto simp: not_le)
qed

section \<open>The cells of a rewritten page\<close>

lemma cell_offsets_Cons:
  assumes "cell_offsets psize (c # cs) = Some (offs, ccs)"
  obtains offs' ccs' where "cell_offsets psize cs = Some (offs', ccs')" "length c \<le> ccs'"
    "offs = ccs # offs'" "ccs = ccs' - length c"
proof (cases "cell_offsets psize cs")
  case (Some r)
  obtain offs' ccs' where r: "cell_offsets psize cs = Some (offs', ccs')" using Some by (cases r) auto
  have f: "\<not> ccs' < length c" using assms by (cases "ccs' < length c") (simp_all add: r)
  then have "offs = (ccs' - length c) # offs'" "ccs = ccs' - length c" using assms by (auto simp: r)
  then show thesis using r f by (intro that [of offs' ccs']) simp_all
qed (use assms in simp)

lemma cell_offsets_layout:
  "cell_offsets psize cs = Some (offs, ccs) \<Longrightarrow>
   length offs = length cs \<and> ccs \<le> psize
   \<and> (\<forall>k < length cs. ccs \<le> offs ! k \<and> offs ! k + length (cs ! k) \<le> psize)"
proof (induction cs arbitrary: offs ccs)
  case (Cons c cs)
  obtain offs' ccs' where t: "cell_offsets psize cs = Some (offs', ccs')" "length c \<le> ccs'"
      "offs = ccs # offs'" "ccs = ccs' - length c"
    using Cons.prems by (rule cell_offsets_Cons)
  have IH: "length offs' = length cs" "ccs' \<le> psize"
      "\<And>k. k < length cs \<Longrightarrow> ccs' \<le> offs' ! k \<and> offs' ! k + length (cs ! k) \<le> psize"
    using Cons.IH [OF t(1)] by auto
  have "ccs \<le> offs ! k \<and> offs ! k + length ((c # cs) ! k) \<le> psize" if "k < length (c # cs)" for k
    using that t(2-4) IH(2) IH(3) [of "k - 1"] by (cases k) auto
  then show ?case using IH(1,2) t(3,4) by auto
qed simp

lemma cell_offsets_total:
  "sum_list (map length cs) \<le> psize \<Longrightarrow>
   \<exists>offs. cell_offsets psize cs = Some (offs, psize - sum_list (map length cs))"
proof (induction cs)
  case (Cons c cs)
  then obtain offs where "cell_offsets psize cs = Some (offs, psize - sum_list (map length cs))" by auto
  then show ?case using Cons.prems by (auto simp: add.commute)
qed simp

lemma write_cells_result:
  assumes "cell_offsets (length page) cs = Some (offs, ccs)" and "ptr0 + (i + length cs) * 2 \<le> ccs"
  defines "q \<equiv> write_cells ptr0 (zip offs cs) i page"
  shows "length q = length page
    \<and> (\<forall>x y. y \<le> ptr0 + i * 2 \<longrightarrow> sub x y q = sub x y page)
    \<and> (\<forall>x y. ptr0 + (i + length cs) * 2 \<le> x \<and> y \<le> ccs \<longrightarrow> sub x y q = sub x y page)
    \<and> (\<forall>k < length cs. sub (ptr0 + (i + k) * 2) (ptr0 + (i + k) * 2 + 2) q = be_enc 2 (of_nat (offs ! k) :: u16))
    \<and> (\<forall>k < length cs. sub (offs ! k) (offs ! k + length (cs ! k)) q = cs ! k)"
  using assms(1,2) unfolding q_def
proof (induction cs arbitrary: i page offs ccs)
  case (Cons c cs)
  obtain offs' ccs' where t: "cell_offsets (length page) cs = Some (offs', ccs')" "length c \<le> ccs'"
      "offs = ccs # offs'" "ccs = ccs' - length c"
    using Cons.prems(1) by (rule cell_offsets_Cons)
  define p where "p = put_at (ptr0 + i * 2) (be_enc 2 (of_nat ccs :: u16)) (put_at ccs c page)"
  have lay: "ccs' \<le> length page" using cell_offsets_layout [OF t(1)] by blast
  have fit: "ccs + length c = ccs'" "ptr0 + i * 2 + 2 \<le> ccs" using t(2,4) Cons.prems(2) by auto
  have lp: "length p = length page" using fit lay by (simp add: p_def)
  have keep: "sub x y p = sub x y page" if "y \<le> ptr0 + i * 2 \<or> (ptr0 + i * 2 + 2 \<le> x \<and> y \<le> ccs)" for x y
  proof -
    have "sub x y p = sub x y (put_at ccs c page)"
      using that fit lay unfolding p_def by (intro sub_put_at_disj) auto
    also have "\<dots> = sub x y page" using that fit lay by (intro sub_put_at_disj) auto
    finally show ?thesis .
  qed
  have ptr: "sub (ptr0 + i * 2) (ptr0 + i * 2 + 2) p = be_enc 2 (of_nat ccs :: u16)"
    using fit lay by (simp add: p_def sub_put_at_same)
  have cel: "sub ccs (ccs + length c) p = c"
    using fit lay by (simp add: p_def sub_put_at_disj sub_put_at_same)
  define r where "r = write_cells ptr0 (zip offs' cs) (i + 1) p"
  have room: "ptr0 + (i + 1 + length cs) * 2 \<le> ccs'" using Cons.prems(2) fit(1) by simp
  have IH: "length r = length p"
      "\<And>x y. y \<le> ptr0 + (i + 1) * 2 \<Longrightarrow> sub x y r = sub x y p"
      "\<And>x y. ptr0 + (i + 1 + length cs) * 2 \<le> x \<Longrightarrow> y \<le> ccs' \<Longrightarrow> sub x y r = sub x y p"
      "\<And>k. k < length cs \<Longrightarrow> sub (ptr0 + (i + 1 + k) * 2) (ptr0 + (i + 1 + k) * 2 + 2) r = be_enc 2 (of_nat (offs' ! k) :: u16)"
      "\<And>k. k < length cs \<Longrightarrow> sub (offs' ! k) (offs' ! k + length (cs ! k)) r = cs ! k"
    using Cons.IH [OF t(1) [folded lp] room] unfolding r_def [symmetric] by simp_all
  have r: "write_cells ptr0 (zip offs (c # cs)) i page = r" by (simp add: r_def t(3) p_def)
  have low: "sub x y r = sub x y page" if "y \<le> ptr0 + i * 2" for x y
    using IH(2) [of y x] keep [of y x] that by simp
  have mid: "sub x y r = sub x y page" if "ptr0 + (i + length (c # cs)) * 2 \<le> x" "y \<le> ccs" for x y
    using IH(3) [of x y] keep [of y x] that fit by simp
  have ptrs: "sub (ptr0 + (i + k) * 2) (ptr0 + (i + k) * 2 + 2) r = be_enc 2 (of_nat (offs ! k) :: u16)"
    if "k < length (c # cs)" for k
    using that IH(2) [of "ptr0 + i * 2 + 2" "ptr0 + i * 2"] ptr IH(4) [of "k - 1"] t(3)
    by (cases k) simp_all
  have cells: "sub (offs ! k) (offs ! k + length ((c # cs) ! k)) r = (c # cs) ! k" if "k < length (c # cs)" for k
    using that IH(3) [of ccs ccs'] Cons.prems(2) fit cel IH(5) [of "k - 1"] t(3) by (cases k) auto
  show ?case
    unfolding r
    by (intro conjI allI impI; (elim conjE)?; (rule low mid ptrs cells trans [OF IH(1) lp]; assumption?))
qed simp


definition header_size_of :: "page_type \<Rightarrow> nat" where
  "header_size_of ty = (if is_leaf ty then 8 else 12)"

lemma page_type_roundtrip [simp]: "page_type_from_byte (page_type_byte ty) = Inr ty"
  by (cases ty) (simp_all add: page_type_from_byte_def)

lemma length_zero_from [simp]: "h \<le> length page \<Longrightarrow> length (zero_from h page) = length page"
  by (simp add: zero_from_def)

lemma sub_prefix: "b \<le> length xs \<Longrightarrow> sub 0 b xs = take b xs"
  by (simp add: sub_def)

text \<open>The header and the cells of a rewritten page, field by field.\<close>

lemma write_page_cells_fields:
  assumes sz: "length page \<le> 65536" and rm: "(right_most = None) = is_leaf ty"
    and room: "h + header_size_of ty + length cells * 2 + sum_list (map length cells) \<le> length page"
  shows "\<exists>q offs ccs. write_page_cells page h ty right_most cells = Inr q \<and> length q = length page
    \<and> cell_offsets (length page) cells = Some (offs, ccs) \<and> h + header_size_of ty + length cells * 2 \<le> ccs
    \<and> take h q = take h page \<and> q ! h = page_type_byte ty
    \<and> sub (h + 3) (h + 5) q = be_enc 2 (of_nat (length cells) :: u16)
    \<and> sub (h + 5) (h + 7) q = be_enc 2 (stored_start ccs)
    \<and> (\<forall>rm. right_most = Some rm \<longrightarrow> sub (h + 8) (h + 12) q = be_enc 4 rm)
    \<and> (\<forall>k < length cells. sub (h + header_size_of ty + k * 2) (h + header_size_of ty + k * 2 + 2) q = be_enc 2 (of_nat (offs ! k) :: u16))
    \<and> (\<forall>k < length cells. sub (offs ! k) (offs ! k + length (cells ! k)) q = cells ! k)"
proof -
  define hs where "hs = header_size_of ty"
  have hs: "8 \<le> hs" "right_most \<noteq> None \<Longrightarrow> hs = 12" using rm by (auto simp: hs_def header_size_of_def)
  obtain offs where co: "cell_offsets (length page) cells = Some (offs, length page - sum_list (map length cells))"
    using cell_offsets_total [of cells "length page"] room by auto
  define ccs where "ccs = length page - sum_list (map length cells)"
  have ccs: "h + hs + length cells * 2 \<le> ccs" using room by (simp add: ccs_def hs_def)
  have hl: "h + 8 \<le> length page" "h + hs \<le> length page" using room hs by (auto simp: hs_def)
  define p0 where "p0 = put_at (h + 3) (be_enc 2 (of_nat (length cells) :: u16))
      (put_at (h + 1) (be_enc 2 (0 :: u16)) (put_at h [page_type_byte ty] (zero_from h page)))"
  define p1 where "p1 = write_cells (h + hs) (zip offs cells) 0 p0"
  define p2 where "p2 = put_at (h + 7) [0 :: u8] (put_at (h + 5) (be_enc 2 (stored_start ccs)) p1)"
  define q where "q = (case right_most of None \<Rightarrow> p2 | Some rm \<Rightarrow> put_at (h + 8) (be_enc 4 rm) p2)"
  have l0: "length p0 = length page" using hl by (simp add: p0_def)
  have p1: "length p1 = length page" "\<And>x y. y \<le> h + hs \<Longrightarrow> sub x y p1 = sub x y p0"
      "\<And>k. k < length cells \<Longrightarrow> sub (h + hs + k * 2) (h + hs + k * 2 + 2) p1 = be_enc 2 (of_nat (offs ! k) :: u16)"
      "\<And>k. k < length cells \<Longrightarrow> sub (offs ! k) (offs ! k + length (cells ! k)) p1 = cells ! k"
    using write_cells_result [of p0 cells offs ccs "h + hs" 0] co l0 ccs unfolding p1_def ccs_def by simp_all
  have l2: "length p2 = length page" using hl p1(1) by (simp add: p2_def)
  have lq: "length q = length page" using hl hs l2 by (auto simp: q_def split: option.splits)
  have run: "write_page_cells page h ty right_most cells = Inr q"
    using hl rm ccs co unfolding write_page_cells_def Let_def q_def p2_def p1_def p0_def hs_def ccs_def
    by (cases right_most) (simp_all add: header_size_of_def)
  have out: "sub x y q = sub x y p1" if "h + hs \<le> x" for x y
    using that hl hs p1(1) l2 unfolding q_def p2_def by (auto simp: sub_put_at_disj split: option.splits)
  have low: "sub x y q = sub x y p0" if "y \<le> h + 5" for x y
    using that hl hs p1(1) l2 p1(2) [of y x] unfolding q_def p2_def
    by (auto simp: sub_put_at_disj split: option.splits)
  have tk: "take h q = take h page"
    using low [of h 0] lq hl unfolding p0_def by (simp add: sub_prefix sub_put_at_disj zero_from_def take_put_at_below)
  have "sub h (h + 1) q = [page_type_byte ty]"
    using low [of "h + 1" h] hl unfolding p0_def by (simp add: sub_put_at_disj sub_put_at_same)
  then have ty: "q ! h = page_type_byte ty" using nth_sub [of 0 "h + 1" h q] lq hl by simp
  have n: "sub (h + 3) (h + 5) q = be_enc 2 (of_nat (length cells) :: u16)"
    using low [of "h + 5" "h + 3"] hl unfolding p0_def by (simp add: sub_put_at_same)
  have c: "sub (h + 5) (h + 7) q = be_enc 2 (stored_start ccs)"
    using hl hs p1(1) l2 unfolding q_def p2_def
    by (auto simp: sub_put_at_disj sub_put_at_same split: option.splits)
  have r: "sub (h + 8) (h + 12) q = be_enc 4 rm" if "right_most = Some rm" for rm
    using that hl hs l2 unfolding q_def by (simp add: sub_put_at_same)
  have off: "ccs \<le> offs ! k" if "k < length cells" for k
    using cell_offsets_layout [OF co] that by (simp add: ccs_def)
  have cel: "sub (offs ! k) (offs ! k + length (cells ! k)) q = cells ! k" if "k < length cells" for k
    using out [of "offs ! k"] off [OF that] ccs p1(4) [OF that] by simp
  have ptr: "sub (h + hs + k * 2) (h + hs + k * 2 + 2) q = be_enc 2 (of_nat (offs ! k) :: u16)" if "k < length cells" for k
    using out [of "h + hs + k * 2"] p1(3) [OF that] by simp
  show ?thesis
    unfolding hs_def [symmetric] using run lq co ccs tk ty n c r ptr cel
    by (intro exI [of _ q] exI [of _ offs] exI [of _ ccs]) (simp add: ccs_def)
qed


lemma holds_empty_page:
  assumes "h + 8 \<le> h + hs" and "h + hs \<le> length page" and "length page \<le> 65536"
    and "sub (h + 3) (h + 5) page = be_enc 2 (0 :: u16)" and "sub (h + 5) (h + 7) page = be_enc 2 (stored_start (length page))"
  shows "holds hs h page []"
proof -
  have "0 < length page" using assms(1,2) by linarith
  then have "content_start_of (stored_start (length page)) = length page" using assms(3) by (rule content_start_stored)
  then have "content_start page h = length page" by (simp only: content_start_def assms(5) be_u16_enc)
  then show ?thesis using assms by (simp add: holds_def num_cells_def)
qed

lemma write_page_cells_holds:
  assumes "length page \<le> 65536" and "(right_most = None) = is_leaf ty" and "[] \<notin> set cells"
    and "h + header_size_of ty + length cells * 2 + sum_list (map length cells) \<le> length page"
  shows "\<exists>q ph. write_page_cells page h ty right_most cells = Inr q \<and> length q = length page
    \<and> take h q = take h page \<and> holds (header_size_of ty) h q cells
    \<and> page_header_parse q h = Inr ph \<and> ph_page_type ph = ty \<and> ph_right_most_pointer ph = right_most
    \<and> unat (ph_num_cells ph) = length cells
    \<and> (\<forall>i < length cells. cell_pointer ph q i = Inr (ptr_of (header_size_of ty) h q i))"
proof -
  define hs where "hs = header_size_of ty"
  obtain q offs ccs where q: "write_page_cells page h ty right_most cells = Inr q" "length q = length page"
      "cell_offsets (length page) cells = Some (offs, ccs)" "h + hs + length cells * 2 \<le> ccs"
      "take h q = take h page" "q ! h = page_type_byte ty"
      "sub (h + 3) (h + 5) q = be_enc 2 (of_nat (length cells) :: u16)"
      "sub (h + 5) (h + 7) q = be_enc 2 (stored_start ccs)"
      "\<And>rm. right_most = Some rm \<Longrightarrow> sub (h + 8) (h + 12) q = be_enc 4 rm"
      "\<And>k. k < length cells \<Longrightarrow> sub (h + hs + k * 2) (h + hs + k * 2 + 2) q = be_enc 2 (of_nat (offs ! k) :: u16)"
      "\<And>k. k < length cells \<Longrightarrow> sub (offs ! k) (offs ! k + length (cells ! k)) q = cells ! k"
    using write_page_cells_fields [OF assms(1,2,4)] unfolding hs_def by blast
  have hs: "8 \<le> hs" "\<not> is_leaf ty \<Longrightarrow> hs = 12" by (auto simp: hs_def header_size_of_def)
  have lay: "ccs \<le> length page" "\<And>k. k < length cells \<Longrightarrow> ccs \<le> offs ! k \<and> offs ! k + length (cells ! k) \<le> length page"
    using cell_offsets_layout [OF q(3)] by auto
  have "length cells < 65536" using q(4) lay(1) assms(1) hs by simp
  then have n: "unat (of_nat (length cells) :: u16) = length cells" by (rule unat_u16_small)
  then have nc: "num_cells q h = length cells" by (simp add: num_cells_def q(7))
  have cc: "content_start q h = ccs" using q(4) lay(1) assms(1) hs by (simp add: content_start_def q(8))
  have ptr: "ptr_of hs h q k = offs ! k" if "k < length cells" for k
  proof -
    have "0 < length (cells ! k)" using that assms(3) nth_mem by fastforce
    then have "offs ! k < 65536" using lay(2) [OF that] assms(1) by linarith
    then show ?thesis by (simp only: ptr_of_def q(10) [OF that] be_u16_enc unat_u16_small)
  qed
  have cel: "ccs \<le> ptr_of hs h q k \<and> ptr_of hs h q k + length (cells ! k) \<le> length page
      \<and> sub (ptr_of hs h q k) (ptr_of hs h q k + length (cells ! k)) q = cells ! k" if "k < length cells" for k
    using lay(2) [OF that] q(11) [OF that] unfolding ptr [OF that] by simp
  then have H: "holds hs h q cells"
    unfolding holds_def nc cc q(2) using q(4) lay(1) assms(1) by blast
  have hl: "h + 8 \<le> length q" "\<not> is_leaf ty \<Longrightarrow> h + 12 \<le> length q" "h + hs + length cells * 2 \<le> length q"
    using q(2,4) lay(1) hs by auto
  have "\<not> (\<not> is_leaf ty \<and> length q < h + 12)" using hl(2) by auto
  then obtain ph where ph: "page_header_parse q h = Inr ph" using hl(1) by (simp add: page_header_parse_def q(6))
  then have f: "ph_page_type ph = ty" "ph_right_most_pointer ph = right_most" "ph_num_cells ph = of_nat (length cells)"
      "ph_base_offset ph = h" "ph_header_size ph = hs"
    using hl assms(2) q(9)
    by (auto simp: page_header_parse_def q(6,7) hs_def header_size_of_def)
  have "cell_pointer ph q i = Inr (ptr_of hs h q i)" if "i < length cells" for i
    using that hl(3) by (simp add: cell_pointer_def f ptr_of_def Let_def)
  then show ?thesis using q(1,2,5) H ph f n unfolding hs_def by (intro exI [of _ q] exI [of _ ph]) simp
qed

section \<open>Properties\<close>

text \<open>
  Inserting a cell into a leaf page at an index within its cells inserts it at that place of
  the list of cells, leaves the page type and freeblock fields and the page size unchanged, and
  returns the page-full error exactly when the free space is smaller than the cell and its
  two-byte pointer.
\<close>

theorem insert_leaf_cell_inserts:
  assumes "holds 8 h page cs" and "page ! h = 0x0d \<or> page ! h = 0x0a" and "idx \<le> length cs" and "0 < length cell"
  shows "if length cell + 2 \<le> leaf_free_space page h
    then \<exists>page'. insert_leaf_cell page h idx cell = Inr page' \<and> length page' = length page
           \<and> holds 8 h page' (take idx cs @ [cell] @ drop idx cs) \<and> take (h + 3) page' = take (h + 3) page
    else insert_leaf_cell page h idx cell = Inl page_full_error"
  using assms by (rule insert_leaf_cell_cases)

definition sample_leaf :: bytes where
  "sample_leaf = [0x0d, 0,0, 0,1, 0,30, 0, 0,30, 0,0,0,0,0,0, 0,0,0,0,0,0,0,0, 0,0,0,0,0,0, 7, 8]"

lemma sample_leaf_holds: "holds 8 0 sample_leaf [[7, 8]]"
proof -
  have "num_cells sample_leaf 0 = 1" "content_start sample_leaf 0 = 30" "ptr_of 8 0 sample_leaf 0 = 30"
    "sub 30 32 sample_leaf = [7, 8]" "length sample_leaf = 32" by code_simp+
  then show ?thesis by (simp add: holds_def)
qed

theorem insert_leaf_cell_inserts_witness:
  "(\<exists>page'. insert_leaf_cell sample_leaf 0 1 [5, 6, 9] = Inr page' \<and> holds 8 0 page' [[7, 8], [5, 6, 9]])
   \<and> insert_leaf_cell sample_leaf 0 0 (replicate 19 1) = Inl page_full_error"
proof
  have "length [5, 6, 9 :: u8] + 2 \<le> leaf_free_space sample_leaf 0" by code_simp
  then show "\<exists>page'. insert_leaf_cell sample_leaf 0 1 [5, 6, 9] = Inr page' \<and> holds 8 0 page' [[7, 8], [5, 6, 9]]"
    using insert_leaf_cell_inserts [OF sample_leaf_holds, of 1 "[5, 6, 9]"] by (auto simp: sample_leaf_def)
  have "\<not> length (replicate 19 (1 :: u8)) + 2 \<le> leaf_free_space sample_leaf 0" by code_simp
  then show "insert_leaf_cell sample_leaf 0 0 (replicate 19 1) = Inl page_full_error"
    using insert_leaf_cell_inserts [OF sample_leaf_holds, of 0 "replicate 19 1"] by (auto simp: sample_leaf_def)
qed

text \<open>
  Inserting a cell into an interior page does the same with its longer header, and keeps the
  right-most child pointer.
\<close>

theorem insert_interior_cell_inserts:
  assumes "holds 12 h page cs" and "page ! h = 0x05 \<or> page ! h = 0x02" and "idx \<le> length cs" and "0 < length cell"
  shows "if length cell + 2 \<le> interior_free_space page h
    then \<exists>page'. insert_interior_cell page h idx cell = Inr page' \<and> length page' = length page
           \<and> holds 12 h page' (take idx cs @ [cell] @ drop idx cs) \<and> take (h + 3) page' = take (h + 3) page
           \<and> sub (h + 8) (h + 12) page' = sub (h + 8) (h + 12) page
    else insert_interior_cell page h idx cell = Inl page_full_error"
  using assms by (rule insert_interior_cell_cases)

definition sample_interior :: bytes where
  "sample_interior = [0x05, 0,0, 0,1, 0,27, 0, 0,0,0,9, 0,27, 0,0,0,0,0,0,0,0,0,0,0,0,0, 0,0,0,2,4]"

theorem insert_interior_cell_inserts_witness:
  "\<exists>page'. insert_interior_cell sample_interior 0 0 [0, 0, 0, 3, 1] = Inr page'
     \<and> holds 12 0 page' [[0, 0, 0, 3, 1], [0, 0, 0, 2, 4]] \<and> be_u32 (sub 8 12 page') = 9"
proof -
  have "num_cells sample_interior 0 = 1" "content_start sample_interior 0 = 27" "ptr_of 12 0 sample_interior 0 = 27"
    "sub 27 32 sample_interior = [0, 0, 0, 2, 4]" "length sample_interior = 32" by code_simp+
  then have "holds 12 0 sample_interior [[0, 0, 0, 2, 4]]" by (simp add: holds_def)
  moreover have "length [0, 0, 0, 3, 1 :: u8] + 2 \<le> interior_free_space sample_interior 0" by code_simp
  moreover have "be_u32 (sub 8 12 sample_interior) = 9" by code_simp
  ultimately show ?thesis
    using insert_interior_cell_inserts [of 0 sample_interior "[[0, 0, 0, 2, 4]]" 0 "[0, 0, 0, 3, 1]"]
    by (auto simp: sample_interior_def)
qed

text \<open>
  Rewriting a page from a list of non-empty cells that fit gives a page that holds exactly
  these cells in order, keeps the bytes before the b-tree header, and whose header parses back to
  the page type, the right-most pointer and the number of cells, with each cell pointer leading to
  its cell.
\<close>

theorem write_page_cells_roundtrip:
  assumes "length page \<le> 65536" and "(right_most = None) = is_leaf ty" and "[] \<notin> set cells"
    and "h + header_size_of ty + length cells * 2 + sum_list (map length cells) \<le> length page"
  shows "\<exists>q ph. write_page_cells page h ty right_most cells = Inr q \<and> length q = length page
    \<and> take h q = take h page \<and> holds (header_size_of ty) h q cells
    \<and> page_header_parse q h = Inr ph \<and> ph_page_type ph = ty \<and> ph_right_most_pointer ph = right_most
    \<and> unat (ph_num_cells ph) = length cells
    \<and> (\<forall>i < length cells. cell_pointer ph q i = Inr (ptr_of (header_size_of ty) h q i))"
  using assms by (rule write_page_cells_holds)

theorem write_page_cells_roundtrip_witness:
  "\<exists>q ph. write_page_cells (replicate 64 1) 10 InteriorTable (Some 9) [[0, 0, 0, 3, 1], [0, 0, 0, 2, 4]] = Inr q
     \<and> page_header_parse q 10 = Inr ph \<and> ph_right_most_pointer ph = Some 9
     \<and> holds 12 10 q [[0, 0, 0, 3, 1], [0, 0, 0, 2, 4]]"
  using write_page_cells_roundtrip [of "replicate 64 1" "Some 9" InteriorTable "[[0, 0, 0, 3, 1], [0, 0, 0, 2, 4]]" 10]
  by (auto simp: is_leaf_def header_size_of_def)

end
