(* ===== verification/Page_Alloc.thy ===== *)
theory Page_Alloc
  imports Pager_Crash
begin

text \<open>
  Allocation of pages as an interface. Without a freelist \<open>allocate_page\<close> extends the database and
  skips the pages reserved for the pointer map and the lock byte; there are never three of them in a
  row, so it returns a fresh zeroed page at most three past the end. The locale \<open>page_alloc\<close> adds
  allocation to the page store; the b-tree code that spills a payload to overflow pages or splits a
  page relies on its laws.
\<close>

section \<open>Runs of reserved pages\<close>

definition reserved_nat_page :: "nat \<Rightarrow> nat \<Rightarrow> bool" where
  "reserved_nat_page usable k \<longleftrightarrow> k = 262145
     \<or> (2 \<le> k \<and> (if group_start usable k = 262145 then k = 262146 else group_start usable k = k))"

lemma reserved_page_nat:
  assumes "usable \<le> 65536" and "is_pending_byte_page usable k \<or> (b \<and> is_ptrmap_page usable k)"
  shows "reserved_nat_page usable (unat k)"
proof (cases "is_pending_byte_page usable k")
  case True
  then show ?thesis by (simp add: reserved_nat_page_def is_pending_byte_page_def)
next
  case False
  then have "2 \<le> k" "ptrmap_pageno usable k = k" using assms(2) by (auto simp: is_ptrmap_page_def)
  then show ?thesis using ptrmap_pageno_nat [OF assms(1), of k] by (auto simp: reserved_nat_page_def word_le_nat_alt split: if_splits)
qed

lemma reserved_cases:
  assumes "reserved_nat_page usable k" and "n = usable div 5 + 1"
  shows "k = 262145 \<or> (2 \<le> k \<and> (k - 2) mod n = 0) \<or> (k = 262146 \<and> 262143 mod n = 0)"
proof -
  have g: "group_start usable k = j \<Longrightarrow> 2 \<le> j \<and> (j - 2) mod n = 0" for j
    unfolding group_start_def assms(2) [symmetric] by auto
  show ?thesis using assms(1) g [of 262145] g [of k] unfolding reserved_nat_page_def by (auto split: if_splits)
qed

lemma no_three_reserved:
  assumes "10 \<le> usable" and "reserved_nat_page usable k" and "reserved_nat_page usable (k + 1)"
    and "reserved_nat_page usable (k + 2)"
  shows False
proof -
  define n where "n = usable div 5 + 1"
  have n: "3 \<le> n" using div_le_mono [OF assms(1), of 5] by (simp add: n_def)
  define A where "A j \<longleftrightarrow> 2 \<le> j \<and> (j - 2) mod n = 0" for j :: nat
  have apart: "\<not> A (j + d)" if "A j" "0 < d" "d < 3" for j d
  proof
    assume "A (j + d)"
    then have "(j - 2 + d) mod n = 0" using that(1) by (simp add: A_def)
    moreover have "(j - 2 + d) mod n = d mod n" using that(1) mod_add_left_eq [of "j - 2" n d] by (simp add: A_def)
    ultimately show False using that n by simp
  qed
  have p: "A 262145" if "262143 mod n = 0" using that by (simp add: A_def)
  have R: "A j \<or> j = 262145 \<or> (j = 262146 \<and> A 262145)" if "reserved_nat_page usable j" for j
    using reserved_cases [OF that n_def] p unfolding A_def by auto
  show False
    using R [OF assms(2)] R [OF assms(3)] R [OF assms(4)]
      apart [of k 1] apart [of k 2] apart [of "k + 1" 1] apart [of 262145 1] by auto
qed

section \<open>Extending the database\<close>

definition skipped :: "pager \<Rightarrow> u32 \<Rightarrow> bool" where
  "skipped p k \<longleftrightarrow> is_pending_byte_page (p_usable_size p) k \<or> (auto_vacuum p \<and> is_ptrmap_page (p_usable_size p) k)"

lemma extend_pages_step:
  "p_page_count p \<noteq> -1 \<Longrightarrow> extend_pages p =
     (if skipped p (p_page_count p + 1) then extend_pages (add_page p) else (add_page p, Inr (p_page_count p + 1)))"
  by (simp add: extend_pages_unfold [of p] skipped_def)

lemma next_count:
  fixes n :: u32
  assumes "unat n + 1 < 2 ^ 32"
  shows "n \<noteq> -1" "unat (n + 1) = unat n + 1"
proof -
  show *: "unat (n + 1) = unat n + 1" using assms by (simp add: unat_word_ariths)
  then show "n \<noteq> -1" by auto
qed

lemma extend_pages_returns:
  assumes "10 \<le> p_usable_size p" and "p_usable_size p \<le> 65536" and "unat (p_page_count p) + 3 < 2 ^ 32"
  shows "\<exists>q n. extend_pages p = (q, Inr n) \<and> unat n \<le> unat (p_page_count p) + 3"
proof -
  let ?p1 = "add_page p"
  let ?p2 = "add_page ?p1"
  let ?c = "p_page_count p"
  have c: "p_page_count ?p1 = ?c + 1" "p_page_count ?p2 = ?c + 1 + 1" by (simp_all add: add_page_def)
  have sk: "skipped ?p1 = skipped p" "skipped ?p2 = skipped p"
    by (simp_all add: fun_eq_iff skipped_def add_page_def auto_vacuum_def)
  have u: "?c \<noteq> -1" "unat (?c + 1) = unat ?c + 1" using next_count [of ?c] assms(3) by auto
  have u1: "?c + 1 \<noteq> -1" "unat (?c + 1 + 1) = unat ?c + 2" using next_count [of "?c + 1"] assms(3) u(2) by auto
  have u2: "?c + 1 + 1 \<noteq> -1" "unat (?c + 1 + 1 + 1) = unat ?c + 3" using next_count [of "?c + 1 + 1"] assms(3) u1(2) by auto
  have r: "reserved_nat_page (p_usable_size p) (unat k)" if "skipped p k" for k
    using that reserved_page_nat [OF assms(2)] by (auto simp: skipped_def)
  have "\<not> (skipped p (?c + 1) \<and> skipped p (?c + 1 + 1) \<and> skipped p (?c + 1 + 1 + 1))"
    using no_three_reserved [OF assms(1), of "unat ?c + 1"] r [of "?c + 1"] r [of "?c + 1 + 1"] r [of "?c + 1 + 1 + 1"]
    unfolding u(2) u1(2) u2(2) by (auto simp: numeral_eq_Suc)
  moreover have "extend_pages p = (if skipped p (?c + 1) then extend_pages ?p1 else (?p1, Inr (?c + 1)))"
    using u(1) by (rule extend_pages_step)
  moreover have "extend_pages ?p1 = (if skipped p (?c + 1 + 1) then extend_pages ?p2 else (?p2, Inr (?c + 1 + 1)))"
    by (rule extend_pages_step [of ?p1, unfolded c sk, OF u1(1)])
  moreover have "extend_pages ?p2 = (if skipped p (?c + 1 + 1 + 1) then extend_pages (add_page ?p2)
      else (add_page ?p2, Inr (?c + 1 + 1 + 1)))"
    by (rule extend_pages_step [of ?p2, unfolded c sk, OF u2(1)])
  ultimately consider "extend_pages p = (?p1, Inr (?c + 1))" | "extend_pages p = (?p2, Inr (?c + 1 + 1))"
    | "extend_pages p = (add_page ?p2, Inr (?c + 1 + 1 + 1))" by metis
  then show ?thesis
  proof cases
    case 1
    have "unat (?c + 1) \<le> unat ?c + 3" unfolding u(2) by simp
    then show ?thesis using 1 by blast
  next
    case 2
    have "unat (?c + 1 + 1) \<le> unat ?c + 3" unfolding u1(2) by simp
    then show ?thesis using 2 by blast
  next
    case 3
    have "unat (?c + 1 + 1 + 1) \<le> unat ?c + 3" unfolding u2(2) by simp
    then show ?thesis using 3 by blast
  qed
qed

section \<open>Allocation as an interface\<close>

text \<open>
  \<open>left\<close> bounds the number of pages that can still be allocated, \<open>usable\<close> is the part of a page the
  b-tree may use.
\<close>

locale page_alloc = page_store ok valid vw psize rd wr
  for ok :: "'s \<Rightarrow> bool" and valid :: "'s \<Rightarrow> u32 \<Rightarrow> bool" and vw :: "'s \<Rightarrow> u32 \<Rightarrow> bytes"
    and psize :: "'s \<Rightarrow> nat" and rd :: "u32 \<Rightarrow> ('s, bytes) op" and wr :: "u32 \<Rightarrow> bytes \<Rightarrow> ('s, unit) op" +
  fixes alloc :: "('s, u32) op" and left :: "'s \<Rightarrow> nat" and usable :: "'s \<Rightarrow> nat"
  assumes rd_keeps: "ok s \<Longrightarrow> rd k s = (s', r) \<Longrightarrow> left s' = left s \<and> usable s' = usable s"
    and wr_keeps: "ok s \<Longrightarrow> wr k d s = (s', u) \<Longrightarrow> left s' = left s \<and> usable s' = usable s"
    and alloc_ok: "ok s \<Longrightarrow> 0 < left s \<Longrightarrow> \<exists>s' k. alloc s = (s', Inr k) \<and> ok s' \<and> k \<noteq> 0 \<and> \<not> valid s k \<and> valid s' k
        \<and> (\<forall>j. valid s j \<longrightarrow> valid s' j \<and> vw s' j = vw s j) \<and> psize s' = psize s \<and> usable s' = usable s
        \<and> left s \<le> Suc (left s')"
begin

text \<open>What a client that only allocates and writes fresh pages keeps.\<close>

definition extends :: "nat \<Rightarrow> 's \<Rightarrow> 's \<Rightarrow> bool" where
  "extends n s s' \<longleftrightarrow> ok s' \<and> psize s' = psize s \<and> usable s' = usable s \<and> left s \<le> n + left s'
     \<and> (\<forall>j. valid s j \<longrightarrow> valid s' j \<and> vw s' j = vw s j)"

lemma extends_refl: "ok s \<Longrightarrow> extends 0 s s"
  by (simp add: extends_def)

lemma extends_trans: "extends m s s' \<Longrightarrow> extends n s' s'' \<Longrightarrow> extends (m + n) s s''"
  by (auto simp: extends_def)

lemma alloc_extends:
  assumes "ok s" and "0 < left s"
  shows "\<exists>s' k. alloc s = (s', Inr k) \<and> extends 1 s s' \<and> k \<noteq> 0 \<and> \<not> valid s k \<and> valid s' k"
  using alloc_ok [OF assms] by (auto simp: extends_def)

text \<open>What a client that only reads keeps.\<close>

definition same_store :: "'s \<Rightarrow> 's \<Rightarrow> bool" where
  "same_store s s' \<longleftrightarrow> ok s' \<and> vw s' = vw s \<and> valid s' = valid s \<and> psize s' = psize s \<and> usable s' = usable s
     \<and> left s' = left s"

lemma same_store_refl: "ok s \<Longrightarrow> same_store s s"
  by (simp add: same_store_def)

lemma same_store_trans: "same_store s s' \<Longrightarrow> same_store s' s'' \<Longrightarrow> same_store s s''"
  by (simp add: same_store_def)

lemma rd_same:
  assumes "ok s" and "valid s k"
  shows "\<exists>s'. rd k s = (s', Inr (vw s k)) \<and> same_store s s'"
  using rd_ok [OF assms] rd_keeps [OF assms(1)] unfolding same_store_def by metis

text \<open>Allocate a page and write it.\<close>

lemma alloc_write:
  assumes "ok s" and "0 < left s" and "length d = psize s"
  shows "\<exists>s' k. bind_op alloc (\<lambda>k. then_op (wr k d) (ret_op k)) s = (s', Inr k) \<and> extends 1 s s'
    \<and> k \<noteq> 0 \<and> \<not> valid s k \<and> valid s' k \<and> vw s' k = d"
proof -
  obtain s1 k where s1: "alloc s = (s1, Inr k)" "extends 1 s s1" "k \<noteq> 0" "\<not> valid s k" "valid s1 k"
    using alloc_extends [OF assms(1,2)] by blast
  then have ok1: "ok s1" "length d = psize s1" using assms(3) by (auto simp: extends_def)
  obtain s2 where s2: "wr k d s1 = (s2, Inr ())" "ok s2" "vw s2 = (vw s1)(k := d)" "valid s2 = valid s1" "psize s2 = psize s1"
    using wr_ok [OF ok1(1) s1(5) ok1(2)] by blast
  have "extends 1 s s2"
    using s1(2,4) s2 wr_keeps [OF ok1(1) s2(1)] by (auto simp: extends_def)
  then show ?thesis using s1 s2 by auto
qed

end

definition no_freelist :: "pager \<Rightarrow> bool" where
  "no_freelist p \<longleftrightarrow> freelist_count (p_header p) = 0 \<or> first_freelist_trunk (p_header p) = 0"

text \<open>A pager in rollback mode, with a page geometry a valid header gives and no free pages.\<close>

definition alloc_ok_pager :: "pager \<Rightarrow> bool" where
  "alloc_ok_pager p \<longleftrightarrow> pager_ok p \<and> no_freelist p \<and> 480 \<le> p_usable_size p \<and> p_usable_size p \<le> p_page_size p
     \<and> p_page_size p \<le> 65536"

definition pages_left :: "pager \<Rightarrow> nat" where
  "pages_left p = (2 ^ 32 - 1 - unat (p_page_count p)) div 3"

lemma allocate_page_extends: "no_freelist p \<Longrightarrow> allocate_page p = extend_pages p"
  by (auto simp: allocate_page_def no_freelist_def)

lemma pages_left_room: "0 < pages_left p \<Longrightarrow> unat (p_page_count p) + 3 < 2 ^ 32"
proof -
  assume "0 < pages_left p"
  then have "3 \<le> 2 ^ 32 - 1 - unat (p_page_count p)" by (simp add: pages_left_def div_greater_zero_iff)
  then show "unat (p_page_count p) + 3 < 2 ^ 32" by arith
qed

lemma pages_left_step:
  assumes "0 < pages_left p" and "unat (p_page_count q) \<le> unat (p_page_count p) + 3"
  shows "pages_left p \<le> Suc (pages_left q)"
proof -
  have "2 ^ 32 - 1 - unat (p_page_count p) \<le> 3 + (2 ^ 32 - 1 - unat (p_page_count q))"
    using assms(2) pages_left_room [OF assms(1)] by arith
  then have "(2 ^ 32 - 1 - unat (p_page_count p)) div 3 \<le> (3 + (2 ^ 32 - 1 - unat (p_page_count q))) div 3"
    by (rule div_le_mono)
  then show ?thesis by (simp add: pages_left_def)
qed

lemma same_but_cache_alloc:
  "same_but_cache p q \<Longrightarrow> pager_ok q \<Longrightarrow> alloc_ok_pager p \<Longrightarrow> alloc_ok_pager q \<and> pages_left q = pages_left p"
  by (simp add: alloc_ok_pager_def no_freelist_def pages_left_def same_but_cache_fields)

lemma allocate_page_fresh:
  assumes "alloc_ok_pager p" and "0 < pages_left p"
  shows "\<exists>q k. allocate_page p = (q, Inr k) \<and> grown p q \<and> alloc_ok_pager q \<and> k = p_page_count q
    \<and> p_page_count p < k \<and> unat k \<le> unat (p_page_count p) + 3 \<and> view q k = replicate (p_page_size p) 0
    \<and> \<not> skipped p k \<and> pages_left p \<le> Suc (pages_left q)"
proof -
  have p: "pager_ok p" "no_freelist p" "480 \<le> p_usable_size p" "p_usable_size p \<le> 65536"
    using assms(1) by (auto simp: alloc_ok_pager_def)
  have lt: "unat (p_page_count p) + 3 < 2 ^ 32" using assms(2) by (rule pages_left_room)
  obtain q k where q: "extend_pages p = (q, Inr k)" "unat k \<le> unat (p_page_count p) + 3"
    using extend_pages_returns [of p] p lt by auto
  note e = extend_pages_ok(1) [OF p(1) q(1)] extend_pages_ok(2) [OF p(1) q(1) refl]
  have "alloc_ok_pager q"
    using e(1) assms(1) by (simp add: alloc_ok_pager_def grown_def no_freelist_def)
  then show ?thesis
    using q e allocate_page_extends [OF p(2)] pages_left_step [OF assms(2), of q]
    by (auto simp: skipped_def)
qed

interpretation pager_alloc: page_alloc alloc_ok_pager in_range view p_page_size get_page write_page
  allocate_page pages_left p_usable_size
proof
  fix s k
  assume s: "alloc_ok_pager s"
  then have ok: "pager_ok s" by (simp add: alloc_ok_pager_def)
  show "\<exists>s'. get_page k s = (s', Inr (view s k)) \<and> alloc_ok_pager s' \<and> view s' = view s
      \<and> in_range s' = in_range s \<and> p_page_size s' = p_page_size s" if "in_range s k"
    using get_page_view [OF ok that] same_but_cache_view same_but_cache_alloc s
    by (fastforce simp: in_range_def fun_eq_iff same_but_cache_fields)
  show "\<exists>m. get_page k s = (s, Inl (corrupt m))" if "\<not> in_range s k"
    using pager_store.rd_invalid [OF ok that] .
  show "length (view s k) = p_page_size s" if "in_range s k" using ok that by (rule length_view)
  show "\<exists>s'. write_page k d s = (s', Inr ()) \<and> alloc_ok_pager s' \<and> view s' = (view s)(k := d)
      \<and> in_range s' = in_range s \<and> p_page_size s' = p_page_size s"
    if "in_range s k" "length d = p_page_size s" for d
    using write_page_ok [OF ok that] s by (auto simp: in_range_def fun_eq_iff alloc_ok_pager_def no_freelist_def)
  show "pages_left s' = pages_left s \<and> p_usable_size s' = p_usable_size s" if "get_page k s = (s', r)" for s' r
  proof (cases "in_range s k")
    case True
    then show ?thesis using get_page_view [OF ok True] that same_but_cache_alloc s by (auto simp: same_but_cache_fields)
  next
    case False
    then show ?thesis using pager_store.rd_invalid [OF ok False] that by auto
  qed
  show "pages_left s' = pages_left s \<and> p_usable_size s' = p_usable_size s" if "write_page k d s = (s', r)" for s' r d
    using that by (auto simp: write_page_def pages_left_def split: if_splits)
next
  fix s
  assume s: "alloc_ok_pager s" "0 < pages_left s"
  obtain q k where q: "allocate_page s = (q, Inr k)" "grown s q" "alloc_ok_pager q" "k = p_page_count q"
      "p_page_count s < k" "pages_left s \<le> Suc (pages_left q)"
    using allocate_page_fresh [OF s] by blast
  then have "k \<noteq> 0" "\<not> in_range s k" "in_range q k" by (auto simp: in_range_def)
  then show "\<exists>s' k. allocate_page s = (s', Inr k) \<and> alloc_ok_pager s' \<and> k \<noteq> 0 \<and> \<not> in_range s k \<and> in_range s' k
      \<and> (\<forall>j. in_range s j \<longrightarrow> in_range s' j \<and> view s' j = view s j) \<and> p_page_size s' = p_page_size s
      \<and> p_usable_size s' = p_usable_size s \<and> pages_left s \<le> Suc (pages_left s')"
    using q by (auto simp: grown_def)
qed

text \<open>
  C23. Without a freelist, and while the page number stays below its limit, allocating a page
  returns: the loop that skips reserved pages ends within three steps with a zeroed page past the
  old end of the database that is neither the lock-byte page nor, under auto-vacuum, a pointer-map
  page, and every existing page keeps its content.
\<close>

theorem allocate_page_returns:
  assumes "alloc_ok_pager p" and "0 < pages_left p"
  shows "\<exists>q k. allocate_page p = (q, Inr k) \<and> p_page_count q = k \<and> p_page_count p < k
    \<and> unat k \<le> unat (p_page_count p) + 3 \<and> view q k = replicate (p_page_size p) 0
    \<and> \<not> is_pending_byte_page (p_usable_size p) k
    \<and> \<not> (auto_vacuum p \<and> is_ptrmap_page (p_usable_size p) k)
    \<and> (\<forall>j. in_range p j \<longrightarrow> view q j = view p j)"
  using allocate_page_fresh [OF assms] by (fastforce simp: grown_def skipped_def)

text \<open>An auto-vacuum database of one page of 512 bytes: the next page is a pointer-map page.\<close>

definition sample_avdb :: pager where
  "sample_avdb = pager_of ''db'' 0 None (replicate 512 7, None, new_sys 2)
     ((fresh_header 512)\<lparr>largest_root_page := 1\<rparr>) 1 [] None"

lemma sample_avdb_ok: "alloc_ok_pager sample_avdb" "0 < pages_left sample_avdb" "p_page_count sample_avdb = 1"
proof -
  have le: "unat k * 512 \<le> 512" if "k \<le> 1" for k :: u32 using that by (simp add: word_le_nat_alt)
  show "alloc_ok_pager sample_avdb"
    using le by (auto simp: alloc_ok_pager_def no_freelist_def pager_ok_def cache_ok_def overlay_ok_def sample_avdb_def
        pager_of_def fresh_header_def usable_size_def)
qed (simp_all add: pages_left_def sample_avdb_def pager_of_def)

theorem allocate_page_returns_witness:
  "\<exists>q k. allocate_page sample_avdb = (q, Inr k) \<and> 1 < k \<and> unat k \<le> 4"
  using allocate_page_returns [OF sample_avdb_ok(1,2)] by (auto simp: sample_avdb_ok(3))

end
