(* ===== verification/Btree_Cell.thy ===== *)
theory Btree_Cell
  imports Varint Btree_Page Page_Alloc
begin

text \<open>
  B-tree cells (\<open>btree/cell.rs\<close>): the threshold arithmetic that decides how much of a payload is
  kept on the page, the four cell layouts with their parsers and builders, and the overflow chains
  that hold the rest. \<open>assemble_payload\<close> of \<open>btree/cursor.rs\<close> and the two assembling functions of
  \<open>cell.rs\<close> share one loop.

  A pager opened on a valid header has at least 480 usable bytes per page, so the subtractions of
  the threshold arithmetic do not underflow. \<open>ptrmap_put_sync\<close>, called for every overflow page of
  an auto-vacuum database, does nothing, so the builders only pass \<open>host_pgno\<close> on.

  The lemmas show that the local part of a payload lies between the two thresholds, and that a cell
  built for a payload of any length parses back and assembles to that payload from the pages the
  builder allocated, with every other page unchanged.
\<close>

record table_leaf_cell =
  tl_payload_size :: u64
  tl_rowid :: i64
  tl_local_payload :: bytes
  tl_overflow_page :: "u32 option"

record table_interior_cell =
  ti_left_child :: u32
  ti_rowid :: i64

record index_leaf_cell =
  il_payload_size :: u64
  il_local_payload :: bytes
  il_overflow_page :: "u32 option"

record index_interior_cell =
  ii_left_child :: u32
  ii_payload_size :: u64
  ii_local_payload :: bytes
  ii_overflow_page :: "u32 option"

section \<open>How much is kept on the page\<close>

definition local_payload_len :: "nat \<Rightarrow> nat \<Rightarrow> nat \<Rightarrow> nat \<times> bool" where
  "local_payload_len payload usable max_local =
     (if payload \<le> max_local then (payload, False)
      else (let min_local = (usable - 12) * 32 div 255 - 23;
                surplus = min_local + (payload - min_local) mod (usable - 4);
                local_len = (if surplus \<le> max_local then surplus else min_local)
            in (local_len, True)))"

definition table_leaf_max_local :: "nat \<Rightarrow> nat" where
  "table_leaf_max_local usable = usable - 35"

definition index_max_local :: "nat \<Rightarrow> nat" where
  "index_max_local usable = (usable - 12) * 64 div 255 - 23"

section \<open>Parsing\<close>

definition cell_slice :: "bytes \<Rightarrow> nat \<Rightarrow> nat \<Rightarrow> bytes result" where
  "cell_slice page start len = ok_or (corrupt ''cell extends past end of page'') (get_range start (start + len) page)"

text \<open>The end of every parser of a cell with a payload: the local bytes and the overflow pointer.\<close>

definition read_local :: "bytes \<Rightarrow> nat \<Rightarrow> nat \<Rightarrow> nat \<Rightarrow> nat \<Rightarrow> (bytes \<times> u32 option) result" where
  "read_local page content payload usable max_local =
     (let (local_len, has_overflow) = local_payload_len payload usable max_local in
      and_then (cell_slice page content local_len) (\<lambda>local_payload.
        if has_overflow
        then and_then (cell_slice page (content + local_len) 4) (\<lambda>b. Inr (local_payload, Some (be_u32 b)))
        else Inr (local_payload, None)))"

definition varint_at :: "bytes \<Rightarrow> nat \<Rightarrow> string \<Rightarrow> (u64 \<times> nat) result" where
  "varint_at page offset what =
     and_then (ok_or (corrupt ''cell offset'') (get_range offset (length page) page)) (\<lambda>b.
       ok_or (corrupt what) (read_varint b))"

definition parse_table_leaf_cell :: "bytes \<Rightarrow> nat \<Rightarrow> nat \<Rightarrow> table_leaf_cell result" where
  "parse_table_leaf_cell page offset usable =
     and_then (varint_at page offset ''table leaf payload-size varint'') (\<lambda>(payload_size, n1).
       and_then (ok_or (corrupt ''table leaf rowid varint'') (read_varint_i64 (drop (offset + n1) page)))
         (\<lambda>(rowid, n2).
           and_then (read_local page (offset + n1 + n2) (unat payload_size) usable (table_leaf_max_local usable))
             (\<lambda>(local_payload, overflow_page).
               Inr \<lparr>tl_payload_size = payload_size, tl_rowid = rowid,
                    tl_local_payload = local_payload, tl_overflow_page = overflow_page\<rparr>)))"

definition table_leaf_cell_rowid :: "bytes \<Rightarrow> nat \<Rightarrow> i64 result" where
  "table_leaf_cell_rowid page offset =
     and_then (varint_at page offset ''table leaf payload-size varint'') (\<lambda>(_, n1).
       and_then (ok_or (corrupt ''table leaf rowid varint'') (read_varint_i64 (drop (offset + n1) page)))
         (\<lambda>(rowid, _). Inr rowid))"

definition parse_table_interior_cell :: "bytes \<Rightarrow> nat \<Rightarrow> table_interior_cell result" where
  "parse_table_interior_cell page offset =
     and_then (cell_slice page offset 4) (\<lambda>b.
       and_then (ok_or (corrupt ''table interior rowid varint'') (read_varint_i64 (drop (offset + 4) page)))
         (\<lambda>(rowid, _). Inr \<lparr>ti_left_child = be_u32 b, ti_rowid = rowid\<rparr>))"

definition parse_index_leaf_cell :: "bytes \<Rightarrow> nat \<Rightarrow> nat \<Rightarrow> index_leaf_cell result" where
  "parse_index_leaf_cell page offset usable =
     and_then (varint_at page offset ''index leaf payload-size varint'') (\<lambda>(payload_size, n1).
       and_then (read_local page (offset + n1) (unat payload_size) usable (index_max_local usable))
         (\<lambda>(local_payload, overflow_page).
           Inr \<lparr>il_payload_size = payload_size, il_local_payload = local_payload,
                il_overflow_page = overflow_page\<rparr>))"

definition parse_index_interior_cell :: "bytes \<Rightarrow> nat \<Rightarrow> nat \<Rightarrow> index_interior_cell result" where
  "parse_index_interior_cell page offset usable =
     and_then (cell_slice page offset 4) (\<lambda>b.
       and_then (ok_or (corrupt ''index interior payload-size varint'') (read_varint (drop (offset + 4) page)))
         (\<lambda>(payload_size, n1).
           and_then (read_local page (offset + 4 + n1) (unat payload_size) usable (index_max_local usable))
             (\<lambda>(local_payload, overflow_page).
               Inr \<lparr>ii_left_child = be_u32 b, ii_payload_size = payload_size,
                    ii_local_payload = local_payload, ii_overflow_page = overflow_page\<rparr>)))"

section \<open>Overflow chains\<close>

text \<open>
  The pieces of \<open>n\<close> bytes the writing loop cuts the tail into. A chunk size of zero, for which
  that loop would not end, needs a usable size of four.
\<close>

function chunks :: "nat \<Rightarrow> bytes \<Rightarrow> bytes list" where
  "chunks n tail =
     (if length tail \<le> n \<or> n = 0 then [tail] else take n tail # chunks n (drop n tail))"
  by pat_completeness auto
termination
  by (relation "measure (\<lambda>(n, tail). length tail)") auto

declare chunks.simps [simp del]

text \<open>\<open>write_page(..).expect(..)\<close>: an error becomes a panic.\<close>

definition write_chunk :: "u32 \<Rightarrow> u32 \<Rightarrow> bytes \<Rightarrow> (pager, unit) op" where
  "write_chunk cur next_pgno piece p =
     (if p_page_size p < 4 + length piece then (p, Inl Panic)
      else (case write_page cur (put_at 4 piece (put_at 0 (be_enc 4 next_pgno) (replicate (p_page_size p) 0))) p of
              (p1, Inl _) \<Rightarrow> (p1, Inl Panic)
            | r \<Rightarrow> r))"

fun write_chain :: "u32 \<Rightarrow> bytes list \<Rightarrow> (pager, unit) op" where
  "write_chain cur [] = ret_op ()"
| "write_chain cur [piece] = write_chunk cur 0 piece"
| "write_chain cur (piece # piece' # pieces) =
     bind_op allocate_page (\<lambda>next_pgno.
       then_op (write_chunk cur next_pgno piece) (write_chain next_pgno (piece' # pieces)))"

definition spill :: "nat \<Rightarrow> bytes \<Rightarrow> (pager, u32) op" where
  "spill usable tail =
     bind_op allocate_page (\<lambda>first_pgno.
       then_op (write_chain first_pgno (chunks (usable - 4) tail)) (ret_op first_pgno))"

text \<open>The local bytes of a payload, followed by the overflow pointer when there is a tail.\<close>

definition build_payload :: "bytes \<Rightarrow> nat \<Rightarrow> nat \<Rightarrow> (pager, bytes) op" where
  "build_payload payload usable max_local =
     (let (local_len, has_overflow) = local_payload_len (length payload) usable max_local in
      if has_overflow
      then bind_op (spill usable (drop local_len payload)) (\<lambda>first_pgno.
             ret_op (take local_len payload @ be_enc 4 first_pgno))
      else ret_op (take local_len payload))"

definition build_table_leaf_cell_with_host ::
    "i64 \<Rightarrow> bytes \<Rightarrow> nat \<Rightarrow> u32 option \<Rightarrow> (pager, bytes) op" where
  "build_table_leaf_cell_with_host rowid payload usable host_pgno =
     bind_op (build_payload payload usable (usable - 35)) (\<lambda>body.
       ret_op (write_varint (of_nat (length payload)) @ write_varint rowid @ body))"

definition build_table_leaf_cell :: "i64 \<Rightarrow> bytes \<Rightarrow> nat \<Rightarrow> (pager, bytes) op" where
  "build_table_leaf_cell rowid payload usable = build_table_leaf_cell_with_host rowid payload usable None"

definition build_table_interior_cell :: "u32 \<Rightarrow> i64 \<Rightarrow> bytes" where
  "build_table_interior_cell left_child rowid = be_enc 4 left_child @ write_varint rowid"

definition build_index_leaf_cell_with_host :: "bytes \<Rightarrow> nat \<Rightarrow> u32 option \<Rightarrow> (pager, bytes) op" where
  "build_index_leaf_cell_with_host key_record usable host_pgno =
     bind_op (build_payload key_record usable (index_max_local usable)) (\<lambda>body.
       ret_op (write_varint (of_nat (length key_record)) @ body))"

definition build_index_leaf_cell :: "bytes \<Rightarrow> nat \<Rightarrow> (pager, bytes) op" where
  "build_index_leaf_cell key_record usable = build_index_leaf_cell_with_host key_record usable None"

definition build_index_interior_cell :: "u32 \<Rightarrow> bytes \<Rightarrow> nat \<Rightarrow> (pager, bytes) op" where
  "build_index_interior_cell left_child key_record usable =
     bind_op (build_payload key_record usable (index_max_local usable)) (\<lambda>body.
       ret_op (be_enc 4 left_child @ write_varint (of_nat (length key_record)) @ body))"

text \<open>
  The reading loop: \<open>missing\<close> is the number of bytes still to come. Each turn takes at least one
  byte, as there are more than four usable bytes; the guard for the opposite stands for the
  underflow, and for the endless loop at exactly four.
\<close>

function assemble_loop :: "nat \<Rightarrow> bytes \<Rightarrow> u32 option \<Rightarrow> (pager, bytes) op" where
  "assemble_loop missing payload nxt p =
     (if missing = 0 then (p, Inr payload)
      else (case nxt of
          None \<Rightarrow> (p, Inl (corrupt ''payload shorter than declared size''))
        | Some pgno \<Rightarrow>
            if pgno = 0 then (p, Inl (corrupt ''payload shorter than declared size''))
            else (case get_page pgno p of
                (p1, Inl e) \<Rightarrow> (p1, Inl e)
              | (p1, Inr page) \<Rightarrow>
                  if length page < 4 \<or> p_usable_size p \<le> 4 then (p1, Inl Panic)
                  else (let next_pgno = be_u32 (sub 0 4 page); want = min missing (p_usable_size p - 4) in
                        if length page < 4 + want then (p1, Inl (corrupt ''overflow page shorter than expected''))
                        else assemble_loop (missing - want) (payload @ sub 4 (4 + want) page)
                               (if next_pgno = 0 then None else Some next_pgno) p1))))"
  by pat_completeness auto
termination
  by (relation "measure (\<lambda>(missing, payload, nxt, p). missing)") auto

declare assemble_loop.simps [simp del]

definition assemble :: "u64 \<Rightarrow> bytes \<Rightarrow> u32 option \<Rightarrow> (pager, bytes) op" where
  "assemble payload_size local_payload overflow_page =
     bind_op (assemble_loop (unat payload_size - length local_payload) local_payload overflow_page)
       (\<lambda>payload. ret_op (take (unat payload_size) payload))"

definition assemble_payload :: "table_leaf_cell \<Rightarrow> (pager, bytes) op" where
  "assemble_payload cell = assemble (tl_payload_size cell) (tl_local_payload cell) (tl_overflow_page cell)"

definition assemble_index_interior_payload :: "index_interior_cell \<Rightarrow> (pager, bytes) op" where
  "assemble_index_interior_payload cell =
     assemble (ii_payload_size cell) (ii_local_payload cell) (ii_overflow_page cell)"

definition assemble_index_payload :: "index_leaf_cell \<Rightarrow> (pager, bytes) op" where
  "assemble_index_payload cell =
     assemble (il_payload_size cell) (il_local_payload cell) (il_overflow_page cell)"


section \<open>Bounds of the local part\<close>

text \<open>What the threshold arithmetic needs of the usable size and of the page-type threshold.\<close>

definition threshold_ok :: "nat \<Rightarrow> nat \<Rightarrow> bool" where
  "threshold_ok usable max_local \<longleftrightarrow> 480 \<le> usable \<and> (usable - 12) * 32 div 255 - 23 \<le> max_local \<and> max_local \<le> usable - 35"

lemma threshold_ok_table: "480 \<le> usable \<Longrightarrow> threshold_ok usable (table_leaf_max_local usable)"
proof -
  assume u: "480 \<le> usable"
  have "(usable - 12) * 32 div 255 \<le> (usable - 12) * 32 div 32" by (rule div_le_mono2) simp_all
  then have "(usable - 12) * 32 div 255 - 23 \<le> usable - 35" by simp
  then show ?thesis using u by (simp add: threshold_ok_def table_leaf_max_local_def)
qed

lemma threshold_ok_index: "480 \<le> usable \<Longrightarrow> threshold_ok usable (index_max_local usable)"
proof -
  assume u: "480 \<le> usable"
  have a: "(usable - 12) * 32 div 255 \<le> (usable - 12) * 64 div 255" by (intro div_le_mono) simp
  have "(usable - 12) * 64 div 255 \<le> (usable - 12) * 64 div 64" by (rule div_le_mono2) simp_all
  then have "(usable - 12) * 64 div 255 - 23 \<le> usable - 35" by simp
  then show ?thesis using u a by (simp add: threshold_ok_def index_max_local_def diff_le_mono)
qed

lemma local_payload_len_cases:
  assumes "threshold_ok usable max_local" and "local_payload_len payload usable max_local = (n, over)"
  shows "n \<le> payload" "n \<le> max_local" "over \<longleftrightarrow> max_local < payload" "over \<Longrightarrow> n < payload"
    "\<not> over \<Longrightarrow> n = payload"
proof -
  define m where "m = (usable - 12) * 32 div 255 - 23"
  define r where "r = (payload - m) mod (usable - 4)"
  have m: "m \<le> max_local" using assms(1) by (simp add: threshold_ok_def m_def)
  have e: "(n, over) = (if payload \<le> max_local then (payload, False)
      else (if m + r \<le> max_local then m + r else m, True))"
    using assms(2) unfolding local_payload_len_def Let_def m_def r_def by simp
  show "n \<le> payload" "n \<le> max_local" "over \<longleftrightarrow> max_local < payload" "over \<Longrightarrow> n < payload"
    "\<not> over \<Longrightarrow> n = payload"
    using e m by (auto split: if_splits)
qed

section \<open>Chains\<close>

lemma concat_chunks: "concat (chunks n d) = d"
proof (induction n d rule: chunks.induct)
  case (1 n d)
  then show ?case by (cases "length d \<le> n \<or> n = 0") (simp_all add: chunks.simps [of n d])
qed

lemma chunks_Cons: "\<exists>c cs. chunks n d = c # cs"
  by (simp add: chunks.simps [of n d])

text \<open>
  \<open>chain v n pgs d\<close>: the pages \<open>pgs\<close>, with contents \<open>v\<close>, are linked and hold \<open>d\<close> in pieces of \<open>n\<close>
  bytes, the last one possibly shorter and with a next pointer of zero.
\<close>

fun chain :: "(u32 \<Rightarrow> bytes) \<Rightarrow> nat \<Rightarrow> u32 list \<Rightarrow> bytes \<Rightarrow> bool" where
  "chain v n [] d \<longleftrightarrow> False"
| "chain v n [k] d \<longleftrightarrow> k \<noteq> 0 \<and> length d \<le> n \<and> sub 4 (4 + length d) (v k) = d
     \<and> be_u32 (sub 0 4 (v k)) = 0"
| "chain v n (k # k' # ks) d \<longleftrightarrow> k \<noteq> 0 \<and> n < length d \<and> sub 4 (4 + n) (v k) = take n d
     \<and> be_u32 (sub 0 4 (v k)) = k' \<and> chain v n (k' # ks) (drop n d)"

lemma chain_cong: "chain v n ks d \<Longrightarrow> (\<And>k. k \<in> set ks \<Longrightarrow> w k = v k) \<Longrightarrow> chain w n ks d"
  by (induction v n ks d rule: chain.induct) auto

lemma chain_pages_nonzero: "chain v n ks d \<Longrightarrow> k \<in> set ks \<Longrightarrow> k \<noteq> 0"
  by (induction v n ks d rule: chain.induct) auto

lemma write_chunk_ok:
  assumes "alloc_ok_pager p" and "in_range p k" and "4 + length c \<le> p_page_size p"
  shows "\<exists>q. write_chunk k nxt c p = (q, Inr ()) \<and> alloc_ok_pager q \<and> in_range q = in_range p
    \<and> p_page_size q = p_page_size p \<and> p_usable_size q = p_usable_size p \<and> pages_left q = pages_left p
    \<and> sub 0 4 (view q k) = be_enc 4 nxt \<and> sub 4 (4 + length c) (view q k) = c
    \<and> (\<forall>j. j \<noteq> k \<longrightarrow> view q j = view p j)"
proof -
  define buf where "buf = put_at 4 c (put_at 0 (be_enc 4 nxt) (replicate (p_page_size p) 0))"
  have l: "length buf = p_page_size p" using assms(3) by (simp add: buf_def)
  have s: "sub 0 4 buf = be_enc 4 nxt" "sub 4 (4 + length c) buf = c"
    using assms(3) by (simp_all add: buf_def sub_put_at_disj sub_put_at_same)
  obtain q where q: "write_page k buf p = (q, Inr ())" "alloc_ok_pager q" "view q = (view p)(k := buf)"
      "in_range q = in_range p" "p_page_size q = p_page_size p"
    using pager_alloc.wr_ok [OF assms(1,2) l] by blast
  have "write_chunk k nxt c p = (q, Inr ())"
    using assms(3) q(1) unfolding write_chunk_def buf_def by simp
  then show ?thesis using q s pager_alloc.wr_keeps [OF assms(1) q(1)] by auto
qed

text \<open>Writing the pieces gives a chain of the given first page and fresh pages.\<close>

lemma write_chain_ok:
  assumes "alloc_ok_pager p" and "in_range p k" and "k \<noteq> 0" and "0 < n" and "4 + n \<le> p_page_size p"
    and "length (chunks n d) \<le> Suc (pages_left p)"
  shows "\<exists>q ks. write_chain k (chunks n d) p = (q, Inr ()) \<and> chain (view q) n (k # ks) d
    \<and> alloc_ok_pager q \<and> p_page_size q = p_page_size p \<and> p_usable_size q = p_usable_size p
    \<and> pages_left p \<le> length (chunks n d) - 1 + pages_left q \<and> in_range q k \<and> distinct (k # ks)
    \<and> (\<forall>j \<in> set ks. in_range q j \<and> \<not> in_range p j)
    \<and> (\<forall>j. in_range p j \<longrightarrow> in_range q j) \<and> (\<forall>j. in_range p j \<longrightarrow> j \<noteq> k \<longrightarrow> view q j = view p j)"
  using assms
proof (induction n d arbitrary: k p rule: chunks.induct)
  case (1 n d)
  show ?case
  proof (cases "length d \<le> n")
    case True
    obtain q where q: "write_chunk k 0 d p = (q, Inr ())" "alloc_ok_pager q" "in_range q = in_range p"
        "p_page_size q = p_page_size p" "p_usable_size q = p_usable_size p" "pages_left q = pages_left p"
        "sub 4 (4 + length d) (view q k) = d" "\<And>j. j \<noteq> k \<Longrightarrow> view q j = view p j" "sub 0 4 (view q k) = be_enc 4 (0 :: u32)"
      using write_chunk_ok [OF 1(2,3), of d 0] 1(6) True by auto
    have "chain (view q) n [k] d" using 1(4) True q(7,9) by simp
    then show ?thesis
      using q True 1(3) by (intro exI [of _ q] exI [of _ "[]"]) (simp add: chunks.simps [of n d])
  next
    case False
    define c where "c = take n d"
    obtain c' cs where cs: "chunks n (drop n d) = c' # cs" using chunks_Cons by blast
    have ch: "chunks n d = c # c' # cs" using False 1(5) by (simp add: chunks.simps [of n d] cs c_def)
    have len: "length c = n" using False by (simp add: c_def)
    have "0 < pages_left p" using 1(7) ch by simp
    then obtain p1 k' where p1: "allocate_page p = (p1, Inr k')" "pager_alloc.extends 1 p p1" "k' \<noteq> 0"
        "\<not> in_range p k'" "in_range p1 k'"
      using pager_alloc.alloc_extends [OF 1(2)] by blast
    note e1 = p1(2) [unfolded pager_alloc.extends_def]
    obtain p2 where p2: "write_chunk k k' c p1 = (p2, Inr ())" "alloc_ok_pager p2" "in_range p2 = in_range p1"
        "p_page_size p2 = p_page_size p1" "p_usable_size p2 = p_usable_size p1" "pages_left p2 = pages_left p1"
        "sub 0 4 (view p2 k) = be_enc 4 k'" "sub 4 (4 + length c) (view p2 k) = c" "\<And>j. j \<noteq> k \<Longrightarrow> view p2 j = view p1 j"
      using write_chunk_ok [of p1 k c k'] e1 1(3,6) len by auto
    have prem: "in_range p2 k'" "4 + n \<le> p_page_size p2" "length (chunks n (drop n d)) \<le> Suc (pages_left p2)"
      using p1(5) p2 e1 1(6,7) ch cs by auto
    obtain q ks where q: "write_chain k' (c' # cs) p2 = (q, Inr ())" "chain (view q) n (k' # ks) (drop n d)"
        "alloc_ok_pager q" "p_page_size q = p_page_size p2" "p_usable_size q = p_usable_size p2"
        "pages_left p2 \<le> length (c' # cs) - 1 + pages_left q" "in_range q k'"
        "\<forall>j \<in> set ks. in_range q j \<and> \<not> in_range p2 j" "\<And>j. in_range p2 j \<Longrightarrow> in_range q j"
        "\<And>j. in_range p2 j \<Longrightarrow> j \<noteq> k' \<Longrightarrow> view q j = view p2 j" "distinct (k' # ks)"
      using 1(1) [OF _ p2(2) prem(1) p1(3) 1(5) prem(2,3)] False 1(5) unfolding cs by auto
    have kk: "k \<noteq> k'" using 1(3) p1(4) by auto
    have in1: "in_range p2 j" if "in_range p j" for j using that e1 p2(3) by auto
    have "view q k = view p2 k" using q(10) [OF in1 [OF 1(3)] kk] .
    then have "chain (view q) n (k # k' # ks) d"
      using 1(4) False p2(7,8) q(2) len by (simp add: c_def)
    moreover have "write_chain k (chunks n d) p = (q, Inr ())" using p1(1) p2(1) q(1) by (simp add: ch)
    moreover have fr: "\<forall>j \<in> set (k' # ks). in_range q j \<and> \<not> in_range p j" using q(7,8) p1(4) in1 by auto
    moreover have "distinct (k # k' # ks)" using q(11) fr 1(3) by auto
    moreover have "view q j = view p j" if "in_range p j" "j \<noteq> k" for j
    proof -
      have "j \<noteq> k'" using that(1) p1(4) by auto
      then show ?thesis using q(10) [OF in1 [OF that(1)]] p2(9) [OF that(2)] e1 that(1) by auto
    qed
    moreover have "pages_left p \<le> length (chunks n d) - 1 + pages_left q"
      using q(6) p2(6) e1 by (simp add: ch)
    ultimately show ?thesis
      using q(3,4,5,9) p2(4,5) e1 in1 1(3) by (intro exI [of _ q] exI [of _ "k' # ks"]) auto
  qed
qed

text \<open>Reading a chain gives back what it holds.\<close>

lemma assemble_loop_chain:
  assumes "alloc_ok_pager p" and "chain (view p) (p_usable_size p - 4) (k # ks) d"
    and "\<forall>j \<in> set (k # ks). in_range p j" and "d \<noteq> []"
  shows "\<exists>q. assemble_loop (length d) acc (Some k) p = (q, Inr (acc @ d)) \<and> pager_alloc.same_store p q"
  using assms
proof (induction ks arbitrary: k d acc p)
  case Nil
  let ?n = "p_usable_size p - 4"
  have g: "480 \<le> p_usable_size p" "p_usable_size p \<le> p_page_size p" using Nil.prems(1) by (auto simp: alloc_ok_pager_def)
  have c: "k \<noteq> 0" "length d \<le> ?n" "sub 4 (4 + length d) (view p k) = d" "in_range p k" using Nil.prems by auto
  obtain q where q: "get_page k p = (q, Inr (view p k))" "pager_alloc.same_store p q"
    using pager_alloc.rd_same [OF Nil.prems(1) c(4)] by blast
  have l: "length (view p k) = p_page_size p" using pager_alloc.length_vw [OF Nil.prems(1) c(4)] .
  have "min (length d) ?n = length d" using c(2) by simp
  then have "assemble_loop (length d) acc (Some k) p = (q, Inr (acc @ d))"
    using c g q(1) l Nil.prems(4)
    by (subst assemble_loop.simps) (simp add: Let_def assemble_loop.simps [of 0])
  then show ?case using q by blast
next
  case (Cons k' ks)
  let ?n = "p_usable_size p - 4"
  have g: "480 \<le> p_usable_size p" "p_usable_size p \<le> p_page_size p" using Cons.prems(1) by (auto simp: alloc_ok_pager_def)
  have c: "k \<noteq> 0" "?n < length d" "sub 4 (4 + ?n) (view p k) = take ?n d" "be_u32 (sub 0 4 (view p k)) = k'"
      "chain (view p) ?n (k' # ks) (drop ?n d)" "in_range p k"
    using Cons.prems by auto
  have k': "k' \<noteq> 0" using chain_pages_nonzero [OF c(5)] by simp
  obtain q where q: "get_page k p = (q, Inr (view p k))" "pager_alloc.same_store p q"
    using pager_alloc.rd_same [OF Cons.prems(1) c(6)] by blast
  note same = q(2) [unfolded pager_alloc.same_store_def]
  have l: "length (view p k) = p_page_size p" using pager_alloc.length_vw [OF Cons.prems(1) c(6)] .
  have m: "min (length d) ?n = ?n" using c(2) by simp
  have step: "assemble_loop (length d) acc (Some k) p = assemble_loop (length d - ?n) (acc @ take ?n d) (Some k') q"
    using c g q(1) l Cons.prems(4) k' by (subst assemble_loop.simps) (simp add: Let_def m)
  obtain r where "assemble_loop (length (drop ?n d)) (acc @ take ?n d) (Some k') q = (r, Inr ((acc @ take ?n d) @ drop ?n d))"
      "pager_alloc.same_store q r"
    using Cons.IH [of q k' "drop ?n d" "acc @ take ?n d"] same c(2,5) Cons.prems(3) by auto
  then show ?case using step pager_alloc.same_store_trans [OF q(2)] by (intro exI [of _ r]) simp
qed


section \<open>Payloads and cells as stored\<close>

text \<open>
  \<open>payload_at v usable max_local body payload ks\<close>: \<open>body\<close> is the end of a cell that stores
  \<open>payload\<close>, with the tail on the overflow pages \<open>ks\<close> of \<open>v\<close>.
\<close>

definition payload_at :: "(u32 \<Rightarrow> bytes) \<Rightarrow> nat \<Rightarrow> nat \<Rightarrow> bytes \<Rightarrow> bytes \<Rightarrow> u32 list \<Rightarrow> bool" where
  "payload_at v usable max_local body payload ks \<longleftrightarrow> length payload < 2 ^ 64 \<and>
     (case local_payload_len (length payload) usable max_local of (n, over) \<Rightarrow>
        if over then chain v (usable - 4) ks (drop n payload) \<and> body = take n payload @ be_enc 4 (hd ks)
        else ks = [] \<and> body = payload)"

definition table_cell :: "(u32 \<Rightarrow> bytes) \<Rightarrow> nat \<Rightarrow> bytes \<Rightarrow> i64 \<Rightarrow> bytes \<Rightarrow> u32 list \<Rightarrow> bool" where
  "table_cell v usable cell rowid payload ks \<longleftrightarrow>
     (\<exists>body. cell = write_varint (of_nat (length payload)) @ write_varint rowid @ body
        \<and> payload_at v usable (table_leaf_max_local usable) body payload ks)"

definition index_cell :: "(u32 \<Rightarrow> bytes) \<Rightarrow> nat \<Rightarrow> bytes \<Rightarrow> bytes \<Rightarrow> u32 list \<Rightarrow> bool" where
  "index_cell v usable cell key ks \<longleftrightarrow>
     (\<exists>body. cell = write_varint (of_nat (length key)) @ body
        \<and> payload_at v usable (index_max_local usable) body key ks)"

lemma payload_at_cong:
  "payload_at v usable m body payload ks \<Longrightarrow> (\<And>k. k \<in> set ks \<Longrightarrow> w k = v k) \<Longrightarrow> payload_at w usable m body payload ks"
  by (auto simp: payload_at_def split: prod.splits if_splits intro: chain_cong)

lemma table_cell_cong:
  "table_cell v usable cell rowid payload ks \<Longrightarrow> (\<And>k. k \<in> set ks \<Longrightarrow> w k = v k) \<Longrightarrow> table_cell w usable cell rowid payload ks"
  unfolding table_cell_def by (blast intro: payload_at_cong)

lemma length_chunks: "0 < n \<Longrightarrow> length (chunks n d) \<le> length d div n + 1"
proof (induction n d rule: chunks.induct)
  case (1 n d)
  show ?case
  proof (cases "length d \<le> n")
    case False
    then have "length (chunks n (drop n d)) \<le> (length d - n) div n + 1" using 1 by simp
    moreover have "length d div n = Suc ((length d - n) div n)" using False 1(2) by (simp add: le_div_geq)
    ultimately show ?thesis using False 1(2) by (simp add: chunks.simps [of n d])
  qed (simp add: chunks.simps [of n d])
qed

lemma spill_ok:
  assumes "alloc_ok_pager p" and "length d div (p_usable_size p - 4) + 2 \<le> pages_left p"
  shows "\<exists>q k ks. spill (p_usable_size p) d p = (q, Inr k) \<and> chain (view q) (p_usable_size p - 4) (k # ks) d
    \<and> pager_alloc.extends (length d div (p_usable_size p - 4) + 2) p q \<and> distinct (k # ks)
    \<and> (\<forall>j \<in> set (k # ks). in_range q j \<and> \<not> in_range p j)"
proof -
  let ?u = "p_usable_size p"
  have g: "480 \<le> ?u" "?u \<le> p_page_size p" using assms(1) by (auto simp: alloc_ok_pager_def)
  obtain p1 k where p1: "allocate_page p = (p1, Inr k)" "pager_alloc.extends 1 p p1" "k \<noteq> 0" "\<not> in_range p k" "in_range p1 k"
    using pager_alloc.alloc_extends [OF assms(1)] assms(2) by auto
  note e1 = p1(2) [unfolded pager_alloc.extends_def]
  have len: "length (chunks (?u - 4) d) \<le> length d div (?u - 4) + 1" using g by (intro length_chunks) simp
  then have pre: "alloc_ok_pager p1" "0 < ?u - 4" "4 + (?u - 4) \<le> p_page_size p1" "length (chunks (?u - 4) d) \<le> Suc (pages_left p1)"
    using e1 g assms(2) by auto
  obtain q ks where q: "write_chain k (chunks (?u - 4) d) p1 = (q, Inr ())" "chain (view q) (?u - 4) (k # ks) d"
      "alloc_ok_pager q" "p_page_size q = p_page_size p1" "p_usable_size q = p_usable_size p1"
      "pages_left p1 \<le> length (chunks (?u - 4) d) - 1 + pages_left q" "in_range q k"
      "\<forall>j \<in> set ks. in_range q j \<and> \<not> in_range p1 j" "\<And>j. in_range p1 j \<Longrightarrow> in_range q j"
      "\<And>j. in_range p1 j \<Longrightarrow> j \<noteq> k \<Longrightarrow> view q j = view p1 j" "distinct (k # ks)"
    using write_chain_ok [OF pre(1) p1(5,3) pre(2,3,4)] by blast
  have "pager_alloc.extends (length d div (?u - 4) + 2) p q"
    unfolding pager_alloc.extends_def
  proof (intro conjI allI impI)
    fix j
    assume j: "in_range p j"
    then have "j \<noteq> k" using p1(4) by auto
    then show "in_range q j" "view q j = view p j" using j q(9,10) e1 by auto
  qed (use q e1 len in auto)
  moreover have "spill ?u d p = (q, Inr k)" using p1(1) q(1) by (simp add: spill_def)
  moreover have "\<forall>j \<in> set (k # ks). in_range q j \<and> \<not> in_range p j" using q(7,8) p1(4) e1 by auto
  ultimately show ?thesis using q(2,11) by blast
qed

text \<open>The pages a payload of \<open>n\<close> bytes may take.\<close>

definition pages_for :: "pager \<Rightarrow> nat \<Rightarrow> nat" where
  "pages_for p n = n div (p_usable_size p - 4) + 2"

lemma build_payload_ok:
  assumes "alloc_ok_pager p" and "threshold_ok (p_usable_size p) m" and "length payload < 2 ^ 64"
    and "pages_for p (length payload) \<le> pages_left p"
  shows "\<exists>q body ks. build_payload payload (p_usable_size p) m p = (q, Inr body)
    \<and> payload_at (view q) (p_usable_size p) m body payload ks
    \<and> pager_alloc.extends (pages_for p (length payload)) p q \<and> distinct ks
    \<and> (\<forall>j \<in> set ks. in_range q j \<and> \<not> in_range p j)"
proof -
  let ?u = "p_usable_size p"
  obtain n over where l: "local_payload_len (length payload) ?u m = (n, over)" by force
  show ?thesis
  proof (cases over)
    case False
    then have "n = length payload" using local_payload_len_cases(5) [OF assms(2) l] by simp
    then have "build_payload payload ?u m p = (p, Inr payload)" using l False by (simp add: build_payload_def)
    moreover have "pager_alloc.extends (pages_for p (length payload)) p p" using assms(1) by (simp add: pager_alloc.extends_def)
    ultimately show ?thesis using l False assms(3) by (intro exI [of _ p] exI [of _ payload] exI [of _ "[]"]) (simp add: payload_at_def)
  next
    case True
    have le: "(length payload - n) div (?u - 4) \<le> length payload div (?u - 4)" by (rule div_le_mono) simp
    obtain q k ks where q: "spill ?u (drop n payload) p = (q, Inr k)" "chain (view q) (?u - 4) (k # ks) (drop n payload)"
        "pager_alloc.extends ((length payload - n) div (?u - 4) + 2) p q" "\<forall>j \<in> set (k # ks). in_range q j \<and> \<not> in_range p j"
        "distinct (k # ks)"
      using spill_ok [OF assms(1), of "drop n payload"] assms(4) le by (auto simp: pages_for_def)
    have "build_payload payload ?u m p = (q, Inr (take n payload @ be_enc 4 k))"
      using q(1) l True by (simp add: build_payload_def)
    moreover have "pager_alloc.extends (pages_for p (length payload)) p q"
      using q(3) le by (auto simp: pager_alloc.extends_def pages_for_def)
    moreover have "payload_at (view q) ?u m (take n payload @ be_enc 4 k) payload (k # ks)"
      using l True q(2) assms(3) by (simp add: payload_at_def)
    ultimately show ?thesis using q(4,5) by blast
  qed
qed

lemma read_local_ok:
  assumes "payload_at v usable m body payload ks" and "threshold_ok usable m"
    and "sub a (a + length body) page = body" and "a + length body \<le> length page"
  shows "read_local page a (length payload) usable m =
    (case local_payload_len (length payload) usable m of (n, over) \<Rightarrow>
       Inr (take n payload, if over then Some (hd ks) else None))"
proof -
  obtain n over where l: "local_payload_len (length payload) usable m = (n, over)" by force
  note b = local_payload_len_cases [OF assms(2) l]
  have s: "sub (a + i) (a + j) page = sub i j body" if "j \<le> length body" for i j
    using sub_sub [of a j "a + length body" i page] that assms(3) by simp
  show ?thesis
  proof (cases over)
    case False
    then show ?thesis using l assms b s [of n 0] by (simp add: payload_at_def read_local_def cell_slice_def get_range_def)
  next
    case True
    then have body: "body = take n payload @ be_enc 4 (hd ks)" using assms(1) l by (simp add: payload_at_def)
    then have "length body = n + 4" using b(1) by simp
    moreover have "sub 0 n body = take n payload" "sub n (n + 4) body = be_enc 4 (hd ks)"
      using body b(1) by (simp_all add: sub_def)
    ultimately show ?thesis
      using l True assms(4) s [of n 0] s [of "n + 4" n]
      by (simp add: read_local_def cell_slice_def get_range_def add.assoc)
  qed
qed

lemma assemble_ok:
  assumes "payload_at (view p) (p_usable_size p) m body payload ks" and "threshold_ok (p_usable_size p) m"
    and "alloc_ok_pager p" and "\<forall>j \<in> set ks. in_range p j"
    and "local_payload_len (length payload) (p_usable_size p) m = (n, over)"
  shows "\<exists>q. assemble (of_nat (length payload)) (take n payload) (if over then Some (hd ks) else None) p = (q, Inr payload)
    \<and> pager_alloc.same_store p q"
proof -
  note b = local_payload_len_cases [OF assms(2,5)]
  have u: "unat (of_nat (length payload) :: u64) = length payload" using assms(1) by (simp add: payload_at_def unat_of_nat)
  show ?thesis
  proof (cases over)
    case False
    then show ?thesis using b(5) pager_alloc.same_store_refl [OF assms(3)] u by (simp add: assemble_def assemble_loop.simps)
  next
    case True
    then have c: "chain (view p) (p_usable_size p - 4) ks (drop n payload)" using assms(1,5) by (simp add: payload_at_def)
    then obtain k ks' where ks: "ks = k # ks'" by (cases ks) auto
    have ne: "drop n payload \<noteq> []" using b(4) True by simp
    obtain q where "assemble_loop (length (drop n payload)) (take n payload) (Some k) p = (q, Inr (take n payload @ drop n payload))"
        "pager_alloc.same_store p q"
      using assemble_loop_chain [OF assms(3) c [unfolded ks] assms(4) [unfolded ks] ne] by blast
    then show ?thesis using True ks b(1) u by (intro exI [of _ q]) (simp add: assemble_def)
  qed
qed


section \<open>Cells on a page\<close>

lemma read_varint_prefix:
  assumes "sub a (a + length c) page = c" and "a + length c \<le> length page" and "c = write_varint v @ rest"
  shows "read_varint (drop a page) = Some (v, varint_len v)"
proof -
  have "drop a page = sub a (a + length c) page @ drop (a + length c) page"
    by (metis sub_def append_take_drop_id drop_drop add.commute diff_add_inverse)
  then have "drop a page = write_varint v @ rest @ drop (a + length c) page" using assms(1,3) by simp
  then show ?thesis using read_write_varint by metis
qed

lemma sub_suffix:
  assumes "sub a (a + length (x @ y)) page = x @ y"
  shows "sub (a + length x) (a + length x + length y) page = y"
proof -
  have "sub (a + length x) (a + (length x + length y)) page = sub (length x) (length x + length y) (x @ y)"
    using sub_sub [of a "length x + length y" "a + length (x @ y)" "length x" page] assms by simp
  then show ?thesis by (simp add: sub_append_right add.assoc)
qed

lemma parse_table_leaf_cell_ok:
  assumes "table_cell v usable cell rowid payload ks" and "480 \<le> usable"
    and "sub a (a + length cell) page = cell" and "a + length cell \<le> length page"
    and "local_payload_len (length payload) usable (table_leaf_max_local usable) = (n, over)"
  shows "parse_table_leaf_cell page a usable = Inr \<lparr>tl_payload_size = of_nat (length payload), tl_rowid = rowid,
      tl_local_payload = take n payload, tl_overflow_page = (if over then Some (hd ks) else None)\<rparr>"
    and "table_leaf_cell_rowid page a = Inr rowid"
proof -
  let ?ps = "of_nat (length payload) :: u64"
  obtain body where c: "cell = write_varint ?ps @ write_varint rowid @ body"
      "payload_at v usable (table_leaf_max_local usable) body payload ks"
    using assms(1) by (auto simp: table_cell_def)
  have u: "unat ?ps = length payload" using c(2) by (simp add: payload_at_def unat_of_nat)
  have r1: "read_varint (drop a page) = Some (?ps, varint_len ?ps)"
    using assms(3,4) c(1) by (rule read_varint_prefix)
  have s2: "sub (a + varint_len ?ps) (a + varint_len ?ps + length (write_varint rowid @ body)) page = write_varint rowid @ body"
    using sub_suffix [OF assms(3) [unfolded c(1)]] by (simp only: length_write_varint)
  have l2: "a + varint_len ?ps + length (write_varint rowid @ body) \<le> length page"
    using assms(4) c(1) by (simp add: length_write_varint)
  have r2: "read_varint (drop (a + varint_len ?ps) page) = Some (rowid, varint_len rowid)"
    using s2 l2 refl by (rule read_varint_prefix)
  have s3: "sub (a + varint_len ?ps + varint_len rowid) (a + varint_len ?ps + varint_len rowid + length body) page = body"
    using sub_suffix [OF s2] by (simp add: length_write_varint)
  have l3: "a + varint_len ?ps + varint_len rowid + length body \<le> length page" using l2 by (simp add: length_write_varint)
  have v: "varint_at page a w = Inr (?ps, varint_len ?ps)" for w
    using r1 assms(4) by (simp add: varint_at_def get_range_def drop_eq_sub)
  note rl = read_local_ok [OF c(2) threshold_ok_table [OF assms(2)] s3 l3]
  show "parse_table_leaf_cell page a usable = Inr \<lparr>tl_payload_size = ?ps, tl_rowid = rowid,
      tl_local_payload = take n payload, tl_overflow_page = (if over then Some (hd ks) else None)\<rparr>"
    using v r2 rl u assms(5) by (simp add: parse_table_leaf_cell_def read_varint_i64_def)
  show "table_leaf_cell_rowid page a = Inr rowid"
    using v r2 by (simp add: table_leaf_cell_rowid_def read_varint_i64_def)
qed

lemma build_table_leaf_cell_ok:
  assumes "alloc_ok_pager p" and "length payload < 2 ^ 64" and "pages_for p (length payload) \<le> pages_left p"
  shows "\<exists>q cell ks. build_table_leaf_cell rowid payload (p_usable_size p) p = (q, Inr cell)
    \<and> table_cell (view q) (p_usable_size p) cell rowid payload ks
    \<and> pager_alloc.extends (pages_for p (length payload)) p q \<and> distinct ks
    \<and> (\<forall>j \<in> set ks. in_range q j \<and> \<not> in_range p j)"
proof -
  have "480 \<le> p_usable_size p" using assms(1) by (simp add: alloc_ok_pager_def)
  from build_payload_ok [OF assms(1) threshold_ok_table [OF this] assms(2,3)]
  show ?thesis
    unfolding build_table_leaf_cell_def build_table_leaf_cell_with_host_def table_cell_def table_leaf_max_local_def
    by fastforce
qed

text \<open>The bytes the cell of a row takes on its page.\<close>

definition cell_len :: "nat \<Rightarrow> i64 \<Rightarrow> nat \<Rightarrow> nat" where
  "cell_len usable rowid n = varint_len (of_nat n) + varint_len rowid
     + (case local_payload_len n usable (table_leaf_max_local usable) of (l, over) \<Rightarrow> l + (if over then 4 else 0))"

lemma table_cell_length:
  assumes "table_cell v usable cell rowid payload ks" and "480 \<le> usable"
  shows "length cell = cell_len usable rowid (length payload)" "cell \<noteq> []"
proof -
  obtain n over where l: "local_payload_len (length payload) usable (table_leaf_max_local usable) = (n, over)" by force
  note b = local_payload_len_cases [OF threshold_ok_table [OF assms(2)] l]
  show len: "length cell = cell_len usable rowid (length payload)"
    using assms(1) l b(1,5) by (auto simp: table_cell_def payload_at_def cell_len_def length_write_varint split: if_splits)
  have "0 < length cell" unfolding len cell_len_def using varint_len_bounds(1) [of rowid] by simp
  then show "cell \<noteq> []" by simp
qed

lemma build_with_host: "build_table_leaf_cell_with_host rowid payload usable h = build_table_leaf_cell rowid payload usable"
  by (simp add: build_table_leaf_cell_def build_table_leaf_cell_with_host_def)

lemma table_cell_assembles:
  assumes "table_cell (view p) (p_usable_size p) cell rowid payload ks" and "alloc_ok_pager p"
    and "\<forall>j \<in> set ks. in_range p j" and "sub a (a + length cell) page = cell" and "a + length cell \<le> length page"
  shows "\<exists>c q. parse_table_leaf_cell page a (p_usable_size p) = Inr c \<and> tl_rowid c = rowid
    \<and> assemble_payload c p = (q, Inr payload) \<and> pager_alloc.same_store p q"
proof -
  have u: "480 \<le> p_usable_size p" using assms(2) by (simp add: alloc_ok_pager_def)
  obtain n over where l: "local_payload_len (length payload) (p_usable_size p) (table_leaf_max_local (p_usable_size p)) = (n, over)"
    by force
  obtain body where "payload_at (view p) (p_usable_size p) (table_leaf_max_local (p_usable_size p)) body payload ks"
    using assms(1) by (auto simp: table_cell_def)
  from assemble_ok [OF this threshold_ok_table [OF u] assms(2,3) l]
  show ?thesis
    using parse_table_leaf_cell_ok(1) [OF assms(1) u assms(4,5) l]
    unfolding assemble_payload_def by fastforce
qed

section \<open>Index cells\<close>

lemma index_cell_assembles:
  assumes "index_cell (view p) (p_usable_size p) cell key ks" and "alloc_ok_pager p"
    and "\<forall>j \<in> set ks. in_range p j" and "sub a (a + length cell) page = cell" and "a + length cell \<le> length page"
  shows "\<exists>c q. parse_index_leaf_cell page a (p_usable_size p) = Inr c
    \<and> assemble_index_payload c p = (q, Inr key) \<and> pager_alloc.same_store p q"
proof -
  let ?u = "p_usable_size p" and ?ps = "of_nat (length key) :: u64"
  have u: "480 \<le> ?u" using assms(2) by (simp add: alloc_ok_pager_def)
  obtain n over where l: "local_payload_len (length key) ?u (index_max_local ?u) = (n, over)" by force
  obtain body where c: "cell = write_varint ?ps @ body" "payload_at (view p) ?u (index_max_local ?u) body key ks"
    using assms(1) by (auto simp: index_cell_def)
  have ps: "unat ?ps = length key" using c(2) by (simp add: payload_at_def unat_of_nat)
  have r: "read_varint (drop a page) = Some (?ps, varint_len ?ps)" using assms(4,5) c(1) by (rule read_varint_prefix)
  have s: "sub (a + varint_len ?ps) (a + varint_len ?ps + length body) page = body"
    using sub_suffix [OF assms(4) [unfolded c(1)]] by (simp only: length_write_varint)
  have le: "a + varint_len ?ps + length body \<le> length page" using assms(5) c(1) by (simp add: length_write_varint)
  have "varint_at page a w = Inr (?ps, varint_len ?ps)" for w
    using r assms(5) by (simp add: varint_at_def get_range_def drop_eq_sub)
  then have "parse_index_leaf_cell page a ?u = Inr \<lparr>il_payload_size = ?ps, il_local_payload = take n key,
      il_overflow_page = (if over then Some (hd ks) else None)\<rparr>"
    using read_local_ok [OF c(2) threshold_ok_index [OF u] s le] ps l by (simp add: parse_index_leaf_cell_def)
  with assemble_ok [OF c(2) threshold_ok_index [OF u] assms(2,3) l]
  show ?thesis unfolding assemble_index_payload_def by fastforce
qed

lemma build_index_leaf_cell_ok:
  assumes "alloc_ok_pager p" and "length key < 2 ^ 64" and "pages_for p (length key) \<le> pages_left p"
  shows "\<exists>q cell ks. build_index_leaf_cell key (p_usable_size p) p = (q, Inr cell)
    \<and> index_cell (view q) (p_usable_size p) cell key ks
    \<and> pager_alloc.extends (pages_for p (length key)) p q \<and> (\<forall>j \<in> set ks. in_range q j \<and> \<not> in_range p j)"
proof -
  have "480 \<le> p_usable_size p" using assms(1) by (simp add: alloc_ok_pager_def)
  from build_payload_ok [OF assms(1) threshold_ok_index [OF this] assms(2,3)]
  show ?thesis
    unfolding build_index_leaf_cell_def build_index_leaf_cell_with_host_def index_cell_def by fastforce
qed

lemma parse_table_interior_cell_ok:
  assumes "cell = build_table_interior_cell left_child rowid"
    and "sub a (a + length cell) page = cell" and "a + length cell \<le> length page"
  shows "parse_table_interior_cell page a = Inr \<lparr>ti_left_child = left_child, ti_rowid = rowid\<rparr>"
proof -
  have c: "cell = be_enc 4 left_child @ write_varint rowid" using assms(1) by (simp add: build_table_interior_cell_def)
  have l: "length cell = 4 + varint_len rowid" by (simp add: c length_write_varint)
  have "sub a (a + 4) page = sub 0 4 (sub a (a + length cell) page)" using sub_sub [of a 4 "a + length cell" 0 page] l by simp
  then have s1: "sub a (a + 4) page = be_enc 4 left_child" unfolding assms(2) by (simp add: c sub_def)
  have s2: "sub (a + 4) (a + 4 + length (write_varint rowid)) page = write_varint rowid"
    using sub_suffix [of a "be_enc 4 left_child" "write_varint rowid"] assms(2) by (simp add: c)
  have "read_varint (drop (a + 4) page) = Some (rowid, varint_len rowid)"
    by (rule read_varint_prefix [OF s2, where rest = "[]"]) (use assms(3) l in \<open>simp_all add: length_write_varint\<close>)
  then show ?thesis
    using s1 assms(3) l by (simp add: parse_table_interior_cell_def cell_slice_def get_range_def read_varint_i64_def)
qed


section \<open>Properties\<close>

text \<open>
  The part of a payload kept on the page never exceeds the payload or the threshold of the page
  type; a tail spills exactly when the payload exceeds the threshold, and then at least the minimum
  stays local and, unless just the minimum does, the tail fills its overflow pages completely.
\<close>

theorem local_payload_bounds:
  assumes "480 \<le> usable" and "max_local = table_leaf_max_local usable \<or> max_local = index_max_local usable"
    and "min_local = (usable - 12) * 32 div 255 - 23" and "local_payload_len payload usable max_local = (n, over)"
  shows "n \<le> payload \<and> n \<le> max_local \<and> (over \<longleftrightarrow> max_local < payload) \<and> (\<not> over \<longrightarrow> n = payload)
    \<and> (over \<longrightarrow> min_local \<le> n \<and> n < payload \<and> n + 4 \<le> usable \<and> (n = min_local \<or> (usable - 4) dvd (payload - n)))"
proof -
  have t: "threshold_ok usable max_local" using assms(1,2) threshold_ok_table threshold_ok_index by blast
  note b = local_payload_len_cases [OF t assms(4)]
  have tail: "min_local \<le> n \<and> (n = min_local \<or> (usable - 4) dvd (payload - n))" if over
  proof -
    define r where "r = (payload - min_local) mod (usable - 4)"
    have "n = (if min_local + r \<le> max_local then min_local + r else min_local)"
      using assms(4) b(3) that unfolding local_payload_len_def Let_def assms(3) [symmetric] r_def by (auto split: if_splits)
    moreover have "(usable - 4) dvd (payload - (min_local + r))"
      unfolding r_def by (metis diff_diff_left dvd_minus_mod)
    ultimately show ?thesis by auto
  qed
  have "n \<le> usable - 35" using b(2) t by (simp add: threshold_ok_def)
  then have "n + 4 \<le> usable" using assms(1) by linarith
  then show ?thesis using b tail by blast
qed

theorem local_payload_bounds_witness:
  "local_payload_len 5000 4096 (table_leaf_max_local 4096) = (908, True) \<and> 908 \<le> table_leaf_max_local 4096
     \<and> (4092 :: nat) dvd (5000 - 908)"
proof -
  have l: "local_payload_len 5000 4096 (table_leaf_max_local 4096) = (908, True)"
    by (simp add: local_payload_len_def table_leaf_max_local_def Let_def)
  show ?thesis using local_payload_bounds [OF _ _ refl l] l by simp
qed

text \<open>
  A table-leaf cell built for a row stores that row, whatever the length of its payload: the
  builder returns, only writes pages it has just allocated, and from any page the cell is copied to
  and any later state that still has those pages, the cell parses to the rowid and its payload
  assembles to the bytes given.
\<close>

theorem table_cell_roundtrip:
  assumes "alloc_ok_pager p" and "length payload < 2 ^ 64" and "pages_for p (length payload) \<le> pages_left p"
  shows "\<exists>q cell. build_table_leaf_cell rowid payload (p_usable_size p) p = (q, Inr cell) \<and> alloc_ok_pager q
    \<and> (\<forall>j. in_range p j \<longrightarrow> view q j = view p j)
    \<and> (\<forall>q' page a. alloc_ok_pager q' \<longrightarrow> p_usable_size q' = p_usable_size p
         \<longrightarrow> (\<forall>j. in_range q j \<and> \<not> in_range p j \<longrightarrow> in_range q' j \<and> view q' j = view q j)
         \<longrightarrow> sub a (a + length cell) page = cell \<longrightarrow> a + length cell \<le> length page
         \<longrightarrow> (\<exists>c. parse_table_leaf_cell page a (p_usable_size p) = Inr c \<and> tl_rowid c = rowid
                \<and> snd (assemble_payload c q') = Inr payload))"
proof -
  obtain q cell ks where q: "build_table_leaf_cell rowid payload (p_usable_size p) p = (q, Inr cell)"
      "table_cell (view q) (p_usable_size p) cell rowid payload ks" "pager_alloc.extends (pages_for p (length payload)) p q"
      "\<forall>j \<in> set ks. in_range q j \<and> \<not> in_range p j"
    using build_table_leaf_cell_ok [OF assms] by blast
  have "\<exists>c. parse_table_leaf_cell page a (p_usable_size p) = Inr c \<and> tl_rowid c = rowid
          \<and> snd (assemble_payload c q') = Inr payload"
    if q': "alloc_ok_pager q'" "p_usable_size q' = p_usable_size p"
      "\<forall>j. in_range q j \<and> \<not> in_range p j \<longrightarrow> in_range q' j \<and> view q' j = view q j"
      "sub a (a + length cell) page = cell" "a + length cell \<le> length page" for q' page a
  proof -
    have "table_cell (view q') (p_usable_size q') cell rowid payload ks"
      unfolding q'(2) by (rule table_cell_cong [OF q(2)]) (use q(4) q'(3) in auto)
    from table_cell_assembles [OF this q'(1) _ q'(4,5)] show ?thesis using q(4) q'(2,3) by fastforce
  qed
  then show ?thesis using q(1,3) by (intro exI [of _ q] exI [of _ cell]) (auto simp: pager_alloc.extends_def)
qed

theorem table_cell_roundtrip_witness:
  "\<exists>q cell c. build_table_leaf_cell 7 (replicate 2000 5) 512 sample_avdb = (q, Inr cell)
     \<and> parse_table_leaf_cell cell 0 512 = Inr c \<and> tl_rowid c = 7 \<and> snd (assemble_payload c q) = Inr (replicate 2000 5)"
proof -
  have u: "p_usable_size sample_avdb = 512" by (simp add: sample_avdb_def pager_of_def fresh_header_def usable_size_def)
  have "pages_for sample_avdb (length (replicate 2000 (5 :: u8))) \<le> pages_left sample_avdb"
    by (simp add: pages_for_def u pages_left_def sample_avdb_ok(3))
  from table_cell_roundtrip [OF sample_avdb_ok(1) _ this, of 7]
  obtain q cell where q: "build_table_leaf_cell 7 (replicate 2000 5) 512 sample_avdb = (q, Inr cell)" "alloc_ok_pager q"
      and r: "\<And>q' page a. alloc_ok_pager q' \<Longrightarrow> p_usable_size q' = 512 \<Longrightarrow>
         (\<forall>j. in_range q j \<and> \<not> in_range sample_avdb j \<longrightarrow> in_range q' j \<and> view q' j = view q j) \<Longrightarrow>
         sub a (a + length cell) page = cell \<Longrightarrow> a + length cell \<le> length page \<Longrightarrow>
         \<exists>c. parse_table_leaf_cell page a 512 = Inr c \<and> tl_rowid c = 7 \<and> snd (assemble_payload c q') = Inr (replicate 2000 5)"
    unfolding u by auto
  have "p_usable_size q = 512"
    using build_table_leaf_cell_ok [OF sample_avdb_ok(1), of "replicate 2000 5" 7] q(1)
      \<open>pages_for sample_avdb (length (replicate 2000 (5 :: u8))) \<le> pages_left sample_avdb\<close>
    by (auto simp: u pager_alloc.extends_def)
  then show ?thesis using r [OF q(2), of 0 cell] q(1) by auto
qed

text \<open>The same for the key record of an index-leaf cell.\<close>

theorem index_cell_roundtrip:
  assumes "alloc_ok_pager p" and "length key < 2 ^ 64" and "pages_for p (length key) \<le> pages_left p"
  shows "\<exists>q cell. build_index_leaf_cell key (p_usable_size p) p = (q, Inr cell) \<and> alloc_ok_pager q
    \<and> p_usable_size q = p_usable_size p \<and> (\<forall>j. in_range p j \<longrightarrow> view q j = view p j)
    \<and> (\<forall>page a. sub a (a + length cell) page = cell \<longrightarrow> a + length cell \<le> length page
         \<longrightarrow> (\<exists>c. parse_index_leaf_cell page a (p_usable_size p) = Inr c
                \<and> snd (assemble_index_payload c q) = Inr key))"
proof -
  obtain q cell ks where q: "build_index_leaf_cell key (p_usable_size p) p = (q, Inr cell)"
      "index_cell (view q) (p_usable_size p) cell key ks" "pager_alloc.extends (pages_for p (length key)) p q"
      "\<forall>j \<in> set ks. in_range q j \<and> \<not> in_range p j"
    using build_index_leaf_cell_ok [OF assms] by blast
  then have e: "alloc_ok_pager q" "p_usable_size q = p_usable_size p" "\<forall>j. in_range p j \<longrightarrow> view q j = view p j"
    by (auto simp: pager_alloc.extends_def)
  have "\<exists>c. parse_index_leaf_cell page a (p_usable_size p) = Inr c \<and> snd (assemble_index_payload c q) = Inr key"
    if "sub a (a + length cell) page = cell" "a + length cell \<le> length page" for page a
    using index_cell_assembles [of q cell key ks a page] q(2,4) e that by fastforce
  then show ?thesis using q(1) e by blast
qed

theorem index_cell_roundtrip_witness:
  "\<exists>q cell c. build_index_leaf_cell (replicate 900 3) 512 sample_avdb = (q, Inr cell)
     \<and> parse_index_leaf_cell cell 0 512 = Inr c \<and> snd (assemble_index_payload c q) = Inr (replicate 900 3)"
proof -
  have u: "p_usable_size sample_avdb = 512" by (simp add: sample_avdb_def pager_of_def fresh_header_def usable_size_def)
  have "pages_for sample_avdb (length (replicate 900 (3 :: u8))) \<le> pages_left sample_avdb"
    by (simp add: pages_for_def u pages_left_def sample_avdb_ok(3))
  from index_cell_roundtrip [OF sample_avdb_ok(1) _ this]
  obtain q cell where q: "build_index_leaf_cell (replicate 900 3) 512 sample_avdb = (q, Inr cell)"
      and r: "\<And>page a. sub a (a + length cell) page = cell \<Longrightarrow> a + length cell \<le> length page \<Longrightarrow>
         \<exists>c. parse_index_leaf_cell page a 512 = Inr c \<and> snd (assemble_index_payload c q) = Inr (replicate 900 3)"
    unfolding u by auto
  then show ?thesis using r [of 0 cell] by auto
qed

end
