(* ===== verification/Btree_Node.thy ===== *)
theory Btree_Node
  imports Btree_Cell
begin

text \<open>
  B-tree pages as nodes. \<open>node_page\<close> says that a page has a type, a right-most pointer and a list of
  cells; it is the form in which the b-tree operations use the page layout of \<open>Btree_Page\<close>. Its
  laws: parsing gives the type, the pointer and the cells; a page rewritten from cells is such a
  node; inserting a cell inserts it into the list.
\<close>

definition node_page :: "bytes \<Rightarrow> nat \<Rightarrow> page_type \<Rightarrow> u32 option \<Rightarrow> bytes list \<Rightarrow> bool" where
  "node_page page h ty rm cells \<longleftrightarrow> page ! h = page_type_byte ty \<and> holds (header_size_of ty) h page cells
     \<and> (case rm of None \<Rightarrow> is_leaf ty | Some r \<Rightarrow> \<not> is_leaf ty \<and> be_u32 (sub (h + 8) (h + 12) page) = r)"

lemma header_size_of_ge: "8 \<le> header_size_of ty" "header_size_of ty \<le> 12"
  by (simp_all add: header_size_of_def)

lemma node_page_parse:
  assumes "node_page page h ty rm cells"
  obtains ph where "page_header_parse page h = Inr ph" "ph_page_type ph = ty" "ph_right_most_pointer ph = rm"
    "unat (ph_num_cells ph) = length cells" "ph_base_offset ph = h"
    "\<And>i. i < length cells \<Longrightarrow> cell_pointer ph page i = Inr (ptr_of (header_size_of ty) h page i)"
proof -
  have H: "holds (header_size_of ty) h page cells" and ty: "page ! h = page_type_byte ty"
      and rm: "case rm of None \<Rightarrow> is_leaf ty | Some r \<Rightarrow> \<not> is_leaf ty \<and> be_u32 (sub (h + 8) (h + 12) page) = r"
    using assms by (simp_all add: node_page_def)
  have b: "h + header_size_of ty + length cells * 2 \<le> length page" "num_cells page h = length cells"
    using H by (auto simp: holds_def)
  have l: "h + 8 \<le> length page" "\<not> (\<not> is_leaf ty \<and> length page < h + 12)"
    using b(1) by (auto simp: header_size_of_def split: if_splits)
  then obtain ph where ph: "page_header_parse page h = Inr ph" by (simp add: page_header_parse_def ty)
  have f: "ph_page_type ph = ty" "ph_right_most_pointer ph = rm" "unat (ph_num_cells ph) = length cells"
      "ph_base_offset ph = h" "ph_header_size ph = header_size_of ty"
    using ph l rm b(2) by (auto simp: page_header_parse_def ty header_size_of_def num_cells_def split: option.splits)
  have "cell_pointer ph page i = Inr (ptr_of (header_size_of ty) h page i)" if "i < length cells" for i
    using that b(1) by (simp add: cell_pointer_def f ptr_of_def Let_def)
  then show thesis using that ph f by blast
qed

lemma node_page_cell:
  assumes "node_page page h ty rm cells" and "i < length cells"
  defines "a \<equiv> ptr_of (header_size_of ty) h page i"
  shows "sub a (a + length (cells ! i)) page = cells ! i" "a + length (cells ! i) \<le> length page"
  using assms by (auto simp: node_page_def holds_def)

text \<open>The bytes the cells of a page and their pointers take.\<close>

definition cells_size :: "bytes list \<Rightarrow> nat" where
  "cells_size cells = length cells * 2 + sum_list (map length cells)"

lemma cells_size_simps [simp]:
  "cells_size [] = 0" "cells_size (c # cs) = length c + 2 + cells_size cs"
  "cells_size (as @ bs) = cells_size as + cells_size bs"
  by (simp_all add: cells_size_def)

lemma write_page_cells_node:
  assumes "length page \<le> 65536" and "(right_most = None) = is_leaf ty" and "[] \<notin> set cells"
    and "h + header_size_of ty + cells_size cells \<le> length page"
  shows "\<exists>q. write_page_cells page h ty right_most cells = Inr q \<and> length q = length page
    \<and> take h q = take h page \<and> node_page q h ty right_most cells"
proof -
  have r: "h + header_size_of ty + length cells * 2 + sum_list (map length cells) \<le> length page"
    using assms(4) by (simp add: cells_size_def)
  obtain q ph where q: "write_page_cells page h ty right_most cells = Inr q" "length q = length page"
      "take h q = take h page" "holds (header_size_of ty) h q cells" "page_header_parse q h = Inr ph"
      "ph_page_type ph = ty" "ph_right_most_pointer ph = right_most"
    using write_page_cells_holds [OF assms(1-3) r] by blast
  have l: "h + 8 \<le> length q" using r q(2) header_size_of_ge(1) [of ty] by linarith
  obtain t where t: "page_type_from_byte (q ! h) = Inr t"
    using q(5) l by (cases "page_type_from_byte (q ! h)") (simp_all add: page_header_parse_def)
  have lf: "\<not> (\<not> is_leaf t \<and> length q < h + 12)" using q(5) l t by (auto simp: page_header_parse_def)
  then have ph: "t = ty" "right_most = (if is_leaf t then None else Some (be_u32 (sub (h + 8) (h + 12) q)))"
    using q(5-7) l t by (auto simp: page_header_parse_def)
  have "q ! h = page_type_byte ty" using t unfolding ph(1) by (cases ty) (simp_all add: page_type_from_byte_def split: if_splits)
  then show ?thesis using q(1-4) ph assms(2) by (cases "is_leaf ty") (simp_all add: node_page_def)
qed

text \<open>A leaf rewritten from its cells has no gaps: what its cells do not take is free.\<close>

lemma write_page_cells_free:
  assumes "length page \<le> 65536" and "is_leaf ty" and "h + 8 + cells_size cells \<le> length page"
    and "write_page_cells page h ty None cells = Inr q"
  shows "leaf_free_space q h = length page - (h + 8 + cells_size cells)"
proof -
  have hs: "header_size_of ty = 8" using assms(2) by (simp add: header_size_of_def)
  have room: "h + header_size_of ty + length cells * 2 + sum_list (map length cells) \<le> length page"
    using assms(3) by (simp add: hs cells_size_def)
  have rm: "(None = (None :: u32 option)) = is_leaf ty" using assms(2) by simp
  obtain q' offs ccs where f: "write_page_cells page h ty None cells = Inr q'" "cell_offsets (length page) cells = Some (offs, ccs)"
      "h + header_size_of ty + length cells * 2 \<le> ccs" "sub (h + 3) (h + 5) q' = be_enc 2 (of_nat (length cells) :: u16)"
      "sub (h + 5) (h + 7) q' = be_enc 2 (stored_start ccs)"
    using write_page_cells_fields [OF assms(1) rm room] by metis
  have q': "q' = q" using f(1) assms(4) by simp
  have ccs: "ccs = length page - sum_list (map length cells)"
    using cell_offsets_total [of cells "length page"] f(2) room by auto
  have "0 < ccs" "ccs \<le> 65536" using f(3) hs assms(1) ccs by linarith+
  then have c: "content_start q h = ccs" by (simp only: content_start_def f(5) [unfolded q'] be_u16_enc content_start_stored)
  have "length cells < 65536" using room assms(1) hs by linarith
  then have "num_cells q h = length cells" by (simp only: num_cells_def f(4) [unfolded q'] be_u16_enc unat_u16_small)
  then show ?thesis using room ccs by (simp add: leaf_free_space_def c cells_size_def hs LEAF_HEADER_SIZE_def)
qed

lemma insert_leaf_cell_node:
  assumes "node_page page h ty None cells" and "is_leaf ty" and "idx \<le> length cells" and "cell \<noteq> []"
  shows "if length cell + 2 \<le> leaf_free_space page h
    then \<exists>q. insert_leaf_cell page h idx cell = Inr q \<and> length q = length page \<and> take h q = take h page
            \<and> node_page q h ty None (take idx cells @ [cell] @ drop idx cells)
    else insert_leaf_cell page h idx cell = Inl page_full_error"
proof -
  have ty: "page ! h = 0x0d \<or> page ! h = 0x0a" using assms(1,2) by (cases ty) (auto simp: node_page_def is_leaf_def)
  have H: "holds 8 h page cells" using assms(1,2) by (simp add: node_page_def header_size_of_def)
  have pos: "0 < length cell" using assms(4) by simp
  note ins = insert_leaf_cell_cases [OF H ty assms(3) pos]
  show ?thesis
  proof (cases "length cell + 2 \<le> leaf_free_space page h")
    case True
    then obtain q where q: "insert_leaf_cell page h idx cell = Inr q" "length q = length page"
        "holds 8 h q (take idx cells @ [cell] @ drop idx cells)" "take (h + 3) q = take (h + 3) page"
      using ins by auto
    have "h + 8 \<le> length page" using holds_bounds [OF H] by simp
    then have "q ! h = page ! h" using q(4) nth_take [of h "h + 3" q] nth_take [of h "h + 3" page] by simp
    moreover have "take h q = take h page" using q(4) by (metis take_take min.absorb1 le_add1)
    ultimately show ?thesis using True q assms(1,2) by (auto simp: node_page_def header_size_of_def)
  qed (use ins in auto)
qed

text \<open>The same for an interior page, which keeps its right-most pointer.\<close>

lemma insert_interior_cell_node:
  assumes "node_page page h ty (Some r) cells" and "idx \<le> length cells" and "cell \<noteq> []"
  shows "if length cell + 2 \<le> interior_free_space page h
    then \<exists>q. insert_interior_cell page h idx cell = Inr q \<and> length q = length page \<and> take h q = take h page
            \<and> node_page q h ty (Some r) (take idx cells @ [cell] @ drop idx cells)
    else insert_interior_cell page h idx cell = Inl page_full_error"
proof -
  have nl: "\<not> is_leaf ty" using assms(1) by (simp add: node_page_def)
  have ty: "page ! h = 0x05 \<or> page ! h = 0x02" using assms(1) nl by (cases ty) (auto simp: node_page_def is_leaf_def)
  have H: "holds 12 h page cells" using assms(1) nl by (simp add: node_page_def header_size_of_def)
  have pos: "0 < length cell" using assms(3) by simp
  note ins = insert_interior_cell_cases [OF H ty assms(2) pos]
  show ?thesis
  proof (cases "length cell + 2 \<le> interior_free_space page h")
    case True
    then obtain q where q: "insert_interior_cell page h idx cell = Inr q" "length q = length page"
        "holds 12 h q (take idx cells @ [cell] @ drop idx cells)" "take (h + 3) q = take (h + 3) page"
        "sub (h + 8) (h + 12) q = sub (h + 8) (h + 12) page"
      using ins by auto
    have "h + 8 \<le> length page" using holds_bounds [OF H] by simp
    then have "q ! h = page ! h" using q(4) nth_take [of h "h + 3" q] nth_take [of h "h + 3" page] by simp
    moreover have "take h q = take h page" using q(4) by (metis take_take min.absorb1 le_add1)
    ultimately show ?thesis using True q assms(1) nl by (auto simp: node_page_def header_size_of_def)
  qed (use ins in auto)
qed

end
