(* ===== verification/Btree_Table.thy ===== *)
theory Btree_Table
  imports Btree_Node
begin

text \<open>
  Reading a table b-tree (\<open>btree/cursor.rs\<close>): the recursive scan and the streaming cursor with
  \<open>rewind\<close>, \<open>next\<close> and \<open>seek_rowid\<close>. The state of a cursor operation is the cursor beside the pager
  it reads through. The recursion of \<open>visit\<close> and the loops of the descents follow page pointers and
  do not end on a cyclic file; they take a bound on the number of turns, and running out of it stands
  for a run that has not ended (the theorems of \<open>Btree_Scan\<close> give bounds that are enough). The stack
  of the cursor is a list with its top first.
\<close>

definition read_node :: "u32 \<Rightarrow> (pager, bytes \<times> page_header) op" where
  "read_node pgno =
     bind_op (get_page pgno) (\<lambda>page.
       bind_op (lift_op (page_header_parse page (btree_header_offset pgno))) (\<lambda>hdr. ret_op (page, hdr)))"

definition n_cells :: "page_header \<Rightarrow> nat" where
  "n_cells hdr = unat (ph_num_cells hdr)"

section \<open>Scanning\<close>

definition scan_row :: "bytes \<Rightarrow> page_header \<Rightarrow> nat \<Rightarrow> (pager, i64 \<times> bytes) op" where
  "scan_row page hdr i p =
     bind_op (lift_op (and_then (cell_pointer hdr page i) (\<lambda>off. parse_table_leaf_cell page off (p_usable_size p))))
       (\<lambda>cell. bind_op (assemble_payload cell) (\<lambda>payload. ret_op (tl_rowid cell, payload))) p"

definition left_child_at :: "bytes \<Rightarrow> page_header \<Rightarrow> nat \<Rightarrow> u32 result" where
  "left_child_at page hdr i =
     and_then (cell_pointer hdr page i) (\<lambda>off.
       and_then (parse_table_interior_cell page off) (\<lambda>cell. Inr (ti_left_child cell)))"

fun visit :: "nat \<Rightarrow> u32 \<Rightarrow> (pager, (i64 \<times> bytes) list) op" where
  "visit 0 pgno = fail_op Panic"
| "visit (Suc d) pgno =
     bind_op (read_node pgno) (\<lambda>(page, hdr).
       case ph_page_type hdr of
         LeafTable \<Rightarrow> map_op (scan_row page hdr) [0..<n_cells hdr]
       | InteriorTable \<Rightarrow>
           bind_op (map_op (\<lambda>i. bind_op (lift_op (left_child_at page hdr i)) (visit d)) [0..<n_cells hdr]) (\<lambda>parts.
             (case ph_right_most_pointer hdr of
                None \<Rightarrow> ret_op (concat parts)
              | Some right \<Rightarrow> bind_op (visit d right) (\<lambda>rows. ret_op (concat parts @ rows))))
       | _ \<Rightarrow> fail_op (corrupt ''expected a table b-tree page during scan''))"

definition scan_table :: "nat \<Rightarrow> u32 \<Rightarrow> (pager, (i64 \<times> bytes) list) op" where
  "scan_table d root = visit d root"

section \<open>Choosing a child\<close>

definition interior_child :: "page_header \<Rightarrow> bytes \<Rightarrow> nat \<Rightarrow> u32 option result" where
  "interior_child hdr page k =
     (if k < n_cells hdr then and_then (left_child_at page hdr k) (\<lambda>c. Inr (Some c))
      else if k = n_cells hdr then Inr (ph_right_most_pointer hdr)
      else Inr None)"

fun pick_child_from :: "nat list \<Rightarrow> bytes \<Rightarrow> page_header \<Rightarrow> i64 \<Rightarrow> u32 result" where
  "pick_child_from [] page hdr target =
     ok_or (corrupt ''interior table page has no right pointer'') (ph_right_most_pointer hdr)"
| "pick_child_from (i # is) page hdr target =
     and_then (cell_pointer hdr page i) (\<lambda>off.
       and_then (parse_table_interior_cell page off) (\<lambda>cell.
         if sint target \<le> sint (ti_rowid cell) then Inr (ti_left_child cell)
         else pick_child_from is page hdr target))"

definition pick_child_for_rowid :: "bytes \<Rightarrow> page_header \<Rightarrow> i64 \<Rightarrow> u32 result" where
  "pick_child_for_rowid page hdr target = pick_child_from [0..<n_cells hdr] page hdr target"

section \<open>The cursor\<close>

record table_cursor =
  tc_root :: u32
  tc_usable :: nat
  tc_stack :: "(bytes \<times> page_header \<times> nat) list"
  tc_leaf :: "bytes option"
  tc_leaf_hdr :: "page_header option"
  tc_leaf_pgno :: u32
  tc_cell_idx :: nat
  tc_at_end :: bool
  tc_pending_advance :: bool
  tc_rebalance_in_progress :: bool
  tc_null_row :: bool

type_synonym cursor_state = "table_cursor \<times> pager"

definition table_cursor_new :: "pager \<Rightarrow> u32 \<Rightarrow> table_cursor" where
  "table_cursor_new p root =
     \<lparr>tc_root = root, tc_usable = p_usable_size p, tc_stack = [], tc_leaf = None, tc_leaf_hdr = None,
      tc_leaf_pgno = 0, tc_cell_idx = 0, tc_at_end = True, tc_pending_advance = False,
      tc_rebalance_in_progress = False, tc_null_row = False\<rparr>"

definition leaf_cells :: "table_cursor \<Rightarrow> nat" where
  "leaf_cells c = (case tc_leaf_hdr c of None \<Rightarrow> 0 | Some hdr \<Rightarrow> n_cells hdr)"

definition cursor_is_valid :: "table_cursor \<Rightarrow> bool" where
  "cursor_is_valid c \<longleftrightarrow> \<not> tc_at_end c \<and> tc_leaf c \<noteq> None \<and> tc_cell_idx c < leaf_cells c"

text \<open>Reading through the pager, and updating the cursor.\<close>

definition via_pager :: "(pager, 'a) op \<Rightarrow> (cursor_state, 'a) op" where
  "via_pager m s = (case m (snd s) of (p, r) \<Rightarrow> ((fst s, p), r))"

definition set_cursor :: "(table_cursor \<Rightarrow> table_cursor) \<Rightarrow> (cursor_state, unit) op" where
  "set_cursor f = modify_op (\<lambda>(c, p). (f c, p))"

definition on_leaf :: "u32 \<Rightarrow> bytes \<Rightarrow> page_header \<Rightarrow> table_cursor \<Rightarrow> table_cursor" where
  "on_leaf pgno page hdr c =
     c\<lparr>tc_leaf_pgno := pgno, tc_leaf := Some page, tc_leaf_hdr := Some hdr, tc_cell_idx := 0,
       tc_pending_advance := False\<rparr>"

fun descend_left :: "nat \<Rightarrow> u32 \<Rightarrow> (cursor_state, unit) op" where
  "descend_left 0 pgno = fail_op Panic"
| "descend_left (Suc d) pgno =
     bind_op (via_pager (read_node pgno)) (\<lambda>(page, hdr).
       case ph_page_type hdr of
         LeafTable \<Rightarrow> set_cursor (on_leaf pgno page hdr)
       | InteriorTable \<Rightarrow>
           bind_op (lift_op (and_then (interior_child hdr page 0)
                      (ok_or (corrupt ''interior table page with no children'')))) (\<lambda>first.
             then_op (set_cursor (\<lambda>c. c\<lparr>tc_stack := (page, hdr, 1) # tc_stack c\<rparr>)) (descend_left d first))
       | _ \<Rightarrow> fail_op (corrupt ''expected a table b-tree page during scan''))"

fun advance_to_next_leaf :: "nat \<Rightarrow> (cursor_state, unit) op" where
  "advance_to_next_leaf 0 = fail_op Panic"
| "advance_to_next_leaf (Suc d) =
     bind_op (get_op (\<lambda>s. tc_stack (fst s))) (\<lambda>stack.
       case stack of
         [] \<Rightarrow> set_cursor (\<lambda>c. c\<lparr>tc_at_end := True, tc_leaf := None, tc_leaf_hdr := None\<rparr>)
       | (page, hdr, next_k) # below \<Rightarrow>
           bind_op (lift_op (interior_child hdr page next_k)) (\<lambda>next_child.
             case next_child of
               None \<Rightarrow> then_op (set_cursor (\<lambda>c. c\<lparr>tc_stack := below\<rparr>)) (advance_to_next_leaf d)
             | Some child \<Rightarrow>
                 then_op (set_cursor (\<lambda>c. c\<lparr>tc_stack := (page, hdr, next_k + 1) # below\<rparr>))
                   (then_op (descend_left d child)
                     (bind_op (get_op (\<lambda>s. leaf_cells (fst s))) (\<lambda>n.
                       if 0 < n then ret_op () else advance_to_next_leaf d)))))"

definition reset_cursor :: "table_cursor \<Rightarrow> table_cursor" where
  "reset_cursor c =
     c\<lparr>tc_stack := [], tc_leaf := None, tc_leaf_hdr := None, tc_leaf_pgno := 0, tc_cell_idx := 0,
       tc_at_end := False, tc_pending_advance := False, tc_null_row := False\<rparr>"

definition cursor_rewind :: "nat \<Rightarrow> (cursor_state, unit) op" where
  "cursor_rewind d =
     then_op (set_cursor reset_cursor)
       (bind_op (get_op (\<lambda>s. tc_root (fst s))) (\<lambda>root.
         then_op (descend_left d root)
           (bind_op (get_op (\<lambda>s. leaf_cells (fst s))) (\<lambda>n.
             if n = 0 then advance_to_next_leaf d else ret_op ()))))"

definition step_cell :: "table_cursor \<Rightarrow> table_cursor" where
  "step_cell c =
     (let c1 = c\<lparr>tc_null_row := False\<rparr> in
      if tc_pending_advance c then c1\<lparr>tc_pending_advance := False\<rparr> else c1\<lparr>tc_cell_idx := tc_cell_idx c + 1\<rparr>)"

definition cursor_next :: "nat \<Rightarrow> (cursor_state, unit) op" where
  "cursor_next d s =
     (if tc_at_end (fst s) then (s, Inr ())
      else then_op (set_cursor step_cell)
        (\<lambda>s1. if tc_cell_idx (fst s1) < leaf_cells (fst s1) then (s1, Inr ()) else advance_to_next_leaf d s1) s)"

definition current_cell :: "table_cursor \<Rightarrow> table_leaf_cell result" where
  "current_cell c =
     (case tc_leaf c of
        Some leaf \<Rightarrow>
          if \<not> cursor_is_valid c then Inl (error_msg ''table cursor is not positioned on a row'')
          else (case tc_leaf_hdr c of
                  None \<Rightarrow> Inl Panic
                | Some hdr \<Rightarrow> and_then (cell_pointer hdr leaf (tc_cell_idx c)) (\<lambda>off.
                    parse_table_leaf_cell leaf off (tc_usable c)))
      | None \<Rightarrow> Inl (error_msg ''table cursor is not positioned on a row''))"

definition cursor_rowid :: "table_cursor \<Rightarrow> i64 result" where
  "cursor_rowid c = (if tc_null_row c then Inr 0 else and_then (current_cell c) (\<lambda>cell. Inr (tl_rowid cell)))"

definition cursor_payload :: "(cursor_state, bytes) op" where
  "cursor_payload s =
     (if tc_null_row (fst s) then (s, Inr [])
      else bind_op (lift_op (current_cell (fst s))) (\<lambda>cell. via_pager (assemble_payload cell)) s)"

definition set_null_row :: "table_cursor \<Rightarrow> table_cursor" where
  "set_null_row c = c\<lparr>tc_null_row := True\<rparr>"

section \<open>Seeking\<close>

text \<open>The binary search for the first cell with a rowid of at least \<open>target\<close>.\<close>

function search_leaf :: "bytes \<Rightarrow> page_header \<Rightarrow> nat \<Rightarrow> i64 \<Rightarrow> nat \<Rightarrow> nat \<Rightarrow> nat result" where
  "search_leaf leaf hdr usable target lo hi =
     (if lo < hi
      then (let mid = (lo + hi) div 2 in
            case and_then (cell_pointer hdr leaf mid) (\<lambda>off. parse_table_leaf_cell leaf off usable) of
              Inl e \<Rightarrow> Inl e
            | Inr cell \<Rightarrow> if sint (tl_rowid cell) < sint target then search_leaf leaf hdr usable target (mid + 1) hi
                          else search_leaf leaf hdr usable target lo mid)
      else Inr lo)"
  by pat_completeness auto
termination
  by (relation "measure (\<lambda>(leaf, hdr, usable, target, lo, hi). hi - lo)") auto

declare search_leaf.simps [simp del]

definition leaf_index_for_rowid :: "i64 \<Rightarrow> table_cursor \<Rightarrow> nat result" where
  "leaf_index_for_rowid target c =
     (case (tc_leaf c, tc_leaf_hdr c) of
        (Some leaf, Some hdr) \<Rightarrow> search_leaf leaf hdr (tc_usable c) target 0 (n_cells hdr)
      | _ \<Rightarrow> Inl Panic)"

definition set_leaf :: "u32 \<Rightarrow> bytes \<Rightarrow> page_header \<Rightarrow> table_cursor \<Rightarrow> table_cursor" where
  "set_leaf pgno page hdr c = c\<lparr>tc_leaf_pgno := pgno, tc_leaf := Some page, tc_leaf_hdr := Some hdr\<rparr>"

fun descend_to_target :: "nat \<Rightarrow> i64 \<Rightarrow> u32 \<Rightarrow> (cursor_state, unit) op" where
  "descend_to_target 0 target pgno = fail_op Panic"
| "descend_to_target (Suc d) target pgno =
     bind_op (via_pager (read_node pgno)) (\<lambda>(page, hdr).
       case ph_page_type hdr of
         LeafTable \<Rightarrow>
           then_op (set_cursor (set_leaf pgno page hdr))
             (\<lambda>s. bind_op (lift_op (leaf_index_for_rowid target (fst s))) (\<lambda>i.
               set_cursor (\<lambda>c. c\<lparr>tc_cell_idx := i, tc_pending_advance := False\<rparr>)) s)
       | InteriorTable \<Rightarrow>
           bind_op (lift_op (pick_child_for_rowid page hdr target)) (\<lambda>child.
             then_op (set_cursor (\<lambda>c. c\<lparr>tc_stack := (page, hdr, 0) # tc_stack c\<rparr>)) (descend_to_target d target child))
       | _ \<Rightarrow> fail_op (corrupt ''expected a table b-tree page during seek''))"

definition miss :: "table_cursor \<Rightarrow> table_cursor" where
  "miss c = c\<lparr>tc_at_end := True, tc_leaf := None, tc_leaf_hdr := None, tc_leaf_pgno := 0, tc_cell_idx := 0\<rparr>"

definition seek_rowid :: "nat \<Rightarrow> i64 \<Rightarrow> (cursor_state, bool) op" where
  "seek_rowid d target =
     then_op (set_cursor reset_cursor)
       (bind_op (get_op (\<lambda>s. tc_root (fst s))) (\<lambda>root.
         then_op (descend_to_target d target root)
           (\<lambda>s. if \<not> cursor_is_valid (fst s) then (s, Inr False)
                else bind_op (lift_op (current_cell (fst s))) (\<lambda>cell.
                  if tl_rowid cell \<noteq> target then then_op (set_cursor miss) (ret_op False) else ret_op True) s)))"

end
