(* ===== verification/Btree_Balance.thy ===== *)
theory Btree_Balance
  imports Btree_Table
begin

text \<open>
  Splitting the pages of a table b-tree (\<open>btree/balance.rs\<close>): choosing the split point, splitting a
  leaf and installing its divider in the parent, promoting a full root to an interior page over two
  new leaves, and splitting an interior page. Reading a cell's on-page size and copying its bytes are
  the same two steps in all of them (\<open>copy_cell\<close>).
\<close>

section \<open>Cells as bytes\<close>

definition read_payload_size :: "bytes \<Rightarrow> nat \<Rightarrow> (u64 \<times> nat) result" where
  "read_payload_size page offset = varint_at page offset ''table leaf payload-size varint''"

definition cell_total_size :: "bytes \<Rightarrow> nat \<Rightarrow> nat \<Rightarrow> nat \<Rightarrow> nat result" where
  "cell_total_size page offset payload_size_bytes usable =
     and_then (read_payload_size page offset) (\<lambda>(payload_size, _).
       and_then (ok_or (corrupt ''rowid bytes'') (get_range (offset + payload_size_bytes) (length page) page)) (\<lambda>b.
         and_then (ok_or (corrupt ''table leaf rowid varint'') (read_varint_i64 b)) (\<lambda>(_, rowid_size).
           let local_payload_size = fst (local_payload_len (unat payload_size) usable (usable - 35));
               overflow = (if local_payload_size < unat payload_size then 4 else 0)
           in Inr (payload_size_bytes + rowid_size + local_payload_size + overflow))))"

text \<open>\<open>cell.copy_from_slice(&page[off..off + size])\<close> panics past the end of the page.\<close>

definition copy_cell :: "bytes \<Rightarrow> nat \<Rightarrow> page_header \<Rightarrow> nat \<Rightarrow> bytes result" where
  "copy_cell page usable hdr i =
     and_then (cell_pointer hdr page i) (\<lambda>off.
       and_then (read_payload_size page off) (\<lambda>(_, n1).
         and_then (cell_total_size page off n1 usable) (\<lambda>cell_size. index_range off (off + cell_size) page)))"

text \<open>
  The second attempt of \<open>max_rowid_of_cell\<close>, made when the first fails with an error; both read the
  same two varints, so only the message of the error differs.
\<close>

definition max_rowid_of_cell :: "bytes \<Rightarrow> i64 result" where
  "max_rowid_of_cell cell =
     (case table_leaf_cell_rowid cell 0 of
        Inr r \<Rightarrow> Inr r
      | Inl Panic \<Rightarrow> Inl Panic
      | Inl (Err _) \<Rightarrow>
          and_then (ok_or (corrupt ''payload varint'') (read_varint cell)) (\<lambda>(_, n1).
            and_then (ok_or (corrupt ''rowid varint'') (read_varint_i64 (drop n1 cell))) (\<lambda>(rowid, _). Inr rowid)))"

section \<open>The split point\<close>

fun split_point_from :: "nat \<Rightarrow> nat \<Rightarrow> nat \<Rightarrow> bytes list \<Rightarrow> nat option" where
  "split_point_from target i left_size [] = None"
| "split_point_from target i left_size (c # cs) =
     (let projected = left_size + length c + 2 in
      if target < projected \<and> 0 < i then Some i else split_point_from target (i + 1) projected cs)"

definition split_point :: "nat \<Rightarrow> bytes list \<Rightarrow> nat" where
  "split_point usable cells =
     (case split_point_from (usable div 2) 0 0 cells of None \<Rightarrow> length cells | Some i \<Rightarrow> i)"

section \<open>Writing a node on a fresh buffer\<close>

definition write_node :: "u32 \<Rightarrow> page_type \<Rightarrow> u32 option \<Rightarrow> bytes list \<Rightarrow> (pager, unit) op" where
  "write_node pgno ty right_most cells p =
     bind_op (lift_op (write_page_cells (replicate (p_page_size p) 0) (btree_header_offset pgno) ty right_most cells))
       (write_page pgno) p"

section \<open>Splitting a leaf\<close>

fun find_table_child :: "nat list \<Rightarrow> bytes \<Rightarrow> page_header \<Rightarrow> u32 \<Rightarrow> nat option result" where
  "find_table_child [] page hdr target = Inr None"
| "find_table_child (i # is) page hdr target =
     and_then (cell_pointer hdr page i) (\<lambda>off.
       and_then (parse_table_interior_cell page off) (\<lambda>cell.
         if ti_left_child cell = target then Inr (Some i) else find_table_child is page hdr target))"

fun find_index_child :: "nat list \<Rightarrow> bytes \<Rightarrow> page_header \<Rightarrow> u32 \<Rightarrow> nat option result" where
  "find_index_child [] page hdr target = Inr None"
| "find_index_child (i # is) page hdr target =
     and_then (cell_pointer hdr page i) (\<lambda>off.
       and_then (index_range off (off + 4) page) (\<lambda>b.
         if be_u32 b = target then Inr (Some i) else find_index_child is page hdr target))"

definition find_child_cell_index :: "bytes \<Rightarrow> page_header \<Rightarrow> u32 \<Rightarrow> nat result" where
  "find_child_cell_index page hdr target =
     and_then
       (case ph_page_type hdr of
          InteriorTable \<Rightarrow> find_table_child [0..<n_cells hdr] page hdr target
        | InteriorIndex \<Rightarrow> find_index_child [0..<n_cells hdr] page hdr target
        | _ \<Rightarrow> Inl (corrupt ''find_child_cell_index: page is not an interior page''))
       (ok_or (corrupt (''child page '' @ dec (unat target) @ '' not found among ''
                          @ dec (n_cells hdr) @ '' interior cells'')))"

definition set_right_most :: "nat \<Rightarrow> u32 \<Rightarrow> bytes \<Rightarrow> bytes result" where
  "set_right_most h pgno page =
     (if length page < h + 12 then Inl Panic else Inr (put_at (h + 8) (be_enc 4 pgno) page))"

text \<open>The parent of a split leaf with its new divider.\<close>

definition leaf_divider :: "bytes \<Rightarrow> nat \<Rightarrow> u32 \<Rightarrow> u32 \<Rightarrow> i64 \<Rightarrow> bytes result" where
  "leaf_divider pbuf pbase leaf_pgno new_pgno divider_rowid =
     and_then (page_header_parse pbuf pbase) (\<lambda>phdr.
       if ph_page_type phdr \<noteq> InteriorTable
       then Inl (corrupt ''split_leaf: declared parent is not an interior table page'')
       else if ph_right_most_pointer phdr = Some leaf_pgno
       then and_then (insert_interior_cell pbuf pbase (n_cells phdr) (build_table_interior_cell leaf_pgno divider_rowid))
              (set_right_most pbase new_pgno)
       else and_then (find_child_cell_index pbuf phdr leaf_pgno) (\<lambda>i.
              insert_interior_cell pbuf pbase (i + 1) (build_table_interior_cell new_pgno divider_rowid)))"

text \<open>\<open>cells[split_at - 1]\<close> panics for a leaf without cells.\<close>

definition split_leaf :: "u32 \<Rightarrow> u32 option \<Rightarrow> (pager, u32) op" where
  "split_leaf leaf_pgno parent_root p =
     (let usable = p_usable_size p; base = btree_header_offset leaf_pgno in
      bind_op (read_page_for_write leaf_pgno) (\<lambda>leaf_buf.
      bind_op (lift_op (page_header_parse leaf_buf base)) (\<lambda>hdr.
        if ph_page_type hdr \<noteq> LeafTable then fail_op (corrupt ''split_leaf called on a non-leaf page'')
        else bind_op (lift_op (map_result (copy_cell leaf_buf usable hdr) [0..<n_cells hdr])) (\<lambda>cells.
          let split_at = split_point usable cells in
          bind_op allocate_page (\<lambda>new_pgno.
          then_op (write_node new_pgno LeafTable None (drop split_at cells))
          (then_op (write_node leaf_pgno LeafTable None (take split_at cells))
          (bind_op (lift_op (if split_at = 0 then Inl Panic else max_rowid_of_cell (cells ! (split_at - 1)))) (\<lambda>divider_rowid.
             case parent_root of
               None \<Rightarrow> ret_op new_pgno
             | Some parent_pgno \<Rightarrow>
                 bind_op (read_page_for_write parent_pgno) (\<lambda>pbuf.
                 bind_op (lift_op (leaf_divider pbuf (btree_header_offset parent_pgno) leaf_pgno new_pgno divider_rowid)) (\<lambda>pbuf1.
                 then_op (write_page parent_pgno pbuf1)
                 (bind_op (get_op auto_vacuum) (\<lambda>av.
                    if av then then_op (ptrmap_put new_pgno Btree parent_pgno) (ret_op new_pgno)
                    else ret_op new_pgno))))))))))) p)"

section \<open>Promoting the root\<close>

definition promote_root_and_split :: "u32 \<Rightarrow> (pager, unit) op" where
  "promote_root_and_split root_pgno p =
     (let usable = p_usable_size p; base = btree_header_offset root_pgno in
      bind_op (read_page_for_write root_pgno) (\<lambda>leaf_buf.
      bind_op (lift_op (page_header_parse leaf_buf base)) (\<lambda>hdr.
        if ph_page_type hdr \<noteq> LeafTable then fail_op (corrupt ''promote_root_and_split: root is not a leaf'')
        else if n_cells hdr = 0 then fail_op (corrupt ''promote_root_and_split called on an empty leaf'')
        else bind_op (lift_op (map_result (copy_cell leaf_buf usable hdr) [0..<n_cells hdr])) (\<lambda>cells.
          let split_at = split_point usable cells in
          bind_op allocate_page (\<lambda>left_pgno.
          then_op (write_node left_pgno LeafTable None (take split_at cells))
          (bind_op allocate_page (\<lambda>right_pgno.
          then_op (write_node right_pgno LeafTable None (drop split_at cells))
          (bind_op (lift_op (if split_at = 0 then Inl Panic else max_rowid_of_cell (cells ! (split_at - 1)))) (\<lambda>divider_rowid.
          then_op (write_node root_pgno InteriorTable (Some right_pgno) [build_table_interior_cell left_pgno divider_rowid])
          (bind_op (get_op auto_vacuum) (\<lambda>av.
             if av then then_op (ptrmap_put left_pgno Btree root_pgno) (ptrmap_put right_pgno Btree root_pgno)
             else ret_op ())))))))))) p)"

section \<open>Splitting an interior page\<close>

text \<open>\<open>&page[offset + 4..]\<close> panics when the offset is past the end.\<close>

definition table_interior_cell_on_page_size :: "bytes \<Rightarrow> nat \<Rightarrow> nat result" where
  "table_interior_cell_on_page_size page offset =
     and_then (index_range (offset + 4) (length page) page) (\<lambda>b.
       and_then (ok_or (corrupt ''table interior rowid varint'') (read_varint_i64 b)) (\<lambda>(_, rowid_size).
         Inr (4 + rowid_size)))"

definition copy_interior_cell :: "bytes \<Rightarrow> page_header \<Rightarrow> nat \<Rightarrow> bytes result" where
  "copy_interior_cell page hdr i =
     and_then (cell_pointer hdr page i) (\<lambda>off.
       and_then (table_interior_cell_on_page_size page off) (\<lambda>cell_size. index_range off (off + cell_size) page))"

text \<open>
  A cell of the parent re-encoded: the child and the rowid read and written back. A failure to read
  one is an error of the whole installation.
\<close>

definition reencode_cell :: "bytes \<Rightarrow> page_header \<Rightarrow> nat \<Rightarrow> bytes result" where
  "reencode_cell page hdr i =
     (case cell_pointer hdr page i of
        Inl Panic \<Rightarrow> Inl Panic
      | Inl (Err _) \<Rightarrow> Inl (corrupt ''install_table_divider: bad parent cell'')
      | Inr off \<Rightarrow>
          and_then (index_range off (off + 4) page) (\<lambda>b.
            and_then (ok_or (corrupt ''install_table_divider: bad parent cell'') (read_varint_i64 (drop (off + 4) page)))
              (\<lambda>(rowid, _). Inr (build_table_interior_cell (be_u32 b) rowid))))"

definition divided_cells :: "nat \<Rightarrow> u32 \<Rightarrow> u32 \<Rightarrow> i64 \<Rightarrow> bytes list \<Rightarrow> bytes list result" where
  "divided_cells child_idx old_child new_child divider_rowid cells =
     and_then (map_result
       (\<lambda>(i, c). if i = child_idx
          then and_then (max_rowid_of_cell c) (\<lambda>old_rowid.
                 Inr [build_table_interior_cell old_child divider_rowid, build_table_interior_cell new_child old_rowid])
          else Inr [c]) (enumerate 0 cells)) (\<lambda>parts. Inr (concat parts))"

definition divided_parent :: "bytes \<Rightarrow> nat \<Rightarrow> u32 \<Rightarrow> u32 \<Rightarrow> i64 \<Rightarrow> bytes result" where
  "divided_parent pbuf pbase old_child new_child divider_rowid =
     and_then (page_header_parse pbuf pbase) (\<lambda>phdr.
       if ph_page_type phdr \<noteq> InteriorTable
       then Inl (corrupt ''install_table_divider: declared parent is not an interior-table page'')
       else if ph_right_most_pointer phdr = Some old_child
       then and_then (insert_interior_cell pbuf pbase (n_cells phdr) (build_table_interior_cell old_child divider_rowid))
              (set_right_most pbase new_child)
       else and_then (find_child_cell_index pbuf phdr old_child) (\<lambda>child_idx.
              and_then (map_result (reencode_cell pbuf phdr) [0..<n_cells phdr]) (\<lambda>cells.
                and_then (divided_cells child_idx old_child new_child divider_rowid cells) (\<lambda>new_cells.
                  write_page_cells pbuf pbase InteriorTable (ph_right_most_pointer phdr) new_cells))))"

definition install_table_divider :: "u32 \<Rightarrow> u32 \<Rightarrow> u32 \<Rightarrow> i64 \<Rightarrow> (pager, unit) op" where
  "install_table_divider parent_pgno old_child new_child divider_rowid =
     bind_op (read_page_for_write parent_pgno) (\<lambda>pbuf.
       bind_op (lift_op (divided_parent pbuf (btree_header_offset parent_pgno) old_child new_child divider_rowid))
         (write_page parent_pgno))"

definition update_children_ptrmap_to_new_parent :: "u32 \<Rightarrow> bytes list \<Rightarrow> u32 option \<Rightarrow> (pager, unit) op" where
  "update_children_ptrmap_to_new_parent new_parent_pgno cells right_most =
     then_op
       (each_op (\<lambda>cell. bind_op (lift_op (index_range 0 4 cell)) (\<lambda>b. ptrmap_put (be_u32 b) Btree new_parent_pgno)) cells)
       (case right_most of None \<Rightarrow> ret_op () | Some rm \<Rightarrow> ptrmap_put rm Btree new_parent_pgno)"

definition split_table_interior_page :: "u32 \<Rightarrow> u32 option \<Rightarrow> (pager, u32) op" where
  "split_table_interior_page interior_pgno parent_root p =
     (let usable = p_usable_size p; base = btree_header_offset interior_pgno in
      bind_op (read_page_for_write interior_pgno) (\<lambda>buf.
      bind_op (lift_op (page_header_parse buf base)) (\<lambda>hdr.
        if ph_page_type hdr \<noteq> InteriorTable
        then fail_op (corrupt ''split_table_interior_page called on a non-table-interior page'')
        else (let right_most = ph_right_most_pointer hdr in
          bind_op (lift_op (map_result (copy_interior_cell buf hdr) [0..<n_cells hdr])) (\<lambda>cells.
          let split_at = split_point usable cells in
          if length cells \<le> split_at
          then fail_op (corrupt ''split_table_interior_page: cannot find a split point'')
          else
          bind_op (lift_op (max_rowid_of_cell (cells ! (split_at - 1)))) (\<lambda>divider_rowid.
          bind_op (lift_op (index_range 0 4 (cells ! (split_at - 1)))) (\<lambda>b.
          let left_right_most = be_u32 b; left_cells = take split_at cells; right_cells = drop split_at cells in
          bind_op allocate_page (\<lambda>new_pgno.
          then_op (case parent_root of None \<Rightarrow> ret_op ()
                   | Some parent_pgno \<Rightarrow> install_table_divider parent_pgno interior_pgno new_pgno divider_rowid)
          (then_op (write_node new_pgno InteriorTable right_most right_cells)
          (then_op (write_node interior_pgno InteriorTable (Some left_right_most) left_cells)
          (bind_op (get_op auto_vacuum) (\<lambda>av.
             if av
             then then_op (case parent_root of None \<Rightarrow> ret_op ()
                           | Some parent_pgno \<Rightarrow> ptrmap_put new_pgno Btree parent_pgno)
                    (then_op (update_children_ptrmap_to_new_parent new_pgno right_cells right_most) (ret_op new_pgno))
             else ret_op new_pgno))))))))))) p)"

end
