(* ===== verification/Btree_Insert.thy ===== *)
theory Btree_Insert
  imports Btree_Balance
begin

text \<open>
  Inserting into a table b-tree (\<open>btree/insert.rs\<close>). The three functions that call one another
  (\<open>insert_with_splitting\<close>, \<open>balance_leaf\<close>, \<open>insert_after_root_promotion\<close>) take a bound on the number
  of calls; running out of it stands for a run that has not ended. The ancestor path is a list with
  its top first.
\<close>

section \<open>Searching a page\<close>

fun pick_child_in :: "nat list \<Rightarrow> bytes \<Rightarrow> page_header \<Rightarrow> i64 \<Rightarrow> u32 result" where
  "pick_child_in [] page hdr rowid =
     ok_or (corrupt ''interior table page has no right pointer'') (ph_right_most_pointer hdr)"
| "pick_child_in (i # is) page hdr rowid =
     and_then (cell_pointer hdr page i) (\<lambda>off.
       and_then (parse_table_interior_cell page off) (\<lambda>cell.
         if sint rowid \<le> sint (ti_rowid cell) then Inr (ti_left_child cell) else pick_child_in is page hdr rowid))"

definition pick_child :: "bytes \<Rightarrow> page_header \<Rightarrow> i64 \<Rightarrow> u32 result" where
  "pick_child page hdr rowid = pick_child_in [0..<n_cells hdr] page hdr rowid"

fun insert_index_from :: "nat list \<Rightarrow> bytes \<Rightarrow> page_header \<Rightarrow> i64 \<Rightarrow> nat result" where
  "insert_index_from [] page hdr rowid = Inr (n_cells hdr)"
| "insert_index_from (i # is) page hdr rowid =
     and_then (cell_pointer hdr page i) (\<lambda>off.
       and_then (table_leaf_cell_rowid page off) (\<lambda>r.
         if sint rowid \<le> sint r then Inr i else insert_index_from is page hdr rowid))"

definition leaf_insert_index :: "bytes \<Rightarrow> page_header \<Rightarrow> i64 \<Rightarrow> nat result" where
  "leaf_insert_index page hdr rowid = insert_index_from [0..<n_cells hdr] page hdr rowid"

text \<open>\<open>e.message.contains("page is full")\<close>.\<close>

definition str_contains :: "string \<Rightarrow> string \<Rightarrow> bool" where
  "str_contains needle hay = list_ex (\<lambda>i. take (length needle) (drop i hay) = needle) [0..<Suc (length hay)]"

definition is_page_full :: "failure \<Rightarrow> bool" where
  "is_page_full f = (case f of Panic \<Rightarrow> False | Err e \<Rightarrow> str_contains ''page is full'' (err_message e))"

section \<open>Choosing the side after a split\<close>

fun divider_target :: "nat list \<Rightarrow> bytes \<Rightarrow> page_header \<Rightarrow> u32 \<Rightarrow> i64 \<Rightarrow> u32 option result" where
  "divider_target [] buf hdr new_pgno pending_rowid = Inr None"
| "divider_target (i # is) buf hdr new_pgno pending_rowid =
     and_then (cell_pointer hdr buf i) (\<lambda>off.
       and_then (parse_table_interior_cell buf off) (\<lambda>cell.
         if ti_left_child cell = new_pgno
         then Inr (Some (if sint (ti_rowid cell) < sint pending_rowid then new_pgno else ti_left_child cell))
         else divider_target is buf hdr new_pgno pending_rowid))"

definition side_after_split :: "bytes \<Rightarrow> page_header \<Rightarrow> u32 \<Rightarrow> i64 \<Rightarrow> u32 result" where
  "side_after_split buf hdr new_pgno pending_rowid =
     (if ph_page_type hdr \<noteq> InteriorTable then Inr new_pgno
      else and_then (divider_target [0..<n_cells hdr] buf hdr new_pgno pending_rowid) (\<lambda>found.
        case found of
          Some target \<Rightarrow> Inr target
        | None \<Rightarrow>
            if ph_right_most_pointer hdr = Some new_pgno
            then (if n_cells hdr = 0 then Inr new_pgno
                  else and_then (cell_pointer hdr buf (n_cells hdr - 1)) (\<lambda>last_off.
                    and_then (parse_table_interior_cell buf last_off) (\<lambda>last_cell.
                      Inr (if sint (ti_rowid last_cell) < sint pending_rowid then new_pgno else ti_left_child last_cell))))
            else Inr new_pgno))"

definition target_after_split :: "u32 \<Rightarrow> u32 \<Rightarrow> i64 \<Rightarrow> (pager, u32) op" where
  "target_after_split parent_pgno new_pgno pending_rowid =
     bind_op (read_node parent_pgno) (\<lambda>(buf, hdr). lift_op (side_after_split buf hdr new_pgno pending_rowid))"

definition side_after_promotion :: "bytes \<Rightarrow> page_header \<Rightarrow> i64 \<Rightarrow> u32 result" where
  "side_after_promotion buf hdr pending_rowid =
     (if n_cells hdr = 0 then Inl (corrupt ''insert_after_root_promotion: promoted root has no cells'')
      else and_then (cell_pointer hdr buf 0) (\<lambda>off.
        and_then (parse_table_interior_cell buf off) (\<lambda>interior.
          if sint pending_rowid \<le> sint (ti_rowid interior) then Inr (ti_left_child interior)
          else ok_or (corrupt ''promoted root missing right-most child'') (ph_right_most_pointer hdr))))"

section \<open>Insertion with splitting\<close>

text \<open>\<open>grand_pgno.unwrap()\<close> panics without a grandparent.\<close>

fun split_table_parent :: "nat \<Rightarrow> u32 \<Rightarrow> (u32 \<times> nat) option \<Rightarrow> (u32 \<times> nat) list \<Rightarrow> (pager, unit) op" where
  "split_table_parent 0 parent_pgno grand ancestor_path p = (p, Inl Panic)"
| "split_table_parent (Suc d) parent_pgno grand ancestor_path p =
     (case split_table_interior_page parent_pgno (map_option fst grand) p of
        (p1, Inr _) \<Rightarrow> (p1, Inr ())
      | (p1, Inl e) \<Rightarrow>
          if is_page_full e
          then (case grand of
                  None \<Rightarrow> (p1, Inl Panic)
                | Some g \<Rightarrow>
                    (case ancestor_path of
                       [] \<Rightarrow> split_table_parent d (fst g) None [] p1
                     | a # rest \<Rightarrow> split_table_parent d (fst g) (Some a) rest p1))
          else (p1, Inl e))"

fun insert_with_splitting :: "nat \<Rightarrow> u32 \<Rightarrow> i64 \<Rightarrow> bytes \<Rightarrow> (u32 \<times> nat) list \<Rightarrow> (pager, unit) op"
  and balance_leaf :: "nat \<Rightarrow> u32 \<Rightarrow> (u32 \<times> nat) option \<Rightarrow> (u32 \<times> nat) list \<Rightarrow> i64 \<Rightarrow> bytes \<Rightarrow> (pager, unit) op"
  and insert_after_root_promotion :: "nat \<Rightarrow> u32 \<Rightarrow> i64 \<Rightarrow> bytes \<Rightarrow> (pager, unit) op" where
  "insert_with_splitting 0 pgno rowid cell path = fail_op Panic"
| "insert_with_splitting (Suc d) pgno rowid cell path =
     bind_op (read_node pgno) (\<lambda>(buf, hdr).
       case ph_page_type hdr of
         LeafTable \<Rightarrow>
           bind_op (lift_op (leaf_insert_index buf hdr rowid)) (\<lambda>idx.
           bind_op (read_page_for_write pgno) (\<lambda>leaf.
             case insert_leaf_cell leaf (btree_header_offset pgno) idx cell of
               Inr leaf1 \<Rightarrow> write_page pgno leaf1
             | Inl e \<Rightarrow>
                 if is_page_full e
                 then (case path of
                         [] \<Rightarrow> balance_leaf d pgno None [] rowid cell
                       | parent # rest \<Rightarrow> balance_leaf d pgno (Some parent) rest rowid cell)
                 else fail_op e))
       | InteriorTable \<Rightarrow>
           bind_op (lift_op (pick_child buf hdr rowid)) (\<lambda>child.
             insert_with_splitting d child rowid cell ((pgno, btree_header_offset pgno) # path))
       | _ \<Rightarrow> fail_op (corrupt ''table_insert: not a table b-tree page''))"
| "balance_leaf 0 leaf_pgno parent ancestor_path pending_rowid pending_cell = fail_op Panic"
| "balance_leaf (Suc d) leaf_pgno parent ancestor_path pending_rowid pending_cell =
     (case parent of
        None \<Rightarrow> then_op (promote_root_and_split leaf_pgno)
                  (insert_after_root_promotion d leaf_pgno pending_rowid pending_cell)
      | Some (parent_pgno, _) \<Rightarrow> (\<lambda>p.
          case split_leaf leaf_pgno (Some parent_pgno) p of
            (p1, Inr new_pgno) \<Rightarrow>
              bind_op (target_after_split parent_pgno new_pgno pending_rowid) (\<lambda>target.
                insert_with_splitting d target pending_rowid pending_cell []) p1
          | (p1, Inl e) \<Rightarrow>
              if is_page_full e
              then (case ancestor_path of
                      grand # rest \<Rightarrow>
                        then_op (split_table_parent d parent_pgno (Some grand) rest)
                          (insert_with_splitting d leaf_pgno pending_rowid pending_cell []) p1
                    | [] \<Rightarrow>
                        then_op (promote_root_and_split parent_pgno)
                          (insert_after_root_promotion d parent_pgno pending_rowid pending_cell) p1)
              else (p1, Inl e)))"
| "insert_after_root_promotion 0 new_root_pgno pending_rowid pending_cell = fail_op Panic"
| "insert_after_root_promotion (Suc d) new_root_pgno pending_rowid pending_cell =
     bind_op (read_node new_root_pgno) (\<lambda>(buf, hdr).
       bind_op (lift_op (side_after_promotion buf hdr pending_rowid)) (\<lambda>target.
         insert_with_splitting d target pending_rowid pending_cell []))"

fun insert_with_splitting_autovac :: "nat \<Rightarrow> u32 \<Rightarrow> i64 \<Rightarrow> bytes \<Rightarrow> (u32 \<times> nat) list \<Rightarrow> (pager, unit) op" where
  "insert_with_splitting_autovac 0 pgno rowid payload path = fail_op Panic"
| "insert_with_splitting_autovac (Suc d) pgno rowid payload path =
     bind_op (read_node pgno) (\<lambda>(buf, hdr).
       case ph_page_type hdr of
         LeafTable \<Rightarrow>
           bind_op (get_op p_usable_size) (\<lambda>usable.
           bind_op (build_table_leaf_cell_with_host rowid payload usable (Some pgno)) (\<lambda>cell.
           bind_op (lift_op (leaf_insert_index buf hdr rowid)) (\<lambda>idx.
           bind_op (read_page_for_write pgno) (\<lambda>leaf.
             case insert_leaf_cell leaf (btree_header_offset pgno) idx cell of
               Inr leaf1 \<Rightarrow> write_page pgno leaf1
             | Inl e \<Rightarrow>
                 if is_page_full e
                 then (case path of
                         [] \<Rightarrow> balance_leaf d pgno None [] rowid cell
                       | parent # rest \<Rightarrow> balance_leaf d pgno (Some parent) rest rowid cell)
                 else fail_op e))))
       | InteriorTable \<Rightarrow>
           bind_op (lift_op (pick_child buf hdr rowid)) (\<lambda>child.
             insert_with_splitting_autovac d child rowid payload ((pgno, btree_header_offset pgno) # path))
       | _ \<Rightarrow> fail_op (corrupt ''table_insert: not a table b-tree page''))"

definition table_insert :: "nat \<Rightarrow> u32 \<Rightarrow> i64 \<Rightarrow> bytes \<Rightarrow> (pager, unit) op" where
  "table_insert d root rowid payload p =
     (if auto_vacuum p then insert_with_splitting_autovac d root rowid payload [] p
      else bind_op (build_table_leaf_cell rowid payload (p_usable_size p)) (\<lambda>cell.
             insert_with_splitting d root rowid cell []) p)"

section \<open>The largest rowid\<close>

fun max_rowid :: "nat \<Rightarrow> u32 \<Rightarrow> (pager, i64) op" where
  "max_rowid 0 pgno = fail_op Panic"
| "max_rowid (Suc d) pgno =
     bind_op (read_node pgno) (\<lambda>(page, hdr).
       case ph_page_type hdr of
         LeafTable \<Rightarrow>
           if n_cells hdr = 0 then ret_op 0
           else lift_op (and_then (cell_pointer hdr page (n_cells hdr - 1)) (table_leaf_cell_rowid page))
       | InteriorTable \<Rightarrow>
           bind_op (lift_op (ok_or (corrupt ''interior table page has no right pointer'') (ph_right_most_pointer hdr)))
             (max_rowid d)
       | _ \<Rightarrow> fail_op (corrupt ''max_rowid: not a table b-tree page''))"

end
