(* ===== verification/Iterator.thy ===== *)
theory Iterator
  imports State_Ops
begin

text \<open>
  The contract of the cursors the virtual machine drives with \<open>Rewind\<close> and \<open>Next\<close>: \<open>at s rs\<close> says
  that the rows still to come are \<open>rs\<close>. A client loop that processes the current row and steps until
  the cursor is invalid sees exactly those rows, and ends.
\<close>

text \<open>The client's loop, with a bound on its turns.\<close>

fun drain :: "('s \<Rightarrow> bool) \<Rightarrow> ('s, 'r) op \<Rightarrow> ('s, unit) op \<Rightarrow> nat \<Rightarrow> ('s, 'r list) op" where
  "drain valid row step 0 = fail_op Panic"
| "drain valid row step (Suc n) =
     bind_op (get_op valid) (\<lambda>v.
       if v then bind_op row (\<lambda>r. bind_op step (\<lambda>_. bind_op (drain valid row step n) (\<lambda>rs. ret_op (r # rs))))
       else ret_op [])"

locale row_iterator =
  fixes at :: "'s \<Rightarrow> 'r list \<Rightarrow> bool" and valid :: "'s \<Rightarrow> bool" and row :: "('s, 'r) op" and step :: "('s, unit) op"
  assumes valid_iff: "at s rs \<Longrightarrow> valid s \<longleftrightarrow> rs \<noteq> []"
    and row_ok: "at s (r # rs) \<Longrightarrow> \<exists>s'. row s = (s', Inr r) \<and> at s' (r # rs)"
    and step_ok: "at s (r # rs) \<Longrightarrow> \<exists>s'. step s = (s', Inr ()) \<and> at s' rs"
begin

lemma drain_ok: "at s rs \<Longrightarrow> length rs < n \<Longrightarrow> \<exists>s'. drain valid row step n s = (s', Inr rs) \<and> at s' []"
proof (induction rs arbitrary: s n)
  case Nil
  then show ?case using valid_iff [OF Nil.prems(1)] by (intro exI [of _ s], cases n) simp_all
next
  case (Cons r rs)
  obtain m where n: "n = Suc m" "length rs < m" using Cons.prems(2) by (cases n) auto
  obtain s1 where s1: "row s = (s1, Inr r)" "at s1 (r # rs)" using row_ok [OF Cons.prems(1)] by blast
  obtain s2 where s2: "step s1 = (s2, Inr ())" "at s2 rs" using step_ok [OF s1(2)] by blast
  obtain s3 where "drain valid row step m s2 = (s3, Inr rs)" "at s3 []" using Cons.IH [OF s2(2) n(2)] by blast
  then show ?case using s1(1) s2(1) valid_iff [OF Cons.prems(1)] n(1) by (intro exI [of _ s3]) simp
qed

text \<open>Stepping \<open>k\<close> times drops \<open>k\<close> rows.\<close>

lemma steps_drop: "at s rs \<Longrightarrow> k \<le> length rs \<Longrightarrow> \<exists>s'. each_op (\<lambda>_. step) [0..<k] s = (s', Inr ()) \<and> at s' (drop k rs)"
proof -
  have "at s rs \<Longrightarrow> length xs \<le> length rs \<Longrightarrow> \<exists>s'. each_op (\<lambda>_. step) xs s = (s', Inr ()) \<and> at s' (drop (length xs) rs)"
    for xs :: "nat list"
  proof (induction xs arbitrary: s rs)
    case (Cons x xs)
    then obtain r rs' where rs: "rs = r # rs'" by (cases rs) auto
    then obtain s1 where s1: "step s = (s1, Inr ())" "at s1 rs'" using step_ok Cons.prems(1) by blast
    obtain s2 where "each_op (\<lambda>_. step) xs s1 = (s2, Inr ())" "at s2 (drop (length xs) rs')"
      using Cons.IH [OF s1(2)] Cons.prems(2) rs by auto
    then show ?case using s1(1) rs by (intro exI [of _ s2]) simp
  qed simp
  from this [of "[0..<k]"] show "at s rs \<Longrightarrow> k \<le> length rs \<Longrightarrow> ?thesis" by simp
qed

end
end
