(* ===== verification/Btree_Scan.thy ===== *)
theory Btree_Scan
  imports Btree_Table Iterator
begin

text \<open>
  Table b-trees as trees of rows, and the correctness of scanning and of the cursor. \<open>tree_at p t\<close>
  says that the pages of \<open>p\<close> hold the tree \<open>t\<close>, overflow chains included; \<open>rows t\<close> is its content in
  order. The scan returns \<open>rows t\<close>. The cursor refines an iterator over that list: the locale
  \<open>row_iterator\<close> states the contract of \<open>rewind\<close>, \<open>next\<close>, validity and reading, with the client's
  loop proved once, and the table cursor is an instance of it.
\<close>

section \<open>Trees\<close>

datatype ttree =
    TLeaf u32 "(i64 \<times> bytes \<times> u32 list) list"
  | TNode u32 "(ttree \<times> i64) list" ttree

fun troot :: "ttree \<Rightarrow> u32" where
  "troot (TLeaf k rs) = k"
| "troot (TNode k kids last_t) = k"

definition leaf_row :: "i64 \<times> bytes \<times> u32 list \<Rightarrow> i64 \<times> bytes" where
  "leaf_row x = (fst x, fst (snd x))"

fun rows :: "ttree \<Rightarrow> (i64 \<times> bytes) list" where
  "rows (TLeaf k rs) = map leaf_row rs"
| "rows (TNode k kids last_t) = concat (map (\<lambda>(t, r). rows t) kids) @ rows last_t"

text \<open>A bound on the turns a traversal of the tree takes.\<close>

fun weight :: "ttree \<Rightarrow> nat" where
  "weight (TLeaf k rs) = 1"
| "weight (TNode k kids last_t) = 2 + sum_list (map (\<lambda>(t, r). weight t) kids) + weight last_t"

definition cell_at :: "pager \<Rightarrow> bytes \<Rightarrow> i64 \<times> bytes \<times> u32 list \<Rightarrow> bool" where
  "cell_at p cell x = (case x of (rowid, payload, ks) \<Rightarrow>
     table_cell (view p) (p_usable_size p) cell rowid payload ks \<and> (\<forall>j \<in> set ks. in_range p j))"

definition leaf_at :: "pager \<Rightarrow> u32 \<Rightarrow> (i64 \<times> bytes \<times> u32 list) list \<Rightarrow> bool" where
  "leaf_at p k rs \<longleftrightarrow> in_range p k \<and>
     (\<exists>cells. node_page (view p k) (btree_header_offset k) LeafTable None cells \<and> list_all2 (cell_at p) cells rs)"

definition interior_at :: "pager \<Rightarrow> u32 \<Rightarrow> (u32 \<times> i64) list \<Rightarrow> u32 \<Rightarrow> bool" where
  "interior_at p k kids right \<longleftrightarrow> in_range p k
     \<and> node_page (view p k) (btree_header_offset k) InteriorTable (Some right)
         (map (\<lambda>(c, r). build_table_interior_cell c r) kids)"

fun tree_at :: "pager \<Rightarrow> ttree \<Rightarrow> bool" where
  "tree_at p (TLeaf k rs) \<longleftrightarrow> leaf_at p k rs"
| "tree_at p (TNode k kids last_t) \<longleftrightarrow>
     interior_at p k (map (\<lambda>(t, r). (troot t, r)) kids) (troot last_t)
     \<and> (\<forall>(t, r) \<in> set kids. tree_at p t) \<and> tree_at p last_t"

lemma cell_at_same: "pager_alloc.same_store p q \<Longrightarrow> cell_at q = cell_at p"
  by (intro ext) (simp add: cell_at_def pager_alloc.same_store_def)

lemma leaf_at_same: "pager_alloc.same_store p q \<Longrightarrow> leaf_at q = leaf_at p"
  using cell_at_same [of p q] by (intro ext) (simp add: leaf_at_def pager_alloc.same_store_def)

lemma tree_at_same: "pager_alloc.same_store p q \<Longrightarrow> tree_at q t = tree_at p t"
  by (induction t) (auto simp: leaf_at_same interior_at_def pager_alloc.same_store_def)

section \<open>Reading a node\<close>

lemma read_node_ok:
  assumes "alloc_ok_pager p" and "in_range p k" and "node_page (view p k) (btree_header_offset k) ty rm cells"
  obtains q hdr where "read_node k p = (q, Inr (view p k, hdr))" "pager_alloc.same_store p q"
    "ph_page_type hdr = ty" "ph_right_most_pointer hdr = rm" "n_cells hdr = length cells"
    "\<And>i. i < length cells \<Longrightarrow> \<exists>off. cell_pointer hdr (view p k) i = Inr off
       \<and> sub off (off + length (cells ! i)) (view p k) = cells ! i \<and> off + length (cells ! i) \<le> length (view p k)"
proof -
  obtain hdr where h: "page_header_parse (view p k) (btree_header_offset k) = Inr hdr" "ph_page_type hdr = ty"
      "ph_right_most_pointer hdr = rm" "unat (ph_num_cells hdr) = length cells"
      "\<And>i. i < length cells \<Longrightarrow> cell_pointer hdr (view p k) i =
         Inr (ptr_of (header_size_of ty) (btree_header_offset k) (view p k) i)"
    using node_page_parse [OF assms(3)] by metis
  obtain q where q: "get_page k p = (q, Inr (view p k))" "pager_alloc.same_store p q"
    using pager_alloc.rd_same [OF assms(1,2)] by blast
  then have "read_node k p = (q, Inr (view p k, hdr))" using h(1) by (simp add: read_node_def)
  then show thesis
    using that q(2) h(2-4) h(5) node_page_cell [OF assms(3)] by (metis n_cells_def)
qed

lemma interior_node_children:
  assumes "n_cells hdr = length kids"
    and "\<And>i. i < length kids \<Longrightarrow> \<exists>off. cell_pointer hdr page i = Inr off
       \<and> sub off (off + length (cells ! i)) page = cells ! i \<and> off + length (cells ! i) \<le> length page"
    and "cells = map (\<lambda>(c, r). build_table_interior_cell c r) kids" and "i < length kids"
  obtains off where "cell_pointer hdr page i = Inr off"
    "parse_table_interior_cell page off = Inr \<lparr>ti_left_child = fst (kids ! i), ti_rowid = snd (kids ! i)\<rparr>"
proof -
  obtain off where o: "cell_pointer hdr page i = Inr off" "sub off (off + length (cells ! i)) page = cells ! i"
      "off + length (cells ! i) \<le> length page"
    using assms(2) [OF assms(4)] by blast
  have "cells ! i = build_table_interior_cell (fst (kids ! i)) (snd (kids ! i))"
    using assms(3,4) by (simp add: case_prod_beta)
  from parse_table_interior_cell_ok [OF this o(2,3)] show thesis using that o(1) by blast
qed

lemma read_interior_ok:
  assumes "alloc_ok_pager p" and "interior_at p k kids right"
  obtains q hdr where "read_node k p = (q, Inr (view p k, hdr))" "pager_alloc.same_store p q"
    "ph_page_type hdr = InteriorTable" "ph_right_most_pointer hdr = Some right" "n_cells hdr = length kids"
    "\<And>i. i < length kids \<Longrightarrow> \<exists>off. cell_pointer hdr (view p k) i = Inr off
       \<and> parse_table_interior_cell (view p k) off = Inr \<lparr>ti_left_child = fst (kids ! i), ti_rowid = snd (kids ! i)\<rparr>"
proof -
  let ?cells = "map (\<lambda>(c, r). build_table_interior_cell c r) kids"
  have a: "in_range p k" "node_page (view p k) (btree_header_offset k) InteriorTable (Some right) ?cells"
    using assms(2) by (auto simp: interior_at_def)
  obtain q hdr where q: "read_node k p = (q, Inr (view p k, hdr))" "pager_alloc.same_store p q"
      "ph_page_type hdr = InteriorTable" "ph_right_most_pointer hdr = Some right" "n_cells hdr = length ?cells"
      and c: "\<And>i. i < length ?cells \<Longrightarrow> \<exists>off. cell_pointer hdr (view p k) i = Inr off
       \<and> sub off (off + length (?cells ! i)) (view p k) = ?cells ! i \<and> off + length (?cells ! i) \<le> length (view p k)"
    using read_node_ok [OF assms(1) a] by metis
  have n: "n_cells hdr = length kids" using q(5) by simp
  have "\<exists>off. cell_pointer hdr (view p k) i = Inr off
       \<and> parse_table_interior_cell (view p k) off = Inr \<lparr>ti_left_child = fst (kids ! i), ti_rowid = snd (kids ! i)\<rparr>"
    if "i < length kids" for i
    using interior_node_children [OF n _ refl that, of "view p k"] c by (metis length_map)
  then show thesis using that q(1-4) n by blast
qed

text \<open>What reading cell \<open>i\<close> of a leaf gives.\<close>

definition leaf_cells_at :: "pager \<Rightarrow> bytes \<Rightarrow> page_header \<Rightarrow> (i64 \<times> bytes) list \<Rightarrow> bool" where
  "leaf_cells_at p page hdr rs \<longleftrightarrow> n_cells hdr = length rs \<and>
     (\<forall>i < length rs. \<exists>cell. and_then (cell_pointer hdr page i) (\<lambda>off. parse_table_leaf_cell page off (p_usable_size p)) = Inr cell
        \<and> tl_rowid cell = fst (rs ! i)
        \<and> (\<forall>q. pager_alloc.same_store p q \<longrightarrow>
             (\<exists>q'. assemble_payload cell q = (q', Inr (snd (rs ! i))) \<and> pager_alloc.same_store p q')))"

lemma read_leaf_ok:
  assumes "alloc_ok_pager p" and "leaf_at p k rs"
  obtains q hdr where "read_node k p = (q, Inr (view p k, hdr))" "pager_alloc.same_store p q"
    "ph_page_type hdr = LeafTable" "leaf_cells_at p (view p k) hdr (map leaf_row rs)"
proof -
  obtain cells where a: "in_range p k" "node_page (view p k) (btree_header_offset k) LeafTable None cells"
      "list_all2 (cell_at p) cells rs"
    using assms(2) by (auto simp: leaf_at_def)
  have len: "length cells = length rs" using a(3) by (rule list_all2_lengthD)
  obtain q hdr where q: "read_node k p = (q, Inr (view p k, hdr))" "pager_alloc.same_store p q"
      "ph_page_type hdr = LeafTable" "n_cells hdr = length cells"
      and c: "\<And>i. i < length cells \<Longrightarrow> \<exists>off. cell_pointer hdr (view p k) i = Inr off
       \<and> sub off (off + length (cells ! i)) (view p k) = cells ! i \<and> off + length (cells ! i) \<le> length (view p k)"
    using read_node_ok [OF assms(1) a(1,2)] by metis
  have "\<exists>cell. and_then (cell_pointer hdr (view p k) i) (\<lambda>off. parse_table_leaf_cell (view p k) off (p_usable_size p)) = Inr cell
        \<and> tl_rowid cell = fst (rs ! i)
        \<and> (\<forall>q. pager_alloc.same_store p q \<longrightarrow>
             (\<exists>q'. assemble_payload cell q = (q', Inr (fst (snd (rs ! i)))) \<and> pager_alloc.same_store p q'))"
    if i: "i < length rs" for i
  proof -
    obtain off where off: "cell_pointer hdr (view p k) i = Inr off" "sub off (off + length (cells ! i)) (view p k) = cells ! i"
        "off + length (cells ! i) \<le> length (view p k)"
      using c i len by metis
    obtain r pl ks where r: "rs ! i = (r, pl, ks)" using prod_cases3 by blast
    have ca: "cell_at p (cells ! i) (r, pl, ks)" using a(3) i len r by (metis list_all2_nthD)
    have assm: "\<exists>cell q'. parse_table_leaf_cell (view p k) off (p_usable_size p) = Inr cell \<and> tl_rowid cell = r
        \<and> assemble_payload cell q0 = (q', Inr pl) \<and> pager_alloc.same_store q0 q'" if "pager_alloc.same_store p q0" for q0
    proof -
      have s: "view q0 = view p" "p_usable_size q0 = p_usable_size p" "alloc_ok_pager q0" "in_range q0 = in_range p"
        using that by (auto simp: pager_alloc.same_store_def)
      have "table_cell (view q0) (p_usable_size q0) (cells ! i) r pl ks" "\<forall>j \<in> set ks. in_range q0 j"
        using ca s by (auto simp: cell_at_def)
      from table_cell_assembles [OF this(1) s(3) this(2) off(2,3)] s show ?thesis by auto
    qed
    obtain cell where cell: "parse_table_leaf_cell (view p k) off (p_usable_size p) = Inr cell" "tl_rowid cell = r"
      using assm [OF pager_alloc.same_store_refl [OF assms(1)]] by blast
    have "\<exists>q'. assemble_payload cell q0 = (q', Inr pl) \<and> pager_alloc.same_store p q'" if "pager_alloc.same_store p q0" for q0
      using assm [OF that] cell(1) pager_alloc.same_store_trans [OF that] by auto
    then show ?thesis using off(1) cell r by auto
  qed
  then show thesis using that q len by (simp add: leaf_cells_at_def leaf_row_def)
qed


section \<open>The scan returns the rows\<close>

lemma scan_leaf_ok:
  assumes "alloc_ok_pager p" and "leaf_cells_at p page hdr rs" and "pager_alloc.same_store p q"
  shows "\<exists>q'. map_op (scan_row page hdr) [0..<n_cells hdr] q = (q', Inr rs) \<and> pager_alloc.same_store q q'"
proof -
  have n: "n_cells hdr = length rs" using assms(2) by (simp add: leaf_cells_at_def)
  have step: "\<exists>s''. scan_row page hdr i s' = (s'', Inr (rs ! i)) \<and> pager_alloc.same_store s' s''"
    if s': "pager_alloc.same_store q s'" and i: "i \<in> set [0..<n_cells hdr]" for s' i
  proof -
    have ps: "pager_alloc.same_store p s'" using assms(3) s' by (rule pager_alloc.same_store_trans)
    then have u: "p_usable_size s' = p_usable_size p" by (simp add: pager_alloc.same_store_def)
    obtain cell where c: "and_then (cell_pointer hdr page i) (\<lambda>off. parse_table_leaf_cell page off (p_usable_size p)) = Inr cell"
        "tl_rowid cell = fst (rs ! i)"
        "\<exists>q'. assemble_payload cell s' = (q', Inr (snd (rs ! i))) \<and> pager_alloc.same_store p q'"
      using assms(2) i n ps unfolding leaf_cells_at_def by auto
    then obtain q' where q': "assemble_payload cell s' = (q', Inr (snd (rs ! i)))" "pager_alloc.same_store p q'" by blast
    have "scan_row page hdr i s' = (q', Inr (rs ! i))" using c(1,2) q'(1) u by (simp add: scan_row_def)
    moreover have "pager_alloc.same_store s' q'" using ps q'(2) by (auto simp: pager_alloc.same_store_def)
    ultimately show ?thesis by blast
  qed
  have ok: "alloc_ok_pager q" using assms(3) by (simp add: pager_alloc.same_store_def)
  obtain q' where "map_op (scan_row page hdr) [0..<n_cells hdr] q = (q', Inr (map (\<lambda>i. rs ! i) [0..<n_cells hdr]))"
      "pager_alloc.same_store q q'"
    using map_op_results [of pager_alloc.same_store q "[0..<n_cells hdr]" "scan_row page hdr" "\<lambda>i. rs ! i"]
      pager_alloc.same_store_refl [OF ok] pager_alloc.same_store_trans step by blast
  then show ?thesis using map_nth [of rs] n by auto
qed

lemma weight_pos: "0 < weight t"
  by (cases t) simp_all

lemma weight_kid: "(t, r) \<in> set kids \<Longrightarrow> weight t \<le> sum_list (map (\<lambda>(t, r). weight t) kids)"
  by (induction kids) (auto simp: trans_le_add2)

lemma visit_ok:
  "tree_at p t \<Longrightarrow> alloc_ok_pager p \<Longrightarrow> weight t \<le> d \<Longrightarrow>
   \<exists>q. visit d (troot t) p = (q, Inr (rows t)) \<and> pager_alloc.same_store p q"
proof (induction t arbitrary: p d)
  case (TLeaf k rs)
  obtain d' where d: "d = Suc d'" using TLeaf.prems(3) by (cases d) auto
  have "leaf_at p k rs" using TLeaf.prems(1) by simp
  then obtain q hdr where q: "read_node k p = (q, Inr (view p k, hdr))" "pager_alloc.same_store p q"
      "ph_page_type hdr = LeafTable" "leaf_cells_at p (view p k) hdr (map leaf_row rs)"
    using read_leaf_ok [OF TLeaf.prems(2)] by metis
  obtain q' where "map_op (scan_row (view p k) hdr) [0..<n_cells hdr] q = (q', Inr (map leaf_row rs))" "pager_alloc.same_store q q'"
    using scan_leaf_ok [OF TLeaf.prems(2) q(4,2)] by blast
  then show ?case using q d pager_alloc.same_store_trans by (intro exI [of _ q']) auto
next
  case (TNode k kids last_t)
  obtain d' where d: "d = Suc d'" using TNode.prems(3) by (cases d) auto
  have w: "weight last_t \<le> d'" "\<And>t r. (t, r) \<in> set kids \<Longrightarrow> weight t \<le> d'"
    using TNode.prems(3) weight_kid d by fastforce+
  let ?kids = "map (\<lambda>(t, r). (troot t, r)) kids"
  have at: "interior_at p k ?kids (troot last_t)" "\<And>t r. (t, r) \<in> set kids \<Longrightarrow> tree_at p t" "tree_at p last_t"
    using TNode.prems(1) by auto
  obtain q hdr where q: "read_node k p = (q, Inr (view p k, hdr))" "pager_alloc.same_store p q"
      "ph_page_type hdr = InteriorTable" "ph_right_most_pointer hdr = Some (troot last_t)" "n_cells hdr = length ?kids"
      and c: "\<And>i. i < length ?kids \<Longrightarrow> \<exists>off. cell_pointer hdr (view p k) i = Inr off
       \<and> parse_table_interior_cell (view p k) off = Inr \<lparr>ti_left_child = fst (?kids ! i), ti_rowid = snd (?kids ! i)\<rparr>"
    using read_interior_ok [OF TNode.prems(2) at(1)] by metis
  let ?f = "\<lambda>i. bind_op (lift_op (left_child_at (view p k) hdr i)) (visit d')"
  have step: "\<exists>s''. ?f i s' = (s'', Inr (rows (fst (kids ! i)))) \<and> pager_alloc.same_store s' s''"
    if s': "pager_alloc.same_store q s'" and i: "i \<in> set [0..<n_cells hdr]" for s' i
  proof -
    have ps: "pager_alloc.same_store p s'" using q(2) s' by (rule pager_alloc.same_store_trans)
    have i': "i < length kids" using i q(5) by simp
    obtain t r where t: "kids ! i = (t, r)" by force
    then have mem: "(t, r) \<in> set kids" using i' by (metis nth_mem)
    have "left_child_at (view p k) hdr i = Inr (troot t)" using c [of i] i' t by (auto simp: left_child_at_def)
    moreover have "tree_at s' t" "alloc_ok_pager s'"
      using at(2) [OF mem] tree_at_same [OF ps] ps by (auto simp: pager_alloc.same_store_def)
    ultimately show ?thesis using TNode.IH(1) [OF mem, of t] w(2) [OF mem] t by auto
  qed
  have okq: "alloc_ok_pager q" using q(2) by (simp add: pager_alloc.same_store_def)
  obtain q1 where q1: "map_op ?f [0..<n_cells hdr] q = (q1, Inr (map (\<lambda>i. rows (fst (kids ! i))) [0..<n_cells hdr]))"
      "pager_alloc.same_store q q1"
    using map_op_results [of pager_alloc.same_store q "[0..<n_cells hdr]" ?f "\<lambda>i. rows (fst (kids ! i))"]
      pager_alloc.same_store_refl [OF okq] pager_alloc.same_store_trans step by blast
  have parts: "map (\<lambda>i. rows (fst (kids ! i))) [0..<n_cells hdr] = map (\<lambda>(t, r). rows t) kids"
    using q(5) by (intro nth_equalityI) (auto simp: case_prod_beta)
  have p1: "pager_alloc.same_store p q1" using q(2) q1(2) by (rule pager_alloc.same_store_trans)
  then have "tree_at q1 last_t" "alloc_ok_pager q1" using at(3) tree_at_same [OF p1] by (auto simp: pager_alloc.same_store_def)
  then obtain q2 where q2: "visit d' (troot last_t) q1 = (q2, Inr (rows last_t))" "pager_alloc.same_store q1 q2"
    using TNode.IH(2) w(1) by blast
  have "visit d k p = (q2, Inr (rows (TNode k kids last_t)))"
    using q q1(1) q2(1) parts by (simp add: d)
  then show ?case using pager_alloc.same_store_trans [OF p1 q2(2)] by (intro exI [of _ q2]) simp
qed


section \<open>The cursor\<close>

fun children :: "ttree \<Rightarrow> ttree list" where
  "children (TLeaf k rs) = []"
| "children (TNode k kids last_t) = map fst kids @ [last_t]"

text \<open>A frame of the stack and the subtrees it has still to visit.\<close>

definition frame_at :: "pager \<Rightarrow> bytes \<times> page_header \<times> nat \<Rightarrow> ttree list \<Rightarrow> bool" where
  "frame_at p f ts \<longleftrightarrow> (case f of (page, hdr, k) \<Rightarrow>
     (\<forall>i < length ts. interior_child hdr page (k + i) = Inr (Some (troot (ts ! i))))
     \<and> interior_child hdr page (k + length ts) = Inr None \<and> (\<forall>t \<in> set ts. tree_at p t))"

definition stack_weight :: "ttree list list \<Rightarrow> nat" where
  "stack_weight tss = sum_list (map (\<lambda>ts. 1 + sum_list (map weight ts)) tss)"

definition stack_rows :: "ttree list list \<Rightarrow> (i64 \<times> bytes) list" where
  "stack_rows tss = concat (map (\<lambda>ts. concat (map rows ts)) tss)"

lemma stack_simps [simp]:
  "stack_weight [] = 0" "stack_weight (ts # tss) = 1 + sum_list (map weight ts) + stack_weight tss"
  "stack_weight (us @ vs) = stack_weight us + stack_weight vs"
  "stack_rows [] = []" "stack_rows (ts # tss) = concat (map rows ts) @ stack_rows tss"
  "stack_rows (us @ vs) = stack_rows us @ stack_rows vs"
  by (simp_all add: stack_weight_def stack_rows_def)

lemma frame_at_same: "pager_alloc.same_store p q \<Longrightarrow> frame_at q = frame_at p"
  by (intro ext) (simp add: frame_at_def tree_at_same)

lemma leaf_cells_at_same:
  assumes "pager_alloc.same_store p q" and "leaf_cells_at p page hdr rs"
  shows "leaf_cells_at q page hdr rs"
proof -
  have "pager_alloc.same_store q r \<longleftrightarrow> pager_alloc.same_store p r" for r
    using assms(1) by (auto simp: pager_alloc.same_store_def)
  moreover have "p_usable_size q = p_usable_size p" using assms(1) by (simp add: pager_alloc.same_store_def)
  ultimately show ?thesis using assms(2) unfolding leaf_cells_at_def by simp
qed

lemma interior_frame:
  assumes "alloc_ok_pager p" and "tree_at p (TNode k kids last_t)"
  obtains q hdr where "read_node k p = (q, Inr (view p k, hdr))" "pager_alloc.same_store p q"
    "ph_page_type hdr = InteriorTable" "frame_at p (view p k, hdr, 0) (map fst kids @ [last_t])"
proof -
  let ?kids = "map (\<lambda>(t, r). (troot t, r)) kids" and ?ch = "map fst kids @ [last_t]"
  have at: "interior_at p k ?kids (troot last_t)" "\<forall>t \<in> set ?ch. tree_at p t" using assms(2) by auto
  obtain q hdr where q: "read_node k p = (q, Inr (view p k, hdr))" "pager_alloc.same_store p q"
      "ph_page_type hdr = InteriorTable" "ph_right_most_pointer hdr = Some (troot last_t)" "n_cells hdr = length ?kids"
      and c: "\<And>i. i < length ?kids \<Longrightarrow> \<exists>off. cell_pointer hdr (view p k) i = Inr off
       \<and> parse_table_interior_cell (view p k) off = Inr \<lparr>ti_left_child = fst (?kids ! i), ti_rowid = snd (?kids ! i)\<rparr>"
    using read_interior_ok [OF assms(1) at(1)] by metis
  have "interior_child hdr (view p k) i = Inr (Some (troot (?ch ! i)))" if "i < length ?ch" for i
  proof (cases "i < length kids")
    case True
    then show ?thesis using c [of i] q(5)
      by (auto simp: interior_child_def left_child_at_def nth_append case_prod_beta)
  next
    case False
    then have "i = length kids" using that by simp
    then show ?thesis using q(4,5) by (simp add: interior_child_def nth_append)
  qed
  moreover have "interior_child hdr (view p k) (length ?ch) = Inr None" using q(5) by (simp add: interior_child_def)
  ultimately have "frame_at p (view p k, hdr, 0) ?ch" using at(2) by (simp add: frame_at_def)
  then show thesis using that q by blast
qed

lemma frame_at_step: "frame_at p (page, hdr, k) (t # ts) \<Longrightarrow>
  interior_child hdr page k = Inr (Some (troot t)) \<and> tree_at p t \<and> frame_at p (page, hdr, k + 1) ts"
  by (fastforce simp: frame_at_def)

lemma frame_at_end: "frame_at p (page, hdr, k) [] \<Longrightarrow> interior_child hdr page k = Inr None"
  by (simp add: frame_at_def)

text \<open>What descending to the left-most leaf of a subtree does to the cursor.\<close>

definition descended :: "pager \<Rightarrow> ttree \<Rightarrow> table_cursor \<Rightarrow> table_cursor \<Rightarrow> ttree list list \<Rightarrow> (i64 \<times> bytes) list \<Rightarrow> bool" where
  "descended p t c c' tss lrs \<longleftrightarrow>
     (\<exists>fs page hdr k. c' = on_leaf k page hdr (c\<lparr>tc_stack := fs @ tc_stack c\<rparr>)
        \<and> list_all2 (frame_at p) fs tss \<and> leaf_cells_at p page hdr lrs)
     \<and> lrs @ stack_rows tss = rows t \<and> stack_weight tss < weight t"

lemma descend_left_ok:
  "tree_at p t \<Longrightarrow> alloc_ok_pager p \<Longrightarrow> weight t \<le> d \<Longrightarrow>
   \<exists>c' q tss lrs. descend_left d (troot t) (c, p) = ((c', q), Inr ()) \<and> pager_alloc.same_store p q \<and> descended p t c c' tss lrs"
proof (induction d arbitrary: t c p)
  case 0
  then show ?case using weight_pos [of t] by simp
next
  case (Suc d)
  show ?case
  proof (cases t)
    case (TLeaf k rs)
    then obtain q hdr where q: "read_node k p = (q, Inr (view p k, hdr))" "pager_alloc.same_store p q"
        "ph_page_type hdr = LeafTable" "leaf_cells_at p (view p k) hdr (map leaf_row rs)"
      using read_leaf_ok [OF Suc.prems(2)] Suc.prems(1) by (metis tree_at.simps(1))
    have "descend_left (Suc d) k (c, p) = ((on_leaf k (view p k) hdr c, q), Inr ())"
      using q by (simp add: via_pager_def bind_op_def set_cursor_def)
    moreover have "descended p t c (on_leaf k (view p k) hdr c) [] (map leaf_row rs)"
      unfolding descended_def using q(4) TLeaf
      by (intro conjI exI [of _ "[]"] exI [of _ "view p k"] exI [of _ hdr] exI [of _ k]) simp_all
    ultimately show ?thesis using q(2) TLeaf by (metis troot.simps(1))
  next
    case (TNode k kids last_t)
    obtain q hdr where q: "read_node k p = (q, Inr (view p k, hdr))" "pager_alloc.same_store p q"
        "ph_page_type hdr = InteriorTable" "frame_at p (view p k, hdr, 0) (map fst kids @ [last_t])"
      using interior_frame [OF Suc.prems(2) Suc.prems(1) [unfolded TNode]] by metis
    obtain t0 ts where ch: "map fst kids @ [last_t] = t0 # ts" by (cases "map fst kids @ [last_t]") auto
    have f: "interior_child hdr (view p k) 0 = Inr (Some (troot t0))" "tree_at p t0" "frame_at p (view p k, hdr, 1) ts"
      using frame_at_step [of p "view p k" hdr 0 t0 ts] q(4) ch by simp_all
    have w: "weight t = 2 + sum_list (map weight (t0 # ts))" "rows t = concat (map rows (t0 # ts))"
      using TNode by (simp_all add: ch [symmetric] split_def comp_def)
    have t0: "tree_at q t0" "alloc_ok_pager q" "weight t0 \<le> d"
      using f(2) tree_at_same [OF q(2)] q(2) Suc.prems(3) w(1) by (auto simp: pager_alloc.same_store_def)
    let ?c1 = "c\<lparr>tc_stack := (view p k, hdr, 1) # tc_stack c\<rparr>"
    obtain c' q' tss lrs where r: "descend_left d (troot t0) (?c1, q) = ((c', q'), Inr ())" "pager_alloc.same_store q q'"
        "descended q t0 ?c1 c' tss lrs"
      using Suc.IH [OF t0] by blast
    have "descend_left (Suc d) k (c, p) = ((c', q'), Inr ())"
      using q(1,3) f(1) r(1) by (simp add: via_pager_def bind_op_def set_cursor_def then_op_def)
    moreover have "descended p t c c' (tss @ [ts]) lrs"
    proof -
      obtain fs page hdr' k' where d': "c' = on_leaf k' page hdr' (?c1\<lparr>tc_stack := fs @ tc_stack ?c1\<rparr>)"
          "list_all2 (frame_at q) fs tss" "leaf_cells_at q page hdr' lrs" "lrs @ stack_rows tss = rows t0" "stack_weight tss < weight t0"
        using r(3) unfolding descended_def by blast
      have qp: "pager_alloc.same_store q p" using q(2) Suc.prems(2) by (simp add: pager_alloc.same_store_def)
      have "list_all2 (frame_at p) (fs @ [(view p k, hdr, 1)]) (tss @ [ts])"
        using d'(2) f(3) frame_at_same [OF q(2)] by (simp add: list_all2_appendI)
      moreover have "c' = on_leaf k' page hdr' (c\<lparr>tc_stack := (fs @ [(view p k, hdr, 1)]) @ tc_stack c\<rparr>)"
        using d'(1) by simp
      moreover have "leaf_cells_at p page hdr' lrs" using leaf_cells_at_same [OF qp d'(3)] .
      moreover have "lrs @ stack_rows (tss @ [ts]) = rows t" using d'(4) w(2) by simp
      moreover have "stack_weight (tss @ [ts]) < weight t" using d'(5) w(1) by simp
      ultimately show ?thesis unfolding descended_def by blast
    qed
    ultimately show ?thesis using pager_alloc.same_store_trans [OF q(2) r(2)] TNode by (metis troot.simps(2))
  qed
qed


text \<open>A cursor with the rows \<open>rs\<close> still to come, the current one first.\<close>

definition on_row :: "pager \<Rightarrow> table_cursor \<Rightarrow> ttree list list \<Rightarrow> (i64 \<times> bytes) list \<Rightarrow> bool" where
  "on_row p c tss lrs \<longleftrightarrow> \<not> tc_at_end c
     \<and> (\<exists>page hdr. tc_leaf c = Some page \<and> tc_leaf_hdr c = Some hdr \<and> leaf_cells_at p page hdr lrs)
     \<and> list_all2 (frame_at p) (tc_stack c) tss"

definition cursor_at :: "nat \<Rightarrow> cursor_state \<Rightarrow> (i64 \<times> bytes) list \<Rightarrow> bool" where
  "cursor_at d s rs \<longleftrightarrow> (case s of (c, p) \<Rightarrow>
     alloc_ok_pager p \<and> tc_usable c = p_usable_size p \<and> \<not> tc_pending_advance c \<and> \<not> tc_null_row c
     \<and> (if tc_at_end c then rs = []
        else \<exists>tss lrs. on_row p c tss lrs \<and> tc_cell_idx c < length lrs \<and> stack_weight tss < d
               \<and> rs = drop (tc_cell_idx c) lrs @ stack_rows tss))"

lemma cursor_atI:
  assumes "on_row p c tss lrs" and "tc_cell_idx c < length lrs" and "stack_weight tss < d" and "alloc_ok_pager p"
    and "tc_usable c = p_usable_size p" and "\<not> tc_pending_advance c" and "\<not> tc_null_row c"
    and "rs = drop (tc_cell_idx c) lrs @ stack_rows tss"
  shows "cursor_at d (c, p) rs"
  unfolding cursor_at_def using assms by (auto simp: on_row_def)

lemma advance_ok:
  "list_all2 (frame_at p) (tc_stack c) tss \<Longrightarrow> alloc_ok_pager p \<Longrightarrow> stack_weight tss < d \<Longrightarrow> d \<le> D \<Longrightarrow>
   tc_usable c = p_usable_size p \<Longrightarrow> \<not> tc_pending_advance c \<Longrightarrow> \<not> tc_null_row c \<Longrightarrow> \<not> tc_at_end c \<Longrightarrow>
   \<exists>c' q. advance_to_next_leaf d (c, p) = ((c', q), Inr ()) \<and> pager_alloc.same_store p q \<and> cursor_at D (c', q) (stack_rows tss)"
proof (induction d arbitrary: c p tss)
  case (Suc d)
  show ?case
  proof (cases "tc_stack c")
    case Nil
    let ?c' = "c\<lparr>tc_at_end := True, tc_leaf := None, tc_leaf_hdr := None\<rparr>"
    have "advance_to_next_leaf (Suc d) (c, p) = ((?c', p), Inr ())" using Nil by (simp add: set_cursor_def)
    moreover have "cursor_at D (?c', p) (stack_rows tss)" using Nil Suc.prems by (simp add: cursor_at_def)
    ultimately show ?thesis using pager_alloc.same_store_refl [OF Suc.prems(2)] by blast
  next
    case (Cons f below)
    obtain page hdr k where f: "f = (page, hdr, k)" using prod_cases3 by blast
    obtain ts tss' where tss: "tss = ts # tss'" "frame_at p f ts" "list_all2 (frame_at p) below tss'"
      using Suc.prems(1) Cons by (auto simp: list_all2_Cons1)
    show ?thesis
    proof (cases ts)
      case Nil
      let ?c1 = "c\<lparr>tc_stack := below\<rparr>"
      have "interior_child hdr page k = Inr None" using tss(2) Nil f frame_at_end by blast
      then have "advance_to_next_leaf (Suc d) (c, p) = advance_to_next_leaf d (?c1, p)"
        using Cons f by (simp add: set_cursor_def)
      moreover have "\<exists>c' q. advance_to_next_leaf d (?c1, p) = ((c', q), Inr ()) \<and> pager_alloc.same_store p q
          \<and> cursor_at D (c', q) (stack_rows tss')"
        using Suc.prems tss Nil by (intro Suc.IH) simp_all
      ultimately show ?thesis using tss(1) Nil by simp
    next
      case (Cons t ts')
      note fs = frame_at_step [of p page hdr k t ts'] tss(2) [unfolded f Cons]
      let ?c1 = "c\<lparr>tc_stack := (page, hdr, k + 1) # below\<rparr>"
      have w: "weight t \<le> d" "weight t + sum_list (map weight ts') + stack_weight tss' < d"
        using Suc.prems(3) tss(1) Cons by simp_all
      obtain c2 q us lrs where r: "descend_left d (troot t) (?c1, p) = ((c2, q), Inr ())" "pager_alloc.same_store p q"
          "descended p t ?c1 c2 us lrs"
        using descend_left_ok [OF _ Suc.prems(2) w(1)] fs by blast
      then obtain gs page' hdr' k' where g: "c2 = on_leaf k' page' hdr' (?c1\<lparr>tc_stack := gs @ tc_stack ?c1\<rparr>)"
          "list_all2 (frame_at p) gs us" "leaf_cells_at p page' hdr' lrs" "lrs @ stack_rows us = rows t" "stack_weight us < weight t"
        unfolding descended_def by blast
      let ?tss = "us @ ts' # tss'"
      have sw: "stack_weight ?tss < d" using g(5) w(2) by simp
      have rows: "lrs @ stack_rows ?tss = stack_rows tss" using g(4) tss(1) Cons by simp
      have la: "list_all2 (frame_at q) (tc_stack c2) ?tss"
        using g(1,2) tss(3) fs frame_at_same [OF r(2)] by (simp add: on_leaf_def list_all2_appendI)
      have lc: "leaf_cells_at q page' hdr' lrs" using leaf_cells_at_same [OF r(2) g(3)] .
      have n: "leaf_cells c2 = length lrs" using g(1,3) by (simp add: leaf_cells_def on_leaf_def leaf_cells_at_def)
      have ok: "alloc_ok_pager q" "tc_usable c2 = p_usable_size q" "\<not> tc_pending_advance c2" "\<not> tc_null_row c2" "\<not> tc_at_end c2"
        using r(2) g(1) Suc.prems by (simp_all add: on_leaf_def pager_alloc.same_store_def)
      have adv: "advance_to_next_leaf (Suc d) (c, p) =
          (if 0 < length lrs then ((c2, q), Inr ()) else advance_to_next_leaf d (c2, q))"
        using \<open>tc_stack c = f # below\<close> f r(1) fs n by (simp add: set_cursor_def)
      show ?thesis
      proof (cases "lrs = []")
        case True
        have "\<exists>c' q'. advance_to_next_leaf d (c2, q) = ((c', q'), Inr ()) \<and> pager_alloc.same_store q q'
            \<and> cursor_at D (c', q') (stack_rows ?tss)"
          using Suc.IH [OF la ok(1) sw _ ok(2-5)] Suc.prems(4) by simp
        then show ?thesis using adv True rows pager_alloc.same_store_trans [OF r(2)] by auto
      next
        case False
        have "on_row q c2 ?tss lrs" unfolding on_row_def using ok(5) g(1) lc la by (simp add: on_leaf_def)
        moreover have "tc_cell_idx c2 = 0" using g(1) by (simp add: on_leaf_def)
        ultimately have "cursor_at D (c2, q) (stack_rows tss)"
          using ok False sw rows Suc.prems(4) by (intro cursor_atI [of q c2 ?tss lrs]) auto
        then show ?thesis using adv False r(2) by auto
      qed
    qed
  qed
qed simp

lemma cursor_rewind_ok:
  assumes "tree_at p t" and "alloc_ok_pager p" and "weight t \<le> d" and "tc_root c = troot t" and "tc_usable c = p_usable_size p"
  shows "\<exists>c' q. cursor_rewind d (c, p) = ((c', q), Inr ()) \<and> pager_alloc.same_store p q \<and> cursor_at d (c', q) (rows t)"
proof -
  let ?c0 = "reset_cursor c"
  obtain c1 q tss lrs where r: "descend_left d (troot t) (?c0, p) = ((c1, q), Inr ())" "pager_alloc.same_store p q"
      "descended p t ?c0 c1 tss lrs"
    using descend_left_ok [OF assms(1-3)] by blast
  then obtain gs page hdr k where g: "c1 = on_leaf k page hdr (?c0\<lparr>tc_stack := gs @ tc_stack ?c0\<rparr>)"
      "list_all2 (frame_at p) gs tss" "leaf_cells_at p page hdr lrs" "lrs @ stack_rows tss = rows t" "stack_weight tss < weight t"
    unfolding descended_def by blast
  have la: "list_all2 (frame_at q) (tc_stack c1) tss"
    using g(1,2) frame_at_same [OF r(2)] by (simp add: on_leaf_def reset_cursor_def)
  have lc: "leaf_cells_at q page hdr lrs" using leaf_cells_at_same [OF r(2) g(3)] .
  have n: "leaf_cells c1 = length lrs" using g(1,3) by (simp add: leaf_cells_def on_leaf_def leaf_cells_at_def)
  have ok: "alloc_ok_pager q" "tc_usable c1 = p_usable_size q" "\<not> tc_pending_advance c1" "\<not> tc_null_row c1" "\<not> tc_at_end c1"
    using r(2) g(1) assms(5) by (simp_all add: on_leaf_def reset_cursor_def pager_alloc.same_store_def)
  have run: "cursor_rewind d (c, p) = (if length lrs = 0 then advance_to_next_leaf d (c1, q) else ((c1, q), Inr ()))"
    using r(1) assms(4) n by (simp add: cursor_rewind_def set_cursor_def reset_cursor_def)
  show ?thesis
  proof (cases "lrs = []")
    case True
    have "stack_weight tss < d" using g(5) assms(3) by simp
    from advance_ok [OF la ok(1) this le_refl ok(2-5)]
    show ?thesis using run True g(4) pager_alloc.same_store_trans [OF r(2)] by auto
  next
    case False
    have "on_row q c1 tss lrs" unfolding on_row_def using ok(5) g(1) lc la by (simp add: on_leaf_def)
    moreover have "tc_cell_idx c1 = 0" using g(1) by (simp add: on_leaf_def)
    ultimately have "cursor_at d (c1, q) (rows t)"
      using ok False g(4,5) assms(3) by (intro cursor_atI [of q c1 tss lrs]) auto
    then show ?thesis using run False r(2) by auto
  qed
qed


text \<open>The current row, as the executor reads it.\<close>

definition cursor_row :: "(cursor_state, i64 \<times> bytes) op" where
  "cursor_row s = bind_op (lift_op (cursor_rowid (fst s))) (\<lambda>r. bind_op cursor_payload (\<lambda>pl. ret_op (r, pl))) s"

lemma cursor_at_valid: "cursor_at d s rs \<Longrightarrow> cursor_is_valid (fst s) \<longleftrightarrow> rs \<noteq> []"
  by (cases s) (auto simp: cursor_at_def cursor_is_valid_def on_row_def leaf_cells_def leaf_cells_at_def split: if_splits)

lemma cursor_at_ConsD:
  assumes "cursor_at d (c, p) (r # rs)"
  obtains tss lrs where "on_row p c tss lrs" "tc_cell_idx c < length lrs" "stack_weight tss < d"
    "r = lrs ! tc_cell_idx c" "rs = drop (Suc (tc_cell_idx c)) lrs @ stack_rows tss"
    "alloc_ok_pager p" "tc_usable c = p_usable_size p" "\<not> tc_pending_advance c" "\<not> tc_null_row c" "\<not> tc_at_end c"
proof -
  have ne: "\<not> tc_at_end c" using assms by (auto simp: cursor_at_def)
  then obtain tss lrs where t: "on_row p c tss lrs" "tc_cell_idx c < length lrs" "stack_weight tss < d"
      "r # rs = drop (tc_cell_idx c) lrs @ stack_rows tss"
    using assms by (auto simp: cursor_at_def)
  then have "r = lrs ! tc_cell_idx c" "rs = drop (Suc (tc_cell_idx c)) lrs @ stack_rows tss"
    by (simp_all add: Cons_nth_drop_Suc [symmetric])
  then show thesis using that t(1-3) ne assms by (auto simp: cursor_at_def)
qed

lemma on_row_same: "pager_alloc.same_store p q \<Longrightarrow> on_row p c tss lrs \<Longrightarrow> on_row q c tss lrs"
  unfolding on_row_def using leaf_cells_at_same frame_at_same by metis

lemma cursor_row_ok:
  assumes "cursor_at d s (r # rs)"
  shows "\<exists>s'. cursor_row s = (s', Inr r) \<and> cursor_at d s' (r # rs) \<and> fst s' = fst s \<and> pager_alloc.same_store (snd s) (snd s')"
proof -
  obtain c p where s: "s = (c, p)" by force
  note a = assms [unfolded s]
  obtain tss lrs where t: "on_row p c tss lrs" "tc_cell_idx c < length lrs" "stack_weight tss < d"
    "r = lrs ! tc_cell_idx c" "rs = drop (Suc (tc_cell_idx c)) lrs @ stack_rows tss"
    "alloc_ok_pager p" "tc_usable c = p_usable_size p" "\<not> tc_pending_advance c" "\<not> tc_null_row c" "\<not> tc_at_end c"
    using cursor_at_ConsD [OF a] by metis
  obtain page hdr where l: "tc_leaf c = Some page" "tc_leaf_hdr c = Some hdr" "leaf_cells_at p page hdr lrs"
    using t(1) by (auto simp: on_row_def)
  have v: "cursor_is_valid c" using cursor_at_valid [OF a] by simp
  obtain cell where cell: "and_then (cell_pointer hdr page (tc_cell_idx c)) (\<lambda>off. parse_table_leaf_cell page off (p_usable_size p)) = Inr cell"
      "tl_rowid cell = fst r" "\<And>q. pager_alloc.same_store p q \<Longrightarrow>
        \<exists>q'. assemble_payload cell q = (q', Inr (snd r)) \<and> pager_alloc.same_store p q'"
    using l(3) t(2,4) unfolding leaf_cells_at_def by blast
  obtain q where q: "assemble_payload cell p = (q, Inr (snd r))" "pager_alloc.same_store p q"
    using cell(3) [OF pager_alloc.same_store_refl [OF t(6)]] by blast
  have cc: "current_cell c = Inr cell" using l(1,2) v cell(1) t(7) by (simp add: current_cell_def)
  then have "cursor_row (c, p) = ((c, q), Inr r)"
    using t(9) cell(2) q(1) by (simp add: cursor_row_def cursor_rowid_def cursor_payload_def via_pager_def bind_op_def)
  moreover have "cursor_at d (c, q) (r # rs)"
    using t q(2) on_row_same [OF q(2) t(1)]
    by (intro cursor_atI [of q c tss lrs]) (auto simp: pager_alloc.same_store_def Cons_nth_drop_Suc)
  ultimately show ?thesis using q(2) s by auto
qed

lemma cursor_next_ok:
  assumes "cursor_at d s (r # rs)"
  shows "\<exists>s'. cursor_next d s = (s', Inr ()) \<and> cursor_at d s' rs \<and> pager_alloc.same_store (snd s) (snd s')"
proof -
  obtain c p where s: "s = (c, p)" by force
  obtain tss lrs where t: "on_row p c tss lrs" "tc_cell_idx c < length lrs" "stack_weight tss < d"
    "r = lrs ! tc_cell_idx c" "rs = drop (Suc (tc_cell_idx c)) lrs @ stack_rows tss"
    "alloc_ok_pager p" "tc_usable c = p_usable_size p" "\<not> tc_pending_advance c" "\<not> tc_null_row c" "\<not> tc_at_end c"
    using cursor_at_ConsD [OF assms [unfolded s]] by metis
  let ?c1 = "c\<lparr>tc_null_row := False, tc_cell_idx := tc_cell_idx c + 1\<rparr>"
  have c1: "step_cell c = ?c1" using t(8) by (simp add: step_cell_def)
  have row1: "on_row p ?c1 tss lrs" using t(1) by (simp add: on_row_def)
  have n: "leaf_cells ?c1 = length lrs" using t(1) by (auto simp: leaf_cells_def on_row_def leaf_cells_at_def)
  have run: "cursor_next d (c, p) = (if tc_cell_idx c + 1 < length lrs then ((?c1, p), Inr ()) else advance_to_next_leaf d (?c1, p))"
    using t(10) n by (simp add: cursor_next_def set_cursor_def c1)
  show ?thesis
  proof (cases "tc_cell_idx c + 1 < length lrs")
    case True
    have "cursor_at d (?c1, p) rs" using t True row1 by (intro cursor_atI [of p ?c1 tss lrs]) auto
    then show ?thesis using run True s pager_alloc.same_store_refl [OF t(6)] by auto
  next
    case False
    then have "rs = stack_rows tss" using t(5) by simp
    then show ?thesis
      using advance_ok [of p ?c1 tss d d] row1 t run False s by (auto simp: on_row_def)
  qed
qed

interpretation table_iter: row_iterator "cursor_at d" "cursor_is_valid \<circ> fst" cursor_row "cursor_next d" for d
proof
  show "cursor_at d s rs \<Longrightarrow> (cursor_is_valid \<circ> fst) s \<longleftrightarrow> rs \<noteq> []" for s rs using cursor_at_valid by simp
  show "cursor_at d s (r # rs) \<Longrightarrow> \<exists>s'. cursor_row s = (s', Inr r) \<and> cursor_at d s' (r # rs)" for s r rs
    using cursor_row_ok by blast
  show "cursor_at d s (r # rs) \<Longrightarrow> \<exists>s'. cursor_next d s = (s', Inr ()) \<and> cursor_at d s' rs" for s r rs
    using cursor_next_ok by blast
qed

end
