(* ===== verification/Btree_Seek.thy ===== *)
theory Btree_Seek
  imports Btree_Scan
begin

text \<open>
  Seeking a rowid. \<open>search_tree\<close> is the order of a table b-tree: rowids ascend in each leaf, every
  rowid below a divider is at most the divider, every rowid to its right exceeds it. On such a tree
  \<open>seek_rowid\<close> finds a row exactly when it is there; the binary search in the leaf is the linear
  search for the first rowid that is large enough.
\<close>

fun search_tree :: "ttree \<Rightarrow> bool" where
  "search_tree (TLeaf k rs) \<longleftrightarrow> sorted_wrt (\<lambda>x y. sint (fst x) < sint (fst y)) rs"
| "search_tree (TNode k kids last_t) \<longleftrightarrow>
     (\<forall>(t, r) \<in> set kids. search_tree t \<and> (\<forall>x \<in> set (rows t). sint (fst x) \<le> sint r)) \<and> search_tree last_t
     \<and> sorted_wrt (\<lambda>(t, r) (t', r'). \<forall>x \<in> set (rows t'). sint r < sint (fst x)) kids
     \<and> (\<forall>(t, r) \<in> set kids. \<forall>x \<in> set (rows last_t). sint r < sint (fst x))"

section \<open>Binary search\<close>

lemma search_leaf_ok:
  assumes "\<And>i. i < n \<Longrightarrow> \<exists>cell. and_then (cell_pointer hdr page i) (\<lambda>off. parse_table_leaf_cell page off usable) = Inr cell
        \<and> tl_rowid cell = ids ! i"
    and "sorted_wrt (\<lambda>x y. sint x < sint y) ids" and "length ids = n" and "lo \<le> hi" and "hi \<le> n"
    and "\<forall>i < lo. sint (ids ! i) < sint target" and "\<forall>i < n. hi \<le> i \<longrightarrow> sint target \<le> sint (ids ! i)"
  shows "\<exists>j. search_leaf page hdr usable target lo hi = Inr j \<and> j \<le> n
    \<and> (\<forall>i < j. sint (ids ! i) < sint target) \<and> (\<forall>i < n. j \<le> i \<longrightarrow> sint target \<le> sint (ids ! i))"
  using assms
proof (induction "hi - lo" arbitrary: lo hi rule: less_induct)
  case less
  show ?case
  proof (cases "lo < hi")
    case False
    then show ?thesis using less.prems by (subst search_leaf.simps) auto
  next
    case True
    define mid where "mid = (lo + hi) div 2"
    have m: "lo \<le> mid" "mid < hi" using True by (auto simp: mid_def)
    have mn: "mid < n" using m(2) less.prems(5) by simp
    obtain cell where cell: "and_then (cell_pointer hdr page mid) (\<lambda>off. parse_table_leaf_cell page off usable) = Inr cell"
        "tl_rowid cell = ids ! mid"
      using less.prems(1) [OF mn] by blast
    have mono: "sint (ids ! i) < sint (ids ! j)" if "i < j" "j < n" for i j
      using sorted_wrt_nth_less [OF less.prems(2) that(1)] less.prems(3) that(2) by simp
    show ?thesis
    proof (cases "sint (ids ! mid) < sint target")
      case lt: True
      have "\<forall>i < mid + 1. sint (ids ! i) < sint target"
      proof (intro allI impI)
        fix i
        assume "i < mid + 1"
        then consider "i < mid" | "i = mid" by linarith
        then show "sint (ids ! i) < sint target" using mono [of i mid] mn lt by cases auto
      qed
      then have "\<exists>j. search_leaf page hdr usable target (mid + 1) hi = Inr j \<and> j \<le> n
          \<and> (\<forall>i < j. sint (ids ! i) < sint target) \<and> (\<forall>i < n. j \<le> i \<longrightarrow> sint target \<le> sint (ids ! i))"
        using less.prems m by (intro less.hyps) auto
      then show ?thesis using True cell lt by (subst search_leaf.simps) (simp add: Let_def mid_def)
    next
      case ge: False
      have "\<forall>i < n. mid \<le> i \<longrightarrow> sint target \<le> sint (ids ! i)"
      proof (intro allI impI)
        fix i
        assume "i < n" "mid \<le> i"
        then consider "mid < i" | "i = mid" by linarith
        then show "sint target \<le> sint (ids ! i)" using mono [of mid i] \<open>i < n\<close> ge by cases auto
      qed
      then have "\<exists>j. search_leaf page hdr usable target lo mid = Inr j \<and> j \<le> n
          \<and> (\<forall>i < j. sint (ids ! i) < sint target) \<and> (\<forall>i < n. j \<le> i \<longrightarrow> sint target \<le> sint (ids ! i))"
        using less.prems m mn by (intro less.hyps) auto
      then show ?thesis using True cell ge by (subst search_leaf.simps) (simp add: Let_def mid_def)
    qed
  qed
qed

section \<open>Descending\<close>

text \<open>The child the descent picks: the first one whose divider is at least the target, else the last.\<close>

fun child_for :: "i64 \<Rightarrow> ('a \<times> i64) list \<Rightarrow> 'a \<Rightarrow> 'a" where
  "child_for target [] last_t = last_t"
| "child_for target ((t, r) # kids) last_t = (if sint target \<le> sint r then t else child_for target kids last_t)"

lemma pick_child_ok:
  assumes "\<And>i. i < length kids \<Longrightarrow> \<exists>off. cell_pointer hdr page (m + i) = Inr off
       \<and> parse_table_interior_cell page off = Inr \<lparr>ti_left_child = troot (fst (kids ! i)), ti_rowid = snd (kids ! i)\<rparr>"
    and "ph_right_most_pointer hdr = Some (troot last_t)"
  shows "pick_child_from [m..<m + length kids] page hdr target = Inr (troot (child_for target kids last_t))"
  using assms
proof (induction kids arbitrary: m)
  case (Cons kid kids)
  obtain t r where k: "kid = (t, r)" by force
  obtain off where off: "cell_pointer hdr page m = Inr off"
      "parse_table_interior_cell page off = Inr \<lparr>ti_left_child = troot t, ti_rowid = r\<rparr>"
    using Cons.prems(1) [of 0] k by auto
  have "pick_child_from [Suc m..<Suc m + length kids] page hdr target = Inr (troot (child_for target kids last_t))"
    using Cons.prems(1) [of "Suc _"] Cons.prems(2) by (intro Cons.IH) auto
  then show ?case using off k by (simp add: upt_conv_Cons del: upt_Suc)
qed simp

lemma child_for_mem: "child_for target kids last_t = last_t \<or> child_for target kids last_t \<in> fst ` set kids"
  by (induction target kids last_t rule: child_for.induct) auto

lemma child_for_rows:
  assumes "search_tree (TNode k kids last_t)"
  shows "(target, payload) \<in> set (rows (TNode k kids last_t))
     \<longleftrightarrow> (target, payload) \<in> set (rows (child_for target kids last_t))"
  using assms
proof (induction kids)
  case (Cons kid kids)
  obtain t r where kd: "kid = (t, r)" by force
  have st: "search_tree (TNode k kids last_t)" and lo: "\<forall>x \<in> set (rows t). sint (fst x) \<le> sint r"
      and hi: "\<forall>x \<in> set (rows (TNode k kids last_t)). sint r < sint (fst x)"
    using Cons.prems kd by auto
  show ?case
  proof (cases "sint target \<le> sint r")
    case True
    then have "(target, payload) \<notin> set (rows (TNode k kids last_t))" using hi by force
    then show ?thesis using True kd by auto
  next
    case False
    then have "(target, payload) \<notin> set (rows t)" using lo by force
    then show ?thesis using False kd Cons.IH [OF st] by auto
  qed
qed simp


lemma child_for_at:
  assumes "tree_at p (TNode k kids last_t)" and "search_tree (TNode k kids last_t)"
  shows "tree_at p (child_for target kids last_t)" "search_tree (child_for target kids last_t)"
    "weight (child_for target kids last_t) < weight (TNode k kids last_t)"
proof -
  let ?c = "child_for target kids last_t"
  consider "?c = last_t" | r where "(?c, r) \<in> set kids" using child_for_mem [of target kids last_t] by auto
  then have "tree_at p ?c \<and> search_tree ?c \<and> weight ?c < weight (TNode k kids last_t)"
  proof cases
    case 1
    then show ?thesis using assms by simp
  next
    case (2 r)
    then show ?thesis using assms weight_kid [OF 2] by auto
  qed
  then show "tree_at p ?c" "search_tree ?c" "weight ?c < weight (TNode k kids last_t)" by auto
qed

text \<open>Where the descent leaves the cursor: on the leaf that owns the target, at the first rowid not below it.\<close>

definition sought :: "pager \<Rightarrow> table_cursor \<Rightarrow> i64 \<Rightarrow> (i64 \<times> bytes) list \<Rightarrow> bool" where
  "sought p c target lrs \<longleftrightarrow>
     (\<exists>page hdr. tc_leaf c = Some page \<and> tc_leaf_hdr c = Some hdr \<and> leaf_cells_at p page hdr lrs)
     \<and> tc_cell_idx c \<le> length lrs \<and> (\<forall>i < tc_cell_idx c. sint (fst (lrs ! i)) < sint target)
     \<and> (\<forall>i < length lrs. tc_cell_idx c \<le> i \<longrightarrow> sint target \<le> sint (fst (lrs ! i)))
     \<and> sorted_wrt (\<lambda>x y. sint (fst x) < sint (fst y)) lrs"

lemma descend_to_target_ok:
  "tree_at p t \<Longrightarrow> search_tree t \<Longrightarrow> alloc_ok_pager p \<Longrightarrow> weight t \<le> d \<Longrightarrow> tc_usable c = p_usable_size p \<Longrightarrow>
   \<exists>c' q lrs. descend_to_target d target (troot t) (c, p) = ((c', q), Inr ()) \<and> pager_alloc.same_store p q
     \<and> sought p c' target lrs \<and> (\<forall>pl. (target, pl) \<in> set (rows t) \<longleftrightarrow> (target, pl) \<in> set lrs)
     \<and> tc_usable c' = tc_usable c \<and> tc_at_end c' = tc_at_end c \<and> tc_null_row c' = tc_null_row c \<and> \<not> tc_pending_advance c'
     \<and> tc_root c' = tc_root c"
proof (induction d arbitrary: t c p)
  case 0
  then show ?case using weight_pos [of t] by simp
next
  case (Suc d)
  show ?case
  proof (cases t)
    case (TLeaf k rs)
    let ?lrs = "map leaf_row rs"
    obtain q hdr where q: "read_node k p = (q, Inr (view p k, hdr))" "pager_alloc.same_store p q"
        "ph_page_type hdr = LeafTable" "leaf_cells_at p (view p k) hdr ?lrs"
      using read_leaf_ok [OF Suc.prems(3)] Suc.prems(1) TLeaf by (metis tree_at.simps(1))
    have n: "n_cells hdr = length (map fst rs)" using q(4) by (simp add: leaf_cells_at_def)
    have cells: "\<exists>cell. and_then (cell_pointer hdr (view p k) i) (\<lambda>off. parse_table_leaf_cell (view p k) off (p_usable_size p)) = Inr cell
        \<and> tl_rowid cell = map fst rs ! i" if "i < n_cells hdr" for i
      using q(4) that n unfolding leaf_cells_at_def by (fastforce simp: leaf_row_def)
    have srt: "sorted_wrt (\<lambda>x y. sint x < sint y) (map fst rs)" using Suc.prems(2) TLeaf by (simp add: sorted_wrt_map)
    obtain j where j: "search_leaf (view p k) hdr (p_usable_size p) target 0 (n_cells hdr) = Inr j" "j \<le> n_cells hdr"
        "\<forall>i < j. sint (map fst rs ! i) < sint target" "\<forall>i < n_cells hdr. j \<le> i \<longrightarrow> sint target \<le> sint (map fst rs ! i)"
      using search_leaf_ok [OF cells srt n [symmetric], of 0 "n_cells hdr" target] by auto
    let ?c' = "(set_leaf k (view p k) hdr c)\<lparr>tc_cell_idx := j, tc_pending_advance := False\<rparr>"
    have "descend_to_target (Suc d) target k (c, p) = ((?c', q), Inr ())"
      using q(1,3) j(1) Suc.prems(5)
      by (simp add: via_pager_def bind_op_def then_op_def set_cursor_def set_leaf_def leaf_index_for_rowid_def)
    moreover have "sought p ?c' target ?lrs"
      unfolding sought_def using q(4) j(2-4) n srt by (auto simp: set_leaf_def leaf_row_def sorted_wrt_map)
    ultimately show ?thesis
      using q(2) TLeaf by (intro exI [of _ ?c'] exI [of _ q] exI [of _ ?lrs]) (simp add: set_leaf_def)
  next
    case (TNode k kids last_t)
    let ?kids = "map (\<lambda>(t, r). (troot t, r)) kids" and ?ch = "child_for target kids last_t"
    have at: "interior_at p k ?kids (troot last_t)" using Suc.prems(1) TNode by simp
    obtain q hdr where q: "read_node k p = (q, Inr (view p k, hdr))" "pager_alloc.same_store p q"
        "ph_page_type hdr = InteriorTable" "ph_right_most_pointer hdr = Some (troot last_t)" "n_cells hdr = length ?kids"
        and c: "\<And>i. i < length ?kids \<Longrightarrow> \<exists>off. cell_pointer hdr (view p k) i = Inr off
         \<and> parse_table_interior_cell (view p k) off = Inr \<lparr>ti_left_child = fst (?kids ! i), ti_rowid = snd (?kids ! i)\<rparr>"
      using read_interior_ok [OF Suc.prems(3) at] by metis
    have "pick_child_from [0..<0 + length kids] (view p k) hdr target = Inr (troot ?ch)"
      using c q(4) by (intro pick_child_ok) (auto simp: split_def)
    then have pick: "pick_child_for_rowid (view p k) hdr target = Inr (troot ?ch)"
      using q(5) by (simp add: pick_child_for_rowid_def)
    note ch = child_for_at [OF Suc.prems(1,2) [unfolded TNode], of target]
    let ?c1 = "c\<lparr>tc_stack := (view p k, hdr, 0) # tc_stack c\<rparr>"
    have pre: "tree_at q ?ch" "alloc_ok_pager q" "weight ?ch \<le> d" "tc_usable ?c1 = p_usable_size q"
      using ch tree_at_same [OF q(2)] q(2) Suc.prems(4,5) TNode by (auto simp: pager_alloc.same_store_def)
    obtain c' q' lrs where r: "descend_to_target d target (troot ?ch) (?c1, q) = ((c', q'), Inr ())" "pager_alloc.same_store q q'"
        "sought q c' target lrs" "\<forall>pl. (target, pl) \<in> set (rows ?ch) \<longleftrightarrow> (target, pl) \<in> set lrs"
        "tc_usable c' = tc_usable ?c1 \<and> tc_at_end c' = tc_at_end ?c1 \<and> tc_null_row c' = tc_null_row ?c1 \<and> \<not> tc_pending_advance c'
         \<and> tc_root c' = tc_root ?c1"
      using Suc.IH [OF pre(1) ch(2) pre(2-4)] by blast
    have "descend_to_target (Suc d) target k (c, p) = ((c', q'), Inr ())"
      using q(1,3) pick r(1) by (simp add: via_pager_def bind_op_def then_op_def set_cursor_def)
    moreover have qp: "pager_alloc.same_store q p" using q(2) Suc.prems(3) by (simp add: pager_alloc.same_store_def)
    then have "sought p c' target lrs" using r(3) leaf_cells_at_same [OF qp] unfolding sought_def by blast
    moreover have "(target, pl) \<in> set (rows t) \<longleftrightarrow> (target, pl) \<in> set lrs" for pl
      using r(4) child_for_rows [OF Suc.prems(2) [unfolded TNode]] TNode by simp
    moreover have "pager_alloc.same_store p q'" using q(2) r(2) by (rule pager_alloc.same_store_trans)
    ultimately show ?thesis using r(5) TNode by (intro exI [of _ c'] exI [of _ q'] exI [of _ lrs]) simp
  qed
qed


lemma seek_rowid_ok:
  assumes "tree_at p t" and "search_tree t" and "alloc_ok_pager p" and "weight t \<le> d"
    and "tc_root c = troot t" and "tc_usable c = p_usable_size p"
  shows "\<exists>c' q. seek_rowid d target (c, p) = ((c', q), Inr (\<exists>pl. (target, pl) \<in> set (rows t))) \<and> pager_alloc.same_store p q
    \<and> (\<forall>pl. (target, pl) \<in> set (rows t) \<longrightarrow> cursor_is_valid c' \<and> snd (cursor_row (c', q)) = Inr (target, pl))"
proof -
  let ?c0 = "reset_cursor c"
  have u: "tc_usable ?c0 = p_usable_size p" using assms(6) by (simp add: reset_cursor_def)
  obtain c1 q lrs where r: "descend_to_target d target (troot t) (?c0, p) = ((c1, q), Inr ())" "pager_alloc.same_store p q"
      "sought p c1 target lrs" "\<And>pl. (target, pl) \<in> set (rows t) \<longleftrightarrow> (target, pl) \<in> set lrs"
      "tc_usable c1 = tc_usable ?c0" "tc_at_end c1 = tc_at_end ?c0" "tc_null_row c1 = tc_null_row ?c0"
    using descend_to_target_ok [OF assms(1-4) u, of target] by blast
  obtain page hdr where l: "tc_leaf c1 = Some page" "tc_leaf_hdr c1 = Some hdr" "leaf_cells_at p page hdr lrs"
      and j: "tc_cell_idx c1 \<le> length lrs" "\<And>i. i < tc_cell_idx c1 \<Longrightarrow> sint (fst (lrs ! i)) < sint target"
      "\<And>i. i < length lrs \<Longrightarrow> tc_cell_idx c1 \<le> i \<Longrightarrow> sint target \<le> sint (fst (lrs ! i))"
      and srt: "sorted_wrt (\<lambda>x y. sint (fst x) < sint (fst y)) lrs"
    using r(3) unfolding sought_def by blast
  let ?j = "tc_cell_idx c1"
  have flags: "\<not> tc_at_end c1" "\<not> tc_null_row c1" "tc_usable c1 = p_usable_size p" using r(5-7) u by (simp_all add: reset_cursor_def)
  have valid: "cursor_is_valid c1 \<longleftrightarrow> ?j < length lrs"
    using l flags(1) by (simp add: cursor_is_valid_def leaf_cells_def leaf_cells_at_def)
  have sk: "seek_rowid d target (c, p) =
      (\<lambda>s. if \<not> cursor_is_valid (fst s) then (s, Inr False)
           else bind_op (lift_op (current_cell (fst s))) (\<lambda>cell.
             if tl_rowid cell \<noteq> target then then_op (set_cursor miss) (ret_op False) else ret_op True) s) (c1, q)"
    using r(1) assms(5) by (simp add: seek_rowid_def set_cursor_def reset_cursor_def)
  show ?thesis
  proof (cases "?j < length lrs")
    case False
    have "(target, pl) \<notin> set lrs" for pl
    proof
      assume "(target, pl) \<in> set lrs"
      then obtain i where i: "i < length lrs" "lrs ! i = (target, pl)" by (metis in_set_conv_nth)
      then show False using j(2) [of i] False by simp
    qed
    then show ?thesis using sk valid False r(2,4) by auto
  next
    case True
    obtain cell where cell: "and_then (cell_pointer hdr page ?j) (\<lambda>off. parse_table_leaf_cell page off (p_usable_size p)) = Inr cell"
        "tl_rowid cell = fst (lrs ! ?j)"
        "\<exists>q'. assemble_payload cell q = (q', Inr (snd (lrs ! ?j))) \<and> pager_alloc.same_store p q'"
      using l(3) True r(2) unfolding leaf_cells_at_def by blast
    have cc: "current_cell c1 = Inr cell" using l valid True cell(1) flags by (simp add: current_cell_def)
    have mem: "(target, pl) \<in> set lrs \<longleftrightarrow> lrs ! ?j = (target, pl)" for pl
    proof
      assume "(target, pl) \<in> set lrs"
      then obtain i where i: "i < length lrs" "lrs ! i = (target, pl)" by (metis in_set_conv_nth)
      have "\<not> i < ?j" using j(2) [of i] i(2) by auto
      moreover have "\<not> ?j < i"
        using sorted_wrt_nth_less [OF srt _ i(1), of ?j] j(3) [OF True] i(2) by auto
      ultimately show "lrs ! ?j = (target, pl)" using i(2) by simp
    qed (metis True nth_mem)
    have ex: "(\<exists>pl. (target, pl) \<in> set (rows t)) \<longleftrightarrow> tl_rowid cell = target"
      using mem cell(2) r(4) by (metis prod.collapse fst_conv)
    have run: "seek_rowid d target (c, p) = ((if tl_rowid cell = target then c1 else miss c1, q), Inr (tl_rowid cell = target))"
      using sk valid True cc by (simp add: set_cursor_def)
    have row: "snd (cursor_row (c1, q)) = Inr (lrs ! ?j)"
      using cc flags(2) cell(2,3) by (auto simp: cursor_row_def cursor_rowid_def cursor_payload_def via_pager_def bind_op_def)
    have "cursor_is_valid c1 \<and> snd (cursor_row (c1, q)) = Inr (target, pl)" if "(target, pl) \<in> set (rows t)" for pl
      using that r(4) mem row valid True by simp
    then show ?thesis using run ex r(2) by (cases "tl_rowid cell = target") auto
  qed
qed


section \<open>A sample tree\<close>

text \<open>An interior root on page 2 with the leaves 3 and 4, in pages of 512 bytes.\<close>

definition sample_page :: "page_type \<Rightarrow> u32 option \<Rightarrow> bytes list \<Rightarrow> bytes" where
  "sample_page ty rm cells = (case write_page_cells (replicate 512 0) 0 ty rm cells of Inr q \<Rightarrow> q | Inl _ \<Rightarrow> [])"

definition sample_cell :: "i64 \<Rightarrow> u8 \<Rightarrow> bytes" where
  "sample_cell rowid b = write_varint 1 @ write_varint rowid @ [b]"

definition tree_db :: pager where
  "tree_db = (pager_of ''db'' 0 None ([], None, new_sys 2) (fresh_header 512) 4 [] None)
     \<lparr>p_dirty := [(1, replicate 512 0),
        (2, sample_page InteriorTable (Some 4) [build_table_interior_cell 3 5]),
        (3, sample_page LeafTable None [sample_cell 1 10, sample_cell 5 20]),
        (4, sample_page LeafTable None [sample_cell 9 30])]\<rparr>"

definition sample_tree :: ttree where
  "sample_tree = TNode 2 [(TLeaf 3 [(1, [10], []), (5, [20], [])], 5)] (TLeaf 4 [(9, [30], [])])"

lemma sample_page_node:
  assumes "(rm = None) = is_leaf ty" and "[] \<notin> set cells" and "12 + cells_size cells \<le> 512"
  shows "length (sample_page ty rm cells) = 512" "node_page (sample_page ty rm cells) 0 ty rm cells"
proof -
  have "header_size_of ty + cells_size cells \<le> 512" using header_size_of_ge(2) [of ty] assms(3) by linarith
  then obtain q where "write_page_cells (replicate 512 0) 0 ty rm cells = Inr q" "length q = 512" "node_page q 0 ty rm cells"
    using write_page_cells_node [of "replicate 512 0" rm ty cells 0] assms(1,2) by auto
  then show "length (sample_page ty rm cells) = 512" "node_page (sample_page ty rm cells) 0 ty rm cells"
    by (simp_all add: sample_page_def)
qed

lemma sample_sizes: "length (sample_cell r b) \<le> 19" "sample_cell r b \<noteq> []" "length (build_table_interior_cell c r) \<le> 13"
    "build_table_interior_cell c r \<noteq> []"
proof -
  show "length (sample_cell r b) \<le> 19"
    using varint_len_bounds(2) [of r] varint_len_bounds(2) [of 1] by (simp add: sample_cell_def length_write_varint)
  show "length (build_table_interior_cell c r) \<le> 13"
    using varint_len_bounds(2) [of r] by (simp add: build_table_interior_cell_def length_write_varint)
  show "build_table_interior_cell c r \<noteq> []" by (simp add: build_table_interior_cell_def be_enc_def)
qed (simp add: sample_cell_def)

lemma sample_interior_page:
  "length (sample_page InteriorTable (Some 4) [build_table_interior_cell 3 5]) = 512"
  "node_page (sample_page InteriorTable (Some 4) [build_table_interior_cell 3 5]) 0 InteriorTable (Some 4) [build_table_interior_cell 3 5]"
  using sample_page_node [of "Some 4" InteriorTable "[build_table_interior_cell 3 5]"] sample_sizes(3) [of 3 5] sample_sizes(4) [of 3 5]
  by (simp_all add: is_leaf_def)

lemma sample_leaf_page:
  assumes "length (concat cells) \<le> 400" "length cells \<le> 50" "[] \<notin> set cells"
  shows "length (sample_page LeafTable None cells) = 512" "node_page (sample_page LeafTable None cells) 0 LeafTable None cells"
  using sample_page_node [of None LeafTable cells] assms by (simp_all add: is_leaf_def cells_size_def length_concat)

lemma sample_pages:
  "length (sample_page LeafTable None [sample_cell 1 10, sample_cell 5 20]) = 512"
  "node_page (sample_page LeafTable None [sample_cell 1 10, sample_cell 5 20]) 0 LeafTable None [sample_cell 1 10, sample_cell 5 20]"
  "length (sample_page LeafTable None [sample_cell 9 30]) = 512"
  "node_page (sample_page LeafTable None [sample_cell 9 30]) 0 LeafTable None [sample_cell 9 30]"
  using sample_sizes(1) [of 1 10] sample_sizes(1) [of 5 20] sample_sizes(1) [of 9 30] sample_sizes(2) [THEN not_sym]
  by (simp_all add: sample_leaf_page)

lemma tree_db_fields:
  "p_page_count tree_db = 4" "p_page_size tree_db = 512" "p_usable_size tree_db = 512" "p_wal tree_db = None" "p_cache tree_db = []"
  "p_header tree_db = fresh_header 512"
  by (simp_all add: tree_db_def pager_of_def fresh_header_def usable_size_def)

lemma u32_upto_4: "k \<noteq> 0 \<Longrightarrow> k \<le> 4 \<Longrightarrow> k = 1 \<or> k = 2 \<or> k = 3 \<or> k = (4 :: u32)"
proof -
  assume "k \<noteq> 0" "k \<le> 4"
  then have "unat k \<noteq> 0" "unat k \<le> 4" by (simp_all add: word_le_nat_alt unat_eq_0)
  then have "unat k = 1 \<or> unat k = 2 \<or> unat k = 3 \<or> unat k = 4" by linarith
  then show ?thesis by (simp add: word_unat_eq_iff)
qed

lemma tree_db_ok: "alloc_ok_pager tree_db" "in_range tree_db k \<longleftrightarrow> k \<noteq> 0 \<and> k \<le> 4"
proof -
  have "overlay_ok 512 (length (p_db tree_db)) 4 (p_dirty tree_db)"
    unfolding overlay_ok_def using sample_interior_page(1) sample_pages(1,3) u32_upto_4 by (auto simp: tree_db_def)
  then show "alloc_ok_pager tree_db"
    by (simp add: alloc_ok_pager_def pager_ok_def cache_ok_def no_freelist_def tree_db_fields fresh_header_def)
  show "in_range tree_db k \<longleftrightarrow> k \<noteq> 0 \<and> k \<le> 4" by (simp add: in_range_def tree_db_fields)
qed

lemma tree_db_views:
  "view tree_db 2 = sample_page InteriorTable (Some 4) [build_table_interior_cell 3 5]"
  "view tree_db 3 = sample_page LeafTable None [sample_cell 1 10, sample_cell 5 20]"
  "view tree_db 4 = sample_page LeafTable None [sample_cell 9 30]"
  by (simp_all add: view_def tree_db_def)

lemma sample_cell_at: "cell_at tree_db (sample_cell r b) (r, [b], [])"
proof -
  have "local_payload_len 1 512 477 = (1, False)" by (simp add: local_payload_len_def)
  then show ?thesis
    by (simp add: cell_at_def table_cell_def sample_cell_def payload_at_def tree_db_fields table_leaf_max_local_def)
qed

lemma sample_tree_at: "tree_at tree_db sample_tree"
  using sample_interior_page(2) sample_pages(2,4) sample_cell_at
  by (auto simp: sample_tree_def leaf_at_def interior_at_def tree_db_ok tree_db_views btree_header_offset_def)

lemma sample_tree_search: "search_tree sample_tree"
  by (simp add: sample_tree_def leaf_row_def)

lemma sample_tree_facts: "weight sample_tree = 4" "troot sample_tree = 2" "rows sample_tree = [(1, [10]), (5, [20]), (9, [30])]"
  by (simp_all add: sample_tree_def leaf_row_def)

section \<open>Properties\<close>

text \<open>
  C19. Scanning a table b-tree returns: on any tree of pages, with overflow chains, the scan gives
  exactly its rows in order, with the whole payload of each.
\<close>

theorem scan_table_returns_rows:
  assumes "tree_at p t" and "alloc_ok_pager p" and "weight t \<le> d"
  shows "snd (scan_table d (troot t) p) = Inr (rows t)"
  using visit_ok [OF assms] by (auto simp: scan_table_def)

theorem scan_table_returns_rows_witness:
  "snd (scan_table 4 2 tree_db) = Inr [(1, [10]), (5, [20]), (9, [30])]"
  using scan_table_returns_rows [OF sample_tree_at tree_db_ok(1), of 4] by (simp add: sample_tree_facts)

text \<open>
  C17. The streaming cursor is an iterator over the rows of its tree: rewinding it and then reading
  the row and stepping until it is invalid yields exactly the rows the scan returns, in order, and
  ends.
\<close>

theorem table_cursor_iterates:
  assumes "tree_at p t" and "alloc_ok_pager p" and "weight t \<le> d" and "length (rows t) < n"
  shows "snd (then_op (cursor_rewind d) (drain (cursor_is_valid \<circ> fst) cursor_row (cursor_next d) n)
            (table_cursor_new p (troot t), p)) = Inr (rows t)"
proof -
  let ?c = "table_cursor_new p (troot t)"
  obtain c' q where c': "cursor_rewind d (?c, p) = ((c', q), Inr ())" "cursor_at d (c', q) (rows t)"
    using cursor_rewind_ok [OF assms(1-3), of ?c] by (auto simp: table_cursor_new_def)
  then show ?thesis using table_iter.drain_ok [OF c'(2) assms(4)] by auto
qed

theorem table_cursor_iterates_witness:
  "snd (then_op (cursor_rewind 4) (drain (cursor_is_valid \<circ> fst) cursor_row (cursor_next 4) 4)
          (table_cursor_new tree_db 2, tree_db)) = Inr [(1, [10]), (5, [20]), (9, [30])]"
  using table_cursor_iterates [OF sample_tree_at tree_db_ok(1), of 4 4] by (simp add: sample_tree_facts)

text \<open>
  C18. On a tree in key order \<open>seek_rowid\<close> returns true exactly when a row with that rowid is in the
  tree, and then the cursor is on it.
\<close>

theorem seek_rowid_finds:
  assumes "tree_at p t" and "search_tree t" and "alloc_ok_pager p" and "weight t \<le> d"
    and "tc_root c = troot t" and "tc_usable c = p_usable_size p"
  shows "\<exists>c' q. seek_rowid d target (c, p) = ((c', q), Inr (\<exists>pl. (target, pl) \<in> set (rows t)))
    \<and> (\<forall>pl. (target, pl) \<in> set (rows t) \<longrightarrow> cursor_is_valid c' \<and> snd (cursor_row (c', q)) = Inr (target, pl))"
  using seek_rowid_ok [OF assms] by blast

theorem seek_rowid_finds_witness:
  "(\<exists>c' q. seek_rowid 4 5 (table_cursor_new tree_db 2, tree_db) = ((c', q), Inr True)
      \<and> snd (cursor_row (c', q)) = Inr (5, [20]))
   \<and> snd (seek_rowid 4 7 (table_cursor_new tree_db 2, tree_db)) = Inr False"
  using seek_rowid_finds [OF sample_tree_at sample_tree_search tree_db_ok(1), of 4 "table_cursor_new tree_db 2" 5]
    seek_rowid_finds [OF sample_tree_at sample_tree_search tree_db_ok(1), of 4 "table_cursor_new tree_db 2" 7]
  by (auto simp: sample_tree_facts table_cursor_new_def)

end
