(* ===== verification/Btree_Grow.thy ===== *)
theory Btree_Grow
  imports Btree_Insert Btree_Seek "HOL-Library.Multiset"
begin

text \<open>
  Insertion into a table b-tree, on the trees of \<open>Btree_Scan\<close>. \<open>pages t\<close> lists the pages a tree owns;
  writing any other page leaves the tree as it is. When the leaf that owns the rowid has room, the
  row is inserted in order into the rows of the tree and every other leaf is kept, at any depth and
  in both modes.
\<close>

section \<open>Updating pages\<close>

text \<open>
  What the splitting code adds to the interface of allocation: \<open>rdw\<close> reads a page that is about to
  be written, and the mode \<open>avac\<close> stays the same. \<open>changes K n s s'\<close> says that a client has only
  written the pages in \<open>K\<close> and pages it has allocated, at most \<open>n\<close> of them.
\<close>

locale page_update = page_alloc ok valid vw psize rd wr alloc left usable
  for ok :: "'s \<Rightarrow> bool" and valid :: "'s \<Rightarrow> u32 \<Rightarrow> bool" and vw :: "'s \<Rightarrow> u32 \<Rightarrow> bytes"
    and psize :: "'s \<Rightarrow> nat" and rd :: "u32 \<Rightarrow> ('s, bytes) op" and wr :: "u32 \<Rightarrow> bytes \<Rightarrow> ('s, unit) op"
    and alloc :: "('s, u32) op" and left :: "'s \<Rightarrow> nat" and usable :: "'s \<Rightarrow> nat" +
  fixes rdw :: "u32 \<Rightarrow> ('s, bytes) op" and avac :: "'s \<Rightarrow> bool"
  assumes rdw_ok: "ok s \<Longrightarrow> valid s k \<Longrightarrow> \<exists>s'. rdw k s = (s', Inr (vw s k)) \<and> same_store s s' \<and> avac s' = avac s"
    and rd_avac: "ok s \<Longrightarrow> rd k s = (s', r) \<Longrightarrow> avac s' = avac s"
    and wr_avac: "wr k d s = (s', u) \<Longrightarrow> avac s' = avac s"
    and alloc_avac: "ok s \<Longrightarrow> alloc s = (s', Inr k) \<Longrightarrow> avac s' = avac s"
begin

definition changes :: "u32 set \<Rightarrow> nat \<Rightarrow> 's \<Rightarrow> 's \<Rightarrow> bool" where
  "changes K n s s' \<longleftrightarrow> ok s' \<and> psize s' = psize s \<and> usable s' = usable s \<and> avac s' = avac s \<and> left s \<le> n + left s'
     \<and> (\<forall>j. valid s j \<longrightarrow> valid s' j \<and> (j \<notin> K \<longrightarrow> vw s' j = vw s j))"

lemma changes_trans: "changes K m s s' \<Longrightarrow> changes L n s' s'' \<Longrightarrow> changes (K \<union> L) (m + n) s s''"
  by (auto simp: changes_def)

lemma changes_mono: "changes K m s s' \<Longrightarrow> m \<le> n \<Longrightarrow> (\<And>j. j \<in> K \<Longrightarrow> valid s j \<Longrightarrow> j \<in> L) \<Longrightarrow> changes L n s s'"
  by (auto simp: changes_def)

lemma same_changes: "same_store s s' \<Longrightarrow> avac s' = avac s \<Longrightarrow> changes {} 0 s s'"
  by (simp add: changes_def same_store_def)

lemma rd_changes:
  assumes "ok s" and "valid s k"
  shows "\<exists>s'. rd k s = (s', Inr (vw s k)) \<and> same_store s s' \<and> changes {} 0 s s'"
  using rd_same [OF assms] rd_avac [OF assms(1)] same_changes by metis

lemma rdw_changes:
  assumes "ok s" and "valid s k"
  shows "\<exists>s'. rdw k s = (s', Inr (vw s k)) \<and> same_store s s' \<and> changes {} 0 s s'"
  using rdw_ok [OF assms] same_changes by metis

lemma wr_changes:
  assumes "ok s" and "valid s k" and "length d = psize s"
  shows "\<exists>s'. wr k d s = (s', Inr ()) \<and> changes {k} 0 s s' \<and> vw s' = (vw s)(k := d) \<and> valid s' = valid s
    \<and> left s' = left s"
proof -
  obtain s' where "wr k d s = (s', Inr ())" "ok s'" "vw s' = (vw s)(k := d)" "valid s' = valid s" "psize s' = psize s"
    using wr_ok [OF assms] by blast
  then show ?thesis using wr_keeps [OF assms(1)] wr_avac by (auto simp: changes_def)
qed

lemma alloc_changes:
  assumes "ok s" and "0 < left s"
  shows "\<exists>s' k. alloc s = (s', Inr k) \<and> changes {} 1 s s' \<and> k \<noteq> 0 \<and> \<not> valid s k \<and> valid s' k"
  using alloc_ok [OF assms] alloc_avac [OF assms(1)] by (fastforce simp: changes_def)

end

lemma journal_page_same: "\<exists>q. journal_page k d p = (q, Inr ()) \<and> same_but_journal p q"
  by (cases p) (auto simp: journal_page_def Let_def same_but_journal_def split: option.splits)

lemma same_but_journal_same_store: "same_but_journal p q \<Longrightarrow> alloc_ok_pager p \<Longrightarrow> pager_alloc.same_store p q"
  using pager_ok_journal [of p q] same_but_journal_view(1) [of p q]
  by (auto simp: pager_alloc.same_store_def alloc_ok_pager_def no_freelist_def in_range_def pages_left_def
      same_but_journal_fields fun_eq_iff)

interpretation pager_update: page_update alloc_ok_pager in_range view p_page_size get_page write_page
  allocate_page pages_left p_usable_size read_page_for_write auto_vacuum
proof
  fix s k
  assume s: "alloc_ok_pager s"
  then have ok: "pager_ok s" by (simp add: alloc_ok_pager_def)
  show avac: "auto_vacuum s' = auto_vacuum s" if "get_page k s = (s', r)" for s' r
    using get_page_view [OF ok, of k] pager_store.rd_invalid [OF ok, of k] that
    by (cases "in_range s k") (auto simp: auto_vacuum_def same_but_cache_fields)
  show "\<exists>s'. read_page_for_write k s = (s', Inr (view s k)) \<and> pager_alloc.same_store s s' \<and> auto_vacuum s' = auto_vacuum s"
    if r: "in_range s k"
  proof -
    obtain s1 where s1: "get_page k s = (s1, Inr (view s k))" "pager_alloc.same_store s s1"
      using pager_alloc.rd_same [OF s r] by blast
    obtain s2 where s2: "journal_page k (view s k) s1 = (s2, Inr ())" "same_but_journal s1 s2"
      using journal_page_same by blast
    have "alloc_ok_pager s1" using s1(2) by (simp add: pager_alloc.same_store_def)
    from same_but_journal_same_store [OF s2(2) this] show ?thesis
      using s1 s2 avac [OF s1(1)] pager_alloc.same_store_trans
      by (auto simp: read_page_for_write_def auto_vacuum_def same_but_journal_fields)
  qed
  show "auto_vacuum s' = auto_vacuum s" if "allocate_page s = (s', Inr n)" for s' n
  proof -
    have "extend_pages s = (s', Inr n)" using allocate_page_extends [of s] s that by (simp add: alloc_ok_pager_def)
    from extend_pages_ok(1) [OF ok this] show ?thesis by (simp add: grown_def auto_vacuum_def)
  qed
next
  show "auto_vacuum s' = auto_vacuum s" if "write_page k d s = (s', u)" for k d s s' u
    using that by (auto simp: write_page_def auto_vacuum_def split: if_splits)
qed

section \<open>The pages of a tree\<close>

fun pages :: "ttree \<Rightarrow> u32 list" where
  "pages (TLeaf k rs) = k # concat (map (\<lambda>x. snd (snd x)) rs)"
| "pages (TNode k kids last_t) = k # concat (map (\<lambda>(t, r). pages t) kids) @ pages last_t"

lemma troot_in_pages [simp]: "troot t \<in> set (pages t)"
  by (cases t) simp_all

lemma kid_pages: "(t, r) \<in> set kids \<Longrightarrow> set (pages t) \<subseteq> set (pages (TNode k kids last_t))"
  by force

lemma cell_at_frame:
  assumes "cell_at p cell x" and "\<And>j. j \<in> set (snd (snd x)) \<Longrightarrow> in_range q j \<and> view q j = view p j"
    and "p_usable_size q = p_usable_size p"
  shows "cell_at q cell x"
  using assms by (cases x) (auto simp: cell_at_def intro: table_cell_cong)

lemma leaf_at_frame:
  assumes "leaf_at p k rs" and "\<And>j. j \<in> set (pages (TLeaf k rs)) \<Longrightarrow> in_range q j \<and> view q j = view p j"
    and "p_usable_size q = p_usable_size p"
  shows "leaf_at q k rs"
proof -
  obtain cells where c: "node_page (view p k) (btree_header_offset k) LeafTable None cells" "list_all2 (cell_at p) cells rs"
    using assms(1) by (auto simp: leaf_at_def)
  have "list_all2 (cell_at q) cells rs"
    by (rule list.rel_mono_strong [OF c(2)]) (use assms(2,3) in \<open>force intro: cell_at_frame\<close>)
  then show ?thesis using c(1) assms(2) by (auto simp: leaf_at_def)
qed

lemma tree_at_frame:
  "tree_at p t \<Longrightarrow> (\<And>j. j \<in> set (pages t) \<Longrightarrow> in_range q j \<and> view q j = view p j) \<Longrightarrow>
   p_usable_size q = p_usable_size p \<Longrightarrow> tree_at q t"
proof (induction t)
  case (TLeaf k rs)
  then show ?case using leaf_at_frame by simp
next
  case (TNode k kids last_t)
  have "tree_at q t" if "(t, r) \<in> set kids" for t r
  proof (rule TNode.IH(1) [OF that])
    show "t \<in> Basic_BNFs.fsts (t, r)" by simp
    show "tree_at p t" using TNode.prems(1) that by auto
  qed (use TNode.prems(2,3) kid_pages [OF that] in blast)+
  moreover have "tree_at q last_t" using TNode by simp
  ultimately show ?case using TNode.prems(1) TNode.prems(2) [of k] by (auto simp: interior_at_def)
qed

lemma leaf_pages_in_range:
  assumes "leaf_at p k rs" and "j \<in> set (pages (TLeaf k rs))"
  shows "in_range p j"
proof -
  obtain cells where c: "in_range p k" "list_all2 (cell_at p) cells rs" using assms(1) by (auto simp: leaf_at_def)
  consider "j = k" | i where "i < length rs" "j \<in> set (snd (snd (rs ! i)))"
    using assms(2) by (fastforce simp: in_set_conv_nth [of _ rs])
  then show ?thesis
  proof cases
    case (2 i)
    then have "cell_at p (cells ! i) (rs ! i)" using list_all2_nthD2 [OF c(2)] by simp
    then show ?thesis using 2(2) by (cases "rs ! i") (simp add: cell_at_def)
  qed (use c(1) in simp)
qed

lemma tree_pages_in_range: "tree_at p t \<Longrightarrow> j \<in> set (pages t) \<Longrightarrow> in_range p j"
proof (induction t)
  case (TLeaf k rs)
  then show ?case using leaf_pages_in_range by (metis tree_at.simps(1))
next
  case (TNode k kids last_t)
  consider "j = k" | t r where "(t, r) \<in> set kids" "j \<in> set (pages t)" | "j \<in> set (pages last_t)"
    using TNode.prems(2) by auto
  then show ?case
  proof cases
    case (2 t r)
    have "tree_at p t" using TNode.prems(1) 2(1) by auto
    then show ?thesis using TNode.IH(1) [OF 2(1), of t] 2(2) by simp
  qed (use TNode.prems(1) TNode.IH(2) in \<open>simp_all add: interior_at_def\<close>)
qed

lemma tree_at_extends: "pager_alloc.extends n p q \<Longrightarrow> tree_at p t \<Longrightarrow> tree_at q t"
  by (rule tree_at_frame) (auto simp: pager_alloc.extends_def dest: tree_pages_in_range)

lemma cell_at_changes:
  assumes "pager_update.changes K n p q" and "cell_at p c x" and "K \<inter> set (snd (snd x)) = {}"
  shows "cell_at q c x"
proof (rule cell_at_frame [OF assms(2)])
  have "\<forall>j \<in> set (snd (snd x)). in_range p j" using assms(2) by (cases x) (simp add: cell_at_def)
  then show "in_range q j \<and> view q j = view p j" if "j \<in> set (snd (snd x))" for j
    using assms(1,3) that by (auto simp: pager_update.changes_def)
qed (use assms(1) in \<open>simp add: pager_update.changes_def\<close>)

lemma tree_at_changes:
  assumes "pager_update.changes K n p q" and "tree_at p t" and "K \<inter> set (pages t) = {}"
  shows "tree_at q t"
  by (rule tree_at_frame [OF assms(2)])
    (use assms(1,3) tree_pages_in_range [OF assms(2)] in \<open>auto simp: pager_update.changes_def\<close>)

section \<open>Inserting a row into a list of rows\<close>

definition insert_row :: "i64 \<times> 'a \<Rightarrow> (i64 \<times> 'a) list \<Rightarrow> (i64 \<times> 'a) list" where
  "insert_row x rs = takeWhile (\<lambda>y. sint (fst y) < sint (fst x)) rs @ x # dropWhile (\<lambda>y. sint (fst y) < sint (fst x)) rs"

lemma insert_row_take:
  "n = length (takeWhile (\<lambda>y. sint (fst y) < sint (fst x)) rs) \<Longrightarrow> insert_row x rs = take n rs @ x # drop n rs"
  by (simp only: insert_row_def takeWhile_eq_take [symmetric] dropWhile_eq_drop [symmetric])

lemma map_leaf_row_insert: "map leaf_row (insert_row x rs) = insert_row (leaf_row x) (map leaf_row rs)"
  by (simp add: insert_row_def takeWhile_map dropWhile_map leaf_row_def comp_def)

lemma set_insert_row: "set (insert_row x rs) = insert x (set rs)"
  by (simp add: insert_row_def) (metis set_append takeWhile_dropWhile_id Un_commute)

lemma insert_row_append_left: "\<forall>y \<in> set as. sint (fst y) < sint (fst x) \<Longrightarrow> insert_row x (as @ bs) = as @ insert_row x bs"
  by (simp add: insert_row_def)

lemma insert_row_append_right: "\<forall>y \<in> set bs. sint (fst x) < sint (fst y) \<Longrightarrow> insert_row x (as @ bs) = insert_row x as @ bs"
  by (induction as; cases bs) (auto simp: insert_row_def)

lemma mset_concat_insert_row: "mset (concat (map f (insert_row x rs))) = mset (concat (map f rs)) + mset (f x)"
  by (induction rs) (auto simp: insert_row_def)

lemma insert_row_sorted:
  assumes "sorted_wrt (\<lambda>x y. sint (fst x) < sint (fst y)) rs" and "fst x \<notin> fst ` set rs"
  shows "sorted_wrt (\<lambda>x y. sint (fst x) < sint (fst y)) (insert_row x rs)"
  using assms
proof (induction rs)
  case (Cons y rs)
  have "sint (fst x) \<noteq> sint (fst y)" using Cons.prems(2) by (auto simp: signed_word_eqI)
  then show ?case using Cons
    by (cases "sint (fst y) < sint (fst x)") (auto simp: insert_row_def set_insert_row [unfolded insert_row_def, simplified] dest: set_takeWhileD set_dropWhileD)
qed (simp add: insert_row_def)

section \<open>Reading the leaf that receives the row\<close>

lemma cell_rowid:
  assumes "cell_at p cell x" and "480 \<le> p_usable_size p" and "sub a (a + length cell) page = cell"
    and "a + length cell \<le> length page"
  shows "table_leaf_cell_rowid page a = Inr (fst x)"
proof -
  obtain n over where l: "local_payload_len (length (fst (snd x))) (p_usable_size p) (table_leaf_max_local (p_usable_size p)) = (n, over)"
    by force
  have "table_cell (view p) (p_usable_size p) cell (fst x) (fst (snd x)) (snd (snd x))"
    using assms(1) by (cases x) (simp add: cell_at_def)
  from parse_table_leaf_cell_ok(2) [OF this assms(2-4) l] show ?thesis .
qed

lemma insert_index_ok:
  assumes "\<And>i. i < length ids \<Longrightarrow> \<exists>off. cell_pointer hdr page (m + i) = Inr off \<and> table_leaf_cell_rowid page off = Inr (ids ! i)"
    and "n_cells hdr = m + length ids"
  shows "insert_index_from [m..<m + length ids] page hdr rowid = Inr (m + length (takeWhile (\<lambda>r. sint r < sint rowid) ids))"
  using assms
proof (induction ids arbitrary: m)
  case (Cons r ids)
  obtain off where off: "cell_pointer hdr page m = Inr off" "table_leaf_cell_rowid page off = Inr r"
    using Cons.prems(1) [of 0] by auto
  have "insert_index_from [Suc m..<Suc m + length ids] page hdr rowid =
      Inr (Suc m + length (takeWhile (\<lambda>r. sint r < sint rowid) ids))"
    using Cons.prems(1) [of "Suc _"] Cons.prems(2) by (intro Cons.IH) auto
  then show ?case using off by (simp add: upt_conv_Cons del: upt_Suc)
qed simp

lemma read_leaf_cells:
  assumes "alloc_ok_pager p" and "leaf_at p k rs"
  obtains q hdr cells where "read_node k p = (q, Inr (view p k, hdr))" "pager_alloc.same_store p q" "auto_vacuum q = auto_vacuum p"
    "page_header_parse (view p k) (btree_header_offset k) = Inr hdr"
    "ph_page_type hdr = LeafTable" "n_cells hdr = length cells" "list_all2 (cell_at p) cells rs" "in_range p k"
    "node_page (view p k) (btree_header_offset k) LeafTable None cells"
    "\<And>i. i < length cells \<Longrightarrow> \<exists>off. cell_pointer hdr (view p k) i = Inr off
       \<and> sub off (off + length (cells ! i)) (view p k) = cells ! i \<and> off + length (cells ! i) \<le> length (view p k)"
proof -
  obtain cells where a: "in_range p k" "node_page (view p k) (btree_header_offset k) LeafTable None cells"
      "list_all2 (cell_at p) cells rs"
    using assms(2) by (auto simp: leaf_at_def)
  obtain q hdr where q: "read_node k p = (q, Inr (view p k, hdr))" "pager_alloc.same_store p q"
      "ph_page_type hdr = LeafTable" "n_cells hdr = length cells"
      "\<And>i. i < length cells \<Longrightarrow> \<exists>off. cell_pointer hdr (view p k) i = Inr off
       \<and> sub off (off + length (cells ! i)) (view p k) = cells ! i \<and> off + length (cells ! i) \<le> length (view p k)"
    using read_node_ok [OF assms(1) a(1,2)] by metis
  obtain q' where q': "get_page k p = (q', Inr (view p k))" using pager_alloc.rd_same [OF assms(1) a(1)] by blast
  have "q' = q" "page_header_parse (view p k) (btree_header_offset k) = Inr hdr"
    using q(1) q' by (auto simp: read_node_def bind_op_def split: sum.splits)
  moreover have "auto_vacuum q' = auto_vacuum p" using pager_update.rd_avac [OF assms(1) q'] .
  ultimately show thesis using that q a by blast
qed

lemma leaf_insert_index_ok:
  assumes "n_cells hdr = length cells" and "list_all2 (cell_at p) cells rs" and "480 \<le> p_usable_size p"
    and "\<And>i. i < length cells \<Longrightarrow> \<exists>off. cell_pointer hdr page i = Inr off
       \<and> sub off (off + length (cells ! i)) page = cells ! i \<and> off + length (cells ! i) \<le> length page"
  shows "leaf_insert_index page hdr rowid = Inr (length (takeWhile (\<lambda>y. sint (fst y) < sint rowid) rs))"
proof -
  have len: "length cells = length rs" using assms(2) by (rule list_all2_lengthD)
  have "\<exists>off. cell_pointer hdr page (0 + i) = Inr off \<and> table_leaf_cell_rowid page off = Inr (map fst rs ! i)"
    if "i < length (map fst rs)" for i
    using assms(4) [of i] cell_rowid [OF list_all2_nthD [OF assms(2), of i] assms(3)] that len by fastforce
  from insert_index_ok [OF this] show ?thesis
    using assms(1) len by (simp add: leaf_insert_index_def takeWhile_map comp_def)
qed

section \<open>Inserting where there is room\<close>

lemma list_all2_insert:
  "list_all2 P cs xs \<Longrightarrow> P c x \<Longrightarrow> list_all2 P (take n cs @ c # drop n cs) (take n xs @ x # drop n xs)"
  by (simp add: list_all2_appendI)

text \<open>The two writing steps at the leaf, with what the code does when the page is full left open.\<close>

lemma leaf_write_room:
  assumes "alloc_ok_pager p" and "leaf_at p k rs" and "cell_at p cell x" and "cell \<noteq> []"
    and "k \<notin> set (snd (snd x))" and "distinct (pages (TLeaf k rs))"
    and "length cell + 2 \<le> leaf_free_space (view p k) (btree_header_offset k)"
  shows "\<exists>q. bind_op (read_page_for_write k) (\<lambda>leaf.
      case insert_leaf_cell leaf (btree_header_offset k) (length (takeWhile (\<lambda>y. sint (fst y) < sint (fst x)) rs)) cell of
        Inr leaf1 \<Rightarrow> write_page k leaf1 | Inl e \<Rightarrow> F e) p = (q, Inr ()) \<and> leaf_at q k (insert_row x rs)
    \<and> pager_update.changes {k} 0 p q"
proof -
  let ?h = "btree_header_offset k" and ?n = "length (takeWhile (\<lambda>y. sint (fst y) < sint (fst x)) rs)"
  obtain cells where c: "in_range p k" "node_page (view p k) ?h LeafTable None cells" "list_all2 (cell_at p) cells rs"
    using assms(2) by (auto simp: leaf_at_def)
  have n: "?n \<le> length cells" using list_all2_lengthD [OF c(3)] length_takeWhile_le by simp
  obtain q1 where q1: "read_page_for_write k p = (q1, Inr (view p k))" "pager_alloc.same_store p q1" "pager_update.changes {} 0 p q1"
    using pager_update.rdw_changes [OF assms(1) c(1)] by blast
  obtain leaf1 where leaf1: "insert_leaf_cell (view p k) ?h ?n cell = Inr leaf1" "length leaf1 = length (view p k)"
      "node_page leaf1 ?h LeafTable None (take ?n cells @ [cell] @ drop ?n cells)"
    using insert_leaf_cell_node [OF c(2) _ n assms(4)] assms(7) by (auto simp: is_leaf_def)
  have q1k: "alloc_ok_pager q1" "in_range q1 k" "length leaf1 = p_page_size q1" "in_range q1 = in_range p"
    using q1(2) c(1) leaf1(2) pager_alloc.length_vw [OF assms(1) c(1)] by (auto simp: pager_alloc.same_store_def)
  obtain q2 where q2: "write_page k leaf1 q1 = (q2, Inr ())" "pager_update.changes {k} 0 q1 q2" "view q2 = (view q1)(k := leaf1)"
      "in_range q2 = in_range q1"
    using pager_update.wr_changes [OF q1k(1-3)] by blast
  have ch: "pager_update.changes {k} 0 p q2" using pager_update.changes_trans [OF q1(3) q2(2)] by simp
  have keep: "cell_at q2 c y" if "cell_at p c y" "k \<notin> set (snd (snd y))" for c y
    using cell_at_changes [OF ch that(1)] that(2) by simp
  have "list_all2 (cell_at q2) cells rs"
    by (rule list.rel_mono_strong [OF c(3)]) (use keep assms(6) in auto)
  then have "list_all2 (cell_at q2) (take ?n cells @ cell # drop ?n cells) (insert_row x rs)"
    using list_all2_insert [of "cell_at q2" cells rs cell x ?n] keep [OF assms(3,5)] insert_row_take [OF refl, of x rs] by simp
  then have "leaf_at q2 k (insert_row x rs)" using leaf1(3) c(1) q2(3,4) q1k(4) by (auto simp: leaf_at_def)
  then show ?thesis using q1(1) leaf1(1) q2(1) ch by auto
qed

lemma insert_leaf_room:
  assumes "alloc_ok_pager p" and "leaf_at p k rs" and "cell_at p cell x" and "cell \<noteq> []"
    and "k \<notin> set (snd (snd x))" and "distinct (pages (TLeaf k rs))"
    and "length cell + 2 \<le> leaf_free_space (view p k) (btree_header_offset k)"
  shows "\<exists>q. insert_with_splitting (Suc d) k (fst x) cell path p = (q, Inr ()) \<and> leaf_at q k (insert_row x rs)
    \<and> pager_update.changes {k} 0 p q"
proof -
  have u: "480 \<le> p_usable_size p" using assms(1) by (simp add: alloc_ok_pager_def)
  obtain q hdr cells where q: "read_node k p = (q, Inr (view p k, hdr))" "pager_alloc.same_store p q" "auto_vacuum q = auto_vacuum p"
      "ph_page_type hdr = LeafTable" "n_cells hdr = length cells" "list_all2 (cell_at p) cells rs"
      "\<And>i. i < length cells \<Longrightarrow> \<exists>off. cell_pointer hdr (view p k) i = Inr off
       \<and> sub off (off + length (cells ! i)) (view p k) = cells ! i \<and> off + length (cells ! i) \<le> length (view p k)"
    using read_leaf_cells [OF assms(1,2)] by metis
  note idx = leaf_insert_index_ok [OF q(5,6) u q(7), of "fst x"]
  have ch: "pager_update.changes {} 0 p q" using q(2,3) by (rule pager_update.same_changes)
  have pq: "alloc_ok_pager q" "leaf_at q k rs" "cell_at q cell x" "view q = view p"
    using q(2) assms(2,3) leaf_at_same [OF q(2)] cell_at_same [OF q(2)] by (simp_all add: pager_alloc.same_store_def)
  obtain q2 where q2: "bind_op (read_page_for_write k) (\<lambda>leaf.
      case insert_leaf_cell leaf (btree_header_offset k) (length (takeWhile (\<lambda>y. sint (fst y) < sint (fst x)) rs)) cell of
        Inr leaf1 \<Rightarrow> write_page k leaf1
      | Inl e \<Rightarrow> if is_page_full e
          then (case path of [] \<Rightarrow> balance_leaf d k None [] (fst x) cell
                | parent # rest \<Rightarrow> balance_leaf d k (Some parent) rest (fst x) cell)
          else fail_op e) q = (q2, Inr ())" "leaf_at q2 k (insert_row x rs)" "pager_update.changes {k} 0 q q2"
    using leaf_write_room [OF pq(1-3) assms(4-6)] assms(7) pq(4) by metis
  have "insert_with_splitting (Suc d) k (fst x) cell path p = (q2, Inr ())" using q(1,4) idx q2(1) by simp
  then show ?thesis using q2(2) pager_update.changes_trans [OF ch q2(3)] by auto
qed

section \<open>Inserting at any depth\<close>

text \<open>The page of the leaf that owns a rowid.\<close>

fun leaf_for :: "i64 \<Rightarrow> ttree \<Rightarrow> u32" where
  "leaf_for r (TLeaf k rs) = k"
| "leaf_for r (TNode k kids last_t) = child_for r (map (\<lambda>(t, d). (leaf_for r t, d)) kids) (leaf_for r last_t)"

lemma child_for_map: "child_for r (map (\<lambda>(t, d). (f t, d)) kids) (f last_t) = f (child_for r kids last_t)"
  by (induction r kids last_t rule: child_for.induct) auto

lemma leaf_for_child [simp]: "leaf_for r (TNode k kids last_t) = leaf_for r (child_for r kids last_t)"
  by (simp add: child_for_map [of r "leaf_for r"])

declare leaf_for.simps(2) [simp del]

lemma child_for_split:
  obtains a b d where "kids = a @ (child_for r kids last_t, d) # b" "sint r \<le> sint d" "\<forall>(t, d') \<in> set a. sint d' < sint r"
  | "child_for r kids last_t = last_t" "\<forall>(t, d') \<in> set kids. sint d' < sint r"
proof (induction kids arbitrary: thesis)
  case (Cons kid kids)
  obtain t d where kid: "kid = (t, d)" by force
  show ?case
  proof (cases "sint r \<le> sint d")
    case True
    then show ?thesis using Cons.prems(1) [of "[]" d kids] kid by simp
  next
    case False
    show ?thesis
    proof (rule Cons.IH)
      fix a b d'
      assume "kids = a @ (child_for r kids last_t, d') # b" "sint r \<le> sint d'" "\<forall>(t, d') \<in> set a. sint d' < sint r"
      then show ?thesis using Cons.prems(1) [of "kid # a" d' b] kid False by simp
    next
      assume "child_for r kids last_t = last_t" "\<forall>(t, d') \<in> set kids. sint d' < sint r"
      then show ?thesis using Cons.prems(2) kid False by simp
    qed
  qed
qed simp

lemma leaf_for_in_pages: "leaf_for r t \<in> set (pages t)"
proof (induction "weight t" arbitrary: t rule: less_induct)
  case less
  show ?case
  proof (cases t)
    case (TNode k kids last_t)
    consider "child_for r kids last_t = last_t" | d where "(child_for r kids last_t, d) \<in> set kids"
      using child_for_mem [of r kids last_t] by auto
    then show ?thesis
    proof cases
      case 1
      then show ?thesis using less [of last_t] TNode by simp
    next
      case (2 d)
      then have "weight (child_for r kids last_t) < weight t" using weight_kid [OF 2] TNode by simp
      then show ?thesis using subsetD [OF kid_pages [OF 2, of k last_t] less] TNode by simp
    qed
  qed simp
qed

lemma search_tree_append:
  "search_tree (TNode k (a @ (c, d) # b) last_t) \<longleftrightarrow>
     (\<forall>(t, r) \<in> set (a @ b). search_tree t \<and> (\<forall>y \<in> set (rows t). sint (fst y) \<le> sint r)) \<and> search_tree last_t
     \<and> search_tree c \<and> (\<forall>y \<in> set (rows c). sint (fst y) \<le> sint d)
     \<and> sorted_wrt (\<lambda>(t, r) (t', r'). \<forall>y \<in> set (rows t'). sint r < sint (fst y)) (a @ b)
     \<and> (\<forall>(t, r) \<in> set a. \<forall>y \<in> set (rows c). sint r < sint (fst y))
     \<and> (\<forall>(t, r) \<in> set b. \<forall>y \<in> set (rows t). sint d < sint (fst y))
     \<and> (\<forall>(t, r) \<in> set (a @ b). \<forall>y \<in> set (rows last_t). sint r < sint (fst y))
     \<and> (\<forall>y \<in> set (rows last_t). sint d < sint (fst y))"
  by (simp add: sorted_wrt_append case_prod_beta) blast

text \<open>Replacing the child that owns the row by one with the row inserted.\<close>

lemma replace_kid:
  assumes "search_tree (TNode k (a @ (c, d) # b) last_t)" and "search_tree c'" and "rows c' = insert_row x (rows c)"
    and "sint (fst x) \<le> sint d" and "\<forall>(t, d') \<in> set a. sint d' < sint (fst x)"
  shows "search_tree (TNode k (a @ (c', d) # b) last_t)"
    "rows (TNode k (a @ (c', d) # b) last_t) = insert_row x (rows (TNode k (a @ (c, d) # b) last_t))"
proof -
  have st: "\<forall>(t, r) \<in> set a. \<forall>y \<in> set (rows t). sint (fst y) \<le> sint r"
      "\<forall>(t, r) \<in> set b. \<forall>y \<in> set (rows t). sint d < sint (fst y)" "\<forall>y \<in> set (rows last_t). sint d < sint (fst y)"
    using assms(1) unfolding search_tree_append by auto
  show "search_tree (TNode k (a @ (c', d) # b) last_t)"
    using assms unfolding search_tree_append by (simp add: set_insert_row case_prod_beta)
  have lo: "sint (fst y) < sint (fst x)" if y: "y \<in> set (concat (map (\<lambda>(t, r). rows t) a))" for y
  proof -
    obtain t r where "(t, r) \<in> set a" "y \<in> set (rows t)" using y by auto
    then show ?thesis using st(1) assms(5) by fastforce
  qed
  have hi: "sint (fst x) < sint (fst y)" if "y \<in> set (concat (map (\<lambda>(t, r). rows t) b) @ rows last_t)" for y
  proof -
    have "sint d < sint (fst y)" using that st(2,3) by auto
    then show ?thesis using assms(4) by simp
  qed
  show "rows (TNode k (a @ (c', d) # b) last_t) = insert_row x (rows (TNode k (a @ (c, d) # b) last_t))"
    using insert_row_append_left [of "concat (map (\<lambda>(t, r). rows t) a)" x] lo
      insert_row_append_right [of "concat (map (\<lambda>(t, r). rows t) b) @ rows last_t" x "rows c"] hi assms(3) by simp
qed

lemma replace_last:
  assumes "search_tree (TNode k kids last_t)" and "search_tree c'" and "rows c' = insert_row x (rows last_t)"
    and "\<forall>(t, d') \<in> set kids. sint d' < sint (fst x)"
  shows "search_tree (TNode k kids c')" "rows (TNode k kids c') = insert_row x (rows (TNode k kids last_t))"
proof -
  have st: "\<forall>(t, r) \<in> set kids. \<forall>y \<in> set (rows t). sint (fst y) \<le> sint r" using assms(1) by auto
  show "search_tree (TNode k kids c')"
    using assms by (simp add: set_insert_row case_prod_beta)
  have lo: "sint (fst y) < sint (fst x)" if y: "y \<in> set (concat (map (\<lambda>(t, r). rows t) kids))" for y
  proof -
    obtain t r where "(t, r) \<in> set kids" "y \<in> set (rows t)" using y by auto
    then show ?thesis using st assms(4) by fastforce
  qed
  show "rows (TNode k kids c') = insert_row x (rows (TNode k kids last_t))"
    using insert_row_append_left [of "concat (map (\<lambda>(t, r). rows t) kids)" x] lo assms(3) by simp
qed

lemma child_for_sub:
  assumes "distinct (pages (TNode k kids last_t))"
  shows "set (pages (child_for r kids last_t)) \<subseteq> set (pages (TNode k kids last_t))"
    "set (rows (child_for r kids last_t)) \<subseteq> set (rows (TNode k kids last_t))" "distinct (pages (child_for r kids last_t))"
proof -
  let ?c = "child_for r kids last_t"
  consider "?c = last_t" | d where "(?c, d) \<in> set kids" using child_for_mem [of r kids last_t] by auto
  then have "set (pages ?c) \<subseteq> set (pages (TNode k kids last_t)) \<and> set (rows ?c) \<subseteq> set (rows (TNode k kids last_t)) \<and> distinct (pages ?c)"
  proof cases
    case (2 d)
    then have "set (rows ?c) \<subseteq> set (rows (TNode k kids last_t))" by force
    moreover have "distinct (pages ?c)"
      using assms 2 by (auto simp: distinct_concat_iff dest: in_set_conv_decomp [THEN iffD1])
    ultimately show ?thesis using kid_pages [OF 2] by blast
  qed (use assms in auto)
  then show "set (pages ?c) \<subseteq> set (pages (TNode k kids last_t))" "set (rows ?c) \<subseteq> set (rows (TNode k kids last_t))"
    "distinct (pages ?c)" by blast+
qed

text \<open>What inserting the row \<open>x\<close> into the tree \<open>t\<close> gives: a tree with the same root and the row in its place.\<close>

definition inserted :: "i64 \<times> bytes \<times> u32 list \<Rightarrow> ttree \<Rightarrow> ttree \<Rightarrow> bool" where
  "inserted x t t' \<longleftrightarrow> troot t' = troot t \<and> search_tree t' \<and> rows t' = insert_row (leaf_row x) (rows t)
     \<and> mset (pages t') = mset (pages t) + mset (snd (snd x))"

lemma kids_pages_disjoint:
  assumes "distinct (pages (TNode k (a @ (c, d) # b) last_t))" and "t \<in> fst ` set a \<union> fst ` set b \<union> {last_t}"
  shows "set (pages t) \<inter> set (pages c) = {}"
proof -
  let ?P = "\<lambda>kids. concat (map (\<lambda>(t, r). pages t) kids)"
  have "distinct (?P a @ pages c @ ?P b @ pages last_t)" using assms(1) by simp
  then have d: "set (?P a) \<inter> set (pages c) = {}" "set (?P b) \<inter> set (pages c) = {}" "set (pages last_t) \<inter> set (pages c) = {}"
    unfolding distinct_append set_append by blast+
  consider r where "(t, r) \<in> set a" | r where "(t, r) \<in> set b" | "t = last_t" using assms(2) by auto
  then show ?thesis
  proof cases
    case 1
    then have "set (pages t) \<subseteq> set (?P a)" by auto
    then show ?thesis using d(1) by blast
  next
    case 2
    then have "set (pages t) \<subseteq> set (?P b)" by auto
    then show ?thesis using d(2) by blast
  qed (use d(3) in simp)
qed

lemma kids_last_disjoint:
  assumes "distinct (pages (TNode k kids last_t))" and "(t, r) \<in> set kids"
  shows "set (pages t) \<inter> set (pages last_t) = {}"
proof -
  have "set (pages t) \<subseteq> set (concat (map (\<lambda>(t, r). pages t) kids))" using assms(2) by auto
  then show ?thesis using assms(1) by auto
qed

lemma inserted_child:
  assumes "search_tree (TNode k kids last_t)" and "distinct (pages (TNode k kids last_t))"
    and "inserted x (child_for (fst x) kids last_t) c'"
  obtains kids' last_t' where "inserted x (TNode k kids last_t) (TNode k kids' last_t')"
    "map (\<lambda>(t, r). (troot t, r)) kids' = map (\<lambda>(t, r). (troot t, r)) kids" "troot last_t' = troot last_t"
    "\<forall>t \<in> fst ` set kids' \<union> {last_t'}. t = c' \<or> (t \<in> fst ` set kids \<union> {last_t}
       \<and> set (pages t) \<inter> set (pages (child_for (fst x) kids last_t)) = {})"
proof (rule child_for_split [of kids "fst x" last_t])
  let ?c = "child_for (fst x) kids last_t"
  have x: "fst (leaf_row x) = fst x" by (simp add: leaf_row_def)
  note c' = assms(3) [unfolded inserted_def]
  fix a b d
  assume split: "kids = a @ (?c, d) # b" "sint (fst x) \<le> sint d" "\<forall>(t, d') \<in> set a. sint d' < sint (fst x)"
  define c where "c = ?c"
  have k: "kids = a @ (c, d) # b" using split(1) unfolding c_def .
  have t: "troot c' = troot c" "mset (pages c') = mset (pages c) + mset (snd (snd x))" "search_tree c'"
      "rows c' = insert_row (leaf_row x) (rows c)"
    using assms(3) by (simp_all add: inserted_def c_def)
  have le: "sint (fst (leaf_row x)) \<le> sint d" "\<forall>(t, d') \<in> set a. sint d' < sint (fst (leaf_row x))"
    using split(2,3) x by simp_all
  note r = replace_kid [OF assms(1) [unfolded k] t(3,4) le]
  have ins: "inserted x (TNode k kids last_t) (TNode k (a @ (c', d) # b) last_t)"
    unfolding inserted_def k by (intro conjI r) (simp_all add: t(2))
  have dis: "t = c' \<or> (t \<in> fst ` set kids \<union> {last_t} \<and> set (pages t) \<inter> set (pages c) = {})"
    if h: "t \<in> fst ` set (a @ (c', d) # b) \<union> {last_t}" for t
  proof (cases "t = c'")
    case False
    then have "t \<in> fst ` set a \<union> fst ` set b \<union> {last_t}" using h by auto
    then show ?thesis using kids_pages_disjoint [OF assms(2) [unfolded k]] k by auto
  qed simp
  have mp: "map (\<lambda>(t, r). (troot t, r)) (a @ (c', d) # b) = map (\<lambda>(t, r). (troot t, r)) kids" using t(1) by (simp add: k)
  show thesis by (rule that [OF ins mp refl]) (use dis c_def in blast)
next
  let ?c = "child_for (fst x) kids last_t"
  have x: "fst (leaf_row x) = fst x" by (simp add: leaf_row_def)
  assume split: "?c = last_t" "\<forall>(t, d') \<in> set kids. sint d' < sint (fst x)"
  note c' = assms(3) [unfolded inserted_def split(1)]
  have ins: "inserted x (TNode k kids last_t) (TNode k kids c')"
    using replace_last [OF assms(1), of c' "leaf_row x", unfolded x] c' split(2) unfolding inserted_def by simp
  have dis: "t = c' \<or> (t \<in> fst ` set kids \<union> {last_t} \<and> set (pages t) \<inter> set (pages last_t) = {})"
    if h: "t \<in> fst ` set kids \<union> {c'}" for t
  proof (cases "t = c'")
    case False
    then obtain r where "(t, r) \<in> set kids" using h by auto
    from kids_last_disjoint [OF assms(2) this] show ?thesis using h False by simp
  qed simp
  have tr: "troot c' = troot last_t" using c' by simp
  show thesis by (rule that [OF ins refl tr]) (use dis split(1) in auto)
qed

lemma insert_pick_child_ok:
  assumes "\<And>i. i < length kids \<Longrightarrow> \<exists>off. cell_pointer hdr page (m + i) = Inr off
       \<and> parse_table_interior_cell page off = Inr \<lparr>ti_left_child = troot (fst (kids ! i)), ti_rowid = snd (kids ! i)\<rparr>"
    and "ph_right_most_pointer hdr = Some (troot last_t)"
  shows "pick_child_in [m..<m + length kids] page hdr r = Inr (troot (child_for r kids last_t))"
  using assms
proof (induction kids arbitrary: m)
  case (Cons kid kids)
  obtain t d where k: "kid = (t, d)" by force
  obtain off where off: "cell_pointer hdr page m = Inr off"
      "parse_table_interior_cell page off = Inr \<lparr>ti_left_child = troot t, ti_rowid = d\<rparr>"
    using Cons.prems(1) [of 0] k by auto
  have "pick_child_in [Suc m..<Suc m + length kids] page hdr r = Inr (troot (child_for r kids last_t))"
    using Cons.prems(1) [of "Suc _"] Cons.prems(2) by (intro Cons.IH) auto
  then show ?case using off k by (simp add: upt_conv_Cons del: upt_Suc)
qed simp

text \<open>One step of the descent.\<close>

lemma descend_step:
  assumes "alloc_ok_pager p" and "tree_at p (TNode k kids last_t)"
  obtains q hdr where "read_node k p = (q, Inr (view p k, hdr))" "pager_alloc.same_store p q" "auto_vacuum q = auto_vacuum p"
    "ph_page_type hdr = InteriorTable" "pick_child (view p k) hdr r = Inr (troot (child_for r kids last_t))"
proof -
  let ?kids = "map (\<lambda>(t, r). (troot t, r)) kids"
  have at: "interior_at p k ?kids (troot last_t)" using assms(2) by simp
  obtain q hdr where q: "read_node k p = (q, Inr (view p k, hdr))" "pager_alloc.same_store p q"
      "ph_page_type hdr = InteriorTable" "ph_right_most_pointer hdr = Some (troot last_t)" "n_cells hdr = length ?kids"
      and c: "\<And>i. i < length ?kids \<Longrightarrow> \<exists>off. cell_pointer hdr (view p k) i = Inr off
       \<and> parse_table_interior_cell (view p k) off = Inr \<lparr>ti_left_child = fst (?kids ! i), ti_rowid = snd (?kids ! i)\<rparr>"
    using read_interior_ok [OF assms(1) at] by metis
  have "\<exists>off. cell_pointer hdr (view p k) (0 + i) = Inr off
       \<and> parse_table_interior_cell (view p k) off = Inr \<lparr>ti_left_child = troot (fst (kids ! i)), ti_rowid = snd (kids ! i)\<rparr>"
    if "i < length kids" for i
    using c [of i] that by (simp add: case_prod_beta)
  from insert_pick_child_ok [OF this q(4)]
  have "pick_child (view p k) hdr r = Inr (troot (child_for r kids last_t))" using q(5) by (simp add: pick_child_def)
  moreover have "auto_vacuum q = auto_vacuum p"
  proof -
    have "in_range p k" using at by (simp add: interior_at_def)
    then obtain q' where q': "get_page k p = (q', Inr (view p k))" using pager_alloc.rd_same [OF assms(1)] by blast
    then have "q' = q" using q(1) by (auto simp: read_node_def bind_op_def split: sum.splits)
    then show ?thesis using pager_update.rd_avac [OF assms(1) q'] by simp
  qed
  ultimately show thesis using that q by blast
qed

text \<open>Only the page \<open>k\<close> and newly allocated pages were written.\<close>

definition wrote :: "u32 \<Rightarrow> pager \<Rightarrow> pager \<Rightarrow> bool" where
  "wrote k p q \<longleftrightarrow> alloc_ok_pager q \<and> p_usable_size q = p_usable_size p
     \<and> (\<forall>j. in_range p j \<longrightarrow> in_range q j \<and> (j \<noteq> k \<longrightarrow> view q j = view p j))"

lemma changes_wrote: "pager_update.changes {k} n p q \<Longrightarrow> wrote k p q"
  by (simp add: wrote_def pager_update.changes_def)

lemma same_wrote: "pager_alloc.same_store p q \<Longrightarrow> wrote k q r \<Longrightarrow> wrote k p r"
  by (simp add: wrote_def pager_alloc.same_store_def)

lemma tree_at_wrote: "wrote k p q \<Longrightarrow> tree_at p t \<Longrightarrow> k \<notin> set (pages t) \<Longrightarrow> tree_at q t"
  by (rule tree_at_frame) (auto simp: wrote_def dest: tree_pages_in_range)

lemma inserted_tree_at:
  assumes "tree_at p (TNode k kids last_t)" and "distinct (pages (TNode k kids last_t))"
    and "wrote j p q" and "j \<in> set (pages (child_for r kids last_t))" and "tree_at q c'"
    and "map (\<lambda>(t, r). (troot t, r)) kids' = map (\<lambda>(t, r). (troot t, r)) kids" and "troot last_t' = troot last_t"
    and "\<forall>t \<in> fst ` set kids' \<union> {last_t'}. t = c' \<or> (t \<in> fst ` set kids \<union> {last_t}
       \<and> set (pages t) \<inter> set (pages (child_for r kids last_t)) = {})"
  shows "tree_at q (TNode k kids' last_t')"
proof -
  have kid: "tree_at q t" if "t \<in> fst ` set kids' \<union> {last_t'}" for t
  proof (cases "t = c'")
    case False
    then have t: "t \<in> fst ` set kids \<union> {last_t}" "j \<notin> set (pages t)" using assms(4,8) that by auto
    have "tree_at p t" using t(1) assms(1) by auto
    then show ?thesis using tree_at_wrote [OF assms(3)] t(2) by simp
  qed (use assms(5) in simp)
  have "j \<noteq> k"
    using assms(2,4) child_for_mem [of r kids last_t] by auto
  then have "view q k = view p k" "in_range q k"
    using assms(1,3) by (auto simp: wrote_def interior_at_def)
  then have "interior_at q k (map (\<lambda>(t, r). (troot t, r)) kids') (troot last_t')"
    using assms(1) unfolding assms(6,7) by (simp add: interior_at_def)
  moreover have "\<forall>(t, r) \<in> set kids'. tree_at q t" by (auto intro!: kid intro: rev_image_eqI)
  moreover have "tree_at q last_t'" using kid by simp
  ultimately show ?thesis by simp
qed

text \<open>In an auto-vacuum database the cell is built at the leaf.\<close>

lemma insert_leaf_room_autovac:
  assumes "alloc_ok_pager p" and "leaf_at p k rs" and "length payload < 2 ^ 64" and "pages_for p (length payload) \<le> pages_left p"
    and "distinct (pages (TLeaf k rs))"
    and "cell_len (p_usable_size p) rowid (length payload) + 2 \<le> leaf_free_space (view p k) (btree_header_offset k)"
  shows "\<exists>q ks. insert_with_splitting_autovac (Suc d) k rowid payload path p = (q, Inr ())
    \<and> leaf_at q k (insert_row (rowid, payload, ks) rs) \<and> distinct ks \<and> (\<forall>j \<in> set ks. in_range q j \<and> \<not> in_range p j)
    \<and> wrote k p q"
proof -
  have u: "480 \<le> p_usable_size p" using assms(1) by (simp add: alloc_ok_pager_def)
  obtain q hdr cells where q: "read_node k p = (q, Inr (view p k, hdr))" "pager_alloc.same_store p q" "in_range p k"
      "ph_page_type hdr = LeafTable" "n_cells hdr = length cells" "list_all2 (cell_at p) cells rs"
      "\<And>i. i < length cells \<Longrightarrow> \<exists>off. cell_pointer hdr (view p k) i = Inr off
       \<and> sub off (off + length (cells ! i)) (view p k) = cells ! i \<and> off + length (cells ! i) \<le> length (view p k)"
    using read_leaf_cells [OF assms(1,2)] by metis
  note idx = leaf_insert_index_ok [OF q(5,6) u q(7), of rowid]
  have pq: "alloc_ok_pager q" "leaf_at q k rs" "view q = view p" "p_usable_size q = p_usable_size p" "in_range q = in_range p"
      "pages_left q = pages_left p"
    using q(2) assms(2) leaf_at_same [OF q(2)] by (simp_all add: pager_alloc.same_store_def)
  have room: "pages_for q (length payload) \<le> pages_left q" using assms(4) pq(4,6) by (simp add: pages_for_def)
  obtain q1 cell ks where q1: "build_table_leaf_cell rowid payload (p_usable_size q) q = (q1, Inr cell)"
      "table_cell (view q1) (p_usable_size q) cell rowid payload ks" "pager_alloc.extends (pages_for q (length payload)) q q1"
      "distinct ks" "\<forall>j \<in> set ks. in_range q1 j \<and> \<not> in_range q j"
    using build_table_leaf_cell_ok [OF pq(1) assms(3) room] by blast
  note e = q1(3) [unfolded pager_alloc.extends_def]
  have l1: "leaf_at q1 k rs" using tree_at_extends [OF q1(3), of "TLeaf k rs"] pq(2) by simp
  have c1: "cell_at q1 cell (rowid, payload, ks)" using q1(2,5) e by (simp add: cell_at_def)
  have k: "k \<notin> set (snd (snd (rowid, payload, ks)))" using q1(5) q(3) pq(5) by auto
  have len: "length cell = cell_len (p_usable_size p) rowid (length payload)" "cell \<noteq> []"
    using table_cell_length [OF q1(2)] u pq(4) by simp_all
  have v: "view q1 k = view p k" using e q(3) pq(3,5) by simp
  have rm: "length cell + 2 \<le> leaf_free_space (view q1 k) (btree_header_offset k)" using assms(6) len(1) v by simp
  obtain q2 where q2: "bind_op (read_page_for_write k) (\<lambda>leaf.
      case insert_leaf_cell leaf (btree_header_offset k) (length (takeWhile (\<lambda>y. sint (fst y) < sint (fst (rowid, payload, ks))) rs)) cell of
        Inr leaf1 \<Rightarrow> write_page k leaf1
      | Inl e \<Rightarrow> if is_page_full e
          then (case path of [] \<Rightarrow> balance_leaf d k None [] rowid cell
                | parent # rest \<Rightarrow> balance_leaf d k (Some parent) rest rowid cell)
          else fail_op e) q1 = (q2, Inr ())" "leaf_at q2 k (insert_row (rowid, payload, ks) rs)" "pager_update.changes {k} 0 q1 q2"
    using leaf_write_room [OF _ l1 c1 len(2) k assms(5) rm] e by metis
  have "insert_with_splitting_autovac (Suc d) k rowid payload path p = (q2, Inr ())"
    using q(1,4) idx q1(1) q2(1) by (simp add: build_with_host)
  moreover have "wrote k p q2" using q2(3) e pq(3-5) by (auto simp: pager_update.changes_def wrote_def)
  moreover have "\<forall>j \<in> set ks. in_range q2 j \<and> \<not> in_range p j" using q1(5) q2(3) pq(5) by (auto simp: pager_update.changes_def)
  ultimately show ?thesis using q2(2) q1(4) by blast
qed

section \<open>The descent as an interface\<close>

text \<open>
  The two insertion functions differ in when they build the cell. What the descent needs of them: at
  an interior page they go on with the picked child, at a leaf where the row is \<open>ready\<close> to be
  written they insert it. \<open>K\<close> stands for the pages of the whole tree, which the overflow pages of the
  new row avoid.
\<close>

locale leaf_inserter =
  fixes ins :: "nat \<Rightarrow> u32 \<Rightarrow> (u32 \<times> nat) list \<Rightarrow> (pager, unit) op" and rowid :: i64 and payload :: bytes
    and ready :: "pager \<Rightarrow> u32 set \<Rightarrow> u32 \<Rightarrow> bool"
  assumes interior: "read_node k p = (q, Inr (page, hdr)) \<Longrightarrow> ph_page_type hdr = InteriorTable \<Longrightarrow>
      pick_child page hdr rowid = Inr c \<Longrightarrow> ins (Suc d) k path p = ins d c ((k, btree_header_offset k) # path) q"
    and ready_same: "ready p K k \<Longrightarrow> pager_alloc.same_store p q \<Longrightarrow> ready q K k"
    and leaf: "alloc_ok_pager p \<Longrightarrow> leaf_at p k rs \<Longrightarrow> distinct (pages (TLeaf k rs)) \<Longrightarrow> ready p K k \<Longrightarrow>
      k \<in> K \<Longrightarrow> (\<forall>j \<in> K. in_range p j) \<Longrightarrow>
      \<exists>q ks. ins (Suc d) k path p = (q, Inr ()) \<and> leaf_at q k (insert_row (rowid, payload, ks) rs)
        \<and> wrote k p q \<and> distinct ks \<and> set ks \<inter> K = {}"
begin

lemma descent_inserts:
  "tree_at p t \<Longrightarrow> search_tree t \<Longrightarrow> distinct (pages t) \<Longrightarrow> alloc_ok_pager p \<Longrightarrow> weight t \<le> d \<Longrightarrow>
   set (pages t) \<subseteq> K \<Longrightarrow> (\<forall>j \<in> K. in_range p j) \<Longrightarrow> rowid \<notin> fst ` set (rows t) \<Longrightarrow> ready p K (leaf_for rowid t) \<Longrightarrow>
   \<exists>q t' ks. ins d (troot t) path p = (q, Inr ()) \<and> tree_at q t' \<and> inserted (rowid, payload, ks) t t'
     \<and> wrote (leaf_for rowid t) p q \<and> distinct ks \<and> set ks \<inter> K = {}"
proof (induction d arbitrary: t p path)
  case 0
  show ?case using "0.prems"(5) weight_pos [of t] by simp
next
  case (Suc d)
  show ?case
  proof (cases t)
    case (TLeaf k rs)
    have rs: "leaf_at p k rs" "distinct (pages (TLeaf k rs))" "ready p K k" "k \<in> K"
      using Suc.prems(1,3,6,9) unfolding TLeaf by simp_all
    obtain q ks where q: "ins (Suc d) k path p = (q, Inr ())" "leaf_at q k (insert_row (rowid, payload, ks) rs)" "wrote k p q"
        "distinct ks" "set ks \<inter> K = {}"
      using leaf [OF Suc.prems(4) rs Suc.prems(7)] by blast
    have "rowid \<notin> fst ` set rs" using Suc.prems(8) unfolding TLeaf by (simp add: image_image leaf_row_def)
    then have "sorted_wrt (\<lambda>x y. sint (fst x) < sint (fst y)) (insert_row (rowid, payload, ks) rs)"
      using insert_row_sorted [of rs "(rowid, payload, ks)"] Suc.prems(2) unfolding TLeaf by simp
    then have "inserted (rowid, payload, ks) t (TLeaf k (insert_row (rowid, payload, ks) rs))"
      using TLeaf by (simp add: inserted_def map_leaf_row_insert mset_concat_insert_row)
    then show ?thesis using q TLeaf
      by (intro exI [of _ q] exI [of _ "TLeaf k (insert_row (rowid, payload, ks) rs)"] exI [of _ ks]) simp
  next
    case (TNode k kids last_t)
    let ?c = "child_for rowid kids last_t"
    note t = Suc.prems(1-3) [unfolded TNode]
    obtain p1 hdr where p1: "read_node k p = (p1, Inr (view p k, hdr))" "pager_alloc.same_store p p1" "auto_vacuum p1 = auto_vacuum p"
        "ph_page_type hdr = InteriorTable" "pick_child (view p k) hdr rowid = Inr (troot ?c)"
      by (rule descend_step [OF Suc.prems(4) t(1), of rowid])
    note c = child_for_at(1,2) [OF t(1,2), of rowid]
    have w: "weight ?c \<le> d" using child_for_at(3) [OF t(1,2), of rowid] Suc.prems(5) unfolding TNode by linarith
    note sub = child_for_sub [OF t(3), of rowid, folded TNode]
    have v: "alloc_ok_pager p1" "in_range p1 = in_range p" using p1(2) by (auto simp: pager_alloc.same_store_def)
    have lf: "leaf_for rowid t = leaf_for rowid ?c" using TNode by simp
    have fresh: "rowid \<notin> fst ` set (rows ?c)" using Suc.prems(8) image_mono [OF sub(2), of fst] by blast
    have K: "set (pages ?c) \<subseteq> K" "\<forall>j \<in> K. in_range p1 j" using Suc.prems(6,7) sub(1) v(2) by auto
    have at1: "tree_at p1 ?c" "ready p1 K (leaf_for rowid ?c)"
      using tree_at_same [OF p1(2)] c(1) ready_same [OF Suc.prems(9) p1(2)] lf by simp_all
    obtain q c' ks where q: "ins d (troot ?c) ((k, btree_header_offset k) # path) p1 = (q, Inr ())" "tree_at q c'"
        "inserted (rowid, payload, ks) ?c c'" "wrote (leaf_for rowid ?c) p1 q" "distinct ks" "set ks \<inter> K = {}"
      using Suc.IH [OF at1(1) c(2) sub(3) v(1) w K fresh at1(2)] by blast
    have q3: "inserted (rowid, payload, ks) (child_for (fst (rowid, payload, ks)) kids last_t) c'" using q(3) by simp
    obtain kids' last_t' where k': "inserted (rowid, payload, ks) (TNode k kids last_t) (TNode k kids' last_t')"
        "map (\<lambda>(t, r). (troot t, r)) kids' = map (\<lambda>(t, r). (troot t, r)) kids" "troot last_t' = troot last_t"
        "\<forall>t \<in> fst ` set kids' \<union> {last_t'}. t = c' \<or> (t \<in> fst ` set kids \<union> {last_t}
           \<and> set (pages t) \<inter> set (pages (child_for (fst (rowid, payload, ks)) kids last_t)) = {})"
      by (rule inserted_child [OF t(2,3) q3])
    have wr: "wrote (leaf_for rowid ?c) p q" using same_wrote [OF p1(2) q(4)] .
    have "tree_at q (TNode k kids' last_t')"
      using inserted_tree_at [OF t(1,3) wr leaf_for_in_pages q(2) k'(2,3)] k'(4) by simp
    moreover have "ins (Suc d) (troot t) path p = (q, Inr ())"
      using interior [OF p1(1,4,5), of d path] q(1) TNode by simp
    ultimately show ?thesis using k'(1) wr q(5,6) lf TNode
      by (intro exI [of _ q] exI [of _ "TNode k kids' last_t'"] exI [of _ ks]) simp
  qed
qed

end

text \<open>Without auto-vacuum the cell is built before the descent.\<close>

definition cell_ready :: "bytes \<Rightarrow> i64 \<Rightarrow> bytes \<Rightarrow> u32 list \<Rightarrow> pager \<Rightarrow> u32 set \<Rightarrow> u32 \<Rightarrow> bool" where
  "cell_ready cell rowid payload ks p K k \<longleftrightarrow> cell_at p cell (rowid, payload, ks) \<and> cell \<noteq> [] \<and> distinct ks \<and> set ks \<inter> K = {}
     \<and> length cell + 2 \<le> leaf_free_space (view p k) (btree_header_offset k)"

definition payload_ready :: "i64 \<Rightarrow> bytes \<Rightarrow> pager \<Rightarrow> u32 set \<Rightarrow> u32 \<Rightarrow> bool" where
  "payload_ready rowid payload p K k \<longleftrightarrow> length payload < 2 ^ 64 \<and> pages_for p (length payload) \<le> pages_left p
     \<and> cell_len (p_usable_size p) rowid (length payload) + 2 \<le> leaf_free_space (view p k) (btree_header_offset k)"

interpretation plain_insert: leaf_inserter "\<lambda>d k path. insert_with_splitting d k rowid cell path" rowid payload
  "cell_ready cell rowid payload ks" for rowid cell payload ks
proof
  show "insert_with_splitting (Suc d) k rowid cell path p = insert_with_splitting d c rowid cell ((k, btree_header_offset k) # path) q"
    if "read_node k p = (q, Inr (page, hdr))" "ph_page_type hdr = InteriorTable" "pick_child page hdr rowid = Inr c" for k p q page hdr c d path
    using that by simp
  show "cell_ready cell rowid payload ks q K k" if "cell_ready cell rowid payload ks p K k" "pager_alloc.same_store p q" for p q K k
    using that cell_at_same [OF that(2)] by (simp add: cell_ready_def pager_alloc.same_store_def)
  show "\<exists>q ks. insert_with_splitting (Suc d) k rowid cell path p = (q, Inr ()) \<and> leaf_at q k (insert_row (rowid, payload, ks) rs)
        \<and> wrote k p q \<and> distinct ks \<and> set ks \<inter> K = {}"
    if "alloc_ok_pager p" "leaf_at p k rs" "distinct (pages (TLeaf k rs))" "cell_ready cell rowid payload ks p K k" "k \<in> K" for p k rs K d path
  proof -
    have r: "cell_at p cell (rowid, payload, ks)" "cell \<noteq> []" "distinct ks" "set ks \<inter> K = {}"
        "length cell + 2 \<le> leaf_free_space (view p k) (btree_header_offset k)"
      using that(4) unfolding cell_ready_def by blast+
    have "k \<notin> set (snd (snd (rowid, payload, ks)))" using r(4) that(5) by auto
    from insert_leaf_room [OF that(1,2) r(1,2) this that(3) r(5), of d path] obtain q
      where "insert_with_splitting (Suc d) k rowid cell path p = (q, Inr ())" "leaf_at q k (insert_row (rowid, payload, ks) rs)"
        "pager_update.changes {k} 0 p q"
      unfolding fst_conv by blast
    then show ?thesis using changes_wrote r(3,4) by blast
  qed
qed

interpretation autovac_insert: leaf_inserter "\<lambda>d k path. insert_with_splitting_autovac d k rowid payload path" rowid payload
  "payload_ready rowid payload" for rowid payload
proof
  show "insert_with_splitting_autovac (Suc d) k rowid payload path p
      = insert_with_splitting_autovac d c rowid payload ((k, btree_header_offset k) # path) q"
    if "read_node k p = (q, Inr (page, hdr))" "ph_page_type hdr = InteriorTable" "pick_child page hdr rowid = Inr c" for k p q page hdr c d path
    using that by simp
  show "payload_ready rowid payload q K k" if "payload_ready rowid payload p K k" "pager_alloc.same_store p q" for p q K k
    using that by (simp add: payload_ready_def pager_alloc.same_store_def pages_for_def)
  show "\<exists>q ks. insert_with_splitting_autovac (Suc d) k rowid payload path p = (q, Inr ()) \<and> leaf_at q k (insert_row (rowid, payload, ks) rs)
        \<and> wrote k p q \<and> distinct ks \<and> set ks \<inter> K = {}"
    if "alloc_ok_pager p" "leaf_at p k rs" "distinct (pages (TLeaf k rs))" "payload_ready rowid payload p K k" "\<forall>j \<in> K. in_range p j" for p k rs K d path
    using insert_leaf_room_autovac [OF that(1,2), of payload rowid d path] that(3-5) unfolding payload_ready_def by blast
qed

section \<open>The invariant of a table\<close>

text \<open>A table b-tree in key order whose pages belong to nothing else in the tree.\<close>

definition table_ok :: "pager \<Rightarrow> ttree \<Rightarrow> bool" where
  "table_ok p t \<longleftrightarrow> alloc_ok_pager p \<and> tree_at p t \<and> search_tree t \<and> distinct (pages t)"

lemma inserted_distinct:
  assumes "inserted (r, pl, ks) t t'" and "distinct (pages t)" and "distinct ks" and "set ks \<inter> set (pages t) = {}"
  shows "distinct (pages t')"
proof -
  have "mset (pages t') = mset (pages t @ ks)" using assms(1) by (simp add: inserted_def)
  moreover have "distinct (pages t @ ks)" using assms(2-4) by auto
  ultimately show ?thesis using mset_eq_imp_distinct_iff by blast
qed

lemma table_insert_ok:
  assumes "table_ok p t" and "weight t \<le> d" and "rowid \<notin> fst ` set (rows t)" and "length payload < 2 ^ 64"
    and "pages_for p (length payload) \<le> pages_left p"
    and "cell_len (p_usable_size p) rowid (length payload) + 2
           \<le> leaf_free_space (view p (leaf_for rowid t)) (btree_header_offset (leaf_for rowid t))"
  shows "\<exists>q t'. table_insert d (troot t) rowid payload p = (q, Inr ()) \<and> table_ok q t' \<and> troot t' = troot t
    \<and> rows t' = insert_row (rowid, payload) (rows t) \<and> wrote (leaf_for rowid t) p q"
proof -
  note t = assms(1) [unfolded table_ok_def]
  let ?k = "leaf_for rowid t"
  have K: "\<forall>j \<in> set (pages t). in_range p j" using t tree_pages_in_range by blast
  have fin: ?thesis if "table_insert d (troot t) rowid payload p = (q, Inr ())" "tree_at q t'" "inserted (rowid, payload, ks) t t'"
      "wrote ?k p q" "distinct ks" "set ks \<inter> set (pages t) = {}" for q t' ks
    using that t inserted_distinct [OF that(3) _ that(5,6)]
    by (intro exI [of _ q] exI [of _ t']) (simp add: table_ok_def inserted_def wrote_def leaf_row_def)
  show ?thesis
  proof (cases "auto_vacuum p")
    case True
    have "payload_ready rowid payload p (set (pages t)) ?k" using assms(4-6) by (simp add: payload_ready_def)
    then show ?thesis
      using autovac_insert.descent_inserts [of p t d "set (pages t)" rowid payload "[]"] t assms(2,3) K True fin
      by (fastforce simp: table_insert_def)
  next
    case False
    have u: "480 \<le> p_usable_size p" using t by (simp add: alloc_ok_pager_def)
    obtain p1 cell ks where p1: "build_table_leaf_cell rowid payload (p_usable_size p) p = (p1, Inr cell)"
        "table_cell (view p1) (p_usable_size p) cell rowid payload ks" "pager_alloc.extends (pages_for p (length payload)) p p1"
        "distinct ks" "\<forall>j \<in> set ks. in_range p1 j \<and> \<not> in_range p j"
      using build_table_leaf_cell_ok [of p payload rowid] t assms(4,5) by blast
    note e = p1(3) [unfolded pager_alloc.extends_def]
    have len: "length cell = cell_len (p_usable_size p) rowid (length payload)" "cell \<noteq> []"
      using table_cell_length [OF p1(2) u] by simp_all
    have "view p1 ?k = view p ?k" using e K leaf_for_in_pages by blast
    then have rdy: "cell_ready cell rowid payload ks p1 (set (pages t)) ?k"
      using p1(2,4,5) e len K assms(6) by (auto simp: cell_ready_def cell_at_def)
    have at1: "tree_at p1 t" "alloc_ok_pager p1" "\<forall>j \<in> set (pages t). in_range p1 j"
      using tree_at_extends [OF p1(3)] t e K by auto
    obtain q t' ks' where q: "insert_with_splitting d (troot t) rowid cell [] p1 = (q, Inr ())" "tree_at q t'"
        "inserted (rowid, payload, ks') t t'" "wrote ?k p1 q" "distinct ks'" "set ks' \<inter> set (pages t) = {}"
      using plain_insert.descent_inserts [OF at1(1) _ _ at1(2) assms(2) subset_refl at1(3) assms(3) rdy] t by blast
    have "wrote ?k p q" using q(4) e by (auto simp: wrote_def)
    moreover have "table_insert d (troot t) rowid payload p = (q, Inr ())" using False p1(1) q(1) by (simp add: table_insert_def)
    ultimately show ?thesis using fin q by blast
  qed
qed

section \<open>Properties\<close>

text \<open>
  C14. Inserting a row into a table b-tree whose owning leaf has room succeeds at any depth, in both
  vacuum modes and with any payload length: the result is again a well-formed table with the same
  root whose rows are the old ones with the new row in rowid order, a scan returns exactly them, and
  of the existing pages only that leaf is written.
\<close>

theorem table_insert_inserts:
  assumes "table_ok p t" and "weight t \<le> d" and "rowid \<notin> fst ` set (rows t)" and "length payload < 2 ^ 64"
    and "pages_for p (length payload) \<le> pages_left p"
    and "cell_len (p_usable_size p) rowid (length payload) + 2
           \<le> leaf_free_space (view p (leaf_for rowid t)) (btree_header_offset (leaf_for rowid t))"
  shows "\<exists>q t'. table_insert d (troot t) rowid payload p = (q, Inr ()) \<and> table_ok q t' \<and> troot t' = troot t
    \<and> rows t' = insert_row (rowid, payload) (rows t)
    \<and> snd (scan_table (weight t') (troot t) q) = Inr (insert_row (rowid, payload) (rows t))
    \<and> (\<forall>j. in_range p j \<longrightarrow> j \<noteq> leaf_for rowid t \<longrightarrow> view q j = view p j)"
proof -
  obtain q t' where q: "table_insert d (troot t) rowid payload p = (q, Inr ())" "table_ok q t'" "troot t' = troot t"
      "rows t' = insert_row (rowid, payload) (rows t)" "wrote (leaf_for rowid t) p q"
    using table_insert_ok [OF assms] by blast
  have "tree_at q t'" "alloc_ok_pager q" using q(2) by (simp_all add: table_ok_def)
  from visit_ok [OF this order_refl] have "snd (scan_table (weight t') (troot t) q) = Inr (rows t')"
    by (auto simp: scan_table_def q(3))
  then show ?thesis using q by (intro exI [of _ q] exI [of _ t']) (auto simp: wrote_def)
qed

lemma sample_table_ok: "table_ok tree_db sample_tree"
  using tree_db_ok(1) sample_tree_at sample_tree_search by (simp add: table_ok_def sample_tree_def)

lemma sample_leaf_free: "leaf_free_space (view tree_db 4) 0 = 502 - length (sample_cell 9 30)"
proof -
  obtain q where q: "write_page_cells (replicate 512 0) 0 LeafTable None [sample_cell 9 30] = Inr q"
    using write_page_cells_node [of "replicate 512 0" None LeafTable "[sample_cell 9 30]" 0] sample_sizes(1) [of 9 30] sample_sizes(2) [of 9 30]
    by (auto simp: is_leaf_def header_size_of_def)
  have "leaf_free_space q 0 = 512 - (0 + 8 + cells_size [sample_cell 9 30])"
    using write_page_cells_free [of "replicate 512 0" LeafTable 0 "[sample_cell 9 30]" q] q sample_sizes(1) [of 9 30] by (simp add: is_leaf_def)
  then show ?thesis using q by (simp add: tree_db_views(3) sample_page_def)
qed

theorem table_insert_inserts_witness:
  "\<exists>q d. table_insert 4 2 7 [40] tree_db = (q, Inr ())
     \<and> snd (scan_table d 2 q) = Inr [(1, [10]), (5, [20]), (7, [40]), (9, [30])] \<and> view q 3 = view tree_db 3"
proof -
  have lf: "leaf_for 7 sample_tree = 4" by (simp add: sample_tree_def)
  have "cell_len 512 7 1 \<le> 20"
    using varint_len_bounds(2) [of 1] varint_len_bounds(2) [of 7]
    by (simp add: cell_len_def local_payload_len_def table_leaf_max_local_def)
  then have room: "cell_len (p_usable_size tree_db) 7 (length [40 :: u8]) + 2
      \<le> leaf_free_space (view tree_db (leaf_for 7 sample_tree)) (btree_header_offset (leaf_for 7 sample_tree))"
    using sample_leaf_free sample_sizes(1) [of 9 30] by (simp add: lf tree_db_fields btree_header_offset_def)
  have "pages_for tree_db 1 \<le> pages_left tree_db" by (simp add: pages_for_def pages_left_def tree_db_fields)
  moreover have "insert_row (7, [40]) (rows sample_tree) = [(1, [10]), (5, [20]), (7, [40]), (9, [30])]"
    by (simp add: sample_tree_facts insert_row_def)
  ultimately show ?thesis
    using table_insert_inserts [OF sample_table_ok, of 4 7 "[40]", OF _ _ _ _ room] tree_db_ok(2) [of 3]
    by (auto simp: sample_tree_facts lf)
qed

end
