(* ===== verification/Btree_Split.thy ===== *)
theory Btree_Split
  imports Btree_Grow
begin

text \<open>
  Splitting the root of a table. Promoting a full leaf to an interior page over two new leaves keeps
  the rows and their order, and the pending row then goes into the half that owns it; the insertion
  into a table of one full leaf therefore returns with the row in place, provided no cell takes more
  than a quarter of a page. Without that proviso it need not return: a leaf of one large row is
  promoted again and again.
\<close>

section \<open>Reading the cells back\<close>

lemma cell_at_read:
  assumes "cell_at p cell x" and "480 \<le> p_usable_size p" and "sub off (off + length cell) page = cell" and "off + length cell \<le> length page"
  obtains l over ps n1 n2 where "local_payload_len (unat ps) (p_usable_size p) (p_usable_size p - 35) = (l, over)"
    "over \<longleftrightarrow> l < unat ps" "read_varint (drop off page) = Some (ps, n1)" "read_varint (drop (off + n1) page) = Some (fst x, n2)"
    "off + n1 \<le> length page" "length cell = n1 + n2 + l + (if over then 4 else 0)"
proof -
  obtain r pl ks where x: "x = (r, pl, ks)" using prod_cases3 by blast
  let ?u = "p_usable_size p" and ?n = "of_nat (length pl) :: u64"
  have tc: "table_cell (view p) ?u cell r pl ks" using assms(1) x by (simp add: cell_at_def)
  then obtain body where b: "cell = write_varint ?n @ write_varint r @ body"
      "payload_at (view p) ?u (table_leaf_max_local ?u) body pl ks"
    by (auto simp: table_cell_def)
  obtain l over where lo: "local_payload_len (length pl) ?u (table_leaf_max_local ?u) = (l, over)" by force
  note lc = local_payload_len_cases [OF threshold_ok_table [OF assms(2)] lo]
  have n: "unat ?n = length pl" using b(2) by (simp add: payload_at_def unat_of_nat)
  have len: "length cell = varint_len ?n + varint_len r + l + (if over then 4 else 0)"
    using table_cell_length(1) [OF tc assms(2)] lo by (simp add: cell_len_def)
  have r1: "read_varint (drop off page) = Some (?n, varint_len ?n)" by (rule read_varint_prefix [OF assms(3,4) b(1)])
  have s2: "sub (off + varint_len ?n) (off + varint_len ?n + length (write_varint r @ body)) page = write_varint r @ body"
    using sub_suffix [of off "write_varint ?n" "write_varint r @ body" page] assms(3) b(1) by (simp add: length_write_varint)
  have r2: "read_varint (drop (off + varint_len ?n) page) = Some (r, varint_len r)"
    by (rule read_varint_prefix [OF s2 _ refl]) (use assms(4) b(1) in \<open>simp add: length_write_varint\<close>)
  have "off + varint_len ?n \<le> length page" using assms(4) len by linarith
  moreover have "over \<longleftrightarrow> l < unat ?n" unfolding n using lc(1,4,5) by auto
  ultimately show thesis
    using that [of ?n l over "varint_len ?n" "varint_len r"] lo n r1 r2 len x by (simp add: table_leaf_max_local_def)
qed

lemma copy_cell_ok:
  assumes "cell_at p cell x" and "480 \<le> p_usable_size p" and "cell_pointer hdr page i = Inr off"
    and "sub off (off + length cell) page = cell" and "off + length cell \<le> length page"
  shows "copy_cell page (p_usable_size p) hdr i = Inr cell"
proof -
  obtain l over ps n1 n2 where c: "local_payload_len (unat ps) (p_usable_size p) (p_usable_size p - 35) = (l, over)"
      "over \<longleftrightarrow> l < unat ps" "read_varint (drop off page) = Some (ps, n1)" "read_varint (drop (off + n1) page) = Some (fst x, n2)"
      "off + n1 \<le> length page" "length cell = n1 + n2 + l + (if over then 4 else 0)"
    by (rule cell_at_read [OF assms(1,2,4,5)])
  have ps: "read_payload_size page off = Inr (ps, n1)"
    using c(3,5) by (simp add: read_payload_size_def varint_at_def get_range_def drop_eq_sub)
  have "cell_total_size page off n1 (p_usable_size p) = Inr (length cell)"
    using ps c by (simp add: cell_total_size_def get_range_def read_varint_i64_def drop_eq_sub Let_def)
  then show ?thesis using assms(3-5) ps by (simp add: copy_cell_def)
qed

lemma copy_cells_ok:
  assumes "list_all2 (cell_at p) cells rs" and "480 \<le> p_usable_size p" and "n_cells hdr = length cells"
    and "\<And>i. i < length cells \<Longrightarrow> \<exists>off. cell_pointer hdr page i = Inr off
       \<and> sub off (off + length (cells ! i)) page = cells ! i \<and> off + length (cells ! i) \<le> length page"
  shows "map_result (copy_cell page (p_usable_size p) hdr) [0..<n_cells hdr] = Inr cells"
proof -
  have "copy_cell page (p_usable_size p) hdr i = Inr (cells ! i)" if "i \<in> set [0..<n_cells hdr]" for i
    using assms(3) assms(4) [of i] copy_cell_ok [OF list_all2_nthD [OF assms(1), of i] assms(2)] that by auto
  from map_result_Inr [of "[0..<n_cells hdr]", OF this] show ?thesis using map_nth [of cells] assms(3) by simp
qed

lemma max_rowid_of_cell_ok: "cell_at p cell x \<Longrightarrow> 480 \<le> p_usable_size p \<Longrightarrow> max_rowid_of_cell cell = Inr (fst x)"
  using cell_rowid [of p cell x 0 cell] by (simp add: max_rowid_of_cell_def sub_def)

section \<open>The split point\<close>

lemma split_point_from_bounds:
  "split_point_from m i left_size cs = Some n \<Longrightarrow> i \<le> n \<and> n < i + length cs \<and> 0 < n"
proof (induction m i left_size cs rule: split_point_from.induct)
  case (2 m i left_size c cs)
  then show ?case by (cases "m < left_size + length c + 2 \<and> 0 < i") (auto simp: Let_def)
qed simp

lemma split_point_bounds: "cs \<noteq> [] \<Longrightarrow> 0 < split_point usable cs \<and> split_point usable cs \<le> length cs"
  using split_point_from_bounds [of "usable div 2" 0 0 cs] by (auto simp: split_point_def split: option.splits)

text \<open>The left side holds at most half a page unless it is one cell; with the next cell it exceeds half a page.\<close>

lemma split_point_from_size:
  "split_point_from m i left_size cs = Some n \<Longrightarrow> left_size \<le> m \<or> i = 0 \<Longrightarrow>
   m < left_size + cells_size (take (n - i) cs) + length (cs ! (n - i)) + 2"
proof (induction m i left_size cs arbitrary: n rule: split_point_from.induct)
  case (2 m i left_size c cs)
  show ?case
  proof (cases "m < left_size + length c + 2 \<and> 0 < i")
    case True
    then show ?thesis using 2(2) by (simp add: Let_def)
  next
    case False
    then have r: "split_point_from m (i + 1) (left_size + length c + 2) cs = Some n" using 2(2) by (auto simp: Let_def split: if_splits)
    have "i + 1 \<le> n" using split_point_from_bounds [OF r] by simp
    then obtain j where j: "n - i = Suc j" "n - (i + 1) = j" by (cases "n - i") auto
    show ?thesis
    proof (cases "left_size + length c + 2 \<le> m")
      case le: True
      show ?thesis using 2(1) [OF refl False r] le j by simp
    qed (use j in simp)
  qed
qed simp

lemma split_point_from_left:
  "0 < i \<Longrightarrow> left_size \<le> m \<Longrightarrow>
   left_size + cells_size (take (case split_point_from m i left_size cs of None \<Rightarrow> length cs | Some n \<Rightarrow> n - i) cs) \<le> m"
proof (induction m i left_size cs rule: split_point_from.induct)
  case (2 m i left_size c cs)
  show ?case
  proof (cases "m < left_size + length c + 2")
    case False
    then have e: "split_point_from m i left_size (c # cs) = split_point_from m (i + 1) (left_size + length c + 2) cs"
      by (simp add: Let_def)
    have IH: "left_size + length c + 2 + cells_size (take (case split_point_from m (i + 1) (left_size + length c + 2) cs of
        None \<Rightarrow> length cs | Some n \<Rightarrow> n - (i + 1)) cs) \<le> m"
      using 2(1) [OF refl] False by simp
    have "n - i = Suc (n - (i + 1))" if "split_point_from m (i + 1) (left_size + length c + 2) cs = Some n" for n
      using split_point_from_bounds [OF that] by linarith
    then show ?thesis using IH unfolding e by (auto split: option.splits)
  qed (use 2(2,3) in simp)
qed simp

lemma split_point_left:
  assumes "cs \<noteq> []"
  shows "split_point usable cs = 1 \<or> cells_size (take (split_point usable cs) cs) \<le> usable div 2"
proof -
  obtain c cs' where cs: "cs = c # cs'" using assms by (cases cs) auto
  let ?m = "usable div 2" and ?L = "length c + 2"
  have e: "split_point_from ?m 0 0 cs = split_point_from ?m 1 ?L cs'" by (simp add: cs Let_def)
  show ?thesis
  proof (cases "?L \<le> ?m")
    case True
    have l: "?L + cells_size (take (case split_point_from ?m 1 ?L cs' of None \<Rightarrow> length cs' | Some n \<Rightarrow> n - 1) cs') \<le> ?m"
      by (rule split_point_from_left [OF _ True]) simp
    show ?thesis
    proof (cases "split_point_from ?m 1 ?L cs'")
      case None
      then show ?thesis using l unfolding split_point_def e cs by simp
    next
      case (Some n)
      then have "1 \<le> n" using split_point_from_bounds by blast
      then obtain j where "n = Suc j" by (cases n) auto
      then show ?thesis using l Some unfolding split_point_def e cs by simp
    qed
  next
    case False
    then have "split_point_from ?m 1 ?L cs' = (if cs' = [] then None else Some 1)" by (cases cs') (simp_all add: Let_def)
    then show ?thesis unfolding split_point_def e cs by simp
  qed
qed

lemma split_point_right:
  assumes "split_point usable cs < length cs"
  shows "usable div 2 < cells_size (take (split_point usable cs) cs) + length (cs ! split_point usable cs) + 2"
proof -
  obtain n where n: "split_point_from (usable div 2) 0 0 cs = Some n" "split_point usable cs = n"
    using assms by (auto simp: split_point_def split: option.splits)
  show ?thesis using split_point_from_size [OF n(1)] n(2) by simp
qed

section \<open>Writing the new nodes\<close>

lemma write_node_ok:
  assumes "alloc_ok_pager p" and "in_range p k" and "(rm = None) = is_leaf ty" and "[] \<notin> set cells"
    and "btree_header_offset k + header_size_of ty + cells_size cells \<le> p_page_size p"
  shows "\<exists>q. write_node k ty rm cells p = (q, Inr ()) \<and> pager_update.changes {k} 0 p q \<and> in_range q = in_range p
    \<and> node_page (view q k) (btree_header_offset k) ty rm cells \<and> pages_left q = pages_left p
    \<and> (is_leaf ty \<longrightarrow> leaf_free_space (view q k) (btree_header_offset k) = p_page_size p - (btree_header_offset k + 8 + cells_size cells))"
proof -
  let ?h = "btree_header_offset k" and ?z = "replicate (p_page_size p) (0 :: u8)"
  have sz: "length ?z \<le> 65536" using assms(1) by (simp add: alloc_ok_pager_def)
  obtain pg where pg: "write_page_cells ?z ?h ty rm cells = Inr pg" "length pg = p_page_size p" "node_page pg ?h ty rm cells"
    using write_page_cells_node [OF sz assms(3,4)] assms(5) by auto
  obtain q where q: "write_page k pg p = (q, Inr ())" "pager_update.changes {k} 0 p q" "view q = (view p)(k := pg)"
      "in_range q = in_range p" "pages_left q = pages_left p"
    using pager_update.wr_changes [OF assms(1,2) pg(2)] by blast
  have "leaf_free_space pg ?h = p_page_size p - (?h + 8 + cells_size cells)" if lf: "is_leaf ty"
  proof -
    have "?h + 8 + cells_size cells \<le> length ?z" "rm = None" using assms(3,5) lf by (simp_all add: header_size_of_def)
    then show ?thesis using write_page_cells_free [OF sz lf, of ?h cells pg] pg(1) by simp
  qed
  then show ?thesis using pg q by (simp add: write_node_def)
qed

text \<open>The bytes a list of rows takes on a page.\<close>

definition rows_size :: "nat \<Rightarrow> (i64 \<times> bytes \<times> u32 list) list \<Rightarrow> nat" where
  "rows_size usable rs = sum_list (map (\<lambda>x. cell_len usable (fst x) (length (fst (snd x))) + 2) rs)"

lemma cell_at_length:
  assumes "cell_at p cell x" and "480 \<le> p_usable_size p"
  shows "length cell = cell_len (p_usable_size p) (fst x) (length (fst (snd x)))" "cell \<noteq> []"
  using assms table_cell_length [of "view p" "p_usable_size p" cell "fst x" "fst (snd x)" "snd (snd x)"]
  by (cases x; simp add: cell_at_def)+

lemma cells_size_rows:
  "list_all2 (cell_at p) cells rs \<Longrightarrow> 480 \<le> p_usable_size p \<Longrightarrow> cells_size cells = rows_size (p_usable_size p) rs \<and> [] \<notin> set cells"
proof (induction cells rs rule: list_all2_induct)
  case (Cons c cs x xs)
  then show ?case using cell_at_length [OF Cons.hyps(1)] by (auto simp: rows_size_def)
qed (simp add: rows_size_def)

lemma rows_size_append [simp]: "rows_size u (a @ b) = rows_size u a + rows_size u b"
  by (simp add: rows_size_def)

lemma rows_size_split: "rows_size u (take n rs) + rows_size u (drop n rs) = rows_size u rs"
  by (metis rows_size_append append_take_drop_id)

lemma new_page_offset:
  assumes "in_range p k" and "\<not> in_range p j" and "j \<noteq> 0"
  shows "btree_header_offset j = 0"
proof -
  have "0 < k" "k \<le> p_page_count p" using assms(1) by (simp_all add: in_range_def word_neq_0_conv)
  then have "1 \<le> p_page_count p" by (metis inc_le add_0 order_less_le_trans)
  then have "j \<noteq> 1" using assms(2) by (auto simp: in_range_def)
  then show ?thesis by (simp add: btree_header_offset_def)
qed

lemma leaf_at_intro:
  assumes "in_range q k" and "node_page (view q k) (btree_header_offset k) LeafTable None cells" and "list_all2 (cell_at p) cells rs"
    and "pager_update.changes K n p q" and "\<forall>x \<in> set rs. K \<inter> set (snd (snd x)) = {}"
  shows "leaf_at q k rs"
proof -
  have "list_all2 (cell_at q) cells rs"
    by (rule list.rel_mono_strong [OF assms(3)]) (use cell_at_changes [OF assms(4)] assms(5) in blast)
  then show ?thesis using assms(1,2) by (auto simp: leaf_at_def)
qed

section \<open>Promotion\<close>

text \<open>The new leaf of a split: a page is allocated and the cells are written to it.\<close>

lemma alloc_leaf_ok:
  assumes "alloc_ok_pager p" and "0 < pages_left p" and "in_range p k" and "[] \<notin> set cells" and "8 + cells_size cells \<le> p_page_size p"
  obtains p1 j q where "allocate_page p = (p1, Inr j)" "write_node j LeafTable None cells p1 = (q, Inr ())"
    "pager_update.changes {} 1 p q" "\<not> in_range p j" "in_range q j" "node_page (view q j) (btree_header_offset j) LeafTable None cells"
    "btree_header_offset j = 0" "leaf_free_space (view q j) 0 = p_page_size p - (8 + cells_size cells)"
proof -
  obtain p1 j where p1: "allocate_page p = (p1, Inr j)" "pager_update.changes {} 1 p p1" "j \<noteq> 0" "\<not> in_range p j" "in_range p1 j"
    using pager_update.alloc_changes [OF assms(1,2)] by blast
  have c1: "alloc_ok_pager p1" "p_page_size p1 = p_page_size p" using p1(2) by (auto simp: pager_update.changes_def)
  have off: "btree_header_offset j = 0" using new_page_offset [OF assms(3) p1(4,3)] .
  have lf: "(None = (None :: u32 option)) = is_leaf LeafTable" by (simp add: is_leaf_def)
  obtain q where q: "write_node j LeafTable None cells p1 = (q, Inr ())" "pager_update.changes {j} 0 p1 q" "in_range q = in_range p1"
      "node_page (view q j) (btree_header_offset j) LeafTable None cells" "pages_left q = pages_left p1"
      "leaf_free_space (view q j) 0 = p_page_size p - (8 + cells_size cells)"
    using write_node_ok [OF c1(1) p1(5) lf assms(4)] assms(5) off c1(2) by (auto simp: header_size_of_def is_leaf_def)
  have "pager_update.changes ({} \<union> {j}) (1 + 0) p q" using p1(2) q(2) by (rule pager_update.changes_trans)
  then have "pager_update.changes {} 1 p q" by (rule pager_update.changes_mono) (use p1(4) in auto)
  then show thesis using that p1(1,4,5) q off by simp
qed

lemma promote_ok:
  assumes "alloc_ok_pager p" and "leaf_at p k rs" and "rs \<noteq> []" and "distinct (pages (TLeaf k rs))" and "\<not> auto_vacuum p"
    and "2 \<le> pages_left p" and "8 + rows_size (p_usable_size p) rs \<le> p_page_size p"
  obtains q l r n where "promote_root_and_split k p = (q, Inr ())" "0 < n" "n \<le> length rs"
    "n = 1 \<or> rows_size (p_usable_size p) (take n rs) \<le> p_usable_size p div 2"
    "n = length rs \<or> p_usable_size p div 2 < rows_size (p_usable_size p) (take (Suc n) rs)"
    "pager_update.changes {k} 2 p q" "l \<noteq> r" "\<not> in_range p l" "\<not> in_range p r"
    "interior_at q k [(l, fst (rs ! (n - 1)))] r" "leaf_at q l (take n rs)" "leaf_at q r (drop n rs)"
    "btree_header_offset l = 0" "btree_header_offset r = 0"
    "leaf_free_space (view q l) 0 = p_page_size p - (8 + rows_size (p_usable_size p) (take n rs))"
    "leaf_free_space (view q r) 0 = p_page_size p - (8 + rows_size (p_usable_size p) (drop n rs))"
proof -
  let ?u = "p_usable_size p"
  have u: "480 \<le> ?u" "?u \<le> p_page_size p" using assms(1) by (auto simp: alloc_ok_pager_def)
  obtain q0 hdr cells where hdr: "page_header_parse (view p k) (btree_header_offset k) = Inr hdr" "ph_page_type hdr = LeafTable"
      "n_cells hdr = length cells" and cells: "list_all2 (cell_at p) cells rs" and k: "in_range p k"
      and ptr: "\<And>i. i < length cells \<Longrightarrow> \<exists>off. cell_pointer hdr (view p k) i = Inr off
       \<and> sub off (off + length (cells ! i)) (view p k) = cells ! i \<and> off + length (cells ! i) \<le> length (view p k)"
    using read_leaf_cells [OF assms(1,2)] by metis
  note len = list_all2_lengthD [OF cells]
  have ne: "cells \<noteq> []" "n_cells hdr \<noteq> 0" using assms(3) len hdr(3) by auto
  define n where "n = split_point ?u cells"
  have n: "0 < n" "n \<le> length rs" using split_point_bounds [OF ne(1), of ?u] len by (simp_all add: n_def)
  have parts: "list_all2 (cell_at p) (take n cells) (take n rs)" "list_all2 (cell_at p) (drop n cells) (drop n rs)"
    using cells by (simp_all add: list_all2_takeI list_all2_dropI)
  have sz: "cells_size (take n cells) = rows_size ?u (take n rs)" "[] \<notin> set (take n cells)"
      "cells_size (drop n cells) = rows_size ?u (drop n rs)" "[] \<notin> set (drop n cells)"
    using cells_size_rows [OF parts(1) u(1)] cells_size_rows [OF parts(2) u(1)] by simp_all
  note total = rows_size_split [of ?u n rs]
  obtain p1 where p1: "read_page_for_write k p = (p1, Inr (view p k))" "pager_alloc.same_store p p1" "pager_update.changes {} 0 p p1"
    using pager_update.rdw_changes [OF assms(1) k] by blast
  have c1: "alloc_ok_pager p1" "0 < pages_left p1" "in_range p1 k" "p_page_size p1 = p_page_size p" "in_range p1 = in_range p"
      "p_usable_size p1 = ?u"
    using p1(2) assms(6) k by (auto simp: pager_alloc.same_store_def)
  have "8 + cells_size (take n cells) \<le> p_page_size p1" using assms(7) total sz(1) c1(4) by linarith
  then obtain p2 l p3 where p3: "allocate_page p1 = (p2, Inr l)" "write_node l LeafTable None (take n cells) p2 = (p3, Inr ())"
      "pager_update.changes {} 1 p1 p3" "\<not> in_range p1 l" "in_range p3 l"
      "node_page (view p3 l) (btree_header_offset l) LeafTable None (take n cells)"
      "btree_header_offset l = 0" "leaf_free_space (view p3 l) 0 = p_page_size p1 - (8 + cells_size (take n cells))"
    using alloc_leaf_ok [OF c1(1-3) sz(2)] by metis
  have c3: "alloc_ok_pager p3" "0 < pages_left p3" "in_range p3 k" "p_page_size p3 = p_page_size p"
    using p3(3) c1(3,4) p1(2) assms(6) by (auto simp: pager_update.changes_def pager_alloc.same_store_def)
  have "8 + cells_size (drop n cells) \<le> p_page_size p3" using assms(7) total sz(3) c3(4) by linarith
  then obtain p4 r p5 where p5: "allocate_page p3 = (p4, Inr r)" "write_node r LeafTable None (drop n cells) p4 = (p5, Inr ())"
      "pager_update.changes {} 1 p3 p5" "\<not> in_range p3 r" "in_range p5 r"
      "node_page (view p5 r) (btree_header_offset r) LeafTable None (drop n cells)"
      "btree_header_offset r = 0" "leaf_free_space (view p5 r) 0 = p_page_size p3 - (8 + cells_size (drop n cells))"
    using alloc_leaf_ok [OF c3(1-3) sz(4)] by metis
  have c5: "alloc_ok_pager p5" "in_range p5 k" "p_page_size p5 = p_page_size p" "in_range p5 l" "view p5 l = view p3 l"
    using p5(3) c3 p3(5) by (auto simp: pager_update.changes_def)
  let ?div = "fst (rs ! (n - 1))" and ?cell = "build_table_interior_cell l (fst (rs ! (n - 1)))"
  have fits: "btree_header_offset k + header_size_of InteriorTable + cells_size [?cell] \<le> p_page_size p5"
    using sample_sizes(3) [of l ?div] u c5(3) by (simp add: header_size_of_def is_leaf_def btree_header_offset_def)
  have nl: "(Some r = None) = is_leaf InteriorTable" "[] \<notin> set [?cell]" using sample_sizes(4) [of l ?div] by (auto simp: is_leaf_def)
  obtain p6 where p6: "write_node k InteriorTable (Some r) [?cell] p5 = (p6, Inr ())" "pager_update.changes {k} 0 p5 p6"
      "in_range p6 = in_range p5" "node_page (view p6 k) (btree_header_offset k) InteriorTable (Some r) [?cell]"
    using write_node_ok [OF c5(1,2) nl fits] by blast
  have ch: "pager_update.changes {k} 2 p p6"
    using pager_update.changes_trans [OF pager_update.changes_trans [OF pager_update.changes_trans [OF p1(3) p3(3)] p5(3)] p6(2)]
    by (simp add: numeral_eq_Suc)
  have fresh: "\<not> in_range p l" "\<not> in_range p r" "l \<noteq> k" "r \<noteq> k" "l \<noteq> r"
    using p3(3-5) p5(4) c1(5) k c3(3) by (auto simp: pager_update.changes_def)
  have v6: "view p6 l = view p3 l" "view p6 r = view p5 r" using p6(2) c5(4,5) p5(5) fresh(3,4) by (auto simp: pager_update.changes_def)
  have dis: "\<forall>x \<in> set rs. {k} \<inter> set (snd (snd x)) = {}" using assms(4) by auto
  have "leaf_at p6 l (take n rs)"
    by (rule leaf_at_intro [OF _ _ parts(1) ch]) (use p6(3) c5(4) p3(6) v6(1) dis in \<open>auto dest: in_set_takeD\<close>)
  moreover have "leaf_at p6 r (drop n rs)"
    by (rule leaf_at_intro [OF _ _ parts(2) ch]) (use p6(3) p5(5,6) v6(2) dis in \<open>auto dest: in_set_dropD\<close>)
  moreover have "interior_at p6 k [(l, ?div)] r" using p6(3,4) c5(2) by (simp add: interior_at_def)
  moreover have "promote_root_and_split k p = (p6, Inr ())"
  proof -
    have "max_rowid_of_cell (cells ! (n - 1)) = Inr ?div"
      using max_rowid_of_cell_ok [OF list_all2_nthD [OF cells, of "n - 1"] u(1)] n len by simp
    moreover have "\<not> auto_vacuum p6" using ch assms(5) by (simp add: pager_update.changes_def)
    ultimately show ?thesis
      using p1(1) hdr ne(2) copy_cells_ok [OF cells u(1) hdr(3) ptr] p3(1,2) p5(1,2) p6(1) n(1)
      by (simp add: promote_root_and_split_def Let_def n_def [symmetric])
  qed
  moreover have "n = 1 \<or> rows_size ?u (take n rs) \<le> ?u div 2"
    using split_point_left [OF ne(1), of ?u] sz(1) by (simp add: n_def)
  moreover have "n = length rs \<or> ?u div 2 < rows_size ?u (take (Suc n) rs)"
  proof (cases "n < length rs")
    case True
    have "rows_size ?u (take (Suc n) rs) = cells_size (take (Suc n) cells)"
      using cells_size_rows [OF list_all2_takeI [OF cells, of "Suc n"] u(1)] by simp
    also have "\<dots> = cells_size (take n cells) + length (cells ! n) + 2" using True len by (simp add: take_Suc_conv_app_nth)
    finally show ?thesis using split_point_right [of ?u cells] True len by (simp add: n_def)
  qed (use n(2) in simp)
  ultimately show thesis
    using that [of p6 n l r] n ch fresh p3(7,8) p5(7,8) v6 sz c1(4) c3(4) by simp
qed

lemma sorted_rows_split:
  assumes "sorted_wrt (\<lambda>x y. sint (fst x) < sint (fst y)) rs" and "0 < n" and "n \<le> length rs"
  shows "\<forall>x \<in> set (take n rs). sint (fst x) \<le> sint (fst (rs ! (n - 1)))" "\<forall>x \<in> set (drop n rs). sint (fst (rs ! (n - 1))) < sint (fst x)"
proof -
  have lt: "sint (fst (rs ! i)) < sint (fst (rs ! j))" if "i < j" "j < length rs" for i j
    using sorted_wrt_nth_less [OF assms(1) that] .
  show "\<forall>x \<in> set (take n rs). sint (fst x) \<le> sint (fst (rs ! (n - 1)))"
  proof
    fix x
    assume "x \<in> set (take n rs)"
    then obtain i where i: "i < n" "x = rs ! i" using assms(3) by (auto simp: in_set_conv_nth)
    show "sint (fst x) \<le> sint (fst (rs ! (n - 1)))"
    proof (cases "i = n - 1")
      case False
      then have "i < n - 1" "n - 1 < length rs" using i(1) assms(2,3) by linarith+
      from lt [OF this] show ?thesis using i(2) by simp
    qed (use i in simp)
  qed
  show "\<forall>x \<in> set (drop n rs). sint (fst (rs ! (n - 1))) < sint (fst x)"
  proof
    fix x
    assume "x \<in> set (drop n rs)"
    then obtain i where i: "n + i < length rs" "x = rs ! (n + i)" using assms(3) by (auto simp: in_set_conv_nth less_diff_conv add.commute)
    show "sint (fst (rs ! (n - 1))) < sint (fst x)" using lt [of "n - 1" "n + i"] i assms(2) by simp
  qed
qed

text \<open>The tree after a promotion.\<close>

definition split_tree :: "u32 \<Rightarrow> u32 \<Rightarrow> u32 \<Rightarrow> nat \<Rightarrow> (i64 \<times> bytes \<times> u32 list) list \<Rightarrow> ttree" where
  "split_tree k l r n rs = TNode k [(TLeaf l (take n rs), fst (rs ! (n - 1)))] (TLeaf r (drop n rs))"

lemma split_tree_facts:
  assumes "search_tree (TLeaf k rs)" and "0 < n" and "n \<le> length rs"
  shows "search_tree (split_tree k l r n rs)" "rows (split_tree k l r n rs) = rows (TLeaf k rs)"
    "mset (pages (split_tree k l r n rs)) = mset (pages (TLeaf k rs)) + {#l, r#}"
proof -
  note sp = sorted_rows_split [OF assms(1) [unfolded search_tree.simps] assms(2,3)]
  show "search_tree (split_tree k l r n rs)"
    using sp assms(1) by (auto simp: split_tree_def leaf_row_def sorted_wrt_take sorted_wrt_drop)
  show "rows (split_tree k l r n rs) = rows (TLeaf k rs)"
    by (simp add: split_tree_def flip: map_append)
  show "mset (pages (split_tree k l r n rs)) = mset (pages (TLeaf k rs)) + {#l, r#}"
    using arg_cong [OF append_take_drop_id [of n rs], of "\<lambda>xs. mset (concat (map (\<lambda>x. snd (snd x)) xs))"]
    unfolding map_append concat_append mset_append by (simp add: split_tree_def)
qed

lemma split_tree_ok:
  assumes "table_ok p (TLeaf k rs)" and "0 < n" and "n \<le> length rs" and "pager_update.changes {k} m p q" and "l \<noteq> r"
    and "\<not> in_range p l" and "\<not> in_range p r" and "interior_at q k [(l, fst (rs ! (n - 1)))] r"
    and "leaf_at q l (take n rs)" and "leaf_at q r (drop n rs)"
  shows "table_ok q (split_tree k l r n rs)"
proof -
  note t = assms(1) [unfolded table_ok_def]
  have st: "search_tree (TLeaf k rs)" using t by blast
  note f = split_tree_facts [OF st assms(2,3), of l r]
  have "mset (pages (split_tree k l r n rs)) = mset (l # r # pages (TLeaf k rs))" using f(3) by simp
  moreover have "l \<notin> set (pages (TLeaf k rs))" "r \<notin> set (pages (TLeaf k rs))"
    using tree_pages_in_range [of p "TLeaf k rs"] t assms(6,7) by blast+
  ultimately have "distinct (pages (split_tree k l r n rs))"
    using mset_eq_imp_distinct_iff t assms(5) by (metis distinct.simps(2) set_ConsD)
  moreover have "tree_at q (split_tree k l r n rs)" using assms(8-10) by (simp add: split_tree_def)
  ultimately show ?thesis using f(1) assms(4) by (simp add: table_ok_def pager_update.changes_def)
qed

section \<open>Inserting after the promotion\<close>

lemma side_after_promotion_ok:
  assumes "alloc_ok_pager p" and "tree_at p (TNode k [(t1, dv)] t2)"
  obtains q hdr where "read_node k p = (q, Inr (view p k, hdr))" "pager_alloc.same_store p q"
    "side_after_promotion (view p k) hdr rowid = Inr (troot (child_for rowid [(t1, dv)] t2))"
proof -
  have at: "interior_at p k [(troot t1, dv)] (troot t2)" using assms(2) by simp
  obtain q hdr where q: "read_node k p = (q, Inr (view p k, hdr))" "pager_alloc.same_store p q"
      "ph_right_most_pointer hdr = Some (troot t2)" "n_cells hdr = 1"
      and c: "\<And>i. i < 1 \<Longrightarrow> \<exists>off. cell_pointer hdr (view p k) i = Inr off
       \<and> parse_table_interior_cell (view p k) off = Inr \<lparr>ti_left_child = fst ([(troot t1, dv)] ! i), ti_rowid = snd ([(troot t1, dv)] ! i)\<rparr>"
    using read_interior_ok [OF assms(1) at] by (metis length_Cons list.size(3) One_nat_def)
  obtain off where "cell_pointer hdr (view p k) 0 = Inr off"
      "parse_table_interior_cell (view p k) off = Inr \<lparr>ti_left_child = troot t1, ti_rowid = dv\<rparr>"
    using c [of 0] by auto
  then have "side_after_promotion (view p k) hdr rowid = Inr (troot (child_for rowid [(t1, dv)] t2))"
    using q(3,4) by (simp add: side_after_promotion_def)
  then show thesis using that q(1,2) by blast
qed

lemma insert_after_promotion_ok:
  assumes "table_ok p (TNode k [(t1, dv)] t2)" and "rowid \<notin> fst ` set (rows (TNode k [(t1, dv)] t2))"
    and "weight (child_for rowid [(t1, dv)] t2) \<le> d"
    and "cell_ready cell rowid payload ks p (set (pages (TNode k [(t1, dv)] t2))) (leaf_for rowid (TNode k [(t1, dv)] t2))"
  shows "\<exists>q t'. insert_after_root_promotion (Suc d) k rowid cell p = (q, Inr ()) \<and> table_ok q t' \<and> troot t' = k
    \<and> rows t' = insert_row (rowid, payload) (rows (TNode k [(t1, dv)] t2))
    \<and> wrote (leaf_for rowid (TNode k [(t1, dv)] t2)) p q"
proof -
  let ?t = "TNode k [(t1, dv)] t2" and ?c = "child_for rowid [(t1, dv)] t2"
  have t: "alloc_ok_pager p" "tree_at p ?t" "search_tree ?t" "distinct (pages ?t)" using assms(1) unfolding table_ok_def by blast+
  obtain p1 hdr where p1: "read_node k p = (p1, Inr (view p k, hdr))" "pager_alloc.same_store p p1"
      "side_after_promotion (view p k) hdr rowid = Inr (troot ?c)"
    by (rule side_after_promotion_ok [OF t(1,2), of rowid])
  note c = child_for_at(1,2) [OF t(2,3), of rowid] child_for_sub [OF t(4), of rowid]
  have v: "alloc_ok_pager p1" "\<forall>j \<in> set (pages ?t). in_range p1 j"
    using p1(2) tree_pages_in_range [OF t(2)] unfolding pager_alloc.same_store_def by simp_all
  have c1: "tree_at p1 ?c" using tree_at_same [OF p1(2)] c(1) by simp
  have rdy: "cell_ready cell rowid payload ks p1 (set (pages ?t)) (leaf_for rowid ?c)"
    using plain_insert.ready_same [OF assms(4) p1(2)] by simp
  have fresh: "rowid \<notin> fst ` set (rows ?c)" using assms(2) image_mono [OF c(4), of fst] by blast
  obtain q c' ks' where q: "insert_with_splitting d (troot ?c) rowid cell [] p1 = (q, Inr ())" "tree_at q c'"
      "inserted (rowid, payload, ks') ?c c'" "wrote (leaf_for rowid ?c) p1 q" "distinct ks'" "set ks' \<inter> set (pages ?t) = {}"
    using plain_insert.descent_inserts [OF c1 c(2,5) v(1) assms(3) c(3) v(2) fresh rdy] by blast
  have q3: "inserted (rowid, payload, ks') (child_for (fst (rowid, payload, ks')) [(t1, dv)] t2) c'" using q(3) by simp
  obtain kids' last_t' where k': "inserted (rowid, payload, ks') ?t (TNode k kids' last_t')"
      "map (\<lambda>(t, r). (troot t, r)) kids' = map (\<lambda>(t, r). (troot t, r)) [(t1, dv)]" "troot last_t' = troot t2"
      "\<forall>t \<in> fst ` set kids' \<union> {last_t'}. t = c' \<or> (t \<in> fst ` set [(t1, dv)] \<union> {t2}
         \<and> set (pages t) \<inter> set (pages (child_for (fst (rowid, payload, ks')) [(t1, dv)] t2)) = {})"
    by (rule inserted_child [OF t(3,4) q3])
  have wr: "wrote (leaf_for rowid ?c) p q" using same_wrote [OF p1(2) q(4)] .
  have "tree_at q (TNode k kids' last_t')"
    using inserted_tree_at [OF t(2,4) wr leaf_for_in_pages q(2) k'(2,3)] k'(4) by simp
  then have "table_ok q (TNode k kids' last_t')"
    using wr k'(1) inserted_distinct [OF k'(1) t(4) q(5,6)] by (simp add: table_ok_def wrote_def inserted_def)
  moreover have "insert_after_root_promotion (Suc d) k rowid cell p = (q, Inr ())" using p1(1,3) q(1) by simp
  ultimately show ?thesis using k'(1) wr
    by (intro exI [of _ q] exI [of _ "TNode k kids' last_t'"]) (simp add: inserted_def leaf_row_def)
qed

section \<open>Inserting into a full leaf\<close>

lemma page_full_is_full [simp]: "is_page_full page_full_error"
  by code_simp

lemma insert_leaf_full:
  assumes "alloc_ok_pager p" and "leaf_at p k rs" and "cell \<noteq> []"
    and "leaf_free_space (view p k) (btree_header_offset k) < length cell + 2"
  shows "\<exists>q. pager_alloc.same_store p q \<and> auto_vacuum q = auto_vacuum p
    \<and> (\<forall>d. insert_with_splitting (Suc d) k rowid cell [] p = balance_leaf d k None [] rowid cell q)"
proof -
  let ?h = "btree_header_offset k" and ?n = "length (takeWhile (\<lambda>y. sint (fst y) < sint rowid) rs)"
  have u: "480 \<le> p_usable_size p" using assms(1) by (simp add: alloc_ok_pager_def)
  obtain q hdr cells where q: "read_node k p = (q, Inr (view p k, hdr))" "pager_alloc.same_store p q" "auto_vacuum q = auto_vacuum p"
      "ph_page_type hdr = LeafTable" "n_cells hdr = length cells" "list_all2 (cell_at p) cells rs" "in_range p k"
      "node_page (view p k) ?h LeafTable None cells"
      "\<And>i. i < length cells \<Longrightarrow> \<exists>off. cell_pointer hdr (view p k) i = Inr off
       \<and> sub off (off + length (cells ! i)) (view p k) = cells ! i \<and> off + length (cells ! i) \<le> length (view p k)"
    using read_leaf_cells [OF assms(1,2)] by metis
  note idx = leaf_insert_index_ok [OF q(5,6) u q(9), of rowid]
  have n: "?n \<le> length cells" using list_all2_lengthD [OF q(6)] length_takeWhile_le by simp
  have qk: "alloc_ok_pager q" "in_range q k" "view q k = view p k" using q(2,7) by (auto simp: pager_alloc.same_store_def)
  obtain q1 where q1: "read_page_for_write k q = (q1, Inr (view q k))" "pager_alloc.same_store q q1" "pager_update.changes {} 0 q q1"
    using pager_update.rdw_changes [OF qk(1,2)] by blast
  have full: "insert_leaf_cell (view p k) ?h ?n cell = Inl page_full_error"
    using insert_leaf_cell_node [OF q(8) _ n assms(3)] assms(4) by (simp add: is_leaf_def)
  have "insert_with_splitting (Suc d) k rowid cell [] p = balance_leaf d k None [] rowid cell q1" for d
    using q(1,4) idx q1(1) qk(3) full by simp
  then show ?thesis
    using pager_alloc.same_store_trans [OF q(2) q1(2)] q(3) q1(3) by (auto simp: pager_update.changes_def)
qed

text \<open>The half that receives the row has room when no cell takes more than a quarter of a page.\<close>

lemma halves_have_room:
  assumes "\<forall>x \<in> set rs. cell_len u (fst x) (length (fst (snd x))) + 2 \<le> u div 4" and "c + 2 \<le> u div 4"
    and "480 \<le> u" and "u \<le> ps" and "8 + rows_size u rs \<le> ps" and "0 < n" and "n \<le> length rs"
    and "n = 1 \<or> rows_size u (take n rs) \<le> u div 2" and "n = length rs \<or> u div 2 < rows_size u (take (Suc n) rs)"
  shows "c + 2 \<le> ps - (8 + rows_size u (take n rs))" "c + 2 \<le> ps - (8 + rows_size u (drop n rs))"
proof -
  have one: "rows_size u (take 1 rs) \<le> u div 4" using assms(1,6,7) by (cases rs) (auto simp: rows_size_def)
  have q: "u div 4 + u div 4 \<le> u div 2" "u div 2 + u div 2 \<le> u" "120 \<le> u div 4" using assms(3) by auto
  have l: "rows_size u (take n rs) \<le> u div 2" using assms(8) one q(1,3) by auto
  then show "c + 2 \<le> ps - (8 + rows_size u (take n rs))" using assms(2-4) q by linarith
  show "c + 2 \<le> ps - (8 + rows_size u (drop n rs))"
  proof (cases "n = length rs")
    case True
    then have "rows_size u (drop n rs) = 0" by (simp add: rows_size_def)
    then show ?thesis using assms(2,4) q by linarith
  next
    case False
    then have n: "n < length rs" using assms(7) by simp
    then have "rows_size u (take (Suc n) rs) = rows_size u (take n rs) + rows_size u [rs ! n]"
      by (simp add: take_Suc_conv_app_nth)
    moreover have "rows_size u [rs ! n] \<le> u div 4" using assms(1) n by (simp add: rows_size_def)
    ultimately have "u div 4 < rows_size u (take n rs)" using assms(9) False q(1) by linarith
    then show ?thesis using rows_size_split [of u n rs] assms(2,5) by linarith
  qed
qed

lemma insert_splits_root:
  assumes "table_ok p (TLeaf k rs)" and "rs \<noteq> []" and "\<not> auto_vacuum p" and "2 \<le> pages_left p"
    and "8 + rows_size (p_usable_size p) rs \<le> p_page_size p"
    and "\<forall>x \<in> set rs. cell_len (p_usable_size p) (fst x) (length (fst (snd x))) + 2 \<le> p_usable_size p div 4"
    and "cell_at p cell (rowid, payload, ks)" and "distinct ks" and "set ks \<inter> set (pages (TLeaf k rs)) = {}"
    and "length cell + 2 \<le> p_usable_size p div 4" and "rowid \<notin> fst ` set rs"
    and "leaf_free_space (view p k) (btree_header_offset k) < length cell + 2"
  shows "\<exists>q t'. insert_with_splitting (Suc (Suc (Suc (Suc d)))) k rowid cell [] p = (q, Inr ()) \<and> table_ok q t' \<and> troot t' = k
    \<and> rows t' = insert_row (rowid, payload) (rows (TLeaf k rs))"
proof -
  let ?u = "p_usable_size p" and ?d = "Suc (Suc (Suc d))"
  have t: "alloc_ok_pager p" "leaf_at p k rs" "search_tree (TLeaf k rs)" "distinct (pages (TLeaf k rs))"
    using assms(1) by (simp_all add: table_ok_def)
  have u: "480 \<le> ?u" "?u \<le> p_page_size p" using t(1) by (auto simp: alloc_ok_pager_def)
  have ne: "cell \<noteq> []" using cell_at_length(2) [OF assms(7) u(1)] .
  obtain p1 where p1: "pager_alloc.same_store p p1" "auto_vacuum p1 = auto_vacuum p"
      "insert_with_splitting (Suc ?d) k rowid cell [] p = balance_leaf ?d k None [] rowid cell p1"
    using insert_leaf_full [OF t(1,2) ne assms(12)] by blast
  have s: "alloc_ok_pager p1" "leaf_at p1 k rs" "\<not> auto_vacuum p1" "2 \<le> pages_left p1" "8 + rows_size (p_usable_size p1) rs \<le> p_page_size p1"
      "cell_at p1 cell (rowid, payload, ks)" "p_usable_size p1 = ?u" "p_page_size p1 = p_page_size p" "in_range p1 = in_range p"
    using p1(1,2) t(2) assms(3-5,7) leaf_at_same [OF p1(1)] cell_at_same [OF p1(1)] by (simp_all add: pager_alloc.same_store_def)
  have t1: "table_ok p1 (TLeaf k rs)" using s(1,2) t(3,4) by (simp add: table_ok_def)
  obtain q l r n where q: "promote_root_and_split k p1 = (q, Inr ())" "0 < n" "n \<le> length rs"
      "n = 1 \<or> rows_size ?u (take n rs) \<le> ?u div 2" "n = length rs \<or> ?u div 2 < rows_size ?u (take (Suc n) rs)"
      "pager_update.changes {k} 2 p1 q" "l \<noteq> r" "\<not> in_range p1 l" "\<not> in_range p1 r"
      "interior_at q k [(l, fst (rs ! (n - 1)))] r" "leaf_at q l (take n rs)" "leaf_at q r (drop n rs)"
      "btree_header_offset l = 0" "btree_header_offset r = 0"
      "leaf_free_space (view q l) 0 = p_page_size p - (8 + rows_size ?u (take n rs))"
      "leaf_free_space (view q r) 0 = p_page_size p - (8 + rows_size ?u (drop n rs))"
    by (rule promote_ok [OF s(1,2) assms(2) t(4) s(3-5), unfolded s(7,8)])
  let ?t = "split_tree k l r n rs"
  note tq = split_tree_ok [OF t1 q(2,3,6-12)]
  note sf = split_tree_facts [OF t(3) q(2,3), of l r]
  note room = halves_have_room [OF assms(6,10) u assms(5) q(2-5)]
  have ks: "\<forall>j \<in> set ks. in_range p1 j" using s(6) by (simp add: cell_at_def)
  have kk: "k \<notin> set ks" using assms(9) by auto
  have "set (pages ?t) = insert l (insert r (set (pages (TLeaf k rs))))"
    using arg_cong [OF sf(3), of set_mset] by (simp del: pages.simps)
  then have dis: "set ks \<inter> set (pages ?t) = {}" using assms(9) ks q(8,9) by auto
  have cq: "cell_at q cell (rowid, payload, ks)" using cell_at_changes [OF q(6) s(6)] kk by simp
  have lf: "leaf_for rowid ?t = l \<or> leaf_for rowid ?t = r" by (auto simp: split_tree_def)
  have rdy: "cell_ready cell rowid payload ks q (set (pages ?t)) (leaf_for rowid ?t)"
    unfolding cell_ready_def using cq ne assms(8) dis lf room q(13-16) by auto
  have fresh: "rowid \<notin> fst ` set (rows ?t)" unfolding sf(2) using assms(11) by (simp add: image_image leaf_row_def)
  have w: "weight (child_for rowid [(TLeaf l (take n rs), fst (rs ! (n - 1)))] (TLeaf r (drop n rs))) \<le> Suc d" by simp
  obtain q' t' where q': "insert_after_root_promotion (Suc (Suc d)) k rowid cell q = (q', Inr ())" "table_ok q' t'" "troot t' = k"
      "rows t' = insert_row (rowid, payload) (rows ?t)"
    using insert_after_promotion_ok [OF tq [unfolded split_tree_def] fresh [unfolded split_tree_def] w rdy [unfolded split_tree_def]]
    unfolding split_tree_def [symmetric] by blast
  have "balance_leaf ?d k None [] rowid cell p1 = (q', Inr ())" using q(1) q'(1) by (simp del: insert_after_root_promotion.simps)
  then show ?thesis using p1(3) q'(2-4) unfolding sf(2) by (intro exI [of _ q'] exI [of _ t']) simp
qed

section \<open>Building a cell keeps the header\<close>

lemma extend_pages_header: "p_header (fst (extend_pages p)) = p_header p"
proof (induction p rule: extend_pages.induct)
  case (1 p)
  then show ?case by (simp add: extend_pages.simps [of p] Let_def)
qed

abbreviation header_is :: "db_header \<Rightarrow> pager \<Rightarrow> bool" where
  "header_is h p \<equiv> p_header p = h \<and> no_freelist p"

lemma header_keeps_alloc: "keeps (header_is h) allocate_page"
  using extend_pages_header by (auto simp: keeps_def allocate_page_extends no_freelist_def)

lemma header_keeps_chunk: "keeps (header_is h) (write_chunk cur nxt piece)"
  by (auto simp: keeps_def write_chunk_def write_page_def no_freelist_def)

lemma header_keeps_chain: "keeps (header_is h) (write_chain cur pieces)"
  by (induction cur pieces rule: write_chain.induct)
    (auto intro!: keeps_bind keeps_then header_keeps_alloc header_keeps_chunk simp: keeps_def [of _ "\<lambda>a. (a, Inr ())"])

lemma header_keeps_build: "keeps (header_is h) (build_table_leaf_cell rowid payload usable)"
  unfolding build_table_leaf_cell_def build_table_leaf_cell_with_host_def build_payload_def spill_def
  by (intro keeps_bind)
    (auto intro!: keeps_bind keeps_then header_keeps_alloc header_keeps_chain split: prod.splits)

lemma build_keeps_avac:
  assumes "alloc_ok_pager p" and "build_table_leaf_cell rowid payload usable p = (q, r)"
  shows "auto_vacuum q = auto_vacuum p"
  using keepsD [OF header_keeps_build _ assms(2), of "p_header p"] assms(1) by (simp add: alloc_ok_pager_def auto_vacuum_def)

section \<open>Inserting into a table of one leaf\<close>

lemma table_insert_one_leaf:
  assumes "table_ok p (TLeaf k rs)" and "rs \<noteq> []" and "\<not> auto_vacuum p"
    and "pages_for p (length payload) + 2 \<le> pages_left p" and "length payload < 2 ^ 64"
    and "8 + rows_size (p_usable_size p) rs \<le> p_page_size p"
    and "\<forall>x \<in> set rs. cell_len (p_usable_size p) (fst x) (length (fst (snd x))) + 2 \<le> p_usable_size p div 4"
    and "cell_len (p_usable_size p) rowid (length payload) + 2 \<le> p_usable_size p div 4" and "rowid \<notin> fst ` set rs" and "4 \<le> d"
  shows "\<exists>q t'. table_insert d k rowid payload p = (q, Inr ()) \<and> table_ok q t' \<and> troot t' = k
    \<and> rows t' = insert_row (rowid, payload) (rows (TLeaf k rs))"
proof (cases "cell_len (p_usable_size p) rowid (length payload) + 2 \<le> leaf_free_space (view p k) (btree_header_offset k)")
  case True
  have "rowid \<notin> fst ` set (rows (TLeaf k rs))" using assms(9) by (simp add: image_image leaf_row_def)
  then show ?thesis using table_insert_ok [OF assms(1), of d rowid payload] assms(4,5,10) True by fastforce
next
  case False
  let ?u = "p_usable_size p"
  have t: "alloc_ok_pager p" "tree_at p (TLeaf k rs)" "search_tree (TLeaf k rs)" "distinct (pages (TLeaf k rs))"
    using assms(1) unfolding table_ok_def by blast+
  have u: "480 \<le> ?u" using t(1) by (simp add: alloc_ok_pager_def)
  have pl: "pages_for p (length payload) \<le> pages_left p" using assms(4) by simp
  obtain p1 cell ks where p1: "build_table_leaf_cell rowid payload ?u p = (p1, Inr cell)"
      "table_cell (view p1) ?u cell rowid payload ks" "pager_alloc.extends (pages_for p (length payload)) p p1"
      "distinct ks" "\<forall>j \<in> set ks. in_range p1 j \<and> \<not> in_range p j"
    using build_table_leaf_cell_ok [OF t(1) assms(5) pl] by blast
  note e = p1(3) [unfolded pager_alloc.extends_def]
  have len: "length cell = cell_len ?u rowid (length payload)" using table_cell_length(1) [OF p1(2) u] .
  have t1: "table_ok p1 (TLeaf k rs)" using tree_at_extends [OF p1(3) t(2)] e t(3,4) by (simp add: table_ok_def)
  have av: "\<not> auto_vacuum p1" using build_keeps_avac [OF t(1) p1(1)] assms(3) by simp
  have inr: "\<forall>j \<in> set (pages (TLeaf k rs)). in_range p j" using tree_pages_in_range [OF t(2)] by blast
  have v: "view p1 k = view p k" using e inr by simp
  have pre: "2 \<le> pages_left p1" "8 + rows_size (p_usable_size p1) rs \<le> p_page_size p1"
      "\<forall>x \<in> set rs. cell_len (p_usable_size p1) (fst x) (length (fst (snd x))) + 2 \<le> p_usable_size p1 div 4"
      "cell_at p1 cell (rowid, payload, ks)" "length cell + 2 \<le> p_usable_size p1 div 4"
      "leaf_free_space (view p1 k) (btree_header_offset k) < length cell + 2"
    using e assms(4,6,7,8) len False v p1(2,5) by (auto simp: cell_at_def)
  have dis: "set ks \<inter> set (pages (TLeaf k rs)) = {}" using p1(5) inr by blast
  define d' where "d' = d - 4"
  have d: "d = Suc (Suc (Suc (Suc d')))" using assms(10) by (simp add: d'_def)
  show ?thesis
    using insert_splits_root [OF t1 assms(2) av pre(1-4) p1(4) dis pre(5) assms(9) pre(6), of d'] assms(3) p1(1)
    unfolding d by (auto simp: table_insert_def simp del: insert_with_splitting.simps)
qed

section \<open>A leaf of one large row\<close>

lemma one_row_free:
  assumes "alloc_ok_pager p" and "leaf_at p k [x]"
  shows "leaf_free_space (view p k) (btree_header_offset k) + cell_len (p_usable_size p) (fst x) (length (fst (snd x))) + 10 \<le> p_page_size p
    \<or> leaf_free_space (view p k) (btree_header_offset k) = 0"
proof -
  have u: "480 \<le> p_usable_size p" using assms(1) by (simp add: alloc_ok_pager_def)
  obtain c where c: "in_range p k" "node_page (view p k) (btree_header_offset k) LeafTable None [c]" "cell_at p c x"
    using assms(2) by (auto simp: leaf_at_def list_all2_Cons2)
  have "holds 8 (btree_header_offset k) (view p k) [c]" using c(2) by (simp add: node_page_def header_size_of_def is_leaf_def)
  then have "content_start (view p k) (btree_header_offset k) + length c \<le> length (view p k)" "num_cells (view p k) (btree_header_offset k) = 1"
    by (force simp: holds_def)+
  then show ?thesis
    using cell_at_length(1) [OF c(3) u] pager_alloc.length_vw [OF assms(1) c(1)] by (auto simp: leaf_free_space_def LEAF_HEADER_SIZE_def)
qed

text \<open>
  The tree after promoting the leaf of a single row again and again: each promotion puts an interior
  page over a new leaf with the row and a new empty leaf on its right.
\<close>

fun promoted :: "u32 \<Rightarrow> i64 \<times> bytes \<times> u32 list \<Rightarrow> (u32 \<times> u32) list \<Rightarrow> ttree" where
  "promoted k x [] = TLeaf k [x]"
| "promoted k x ((l, r) # ps) = TNode k [(promoted l x ps, fst x)] (TLeaf r [])"

fun row_leaf :: "u32 \<Rightarrow> (u32 \<times> u32) list \<Rightarrow> u32" where
  "row_leaf k [] = k"
| "row_leaf k ((l, r) # ps) = row_leaf l ps"

lemma troot_promoted [simp]: "troot (promoted k x ps) = k"
  by (cases ps) auto

lemma promoted_rows [simp]: "rows (promoted k x ps) = [leaf_row x]"
  by (induction k x ps rule: promoted.induct) (simp_all add: leaf_row_def split_def)

lemma promoted_search_tree: "search_tree (promoted k x ps)"
  by (induction k x ps rule: promoted.induct) (auto simp: leaf_row_def)

lemma promoted_leaf: "tree_at p (promoted k x ps) \<Longrightarrow> leaf_at p (row_leaf k ps) [x]"
  by (induction k x ps rule: promoted.induct) auto

text \<open>One round: the leaf of the large row is promoted and the row to insert is sent to its left half.\<close>

lemma promote_round:
  assumes "alloc_ok_pager p" and "leaf_at p k [x]" and "distinct (pages (TLeaf k [x]))" and "\<not> auto_vacuum p"
    and "10 + cell_len (p_usable_size p) (fst x) (length (fst (snd x))) \<le> p_page_size p"
    and "p_page_size p < cell_len (p_usable_size p) (fst x) (length (fst (snd x))) + length cell + 12"
    and "sint rowid \<le> sint (fst x)" and "cell \<noteq> []" and "2 \<le> pages_left p"
  obtains q l r where "\<And>d. insert_with_splitting (Suc (Suc (Suc d))) k rowid cell [] p = insert_with_splitting d l rowid cell [] q"
    "pager_update.changes {k} 2 p q" "\<not> in_range p l" "\<not> in_range p r" "l \<noteq> r" "tree_at q (promoted k x [(l, r)])"
proof -
  let ?u = "p_usable_size p"
  have "leaf_free_space (view p k) (btree_header_offset k) < length cell + 2"
    using one_row_free [OF assms(1,2)] assms(6) by linarith
  then obtain p1 where p1: "pager_alloc.same_store p p1" "auto_vacuum p1 = auto_vacuum p"
      "\<And>d. insert_with_splitting (Suc d) k rowid cell [] p = balance_leaf d k None [] rowid cell p1"
    using insert_leaf_full [OF assms(1,2,8)] by blast
  have s: "alloc_ok_pager p1" "leaf_at p1 k [x]" "\<not> auto_vacuum p1" "2 \<le> pages_left p1"
      "8 + rows_size (p_usable_size p1) [x] \<le> p_page_size p1" "in_range p1 = in_range p"
    using p1(1,2) assms(2,4,5,9) leaf_at_same [OF p1(1)] by (simp_all add: pager_alloc.same_store_def rows_size_def)
  obtain q l r n where q: "promote_root_and_split k p1 = (q, Inr ())" "0 < n" "n \<le> length [x]" "pager_update.changes {k} 2 p1 q"
      "\<not> in_range p1 l" "\<not> in_range p1 r" "l \<noteq> r" "interior_at q k [(l, fst ([x] ! (n - 1)))] r" "leaf_at q l (take n [x])" "leaf_at q r (drop n [x])"
    by (rule promote_ok [OF s(1,2) _ assms(3) s(3-5)]) simp_all
  have n: "n = 1" using q(2,3) by simp
  have aq: "alloc_ok_pager q" using q(4) by (simp add: pager_update.changes_def)
  have tq: "tree_at q (TNode k [(TLeaf l [x], fst x)] (TLeaf r []))" using q(8-10) n by simp
  obtain q1 hdr where q1: "read_node k q = (q1, Inr (view q k, hdr))" "pager_alloc.same_store q q1"
      "side_after_promotion (view q k) hdr rowid = Inr (troot (child_for rowid [(TLeaf l [x], fst x)] (TLeaf r [])))"
    by (rule side_after_promotion_ok [OF aq tq])
  have "auto_vacuum q1 = auto_vacuum q"
  proof -
    obtain q' where q': "get_page k q = (q', Inr (view q k))"
      using pager_alloc.rd_same [OF aq] q(8) unfolding interior_at_def by blast
    then have "q' = q1" using q1(1) by (auto simp: read_node_def bind_op_def split: sum.splits)
    then show ?thesis using pager_update.rd_avac [OF aq q'] by simp
  qed
  then have c1: "pager_update.changes {} 0 q q1" using q1(2) pager_update.same_changes by blast
  have "pager_update.changes ({} \<union> ({k} \<union> {})) (0 + (2 + 0)) p q1"
    by (intro pager_update.changes_trans [OF pager_update.same_changes [OF p1(1,2)]] pager_update.changes_trans [OF q(4) c1])
  then have "pager_update.changes {k} 2 p q1" by (rule pager_update.changes_mono) auto
  moreover have "insert_with_splitting (Suc (Suc (Suc d))) k rowid cell [] p = insert_with_splitting d l rowid cell [] q1" for d
    using p1(3) q(1) q1(1,3) assms(7) by simp
  moreover have "tree_at q1 (promoted k x [(l, r)])" using tree_at_changes [OF c1 tq] by simp
  ultimately show thesis using that q(5-7) unfolding s(6) by blast
qed

lemma promote_rounds:
  assumes "sint rowid \<le> sint (fst x)" and "cell \<noteq> []"
  shows "alloc_ok_pager p \<Longrightarrow> leaf_at p k [x] \<Longrightarrow> distinct (pages (TLeaf k [x])) \<Longrightarrow> \<not> auto_vacuum p \<Longrightarrow>
   10 + cell_len (p_usable_size p) (fst x) (length (fst (snd x))) \<le> p_page_size p \<Longrightarrow>
   p_page_size p < cell_len (p_usable_size p) (fst x) (length (fst (snd x))) + length cell + 12 \<Longrightarrow> 2 * m \<le> pages_left p \<Longrightarrow>
   \<exists>q ps. length ps = m \<and> (\<forall>d. insert_with_splitting (3 * m + d) k rowid cell [] p = insert_with_splitting d (row_leaf k ps) rowid cell [] q)
     \<and> pager_update.changes {k} (2 * m) p q \<and> tree_at q (promoted k x ps) \<and> distinct (pages (promoted k x ps))
     \<and> set (pages (promoted k x ps)) \<subseteq> {k} \<union> set (snd (snd x)) \<union> {j. \<not> in_range p j}"
proof (induction m arbitrary: p k)
  case 0
  have "pager_update.changes {k} 0 p p" using 0(1) by (simp add: pager_update.changes_def)
  then show ?case using 0 by (intro exI [of _ p] exI [of _ "[]"]) auto
next
  case (Suc m)
  have ch: "\<forall>j \<in> set (snd (snd x)). in_range p j" "in_range p k"
    using leaf_pages_in_range [OF Suc.prems(2)] Suc.prems(2) by (auto simp: leaf_at_def)
  have two: "2 \<le> pages_left p" using Suc.prems(7) by simp
  obtain q1 l r where q1: "\<And>d. insert_with_splitting (Suc (Suc (Suc d))) k rowid cell [] p = insert_with_splitting d l rowid cell [] q1"
      "pager_update.changes {k} 2 p q1" "\<not> in_range p l" "\<not> in_range p r" "l \<noteq> r" "tree_at q1 (promoted k x [(l, r)])"
    by (rule promote_round [OF Suc.prems(1-6) assms two]) blast
  note c = q1(2) [unfolded pager_update.changes_def]
  have t: "interior_at q1 k [(l, fst x)] r" "leaf_at q1 l [x]" "leaf_at q1 r []" using q1(6) by simp_all
  have "distinct (pages (TLeaf l [x]))" using Suc.prems(3) ch q1(3) by auto
  then obtain q ps where q: "length ps = m"
      "\<And>d. insert_with_splitting (3 * m + d) l rowid cell [] q1 = insert_with_splitting d (row_leaf l ps) rowid cell [] q"
      "pager_update.changes {l} (2 * m) q1 q" "tree_at q (promoted l x ps)" "distinct (pages (promoted l x ps))"
      "set (pages (promoted l x ps)) \<subseteq> {l} \<union> set (snd (snd x)) \<union> {j. \<not> in_range q1 j}"
    using Suc.IH [of q1 l] t(2) c Suc.prems(4-7) by auto
  have r1: "in_range q1 r" "in_range q1 k" "\<forall>j. in_range p j \<longrightarrow> in_range q1 j"
    using t(1,3) c by (auto simp: leaf_at_def interior_at_def)
  have ne: "k \<noteq> l" "k \<notin> set (snd (snd x))" "r \<notin> set (snd (snd x))" "r \<noteq> k" using ch q1(3,4) Suc.prems(3) by auto
  have "view q k = view q1 k" "in_range q k" using q(3) r1(2) ne(1) by (simp_all add: pager_update.changes_def)
  then have "interior_at q k [(l, fst x)] r" using t(1) by (simp add: interior_at_def)
  moreover have "tree_at q (TLeaf r [])" by (rule tree_at_changes [OF q(3)]) (use t(3) q1(5) in auto)
  ultimately have tq: "tree_at q (promoted k x ((l, r) # ps))" using q(4) by simp
  have "pager_update.changes ({k} \<union> {l}) (2 + 2 * m) p q" by (rule pager_update.changes_trans [OF q1(2) q(3)])
  then have "pager_update.changes {k} (2 * Suc m) p q" by (rule pager_update.changes_mono) (use q1(3) in auto)
  moreover have "insert_with_splitting (3 * Suc m + d) k rowid cell [] p = insert_with_splitting d (row_leaf l ps) rowid cell [] q" for d
    using q1(1) [of "3 * m + d"] q(2) [of d] by (simp add: numeral_3_eq_3)
  moreover have "distinct (pages (promoted k x ((l, r) # ps)))"
    using q(5,6) ne r1(1,2) q1(5) by auto
  moreover have "set (pages (promoted k x ((l, r) # ps))) \<subseteq> {k} \<union> set (snd (snd x)) \<union> {j. \<not> in_range p j}"
    using q(6) q1(3,4) r1(3) by auto
  ultimately show ?case using tq q(1) by (intro exI [of _ q] exI [of _ "(l, r) # ps"]) simp
qed

section \<open>A database of one leaf\<close>

definition row_cell :: "i64 \<times> bytes \<Rightarrow> bytes" where
  "row_cell x = write_varint (of_nat (length (snd x))) @ write_varint (fst x) @ snd x"

definition leaf_db :: "(i64 \<times> bytes) list \<Rightarrow> pager" where
  "leaf_db rs = (pager_of ''db'' 0 None ([], None, new_sys 2) (fresh_header 512) 2 [] None)
     \<lparr>p_dirty := [(1, replicate 512 0), (2, sample_page LeafTable None (map row_cell rs))]\<rparr>"

definition leaf_rows :: "(i64 \<times> bytes) list \<Rightarrow> (i64 \<times> bytes \<times> u32 list) list" where
  "leaf_rows rs = map (\<lambda>(r, pl). (r, pl, [])) rs"

lemma leaf_db_fields:
  "p_page_count (leaf_db rs) = 2" "p_page_size (leaf_db rs) = 512" "p_usable_size (leaf_db rs) = 512" "p_wal (leaf_db rs) = None"
  "p_cache (leaf_db rs) = []" "p_header (leaf_db rs) = fresh_header 512" "view (leaf_db rs) 2 = sample_page LeafTable None (map row_cell rs)"
  "\<not> auto_vacuum (leaf_db rs)" "pages_left (leaf_db rs) = 1431655764"
  by (simp_all add: leaf_db_def pager_of_def fresh_header_def usable_size_def view_def auto_vacuum_def pages_left_def)

lemma row_cell_len: "length (snd x) \<le> 477 \<Longrightarrow> length (row_cell x) = cell_len 512 (fst x) (length (snd x))" "row_cell x \<noteq> []"
proof -
  show "length (snd x) \<le> 477 \<Longrightarrow> length (row_cell x) = cell_len 512 (fst x) (length (snd x))"
    by (simp add: row_cell_def cell_len_def local_payload_len_def table_leaf_max_local_def length_write_varint)
  have "0 < length (write_varint (fst x))" using varint_len_bounds(1) [of "fst x"] by (simp add: length_write_varint)
  then show "row_cell x \<noteq> []" by (auto simp: row_cell_def)
qed

lemma row_cell_at: "length (snd x) \<le> 477 \<Longrightarrow> cell_at (leaf_db rs) (row_cell x) (fst x, snd x, [])"
  by (simp add: cell_at_def table_cell_def row_cell_def payload_at_def leaf_db_fields table_leaf_max_local_def local_payload_len_def)

lemma leaf_db_table:
  assumes "\<forall>x \<in> set rs. length (snd x) \<le> 477" and "12 + cells_size (map row_cell rs) \<le> 512"
    and "sorted_wrt (\<lambda>x y. sint (fst x) < sint (fst y)) rs"
  shows "table_ok (leaf_db rs) (TLeaf 2 (leaf_rows rs))"
proof -
  have ne: "[] \<notin> set (map row_cell rs)" using row_cell_len(2) by (metis (no_types, lifting) imageE set_map)
  have pg: "length (sample_page LeafTable None (map row_cell rs)) = 512"
      "node_page (sample_page LeafTable None (map row_cell rs)) 0 LeafTable None (map row_cell rs)"
    using sample_page_node [OF _ ne assms(2), of None LeafTable] by (simp_all add: is_leaf_def)
  have "k = 1 \<or> k = 2" if "k \<noteq> 0" "k \<le> 2" for k :: u32
  proof -
    have "unat k \<noteq> 0" "unat k \<le> 2" using that by (simp_all add: word_le_nat_alt unat_eq_0)
    then have "unat k = 1 \<or> unat k = 2" by linarith
    then show ?thesis by (simp add: word_unat_eq_iff)
  qed
  then have "overlay_ok 512 (length (p_db (leaf_db rs))) 2 (p_dirty (leaf_db rs))"
    unfolding overlay_ok_def using pg(1) by (auto simp: leaf_db_def)
  then have ok: "alloc_ok_pager (leaf_db rs)"
    by (simp add: alloc_ok_pager_def pager_ok_def cache_ok_def no_freelist_def leaf_db_fields fresh_header_def)
  have "list_all2 (cell_at (leaf_db rs)) (map row_cell rs) (leaf_rows rs)"
    using assms(1) row_cell_at by (auto simp: leaf_rows_def list_all2_conv_all_nth case_prod_beta)
  then have "leaf_at (leaf_db rs) 2 (leaf_rows rs)"
    using pg(2) by (auto simp: leaf_at_def in_range_def leaf_db_fields btree_header_offset_def)
  moreover have "distinct (concat (map (\<lambda>x. [] :: u32 list) rs))" by (induction rs) simp_all
  ultimately show ?thesis using ok assms(3) by (auto simp: table_ok_def leaf_rows_def sorted_wrt_map case_prod_beta comp_def)
qed

lemma leaf_rows_facts:
  "rows (TLeaf 2 (leaf_rows rs)) = rs" "fst ` set (leaf_rows rs) = fst ` set rs"
  "rows_size 512 (leaf_rows rs) = sum_list (map (\<lambda>x. cell_len 512 (fst x) (length (snd x)) + 2) rs)"
  by (simp_all add: leaf_rows_def leaf_row_def rows_size_def case_prod_beta comp_def image_image)

section \<open>Properties\<close>

text \<open>
  Promoting a full root leaf keeps the table: the old root becomes an interior page over two new
  leaves, the rows and their order are the same, the tree is well-formed, and no other existing page
  is written.
\<close>

theorem promote_root_keeps_rows:
  assumes "table_ok p (TLeaf k rs)" and "rs \<noteq> []" and "\<not> auto_vacuum p" and "2 \<le> pages_left p"
    and "8 + rows_size (p_usable_size p) rs \<le> p_page_size p"
  shows "\<exists>q t'. promote_root_and_split k p = (q, Inr ()) \<and> table_ok q t' \<and> troot t' = k \<and> rows t' = rows (TLeaf k rs)
    \<and> (\<exists>l r dv ls rs'. t' = TNode k [(TLeaf l ls, dv)] (TLeaf r rs') \<and> ls @ rs' = rs \<and> ls \<noteq> [])
    \<and> (\<forall>j. in_range p j \<longrightarrow> j \<noteq> k \<longrightarrow> view q j = view p j)"
proof -
  have t: "alloc_ok_pager p" "leaf_at p k rs" "search_tree (TLeaf k rs)" "distinct (pages (TLeaf k rs))"
    using assms(1) by (simp_all add: table_ok_def)
  obtain q l r n where q: "promote_root_and_split k p = (q, Inr ())" "0 < n" "n \<le> length rs" "pager_update.changes {k} 2 p q" "l \<noteq> r"
      "\<not> in_range p l" "\<not> in_range p r" "interior_at q k [(l, fst (rs ! (n - 1)))] r" "leaf_at q l (take n rs)" "leaf_at q r (drop n rs)"
    by (rule promote_ok [OF t(1,2) assms(2) t(4) assms(3-5)])
  have "table_ok q (split_tree k l r n rs)" by (rule split_tree_ok [OF assms(1) q(2-10)])
  moreover have "take n rs \<noteq> []" using q(2) assms(2) by (cases n) auto
  ultimately show ?thesis
    using q(1,4) split_tree_facts(2) [OF t(3) q(2,3), of l r]
    by (intro exI [of _ q] exI [of _ "split_tree k l r n rs"]) (auto simp: split_tree_def pager_update.changes_def)
qed

text \<open>A leaf with four rows of 115 bytes, which leaves 28 bytes of its page free.\<close>

definition four_rows :: "(i64 \<times> bytes) list" where
  "four_rows = [(1, replicate 115 7), (2, replicate 115 7), (5, replicate 115 7), (6, replicate 115 7)]"

lemma cell_len_115: "cell_len 512 1 115 = 117" "cell_len 512 2 115 = 117" "cell_len 512 4 115 = 117" "cell_len 512 5 115 = 117"
    "cell_len 512 6 115 = 117"
proof -
  have v: "varint_len 1 = 1" "varint_len 2 = 1" "varint_len 4 = 1" "varint_len 5 = 1" "varint_len 6 = 1" "varint_len 115 = 1" by code_simp+
  show "cell_len 512 1 115 = 117" "cell_len 512 2 115 = 117" "cell_len 512 4 115 = 117" "cell_len 512 5 115 = 117" "cell_len 512 6 115 = 117"
    by (simp_all add: cell_len_def local_payload_len_def table_leaf_max_local_def v)
qed

lemma four_rows_ok:
  "table_ok (leaf_db four_rows) (TLeaf 2 (leaf_rows four_rows))" "rows_size 512 (leaf_rows four_rows) = 476"
  "\<forall>x \<in> set (leaf_rows four_rows). cell_len 512 (fst x) (length (fst (snd x))) + 2 \<le> 128"
proof -
  show "table_ok (leaf_db four_rows) (TLeaf 2 (leaf_rows four_rows))"
    by (rule leaf_db_table) (simp_all add: four_rows_def row_cell_len(1) cell_len_115)
  show "rows_size 512 (leaf_rows four_rows) = 476" unfolding leaf_rows_facts by (simp add: four_rows_def cell_len_115)
  show "\<forall>x \<in> set (leaf_rows four_rows). cell_len 512 (fst x) (length (fst (snd x))) + 2 \<le> 128"
    by (simp add: leaf_rows_def four_rows_def cell_len_115)
qed

theorem promote_root_keeps_rows_witness:
  "\<exists>q t'. promote_root_and_split 2 (leaf_db four_rows) = (q, Inr ()) \<and> table_ok q t' \<and> rows t' = four_rows"
proof -
  have "leaf_rows four_rows \<noteq> []" by (simp add: leaf_rows_def four_rows_def)
  then show ?thesis using promote_root_keeps_rows [OF four_rows_ok(1)] four_rows_ok(2) unfolding leaf_rows_facts(1)
    by (auto simp: leaf_db_fields)
qed

text \<open>
  C15. Inserting into a table of one leaf returns with the row in place whether or not the leaf is
  full, as long as no row takes more than a quarter of a page: a full root is promoted, the pending
  row goes to the half that owns it, and the result is a well-formed table with the row in order.
\<close>

theorem table_insert_splits_root:
  assumes "table_ok p (TLeaf k rs)" and "rs \<noteq> []" and "\<not> auto_vacuum p"
    and "pages_for p (length payload) + 2 \<le> pages_left p" and "length payload < 2 ^ 64"
    and "8 + rows_size (p_usable_size p) rs \<le> p_page_size p"
    and "\<forall>x \<in> set rs. cell_len (p_usable_size p) (fst x) (length (fst (snd x))) + 2 \<le> p_usable_size p div 4"
    and "cell_len (p_usable_size p) rowid (length payload) + 2 \<le> p_usable_size p div 4" and "rowid \<notin> fst ` set rs" and "4 \<le> d"
  shows "\<exists>q t'. table_insert d k rowid payload p = (q, Inr ()) \<and> table_ok q t' \<and> troot t' = k
    \<and> rows t' = insert_row (rowid, payload) (rows (TLeaf k rs))"
  using assms by (rule table_insert_one_leaf)

theorem table_insert_splits_root_witness:
  "\<exists>q t'. table_insert 4 2 4 (replicate 115 9) (leaf_db four_rows) = (q, Inr ()) \<and> table_ok q t'
     \<and> rows t' = [(1, replicate 115 7), (2, replicate 115 7), (4, replicate 115 9), (5, replicate 115 7), (6, replicate 115 7)]"
proof -
  have ne: "leaf_rows four_rows \<noteq> []" "4 \<notin> fst ` set (leaf_rows four_rows)" by (simp_all add: leaf_rows_def four_rows_def)
  have "insert_row (4, replicate 115 9) four_rows =
      [(1, replicate 115 7), (2, replicate 115 7), (4, replicate 115 9), (5, replicate 115 7), (6, replicate 115 7)]"
    by (simp add: four_rows_def insert_row_def)
  then show ?thesis
    using table_insert_splits_root [OF four_rows_ok(1) ne(1), of "replicate 115 9" 4 4] ne(2) four_rows_ok(2,3) cell_len_115(3)
    unfolding leaf_rows_facts(1) by (auto simp: leaf_db_fields pages_for_def)
qed

text \<open>
  C27. A row inserted before a large row that shares no page with it never arrives, in a database without
  auto-vacuum: for every number \<open>m\<close> of rounds for which pages can be allocated, after \<open>3 * m\<close> calls the
  insertion is still about to insert the same cell, now into the last of \<open>m\<close> new leaves, which again
  holds just the large row and has no room; the tree has grown by \<open>m\<close> interior pages, each with an
  empty leaf on its right, and still holds the large row alone.
\<close>

theorem insert_before_large_row_never_returns:
  assumes "table_ok p (TLeaf k [x])" and "\<not> auto_vacuum p" and "sint rowid \<le> sint (fst x)" and "length payload < 2 ^ 64"
    and "10 + cell_len (p_usable_size p) (fst x) (length (fst (snd x))) \<le> p_page_size p"
    and "p_page_size p < cell_len (p_usable_size p) (fst x) (length (fst (snd x))) + cell_len (p_usable_size p) rowid (length payload) + 12"
    and "2 * m + pages_for p (length payload) \<le> pages_left p"
  shows "\<exists>q ps cell. length ps = m
    \<and> (\<forall>d. table_insert (3 * m + d) k rowid payload p = insert_with_splitting d (row_leaf k ps) rowid cell [] q)
    \<and> table_ok q (promoted k x ps) \<and> rows (promoted k x ps) = [leaf_row x] \<and> leaf_at q (row_leaf k ps) [x]
    \<and> leaf_free_space (view q (row_leaf k ps)) (btree_header_offset (row_leaf k ps)) < length cell + 2"
proof -
  let ?u = "p_usable_size p"
  have t: "alloc_ok_pager p" "tree_at p (TLeaf k [x])" "distinct (pages (TLeaf k [x]))"
    using assms(1) by (simp_all add: table_ok_def)
  have u: "480 \<le> ?u" using t(1) by (simp add: alloc_ok_pager_def)
  have pl: "pages_for p (length payload) \<le> pages_left p" using assms(7) by simp
  obtain p1 cell ks where p1: "build_table_leaf_cell rowid payload ?u p = (p1, Inr cell)"
      "table_cell (view p1) ?u cell rowid payload ks" "pager_alloc.extends (pages_for p (length payload)) p p1"
    using build_table_leaf_cell_ok [OF t(1) assms(4) pl] by blast
  note e = p1(3) [unfolded pager_alloc.extends_def]
  have len: "length cell = cell_len ?u rowid (length payload)" "cell \<noteq> []" using table_cell_length [OF p1(2) u] by simp_all
  have av: "\<not> auto_vacuum p1" using build_keeps_avac [OF t(1) p1(1)] assms(2) by simp
  have "leaf_at p1 k [x]" using tree_at_extends [OF p1(3) t(2)] by simp
  then obtain q ps where q: "length ps = m"
      "\<And>d. insert_with_splitting (3 * m + d) k rowid cell [] p1 = insert_with_splitting d (row_leaf k ps) rowid cell [] q"
      "pager_update.changes {k} (2 * m) p1 q" "tree_at q (promoted k x ps)" "distinct (pages (promoted k x ps))"
    using promote_rounds [OF assms(3) len(2), of p1 k m] t(3) av e len(1) assms(5-7) by auto
  have aq: "alloc_ok_pager q" "p_page_size q = p_page_size p" "p_usable_size q = ?u"
    using q(3) e by (simp_all add: pager_update.changes_def)
  have lq: "leaf_at q (row_leaf k ps) [x]" using q(4) by (rule promoted_leaf)
  have "leaf_free_space (view q (row_leaf k ps)) (btree_header_offset (row_leaf k ps)) < length cell + 2"
    using one_row_free [OF aq(1) lq] assms(6) unfolding aq(2,3) len(1) by linarith
  moreover have "table_insert (3 * m + d) k rowid payload p = insert_with_splitting d (row_leaf k ps) rowid cell [] q" for d
    using assms(2) p1(1) q(2) by (simp add: table_insert_def)
  moreover have "table_ok q (promoted k x ps)" using aq(1) q(4,5) by (simp add: table_ok_def promoted_search_tree)
  ultimately show ?thesis using q(1) lq by (intro exI [of _ q] exI [of _ ps] exI [of _ cell]) simp
qed

theorem insert_before_large_row_never_returns_witness:
  "\<exists>q ps cell. length ps = 500000000
     \<and> (\<forall>d. table_insert (1500000000 + d) 2 1 (replicate 300 9) (leaf_db [(2, replicate 300 7)]) = insert_with_splitting d (row_leaf 2 ps) 1 cell [] q)
     \<and> rows (promoted 2 (2, replicate 300 7, []) ps) = [(2, replicate 300 7)]"
proof -
  have v: "varint_len 1 = 1" "varint_len 2 = 1" "varint_len 300 = 2" by code_simp+
  have c: "cell_len 512 1 300 = 303" "cell_len 512 2 300 = 303"
    by (simp_all add: cell_len_def local_payload_len_def table_leaf_max_local_def v)
  have "table_ok (leaf_db [(2, replicate 300 7)]) (TLeaf 2 [(2, replicate 300 7, [])])"
    using leaf_db_table [of "[(2, replicate 300 7)]"] by (simp add: row_cell_len(1) c leaf_rows_def)
  from insert_before_large_row_never_returns [OF this, of 1 "replicate 300 9" 500000000]
  show ?thesis using c by (auto simp: leaf_db_fields pages_for_def leaf_row_def)
qed

end
