(* ===== verification/Btree_Delete.thy ===== *)
theory Btree_Delete
  imports Btree_Insert
begin

text \<open>
  Deleting from a table b-tree: removing a cell from a leaf (\<open>btree/delete.rs\<close>), the rebalancing of
  underfull leaves (\<open>btree/balance.rs\<close>), \<open>delete_current\<close> of the cursor (\<open>btree/cursor.rs\<close>) and the
  creation, destruction and clearing of whole trees (\<open>btree/mod.rs\<close>, \<open>btree/destroy.rs\<close>). Loops that
  follow page pointers take a bound on their turns, as in \<open>Btree_Table\<close>.
\<close>

section \<open>Removing a cell\<close>

definition cell_on_page_size :: "bytes \<Rightarrow> nat \<Rightarrow> nat \<Rightarrow> nat result" where
  "cell_on_page_size page offset usable =
     and_then (varint_at page offset ''table leaf payload-size varint'') (\<lambda>(payload_size, n1).
       and_then (ok_or (corrupt ''rowid bytes'') (get_range (offset + n1) (length page) page)) (\<lambda>b.
         and_then (ok_or (corrupt ''table leaf rowid varint'') (read_varint_i64 b)) (\<lambda>(_, rowid_size).
           let (local_len, has_overflow) = local_payload_len (unat payload_size) usable (usable - 35)
           in Inr (n1 + rowid_size + local_len + (if has_overflow then 4 else 0)))))"

fun free_overflow_chain :: "nat \<Rightarrow> u32 \<Rightarrow> (pager, unit) op" where
  "free_overflow_chain d pgno =
     (if pgno = 0 then ret_op ()
      else (case d of
              0 \<Rightarrow> fail_op Panic
            | Suc d' \<Rightarrow>
                bind_op (get_page pgno) (\<lambda>page.
                bind_op (lift_op (index_range 0 4 page)) (\<lambda>b.
                  then_op (free_page pgno) (free_overflow_chain d' (be_u32 b))))))"

declare free_overflow_chain.simps [simp del]

definition kept_cell :: "bytes \<Rightarrow> nat \<Rightarrow> page_header \<Rightarrow> nat \<Rightarrow> bytes result" where
  "kept_cell leaf usable hdr i =
     and_then (cell_pointer hdr leaf i) (\<lambda>off.
       and_then (cell_on_page_size leaf off usable) (\<lambda>cell_size. index_range off (off + cell_size) leaf))"

definition leaf_delete_current :: "nat \<Rightarrow> u32 \<Rightarrow> nat \<Rightarrow> (pager, unit) op" where
  "leaf_delete_current d leaf_pgno cell_idx =
     (let base = btree_header_offset leaf_pgno in
      bind_op (read_page_for_write leaf_pgno) (\<lambda>leaf.
      bind_op (lift_op (page_header_parse leaf base)) (\<lambda>hdr.
        if ph_page_type hdr \<noteq> LeafTable then fail_op (corrupt ''leaf_delete_current called on a non-leaf page'')
        else if n_cells hdr \<le> cell_idx then fail_op (corrupt ''leaf_delete_current: cell_idx out of range'')
        else bind_op (get_op p_usable_size) (\<lambda>usable.
          bind_op (lift_op (and_then (cell_pointer hdr leaf cell_idx) (\<lambda>off. parse_table_leaf_cell leaf off usable))) (\<lambda>cell.
          then_op (case tl_overflow_page cell of None \<Rightarrow> ret_op () | Some first_overflow \<Rightarrow> free_overflow_chain d first_overflow)
          (bind_op (lift_op (map_result (kept_cell leaf usable hdr) (filter (\<lambda>i. i \<noteq> cell_idx) [0..<n_cells hdr]))) (\<lambda>cells.
           bind_op (lift_op (write_page_cells leaf base LeafTable None cells)) (write_page leaf_pgno)))))))) "

section \<open>Rebalancing\<close>

record rebalance_outcome =
  ro_leaf_pgno :: u32
  ro_cell_idx_offset :: nat

definition read_table_leaf_cells :: "bytes \<Rightarrow> nat \<Rightarrow> nat \<Rightarrow> bytes list result" where
  "read_table_leaf_cells page base usable =
     and_then (page_header_parse page base) (\<lambda>hdr.
       if ph_page_type hdr \<noteq> LeafTable then Inl (corrupt ''read_table_leaf_cells: not a table leaf'')
       else map_result (copy_cell page usable hdr) [0..<n_cells hdr])"

definition table_cells_layout_size :: "bytes list \<Rightarrow> nat" where
  "table_cells_layout_size cells = 8 + length cells * 2 + sum_list (map length cells)"

definition max_rowid_of_cells :: "bytes list \<Rightarrow> i64 result" where
  "max_rowid_of_cells cells = (if cells = [] then Inr 0 else max_rowid_of_cell (last cells))"

definition write_table_leaf :: "u32 \<Rightarrow> nat \<Rightarrow> bytes list \<Rightarrow> (pager, unit) op" where
  "write_table_leaf pgno base cells =
     bind_op (read_page_for_write pgno) (\<lambda>buf.
       bind_op (lift_op (write_page_cells buf base LeafTable None cells)) (write_page pgno))"

text \<open>\<open>k\<close> of the filling loop: the cells that fit on the left page, leaving at least one.\<close>

fun fill_left :: "nat \<Rightarrow> nat \<Rightarrow> nat \<Rightarrow> bytes list \<Rightarrow> nat" where
  "fill_left usable k left_layout [] = k"
| "fill_left usable k left_layout [c] = k"
| "fill_left usable k left_layout (c # c' # cs) =
     (let next_layout = left_layout + length c + 2 in
      if usable < next_layout then k else fill_left usable (k + 1) next_layout (c' # cs))"

definition redistribute_table_cells :: "nat \<Rightarrow> bytes list \<Rightarrow> bytes list \<Rightarrow> (bytes list \<times> bytes list) result" where
  "redistribute_table_cells usable left_cells right_cells =
     (let combined = left_cells @ right_cells in
      if length combined < 2 then Inl (corrupt ''redistribute_table_cells: need at least two cells'')
      else (let k0 = fill_left usable 0 8 combined; k = (if k0 = 0 then 1 else k0)
            in Inr (take k combined, drop k combined)))"

definition collapse_root_into_child :: "u32 \<Rightarrow> u32 \<Rightarrow> (pager, unit) op" where
  "collapse_root_into_child root_pgno child_pgno =
     bind_op (get_op p_usable_size) (\<lambda>usable.
     bind_op (get_page child_pgno) (\<lambda>child_buf.
     bind_op (lift_op (read_table_leaf_cells child_buf (btree_header_offset child_pgno) usable)) (\<lambda>cells.
       then_op (write_table_leaf root_pgno (btree_header_offset root_pgno) cells) (free_page child_pgno))))"

definition parent_cell :: "bytes \<Rightarrow> page_header \<Rightarrow> nat \<Rightarrow> (u32 \<times> i64) result" where
  "parent_cell pbuf phdr i =
     and_then (cell_pointer phdr pbuf i) (\<lambda>off.
       and_then (index_range off (off + 4) pbuf) (\<lambda>b.
         and_then (ok_or (corrupt ''parent rowid varint'') (read_varint_i64 (drop (off + 4) pbuf))) (\<lambda>(rowid, _).
           Inr (be_u32 b, rowid))))"

definition rebuild_parent_without_divider :: "u32 \<Rightarrow> nat \<Rightarrow> bool \<Rightarrow> (pager, unit) op" where
  "rebuild_parent_without_divider parent_pgno divider_idx is_root_parent =
     bind_op (read_node parent_pgno) (\<lambda>(pbuf, phdr).
       if ph_page_type phdr \<noteq> InteriorTable then fail_op (corrupt ''rebuild_parent_without_divider: not interior'')
       else if n_cells phdr \<le> divider_idx then fail_op (corrupt ''rebuild_parent_without_divider: bad idx'')
       else
       bind_op (lift_op (map_result (parent_cell pbuf phdr) (filter (\<lambda>i. i \<noteq> divider_idx) [0..<n_cells phdr]))) (\<lambda>cells.
       bind_op (lift_op (if divider_idx = n_cells phdr - 1
                         then and_then (cell_pointer phdr pbuf (n_cells phdr - 1)) (\<lambda>off.
                                and_then (index_range off (off + 4) pbuf) (\<lambda>b. Inr (Some (be_u32 b))))
                         else Inr (ph_right_most_pointer phdr))) (\<lambda>right_most.
       bind_op (read_page_for_write parent_pgno) (\<lambda>new_parent.
       bind_op (lift_op (write_page_cells new_parent (btree_header_offset parent_pgno) InteriorTable right_most
                  (map (\<lambda>(c, r). build_table_interior_cell c r) cells))) (\<lambda>new_parent1.
       then_op (write_page parent_pgno new_parent1)
         (if is_root_parent \<and> cells = []
          then (case right_most of None \<Rightarrow> ret_op () | Some child \<Rightarrow> collapse_root_into_child parent_pgno child)
          else ret_op ()))))))"

definition divider_cell :: "nat \<Rightarrow> i64 \<Rightarrow> bytes \<Rightarrow> page_header \<Rightarrow> nat \<Rightarrow> bytes result" where
  "divider_cell divider_idx new_rowid pbuf phdr i =
     (if i = divider_idx
      then and_then (cell_pointer phdr pbuf i) (\<lambda>off.
             and_then (index_range off (off + 4) pbuf) (\<lambda>b. Inr (build_table_interior_cell (be_u32 b) new_rowid)))
      else and_then (parent_cell pbuf phdr i) (\<lambda>(c, r). Inr (build_table_interior_cell c r)))"

definition rebuild_parent_with_divider :: "u32 \<Rightarrow> nat \<Rightarrow> i64 \<Rightarrow> (pager, unit) op" where
  "rebuild_parent_with_divider parent_pgno divider_idx new_rowid =
     bind_op (read_node parent_pgno) (\<lambda>(pbuf, phdr).
       if ph_page_type phdr \<noteq> InteriorTable then fail_op (corrupt ''rebuild_parent_with_divider: not interior'')
       else if n_cells phdr \<le> divider_idx then fail_op (corrupt ''rebuild_parent_with_divider: bad idx'')
       else
       bind_op (lift_op (map_result (divider_cell divider_idx new_rowid pbuf phdr) [0..<n_cells phdr])) (\<lambda>cells.
       bind_op (read_page_for_write parent_pgno) (\<lambda>new_parent.
       bind_op (lift_op (write_page_cells new_parent (btree_header_offset parent_pgno) InteriorTable
                  (ph_right_most_pointer phdr) cells)) (write_page parent_pgno))))"

text \<open>Merge the second leaf into the first, or share the cells of both between the two pages.\<close>

definition merge_or_share :: "nat \<Rightarrow> u32 \<Rightarrow> bytes list \<Rightarrow> u32 \<Rightarrow> bytes list \<Rightarrow> u32 \<Rightarrow> nat \<Rightarrow> bool \<Rightarrow> (pager, bool) op" where
  "merge_or_share usable left_pgno left_cells right_pgno right_cells parent_pgno divider_idx is_root_parent =
     (let combined_layout = table_cells_layout_size left_cells + sum_list (map length right_cells) + length right_cells * 2 in
      if combined_layout + 8 \<le> usable
      then then_op (write_table_leaf left_pgno (btree_header_offset left_pgno) (left_cells @ right_cells))
             (then_op (free_page right_pgno)
             (then_op (rebuild_parent_without_divider parent_pgno divider_idx is_root_parent) (ret_op True)))
      else bind_op (lift_op (redistribute_table_cells usable left_cells right_cells)) (\<lambda>(ls, rs).
             bind_op (lift_op (max_rowid_of_cells ls)) (\<lambda>divider_rowid.
             then_op (write_table_leaf left_pgno (btree_header_offset left_pgno) ls)
             (then_op (write_table_leaf right_pgno (btree_header_offset right_pgno) rs)
             (then_op (rebuild_parent_with_divider parent_pgno divider_idx divider_rowid) (ret_op False))))))"

definition sibling_cells :: "u32 \<Rightarrow> (pager, bytes list) op" where
  "sibling_cells pgno =
     bind_op (get_page pgno) (\<lambda>buf. bind_op (get_op p_usable_size) (\<lambda>usable.
       lift_op (read_table_leaf_cells buf (btree_header_offset pgno) usable)))"

definition child_of_cell :: "bytes \<Rightarrow> page_header \<Rightarrow> nat \<Rightarrow> u32 result" where
  "child_of_cell pbuf phdr i =
     and_then (cell_pointer phdr pbuf i) (\<lambda>off.
       and_then (parse_table_interior_cell pbuf off) (\<lambda>cell. Inr (ti_left_child cell)))"

definition rebalance_table_leaf_after_delete ::
    "u32 \<Rightarrow> u32 \<Rightarrow> nat \<Rightarrow> bool \<Rightarrow> (pager, rebalance_outcome option) op" where
  "rebalance_table_leaf_after_delete leaf_pgno parent_pgno child_idx is_root_parent =
     bind_op (get_op p_usable_size) (\<lambda>usable.
     bind_op (read_node leaf_pgno) (\<lambda>(leaf_buf, hdr).
       let base = btree_header_offset leaf_pgno; free_space = leaf_free_space leaf_buf base in
       if ph_page_type hdr \<noteq> LeafTable then fail_op (corrupt ''rebalance_table_leaf_after_delete: not a leaf-table page'')
       else if free_space * 3 \<le> usable * 2 \<or> n_cells hdr = 0 then ret_op None
       else bind_op (read_node parent_pgno) (\<lambda>(pbuf, phdr).
         if ph_page_type phdr = LeafTable then ret_op None
         else if ph_page_type phdr \<noteq> InteriorTable
         then fail_op (corrupt ''rebalance_table_leaf_after_delete: parent is not an interior table'')
         else
         bind_op (lift_op (if child_idx < n_cells phdr
                           then and_then (child_of_cell pbuf phdr child_idx) (\<lambda>c. Inr (Some c)) else Inr None)) (\<lambda>right_sibling.
         bind_op (lift_op (if 0 < child_idx
                           then and_then (child_of_cell pbuf phdr (child_idx - 1)) (\<lambda>c. Inr (Some c)) else Inr None)) (\<lambda>left_sibling.
         bind_op (lift_op (read_table_leaf_cells leaf_buf base usable)) (\<lambda>leaf_cells.
           case (right_sibling, left_sibling) of
             (Some right_pgno, _) \<Rightarrow>
               bind_op (sibling_cells right_pgno) (\<lambda>right_cells.
                 then_op (bind_op (merge_or_share usable leaf_pgno leaf_cells right_pgno right_cells parent_pgno child_idx is_root_parent)
                           (\<lambda>_. ret_op ())) (ret_op None))
           | (None, Some left_pgno) \<Rightarrow>
               bind_op (sibling_cells left_pgno) (\<lambda>left_cells.
                 bind_op (merge_or_share usable left_pgno left_cells leaf_pgno leaf_cells parent_pgno (child_idx - 1) is_root_parent)
                   (\<lambda>merged. if merged
                      then ret_op (Some \<lparr>ro_leaf_pgno = left_pgno, ro_cell_idx_offset = length left_cells\<rparr>)
                      else ret_op None))
           | (None, None) \<Rightarrow> ret_op None))))))"

section \<open>Deleting through the cursor\<close>

text \<open>\<open>.ok()?\<close> on a cell pointer gives \<open>None\<close> for an error; the slice after it may panic.\<close>

definition child_pointer :: "bytes \<Rightarrow> page_header \<Rightarrow> nat \<Rightarrow> u32 option result" where
  "child_pointer page hdr i =
     (case cell_pointer hdr page i of
        Inl Panic \<Rightarrow> Inl Panic
      | Inl (Err _) \<Rightarrow> Inr None
      | Inr off \<Rightarrow> and_then (index_range off (off + 4) page) (\<lambda>b. Inr (Some (be_u32 b))))"

text \<open>\<open>frames\<close> are the stack frames from the root down.\<close>

fun resolve_from :: "u32 \<Rightarrow> (bytes \<times> page_header \<times> nat) list \<Rightarrow> u32 \<Rightarrow> u32 option result" where
  "resolve_from pgno [] leaf_pgno = Inr (Some pgno)"
| "resolve_from pgno ((page, hdr, next_k) # frames) leaf_pgno =
     (if is_leaf (ph_page_type hdr) then Inr (Some pgno)
      else and_then (if next_k - 1 < n_cells hdr then child_pointer page hdr (next_k - 1)
                     else Inr (ph_right_most_pointer hdr)) (\<lambda>nxt.
        case nxt of
          None \<Rightarrow> Inr None
        | Some pgno' \<Rightarrow> if pgno' = leaf_pgno then Inr (Some pgno') else resolve_from pgno' frames leaf_pgno))"

definition resolve_parent_pgno :: "table_cursor \<Rightarrow> u32 \<Rightarrow> u32 option result" where
  "resolve_parent_pgno c leaf_pgno =
     (if tc_stack c = [] then Inr None else resolve_from (tc_root c) (rev (tc_stack c)) leaf_pgno)"

fun scan_children :: "nat list \<Rightarrow> bytes \<Rightarrow> page_header \<Rightarrow> u32 \<Rightarrow> nat option option result" where
  "scan_children [] page hdr leaf_pgno = Inr (Some None)"
| "scan_children (i # is) page hdr leaf_pgno =
     and_then (child_pointer page hdr i) (\<lambda>c.
       case c of
         None \<Rightarrow> Inr None
       | Some left_child \<Rightarrow> if left_child = leaf_pgno then Inr (Some (Some i)) else scan_children is page hdr leaf_pgno)"

definition parent_info :: "table_cursor \<Rightarrow> u32 \<Rightarrow> (u32 \<times> nat \<times> bool) option result" where
  "parent_info c leaf_pgno =
     (case tc_stack c of
        [] \<Rightarrow> Inr None
      | (parent_page, parent_hdr, child_k) # below \<Rightarrow>
          and_then (resolve_parent_pgno c leaf_pgno) (\<lambda>resolved.
            case resolved of
              None \<Rightarrow> Inr None
            | Some parent_pgno \<Rightarrow>
                and_then (scan_children [0..<n_cells parent_hdr] parent_page parent_hdr leaf_pgno) (\<lambda>found.
                  case found of
                    None \<Rightarrow> Inr None
                  | Some (Some i) \<Rightarrow> Inr (Some (parent_pgno, i, below = []))
                  | Some None \<Rightarrow>
                      if ph_right_most_pointer parent_hdr = Some leaf_pgno
                      then Inr (Some (parent_pgno, n_cells parent_hdr, below = []))
                      else Inr None)))"

definition refresh_leaf :: "u32 \<Rightarrow> (table_cursor \<Rightarrow> table_cursor) \<Rightarrow> (cursor_state, unit) op" where
  "refresh_leaf pgno f =
     bind_op (via_pager (read_node pgno)) (\<lambda>(page, hdr).
       set_cursor (\<lambda>c. f (c\<lparr>tc_leaf := Some page, tc_leaf_hdr := Some hdr, tc_pending_advance := True\<rparr>)))"

definition delete_current :: "nat \<Rightarrow> (cursor_state, unit) op" where
  "delete_current d s =
     (let c = fst s; pgno = tc_leaf_pgno c; cell_idx = tc_cell_idx c in
      if \<not> cursor_is_valid c then (s, Inl (error_msg ''table cursor is not positioned on a row''))
      else then_op (via_pager (leaf_delete_current d pgno cell_idx))
        (then_op (refresh_leaf pgno id)
          (\<lambda>s1. if tc_rebalance_in_progress (fst s1) then (s1, Inr ())
            else then_op (set_cursor (\<lambda>c. c\<lparr>tc_rebalance_in_progress := True\<rparr>))
              (then_op
                (\<lambda>s2. bind_op (lift_op (parent_info (fst s2) pgno)) (\<lambda>info.
                   case info of
                     None \<Rightarrow> ret_op ()
                   | Some (parent_pgno, child_idx, is_root_parent) \<Rightarrow>
                       bind_op (via_pager (rebalance_table_leaf_after_delete pgno parent_pgno child_idx is_root_parent)) (\<lambda>outcome.
                         case outcome of
                           None \<Rightarrow> ret_op ()
                         | Some ro \<Rightarrow> refresh_leaf (ro_leaf_pgno ro) (\<lambda>c. c\<lparr>tc_leaf_pgno := ro_leaf_pgno ro,
                                        tc_cell_idx := cell_idx + ro_cell_idx_offset ro\<rparr>))) s2)
                (set_cursor (\<lambda>c. c\<lparr>tc_rebalance_in_progress := False\<rparr>))) s1)) s)"

section \<open>Whole trees\<close>

definition reap_cell :: "nat \<Rightarrow> u32 option \<Rightarrow> (pager, unit) op" where
  "reap_cell d overflow = (case overflow of None \<Rightarrow> ret_op () | Some first \<Rightarrow> free_overflow_chain d first)"

text \<open>\<open>parse(..).ok().and_then(|c| c.overflow_page)\<close>: a cell that does not parse has no chain.\<close>

definition leaf_overflow :: "page_type \<Rightarrow> bytes \<Rightarrow> nat \<Rightarrow> nat \<Rightarrow> u32 option result" where
  "leaf_overflow ty page off usable =
     (case ty of
        LeafTable \<Rightarrow> (case parse_table_leaf_cell page off usable of
            Inl Panic \<Rightarrow> Inl Panic | Inl (Err _) \<Rightarrow> Inr None | Inr c \<Rightarrow> Inr (tl_overflow_page c))
      | LeafIndex \<Rightarrow> (case parse_index_leaf_cell page off usable of
            Inl Panic \<Rightarrow> Inl Panic | Inl (Err _) \<Rightarrow> Inr None | Inr c \<Rightarrow> Inr (il_overflow_page c))
      | _ \<Rightarrow> Inr None)"

definition reap_leaf :: "nat \<Rightarrow> bytes \<Rightarrow> page_header \<Rightarrow> (pager, unit) op" where
  "reap_leaf d page hdr =
     each_op (\<lambda>i. bind_op (get_op p_usable_size) (\<lambda>usable.
       bind_op (lift_op (and_then (cell_pointer hdr page i) (\<lambda>off. leaf_overflow (ph_page_type hdr) page off usable)))
         (reap_cell d))) [0..<n_cells hdr]"

definition interior_left_child :: "bytes \<Rightarrow> page_header \<Rightarrow> nat \<Rightarrow> nat \<Rightarrow> u32 result" where
  "interior_left_child page hdr usable i =
     and_then (cell_pointer hdr page i) (\<lambda>off.
       case ph_page_type hdr of
         InteriorIndex \<Rightarrow> and_then (parse_index_interior_cell page off usable) (\<lambda>c. Inr (ii_left_child c))
       | _ \<Rightarrow> and_then (parse_table_interior_cell page off) (\<lambda>c. Inr (ti_left_child c)))"

text \<open>The stack with its top first: the last child pushed, the right-most, is visited first.\<close>

fun destroy_loop :: "nat \<Rightarrow> nat \<Rightarrow> u32 list \<Rightarrow> (pager, nat) op" where
  "destroy_loop d freed [] = ret_op freed"
| "destroy_loop d freed (pgno # stack) =
     (case d of
        0 \<Rightarrow> fail_op Panic
      | Suc d' \<Rightarrow>
          bind_op (read_node pgno) (\<lambda>(page, hdr).
            if is_leaf (ph_page_type hdr)
            then then_op (reap_leaf d' page hdr) (then_op (free_page pgno) (destroy_loop d' (freed + 1) stack))
            else bind_op (get_op p_usable_size) (\<lambda>usable.
              bind_op (lift_op (map_result (interior_left_child page hdr usable) [0..<n_cells hdr])) (\<lambda>kids.
                then_op (free_page pgno)
                  (destroy_loop d' (freed + 1)
                    ((case ph_right_most_pointer hdr of None \<Rightarrow> [] | Some rm \<Rightarrow> [rm]) @ rev kids @ stack))))))"

definition btree_destroy :: "nat \<Rightarrow> u32 \<Rightarrow> (pager, nat) op" where
  "btree_destroy d root = (if root = 0 then ret_op 0 else destroy_loop d 0 [root])"

definition clear_children :: "bytes \<Rightarrow> page_header \<Rightarrow> u32 list result" where
  "clear_children page hdr =
     and_then (map_result (\<lambda>i. child_of_cell page hdr i) [0..<n_cells hdr]) (\<lambda>kids.
       Inr ((case ph_right_most_pointer hdr of None \<Rightarrow> [] | Some rm \<Rightarrow> [rm]) @ rev kids))"

fun clear_loop :: "nat \<Rightarrow> nat \<Rightarrow> u32 list \<Rightarrow> (pager, nat) op" where
  "clear_loop d freed [] = ret_op freed"
| "clear_loop d freed (pgno # stack) =
     (case d of
        0 \<Rightarrow> fail_op Panic
      | Suc d' \<Rightarrow>
          bind_op (read_node pgno) (\<lambda>(page, hdr).
            case ph_page_type hdr of
              LeafTable \<Rightarrow> then_op (reap_leaf d' page hdr) (then_op (free_page pgno) (clear_loop d' (freed + 1) stack))
            | InteriorTable \<Rightarrow>
                bind_op (lift_op (clear_children page hdr)) (\<lambda>kids.
                  then_op (free_page pgno) (clear_loop d' (freed + 1) (kids @ stack)))
            | _ \<Rightarrow> fail_op (corrupt (''clear: unexpected page type on page '' @ dec (unat pgno)))))"

definition btree_clear :: "nat \<Rightarrow> u32 \<Rightarrow> (pager, nat) op" where
  "btree_clear d root =
     (if root = 0 then ret_op 0
      else bind_op (read_node root) (\<lambda>(page, hdr).
        bind_op (lift_op (case ph_page_type hdr of
                   LeafTable \<Rightarrow> Inr []
                 | InteriorTable \<Rightarrow> clear_children page hdr
                 | _ \<Rightarrow> Inl (corrupt (''clear: unexpected page type on root page '' @ dec (unat root))))) (\<lambda>stack.
        bind_op (clear_loop d 0 stack) (\<lambda>freed.
        bind_op (read_page_for_write root) (\<lambda>root_buf.
        bind_op (lift_op (init_empty_leaf root_buf (btree_header_offset root))) (\<lambda>root_buf1.
          then_op (write_page root root_buf1) (ret_op freed)))))))"

section \<open>Creating trees\<close>

text \<open>\<open>pgno_root += 1\<close> panics on overflow, which also ends the loop.\<close>

function root_slot_from :: "nat \<Rightarrow> u32 \<Rightarrow> u32 result" where
  "root_slot_from usable pgno =
     (if is_ptrmap_page usable pgno \<or> is_pending_byte_page usable pgno
      then (if pgno = -1 then Inl Panic else root_slot_from usable (pgno + 1))
      else Inr pgno)"
  by pat_completeness auto
termination
  by (relation "measure (\<lambda>(usable, pgno). 2 ^ 32 - unat pgno)") (auto simp: page_count_measure [simplified])

declare root_slot_from.simps [simp del]

definition next_autovac_root_slot :: "pager \<Rightarrow> u32 result" where
  "next_autovac_root_slot p =
     (if largest_root_page (p_header p) = -1 then Inl Panic
      else and_then (root_slot_from (p_usable_size p) (largest_root_page (p_header p) + 1)) (\<lambda>pgno.
        Inr (if pgno < 3 then 3 else pgno)))"

definition create_plain :: "(bytes \<Rightarrow> nat \<Rightarrow> bytes result) \<Rightarrow> (pager, u32) op" where
  "create_plain init =
     bind_op allocate_page (\<lambda>pgno.
     bind_op (read_page_for_write pgno) (\<lambda>buf.
     bind_op (lift_op (init buf (btree_header_offset pgno))) (\<lambda>buf1.
       then_op (write_page pgno buf1) (ret_op pgno))))"

text \<open>The \<open>debug_assert_eq!\<close> on the allocated page panics in a debug build.\<close>

definition create_autovac :: "(bytes \<Rightarrow> nat \<Rightarrow> bytes result) \<Rightarrow> (pager, u32) op" where
  "create_autovac init =
     bind_op (\<lambda>p. (p, next_autovac_root_slot p)) (\<lambda>pgno_root.
     bind_op allocate_page (\<lambda>allocated.
       if allocated \<noteq> pgno_root then fail_op Panic
       else bind_op (read_page_for_write pgno_root) (\<lambda>buf.
            bind_op (lift_op (init buf (btree_header_offset pgno_root))) (\<lambda>buf1.
              then_op (write_page pgno_root buf1)
              (then_op (ptrmap_put pgno_root RootPage 0)
              (then_op (modify_op (with_header_mut (\<lambda>h. h\<lparr>largest_root_page := pgno_root\<rparr>))) (ret_op pgno_root)))))))"

definition create_table_btree_plain :: "(pager, u32) op" where
  "create_table_btree_plain = create_plain init_empty_leaf"

definition create_table_btree_autovac :: "(pager, u32) op" where
  "create_table_btree_autovac = create_autovac init_empty_leaf"

definition create_index_btree_autovac :: "(pager, u32) op" where
  "create_index_btree_autovac = create_autovac init_empty_index_leaf"

definition create_table_btree :: "(pager, u32) op" where
  "create_table_btree p = (if auto_vacuum p then create_table_btree_autovac p else create_table_btree_plain p)"

definition create_index_btree :: "(pager, u32) op" where
  "create_index_btree p = (if auto_vacuum p then create_index_btree_autovac p else create_plain init_empty_index_leaf p)"

end
