(* ===== verification/Btree_Drop.thy ===== *)
theory Btree_Drop
  imports Btree_Split Btree_Delete
begin

text \<open>
  Deleting a row from a leaf: the cell is removed and every page of its overflow chain joins the
  freelist, the other rows and pages are kept. Clearing a table that is one leaf does not look at its
  cells, so their overflow chains are lost.
\<close>

section \<open>Freeing pages\<close>

text \<open>What freeing the pages in \<open>K\<close> keeps: the pager, the geometry and every other page.\<close>

definition freed :: "u32 set \<Rightarrow> nat \<Rightarrow> pager \<Rightarrow> pager \<Rightarrow> bool" where
  "freed K n p q \<longleftrightarrow> pager_ok q \<and> in_range q = in_range p \<and> p_page_size q = p_page_size p \<and> p_usable_size q = p_usable_size p
     \<and> auto_vacuum q = auto_vacuum p \<and> (\<forall>j. j \<notin> K \<longrightarrow> view q j = view p j)
     \<and> freelist_count (p_header q) = freelist_count (p_header p) + of_nat n"

lemma freed_refl: "pager_ok p \<Longrightarrow> freed {} 0 p p"
  by (simp add: freed_def)

lemma freed_trans: "freed K m p q \<Longrightarrow> freed L n q r \<Longrightarrow> freed (K \<union> L) (m + n) p r"
  by (simp add: freed_def)

lemma freed_mono: "freed K n p q \<Longrightarrow> K \<subseteq> L \<Longrightarrow> freed L n p q"
  by (auto simp: freed_def)

text \<open>
  Pages on the freelist, from a first trunk page on: each of them is a trunk page without leaves, all
  zero but the number of the next trunk page; the last one points to \<open>tail\<close>.
\<close>

fun free_trunks :: "(u32 \<Rightarrow> bytes) \<Rightarrow> nat \<Rightarrow> u32 \<Rightarrow> u32 list \<Rightarrow> u32 \<Rightarrow> bool" where
  "free_trunks v n first [] tail \<longleftrightarrow> first = tail"
| "free_trunks v n first (k # ks) tail \<longleftrightarrow>
     first = k \<and> (\<exists>next_trunk. v k = put_at 0 (be_enc 4 next_trunk) (replicate n 0) \<and> free_trunks v n next_trunk ks tail)"

lemma free_trunks_append:
  "free_trunks v n first (xs @ ys) tail \<longleftrightarrow> (\<exists>mid. free_trunks v n first xs mid \<and> free_trunks v n mid ys tail)"
  by (induction xs arbitrary: first) auto

lemma free_trunks_cong:
  "free_trunks v n first ks tail \<Longrightarrow> (\<And>j. j \<in> set ks \<Longrightarrow> w j = v j) \<Longrightarrow> free_trunks w n first ks tail"
  by (induction ks arbitrary: first) auto

lemma header_mut_view: "view (with_header_mut f p) = view p" "pager_ok (with_header_mut f p) = pager_ok p"
proof -
  have b: "base_page (with_header_mut f p) = base_page p" by (rule ext) (simp add: with_header_mut_def base_page_def)
  show "view (with_header_mut f p) = view p"
    by (rule ext) (simp add: view_def b cong: option.case_cong, simp add: with_header_mut_def)
  show "pager_ok (with_header_mut f p) = pager_ok p"
    by (simp add: pager_ok_def cache_ok_def b) (simp add: with_header_mut_def)
qed

lemma free_page_ok:
  assumes "pager_ok p" and "in_range p k" and "\<not> auto_vacuum p" and "4 \<le> p_page_size p"
  shows "\<exists>q. free_page k p = (q, Inr ()) \<and> freed {k} 1 p q \<and> first_freelist_trunk (p_header q) = k
    \<and> view q k = put_at 0 (be_enc 4 (first_freelist_trunk (p_header p))) (replicate (p_page_size p) 0)"
proof -
  obtain p1 where p1: "get_page k p = (p1, Inr (view p k))" "pager_ok p1" "same_but_cache p p1" using get_page_view [OF assms(1,2)] by blast
  obtain p2 where p2: "journal_page k (view p k) p1 = (p2, Inr ())" "same_but_journal p1 p2" using journal_page_same by blast
  have ok2: "pager_ok p2" using pager_ok_journal [OF p2(2)] p1(2) by simp
  have f: "p_page_size p2 = p_page_size p" "p_header p2 = p_header p" "p_usable_size p2 = p_usable_size p" "in_range p2 = in_range p"
      "view p2 = view p" "p_page_count p2 = p_page_count p"
    using same_but_journal_fields [OF p2(2)] same_but_cache_fields [OF p1(3)] same_but_journal_view(1) [OF p2(2)] same_but_cache_view [OF p1(3)]
    by (simp_all add: in_range_def fun_eq_iff)
  let ?buf = "put_at 0 (be_enc 4 (first_freelist_trunk (p_header p2))) (replicate (length (view p k)) 0)"
  have l: "length (view p k) = p_page_size p" using length_view [OF assms(1,2)] .
  have lb: "length ?buf = p_page_size p2" using assms(4) l f(1) by simp
  have r2: "in_range p2 k" using assms(2) f(4) by simp
  let ?p3 = "p2\<lparr>p_dirty := put k ?buf (p_dirty p2)\<rparr>"
  note w = write_page_ok [OF ok2 r2 lb]
  let ?q = "with_header_mut (\<lambda>h. h\<lparr>first_freelist_trunk := k, freelist_count := freelist_count h + 1\<rparr>) ?p3"
  have vq: "view ?q = view ?p3" "pager_ok ?q"
    using w(2) by (simp_all add: header_mut_view)
  have "\<not> auto_vacuum ?q" "\<not> auto_vacuum p2" using assms(3) f(2) by (simp_all add: auto_vacuum_def with_header_mut_def)
  then have "free_page k p = (?q, Inr ())"
    using p1(1) p2(1) w(1) by (simp add: free_page_def Let_def with_header_mut_def)
  moreover have "freed {k} 1 p ?q"
    using vq w(3) f assms(3) \<open>\<not> auto_vacuum ?q\<close> by (simp add: freed_def with_header_mut_def in_range_def fun_eq_iff)
  moreover have "view ?q k = put_at 0 (be_enc 4 (first_freelist_trunk (p_header p))) (replicate (p_page_size p) 0)"
    using vq(1) w(3) l f(2) by simp
  ultimately show ?thesis by (intro exI [of _ ?q]) (simp add: with_header_mut_def)
qed

lemma free_chain_ok:
  "chain (view p) n ks body \<Longrightarrow> distinct ks \<Longrightarrow> \<forall>j \<in> set ks. in_range p j \<Longrightarrow> pager_ok p \<Longrightarrow> \<not> auto_vacuum p \<Longrightarrow>
   4 \<le> p_page_size p \<Longrightarrow> length ks \<le> d \<Longrightarrow>
   \<exists>q. free_overflow_chain d (hd ks) p = (q, Inr ()) \<and> freed (set ks) (length ks) p q
     \<and> free_trunks (view q) (p_page_size p) (first_freelist_trunk (p_header q)) (rev ks) (first_freelist_trunk (p_header p))"
proof (induction ks arbitrary: p d body)
  case (Cons k ks)
  have k: "k \<noteq> 0" "in_range p k" using Cons.prems(1,3) chain_pages_nonzero by auto
  obtain d' where d: "d = Suc d'" using Cons.prems(7) by (cases d) auto
  obtain p1 where p1: "get_page k p = (p1, Inr (view p k))" "pager_ok p1" "same_but_cache p p1" using get_page_view [OF Cons.prems(4) k(2)] by blast
  have f1: "view p1 = view p" "in_range p1 = in_range p" "p_page_size p1 = p_page_size p" "auto_vacuum p1 = auto_vacuum p" "freed {} 0 p p1" "p_header p1 = p_header p"
    using same_but_cache_view [OF p1(3)] same_but_cache_fields [OF p1(3)] p1(2) by (auto simp: in_range_def fun_eq_iff auto_vacuum_def freed_def)
  obtain p2 where p2: "free_page k p1 = (p2, Inr ())" "freed {k} 1 p1 p2" "first_freelist_trunk (p_header p2) = k"
      "view p2 k = put_at 0 (be_enc 4 (first_freelist_trunk (p_header p))) (replicate (p_page_size p) 0)"
    using free_page_ok [OF p1(2), of k] k(2) f1 Cons.prems(5,6) by auto
  have f2: "freed {k} 1 p p2" using freed_trans [OF f1(5) p2(2)] by simp
  have len: "4 \<le> length (view p k)" using length_view [OF Cons.prems(4) k(2)] Cons.prems(6) by simp
  have step: "free_overflow_chain d (hd (k # ks)) p = free_overflow_chain d' (be_u32 (sub 0 4 (view p k))) p2"
    using k(1) d p1(1) p2(1) len by (simp add: free_overflow_chain.simps [of "Suc d'" k])
  show ?case
  proof (cases ks)
    case Nil
    then have "be_u32 (sub 0 4 (view p k)) = 0" using Cons.prems(1) by simp
    then show ?thesis using step f2 Nil p2(3,4) by (simp add: free_overflow_chain.simps [of d' 0])
  next
    case (Cons k' ks')
    have c: "be_u32 (sub 0 4 (view p k)) = hd ks" "chain (view p) n ks (drop n body)" using Cons.prems(1) Cons by simp_all
    have dis: "k \<notin> set ks" "distinct ks" using Cons.prems(2) by auto
    have "chain (view p2) n ks (drop n body)"
      by (rule chain_cong [OF c(2)]) (use f2 dis(1) in \<open>auto simp: freed_def\<close>)
    moreover have "\<forall>j \<in> set ks. in_range p2 j" "pager_ok p2" "\<not> auto_vacuum p2" "4 \<le> p_page_size p2" "length ks \<le> d'"
      using Cons.prems(3,5-7) f2 d by (auto simp: freed_def)
    ultimately obtain q where q: "free_overflow_chain d' (hd ks) p2 = (q, Inr ())" "freed (set ks) (length ks) p2 q"
        "free_trunks (view q) (p_page_size p2) (first_freelist_trunk (p_header q)) (rev ks) (first_freelist_trunk (p_header p2))"
      using Cons.IH dis(2) by blast
    have "view q k = view p2 k" "p_page_size p2 = p_page_size p" using q(2) f2 dis(1) by (simp_all add: freed_def)
    then have "free_trunks (view q) (p_page_size p) (first_freelist_trunk (p_header q)) (rev (k # ks)) (first_freelist_trunk (p_header p))"
      using q(3) p2(3,4) by (auto simp: free_trunks_append)
    then show ?thesis using step c(1) q(1) freed_trans [OF f2 q(2)] by simp
  qed
qed simp

section \<open>Deleting a row\<close>

lemma kept_cell_ok:
  assumes "cell_at p cell x" and "480 \<le> p_usable_size p" and "cell_pointer hdr page i = Inr off"
    and "sub off (off + length cell) page = cell" and "off + length cell \<le> length page"
  shows "kept_cell page (p_usable_size p) hdr i = Inr cell"
proof -
  obtain l over ps n1 n2 where c: "local_payload_len (unat ps) (p_usable_size p) (p_usable_size p - 35) = (l, over)"
      "over \<longleftrightarrow> l < unat ps" "read_varint (drop off page) = Some (ps, n1)" "read_varint (drop (off + n1) page) = Some (fst x, n2)"
      "off + n1 \<le> length page" "length cell = n1 + n2 + l + (if over then 4 else 0)"
    by (rule cell_at_read [OF assms(1,2,4,5)])
  have "cell_on_page_size page off (p_usable_size p) = Inr (length cell)"
    using c by (simp add: cell_on_page_size_def varint_at_def get_range_def read_varint_i64_def drop_eq_sub Let_def)
  then show ?thesis using assms(3-5) by (simp add: kept_cell_def)
qed

lemma filter_upt_delete: "i < n \<Longrightarrow> filter (\<lambda>j. j \<noteq> i) [0..<n] = [0..<i] @ [Suc i..<n]"
proof -
  assume i: "i < n"
  then have "[0..<n] = [0..<i] @ i # [Suc i..<n]" using upt_add_eq_append [of 0 i "n - i"] by (simp add: upt_conv_Cons)
  then show ?thesis by (simp add: filter_id_conv)
qed

definition delete_nth :: "nat \<Rightarrow> 'a list \<Rightarrow> 'a list" where
  "delete_nth i xs = take i xs @ drop (Suc i) xs"

lemma map_nth_delete: "i < length xs \<Longrightarrow> map (\<lambda>j. xs ! j) (filter (\<lambda>j. j \<noteq> i) [0..<length xs]) = delete_nth i xs"
proof -
  assume i: "i < length xs"
  have "map (\<lambda>j. xs ! j) [0..<i] = take i xs" 
    using take_map [of i "\<lambda>j. xs ! j" "[0..<length xs]"] map_nth [of xs] i by simp
  moreover have "map (\<lambda>j. xs ! j) [Suc i..<length xs] = drop (Suc i) xs"
    using drop_map [of "Suc i" "\<lambda>j. xs ! j" "[0..<length xs]"] map_nth [of xs] by simp
  ultimately show ?thesis using filter_upt_delete [OF i] by (simp add: delete_nth_def)
qed

lemma kept_cells_ok:
  assumes "list_all2 (cell_at p) cells rs" and "480 \<le> p_usable_size p" and "n_cells hdr = length cells" and "i < length cells"
    and "\<And>i. i < length cells \<Longrightarrow> \<exists>off. cell_pointer hdr page i = Inr off
       \<and> sub off (off + length (cells ! i)) page = cells ! i \<and> off + length (cells ! i) \<le> length page"
  shows "map_result (kept_cell page (p_usable_size p) hdr) (filter (\<lambda>j. j \<noteq> i) [0..<n_cells hdr]) = Inr (delete_nth i cells)"
proof -
  let ?is = "filter (\<lambda>j. j \<noteq> i) [0..<n_cells hdr]"
  have "kept_cell page (p_usable_size p) hdr j = Inr (cells ! j)" if "j \<in> set ?is" for j
    using assms(3) assms(5) [of j] kept_cell_ok [OF list_all2_nthD [OF assms(1), of j] assms(2)] that by auto
  from map_result_Inr [of ?is, OF this] show ?thesis using map_nth_delete [OF assms(4)] assms(3) by simp
qed

lemma rows_size_delete: "i < length rs \<Longrightarrow> rows_size u (delete_nth i rs) \<le> rows_size u rs"
  using id_take_nth_drop [of i rs] rows_size_append [of u "take i rs" "rs ! i # drop (Suc i) rs"]
  by (simp add: delete_nth_def rows_size_def)

lemma freed_cell_at:
  assumes "freed K n p q" and "cell_at p cell x" and "K \<inter> set (snd (snd x)) = {}"
  shows "cell_at q cell x"
proof (rule cell_at_frame [OF assms(2)])
  have "\<forall>j \<in> set (snd (snd x)). in_range p j" using assms(2) by (cases x) (simp add: cell_at_def)
  then show "in_range q j \<and> view q j = view p j" if "j \<in> set (snd (snd x))" for j
    using assms(1,3) that by (auto simp: freed_def)
qed (use assms(1) in \<open>simp add: freed_def\<close>)

lemma pages_leaf_disjoint:
  assumes "distinct (pages (TLeaf k rs))" and "i < length rs"
  shows "distinct (snd (snd (rs ! i))) \<and> (\<forall>j < length rs. j \<noteq> i \<longrightarrow> set (snd (snd (rs ! i))) \<inter> set (snd (snd (rs ! j))) = {})
    \<and> (\<forall>x \<in> set rs. k \<notin> set (snd (snd x)))"
proof -
  let ?f = "\<lambda>x :: i64 \<times> bytes \<times> u32 list. snd (snd x)"
  have split: "distinct (concat (map ?f (take a rs)) @ ?f (rs ! a) @ concat (map ?f (drop (Suc a) rs)))" if "a < length rs" for a
    using assms(1) arg_cong [OF id_take_nth_drop [OF that], of "\<lambda>xs. concat (map ?f xs)"] by simp
  have d: "distinct (?f (rs ! i))" using split [OF assms(2)] unfolding distinct_append by blast
  have lt: "set (?f (rs ! a)) \<inter> set (?f (rs ! b)) = {}" if ab: "a < b" "b < length rs" for a b
  proof -
    have a: "a < length rs" using ab by simp
    have "set (?f (rs ! a)) \<inter> set (concat (map ?f (drop (Suc a) rs))) = {}"
      using split [OF a] unfolding distinct_append by blast
    moreover have "drop (Suc a) rs ! (b - Suc a) = rs ! b" "b - Suc a < length (drop (Suc a) rs)" using ab by auto
    then have "rs ! b \<in> set (drop (Suc a) rs)" by (metis nth_mem)
    then have "set (?f (rs ! b)) \<subseteq> set (concat (map ?f (drop (Suc a) rs)))" by auto
    ultimately show ?thesis by blast
  qed
  have "set (?f (rs ! i)) \<inter> set (?f (rs ! j)) = {}" if j: "j < length rs" "j \<noteq> i" for j
  proof (cases "i < j")
    case False
    then show ?thesis using lt [of j i] assms(2) j by (simp add: Int_commute)
  qed (use lt j in blast)
  then show ?thesis using d assms(1) by simp
qed

lemma deleted_cells_at:
  assumes "list_all2 (cell_at p) cells rs" and "freed K n p q" and "i < length rs"
    and "\<And>j. j < length rs \<Longrightarrow> j \<noteq> i \<Longrightarrow> K \<inter> set (snd (snd (rs ! j))) = {}"
  shows "list_all2 (cell_at q) (delete_nth i cells) (delete_nth i rs)"
proof -
  have len: "length cells = length rs" using assms(1) by (rule list_all2_lengthD)
  have c: "cell_at q (cells ! j) (rs ! j)" if "j < length rs" "j \<noteq> i" for j
    using freed_cell_at [OF assms(2) list_all2_nthD2 [OF assms(1) that(1)]] assms(4) that by blast
  have "list_all2 (cell_at q) (take i cells) (take i rs)" "list_all2 (cell_at q) (drop (Suc i) cells) (drop (Suc i) rs)"
    using c len assms(3) by (auto simp: list_all2_conv_all_nth)
  then show ?thesis by (simp add: delete_nth_def list_all2_appendI)
qed

lemma read_for_write_header:
  assumes "alloc_ok_pager p" and "in_range p k" and "read_page_for_write k p = (q, r)"
  shows "p_header q = p_header p"
proof -
  have "pager_ok p" using assms(1) by (simp add: alloc_ok_pager_def)
  then obtain p1 where p1: "get_page k p = (p1, Inr (view p k))" "same_but_cache p p1" using get_page_view assms(2) by blast
  obtain p2 where "journal_page k (view p k) p1 = (p2, Inr ())" "same_but_journal p1 p2" using journal_page_same by blast
  then show ?thesis using assms(3) p1 by (auto simp: read_page_for_write_def same_but_journal_fields same_but_cache_fields)
qed

lemma read_node_header:
  assumes "alloc_ok_pager p" and "in_range p k" and "read_node k p = (q, r)"
  shows "p_header q = p_header p"
proof -
  have "pager_ok p" using assms(1) by (simp add: alloc_ok_pager_def)
  then obtain p1 where "get_page k p = (p1, Inr (view p k))" "same_but_cache p p1" using get_page_view assms(2) by blast
  then show ?thesis using assms(3) by (auto simp: read_node_def bind_op_def same_but_cache_fields split: sum.splits)
qed

text \<open>The overflow chain of the deleted row.\<close>

lemma free_row_chain:
  assumes "cell_at p cell x" and "alloc_ok_pager p" and "sub off (off + length cell) page = cell" and "off + length cell \<le> length page"
    and "distinct (snd (snd x))" and "\<not> auto_vacuum p" and "length (snd (snd x)) \<le> d"
  obtains c q where "parse_table_leaf_cell page off (p_usable_size p) = Inr c"
    "(case tl_overflow_page c of None \<Rightarrow> ret_op () | Some first \<Rightarrow> free_overflow_chain d first) p = (q, Inr ())"
    "freed (set (snd (snd x))) (length (snd (snd x))) p q"
    "free_trunks (view q) (p_page_size p) (first_freelist_trunk (p_header q)) (rev (snd (snd x))) (first_freelist_trunk (p_header p))"
proof -
  obtain r pl ks where x: "x = (r, pl, ks)" using prod_cases3 by blast
  let ?u = "p_usable_size p"
  have u: "480 \<le> ?u" "4 \<le> p_page_size p" "pager_ok p" using assms(2) by (auto simp: alloc_ok_pager_def)
  have tc: "table_cell (view p) ?u cell r pl ks" "\<forall>j \<in> set ks. in_range p j" using assms(1) x by (auto simp: cell_at_def)
  obtain n over where lo: "local_payload_len (length pl) ?u (table_leaf_max_local ?u) = (n, over)" by force
  let ?c = "\<lparr>tl_payload_size = of_nat (length pl), tl_rowid = r, tl_local_payload = take n pl,
      tl_overflow_page = (if over then Some (hd ks) else None)\<rparr>"
  have pc: "parse_table_leaf_cell page off ?u = Inr ?c" by (rule parse_table_leaf_cell_ok(1) [OF tc(1) u(1) assms(3,4) lo])
  show thesis
  proof (cases over)
    case True
    then have "chain (view p) (?u - 4) ks (drop n pl)" using tc(1) lo by (auto simp: table_cell_def payload_at_def)
    from free_chain_ok [OF this _ tc(2) u(3) assms(6) u(2), of d] show thesis
      using that [OF pc] True assms(5,7) x by auto
  next
    case False
    then have "ks = []" using tc(1) lo by (auto simp: table_cell_def payload_at_def)
    then show thesis using that [OF pc] False freed_refl [OF u(3)] x by simp
  qed
qed

lemma leaf_delete_ok:
  assumes "alloc_ok_pager p" and "leaf_at p k rs" and "i < length rs" and "distinct (pages (TLeaf k rs))" and "\<not> auto_vacuum p"
    and "btree_header_offset k + 8 + rows_size (p_usable_size p) rs \<le> p_page_size p" and "length (snd (snd (rs ! i))) \<le> d"
  shows "\<exists>q. leaf_delete_current d k i p = (q, Inr ()) \<and> leaf_at q k (delete_nth i rs)
    \<and> freed (insert k (set (snd (snd (rs ! i))))) (length (snd (snd (rs ! i)))) p q
    \<and> free_trunks (view q) (p_page_size p) (first_freelist_trunk (p_header q)) (rev (snd (snd (rs ! i)))) (first_freelist_trunk (p_header p))"
proof -
  let ?u = "p_usable_size p" and ?h = "btree_header_offset k" and ?ks = "snd (snd (rs ! i))"
  have u: "480 \<le> ?u" "p_page_size p \<le> 65536" using assms(1) by (auto simp: alloc_ok_pager_def)
  obtain hdr cells where hdr: "page_header_parse (view p k) ?h = Inr hdr" "ph_page_type hdr = LeafTable" "n_cells hdr = length cells"
      and cells: "list_all2 (cell_at p) cells rs" and k: "in_range p k"
      and ptr: "\<And>i. i < length cells \<Longrightarrow> \<exists>off. cell_pointer hdr (view p k) i = Inr off
       \<and> sub off (off + length (cells ! i)) (view p k) = cells ! i \<and> off + length (cells ! i) \<le> length (view p k)"
    using read_leaf_cells [OF assms(1,2)] by metis
  have len: "i < length cells" "length cells = length rs" using list_all2_lengthD [OF cells] assms(3) by simp_all
  obtain p1 where p1: "read_page_for_write k p = (p1, Inr (view p k))" "pager_alloc.same_store p p1" "auto_vacuum p1 = auto_vacuum p"
    using pager_update.rdw_ok [OF assms(1) k] by blast
  have f1: "alloc_ok_pager p1" "p_usable_size p1 = ?u" "p_page_size p1 = p_page_size p" "p_header p1 = p_header p"
    using p1 read_for_write_header [OF assms(1) k p1(1)] by (auto simp: pager_alloc.same_store_def)
  have p1f: "freed {} 0 p p1" using p1(2,3) f1 by (simp add: freed_def pager_alloc.same_store_def alloc_ok_pager_def)
  obtain off where off: "cell_pointer hdr (view p k) i = Inr off" "sub off (off + length (cells ! i)) (view p k) = cells ! i"
      "off + length (cells ! i) \<le> length (view p k)"
    using ptr [OF len(1)] by blast
  have ci: "cell_at p1 (cells ! i) (rs ! i)" using list_all2_nthD [OF cells len(1)] cell_at_same [OF p1(2)] by simp
  have dks: "distinct ?ks" "\<forall>j < length rs. j \<noteq> i \<longrightarrow> set ?ks \<inter> set (snd (snd (rs ! j))) = {}" "\<forall>x \<in> set rs. k \<notin> set (snd (snd x))"
    using pages_leaf_disjoint [OF assms(4,3)] by blast+
  obtain c p2 where p2: "parse_table_leaf_cell (view p k) off (p_usable_size p1) = Inr c"
      "(case tl_overflow_page c of None \<Rightarrow> ret_op () | Some first \<Rightarrow> free_overflow_chain d first) p1 = (p2, Inr ())"
      "freed (set ?ks) (length ?ks) p1 p2"
      "free_trunks (view p2) (p_page_size p1) (first_freelist_trunk (p_header p2)) (rev ?ks) (first_freelist_trunk (p_header p1))"
    using free_row_chain [OF ci f1(1) off(2,3) dks(1), of d] p1(3) assms(5,7) by metis
  have f2: "freed (set ?ks) (length ?ks) p p2" using freed_trans [OF p1f p2(3)] by simp
  have "cells_size (delete_nth i cells) = rows_size ?u (delete_nth i rs) \<and> [] \<notin> set (delete_nth i cells)"
    by (rule cells_size_rows [OF _ u(1)]) (simp add: delete_nth_def cells list_all2_appendI list_all2_takeI list_all2_dropI)
  then have fit: "?h + header_size_of LeafTable + cells_size (delete_nth i cells) \<le> length (view p k)" "[] \<notin> set (delete_nth i cells)"
    using rows_size_delete [OF assms(3), of ?u] assms(6) pager_alloc.length_vw [OF assms(1) k] by (simp_all add: header_size_of_def is_leaf_def)
  obtain pg where pg: "write_page_cells (view p k) ?h LeafTable None (delete_nth i cells) = Inr pg" "length pg = p_page_size p"
      "node_page pg ?h LeafTable None (delete_nth i cells)"
    using write_page_cells_node [OF _ _ fit(2,1), of None] u(2) pager_alloc.length_vw [OF assms(1) k] by (auto simp: is_leaf_def)
  have k2: "pager_ok p2" "in_range p2 k" "length pg = p_page_size p2" using f2 k pg(2) by (simp_all add: freed_def)
  let ?q = "p2\<lparr>p_dirty := put k pg (p_dirty p2)\<rparr>"
  note w = write_page_ok [OF k2]
  have fq: "freed (insert k (set ?ks)) (length ?ks) p ?q"
    using f2 w(2,3) by (auto simp: freed_def in_range_def fun_eq_iff auto_vacuum_def)
  have "list_all2 (cell_at ?q) (delete_nth i cells) (delete_nth i rs)"
    by (rule deleted_cells_at [OF cells fq assms(3)]) (use dks in auto)
  then have "leaf_at ?q k (delete_nth i rs)"
    using pg(3) w(3) k2(2) by (auto simp: leaf_at_def in_range_def)
  moreover have "leaf_delete_current d k i p = (?q, Inr ())"
    using p1(1) hdr len off(1) p2(1,2) kept_cells_ok [OF cells u(1) hdr(3) len(1) ptr] pg(1) w(1) f1(2)
    by (simp add: leaf_delete_current_def Let_def f2 [unfolded freed_def])
  moreover have "free_trunks (view ?q) (p_page_size p) (first_freelist_trunk (p_header ?q)) (rev ?ks) (first_freelist_trunk (p_header p))"
  proof -
    have "k \<notin> set ?ks" using dks(3) nth_mem [OF assms(3)] by blast
    then have "view ?q j = view p2 j" if "j \<in> set (rev ?ks)" for j using that w(3) by auto
    from free_trunks_cong [OF p2(4) this] show ?thesis using f1 by simp
  qed
  ultimately show ?thesis using fq by blast
qed

section \<open>Clearing a leaf\<close>

lemma init_empty_leaf_node:
  assumes "h + 8 \<le> length page" and "length page \<le> 65536"
  shows "\<exists>q. init_empty_leaf page h = Inr q \<and> length q = length page \<and> node_page q h LeafTable None []"
proof -
  define q where "q = put_at (h + 7) [0] (put_at (h + 5) (be_enc 2 (stored_start (length page))) (put_at (h + 3) (be_enc 2 (0 :: u16))
      (put_at (h + 1) (be_enc 2 (0 :: u16)) (put_at h [0x0d] (zero_from h page)))))"
  have run: "init_empty_leaf page h = Inr q" using assms by (simp add: init_empty_leaf_def init_leaf_page_def empty_header_def q_def)
  have l: "length q = length page" using assms by (simp add: q_def)
  have "sub (h + 3) (h + 5) q = be_enc 2 (0 :: u16)" "sub (h + 5) (h + 7) q = be_enc 2 (stored_start (length page))" "sub h (h + 1) q = [0x0d]"
    using assms by (simp_all add: q_def sub_put_at_disj sub_put_at_same)
  then have "holds 8 h q []" "q ! h = 0x0d"
    using holds_empty_page [of h 8 q] nth_sub [of 0 "h + 1" h q] l assms by simp_all
  then show ?thesis using run l by (simp add: node_page_def header_size_of_def is_leaf_def)
qed

lemma clear_leaf_ok:
  assumes "alloc_ok_pager p" and "leaf_at p k rs"
  shows "\<exists>q. btree_clear d k p = (q, Inr 0) \<and> leaf_at q k [] \<and> freed {k} 0 p q"
proof -
  let ?h = "btree_header_offset k"
  have u: "480 \<le> p_page_size p" "p_page_size p \<le> 65536" using assms(1) by (auto simp: alloc_ok_pager_def)
  obtain p1 hdr where p1: "read_node k p = (p1, Inr (view p k, hdr))" "pager_alloc.same_store p p1" "auto_vacuum p1 = auto_vacuum p"
      "ph_page_type hdr = LeafTable" and k: "in_range p k"
    using read_leaf_cells [OF assms] by metis
  have k0: "k \<noteq> 0" using k by (simp add: in_range_def)
  have f1: "alloc_ok_pager p1" "in_range p1 k" "view p1 = view p" "p_page_size p1 = p_page_size p"
    using p1(2) k by (auto simp: pager_alloc.same_store_def)
  have h1: "p_header p1 = p_header p" using read_node_header [OF assms(1) k p1(1)] .
  obtain p2 where p2: "read_page_for_write k p1 = (p2, Inr (view p1 k))" "pager_alloc.same_store p1 p2" "auto_vacuum p2 = auto_vacuum p1"
    using pager_update.rdw_ok [OF f1(1,2)] by blast
  have h2: "p_header p2 = p_header p" using read_for_write_header [OF f1(1,2) p2(1)] h1 by simp
  have f2: "freed {} 0 p p2"
    using p1(2,3) p2(2,3) h2 by (simp add: freed_def pager_alloc.same_store_def alloc_ok_pager_def)
  have len: "length (view p k) = p_page_size p" using pager_alloc.length_vw [OF assms(1) k] .
  have "?h + 8 \<le> length (view p k)" using u len by (simp add: btree_header_offset_def)
  then obtain pg where pg: "init_empty_leaf (view p k) ?h = Inr pg" "length pg = p_page_size p" "node_page pg ?h LeafTable None []"
    using init_empty_leaf_node [of ?h "view p k"] len u by auto
  have k2: "pager_ok p2" "in_range p2 k" "length pg = p_page_size p2" using f2 k pg(2) by (simp_all add: freed_def)
  let ?q = "p2\<lparr>p_dirty := put k pg (p_dirty p2)\<rparr>"
  note w = write_page_ok [OF k2]
  have fq: "freed {k} 0 p ?q" using f2 w(2,3) by (auto simp: freed_def in_range_def fun_eq_iff auto_vacuum_def)
  moreover have "leaf_at ?q k []" using pg(3) w(3) k2(2) by (auto simp: leaf_at_def in_range_def)
  moreover have "btree_clear d k p = (?q, Inr 0)"
    using k0 p1(1,4) p2(1) f1(3) pg(1) w(1) by (simp add: btree_clear_def)
  ultimately show ?thesis by blast
qed

text \<open>A table with one row of 600 bytes, most of them on an overflow page.\<close>

lemma overflow_table: "\<exists>p ks. ks \<noteq> [] \<and> table_ok p (TLeaf 2 [(1, replicate 600 5, ks)])
    \<and> \<not> auto_vacuum p \<and> p_usable_size p = 512 \<and> p_page_size p = 512"
proof -
  let ?p = "leaf_db []" and ?pl = "replicate 600 (5 :: u8)"
  have t: "table_ok ?p (TLeaf 2 [])" using leaf_db_table [of "[]"] by (simp add: leaf_rows_def)
  then have a: "alloc_ok_pager ?p" "tree_at ?p (TLeaf 2 [])" by (simp_all add: table_ok_def)
  have "pages_for ?p (length ?pl) \<le> pages_left ?p" by (simp add: pages_for_def leaf_db_fields)
  then obtain p1 cell ks where p1: "table_cell (view p1) 512 cell 1 ?pl ks" "pager_alloc.extends (pages_for ?p (length ?pl)) ?p p1"
      "distinct ks" "\<forall>j \<in> set ks. in_range p1 j \<and> \<not> in_range ?p j" "build_table_leaf_cell 1 ?pl (p_usable_size ?p) ?p = (p1, Inr cell)"
    using build_table_leaf_cell_ok [OF a(1), of ?pl 1] by (auto simp: leaf_db_fields)
  note e = p1(2) [unfolded pager_alloc.extends_def]
  have ks: "ks \<noteq> []" using p1(1) by (auto simp: table_cell_def payload_at_def local_payload_len_def table_leaf_max_local_def Let_def)
  have c: "cell_at p1 cell (1, ?pl, ks)" using p1(1,4) e by (simp add: cell_at_def leaf_db_fields)
  have r: "in_range ?p 2" by (simp add: in_range_def leaf_db_fields)
  have len: "length cell = cell_len 512 1 600" "cell \<noteq> []" using table_cell_length [OF p1(1)] by simp_all
  have "leaf_free_space (view ?p 2) 0 = 504"
    using write_page_cells_free [of "replicate 512 0" LeafTable 0 "[]"] write_page_cells_node [of "replicate 512 0" None LeafTable "[]" 0]
    by (auto simp: leaf_db_fields sample_page_def is_leaf_def header_size_of_def)
  moreover have "cell_len 512 1 600 \<le> 500"
    using varint_len_bounds(2) [of 1] varint_len_bounds(2) [of 600]
    by (simp add: cell_len_def local_payload_len_def table_leaf_max_local_def Let_def)
  ultimately have room: "length cell + 2 \<le> leaf_free_space (view p1 2) (btree_header_offset 2)"
    using e r len by (simp add: btree_header_offset_def)
  have n2: "2 \<notin> set ks" using p1(4) r by auto
  have l1: "leaf_at p1 2 []" "alloc_ok_pager p1" "2 \<notin> set (snd (snd (1 :: i64, ?pl, ks)))" "distinct (pages (TLeaf 2 []))"
    using tree_at_extends [OF p1(2) a(2)] e n2 by simp_all
  obtain q where q: "leaf_at q 2 (insert_row (1, ?pl, ks) [])" "pager_update.changes {2} 0 p1 q"
    using insert_leaf_room [OF l1(2,1) c len(2) l1(3,4) room, of 0 "[]"] by blast
  then have "table_ok q (TLeaf 2 [(1, ?pl, ks)])" using p1(3) n2 by (simp add: table_ok_def insert_row_def pager_update.changes_def)
  moreover have "\<not> auto_vacuum q" "p_usable_size q = 512" "p_page_size q = 512"
    using q(2) e leaf_db_fields(8) build_keeps_avac [OF a(1) p1(5)] by (simp_all add: pager_update.changes_def leaf_db_fields)
  ultimately show ?thesis using ks by blast
qed

lemma overflow_row_fits: "btree_header_offset 2 + 8 + rows_size 512 [(1, replicate 600 5, ks)] \<le> 512"
  using varint_len_bounds(2) [of 1] varint_len_bounds(2) [of 600]
  by (simp add: rows_size_def cell_len_def local_payload_len_def table_leaf_max_local_def btree_header_offset_def Let_def)

section \<open>Properties\<close>

text \<open>
  C16. Deleting a row from a leaf, in a database without auto-vacuum, removes exactly that row: the leaf
  holds the other rows in order; the pages of the row's overflow chain, the last one first, are the
  first trunk pages of the freelist, each of them all zero but the link to the next one, with the
  former freelist behind them and their number added to its length; and all pages but the leaf and
  that chain are unchanged.
\<close>

theorem leaf_delete_removes_row:
  assumes "alloc_ok_pager p" and "leaf_at p k rs" and "i < length rs" and "distinct (pages (TLeaf k rs))" and "\<not> auto_vacuum p"
    and "btree_header_offset k + 8 + rows_size (p_usable_size p) rs \<le> p_page_size p" and "length (snd (snd (rs ! i))) \<le> d"
  shows "\<exists>q. leaf_delete_current d k i p = (q, Inr ()) \<and> pager_ok q \<and> leaf_at q k (take i rs @ drop (Suc i) rs)
    \<and> freelist_count (p_header q) = freelist_count (p_header p) + of_nat (length (snd (snd (rs ! i))))
    \<and> free_trunks (view q) (p_page_size p) (first_freelist_trunk (p_header q)) (rev (snd (snd (rs ! i)))) (first_freelist_trunk (p_header p))
    \<and> (\<forall>j. j \<noteq> k \<longrightarrow> j \<notin> set (snd (snd (rs ! i))) \<longrightarrow> view q j = view p j)"
  using leaf_delete_ok [OF assms] by (auto simp: freed_def delete_nth_def)

theorem leaf_delete_removes_row_witness:
  "\<exists>p ks q. ks \<noteq> [] \<and> table_ok p (TLeaf 2 [(1, replicate 600 5, ks)])
     \<and> leaf_delete_current (length ks) 2 0 p = (q, Inr ()) \<and> leaf_at q 2 []
     \<and> free_trunks (view q) 512 (first_freelist_trunk (p_header q)) (rev ks) (first_freelist_trunk (p_header p))"
proof -
  obtain p ks where p: "ks \<noteq> []" "table_ok p (TLeaf 2 [(1, replicate 600 5, ks)])" "\<not> auto_vacuum p"
      "p_usable_size p = 512" "p_page_size p = 512"
    using overflow_table by blast
  let ?rs = "[(1, replicate 600 5, ks)] :: (i64 \<times> bytes \<times> u32 list) list"
  have t: "alloc_ok_pager p" "leaf_at p 2 ?rs" "0 < length ?rs" "distinct (pages (TLeaf 2 ?rs))"
    using p(2) by (simp_all add: table_ok_def)
  have "length (snd (snd (?rs ! 0))) \<le> length ks" by simp
  from leaf_delete_removes_row [OF t p(3) _ this] show ?thesis
    using p overflow_row_fits [of ks] by (simp add: p(4,5)) blast
qed

text \<open>
  C28. Clearing a table that is a single leaf empties the leaf but frees nothing: it returns zero, the
  freelist keeps its length, and every page of the rows' overflow chains stays as it was, reachable
  from no tree.
\<close>

theorem clear_leaf_leaks_overflow:
  assumes "table_ok p (TLeaf k rs)"
  shows "\<exists>q. btree_clear d k p = (q, Inr 0) \<and> leaf_at q k [] \<and> freelist_count (p_header q) = freelist_count (p_header p)
    \<and> (\<forall>x \<in> set rs. \<forall>j \<in> set (snd (snd x)). in_range q j \<and> view q j = view p j)"
proof -
  have t: "alloc_ok_pager p" "leaf_at p k rs" "distinct (pages (TLeaf k rs))" using assms by (simp_all add: table_ok_def)
  obtain q where q: "btree_clear d k p = (q, Inr 0)" "leaf_at q k []" "freed {k} 0 p q" using clear_leaf_ok [OF t(1,2)] by blast
  have "in_range q j \<and> view q j = view p j" if "x \<in> set rs" "j \<in> set (snd (snd x))" for x j
  proof -
    have "in_range p j" using leaf_pages_in_range [OF t(2), of j] that by auto
    moreover have "j \<noteq> k" using t(3) that by auto
    ultimately show ?thesis using q(3) by (simp add: freed_def)
  qed
  then show ?thesis using q by (auto simp: freed_def)
qed

theorem clear_leaf_leaks_overflow_witness:
  "\<exists>p ks q. ks \<noteq> [] \<and> table_ok p (TLeaf 2 [(1, replicate 600 5, ks)]) \<and> btree_clear 0 2 p = (q, Inr 0) \<and> leaf_at q 2 []
     \<and> freelist_count (p_header q) = freelist_count (p_header p) \<and> (\<forall>j \<in> set ks. view q j = view p j)"
proof -
  obtain p ks where p: "ks \<noteq> []" "table_ok p (TLeaf 2 [(1, replicate 600 5, ks)])" using overflow_table by blast
  from clear_leaf_leaks_overflow [OF p(2), of 0] show ?thesis using p by auto
qed

end
