(* ===== verification/Text_Encoding.thy ===== *)
theory Text_Encoding
  imports Header
begin

text \<open>
  Text as Rust's \<open>String\<close> holds it: a byte list in well-formed UTF-8. \<open>decode_text\<close>
  (\<open>format/serial_type.rs\<close>) reads a TEXT body in one of the three database encodings with the
  standard library's \<open>from_utf8_lossy\<close> and \<open>from_utf16_lossy\<close>, which are modelled here with
  their replacement of every ill-formed maximal prefix by U+FFFD. The lemmas show that decoding
  always yields well-formed UTF-8 and that well-formed UTF-8 is decoded to itself.
\<close>

section \<open>UTF-8\<close>

definition in_range :: "nat \<Rightarrow> nat \<Rightarrow> u8 \<Rightarrow> bool" where
  "in_range lo hi b \<longleftrightarrow> lo \<le> unat b \<and> unat b \<le> hi"

definition is_cont :: "u8 \<Rightarrow> bool" where
  "is_cont b \<longleftrightarrow> in_range 0x80 0xBF b"

definition utf8_width :: "u8 \<Rightarrow> nat" where
  "utf8_width b =
     (if in_range 0 0x7F b then 1 else if in_range 0xC2 0xDF b then 2
      else if in_range 0xE0 0xEF b then 3 else if in_range 0xF0 0xF4 b then 4 else 0)"

definition second_ok :: "u8 \<Rightarrow> u8 \<Rightarrow> bool" where
  "second_ok b0 b1 \<longleftrightarrow>
     (if b0 = 0xE0 then in_range 0xA0 0xBF b1
      else if b0 = 0xED then in_range 0x80 0x9F b1
      else if b0 = 0xF0 then in_range 0x90 0xBF b1
      else if b0 = 0xF4 then in_range 0x80 0x8F b1
      else is_cont b1)"

definition byte_is :: "(u8 \<Rightarrow> bool) \<Rightarrow> bytes \<Rightarrow> nat \<Rightarrow> bool" where
  "byte_is P bs i \<longleftrightarrow> i < length bs \<and> P (bs ! i)"

text \<open>
  The next character of a non-empty buffer: whether it is well formed, and how many bytes it or
  the ill-formed prefix takes.
\<close>

definition utf8_next :: "bytes \<Rightarrow> bool \<times> nat" where
  "utf8_next bs =
     (let w = utf8_width (bs ! 0) in
      if w = 0 then (False, 1)
      else if w = 1 then (True, 1)
      else if \<not> byte_is (second_ok (bs ! 0)) bs 1 then (False, 1)
      else if w = 2 then (True, 2)
      else if \<not> byte_is is_cont bs 2 then (False, 2)
      else if w = 3 then (True, 3)
      else if \<not> byte_is is_cont bs 3 then (False, 3)
      else (True, 4))"

lemma utf8_next_pos: "utf8_next bs = (ok, n) \<Longrightarrow> 1 \<le> n"
  by (auto simp: utf8_next_def Let_def split: if_splits)

lemma utf8_next_fits: "bs \<noteq> [] \<Longrightarrow> utf8_next bs = (ok, n) \<Longrightarrow> n \<le> length bs"
  by (cases bs) (auto simp: utf8_next_def byte_is_def Let_def Suc_le_eq split: if_splits)

definition replacement_char :: bytes where
  "replacement_char = [0xEF, 0xBF, 0xBD]"

function from_utf8_lossy :: "bytes \<Rightarrow> bytes" where
  "from_utf8_lossy bs =
     (if bs = [] then []
      else (case utf8_next bs of
              (ok, n) \<Rightarrow> (if ok then take n bs else replacement_char) @ from_utf8_lossy (drop n bs)))"
  by pat_completeness auto
termination
  by (relation "measure length")
     (auto dest: utf8_next_pos [OF sym] simp: Suc_le_eq)

function valid_utf8 :: "bytes \<Rightarrow> bool" where
  "valid_utf8 bs \<longleftrightarrow>
     (if bs = [] then True
      else (case utf8_next bs of (ok, n) \<Rightarrow> ok \<and> valid_utf8 (drop n bs)))"
  by pat_completeness auto
termination
  by (relation "measure length")
     (auto dest: utf8_next_pos [OF sym] simp: Suc_le_eq)

declare from_utf8_lossy.simps [simp del] valid_utf8.simps [simp del]

section \<open>UTF-16\<close>

definition byte_of :: "nat \<Rightarrow> u8" where
  "byte_of n = of_nat n"

definition encode_utf8 :: "nat \<Rightarrow> bytes" where
  "encode_utf8 c =
     (if c < 0x80 then [byte_of c]
      else if c < 0x800 then [byte_of (0xC0 + c div 64), byte_of (0x80 + c mod 64)]
      else if c < 0x10000
      then [byte_of (0xE0 + c div 4096), byte_of (0x80 + c div 64 mod 64), byte_of (0x80 + c mod 64)]
      else [byte_of (0xF0 + c div 262144), byte_of (0x80 + c div 4096 mod 64),
            byte_of (0x80 + c div 64 mod 64), byte_of (0x80 + c mod 64)])"

definition is_surrogate :: "nat \<Rightarrow> bool" where
  "is_surrogate u \<longleftrightarrow> 0xD800 \<le> u \<and> u \<le> 0xDFFF"

definition is_low_surrogate :: "nat \<Rightarrow> bool" where
  "is_low_surrogate u \<longleftrightarrow> 0xDC00 \<le> u \<and> u \<le> 0xDFFF"

fun from_utf16_lossy :: "nat list \<Rightarrow> bytes" where
  "from_utf16_lossy [] = []"
| "from_utf16_lossy [u] = (if is_surrogate u then replacement_char else encode_utf8 u)"
| "from_utf16_lossy (u # v # us) =
     (if \<not> is_surrogate u then encode_utf8 u @ from_utf16_lossy (v # us)
      else if is_low_surrogate u then replacement_char @ from_utf16_lossy (v # us)
      else if \<not> is_low_surrogate v then replacement_char @ from_utf16_lossy (v # us)
      else encode_utf8 (0x10000 + (u - 0xD800) * 1024 + (v - 0xDC00)) @ from_utf16_lossy us)"

text \<open>\<open>chunks_exact(2)\<close>, each pair read in the given byte order; an odd last byte is dropped.\<close>

fun utf16_units :: "text_encoding \<Rightarrow> bytes \<Rightarrow> u16 list" where
  "utf16_units e (a # b # bs) =
     (if e = Utf16Be then be_dec [a, b] else le_dec [a, b]) # utf16_units e bs"
| "utf16_units e bs = []"

definition decode_text :: "bytes \<Rightarrow> text_encoding \<Rightarrow> bytes" where
  "decode_text bs e =
     (if e = Utf8 then from_utf8_lossy bs else from_utf16_lossy (map unat (utf16_units e bs)))"

section \<open>Decoded text is well formed\<close>

lemma from_utf8_lossy_Nil [simp]: "from_utf8_lossy [] = []"
  by (simp add: from_utf8_lossy.simps)

lemma valid_utf8_Nil [simp]: "valid_utf8 []"
  by (simp add: valid_utf8.simps)

lemma from_utf8_lossy_valid: "valid_utf8 bs \<Longrightarrow> from_utf8_lossy bs = bs"
proof (induction bs rule: from_utf8_lossy.induct)
  case (1 bs)
  show ?case
  proof (cases "bs = []")
    case False
    obtain ok n where n: "utf8_next bs = (ok, n)" by force
    with False 1 have "ok" "from_utf8_lossy (drop n bs) = drop n bs"
      by (simp_all add: valid_utf8.simps [of bs])
    with False n show ?thesis by (simp add: from_utf8_lossy.simps [of bs])
  qed simp
qed

lemma utf8_next_append:
  "utf8_next bs = (True, n) \<Longrightarrow> bs \<noteq> [] \<Longrightarrow> utf8_next (bs @ cs) = (True, n)"
  by (auto simp: utf8_next_def byte_is_def Let_def nth_append split: if_splits)

lemma utf8_next_take:
  "utf8_next bs = (True, n) \<Longrightarrow> bs \<noteq> [] \<Longrightarrow> utf8_next (take n bs) = (True, n)"
  by (auto simp: utf8_next_def byte_is_def Let_def split: if_splits)

lemma valid_utf8_append: "valid_utf8 xs \<Longrightarrow> valid_utf8 ys \<Longrightarrow> valid_utf8 (xs @ ys)"
proof (induction xs rule: valid_utf8.induct)
  case (1 xs)
  show ?case
  proof (cases "xs = []")
    case False
    obtain ok n where n: "utf8_next xs = (ok, n)" by force
    with False 1 have ok: "ok" and v: "valid_utf8 (drop n xs @ ys)"
      by (simp_all add: valid_utf8.simps [of xs])
    have "n \<le> length xs" using n False by (rule utf8_next_fits [rotated])
    then show ?thesis
      using False ok v utf8_next_append [of xs n ys] n by (simp add: valid_utf8.simps [of "xs @ ys"])
  qed (use 1 in simp)
qed

lemma valid_utf8_single:
  "utf8_next bs = (True, length bs) \<Longrightarrow> valid_utf8 bs"
  by (simp add: valid_utf8.simps [of bs])

lemma valid_replacement [simp]: "valid_utf8 replacement_char"
  by (rule valid_utf8_single) (simp add: replacement_char_def utf8_next_def utf8_width_def
      in_range_def second_ok_def is_cont_def byte_is_def)

lemma from_utf8_lossy_wf: "valid_utf8 (from_utf8_lossy bs)"
proof (induction bs rule: from_utf8_lossy.induct)
  case (1 bs)
  show ?case
  proof (cases "bs = []")
    case False
    obtain ok n where n: "utf8_next bs = (ok, n)" by force
    have v: "valid_utf8 (from_utf8_lossy (drop n bs))" using 1 False n by simp
    have "valid_utf8 (if ok then take n bs else replacement_char)"
    proof (cases ok)
      case True
      then have "utf8_next (take n bs) = (True, n)" "n \<le> length bs"
        using utf8_next_take [of bs n] utf8_next_fits [of bs ok n] n False by simp_all
      then show ?thesis using True by (simp add: valid_utf8_single min_def)
    qed simp
    with False n v show ?thesis
      by (simp add: from_utf8_lossy.simps [of bs] valid_utf8_append)
  qed simp
qed

lemma unat_byte [simp]: "n < 256 \<Longrightarrow> unat (byte_of n) = n"
  by (simp add: byte_of_def unsigned_of_nat take_bit_nat_eq_self)

lemma byte_eq_iff: "(b :: u8) = numeral k \<longleftrightarrow> unat b = unat (numeral k :: u8)"
  by (simp add: word_unat_eq_iff)

lemma utf8_next_short:
  "in_range 0 0x7F b0 \<Longrightarrow> utf8_next [b0] = (True, 1)"
  "in_range 0xC2 0xDF b0 \<Longrightarrow> second_ok b0 b1 \<Longrightarrow> utf8_next [b0, b1] = (True, 2)"
  by (auto simp: utf8_next_def utf8_width_def in_range_def byte_is_def Let_def)

lemma utf8_next_long:
  "in_range 0xE0 0xEF b0 \<Longrightarrow> second_ok b0 b1 \<Longrightarrow> is_cont b2 \<Longrightarrow> utf8_next [b0, b1, b2] = (True, 3)"
  "in_range 0xF0 0xF4 b0 \<Longrightarrow> second_ok b0 b1 \<Longrightarrow> is_cont b2 \<Longrightarrow> is_cont b3 \<Longrightarrow>
     utf8_next [b0, b1, b2, b3] = (True, 4)"
  by (auto simp: utf8_next_def utf8_width_def in_range_def byte_is_def Let_def)

lemma cont_byte: "is_cont (byte_of (0x80 + n mod 64))"
  by (simp add: is_cont_def in_range_def)

lemma second_ok_byte:
  assumes "a < 256" and "x < 64"
    and "a = 0xE0 \<Longrightarrow> 32 \<le> x" and "a = 0xED \<Longrightarrow> x \<le> 31" and "a = 0xF0 \<Longrightarrow> 16 \<le> x"
    and "a = 0xF4 \<Longrightarrow> x \<le> 15"
  shows "second_ok (byte_of a) (byte_of (0x80 + x))"
  using assms by (auto simp: second_ok_def byte_eq_iff in_range_def is_cont_def)

lemma encode_utf8_two:
  assumes "0x80 \<le> c" "c < 0x800"
  shows "valid_utf8 (encode_utf8 c)"
proof -
  have "2 \<le> c div 64" "c div 64 < 32" using assms by auto
  then have "in_range 0xC2 0xDF (byte_of (0xC0 + c div 64))"
    "second_ok (byte_of (0xC0 + c div 64)) (byte_of (0x80 + c mod 64))"
    by (auto simp: in_range_def intro: second_ok_byte)
  with assms show ?thesis
    by (intro valid_utf8_single) (simp add: encode_utf8_def utf8_next_short)
qed

lemma encode_utf8_three:
  assumes "0x800 \<le> c" "c < 0x10000" "\<not> is_surrogate c"
  shows "valid_utf8 (encode_utf8 c)"
proof -
  define q where "q = c div 64"
  have q: "c div 4096 = q div 64" by (simp add: q_def div_mult2_eq [symmetric])
  have "32 \<le> q" "q < 1024" "q < 864 \<or> 895 < q"
    using assms by (auto simp: q_def is_surrogate_def not_le)
  then have "q div 64 < 16" "q div 64 = 0 \<Longrightarrow> 32 \<le> q mod 64" "q div 64 = 13 \<Longrightarrow> q mod 64 \<le> 31"
    using div_mult_mod_eq [of q 64] by auto
  then have "in_range 0xE0 0xEF (byte_of (0xE0 + q div 64))"
    "second_ok (byte_of (0xE0 + q div 64)) (byte_of (0x80 + q mod 64))"
    by (auto simp: in_range_def intro!: second_ok_byte)
  with assms show ?thesis
    by (intro valid_utf8_single)
       (simp add: encode_utf8_def utf8_next_long cont_byte q q_def [symmetric])
qed

lemma encode_utf8_four:
  assumes "0x10000 \<le> c" "c < 0x110000"
  shows "valid_utf8 (encode_utf8 c)"
proof -
  define q where "q = c div 4096"
  have q: "c div 262144 = q div 64" by (simp add: q_def div_mult2_eq [symmetric])
  have "16 \<le> q" "q < 272" using assms by (auto simp: q_def)
  then have "q div 64 \<le> 4" "q div 64 = 0 \<Longrightarrow> 16 \<le> q mod 64" "q div 64 = 4 \<Longrightarrow> q mod 64 \<le> 15"
    using div_mult_mod_eq [of q 64] by auto
  then have "in_range 0xF0 0xF4 (byte_of (0xF0 + q div 64))"
    "second_ok (byte_of (0xF0 + q div 64)) (byte_of (0x80 + q mod 64))"
    by (auto simp: in_range_def intro!: second_ok_byte)
  with assms show ?thesis
    by (intro valid_utf8_single)
       (simp add: encode_utf8_def utf8_next_long cont_byte q q_def [symmetric])
qed

lemma encode_utf8_valid:
  assumes "c < 0x110000" and "\<not> is_surrogate c"
  shows "valid_utf8 (encode_utf8 c)"
proof (cases "c < 0x80")
  case True
  then show ?thesis
    by (intro valid_utf8_single) (simp add: encode_utf8_def utf8_next_short in_range_def)
next
  case False
  then show ?thesis
    using assms encode_utf8_two encode_utf8_three encode_utf8_four by (meson not_le)
qed

lemma from_utf16_lossy_wf: "\<forall>u \<in> set us. u < 0x10000 \<Longrightarrow> valid_utf8 (from_utf16_lossy us)"
proof (induction us rule: from_utf16_lossy.induct)
  case (2 u)
  then show ?case by (simp add: encode_utf8_valid)
next
  case (3 u v us)
  have "valid_utf8 (encode_utf8 (0x10000 + (u - 0xD800) * 1024 + (v - 0xDC00)))"
    if "is_surrogate u" "\<not> is_low_surrogate u" "is_low_surrogate v"
    using that by (intro encode_utf8_valid) (auto simp: is_surrogate_def is_low_surrogate_def)
  with 3 show ?case by (auto simp: encode_utf8_valid intro!: valid_utf8_append)
qed simp

lemma decode_text_wf: "valid_utf8 (decode_text bs e)"
proof -
  have "unat u < 0x10000" for u :: u16 using unsigned_less [of u] by simp
  then show ?thesis
    by (auto simp: decode_text_def from_utf8_lossy_wf intro!: from_utf16_lossy_wf)
qed

lemma decode_text_utf8 [codec_simps]: "valid_utf8 bs \<Longrightarrow> decode_text bs Utf8 = bs"
  by (simp add: decode_text_def from_utf8_lossy_valid)

end
