(* ===== verification/Records.thy ===== *)
theory Records
  imports Varint Text_Encoding
begin

text \<open>
  Values, serial types and the record format (\<open>types/value.rs\<close>, \<open>format/serial_type.rs\<close>,
  \<open>format/record.rs\<close>). An \<open>f64\<close> is kept as its 64-bit pattern, a \<open>String\<close> as its UTF-8 bytes.
  The lemmas show that integers survive their minimal-width encoding, that a record of values is
  decoded to those values, and that decoding never panics and only produces well-formed values.
\<close>

section \<open>Values and serial types\<close>

datatype sql_value = VNull | VInt i64 | VReal u64 | VText bytes | VBlob bytes

fun storage_class :: "sql_value \<Rightarrow> int" where
  "storage_class (VInt _) = 1"
| "storage_class (VReal _) = 2"
| "storage_class (VText _) = 3"
| "storage_class (VBlob _) = 4"
| "storage_class VNull = 5"

text \<open>A Rust \<open>String\<close> holds well-formed UTF-8.\<close>

fun wf_value :: "sql_value \<Rightarrow> bool" where
  "wf_value (VText s) = valid_utf8 s"
| "wf_value v = True"

datatype serial_type =
    St_Null | St_I8 | St_I16 | St_I24 | St_I32 | St_I48 | St_I64 | St_F64 | St_Const0 | St_Const1
  | St_Reserved u64 | St_Blob nat | St_Text nat

definition serial_from_code :: "u64 \<Rightarrow> serial_type" where
  "serial_from_code code =
     (if code = 0 then St_Null
      else if code = 1 then St_I8
      else if code = 2 then St_I16
      else if code = 3 then St_I24
      else if code = 4 then St_I32
      else if code = 5 then St_I48
      else if code = 6 then St_I64
      else if code = 7 then St_F64
      else if code = 8 then St_Const0
      else if code = 9 then St_Const1
      else if code = 10 \<or> code = 11 then St_Reserved code
      else if unat code mod 2 = 0 then St_Blob ((unat code - 12) div 2)
      else St_Text ((unat code - 13) div 2))"

fun serial_code :: "serial_type \<Rightarrow> u64" where
  "serial_code St_Null = 0"
| "serial_code St_I8 = 1"
| "serial_code St_I16 = 2"
| "serial_code St_I24 = 3"
| "serial_code St_I32 = 4"
| "serial_code St_I48 = 5"
| "serial_code St_I64 = 6"
| "serial_code St_F64 = 7"
| "serial_code St_Const0 = 8"
| "serial_code St_Const1 = 9"
| "serial_code (St_Reserved n) = n"
| "serial_code (St_Blob len) = 12 + of_nat len * 2"
| "serial_code (St_Text len) = 13 + of_nat len * 2"

fun byte_len :: "serial_type \<Rightarrow> nat" where
  "byte_len St_Null = 0"
| "byte_len St_Const0 = 0"
| "byte_len St_Const1 = 0"
| "byte_len (St_Reserved _) = 0"
| "byte_len St_I8 = 1"
| "byte_len St_I16 = 2"
| "byte_len St_I24 = 3"
| "byte_len St_I32 = 4"
| "byte_len St_I48 = 6"
| "byte_len St_I64 = 8"
| "byte_len St_F64 = 8"
| "byte_len (St_Blob len) = len"
| "byte_len (St_Text len) = len"

definition decode_be_int :: "bytes \<Rightarrow> i64" where
  "decode_be_int bs =
     foldl (\<lambda>v b. push_bit 8 v OR ucast b)
       (if bs \<noteq> [] \<and> hd bs AND 0x80 \<noteq> 0 then -1 else 0) bs"

definition in_i64_range :: "int \<Rightarrow> int \<Rightarrow> i64 \<Rightarrow> bool" where
  "in_i64_range lo hi i \<longleftrightarrow> lo \<le> sint i \<and> sint i \<le> hi"

definition encode_int :: "i64 \<Rightarrow> serial_type \<times> bytes" where
  "encode_int i =
     (if i = 0 then (St_Const0, [])
      else if i = 1 then (St_Const1, [])
      else if in_i64_range (-0x80) 0x7f i then (St_I8, [ucast i])
      else if in_i64_range (-0x8000) 0x7fff i then (St_I16, be_enc 2 (ucast i :: u16))
      else if in_i64_range (-0x800000) 0x7fffff i
      then (St_I24, sub 1 4 (be_enc 4 (ucast i :: u32)))
      else if in_i64_range (-0x80000000) 0x7fffffff i then (St_I32, be_enc 4 (ucast i :: u32))
      else if in_i64_range (-0x800000000000) 0x7fffffffffff i
      then (St_I48, sub 2 8 (be_enc 8 i))
      else (St_I64, be_enc 8 i))"

fun serial_decode :: "serial_type \<Rightarrow> bytes \<Rightarrow> text_encoding \<Rightarrow> sql_value result" where
  "serial_decode St_Null bs e = Inr VNull"
| "serial_decode St_Const0 bs e = Inr (VInt 0)"
| "serial_decode St_Const1 bs e = Inr (VInt 1)"
| "serial_decode St_F64 bs e = (if length bs = 8 then Inr (VReal (be_dec bs)) else Inl Panic)"
| "serial_decode (St_Blob _) bs e = Inr (VBlob bs)"
| "serial_decode (St_Text _) bs e = Inr (VText (decode_text bs e))"
| "serial_decode (St_Reserved n) bs e = Inl (corrupt (''reserved serial type '' @ dec (unat n)))"
| "serial_decode _ bs e = Inr (VInt (decode_be_int bs))"

fun serial_encode :: "sql_value \<Rightarrow> serial_type \<times> bytes" where
  "serial_encode VNull = (St_Null, [])"
| "serial_encode (VInt i) = encode_int i"
| "serial_encode (VReal r) = (St_F64, be_enc 8 r)"
| "serial_encode (VText s) = (St_Text (length s), s)"
| "serial_encode (VBlob b) = (St_Blob (length b), b)"

section \<open>Records\<close>

lemma read_varint_loop_bound:
  "read_varint_loop k buf i acc = Some (v, n) \<Longrightarrow> k + i = 8 \<Longrightarrow> i < n \<and> n \<le> 9 \<and> n \<le> length buf"
proof (induction k buf i acc rule: read_varint_loop.induct)
  case (1 buf i acc)
  then show ?case by (auto simp: get_opt_def split: if_splits)
next
  case (2 k buf i acc)
  then show ?case
    by (fastforce simp: get_opt_def Let_def split: if_splits)
qed

lemma read_varint_bound: "read_varint buf = Some (v, n) \<Longrightarrow> 1 \<le> n \<and> n \<le> 9 \<and> n \<le> length buf"
  using read_varint_loop_bound [of 8 buf 0 0 v n] by (simp add: read_varint_def)

function decode_values ::
    "bytes \<Rightarrow> text_encoding \<Rightarrow> nat \<Rightarrow> nat \<Rightarrow> nat \<Rightarrow> sql_value list \<Rightarrow> sql_value list result" where
  "decode_values payload e header_len header_pos body_pos values =
     (if \<not> header_pos < header_len then Inr values
      else (case read_varint (drop header_pos payload) of
          None \<Rightarrow> Inl (corrupt ''record serial-type varint'')
        | Some (code, k) \<Rightarrow>
            (let st = serial_from_code code; end_pos = body_pos + byte_len st in
             if usize_overflow end_pos then Inl (corrupt ''record body overflow'')
             else if length payload < end_pos
             then Inl (corrupt ''record body shorter than serial types imply'')
             else (case serial_decode st (sub body_pos end_pos payload) e of
                 Inl err \<Rightarrow> Inl err
               | Inr v \<Rightarrow>
                   decode_values payload e header_len (header_pos + k) end_pos (values @ [v])))))"
  by pat_completeness auto
termination
  by (relation "measure (\<lambda>(payload, e, header_len, header_pos, body_pos, values). header_len - header_pos)")
     (auto dest: read_varint_bound)

definition decode_record :: "bytes \<Rightarrow> text_encoding \<Rightarrow> sql_value list result" where
  "decode_record payload e =
     and_then (ok_or (corrupt ''record header length varint'') (read_varint payload))
       (\<lambda>(hl, n0).
          let header_len = unat hl in
          if length payload < header_len \<or> header_len < n0
          then Inl (corrupt ''record header length out of range'')
          else decode_values payload e header_len n0 header_len [])"

text \<open>
  The width of the header-length varint: grow it until it is consistent. No varint is longer
  than nine bytes, so the loop ends.
\<close>

function grow_hv :: "nat \<Rightarrow> nat \<Rightarrow> nat" where
  "grow_hv serial_bytes hv =
     (if hv < varint_len (of_nat (serial_bytes + hv)) then grow_hv serial_bytes (hv + 1) else hv)"
  by pat_completeness auto
termination
proof (relation "measure (\<lambda>(serial_bytes, hv). 9 - hv)", simp)
  fix serial_bytes hv
  assume "hv < varint_len (of_nat (serial_bytes + hv))"
  then have "hv < 9" using varint_len_bounds(2) less_le_trans by blast
  then show "((serial_bytes, hv + 1), (serial_bytes, hv)) \<in> measure (\<lambda>(serial_bytes, hv). 9 - hv)"
    by simp
qed

definition encode_record :: "sql_value list \<Rightarrow> bytes" where
  "encode_record values =
     (let serials = map (fst \<circ> serial_encode) values;
          bodies = map (snd \<circ> serial_encode) values;
          serial_bytes = sum_list (map (varint_len \<circ> serial_code) serials);
          header_len = serial_bytes + grow_hv serial_bytes 1
      in write_varint (of_nat header_len) @ concat (map (write_varint \<circ> serial_code) serials)
           @ concat bodies)"

declare decode_values.simps [simp del] grow_hv.simps [simp del]

section \<open>Integers of minimal width\<close>

lemma bit_decode_fold:
  "bit (foldl (\<lambda>v (b :: u8). push_bit 8 v OR ucast b) (init :: i64) bs) k \<longleftrightarrow>
     k < 64 \<and> (if k < 8 * length bs then bit (bs ! (length bs - 1 - k div 8)) (k mod 8)
              else bit init (k - 8 * length bs))"
proof (induction bs arbitrary: k rule: rev_induct)
  case Nil
  then show ?case using bit_imp_le_length [of init k] by auto
next
  case (snoc b bs)
  show ?case
  proof (cases "k < 8")
    case True
    then show ?thesis by (auto simp: bit_simps nth_append)
  next
    case False
    then have k: "(k - 8) div 8 = k div 8 - 1" "(k - 8) mod 8 = k mod 8" "1 \<le> k div 8"
      by (auto simp: le_div_geq le_mod_geq)
    have nb: "\<not> bit b k" using False bit_imp_le_length [of b k] by auto
    have idx: "(bs @ [b]) ! (length (bs @ [b]) - 1 - k div 8) = bs ! (length bs - 1 - (k - 8) div 8)"
      if "k - 8 < 8 * length bs"
    proof -
      have "length bs - k div 8 < length bs" using that k(3) by (cases bs) auto
      moreover have "length bs - 1 - (k - 8) div 8 = length bs - k div 8" using k by simp
      ultimately show ?thesis by (simp add: nth_append)
    qed
    have "k - 8 < 8 * length bs \<longleftrightarrow> k < 8 * length (bs @ [b])" using False by auto
    then show ?thesis
      using False nb idx k(2) snoc [of "k - 8"] by (auto simp: bit_simps)
  qed
qed

lemma bit_sign_extended:
  assumes "- (2 ^ m) \<le> sint i" and "sint i < 2 ^ m" and "k < 64" and "m < 64"
  shows "bit (i :: i64) k \<longleftrightarrow> bit i (min k m)"
proof -
  have "signed_take_bit m (sint i) = sint i"
    using assms by (intro signed_take_bit_int_eq_self) auto
  then have "bit (sint i) k \<longleftrightarrow> bit (signed_take_bit m (sint i)) k" by simp
  also have "\<dots> \<longleftrightarrow> bit (sint i) (min m k)" by (simp only: bit_signed_take_bit_iff possible_bit_int simp_thms)
  finally show ?thesis using assms(3,4) by (simp add: bit_sint_iff min.commute)
qed

lemma and_80_bit: "(b :: u8) AND 0x80 \<noteq> 0 \<longleftrightarrow> bit b 7"
proof
  assume "b AND 0x80 \<noteq> 0"
  then obtain k where "bit (b AND 0x80) k" by (auto simp: bit_eq_iff)
  then have "bit b k" "bit (0x80 :: u8) k" by (simp_all add: bit_and_iff)
  then show "bit b 7" using bit_80 [of k] by simp
next
  assume "bit b 7"
  then have "bit (b AND 0x80) 7" by (simp add: bit_simps bit_80)
  then show "b AND 0x80 \<noteq> 0" by auto
qed

text \<open>\<open>bs\<close> holds the \<open>n\<close> low bytes of \<open>i\<close>, most significant first.\<close>

definition low_bytes :: "nat \<Rightarrow> i64 \<Rightarrow> bytes \<Rightarrow> bool" where
  "low_bytes n i bs \<longleftrightarrow> length bs = n \<and>
     (\<forall>j < n. \<forall>k < 8. bit (bs ! j) k \<longleftrightarrow> bit i (8 * (n - 1 - j) + k))"

lemma decode_low_bytes:
  assumes low: "low_bytes n i bs" and n: "1 \<le> n" "n \<le> 8"
    and i: "- (2 ^ (8 * n - 1)) \<le> sint i" "sint i < 2 ^ (8 * n - 1)"
  shows "decode_be_int bs = i"
proof (rule bit_word_eqI)
  fix k
  assume "k < LENGTH(64)"
  then have k: "k < 64" by simp
  have len: "length bs = n" and ne: "bs \<noteq> []" using low n by (auto simp: low_bytes_def)
  have byte: "bit (bs ! j) m \<longleftrightarrow> bit i (8 * (n - 1 - j) + m)" if "j < n" "m < 8" for j m
    using low that by (simp add: low_bytes_def)
  show "bit (decode_be_int bs) k = bit i k"
  proof (cases "k < 8 * n")
    case True
    then have "n - 1 - k div 8 < n" "n - 1 - (n - 1 - k div 8) = k div 8" by auto
    then show ?thesis
      using True k byte [of "n - 1 - k div 8" "k mod 8"] len
      by (simp add: decode_be_int_def bit_decode_fold)
  next
    case False
    have "bit (hd bs) 7 \<longleftrightarrow> bit i (8 * n - 1)"
      using byte [of 0 7] n ne by (simp add: hd_conv_nth diff_mult_distrib2)
    moreover have "bit i k \<longleftrightarrow> bit i (8 * n - 1)"
      using bit_sign_extended [OF i k] False n by (simp add: min_def)
    ultimately show ?thesis
      using False k len ne n
      by (simp add: decode_be_int_def bit_decode_fold and_80_bit bit_simps less_imp_diff_less)
  qed
qed

lemma low_bytes_be_enc:
  assumes "8 * n \<le> LENGTH('a::len)" and "LENGTH('a) \<le> 64"
  shows "low_bytes n i (be_enc n (ucast i :: 'a word))"
  using assms by (auto simp: low_bytes_def bit_be_enc bit_simps)

lemma low_bytes_sub:
  assumes "low_bytes n i bs" and "m \<le> n"
  shows "low_bytes m i (sub (n - m) n bs)"
  using assms by (auto simp: low_bytes_def)

lemma low_bytes_encode:
  "low_bytes 1 i [ucast i]"
  "low_bytes 2 i (be_enc 2 (ucast i :: u16))"
  "low_bytes 3 i (sub 1 4 (be_enc 4 (ucast i :: u32)))"
  "low_bytes 4 i (be_enc 4 (ucast i :: u32))"
  "low_bytes 6 i (sub 2 8 (be_enc 8 i))"
  "low_bytes 8 i (be_enc 8 i)"
proof -
  show b8: "low_bytes 8 i (be_enc 8 i)" using low_bytes_be_enc [of 8 i, where 'a = 64] by simp
  show b4: "low_bytes 4 i (be_enc 4 (ucast i :: u32))" by (rule low_bytes_be_enc) simp_all
  show "low_bytes 2 i (be_enc 2 (ucast i :: u16))" by (rule low_bytes_be_enc) simp_all
  show "low_bytes 3 i (sub 1 4 (be_enc 4 (ucast i :: u32)))"
    using low_bytes_sub [OF b4, of 3] by simp
  show "low_bytes 6 i (sub 2 8 (be_enc 8 i))" using low_bytes_sub [OF b8, of 6] by simp
  show "low_bytes 1 i [ucast i]" by (simp add: low_bytes_def bit_simps)
qed

lemma encode_int_shape:
  assumes "encode_int i = (st, body)"
  shows "byte_len st = length body" "serial_decode st body e = Inr (VInt i)"
    "serial_from_code (serial_code st) = st" "length body \<le> 8"
proof -
  have sint: "- (2 ^ 63) \<le> sint i" "sint i < 2 ^ 63"
    using sint_ge [of i] sint_lt [of i] by simp_all
  note d = low_bytes_encode [of i, THEN decode_low_bytes]
  show "byte_len st = length body" "length body \<le> 8"
    using assms by (auto simp: encode_int_def split: if_splits)
  show "serial_from_code (serial_code st) = st"
    using assms by (auto simp: encode_int_def serial_from_code_def split: if_splits)
  show "serial_decode st body e = Inr (VInt i)"
    using assms d sint by (auto simp: encode_int_def in_i64_range_def split: if_splits)
qed

section \<open>Records survive encoding\<close>

lemma unat_serial_code:
  "len < 2 ^ 62 \<Longrightarrow> unat (12 + of_nat len * 2 :: u64) = 12 + len * 2"
  "len < 2 ^ 62 \<Longrightarrow> unat (13 + of_nat len * 2 :: u64) = 13 + len * 2"
proof -
  assume "len < 2 ^ 62"
  then have "12 + len * 2 < 2 ^ 64" "13 + len * 2 < 2 ^ 64" by simp_all
  then have "unat (of_nat (12 + len * 2) :: u64) = 12 + len * 2"
    "unat (of_nat (13 + len * 2) :: u64) = 13 + len * 2"
    by (simp_all only: unsigned_of_nat) (simp_all add: take_bit_nat_eq_self)
  then show "unat (12 + of_nat len * 2 :: u64) = 12 + len * 2"
    "unat (13 + of_nat len * 2 :: u64) = 13 + len * 2" by simp_all
qed

lemma serial_from_code_large:
  assumes "12 \<le> unat c"
  shows "serial_from_code c =
    (if unat c mod 2 = 0 then St_Blob ((unat c - 12) div 2) else St_Text ((unat c - 13) div 2))"
proof -
  have "c \<noteq> 0" "c \<noteq> 1" "c \<noteq> 2" "c \<noteq> 3" "c \<noteq> 4" "c \<noteq> 5" "c \<noteq> 6" "c \<noteq> 7" "c \<noteq> 8" "c \<noteq> 9" "c \<noteq> 10"
    "c \<noteq> 11"
    using assms by auto
  then show ?thesis by (simp add: serial_from_code_def)
qed

lemma serial_from_code_sized:
  assumes "len < 2 ^ 62"
  shows "serial_from_code (12 + of_nat len * 2) = St_Blob len"
    "serial_from_code (13 + of_nat len * 2) = St_Text len"
  using unat_serial_code [OF assms] by (simp_all add: serial_from_code_large mod_Suc)

lemma serial_encode_shape:
  assumes "serial_encode v = (st, body)" and "wf_value v" and "length body < 2 ^ 62"
  shows "byte_len st = length body" "serial_decode st body Utf8 = Inr v"
    "serial_from_code (serial_code st) = st"
proof -
  have "byte_len st = length body \<and> serial_decode st body Utf8 = Inr v
      \<and> serial_from_code (serial_code st) = st"
  proof (cases v)
    case (VInt i)
    then show ?thesis using assms encode_int_shape [of i st body] by simp
  qed (use assms in \<open>auto simp: codec_simps serial_from_code_sized serial_from_code_def [of 0]
         serial_from_code_def [of 7]\<close>)
  then show "byte_len st = length body" "serial_decode st body Utf8 = Inr v"
    "serial_from_code (serial_code st) = st" by auto
qed

definition serials_of :: "sql_value list \<Rightarrow> bytes" where
  "serials_of vs = concat (map (\<lambda>v. write_varint (serial_code (fst (serial_encode v)))) vs)"

definition bodies_of :: "sql_value list \<Rightarrow> bytes" where
  "bodies_of vs = concat (map (\<lambda>v. snd (serial_encode v)) vs)"

lemma encoded_parts [simp]:
  "serials_of [] = []"
  "serials_of (v # vs) = write_varint (serial_code (fst (serial_encode v))) @ serials_of vs"
  "bodies_of [] = []"
  "bodies_of (v # vs) = snd (serial_encode v) @ bodies_of vs"
  by (simp_all add: serials_of_def bodies_of_def)

lemma encode_record_parts:
  "encode_record vs =
     (let n = length (serials_of vs) in
      write_varint (of_nat (n + grow_hv n 1)) @ serials_of vs @ bodies_of vs)"
proof -
  have "length (serials_of vs) =
      sum_list (map (varint_len \<circ> serial_code) (map (fst \<circ> serial_encode) vs))"
    by (induction vs) (simp_all add: length_write_varint)
  then show ?thesis
    by (simp add: encode_record_def Let_def serials_of_def bodies_of_def comp_def)
qed

lemma decode_values_encoded:
  assumes "payload = H @ serials_of vs @ B @ bodies_of vs" and "length payload < 2 ^ 62"
    and "\<forall>v \<in> set vs. wf_value v"
  shows "decode_values payload Utf8 (length H + length (serials_of vs)) (length H)
           (length H + length (serials_of vs) + length B) acc = Inr (acc @ vs)"
  using assms
proof (induction vs arbitrary: H B acc)
  case Nil
  then show ?case by (simp add: decode_values.simps)
next
  case (Cons v vs)
  obtain st body where sb: "serial_encode v = (st, body)" by force
  let ?w = "write_varint (serial_code st)"
  have p: "payload = H @ ?w @ serials_of vs @ B @ body @ bodies_of vs"
    using Cons.prems(1) sb by simp
  then have "length body < 2 ^ 62" using Cons.prems(2) by simp
  then have shape: "byte_len st = length body" "serial_decode st body Utf8 = Inr v"
      "serial_from_code (serial_code st) = st"
    using serial_encode_shape [OF sb] Cons.prems(3) by auto
  let ?bp = "length H + length ?w + length (serials_of vs) + length B"
  have body: "sub ?bp (?bp + length body) payload = body"
    unfolding p by (simp add: sub_def)
  have read: "read_varint (drop (length H) payload) = Some (serial_code st, length ?w)"
    unfolding p by (simp add: codec_simps length_write_varint)
  have pos: "0 < length ?w" using varint_len_bounds(1) [of "serial_code st"]
    by (simp add: length_write_varint)
  have IH: "decode_values payload Utf8 (length (H @ ?w) + length (serials_of vs)) (length (H @ ?w))
      (length (H @ ?w) + length (serials_of vs) + length (B @ body)) (acc @ [v]) = Inr ((acc @ [v]) @ vs)"
    using Cons.prems p by (intro Cons.IH) auto
  have "?bp + length body \<le> length payload" unfolding p by simp
  then show ?case
    using IH read body shape sb pos Cons.prems(2)
    by (subst decode_values.simps) (simp add: Let_def ac_simps)
qed

lemma unat_of_nat_small: "n < 2 ^ 64 \<Longrightarrow> unat (of_nat n :: u64) = n"
  by (simp only: unsigned_of_nat) (simp add: take_bit_nat_eq_self)

lemma grow_hv_ge: "hv \<le> grow_hv sb hv"
proof (induction sb hv rule: grow_hv.induct)
  case (1 sb hv)
  then show ?case by (subst grow_hv.simps) (auto split: if_splits)
qed

lemma grow_hv_consistent:
  assumes "sb + 9 < 2 ^ 64" and "hv \<le> varint_len (of_nat (sb + hv))"
  shows "varint_len (of_nat (sb + grow_hv sb hv)) = grow_hv sb hv"
  using assms
proof (induction sb hv rule: grow_hv.induct)
  case (1 sb hv)
  show ?case
  proof (cases "hv < varint_len (of_nat (sb + hv))")
    case True
    then have "hv < 9" using varint_len_bounds(2) less_le_trans by blast
    then have u: "unat (of_nat (sb + hv) :: u64) = sb + hv"
        "unat (of_nat (sb + (hv + 1)) :: u64) = sb + (hv + 1)"
      using 1(2) by (intro unat_of_nat_small; simp)+
    have "varint_len (of_nat (sb + hv)) \<le> varint_len (of_nat (sb + (hv + 1)))"
      by (rule varint_len_mono) (simp only: u)
    then have "hv + 1 \<le> varint_len (of_nat (sb + (hv + 1)))" using True by simp
    from 1(1) [OF True 1(2) this] True show ?thesis by (simp only: grow_hv.simps [of sb hv] if_True)
  next
    case False
    then have "grow_hv sb hv = hv" by (simp only: grow_hv.simps [of sb hv] if_False)
    then show ?thesis using False 1(3) by (metis nat_neq_iff not_le)
  qed
qed

lemma record_roundtrip [codec_simps]:
  assumes "\<forall>v \<in> set vs. wf_value v" and "length (encode_record vs) < 2 ^ 62"
  shows "decode_record (encode_record vs) Utf8 = Inr vs"
proof -
  define sb where "sb = length (serials_of vs)"
  define hv where "hv = grow_hv sb 1"
  define H where "H = write_varint (of_nat (sb + hv))"
  have enc: "encode_record vs = H @ serials_of vs @ [] @ bodies_of vs"
    by (simp add: encode_record_parts Let_def H_def hv_def sb_def)
  have sb: "sb < 2 ^ 62" using assms(2) unfolding enc sb_def by simp
  have "varint_len (of_nat (sb + hv)) = hv"
    unfolding hv_def using sb varint_len_bounds(1) by (intro grow_hv_consistent) auto
  then have H: "length H = hv" "read_varint (encode_record vs) = Some (of_nat (sb + hv), hv)"
    unfolding enc by (simp_all add: H_def length_write_varint codec_simps)
  have "hv \<le> 9" using H(1) varint_len_bounds(2) by (metis H_def length_write_varint)
  then have u: "unat (of_nat (sb + hv) :: u64) = sb + hv"
    using sb by (intro unat_of_nat_small) simp
  have "sb + hv \<le> length (encode_record vs)" unfolding enc using H(1) by (simp add: sb_def)
  moreover have "decode_values (encode_record vs) Utf8 (sb + hv) hv (sb + hv) [] = Inr vs"
    using decode_values_encoded [OF enc assms(2,1), of "[]"] H(1) by (simp add: sb_def add.commute)
  ultimately show ?thesis
    unfolding decode_record_def H(2) by (simp add: u Let_def del: of_nat_add)
qed

text \<open>
  C7. A record is decoded to the values it was encoded from: for every list of values whose text
  is well-formed UTF-8 and whose encoding fits in memory, \<open>decode_record\<close> on the output of
  \<open>encode_record\<close> succeeds and returns exactly those values, whatever their storage classes and
  whichever serial types and header width the encoder picked.
\<close>

theorem decode_encode_record:
  assumes "\<forall>v \<in> set vs. wf_value v" and "length (encode_record vs) < 2 ^ 62"
  shows "decode_record (encode_record vs) Utf8 = Inr vs"
  using assms by (rule record_roundtrip)

theorem decode_encode_record_witness:
  "decode_record (encode_record [VNull, VInt (-5), VInt 100000, VText [0x68, 0xC3, 0xA9],
     VBlob [1, 2], VReal 0x3ff0000000000000]) Utf8
   = Inr [VNull, VInt (-5), VInt 100000, VText [0x68, 0xC3, 0xA9], VBlob [1, 2],
     VReal 0x3ff0000000000000]"
proof (rule decode_encode_record)
  show "\<forall>v \<in> set [VNull, VInt (-5), VInt 100000, VText [0x68, 0xC3, 0xA9], VBlob [1, 2],
      VReal 0x3ff0000000000000]. wf_value v"
    by code_simp
  have "length (encode_record [VNull, VInt (-5), VInt 100000, VText [0x68, 0xC3, 0xA9],
      VBlob [1, 2], VReal 0x3ff0000000000000]) = 24"
    by code_simp
  then show "length (encode_record [VNull, VInt (-5), VInt 100000, VText [0x68, 0xC3, 0xA9],
      VBlob [1, 2], VReal 0x3ff0000000000000]) < 2 ^ 62"
    by simp
qed

section \<open>Decoding untrusted bytes\<close>

lemma serial_decode_result:
  assumes "length bs = byte_len st"
  shows "case serial_decode st bs e of
           Inr v \<Rightarrow> wf_value v | Inl f \<Rightarrow> failure_code f = Some Rc_Corrupt"
  using assms by (cases st) (simp_all add: decode_text_wf)

lemma decode_values_result:
  "\<forall>v \<in> set acc. wf_value v \<Longrightarrow>
   case decode_values payload e hl hp bp acc of
     Inr vs \<Rightarrow> (\<forall>v \<in> set vs. wf_value v)
   | Inl f \<Rightarrow> failure_code f = Some Rc_Corrupt"
proof (induction payload e hl hp bp acc rule: decode_values.induct)
  case (1 payload e hl hp bp acc)
  show ?case
  proof (cases "hp < hl")
    case False
    then show ?thesis using 1(2) by (simp add: decode_values.simps)
  next
    case True
    show ?thesis
    proof (cases "read_varint (drop hp payload)")
      case None
      then show ?thesis using True by (simp add: decode_values.simps)
    next
      case (Some r)
      obtain code k where r: "r = (code, k)" by force
      let ?st = "serial_from_code code" and ?fin = "bp + byte_len (serial_from_code code)"
      show ?thesis
      proof (cases "2 ^ 64 \<le> ?fin \<or> length payload < ?fin")
        case True
        then show ?thesis using \<open>hp < hl\<close> Some r by (auto simp: decode_values.simps Let_def)
      next
        case False
        have res: "case serial_decode ?st (sub bp ?fin payload) e of
            Inr v \<Rightarrow> wf_value v | Inl f \<Rightarrow> failure_code f = Some Rc_Corrupt"
          using False by (intro serial_decode_result) auto
        show ?thesis
        proof (cases "serial_decode ?st (sub bp ?fin payload) e")
          case (Inl f)
          then show ?thesis using res True Some r False
            by (subst decode_values.simps) (simp add: Let_def)
        next
          case (Inr v)
          then have "\<forall>v \<in> set (acc @ [v]). wf_value v" using res 1(2) by simp
          from 1(1) [OF _ Some r [symmetric] refl refl _ _ Inr this] True False Inr Some r
          show ?thesis by (subst decode_values.simps) (simp add: Let_def)
        qed
      qed
    qed
  qed
qed

text \<open>
  C8. Decoding arbitrary bytes is safe: on any payload in any text encoding \<open>decode_record\<close>
  returns either values whose text is well-formed UTF-8 (the invariant of a Rust \<open>String\<close>) or
  an error with code CORRUPT; it never panics and never raises any other error.
\<close>

theorem decode_record_safe:
  "case decode_record payload e of
     Inr vs \<Rightarrow> list_all wf_value vs
   | Inl f \<Rightarrow> failure_code f = Some Rc_Corrupt"
proof (cases "read_varint payload")
  case None
  then show ?thesis by (simp add: decode_record_def)
next
  case (Some r)
  obtain v n where r: "r = (v, n)" by force
  show ?thesis
    using decode_values_result [of "[]" payload e "unat v" n "unat v"] Some r
    by (auto simp: decode_record_def Let_def list_all_iff split: sum.splits)
qed

end
