(* ===== verification/Floats.thy ===== *)
theory Floats
  imports Prelude
begin

text \<open>
  The part of IEEE-754 binary64 arithmetic the engine's comparisons use. An \<open>f64\<close> is its bit
  pattern; \<open>f_scaled r\<close> is the exact value of a number times \<open>2 ^ 1074\<close>, an integer (the two
  infinities come out beyond every finite value), so that \<open>partial_cmp\<close> is a comparison of
  integers. \<open>f64_to_i64\<close> is the saturating, truncating cast \<open>r as i64\<close>; \<open>f64_of_i64\<close> is the
  cast \<open>i as f64\<close>, rounding to nearest, ties to even. The lemmas show that the two casts are
  exact where the comparison of an integer with a real needs them.
\<close>

section \<open>Decoding\<close>

definition f_sign :: "u64 \<Rightarrow> bool" where
  "f_sign r \<longleftrightarrow> 2 ^ 63 \<le> unat r"

definition f_exp :: "u64 \<Rightarrow> nat" where
  "f_exp r = unat r div 2 ^ 52 mod 2 ^ 11"

definition f_man :: "u64 \<Rightarrow> nat" where
  "f_man r = unat r mod 2 ^ 52"

definition f_is_nan :: "u64 \<Rightarrow> bool" where
  "f_is_nan r \<longleftrightarrow> f_exp r = 2047 \<and> f_man r \<noteq> 0"

definition f_mag :: "u64 \<Rightarrow> nat" where
  "f_mag r = (if f_exp r = 0 then f_man r else (2 ^ 52 + f_man r) * 2 ^ (f_exp r - 1))"

definition f_scaled :: "u64 \<Rightarrow> int" where
  "f_scaled r = (if f_sign r then - int (f_mag r) else int (f_mag r))"

definition f64_unit :: int where
  "f64_unit = 2 ^ 1074"

section \<open>Casts\<close>

definition i64_of_int :: "int \<Rightarrow> i64" where
  "i64_of_int k = (if k < - (2 ^ 63) then of_int (- (2 ^ 63))
                   else if 2 ^ 63 \<le> k then of_int (2 ^ 63 - 1) else of_int k)"

definition f64_trunc :: "u64 \<Rightarrow> int" where
  "f64_trunc r = (let q = int (f_mag r) div f64_unit in if f_sign r then - q else q)"

definition f64_to_i64 :: "u64 \<Rightarrow> i64" where
  "f64_to_i64 r = (if f_is_nan r then 0 else i64_of_int (f64_trunc r))"

fun bit_length :: "nat \<Rightarrow> nat" where
  "bit_length n = (if n = 0 then 0 else Suc (bit_length (n div 2)))"

declare bit_length.simps [simp del]

definition f64_pack :: "bool \<Rightarrow> nat \<Rightarrow> nat \<Rightarrow> u64" where
  "f64_pack s e m = of_nat ((if s then 2 ^ 63 else 0) + e * 2 ^ 52 + m)"

text \<open>
  \<open>sig\<close> is the 53-bit significand of a number with \<open>n\<close> significant bits, after rounding; a carry
  out of the rounding gives the next power of two.
\<close>

definition f64_round :: "nat \<Rightarrow> nat" where
  "f64_round m =
     (let shift = bit_length m - 53; q = m div 2 ^ shift; rest = m mod 2 ^ shift;
          half = 2 ^ (shift - 1) in
      if half < rest \<or> rest = half \<and> odd q then q + 1 else q)"

definition f64_of_nat :: "bool \<Rightarrow> nat \<Rightarrow> u64" where
  "f64_of_nat s m =
     (if m = 0 then f64_pack s 0 0
      else if bit_length m \<le> 53
      then f64_pack s (bit_length m + 1022) (m * 2 ^ (53 - bit_length m) - 2 ^ 52)
      else (let q = f64_round m in
            if q = 2 ^ 53 then f64_pack s (bit_length m + 1023) 0
            else f64_pack s (bit_length m + 1022) (q - 2 ^ 52)))"

definition f64_of_i64 :: "i64 \<Rightarrow> u64" where
  "f64_of_i64 i = f64_of_nat (sint i < 0) (nat \<bar>sint i\<bar>)"

section \<open>Exactness\<close>

lemma bit_length_bounds: "0 < m \<Longrightarrow> 2 ^ (bit_length m - 1) \<le> m \<and> m < 2 ^ bit_length m \<and> 0 < bit_length m"
proof (induction m rule: bit_length.induct)
  case (1 m)
  show ?case
  proof (cases "m = 1")
    case True
    then show ?thesis by (simp add: bit_length.simps)
  next
    case False
    then have "0 < m div 2" using 1(2) by auto
    then have IH: "2 ^ (bit_length (m div 2) - 1) \<le> m div 2" "m div 2 < 2 ^ bit_length (m div 2)"
        "0 < bit_length (m div 2)"
      using 1 by auto
    then obtain k where "bit_length (m div 2) = Suc k" by (cases "bit_length (m div 2)") auto
    then show ?thesis using IH 1(2) by (simp add: bit_length.simps [of m]) linarith
  qed
qed

lemma bit_length_eqI:
  assumes "2 ^ n \<le> m" and "m < 2 ^ Suc n"
  shows "bit_length m = Suc n"
proof -
  have "0 < m" using assms(1) by (metis gr0I le_zero_eq power_not_zero zero_neq_numeral)
  then have b: "2 ^ (bit_length m - 1) \<le> m" "m < 2 ^ bit_length m" "0 < bit_length m"
    using bit_length_bounds by auto
  have "(2 :: nat) ^ n < 2 ^ bit_length m" using assms b by linarith
  then have "n < bit_length m" by simp
  moreover have "(2 :: nat) ^ (bit_length m - 1) < 2 ^ Suc n" using assms b by linarith
  then have "bit_length m - 1 < Suc n" by (simp only: power_strict_increasing_iff)
  ultimately show ?thesis by linarith
qed

lemma f_pack:
  assumes "e < 2 ^ 11" and "m < 2 ^ 52"
  shows "f_sign (f64_pack s e m) = s" "f_exp (f64_pack s e m) = e" "f_man (f64_pack s e m) = m"
proof -
  define t where "t = e * 2 ^ 52 + m"
  have t: "t < 2 ^ 63" using assms unfolding t_def by simp
  have u: "unat (f64_pack s e m) = (if s then 2 ^ 63 else 0) + t"
    using t by (simp add: f64_pack_def t_def add.assoc unsigned_of_nat take_bit_nat_eq_self
        del: of_nat_add of_nat_mult)
  show "f_sign (f64_pack s e m) = s" using t by (simp add: f_sign_def u)
  have d: "t div 2 ^ 52 = e" "t mod 2 ^ 52 = m" using assms by (simp_all add: t_def)
  have "((if s then 2 ^ 63 else 0) + t) div 2 ^ 52 = (if s then 2 ^ 11 else 0) + t div 2 ^ 52"
    by auto
  then show "f_exp (f64_pack s e m) = e" using assms d by (simp add: f_exp_def u)
  have "((if s then 2 ^ 63 else 0) + t) mod 2 ^ 52 = t mod 2 ^ 52"
    using mod_mult_self3 [of "2 ^ 11" "2 ^ 52" t] by simp
  then show "f_man (f64_pack s e m) = m" using d by (simp add: f_man_def u)
qed

lemma f_scaled_pack:
  assumes "0 < e" and "e < 2 ^ 11" and "m < 2 ^ 52"
  shows "f_scaled (f64_pack s e m) =
    (if s then -1 else 1) * int ((2 ^ 52 + m) * 2 ^ (e - 1))"
  using assms by (simp add: f_scaled_def f_mag_def f_pack)

text \<open>The significands that \<open>f64_of_nat\<close> represents without rounding.\<close>

definition f64_exact :: "nat \<Rightarrow> bool" where
  "f64_exact m \<longleftrightarrow> m < 2 ^ 53 \<or> (\<exists>q s. m = q * 2 ^ s \<and> 2 ^ 52 \<le> q \<and> q < 2 ^ 53 \<and> s < 900)"

lemma f64_of_nat_small:
  assumes "0 < m" and "m < 2 ^ 53"
  shows "f_scaled (f64_of_nat s m) = (if s then -1 else 1) * int m * f64_unit"
proof -
  obtain k where k: "bit_length m = Suc k" "2 ^ k \<le> m" "m < 2 ^ Suc k"
    using bit_length_bounds [of m] assms by (cases "bit_length m") auto
  have "(2 :: nat) ^ k < 2 ^ 53" using k assms by linarith
  then have k53: "k < 53" by (simp only: power_strict_increasing_iff)
  define M where "M = m * 2 ^ (52 - k)"
  have "2 ^ k * 2 ^ (52 - k) \<le> M" "M < 2 ^ Suc k * 2 ^ (52 - k)"
    unfolding M_def using k by (intro mult_le_mono mult_less_mono1; simp)+
  moreover have "2 ^ k * 2 ^ (52 - k) = (2 :: nat) ^ 52" "2 ^ Suc k * 2 ^ (52 - k) = (2 :: nat) ^ 53"
    using k53 by (simp_all only: power_add [symmetric]) simp_all
  ultimately have M: "2 ^ 52 \<le> M" "M < 2 ^ 53" by simp_all
  have "f_scaled (f64_pack s (1023 + k) (M - 2 ^ 52)) =
      (if s then -1 else 1) * int ((2 ^ 52 + (M - 2 ^ 52)) * 2 ^ (1023 + k - 1))"
    using k53 M by (intro f_scaled_pack) auto
  also have "(2 ^ 52 + (M - 2 ^ 52)) * 2 ^ (1023 + k - 1) = m * (2 ^ (52 - k) * 2 ^ (k + 1022))"
    using M(1) by (simp add: M_def add.commute)
  also have "2 ^ (52 - k) * 2 ^ (k + 1022) = (2 :: nat) ^ 1074"
    using k53 by (simp only: power_add [symmetric]) simp
  finally show ?thesis
    using assms k(1) k53 by (cases s) (simp_all add: f64_of_nat_def M_def f64_unit_def)
qed

lemma f64_of_nat_large:
  assumes "m = q * 2 ^ s" "2 ^ 52 \<le> q" "q < 2 ^ 53" "0 < s" "s < 900"
  shows "f_scaled (f64_of_nat neg m) = (if neg then -1 else 1) * int m * f64_unit"
proof -
  have "2 ^ (52 + s) \<le> m" "m < 2 ^ Suc (52 + s)"
    using assms(1-3) by (simp_all add: power_add)
  then have b: "bit_length m = Suc (52 + s)" by (rule bit_length_eqI)
  then have r: "f64_round m = q"
    using assms(1,4) by (simp add: f64_round_def Let_def)
  have "0 < m" using assms(1,2) by (metis gr0I le_zero_eq mult_is_0 power_not_zero zero_neq_numeral)
  then have "f64_of_nat neg m = f64_pack neg (1075 + s) (q - 2 ^ 52)"
    using assms b r by (simp add: f64_of_nat_def)
  also have "f_scaled \<dots> = (if neg then -1 else 1) * int ((2 ^ 52 + (q - 2 ^ 52)) * 2 ^ (1075 + s - 1))"
    using assms by (intro f_scaled_pack) auto
  also have "(2 ^ 52 + (q - 2 ^ 52)) * 2 ^ (1075 + s - 1) = m * 2 ^ 1074"
    using assms(1,2) by (simp add: power_add)
  finally show ?thesis by (simp add: f64_unit_def)
qed

lemma f64_of_nat_exact:
  assumes "f64_exact m"
  shows "f_scaled (f64_of_nat s m) = (if s then -1 else 1) * int m * f64_unit"
proof (cases "m < 2 ^ 53")
  case True
  have "f_scaled (f64_of_nat s 0) = 0"
    by (simp add: f64_of_nat_def f_scaled_def f_mag_def f_pack)
  then show ?thesis using True f64_of_nat_small [of m s] by (cases "m = 0") auto
next
  case False
  then obtain q k where *: "m = q * 2 ^ k" "2 ^ 52 \<le> q" "q < 2 ^ 53" "k < 900"
    using assms by (auto simp: f64_exact_def)
  then have "0 < k" using False by (cases k) auto
  then show ?thesis using * f64_of_nat_large by blast
qed

section \<open>Truncation\<close>

lemma f64_unit_pos [simp]: "0 < f64_unit"
  by (simp add: f64_unit_def)

lemma f64_trunc_bounds:
  "\<not> f_sign r \<Longrightarrow> f64_trunc r * f64_unit \<le> f_scaled r \<and> f_scaled r < (f64_trunc r + 1) * f64_unit"
  "f_sign r \<Longrightarrow> (f64_trunc r - 1) * f64_unit < f_scaled r \<and> f_scaled r \<le> f64_trunc r * f64_unit"
proof -
  define q where "q = int (f_mag r) div f64_unit"
  define m where "m = int (f_mag r) mod f64_unit"
  have e: "int (f_mag r) = q * f64_unit + m" by (simp add: q_def m_def)
  have m: "0 \<le> m" "m < f64_unit"
    unfolding m_def by (simp_all only: pos_mod_sign pos_mod_bound f64_unit_pos)
  show "\<not> f_sign r \<Longrightarrow> f64_trunc r * f64_unit \<le> f_scaled r \<and> f_scaled r < (f64_trunc r + 1) * f64_unit"
    using e m by (simp add: f64_trunc_def f_scaled_def q_def [symmetric] distrib_right)
  show "f_sign r \<Longrightarrow> (f64_trunc r - 1) * f64_unit < f_scaled r \<and> f_scaled r \<le> f64_trunc r * f64_unit"
    using e m by (simp add: f64_trunc_def f_scaled_def q_def [symmetric] left_diff_distrib)
qed

lemma f_exp_bound: "f_exp r < 2048"
  by (simp add: f_exp_def)

lemma f_man_bound: "f_man r < 2 ^ 52"
  by (simp add: f_man_def)

lemma f_mag_large:
  assumes "1075 \<le> f_exp r"
  shows "f_mag r = (2 ^ 52 + f_man r) * 2 ^ (f_exp r - 1075) * 2 ^ 1074"
proof -
  have "f_exp r - 1 = (f_exp r - 1075) + 1074" using assms by simp
  then have "(2 :: nat) ^ (f_exp r - 1) = 2 ^ (f_exp r - 1075) * 2 ^ 1074"
    by (simp only: power_add)
  then show ?thesis using assms by (simp add: f_mag_def)
qed

lemma f_mag_small:
  assumes "f_exp r < 1075"
  shows "f_mag r < 2 ^ 53 * 2 ^ 1074"
proof -
  have "f_mag r \<le> (2 ^ 52 + f_man r) * 2 ^ 1074"
  proof (cases "f_exp r = 0")
    case True
    have "f_man r * 1 \<le> (2 ^ 52 + f_man r) * 2 ^ 1074" by (intro mult_le_mono) simp_all
    then show ?thesis using True by (simp only: f_mag_def simp_thms if_True mult_1_right)
  next
    case False
    have "(2 ^ 52 + f_man r) * 2 ^ (f_exp r - 1) \<le> (2 ^ 52 + f_man r) * 2 ^ 1074"
      using assms by (intro mult_le_mono power_increasing) simp_all
    then show ?thesis using False by (simp only: f_mag_def simp_thms if_False)
  qed
  also have "\<dots> < 2 ^ 53 * 2 ^ 1074" using f_man_bound [of r] by (intro mult_less_mono1) simp_all
  finally show ?thesis .
qed

lemma f64_trunc_exact:
  assumes "f_mag r \<le> 2 ^ 63 * 2 ^ 1074"
  shows "f64_exact (nat \<bar>f64_trunc r\<bar>)"
proof -
  have t: "nat \<bar>f64_trunc r\<bar> = f_mag r div 2 ^ 1074"
    by (simp add: f64_trunc_def Let_def f64_unit_def nat_div_distrib zdiv_int [symmetric]
        del: of_nat_power)
  show ?thesis
  proof (cases "f_exp r < 1075")
    case True
    have "f_mag r div 2 ^ 1074 < 2 ^ 53"
      using f_mag_small [OF True] by (simp add: less_mult_imp_div_less)
    then show ?thesis by (simp only: t f64_exact_def simp_thms)
  next
    case False
    then have m: "f_mag r = (2 ^ 52 + f_man r) * 2 ^ (f_exp r - 1075) * 2 ^ 1074"
      by (intro f_mag_large) simp
    then have d: "f_mag r div 2 ^ 1074 = (2 ^ 52 + f_man r) * 2 ^ (f_exp r - 1075)" by simp
    have "f_exp r - 1075 < 900"
    proof (rule ccontr)
      assume "\<not> f_exp r - 1075 < 900"
      then have "(2 :: nat) ^ 900 \<le> 2 ^ (f_exp r - 1075)" by (intro power_increasing) auto
      then have "(2 ^ 52 + f_man r) * 2 ^ 900 \<le> f_mag r div 2 ^ 1074"
        unfolding d by (intro mult_le_mono) auto
      moreover have "f_mag r div 2 ^ 1074 \<le> 2 ^ 63" using div_le_mono [OF assms, of "2 ^ 1074"] by simp
      ultimately show False by simp
    qed
    then show ?thesis
      unfolding t d f64_exact_def using f_man_bound [of r]
      by (intro disjI2 exI [of _ "2 ^ 52 + f_man r"] exI [of _ "f_exp r - 1075"]) simp
  qed
qed

lemma f64_unit_nonzero [simp]: "f64_unit \<noteq> 0"
  using f64_unit_pos by linarith

lemma mult_unit_iff [simp]:
  "a * f64_unit < b * f64_unit \<longleftrightarrow> a < b"
  "a * f64_unit \<le> b * f64_unit \<longleftrightarrow> a \<le> b"
  "a * f64_unit = b * f64_unit \<longleftrightarrow> a = b"
  using f64_unit_pos by (simp_all add: mult_less_cancel_right_pos mult_le_cancel_right_pos)

lemma f64_round_bound: "f64_round m \<le> 2 ^ 53"
proof (cases "m = 0")
  case False
  let ?s = "bit_length m - 53"
  have "m < 2 ^ bit_length m" using False bit_length_bounds by simp
  also have "\<dots> \<le> 2 ^ (53 + ?s)" by (intro power_increasing) auto
  finally have "m div 2 ^ ?s < 2 ^ 53" by (simp only: power_add less_mult_imp_div_less)
  then show ?thesis by (simp add: f64_round_def Let_def)
qed (simp add: f64_round_def Let_def)

lemma f64_of_nat_finite:
  assumes "m < 2 ^ 64"
  shows "f_exp (f64_of_nat s m) < 2047"
proof (cases "m = 0")
  case True
  then show ?thesis by (simp add: f64_of_nat_def f_pack)
next
  case False
  then have b: "2 ^ (bit_length m - 1) \<le> m" "m < 2 ^ bit_length m" "0 < bit_length m"
    using bit_length_bounds by auto
  then have "(2 :: nat) ^ (bit_length m - 1) < 2 ^ 64" using assms by linarith
  then have "bit_length m - 1 < 64" by (simp only: power_strict_increasing_iff)
  then have l: "bit_length m \<le> 64" by simp
  have "m * 2 ^ (53 - bit_length m) < 2 ^ 53" if "bit_length m \<le> 53"
  proof -
    have "m * 2 ^ (53 - bit_length m) < 2 ^ bit_length m * 2 ^ (53 - bit_length m)"
      using b by (intro mult_less_mono1) simp_all
    also have "\<dots> = 2 ^ 53" using that by (simp only: power_add [symmetric]) simp
    finally show ?thesis .
  qed
  then show ?thesis
    using l False f64_round_bound [of m] by (auto simp: f64_of_nat_def f_pack Let_def)
qed

lemma f64_of_nat_not_nan: "m < 2 ^ 64 \<Longrightarrow> \<not> f_is_nan (f64_of_nat s m)"
  using f64_of_nat_finite [of m s] by (simp add: f_is_nan_def)

lemma f64_of_i64_finite: "f_exp (f64_of_i64 i) < 2047"
proof -
  have "nat \<bar>sint i\<bar> < 2 ^ 64" using sint_ge [of i] sint_lt [of i] by (simp add: nat_less_iff)
  then show ?thesis by (simp only: f64_of_i64_def f64_of_nat_finite)
qed

end
