(* ===== verification/Compare.thy ===== *)
theory Compare
  imports Records Floats "HOL-Library.List_Lexorder" "HOL-Library.Product_Lexorder"
begin

text \<open>
  Comparison of values (\<open>vdbe/compare.rs\<close>) under the built-in collations
  (\<open>types/collation.rs\<close>). \<open>mem_compare\<close> follows the source case by case, including the
  precision-safe comparison of an \<open>i64\<close> with an \<open>f64\<close>. The specification is the key function
  \<open>sort_key_of\<close>, which maps a value to its storage class, its exact numeric value and its
  collated bytes; \<open>mem_compare\<close> is shown to be the comparison of keys in the lexicographic
  order.
\<close>

section \<open>Orderings and collations\<close>

datatype ordering = Less | Equal | Greater

fun reverse :: "ordering \<Rightarrow> ordering" where
  "reverse Less = Greater"
| "reverse Equal = Equal"
| "reverse Greater = Less"

text \<open>\<open>Ord::cmp\<close> of a totally ordered type.\<close>

definition cmp :: "'a::linorder \<Rightarrow> 'a \<Rightarrow> ordering" where
  "cmp x y = (if x < y then Less else if x = y then Equal else Greater)"

text \<open>\<open>Ord::cmp\<close> on byte slices: lexicographic.\<close>

fun slice_cmp :: "bytes \<Rightarrow> bytes \<Rightarrow> ordering" where
  "slice_cmp [] [] = Equal"
| "slice_cmp [] (y # ys) = Less"
| "slice_cmp (x # xs) [] = Greater"
| "slice_cmp (x # xs) (y # ys) = (if x < y then Less else if y < x then Greater else slice_cmp xs ys)"

datatype collation = Binary | NoCase | RTrim

text \<open>\<open>str::to_ascii_uppercase\<close>, on the bytes of the string.\<close>

definition ascii_upper :: "u8 \<Rightarrow> u8" where
  "ascii_upper b = (if 97 \<le> b \<and> b \<le> 122 then b - 32 else b)"

definition ascii_bytes :: "string \<Rightarrow> bytes" where
  "ascii_bytes s = map (\<lambda>c. of_nat (of_char c)) s"

definition collation_from_name :: "bytes \<Rightarrow> collation option" where
  "collation_from_name name =
     (let u = map ascii_upper name in
      if u = ascii_bytes ''BINARY'' then Some Binary
      else if u = ascii_bytes ''NOCASE'' then Some NoCase
      else if u = ascii_bytes ''RTRIM'' then Some RTrim
      else None)"

definition ascii_lower :: "u8 \<Rightarrow> u8" where
  "ascii_lower b = (if 65 \<le> b \<and> b \<le> 90 then b + 32 else b)"

function rtrim_spaces :: "bytes \<Rightarrow> bytes" where
  "rtrim_spaces s = (if s \<noteq> [] \<and> last s = 32 then rtrim_spaces (butlast s) else s)"
  by pat_completeness auto
termination
  by (relation "measure length") auto

declare rtrim_spaces.simps [simp del]

fun collation_compare :: "collation \<Rightarrow> bytes \<Rightarrow> bytes \<Rightarrow> ordering" where
  "collation_compare Binary a b = slice_cmp a b"
| "collation_compare NoCase a b = slice_cmp (map ascii_lower a) (map ascii_lower b)"
| "collation_compare RTrim a b = slice_cmp (rtrim_spaces a) (rtrim_spaces b)"

section \<open>Comparing values\<close>

definition f64_partial_cmp :: "u64 \<Rightarrow> u64 \<Rightarrow> ordering option" where
  "f64_partial_cmp x y =
     (if f_is_nan x \<or> f_is_nan y then None else Some (cmp (f_scaled x) (f_scaled y)))"

definition unwrap_or_equal :: "ordering option \<Rightarrow> ordering" where
  "unwrap_or_equal r = (case r of None \<Rightarrow> Equal | Some ord \<Rightarrow> ord)"

text \<open>The constants \<open>-9223372036854775808.0\<close> and \<open>9223372036854775808.0\<close>.\<close>

definition f64_neg_2_63 :: u64 where "f64_neg_2_63 = 0xC3E0000000000000"
definition f64_2_63 :: u64 where "f64_2_63 = 0x43E0000000000000"

definition int_float_compare :: "i64 \<Rightarrow> u64 \<Rightarrow> ordering" where
  "int_float_compare i r =
     (if f_is_nan r then Greater
      else if f64_partial_cmp r f64_neg_2_63 = Some Less then Greater
      else if f64_partial_cmp r f64_2_63 \<in> {Some Equal, Some Greater} then Less
      else (let y = f64_to_i64 r in
            case cmp (sint i) (sint y) of
              Equal \<Rightarrow> (let di = f64_of_i64 i in unwrap_or_equal (f64_partial_cmp di r))
            | other \<Rightarrow> other))"

fun mem_compare :: "sql_value \<Rightarrow> sql_value \<Rightarrow> collation \<Rightarrow> ordering" where
  "mem_compare VNull VNull coll = Equal"
| "mem_compare VNull _ coll = Less"
| "mem_compare _ VNull coll = Greater"
| "mem_compare (VInt x) (VInt y) coll = cmp (sint x) (sint y)"
| "mem_compare (VReal x) (VReal y) coll = unwrap_or_equal (f64_partial_cmp x y)"
| "mem_compare (VInt x) (VReal y) coll = int_float_compare x y"
| "mem_compare (VReal x) (VInt y) coll = reverse (int_float_compare y x)"
| "mem_compare (VInt _) (VText _) coll = Less"
| "mem_compare (VInt _) (VBlob _) coll = Less"
| "mem_compare (VReal _) (VText _) coll = Less"
| "mem_compare (VReal _) (VBlob _) coll = Less"
| "mem_compare (VText _) (VInt _) coll = Greater"
| "mem_compare (VText _) (VReal _) coll = Greater"
| "mem_compare (VBlob _) (VInt _) coll = Greater"
| "mem_compare (VBlob _) (VReal _) coll = Greater"
| "mem_compare (VText x) (VText y) coll = collation_compare coll x y"
| "mem_compare (VText _) (VBlob _) coll = Less"
| "mem_compare (VBlob _) (VText _) coll = Greater"
| "mem_compare (VBlob x) (VBlob y) coll = slice_cmp x y"

section \<open>The order of keys\<close>

fun no_nan :: "sql_value \<Rightarrow> bool" where
  "no_nan (VReal r) \<longleftrightarrow> \<not> f_is_nan r"
| "no_nan v \<longleftrightarrow> True"

fun collate :: "collation \<Rightarrow> bytes \<Rightarrow> bytes" where
  "collate Binary s = s"
| "collate NoCase s = map ascii_lower s"
| "collate RTrim s = rtrim_spaces s"

text \<open>Storage class, exact numeric value (scaled by \<open>2 ^ 1074\<close>), collated bytes.\<close>

fun sort_key_of :: "collation \<Rightarrow> sql_value \<Rightarrow> nat \<times> int \<times> bytes" where
  "sort_key_of coll VNull = (0, 0, [])"
| "sort_key_of coll (VInt i) = (1, sint i * f64_unit, [])"
| "sort_key_of coll (VReal r) = (1, f_scaled r, [])"
| "sort_key_of coll (VText s) = (2, 0, collate coll s)"
| "sort_key_of coll (VBlob b) = (3, 0, b)"

lemma cmp_simps [simp]:
  "cmp x y = Less \<longleftrightarrow> x < y"
  "cmp x y = Equal \<longleftrightarrow> x = y"
  "cmp x y = Greater \<longleftrightarrow> y < x"
  by (auto simp: cmp_def)

lemma reverse_cmp [simp]: "reverse (cmp x y) = cmp y x"
  by (auto simp: cmp_def)

lemma cmp_Less: "x < y \<Longrightarrow> cmp x y = Less"
  and cmp_Greater: "y < x \<Longrightarrow> cmp x y = Greater"
  by simp_all

lemma slice_cmp_cmp: "slice_cmp xs ys = cmp xs ys"
  by (induction xs ys rule: slice_cmp.induct) (auto simp: cmp_def)

lemma collation_compare_cmp: "collation_compare coll a b = cmp (collate coll a) (collate coll b)"
  by (cases coll) (simp_all add: slice_cmp_cmp)

lemma f64_2_63_facts [simp]:
  "f_is_nan f64_2_63 = False" "f_is_nan f64_neg_2_63 = False"
  "f_scaled f64_2_63 = 2 ^ 63 * f64_unit" "f_scaled f64_neg_2_63 = - (2 ^ 63) * f64_unit"
  by (simp_all add: f64_2_63_def f64_neg_2_63_def f_is_nan_def f_scaled_def f_mag_def f_exp_def
      f_man_def f_sign_def f64_unit_def)

lemma sint_range: "- (2 ^ 63) \<le> sint (i :: i64)" "sint (i :: i64) < 2 ^ 63"
  using sint_ge [of i] sint_lt [of i] by simp_all

lemma cmp_mult_unit [simp]: "cmp (a * f64_unit) (b * f64_unit) = cmp a b"
  by (simp only: cmp_def mult_unit_iff)

lemma f64_cast_in_range:
  assumes "\<not> f_is_nan r" and "- (2 ^ 63) * f64_unit \<le> f_scaled r" and "f_scaled r < 2 ^ 63 * f64_unit"
  shows "sint (f64_to_i64 r) = f64_trunc r" and "f_mag r \<le> 2 ^ 63 * 2 ^ 1074"
proof -
  define t where "t = f64_trunc r"
  have b: "\<not> f_sign r \<Longrightarrow> t * f64_unit \<le> f_scaled r \<and> f_scaled r < (t + 1) * f64_unit"
    "f_sign r \<Longrightarrow> (t - 1) * f64_unit < f_scaled r \<and> f_scaled r \<le> t * f64_unit"
    unfolding t_def using f64_trunc_bounds by blast+
  have s: "f_sign r \<Longrightarrow> f_scaled r \<le> 0" "\<not> f_sign r \<Longrightarrow> 0 \<le> f_scaled r"
    by (simp_all add: f_scaled_def)
  have z: "t \<le> 0" if "f_sign r"
    using that by (simp add: t_def f64_trunc_def Let_def pos_imp_zdiv_nonneg_iff)
  have z': "0 \<le> t" if "\<not> f_sign r"
    using that by (simp add: t_def f64_trunc_def Let_def pos_imp_zdiv_nonneg_iff)
  have "- (2 ^ 63) \<le> t \<and> t < 2 ^ 63"
  proof (cases "f_sign r")
    case True
    then have "- (2 ^ 63) * f64_unit \<le> t * f64_unit" using b(2) assms(2) by linarith
    then show ?thesis using z True by (simp only: mult_unit_iff) simp
  next
    case False
    then have "t * f64_unit < 2 ^ 63 * f64_unit" using b(1) assms(3) by linarith
    then show ?thesis using z' False by (simp only: mult_unit_iff) simp
  qed
  then have "sint (of_int t :: i64) = t"
    by (simp add: signed_of_int signed_take_bit_int_eq_self)
  then show "sint (f64_to_i64 r) = f64_trunc r"
    using \<open>- (2 ^ 63) \<le> t \<and> t < 2 ^ 63\<close> assms(1) by (simp add: f64_to_i64_def i64_of_int_def t_def)
  have "int (f_mag r) = \<bar>f_scaled r\<bar>" by (simp add: f_scaled_def)
  then have "int (f_mag r) \<le> 2 ^ 63 * f64_unit" using assms by simp
  then show "f_mag r \<le> 2 ^ 63 * 2 ^ 1074" by (simp add: f64_unit_def)
qed

lemma f64_of_i64_exact:
  "f64_exact (nat \<bar>sint i\<bar>) \<Longrightarrow> f_scaled (f64_of_i64 i) = sint i * f64_unit"
  by (simp add: f64_of_i64_def f64_of_nat_exact)

lemma trunc_less:
  assumes "x < f64_trunc r"
  shows "x * f64_unit < f_scaled r"
proof (cases "f_sign r")
  case True
  have "x * f64_unit \<le> (f64_trunc r - 1) * f64_unit" using assms by (simp only: mult_unit_iff)
  then show ?thesis using f64_trunc_bounds(2) [OF True] by linarith
next
  case False
  have "x * f64_unit < f64_trunc r * f64_unit" using assms by (simp only: mult_unit_iff)
  then show ?thesis using f64_trunc_bounds(1) [OF False] by linarith
qed

lemma trunc_greater:
  assumes "f64_trunc r < x"
  shows "f_scaled r < x * f64_unit"
proof (cases "f_sign r")
  case True
  have "f64_trunc r * f64_unit < x * f64_unit" using assms by (simp only: mult_unit_iff)
  then show ?thesis using f64_trunc_bounds(2) [OF True] by linarith
next
  case False
  have "(f64_trunc r + 1) * f64_unit \<le> x * f64_unit" using assms by (simp only: mult_unit_iff)
  then show ?thesis using f64_trunc_bounds(1) [OF False] by linarith
qed

lemma int_float_in_range:
  assumes nan: "\<not> f_is_nan r"
    and lo: "- (2 ^ 63) * f64_unit \<le> f_scaled r" and hi: "f_scaled r < 2 ^ 63 * f64_unit"
  shows "int_float_compare i r = cmp (sint i * f64_unit) (f_scaled r)"
proof -
  have y: "sint (f64_to_i64 r) = f64_trunc r" and mag: "f_mag r \<le> 2 ^ 63 * 2 ^ 1074"
    using f64_cast_in_range [OF assms] by blast+
  have "int_float_compare i r = (case cmp (sint i) (f64_trunc r) of
      Equal \<Rightarrow> unwrap_or_equal (f64_partial_cmp (f64_of_i64 i) r) | other \<Rightarrow> other)"
    using assms unfolding int_float_compare_def Let_def y by (simp add: f64_partial_cmp_def [of r])
  also have "\<dots> = cmp (sint i * f64_unit) (f_scaled r)"
  proof (cases "sint i" "f64_trunc r" rule: linorder_cases)
    case less
    then show ?thesis by (simp add: cmp_Less trunc_less)
  next
    case greater
    then show ?thesis by (simp add: cmp_Greater trunc_greater)
  next
    case equal
    have "f_scaled (f64_of_i64 i) = sint i * f64_unit"
      using f64_trunc_exact [OF mag] equal by (intro f64_of_i64_exact) simp
    moreover have "\<not> f_is_nan (f64_of_i64 i)"
      using sint_range [of i] unfolding f64_of_i64_def by (intro f64_of_nat_not_nan) simp
    moreover have "cmp (sint i) (f64_trunc r) = Equal" using equal by simp
    ultimately show ?thesis
      using nan by (simp only: f64_partial_cmp_def unwrap_or_equal_def ordering.case option.case
          simp_thms if_False)
  qed
  finally show ?thesis .
qed

lemma int_float_compare_exact:
  assumes "\<not> f_is_nan r"
  shows "int_float_compare i r = cmp (sint i * f64_unit) (f_scaled r)"
proof -
  have i: "- (2 ^ 63) * f64_unit \<le> sint i * f64_unit" "sint i * f64_unit < 2 ^ 63 * f64_unit"
    using sint_range [of i] by (simp_all only: mult_unit_iff)
  consider "f_scaled r < - (2 ^ 63) * f64_unit" | "2 ^ 63 * f64_unit \<le> f_scaled r"
    | "- (2 ^ 63) * f64_unit \<le> f_scaled r" "f_scaled r < 2 ^ 63 * f64_unit"
    by linarith
  then show ?thesis
  proof cases
    case 1
    then have "f_scaled r < sint i * f64_unit" using i by linarith
    with 1 assms show ?thesis
      by (simp add: int_float_compare_def f64_partial_cmp_def cmp_Less cmp_Greater)
  next
    case 2
    then have "sint i * f64_unit < f_scaled r" using i by linarith
    moreover have "0 < 2 ^ 63 * f64_unit" "- (2 ^ 63) * f64_unit < 0" by simp_all
    then have "\<not> f_scaled r < - (2 ^ 63) * f64_unit" using 2 by linarith
    moreover have "cmp (f_scaled r) (2 ^ 63 * f64_unit) \<in> {Equal, Greater}"
      using 2 by (auto simp: cmp_def)
    ultimately show ?thesis using assms
      by (auto simp: int_float_compare_def f64_partial_cmp_def cmp_Less)
  next
    case 3
    then show ?thesis by (rule int_float_in_range [OF assms])
  qed
qed

lemma mem_compare_cmp:
  assumes "no_nan a" and "no_nan b"
  shows "mem_compare a b coll = cmp (sort_key_of coll a) (sort_key_of coll b)"
proof -
  have r: "cmp (1 :: nat, x :: int, [] :: bytes) (1, y, []) = cmp x y" for x y
    by (auto simp: cmp_def)
  show ?thesis
    using assms
    by (cases a; cases b) (auto simp: r f64_partial_cmp_def unwrap_or_equal_def int_float_compare_exact
        collation_compare_cmp slice_cmp_cmp cmp_def)
qed

text \<open>
  C9. Comparison of values is the comparison of exact keys: for values other than NaN and any
  collation, \<open>mem_compare\<close> orders two values as the lexicographic order on storage class
  (NULL, numbers, text, blob), exact numeric value and collated bytes does. In particular an
  \<open>i64\<close> is compared with an \<open>f64\<close> without any loss of precision, so the relation is a total
  preorder.
\<close>

theorem mem_compare_key:
  assumes "no_nan a" and "no_nan b"
  shows "mem_compare a b coll = cmp (sort_key_of coll a) (sort_key_of coll b)"
  using assms by (rule mem_compare_cmp)

theorem mem_compare_key_witness:
  "mem_compare (VInt 9007199254740993) (VReal 0x4340000000000000) Binary = Greater"
proof -
  have "mem_compare (VInt 9007199254740993) (VReal 0x4340000000000000) Binary =
      cmp (sort_key_of Binary (VInt 9007199254740993)) (sort_key_of Binary (VReal 0x4340000000000000))"
    by (rule mem_compare_key) (simp_all add: f_is_nan_def f_exp_def f_man_def)
  then show ?thesis
    by (simp add: cmp_def f_scaled_def f_mag_def f_exp_def f_man_def f_sign_def f64_unit_def)
qed

end
