(* ===== verification/Numeric.thy ===== *)
theory Numeric
  imports Compare
begin

text \<open>
  Numbers and text. \<open>numeric_prefix\<close> (\<open>util/mod.rs\<close>) recognises the number a text starts with;
  the coercions of \<open>Value\<close> (\<open>types/value.rs\<close>) and the column affinities (\<open>types/affinity.rs\<close>) rest on
  it. \<open>f64_of_ratio\<close> is the correctly rounded conversion of a fraction to binary64, which is what
  \<open>str::parse::<f64>\<close> computes for a decimal literal.
\<close>

section \<open>Rounding a fraction to binary64\<close>

text \<open>
  The value is \<open>num / den\<close>. \<open>ratio_log\<close> is the exponent of its leading bit; \<open>ratio_exp\<close> is the exponent
  of the last bit of the significand, never below that of a subnormal. A significand \<open>q\<close> of at most
  53 bits at exponent \<open>e\<close> is the bit pattern \<open>(e + 1074) * 2 ^ 52 + q\<close>, also when \<open>q\<close> is subnormal and
  when rounding carried it to \<open>2 ^ 53\<close>.
\<close>

definition ratio_at :: "nat \<Rightarrow> nat \<Rightarrow> int \<Rightarrow> nat \<times> nat" where
  "ratio_at num den e = (num * 2 ^ nat (- e), den * 2 ^ nat e)"

definition ratio_log :: "nat \<Rightarrow> nat \<Rightarrow> int" where
  "ratio_log num den =
     (let l = int (bit_length num) - int (bit_length den); (n, d) = ratio_at num den l in
      if d \<le> n then l else l - 1)"

definition round_half_even :: "nat \<Rightarrow> nat \<Rightarrow> nat" where
  "round_half_even n d =
     (let q = n div d; rest = n mod d in
      if d < 2 * rest \<or> 2 * rest = d \<and> odd q then q + 1 else q)"

definition ratio_exp :: "nat \<Rightarrow> nat \<Rightarrow> int" where
  "ratio_exp num den = max (- 1074) (ratio_log num den - 52)"

definition f64_infinity :: u64 where
  "f64_infinity = 0x7ff0000000000000"

definition f64_of_ratio :: "bool \<Rightarrow> nat \<Rightarrow> nat \<Rightarrow> u64" where
  "f64_of_ratio s num den =
     (if num = 0 then f64_pack s 0 0
      else (let e = ratio_exp num den; (n, d) = ratio_at num den e;
                bits = nat (e + 1074) * 2 ^ 52 + round_half_even n d in
            of_nat ((if s then 2 ^ 63 else 0) + min bits (2047 * 2 ^ 52))))"

section \<open>Characters and digits\<close>

text \<open>\<open>str::chars\<close>: the code points of a text. A \<open>String\<close> is always well formed.\<close>

fun code_point :: "bytes \<Rightarrow> nat" where
  "code_point [a] = unat a"
| "code_point [a, b] = unat a mod 32 * 64 + unat b mod 64"
| "code_point [a, b, c] = (unat a mod 16 * 64 + unat b mod 64) * 64 + unat c mod 64"
| "code_point [a, b, c, d] = ((unat a mod 8 * 64 + unat b mod 64) * 64 + unat c mod 64) * 64 + unat d mod 64"
| "code_point _ = 0"

function chars :: "bytes \<Rightarrow> nat list" where
  "chars bs =
     (if bs = [] then []
      else (case utf8_next bs of (ok, n) \<Rightarrow> (if ok then code_point (take n bs) else 0xFFFD) # chars (drop n bs)))"
  by pat_completeness auto
termination
  by (relation "measure length") (auto dest: utf8_next_pos [OF sym] simp: Suc_le_eq)

declare chars.simps [simp del]

text \<open>\<open>char::is_whitespace\<close>: the property \<open>White_Space\<close>. \<open>s.trim().is_empty()\<close> says that every character has it.\<close>

definition is_whitespace :: "nat \<Rightarrow> bool" where
  "is_whitespace c \<longleftrightarrow>
     0x09 \<le> c \<and> c \<le> 0x0d \<or> 0x2000 \<le> c \<and> c \<le> 0x200a
     \<or> c \<in> {0x20, 0x85, 0xa0, 0x1680, 0x2028, 0x2029, 0x202f, 0x205f, 0x3000}"

definition is_ascii_whitespace :: "u8 \<Rightarrow> bool" where
  "is_ascii_whitespace b \<longleftrightarrow> b \<in> {0x20, 0x09, 0x0a, 0x0c, 0x0d}"

definition is_ascii_digit :: "u8 \<Rightarrow> bool" where
  "is_ascii_digit b \<longleftrightarrow> 0x30 \<le> b \<and> b \<le> 0x39"

text \<open>\<open>while i < n && P(b[i]) { i += 1 }\<close>.\<close>

definition skip_while :: "(u8 \<Rightarrow> bool) \<Rightarrow> bytes \<Rightarrow> nat \<Rightarrow> nat" where
  "skip_while P b i = i + length (takeWhile P (drop i b))"

definition at_sign :: "bytes \<Rightarrow> nat \<Rightarrow> bool" where
  "at_sign b i \<longleftrightarrow> i < length b \<and> (b ! i = 0x2b \<or> b ! i = 0x2d)"

definition digits_val :: "bytes \<Rightarrow> nat" where
  "digits_val ds = foldl (\<lambda>acc d. acc * 10 + (unat d - 0x30)) 0 ds"

definition digit_byte :: "nat \<Rightarrow> u8" where
  "digit_byte d = of_nat (0x30 + d)"

text \<open>\<open>to_string\<close> of an integer.\<close>

definition nat_text :: "nat \<Rightarrow> bytes" where
  "nat_text n = ascii_bytes (dec n)"

definition i64_to_string :: "i64 \<Rightarrow> bytes" where
  "i64_to_string i = (if sint i < 0 then 0x2d # nat_text (nat (- sint i)) else nat_text (nat (sint i)))"

section \<open>The parsers of the standard library\<close>

text \<open>
  \<open>parse::<i64>\<close> of a sign and digits: an error when there is no digit or the number is out of range.
\<close>

definition split_sign :: "bytes \<Rightarrow> bool \<times> bytes" where
  "split_sign tok =
     (case tok of [] \<Rightarrow> (False, []) | c # cs \<Rightarrow> if c = 0x2d then (True, cs) else if c = 0x2b then (False, cs) else (False, tok))"

definition parse_i64 :: "bytes \<Rightarrow> i64 option" where
  "parse_i64 tok =
     (let (neg, ds) = split_sign tok; v = int (digits_val ds); k = (if neg then - v else v) in
      if ds = [] \<or> \<not> list_all is_ascii_digit ds \<or> k < - (2 ^ 63) \<or> 2 ^ 63 \<le> k then None else Some (of_int k))"

text \<open>
  \<open>parse::<f64>\<close> of a decimal literal: sign, digits, fraction and exponent, correctly rounded. The
  tokens \<open>numeric_prefix\<close> makes always have that form, so \<open>unwrap_or(0.0)\<close> never takes its default.
\<close>

definition parse_f64_parts :: "bool \<Rightarrow> bytes \<Rightarrow> bytes \<Rightarrow> int \<Rightarrow> u64" where
  "parse_f64_parts neg ints frac ex =
     (let m = digits_val (ints @ frac); k = ex - int (length frac) in
      f64_of_ratio neg (m * 10 ^ nat k) (10 ^ nat (- k)))"

definition parse_f64 :: "bytes \<Rightarrow> u64" where
  "parse_f64 tok =
     (let (neg, b) = split_sign tok;
          ints = takeWhile is_ascii_digit b; b1 = dropWhile is_ascii_digit b;
          b2 = (case b1 of c # cs \<Rightarrow> if c = 0x2e then cs else [] | [] \<Rightarrow> []);
          frac = takeWhile is_ascii_digit b2;
          b3 = (case b1 of c # cs \<Rightarrow> if c = 0x2e then dropWhile is_ascii_digit b2 else b1 | [] \<Rightarrow> []);
          ex = (case b3 of [] \<Rightarrow> 0 | _ # cs \<Rightarrow> (let (eneg, ds) = split_sign cs; v = int (digits_val ds) in if eneg then - v else v))
      in parse_f64_parts neg ints frac ex)"

section \<open>The numeric prefix of a text\<close>

definition prefix_fraction :: "bytes \<Rightarrow> nat \<Rightarrow> bool \<times> bool \<times> nat" where
  "prefix_fraction b i =
     (if i < length b \<and> b ! i = 0x2e
      then (let j = skip_while is_ascii_digit b (i + 1) in (True, i + 1 < j, j))
      else (False, False, i))"

definition prefix_exponent :: "bytes \<Rightarrow> nat \<Rightarrow> bool \<times> nat" where
  "prefix_exponent b i =
     (if i < length b \<and> (b ! i = 0x65 \<or> b ! i = 0x45)
      then (let exp_start = (if at_sign b (i + 1) then i + 2 else i + 1); j = skip_while is_ascii_digit b exp_start in
            if exp_start < j then (True, j) else (False, i))
      else (False, i))"

definition prefix_value :: "bytes \<Rightarrow> bool \<Rightarrow> bool \<Rightarrow> sql_value" where
  "prefix_value tok has_dot has_exp =
     (if \<not> has_dot \<and> \<not> has_exp
      then (case parse_i64 tok of Some v \<Rightarrow> VInt v | None \<Rightarrow> VReal (parse_f64 tok))
      else VReal (parse_f64 tok))"

definition numeric_prefix :: "bytes \<Rightarrow> sql_value option \<times> bool" where
  "numeric_prefix b =
     (let tok_start = skip_while is_ascii_whitespace b 0;
          int_start = (if at_sign b tok_start then tok_start + 1 else tok_start);
          i = skip_while is_ascii_digit b int_start;
          (has_dot, has_frac, i1) = prefix_fraction b i in
      if \<not> int_start < i \<and> \<not> has_frac then (None, False)
      else (let (has_exp, i2) = prefix_exponent b i1;
                tok = sub tok_start i2 b
            in (Some (prefix_value tok has_dot has_exp), skip_while is_ascii_whitespace b i2 = length b)))"

section \<open>Coercions of values\<close>

definition is_null :: "sql_value \<Rightarrow> bool" where
  "is_null v \<longleftrightarrow> v = VNull"

definition prefix_f64 :: "bytes \<Rightarrow> u64" where
  "prefix_f64 s = (case fst (numeric_prefix s) of Some (VInt i) \<Rightarrow> f64_of_i64 i | Some (VReal r) \<Rightarrow> r | _ \<Rightarrow> 0)"

definition prefix_i64 :: "bytes \<Rightarrow> i64" where
  "prefix_i64 s = (case fst (numeric_prefix s) of Some (VInt i) \<Rightarrow> i | Some (VReal r) \<Rightarrow> f64_to_i64 r | _ \<Rightarrow> 0)"

fun as_i64 :: "sql_value \<Rightarrow> i64" where
  "as_i64 (VInt i) = i"
| "as_i64 (VReal r) = f64_to_i64 r"
| "as_i64 (VText s) = prefix_i64 s"
| "as_i64 (VBlob b) = prefix_i64 (from_utf8_lossy b)"
| "as_i64 VNull = 0"

fun as_f64 :: "sql_value \<Rightarrow> u64" where
  "as_f64 (VInt i) = f64_of_i64 i"
| "as_f64 (VReal r) = r"
| "as_f64 (VText s) = prefix_f64 s"
| "as_f64 (VBlob b) = prefix_f64 (from_utf8_lossy b)"
| "as_f64 VNull = 0"

fun numeric_type :: "sql_value \<Rightarrow> nat" where
  "numeric_type (VInt _) = 1"
| "numeric_type (VReal _) = 2"
| "numeric_type (VBlob _) = 4"
| "numeric_type VNull = 5"
| "numeric_type (VText s) =
     (case numeric_prefix s of
        (Some (VInt _), True) \<Rightarrow> 1
      | (Some (VReal _), True) \<Rightarrow> 2
      | _ \<Rightarrow> 3)"

definition is_numeric :: "sql_value \<Rightarrow> bool" where
  "is_numeric v \<longleftrightarrow> numeric_type v = 1 \<or> numeric_type v = 2"

section \<open>Affinity\<close>

datatype affinity = Aff_Integer | Aff_Text | Aff_Blob | Aff_Real | Aff_Numeric

definition bytes_contain :: "bytes \<Rightarrow> string \<Rightarrow> bool" where
  "bytes_contain hay needle =
     list_ex (\<lambda>i. take (length needle) (drop i hay) = ascii_bytes needle) [0..<Suc (length hay)]"

definition affinity_of :: "bytes option \<Rightarrow> affinity" where
  "affinity_of declared_type =
     (case declared_type of
        None \<Rightarrow> Aff_Blob
      | Some decl \<Rightarrow>
          if list_all is_whitespace (chars decl) then Aff_Blob
          else (let t = map ascii_upper decl in
            if bytes_contain t ''INT'' then Aff_Integer
            else if bytes_contain t ''CHAR'' \<or> bytes_contain t ''CLOB'' \<or> bytes_contain t ''TEXT'' then Aff_Text
            else if bytes_contain t ''BLOB'' then Aff_Blob
            else if bytes_contain t ''REAL'' \<or> bytes_contain t ''FLOA'' \<or> bytes_contain t ''DOUB'' then Aff_Real
            else Aff_Numeric))"

definition numeric_value_of :: "bytes \<Rightarrow> sql_value option" where
  "numeric_value_of s = (case numeric_prefix s of (Some v, True) \<Rightarrow> Some v | _ \<Rightarrow> None)"

fun to_numeric_affinity :: "sql_value \<Rightarrow> sql_value" where
  "to_numeric_affinity (VText s) = (case numeric_value_of s of Some n \<Rightarrow> n | None \<Rightarrow> VText s)"
| "to_numeric_affinity v = v"

end
