(* ===== verification/Fp_Text.thy ===== *)
theory Fp_Text
  imports Numeric
begin

text \<open>
  Rendering a binary64 number as text (\<open>util/fp.rs\<close>): scaling by a 96-bit power of ten, extracting
  decimal digits into a buffer, rounding them there, and laying them out as \<open>%g\<close> or \<open>%f\<close> would.
  Buffer accesses, shifts, subtractions, the arithmetic on digits and on the \<open>i32\<close> positions and
  precisions are checked as in a build with overflow checks, so every panic of the code is a branch
  here. Only sums of exponents that come from the 11-bit field of the number or from a power of ten
  within the table, which no \<open>i32\<close> can exceed, are plain.
\<close>

section \<open>Checked operations\<close>

definition index_at :: "nat \<Rightarrow> 'a list \<Rightarrow> 'a result" where
  "index_at k xs = (if k < length xs then Inr (xs ! k) else Inl Panic)"

definition set_at :: "nat \<Rightarrow> 'a \<Rightarrow> 'a list \<Rightarrow> 'a list result" where
  "set_at k x xs = (if k < length xs then Inr (xs[k := x]) else Inl Panic)"

definition checked_sub :: "nat \<Rightarrow> nat \<Rightarrow> nat result" where
  "checked_sub a b = (if a < b then Inl Panic else Inr (a - b))"

definition checked_i32 :: "int \<Rightarrow> int result" where
  "checked_i32 k = (if k < - (2 ^ 31) \<or> 2 ^ 31 \<le> k then Inl Panic else Inr k)"

definition shr64 :: "u64 \<Rightarrow> int \<Rightarrow> u64 result" where
  "shr64 x s = (if s < 0 \<or> 64 \<le> s then Inl Panic else Inr (drop_bit (nat s) x))"

definition shl64 :: "u64 \<Rightarrow> int \<Rightarrow> u64 result" where
  "shl64 x s = (if s < 0 \<or> 64 \<le> s then Inl Panic else Inr (push_bit (nat s) x))"

section \<open>Wide multiplication and powers of ten\<close>

definition multiply128 :: "u64 \<Rightarrow> u64 \<Rightarrow> u64 \<times> u64" where
  "multiply128 a b = (of_nat (unat a * unat b div 2 ^ 64), a * b)"

definition multiply160 :: "u64 \<Rightarrow> u32 \<Rightarrow> u64 \<Rightarrow> u64 \<times> u32" where
  "multiply160 a a_lo b =
     (let r = unat a * unat b + unat a_lo * unat b div 2 ^ 32 in
      (of_nat (r div 2 ^ 64), of_nat (r div 2 ^ 32)))"

definition pwr10to2 :: "int \<Rightarrow> int" where
  "pwr10to2 p = p * 108853 div 2 ^ 15"

definition pwr2to10 :: "int \<Rightarrow> int" where
  "pwr2to10 p = p * 78913 div 2 ^ 18"

definition POWERSOF10_FIRST :: int where
  "POWERSOF10_FIRST = - 348"

definition POWERSOF10_LAST :: int where
  "POWERSOF10_LAST = 347"

definition A_BASE :: "u64 list" where
  "A_BASE = [
    0x8000000000000000, 0xa000000000000000, 0xc800000000000000, 0xfa00000000000000, 0x9c40000000000000,
    0xc350000000000000, 0xf424000000000000, 0x9896800000000000, 0xbebc200000000000, 0xee6b280000000000,
    0x9502f90000000000, 0xba43b74000000000, 0xe8d4a51000000000, 0x9184e72a00000000, 0xb5e620f480000000,
    0xe35fa931a0000000, 0x8e1bc9bf04000000, 0xb1a2bc2ec5000000, 0xde0b6b3a76400000, 0x8ac7230489e80000,
    0xad78ebc5ac620000, 0xd8d726b7177a8000, 0x878678326eac9000, 0xa968163f0a57b400, 0xd3c21bcecceda100,
    0x84595161401484a0, 0xa56fa5b99019a5c8]"

definition A_SCALE :: "u64 list" where
  "A_SCALE = [
    0x8049a4ac0c5811ae, 0xcf42894a5dce35ea, 0xa76c582338ed2621, 0x873e4f75e2224e68, 0xda7f5bf590966848,
    0xb080392cc4349dec, 0x8e938662882af53e, 0xe65829b3046b0afa, 0xba121a4650e4ddeb, 0x964e858c91ba2655,
    0xf2d56790ab41c2a2, 0xc428d05aa4751e4c, 0x9e74d1b791e07e48, 0xcccccccccccccccc, 0xcecb8f27f4200f3a,
    0xa70c3c40a64e6c51, 0x86f0ac99b4e8dafd, 0xda01ee641a708de9, 0xb01ae745b101e9e4, 0x8e41ade9fbebc27d,
    0xe5d3ef282a242e81, 0xb9a74a0637ce2ee1, 0x95f83d0a1fb69cd9, 0xf24a01a73cf2dccf, 0xc3b8358109e84f07,
    0x9e19db92b4e31ba9]"

definition A_SCALE_LO :: "u32 list" where
  "A_SCALE_LO = [
    0x205b896d, 0x52064cad, 0xaf2af2b8, 0x5a7744a7, 0xaf39a475, 0xbd8d794e, 0x547eb47b, 0x0cb4a5a3, 0x92f34d62,
    0x3a6a07f9, 0xfae27299, 0xaa97e14c, 0x775ea265, 0xcccccccc, 0x00000000, 0x999090b6, 0x69a028bb, 0xe80e6f48,
    0x5ec05dd0, 0x14588f14, 0x8f1668c9, 0x6d953e2c, 0x4abdaf10, 0xbc633b39, 0x0a862f81, 0x6c07a2c2]"

text \<open>\<open>p / 27\<close> and \<open>p % 27\<close> truncate towards zero; for a negative \<open>p\<close> the pair is then moved down.\<close>

definition power_split :: "int \<Rightarrow> int \<times> int" where
  "power_split p =
     (if p < 0
      then (let gg = - (- p div 27); nn = - (- p mod 27) in if nn \<noteq> 0 then (gg - 1, nn + 27) else (gg, nn))
      else (p div 27, p mod 27))"

definition scale_at :: "int \<Rightarrow> (u64 \<times> u32) result" where
  "scale_at g =
     (if g + 13 < 0 then Inl Panic
      else and_then (index_at (nat (g + 13)) A_SCALE) (\<lambda>s.
             and_then (index_at (nat (g + 13)) A_SCALE_LO) (\<lambda>lo. Inr (s, lo))))"

definition normalize160 :: "u64 \<times> u32 \<Rightarrow> u64 \<times> u32" where
  "normalize160 xl =
     (case xl of (x, lo) \<Rightarrow>
        if x AND push_bit 63 1 = 0
        then (push_bit 1 x OR ucast (drop_bit 31 lo AND 1), push_bit 1 lo OR 1)
        else (x, lo))"

definition power_of_ten :: "int \<Rightarrow> (u64 \<times> u32) result" where
  "power_of_ten p =
     (if p < POWERSOF10_FIRST \<or> POWERSOF10_LAST < p then Inl Panic
      else if p = - 1 then scale_at 0
      else if 0 \<le> p \<and> p < 27 then and_then (index_at (nat p) A_BASE) (\<lambda>b. Inr (b, 0))
      else (let (g, n) = power_split p in
        and_then (scale_at g) (\<lambda>(s, lo).
          if n = 0 then Inr (s, lo)
          else and_then (index_at (nat n) A_BASE) (\<lambda>b. Inr (normalize160 (multiply160 s lo b))))))"

section \<open>Between binary and decimal\<close>

definition fp2convert10 :: "u64 \<Rightarrow> int \<Rightarrow> int \<Rightarrow> (u64 \<times> int) result" where
  "fp2convert10 m e n =
     (if n < 1 \<or> 18 < n then Inl Panic
      else (let p = n - 1 - pwr2to10 (e + 63) in
        and_then (power_of_ten p) (\<lambda>(hi, _).
          let h = fst (multiply128 m hi) in
          if n = 18
          then and_then (shr64 h (- (e + pwr10to2 p + 2))) (\<lambda>h1.
                 Inr (drop_bit 1 (h1 + (push_bit 1 h1 AND 2)), - p))
          else and_then (shr64 h (- (e + pwr10to2 p + 1))) (\<lambda>d. Inr (d, - p)))))"

definition convert2_round :: "u64 \<Rightarrow> int \<Rightarrow> u64" where
  "convert2_round u0 e0 =
     (let big = push_bit 55 1 - 2 \<le> u0;
          u = (if big then drop_bit 1 u0 OR (u0 AND 1) else u0);
          e = (if big then e0 - 1 else e0);
          m = drop_bit 2 (u + 1 + (drop_bit 2 u AND 1)) in
      if e \<le> - 972 then f64_infinity
      else if m AND push_bit 52 1 \<noteq> 0
      then (m AND NOT (push_bit 52 1)) OR push_bit 52 (of_int (1075 - e))
      else m)"

text \<open>The product with the power of ten, corrected by its low word where the bits below the result are all 0.\<close>

definition convert2_scaled :: "u64 \<Rightarrow> u64 \<Rightarrow> u32 \<Rightarrow> int \<Rightarrow> int \<Rightarrow> u64 result" where
  "convert2_scaled x h l s e =
     (let (hi, lo) = multiply128 x h; mid1 = ucast (drop_bit 32 lo) :: u32 in
      and_then (shl64 1 s) (\<lambda>one.
      and_then
        (if hi AND (one - 1) = 0
         then (let mid2 = ucast (drop_bit 32 (fst (multiply128 x (push_bit 32 (ucast l))))) :: u32;
                   sticky = (if 1 < mid1 - mid2 then 1 else 0) in
               if mid1 < mid2 then (if hi = 0 then Inl Panic else Inr (hi - 1, sticky)) else Inr (hi, sticky))
         else Inr (hi, 1))
        (\<lambda>(hi1, sticky). and_then (shr64 hi1 s) (\<lambda>u. Inr (convert2_round (u OR sticky) e)))))"

definition fp10convert2 :: "u64 \<Rightarrow> int \<Rightarrow> u64 result" where
  "fp10convert2 d p =
     (if p < POWERSOF10_FIRST then Inr 0
      else if POWERSOF10_LAST < p then Inr f64_infinity
      else (let b = int (bit_length (unat d)); lp = pwr10to2 p; e0 = 53 - b - lp in
        if 1130 \<le> e0 then Inr 0
        else (let e = (if 1074 < e0 then 1074 else e0); s = - (e - (64 - b) + lp + 3) in
          and_then (power_of_ten p) (\<lambda>(h0, l0).
            let h = (if l0 \<noteq> 0 then h0 + 1 else h0); l = (if l0 \<noteq> 0 then NOT l0 else l0) in
            and_then (shl64 d (64 - b)) (\<lambda>x. convert2_scaled x h l s e)))))"

section \<open>Decoding into digits\<close>

record fp_decoded =
  fd_sign :: u8
  fd_n :: nat
  fd_i_dp :: int
  fd_digits :: bytes
  fd_is_special :: nat

text \<open>The digits of \<open>v\<close> right to left, two at a time, into the buffer; the position of the first one.\<close>

function extract_digits :: "nat \<Rightarrow> bytes \<Rightarrow> nat \<Rightarrow> (bytes \<times> nat) result" where
  "extract_digits v zbuf i =
     (if 10 \<le> v
      then and_then (checked_sub i 1) (\<lambda>i1.
           and_then (set_at i1 (digit_byte (v mod 100 mod 10)) zbuf) (\<lambda>z1.
           and_then (checked_sub i 2) (\<lambda>i2.
           and_then (set_at i2 (digit_byte (v mod 100 div 10)) z1) (\<lambda>z2.
             extract_digits (v div 100) z2 i2))))
      else if v \<noteq> 0
      then and_then (checked_sub i 1) (\<lambda>i1. and_then (set_at i1 (digit_byte v) zbuf) (\<lambda>z1. Inr (z1, i1)))
      else Inr (zbuf, i))"
  by pat_completeness auto
termination
  by (relation "measure (\<lambda>(v, _, _). v)") auto

declare extract_digits.simps [simp del]

text \<open>\<open>(acc * 10 + digit)\<close> over \<open>zbuf[z..z + jj]\<close>, the first digit in any case.\<close>

definition u64_of :: "nat \<Rightarrow> u64 result" where
  "u64_of k = (if 2 ^ 64 \<le> k then Inl Panic else Inr (of_nat k))"

definition digit_value :: "u8 \<Rightarrow> nat result" where
  "digit_value c = checked_sub (unat c) 0x30"

fun acc_digits :: "u64 \<Rightarrow> bytes \<Rightarrow> u64 result" where
  "acc_digits acc [] = Inr acc"
| "acc_digits acc (c # cs) =
     and_then (digit_value c) (\<lambda>d. and_then (u64_of (unat acc * 10 + d)) (\<lambda>acc1. acc_digits acc1 cs))"

definition digits_acc :: "bytes \<Rightarrow> nat \<Rightarrow> nat \<Rightarrow> u64 result" where
  "digits_acc zbuf z jj = and_then (index_range z (z + max 1 jj) zbuf) (acc_digits 0)"

text \<open>\<open>while jj > 0 && zbuf[z + jj - 1] == b'9' { jj -= 1 }\<close>.\<close>

fun skip_nines :: "bytes \<Rightarrow> nat \<Rightarrow> nat \<Rightarrow> nat result" where
  "skip_nines zbuf z 0 = Inr 0"
| "skip_nines zbuf z (Suc jj) =
     and_then (index_at (z + jj) zbuf) (\<lambda>c. if c = 0x39 then skip_nines zbuf z jj else Inr (Suc jj))"

text \<open>\<open>while zbuf[z + jj - 1] == b'0' { jj -= 1 }\<close>, whose index underflows when \<open>z\<close> and \<open>jj\<close> are 0.\<close>

fun skip_zeros :: "bytes \<Rightarrow> nat \<Rightarrow> nat \<Rightarrow> nat result" where
  "skip_zeros zbuf z 0 =
     and_then (checked_sub z 1) (\<lambda>k. and_then (index_at k zbuf) (\<lambda>c. if c = 0x30 then Inl Panic else Inr 0))"
| "skip_zeros zbuf z (Suc jj) =
     and_then (index_at (z + jj) zbuf) (\<lambda>c. if c = 0x30 then skip_zeros zbuf z jj else Inr (Suc jj))"

text \<open>Fewer than 17 digits when the shorter decimal converts back to \<open>r\<close>.\<close>

definition round_trips :: "u64 \<Rightarrow> u64 \<Rightarrow> int \<Rightarrow> bool result" where
  "round_trips r d p = and_then (fp10convert2 d p) (\<lambda>r'. Inr (f64_partial_cmp r r' = Some Equal))"

definition shorter_trips :: "u64 \<Rightarrow> u64 \<Rightarrow> int \<Rightarrow> int \<Rightarrow> nat \<Rightarrow> int result" where
  "shorter_trips r d exp n jj =
     and_then (checked_i32 (exp + n)) (\<lambda>s. and_then (checked_i32 (s - int jj)) (\<lambda>p.
     and_then (round_trips r d p) (\<lambda>same. Inr (if same then int jj + 1 else 17))))"

definition reduce17 :: "u64 \<Rightarrow> bytes \<Rightarrow> nat \<Rightarrow> int \<Rightarrow> int \<Rightarrow> int \<Rightarrow> int result" where
  "reduce17 r zbuf z n exp i_dp =
     and_then (index_at (z + 15) zbuf) (\<lambda>c15. and_then (index_at (z + 14) zbuf) (\<lambda>c14.
     if c15 = 0x39 \<and> c14 = 0x39
     then and_then (skip_nines zbuf z 14) (\<lambda>jj.
          and_then (if jj = 0 then Inr 1 else and_then (digits_acc zbuf z jj) (\<lambda>acc. u64_of (unat acc + 1))) (\<lambda>v2.
            shorter_trips r v2 exp n jj))
     else and_then (index_at (z + 13) zbuf) (\<lambda>c13.
     if n \<le> i_dp \<or> c15 = 0x30 \<and> c14 = 0x30 \<and> c13 = 0x30
     then and_then (skip_zeros zbuf z 13) (\<lambda>jj.
          and_then (digits_acc zbuf z jj) (\<lambda>acc. shorter_trips r acc exp n jj))
     else Inr 17)))"

text \<open>The carry of rounding up; it may take a digit more in front.\<close>

fun carry_up :: "bytes \<Rightarrow> nat \<Rightarrow> nat \<Rightarrow> (bytes \<times> bool) result" where
  "carry_up zbuf z j =
     and_then (index_at (z + j) zbuf) (\<lambda>c.
       if c = 0xff then Inl Panic
       else if c + 1 \<le> 0x39 then Inr (zbuf[z + j := c + 1], False)
       else (let z1 = zbuf[z + j := 0x30] in
         case j of
           0 \<Rightarrow> and_then (checked_sub z 1) (\<lambda>k. and_then (set_at k 0x31 z1) (\<lambda>z2. Inr (z2, True)))
         | Suc j' \<Rightarrow> carry_up z1 z j'))"

definition round_digits :: "u64 \<Rightarrow> bytes \<Rightarrow> nat \<Rightarrow> int \<Rightarrow> int \<Rightarrow> int \<Rightarrow> int \<Rightarrow> int \<Rightarrow> (bytes \<times> nat \<times> int \<times> int) result" where
  "round_digits r zbuf z n exp i_dp i_round mx_round =
     (if 0 < i_round \<and> (i_round < n \<or> mx_round < n)
      then (let i_round1 = min i_round mx_round in
        and_then (if i_round1 = 17 then reduce17 r zbuf z n exp i_dp else Inr i_round1) (\<lambda>k.
        and_then (index_at (z + nat k) zbuf) (\<lambda>c.
          if 0x35 \<le> c
          then and_then (carry_up zbuf z (nat (k - 1))) (\<lambda>(z1, more).
                 if more
                 then and_then (checked_i32 (k + 1)) (\<lambda>k1. and_then (checked_i32 (i_dp + 1)) (\<lambda>d1. Inr (z1, z - 1, k1, d1)))
                 else Inr (z1, z, k, i_dp))
          else Inr (zbuf, z, k, i_dp))))
      else Inr (zbuf, z, n, i_dp))"

text \<open>\<open>while n > 0 && zbuf[z + (n - 1)] == b'0' { n -= 1 }\<close>.\<close>

fun strip_trailing :: "bytes \<Rightarrow> nat \<Rightarrow> nat \<Rightarrow> nat result" where
  "strip_trailing zbuf z 0 = Inr 0"
| "strip_trailing zbuf z (Suc n) =
     and_then (index_at (z + n) zbuf) (\<lambda>c. if c = 0x30 then strip_trailing zbuf z n else Inr (Suc n))"

text \<open>A rounding position counted from the decimal point; at 0 a first digit of 5 or more gets a zero in front.\<close>

definition round_position :: "bytes \<Rightarrow> nat \<Rightarrow> int \<Rightarrow> int \<Rightarrow> int \<Rightarrow> (bytes \<times> nat \<times> int \<times> int \<times> int) result" where
  "round_position zbuf i n i_dp i_round_in =
     (if i_round_in \<le> 0
      then and_then (checked_i32 (i_dp - i_round_in)) (\<lambda>i_round.
        if i_round = 0
        then and_then (index_at i zbuf) (\<lambda>c.
               if 0x35 \<le> c
               then and_then (checked_sub i 1) (\<lambda>i1. and_then (set_at i1 0x30 zbuf) (\<lambda>z1.
                    and_then (checked_i32 (n + 1)) (\<lambda>n1. and_then (checked_i32 (i_dp + 1)) (\<lambda>d1. Inr (z1, i1, n1, d1, 1)))))
               else Inr (zbuf, i, n, i_dp, i_round))
        else Inr (zbuf, i, n, i_dp, i_round))
      else Inr (zbuf, i, n, i_dp, i_round_in))"

definition leading_zeros :: "u64 \<Rightarrow> nat" where
  "leading_zeros v = 64 - bit_length (unat v)"

definition mantissa_of :: "u64 \<Rightarrow> (u64 \<times> int) result" where
  "mantissa_of bits =
     (let e = f_exp bits; v = of_nat (f_man bits) :: u64 in
      if e = 0
      then (let nn = int (leading_zeros v) in and_then (shl64 v nn) (\<lambda>w. Inr (w, - 1074 - nn)))
      else Inr (push_bit 11 v OR push_bit 63 1, int e - 1086))"

definition decode_digits :: "u64 \<Rightarrow> u8 \<Rightarrow> int \<Rightarrow> int \<Rightarrow> fp_decoded result" where
  "decode_digits r sign i_round_in mx_round =
     (let conv_n = (if i_round_in \<le> 0 \<or> 18 \<le> i_round_in then 18 else i_round_in + 1) in
      and_then (mantissa_of r) (\<lambda>(m, e).
      and_then (fp2convert10 m e conv_n) (\<lambda>(v, exp).
      and_then (extract_digits (unat v) (replicate 21 0) 20) (\<lambda>(zbuf, i).
      let n = 20 - int i in
      and_then (checked_i32 (n + exp)) (\<lambda>i_dp0.
      and_then (round_position zbuf i n i_dp0 i_round_in) (\<lambda>(zbuf1, z, n1, i_dp, i_round).
      and_then (round_digits r zbuf1 z n1 exp i_dp i_round mx_round) (\<lambda>(zbuf2, z2, n2, i_dp2).
      and_then (strip_trailing zbuf2 z2 (nat n2)) (\<lambda>n3.
      and_then (index_range z2 (z2 + n3) zbuf2) (\<lambda>ds.
        Inr \<lparr>fd_sign = sign, fd_n = n3, fd_i_dp = i_dp2, fd_digits = ds, fd_is_special = 0\<rparr>)))))))))"

definition f64_neg :: "u64 \<Rightarrow> u64" where
  "f64_neg r = r XOR push_bit 63 1"

definition fp_decode :: "u64 \<Rightarrow> int \<Rightarrow> int \<Rightarrow> fp_decoded result" where
  "fp_decode r0 i_round_in mx_round =
     (if mx_round \<le> 0 then Inl Panic
      else if f64_partial_cmp r0 0 = Some Equal
      then Inr \<lparr>fd_sign = 0x2b, fd_n = 1, fd_i_dp = 1, fd_digits = [0x30], fd_is_special = 0\<rparr>
      else (let neg = f64_partial_cmp r0 0 = Some Less; sign = (if neg then 0x2d else 0x2b);
                r = (if neg then f64_neg r0 else r0) in
        if f_exp r = 2047
        then Inr \<lparr>fd_sign = sign, fd_n = 0, fd_i_dp = 0, fd_digits = [],
                  fd_is_special = 1 + (if r \<noteq> f64_infinity then 1 else 0)\<rparr>
        else decode_digits r sign i_round_in mx_round))"

section \<open>Layout\<close>

datatype conv = Generic | Fixed

definition zeros :: "int \<Rightarrow> bytes" where
  "zeros k = replicate (nat k) 0x30"

text \<open>The digits before the decimal point: the text, how many digits it used, and the exponent left.\<close>

definition integer_part :: "bytes \<Rightarrow> int \<Rightarrow> int \<Rightarrow> (bytes \<times> int \<times> int) result" where
  "integer_part digits sn e2 =
     (if e2 < 0 then Inr ([0x30], 0, e2)
      else and_then (checked_i32 (e2 + 1)) (\<lambda>e1.
        let j = min e1 sn; e3 = e2 - j in
        and_then (index_range 0 (nat j) digits) (\<lambda>ds.
          if 0 \<le> e3 then Inr (ds @ zeros (e3 + 1), j, - 1) else Inr (ds, j, e3))))"

text \<open>The digits after it, at most \<open>precision\<close> of them.\<close>

definition fraction_part :: "bytes \<Rightarrow> int \<Rightarrow> int \<Rightarrow> int \<Rightarrow> bool \<Rightarrow> int \<Rightarrow> bytes result" where
  "fraction_part digits sn j precision flag_rtz e2 =
     (let nz = (if e2 < - 1 \<and> 0 < precision then min (- 1 - e2) precision else 0); precision1 = precision - nz in
      if 0 < precision1
      then (let nn = max 0 (min (sn - j) precision1) in
        and_then (index_range (nat j) (nat (j + nn)) digits) (\<lambda>ds.
          Inr (zeros nz @ ds @ (if flag_rtz then [] else zeros (precision1 - nn)))))
      else Inr (zeros nz))"

definition trim_zeros :: "bool \<Rightarrow> bytes \<Rightarrow> bytes" where
  "trim_zeros altform2 out =
     (let out1 = rev (dropWhile (\<lambda>c. c = 0x30) (rev out)) in
      if out1 \<noteq> [] \<and> last out1 = 0x2e
      then (if altform2 then out1 @ [0x30] else butlast out1)
      else out1)"

text \<open>\<open>b'0' + k as u8\<close>: the cast wraps, the addition is checked.\<close>

definition push_digit :: "int \<Rightarrow> u8 result" where
  "push_digit k = (if 0x100 \<le> 0x30 + k mod 0x100 then Inl Panic else Inr (of_int (0x30 + k mod 0x100)))"

definition exponent_suffix :: "int \<Rightarrow> bytes result" where
  "exponent_suffix exp0 =
     and_then (if exp0 < 0 then checked_i32 (- exp0) else Inr exp0) (\<lambda>exp.
     and_then (if 100 \<le> exp then and_then (push_digit (exp div 100)) (\<lambda>h. Inr [h]) else Inr []) (\<lambda>hundreds.
     let rest = (if 100 \<le> exp then exp mod 100 else exp) in
     and_then (push_digit (rest div 10)) (\<lambda>t. and_then (push_digit (rest mod 10)) (\<lambda>u.
       Inr (0x65 # (if exp0 < 0 then 0x2d else 0x2b) # hundreds @ [t, u])))))"

text \<open>The choice between \<open>etEXP\<close> and \<open>etFLOAT\<close>, with the precision that is left.\<close>

definition render_form :: "conv \<Rightarrow> int \<Rightarrow> int \<Rightarrow> (bool \<times> int) result" where
  "render_form gtype precision exp =
     (case gtype of
        Fixed \<Rightarrow> Inr (False, precision)
      | Generic \<Rightarrow>
          and_then (checked_i32 (precision - 1)) (\<lambda>p.
            if exp < - 4 \<or> p < exp then Inr (True, p) else and_then (checked_i32 (p - exp)) (\<lambda>q. Inr (False, q))))"

definition render_digits :: "fp_decoded \<Rightarrow> int \<Rightarrow> conv \<Rightarrow> bool \<Rightarrow> bytes result" where
  "render_digits s precision1 gtype altform2 =
     and_then (checked_i32 (fd_i_dp s - 1)) (\<lambda>exp.
     and_then (render_form gtype precision1 exp) (\<lambda>(xtype_exp, precision).
     let prefix = (if fd_sign s = 0x2d then [0x2d] else []);
         flag_rtz = (gtype = Generic \<or> altform2);
         flag_dp = (0 < precision \<or> altform2) in
      and_then (integer_part (fd_digits s) (int (fd_n s)) (if xtype_exp then 0 else exp)) (\<lambda>(ip, j, e2).
      and_then (fraction_part (fd_digits s) (int (fd_n s)) j precision flag_rtz e2) (\<lambda>frac.
        let out = prefix @ ip @ (if flag_dp then [0x2e] else []) @ frac;
            out1 = (if flag_rtz \<and> flag_dp then trim_zeros altform2 out else out)
        in and_then (if xtype_exp then exponent_suffix exp else Inr []) (\<lambda>suffix. Inr (out1 @ suffix))))))"

definition render :: "u64 \<Rightarrow> int \<Rightarrow> conv \<Rightarrow> bool \<Rightarrow> bytes result" where
  "render r precision0 gtype altform2 =
     (let precision1 = (if precision0 < 0 then 6 else precision0);
          precision2 = (if gtype = Generic \<and> precision1 = 0 then 1 else precision1);
          mx_round = (if altform2 then 20 else 16) in
      and_then (if gtype = Fixed then checked_i32 (- precision2) else Inr precision2) (\<lambda>i_round.
      and_then (fp_decode r i_round mx_round) (\<lambda>s.
      if fd_is_special s = 2 then Inr (ascii_bytes ''NaN'')
      else if fd_is_special s \<noteq> 0
      then Inr (if fd_sign s = 0x2d then ascii_bytes ''-Inf'' else ascii_bytes ''Inf'')
      else render_digits s precision2 gtype altform2)))"

definition fp_to_text :: "u64 \<Rightarrow> bytes result" where
  "fp_to_text r = render r 17 Generic True"

definition fp_to_fixed :: "u64 \<Rightarrow> int \<Rightarrow> bytes result" where
  "fp_to_fixed r precision = render r precision Fixed True"

section \<open>Text of a value and text affinity\<close>

fun to_text :: "sql_value \<Rightarrow> bytes option result" where
  "to_text VNull = Inr None"
| "to_text (VInt i) = Inr (Some (i64_to_string i))"
| "to_text (VReal r) = and_then (fp_to_text r) (\<lambda>s. Inr (Some s))"
| "to_text (VText s) = Inr (Some s)"
| "to_text (VBlob b) = Inr (Some (from_utf8_lossy b))"

fun to_text_affinity :: "sql_value \<Rightarrow> sql_value result" where
  "to_text_affinity (VInt i) = Inr (VText (i64_to_string i))"
| "to_text_affinity (VReal r) = and_then (fp_to_text r) (\<lambda>s. Inr (VText s))"
| "to_text_affinity v = Inr v"

fun apply_affinity :: "sql_value \<Rightarrow> affinity \<Rightarrow> sql_value result" where
  "apply_affinity v Aff_Text = to_text_affinity v"
| "apply_affinity v Aff_Blob = Inr v"
| "apply_affinity v _ = Inr (to_numeric_affinity v)"

end
