(* ===== verification/Fp_Safe.thy ===== *)
theory Fp_Safe
  imports Fp_Text
begin

text \<open>
  Rendering a number never panics: the shift amounts stay below 64 for every exponent, the powers of
  ten are normalized, the digit buffer is large enough with a place to spare for a carry and holds
  digits only, and the positions stay far within \<open>i32\<close>.
\<close>

section \<open>Powers of ten\<close>

lemma index_at_ok [simp]: "k < length xs \<Longrightarrow> index_at k xs = Inr (xs ! k)"
  by (simp add: index_at_def)

lemma set_at_ok [simp]: "k < length xs \<Longrightarrow> set_at k x xs = Inr (xs[k := x])"
  by (simp add: set_at_def)

lemma checked_sub_ok [simp]: "b \<le> a \<Longrightarrow> checked_sub a b = Inr (a - b)"
  by (simp add: checked_sub_def)

lemma checked_i32_ok [simp]: "- (2 ^ 31) \<le> k \<Longrightarrow> k < 2 ^ 31 \<Longrightarrow> checked_i32 k = Inr k"
  by (simp add: checked_i32_def)

lemma table_lengths [simp]: "length A_BASE = 27" "length A_SCALE = 26" "length A_SCALE_LO = 26"
  by (simp_all add: A_BASE_def A_SCALE_def A_SCALE_LO_def)

definition good_power :: "nat \<Rightarrow> bool" where
  "good_power h \<longleftrightarrow> 2 ^ 63 \<le> h \<and> h < 2 ^ 64 - 1"

lemma tables_normalized:
  "list_all (\<lambda>b. good_power (unat b)) A_BASE" "list_all (\<lambda>s. good_power (unat s)) A_SCALE"
  by (simp_all add: A_BASE_def A_SCALE_def good_power_def)

text \<open>
  A product of a scale and a base is either well below \<open>2 ^ 127\<close> or above it, as its top bits show; the
  scale of \<open>10 ^ 0\<close> is left out, it is never multiplied.
\<close>

definition scales :: "u64 list" where
  "scales = take 13 A_SCALE @ drop 14 A_SCALE"

definition top12 :: "u64 \<Rightarrow> nat" where
  "top12 w = unat w div 2 ^ 52"

lemma tops:
  "map top12 A_BASE = [2048, 2560, 3200, 4000, 2500, 3125, 3906, 2441, 3051, 3814, 2384, 2980, 3725, 2328, 2910, 3637, 2273, 2842, 3552, 2220, 2775, 3469, 2168, 2710, 3388, 2117, 2646]"
  "map top12 scales = [2052, 3316, 2678, 2163, 3495, 2824, 2281, 3685, 2977, 2404, 3885, 3138, 2535, 3308, 2672, 2159, 3488, 2817, 2276, 3677, 2970, 2399, 3876, 3131, 2529]"
  by (simp_all add: A_BASE_def A_SCALE_def scales_def top12_def)

lemma tops_apart:
  "list_all (\<lambda>s. list_all (\<lambda>b. (s + 1) * (b + 1) < 2 ^ 23 \<or> 2 ^ 23 \<le> s * b) (map top12 A_BASE)) (map top12 scales)"
  unfolding tops by simp

lemma product_apart:
  assumes "s \<in> set scales" and "b \<in> set A_BASE"
  shows "unat s * unat b < 2 ^ 127 - 2 ^ 104 \<or> 2 ^ 127 \<le> unat s * unat b"
proof -
  let ?s = "top12 s" and ?b = "top12 b"
  have split: "?s * 2 ^ 52 \<le> unat s" "unat s < (?s + 1) * 2 ^ 52" "?b * 2 ^ 52 \<le> unat b" "unat b < (?b + 1) * 2 ^ 52"
    unfolding top12_def by (simp_all add: div_times_less_eq_dividend dividend_less_div_times)
  consider "(?s + 1) * (?b + 1) < 2 ^ 23" | "2 ^ 23 \<le> ?s * ?b"
    using tops_apart assms by (auto simp: list_all_iff)
  then show ?thesis
  proof cases
    case 1
    have "unat s * unat b < ((?s + 1) * 2 ^ 52) * ((?b + 1) * 2 ^ 52)"
      using split by (intro mult_strict_mono) simp_all
    also have "\<dots> = ((?s + 1) * (?b + 1)) * 2 ^ 104" by (simp add: algebra_simps)
    also have "\<dots> \<le> (2 ^ 23 - 1) * 2 ^ 104" using 1 by (intro mult_le_mono1) simp
    also have "\<dots> = 2 ^ 127 - 2 ^ 104" by simp
    finally show ?thesis by simp
  next
    case 2
    have "2 ^ 23 * 2 ^ 104 \<le> (?s * ?b) * 2 ^ 104" using 2 by (intro mult_le_mono1) simp
    also have "\<dots> = (?s * 2 ^ 52) * (?b * 2 ^ 52)" by simp
    also have "\<dots> \<le> unat s * unat b" using split by (intro mult_le_mono) simp_all
    finally show ?thesis by simp
  qed
qed

lemma top_bit_clear: "(x :: u64) AND push_bit 63 1 = 0 \<longleftrightarrow> unat x < 2 ^ 63"
proof -
  have "unat x < 2 * 2 ^ 63" using unsigned_less [of x] by simp
  then have "unat x div 2 ^ 63 < 2" by (simp add: less_mult_imp_div_less)
  then have "odd (unat x div 2 ^ 63) \<longleftrightarrow> 2 ^ 63 \<le> unat x" by (auto simp: less_2_cases_iff div_eq_0_iff)
  moreover have "bit x 63 \<longleftrightarrow> odd (unat x div 2 ^ 63)"
    using bit_unsigned_iff [of x 63, where 'a = nat] by (simp add: bit_iff_odd)
  ultimately show ?thesis using bit_iff_and_push_bit_not_eq_0 [of x 63] by auto
qed

lemma normalize_good:
  assumes "2 ^ 62 \<le> unat x" and "unat x < 2 ^ 64 - 1" and "unat x \<noteq> 2 ^ 63 - 1"
  shows "good_power (unat (fst (normalize160 (x, lo))))"
proof (cases "unat x < 2 ^ 63")
  case True
  let ?b = "ucast (drop_bit 31 lo AND 1) :: u64"
  have b: "?b = of_bool (odd (drop_bit 31 lo))" by (simp add: and_one_eq mod_2_eq_odd)
  have p: "push_bit 1 x = 2 * x" by (simp add: push_bit_eq_mult)
  have d: "unat (2 * x) = 2 * unat x" using True by (subst unat_mult_lem [THEN iffD1]) simp_all
  have "2 * x OR ?b = 2 * x + ?b" unfolding b by (cases "odd (drop_bit 31 lo)") (simp_all add: or_one_eq)
  moreover have "unat (2 * x + ?b) = 2 * unat x + unat ?b"
    using True d unfolding b by (subst unat_add_lem [THEN iffD1]) (auto split: if_splits)
  ultimately have "unat (fst (normalize160 (x, lo))) = 2 * unat x + unat ?b"
    using top_bit_clear [THEN iffD2, OF True] by (simp only: normalize160_def prod.case refl if_True fst_conv p)
  moreover have "unat ?b \<le> 1" unfolding b by simp
  ultimately show ?thesis using True assms by (simp add: good_power_def)
next
  case False
  then have "normalize160 (x, lo) = (x, lo)" unfolding normalize160_def using top_bit_clear [of x] by auto
  then show ?thesis using False assms by (simp add: good_power_def)
qed

lemma multiply160_good:
  assumes "s \<in> set scales" and "b \<in> set A_BASE"
  shows "good_power (unat (fst (normalize160 (multiply160 s lo b))))"
proof -
  have g: "good_power (unat s)" "good_power (unat b)"
    using assms tables_normalized by (auto simp: list_all_iff scales_def dest: in_set_takeD in_set_dropD)
  define t where "t = unat lo * unat b div 2 ^ 32"
  define r where "r = unat s * unat b + t"
  have "unat lo * unat b \<le> 2 ^ 32 * unat b" using unsigned_less [of lo, where 'a = nat] by (intro mult_le_mono1) simp
  then have "t \<le> 2 ^ 32 * unat b div 2 ^ 32" unfolding t_def by (rule div_le_mono)
  then have t: "t \<le> unat b" by simp
  have "2 ^ 63 * 2 ^ 63 \<le> unat s * unat b" using g by (intro mult_le_mono) (simp_all add: good_power_def)
  then have lower: "2 ^ 126 \<le> r" by (simp add: r_def)
  have "r \<le> (unat s + 1) * unat b" using t by (simp add: r_def)
  also have "\<dots> \<le> 2 ^ 64 * unat b" using g by (intro mult_le_mono1) (simp add: good_power_def)
  finally have "r div 2 ^ 64 \<le> 2 ^ 64 * unat b div 2 ^ 64" by (rule div_le_mono)
  then have up: "r div 2 ^ 64 \<le> unat b" by simp
  have x: "unat (of_nat (r div 2 ^ 64) :: u64) = r div 2 ^ 64"
    using up g by (simp add: unsigned_of_nat take_bit_nat_eq_self good_power_def)
  have lo62: "2 ^ 62 \<le> r div 2 ^ 64" using div_le_mono [OF lower, of "2 ^ 64"] by simp
  have ne: "r div 2 ^ 64 \<noteq> 2 ^ 63 - 1"
  proof -
    consider "unat s * unat b < 2 ^ 127 - 2 ^ 104" | "2 ^ 127 \<le> unat s * unat b" using product_apart [OF assms] by blast
    then show ?thesis
    proof cases
      case 1
      have "r < 2 ^ 127 - 2 ^ 104 + 2 ^ 64" using 1 t g by (simp add: r_def good_power_def)
      also have "\<dots> < (2 ^ 63 - 1) * 2 ^ 64" by simp
      finally show ?thesis using less_mult_imp_div_less [of r "2 ^ 63 - 1" "2 ^ 64"] by simp
    next
      case 2
      then have "2 ^ 127 \<le> r" by (simp add: r_def)
      then show ?thesis using div_le_mono [of "2 ^ 127" r "2 ^ 64"] by simp
    qed
  qed
  have "good_power (unat (fst (normalize160 (of_nat (r div 2 ^ 64), of_nat (r div 2 ^ 32)))))"
    using normalize_good [of "of_nat (r div 2 ^ 64)"] x lo62 up g ne by (simp add: good_power_def)
  then show ?thesis by (simp add: multiply160_def Let_def r_def t_def)
qed

lemma scale_at_ok: "- 13 \<le> g \<Longrightarrow> g \<le> 12 \<Longrightarrow> scale_at g = Inr (A_SCALE ! nat (g + 13), A_SCALE_LO ! nat (g + 13))"
  by (simp add: scale_at_def)

lemma power_split_ok:
  assumes "- 348 \<le> p" and "p \<le> 347" and "p < 0 \<or> 27 \<le> p" and "power_split p = (g, n)"
  shows "- 13 \<le> g" "g \<le> 12" "g \<noteq> 0" "0 \<le> n" "n < 27"
  using assms by (auto simp: power_split_def Let_def split: if_splits)

lemma in_scales:
  assumes "- 13 \<le> g" and "g \<le> 12" and "g \<noteq> 0"
  shows "A_SCALE ! nat (g + 13) \<in> set scales"
proof (cases "g < 0")
  case True
  then have "take 13 A_SCALE ! nat (g + 13) \<in> set (take 13 A_SCALE)" using assms by (intro nth_mem) simp
  then show ?thesis using True by (simp add: scales_def)
next
  case False
  then have "drop 14 A_SCALE ! nat (g - 1) \<in> set (drop 14 A_SCALE)" using assms by (intro nth_mem) simp
  moreover have "14 + nat (g - 1) = nat (g + 13)" using False assms by simp
  ultimately show ?thesis using False assms by (simp add: scales_def)
qed

lemma power_of_ten_ok:
  assumes "- 348 \<le> p" and "p \<le> 347"
  obtains h l where "power_of_ten p = Inr (h, l)" and "good_power (unat h)"
proof -
  have S: "good_power (unat (A_SCALE ! k))" if "k < 26" for k using tables_normalized(2) that by (simp add: list_all_length)
  have B: "good_power (unat (A_BASE ! k))" if "k < 27" for k using tables_normalized(1) that by (simp add: list_all_length)
  have rng: "\<not> (p < POWERSOF10_FIRST \<or> POWERSOF10_LAST < p)" using assms by (simp add: POWERSOF10_FIRST_def POWERSOF10_LAST_def)
  consider "p = - 1" | "0 \<le> p" "p < 27" | "p < 0 \<or> 27 \<le> p" "p \<noteq> - 1" by linarith
  then show ?thesis
  proof cases
    case 1
    then show ?thesis using rng S [of 13] by (intro that) (simp_all add: power_of_ten_def scale_at_ok)
  next
    case 2
    then show ?thesis using rng B [of "nat p"] by (intro that) (auto simp: power_of_ten_def nat_less_iff)
  next
    case 3
    obtain g n where gn: "power_split p = (g, n)" by force
    note r = power_split_ok [OF assms 3(1) gn]
    have b: "A_BASE ! nat n \<in> set A_BASE" using r by simp
    show ?thesis
    proof (cases "n = 0")
      case True
      then show ?thesis using rng 3 gn r S [of "nat (g + 13)"] by (intro that) (auto simp: power_of_ten_def scale_at_ok)
    next
      case False
      let ?m = "normalize160 (multiply160 (A_SCALE ! nat (g + 13)) (A_SCALE_LO ! nat (g + 13)) (A_BASE ! nat n))"
      have "power_of_ten p = Inr (fst ?m, snd ?m)" using rng 3 gn r False by (auto simp: power_of_ten_def scale_at_ok)
      then show ?thesis using multiply160_good [OF in_scales [OF r(1-3)] b] by (rule that)
    qed
  qed
qed

section \<open>Shift amounts\<close>

lemma floor_bounds: "0 < (d :: int) \<Longrightarrow> n div d * d \<le> n \<and> n < (n div d + 1) * d"
proof -
  assume d: "0 < d"
  have "n = n div d * d + n mod d" by simp
  then show ?thesis using pos_mod_bound [OF d, of n] pos_mod_sign [OF d, of n] unfolding distrib_right by linarith
qed

lemma convert10_range:
  assumes "- 1137 \<le> e" and "e \<le> 960"
  defines "p \<equiv> 17 - pwr2to10 (e + 63)"
  shows "- 348 \<le> p" "p \<le> 347" "0 \<le> - (e + pwr10to2 p + 2)" "- (e + pwr10to2 p + 2) < 64"
proof -
  define q where "q = (e + 63) * 78913 div 2 ^ 18"
  define t where "t = p * 108853 div 2 ^ 15"
  have q: "262144 * q \<le> 78913 * e + 4971519" "78913 * e + 4971519 < 262144 * q + 262144"
    using floor_bounds [of "2 ^ 18" "(e + 63) * 78913"] unfolding q_def by (simp_all add: algebra_simps)
  have t: "32768 * t \<le> 108853 * p" "108853 * p < 32768 * t + 32768"
    using floor_bounds [of "2 ^ 15" "p * 108853"] unfolding t_def by (simp_all add: algebra_simps)
  have p: "p = 17 - q" by (simp add: p_def pwr2to10_def q_def)
  show "- 348 \<le> p" using q assms(1,2) unfolding p by linarith
  show "p \<le> 347" using q assms(1,2) unfolding p by linarith
  have w: "pwr10to2 p = t" by (simp add: pwr10to2_def t_def)
  show "0 \<le> - (e + pwr10to2 p + 2)" using q t p assms(1,2) unfolding w by linarith
  show "- (e + pwr10to2 p + 2) < 64" using q t p assms(1,2) unfolding w by linarith
qed

lemma mantissa_ok:
  assumes "f_mag r \<noteq> 0" and "f_exp r \<noteq> 2047"
  obtains m e where "mantissa_of r = Inr (m, e)" and "- 1137 \<le> e" and "e \<le> 960"
proof (cases "f_exp r = 0")
  case True
  have "0 < f_man r" using assms(1) True by (simp add: f_mag_def)
  then have l: "2 ^ (bit_length (f_man r) - 1) \<le> f_man r" "0 < bit_length (f_man r)" using bit_length_bounds by auto
  then have "(2 :: nat) ^ (bit_length (f_man r) - 1) < 2 ^ 52" using f_man_bound [of r] by linarith
  then have b: "bit_length (f_man r) \<le> 52" using l(2) by (simp only: power_strict_increasing_iff)
  have u: "unat (of_nat (f_man r) :: u64) = f_man r"
    using f_man_bound [of r] by (simp add: unsigned_of_nat take_bit_nat_eq_self)
  define nn where "nn = int (leading_zeros (of_nat (f_man r)))"
  have nn: "0 \<le> nn" "nn < 64" using l(2) b by (simp_all add: nn_def leading_zeros_def u)
  show ?thesis
    by (rule that [of "push_bit (nat nn) (of_nat (f_man r))" "- 1074 - nn"])
      (use True nn in \<open>simp_all add: mantissa_of_def shl64_def Let_def nn_def [symmetric]\<close>)
next
  case False
  show ?thesis
    by (rule that [of "push_bit 11 (of_nat (f_man r)) OR push_bit 63 1" "int (f_exp r) - 1086"])
      (use False f_exp_bound [of r] assms(2) in \<open>auto simp: mantissa_of_def Let_def\<close>)
qed

lemma fp2convert10_ok:
  assumes "- 1137 \<le> e" and "e \<le> 960"
  obtains v p where "fp2convert10 m e 18 = Inr (v, p)" and "unat v < 2 ^ 63" and "- 347 \<le> p" and "p \<le> 348"
proof -
  note r = convert10_range [OF assms]
  obtain h l where h: "power_of_ten (17 - pwr2to10 (e + 63)) = Inr (h, l)" using power_of_ten_ok [OF r(1,2)] by blast
  define s where "s = - (e + pwr10to2 (17 - pwr2to10 (e + 63)) + 2)"
  define h1 where "h1 = drop_bit (nat s) (fst (multiply128 m h))"
  have "fp2convert10 m e 18 = Inr (drop_bit 1 (h1 + (push_bit 1 h1 AND 2)), - (17 - pwr2to10 (e + 63)))"
    using h r(3,4) unfolding s_def [symmetric] by (simp add: fp2convert10_def Let_def shr64_def h1_def s_def)
  moreover have "unat (drop_bit 1 (h1 + (push_bit 1 h1 AND 2))) < 2 ^ 63"
    using unsigned_less [of "h1 + (push_bit 1 h1 AND 2)", where 'a = nat]
    by (simp add: drop_bit_eq_div unat_div less_mult_imp_div_less)
  ultimately show ?thesis by (rule that) (use r(1,2) in simp_all)
qed

lemma convert2_scaled_ok:
  assumes "0 \<le> s" and "s < 64" and "fst (multiply128 x h) \<noteq> 0"
  shows "\<exists>r. convert2_scaled x h l s e = Inr r"
  using assms by (auto simp: convert2_scaled_def shl64_def shr64_def Let_def split: prod.split)

lemma fp10convert2_ok:
  assumes "d \<noteq> 0"
  shows "\<exists>r. fp10convert2 d p = Inr r"
proof (cases "- 348 \<le> p \<and> p \<le> 347 \<and> 53 - int (bit_length (unat d)) - pwr10to2 p < 1130")
  case True
  define b where "b = int (bit_length (unat d))"
  define e0 where "e0 = 53 - b - pwr10to2 p"
  define e where "e = (if 1074 < e0 then 1074 else e0)"
  define s where "s = - (e - (64 - b) + pwr10to2 p + 3)"
  have s: "0 \<le> s" "s < 64" using True by (auto simp: s_def e_def e0_def b_def)
  have "0 < unat d" using assms by (simp add: unat_gt_0)
  then have bl: "2 ^ (bit_length (unat d) - 1) \<le> unat d" "unat d < 2 ^ bit_length (unat d)" "0 < bit_length (unat d)"
    using bit_length_bounds by auto
  have "(2 :: nat) ^ (bit_length (unat d) - 1) < 2 ^ 64" using bl(1) unsigned_less [of d, where 'a = nat] by simp
  then have "bit_length (unat d) - 1 < 64" by (simp only: power_strict_increasing_iff)
  then have b: "1 \<le> b" "b \<le> 64" using bl(3) by (simp_all add: b_def)
  obtain h l where h: "power_of_ten p = Inr (h, l)" "good_power (unat h)" using power_of_ten_ok True by blast
  define h' where "h' = (if l \<noteq> 0 then h + 1 else h)"
  have "unat (h + 1) = unat h + 1" using h(2) by (subst unat_add_lem [THEN iffD1]) (simp_all add: good_power_def)
  then have h': "2 ^ 63 \<le> unat h'" using h(2) by (simp add: h'_def good_power_def)
  define k where "k = 64 - bit_length (unat d)"
  have k: "nat (64 - b) = k" "bit_length (unat d) = 64 - k" "k < 64" using b by (auto simp: k_def b_def)
  define x where "x = push_bit k d"
  have "unat d * 2 ^ k < 2 ^ (64 - k) * 2 ^ k" using bl(2) k(2) by simp
  also have "\<dots> = 2 ^ 64" using k(3) by (simp only: power_add [symmetric]) simp
  finally have lt: "unat d * 2 ^ k < 2 ^ 64" .
  have "unat x = take_bit 64 (unat d * 2 ^ k)" using unsigned_push_bit_eq [of k d, where 'a = nat] by (simp add: x_def push_bit_eq_mult)
  then have ux: "unat x = unat d * 2 ^ k" using lt by (simp only: take_bit_nat_eq_self)
  have "(2 :: nat) ^ 63 = 2 ^ (63 - k) * 2 ^ k" using k(3) by (simp only: power_add [symmetric]) simp
  also have "\<dots> \<le> unat x" unfolding ux using bl(1) k(2,3) by (intro mult_le_mono1) (simp add: diff_right_commute)
  finally have x: "2 ^ 63 \<le> unat x" .
  have "2 ^ 63 * 2 ^ 63 \<le> unat x * unat h'" using x h' by (intro mult_le_mono)
  then have "2 ^ 62 \<le> unat x * unat h' div 2 ^ 64" using div_le_mono [of "2 ^ 126" "unat x * unat h'" "2 ^ 64"] by simp
  moreover have "unat x * unat h' < 2 ^ 64 * 2 ^ 64"
    using unsigned_less [of x, where 'a = nat] unsigned_less [of h', where 'a = nat] by (intro mult_strict_mono) simp_all
  then have "unat x * unat h' div 2 ^ 64 < 2 ^ 64" by (simp only: less_mult_imp_div_less)
  ultimately have "unat (of_nat (unat x * unat h' div 2 ^ 64) :: u64) \<noteq> 0"
    by (simp add: unsigned_of_nat take_bit_nat_eq_self)
  then have hi: "fst (multiply128 x h') \<noteq> 0" unfolding multiply128_def by force
  have "shl64 d (64 - b) = Inr x" using b by (simp add: shl64_def x_def k(1))
  moreover have "\<not> p < POWERSOF10_FIRST" "\<not> POWERSOF10_LAST < p" "\<not> 1130 \<le> e0"
    using True by (simp_all add: POWERSOF10_FIRST_def POWERSOF10_LAST_def e0_def b_def)
  ultimately have "fp10convert2 d p = convert2_scaled x h' (if l \<noteq> 0 then NOT l else l) s e"
    by (simp only: fp10convert2_def Let_def h(1) and_then_Inr prod.case if_False flip: b_def e0_def e_def s_def h'_def)
  then show ?thesis using convert2_scaled_ok [OF s hi] by simp
next
  case False
  then show ?thesis
    by (auto simp: fp10convert2_def POWERSOF10_FIRST_def POWERSOF10_LAST_def Let_def)
qed

section \<open>The digit buffer\<close>

definition digits_in :: "bytes \<Rightarrow> nat \<Rightarrow> nat \<Rightarrow> bool" where
  "digits_in zbuf a b \<longleftrightarrow> (\<forall>j. a \<le> j \<and> j < b \<longrightarrow> is_ascii_digit (zbuf ! j))"

lemma digit_byte_nonzero: "0 < d \<Longrightarrow> d < 10 \<Longrightarrow> 0x30 < digit_byte d"
  by (simp add: digit_byte_def word_less_nat_alt unsigned_of_nat take_bit_nat_eq_self del: of_nat_add)

lemma digit_byte_ascii: "d < 10 \<Longrightarrow> is_ascii_digit (digit_byte d)"
  by (simp add: is_ascii_digit_def digit_byte_def word_le_nat_alt unsigned_of_nat take_bit_nat_eq_self del: of_nat_add)

definition extracted :: "bytes \<Rightarrow> nat \<Rightarrow> nat \<Rightarrow> nat \<Rightarrow> bytes \<Rightarrow> nat \<Rightarrow> bool" where
  "extracted zbuf i m v z k \<longleftrightarrow> length z = 21 \<and> i - m \<le> k \<and> k \<le> i \<and> (0 < v \<longrightarrow> k < i \<and> 0x30 < z ! k)
     \<and> digits_in z k i \<and> (\<forall>j \<ge> i. z ! j = zbuf ! j)"

lemma extract_digits_ok:
  assumes "length zbuf = 21" and "i \<le> 20" and "v < 10 ^ m" and "m \<le> i"
  shows "\<exists>z k. extract_digits v zbuf i = Inr (z, k) \<and> extracted zbuf i m v z k"
  using assms
proof (induction v zbuf i arbitrary: m rule: extract_digits.induct)
  case (1 v zbuf i)
  show ?case
  proof (cases "10 \<le> v")
    case True
    have "10 ^ 1 < (10 :: nat) ^ m" using True "1.prems"(3) by simp
    then have m: "1 < m" by (simp only: power_strict_increasing_iff)
    define m' where "m' = m - 2"
    have m': "m = m' + 2" "m' + 2 \<le> i" using m "1.prems"(4) by (simp_all add: m'_def)
    have v: "v div 100 < 10 ^ m'" using "1.prems"(3) m'(1) by (simp add: less_mult_imp_div_less)
    define z2 where "z2 = zbuf[i - 1 := digit_byte (v mod 100 mod 10), i - 2 := digit_byte (v mod 100 div 10)]"
    have z2: "length z2 = 21" "\<forall>j \<ge> i. z2 ! j = zbuf ! j" using "1.prems"(1) m'(2) by (simp_all add: z2_def)
    have two: "is_ascii_digit (z2 ! (i - 1))" "is_ascii_digit (z2 ! (i - 2))"
      using "1.prems"(1,2) m'(2) digit_byte_ascii [of "v mod 100 mod 10"] digit_byte_ascii [of "v mod 100 div 10"]
      by (simp_all add: z2_def less_mult_imp_div_less)
    have rec: "extract_digits v zbuf i = extract_digits (v div 100) z2 (i - 2)"
      using True m'(2) "1.prems"(1,2) by (subst extract_digits.simps) (simp add: z2_def)
    have "\<exists>z k. extract_digits (v div 100) z2 (i - 2) = Inr (z, k) \<and> extracted z2 (i - 2) m' (v div 100) z k"
      using True m' v z2 "1.prems"(1,2) by (intro "1.IH") (simp_all add: z2_def)
    then obtain z k where zk: "extract_digits (v div 100) z2 (i - 2) = Inr (z, k)" "extracted z2 (i - 2) m' (v div 100) z k" by blast
    note x = zk(2) [unfolded extracted_def]
    have same: "z ! (i - 1) = z2 ! (i - 1)" "z ! (i - 2) = z2 ! (i - 2)" using x by simp_all
    have "is_ascii_digit (z ! j)" if kj: "k \<le> j" "j < i" for j
    proof -
      consider "j < i - 2" | "j = i - 1" | "j = i - 2" using kj(2) by linarith
      then show ?thesis using x kj(1) same two by cases (simp_all add: digits_in_def)
    qed
    then have d: "digits_in z k i" by (simp add: digits_in_def)
    have first: "0x30 < z ! k"
    proof (cases "v div 100 = 0")
      case True
      then have "z = z2" "k = i - 2" using zk(1) by (simp_all add: extract_digits.simps)
      then show ?thesis
        using \<open>10 \<le> v\<close> True m'(2) "1.prems"(1,2) digit_byte_nonzero [of "v div 10"] by (simp add: z2_def)
    qed (use x in simp)
    have "k < i" "i - m \<le> k" using x m' by auto
    moreover have "\<forall>j \<ge> i. z ! j = zbuf ! j" using x z2(2) by simp
    ultimately show ?thesis using rec zk(1) x d first by (intro exI [of _ z] exI [of _ k]) (simp add: extracted_def)
  next
    case False
    then have "0 < v \<Longrightarrow> 0 < m" using "1.prems"(3) by (cases m) simp_all
    then show ?thesis using False "1.prems" digit_byte_nonzero [of v] digit_byte_ascii [of v]
      by (subst extract_digits.simps) (auto simp: extracted_def digits_in_def nth_list_update)
  qed
qed

text \<open>The two loops that look for a shorter decimal stay inside the buffer.\<close>

lemma skip_nines_ok: "z + jj \<le> length zbuf \<Longrightarrow> \<exists>k \<le> jj. skip_nines zbuf z jj = Inr k"
  by (induction jj) (auto simp: le_Suc_eq)

lemma skip_zeros_ok: "z + jj \<le> length zbuf \<Longrightarrow> 0 < jj \<Longrightarrow> 0x30 < zbuf ! z \<Longrightarrow> \<exists>k. 0 < k \<and> k \<le> jj \<and> skip_zeros zbuf z jj = Inr k"
proof (induction jj)
  case (Suc jj)
  then show ?case by (cases "jj = 0") (auto simp: le_Suc_eq)
qed simp

lemma strip_trailing_ok: "z + n \<le> length zbuf \<Longrightarrow> \<exists>k \<le> n. strip_trailing zbuf z n = Inr k"
  by (induction n) (auto simp: le_Suc_eq)

declare carry_up.simps [simp del]

lemma digit_not_max: "is_ascii_digit c \<Longrightarrow> c \<noteq> 0xff"
  by (auto simp: is_ascii_digit_def)

lemma carry_up_ok:
  assumes "z + j < length zbuf" and "0 < z \<or> (\<exists>i \<le> j. zbuf ! (z + i) < 0x39)" and "digits_in zbuf z (z + Suc j)"
  shows "\<exists>z' more. carry_up zbuf z j = Inr (z', more) \<and> length z' = length zbuf \<and> (more \<longrightarrow> 0 < z)"
  using assms
proof (induction j arbitrary: zbuf)
  case 0
  have "zbuf ! z < 0x39 \<Longrightarrow> zbuf ! z + 1 \<le> 0x39" by (rule inc_le)
  moreover have "zbuf ! z \<noteq> 0xff" using 0(3) by (simp add: digits_in_def digit_not_max)
  ultimately show ?case using 0 by (cases "zbuf ! z + 1 \<le> 0x39") (auto simp: Suc_le_eq carry_up.simps [of _ _ 0])
next
  case (Suc j)
  let ?c = "zbuf ! (z + Suc j)"
  have inc: "?c < 0x39 \<Longrightarrow> ?c + 1 \<le> 0x39" by (rule inc_le)
  have ff: "?c \<noteq> 0xff" using Suc.prems(3) by (simp add: digits_in_def digit_not_max)
  show ?case
  proof (cases "?c + 1 \<le> 0x39")
    case True
    then show ?thesis using Suc.prems(1) ff by (auto simp: carry_up.simps [of _ _ "Suc j"])
  next
    case False
    have "0 < z \<or> (\<exists>i \<le> j. zbuf[z + Suc j := 0x30] ! (z + i) < 0x39)"
      using Suc.prems(2) inc False by (auto simp: le_Suc_eq)
    moreover have "digits_in (zbuf[z + Suc j := 0x30]) z (z + Suc j)"
      using Suc.prems(3) by (simp add: digits_in_def)
    ultimately show ?thesis using Suc.IH [of "zbuf[z + Suc j := 0x30]"] Suc.prems(1) False ff
      by (simp add: carry_up.simps [of _ _ "Suc j"])
  qed
qed

lemma digits_val_Cons: "digits_val (d # ds) = (unat d - 0x30) * 10 ^ length ds + digits_val ds"
proof -
  have "foldl (\<lambda>acc d. acc * 10 + (unat d - 0x30)) a ds = a * 10 ^ length ds + digits_val ds" for a and ds :: bytes
  proof (induction ds arbitrary: a)
    case (Cons d ds)
    show ?case unfolding digits_val_def using Cons [of "a * 10 + (unat d - 0x30)"] Cons [of "unat d - 0x30"]
      by (simp add: algebra_simps)
  qed (simp add: digits_val_def)
  from this [of "unat d - 0x30" ds] show ?thesis by (simp add: digits_val_def)
qed

lemma digits_val_bound: "digits_val ds < 23 * 10 ^ length ds"
proof (induction ds)
  case (Cons d ds)
  have "unat d - 0x30 \<le> 207" using unsigned_less [of d, where 'a = nat] by simp
  then have "(unat d - 0x30) * 10 ^ length ds \<le> 207 * 10 ^ length ds" by (rule mult_le_mono1)
  then have "digits_val (d # ds) < 207 * 10 ^ length ds + 23 * 10 ^ length ds" using Cons unfolding digits_val_Cons by linarith
  then show ?case by simp
qed (simp add: digits_val_def)

lemma u64_of_ok: "k < 2 ^ 64 \<Longrightarrow> u64_of k = Inr (of_nat k) \<and> unat (of_nat k :: u64) = k"
  by (simp add: u64_of_def unsigned_of_nat take_bit_nat_eq_self)

lemma acc_digits_ok:
  "list_all is_ascii_digit ds \<Longrightarrow> unat acc * 10 ^ length ds + digits_val ds < 2 ^ 64 \<Longrightarrow>
   acc_digits acc ds = Inr (of_nat (unat acc * 10 ^ length ds + digits_val ds))"
proof (induction ds arbitrary: acc)
  case Nil
  then show ?case by (simp add: digits_val_def)
next
  case (Cons d ds)
  define k where "k = unat acc * 10 + (unat d - 0x30)"
  have d: "digit_value d = Inr (unat d - 0x30)"
    using Cons.prems(1) by (simp add: digit_value_def is_ascii_digit_def word_le_nat_alt)
  have e: "unat acc * 10 ^ length (d # ds) + digits_val (d # ds) = k * 10 ^ length ds + digits_val ds"
    by (simp add: k_def digits_val_Cons algebra_simps)
  have "k \<le> k * 10 ^ length ds" by simp
  then have "k < 2 ^ 64" using Cons.prems(2) e by linarith
  note k = u64_of_ok [OF this]
  have "acc_digits acc (d # ds) = acc_digits (of_nat k) ds" using d k by (simp add: k_def)
  then show ?case using Cons.IH [of "of_nat k"] Cons.prems e k by simp
qed

lemma digits_acc_ok:
  assumes "z + max 1 jj \<le> length zbuf" and "jj \<le> 14" and "0x30 < zbuf ! z" and "digits_in zbuf z (z + max 1 jj)"
  obtains acc where "digits_acc zbuf z jj = Inr acc" and "acc \<noteq> 0" and "u64_of (unat acc + 1) = Inr (acc + 1)" and "acc + 1 \<noteq> 0"
proof -
  define ds where "ds = sub z (z + max 1 jj) zbuf"
  have ds: "length ds = max 1 jj" "ds ! 0 = zbuf ! z" using assms(1) by (auto simp: ds_def sub_def)
  have "list_all is_ascii_digit ds"
    using assms(1,4) by (auto simp: ds_def list_all_length sub_def digits_in_def)
  moreover obtain d rest where c: "ds = d # rest" using ds(1) by (cases ds) auto
  have "0 < unat d - 0x30" using ds(2) c assms(3) by (simp add: word_less_nat_alt)
  then have pos: "0 < digits_val ds" by (simp add: c digits_val_Cons)
  have "(10 :: nat) ^ length ds \<le> 10 ^ 14" using ds(1) assms(2) by (intro power_increasing) simp_all
  then have lt: "digits_val ds < 23 * 10 ^ 14" using digits_val_bound [of ds] by simp
  define acc :: u64 where "acc = of_nat (digits_val ds)"
  have u: "unat acc = digits_val ds" using lt by (simp add: acc_def unsigned_of_nat take_bit_nat_eq_self)
  have "unat (acc + 1) = digits_val ds + 1" using lt u by (subst unat_add_lem [THEN iffD1]) simp_all
  then have "acc + 1 \<noteq> 0" by (metis add_is_0 unsigned_0 zero_neq_one)
  moreover have "acc \<noteq> 0" using u pos by (metis less_numeral_extra(3) unsigned_0)
  moreover have "u64_of (unat acc + 1) = Inr (acc + 1)" using u64_of_ok [of "unat acc + 1"] u lt by (simp add: acc_def)
  moreover have "digits_acc zbuf z jj = Inr acc" if "list_all is_ascii_digit ds"
    using assms(1) acc_digits_ok [OF that, of 0] lt by (simp add: digits_acc_def ds_def acc_def)
  ultimately show ?thesis using that by blast
qed

lemma shorter_trips_ok:
  assumes "d \<noteq> 0" and "jj \<le> 14" and "\<bar>exp\<bar> \<le> 1000" and "0 \<le> n" and "n \<le> 21"
  shows "\<exists>k. shorter_trips r d exp n jj = Inr k \<and> (k = int jj + 1 \<or> k = 17)"
proof -
  obtain x where "fp10convert2 d (exp + n - int jj) = Inr x" using fp10convert2_ok [OF assms(1)] by blast
  then show ?thesis using assms(2-5) by (simp add: shorter_trips_def round_trips_def)
qed

lemma digits_in_mono: "digits_in zbuf a b \<Longrightarrow> b' \<le> b \<Longrightarrow> digits_in zbuf a b'"
  by (simp add: digits_in_def)

lemma reduce17_ok:
  assumes "z \<le> 2" and "length zbuf = 21" and "0x30 < zbuf ! z" and "digits_in zbuf z 20"
    and "\<bar>exp\<bar> \<le> 1000" and "0 \<le> n" and "n \<le> 21"
  shows "\<exists>k. reduce17 r zbuf z n exp i_dp = Inr k \<and> 0 < k \<and> k \<le> 17"
proof -
  obtain jn where jn: "jn \<le> 14" "skip_nines zbuf z 14 = Inr jn" using skip_nines_ok [of z 14 zbuf] assms(1,2) by auto
  obtain jz where jz: "0 < jz" "jz \<le> 13" "skip_zeros zbuf z 13 = Inr jz" using skip_zeros_ok [of z 13 zbuf] assms by auto
  obtain an where an: "digits_acc zbuf z jn = Inr an" "u64_of (unat an + 1) = Inr (an + 1)" "an + 1 \<noteq> 0"
    by (rule digits_acc_ok [of z jn zbuf]) (use assms jn(1) digits_in_mono in auto)
  obtain az where az: "digits_acc zbuf z jz = Inr az" "az \<noteq> 0"
    by (rule digits_acc_ok [of z jz zbuf]) (use assms jz(2) digits_in_mono in auto)
  note s = shorter_trips_ok [OF _ _ assms(5-7), of _ _ r]
  obtain k1 k2 k3 where k: "shorter_trips r 1 exp n jn = Inr k1" "shorter_trips r (an + 1) exp n jn = Inr k2"
      "shorter_trips r az exp n jz = Inr k3" "0 < k1" "k1 \<le> 17" "0 < k2" "k2 \<le> 17" "0 < k3" "k3 \<le> 17"
    using s [of 1 jn] s [of "an + 1" jn] s [of az jz] an(3) az(2) jn(1) jz(2) by fastforce
  show ?thesis
    using assms(1,2) jn jz an az k by (auto simp: reduce17_def)
qed

text \<open>
  The digits end at place 20. There is a place in front for a carry, or the first digit is the 0 put
  there before rounding at the decimal point.
\<close>

definition buffer_ok :: "bytes \<Rightarrow> nat \<Rightarrow> int \<Rightarrow> int \<Rightarrow> bool" where
  "buffer_ok zbuf z n i_round \<longleftrightarrow> length zbuf = 21 \<and> int z + n = 20 \<and> 0 \<le> n \<and> digits_in zbuf z 20
     \<and> (0 < z \<and> (0 < n \<longrightarrow> 0x30 < zbuf ! z) \<or> i_round = 1 \<and> zbuf ! z = 0x30)"

lemma round_digits_ok:
  assumes "buffer_ok zbuf z n i_round" and "0 < mx_round" and "\<bar>exp\<bar> \<le> 1000" and "\<bar>i_dp\<bar> \<le> 1000"
  shows "\<exists>z' k n' i'. round_digits r zbuf z n exp i_dp i_round mx_round = Inr (z', k, n', i')
    \<and> length z' = 21 \<and> int k + n' \<le> 20 \<and> 0 \<le> n' \<and> \<bar>i'\<bar> \<le> 1001"
proof (cases "0 < i_round \<and> (i_round < n \<or> mx_round < n)")
  case True
  note b = assms(1) [unfolded buffer_ok_def]
  define i1 where "i1 = min i_round mx_round"
  have i1: "0 < i1" "i1 < n" using True assms(2) by (auto simp: i1_def)
  have "\<exists>k. (if i1 = 17 then reduce17 r zbuf z n exp i_dp else Inr i1) = Inr k \<and> 0 < k \<and> k < n"
  proof (cases "i1 = 17")
    case True
    then have "z \<le> 2" "0x30 < zbuf ! z" using b i1 by (auto simp: i1_def)
    then show ?thesis using reduce17_ok [of z zbuf exp n r i_dp] b True i1 assms(3) by auto
  qed (use i1 in simp)
  then obtain k where k: "(if i1 = 17 then reduce17 r zbuf z n exp i_dp else Inr i1) = Inr k" "0 < k" "k < n" by blast
  have idx: "z + nat k < 20" using b k by linarith
  show ?thesis
  proof (cases "0x35 \<le> zbuf ! (z + nat k)")
    case True
    have "0 < z \<or> (\<exists>i \<le> nat (k - 1). zbuf ! (z + i) < 0x39)" using b by (auto intro!: exI [of _ 0])
    moreover have "z + nat (k - 1) < length zbuf" using idx b by simp
    moreover have "digits_in zbuf z (z + Suc (nat (k - 1)))" using b idx k(2) by (auto intro: digits_in_mono)
    ultimately obtain z' more where c: "carry_up zbuf z (nat (k - 1)) = Inr (z', more)" "length z' = length zbuf" "more \<longrightarrow> 0 < z"
      using carry_up_ok [of z "nat (k - 1)" zbuf] by blast
    have run: "round_digits r zbuf z n exp i_dp i_round mx_round =
        (if more then Inr (z', z - 1, k + 1, i_dp + 1) else Inr (z', z, k, i_dp))"
      using \<open>0 < i_round \<and> _\<close> True k b idx c(1) assms(4) by (simp add: round_digits_def i1_def [symmetric] Let_def)
    show ?thesis using run c k b idx assms(4) by (cases more) auto
  next
    case False
    then show ?thesis using \<open>0 < i_round \<and> _\<close> k b idx assms(4) by (auto simp: round_digits_def i1_def [symmetric] Let_def)
  qed
next
  case False
  then show ?thesis using assms(1,4) by (auto simp: round_digits_def buffer_ok_def)
qed

lemma round_position_ok:
  assumes "length zbuf = 21" and "1 \<le> i" and "i \<le> 20" and "i < 20 \<Longrightarrow> 0x30 < zbuf ! i" and "digits_in zbuf i 20"
    and "\<bar>i_dp\<bar> \<le> 400" and "i_round_in \<le> 0 \<Longrightarrow> - (2 ^ 31) + 500 < i_round_in"
  shows "\<exists>z k n' i_dp' i_round. round_position zbuf i (20 - int i) i_dp i_round_in = Inr (z, k, n', i_dp', i_round)
    \<and> buffer_ok z k n' i_round \<and> \<bar>i_dp'\<bar> \<le> 1000"
proof (cases "i_round_in \<le> 0 \<and> i_dp - i_round_in = 0 \<and> 0x35 \<le> zbuf ! i")
  case True
  have "digits_in (zbuf[i - 1 := 0x30]) (i - 1) 20"
    using assms(1,2,5) by (auto simp: digits_in_def nth_list_update is_ascii_digit_def)
  then show ?thesis using True assms(1-3,6) by (auto simp: round_position_def buffer_ok_def)
next
  case False
  then show ?thesis using assms by (auto simp: round_position_def buffer_ok_def)
qed

lemma decode_digits_ok:
  assumes "f_mag r \<noteq> 0" and "f_exp r \<noteq> 2047" and "0 < mx_round"
    and "i_round \<le> 0 \<and> - (2 ^ 31) + 500 < i_round \<or> 17 \<le> i_round"
  shows "\<exists>s. decode_digits r sign i_round mx_round = Inr s \<and> length (fd_digits s) = fd_n s \<and> fd_is_special s = 0
    \<and> \<bar>fd_i_dp s\<bar> \<le> 1001"
proof -
  obtain m e where me: "mantissa_of r = Inr (m, e)" and e: "- 1137 \<le> e" "e \<le> 960" by (rule mantissa_ok [OF assms(1,2)])
  obtain v p where v: "fp2convert10 m e 18 = Inr (v, p)" "unat v < 2 ^ 63" "- 347 \<le> p" "p \<le> 348" using fp2convert10_ok [OF e] by blast
  have conv: "(if i_round \<le> 0 \<or> 18 \<le> i_round then 18 else i_round + 1) = 18" using assms(4) by auto
  have "unat v < 10 ^ 19" using v(2) by simp
  then obtain zbuf i where x: "extract_digits (unat v) (replicate 21 0) 20 = Inr (zbuf, i)" "extracted (replicate 21 0) 20 19 (unat v) zbuf i"
    using extract_digits_ok [of "replicate 21 0" 20 "unat v" 19] by auto
  note xs = x(2) [unfolded extracted_def]
  have first: "0x30 < zbuf ! i" if "i < 20"
    using x(1) xs that by (cases "unat v = 0") (simp_all add: extract_digits.simps)
  have dp: "\<bar>20 - int i + p\<bar> \<le> 400" "checked_i32 (20 - int i + p) = Inr (20 - int i + p)" using v(3,4) xs by auto
  obtain z k n1 i_dp i_rnd where rp: "round_position zbuf i (20 - int i) (20 - int i + p) i_round = Inr (z, k, n1, i_dp, i_rnd)"
      "buffer_ok z k n1 i_rnd" "\<bar>i_dp\<bar> \<le> 1000"
    using round_position_ok [of zbuf i "20 - int i + p" i_round] xs first dp(1) assms(4) by auto
  have "\<bar>p\<bar> \<le> 1000" using v(3,4) by simp
  then obtain z2 k2 n2 i_dp2 where rd: "round_digits r z k n1 p i_dp i_rnd mx_round = Inr (z2, k2, n2, i_dp2)"
      "length z2 = 21" "int k2 + n2 \<le> 20" "0 \<le> n2" "\<bar>i_dp2\<bar> \<le> 1001"
    using round_digits_ok [OF rp(2) assms(3) _ rp(3)] by blast
  have "k2 + nat n2 \<le> length z2" using rd by linarith
  then obtain n3 where n3: "strip_trailing z2 k2 (nat n2) = Inr n3" "n3 \<le> nat n2"
    using strip_trailing_ok [of k2 "nat n2" z2] by blast
  then have "k2 + n3 \<le> length z2" using rd by linarith
  then show ?thesis using me conv v(1) x(1) dp(2) rp(1) rd(1,5) n3(1) by (simp add: decode_digits_def Let_def)
qed

section \<open>Layout\<close>

lemma f64_neg_parts: "f_exp (f64_neg r) = f_exp r" "f_man (f64_neg r) = f_man r"
proof -
  have u: "unat (f64_neg r) = unat r XOR 2 ^ 63" by (simp add: f64_neg_def unsigned_xor_eq)
  have e: "f_exp x = take_bit 11 (drop_bit 52 (unat x))" "f_man x = take_bit 52 (unat x)" for x
    by (simp_all add: f_exp_def f_man_def take_bit_eq_mod drop_bit_eq_div)
  show "f_exp (f64_neg r) = f_exp r" unfolding e u
    using drop_bit_xor [of 52 "unat r" "2 ^ 63"] by (simp add: take_bit_xor drop_bit_eq_div [of 52 "2 ^ 63"])
  show "f_man (f64_neg r) = f_man r" unfolding e u
    by (simp add: take_bit_xor)
qed

lemma fp_decode_ok:
  assumes "i_round \<le> 0 \<and> - (2 ^ 31) + 500 < i_round \<or> 17 \<le> i_round" and "0 < mx_round"
  shows "\<exists>s. fp_decode r i_round mx_round = Inr s
    \<and> (fd_is_special s = 0 \<longrightarrow> length (fd_digits s) = fd_n s \<and> \<bar>fd_i_dp s\<bar> \<le> 1001)"
proof (cases "f64_partial_cmp r 0 = Some Equal")
  case True
  then show ?thesis using assms(2) by (simp add: fp_decode_def)
next
  case False
  define r' where "r' = (if f64_partial_cmp r 0 = Some Less then f64_neg r else r)"
  have parts: "f_exp r' = f_exp r" "f_man r' = f_man r" by (simp_all add: r'_def f64_neg_parts)
  have zero: "f_scaled 0 = 0" "\<not> f_is_nan 0" by (simp_all add: f_scaled_def f_mag_def f_is_nan_def f_exp_def f_man_def)
  have "f_mag r' \<noteq> 0" if "f_exp r' \<noteq> 2047"
  proof
    assume "f_mag r' = 0"
    then have "f_mag r = 0" unfolding f_mag_def parts .
    then have "f_scaled r = 0" by (simp add: f_scaled_def)
    moreover have "\<not> f_is_nan r" using that parts by (simp add: f_is_nan_def)
    ultimately show False using False zero by (simp add: f64_partial_cmp_def cmp_def)
  qed
  then show ?thesis
    using False assms decode_digits_ok [of r' mx_round i_round]
    by (auto simp: fp_decode_def Let_def r'_def [symmetric])
qed

lemma push_digit_ok: "0 \<le> k \<Longrightarrow> k \<le> 100 \<Longrightarrow> \<exists>c. push_digit k = Inr c"
  by (simp add: push_digit_def)

lemma exponent_suffix_ok:
  assumes "\<bar>exp\<bar> \<le> 1002"
  shows "\<exists>t. exponent_suffix exp = Inr t"
proof -
  define a where "a = \<bar>exp\<bar>"
  define rest where "rest = (if 100 \<le> a then a mod 100 else a)"
  have a: "(if exp < 0 then checked_i32 (- exp) else Inr exp) = Inr a" "0 \<le> a" "a \<le> 1002" using assms by (auto simp: a_def)
  have r: "0 \<le> rest" "rest < 100" using a(2) by (auto simp: rest_def)
  have "0 \<le> a div 100" "a div 100 \<le> 100" "0 \<le> rest div 10" "rest div 10 \<le> 100" "0 \<le> rest mod 10" "rest mod 10 \<le> 100"
    using a(2,3) r by linarith+
  then obtain h t u where p: "push_digit (a div 100) = Inr h" "push_digit (rest div 10) = Inr t" "push_digit (rest mod 10) = Inr u"
    using push_digit_ok by metis
  show ?thesis unfolding exponent_suffix_def a(1) and_then_Inr Let_def rest_def [symmetric] p by simp
qed

lemma render_form_ok:
  assumes "\<bar>exp\<bar> \<le> 1002" and "0 \<le> precision" and "precision < 2 ^ 31 - 500"
  shows "\<exists>x p. render_form gtype precision exp = Inr (x, p)"
  using assms by (cases gtype) (auto simp: render_form_def)

lemma integer_part_ok:
  assumes "\<bar>e2\<bar> \<le> 1002"
  shows "\<exists>ip j e. integer_part digits (int (length digits)) e2 = Inr (ip, j, e) \<and> 0 \<le> j \<and> j \<le> int (length digits)"
proof (cases "e2 < 0")
  case False
  have "checked_i32 (e2 + 1) = Inr (e2 + 1)" using assms by simp
  then show ?thesis using False by (auto simp: integer_part_def Let_def)
qed (simp add: integer_part_def)

lemma fraction_part_ok:
  assumes "0 \<le> j" and "j \<le> int (length digits)"
  shows "\<exists>x. fraction_part digits (int (length digits)) j p b e = Inr x"
  using assms by (auto simp: fraction_part_def Let_def)

lemma render_digits_ok:
  assumes "length (fd_digits s) = fd_n s" and "\<bar>fd_i_dp s\<bar> \<le> 1001" and "0 \<le> precision" and "precision < 2 ^ 31 - 500"
  shows "\<exists>t. render_digits s precision gtype altform2 = Inr t"
proof -
  define exp where "exp = fd_i_dp s - 1"
  have e: "\<bar>exp\<bar> \<le> 1002" "checked_i32 (fd_i_dp s - 1) = Inr exp" using assms(2) by (auto simp: exp_def)
  obtain x p where f: "render_form gtype precision exp = Inr (x, p)" using render_form_ok [OF e(1) assms(3,4)] by blast
  obtain suffix where sx: "(if x then exponent_suffix exp else Inr []) = Inr suffix" using exponent_suffix_ok [OF e(1)] by (cases x) auto
  have "\<bar>if x then 0 else exp\<bar> \<le> 1002" using e(1) by simp
  then obtain ip j e2 where ij: "integer_part (fd_digits s) (int (fd_n s)) (if x then 0 else exp) = Inr (ip, j, e2)" "0 \<le> j" "j \<le> int (fd_n s)"
    using integer_part_ok [of "if x then 0 else exp" "fd_digits s"] assms(1) by fastforce
  obtain frac where "fraction_part (fd_digits s) (int (fd_n s)) j p (gtype = Generic \<or> altform2) e2 = Inr frac"
    using fraction_part_ok [OF ij(2), of "fd_digits s"] ij(3) assms(1) by metis
  then show ?thesis using e(2) f ij(1) sx by (simp add: render_digits_def Let_def)
qed

lemma render_ok:
  assumes "gtype = Fixed \<or> 17 \<le> precision" and "precision < 2 ^ 31 - 500"
  shows "\<exists>t. render r precision gtype altform2 = Inr t"
proof -
  define p1 where "p1 = (if precision < 0 then 6 else precision)"
  define p2 where "p2 = (if gtype = Generic \<and> p1 = 0 then 1 else p1)"
  define mx where "mx = (if altform2 then 20 else 16 :: int)"
  define i_round where "i_round = (if gtype = Fixed then - p2 else p2)"
  have p2: "0 \<le> p2" "p2 < 2 ^ 31 - 500" using assms(2) by (auto simp: p2_def p1_def)
  have i: "i_round \<le> 0 \<and> - (2 ^ 31) + 500 < i_round \<or> 17 \<le> i_round"
    using assms p2 by (cases gtype) (auto simp: i_round_def p2_def p1_def)
  have m: "0 < mx" by (simp add: mx_def)
  from fp_decode_ok [OF i m, of r] obtain s where
    s: "fp_decode r i_round mx = Inr s" "fd_is_special s = 0 \<longrightarrow> length (fd_digits s) = fd_n s \<and> \<bar>fd_i_dp s\<bar> \<le> 1001"
    by (elim exE conjE)
  have n: "(if gtype = Fixed then checked_i32 (- p2) else Inr p2) = Inr i_round" using p2 by (simp add: i_round_def)
  have "render r precision gtype altform2 =
      (if fd_is_special s = 2 then Inr (ascii_bytes ''NaN'')
       else if fd_is_special s \<noteq> 0 then Inr (if fd_sign s = 0x2d then ascii_bytes ''-Inf'' else ascii_bytes ''Inf'')
       else render_digits s p2 gtype altform2)"
    by (simp only: render_def Let_def p1_def [symmetric] p2_def [symmetric] mx_def [symmetric] n s(1) and_then_Inr)
  moreover have "\<exists>t. render_digits s p2 gtype altform2 = Inr t" if "fd_is_special s = 0"
    using that s(2) render_digits_ok p2 by blast
  ultimately show ?thesis by metis
qed

text \<open>
  C21. Rendering a number never panics: for every bit pattern, NaN, infinities and subnormal numbers
  included, the text of a REAL is computed without an out-of-range index, shift or sum, and so is its
  fixed-point form as long as the number of places is not within 500 of the largest \<open>i32\<close>; the text
  of a value and text affinity are therefore defined for every value.
\<close>

theorem fp_to_text_total:
  assumes "precision < 2 ^ 31 - 500"
  shows "(\<exists>s. fp_to_text r = Inr s) \<and> (\<exists>s. fp_to_fixed r precision = Inr s) \<and> (\<exists>t. to_text v = Inr t)
    \<and> (\<exists>w. apply_affinity v a = Inr w)"
proof -
  have t: "\<exists>s. fp_to_text r = Inr s" for r unfolding fp_to_text_def by (rule render_ok) simp_all
  have x: "\<exists>w. to_text_affinity v = Inr w" using t by (cases v) (auto simp: result_simps)
  have "\<exists>s. fp_to_fixed r precision = Inr s" unfolding fp_to_fixed_def using assms by (intro render_ok) simp_all
  moreover have "\<exists>t. to_text v = Inr t" using t by (cases v) (auto simp: result_simps)
  moreover have "\<exists>w. apply_affinity v a = Inr w" using x by (cases a) simp_all
  ultimately show ?thesis using t by blast
qed

theorem fp_to_text_total_witness:
  "(\<exists>s. fp_to_text 0x3fb999999999999a = Inr s) \<and> (\<exists>s. fp_to_fixed 1 30 = Inr s) \<and> (\<exists>t. to_text (VReal 1) = Inr t)"
  using fp_to_text_total [of 30 "0x3fb999999999999a"] fp_to_text_total [of 30 1 "VReal 1"] by simp

end
