(* ===== verification/Like.thy ===== *)
theory Like
  imports Fp_Text
begin

text \<open>
  \<open>LIKE\<close> and \<open>GLOB\<close> (\<open>func/like.rs\<close>). A position in the pattern or in the text is the list of
  characters from there on; \<open>read\<close> at the end gives character 0 and stays. \<open>compare\<close> is the
  backtracking matcher with its three outcomes, \<open>like\<close> and \<open>glob\<close> the SQL functions.
\<close>

section \<open>The matcher\<close>

record compare_info =
  match_all :: nat
  match_one :: nat
  no_case :: bool
  match_set_ok :: bool

definition LIKE_INFO :: compare_info where
  "LIKE_INFO = \<lparr>match_all = 0x25, match_one = 0x5f, no_case = True, match_set_ok = False\<rparr>"

definition GLOB_INFO :: compare_info where
  "GLOB_INFO = \<lparr>match_all = 0x2a, match_one = 0x3f, no_case = False, match_set_ok = True\<rparr>"

definition to_lower :: "nat \<Rightarrow> nat" where
  "to_lower c = (if 0x41 \<le> c \<and> c \<le> 0x5a then c + 0x20 else c)"

definition is_ascii :: "nat \<Rightarrow> bool" where
  "is_ascii c \<longleftrightarrow> c < 0x80"

datatype outcome = Match | NoMatch | NoWildcardMatch

fun read :: "nat list \<Rightarrow> nat \<times> nat list" where
  "read [] = (0, [])"
| "read (c # cs) = (c, cs)"

lemma read_length [simp]: "length (snd (read xs)) = length xs - 1"
  by (cases xs) simp_all

lemma read_nonzero: "0 < fst (read xs) \<Longrightarrow> 0 < length xs"
  by (cases xs) simp_all

lemma read_smaller: "length xs - Suc 0 < length xs \<longleftrightarrow> xs \<noteq> []" "length xs - Suc (Suc 0) < length xs \<longleftrightarrow> xs \<noteq> []"
  by (cases xs; simp)+

text \<open>
  The characters of a \<open>[...]\<close> set from \<open>c2\<close> on: the character that ended the set, whether \<open>c\<close> was
  seen, and the position after the set.
\<close>

function set_loop :: "nat \<Rightarrow> nat \<Rightarrow> nat \<Rightarrow> bool \<Rightarrow> nat list \<Rightarrow> nat \<times> bool \<times> nat list" where
  "set_loop c c2 prior_c seen pat =
     (if c2 = 0 \<or> c2 = 0x5d then (c2, seen, pat)
      else if c2 = 0x2d \<and> fst (read pat) \<noteq> 0x5d \<and> fst (read pat) \<noteq> 0 \<and> prior_c \<noteq> 0
      then (let c3 = fst (read pat); pat1 = snd (read pat) in
            set_loop c (fst (read pat1)) 0 (seen \<or> prior_c \<le> c \<and> c \<le> c3) (snd (read pat1)))
      else set_loop c (fst (read pat)) c2 (seen \<or> c = c2) (snd (read pat)))"
  by pat_completeness auto
termination
  by (relation "measure (\<lambda>(c, c2, prior_c, seen, pat). length pat + (if c2 = 0 then 0 else 1))")
     (auto simp: read_smaller)

declare set_loop.simps [simp del]

definition match_set :: "nat list \<Rightarrow> nat list \<Rightarrow> (nat list \<times> nat list) option" where
  "match_set pat str =
     (let c = fst (read str); str1 = snd (read str) in
      if c = 0 then None
      else (let invert = (fst (read pat) = 0x5e);
                pat1 = (if invert then snd (read pat) else pat);
                literal = (fst (read pat1) = 0x5d);
                pat2 = (if literal then snd (read pat1) else pat1);
                (c3, seen, pat3) = set_loop c (fst (read pat2)) 0 (literal \<and> c = 0x5d) (snd (read pat2)) in
            if c3 = 0 \<or> seen = invert then None else Some (pat3, str1)))"

text \<open>
  The run of wildcards after a \<open>matchAll\<close>: the position of the first other character, or \<open>None\<close> when
  the text is too short for the \<open>matchOne\<close>s in the run.
\<close>

fun skip_wild :: "compare_info \<Rightarrow> nat list \<Rightarrow> nat list \<Rightarrow> (nat list \<times> nat list) option" where
  "skip_wild info [] str = Some ([], str)"
| "skip_wild info (p # ps) str =
     (if p = match_all info \<or> p = match_one info \<and> match_one info \<noteq> 0
      then (if p = match_one info
            then (case read str of (c, str1) \<Rightarrow> if c = 0 then None else skip_wild info ps str1)
            else skip_wild info ps str)
      else Some (p # ps, str))"

definition same_char :: "compare_info \<Rightarrow> nat \<Rightarrow> nat \<Rightarrow> bool" where
  "same_char info a b \<longleftrightarrow> a = b \<or> no_case info \<and> to_lower a = to_lower b \<and> is_ascii a \<and> is_ascii b"

definition at_end :: "nat list \<Rightarrow> outcome" where
  "at_end str = (if str = [] then Match else NoMatch)"

lemma set_loop_length: "set_loop c c2 pc seen pat = (c3, seen', pat2) \<Longrightarrow> length pat2 \<le> length pat"
proof (induction c c2 pc seen pat rule: set_loop.induct)
  case (1 c c2 pc seen pat)
  show ?case
    using "1.prems" "1.IH"(1) [OF _ _ refl refl] "1.IH"(2) unfolding set_loop.simps [of c c2 pc seen pat]
    by (fastforce simp: Let_def split: if_splits)
qed

lemma skip_wild_length: "skip_wild info ps str = Some (q, str1) \<Longrightarrow> length q \<le> length ps"
  by (induction info ps str rule: skip_wild.induct) (fastforce split: if_splits prod.splits)+

lemma match_set_length:
  assumes "match_set pat str = Some (pat2, str1)"
  shows "length pat2 \<le> length pat"
  using assms set_loop_length
  by (fastforce simp: match_set_def Let_def split: if_splits prod.splits)

text \<open>
  The loop over the pattern. After a \<open>matchAll\<close> the rest of the pattern is tried at every position of
  the text; behind an escape, the rest starts at the escaped character.
\<close>

function (sequential) compare :: "compare_info \<Rightarrow> nat \<Rightarrow> nat list \<Rightarrow> nat list \<Rightarrow> outcome"
  and retry :: "compare_info \<Rightarrow> nat \<Rightarrow> nat list \<Rightarrow> nat list \<Rightarrow> outcome" where
  "compare info match_other [] str = at_end str"
| "compare info match_other (c # ps) str =
     (if c = 0 then at_end str
      else if c = match_all info
      then (case skip_wild info ps str of
              None \<Rightarrow> NoWildcardMatch
            | Some (q, str1) \<Rightarrow>
                if fst (read q) = 0 then Match
                else if fst (read q) = match_other \<and> \<not> match_set_ok info
                then (if fst (read (snd (read q))) = 0 then NoWildcardMatch
                      else retry info match_other (snd (read q)) str1)
                else retry info match_other q str1)
      else if c = match_other
      then (if \<not> match_set_ok info
            then (if fst (read ps) = 0 then NoMatch
                  else if same_char info (fst (read ps)) (fst (read str))
                  then compare info match_other (snd (read ps)) (snd (read str))
                  else NoMatch)
            else (case match_set ps str of
                    Some (ps1, str1) \<Rightarrow> compare info match_other ps1 str1
                  | None \<Rightarrow> NoMatch))
      else if same_char info c (fst (read str)) \<or> c = match_one info \<and> fst (read str) \<noteq> 0
      then compare info match_other ps (snd (read str))
      else NoMatch)"
| "retry info match_other q str =
     (case compare info match_other q str of
        NoMatch \<Rightarrow> if fst (read str) = 0 then NoWildcardMatch else retry info match_other q (snd (read str))
      | m \<Rightarrow> m)"
  by pat_completeness auto
termination
proof (relation "measures [\<lambda>x. case x of Inl (_, _, p, _) \<Rightarrow> length p | Inr (_, _, p, _) \<Rightarrow> length p,
       \<lambda>x. case x of Inl (_, _, _, s) \<Rightarrow> length s | Inr (_, _, _, s) \<Rightarrow> length s,
       \<lambda>x. case x of Inl _ \<Rightarrow> 0 | Inr _ \<Rightarrow> 1]", goal_cases)
  case (2 info mo c ps str x q str1)
  then show ?case using skip_wild_length [of info ps str q str1] by (auto dest!: read_nonzero)
qed (auto dest!: skip_wild_length match_set_length simp: less_Suc_eq_le read_smaller)

declare retry.simps [simp del] compare.simps [simp del]

definition pattern_compare :: "nat list \<Rightarrow> nat list \<Rightarrow> compare_info \<Rightarrow> nat \<Rightarrow> bool" where
  "pattern_compare pat str info match_other \<longleftrightarrow> compare info match_other pat str = Match"

section \<open>The SQL functions\<close>

definition bool_val :: "bool \<Rightarrow> sql_value" where
  "bool_val b = VInt (if b then 1 else 0)"

definition escape_error :: failure where
  "escape_error = error_msg ''ESCAPE expression must be a single character''"

definition text_or_default :: "sql_value \<Rightarrow> bytes result" where
  "text_or_default v = and_then (to_text v) (\<lambda>t. Inr (case t of None \<Rightarrow> [] | Some s \<Rightarrow> s))"

definition parse_escape :: "sql_value option \<Rightarrow> nat option result" where
  "parse_escape escape =
     (case escape of
        None \<Rightarrow> Inr None
      | Some ev \<Rightarrow>
          and_then (to_text ev) (\<lambda>t. and_then (ok_or escape_error t) (\<lambda>s.
            case chars s of [c] \<Rightarrow> Inr (Some c) | _ \<Rightarrow> Inl escape_error)))"

definition like :: "sql_value \<Rightarrow> sql_value \<Rightarrow> sql_value option \<Rightarrow> sql_value result" where
  "like pattern text escape =
     (if is_null pattern \<or> is_null text then Inr VNull
      else if escape = Some VNull then Inr VNull
      else and_then (parse_escape escape) (\<lambda>esc.
           and_then (text_or_default pattern) (\<lambda>pat.
           and_then (text_or_default text) (\<lambda>txt.
             Inr (bool_val (pattern_compare (chars pat) (chars txt) LIKE_INFO (case esc of None \<Rightarrow> 0 | Some c \<Rightarrow> c)))))))"

definition glob :: "sql_value \<Rightarrow> sql_value \<Rightarrow> sql_value result" where
  "glob pattern text =
     (if is_null pattern \<or> is_null text then Inr VNull
      else and_then (text_or_default pattern) (\<lambda>pat.
           and_then (text_or_default text) (\<lambda>txt.
             Inr (bool_val (pattern_compare (chars pat) (chars txt) GLOB_INFO 0x5b)))))"

end
