(* ===== verification/Like_Spec.thy ===== *)
theory Like_Spec
  imports Like "HOL-Library.Sublist"
begin

text \<open>
  What a pattern means, and that the backtracking matcher decides it. A pattern is a list of tokens:
  any run of characters, or one character with a property. The outcome \<open>NoWildcardMatch\<close>, on which the
  matcher gives up early, says that no later start in the text matches either.
\<close>

section \<open>The meaning of a pattern\<close>

datatype token = TAny | TOne "nat \<Rightarrow> bool"

fun wild_match :: "token list \<Rightarrow> nat list \<Rightarrow> bool" where
  "wild_match [] s = (s = [])"
| "wild_match (TOne P # ts) s = (case s of [] \<Rightarrow> False | c # cs \<Rightarrow> P c \<and> wild_match ts cs)"
| "wild_match (TAny # ts) [] = wild_match ts []"
| "wild_match (TAny # ts) (c # cs) = (wild_match ts (c # cs) \<or> wild_match (TAny # ts) cs)"

text \<open>The ranges of characters a \<open>[...]\<close> set lists, whether it is closed, and what follows it.\<close>

function set_ranges :: "nat \<Rightarrow> nat \<Rightarrow> nat list \<Rightarrow> (nat \<times> nat) list \<times> nat \<times> nat list" where
  "set_ranges c2 prior_c pat =
     (if c2 = 0 \<or> c2 = 0x5d then ([], c2, pat)
      else if c2 = 0x2d \<and> fst (read pat) \<noteq> 0x5d \<and> fst (read pat) \<noteq> 0 \<and> prior_c \<noteq> 0
      then (let hi = fst (read pat); pat1 = snd (read pat) in
            apfst ((#) (prior_c, hi)) (set_ranges (fst (read pat1)) 0 (snd (read pat1))))
      else apfst ((#) (c2, c2)) (set_ranges (fst (read pat)) c2 (snd (read pat))))"
  by pat_completeness auto
termination
  by (relation "measure (\<lambda>(c2, prior_c, pat). length pat + (if c2 = 0 then 0 else 1))")
     (auto simp: read_smaller)

declare set_ranges.simps [simp del]

definition in_ranges :: "(nat \<times> nat) list \<Rightarrow> nat \<Rightarrow> bool" where
  "in_ranges rs c \<longleftrightarrow> list_ex (\<lambda>(lo, hi). lo \<le> c \<and> c \<le> hi) rs"

text \<open>A leading \<open>^\<close> inverts the set; a \<open>]\<close> in first place is a member.\<close>

definition parse_set :: "nat list \<Rightarrow> bool \<times> (nat \<times> nat) list \<times> bool \<times> nat list" where
  "parse_set pat =
     (let invert = (fst (read pat) = 0x5e);
          pat1 = (if invert then snd (read pat) else pat);
          literal = (fst (read pat1) = 0x5d);
          pat2 = (if literal then snd (read pat1) else pat1);
          (rs, c3, pat3) = set_ranges (fst (read pat2)) 0 (snd (read pat2)) in
      (invert, (if literal then (0x5d, 0x5d) # rs else rs), c3 \<noteq> 0, pat3))"

lemma read_suffix: "suffix xs (snd (read ys)) \<Longrightarrow> suffix xs ys"
  by (cases ys) (auto simp: suffix_ConsI)

lemma set_ranges_suffix: "set_ranges c2 pc pat = (rs, c3, pat2) \<Longrightarrow> suffix pat2 pat"
proof (induction c2 pc pat arbitrary: rs rule: set_ranges.induct)
  case (1 c2 pc pat)
  show ?case
    using "1.prems" "1.IH"(1) [OF _ _ refl refl] "1.IH"(2) unfolding set_ranges.simps [of c2 pc pat]
    by (fastforce simp: Let_def apfst_def map_prod_def split: if_splits prod.splits intro: read_suffix)
qed

lemma parse_set_suffix: "parse_set pat = (iv, rs, closed, pat2) \<Longrightarrow> suffix pat2 pat"
  by (fastforce simp: parse_set_def Let_def split: if_splits prod.splits dest!: set_ranges_suffix intro: read_suffix)

function (sequential) pat_tokens :: "compare_info \<Rightarrow> nat list \<Rightarrow> token list" where
  "pat_tokens info [] = []"
| "pat_tokens info (c # ps) =
     (if c = match_all info then TAny # pat_tokens info ps
      else if match_set_ok info \<and> c = 0x5b
      then (case parse_set ps of
              (invert, rs, closed, rest) \<Rightarrow>
                if closed then TOne (\<lambda>x. in_ranges rs x \<noteq> invert) # pat_tokens info rest else [TOne (\<lambda>_. False)])
      else if c = match_one info then TOne (\<lambda>_. True) # pat_tokens info ps
      else TOne (same_char info c) # pat_tokens info ps)"
  by pat_completeness auto
termination
  by (relation "measure (\<lambda>(_, ps). length ps)") (auto dest!: parse_set_suffix [OF sym] suffix_length_le)

section \<open>Runs of any characters\<close>

lemma wild_any: "wild_match (TAny # ts) s \<longleftrightarrow> (\<exists>s'. suffix s' s \<and> wild_match ts s')"
  by (induction s) (auto simp: suffix_Cons)

lemma wild_any_any: "wild_match (TAny # TAny # ts) s \<longleftrightarrow> wild_match (TAny # ts) s"
  unfolding wild_any [of "TAny # ts"] unfolding wild_any by (meson suffix_order.order_refl suffix_order.trans)

lemma wild_any_one:
  "wild_match (TAny # TOne (\<lambda>_. True) # ts) s \<longleftrightarrow> (case s of [] \<Rightarrow> False | c # cs \<Rightarrow> wild_match (TAny # ts) cs)"
proof (induction s)
  case (Cons c cs)
  then show ?case by (cases cs) (auto simp: wild_any suffix_Cons)
qed simp

lemma wild_any_suffix: "suffix s' s \<Longrightarrow> wild_match (TAny # ts) s' \<Longrightarrow> wild_match (TAny # ts) s"
  unfolding wild_any by (meson suffix_order.trans)

section \<open>Sets\<close>

lemma set_loop_ranges:
  "set_loop c c2 pc seen pat =
     (case set_ranges c2 pc pat of (rs, c3, pat2) \<Rightarrow> (c3, seen \<or> in_ranges rs c, pat2))"
proof (induction c c2 pc seen pat rule: set_loop.induct)
  case (1 c c2 pc seen pat)
  show ?case
    using "1.IH"(1) [OF _ _ refl refl] "1.IH"(2) unfolding set_loop.simps [of c c2 pc seen pat] set_ranges.simps [of c2 pc pat]
    by (auto simp: Let_def in_ranges_def apfst_def map_prod_def split: prod.splits)
qed

lemma in_ranges_member: "in_ranges ((a, a) # rs) c \<longleftrightarrow> c = a \<or> in_ranges rs c"
  by (auto simp: in_ranges_def)

lemma match_set_spec:
  "match_set pat str =
     (case parse_set pat of (iv, rs, closed, rest) \<Rightarrow>
        (case str of [] \<Rightarrow> None
         | c # cs \<Rightarrow> if c \<noteq> 0 \<and> closed \<and> in_ranges rs c \<noteq> iv then Some (rest, cs) else None))"
proof (cases str)
  case (Cons c cs)
  define iv where "iv = (fst (read pat) = 0x5e)"
  define pat1 where "pat1 = (if iv then snd (read pat) else pat)"
  define lit where "lit = (fst (read pat1) = 0x5d)"
  define pat2 where "pat2 = (if lit then snd (read pat1) else pat1)"
  obtain rs c3 pat3 where r: "set_ranges (fst (read pat2)) 0 (snd (read pat2)) = (rs, c3, pat3)" by (rule prod_cases3)
  have p: "parse_set pat = (iv, (if lit then (0x5d, 0x5d) # rs else rs), c3 \<noteq> 0, pat3)"
    unfolding parse_set_def Let_def iv_def [symmetric] pat1_def [symmetric] lit_def [symmetric] pat2_def [symmetric] r by simp
  have m: "match_set pat (c # cs) = (if c = 0 then None
      else if c3 = 0 \<or> ((lit \<and> c = 0x5d) \<or> in_ranges rs c) = iv then None else Some (pat3, cs))"
    unfolding match_set_def Let_def read.simps fst_conv snd_conv iv_def [symmetric] pat1_def [symmetric] lit_def [symmetric]
      pat2_def [symmetric] set_loop_ranges r by simp
  show ?thesis unfolding Cons m p by (cases lit) (simp_all add: in_ranges_member)
qed (simp add: match_set_def split: prod.split)

section \<open>The matcher\<close>

definition std_info :: "compare_info \<Rightarrow> nat \<Rightarrow> bool" where
  "std_info info match_other \<longleftrightarrow> info = LIKE_INFO \<and> match_other = 0 \<or> info = GLOB_INFO \<and> match_other = 0x5b"

lemma std_infoD:
  assumes "std_info info mo"
  shows "match_all info \<noteq> 0" "match_one info \<noteq> 0" "match_one info \<noteq> match_all info" "mo \<noteq> match_all info"
    "mo \<noteq> match_one info" "match_set_ok info \<longleftrightarrow> mo = 0x5b" "\<not> match_set_ok info \<longleftrightarrow> mo = 0"
  using assms by (auto simp: std_info_def LIKE_INFO_def GLOB_INFO_def)

lemma tokens_one: "std_info info mo \<Longrightarrow> pat_tokens info (match_one info # ps) = TOne (\<lambda>_. True) # pat_tokens info ps"
  by (auto simp: std_info_def LIKE_INFO_def GLOB_INFO_def)

lemma skip_wild_spec:
  assumes "std_info info mo" and "0 \<notin> set str"
  shows "case skip_wild info ps str of
      None \<Rightarrow> \<not> wild_match (TAny # pat_tokens info ps) str
    | Some (q, str1) \<Rightarrow> (wild_match (TAny # pat_tokens info ps) str \<longleftrightarrow> wild_match (TAny # pat_tokens info q) str1)
        \<and> suffix q ps \<and> suffix str1 str"
  using assms(2)
proof (induction ps arbitrary: str)
  case (Cons p ps)
  note i = std_infoD [OF assms(1)]
  consider "p = match_one info" | "p = match_all info" | "p \<noteq> match_one info" "p \<noteq> match_all info" by blast
  then show ?case
  proof cases
    case 1
    then show ?thesis
    proof (cases str)
      case Nil
      then show ?thesis using 1 i by (simp add: tokens_one [OF assms(1)] wild_any_one del: pat_tokens.simps wild_match.simps)
    next
      case (Cons c cs)
      have "c \<noteq> 0" "0 \<notin> set cs" using Cons.prems Cons by auto
      then show ?thesis using 1 i Cons Cons.IH [of cs]
        by (auto simp: tokens_one [OF assms(1)] wild_any_one suffix_Cons simp del: pat_tokens.simps wild_match.simps
            split: option.split)
    qed
  next
    case 2
    then show ?thesis using i Cons.IH [OF Cons.prems] by (auto simp: wild_any_any suffix_Cons simp del: wild_match.simps split: option.split)
  next
    case 3
    then show ?thesis by simp
  qed
qed simp

text \<open>The two claims about an outcome: it decides the match, and giving up is right for every later start.\<close>

definition decides :: "outcome \<Rightarrow> token list \<Rightarrow> nat list \<Rightarrow> bool" where
  "decides m ts str \<longleftrightarrow> (m = Match \<longleftrightarrow> wild_match ts str)
     \<and> (m = NoWildcardMatch \<longrightarrow> (\<forall>s'. suffix s' str \<longrightarrow> \<not> wild_match ts s'))"

lemma decides_step:
  assumes "decides m ts cs" and "P c"
  shows "decides m (TOne P # ts) (c # cs)"
  using assms by (auto simp: decides_def suffix_Cons split: list.splits) (metis suffix_ConsD)

lemma decides_any: "(m = Match \<longleftrightarrow> wild_match (TAny # ts) str) \<Longrightarrow> decides m (TAny # ts) str"
  using wild_any_suffix by (auto simp: decides_def)

lemma decides_fail: "\<not> wild_match ts str \<Longrightarrow> decides NoMatch ts str"
  by (simp add: decides_def)

lemma decides_one:
  assumes "0 \<notin> set str" and "\<And>c cs. str = c # cs \<Longrightarrow> P c \<Longrightarrow> decides (m cs) ts cs"
    and "b \<longleftrightarrow> str \<noteq> [] \<and> P (hd str)"
  shows "decides (if b then m (snd (read str)) else NoMatch) (TOne P # ts) str"
proof (cases str)
  case (Cons c cs)
  then show ?thesis using assms(2,3) decides_step [of "m cs" ts cs P c] by (auto intro: decides_fail)
qed (use assms(3) in \<open>simp add: decides_fail\<close>)

lemma compare_decides:
  "std_info info mo \<Longrightarrow> 0 \<notin> set pat \<Longrightarrow> 0 \<notin> set str \<Longrightarrow> decides (compare info mo pat str) (pat_tokens info pat) str"
  "std_info info mo \<Longrightarrow> 0 \<notin> set q \<Longrightarrow> 0 \<notin> set str2 \<Longrightarrow>
     (retry info mo q str2 = Match \<longleftrightarrow> wild_match (TAny # pat_tokens info q) str2)"
proof (induction info mo pat str and info mo q str2 rule: compare_retry.induct)
  case (1 info mo str)
  show ?case by (simp add: compare.simps at_end_def decides_def)
next
  case (2 info mo c ps str)
  note i = std_infoD [OF "2.prems"(1)]
  have c0: "c \<noteq> 0" "0 \<notin> set ps" using "2.prems"(2) by auto
  consider (all) "c = match_all info" | (set) "c \<noteq> match_all info" "c = mo" | (one) "c \<noteq> match_all info" "c \<noteq> mo" by blast
  then show ?case
  proof cases
    case all
    note sw = skip_wild_spec [OF "2.prems"(1,3), of ps]
    show ?thesis
    proof (cases "skip_wild info ps str")
      case None
      then show ?thesis using all c0 sw by (simp add: compare.simps decides_any del: wild_match.simps)
    next
      case (Some r)
      obtain q str1 where r: "r = (q, str1)" by force
      have q: "0 \<notin> set q" "0 \<notin> set str1" "wild_match (TAny # pat_tokens info ps) str \<longleftrightarrow> wild_match (TAny # pat_tokens info q) str1"
        using sw Some r c0 "2.prems"(3) by (auto dest: set_mono_suffix)
      show ?thesis
      proof (cases q)
        case Nil
        then have "compare info mo (c # ps) str = Match" using all c0 Some r by (simp add: compare.simps)
        then show ?thesis using q(3) Nil all by (simp add: decides_any wild_any [of "[]"] del: wild_match.simps) (simp add: decides_any)
      next
        case (Cons d ds)
        have d: "d \<noteq> 0" using q(1) Cons by auto
        have "\<not> (d = mo \<and> \<not> match_set_ok info)" using i(7) d by auto
        then have cmp: "compare info mo (c # ps) str = retry info mo q str1" using all c0 Some r Cons d by (auto simp: compare.simps)
        have "retry info mo q str1 = Match \<longleftrightarrow> wild_match (TAny # pat_tokens info q) str1"
          using "2.IH"(2) [OF c0(1) all Some r [symmetric]] all Some r Cons d i(7) "2.prems"(1) q(1,2) by auto
        then show ?thesis using all q(3) cmp by (simp add: decides_any del: wild_match.simps)
      qed
    qed
  next
    case set
    have ok: "match_set_ok info" "c = 0x5b" using i(6,7) c0(1) set(2) by auto
    obtain iv rs closed rest where p: "parse_set ps = (iv, rs, closed, rest)" by (rule prod_cases4)
    have rest: "0 \<notin> set rest" using parse_set_suffix [OF p] c0(2) by (auto dest: set_mono_suffix)
    show ?thesis
    proof (cases "\<exists>x xs. str = x # xs \<and> closed \<and> in_ranges rs x \<noteq> iv")
      case True
      then obtain x xs where x: "str = x # xs" "closed" "in_ranges rs x \<noteq> iv" by blast
      have m: "match_set ps str = Some (rest, xs)" using p x "2.prems"(3) by (auto simp: match_set_spec)
      have "decides (compare info mo rest xs) (pat_tokens info rest) xs"
        using "2.IH"(4) [OF c0(1) set] ok m rest "2.prems" x(1) by auto
      from decides_step [OF this, of "\<lambda>y. in_ranges rs y \<noteq> iv" x] show ?thesis
        using set ok c0 m p x by (simp add: compare.simps)
    next
      case False
      then have "match_set ps str = None" using p by (auto simp: match_set_spec split: list.split)
      moreover have "\<not> wild_match (pat_tokens info (c # ps)) str"
        using False set(1) ok p by (cases closed) (auto split: list.split)
      ultimately show ?thesis using set ok c0 by (simp add: compare.simps decides_fail del: pat_tokens.simps)
    qed
  next
    case one
    define P where "P = (if c = match_one info then (\<lambda>_. True) else same_char info c)"
    have "\<not> (match_set_ok info \<and> c = 0x5b)" using i(6) one(2) by auto
    then have tok: "pat_tokens info (c # ps) = TOne P # pat_tokens info ps" using one(1) by (auto simp: P_def)
    define b where "b \<longleftrightarrow> same_char info c (fst (read str)) \<or> c = match_one info \<and> fst (read str) \<noteq> 0"
    have b: "b \<longleftrightarrow> str \<noteq> [] \<and> P (hd str)"
      using c0(1) "2.prems"(3) by (cases str) (auto simp: b_def P_def same_char_def to_lower_def split: if_splits)
    have cmp: "compare info mo (c # ps) str = (if b then compare info mo ps (snd (read str)) else NoMatch)"
      using one c0(1) by (simp add: compare.simps b_def)
    show ?thesis unfolding cmp tok
    proof (rule decides_one [where P = P and m = "compare info mo ps"])
      show "0 \<notin> set str" "b \<longleftrightarrow> str \<noteq> [] \<and> P (hd str)" by (fact "2.prems"(3), fact b)
    next
      fix x xs
      assume x: "str = x # xs" "P x"
      then have "b" using b by simp
      then show "decides (compare info mo ps xs) (pat_tokens info ps) xs"
        using "2.IH"(5) [OF c0(1) one] x(1) c0(2) "2.prems" by (auto simp: b_def)
    qed
  qed
next
  case (3 info mo q str)
  have d: "decides (compare info mo q str) (pat_tokens info q) str" using "3.IH"(1) "3.prems" by blast
  show ?case
  proof (cases "compare info mo q str = NoMatch \<and> str \<noteq> []")
    case True
    then obtain x xs where s: "str = x # xs" "x \<noteq> 0" "0 \<notin> set xs" using "3.prems"(3) by (cases str) auto
    then have "retry info mo q xs = Match \<longleftrightarrow> wild_match (TAny # pat_tokens info q) xs"
      using "3.IH"(2) True "3.prems" by auto
    then show ?thesis using True s d by (simp add: retry.simps [of info mo q "x # xs"] decides_def)
  next
    case False
    then show ?thesis using d
      by (cases "compare info mo q str") (auto simp: retry.simps [of info mo q str] retry.simps [of info mo q "[]"] decides_def wild_any)
  qed
qed


text \<open>
  C20. The matcher of \<open>LIKE\<close> and \<open>GLOB\<close> decides the meaning of the pattern: for a pattern and a text without
  NUL characters, and no escape character, it answers match exactly when the text can be cut into the
  tokens of the pattern, although it gives up as soon as one attempt behind a wildcard cannot succeed.
\<close>

theorem pattern_compare_decides:
  assumes "std_info info match_other" and "0 \<notin> set pat" and "0 \<notin> set str"
  shows "pattern_compare pat str info match_other \<longleftrightarrow> wild_match (pat_tokens info pat) str"
  using compare_decides(1) [OF assms] by (simp add: pattern_compare_def decides_def)

theorem pattern_compare_decides_witness:
  "pattern_compare (chars (ascii_bytes ''a*[x-z]?'')) (chars (ascii_bytes ''abcyd'')) GLOB_INFO 0x5b"
proof -
  have c: "chars (ascii_bytes ''a*[x-z]?'') = [0x61, 0x2a, 0x5b, 0x78, 0x2d, 0x7a, 0x5d, 0x3f]"
    "chars (ascii_bytes ''abcyd'') = [0x61, 0x62, 0x63, 0x79, 0x64]"
    by code_simp+
  have "wild_match (pat_tokens GLOB_INFO [0x61, 0x2a, 0x5b, 0x78, 0x2d, 0x7a, 0x5d, 0x3f]) [0x61, 0x62, 0x63, 0x79, 0x64]"
    by (simp add: GLOB_INFO_def parse_set_def set_ranges.simps in_ranges_def same_char_def Let_def)
  then show ?thesis
    unfolding c using pattern_compare_decides [of GLOB_INFO "0x5b" "[0x61, 0x2a, 0x5b, 0x78, 0x2d, 0x7a, 0x5d, 0x3f]" "[0x61, 0x62, 0x63, 0x79, 0x64]"]
    by (simp add: std_info_def)
qed

text \<open>
  C29. Directly behind a \<open>%\<close> the escape character has no effect on a wildcard: the attempt behind the
  \<open>%\<close> starts at the escaped character, which is then read as a wildcard. \<open>x LIKE '%\%' ESCAPE '\'\<close>, which
  asks for a text ending in a percent sign, holds of every text.
\<close>

theorem like_escape_behind_percent:
  "like (VText [0x25, 0x5c, 0x25]) (VText s) (Some (VText [0x5c])) = Inr (VInt 1)"
proof -
  have "pattern_compare [0x25, 0x5c, 0x25] str LIKE_INFO 0x5c" for str
    by (simp add: pattern_compare_def compare.simps retry.simps LIKE_INFO_def)
  moreover have "chars [0x25, 0x5c, 0x25] = [0x25, 0x5c, 0x25]" "chars [0x5c] = [0x5c]" by code_simp+
  ultimately show ?thesis
    by (simp add: like_def is_null_def parse_escape_def text_or_default_def bool_val_def)
qed

end
