(* ===== verification/Float_Ops.thy ===== *)
theory Float_Ops
  imports Fp_Text "HOL-Library.Signed_Division"
begin

text \<open>
  The arithmetic of the language the executor relies on: binary64 addition, subtraction,
  multiplication and division, each the correctly rounded exact result, and the checked operations on
  \<open>i64\<close>. A sum is exact on the integers \<open>f_scaled\<close>, the values in units of \<open>2 ^ -1074\<close>; a NaN is
  returned as the quiet NaN. \<open>i64_add\<close> and its relatives are the operators \<open>+\<close>, \<open>-\<close> and \<open>*\<close>, which panic
  on overflow.
\<close>

section \<open>Binary64\<close>

definition f64_nan :: u64 where
  "f64_nan = 0x7ff8000000000000"

definition f_is_inf :: "u64 \<Rightarrow> bool" where
  "f_is_inf r \<longleftrightarrow> f_exp r = 2047 \<and> f_man r = 0"

definition f_is_zero :: "u64 \<Rightarrow> bool" where
  "f_is_zero r \<longleftrightarrow> f_mag r = 0"

definition f64_signed_inf :: "bool \<Rightarrow> u64" where
  "f64_signed_inf s = f64_pack s 2047 0"

definition f64_add :: "u64 \<Rightarrow> u64 \<Rightarrow> u64" where
  "f64_add a b =
     (if f_is_nan a \<or> f_is_nan b then f64_nan
      else if f_is_inf a then (if f_is_inf b \<and> f_sign a \<noteq> f_sign b then f64_nan else a)
      else if f_is_inf b then b
      else (let k = f_scaled a + f_scaled b in
            if k = 0 then f64_pack (f_sign a \<and> f_sign b) 0 0
            else f64_of_ratio (k < 0) (nat \<bar>k\<bar>) (2 ^ 1074)))"

definition f64_sub :: "u64 \<Rightarrow> u64 \<Rightarrow> u64" where
  "f64_sub a b = f64_add a (f64_neg b)"

definition f64_mul :: "u64 \<Rightarrow> u64 \<Rightarrow> u64" where
  "f64_mul a b =
     (let s = (f_sign a \<noteq> f_sign b) in
      if f_is_nan a \<or> f_is_nan b then f64_nan
      else if f_is_inf a then (if f_is_zero b then f64_nan else f64_signed_inf s)
      else if f_is_inf b then (if f_is_zero a then f64_nan else f64_signed_inf s)
      else f64_of_ratio s (f_mag a * f_mag b) (2 ^ 2148))"

definition f64_div :: "u64 \<Rightarrow> u64 \<Rightarrow> u64" where
  "f64_div a b =
     (let s = (f_sign a \<noteq> f_sign b) in
      if f_is_nan a \<or> f_is_nan b then f64_nan
      else if f_is_inf a then (if f_is_inf b then f64_nan else f64_signed_inf s)
      else if f_is_inf b then f64_pack s 0 0
      else if f_is_zero b then (if f_is_zero a then f64_nan else f64_signed_inf s)
      else f64_of_ratio s (f_mag a) (f_mag b))"

text \<open>\<open>r.fract() == 0.0\<close>: false for NaN and for the infinities, whose fractional part is NaN.\<close>

definition f64_is_integral :: "u64 \<Rightarrow> bool" where
  "f64_is_integral r \<longleftrightarrow> f_exp r \<noteq> 2047 \<and> f_mag r mod 2 ^ 1074 = 0"

section \<open>Checked integers\<close>

definition in_i64 :: "int \<Rightarrow> bool" where
  "in_i64 k \<longleftrightarrow> - (2 ^ 63) \<le> k \<and> k < 2 ^ 63"

definition checked_i64 :: "int \<Rightarrow> i64 option" where
  "checked_i64 k = (if in_i64 k then Some (of_int k) else None)"

definition i64_checked :: "int \<Rightarrow> i64 result" where
  "i64_checked k = ok_or Panic (checked_i64 k)"

definition i64_add :: "i64 \<Rightarrow> i64 \<Rightarrow> i64 result" where
  "i64_add a b = i64_checked (sint a + sint b)"

definition i64_sub :: "i64 \<Rightarrow> i64 \<Rightarrow> i64 result" where
  "i64_sub a b = i64_checked (sint a - sint b)"

definition i64_mul :: "i64 \<Rightarrow> i64 \<Rightarrow> i64 result" where
  "i64_mul a b = i64_checked (sint a * sint b)"

text \<open>Division truncates; it panics for a divisor 0 and for the quotient \<open>2 ^ 63\<close>.\<close>

definition i64_div :: "i64 \<Rightarrow> i64 \<Rightarrow> i64 result" where
  "i64_div a b = (if b = 0 then Inl Panic else i64_checked (sint a sdiv sint b))"

definition i64_rem :: "i64 \<Rightarrow> i64 \<Rightarrow> i64 result" where
  "i64_rem a b =
     (if b = 0 \<or> sint a = - (2 ^ 63) \<and> sint b = - 1 then Inl Panic else Inr (of_int (sint a smod sint b)))"

definition i64_saturating_sub :: "i64 \<Rightarrow> i64 \<Rightarrow> i64" where
  "i64_saturating_sub a b = i64_of_int (sint a - sint b)"

lemma sint_of_int_i64: "in_i64 k \<Longrightarrow> sint (of_int k :: i64) = k"
  by (simp add: in_i64_def signed_of_int signed_take_bit_int_eq_self)

lemma checked_i64_simps:
  "in_i64 k \<Longrightarrow> checked_i64 k = Some (of_int k)" "\<not> in_i64 k \<Longrightarrow> checked_i64 k = None"
  "in_i64 k \<Longrightarrow> i64_checked k = Inr (of_int k)" "\<not> in_i64 k \<Longrightarrow> i64_checked k = Inl Panic"
  by (simp_all add: checked_i64_def i64_checked_def)

end
