(* ===== verification/Aggregate.thy ===== *)
theory Aggregate
  imports Float_Ops
begin

text \<open>
  The built-in aggregate and window functions (\<open>func/aggregate.rs\<close>) and how the executor reads an
  accumulator out (\<open>finalize_accumulator\<close> and \<open>empty_aggregate_result\<close> of \<open>vdbe/exec.rs\<close>). One record
  holds the state of every kind; \<open>step\<close> adds a row, \<open>inverse\<close> removes the oldest row of a window frame,
  \<open>value\<close> and \<open>value_mut\<close> read the result. Counters are \<open>i64\<close> with overflow checks.
\<close>

section \<open>Kinds\<close>

datatype aggregate_kind =
    Agg_Count | Agg_Sum | Agg_Total | Agg_Avg | Agg_Min | Agg_Max | Agg_GroupConcat
  | Agg_JsonGroupArray | Agg_JsonGroupObject
  | Agg_RowNumber | Agg_Rank | Agg_DenseRank | Agg_PercentRank | Agg_CumeDist | Agg_Ntile
  | Agg_FirstValue | Agg_LastValue | Agg_NthValue | Agg_Lead | Agg_Lag

definition aggregate_from_name :: "bytes \<Rightarrow> nat \<Rightarrow> aggregate_kind option" where
  "aggregate_from_name name n_arg =
     (let lname = map ascii_lower name; is = (\<lambda>s. lname = ascii_bytes s) in
      if is ''count'' \<and> (n_arg = 0 \<or> n_arg = 1) then Some Agg_Count
      else if is ''sum'' \<and> n_arg = 1 then Some Agg_Sum
      else if is ''total'' \<and> n_arg = 1 then Some Agg_Total
      else if is ''avg'' \<and> n_arg = 1 then Some Agg_Avg
      else if is ''min'' \<and> n_arg = 1 then Some Agg_Min
      else if is ''max'' \<and> n_arg = 1 then Some Agg_Max
      else if (is ''group_concat'' \<or> is ''string_agg'') \<and> (n_arg = 1 \<or> n_arg = 2) then Some Agg_GroupConcat
      else if is ''json_group_array'' \<and> n_arg = 1 then Some Agg_JsonGroupArray
      else if is ''json_group_object'' \<and> n_arg = 2 then Some Agg_JsonGroupObject
      else if is ''row_number'' \<and> n_arg = 0 then Some Agg_RowNumber
      else if is ''rank'' \<and> n_arg = 0 then Some Agg_Rank
      else if is ''dense_rank'' \<and> n_arg = 0 then Some Agg_DenseRank
      else if is ''percent_rank'' \<and> n_arg = 0 then Some Agg_PercentRank
      else if is ''cume_dist'' \<and> n_arg = 0 then Some Agg_CumeDist
      else if is ''ntile'' \<and> n_arg = 1 then Some Agg_Ntile
      else if is ''first_value'' \<and> n_arg = 1 then Some Agg_FirstValue
      else if is ''last_value'' \<and> n_arg = 1 then Some Agg_LastValue
      else if is ''nth_value'' \<and> n_arg = 2 then Some Agg_NthValue
      else if is ''lead'' \<and> 1 \<le> n_arg \<and> n_arg \<le> 3 then Some Agg_Lead
      else if is ''lag'' \<and> 1 \<le> n_arg \<and> n_arg \<le> 3 then Some Agg_Lag
      else None)"

fun window_only :: "aggregate_kind \<Rightarrow> bool" where
  "window_only Agg_RowNumber = True"
| "window_only Agg_Rank = True"
| "window_only Agg_DenseRank = True"
| "window_only Agg_PercentRank = True"
| "window_only Agg_CumeDist = True"
| "window_only Agg_Ntile = True"
| "window_only Agg_FirstValue = True"
| "window_only Agg_LastValue = True"
| "window_only Agg_NthValue = True"
| "window_only Agg_Lead = True"
| "window_only Agg_Lag = True"
| "window_only _ = False"

definition is_aggregate_call :: "bytes \<Rightarrow> nat \<Rightarrow> bool" where
  "is_aggregate_call name n_arg \<longleftrightarrow> aggregate_from_name name n_arg \<noteq> None"

section \<open>JSON text\<close>

definition hex_digit :: "nat \<Rightarrow> u8" where
  "hex_digit d = (if d < 10 then of_nat (48 + d) else of_nat (87 + d))"

text \<open>Every escaped character is ASCII, so the characters of a text are escaped byte by byte.\<close>

definition json_escape :: "u8 \<Rightarrow> bytes" where
  "json_escape c =
     (if c = 0x22 then [0x5c, 0x22]
      else if c = 0x5c then [0x5c, 0x5c]
      else if c = 0x08 then [0x5c, 0x62]
      else if c = 0x0c then [0x5c, 0x66]
      else if c = 0x0a then [0x5c, 0x6e]
      else if c = 0x0d then [0x5c, 0x72]
      else if c = 0x09 then [0x5c, 0x74]
      else if c < 0x20 then [0x5c, 0x75, 0x30, 0x30, hex_digit (unat c div 16), hex_digit (unat c mod 16)]
      else [c])"

definition render_string :: "bytes \<Rightarrow> bytes" where
  "render_string s = [0x22] @ concat (map json_escape s) @ [0x22]"

fun json_render_value_arg :: "sql_value \<Rightarrow> bytes result" where
  "json_render_value_arg VNull = Inr (ascii_bytes ''null'')"
| "json_render_value_arg (VInt i) = Inr (i64_to_string i)"
| "json_render_value_arg (VReal r) = fp_to_text r"
| "json_render_value_arg (VText s) = Inr (render_string s)"
| "json_render_value_arg (VBlob b) = Inr (ascii_bytes ''null'')"

section \<open>The accumulator\<close>

record accumulator =
  acc_kind :: aggregate_kind
  acc_count :: i64
  acc_sum_i :: i64
  acc_sum_r :: u64
  acc_has_real :: bool
  acc_overflowed :: bool
  acc_best :: "sql_value option"
  acc_concat :: "bytes option"
  acc_sep :: bytes
  acc_finalized :: bool
  acc_n_value :: i64
  acc_n_step :: i64
  acc_n_total :: i64
  acc_n_param :: i64
  acc_nth_step :: i64
  acc_captured :: "sql_value option"
  acc_json_array :: "bytes option"
  acc_json_object :: "bytes option"

definition accumulator_new :: "aggregate_kind \<Rightarrow> accumulator" where
  "accumulator_new kind =
     \<lparr>acc_kind = kind, acc_count = 0, acc_sum_i = 0, acc_sum_r = 0, acc_has_real = False, acc_overflowed = False,
      acc_best = None, acc_concat = None, acc_sep = ascii_bytes '','', acc_finalized = False, acc_n_value = 0,
      acc_n_step = 0, acc_n_total = 0, acc_n_param = 0, acc_nth_step = 0, acc_captured = None,
      acc_json_array = None, acc_json_object = None\<rparr>"

definition first_arg :: "sql_value list \<Rightarrow> sql_value option" where
  "first_arg args = (case args of [] \<Rightarrow> None | v # _ \<Rightarrow> Some v)"

definition first_non_null :: "sql_value list \<Rightarrow> sql_value option" where
  "first_non_null args = (case args of [] \<Rightarrow> None | v # _ \<Rightarrow> if is_null v then None else Some v)"

definition bump_count :: "accumulator \<Rightarrow> accumulator result" where
  "bump_count a = and_then (i64_add (acc_count a) 1) (\<lambda>n. Inr (a\<lparr>acc_count := n\<rparr>))"

definition drop_count :: "accumulator \<Rightarrow> accumulator result" where
  "drop_count a = and_then (i64_sub (acc_count a) 1) (\<lambda>n. Inr (a\<lparr>acc_count := n\<rparr>))"

text \<open>The running sum after adding, or for the inverse step subtracting, one value.\<close>

definition sum_int :: "(int \<Rightarrow> int \<Rightarrow> int) \<Rightarrow> (u64 \<Rightarrow> u64 \<Rightarrow> u64) \<Rightarrow> i64 \<Rightarrow> u64 \<Rightarrow> accumulator \<Rightarrow> accumulator" where
  "sum_int iop rop i r a =
     (case checked_i64 (iop (sint (acc_sum_i a)) (sint i)) of
        Some new_i \<Rightarrow> a\<lparr>acc_sum_i := new_i\<rparr>
      | None \<Rightarrow> a\<lparr>acc_sum_r := rop (f64_of_i64 (acc_sum_i a)) r, acc_has_real := True, acc_overflowed := True\<rparr>)"

definition sum_value :: "(int \<Rightarrow> int \<Rightarrow> int) \<Rightarrow> (u64 \<Rightarrow> u64 \<Rightarrow> u64) \<Rightarrow> sql_value \<Rightarrow> accumulator \<Rightarrow> accumulator" where
  "sum_value iop rop arg a =
     (if acc_has_real a then a\<lparr>acc_sum_r := rop (acc_sum_r a) (as_f64 arg)\<rparr>
      else (case arg of
              VInt i \<Rightarrow> sum_int iop rop i (f64_of_i64 i) a
            | VReal r \<Rightarrow> a\<lparr>acc_sum_r := rop (f64_of_i64 (acc_sum_i a)) r, acc_has_real := True\<rparr>
            | _ \<Rightarrow> (let n = as_f64 arg in
                    if f64_is_integral n then sum_int iop rop (f64_to_i64 n) n a
                    else a\<lparr>acc_sum_r := rop (f64_of_i64 (acc_sum_i a)) n, acc_has_real := True\<rparr>)))"

definition takes_over :: "aggregate_kind \<Rightarrow> sql_value \<Rightarrow> sql_value \<Rightarrow> bool" where
  "takes_over kind arg cur =
     (let ord = mem_compare arg cur Binary in if kind = Agg_Min then ord = Less else ord = Greater)"

definition step_best :: "sql_value \<Rightarrow> accumulator \<Rightarrow> accumulator" where
  "step_best arg a =
     (case acc_best a of
        None \<Rightarrow> a\<lparr>acc_best := Some arg\<rparr>
      | Some cur \<Rightarrow> if takes_over (acc_kind a) arg cur then a\<lparr>acc_best := Some arg\<rparr> else a)"

definition capture_sep :: "sql_value list \<Rightarrow> accumulator \<Rightarrow> accumulator result" where
  "capture_sep args a =
     (case get_opt args 1 of
        None \<Rightarrow> Inr a
      | Some v \<Rightarrow> and_then (to_text v) (\<lambda>t.
          case t of
            None \<Rightarrow> Inr a
          | Some sep \<Rightarrow> Inr (if sep \<noteq> [] \<or> acc_count a = 0 then a\<lparr>acc_sep := sep\<rparr> else a)))"

definition step_concat :: "sql_value list \<Rightarrow> accumulator \<Rightarrow> accumulator result" where
  "step_concat args a0 =
     and_then (capture_sep args a0) (\<lambda>a.
       case first_non_null args of
         None \<Rightarrow> Inr a
       | Some arg \<Rightarrow> and_then (to_text arg) (\<lambda>t.
           let text = (case t of None \<Rightarrow> [] | Some s \<Rightarrow> s) in
           bump_count (a\<lparr>acc_concat := Some (case acc_concat a of None \<Rightarrow> text | Some cur \<Rightarrow> cur @ acc_sep a @ text)\<rparr>)))"

definition step_json_array :: "sql_value list \<Rightarrow> accumulator \<Rightarrow> accumulator result" where
  "step_json_array args a =
     and_then (json_render_value_arg (case first_arg args of None \<Rightarrow> VNull | Some v \<Rightarrow> v)) (\<lambda>rendered.
       bump_count (a\<lparr>acc_json_array := Some ((case acc_json_array a of None \<Rightarrow> [0x5b] | Some cur \<Rightarrow> cur @ [0x2c]) @ rendered)\<rparr>))"

definition step_json_object :: "sql_value list \<Rightarrow> accumulator \<Rightarrow> accumulator result" where
  "step_json_object args a =
     (case first_arg args of
        None \<Rightarrow> Inr a
      | Some v \<Rightarrow> and_then (to_text v) (\<lambda>t.
          case t of
            None \<Rightarrow> Inr a
          | Some name \<Rightarrow>
              and_then (json_render_value_arg (case get_opt args 1 of None \<Rightarrow> VNull | Some w \<Rightarrow> w)) (\<lambda>val.
                bump_count (a\<lparr>acc_json_object := Some ((case acc_json_object a of None \<Rightarrow> [0x7b] | Some cur \<Rightarrow> cur @ [0x2c])
                  @ render_string name @ [0x3a] @ val)\<rparr>))))"

definition step_rank :: "accumulator \<Rightarrow> accumulator result" where
  "step_rank a =
     and_then (i64_add (acc_n_step a) 1) (\<lambda>n.
       Inr (if acc_n_value a = 0 then a\<lparr>acc_n_step := n, acc_n_value := n\<rparr> else a\<lparr>acc_n_step := n\<rparr>))"

definition bump_total :: "accumulator \<Rightarrow> accumulator result" where
  "bump_total a = and_then (i64_add (acc_n_total a) 1) (\<lambda>n. Inr (a\<lparr>acc_n_total := n\<rparr>))"

definition bump_step :: "accumulator \<Rightarrow> accumulator result" where
  "bump_step a = and_then (i64_add (acc_n_step a) 1) (\<lambda>n. Inr (a\<lparr>acc_n_step := n\<rparr>))"

definition step_nth :: "sql_value list \<Rightarrow> accumulator \<Rightarrow> accumulator result" where
  "step_nth args a =
     (let n = (case get_opt args 1 of Some v \<Rightarrow> as_i64 v | None \<Rightarrow> 1) in
      if sint n \<le> 0 then Inr a
      else and_then (i64_add (acc_nth_step a) 1) (\<lambda>k.
             Inr (if k = n then a\<lparr>acc_nth_step := k, acc_captured := first_arg args\<rparr> else a\<lparr>acc_nth_step := k\<rparr>)))"

definition agg_step :: "sql_value list \<Rightarrow> bool \<Rightarrow> accumulator \<Rightarrow> accumulator result" where
  "agg_step args is_count_star a0 =
     (let a = (if acc_finalized a0 then accumulator_new (acc_kind a0) else a0) in
      case acc_kind a of
        Agg_Count \<Rightarrow> if is_count_star \<or> first_non_null args \<noteq> None then bump_count a else Inr a
      | Agg_GroupConcat \<Rightarrow> step_concat args a
      | Agg_JsonGroupArray \<Rightarrow> step_json_array args a
      | Agg_JsonGroupObject \<Rightarrow> step_json_object args a
      | Agg_RowNumber \<Rightarrow> bump_count a
      | Agg_Rank \<Rightarrow> step_rank a
      | Agg_DenseRank \<Rightarrow> Inr (a\<lparr>acc_n_step := 1\<rparr>)
      | Agg_PercentRank \<Rightarrow> bump_total a
      | Agg_CumeDist \<Rightarrow> bump_total a
      | Agg_Ntile \<Rightarrow>
          bump_total (if acc_n_total a = 0
                      then (case first_arg args of None \<Rightarrow> a | Some v \<Rightarrow> a\<lparr>acc_n_param := as_i64 v\<rparr>) else a)
      | Agg_FirstValue \<Rightarrow>
          Inr (if acc_nth_step a = 0 then a\<lparr>acc_captured := first_arg args, acc_nth_step := 1\<rparr> else a)
      | Agg_LastValue \<Rightarrow>
          and_then (i64_add (acc_nth_step a) 1) (\<lambda>n. Inr (a\<lparr>acc_captured := first_arg args, acc_nth_step := n\<rparr>))
      | Agg_NthValue \<Rightarrow> step_nth args a
      | Agg_Lead \<Rightarrow> Inr a
      | Agg_Lag \<Rightarrow> Inr a
      | Agg_Min \<Rightarrow> (case first_non_null args of None \<Rightarrow> Inr a | Some arg \<Rightarrow> and_then (bump_count a) (\<lambda>a1. Inr (step_best arg a1)))
      | Agg_Max \<Rightarrow> (case first_non_null args of None \<Rightarrow> Inr a | Some arg \<Rightarrow> and_then (bump_count a) (\<lambda>a1. Inr (step_best arg a1)))
      | _ \<Rightarrow> (case first_non_null args of
                 None \<Rightarrow> Inr a
               | Some arg \<Rightarrow> and_then (bump_count a) (\<lambda>a1. Inr (sum_value (+) f64_add arg a1))))"

text \<open>
  The text of the oldest value and the separator behind it leave the front of the concatenation.
  \<open>String::drain\<close> panics when the end of the range is inside a character.
\<close>

definition is_char_boundary :: "bytes \<Rightarrow> nat \<Rightarrow> bool" where
  "is_char_boundary s i \<longleftrightarrow> i = length s \<or> i < length s \<and> \<not> (0x80 \<le> s ! i \<and> s ! i < 0xc0)"

definition drop_front :: "bytes \<Rightarrow> bytes \<Rightarrow> bytes \<Rightarrow> bytes result" where
  "drop_front text sep cur =
     (if length cur \<le> length text then Inr []
      else (let drop_len = (if length text + length sep \<le> length cur then length text + length sep else length cur) in
            if is_char_boundary cur drop_len then Inr (drop drop_len cur) else Inl Panic))"

definition inverse_concat :: "sql_value list \<Rightarrow> accumulator \<Rightarrow> accumulator result" where
  "inverse_concat args a =
     (case first_non_null args of
        None \<Rightarrow> Inr a
      | Some arg \<Rightarrow>
          and_then (to_text arg) (\<lambda>t.
          and_then (case acc_concat a of
                      None \<Rightarrow> Inr None
                    | Some cur \<Rightarrow> and_then (drop_front (case t of None \<Rightarrow> [] | Some s \<Rightarrow> s) (acc_sep a) cur)
                        (\<lambda>rest. Inr (if rest = [] then None else Some rest))) (\<lambda>concat.
            Inr (a\<lparr>acc_concat := concat, acc_count := i64_saturating_sub (acc_count a) 1\<rparr>))))"

definition agg_inverse :: "sql_value list \<Rightarrow> bool \<Rightarrow> accumulator \<Rightarrow> accumulator result" where
  "agg_inverse args is_count_star a =
     (if acc_finalized a then Inr a
      else (case acc_kind a of
        Agg_Count \<Rightarrow> if is_count_star \<or> first_non_null args \<noteq> None then drop_count a else Inr a
      | Agg_Sum \<Rightarrow> (case first_non_null args of None \<Rightarrow> Inr a | Some arg \<Rightarrow> and_then (drop_count a) (\<lambda>a1. Inr (sum_value (-) f64_sub arg a1)))
      | Agg_Total \<Rightarrow> (case first_non_null args of None \<Rightarrow> Inr a | Some arg \<Rightarrow> and_then (drop_count a) (\<lambda>a1. Inr (sum_value (-) f64_sub arg a1)))
      | Agg_Avg \<Rightarrow> (case first_non_null args of None \<Rightarrow> Inr a | Some arg \<Rightarrow> and_then (drop_count a) (\<lambda>a1. Inr (sum_value (-) f64_sub arg a1)))
      | Agg_GroupConcat \<Rightarrow> inverse_concat args a
      | Agg_Min \<Rightarrow> Inr (a\<lparr>acc_count := i64_saturating_sub (acc_count a) 1\<rparr>)
      | Agg_Max \<Rightarrow> Inr (a\<lparr>acc_count := i64_saturating_sub (acc_count a) 1\<rparr>)
      | Agg_JsonGroupArray \<Rightarrow> Inr (a\<lparr>acc_count := i64_saturating_sub (acc_count a) 1\<rparr>)
      | Agg_JsonGroupObject \<Rightarrow> Inr (a\<lparr>acc_count := i64_saturating_sub (acc_count a) 1\<rparr>)
      | Agg_PercentRank \<Rightarrow> bump_step a
      | Agg_CumeDist \<Rightarrow> bump_step a
      | Agg_Ntile \<Rightarrow> bump_step a
      | Agg_LastValue \<Rightarrow>
          and_then (i64_sub (acc_nth_step a) 1) (\<lambda>n.
            Inr (if sint n \<le> 0 then a\<lparr>acc_nth_step := n, acc_captured := None\<rparr> else a\<lparr>acc_nth_step := n\<rparr>))
      | _ \<Rightarrow> Inr a))"

section \<open>Reading the result\<close>

definition or_null :: "sql_value option \<Rightarrow> sql_value" where
  "or_null v = (case v of None \<Rightarrow> VNull | Some x \<Rightarrow> x)"

definition json_close :: "bytes option \<Rightarrow> u8 \<Rightarrow> u8 \<Rightarrow> sql_value" where
  "json_close cur opn cls = VText (case cur of Some s \<Rightarrow> s @ [cls] | None \<Rightarrow> [opn, cls])"

definition agg_total :: "accumulator \<Rightarrow> u64" where
  "agg_total a = (if acc_has_real a then acc_sum_r a else f64_of_i64 (acc_sum_i a))"

text \<open>The part \<open>value\<close> and \<open>finalize_accumulator\<close> share: the plain aggregates.\<close>

definition plain_value :: "aggregate_kind \<Rightarrow> accumulator \<Rightarrow> sql_value" where
  "plain_value kind a =
     (case kind of
        Agg_Count \<Rightarrow> VInt (acc_count a)
      | Agg_Sum \<Rightarrow>
          if acc_count a = 0 then VNull else if acc_has_real a then VReal (acc_sum_r a) else VInt (acc_sum_i a)
      | Agg_Total \<Rightarrow> VReal (agg_total a)
      | Agg_Avg \<Rightarrow> if acc_count a = 0 then VNull else VReal (f64_div (agg_total a) (f64_of_i64 (acc_count a)))
      | Agg_Min \<Rightarrow> or_null (acc_best a)
      | Agg_Max \<Rightarrow> or_null (acc_best a)
      | Agg_GroupConcat \<Rightarrow> or_null (map_option VText (acc_concat a))
      | Agg_JsonGroupArray \<Rightarrow> json_close (acc_json_array a) 0x5b 0x5d
      | Agg_JsonGroupObject \<Rightarrow> json_close (acc_json_object a) 0x7b 0x7d
      | _ \<Rightarrow> VNull)"

definition agg_value :: "accumulator \<Rightarrow> sql_value" where
  "agg_value a = plain_value (acc_kind a) a"

definition ntile_value :: "accumulator \<Rightarrow> sql_value result" where
  "ntile_value a =
     (let i_row = acc_n_step a; n_param = acc_n_param a; n_total = acc_n_total a in
      if sint n_param \<le> 0 then Inr VNull
      else and_then (i64_div n_total n_param) (\<lambda>n_size.
        if n_size = 0 then and_then (i64_add i_row 1) (\<lambda>n. Inr (VInt n))
        else and_then (i64_mul n_param n_size) (\<lambda>whole.
             and_then (i64_sub n_total whole) (\<lambda>n_large.
             and_then (i64_add n_size 1) (\<lambda>large_size.
             and_then (i64_mul n_large large_size) (\<lambda>i_small.
               if sint i_row < sint i_small
               then and_then (i64_div i_row large_size) (\<lambda>q. and_then (i64_add 1 q) (\<lambda>n. Inr (VInt n)))
               else and_then (i64_add 1 n_large) (\<lambda>b.
                    and_then (i64_sub i_row i_small) (\<lambda>r.
                    and_then (i64_div r n_size) (\<lambda>q. and_then (i64_add b q) (\<lambda>n. Inr (VInt n)))))))))))"

definition agg_value_mut :: "accumulator \<Rightarrow> (accumulator \<times> sql_value) result" where
  "agg_value_mut a =
     (case acc_kind a of
        Agg_RowNumber \<Rightarrow> Inr (a, VInt (acc_count a))
      | Agg_Rank \<Rightarrow> Inr (a\<lparr>acc_n_value := 0\<rparr>, VInt (acc_n_value a))
      | Agg_DenseRank \<Rightarrow>
          if acc_n_step a \<noteq> 0
          then and_then (i64_add (acc_n_value a) 1) (\<lambda>n. Inr (a\<lparr>acc_n_value := n, acc_n_step := 0\<rparr>, VInt n))
          else Inr (a, VInt (acc_n_value a))
      | Agg_PercentRank \<Rightarrow>
          let a1 = a\<lparr>acc_n_value := acc_n_step a\<rparr> in
          if 1 < sint (acc_n_total a)
          then and_then (i64_sub (acc_n_total a) 1) (\<lambda>n. Inr (a1, VReal (f64_div (f64_of_i64 (acc_n_step a)) (f64_of_i64 n))))
          else Inr (a1, VReal 0)
      | Agg_CumeDist \<Rightarrow>
          Inr (a, VReal (if 0 < sint (acc_n_total a)
                         then f64_div (f64_of_i64 (acc_n_step a)) (f64_of_i64 (acc_n_total a)) else 0))
      | Agg_Ntile \<Rightarrow> and_then (ntile_value a) (\<lambda>v. Inr (a, v))
      | Agg_FirstValue \<Rightarrow> Inr (a, or_null (acc_captured a))
      | Agg_NthValue \<Rightarrow> Inr (a, or_null (acc_captured a))
      | Agg_LastValue \<Rightarrow> Inr (a, or_null (acc_captured a))
      | _ \<Rightarrow> Inr (a, VNull))"

definition finalize_accumulator :: "accumulator \<Rightarrow> aggregate_kind \<Rightarrow> sql_value result" where
  "finalize_accumulator a kind =
     (if window_only kind then and_then (agg_value_mut a) (\<lambda>(_, v). Inr v) else Inr (plain_value kind a))"

definition empty_aggregate_result :: "aggregate_kind \<Rightarrow> sql_value" where
  "empty_aggregate_result kind =
     (case kind of
        Agg_Count \<Rightarrow> VInt 0
      | Agg_Total \<Rightarrow> VReal 0
      | Agg_JsonGroupArray \<Rightarrow> VText [0x5b, 0x5d]
      | Agg_JsonGroupObject \<Rightarrow> VText [0x7b, 0x7d]
      | Agg_RowNumber \<Rightarrow> VInt 0
      | Agg_Rank \<Rightarrow> VInt 0
      | Agg_DenseRank \<Rightarrow> VInt 0
      | Agg_Ntile \<Rightarrow> VInt 0
      | Agg_PercentRank \<Rightarrow> VReal 0
      | Agg_CumeDist \<Rightarrow> VReal 0
      | _ \<Rightarrow> VNull)"

end
