(* ===== verification/Sorter.thy ===== *)
theory Sorter
  imports Compare Iterator "HOL-Library.Multiset"
begin

text \<open>
  The in-memory sorter behind ORDER BY (\<open>vdbe/sorter.rs\<close>). Sorting is stated for any comparator
  that is a total preorder on a carrier (locale \<open>preorder_cmp\<close>): the stable insertion sort
  \<open>sort_by\<close>, which models \<open>slice::sort_by\<close>, permutes, orders and keeps equal elements in place.
  The locale is interpreted on \<open>compare_keys\<close> for rows without NaN, and the properties of
  \<open>Sorter::sort\<close> rest on that.
\<close>

section \<open>Stable sorting by a comparator\<close>

fun insort_by :: "('a \<Rightarrow> 'a \<Rightarrow> ordering) \<Rightarrow> 'a \<Rightarrow> 'a list \<Rightarrow> 'a list" where
  "insort_by c x [] = [x]"
| "insort_by c x (y # ys) = (if c x y = Greater then y # insort_by c x ys else x # y # ys)"

text \<open>\<open>slice::sort_by\<close>: the standard library's sort is stable, which fixes its result.\<close>

definition sort_by :: "('a \<Rightarrow> 'a \<Rightarrow> ordering) \<Rightarrow> 'a list \<Rightarrow> 'a list" where
  "sort_by c xs = foldr (insort_by c) xs []"

fun sorted_by :: "('a \<Rightarrow> 'a \<Rightarrow> ordering) \<Rightarrow> 'a list \<Rightarrow> bool" where
  "sorted_by c [] = True"
| "sorted_by c (x # xs) = ((\<forall>y \<in> set xs. c x y \<noteq> Greater) \<and> sorted_by c xs)"

locale preorder_cmp =
  fixes c :: "'a \<Rightarrow> 'a \<Rightarrow> ordering" and S :: "'a set"
  assumes refl: "x \<in> S \<Longrightarrow> c x x = Equal"
    and rev: "x \<in> S \<Longrightarrow> y \<in> S \<Longrightarrow> c y x = reverse (c x y)"
    and trans: "x \<in> S \<Longrightarrow> y \<in> S \<Longrightarrow> z \<in> S \<Longrightarrow> c x y \<noteq> Greater \<Longrightarrow> c y z \<noteq> Greater \<Longrightarrow> c x z \<noteq> Greater"
begin

lemma set_insort: "set (insort_by c x xs) = insert x (set xs)"
  by (induction xs) auto

lemma mset_insort: "mset (insort_by c x xs) = add_mset x (mset xs)"
  by (induction xs) auto

lemma mset_sort: "mset (sort_by c xs) = mset xs"
  by (induction xs) (auto simp: sort_by_def mset_insort)

lemma set_sort: "set (sort_by c xs) = set xs"
  using mset_sort [of xs] by (metis set_mset_mset)

lemma not_greater_rev: "x \<in> S \<Longrightarrow> y \<in> S \<Longrightarrow> c x y = Greater \<Longrightarrow> c y x \<noteq> Greater"
  using rev [of x y] by simp

lemma sorted_insort:
  "x \<in> S \<Longrightarrow> set xs \<subseteq> S \<Longrightarrow> sorted_by c xs \<Longrightarrow> sorted_by c (insort_by c x xs)"
proof (induction xs)
  case (Cons y ys)
  then have y: "y \<in> S" "set ys \<subseteq> S" by auto
  show ?case
  proof (cases "c x y = Greater")
    case True
    then show ?thesis using Cons y not_greater_rev [of x y] by (simp add: set_insort)
  next
    case False
    have "c x z \<noteq> Greater" if "z \<in> set ys" for z
      using trans [of x y z] that False Cons.prems y by auto
    then show ?thesis using False Cons.prems by simp
  qed
qed simp

lemma sorted_sort: "set xs \<subseteq> S \<Longrightarrow> sorted_by c (sort_by c xs)"
proof (induction xs)
  case (Cons x xs)
  then have "set (sort_by c xs) \<subseteq> S" using set_sort by auto
  with Cons show ?case by (simp add: sort_by_def sorted_insort)
qed (simp add: sort_by_def)

lemma filter_insort_other:
  "\<not> P x \<Longrightarrow> filter P (insort_by c x xs) = filter P xs"
  by (induction xs) auto

lemma equal_trans:
  assumes "x \<in> S" "y \<in> S" "z \<in> S" "c z x = Equal" "c z y = Equal"
  shows "c x y \<noteq> Greater"
  using assms trans [of x z y] rev [of z x] by simp

lemma filter_insort_equal:
  "x \<in> S \<Longrightarrow> z \<in> S \<Longrightarrow> set xs \<subseteq> S \<Longrightarrow> c z x = Equal \<Longrightarrow>
   filter (\<lambda>y. c z y = Equal) (insort_by c x xs) = x # filter (\<lambda>y. c z y = Equal) xs"
proof (induction xs)
  case (Cons y ys)
  then show ?case using equal_trans [of x y z] by auto
qed simp

text \<open>Stability: the elements equal to a given one keep their relative order.\<close>

lemma sort_stable:
  "z \<in> S \<Longrightarrow> set xs \<subseteq> S \<Longrightarrow>
   filter (\<lambda>y. c z y = Equal) (sort_by c xs) = filter (\<lambda>y. c z y = Equal) xs"
proof (induction xs)
  case (Cons x xs)
  then have "set (sort_by c xs) \<subseteq> S" using set_sort by auto
  then have "filter (\<lambda>y. c z y = Equal) (insort_by c x (sort_by c xs)) =
      (if c z x = Equal then x # filter (\<lambda>y. c z y = Equal) (sort_by c xs)
       else filter (\<lambda>y. c z y = Equal) (sort_by c xs))"
    using Cons.prems by (simp add: filter_insort_equal filter_insort_other)
  then show ?case using Cons by (simp add: sort_by_def)
qed (simp add: sort_by_def)

end
section \<open>The sorter\<close>

record key_field =
  desc :: bool
  key_collation :: collation

record sorter =
  sorter_keys :: "key_field list"
  sorter_encoding :: text_encoding
  records :: "bytes list"
  sorter_pos :: nat
  current :: "sql_value list option"

definition field :: "sql_value list \<Rightarrow> nat \<Rightarrow> sql_value" where
  "field vs i = (case get_opt vs i of None \<Rightarrow> VNull | Some v \<Rightarrow> v)"

fun compare_keys_from :: "nat \<Rightarrow> sql_value list \<Rightarrow> sql_value list \<Rightarrow> key_field list \<Rightarrow> ordering" where
  "compare_keys_from i a b [] = Equal"
| "compare_keys_from i a b (key # keys) =
     (let ord = mem_compare (field a i) (field b i) (key_collation key) in
      if ord \<noteq> Equal then (if desc key then reverse ord else ord)
      else compare_keys_from (i + 1) a b keys)"

definition compare_keys :: "sql_value list \<Rightarrow> sql_value list \<Rightarrow> key_field list \<Rightarrow> ordering" where
  "compare_keys a b keys = compare_keys_from 0 a b keys"

definition sorter_new :: "key_field list \<Rightarrow> text_encoding \<Rightarrow> sorter" where
  "sorter_new keys e =
     \<lparr>sorter_keys = keys, sorter_encoding = e, records = [], sorter_pos = 0, current = None\<rparr>"

definition sorter_insert :: "bytes \<Rightarrow> sorter \<Rightarrow> sorter" where
  "sorter_insert rec s = s\<lparr>records := records s @ [rec]\<rparr>"

text \<open>
  \<open>sort\<close> takes the records out of the sorter before it decodes them, so that a record that does
  not decode leaves an empty sorter behind.
\<close>

definition sorter_sort :: "sorter \<Rightarrow> sorter \<times> bool result" where
  "sorter_sort s =
     (case map_result (\<lambda>rec. and_then (decode_record rec (sorter_encoding s))
                               (\<lambda>values. Inr (values, rec))) (records s) of
        Inl e \<Rightarrow> (s\<lparr>records := []\<rparr>, Inl e)
      | Inr decoded \<Rightarrow>
          (let sorted_recs = map snd (sort_by (\<lambda>a b. compare_keys (fst a) (fst b) (sorter_keys s)) decoded)
           in (s\<lparr>records := sorted_recs, sorter_pos := 0, current := None\<rparr>,
               Inr (sorted_recs \<noteq> []))))"

definition sorter_is_valid :: "sorter \<Rightarrow> bool" where
  "sorter_is_valid s \<longleftrightarrow> sorter_pos s < length (records s)"

definition sorter_data :: "sorter \<Rightarrow> sorter \<times> unit result" where
  "sorter_data s =
     (case get_opt (records s) (sorter_pos s) of
        None \<Rightarrow> (s, Inl Panic)
      | Some rec \<Rightarrow> (case decode_record rec (sorter_encoding s) of
            Inl e \<Rightarrow> (s, Inl e)
          | Inr vs \<Rightarrow> (s\<lparr>current := Some vs\<rparr>, Inr ())))"

definition sorter_next :: "sorter \<Rightarrow> sorter" where
  "sorter_next s = s\<lparr>sorter_pos := sorter_pos s + 1\<rparr>"

definition sorter_column :: "nat \<Rightarrow> sorter \<Rightarrow> sql_value" where
  "sorter_column i s =
     (case current s of None \<Rightarrow> VNull
      | Some vals \<Rightarrow> (case get_opt vals i of None \<Rightarrow> VNull | Some v \<Rightarrow> v))"

definition sorter_clear :: "sorter \<Rightarrow> sorter" where
  "sorter_clear s = s\<lparr>records := [], sorter_pos := 0, current := None\<rparr>"

section \<open>Rows in key order\<close>

definition row_of :: "text_encoding \<Rightarrow> bytes \<Rightarrow> sql_value list" where
  "row_of e rec = (case decode_record rec e of Inl _ \<Rightarrow> [] | Inr vs \<Rightarrow> vs)"

definition clean_row :: "text_encoding \<Rightarrow> bytes \<Rightarrow> bool" where
  "clean_row e rec \<longleftrightarrow> (\<forall>v \<in> set (row_of e rec). no_nan v)"

definition compare_records :: "key_field list \<Rightarrow> text_encoding \<Rightarrow> bytes \<Rightarrow> bytes \<Rightarrow> ordering" where
  "compare_records keys e x y = compare_keys (row_of e x) (row_of e y) keys"

lemma no_nan_field: "\<forall>v \<in> set vs. no_nan v \<Longrightarrow> no_nan (field vs i)"
  by (simp add: field_def get_opt_def)

lemma compare_keys_preorder:
  assumes "\<forall>v \<in> set a. no_nan v" "\<forall>v \<in> set b. no_nan v" "\<forall>v \<in> set c. no_nan v"
  shows "compare_keys_from i a a keys = Equal"
    and "compare_keys_from i b a keys = reverse (compare_keys_from i a b keys)"
    and "compare_keys_from i a b keys \<noteq> Greater \<Longrightarrow> compare_keys_from i b c keys \<noteq> Greater \<Longrightarrow>
         compare_keys_from i a c keys \<noteq> Greater"
proof -
  have key: "mem_compare (field x i) (field y i) coll =
      cmp (sort_key_of coll (field x i)) (sort_key_of coll (field y i))"
    if "x \<in> {a, b, c}" "y \<in> {a, b, c}" for x y i coll
    using that assms no_nan_field by (intro mem_compare_cmp) auto
  show "compare_keys_from i a a keys = Equal"
    by (induction keys arbitrary: i) (simp_all add: key)
  show "compare_keys_from i b a keys = reverse (compare_keys_from i a b keys)"
    by (induction keys arbitrary: i) (auto simp: key Let_def)
  show "compare_keys_from i a b keys \<noteq> Greater \<Longrightarrow> compare_keys_from i b c keys \<noteq> Greater \<Longrightarrow>
         compare_keys_from i a c keys \<noteq> Greater"
    by (induction keys arbitrary: i) (auto simp: key Let_def cmp_def split: if_splits)
qed

interpretation record_order: preorder_cmp "compare_records keys e" "{rec. clean_row e rec}"
  for keys e
proof
  fix x y z
  assume "x \<in> {rec. clean_row e rec}" "y \<in> {rec. clean_row e rec}" "z \<in> {rec. clean_row e rec}"
  then have rows: "\<forall>v \<in> set (row_of e x). no_nan v" "\<forall>v \<in> set (row_of e y). no_nan v"
      "\<forall>v \<in> set (row_of e z). no_nan v"
    by (simp_all add: clean_row_def)
  show "compare_records keys e x y \<noteq> Greater \<Longrightarrow> compare_records keys e y z \<noteq> Greater \<Longrightarrow>
      compare_records keys e x z \<noteq> Greater"
    unfolding compare_records_def compare_keys_def by (rule compare_keys_preorder(3) [OF rows])
next
  fix x y
  assume "x \<in> {rec. clean_row e rec}" "y \<in> {rec. clean_row e rec}"
  then have rows: "\<forall>v \<in> set (row_of e x). no_nan v" "\<forall>v \<in> set (row_of e y). no_nan v"
    by (simp_all add: clean_row_def)
  show "compare_records keys e y x = reverse (compare_records keys e x y)"
    unfolding compare_records_def compare_keys_def
    by (rule compare_keys_preorder(2) [OF rows rows(2)])
next
  fix x
  assume "x \<in> {rec. clean_row e rec}"
  then have rows: "\<forall>v \<in> set (row_of e x). no_nan v" by (simp add: clean_row_def)
  show "compare_records keys e x x = Equal"
    unfolding compare_records_def compare_keys_def
    by (rule compare_keys_preorder(1) [OF rows rows rows])
qed

lemma insort_by_map:
  "insort_by (\<lambda>a b. c (fst a) (fst b)) (f x, x) (map (\<lambda>x. (f x, x)) xs) =
   map (\<lambda>x. (f x, x)) (insort_by (\<lambda>a b. c (f a) (f b)) x xs)"
  by (induction xs) auto

lemma sort_by_map:
  "sort_by (\<lambda>a b. c (fst a) (fst b)) (map (\<lambda>x. (f x, x)) xs) =
   map (\<lambda>x. (f x, x)) (sort_by (\<lambda>a b. c (f a) (f b)) xs)"
  by (induction xs) (simp_all add: sort_by_def insort_by_map)

lemma sorter_sort_records:
  assumes "\<forall>rec \<in> set (records s). \<exists>vs. decode_record rec (sorter_encoding s) = Inr vs"
  shows "sorter_sort s =
    (s\<lparr>records := sort_by (compare_records (sorter_keys s) (sorter_encoding s)) (records s),
       sorter_pos := 0, current := None\<rparr>, Inr (records s \<noteq> []))"
proof -
  let ?e = "sorter_encoding s" and ?c = "compare_records (sorter_keys s) (sorter_encoding s)"
  have "map_result (\<lambda>rec. and_then (decode_record rec ?e) (\<lambda>values. Inr (values, rec))) (records s)
      = Inr (map (\<lambda>rec. (row_of ?e rec, rec)) (records s))"
    using assms by (intro map_result_Inr) (auto simp: row_of_def)
  moreover have "sort_by (\<lambda>a b. compare_keys (fst a) (fst b) (sorter_keys s))
      (map (\<lambda>rec. (row_of ?e rec, rec)) (records s)) =
      map (\<lambda>rec. (row_of ?e rec, rec)) (sort_by ?c (records s))"
    unfolding compare_records_def
    by (rule sort_by_map [where c = "\<lambda>a b. compare_keys a b (sorter_keys s)"])
  moreover have "sort_by ?c (records s) = [] \<longleftrightarrow> records s = []"
    using record_order.mset_sort [of "sorter_keys s" ?e "records s"] by (metis mset_zero_iff)
  ultimately show ?thesis by (simp add: sorter_sort_def comp_def)
qed

text \<open>
  C10. ORDER BY is a stable sort: if every inserted record decodes and holds no NaN, \<open>sort\<close>
  succeeds, and the records it leaves are a permutation of the inserted ones, in non-decreasing
  key order (DESC flags and collations included), with equal keys in insertion order.
\<close>

theorem sorter_sort_correct:
  assumes "\<forall>rec \<in> set (records s). \<exists>vs. decode_record rec (sorter_encoding s) = Inr vs"
    and "\<forall>rec \<in> set (records s). clean_row (sorter_encoding s) rec"
    and "sorter_sort s = (s', r)"
    and "c = compare_records (sorter_keys s) (sorter_encoding s)"
  shows "r = Inr (records s \<noteq> []) \<and> sorter_pos s' = 0
    \<and> mset (records s') = mset (records s)
    \<and> sorted_by c (records s')
    \<and> (\<forall>z. clean_row (sorter_encoding s) z \<longrightarrow>
         filter (\<lambda>y. c z y = Equal) (records s') = filter (\<lambda>y. c z y = Equal) (records s))"
proof -
  have *: "set (records s) \<subseteq> {rec. clean_row (sorter_encoding s) rec}" using assms(2) by auto
  show ?thesis
    using assms(3) sorter_sort_records [OF assms(1)] record_order.mset_sort
      record_order.sorted_sort [OF *] record_order.sort_stable [OF _ *]
    by (auto simp: assms(4))
qed

definition demo_sorter :: sorter where
  "demo_sorter =
     \<lparr>sorter_keys = [\<lparr>desc = True, key_collation = Binary\<rparr>], sorter_encoding = Utf8,
      records = [[2, 1, 5], [2, 1, 9], [2, 9], [2, 1, 9]], sorter_pos = 3, current = None\<rparr>"

theorem sorter_sort_correct_witness:
  "records (fst (sorter_sort demo_sorter)) = [[2, 1, 9], [2, 1, 9], [2, 1, 5], [2, 9]]
   \<and> sorted_by (compare_records (sorter_keys demo_sorter) Utf8) (records (fst (sorter_sort demo_sorter)))"
proof -
  have "decode_record [2, 1, 5] Utf8 = Inr [VInt 5]" by code_simp
  moreover have "decode_record [2, 1, 9] Utf8 = Inr [VInt 9]" by code_simp
  moreover have "decode_record [2, 9] Utf8 = Inr [VInt 1]" by code_simp
  ultimately have dec: "\<forall>rec \<in> set (records demo_sorter).
      \<exists>vs. decode_record rec (sorter_encoding demo_sorter) = Inr vs"
    by (simp add: demo_sorter_def)
  have clean: "\<forall>rec \<in> set (records demo_sorter). clean_row (sorter_encoding demo_sorter) rec"
    by code_simp
  have "sorted_by (compare_records (sorter_keys demo_sorter) (sorter_encoding demo_sorter))
      (records (fst (sorter_sort demo_sorter)))"
    using sorter_sort_correct [OF dec clean prod.collapse [symmetric] refl] by blast
  moreover have "records (fst (sorter_sort demo_sorter)) = [[2, 1, 9], [2, 1, 9], [2, 1, 5], [2, 9]]"
    by code_simp
  ultimately show ?thesis by (simp add: demo_sorter_def)
qed

text \<open>A record that does not decode stops the sort with its error and empties the sorter.\<close>

lemma map_result_Inl:
  "x \<in> set xs \<Longrightarrow> f x = Inl e \<Longrightarrow> \<exists>e'. map_result f xs = Inl e'"
  by (induction xs) (auto simp: and_then_def split: sum.splits)

lemma sorter_sort_error:
  assumes "rec \<in> set (records s)" and "decode_record rec (sorter_encoding s) = Inl e"
  shows "\<exists>e'. sorter_sort s = (s\<lparr>records := []\<rparr>, Inl e')"
proof -
  obtain e' where "map_result (\<lambda>rec. and_then (decode_record rec (sorter_encoding s))
      (\<lambda>values. Inr (values, rec))) (records s) = Inl e'"
    using map_result_Inl [OF assms(1), where f = "\<lambda>rec. and_then (decode_record rec (sorter_encoding s))
      (\<lambda>values. Inr (values, rec))" and e = e] assms(2) by auto
  then show ?thesis by (simp add: sorter_sort_def)
qed


section \<open>The sorter as an iterator\<close>

text \<open>The current row, as the executor reads it with \<open>SorterData\<close> and \<open>Column\<close>.\<close>

definition sorter_row :: "(sorter, sql_value list) op" where
  "sorter_row = bind_op sorter_data (\<lambda>_. get_op (\<lambda>s. case current s of None \<Rightarrow> [] | Some vs \<Rightarrow> vs))"

definition sorter_at :: "sorter \<Rightarrow> sql_value list list \<Rightarrow> bool" where
  "sorter_at s rs \<longleftrightarrow>
     map (\<lambda>rec. decode_record rec (sorter_encoding s)) (drop (sorter_pos s) (records s)) = map Inr rs"

lemma sorter_at_Cons:
  assumes "sorter_at s (r # rs)"
  shows "sorter_pos s < length (records s)" "decode_record (records s ! sorter_pos s) (sorter_encoding s) = Inr r"
    "sorter_at (sorter_next s) rs"
proof -
  have "drop (sorter_pos s) (records s) \<noteq> []" using assms by (auto simp: sorter_at_def)
  then show lt: "sorter_pos s < length (records s)" by simp
  then have "drop (sorter_pos s) (records s) = records s ! sorter_pos s # drop (Suc (sorter_pos s)) (records s)"
    by (simp add: Cons_nth_drop_Suc)
  then show "decode_record (records s ! sorter_pos s) (sorter_encoding s) = Inr r" "sorter_at (sorter_next s) rs"
    using assms by (simp_all add: sorter_at_def sorter_next_def)
qed

interpretation sorter_iter: row_iterator sorter_at sorter_is_valid sorter_row "modify_op sorter_next"
proof
  show "sorter_at s rs \<Longrightarrow> sorter_is_valid s \<longleftrightarrow> rs \<noteq> []" for s rs
    using sorter_at_Cons(1) by (cases rs) (auto simp: sorter_at_def sorter_is_valid_def)
  show "\<exists>s'. sorter_row s = (s', Inr r) \<and> sorter_at s' (r # rs)" if "sorter_at s (r # rs)" for s r rs
    using sorter_at_Cons [OF that] that
    by (intro exI [of _ "s\<lparr>current := Some r\<rparr>"]) (simp add: sorter_row_def bind_op_def sorter_data_def sorter_at_def)
  show "\<exists>s'. modify_op sorter_next s = (s', Inr ()) \<and> sorter_at s' rs" if "sorter_at s (r # rs)" for s r rs
    using sorter_at_Cons(3) [OF that] by simp
qed

text \<open>
  Sorting and then reading row after row with \<open>SorterData\<close> and \<open>SorterNext\<close> until the sorter is
  invalid streams the decoded records in the sorted order, and ends.
\<close>

theorem sorter_streams_sorted:
  assumes "\<forall>rec \<in> set (records s). \<exists>vs. decode_record rec (sorter_encoding s) = Inr vs"
    and "length (records s) < n"
  shows "snd (bind_op sorter_sort (\<lambda>_. drain sorter_is_valid sorter_row (modify_op sorter_next) n) s) =
    Inr (map (row_of (sorter_encoding s)) (sort_by (compare_records (sorter_keys s) (sorter_encoding s)) (records s)))"
proof -
  let ?e = "sorter_encoding s" and ?c = "compare_records (sorter_keys s) (sorter_encoding s)"
  let ?s = "s\<lparr>records := sort_by ?c (records s), sorter_pos := 0, current := None\<rparr>"
  have m: "mset (sort_by ?c (records s)) = mset (records s)" by (rule record_order.mset_sort)
  have st: "set (sort_by ?c (records s)) = set (records s)" "length (sort_by ?c (records s)) = length (records s)"
    using mset_eq_setD [OF m] mset_eq_length [OF m] by auto
  have "sorter_at ?s (map (row_of ?e) (sort_by ?c (records s)))"
    using assms(1) st(1) by (auto simp: sorter_at_def row_of_def)
  moreover have "length (map (row_of ?e) (sort_by ?c (records s))) < n" using assms(2) st(2) by simp
  ultimately obtain s' where "drain sorter_is_valid sorter_row (modify_op sorter_next) n ?s =
      (s', Inr (map (row_of ?e) (sort_by ?c (records s))))"
    using sorter_iter.drain_ok by blast
  then show ?thesis using sorter_sort_records [OF assms(1)] by simp
qed

theorem sorter_streams_sorted_witness:
  "snd (bind_op sorter_sort (\<lambda>_. drain sorter_is_valid sorter_row (modify_op sorter_next) 5) demo_sorter) =
     Inr [[VInt 9], [VInt 9], [VInt 5], [VInt 1]]"
proof -
  have "decode_record [2, 1, 5] Utf8 = Inr [VInt 5]" by code_simp
  moreover have "decode_record [2, 1, 9] Utf8 = Inr [VInt 9]" by code_simp
  moreover have "decode_record [2, 9] Utf8 = Inr [VInt 1]" by code_simp
  ultimately have dec: "\<forall>rec \<in> set (records demo_sorter).
      \<exists>vs. decode_record rec (sorter_encoding demo_sorter) = Inr vs"
    by (simp add: demo_sorter_def)
  moreover have "map (row_of (sorter_encoding demo_sorter))
      (sort_by (compare_records (sorter_keys demo_sorter) (sorter_encoding demo_sorter)) (records demo_sorter)) =
      [[VInt 9], [VInt 9], [VInt 5], [VInt 1]]" by code_simp
  ultimately show ?thesis using sorter_streams_sorted [OF dec, of 5] by (simp add: demo_sorter_def)
qed

end
