(* ===== verification/Aggregate_Spec.thy ===== *)
theory Aggregate_Spec
  imports Aggregate Sorter
begin

text \<open>
  What the aggregates compute over the rows of a group or of a window frame: \<open>sum\<close> over integers is the
  exact sum and stays exact when rows leave the frame by inverse steps; \<open>min\<close> and \<open>max\<close> give an extreme
  value of the group in the order of \<open>mem_compare\<close>.
\<close>

fun steps :: "sql_value list \<Rightarrow> accumulator \<Rightarrow> accumulator result" where
  "steps [] a = Inr a"
| "steps (v # vs) a = and_then (agg_step [v] False a) (steps vs)"

fun inverses :: "sql_value list \<Rightarrow> accumulator \<Rightarrow> accumulator result" where
  "inverses [] a = Inr a"
| "inverses (v # vs) a = and_then (agg_inverse [v] False a) (inverses vs)"

lemma steps_append: "steps (xs @ ys) a = and_then (steps xs a) (steps ys)"
  by (induction xs arbitrary: a) (auto simp: and_then_def split: sum.split)

section \<open>Sums\<close>

definition int_or_null :: "sql_value \<Rightarrow> bool" where
  "int_or_null v = (case v of VInt _ \<Rightarrow> True | VNull \<Rightarrow> True | _ \<Rightarrow> False)"

definition int_of :: "sql_value \<Rightarrow> int" where
  "int_of v = (case v of VInt i \<Rightarrow> sint i | _ \<Rightarrow> 0)"

definition int_sum :: "sql_value list \<Rightarrow> int" where
  "int_sum vs = sum_list (map int_of vs)"

definition magnitude :: "sql_value list \<Rightarrow> int" where
  "magnitude vs = sum_list (map (\<lambda>v. \<bar>int_of v\<bar>) vs)"

definition n_values :: "sql_value list \<Rightarrow> nat" where
  "n_values vs = length (filter (\<lambda>v. \<not> is_null v) vs)"

definition sum_state :: "accumulator \<Rightarrow> int \<Rightarrow> int \<Rightarrow> bool" where
  "sum_state a c s \<longleftrightarrow> acc_kind a = Agg_Sum \<and> \<not> acc_finalized a \<and> \<not> acc_has_real a
     \<and> sint (acc_count a) = c \<and> sint (acc_sum_i a) = s"

lemma sum_bound: "\<bar>int_sum vs\<bar> \<le> magnitude vs" "0 \<le> magnitude vs"
  by (induction vs) (simp_all add: int_sum_def magnitude_def)

lemma sum_append [simp]: "int_sum (xs @ ys) = int_sum xs + int_sum ys" "magnitude (xs @ ys) = magnitude xs + magnitude ys"
    "n_values (xs @ ys) = n_values xs + n_values ys"
  by (simp_all add: int_sum_def magnitude_def n_values_def)

lemma sum_Cons [simp]: "int_sum (v # vs) = int_of v + int_sum vs" "magnitude (v # vs) = \<bar>int_of v\<bar> + magnitude vs"
    "n_values (v # vs) = (if is_null v then 0 else 1) + n_values vs"
  by (simp_all add: int_sum_def magnitude_def n_values_def)

lemma sum_Nil [simp]: "int_sum [] = 0" "magnitude [] = 0" "n_values [] = 0"
  by (simp_all add: int_sum_def magnitude_def n_values_def)

lemma step_sum:
  assumes "sum_state a c s" and "int_or_null v" and "in_i64 (c + 1)" and "in_i64 (s + int_of v)"
  shows "\<exists>a'. agg_step [v] False a = Inr a' \<and> sum_state a' (c + (if is_null v then 0 else 1)) (s + int_of v)"
  using assms
  by (cases v) (auto simp: sum_state_def agg_step_def first_non_null_def int_or_null_def int_of_def bump_count_def i64_add_def
      sum_value_def sum_int_def checked_i64_simps sint_of_int_i64 is_null_def simp del: of_int_add of_int_diff)

lemma inverse_sum:
  assumes "sum_state a c s" and "int_or_null v" and "in_i64 (c - 1)" and "in_i64 (s - int_of v)"
  shows "\<exists>a'. agg_inverse [v] False a = Inr a' \<and> sum_state a' (c - (if is_null v then 0 else 1)) (s - int_of v)"
  using assms
  by (cases v) (auto simp: sum_state_def agg_inverse_def first_non_null_def int_or_null_def int_of_def drop_count_def i64_sub_def
      sum_value_def sum_int_def checked_i64_simps sint_of_int_i64 is_null_def simp del: of_int_add of_int_diff)

lemma in_i64_small: "\<bar>k\<bar> < 2 ^ 63 \<Longrightarrow> in_i64 k"
  by (auto simp: in_i64_def)

lemma steps_sum:
  assumes "sum_state a c s" and "list_all int_or_null vs" and "0 \<le> c" and "c + int (length vs) < 2 ^ 63"
    and "\<bar>s\<bar> + magnitude vs < 2 ^ 63"
  shows "\<exists>a'. steps vs a = Inr a' \<and> sum_state a' (c + int (n_values vs)) (s + int_sum vs)"
  using assms
proof (induction vs arbitrary: a c s)
  case (Cons v vs)
  have "\<bar>s + int_of v\<bar> \<le> \<bar>s\<bar> + \<bar>int_of v\<bar>" by simp
  then have b: "\<bar>s + int_of v\<bar> + magnitude vs < 2 ^ 63" using Cons.prems(5) by simp
  then have "\<bar>s + int_of v\<bar> < 2 ^ 63" using sum_bound(2) [of vs] by linarith
  then obtain a1 where a1: "agg_step [v] False a = Inr a1" "sum_state a1 (c + (if is_null v then 0 else 1)) (s + int_of v)"
    using step_sum [OF Cons.prems(1), of v] Cons.prems(2-4) in_i64_small by fastforce
  have "list_all int_or_null vs" "0 \<le> c + (if is_null v then 0 else 1)" "c + (if is_null v then 0 else 1) + int (length vs) < 2 ^ 63"
    using Cons.prems(2-4) by auto
  from Cons.IH [OF a1(2) this b]
  show ?case using a1(1) by (auto simp: algebra_simps)
qed (simp add: sum_state_def)

lemma inverses_sum:
  assumes "sum_state a c s" and "list_all int_or_null vs" and "int (n_values vs) \<le> c" and "c < 2 ^ 63"
    and "\<bar>s\<bar> + magnitude vs < 2 ^ 63"
  shows "\<exists>a'. inverses vs a = Inr a' \<and> sum_state a' (c - int (n_values vs)) (s - int_sum vs)"
  using assms
proof (induction vs arbitrary: a c s)
  case (Cons v vs)
  have "\<bar>s - int_of v\<bar> \<le> \<bar>s\<bar> + \<bar>int_of v\<bar>" by simp
  then have b: "\<bar>s - int_of v\<bar> + magnitude vs < 2 ^ 63" using Cons.prems(5) by simp
  then have "\<bar>s - int_of v\<bar> < 2 ^ 63" using sum_bound(2) [of vs] by linarith
  moreover have "\<bar>c - 1\<bar> < 2 ^ 63" using Cons.prems(3,4) by (auto split: if_splits)
  ultimately obtain a1 where a1: "agg_inverse [v] False a = Inr a1" "sum_state a1 (c - (if is_null v then 0 else 1)) (s - int_of v)"
    using inverse_sum [OF Cons.prems(1), of v] Cons.prems(2) in_i64_small by fastforce
  have "list_all int_or_null vs" "int (n_values vs) \<le> c - (if is_null v then 0 else 1)" "c - (if is_null v then 0 else 1) < 2 ^ 63"
    using Cons.prems(2-4) by auto
  from Cons.IH [OF a1(2) this b]
  show ?case using a1(1) by (auto simp: algebra_simps)
qed (simp add: sum_state_def)

section \<open>Properties\<close>

text \<open>
  C34. A sliding \<open>sum\<close> is exact: when rows \<open>xs\<close> and then \<open>ys\<close> enter a window frame and the rows \<open>xs\<close>
  leave it again by inverse steps, the frame's sum is the exact integer sum of \<open>ys\<close>, or NULL when all of
  \<open>ys\<close> is NULL, as if the frame had only ever held \<open>ys\<close>. The bound says that the magnitudes fit an i64
  twice over.
\<close>

theorem window_sum_slides:
  assumes "list_all int_or_null (xs @ ys)" and "2 * magnitude (xs @ ys) < 2 ^ 63" and "int (length (xs @ ys)) < 2 ^ 63"
  shows "\<exists>a. and_then (steps (xs @ ys) (accumulator_new Agg_Sum)) (inverses xs) = Inr a
    \<and> agg_value a = (if list_all is_null ys then VNull else VInt (of_int (int_sum ys)))"
proof -
  have new: "sum_state (accumulator_new Agg_Sum) 0 0" by (simp add: sum_state_def accumulator_new_def)
  have m: "magnitude (xs @ ys) < 2 ^ 63" using assms(2) sum_bound(2) [of "xs @ ys"] by linarith
  obtain a1 where a1: "steps (xs @ ys) (accumulator_new Agg_Sum) = Inr a1"
      "sum_state a1 (int (n_values (xs @ ys))) (int_sum (xs @ ys))"
    using steps_sum [OF new assms(1)] assms(3) m by auto
  have n: "n_values (xs @ ys) \<le> length (xs @ ys)" unfolding n_values_def by (rule length_filter_le)
  have "\<bar>int_sum (xs @ ys)\<bar> + magnitude xs < 2 ^ 63"
    using sum_bound [of "xs @ ys"] sum_bound(2) [of ys] assms(2) by simp
  then obtain a2 where a2: "inverses xs a1 = Inr a2" "sum_state a2 (int (n_values ys)) (int_sum ys)"
    using inverses_sum [OF a1(2), of xs] assms(1,3) n by auto
  have c: "acc_count a2 = of_int (sint (acc_count a2))" "acc_sum_i a2 = of_int (sint (acc_sum_i a2))" by simp_all
  have "list_all is_null ys \<longleftrightarrow> n_values ys = 0" by (auto simp: n_values_def filter_empty_conv list_all_iff)
  moreover have "acc_count a2 = 0 \<longleftrightarrow> n_values ys = 0"
  proof
    assume "acc_count a2 = 0"
    then show "n_values ys = 0" using a2(2) by (simp add: sum_state_def)
  next
    assume "n_values ys = 0"
    then show "acc_count a2 = 0" using a2(2) c(1) by (simp add: sum_state_def)
  qed
  moreover have "acc_sum_i a2 = of_int (int_sum ys)" using a2(2) c(2) by (metis sum_state_def)
  ultimately have "agg_value a2 = (if list_all is_null ys then VNull else VInt (of_int (int_sum ys)))"
    using a2(2) by (simp add: agg_value_def plain_value_def sum_state_def)
  then show ?thesis using a1(1) a2(1) by (intro exI [of _ a2]) simp
qed

theorem window_sum_slides_witness:
  "\<exists>a. and_then (steps ([VInt 5, VNull] @ [VInt (- 7), VInt 3]) (accumulator_new Agg_Sum)) (inverses [VInt 5, VNull]) = Inr a
    \<and> agg_value a = VInt (of_int (int_sum [VInt (- 7), VInt 3]))"
  using window_sum_slides [of "[VInt 5, VNull]" "[VInt (- 7), VInt 3]"]
  by (simp add: int_or_null_def magnitude_def int_of_def is_null_def)

section \<open>Extremes\<close>

definition best_state :: "aggregate_kind \<Rightarrow> accumulator \<Rightarrow> nat \<Rightarrow> sql_value set \<Rightarrow> bool" where
  "best_state kind a c seen \<longleftrightarrow> acc_kind a = kind \<and> \<not> acc_finalized a \<and> sint (acc_count a) = int c
     \<and> (case acc_best a of
          None \<Rightarrow> \<forall>v \<in> seen. is_null v
        | Some b \<Rightarrow> b \<in> seen \<and> \<not> is_null b \<and> (\<forall>v \<in> seen. \<not> is_null v \<longrightarrow> \<not> takes_over kind v b))"

lemma takes_over_key:
  assumes "no_nan v" and "no_nan w"
  shows "takes_over kind v w \<longleftrightarrow> (if kind = Agg_Min then sort_key_of Binary v < sort_key_of Binary w
     else sort_key_of Binary w < sort_key_of Binary v)"
  using mem_compare_cmp [OF assms, of Binary] by (auto simp: takes_over_def Let_def cmp_def)

lemma step_best_state:
  assumes "best_state kind a c seen" and "kind \<in> {Agg_Min, Agg_Max}" and "in_i64 (int c + 1)"
    and "no_nan v" and "\<forall>w \<in> seen. no_nan w"
  shows "\<exists>a'. agg_step [v] False a = Inr a' \<and> best_state kind a' (if is_null v then c else c + 1) (insert v seen)"
proof (cases "is_null v")
  case True
  then have "agg_step [v] False a = Inr a"
    using assms(1,2) by (auto simp: best_state_def agg_step_def first_non_null_def)
  then show ?thesis using assms(1) True by (auto simp: best_state_def split: option.splits)
next
  case False
  let ?a1 = "a\<lparr>acc_count := of_int (int c + 1)\<rparr>"
  have "agg_step [v] False a = Inr (step_best v ?a1)"
    using assms(1-3) False
    by (auto simp: best_state_def agg_step_def first_non_null_def bump_count_def i64_add_def checked_i64_simps)
  moreover have "best_state kind (step_best v ?a1) (c + 1) (insert v seen)"
  proof (cases "acc_best a")
    case None
    then show ?thesis
      using assms(1,3,4) False takes_over_key [OF assms(4,4), of kind] sint_of_int_i64 [OF assms(3)]
      by (auto simp: best_state_def step_best_def simp del: of_int_add)
  next
    case (Some b)
    then have b: "b \<in> seen" "no_nan b" "\<not> is_null b" "\<forall>w \<in> seen. \<not> is_null w \<longrightarrow> \<not> takes_over kind w b"
      using assms(1,5) by (auto simp: best_state_def)
    have "\<forall>w \<in> seen. \<not> is_null w \<longrightarrow> \<not> takes_over kind w v" if "takes_over kind v b"
      using that b assms(4,5) by (auto simp: takes_over_key split: if_splits)
    then show ?thesis
      using assms(1,3,4) False Some b takes_over_key [OF assms(4,4), of kind] sint_of_int_i64 [OF assms(3)]
      by (auto simp: best_state_def step_best_def simp del: of_int_add)
  qed
  ultimately show ?thesis using False by auto
qed

lemma steps_best_state:
  "best_state kind a c seen \<Longrightarrow> kind \<in> {Agg_Min, Agg_Max} \<Longrightarrow> int c + int (length vs) < 2 ^ 63 \<Longrightarrow>
   \<forall>w \<in> seen \<union> set vs. no_nan w \<Longrightarrow> \<exists>a' c'. steps vs a = Inr a' \<and> best_state kind a' c' (seen \<union> set vs)"
proof (induction vs arbitrary: a c seen)
  case Nil
  then show ?case by auto
next
  case (Cons v vs)
  have "in_i64 (int c + 1)" using Cons.prems(3) by (intro in_i64_small) simp
  then obtain a1 where a1: "agg_step [v] False a = Inr a1"
      "best_state kind a1 (if is_null v then c else c + 1) (insert v seen)"
    using step_best_state [OF Cons.prems(1,2)] Cons.prems(4) by auto
  have "int (if is_null v then c else c + 1) + int (length vs) < 2 ^ 63" using Cons.prems(3) by auto
  from Cons.IH [OF a1(2) Cons.prems(2) this]
  show ?case using a1(1) Cons.prems(4) by auto
qed

text \<open>
  \<open>min\<close> and \<open>max\<close> return an extreme value: over any group of values other than NaN the result is one
  of the values that are not NULL, no value that is not NULL is beyond it in the order of
  \<open>mem_compare\<close>, and it is NULL when all values are.
\<close>

theorem min_max_extreme:
  assumes "kind \<in> {Agg_Min, Agg_Max}" and "list_all no_nan vs" and "length vs < 2 ^ 63"
  shows "\<exists>a. steps vs (accumulator_new kind) = Inr a
    \<and> (if list_all is_null vs then agg_value a = VNull
       else agg_value a \<in> set vs \<and> \<not> is_null (agg_value a)
            \<and> list_all (\<lambda>v. is_null v \<or> \<not> takes_over kind v (agg_value a)) vs)"
proof -
  have new: "best_state kind (accumulator_new kind) 0 {}" by (simp add: best_state_def accumulator_new_def)
  have "int 0 + int (length vs) < 2 ^ 63" using assms(3) by simp
  moreover have "\<forall>w \<in> {} \<union> set vs. no_nan w" using assms(2) by (simp add: list_all_iff)
  ultimately obtain a c where a: "steps vs (accumulator_new kind) = Inr a" "best_state kind a c (set vs)"
    using steps_best_state [OF new assms(1), of vs] by auto
  have "agg_value a = or_null (acc_best a)"
    using a(2) assms(1) by (auto simp: agg_value_def plain_value_def best_state_def)
  then show ?thesis
    using a by (intro exI [of _ a])
      (auto simp: best_state_def or_null_def list_all_iff is_null_def split: option.splits)
qed

theorem min_max_extreme_witness:
  "\<exists>a. steps [VText [98], VNull, VInt 4, VText [97]] (accumulator_new Agg_Max) = Inr a
    \<and> agg_value a \<in> set [VText [98], VNull, VInt 4, VText [97]] \<and> \<not> is_null (agg_value a)"
  using min_max_extreme [of Agg_Max "[VText [98], VNull, VInt 4, VText [97]]"] by (auto simp: is_null_def)

end
