(* ===== verification/Vdbe_Program.thy ===== *)
theory Vdbe_Program
  imports Aggregate Sorter
begin

text \<open>
  Bytecode: the opcodes (\<open>vdbe/opcode.rs\<close>), instructions with their operands, programs and the flag
  bits of \<open>p5\<close> (\<open>vdbe/program.rs\<close>), and the conflict actions (\<open>vdbe/oe.rs\<close>). The operands \<open>p1\<close>, \<open>p2\<close>
  and \<open>p3\<close> are \<open>i32\<close> values, written as integers; \<open>usize_of\<close> is the cast \<open>p as usize\<close>.
\<close>

text \<open>The opcodes, in the groups the source lists them in.\<close>

datatype control_op =
    Op_Init | Op_Goto | Op_Halt | Op_Gosub | Op_Return | Op_InitCoroutine | Op_EndCoroutine | Op_Yield
  | Op_Once | Op_Program | Op_Param | Op_Compare | Op_Jump | Op_HaltIfNull

datatype txn_op =
    Op_Transaction | Op_AutoCommit | Op_Savepoint | Op_SetCookie | Op_ParseSchema | Op_CreateBtree | Op_Destroy
  | Op_Clear | Op_Checkpoint | Op_FkCheck

datatype cursor_op =
    Op_OpenRead | Op_OpenWrite | Op_OpenWriteReg | Op_Close | Op_Rewind | Op_Next | Op_NotExists | Op_NullRow
  | Op_SeekRowid | Op_Last | Op_Prev | Op_Rowid | Op_Column | Op_ResultRow

datatype write_op =
    Op_MakeRecord | Op_NewRowid | Op_Insert | Op_Delete | Op_IdxInsert | Op_IdxDelete | Op_IdxRowid

datatype probe_op =
    Op_SeekGE | Op_SeekGT | Op_SeekLE | Op_SeekLT | Op_IdxGE | Op_IdxGT | Op_IdxLE | Op_IdxLT
  | Op_Found | Op_NotFound | Op_NoConflict

datatype load_op = Op_Integer | Op_Int64 | Op_Real | Op_String8 | Op_Null | Op_Blob

datatype arith_op =
    Op_Add | Op_Subtract | Op_Multiply | Op_Divide | Op_Remainder | Op_Concat
  | Op_BitAnd | Op_BitOr | Op_ShiftLeft | Op_ShiftRight | Op_BitNot

datatype compare_op = Op_Eq | Op_Ne | Op_Lt | Op_Le | Op_Gt | Op_Ge

datatype logic_op = Op_And | Op_Or | Op_Not | Op_IsNull | Op_NotNull | Op_If | Op_IfNot

datatype move_op =
    Op_Copy | Op_SCopy | Op_Move | Op_Affinity | Op_MustBeInt | Op_RealAffinity | Op_Function | Op_AddImm | Op_MemMax

datatype buffer_op =
    Op_SorterOpen | Op_SorterInsert | Op_SorterSort | Op_SorterData | Op_SorterNext | Op_ResetSorter
  | Op_OpenEphemeral | Op_OpenPseudo | Op_OpenDup | Op_RowData

datatype agg_op = Op_DecrJumpZero | Op_IfPos | Op_AggStep | Op_AggInverse | Op_AggFinal | Op_AggValue

datatype opcode =
    Control control_op | Txn txn_op | Cursor cursor_op | Write write_op | Probe probe_op | Load load_op
  | Arith arith_op | Comparison compare_op | Logic logic_op | Moves move_op | Buffer buffer_op | Agg agg_op

datatype fk_lookup =
    RowidSeek u32
  | IndexSeek u32 "key_field list"
  | TableScan u32 "nat list" "nat option"
  | ParentMissing

record fk_check_p4 =
  fk_child_table :: bytes
  fk_child_columns :: "bytes list"
  fk_parent_table :: bytes
  fk_lookup_of :: fk_lookup

datatype p4 =
    P4_None | P4_Int i64 | P4_Real u64 | P4_Text bytes | P4_Blob bytes | P4_Symbol bytes
  | P4_KeyInfo "key_field list" | P4_FuncDef aggregate_kind | P4_SubProgram program | P4_FkCheck fk_check_p4
and instruction =
    Instruction (inst_opcode: opcode) (inst_p1: int) (inst_p2: int) (inst_p3: int) (inst_p4: p4) (inst_p5: u8)
and program =
    Program (prog_instructions: "instruction list") (prog_num_registers: nat) (prog_num_cursors: nat) (prog_default_oe: u8)

definition instruction_new :: "opcode \<Rightarrow> int \<Rightarrow> int \<Rightarrow> int \<Rightarrow> instruction" where
  "instruction_new op p1 p2 p3 = Instruction op p1 p2 p3 P4_None 0"

definition program_empty :: program where
  "program_empty = Program [instruction_new (Control Op_Halt) 0 0 0] 0 0 0"

definition usize_of :: "int \<Rightarrow> nat" where
  "usize_of p = nat (if p < 0 then p + 2 ^ 64 else p)"

definition i32_add :: "int \<Rightarrow> int \<Rightarrow> int result" where
  "i32_add a b = (if - (2 ^ 31) \<le> a + b \<and> a + b < 2 ^ 31 then Inr (a + b) else Inl Panic)"

section \<open>Flags\<close>

definition P5_AFF_MASK :: u8 where "P5_AFF_MASK = 0x07"
definition P5_JUMPIFNULL :: u8 where "P5_JUMPIFNULL = 0x10"
definition P5_STOREP2 :: u8 where "P5_STOREP2 = 0x20"
definition P5_NULLEQ :: u8 where "P5_NULLEQ = 0x80"
definition P5_ISUPDATE :: u8 where "P5_ISUPDATE = 0x04"
definition P5_NCHANGE :: u8 where "P5_NCHANGE = 0x01"
definition P5_UNIQUE :: u8 where "P5_UNIQUE = 0x08"

unbundle bit_operations_syntax

definition has_flag :: "u8 \<Rightarrow> u8 \<Rightarrow> bool" where
  "has_flag p5 flag \<longleftrightarrow> p5 AND flag \<noteq> 0"

definition aff_to_p5 :: "affinity option \<Rightarrow> u8" where
  "aff_to_p5 aff =
     (case aff of
        None \<Rightarrow> 0 | Some Aff_Blob \<Rightarrow> 1 | Some Aff_Text \<Rightarrow> 2 | Some Aff_Numeric \<Rightarrow> 3 | Some Aff_Integer \<Rightarrow> 4 | Some Aff_Real \<Rightarrow> 5)"

definition p5_to_aff :: "u8 \<Rightarrow> affinity option" where
  "p5_to_aff p5 =
     (let k = p5 AND P5_AFF_MASK in
      if k = 1 then Some Aff_Blob else if k = 2 then Some Aff_Text else if k = 3 then Some Aff_Numeric
      else if k = 4 then Some Aff_Integer else if k = 5 then Some Aff_Real else None)"

lemma p5_to_aff_roundtrip: "p5_to_aff (aff_to_p5 aff) = aff"
  by (cases aff rule: option.exhaust; (cases "the aff")?) (simp_all add: p5_to_aff_def aff_to_p5_def P5_AFF_MASK_def)

section \<open>Conflict actions\<close>

datatype oe_action = Oe_None | Oe_Rollback | Oe_Abort | Oe_Fail | Oe_Ignore | Oe_Replace | Oe_Update

definition oe_from_u8 :: "u8 \<Rightarrow> oe_action" where
  "oe_from_u8 v =
     (if v = 0 then Oe_None else if v = 1 then Oe_Rollback else if v = 2 then Oe_Abort else if v = 3 then Oe_Fail
      else if v = 4 then Oe_Ignore else if v = 5 then Oe_Replace else if v = 6 then Oe_Update else Oe_Abort)"

section \<open>Reading the fourth operand\<close>

fun as_p4_int :: "p4 \<Rightarrow> i64" where
  "as_p4_int (P4_Int i) = i"
| "as_p4_int _ = 0"

fun as_p4_real :: "p4 \<Rightarrow> u64" where
  "as_p4_real (P4_Real r) = r"
| "as_p4_real _ = 0"

fun as_p4_text :: "p4 \<Rightarrow> bytes" where
  "as_p4_text (P4_Text s) = s"
| "as_p4_text (P4_Symbol s) = s"
| "as_p4_text _ = []"

fun as_p4_blob :: "p4 \<Rightarrow> bytes" where
  "as_p4_blob (P4_Blob b) = b"
| "as_p4_blob _ = []"

fun p4_len :: "p4 \<Rightarrow> nat" where
  "p4_len (P4_Int n) = nat (max 0 (sint n))"
| "p4_len _ = 0"

fun collation_of :: "p4 \<Rightarrow> collation" where
  "collation_of (P4_Symbol name) = (case collation_from_name name of None \<Rightarrow> Binary | Some c \<Rightarrow> c)"
| "collation_of _ = Binary"

definition char_to_aff :: "u8 \<Rightarrow> affinity" where
  "char_to_aff ch =
     (let u = ascii_upper ch in
      if u = 0x41 then Aff_Blob else if u = 0x42 then Aff_Text else if u = 0x43 then Aff_Numeric
      else if u = 0x44 then Aff_Integer else if u = 0x45 then Aff_Real
      else if u = 0x54 then Aff_Text else if u = 0x4e then Aff_Numeric else if u = 0x49 then Aff_Integer
      else if u = 0x52 then Aff_Real else Aff_Blob)"

end
