(* ===== verification/Vdbe_Expr.thy ===== *)
theory Vdbe_Expr
  imports Vdbe_Program
begin

text \<open>
  Evaluating operators on registers (the free functions at the end of \<open>vdbe/exec.rs\<close>): arithmetic with
  the promotion of integer overflow to REAL, bitwise operators and shifts, concatenation, comparison
  under affinity and collation, and three-valued logic. An opcode a function is not made for is
  \<open>unreachable!()\<close>, a panic.
\<close>

section \<open>Logic\<close>

definition truth :: "sql_value \<Rightarrow> bool option" where
  "truth v = (if is_null v then None else Some (\<not> f_is_zero (as_f64 v)))"

fun and3 :: "bool option \<Rightarrow> bool option \<Rightarrow> bool option" where
  "and3 (Some False) _ = Some False"
| "and3 _ (Some False) = Some False"
| "and3 (Some True) (Some True) = Some True"
| "and3 _ _ = None"

fun or3 :: "bool option \<Rightarrow> bool option \<Rightarrow> bool option" where
  "or3 (Some True) _ = Some True"
| "or3 _ (Some True) = Some True"
| "or3 (Some False) (Some False) = Some False"
| "or3 _ _ = None"

definition bool3_to_value :: "bool option \<Rightarrow> sql_value" where
  "bool3_to_value b = (case b of None \<Rightarrow> VNull | Some t \<Rightarrow> VInt (if t then 1 else 0))"

section \<open>Arithmetic\<close>

datatype num_value = Num_I i64 | Num_R u64

definition parse_num :: "bytes \<Rightarrow> num_value" where
  "parse_num s =
     (case fst (numeric_prefix s) of Some (VInt i) \<Rightarrow> Num_I i | Some (VReal r) \<Rightarrow> Num_R r | _ \<Rightarrow> Num_I 0)"

fun to_num :: "sql_value \<Rightarrow> num_value option" where
  "to_num VNull = None"
| "to_num (VInt i) = Some (Num_I i)"
| "to_num (VReal r) = Some (Num_R r)"
| "to_num (VText s) = Some (parse_num s)"
| "to_num (VBlob b) = Some (parse_num (from_utf8_lossy b))"

fun num_f :: "num_value \<Rightarrow> u64" where
  "num_f (Num_I i) = f64_of_i64 i"
| "num_f (Num_R r) = r"

definition int_or_real :: "int \<Rightarrow> u64 \<Rightarrow> sql_value" where
  "int_or_real k r = (case checked_i64 k of Some i \<Rightarrow> VInt i | None \<Rightarrow> VReal r)"

definition arith_int :: "arith_op \<Rightarrow> i64 \<Rightarrow> i64 \<Rightarrow> sql_value result" where
  "arith_int op ib ia =
     (let rb = f64_of_i64 ib; ra = f64_of_i64 ia in
      case op of
        Op_Add \<Rightarrow> Inr (int_or_real (sint ib + sint ia) (f64_add rb ra))
      | Op_Subtract \<Rightarrow> Inr (int_or_real (sint ib - sint ia) (f64_sub rb ra))
      | Op_Multiply \<Rightarrow> Inr (int_or_real (sint ib * sint ia) (f64_mul rb ra))
      | Op_Divide \<Rightarrow>
          if ia = 0 then Inr VNull
          else if sint ia = - 1 \<and> sint ib = - (2 ^ 63) then Inr (VReal (f64_div rb ra))
          else and_then (i64_div ib ia) (\<lambda>q. Inr (VInt q))
      | Op_Remainder \<Rightarrow>
          if ia = 0 then Inr VNull
          else and_then (i64_rem ib (if sint ia = - 1 then 1 else ia)) (\<lambda>r. Inr (VInt r))
      | _ \<Rightarrow> Inl Panic)"

definition real_or_null :: "u64 \<Rightarrow> sql_value" where
  "real_or_null r = (if f_is_nan r then VNull else VReal r)"

definition arith_real :: "arith_op \<Rightarrow> u64 \<Rightarrow> u64 \<Rightarrow> sql_value result" where
  "arith_real op rb ra =
     (case op of
        Op_Add \<Rightarrow> Inr (real_or_null (f64_add rb ra))
      | Op_Subtract \<Rightarrow> Inr (real_or_null (f64_sub rb ra))
      | Op_Multiply \<Rightarrow> Inr (real_or_null (f64_mul rb ra))
      | Op_Divide \<Rightarrow> Inr (if f_is_zero ra then VNull else real_or_null (f64_div rb ra))
      | Op_Remainder \<Rightarrow>
          let ia = f64_to_i64 ra; ib = f64_to_i64 rb in
          if ia = 0 then Inr VNull
          else and_then (i64_rem ib (if sint ia = - 1 then 1 else ia)) (\<lambda>r. Inr (real_or_null (f64_of_i64 r)))
      | _ \<Rightarrow> Inl Panic)"

definition arith :: "arith_op \<Rightarrow> sql_value \<Rightarrow> sql_value \<Rightarrow> sql_value result" where
  "arith op b a =
     (case (to_num b, to_num a) of
        (Some nb, Some na) \<Rightarrow>
          (case (nb, na) of
             (Num_I ib, Num_I ia) \<Rightarrow> arith_int op ib ia
           | _ \<Rightarrow> arith_real op (num_f nb) (num_f na))
      | _ \<Rightarrow> Inr VNull)"

definition shift_value :: "arith_op \<Rightarrow> i64 \<Rightarrow> i64 \<Rightarrow> i64" where
  "shift_value op ia ib =
     (let (opcode, n) = (if sint ib < 0
            then (if op = Op_ShiftLeft then Op_ShiftRight else Op_ShiftLeft, if - 64 < sint ib then - sint ib else 64)
            else (op, sint ib)) in
      if 64 \<le> n then (if 0 \<le> sint ia \<or> opcode = Op_ShiftLeft then 0 else - 1)
      else if opcode = Op_ShiftLeft then push_bit (nat n) ia
      else if sint ia < 0 then drop_bit (nat n) ia OR push_bit (64 - nat n) (- 1)
      else drop_bit (nat n) ia)"

definition bitwise :: "arith_op \<Rightarrow> sql_value \<Rightarrow> sql_value \<Rightarrow> sql_value result" where
  "bitwise op b a =
     (if is_null b \<or> is_null a then Inr VNull
      else (let ib = as_i64 a; ia0 = as_i64 b;
                ia = (if ib \<noteq> 0 \<and> (op = Op_ShiftLeft \<or> op = Op_ShiftRight) then shift_value op ia0 ib else ia0) in
            case op of
              Op_BitAnd \<Rightarrow> Inr (VInt (ia AND ib))
            | Op_BitOr \<Rightarrow> Inr (VInt (ia OR ib))
            | Op_ShiftLeft \<Rightarrow> Inr (VInt ia)
            | Op_ShiftRight \<Rightarrow> Inr (VInt ia)
            | _ \<Rightarrow> Inl Panic))"

definition bit_not :: "sql_value \<Rightarrow> sql_value" where
  "bit_not v = (if is_null v then VNull else VInt (NOT (as_i64 v)))"

definition concat_values :: "sql_value \<Rightarrow> sql_value \<Rightarrow> sql_value result" where
  "concat_values b a =
     and_then (to_text b) (\<lambda>tb. and_then (to_text a) (\<lambda>ta.
       Inr (case (tb, ta) of (Some x, Some y) \<Rightarrow> VText (x @ y) | _ \<Rightarrow> VNull)))"

section \<open>Comparison\<close>

fun holds_for :: "compare_op \<Rightarrow> ordering \<Rightarrow> bool" where
  "holds_for Op_Eq ord = (ord = Equal)"
| "holds_for Op_Ne ord = (ord \<noteq> Equal)"
| "holds_for Op_Lt ord = (ord = Less)"
| "holds_for Op_Le ord = (ord \<noteq> Greater)"
| "holds_for Op_Gt ord = (ord = Greater)"
| "holds_for Op_Ge ord = (ord \<noteq> Less)"

definition with_affinity :: "u8 \<Rightarrow> sql_value \<Rightarrow> sql_value result" where
  "with_affinity p5 v =
     (if has_flag p5 P5_NULLEQ then Inr v
      else (case p5_to_aff p5 of None \<Rightarrow> Inr v | Some af \<Rightarrow> apply_affinity v af))"

definition compare_values :: "compare_op \<Rightarrow> sql_value \<Rightarrow> sql_value \<Rightarrow> u8 \<Rightarrow> p4 \<Rightarrow> bool option result" where
  "compare_values op left right p5 p4 =
     (if \<not> has_flag p5 P5_NULLEQ \<and> (is_null left \<or> is_null right) then Inr None
      else and_then (with_affinity p5 left) (\<lambda>l. and_then (with_affinity p5 right) (\<lambda>r.
             Inr (Some (holds_for op (mem_compare l r (collation_of p4)))))))"

section \<open>Arithmetic is total and stays clear of NaN\<close>

lemma f64_pack_not_nan: "e \<le> 2047 \<Longrightarrow> \<not> f_is_nan (f64_pack s e 0)"
proof -
  assume "e \<le> 2047"
  then have "(if s then 2 ^ 63 else 0) + e * 2 ^ 52 + 0 < (2 :: nat) ^ 64" by auto
  then have "unat (f64_pack s e 0) = (if s then 2 ^ 63 else 0) + e * 2 ^ 52"
    unfolding f64_pack_def by (subst unat_of_nat_small) simp_all
  then have "f_man (f64_pack s e 0) = 0" unfolding f_man_def by (cases s) (simp_all add: mod_add_eq)
  then show ?thesis by (simp add: f_is_nan_def)
qed

lemma f64_of_ratio_not_nan: "\<not> f_is_nan (f64_of_ratio s num den)"
proof (cases "num = 0")
  case True
  then show ?thesis using f64_pack_not_nan [of 0 s] by (simp add: f64_of_ratio_def)
next
  case False
  obtain bits where b: "f64_of_ratio s num den = of_nat ((if s then 2 ^ 63 else 0) + min bits (2047 * 2 ^ 52))"
    using False by (simp add: f64_of_ratio_def Let_def split_def)
  define m where "m = min bits (2047 * 2 ^ 52)"
  have m: "m \<le> 2047 * 2 ^ 52" by (simp add: m_def)
  have u: "unat (f64_of_ratio s num den) = (if s then 2 ^ 63 else 0) + m"
    unfolding b m_def [symmetric] using m by (subst unat_of_nat_small) auto
  show ?thesis
  proof (cases "m = 2047 * 2 ^ 52")
    case True
    then have "f_man (f64_of_ratio s num den) = 0" using u by (cases s) (simp_all add: f_man_def)
    then show ?thesis by (simp add: f_is_nan_def)
  next
    case False
    then have "m div 2 ^ 52 < 2047" using m by (simp add: less_mult_imp_div_less)
    then have "f_exp (f64_of_ratio s num den) < 2047"
      using u by (cases s) (simp_all add: f_exp_def div_add1_eq)
    then show ?thesis by (simp add: f_is_nan_def)
  qed
qed

lemma f_exp_neg: "f_exp (f64_neg r) = f_exp r"
proof -
  have e: "f_exp x = unat (take_bit 63 x) div 2 ^ 52" for x :: u64
    unfolding f_exp_def div_exp_mod_exp_eq by (subst unsigned_take_bit_eq) (simp add: take_bit_eq_mod)
  have "take_bit 63 (r XOR push_bit 63 1) = take_bit 63 r"
    by (rule bit_eqI) (auto simp: bit_take_bit_iff bit_xor_iff bit_push_bit_iff)
  then show ?thesis by (simp add: e f64_neg_def)
qed

lemma finite_not_special: "f_exp r < 2047 \<Longrightarrow> \<not> f_is_nan r \<and> \<not> f_is_inf r"
  by (auto simp: f_is_nan_def f_is_inf_def)

lemma finite_ops_not_nan:
  assumes "f_exp a < 2047" and "f_exp b < 2047"
  shows "\<not> f_is_nan (f64_add a b)" "\<not> f_is_nan (f64_sub a b)" "\<not> f_is_nan (f64_mul a b)"
    "\<not> f_is_zero b \<Longrightarrow> \<not> f_is_nan (f64_div a b)"
proof -
  have add: "\<not> f_is_nan (f64_add x y)" if "f_exp x < 2047" "f_exp y < 2047" for x y
    using finite_not_special [OF that(1)] finite_not_special [OF that(2)] f64_pack_not_nan [of 0] f64_of_ratio_not_nan
    by (simp add: f64_add_def Let_def)
  show "\<not> f_is_nan (f64_add a b)" using assms by (rule add)
  show "\<not> f_is_nan (f64_sub a b)" unfolding f64_sub_def using assms by (intro add) (simp_all add: f_exp_neg)
  show "\<not> f_is_nan (f64_mul a b)"
    using finite_not_special [OF assms(1)] finite_not_special [OF assms(2)] f64_of_ratio_not_nan
    by (simp add: f64_mul_def Let_def)
  show "\<not> f_is_nan (f64_div a b)" if "\<not> f_is_zero b"
    using finite_not_special [OF assms(1)] finite_not_special [OF assms(2)] f64_of_ratio_not_nan that
    by (simp add: f64_div_def Let_def)
qed

lemma no_nan_real_or_null [simp]: "no_nan (real_or_null r)"
  by (simp add: real_or_null_def)

lemma no_nan_int_or_real: "\<not> f_is_nan r \<Longrightarrow> no_nan (int_or_real k r)"
  by (simp add: int_or_real_def split: option.split)

text \<open>Integer division and remainder of \<open>i64\<close>, away from the overflow the code guards against.\<close>

lemma sdiv_in_range:
  assumes "a \<noteq> 0" and "\<not> (sint a = - 1 \<and> sint b = - (2 ^ 63))"
  shows "in_i64 (sint (b :: i64) sdiv sint (a :: i64))"
proof -
  have r: "- (2 ^ 63) \<le> sint b" "sint b < 2 ^ 63" using sint_range [of b] by simp_all
  have a0: "sint a \<noteq> 0"
  proof
    assume z: "sint a = 0"
    have "a = of_int (sint a)" by simp
    also have "\<dots> = 0" unfolding z by simp
    finally show False using assms(1) by simp
  qed
  have abs_le: "\<bar>sint b\<bar> div \<bar>sint a\<bar> \<le> \<bar>sint b\<bar>" using zdiv_mono2 [of "\<bar>sint b\<bar>" 1 "\<bar>sint a\<bar>"] a0 by simp
  show ?thesis
  proof (cases "\<bar>sint b\<bar> div \<bar>sint a\<bar> < 2 ^ 63")
    case True
    moreover have "0 \<le> \<bar>sint b\<bar> div \<bar>sint a\<bar>" using a0 by (simp add: pos_imp_zdiv_nonneg_iff)
    ultimately show ?thesis by (auto simp: in_i64_def signed_divide_int_def sgn_if)
  next
    case False
    then have b: "sint b = - (2 ^ 63)" using abs_le r by linarith
    have "\<bar>sint a\<bar> = 1"
    proof (rule ccontr)
      assume "\<bar>sint a\<bar> \<noteq> 1"
      then have "2 \<le> \<bar>sint a\<bar>" using a0 by linarith
      then have "\<bar>sint b\<bar> div \<bar>sint a\<bar> \<le> \<bar>sint b\<bar> div 2" by (simp add: zdiv_mono2)
      then show False using False b by simp
    qed
    then have "sint a = 1" using assms(2) b by linarith
    then show ?thesis using b by (simp add: in_i64_def signed_divide_int_def)
  qed
qed

lemma i64_rem_total: "a \<noteq> 0 \<Longrightarrow> \<exists>r. i64_rem b (if sint a = - 1 then 1 else a) = Inr r"
  by (auto simp: i64_rem_def)

lemma f64_of_minus_one: "\<not> f_is_zero (f64_of_i64 (- 1))"
proof -
  have "f_scaled (f64_of_i64 (- 1)) = - 1 * f64_unit" by (subst f64_of_i64_exact) (simp_all add: f64_exact_def)
  moreover have "- 1 * f64_unit \<noteq> 0" by (simp add: f64_unit_def)
  ultimately have "f_scaled (f64_of_i64 (- 1)) \<noteq> 0" by metis
  then show ?thesis by (auto simp: f_is_zero_def f_scaled_def split: if_splits)
qed

section \<open>Shifts\<close>

text \<open>A shift of \<open>x\<close> by \<open>k\<close> places, as arithmetic on unbounded integers: to the right for a negative \<open>k\<close>.\<close>

definition shift_spec :: "i64 \<Rightarrow> int \<Rightarrow> i64" where
  "shift_spec x k = of_int (if 0 \<le> k then sint x * 2 ^ nat k else sint x div 2 ^ nat (- k))"

lemma shift_left_spec: "0 \<le> k \<Longrightarrow> shift_spec x k = (if 64 \<le> k then 0 else push_bit (nat k) x)"
proof -
  assume k: "0 \<le> k"
  have e: "shift_spec x k = x * 2 ^ nat k" using k by (simp add: shift_spec_def)
  show ?thesis
  proof (cases "64 \<le> k")
    case True
    then have "64 \<le> nat k" by simp
    then have "(2 :: i64) ^ nat k = 0" by (simp add: exp_eq_zero_iff)
    then have "x * 2 ^ nat k = 0" by (simp only: mult_zero_right)
    then show ?thesis using e True by simp
  next
    case False
    then show ?thesis using e by (simp add: push_bit_eq_mult)
  qed
qed

lemma shift_right_big: "64 \<le> n \<Longrightarrow> sint (x :: i64) div 2 ^ n = (if 0 \<le> sint x then 0 else - 1)"
proof -
  assume "64 \<le> n"
  then have "(2 :: int) ^ 64 \<le> 2 ^ n" by (rule power_increasing) simp
  then have b: "(2 :: int) ^ 63 < 2 ^ n" by simp
  show ?thesis
  proof (cases "0 \<le> sint x")
    case True
    then show ?thesis using sint_range [of x] b by (simp add: div_pos_pos_trivial)
  next
    case False
    then have "- (2 ^ n) \<le> sint x" "sint x < 0" using sint_range [of x] b by linarith+
    then have "sint x div 2 ^ n = - 1" by (intro int_div_pos_eq [of _ _ "- 1" "sint x + 2 ^ n"]) simp_all
    then show ?thesis using False by simp
  qed
qed

lemma arith_shift_right:
  "n < 64 \<Longrightarrow> of_int (sint (x :: i64) div 2 ^ n)
     = (if sint x < 0 then drop_bit n x OR push_bit (64 - n) (- 1) else drop_bit n x)"
proof -
  assume n: "n < 64"
  have "of_int (sint x div 2 ^ n) = (of_int (sint (signed_drop_bit n x)) :: i64)"
    by (simp add: sint_signed_drop_bit_eq drop_bit_eq_div)
  then have s: "of_int (sint x div 2 ^ n) = signed_drop_bit n x" by simp
  have sign: "sint x < 0 \<longleftrightarrow> bit x 63" using bit_last_iff [of x] by simp
  show ?thesis
    unfolding s sign
  proof (rule bit_eqI)
    fix m
    assume "possible_bit TYPE(64 word) m"
    then have m: "m < 64" by simp
    have big: "\<not> bit x k" if "64 \<le> k" for k using that bit_imp_le_length [of x k] by auto
    show "bit (signed_drop_bit n x) m
        \<longleftrightarrow> bit (if bit x 63 then drop_bit n x OR push_bit (64 - n) (- 1) else drop_bit n x) m"
    proof (cases "64 - n \<le> m")
      case True
      then show ?thesis using n m big [of "n + m"]
        by (simp add: bit_signed_drop_bit_iff bit_or_iff bit_drop_bit_eq bit_push_bit_iff bit_minus_1_iff bit_not_iff bit_mask_iff)
    next
      case False
      then show ?thesis using n m
        by (simp add: bit_signed_drop_bit_iff bit_or_iff bit_drop_bit_eq bit_push_bit_iff bit_not_iff bit_mask_iff)
    qed
  qed
qed

lemma shift_right_spec:
  "0 \<le> k \<Longrightarrow> shift_spec x (- k) = (if 64 \<le> k then (if 0 \<le> sint x then 0 else - 1)
     else if sint x < 0 then drop_bit (nat k) x OR push_bit (64 - nat k) (- 1) else drop_bit (nat k) x)"
proof -
  assume k: "0 \<le> k"
  have e: "shift_spec x (- k) = of_int (sint x div 2 ^ nat k)"
    using k by (cases "k = 0") (simp_all add: shift_spec_def)
  show ?thesis
  proof (cases "64 \<le> k")
    case True
    then show ?thesis using e shift_right_big [of "nat k" x] by simp
  next
    case False
    then have "nat k < 64" by simp
    then show ?thesis using e False arith_shift_right [of "nat k" x] by simp
  qed
qed

lemma shift_value_spec:
  "shift_value Op_ShiftLeft x n = shift_spec x (sint n)" "shift_value Op_ShiftRight x n = shift_spec x (- sint n)"
proof -
  let ?m = "if - 64 < sint n then - sint n else 64"
  have clampr: "shift_spec x (sint n) = shift_spec x (- ?m)" if "sint n < 0"
    using that shift_right_spec [of "- sint n" x] shift_right_spec [of 64 x] by auto
  have clampl: "shift_spec x (- sint n) = shift_spec x ?m" if "sint n < 0"
    using that shift_left_spec [of "- sint n" x] shift_left_spec [of 64 x] by auto
  show "shift_value Op_ShiftLeft x n = shift_spec x (sint n)"
  proof (cases "sint n < 0")
    case True
    then have m: "0 \<le> ?m" by simp
    show ?thesis unfolding clampr [OF True] shift_right_spec [OF m] using True by (simp add: shift_value_def Let_def)
  next
    case False
    then show ?thesis using shift_left_spec [of "sint n" x] by (simp add: shift_value_def Let_def)
  qed
  show "shift_value Op_ShiftRight x n = shift_spec x (- sint n)"
  proof (cases "sint n < 0")
    case True
    then have m: "0 \<le> ?m" by simp
    show ?thesis unfolding clampl [OF True] shift_left_spec [OF m] using True by (simp add: shift_value_def Let_def)
  next
    case False
    then show ?thesis using shift_right_spec [of "sint n" x] by (simp add: shift_value_def Let_def)
  qed
qed

section \<open>Properties\<close>

text \<open>
  Arithmetic never fails and never yields a NaN: for \<open>+\<close>, \<open>-\<close>, \<open>*\<close>, \<open>/\<close> and \<open>%\<close> and any two operands
  of any storage class the result is a value, and a REAL result is a number or an infinity. In
  particular dividing by zero, dividing the least integer by -1 and overflowing products do not panic.
\<close>

theorem arith_total:
  assumes "op \<in> {Op_Add, Op_Subtract, Op_Multiply, Op_Divide, Op_Remainder}"
  shows "\<exists>v. arith op b a = Inr v \<and> no_nan v"
proof -
  have ints: "\<exists>v. arith_int op ib ia = Inr v \<and> no_nan v" for ib ia
  proof -
    note fin = finite_ops_not_nan [OF f64_of_i64_finite [of ib] f64_of_i64_finite [of ia]]
    have "ia = of_int (sint ia)" by simp
    then have m: "ia = - 1" if "sint ia = - 1" using that by simp
    have d: "\<exists>q. i64_div ib ia = Inr q" if "ia \<noteq> 0" "\<not> (sint ia = - 1 \<and> sint ib = - (2 ^ 63))"
      using sdiv_in_range [OF that] that(1) by (simp add: i64_div_def checked_i64_simps)
    consider "op = Op_Add" | "op = Op_Subtract" | "op = Op_Multiply" | "op = Op_Divide" | "op = Op_Remainder"
      using assms by blast
    then show ?thesis
    proof cases
      case 4
      show ?thesis
      proof (cases "ia = 0 \<or> sint ia = - 1 \<and> sint ib = - (2 ^ 63)")
        case True
        then show ?thesis using 4 m fin(4) f64_of_minus_one by (auto simp: arith_int_def Let_def)
      next
        case False
        then obtain q where "i64_div ib ia = Inr q" using d by blast
        then show ?thesis using 4 False by (auto simp: arith_int_def Let_def)
      qed
    next
      case 5
      show ?thesis
      proof (cases "ia = 0")
        case False
        then obtain r where "i64_rem ib (if sint ia = - 1 then 1 else ia) = Inr r" using i64_rem_total by blast
        then show ?thesis using 5 False by (simp only: arith_int_def Let_def) simp
      qed (simp add: arith_int_def 5)
    qed (simp_all add: arith_int_def Let_def no_nan_int_or_real fin(1-3))
  qed
  have reals: "\<exists>v. arith_real op rb ra = Inr v \<and> no_nan v" for rb ra
    using assms i64_rem_total [of "f64_to_i64 ra" "f64_to_i64 rb"] by (fastforce simp: arith_real_def Let_def)
  show ?thesis
    unfolding arith_def using ints reals by (auto split: option.split num_value.split)
qed

theorem arith_total_witness:
  "\<exists>v. arith Op_Divide (VInt (- 0x8000000000000000)) (VInt (- 1)) = Inr v \<and> no_nan v"
  by (rule arith_total) simp

text \<open>
  The shift operators compute the arithmetic shift: \<open>x << n\<close> is the product \<open>x * 2 ^ n\<close> modulo
  \<open>2 ^ 64\<close> and \<open>x >> n\<close> the quotient rounded down, a negative count shifts the other way, and a count
  of 64 or more (or of -64 or less) gives what the formula gives, for every pair of integers.
\<close>

theorem shifts_are_arithmetic:
  "bitwise Op_ShiftLeft (VInt x) (VInt n) = Inr (VInt (shift_spec x (sint n)))
   \<and> bitwise Op_ShiftRight (VInt x) (VInt n) = Inr (VInt (shift_spec x (- sint n)))"
proof -
  have "shift_spec x 0 = x" by (simp add: shift_spec_def)
  then show ?thesis by (auto simp: bitwise_def Let_def shift_value_spec is_null_def)
qed

end
