(* ===== verification/Ephemeral.thy ===== *)
theory Ephemeral
  imports Vdbe_Expr
begin

text \<open>
  Ephemeral tables and indexes (\<open>vdbe/ephemeral.rs\<close>). The shared \<open>Rc<RefCell<EphemeralData>>\<close> is a
  cell of a store, named by its address, so that the cursors \<open>dup\<close> makes see the records each other
  writes; the position and the decoded row belong to the cursor. An operation runs on a cursor beside
  the cell it points to.
\<close>

datatype ephemeral_kind = Eph_Table | Eph_Index

record ephemeral_data =
  ed_records :: "bytes list"
  ed_next_rowid :: i64
  ed_encoding :: text_encoding
  ed_kind :: ephemeral_kind

record ephemeral =
  eph_data :: nat
  eph_pos :: nat
  eph_current :: "sql_value list option"

type_synonym eph_state = "ephemeral \<times> ephemeral_data"

section \<open>Opening\<close>

definition eph_cursor :: "nat \<Rightarrow> ephemeral" where
  "eph_cursor addr = \<lparr>eph_data = addr, eph_pos = 0, eph_current = None\<rparr>"

definition eph_cell :: "ephemeral_kind \<Rightarrow> text_encoding \<Rightarrow> ephemeral_data" where
  "eph_cell kind e = \<lparr>ed_records = [], ed_next_rowid = 1, ed_encoding = e, ed_kind = kind\<rparr>"

definition eph_new :: "text_encoding \<Rightarrow> ephemeral_data list \<Rightarrow> ephemeral_data list \<times> ephemeral" where
  "eph_new e store = (store @ [eph_cell Eph_Table e], eph_cursor (length store))"

definition eph_new_index :: "text_encoding \<Rightarrow> ephemeral_data list \<Rightarrow> ephemeral_data list \<times> ephemeral" where
  "eph_new_index e store = (store @ [eph_cell Eph_Index e], eph_cursor (length store))"

definition eph_dup :: "ephemeral \<Rightarrow> ephemeral" where
  "eph_dup e = eph_cursor (eph_data e)"

section \<open>Writing\<close>

definition eph_next_rowid :: "(eph_state, i64) op" where
  "eph_next_rowid s =
     (case s of (e, d) \<Rightarrow>
        (case i64_add (ed_next_rowid d) 1 of
           Inl f \<Rightarrow> (s, Inl f)
         | Inr n \<Rightarrow> ((e, d\<lparr>ed_next_rowid := n\<rparr>), Inr (ed_next_rowid d))))"

definition eph_insert :: "bytes \<Rightarrow> eph_state \<Rightarrow> eph_state" where
  "eph_insert rec s = (case s of (e, d) \<Rightarrow> (e, d\<lparr>ed_records := ed_records d @ [rec]\<rparr>))"

definition find_record :: "bytes \<Rightarrow> ephemeral_data \<Rightarrow> bool" where
  "find_record needle d \<longleftrightarrow> list_ex (\<lambda>rec. rec = needle) (ed_records d)"

definition eph_idx_insert :: "bytes \<Rightarrow> eph_state \<Rightarrow> eph_state \<times> bool" where
  "eph_idx_insert rec s =
     (if find_record rec (snd s) then (s, False) else (eph_insert rec s, True))"

definition find_values :: "sql_value list \<Rightarrow> ephemeral_data \<Rightarrow> bool" where
  "find_values values d = find_record (encode_record values) d"

definition eph_delete_current :: "eph_state \<Rightarrow> eph_state" where
  "eph_delete_current s =
     (case s of (e, d) \<Rightarrow>
        if eph_pos e < length (ed_records d)
        then (e\<lparr>eph_current := None\<rparr>,
              d\<lparr>ed_records := take (eph_pos e) (ed_records d) @ drop (eph_pos e + 1) (ed_records d)\<rparr>)
        else s)"

definition eph_clear :: "eph_state \<Rightarrow> eph_state" where
  "eph_clear s =
     (case s of (e, d) \<Rightarrow> (e\<lparr>eph_pos := 0, eph_current := None\<rparr>, d\<lparr>ed_records := [], ed_next_rowid := 1\<rparr>))"

section \<open>Reading\<close>

definition eph_rewind :: "eph_state \<Rightarrow> eph_state \<times> bool" where
  "eph_rewind s = (case s of (e, d) \<Rightarrow> ((e\<lparr>eph_pos := 0, eph_current := None\<rparr>, d), ed_records d \<noteq> []))"

definition eph_is_valid :: "eph_state \<Rightarrow> bool" where
  "eph_is_valid s \<longleftrightarrow> eph_pos (fst s) < length (ed_records (snd s))"

definition eph_next :: "eph_state \<Rightarrow> eph_state" where
  "eph_next s = (case s of (e, d) \<Rightarrow> (e\<lparr>eph_pos := eph_pos e + 1, eph_current := None\<rparr>, d))"

definition eph_load :: "(eph_state, unit) op" where
  "eph_load s =
     (case s of (e, d) \<Rightarrow>
        (case get_opt (ed_records d) (eph_pos e) of
           None \<Rightarrow> (s, Inr ())
         | Some rec \<Rightarrow> (case decode_record rec (ed_encoding d) of
               Inl f \<Rightarrow> (s, Inl f)
             | Inr vals \<Rightarrow> ((e\<lparr>eph_current := Some vals\<rparr>, d), Inr ()))))"

definition eph_column :: "nat \<Rightarrow> ephemeral \<Rightarrow> sql_value" where
  "eph_column i e = (case eph_current e of None \<Rightarrow> VNull | Some vals \<Rightarrow> field vals i)"

definition record_at :: "nat \<Rightarrow> ephemeral_data \<Rightarrow> bytes option" where
  "record_at pos d = get_opt (ed_records d) pos"

definition eph_seek_rowid :: "i64 \<Rightarrow> (eph_state, bool) op" where
  "eph_seek_rowid rowid s =
     (case s of (e, d) \<Rightarrow>
        (case i64_sub rowid 1 of
           Inl f \<Rightarrow> (s, Inl f)
         | Inr r \<Rightarrow> if unat r < length (ed_records d)
                    then ((e\<lparr>eph_pos := unat r, eph_current := None\<rparr>, d), Inr True) else (s, Inr False)))"

definition eph_rowid :: "ephemeral \<Rightarrow> i64" where
  "eph_rowid e = of_nat (eph_pos e + 1)"

section \<open>Deduplication\<close>

text \<open>What a dedup index holds after a sequence of insertions: each record once, in the order of its
  first insertion.\<close>

definition idx_insert_all :: "bytes list \<Rightarrow> eph_state \<Rightarrow> eph_state" where
  "idx_insert_all recs s = fold (\<lambda>rec s. fst (eph_idx_insert rec s)) recs s"

lemma idx_insert_records:
  "ed_records (snd (fst (eph_idx_insert rec s)))
     = (if rec \<in> set (ed_records (snd s)) then ed_records (snd s) else ed_records (snd s) @ [rec])"
  by (cases s) (auto simp: eph_idx_insert_def eph_insert_def find_record_def list_ex_iff)

lemma idx_insert_all_records:
  "distinct (ed_records (snd s)) \<Longrightarrow>
   distinct (ed_records (snd (idx_insert_all recs s)))
   \<and> set (ed_records (snd (idx_insert_all recs s))) = set (ed_records (snd s)) \<union> set recs"
proof (induction recs arbitrary: s)
  case Nil
  then show ?case by (simp add: idx_insert_all_def)
next
  case (Cons r recs)
  let ?s = "fst (eph_idx_insert r s)"
  have d: "distinct (ed_records (snd ?s))" using Cons.prems by (simp add: idx_insert_records)
  have "set (ed_records (snd ?s)) = insert r (set (ed_records (snd s)))"
    by (auto simp: idx_insert_records)
  then show ?case using Cons.IH [OF d] by (simp add: idx_insert_all_def)
qed

definition encodable :: "sql_value list \<Rightarrow> bool" where
  "encodable vs \<longleftrightarrow> list_all wf_value vs \<and> length (encode_record vs) < 2 ^ 62"

lemma encode_inj:
  assumes "encodable vs" and "encodable ws" and "encode_record vs = encode_record ws"
  shows "vs = ws"
proof -
  have "decode_record (encode_record vs) Utf8 = Inr vs"
    using assms(1) by (intro record_roundtrip) (simp_all add: encodable_def list_all_iff)
  moreover have "decode_record (encode_record ws) Utf8 = Inr ws"
    using assms(2) by (intro record_roundtrip) (simp_all add: encodable_def list_all_iff)
  ultimately show ?thesis unfolding assms(3) by (metis sum.inject(2))
qed

section \<open>Properties\<close>

text \<open>
  C35. The dedup index of DISTINCT is a set: after inserting the records of any rows, each distinct
  record is stored once, and the probe finds a row exactly when an identical row was inserted.
\<close>

theorem dedup_index_is_set:
  assumes "list_all encodable rows" and "encodable vs"
  shows "distinct (ed_records (snd (idx_insert_all (map encode_record rows) (eph_cursor a, eph_cell Eph_Index e))))
    \<and> (find_values vs (snd (idx_insert_all (map encode_record rows) (eph_cursor a, eph_cell Eph_Index e))) \<longleftrightarrow> vs \<in> set rows)"
proof -
  let ?d = "snd (idx_insert_all (map encode_record rows) (eph_cursor a, eph_cell Eph_Index e))"
  have r: "distinct (ed_records ?d)" "set (ed_records ?d) = encode_record ` set rows"
    using idx_insert_all_records [of "(eph_cursor a, eph_cell Eph_Index e)" "map encode_record rows"]
    by (simp_all add: eph_cell_def)
  have "find_values vs ?d \<longleftrightarrow> encode_record vs \<in> encode_record ` set rows"
    using r(2) by (auto simp: find_values_def find_record_def list_ex_iff)
  also have "\<dots> \<longleftrightarrow> vs \<in> set rows" using assms encode_inj by (auto simp: list_all_iff)
  finally show ?thesis using r(1) by blast
qed

theorem dedup_index_is_set_witness:
  "find_values [VInt 7] (snd (idx_insert_all (map encode_record [[VInt 7], [VNull]]) (eph_cursor 0, eph_cell Eph_Index Utf8)))"
proof -
  have "length (encode_record [VInt 7]) = 3" "length (encode_record [VNull]) = 2" by code_simp+
  then have "encodable [VInt 7]" "encodable [VNull]" by (simp_all add: encodable_def)
  then show ?thesis using dedup_index_is_set [of "[[VInt 7], [VNull]]" "[VInt 7]" 0 Utf8] by simp
qed

text \<open>The real number of an integer of at most 53 bits compares equal to it, under every collation.\<close>

lemma mem_compare_exact_real:
  assumes "\<bar>sint i\<bar> < 2 ^ 53"
  shows "mem_compare (VInt i) (VReal (f64_of_i64 i)) coll = Equal"
proof -
  have "nat \<bar>sint i\<bar> < 2 ^ 53" using assms by (simp add: nat_less_iff)
  then have "f_scaled (f64_of_i64 i) = sint i * f64_unit"
    by (intro f64_of_i64_exact) (simp add: f64_exact_def)
  moreover have "\<not> f_is_nan (f64_of_i64 i)" using f64_of_i64_finite [of i] by (simp add: f_is_nan_def)
  ultimately show ?thesis using mem_compare_cmp [of "VInt i" "VReal (f64_of_i64 i)" coll] by simp
qed

text \<open>
  C36. The dedup index takes numerically equal values of different storage classes for different: for
  every integer of at most 53 bits in any column of a row, the row that has the equal real number in
  its place is not found by the probe, whatever rows were inserted besides, unless that very row was;
  inserting it reports a new row, and the index then holds both. So DISTINCT keeps two rows whose
  columns all compare equal.
\<close>

theorem dedup_misses_equal_numbers:
  assumes "list_all encodable rows" and "encodable (before @ VReal (f64_of_i64 i) # after)"
    and "\<bar>sint i\<bar> < 2 ^ 53"
    and "before @ VInt i # after \<in> set rows" and "before @ VReal (f64_of_i64 i) # after \<notin> set rows"
  shows "let int_rec = encode_record (before @ VInt i # after);
             real_rec = encode_record (before @ VReal (f64_of_i64 i) # after);
             s = idx_insert_all (map encode_record rows) (eph_cursor a, eph_cell Eph_Index e);
             (s', added) = eph_idx_insert real_rec s
    in mem_compare (VInt i) (VReal (f64_of_i64 i)) coll = Equal
       \<and> \<not> find_values (before @ VReal (f64_of_i64 i) # after) (snd s) \<and> added
       \<and> int_rec \<noteq> real_rec \<and> {int_rec, real_rec} \<subseteq> set (ed_records (snd s'))"
proof -
  let ?real = "before @ VReal (f64_of_i64 i) # after"
  let ?s = "idx_insert_all (map encode_record rows) (eph_cursor a, eph_cell Eph_Index e)"
  have recs: "set (ed_records (snd ?s)) = encode_record ` set rows"
    using idx_insert_all_records [of "(eph_cursor a, eph_cell Eph_Index e)" "map encode_record rows"]
    by (simp add: eph_cell_def)
  have new: "encode_record ?real \<notin> encode_record ` set rows"
    using assms(1,2,5) encode_inj by (auto simp: list_all_iff)
  have "\<not> find_record (encode_record ?real) (snd ?s)"
    using new by (auto simp: find_record_def list_ex_iff recs)
  then have "\<not> find_values ?real (snd ?s)" "snd (eph_idx_insert (encode_record ?real) ?s)"
    by (simp_all add: find_values_def eph_idx_insert_def)
  moreover have "set (ed_records (snd (fst (eph_idx_insert (encode_record ?real) ?s))))
      = insert (encode_record ?real) (encode_record ` set rows)"
    by (auto simp: idx_insert_records recs)
  moreover have "encode_record (before @ VInt i # after) \<in> encode_record ` set rows"
    using assms(4) by (rule imageI)
  ultimately show ?thesis using mem_compare_exact_real [OF assms(3), of coll] new
    unfolding Let_def case_prod_beta by (metis empty_subsetI insert_subset insertCI)
qed

lemma f64_of_one: "f64_of_i64 1 = 0x3ff0000000000000"
proof -
  have "bit_length 1 = 1" using bit_length.simps [of 1] bit_length.simps [of 0] by simp
  then show ?thesis by (simp add: f64_of_i64_def f64_of_nat_def f64_pack_def)
qed

theorem dedup_misses_equal_numbers_witness:
  "mem_compare (VInt 1) (VReal 0x3ff0000000000000) Binary = Equal
   \<and> \<not> find_values [VNull, VReal 0x3ff0000000000000]
        (snd (idx_insert_all (map encode_record [[VNull], [VNull, VInt 1]]) (eph_cursor 0, eph_cell Eph_Index Utf8)))"
proof -
  have "length (encode_record [VNull, VReal 0x3ff0000000000000]) = 11"
    "length (encode_record [VNull, VInt 1]) = 3" "length (encode_record [VNull]) = 2"
    by code_simp+
  then have "encodable [VNull, VReal 0x3ff0000000000000]" "encodable [VNull, VInt 1]"
      "encodable [VNull]"
    by (simp_all add: encodable_def)
  then show ?thesis
    using dedup_misses_equal_numbers [of "[[VNull], [VNull, VInt 1]]" "[VNull]" 1 "[]" 0 Utf8 Binary]
    by (simp add: f64_of_one Let_def case_prod_beta)
qed

end
