(* ===== verification/Index_Cursor.thy ===== *)
theory Index_Cursor
  imports Btree_Delete Sorter Numeric
begin

text \<open>
  Reading an index b-tree: the full scan (\<open>btree/index.rs\<close>) and the cursor with \<open>rewind\<close>, \<open>next\<close> and
  \<open>seek\<close> (\<open>btree/index_cursor.rs\<close>). As for table b-trees, the state of a cursor operation is the cursor
  beside the pager, the stack has its top first, and walks along page pointers take a bound on their
  turns. Saturating subtraction is subtraction of natural numbers.
\<close>

section \<open>Keys\<close>

definition p_text_encoding :: "pager \<Rightarrow> text_encoding" where
  "p_text_encoding p = text_encoding (p_header p)"

definition key_record_rowid :: "pager \<Rightarrow> bytes \<Rightarrow> i64 result" where
  "key_record_rowid p key_record =
     and_then (decode_record key_record (p_text_encoding p)) (\<lambda>values.
       if values = [] then Inl (corrupt ''index key record has no rowid field'') else Inr (as_i64 (last values)))"

definition coll_at :: "key_field list \<Rightarrow> nat \<Rightarrow> collation" where
  "coll_at key_info i = (case get_opt key_info i of None \<Rightarrow> Binary | Some f \<Rightarrow> key_collation f)"

fun compare_fields :: "key_field list \<Rightarrow> nat \<Rightarrow> sql_value list \<Rightarrow> sql_value list \<Rightarrow> ordering" where
  "compare_fields key_info i (a # as) (b # bs) =
     (case mem_compare a b (coll_at key_info i) of Equal \<Rightarrow> compare_fields key_info (Suc i) as bs | ord \<Rightarrow> ord)"
| "compare_fields key_info i _ _ = Equal"

definition compare_prefix :: "sql_value list \<Rightarrow> sql_value list \<Rightarrow> key_field list \<Rightarrow> ordering" where
  "compare_prefix prefix key key_info =
     (case compare_fields key_info 0 prefix key of Equal \<Rightarrow> cmp (length prefix) (length key) | ord \<Rightarrow> ord)"

section \<open>Scanning\<close>

definition index_leaf_cell_at :: "bytes \<Rightarrow> page_header \<Rightarrow> nat \<Rightarrow> nat \<Rightarrow> index_leaf_cell result" where
  "index_leaf_cell_at page hdr usable i =
     and_then (cell_pointer hdr page i) (\<lambda>off. parse_index_leaf_cell page off usable)"

definition index_interior_cell_at :: "bytes \<Rightarrow> page_header \<Rightarrow> nat \<Rightarrow> nat \<Rightarrow> index_interior_cell result" where
  "index_interior_cell_at page hdr usable i =
     and_then (cell_pointer hdr page i) (\<lambda>off. parse_index_interior_cell page off usable)"

definition index_entry :: "(pager, bytes) op \<Rightarrow> (pager, bytes \<times> i64) op" where
  "index_entry assembled =
     bind_op assembled (\<lambda>key. bind_op (\<lambda>p. (p, key_record_rowid p key)) (\<lambda>rowid. ret_op (key, rowid)))"

fun index_visit :: "nat \<Rightarrow> u32 \<Rightarrow> (pager, (bytes \<times> i64) list) op" where
  "index_visit 0 pgno = fail_op Panic"
| "index_visit (Suc d) pgno =
     bind_op (read_node pgno) (\<lambda>(page, hdr).
     bind_op (get_op p_usable_size) (\<lambda>usable.
       case ph_page_type hdr of
         LeafIndex \<Rightarrow>
           map_op (\<lambda>i. bind_op (lift_op (index_leaf_cell_at page hdr usable i)) (\<lambda>cell.
             index_entry (assemble_index_payload cell))) [0..<n_cells hdr]
       | InteriorIndex \<Rightarrow>
           bind_op (map_op (\<lambda>i. bind_op (lift_op (index_interior_cell_at page hdr usable i)) (\<lambda>cell.
               bind_op (index_visit d (ii_left_child cell)) (\<lambda>below.
               bind_op (index_entry (assemble_index_interior_payload cell)) (\<lambda>entry. ret_op (below @ [entry])))))
             [0..<n_cells hdr]) (\<lambda>parts.
           (case ph_right_most_pointer hdr of
              None \<Rightarrow> ret_op (concat parts)
            | Some right \<Rightarrow> bind_op (index_visit d right) (\<lambda>rest. ret_op (concat parts @ rest))))
       | _ \<Rightarrow> fail_op (corrupt ''expected an index b-tree page during scan'')))"

definition scan_index :: "nat \<Rightarrow> u32 \<Rightarrow> (pager, (bytes \<times> i64) list) op" where
  "scan_index d root = index_visit d root"

section \<open>The cursor\<close>

datatype seek_op = Seek_Ge | Seek_Gt | Seek_Le | Seek_Lt

record index_cursor =
  ic_root :: u32
  ic_usable :: nat
  ic_key_info :: "key_field list"
  ic_stack :: "(bytes \<times> page_header \<times> nat) list"
  ic_leaf :: "bytes option"
  ic_leaf_hdr :: "page_header option"
  ic_leaf_pgno :: u32
  ic_cell_idx :: nat
  ic_at_end :: bool
  ic_pending_advance :: bool
  ic_current_payload :: "bytes option"

type_synonym index_state = "index_cursor \<times> pager"

definition index_cursor_new :: "pager \<Rightarrow> u32 \<Rightarrow> key_field list \<Rightarrow> index_cursor" where
  "index_cursor_new p root key_info =
     \<lparr>ic_root = root, ic_usable = p_usable_size p, ic_key_info = key_info, ic_stack = [], ic_leaf = None,
      ic_leaf_hdr = None, ic_leaf_pgno = 0, ic_cell_idx = 0, ic_at_end = True, ic_pending_advance = False,
      ic_current_payload = None\<rparr>"

definition index_leaf_cells :: "index_cursor \<Rightarrow> nat" where
  "index_leaf_cells c = (case ic_leaf_hdr c of None \<Rightarrow> 0 | Some hdr \<Rightarrow> n_cells hdr)"

definition index_is_valid :: "index_cursor \<Rightarrow> bool" where
  "index_is_valid c \<longleftrightarrow> \<not> ic_at_end c \<and> ic_leaf c \<noteq> None \<and> ic_cell_idx c < index_leaf_cells c"

definition via_index_pager :: "(pager, 'a) op \<Rightarrow> (index_state, 'a) op" where
  "via_index_pager m s = (case m (snd s) of (p, r) \<Rightarrow> ((fst s, p), r))"

definition set_index_cursor :: "(index_cursor \<Rightarrow> index_cursor) \<Rightarrow> (index_state, unit) op" where
  "set_index_cursor f = modify_op (\<lambda>(c, p). (f c, p))"

text \<open>The cached payload of the current entry, read again after every move.\<close>

definition refresh_payload :: "(index_state, unit) op" where
  "refresh_payload s =
     (let c = fst s in
      if \<not> index_is_valid c then ((c\<lparr>ic_current_payload := None\<rparr>, snd s), Inr ())
      else (case (ic_leaf c, ic_leaf_hdr c) of
              (Some leaf, Some hdr) \<Rightarrow>
                bind_op (lift_op (index_leaf_cell_at leaf hdr (ic_usable c) (ic_cell_idx c))) (\<lambda>cell.
                bind_op (via_index_pager (assemble_index_payload cell)) (\<lambda>payload.
                  set_index_cursor (\<lambda>c. c\<lparr>ic_current_payload := Some payload\<rparr>))) s
            | _ \<Rightarrow> (s, Inl Panic)))"

definition index_interior_child :: "page_header \<Rightarrow> bytes \<Rightarrow> nat \<Rightarrow> nat \<Rightarrow> u32 option result" where
  "index_interior_child hdr page k usable =
     (if k < n_cells hdr then and_then (index_interior_cell_at page hdr usable k) (\<lambda>cell. Inr (Some (ii_left_child cell)))
      else if k = n_cells hdr then Inr (ph_right_most_pointer hdr)
      else Inr None)"

definition on_index_leaf :: "u32 \<Rightarrow> bytes \<Rightarrow> page_header \<Rightarrow> index_cursor \<Rightarrow> index_cursor" where
  "on_index_leaf pgno page hdr c =
     c\<lparr>ic_leaf_pgno := pgno, ic_leaf := Some page, ic_leaf_hdr := Some hdr, ic_cell_idx := 0,
       ic_pending_advance := False\<rparr>"

fun index_descend_left :: "nat \<Rightarrow> u32 \<Rightarrow> (index_state, unit) op" where
  "index_descend_left 0 pgno = fail_op Panic"
| "index_descend_left (Suc d) pgno =
     bind_op (via_index_pager (read_node pgno)) (\<lambda>(page, hdr).
       case ph_page_type hdr of
         LeafIndex \<Rightarrow> set_index_cursor (on_index_leaf pgno page hdr)
       | InteriorIndex \<Rightarrow>
           bind_op (get_op (\<lambda>s. ic_usable (fst s))) (\<lambda>usable.
           bind_op (lift_op (and_then (index_interior_child hdr page 0 usable)
                      (ok_or (corrupt ''interior index page with no children'')))) (\<lambda>first.
             then_op (set_index_cursor (\<lambda>c. c\<lparr>ic_stack := (page, hdr, 1) # ic_stack c\<rparr>)) (index_descend_left d first)))
       | _ \<Rightarrow> fail_op (corrupt ''expected an index b-tree page during scan''))"

fun index_advance :: "nat \<Rightarrow> (index_state, unit) op" where
  "index_advance 0 = fail_op Panic"
| "index_advance (Suc d) =
     bind_op (get_op (\<lambda>s. (ic_stack (fst s), ic_usable (fst s)))) (\<lambda>(stack, usable).
       case stack of
         [] \<Rightarrow> set_index_cursor (\<lambda>c. c\<lparr>ic_at_end := True, ic_leaf := None, ic_leaf_hdr := None\<rparr>)
       | (page, hdr, next_k) # below \<Rightarrow>
           bind_op (lift_op (index_interior_child hdr page next_k usable)) (\<lambda>next_child.
             case next_child of
               None \<Rightarrow> then_op (set_index_cursor (\<lambda>c. c\<lparr>ic_stack := below\<rparr>)) (index_advance d)
             | Some child \<Rightarrow>
                 then_op (set_index_cursor (\<lambda>c. c\<lparr>ic_stack := (page, hdr, next_k + 1) # below\<rparr>))
                   (then_op (index_descend_left d child)
                     (bind_op (get_op (\<lambda>s. index_leaf_cells (fst s))) (\<lambda>n.
                       if 0 < n then ret_op () else index_advance d)))))"

definition reset_index_cursor :: "index_cursor \<Rightarrow> index_cursor" where
  "reset_index_cursor c =
     c\<lparr>ic_stack := [], ic_leaf := None, ic_leaf_hdr := None, ic_leaf_pgno := 0, ic_cell_idx := 0,
       ic_at_end := False, ic_pending_advance := False, ic_current_payload := None\<rparr>"

definition index_rewind :: "nat \<Rightarrow> (index_state, unit) op" where
  "index_rewind d =
     then_op (set_index_cursor reset_index_cursor)
       (bind_op (get_op (\<lambda>s. ic_root (fst s))) (\<lambda>root.
         then_op (index_descend_left d root)
           (then_op (bind_op (get_op (\<lambda>s. index_leaf_cells (fst s))) (\<lambda>n.
               if n = 0 then index_advance d else ret_op ()))
             refresh_payload)))"

definition index_step_cell :: "index_cursor \<Rightarrow> index_cursor" where
  "index_step_cell c =
     (if ic_pending_advance c then c\<lparr>ic_pending_advance := False\<rparr> else c\<lparr>ic_cell_idx := ic_cell_idx c + 1\<rparr>)"

definition index_next :: "nat \<Rightarrow> (index_state, unit) op" where
  "index_next d s =
     (if ic_at_end (fst s) then (s, Inr ())
      else then_op (set_index_cursor index_step_cell)
        (\<lambda>s1. if ic_cell_idx (fst s1) < index_leaf_cells (fst s1) then refresh_payload s1
              else then_op (index_advance d) refresh_payload s1) s)"

definition index_rowid :: "index_state \<Rightarrow> i64 result" where
  "index_rowid s =
     (case ic_current_payload (fst s) of
        None \<Rightarrow> Inl (error_msg ''index cursor is not positioned on an entry'')
      | Some payload \<Rightarrow> key_record_rowid (snd s) payload)"

definition index_payload :: "index_cursor \<Rightarrow> bytes" where
  "index_payload c = (case ic_current_payload c of None \<Rightarrow> [] | Some payload \<Rightarrow> payload)"

definition mark_deleted :: "index_cursor \<Rightarrow> index_cursor" where
  "mark_deleted c = c\<lparr>ic_pending_advance := True\<rparr>"

section \<open>Seeking\<close>

text \<open>The comparison of an entry with the key, and whether the search goes on to its right.\<close>

definition entry_prefix :: "sql_value list \<Rightarrow> sql_value list \<Rightarrow> sql_value list" where
  "entry_prefix values key = take (min (length values - 1) (length key)) values"

definition seek_right :: "seek_op \<Rightarrow> ordering \<Rightarrow> bool" where
  "seek_right op ord =
     (case op of
        Seek_Ge \<Rightarrow> ord = Less
      | Seek_Gt \<Rightarrow> ord = Less \<or> ord = Equal
      | Seek_Le \<Rightarrow> ord \<noteq> Greater
      | Seek_Lt \<Rightarrow> ord = Greater)"

definition leaf_entry_values :: "bytes \<Rightarrow> page_header \<Rightarrow> nat \<Rightarrow> nat \<Rightarrow> (pager, sql_value list) op" where
  "leaf_entry_values leaf hdr usable i =
     bind_op (lift_op (index_leaf_cell_at leaf hdr usable i)) (\<lambda>cell.
     bind_op (assemble_index_payload cell) (\<lambda>payload p. (p, decode_record payload (p_text_encoding p))))"

function search_index_leaf :: "bytes \<Rightarrow> page_header \<Rightarrow> nat \<Rightarrow> key_field list \<Rightarrow> sql_value list \<Rightarrow> seek_op \<Rightarrow> nat \<Rightarrow> nat \<Rightarrow> (pager, nat) op" where
  "search_index_leaf leaf hdr usable key_info key op lo hi p =
     (if lo < hi
      then (let mid = (lo + hi) div 2 in
            case leaf_entry_values leaf hdr usable mid p of
              (p1, Inl e) \<Rightarrow> (p1, Inl e)
            | (p1, Inr values) \<Rightarrow>
                if seek_right op (compare_prefix (entry_prefix values key) key key_info)
                then search_index_leaf leaf hdr usable key_info key op (mid + 1) hi p1
                else search_index_leaf leaf hdr usable key_info key op lo mid p1)
      else (p, Inr lo))"
  by pat_completeness auto
termination
  by (relation "measure (\<lambda>(leaf, hdr, usable, key_info, key, op, lo, hi, p). hi - lo)") auto

declare search_index_leaf.simps [simp del]

definition leaf_index_for_key :: "sql_value list \<Rightarrow> seek_op \<Rightarrow> (index_state, nat) op" where
  "leaf_index_for_key key op s =
     (case (ic_leaf (fst s), ic_leaf_hdr (fst s)) of
        (Some leaf, Some hdr) \<Rightarrow>
          bind_op (via_index_pager
              (search_index_leaf leaf hdr (ic_usable (fst s)) (ic_key_info (fst s)) key op 0 (n_cells hdr))) (\<lambda>lo.
            ret_op (if op = Seek_Ge \<or> op = Seek_Gt then lo else lo - 1)) s
      | _ \<Rightarrow> (s, Inl Panic))"

text \<open>The divider is decoded from its local part, as UTF-8.\<close>

fun pick_child_for_key_in :: "nat list \<Rightarrow> key_field list \<Rightarrow> bytes \<Rightarrow> page_header \<Rightarrow> sql_value list \<Rightarrow> seek_op \<Rightarrow> nat \<Rightarrow> u32 result" where
  "pick_child_for_key_in [] key_info page hdr key op usable =
     ok_or (corrupt ''interior index page has no right pointer'') (ph_right_most_pointer hdr)"
| "pick_child_for_key_in (i # is) key_info page hdr key op usable =
     and_then (index_interior_cell_at page hdr usable i) (\<lambda>cell.
     and_then (decode_record (ii_local_payload cell) Utf8) (\<lambda>values.
       let ord = compare_prefix (entry_prefix values key) key key_info in
       if (if op = Seek_Ge \<or> op = Seek_Gt then ord \<noteq> Greater else ord = Less) then Inr (ii_left_child cell)
       else pick_child_for_key_in is key_info page hdr key op usable))"

definition pick_child_for_key :: "key_field list \<Rightarrow> bytes \<Rightarrow> page_header \<Rightarrow> sql_value list \<Rightarrow> seek_op \<Rightarrow> nat \<Rightarrow> u32 result" where
  "pick_child_for_key key_info page hdr key op usable =
     pick_child_for_key_in [0..<n_cells hdr] key_info page hdr key op usable"

fun index_descend_to_target :: "nat \<Rightarrow> u32 \<Rightarrow> seek_op \<Rightarrow> sql_value list \<Rightarrow> (index_state, unit) op" where
  "index_descend_to_target 0 pgno op key = fail_op Panic"
| "index_descend_to_target (Suc d) pgno op key =
     bind_op (via_index_pager (read_node pgno)) (\<lambda>(page, hdr).
       case ph_page_type hdr of
         LeafIndex \<Rightarrow>
           then_op (set_index_cursor (\<lambda>c. c\<lparr>ic_leaf_pgno := pgno, ic_leaf := Some page, ic_leaf_hdr := Some hdr\<rparr>))
             (bind_op (leaf_index_for_key key op) (\<lambda>i.
               set_index_cursor (\<lambda>c. c\<lparr>ic_cell_idx := i, ic_pending_advance := False\<rparr>)))
       | InteriorIndex \<Rightarrow>
           bind_op (get_op (\<lambda>s. (ic_key_info (fst s), ic_usable (fst s)))) (\<lambda>(key_info, usable).
           bind_op (lift_op (pick_child_for_key key_info page hdr key op usable)) (\<lambda>child.
             then_op (set_index_cursor (\<lambda>c. c\<lparr>ic_stack := (page, hdr, 0) # ic_stack c\<rparr>))
               (index_descend_to_target d child op key)))
       | _ \<Rightarrow> fail_op (corrupt ''expected an index b-tree page during seek''))"

definition index_seek :: "nat \<Rightarrow> seek_op \<Rightarrow> sql_value list \<Rightarrow> (index_state, bool) op" where
  "index_seek d op key =
     then_op (set_index_cursor reset_index_cursor)
       (bind_op (get_op (\<lambda>s. ic_root (fst s))) (\<lambda>root.
         then_op (index_descend_to_target d root op key)
           (then_op refresh_payload (get_op (\<lambda>s. index_is_valid (fst s))))))"

end
