(* ===== verification/Index_Insert.thy ===== *)
theory Index_Insert
  imports Index_Cursor
begin

text \<open>
  Writing an index b-tree: splitting and promoting its pages (\<open>btree/balance.rs\<close>), inserting an entry
  (\<open>btree/index_insert.rs\<close>) and deleting one (\<open>btree/index_delete.rs\<close>). The functions that call one another
  take a bound on the number of calls, as for table b-trees; the path to the root has its top first.
\<close>

section \<open>Cells as bytes\<close>

definition index_leaf_cell_on_page_size :: "bytes \<Rightarrow> nat \<Rightarrow> nat \<Rightarrow> nat result" where
  "index_leaf_cell_on_page_size page offset usable =
     and_then (varint_at page offset ''index leaf payload-size varint'') (\<lambda>(payload_size, n1).
       let (local_len, has_overflow) = local_payload_len (unat payload_size) usable (index_max_local usable) in
       Inr (n1 + local_len + (if has_overflow then 4 else 0)))"

text \<open>\<open>&page[offset + 4..]\<close> panics when the offset is past the end.\<close>

definition index_interior_cell_on_page_size :: "bytes \<Rightarrow> nat \<Rightarrow> nat \<Rightarrow> nat result" where
  "index_interior_cell_on_page_size page offset usable =
     and_then (index_range (offset + 4) (length page) page) (\<lambda>b.
       and_then (ok_or (corrupt ''index interior payload-size varint'') (read_varint b)) (\<lambda>(payload_size, n1).
         let (local_len, has_overflow) = local_payload_len (unat payload_size) usable (index_max_local usable) in
         Inr (n1 + 4 + local_len + (if has_overflow then 4 else 0))))"

definition copy_index_cell :: "bool \<Rightarrow> bytes \<Rightarrow> nat \<Rightarrow> page_header \<Rightarrow> nat \<Rightarrow> bytes result" where
  "copy_index_cell is_interior page usable hdr i =
     and_then (cell_pointer hdr page i) (\<lambda>off.
       and_then (if is_interior then index_interior_cell_on_page_size page off usable
                 else index_leaf_cell_on_page_size page off usable) (\<lambda>size. index_range off (off + size) page))"

definition index_key_from_leaf_cell :: "bytes \<Rightarrow> nat \<Rightarrow> bytes result" where
  "index_key_from_leaf_cell cell usable =
     and_then (ok_or (corrupt ''index leaf payload-size varint in divider key'') (read_varint cell)) (\<lambda>(payload_size, n1).
       let (local_len, has_overflow) = local_payload_len (unat payload_size) usable (index_max_local usable);
           key_len = (if has_overflow then local_len else unat payload_size) in
       index_range n1 (n1 + key_len) cell)"

definition index_key_from_interior_cell :: "bytes \<Rightarrow> nat \<Rightarrow> bytes result" where
  "index_key_from_interior_cell cell usable =
     and_then (index_range 4 (length cell) cell) (\<lambda>b.
       and_then (ok_or (corrupt ''index interior payload-size varint in divider key'') (read_varint b)) (\<lambda>(payload_size, n1).
         let (local_len, has_overflow) = local_payload_len (unat payload_size) usable (index_max_local usable);
             key_len = (if has_overflow then local_len else unat payload_size) in
         index_range (n1 + 4) (n1 + 4 + key_len) cell))"

section \<open>Splitting\<close>

text \<open>The cells of the parent other than the divided one, copied in order.\<close>

definition index_parent_cells :: "bytes \<Rightarrow> nat \<Rightarrow> page_header \<Rightarrow> nat \<Rightarrow> bytes \<Rightarrow> bytes \<Rightarrow> bytes list result" where
  "index_parent_cells pbuf usable phdr child_idx cell_old cell_new =
     and_then (map_result (\<lambda>i. if i = child_idx then Inr [cell_old, cell_new]
         else and_then (cell_pointer phdr pbuf i) (\<lambda>off.
                and_then (index_range (off + 4) (length pbuf) pbuf) (\<lambda>b.
                and_then (ok_or (corrupt ''payload varint in parent cell'') (read_varint b)) (\<lambda>(ps, vn).
                  let (ll, ho) = local_payload_len (unat ps) usable (index_max_local usable) in
                  and_then (index_range off (off + (4 + vn + ll + (if ho then 4 else 0))) pbuf) (\<lambda>c. Inr [c])))))
       [0..<n_cells phdr]) (\<lambda>parts. Inr (concat parts))"

definition install_index_divider :: "u32 \<Rightarrow> u32 \<Rightarrow> u32 \<Rightarrow> bytes \<Rightarrow> (pager, unit) op" where
  "install_index_divider parent_pgno old_child new_child divider_key p =
     (let usable = p_usable_size p; pbase = btree_header_offset parent_pgno in
      bind_op (read_page_for_write parent_pgno) (\<lambda>pbuf.
      bind_op (lift_op (page_header_parse pbuf pbase)) (\<lambda>phdr.
        if ph_page_type phdr \<noteq> InteriorIndex
        then fail_op (corrupt ''install_index_divider: declared parent is not an interior-index page'')
        else if ph_right_most_pointer phdr = Some old_child
        then bind_op (build_index_interior_cell old_child divider_key usable) (\<lambda>cell.
             bind_op (lift_op (and_then (insert_interior_cell pbuf pbase (n_cells phdr) cell) (set_right_most pbase new_child)))
               (write_page parent_pgno))
        else bind_op (lift_op (find_child_cell_index pbuf phdr old_child)) (\<lambda>child_idx.
             bind_op (lift_op (index_interior_cell_at pbuf phdr usable child_idx)) (\<lambda>old_cell.
             bind_op (assemble_index_interior_payload old_cell) (\<lambda>old_key.
             bind_op (build_index_interior_cell old_child divider_key usable) (\<lambda>cell_old.
             bind_op (build_index_interior_cell new_child old_key usable) (\<lambda>cell_new.
             bind_op (lift_op (index_parent_cells pbuf usable phdr child_idx cell_old cell_new)) (\<lambda>cells.
             bind_op (lift_op (write_page_cells pbuf pbase InteriorIndex (ph_right_most_pointer phdr) cells))
               (write_page parent_pgno))))))))) p)"

definition install_if_parent :: "u32 option \<Rightarrow> u32 \<Rightarrow> u32 \<Rightarrow> bytes \<Rightarrow> (pager, unit) op" where
  "install_if_parent parent_root child new_pgno divider_key =
     (case parent_root of None \<Rightarrow> ret_op () | Some parent_pgno \<Rightarrow> install_index_divider parent_pgno child new_pgno divider_key)"

definition ptrmap_if_parent :: "u32 option \<Rightarrow> u32 \<Rightarrow> (pager, unit) op" where
  "ptrmap_if_parent parent_root new_pgno =
     (case parent_root of None \<Rightarrow> ret_op () | Some parent_pgno \<Rightarrow> ptrmap_put new_pgno Btree parent_pgno)"

text \<open>A leaf without a split point, or of one cell, promotes its last cell; a leaf without cells panics.\<close>

definition split_index_leaf :: "u32 \<Rightarrow> u32 option \<Rightarrow> (pager, u32 \<times> bytes) op" where
  "split_index_leaf leaf_pgno parent_root p =
     (let usable = p_usable_size p; base = btree_header_offset leaf_pgno in
      bind_op (read_page_for_write leaf_pgno) (\<lambda>leaf_buf.
      bind_op (lift_op (page_header_parse leaf_buf base)) (\<lambda>hdr.
        if ph_page_type hdr \<noteq> LeafIndex then fail_op (corrupt ''split_index_leaf called on a non-index-leaf page'')
        else bind_op (lift_op (map_result (copy_index_cell False leaf_buf usable hdr) [0..<n_cells hdr])) (\<lambda>cells.
          let sp = split_point usable cells; split_at = (if length cells \<le> sp then length cells - 1 else sp) in
          bind_op (lift_op (if length cells \<le> split_at then Inl Panic else index_key_from_leaf_cell (cells ! split_at) usable)) (\<lambda>divider_key.
          bind_op allocate_page (\<lambda>new_pgno.
          then_op (install_if_parent parent_root leaf_pgno new_pgno divider_key)
          (then_op (write_node new_pgno LeafIndex None (drop (split_at + 1) cells))
          (then_op (write_node leaf_pgno LeafIndex None (take split_at cells))
          (bind_op (get_op auto_vacuum) (\<lambda>av.
             then_op (if av then ptrmap_if_parent parent_root new_pgno else ret_op ()) (ret_op (new_pgno, divider_key)))))))))))
       p)"

definition split_index_interior_page :: "u32 \<Rightarrow> u32 option \<Rightarrow> (pager, u32 \<times> bytes) op" where
  "split_index_interior_page interior_pgno parent_root p =
     (let usable = p_usable_size p; base = btree_header_offset interior_pgno in
      bind_op (read_page_for_write interior_pgno) (\<lambda>buf.
      bind_op (lift_op (page_header_parse buf base)) (\<lambda>hdr.
        if ph_page_type hdr \<noteq> InteriorIndex
        then fail_op (corrupt ''split_index_interior_page called on a non-index-interior page'')
        else (let right_most = ph_right_most_pointer hdr in
          bind_op (lift_op (map_result (copy_index_cell True buf usable hdr) [0..<n_cells hdr])) (\<lambda>cells.
          let split_at = split_point usable cells in
          if length cells \<le> split_at
          then fail_op (corrupt ''split_index_interior_page: cannot find a split point'')
          else
          bind_op (lift_op (index_key_from_interior_cell (cells ! split_at) usable)) (\<lambda>divider_key.
          bind_op (lift_op (index_range 0 4 (cells ! split_at))) (\<lambda>b.
          let right_cells = drop (split_at + 1) cells in
          bind_op allocate_page (\<lambda>new_pgno.
          then_op (install_if_parent parent_root interior_pgno new_pgno divider_key)
          (then_op (write_node new_pgno InteriorIndex right_most right_cells)
          (then_op (write_node interior_pgno InteriorIndex (Some (be_u32 b)) (take split_at cells))
          (bind_op (get_op auto_vacuum) (\<lambda>av.
             then_op (if av then then_op (ptrmap_if_parent parent_root new_pgno)
                                   (update_children_ptrmap_to_new_parent new_pgno right_cells right_most)
                      else ret_op ()) (ret_op (new_pgno, divider_key))))))))))))) p)"

text \<open>
  The promotion of a root. Without a split point the divider of a leaf is \<open>&cells[split_at]\<close>, out of
  range, and \<open>cells[split_at + 1..]\<close> panics for both kinds of page.
\<close>

definition promote_index_root :: "u32 \<Rightarrow> page_type \<Rightarrow> (pager, unit) op" where
  "promote_index_root root_pgno child_type p =
     (let usable = p_usable_size p; base = btree_header_offset root_pgno in
      bind_op (read_page_for_write root_pgno) (\<lambda>root_buf.
      bind_op (lift_op (page_header_parse root_buf base)) (\<lambda>hdr.
        if ph_page_type hdr \<noteq> child_type
        then fail_op (corrupt (''promote_index_root: root is not a ''
               @ (if child_type = InteriorIndex then ''InteriorIndex'' else ''LeafIndex'') @ '' page''))
        else if n_cells hdr = 0 then fail_op (corrupt ''promote_index_root called on an empty page'')
        else (let is_interior = (child_type = InteriorIndex) in
          bind_op (lift_op (map_result (copy_index_cell is_interior root_buf usable hdr) [0..<n_cells hdr])) (\<lambda>cells.
          let split_at = split_point usable cells;
              right_most = (if is_interior then ph_right_most_pointer hdr else None) in
          bind_op (lift_op
            (if length cells \<le> split_at then Inl Panic
             else if is_interior
             then and_then (index_key_from_interior_cell (cells ! split_at) usable) (\<lambda>key.
                    and_then (index_range 0 4 (cells ! split_at)) (\<lambda>b. Inr (key, Some (be_u32 b))))
             else and_then (index_key_from_leaf_cell (cells ! split_at) usable) (\<lambda>key. Inr (key, right_most))))
            (\<lambda>(divider_key, left_right_most).
          bind_op allocate_page (\<lambda>left_pgno.
          then_op (write_node left_pgno child_type (if is_interior then left_right_most else right_most) (take split_at cells))
          (bind_op allocate_page (\<lambda>right_pgno.
          then_op (write_node right_pgno child_type right_most (drop (split_at + 1) cells))
          (bind_op (build_index_interior_cell left_pgno divider_key usable) (\<lambda>cell.
             write_node root_pgno InteriorIndex (Some right_pgno) [cell]))))))))))
       p)"

definition promote_index_root_and_split :: "u32 \<Rightarrow> (pager, unit) op" where
  "promote_index_root_and_split root_pgno = promote_index_root root_pgno LeafIndex"

definition promote_index_root_interior :: "u32 \<Rightarrow> (pager, unit) op" where
  "promote_index_root_interior root_pgno = promote_index_root root_pgno InteriorIndex"

section \<open>Comparing entries\<close>

definition compare_record_prefixes :: "key_field list \<Rightarrow> sql_value list \<Rightarrow> sql_value \<Rightarrow> sql_value list \<Rightarrow> sql_value \<Rightarrow> ordering" where
  "compare_record_prefixes key_info a_prefix a_rowid b_prefix b_rowid =
     (case compare_fields key_info 0 a_prefix b_prefix of
        Equal \<Rightarrow>
          (case cmp (length a_prefix) (length b_prefix) of
             Equal \<Rightarrow> mem_compare a_rowid b_rowid Binary
           | ord \<Rightarrow> ord)
      | ord \<Rightarrow> ord)"

text \<open>The indexed columns and the rowid of a key record; \<open>values[len - 1]\<close> panics for a record without values.\<close>

definition split_key :: "bytes \<Rightarrow> text_encoding \<Rightarrow> (sql_value list \<times> sql_value) result" where
  "split_key key_record e =
     and_then (decode_record key_record e) (\<lambda>values.
       if values = [] then Inl Panic else Inr (butlast values, last values))"

definition prefixes_equal :: "sql_value list \<Rightarrow> sql_value list \<Rightarrow> key_field list \<Rightarrow> bool" where
  "prefixes_equal a b key_info \<longleftrightarrow>
     length a = length b \<and> list_all (\<lambda>i. mem_compare (a ! i) (b ! i) (coll_at key_info i) = Equal) [0..<length a]"

fun pick_index_child_in :: "nat list \<Rightarrow> key_field list \<Rightarrow> bytes \<Rightarrow> page_header \<Rightarrow> sql_value list \<Rightarrow> sql_value \<Rightarrow> text_encoding \<Rightarrow> nat \<Rightarrow> u32 result" where
  "pick_index_child_in [] key_info page hdr prefix rowid e usable =
     ok_or (corrupt ''interior index page has no right pointer'') (ph_right_most_pointer hdr)"
| "pick_index_child_in (i # is) key_info page hdr prefix rowid e usable =
     and_then (index_interior_cell_at page hdr usable i) (\<lambda>cell.
     and_then (split_key (ii_local_payload cell) e) (\<lambda>(ex_prefix, ex_rowid).
       if compare_record_prefixes key_info (take (min (length ex_prefix) (length prefix)) ex_prefix) ex_rowid prefix rowid \<noteq> Less
       then Inr (ii_left_child cell)
       else pick_index_child_in is key_info page hdr prefix rowid e usable))"

definition pick_index_child :: "key_field list \<Rightarrow> bytes \<Rightarrow> page_header \<Rightarrow> bytes \<Rightarrow> text_encoding \<Rightarrow> nat \<Rightarrow> u32 result" where
  "pick_index_child key_info page hdr key_record e usable =
     and_then (split_key key_record e) (\<lambda>(prefix, rowid).
       pick_index_child_in [0..<n_cells hdr] key_info page hdr prefix rowid e usable)"

function search_insert_position :: "key_field list \<Rightarrow> bytes \<Rightarrow> page_header \<Rightarrow> sql_value list \<Rightarrow> sql_value \<Rightarrow> nat \<Rightarrow> text_encoding \<Rightarrow> nat \<Rightarrow> nat \<Rightarrow> nat result" where
  "search_insert_position key_info page hdr prefix rowid usable e lo hi =
     (if lo < hi
      then (let mid = (lo + hi) div 2 in
            case and_then (index_leaf_cell_at page hdr usable mid) (\<lambda>cell. split_key (il_local_payload cell) e) of
              Inl f \<Rightarrow> Inl f
            | Inr (ex_prefix, ex_rowid) \<Rightarrow>
                if compare_record_prefixes key_info ex_prefix ex_rowid prefix rowid = Less
                then search_insert_position key_info page hdr prefix rowid usable e (mid + 1) hi
                else search_insert_position key_info page hdr prefix rowid usable e lo mid)
      else Inr lo)"
  by pat_completeness auto
termination
  by (relation "measure (\<lambda>(key_info, page, hdr, prefix, rowid, usable, e, lo, hi). hi - lo)") auto

declare search_insert_position.simps [simp del]

text \<open>The rowid of the key is looked at only when there is a cell to compare with.\<close>

definition index_leaf_insert_position :: "key_field list \<Rightarrow> bytes \<Rightarrow> page_header \<Rightarrow> bytes \<Rightarrow> nat \<Rightarrow> text_encoding \<Rightarrow> nat result" where
  "index_leaf_insert_position key_info page hdr key_record usable e =
     and_then (decode_record key_record e) (\<lambda>values.
       if n_cells hdr = 0 then Inr 0
       else and_then (split_key key_record e) (\<lambda>(prefix, rowid).
              search_insert_position key_info page hdr prefix rowid usable e 0 (n_cells hdr)))"

definition choose_index_child_after_split :: "key_field list \<Rightarrow> text_encoding \<Rightarrow> u32 \<Rightarrow> u32 \<Rightarrow> bytes \<Rightarrow> bytes \<Rightarrow> u32 result" where
  "choose_index_child_after_split key_info e left_pgno right_pgno divider_key pending_key =
     and_then (decode_record divider_key e) (\<lambda>_.
     and_then (decode_record pending_key e) (\<lambda>_.
     and_then (split_key divider_key e) (\<lambda>(d_prefix, d_rowid).
     and_then (split_key pending_key e) (\<lambda>(k_prefix, k_rowid).
       Inr (if compare_record_prefixes key_info d_prefix d_rowid k_prefix k_rowid = Greater then left_pgno else right_pgno)))))"

section \<open>Insertion\<close>

definition restart_message :: string where
  "restart_message = ''index insert needs restart after ancestor split''"

definition needs_restart :: "failure \<Rightarrow> bool" where
  "needs_restart f = (case f of Panic \<Rightarrow> False | Err e \<Rightarrow> err_message e = restart_message)"

fun split_ancestor_page :: "nat \<Rightarrow> u32 \<Rightarrow> (u32 \<times> nat) list \<Rightarrow> (pager, unit) op" where
  "split_ancestor_page 0 pgno path p = (p, Inl Panic)"
| "split_ancestor_page (Suc d) pgno path p =
     (case path of
        [] \<Rightarrow> promote_index_root_interior pgno p
      | (parent_pgno, _) # rest \<Rightarrow>
          (case split_index_interior_page pgno (Some parent_pgno) p of
             (p1, Inr _) \<Rightarrow> (p1, Inr ())
           | (p1, Inl e) \<Rightarrow> if is_page_full e then split_ancestor_page d parent_pgno rest p1 else (p1, Inl e)))"

definition promote_by_type :: "u32 \<Rightarrow> (pager, unit) op" where
  "promote_by_type pgno =
     bind_op (read_node pgno) (\<lambda>(_, hdr).
       case ph_page_type hdr of
         LeafIndex \<Rightarrow> promote_index_root_and_split pgno
       | InteriorIndex \<Rightarrow> promote_index_root_interior pgno
       | _ \<Rightarrow> fail_op (corrupt ''balance_index_page: root is not an index page''))"

fun index_insert_with_splitting :: "nat \<Rightarrow> u32 \<Rightarrow> bytes \<Rightarrow> key_field list \<Rightarrow> (u32 \<times> nat) list \<Rightarrow> (pager, unit) op"
  and insert_into_index_leaf :: "nat \<Rightarrow> u32 \<Rightarrow> bytes \<Rightarrow> key_field list \<Rightarrow> (u32 \<times> nat) list \<Rightarrow> (pager, unit) op"
  and balance_index_page :: "nat \<Rightarrow> u32 \<Rightarrow> (u32 \<times> nat) option \<Rightarrow> key_field list \<Rightarrow> (u32 \<times> nat) list \<Rightarrow> bytes \<Rightarrow> (pager, unit) op" where
  "index_insert_with_splitting 0 pgno key_record key_info path = fail_op Panic"
| "index_insert_with_splitting (Suc d) pgno key_record key_info path =
     bind_op (read_node pgno) (\<lambda>(buf, hdr).
       case ph_page_type hdr of
         LeafIndex \<Rightarrow> insert_into_index_leaf d pgno key_record key_info path
       | InteriorIndex \<Rightarrow>
           bind_op (get_op (\<lambda>p. (p_text_encoding p, p_usable_size p))) (\<lambda>(e, usable).
           bind_op (lift_op (pick_index_child key_info buf hdr key_record e usable)) (\<lambda>child.
             index_insert_with_splitting d child key_record key_info ((pgno, btree_header_offset pgno) # path)))
       | _ \<Rightarrow> fail_op (corrupt ''index_insert: not an index b-tree page''))"
| "insert_into_index_leaf 0 leaf_pgno key_record key_info path = fail_op Panic"
| "insert_into_index_leaf (Suc d) leaf_pgno key_record key_info path =
     bind_op (get_op (\<lambda>p. (p_text_encoding p, p_usable_size p))) (\<lambda>(e, usable).
     bind_op (read_node leaf_pgno) (\<lambda>(page, hdr).
     bind_op (lift_op (index_leaf_insert_position key_info page hdr key_record usable e)) (\<lambda>idx.
     bind_op (get_op auto_vacuum) (\<lambda>av.
     bind_op (if av then build_index_leaf_cell_with_host key_record usable (Some leaf_pgno)
              else build_index_leaf_cell key_record usable) (\<lambda>cell.
     bind_op (read_page_for_write leaf_pgno) (\<lambda>leaf.
       case insert_leaf_cell leaf (btree_header_offset leaf_pgno) idx cell of
         Inr leaf1 \<Rightarrow> write_page leaf_pgno leaf1
       | Inl f \<Rightarrow>
           if is_page_full f
           then (case path of
                   [] \<Rightarrow> balance_index_page d leaf_pgno None key_info [] key_record
                 | parent # rest \<Rightarrow> balance_index_page d leaf_pgno (Some parent) key_info rest key_record)
           else fail_op f))))))"
| "balance_index_page 0 pgno parent key_info ancestor_path pending_key = fail_op Panic"
| "balance_index_page (Suc d) pgno parent key_info ancestor_path pending_key =
     (case parent of
        None \<Rightarrow> then_op (promote_by_type pgno) (index_insert_with_splitting d pgno pending_key key_info [])
      | Some (parent_pgno, _) \<Rightarrow> (\<lambda>p.
          case split_index_leaf pgno (Some parent_pgno) p of
            (p1, Inr (new_pgno, divider_key)) \<Rightarrow>
              bind_op (lift_op (choose_index_child_after_split key_info (p_text_encoding p1) pgno new_pgno divider_key pending_key))
                (\<lambda>target. index_insert_with_splitting d target pending_key key_info []) p1
          | (p1, Inl e) \<Rightarrow>
              if is_page_full e
              then then_op (split_ancestor_page d parent_pgno ancestor_path) (fail_op (error_msg restart_message)) p1
              else (p1, Inl e)))"

definition check_unique_constraint :: "nat \<Rightarrow> u32 \<Rightarrow> bytes \<Rightarrow> key_field list \<Rightarrow> (pager, unit) op" where
  "check_unique_constraint d root key_record key_info p =
     (let e = p_text_encoding p in
      case decode_record key_record e of
        Inl f \<Rightarrow> (p, Inl f)
      | Inr search \<Rightarrow>
          let nkey = length search - 1; prefix = take nkey search in
          if nkey = 0 \<or> list_ex (\<lambda>v. v = VNull) prefix then (p, Inr ())
          else (case index_seek d Seek_Ge prefix (index_cursor_new p root key_info, p) of
                  ((c, p1), Inl f) \<Rightarrow> (p1, Inl f)
                | ((c, p1), Inr False) \<Rightarrow> (p1, Inr ())
                | ((c, p1), Inr True) \<Rightarrow>
                    (case decode_record (index_payload c) e of
                       Inl f \<Rightarrow> (p1, Inl f)
                     | Inr existing \<Rightarrow>
                         if length existing - 1 = nkey \<and> prefixes_equal (take nkey existing) prefix key_info
                         then (p1, Inl (Err (error_new Rc_Constraint ''UNIQUE constraint failed'')))
                         else (p1, Inr ()))))"

fun index_insert_loop :: "nat \<Rightarrow> u32 \<Rightarrow> bytes \<Rightarrow> key_field list \<Rightarrow> (pager, unit) op" where
  "index_insert_loop 0 root key_record key_info p = (p, Inl Panic)"
| "index_insert_loop (Suc d) root key_record key_info p =
     (case index_insert_with_splitting d root key_record key_info [] p of
        (p1, Inr _) \<Rightarrow> (p1, Inr ())
      | (p1, Inl f) \<Rightarrow> if needs_restart f then index_insert_loop d root key_record key_info p1 else (p1, Inl f))"

definition index_insert :: "nat \<Rightarrow> u32 \<Rightarrow> bytes \<Rightarrow> key_field list \<Rightarrow> bool \<Rightarrow> (pager, unit) op" where
  "index_insert d root key_record key_info unique =
     then_op (if unique then check_unique_constraint d root key_record key_info else ret_op ())
       (index_insert_loop d root key_record key_info)"

section \<open>Deletion\<close>

fun find_index_entry :: "nat list \<Rightarrow> bytes \<Rightarrow> page_header \<Rightarrow> nat \<Rightarrow> text_encoding \<Rightarrow> sql_value list \<Rightarrow> sql_value \<Rightarrow> key_field list \<Rightarrow> nat option result" where
  "find_index_entry [] page hdr usable e prefix rowid key_info = Inr None"
| "find_index_entry (i # is) page hdr usable e prefix rowid key_info =
     and_then (index_leaf_cell_at page hdr usable i) (\<lambda>cell.
     and_then (split_key (il_local_payload cell) e) (\<lambda>(ex_prefix, ex_rowid).
       if prefixes_equal ex_prefix prefix key_info \<and> mem_compare ex_rowid rowid Binary = Equal then Inr (Some i)
       else find_index_entry is page hdr usable e prefix rowid key_info))"

text \<open>The size helper of \<open>index_delete.rs\<close> takes an unreadable size for 0; slicing past the page panics.\<close>

definition index_cell_on_page_size :: "bytes \<Rightarrow> nat \<Rightarrow> nat \<Rightarrow> nat" where
  "index_cell_on_page_size page offset usable =
     (let (payload_size, n1) = (case read_varint (drop offset page) of None \<Rightarrow> (0, 0) | Some x \<Rightarrow> x);
          (local_len, has_overflow) = local_payload_len (unat payload_size) usable (index_max_local usable) in
      n1 + local_len + (if has_overflow then 4 else 0))"

definition kept_index_cell :: "bytes \<Rightarrow> nat \<Rightarrow> page_header \<Rightarrow> nat \<Rightarrow> bytes result" where
  "kept_index_cell page usable hdr i =
     and_then (cell_pointer hdr page i) (\<lambda>off. index_range off (off + index_cell_on_page_size page off usable) page)"

definition index_leaf_delete :: "nat \<Rightarrow> u32 \<Rightarrow> bytes \<Rightarrow> key_field list \<Rightarrow> (pager, bool) op" where
  "index_leaf_delete d root key_record key_info =
     (let base = btree_header_offset root in
      bind_op (get_op (\<lambda>p. (p_text_encoding p, p_usable_size p))) (\<lambda>(e, usable).
      bind_op (read_node root) (\<lambda>(page, hdr).
        if ph_page_type hdr \<noteq> LeafIndex then fail_op (corrupt ''index_leaf_delete: not a leaf-index page'')
        else bind_op (lift_op (split_key key_record e)) (\<lambda>(prefix, rowid).
          bind_op (lift_op (find_index_entry [0..<n_cells hdr] page hdr usable e prefix rowid key_info)) (\<lambda>found.
            case found of
              None \<Rightarrow> ret_op False
            | Some idx \<Rightarrow>
                bind_op (lift_op (index_leaf_cell_at page hdr usable idx)) (\<lambda>cell.
                then_op (case il_overflow_page cell of None \<Rightarrow> ret_op () | Some first_overflow \<Rightarrow> free_overflow_chain d first_overflow)
                (bind_op (lift_op (map_result (kept_index_cell page usable hdr) (filter (\<lambda>i. i \<noteq> idx) [0..<n_cells hdr]))) (\<lambda>cells.
                 bind_op (read_page_for_write root) (\<lambda>leaf.
                 bind_op (lift_op (write_page_cells leaf base LeafIndex None cells)) (\<lambda>leaf1.
                   then_op (write_page root leaf1) (ret_op True)))))))))))"

end
