(* ===== verification/Vdbe_State.thy ===== *)
theory Vdbe_State
  imports Ephemeral Index_Insert
begin

text \<open>
  The state of a running program (\<open>vdbe/exec.rs\<close>, \<open>vdbe/cursor.rs\<close>): registers, open cursors, frames of
  calling programs, and the runtime context of the volatile functions. Cursors and the machine share
  the pager, so the machine holds it and lends it to a cursor for the time of an operation. The cells
  of ephemeral tables live in \<open>vm_heap\<close>. The flags the connection shares with the machine are fields of
  its state, \<open>None\<close> when no handle is installed.

  What the machine relies on beyond its own state is in \<open>vm_env\<close>: the bound on walks along page
  pointers, the pager's surroundings (auto-vacuum, the order a hash map is drained in, salts and the
  journal nonce), the scalar function registry and the date functions with the statement's clock.
\<close>

record vm_env =
  ve_depth :: nat
  ve_autovac :: "(pager, unit) op"
  ve_drain :: "pages \<Rightarrow> pages"
  ve_salts :: "u32 \<times> u32"
  ve_cksum_init :: u32
  ve_call_scalar :: "bytes \<Rightarrow> sql_value list \<Rightarrow> sql_value result"
  ve_date_fn :: "bytes \<Rightarrow> sql_value list \<Rightarrow> sql_value result"

definition text_string :: "bytes \<Rightarrow> string" where
  "text_string s = map (\<lambda>b. char_of (unat b)) s"

section \<open>The runtime context\<close>

record runtime_ctx =
  rng_state :: u64
  rc_changes :: i64
  rc_total_changes :: i64
  rc_last_insert_rowid :: i64
  rc_did_insert :: bool

definition mix_step :: "nat \<Rightarrow> u64 \<Rightarrow> u64 \<Rightarrow> u64" where
  "mix_step shift factor z = (z XOR drop_bit shift z) * factor"

definition mix_seed :: "u64 \<Rightarrow> u64" where
  "mix_seed z =
     (let z1 = mix_step 30 0xbf58476d1ce4e5b9 z; z2 = mix_step 27 0x94d049bb133111eb z1 in z2 XOR drop_bit 31 z2)"

text \<open>\<open>pid\<close> is the process id and \<open>bump\<close> the value drawn from the global counter.\<close>

definition runtime_ctx_new :: "u32 \<Rightarrow> u64 \<Rightarrow> runtime_ctx" where
  "runtime_ctx_new pid bump =
     \<lparr>rng_state = mix_seed (push_bit 32 (ucast pid) XOR (bump * 0x9e3779b97f4a7c15)), rc_changes = 0,
      rc_total_changes = 0, rc_last_insert_rowid = 0, rc_did_insert = False\<rparr>"

definition next_u64 :: "runtime_ctx \<Rightarrow> runtime_ctx \<times> u64" where
  "next_u64 c = (let z = rng_state c + 0x9e3779b97f4a7c15 in (c\<lparr>rng_state := z\<rparr>, mix_seed z))"

fun draws :: "nat \<Rightarrow> runtime_ctx \<Rightarrow> runtime_ctx \<times> bytes" where
  "draws 0 c = (c, [])"
| "draws (Suc k) c =
     (let (c1, z) = next_u64 c; (c2, rest) = draws k c1 in (c2, le_enc 8 z @ rest))"

definition random_bytes :: "nat \<Rightarrow> runtime_ctx \<Rightarrow> runtime_ctx \<times> bytes" where
  "random_bytes n c = (case draws ((n + 7) div 8) c of (c1, out) \<Rightarrow> (c1, take n out))"

definition SQLITE_MAX_LENGTH :: int where
  "SQLITE_MAX_LENGTH = 1000000000"

definition randomblob_len :: "sql_value option \<Rightarrow> nat result" where
  "randomblob_len arg =
     (let n = (case arg of Some v \<Rightarrow> if is_null v then 1 else sint (as_i64 v) | None \<Rightarrow> 1) in
      if SQLITE_MAX_LENGTH < n then Inl (error_msg ''string or blob too big'') else Inr (nat (max n 1)))"

section \<open>Cursors and frames\<close>

record pseudo_cursor =
  ps_reg :: int
  ps_current :: "sql_value list option"
  ps_encoding :: text_encoding

definition pseudo_new :: "int \<Rightarrow> text_encoding \<Rightarrow> pseudo_cursor" where
  "pseudo_new reg e = \<lparr>ps_reg = reg, ps_current = None, ps_encoding = e\<rparr>"

definition pseudo_data :: "sql_value list \<Rightarrow> pseudo_cursor \<Rightarrow> pseudo_cursor result" where
  "pseudo_data regs c =
     (case get_opt regs (usize_of (ps_reg c)) of
        Some (VBlob b) \<Rightarrow> and_then (decode_record b (ps_encoding c)) (\<lambda>vals. Inr (c\<lparr>ps_current := Some vals\<rparr>))
      | _ \<Rightarrow> Inl (error_msg ''pseudo-cursor register is not a record blob''))"

definition pseudo_column :: "nat \<Rightarrow> pseudo_cursor \<Rightarrow> sql_value" where
  "pseudo_column i c = (case ps_current c of None \<Rightarrow> VNull | Some vals \<Rightarrow> field vals i)"

datatype vdbe_cursor =
    Cur_Table table_cursor | Cur_Index index_cursor | Cur_Sorter sorter | Cur_Ephemeral ephemeral
  | Cur_Pseudo pseudo_cursor

type_synonym decoded_row = "(nat \<times> i64 \<times> sql_value list) option"

record vdbe_frame =
  fr_program :: program
  fr_pc :: nat
  fr_regs :: "sql_value list"
  fr_cursors :: "vdbe_cursor option list"
  fr_cursor_root :: "int \<rightharpoonup> u32"
  fr_decoded :: decoded_row
  fr_aggregates :: "nat \<rightharpoonup> accumulator"
  fr_once_done :: "nat set"
  fr_write_txn :: bool
  fr_param_base :: int
  fr_token :: u8

record vdbe =
  vm_program :: program
  vm_pager :: "pager option"
  vm_encoding :: text_encoding
  vm_pc :: nat
  vm_regs :: "sql_value list"
  vm_cursors :: "vdbe_cursor option list"
  vm_result_start :: nat
  vm_result_count :: nat
  vm_halted :: bool
  vm_decoded :: decoded_row
  vm_ctx :: runtime_ctx
  vm_cursor_root :: "int \<rightharpoonup> u32"
  vm_write_txn :: bool
  vm_autocommit :: "bool option"
  vm_is_transaction_savepoint :: "bool option"
  vm_aggregates :: "nat \<rightharpoonup> accumulator"
  vm_last_compare :: ordering
  vm_once_done :: "nat set"
  vm_frames :: "vdbe_frame list"
  vm_stmt_savepoint :: "string option"
  vm_oe_override :: "u8 option"
  vm_heap :: "ephemeral_data list"

datatype step_result = Step_Row | Step_Done

text \<open>An instruction either leaves the dispatch loop turning or gives the caller a result.\<close>

datatype flow = Again | Give step_result

type_synonym 'a vm_op = "(vdbe, 'a) op"

definition num_regs :: "program \<Rightarrow> nat" where
  "num_regs prog = max (prog_num_registers prog) 1"

definition vdbe_new :: "program \<Rightarrow> pager option \<Rightarrow> runtime_ctx \<Rightarrow> vdbe" where
  "vdbe_new prog p ctx =
     \<lparr>vm_program = prog, vm_pager = p,
      vm_encoding = (case p of None \<Rightarrow> Utf8 | Some p \<Rightarrow> p_text_encoding p), vm_pc = 0,
      vm_regs = replicate (num_regs prog) VNull, vm_cursors = [], vm_result_start = 0, vm_result_count = 0,
      vm_halted = False, vm_decoded = None, vm_ctx = ctx, vm_cursor_root = Map.empty, vm_write_txn = False,
      vm_autocommit = None, vm_is_transaction_savepoint = None, vm_aggregates = Map.empty, vm_last_compare = Equal,
      vm_once_done = {}, vm_frames = [], vm_stmt_savepoint = None, vm_oe_override = None, vm_heap = []\<rparr>"

definition vdbe_reset :: "vdbe \<Rightarrow> vdbe" where
  "vdbe_reset vm =
     vm\<lparr>vm_pc := 0, vm_regs := map (\<lambda>_. VNull) (vm_regs vm), vm_cursors := [], vm_result_start := 0,
        vm_result_count := 0, vm_halted := False, vm_decoded := None, vm_cursor_root := Map.empty,
        vm_write_txn := False, vm_aggregates := Map.empty, vm_last_compare := Equal, vm_once_done := {},
        vm_frames := []\<rparr>"

definition change_counts :: "vdbe \<Rightarrow> i64 \<times> i64 \<times> i64 \<times> bool" where
  "change_counts vm =
     (let c = vm_ctx vm in (rc_changes c, rc_total_changes c, rc_last_insert_rowid c, rc_did_insert c))"

definition result_value :: "nat \<Rightarrow> vdbe \<Rightarrow> sql_value" where
  "result_value i vm = field (vm_regs vm) (vm_result_start vm + i)"

definition autocommit :: "vdbe \<Rightarrow> bool" where
  "autocommit vm = (case vm_autocommit vm of None \<Rightarrow> True | Some b \<Rightarrow> b)"

definition is_transaction_savepoint :: "vdbe \<Rightarrow> bool" where
  "is_transaction_savepoint vm = (case vm_is_transaction_savepoint vm of None \<Rightarrow> False | Some b \<Rightarrow> b)"

definition set_autocommit :: "bool \<Rightarrow> vdbe \<Rightarrow> vdbe" where
  "set_autocommit b vm = vm\<lparr>vm_autocommit := map_option (\<lambda>_. b) (vm_autocommit vm)\<rparr>"

definition set_is_transaction_savepoint :: "bool \<Rightarrow> vdbe \<Rightarrow> vdbe" where
  "set_is_transaction_savepoint b vm =
     vm\<lparr>vm_is_transaction_savepoint := map_option (\<lambda>_. b) (vm_is_transaction_savepoint vm)\<rparr>"

section \<open>Registers and the program counter\<close>

definition advance :: "flow vm_op" where
  "advance vm = (vm\<lparr>vm_pc := vm_pc vm + 1\<rparr>, Inr Again)"

definition jump_to :: "int \<Rightarrow> flow vm_op" where
  "jump_to p vm = (vm\<lparr>vm_pc := usize_of p\<rparr>, Inr Again)"

definition branch :: "bool \<Rightarrow> int \<Rightarrow> flow vm_op" where
  "branch b p = (if b then jump_to p else advance)"

definition halt_done :: "flow vm_op" where
  "halt_done vm = (vm\<lparr>vm_halted := True\<rparr>, Inr (Give Step_Done))"

definition read_reg_at :: "nat \<Rightarrow> sql_value vm_op" where
  "read_reg_at i vm = (vm, ok_or Panic (get_opt (vm_regs vm) i))"

definition write_reg_at :: "nat \<Rightarrow> sql_value \<Rightarrow> unit vm_op" where
  "write_reg_at i v vm =
     (if i < length (vm_regs vm) then (vm\<lparr>vm_regs := (vm_regs vm)[i := v]\<rparr>, Inr ()) else (vm, Inl Panic))"

definition read_reg :: "int \<Rightarrow> sql_value vm_op" where
  "read_reg p = read_reg_at (usize_of p)"

definition write_reg :: "int \<Rightarrow> sql_value \<Rightarrow> unit vm_op" where
  "write_reg p = write_reg_at (usize_of p)"

definition reg_range :: "int \<Rightarrow> nat \<Rightarrow> sql_value list vm_op" where
  "reg_range p n vm =
     (let start = usize_of p in
      (vm, if start + n \<le> length (vm_regs vm) then Inr (sub start (start + n) (vm_regs vm)) else Inl Panic))"

definition store_reg :: "int \<Rightarrow> sql_value \<Rightarrow> flow vm_op" where
  "store_reg p v = then_op (write_reg p v) advance"

definition set_ctx :: "(runtime_ctx \<Rightarrow> runtime_ctx) \<Rightarrow> vdbe \<Rightarrow> vdbe" where
  "set_ctx f vm = vm\<lparr>vm_ctx := f (vm_ctx vm)\<rparr>"

definition forget_decoded :: "unit vm_op" where
  "forget_decoded = modify_op (\<lambda>vm. vm\<lparr>vm_decoded := None\<rparr>)"

section \<open>The pager and the cursor table\<close>

definition with_pager :: "(pager, 'a) op \<Rightarrow> 'a vm_op" where
  "with_pager m vm =
     (case vm_pager vm of
        None \<Rightarrow> (vm, Inl (error_msg ''no database is open''))
      | Some p \<Rightarrow> (case m p of (p', r) \<Rightarrow> (vm\<lparr>vm_pager := Some p'\<rparr>, r)))"

definition slot :: "int \<Rightarrow> vdbe \<Rightarrow> vdbe_cursor option" where
  "slot p vm = (case get_opt (vm_cursors vm) (usize_of p) of Some (Some c) \<Rightarrow> Some c | _ \<Rightarrow> None)"

definition put_slot :: "int \<Rightarrow> vdbe_cursor \<Rightarrow> vdbe \<Rightarrow> vdbe" where
  "put_slot p c vm = vm\<lparr>vm_cursors := (vm_cursors vm)[usize_of p := Some c]\<rparr>"

text \<open>A negative cursor number asks for a table beyond the capacity of a vector.\<close>

definition vdbe_set_cursor :: "int \<Rightarrow> vdbe_cursor \<Rightarrow> unit vm_op" where
  "vdbe_set_cursor p c vm =
     (if p < 0 then (vm, Inl Panic)
      else (let idx = usize_of p; cs = vm_cursors vm in
            (put_slot p c (vm\<lparr>vm_cursors := cs @ replicate (idx + 1 - length cs) None\<rparr>), Inr ())))"

definition cursor_root_of :: "int \<Rightarrow> u32 vm_op" where
  "cursor_root_of p vm = (vm, ok_or (error_msg ''cursor has no recorded rootpage'') (vm_cursor_root vm p))"

definition set_cursor_root :: "int \<Rightarrow> u32 \<Rightarrow> unit vm_op" where
  "set_cursor_root p root = modify_op (\<lambda>vm. vm\<lparr>vm_cursor_root := (vm_cursor_root vm)(p \<mapsto> root)\<rparr>)"

definition cursor_mut :: "int \<Rightarrow> vdbe_cursor vm_op" where
  "cursor_mut p vm = (vm, ok_or (error_msg ''cursor is not open'') (slot p vm))"

definition table_cursor_of :: "int \<Rightarrow> table_cursor vm_op" where
  "table_cursor_of p vm =
     (vm, case slot p vm of
            Some (Cur_Table c) \<Rightarrow> Inr c
          | _ \<Rightarrow> Inl (error_msg ''cursor is not an open table cursor''))"

definition index_cursor_of :: "int \<Rightarrow> index_cursor vm_op" where
  "index_cursor_of p vm =
     (vm, case slot p vm of
            Some (Cur_Index c) \<Rightarrow> Inr c
          | _ \<Rightarrow> Inl (error_msg ''cursor is not an open index cursor''))"

definition index_key_info :: "int \<Rightarrow> vdbe \<Rightarrow> key_field list" where
  "index_key_info p vm = (case slot p vm of Some (Cur_Index c) \<Rightarrow> ic_key_info c | _ \<Rightarrow> [])"

text \<open>Operations of a cursor; a table or index cursor was opened on the machine's pager.\<close>

definition with_table :: "int \<Rightarrow> (cursor_state, 'a) op \<Rightarrow> 'a vm_op" where
  "with_table p m =
     bind_op (table_cursor_of p) (\<lambda>c vm.
       case vm_pager vm of
         None \<Rightarrow> (vm, Inl Panic)
       | Some pg \<Rightarrow> (case m (c, pg) of ((c', pg'), r) \<Rightarrow> (put_slot p (Cur_Table c') (vm\<lparr>vm_pager := Some pg'\<rparr>), r)))"

definition with_index :: "int \<Rightarrow> (index_state, 'a) op \<Rightarrow> 'a vm_op" where
  "with_index p m =
     bind_op (index_cursor_of p) (\<lambda>c vm.
       case vm_pager vm of
         None \<Rightarrow> (vm, Inl Panic)
       | Some pg \<Rightarrow> (case m (c, pg) of ((c', pg'), r) \<Rightarrow> (put_slot p (Cur_Index c') (vm\<lparr>vm_pager := Some pg'\<rparr>), r)))"

definition with_sorter :: "int \<Rightarrow> (sorter, 'a) op \<Rightarrow> 'a vm_op" where
  "with_sorter p m vm =
     (case slot p vm of
        Some (Cur_Sorter s) \<Rightarrow> (case m s of (s', r) \<Rightarrow> (put_slot p (Cur_Sorter s') vm, r))
      | _ \<Rightarrow> (vm, Inl (error_msg ''cursor is not an open sorter'')))"

definition with_eph :: "string \<Rightarrow> int \<Rightarrow> (eph_state, 'a) op \<Rightarrow> 'a vm_op" where
  "with_eph message p m vm =
     (case slot p vm of
        Some (Cur_Ephemeral e) \<Rightarrow>
          (case get_opt (vm_heap vm) (eph_data e) of
             None \<Rightarrow> (vm, Inl Panic)
           | Some d \<Rightarrow> (case m (e, d) of ((e', d'), r) \<Rightarrow>
               (put_slot p (Cur_Ephemeral e') (vm\<lparr>vm_heap := (vm_heap vm)[eph_data e := d']\<rparr>), r)))
      | _ \<Rightarrow> (vm, Inl (error_msg message)))"

definition is_ephemeral :: "int \<Rightarrow> vdbe \<Rightarrow> bool" where
  "is_ephemeral p vm = (case slot p vm of Some (Cur_Ephemeral _) \<Rightarrow> True | _ \<Rightarrow> False)"

end
