(* ===== verification/Vdbe_Control.thy ===== *)
theory Vdbe_Control
  imports Vdbe_State
begin

text \<open>
  Instructions that move control or end a statement (\<open>step_inner\<close> of \<open>vdbe/exec.rs\<close>): jumps,
  subroutines, coroutines, sub-programs, \<open>Halt\<close>, and the transaction opcodes. One definition per arm of
  the dispatch; each takes the instruction it executes.
\<close>

section \<open>Jumps, subroutines and coroutines\<close>

definition do_Init :: "instruction \<Rightarrow> flow vm_op" where
  "do_Init inst = jump_to (inst_p2 inst)"

definition do_Goto :: "instruction \<Rightarrow> flow vm_op" where
  "do_Goto inst = jump_to (inst_p2 inst)"

definition do_Once :: "instruction \<Rightarrow> flow vm_op" where
  "do_Once inst vm =
     (if vm_pc vm \<in> vm_once_done vm then jump_to (inst_p2 inst) vm
      else advance (vm\<lparr>vm_once_done := insert (vm_pc vm) (vm_once_done vm)\<rparr>))"

definition push_frame :: "program \<Rightarrow> instruction \<Rightarrow> vdbe \<Rightarrow> vdbe" where
  "push_frame sub_program inst vm =
     vm\<lparr>vm_program := sub_program,
        vm_frames := \<lparr>fr_program = vm_program vm, fr_pc = vm_pc vm + 1, fr_regs = vm_regs vm,
                      fr_cursors = vm_cursors vm, fr_cursor_root = vm_cursor_root vm, fr_decoded = vm_decoded vm,
                      fr_aggregates = vm_aggregates vm, fr_once_done = vm_once_done vm,
                      fr_write_txn = vm_write_txn vm, fr_param_base = inst_p1 inst, fr_token = inst_p5 inst\<rparr>
                     # vm_frames vm,
        vm_regs := replicate (num_regs sub_program) VNull, vm_cursors := [], vm_cursor_root := Map.empty,
        vm_decoded := None, vm_aggregates := Map.empty, vm_once_done := {}, vm_pc := 0\<rparr>"

definition do_Program :: "instruction \<Rightarrow> flow vm_op" where
  "do_Program inst vm =
     (if inst_p5 inst \<noteq> 0 \<and> list_ex (\<lambda>f. fr_token f = inst_p5 inst) (vm_frames vm) then advance vm
      else (case inst_p4 inst of
              P4_SubProgram sub_program \<Rightarrow> (push_frame sub_program inst vm, Inr Again)
            | _ \<Rightarrow> (vm, Inl (error_msg ''OP_Program requires a SubProgram p4''))))"

definition do_Param :: "instruction \<Rightarrow> flow vm_op" where
  "do_Param inst vm =
     (case vm_frames vm of
        [] \<Rightarrow> (vm, Inl (error_msg ''OP_Param outside of a sub-program (no parent frame)''))
      | frame # _ \<Rightarrow>
          bind_op (lift_op (i32_add (fr_param_base frame) (inst_p1 inst))) (\<lambda>i.
            store_reg (inst_p2 inst) (field (fr_regs frame) (usize_of i))) vm)"

definition do_Gosub :: "instruction \<Rightarrow> flow vm_op" where
  "do_Gosub inst vm =
     then_op (write_reg (inst_p1 inst) (VInt (of_nat (vm_pc vm + 1)))) (jump_to (inst_p2 inst)) vm"

definition jump_addr :: "i64 \<Rightarrow> flow vm_op" where
  "jump_addr addr vm = (vm\<lparr>vm_pc := unat addr\<rparr>, Inr Again)"

definition do_Return :: "instruction \<Rightarrow> flow vm_op" where
  "do_Return inst =
     bind_op (read_reg (inst_p1 inst)) (\<lambda>v.
       case v of
         VInt addr \<Rightarrow> jump_addr addr
       | _ \<Rightarrow> if inst_p3 inst = 0 then fail_op (error_msg ''OP_Return: return-address register is not an integer'')
              else advance)"

definition do_InitCoroutine :: "instruction \<Rightarrow> flow vm_op" where
  "do_InitCoroutine inst =
     then_op (write_reg (inst_p1 inst) (VInt (of_int (inst_p3 inst)))) (branch (inst_p2 inst \<noteq> 0) (inst_p2 inst))"

definition inst_at :: "i64 \<Rightarrow> vdbe \<Rightarrow> instruction option" where
  "inst_at addr vm = get_opt (prog_instructions (vm_program vm)) (unat addr)"

definition do_EndCoroutine :: "instruction \<Rightarrow> flow vm_op" where
  "do_EndCoroutine inst =
     bind_op (read_reg (inst_p1 inst)) (\<lambda>v.
       case v of
         VInt resume \<Rightarrow>
           bind_op (lift_op (i64_sub resume 1)) (\<lambda>yield_pc.
           bind_op (\<lambda>vm. (vm, ok_or (error_msg ''OP_EndCoroutine: caller Yield not found'') (inst_at yield_pc vm))) (\<lambda>caller.
             if inst_opcode caller \<noteq> Control Op_Yield then fail_op (error_msg ''OP_EndCoroutine: caller is not a Yield'')
             else (\<lambda>vm. then_op (write_reg (inst_p1 inst) (VInt (of_nat (vm_pc vm)))) (jump_to (inst_p2 caller)) vm)))
       | _ \<Rightarrow> fail_op (error_msg ''OP_EndCoroutine: register does not hold a coroutine address''))"

definition do_Yield :: "instruction \<Rightarrow> flow vm_op" where
  "do_Yield inst =
     bind_op (read_reg (inst_p1 inst)) (\<lambda>v.
       case v of
         VInt dest \<Rightarrow> (\<lambda>vm.
           then_op (write_reg (inst_p1 inst) (VInt (of_nat (vm_pc vm + 1))))
             (if map_option inst_opcode (inst_at dest vm) = Some (Control Op_EndCoroutine)
              then jump_to (inst_p2 inst) else jump_addr dest) vm)
       | _ \<Rightarrow> fail_op (error_msg ''OP_Yield: register does not hold a coroutine address''))"

text \<open>The comparison loop stops at the first pair that differs; a key beyond \<open>p4\<close> panics.\<close>

fun compare_regs :: "key_field list \<Rightarrow> nat list \<Rightarrow> int \<Rightarrow> int \<Rightarrow> ordering vm_op" where
  "compare_regs ki [] p1 p2 = ret_op Equal"
| "compare_regs ki (i # is) p1 p2 =
     bind_op (read_reg_at (usize_of p1 + i)) (\<lambda>a.
     bind_op (read_reg_at (usize_of p2 + i)) (\<lambda>b.
     bind_op (lift_op (ok_or Panic (get_opt ki i))) (\<lambda>key.
       let ord = mem_compare a b (key_collation key); ord1 = (if desc key then reverse ord else ord) in
       if ord1 \<noteq> Equal then ret_op ord1 else compare_regs ki is p1 p2)))"

definition do_Compare :: "instruction \<Rightarrow> flow vm_op" where
  "do_Compare inst =
     (case inst_p4 inst of
        P4_KeyInfo ki \<Rightarrow>
          bind_op (compare_regs ki [0..<usize_of (inst_p3 inst)] (inst_p1 inst) (inst_p2 inst)) (\<lambda>ord.
            then_op (modify_op (\<lambda>vm. vm\<lparr>vm_last_compare := ord\<rparr>)) advance)
      | _ \<Rightarrow> fail_op (error_msg ''OP_Compare requires a KeyInfo p4''))"

definition do_Jump :: "instruction \<Rightarrow> flow vm_op" where
  "do_Jump inst vm =
     jump_to (case vm_last_compare vm of Less \<Rightarrow> inst_p1 inst | Equal \<Rightarrow> inst_p2 inst | Greater \<Rightarrow> inst_p3 inst) vm"

section \<open>Halting\<close>

definition pop_frame :: "vdbe_frame \<Rightarrow> vdbe \<Rightarrow> vdbe" where
  "pop_frame frame vm =
     vm\<lparr>vm_frames := tl (vm_frames vm), vm_program := fr_program frame, vm_pc := fr_pc frame,
        vm_regs := fr_regs frame, vm_cursors := fr_cursors frame, vm_cursor_root := fr_cursor_root frame,
        vm_decoded := fr_decoded frame, vm_aggregates := fr_aggregates frame, vm_once_done := fr_once_done frame,
        vm_write_txn := fr_write_txn frame\<rparr>"

definition ignore_jump :: "vdbe \<Rightarrow> vdbe" where
  "ignore_jump vm =
     (case get_opt (prog_instructions (vm_program vm)) (vm_pc vm - 1) of
        Some caller \<Rightarrow> if inst_opcode caller = Control Op_Program then vm\<lparr>vm_pc := usize_of (inst_p2 caller)\<rparr> else vm
      | None \<Rightarrow> vm)"

definition halt_message :: "instruction \<Rightarrow> string" where
  "halt_message inst =
     (let base = (case inst_p4 inst of P4_Text s \<Rightarrow> text_string s | _ \<Rightarrow> []);
          kind = (if inst_p5 inst = 1 then ''NOT NULL constraint failed: ''
                  else if inst_p5 inst = 2 then ''UNIQUE constraint failed: ''
                  else if inst_p5 inst = 3 then ''CHECK constraint failed: ''
                  else if inst_p5 inst = 4 then ''FOREIGN KEY constraint failed: '' else [])
      in if inst_p5 inst \<noteq> 0 \<and> base \<noteq> [] then kind @ base else base)"

definition constraint_error :: "string \<Rightarrow> failure" where
  "constraint_error message = Err (error_new Rc_Constraint message)"

definition override_oe :: "int \<Rightarrow> vdbe \<Rightarrow> vdbe" where
  "override_oe p2 vm = (if p2 \<noteq> 0 then vm\<lparr>vm_oe_override := Some (of_int p2)\<rparr> else vm)"

definition vm_commit :: "vm_env \<Rightarrow> (pager, unit) op" where
  "vm_commit env = pager_commit (ve_autovac env) (ve_drain env) (ve_salts env)"

definition commit_if_open :: "vm_env \<Rightarrow> unit vm_op" where
  "commit_if_open env vm = (case vm_pager vm of None \<Rightarrow> (vm, Inr ()) | Some _ \<Rightarrow> with_pager (vm_commit env) vm)"

definition release_stmt_savepoint :: "vdbe \<Rightarrow> vdbe" where
  "release_stmt_savepoint vm =
     (case (vm_stmt_savepoint vm, vm_pager vm) of
        (Some name, Some p) \<Rightarrow> vm\<lparr>vm_stmt_savepoint := None, vm_pager := Some (fst (release_savepoint name p))\<rparr>
      | _ \<Rightarrow> vm\<lparr>vm_stmt_savepoint := None\<rparr>)"

definition halt_top :: "vm_env \<Rightarrow> flow vm_op" where
  "halt_top env vm =
     (if vm_write_txn vm \<and> autocommit vm
      then then_op (commit_if_open env) (then_op (modify_op (\<lambda>vm. vm\<lparr>vm_write_txn := False\<rparr>)) halt_done) vm
      else halt_done (release_stmt_savepoint vm))"

definition do_Halt :: "vm_env \<Rightarrow> instruction \<Rightarrow> flow vm_op" where
  "do_Halt env inst vm =
     (case vm_frames vm of
        frame # _ \<Rightarrow>
          if inst_p1 inst = 0
          then (let vm1 = pop_frame frame vm in (if inst_p2 inst = 5 then ignore_jump vm1 else vm1, Inr Again))
          else (override_oe (inst_p2 inst) vm, Inl (constraint_error (halt_message inst)))
      | [] \<Rightarrow>
          if inst_p1 inst = 0 then halt_top env vm
          else (override_oe (inst_p2 inst) vm, Inl (constraint_error (halt_message inst))))"

definition do_HaltIfNull :: "instruction \<Rightarrow> flow vm_op" where
  "do_HaltIfNull inst =
     bind_op (read_reg (inst_p3 inst)) (\<lambda>v.
       if is_null v
       then then_op (modify_op (override_oe (inst_p2 inst)))
         (fail_op (constraint_error
            (case inst_p4 inst of P4_Text s \<Rightarrow> text_string s | _ \<Rightarrow> ''NOT NULL constraint failed'')))
       else advance)"

section \<open>Transactions\<close>

definition STMT_SP :: string where
  "STMT_SP = ''__rustqlite_stmt_abort''"

definition open_stmt_savepoint :: "vdbe \<Rightarrow> vdbe" where
  "open_stmt_savepoint vm =
     vm\<lparr>vm_pager := map_option (\<lambda>p. open_savepoint STMT_SP (fst (drop_savepoint_named STMT_SP p))) (vm_pager vm),
        vm_stmt_savepoint := Some STMT_SP\<rparr>"

definition do_Transaction :: "vm_env \<Rightarrow> instruction \<Rightarrow> flow vm_op" where
  "do_Transaction env inst =
     (if inst_p2 inst = 0 then then_op (with_pager begin_read) advance
      else bind_op (get_op vm_write_txn) (\<lambda>already_write.
        then_op (with_pager (begin_write (ve_cksum_init env) (2 \<le> inst_p2 inst)))
          (then_op (modify_op (\<lambda>vm. vm\<lparr>vm_write_txn := True\<rparr>))
            (then_op (modify_op (\<lambda>vm. if \<not> already_write \<and> \<not> autocommit vm then open_stmt_savepoint vm else vm))
              advance))))"

definition end_transaction :: "vm_env \<Rightarrow> bool \<Rightarrow> (pager, unit) op" where
  "end_transaction env rollback =
     then_op (\<lambda>p. if in_write_txn p then (if rollback then (pager_rollback p, Inr ()) else vm_commit env p) else (p, Inr ()))
       (modify_op clear_savepoints)"

definition leave_transaction :: "vdbe \<Rightarrow> vdbe" where
  "leave_transaction vm = (set_is_transaction_savepoint False vm)\<lparr>vm_write_txn := False\<rparr>"

definition do_AutoCommit :: "vm_env \<Rightarrow> instruction \<Rightarrow> flow vm_op" where
  "do_AutoCommit env inst vm =
     (let desired = (inst_p1 inst \<noteq> 0); rollback = (inst_p2 inst \<noteq> 0) in
      if desired = autocommit vm
      then (vm, Inl (error_msg
             (if \<not> desired then ''cannot start a transaction within a transaction''
              else if rollback then ''cannot rollback - no transaction is active''
              else ''cannot commit - no transaction is active'')))
      else then_op (modify_op (set_autocommit desired))
        (then_op
          (if desired
           then then_op (\<lambda>vm. case vm_pager vm of None \<Rightarrow> (vm, Inr ()) | Some _ \<Rightarrow> with_pager (end_transaction env rollback) vm)
             (modify_op leave_transaction)
           else ret_op ())
          halt_done) vm)"

definition savepoint_begin :: "string \<Rightarrow> unit vm_op" where
  "savepoint_begin name vm =
     (let vm1 = (if autocommit vm then set_is_transaction_savepoint True (set_autocommit False vm) else vm) in
      case vm_pager vm1 of
        Some p \<Rightarrow> (vm1\<lparr>vm_pager := Some (open_savepoint name p)\<rparr>, Inr ())
      | None \<Rightarrow> (vm1, Inl (error_msg ''cannot open savepoint - no database is open'')))"

definition savepoint_release :: "vm_env \<Rightarrow> string \<Rightarrow> unit vm_op" where
  "savepoint_release env name vm =
     (case vm_pager vm of
        None \<Rightarrow> (vm, Inl (error_msg ''no database is open''))
      | Some p \<Rightarrow>
          if savepoint_index name p = Some 0 \<and> is_transaction_savepoint vm
          then then_op (with_pager (end_transaction env False))
            (modify_op (\<lambda>vm. leave_transaction (set_autocommit True vm))) vm
          else bind_op (with_pager (release_savepoint name)) (\<lambda>_. ret_op ()) vm)"

definition do_Savepoint :: "vm_env \<Rightarrow> instruction \<Rightarrow> flow vm_op" where
  "do_Savepoint env inst =
     (case inst_p4 inst of
        P4_Text s \<Rightarrow>
          (let name = text_string s in
           if inst_p1 inst = 0 then then_op (savepoint_begin name) halt_done
           else if inst_p1 inst = 1 then then_op (savepoint_release env name) halt_done
           else if inst_p1 inst = 2 then then_op (with_pager (rollback_to_savepoint name)) halt_done
           else fail_op (error_msg (''OP_Savepoint: invalid p1 operand '' @ text_string (i64_to_string (of_int (inst_p1 inst))))))
      | _ \<Rightarrow> fail_op (error_msg ''OP_Savepoint requires a Text name in p4''))"

fun checkpoint_mode_of :: "int \<Rightarrow> checkpoint_mode option" where
  "checkpoint_mode_of p2 =
     (if p2 = 0 then Some Ck_Passive else if p2 = 1 then Some Ck_Full else if p2 = 2 then Some Ck_Restart
      else if p2 = 3 then Some Ck_Truncate else None)"

definition do_Checkpoint :: "vm_env \<Rightarrow> instruction \<Rightarrow> flow vm_op" where
  "do_Checkpoint env inst =
     (let base = usize_of (inst_p3 inst);
          fill = (\<lambda>n_log n_ckpt. then_op (write_reg_at base (VInt 0))
                    (then_op (write_reg_at (base + 1) (VInt n_log)) (write_reg_at (base + 2) (VInt n_ckpt)))) in
      then_op (with_pager (ret_op ()))
        (case checkpoint_mode_of (inst_p2 inst) of
           None \<Rightarrow> fail_op (error_msg (''OP_Checkpoint: invalid mode '' @ text_string (i64_to_string (of_int (inst_p2 inst)))))
         | Some mode \<Rightarrow>
             then_op (fill (- 1) (- 1))
               (bind_op (with_pager (pager_checkpoint (ve_salts env) mode)) (\<lambda>(n_log, n_ckpt).
                 then_op (fill (of_nat n_log) (of_nat n_ckpt)) advance))))"

definition do_SetCookie :: "instruction \<Rightarrow> flow vm_op" where
  "do_SetCookie inst =
     then_op (modify_op (\<lambda>vm. vm\<lparr>vm_pager :=
         map_option (with_header_mut (\<lambda>h. h\<lparr>schema_cookie := of_int (inst_p3 inst)\<rparr>)) (vm_pager vm)\<rparr>)) advance"

definition do_ParseSchema :: "instruction \<Rightarrow> flow vm_op" where
  "do_ParseSchema inst = advance"

definition do_CreateBtree :: "instruction \<Rightarrow> flow vm_op" where
  "do_CreateBtree inst =
     bind_op (with_pager (if inst_p3 inst = 1 then create_table_btree else create_index_btree)) (\<lambda>root.
       store_reg (inst_p2 inst) (VInt (ucast root)))"

definition do_Destroy :: "vm_env \<Rightarrow> instruction \<Rightarrow> flow vm_op" where
  "do_Destroy env inst =
     bind_op (with_pager (btree_destroy (ve_depth env) (of_int (inst_p1 inst)))) (\<lambda>_. advance)"

definition do_Clear :: "vm_env \<Rightarrow> instruction \<Rightarrow> flow vm_op" where
  "do_Clear env inst vm =
     (if is_ephemeral (inst_p1 inst) vm
      then then_op (with_eph [] (inst_p1 inst) (modify_op eph_clear)) advance vm
      else bind_op (with_pager (btree_clear (ve_depth env) (of_int (inst_p1 inst)))) (\<lambda>_. advance) vm)"

section \<open>Foreign keys\<close>

definition on_table :: "u32 \<Rightarrow> (cursor_state, 'a) op \<Rightarrow> (pager, 'a) op" where
  "on_table root m p = (case m (table_cursor_new p root, p) of ((_, p'), r) \<Rightarrow> (p', r))"

definition on_index :: "u32 \<Rightarrow> key_field list \<Rightarrow> (index_state, 'a) op \<Rightarrow> (pager, 'a) op" where
  "on_index root ki m p = (case m (index_cursor_new p root ki, p) of ((_, p'), r) \<Rightarrow> (p', r))"

definition entry_matches :: "sql_value list \<Rightarrow> sql_value list \<Rightarrow> key_field list \<Rightarrow> bool" where
  "entry_matches entry key ki \<longleftrightarrow> compare_prefix (entry_prefix entry key) key ki = Equal"

fun fk_row_matches :: "(nat \<times> nat) list \<Rightarrow> nat option \<Rightarrow> i64 \<Rightarrow> sql_value list \<Rightarrow> sql_value list \<Rightarrow> bool result" where
  "fk_row_matches [] rowid_alias rowid pvalues key = Inr True"
| "fk_row_matches ((i, col) # cols) rowid_alias rowid pvalues key =
     and_then (ok_or Panic (get_opt key i)) (\<lambda>k.
       let pv = (if Some col = rowid_alias then VInt rowid else field pvalues col) in
       if mem_compare pv k Binary \<noteq> Equal then Inr False else fk_row_matches cols rowid_alias rowid pvalues key)"

fun fk_scan :: "text_encoding \<Rightarrow> nat list \<Rightarrow> nat option \<Rightarrow> sql_value list \<Rightarrow> (i64 \<times> bytes) list \<Rightarrow> bool result" where
  "fk_scan enc cols rowid_alias key [] = Inr False"
| "fk_scan enc cols rowid_alias key ((rowid, payload) # rows) =
     and_then (decode_record payload enc) (\<lambda>pvalues.
     and_then (fk_row_matches (enumerate 0 cols) rowid_alias rowid pvalues key) (\<lambda>matched.
       if matched then Inr True else fk_scan enc cols rowid_alias key rows))"

definition fk_parent_exists :: "nat \<Rightarrow> fk_lookup \<Rightarrow> sql_value list \<Rightarrow> (pager, bool) op" where
  "fk_parent_exists d lookup key =
     (case lookup of
        RowidSeek root \<Rightarrow>
          bind_op (lift_op (ok_or Panic (get_opt key 0))) (\<lambda>v. on_table root (seek_rowid d (as_i64 v)))
      | IndexSeek root ki \<Rightarrow>
          on_index root ki (bind_op (index_seek d Seek_Ge key) (\<lambda>positioned s.
            if \<not> positioned then (s, Inr False)
            else (s, and_then (decode_record (index_payload (fst s)) (p_text_encoding (snd s))) (\<lambda>entry.
                       Inr (entry_matches entry key ki)))))
      | TableScan root cols rowid_alias \<Rightarrow>
          bind_op (scan_table d root) (\<lambda>rows p. (p, fk_scan (p_text_encoding p) cols rowid_alias key rows))
      | ParentMissing \<Rightarrow> ret_op False)"

definition do_FkCheck :: "vm_env \<Rightarrow> instruction \<Rightarrow> flow vm_op" where
  "do_FkCheck env inst =
     (case inst_p4 inst of
        P4_FkCheck fk \<Rightarrow>
          bind_op (reg_range (inst_p1 inst) (length (fk_child_columns fk))) (\<lambda>key.
            if list_ex is_null key then advance
            else bind_op (with_pager (fk_parent_exists (ve_depth env) (fk_lookup_of fk) key)) (\<lambda>found.
              branch (\<not> found) (inst_p2 inst)))
      | _ \<Rightarrow> fail_op (error_msg ''OP_FkCheck: missing P4::FkCheck''))"

end
