(* ===== verification/Vdbe_Data.thy ===== *)
theory Vdbe_Data
  imports Vdbe_Control
begin

text \<open>
  Instructions that read and write rows (\<open>step_inner\<close> of \<open>vdbe/exec.rs\<close>): opening and moving cursors,
  reading columns, index seeks and boundary tests, insertion and deletion, and the buffers of a
  statement (sorters, ephemeral tables, pseudo cursors).
\<close>

section \<open>Opening cursors\<close>

definition open_btree :: "int \<Rightarrow> u32 \<Rightarrow> key_field list option \<Rightarrow> flow vm_op" where
  "open_btree p1 root ki =
     then_op (bind_op (with_pager (get_op id)) (\<lambda>p. vdbe_set_cursor p1
         (case ki of Some ki \<Rightarrow> Cur_Index (index_cursor_new p root ki) | None \<Rightarrow> Cur_Table (table_cursor_new p root))))
       (then_op (set_cursor_root p1 root) advance)"

definition key_info_of :: "p4 \<Rightarrow> key_field list option" where
  "key_info_of p = (case p of P4_KeyInfo ki \<Rightarrow> Some ki | _ \<Rightarrow> None)"

definition do_OpenRead :: "instruction \<Rightarrow> flow vm_op" where
  "do_OpenRead inst = open_btree (inst_p1 inst) (of_int (inst_p2 inst)) (key_info_of (inst_p4 inst))"

definition do_OpenWrite :: "instruction \<Rightarrow> flow vm_op" where
  "do_OpenWrite inst = open_btree (inst_p1 inst) (of_int (inst_p2 inst)) (key_info_of (inst_p4 inst))"

definition do_OpenWriteReg :: "instruction \<Rightarrow> flow vm_op" where
  "do_OpenWriteReg inst =
     then_op (with_pager (ret_op ())) (bind_op (read_reg (inst_p2 inst)) (\<lambda>v.
       open_btree (inst_p1 inst) (ucast (as_i64 v)) (if inst_p3 inst = 1 then None else Some [])))"

definition do_Close :: "instruction \<Rightarrow> flow vm_op" where
  "do_Close inst vm = advance (vm\<lparr>vm_cursors := (vm_cursors vm)[usize_of (inst_p1 inst) := None]\<rparr>)"

definition do_OpenEphemeral :: "instruction \<Rightarrow> flow vm_op" where
  "do_OpenEphemeral inst vm =
     (let (heap, e) = (if key_info_of (inst_p4 inst) = None then eph_new (vm_encoding vm) (vm_heap vm)
                       else eph_new_index (vm_encoding vm) (vm_heap vm)) in
      then_op (vdbe_set_cursor (inst_p1 inst) (Cur_Ephemeral e)) advance (vm\<lparr>vm_heap := heap\<rparr>))"

definition do_OpenPseudo :: "instruction \<Rightarrow> flow vm_op" where
  "do_OpenPseudo inst vm =
     then_op (vdbe_set_cursor (inst_p1 inst) (Cur_Pseudo (pseudo_new (inst_p2 inst) (vm_encoding vm)))) advance vm"

definition do_OpenDup :: "instruction \<Rightarrow> flow vm_op" where
  "do_OpenDup inst vm =
     (case slot (inst_p2 inst) vm of
        Some (Cur_Ephemeral e) \<Rightarrow> then_op (vdbe_set_cursor (inst_p1 inst) (Cur_Ephemeral (eph_dup e))) advance vm
      | _ \<Rightarrow> (vm, Inl (error_msg ''OpenDup source is not an ephemeral cursor'')))"

definition do_SorterOpen :: "instruction \<Rightarrow> flow vm_op" where
  "do_SorterOpen inst vm =
     then_op (vdbe_set_cursor (inst_p1 inst) (Cur_Sorter
         (sorter_new (case key_info_of (inst_p4 inst) of None \<Rightarrow> [] | Some k \<Rightarrow> k) (vm_encoding vm)))) advance vm"

section \<open>Moving cursors\<close>

definition do_NullRow :: "instruction \<Rightarrow> flow vm_op" where
  "do_NullRow inst =
     then_op (bind_op (cursor_mut (inst_p1 inst)) (\<lambda>cur.
         case cur of
           Cur_Table c \<Rightarrow> modify_op (put_slot (inst_p1 inst) (Cur_Table (set_null_row c)))
         | Cur_Index c \<Rightarrow> fail_op (error_msg ''NullRow on an index cursor is not supported'')
         | Cur_Sorter s \<Rightarrow> fail_op (error_msg ''NullRow on a sorter/ephemeral cursor is not supported'')
         | Cur_Ephemeral e \<Rightarrow> fail_op (error_msg ''NullRow on a sorter/ephemeral cursor is not supported'')
         | Cur_Pseudo ps \<Rightarrow> modify_op (put_slot (inst_p1 inst) (Cur_Pseudo (ps\<lparr>ps_current := None\<rparr>)))))
       (then_op forget_decoded advance)"

definition table_moved :: "(cursor_state, unit) op \<Rightarrow> (cursor_state, bool) op" where
  "table_moved m = then_op m (get_op (\<lambda>s. cursor_is_valid (fst s)))"

definition index_moved :: "(index_state, unit) op \<Rightarrow> (index_state, bool) op" where
  "index_moved m = then_op m (get_op (\<lambda>s. index_is_valid (fst s)))"

definition do_Rewind :: "vm_env \<Rightarrow> instruction \<Rightarrow> flow vm_op" where
  "do_Rewind env inst =
     (let p1 = inst_p1 inst; p2 = inst_p2 inst in
      bind_op (cursor_mut p1) (\<lambda>cur.
        case cur of
          Cur_Table _ \<Rightarrow>
            bind_op (with_table p1 (table_moved (cursor_rewind (ve_depth env)))) (\<lambda>valid.
              then_op forget_decoded (branch (\<not> valid) p2))
        | Cur_Index _ \<Rightarrow>
            bind_op (with_index p1 (index_moved (index_rewind (ve_depth env)))) (\<lambda>valid. branch (\<not> valid) p2)
        | Cur_Sorter _ \<Rightarrow> fail_op (error_msg ''Rewind is not valid on a sorter cursor'')
        | Cur_Ephemeral _ \<Rightarrow>
            bind_op (with_eph [] p1 (\<lambda>s. case eph_rewind s of (s', b) \<Rightarrow> (s', Inr b))) (\<lambda>valid. branch (\<not> valid) p2)
        | Cur_Pseudo _ \<Rightarrow> advance))"

definition do_Next :: "vm_env \<Rightarrow> instruction \<Rightarrow> flow vm_op" where
  "do_Next env inst =
     (let p1 = inst_p1 inst; p2 = inst_p2 inst in
      bind_op (cursor_mut p1) (\<lambda>cur.
        case cur of
          Cur_Table _ \<Rightarrow>
            bind_op (with_table p1 (table_moved (cursor_next (ve_depth env)))) (\<lambda>valid.
              then_op forget_decoded (branch valid p2))
        | Cur_Index _ \<Rightarrow>
            bind_op (with_index p1 (index_moved (index_next (ve_depth env)))) (\<lambda>valid. branch valid p2)
        | Cur_Sorter _ \<Rightarrow>
            bind_op (with_sorter p1 (then_op (modify_op sorter_next) (get_op sorter_is_valid))) (\<lambda>valid. branch valid p2)
        | Cur_Ephemeral _ \<Rightarrow>
            bind_op (with_eph [] p1 (then_op (modify_op eph_next) (get_op eph_is_valid))) (\<lambda>valid. branch valid p2)
        | Cur_Pseudo _ \<Rightarrow> advance))"

definition do_SeekRowid :: "instruction \<Rightarrow> flow vm_op" where
  "do_SeekRowid inst =
     bind_op (read_reg (inst_p3 inst)) (\<lambda>v.
     bind_op (with_eph ''SeekRowid on an unsupported cursor type (only ephemeral supported)'' (inst_p1 inst)
         (eph_seek_rowid (as_i64 v))) (\<lambda>found. branch (\<not> found) (inst_p2 inst)))"

definition do_ResetSorter :: "instruction \<Rightarrow> flow vm_op" where
  "do_ResetSorter inst vm =
     (case slot (inst_p1 inst) vm of
        Some (Cur_Ephemeral _) \<Rightarrow> then_op (with_eph [] (inst_p1 inst) (modify_op eph_clear)) advance vm
      | Some (Cur_Sorter _) \<Rightarrow> then_op (with_sorter (inst_p1 inst) (modify_op sorter_clear)) advance vm
      | _ \<Rightarrow> (vm, Inl (error_msg ''ResetSorter on an unsupported cursor type'')))"

definition do_Last :: "instruction \<Rightarrow> flow vm_op" where
  "do_Last inst =
     bind_op (with_eph ''Last on an unsupported cursor type'' (inst_p1 inst) (\<lambda>s.
         let n = length (ed_records (snd s)) in
         if n = 0 then (s, Inr False) else eph_seek_rowid (of_nat n) s)) (\<lambda>nonempty.
       branch (\<not> nonempty) (inst_p2 inst))"

definition do_Prev :: "instruction \<Rightarrow> flow vm_op" where
  "do_Prev inst =
     bind_op (with_eph ''Prev on an unsupported cursor type'' (inst_p1 inst) (\<lambda>s.
         let cur = eph_pos (fst s) in
         if 0 < cur then eph_seek_rowid (of_nat cur) s else (s, Inr False))) (\<lambda>has_prev.
       branch has_prev (inst_p2 inst))"

definition do_NotExists :: "vm_env \<Rightarrow> instruction \<Rightarrow> flow vm_op" where
  "do_NotExists env inst =
     bind_op (read_reg (inst_p3 inst)) (\<lambda>v.
     bind_op (with_table (inst_p1 inst) (seek_rowid (ve_depth env) (as_i64 v))) (\<lambda>found.
       then_op forget_decoded (branch (\<not> found) (inst_p2 inst))))"

definition do_Rowid :: "instruction \<Rightarrow> flow vm_op" where
  "do_Rowid inst vm =
     bind_op (lift_op (case slot (inst_p1 inst) vm of
          Some (Cur_Table c) \<Rightarrow> cursor_rowid c
        | Some (Cur_Ephemeral e) \<Rightarrow> Inr (eph_rowid e)
        | _ \<Rightarrow> Inl (error_msg ''Rowid on an unsupported cursor type''))) (\<lambda>rowid.
       store_reg (inst_p2 inst) (VInt rowid)) vm"

section \<open>Reading columns\<close>

definition cache_hit :: "nat \<Rightarrow> i64 \<Rightarrow> decoded_row \<Rightarrow> bool" where
  "cache_hit idx rowid d = (case d of Some (ci, rid, _) \<Rightarrow> ci = idx \<and> rid = rowid | None \<Rightarrow> False)"

definition table_column :: "int \<Rightarrow> nat \<Rightarrow> table_cursor \<Rightarrow> sql_value vm_op" where
  "table_column p1 col c =
     bind_op (lift_op (cursor_rowid c)) (\<lambda>rowid.
       then_op (\<lambda>vm. if cache_hit (usize_of p1) rowid (vm_decoded vm) then (vm, Inr ())
           else bind_op (with_table p1 cursor_payload) (\<lambda>payload.
                bind_op (lift_op (decode_record payload (vm_encoding vm))) (\<lambda>vals.
                  modify_op (\<lambda>vm. vm\<lparr>vm_decoded := Some (usize_of p1, rowid, vals)\<rparr>))) vm)
         (\<lambda>vm. (vm, case vm_decoded vm of None \<Rightarrow> Inl Panic | Some (_, _, vals) \<Rightarrow> Inr (field vals col))))"

definition column :: "int \<Rightarrow> nat \<Rightarrow> sql_value vm_op" where
  "column p1 col vm =
     (case slot p1 vm of
        Some (Cur_Sorter s) \<Rightarrow> (vm, Inr (sorter_column col s))
      | Some (Cur_Ephemeral _) \<Rightarrow> with_eph [] p1 (then_op eph_load (get_op (\<lambda>s. eph_column col (fst s)))) vm
      | Some (Cur_Pseudo ps) \<Rightarrow>
          (case pseudo_data (vm_regs vm) ps of
             Inl e \<Rightarrow> (vm, Inl e)
           | Inr ps' \<Rightarrow> (put_slot p1 (Cur_Pseudo ps') vm, Inr (pseudo_column col ps')))
      | Some (Cur_Index c) \<Rightarrow>
          (vm, if index_payload c = [] then Inr VNull
               else and_then (decode_record (index_payload c) (vm_encoding vm)) (\<lambda>vals. Inr (field vals col)))
      | Some (Cur_Table c) \<Rightarrow> if tc_null_row c then (vm, Inr VNull) else table_column p1 col c vm
      | None \<Rightarrow> (vm, Inl (error_msg ''cursor is not an open table cursor'')))"

definition do_Column :: "instruction \<Rightarrow> flow vm_op" where
  "do_Column inst = bind_op (column (inst_p1 inst) (usize_of (inst_p2 inst))) (\<lambda>v. store_reg (inst_p3 inst) v)"

definition do_RowData :: "instruction \<Rightarrow> flow vm_op" where
  "do_RowData inst vm =
     (case slot (inst_p1 inst) vm of
        None \<Rightarrow> (vm, Inl (error_msg ''RowData on a closed cursor''))
      | Some (Cur_Ephemeral _) \<Rightarrow>
          bind_op (with_eph [] (inst_p1 inst) (\<lambda>s.
              (s, ok_or (error_msg ''RowData: ephemeral cursor has no current record'') (record_at (eph_pos (fst s)) (snd s)))))
            (\<lambda>blob. store_reg (inst_p2 inst) (VBlob blob)) vm
      | Some _ \<Rightarrow> (vm, Inl (error_msg ''RowData on an unsupported cursor type'')))"

definition do_ResultRow :: "instruction \<Rightarrow> flow vm_op" where
  "do_ResultRow inst vm =
     (vm\<lparr>vm_result_start := usize_of (inst_p1 inst), vm_result_count := usize_of (inst_p2 inst),
         vm_pc := vm_pc vm + 1\<rparr>, Inr (Give Step_Row))"

section \<open>Index probes\<close>

fun seek_op_of :: "probe_op \<Rightarrow> seek_op option" where
  "seek_op_of Op_SeekGE = Some Seek_Ge"
| "seek_op_of Op_SeekGT = Some Seek_Gt"
| "seek_op_of Op_SeekLE = Some Seek_Le"
| "seek_op_of Op_SeekLT = Some Seek_Lt"
| "seek_op_of _ = None"

definition do_Seek :: "vm_env \<Rightarrow> seek_op \<Rightarrow> instruction \<Rightarrow> flow vm_op" where
  "do_Seek env op inst =
     bind_op (reg_range (inst_p3 inst) (p4_len (inst_p4 inst))) (\<lambda>key.
     bind_op (with_index (inst_p1 inst) (index_seek (ve_depth env) op key)) (\<lambda>found.
       branch (\<not> found) (inst_p2 inst)))"

fun leaves_range :: "probe_op \<Rightarrow> ordering \<Rightarrow> bool" where
  "leaves_range Op_IdxGE ord = (ord = Less)"
| "leaves_range _ ord = (ord = Greater)"

definition do_IdxBound :: "probe_op \<Rightarrow> instruction \<Rightarrow> flow vm_op" where
  "do_IdxBound op inst =
     bind_op (reg_range (inst_p3 inst) (p4_len (inst_p4 inst))) (\<lambda>search_key.
     bind_op (index_cursor_of (inst_p1 inst)) (\<lambda>c vm.
       bind_op (lift_op (decode_record (index_payload c) (vm_encoding vm))) (\<lambda>values.
         branch (leaves_range op (compare_prefix (entry_prefix values search_key) search_key
                   (index_key_info (inst_p1 inst) vm))) (inst_p2 inst)) vm))"

definition index_found :: "nat \<Rightarrow> text_encoding \<Rightarrow> sql_value list \<Rightarrow> (index_state, bool) op" where
  "index_found d enc values =
     bind_op (index_seek d Seek_Ge values) (\<lambda>positioned s.
       if \<not> positioned then (s, Inr False)
       else (s, and_then (decode_record (index_payload (fst s)) enc) (\<lambda>entry.
                  Inr (entry_matches entry values (ic_key_info (fst s))))))"

definition probe_found :: "vm_env \<Rightarrow> int \<Rightarrow> sql_value list \<Rightarrow> bool vm_op" where
  "probe_found env p1 values vm =
     (case slot p1 vm of
        None \<Rightarrow> (vm, Inl (error_msg ''cursor is not open''))
      | Some (Cur_Ephemeral _) \<Rightarrow> with_eph [] p1 (get_op (\<lambda>s. find_values values (snd s))) vm
      | Some (Cur_Index _) \<Rightarrow> with_index p1 (index_found (ve_depth env) (vm_encoding vm) values) vm
      | Some _ \<Rightarrow> (vm, Inl (error_msg ''Found/NotFound/NoConflict requires an index cursor'')))"

definition do_Found :: "vm_env \<Rightarrow> probe_op \<Rightarrow> instruction \<Rightarrow> flow vm_op" where
  "do_Found env op inst =
     bind_op (reg_range (inst_p3 inst) (p4_len (inst_p4 inst))) (\<lambda>values.
       if op = Op_NoConflict \<and> list_ex is_null values then jump_to (inst_p2 inst)
       else bind_op (probe_found env (inst_p1 inst) values) (\<lambda>found.
         branch (if op = Op_Found then found else \<not> found) (inst_p2 inst)))"

definition do_IdxRowid :: "instruction \<Rightarrow> flow vm_op" where
  "do_IdxRowid inst =
     bind_op (with_index (inst_p1 inst) (\<lambda>s. (s, index_rowid s))) (\<lambda>rowid. store_reg (inst_p2 inst) (VInt rowid))"

section \<open>Writing rows\<close>

definition record_in :: "string \<Rightarrow> int \<Rightarrow> bytes vm_op" where
  "record_in message p =
     bind_op (read_reg p) (\<lambda>v. case v of VBlob b \<Rightarrow> ret_op b | _ \<Rightarrow> fail_op (error_msg message))"

definition count_changes :: "bool \<Rightarrow> unit vm_op" where
  "count_changes both vm =
     bind_op (lift_op (if both then i64_add (rc_changes (vm_ctx vm)) 1 else Inr (rc_changes (vm_ctx vm)))) (\<lambda>n.
     bind_op (lift_op (i64_add (rc_total_changes (vm_ctx vm)) 1)) (\<lambda>t.
       modify_op (set_ctx (\<lambda>c. c\<lparr>rc_changes := n, rc_total_changes := t\<rparr>)))) vm"

definition catch_unique :: "instruction \<Rightarrow> vdbe \<times> unit result \<Rightarrow> vdbe \<times> unit result" where
  "catch_unique inst res =
     (case res of
        (vm, Inl (Err e)) \<Rightarrow>
          if err_code e = Rc_Constraint \<and> has_flag (inst_p5 inst) P5_UNIQUE
          then (override_oe (uint (drop_bit 4 (inst_p5 inst))) vm,
                Inl (constraint_error (case inst_p4 inst of P4_Text s \<Rightarrow> text_string s | _ \<Rightarrow> ''UNIQUE constraint failed'')))
          else (vm, Inl (Err e))
      | other \<Rightarrow> other)"

definition do_IdxInsert :: "vm_env \<Rightarrow> instruction \<Rightarrow> flow vm_op" where
  "do_IdxInsert env inst vm =
     (let p1 = inst_p1 inst; rec_op = record_in ''IdxInsert expects a record blob in p2'' (inst_p2 inst) in
      if is_ephemeral p1 vm
      then bind_op rec_op (\<lambda>rec. then_op (with_eph [] p1 (modify_op (\<lambda>s. fst (eph_idx_insert rec s)))) advance) vm
      else then_op (with_pager (ret_op ()))
        (bind_op (cursor_root_of p1) (\<lambda>root. bind_op rec_op (\<lambda>rec.
          then_op (\<lambda>vm. catch_unique inst (with_pager
              (index_insert (ve_depth env) root rec (index_key_info p1 vm) (has_flag (inst_p5 inst) P5_UNIQUE)) vm))
            (then_op (if has_flag (inst_p5 inst) P5_NCHANGE then count_changes True else ret_op ()) advance)))) vm)"

definition mark_index_deleted :: "int \<Rightarrow> vdbe \<Rightarrow> vdbe" where
  "mark_index_deleted p1 vm =
     (case slot p1 vm of Some (Cur_Index c) \<Rightarrow> put_slot p1 (Cur_Index (mark_deleted c)) vm | _ \<Rightarrow> vm)"

definition do_IdxDelete :: "vm_env \<Rightarrow> instruction \<Rightarrow> flow vm_op" where
  "do_IdxDelete env inst =
     then_op (with_pager (ret_op ()))
       (bind_op (cursor_root_of (inst_p1 inst)) (\<lambda>root.
        bind_op (reg_range (inst_p2 inst) (usize_of (inst_p3 inst))) (\<lambda>key.
        bind_op (get_op (index_key_info (inst_p1 inst))) (\<lambda>ki.
        bind_op (with_pager (index_leaf_delete (ve_depth env) root (encode_record key) ki)) (\<lambda>_.
          then_op (modify_op (mark_index_deleted (inst_p1 inst))) advance)))))"

definition do_MakeRecord :: "instruction \<Rightarrow> flow vm_op" where
  "do_MakeRecord inst =
     bind_op (reg_range (inst_p1 inst) (usize_of (inst_p2 inst))) (\<lambda>vals.
       store_reg (inst_p3 inst) (VBlob (encode_record vals)))"

definition do_NewRowid :: "vm_env \<Rightarrow> instruction \<Rightarrow> flow vm_op" where
  "do_NewRowid env inst vm =
     (if is_ephemeral (inst_p1 inst) vm
      then bind_op (with_eph [] (inst_p1 inst) eph_next_rowid) (\<lambda>rowid. store_reg (inst_p2 inst) (VInt rowid)) vm
      else then_op (with_pager (ret_op ()))
        (bind_op (cursor_root_of (inst_p1 inst)) (\<lambda>root.
         bind_op (with_pager (max_rowid (ve_depth env) root)) (\<lambda>m. store_reg (inst_p2 inst) (VInt (m + 1))))) vm)"

definition do_Insert :: "vm_env \<Rightarrow> instruction \<Rightarrow> flow vm_op" where
  "do_Insert env inst vm =
     (let p1 = inst_p1 inst; rec_op = record_in ''Insert expects a record blob in p2'' (inst_p2 inst) in
      if is_ephemeral p1 vm
      then bind_op rec_op (\<lambda>rec. bind_op (read_reg (inst_p3 inst)) (\<lambda>_.
             then_op (with_eph [] p1 (modify_op (eph_insert rec))) advance)) vm
      else then_op (with_pager (ret_op ()))
        (bind_op (cursor_root_of p1) (\<lambda>root. bind_op rec_op (\<lambda>rec. bind_op (read_reg (inst_p3 inst)) (\<lambda>v.
          then_op (with_pager (table_insert (ve_depth env) root (as_i64 v) rec))
            (then_op (modify_op (\<lambda>vm. if has_flag (inst_p5 inst) P5_ISUPDATE then vm
                 else set_ctx (\<lambda>c. c\<lparr>rc_last_insert_rowid := as_i64 v, rc_did_insert := True\<rparr>) vm))
              (then_op (count_changes True) (then_op forget_decoded advance))))))) vm)"

definition do_Delete :: "vm_env \<Rightarrow> instruction \<Rightarrow> flow vm_op" where
  "do_Delete env inst vm =
     (let p1 = inst_p1 inst; is_update = has_flag (inst_p5 inst) P5_ISUPDATE in
      if is_ephemeral p1 vm
      then then_op (with_eph [] p1 (modify_op eph_delete_current)) advance vm
      else bind_op (cursor_root_of p1) (\<lambda>_. bind_op (table_cursor_of p1) (\<lambda>c.
        bind_op (lift_op (cursor_rowid c)) (\<lambda>rowid_before.
          then_op (with_table p1 (delete_current (ve_depth env)))
            (then_op (modify_op (\<lambda>vm. if is_update then vm else set_ctx (\<lambda>c. c\<lparr>rc_last_insert_rowid := rowid_before\<rparr>) vm))
              (then_op (count_changes (\<not> is_update)) (then_op forget_decoded advance)))))) vm)"

section \<open>Sorters\<close>

definition do_SorterInsert :: "instruction \<Rightarrow> flow vm_op" where
  "do_SorterInsert inst =
     bind_op (record_in ''SorterInsert expects a record blob'' (inst_p2 inst)) (\<lambda>rec.
       then_op (with_sorter (inst_p1 inst) (modify_op (sorter_insert rec))) advance)"

definition do_SorterSort :: "instruction \<Rightarrow> flow vm_op" where
  "do_SorterSort inst =
     bind_op (with_sorter (inst_p1 inst) sorter_sort) (\<lambda>nonempty. branch (\<not> nonempty) (inst_p2 inst))"

definition do_SorterData :: "instruction \<Rightarrow> flow vm_op" where
  "do_SorterData inst = then_op (with_sorter (inst_p1 inst) sorter_data) advance"

definition do_SorterNext :: "instruction \<Rightarrow> flow vm_op" where
  "do_SorterNext inst =
     bind_op (with_sorter (inst_p1 inst) (then_op (modify_op sorter_next) (get_op sorter_is_valid))) (\<lambda>valid.
       branch valid (inst_p2 inst))"

end
