(* ===== verification/Vdbe_Exec.thy ===== *)
theory Vdbe_Exec
  imports Vdbe_Data
begin

text \<open>
  The remaining instructions (\<open>vdbe/exec.rs\<close>): loads, operators, moves, functions and aggregates; the
  dispatch; the loop \<open>step_inner\<close>, which turns until an instruction gives a result; and \<open>step\<close>, which
  cleans up after an error the way the conflict action says. The loop takes a bound on its turns and is
  \<open>None\<close> when the bound is reached.
\<close>

section \<open>Loads\<close>

fun do_Load :: "load_op \<Rightarrow> instruction \<Rightarrow> flow vm_op" where
  "do_Load Op_Integer inst = store_reg (inst_p2 inst) (VInt (of_int (inst_p1 inst)))"
| "do_Load Op_Int64 inst = store_reg (inst_p2 inst) (VInt (as_p4_int (inst_p4 inst)))"
| "do_Load Op_Real inst = store_reg (inst_p2 inst) (VReal (as_p4_real (inst_p4 inst)))"
| "do_Load Op_String8 inst = store_reg (inst_p2 inst) (VText (as_p4_text (inst_p4 inst)))"
| "do_Load Op_Null inst =
     then_op (each_op (\<lambda>i. then_op (write_reg i VNull)
           (modify_op (\<lambda>vm. vm\<lparr>vm_aggregates := (vm_aggregates vm)(usize_of i := None)\<rparr>)))
         (if inst_p2 inst < inst_p3 inst then [inst_p2 inst..inst_p3 inst] else [inst_p2 inst])) advance"
| "do_Load Op_Blob inst = store_reg (inst_p2 inst) (VBlob (as_p4_blob (inst_p4 inst)))"

section \<open>Operators\<close>

definition binary_op :: "(sql_value \<Rightarrow> sql_value \<Rightarrow> sql_value result) \<Rightarrow> instruction \<Rightarrow> flow vm_op" where
  "binary_op f inst =
     bind_op (read_reg (inst_p2 inst)) (\<lambda>b. bind_op (read_reg (inst_p1 inst)) (\<lambda>a.
       bind_op (lift_op (f b a)) (\<lambda>v. store_reg (inst_p3 inst) v)))"

fun do_Arith :: "arith_op \<Rightarrow> instruction \<Rightarrow> flow vm_op" where
  "do_Arith Op_Concat inst = binary_op concat_values inst"
| "do_Arith Op_BitNot inst = bind_op (read_reg (inst_p1 inst)) (\<lambda>v. store_reg (inst_p2 inst) (bit_not v))"
| "do_Arith Op_BitAnd inst = binary_op (bitwise Op_BitAnd) inst"
| "do_Arith Op_BitOr inst = binary_op (bitwise Op_BitOr) inst"
| "do_Arith Op_ShiftLeft inst = binary_op (bitwise Op_ShiftLeft) inst"
| "do_Arith Op_ShiftRight inst = binary_op (bitwise Op_ShiftRight) inst"
| "do_Arith op inst = binary_op (arith op) inst"

definition do_Comparison :: "compare_op \<Rightarrow> instruction \<Rightarrow> flow vm_op" where
  "do_Comparison op inst =
     bind_op (read_reg (inst_p3 inst)) (\<lambda>left. bind_op (read_reg (inst_p1 inst)) (\<lambda>right.
     bind_op (lift_op (compare_values op left right (inst_p5 inst) (inst_p4 inst))) (\<lambda>res.
       if has_flag (inst_p5 inst) P5_STOREP2 then store_reg (inst_p2 inst) (bool3_to_value res)
       else branch (case res of Some b \<Rightarrow> b | None \<Rightarrow> has_flag (inst_p5 inst) P5_JUMPIFNULL) (inst_p2 inst))))"

fun do_Logic :: "logic_op \<Rightarrow> instruction \<Rightarrow> flow vm_op" where
  "do_Logic Op_And inst =
     bind_op (read_reg (inst_p1 inst)) (\<lambda>a. bind_op (read_reg (inst_p2 inst)) (\<lambda>b.
       store_reg (inst_p3 inst) (bool3_to_value (and3 (truth a) (truth b)))))"
| "do_Logic Op_Or inst =
     bind_op (read_reg (inst_p1 inst)) (\<lambda>a. bind_op (read_reg (inst_p2 inst)) (\<lambda>b.
       store_reg (inst_p3 inst) (bool3_to_value (or3 (truth a) (truth b)))))"
| "do_Logic Op_Not inst =
     bind_op (read_reg (inst_p1 inst)) (\<lambda>v. store_reg (inst_p2 inst) (bool3_to_value (map_option Not (truth v))))"
| "do_Logic Op_IsNull inst = bind_op (read_reg (inst_p1 inst)) (\<lambda>v. branch (is_null v) (inst_p2 inst))"
| "do_Logic Op_NotNull inst = bind_op (read_reg (inst_p1 inst)) (\<lambda>v. branch (\<not> is_null v) (inst_p2 inst))"
| "do_Logic Op_If inst =
     bind_op (read_reg (inst_p1 inst)) (\<lambda>v.
       branch (case truth v of Some b \<Rightarrow> b | None \<Rightarrow> inst_p3 inst \<noteq> 0) (inst_p2 inst))"
| "do_Logic Op_IfNot inst =
     bind_op (read_reg (inst_p1 inst)) (\<lambda>v.
       branch (case truth v of Some b \<Rightarrow> \<not> b | None \<Rightarrow> inst_p3 inst \<noteq> 0) (inst_p2 inst))"

section \<open>Moves and functions\<close>

definition copy_reg :: "bool \<Rightarrow> int \<Rightarrow> int \<Rightarrow> int \<Rightarrow> unit vm_op" where
  "copy_reg take_it p1 p2 i =
     bind_op (lift_op (i32_add p1 i)) (\<lambda>from. bind_op (read_reg from) (\<lambda>v.
       then_op (if take_it then write_reg from VNull else ret_op ())
         (bind_op (lift_op (i32_add p2 i)) (\<lambda>to. write_reg to v))))"

definition apply_affinity_at :: "int \<Rightarrow> nat \<times> u8 \<Rightarrow> unit vm_op" where
  "apply_affinity_at p1 kc =
     (case kc of (k, ch) \<Rightarrow>
        bind_op (read_reg_at (usize_of p1 + k)) (\<lambda>v.
        bind_op (lift_op (apply_affinity v (char_to_aff ch))) (\<lambda>v'. write_reg_at (usize_of p1 + k) v')))"

definition do_MustBeInt :: "instruction \<Rightarrow> flow vm_op" where
  "do_MustBeInt inst =
     bind_op (read_reg (inst_p1 inst)) (\<lambda>v.
     then_op (write_reg (inst_p1 inst) VNull)
       (bind_op (lift_op (apply_affinity v Aff_Numeric)) (\<lambda>v'.
         case v' of
           VInt _ \<Rightarrow> store_reg (inst_p1 inst) v'
         | _ \<Rightarrow> if inst_p2 inst \<noteq> 0 then then_op (write_reg (inst_p1 inst) v') (jump_to (inst_p2 inst))
                else fail_op (Err (error_new Rc_Mismatch ''datatype mismatch'')))))"

definition date_functions :: "bytes list" where
  "date_functions = map ascii_bytes
     [''date'', ''time'', ''datetime'', ''julianday'', ''unixepoch'', ''strftime'', ''timediff'',
      ''current_date'', ''current_time'', ''current_timestamp'']"

definition call_function :: "vm_env \<Rightarrow> bytes \<Rightarrow> sql_value list \<Rightarrow> sql_value vm_op" where
  "call_function env name args vm =
     (let lname = map ascii_lower name; ctx = vm_ctx vm in
      if lname = ascii_bytes ''random''
      then (case next_u64 ctx of (ctx', z) \<Rightarrow> (vm\<lparr>vm_ctx := ctx'\<rparr>, Inr (VInt z)))
      else if lname = ascii_bytes ''randomblob''
      then (case randomblob_len (get_opt args 0) of
              Inl e \<Rightarrow> (vm, Inl e)
            | Inr n \<Rightarrow> (case random_bytes n ctx of (ctx', out) \<Rightarrow> (vm\<lparr>vm_ctx := ctx'\<rparr>, Inr (VBlob out))))
      else if lname = ascii_bytes ''changes'' then (vm, Inr (VInt (rc_changes ctx)))
      else if lname = ascii_bytes ''total_changes'' then (vm, Inr (VInt (rc_total_changes ctx)))
      else if lname = ascii_bytes ''last_insert_rowid'' then (vm, Inr (VInt (rc_last_insert_rowid ctx)))
      else if lname = ascii_bytes ''sqlite_version'' then (vm, Inr (VText (ascii_bytes ''3.53.1'')))
      else if lname \<in> set date_functions then (vm, ve_date_fn env lname args)
      else (vm, ve_call_scalar env name args))"

definition do_Function :: "vm_env \<Rightarrow> instruction \<Rightarrow> flow vm_op" where
  "do_Function env inst =
     bind_op (reg_range (inst_p2 inst) (unat (inst_p5 inst))) (\<lambda>args.
     bind_op (call_function env (as_p4_text (inst_p4 inst)) args) (\<lambda>v. store_reg (inst_p3 inst) v))"

fun do_Moves :: "vm_env \<Rightarrow> move_op \<Rightarrow> instruction \<Rightarrow> flow vm_op" where
  "do_Moves env Op_Copy inst =
     then_op (each_op (copy_reg False (inst_p1 inst) (inst_p2 inst)) [0..inst_p3 inst]) advance"
| "do_Moves env Op_SCopy inst = bind_op (read_reg (inst_p1 inst)) (\<lambda>v. store_reg (inst_p2 inst) v)"
| "do_Moves env Op_Move inst =
     then_op (each_op (copy_reg True (inst_p1 inst) (inst_p2 inst)) [0..inst_p3 inst - 1]) advance"
| "do_Moves env Op_Affinity inst =
     then_op (each_op (apply_affinity_at (inst_p1 inst))
         (take (usize_of (inst_p2 inst)) (enumerate 0 (as_p4_text (inst_p4 inst))))) advance"
| "do_Moves env Op_RealAffinity inst =
     bind_op (read_reg (inst_p1 inst)) (\<lambda>v.
       case v of VInt i \<Rightarrow> store_reg (inst_p1 inst) (VReal (f64_of_i64 i)) | _ \<Rightarrow> advance)"
| "do_Moves env Op_MustBeInt inst = do_MustBeInt inst"
| "do_Moves env Op_Function inst = do_Function env inst"
| "do_Moves env Op_AddImm inst =
     bind_op (read_reg (inst_p1 inst)) (\<lambda>v.
     bind_op (lift_op (i64_add (as_i64 v) (of_int (inst_p2 inst)))) (\<lambda>n. store_reg (inst_p1 inst) (VInt n)))"
| "do_Moves env Op_MemMax inst =
     bind_op (read_reg (inst_p1 inst)) (\<lambda>a. bind_op (read_reg (inst_p2 inst)) (\<lambda>b.
       if sint (as_i64 a) < sint (as_i64 b) then store_reg (inst_p1 inst) (VInt (as_i64 b)) else advance))"

section \<open>Counters and aggregates\<close>

definition func_def :: "string \<Rightarrow> instruction \<Rightarrow> aggregate_kind vm_op" where
  "func_def opname inst =
     (case inst_p4 inst of P4_FuncDef k \<Rightarrow> ret_op k | _ \<Rightarrow> fail_op (error_msg (opname @ '' requires a FuncDef p4'')))"

definition agg_args :: "aggregate_kind \<Rightarrow> instruction \<Rightarrow> (sql_value list \<times> bool) vm_op" where
  "agg_args kind inst =
     (let n_arg = unat (inst_p5 inst) in
      if kind = Agg_Count \<and> n_arg = 0 then ret_op ([], True)
      else bind_op (reg_range (inst_p2 inst) n_arg) (\<lambda>args. ret_op (args, False)))"

definition put_agg :: "nat \<Rightarrow> accumulator \<Rightarrow> vdbe \<Rightarrow> vdbe" where
  "put_agg i acc vm = vm\<lparr>vm_aggregates := (vm_aggregates vm)(i \<mapsto> acc)\<rparr>"

definition do_AggStep :: "instruction \<Rightarrow> flow vm_op" where
  "do_AggStep inst =
     bind_op (func_def ''AggStep'' inst) (\<lambda>kind. bind_op (agg_args kind inst) (\<lambda>(args, star) vm.
       let i = usize_of (inst_p3 inst); acc = (case vm_aggregates vm i of None \<Rightarrow> accumulator_new kind | Some a \<Rightarrow> a) in
       bind_op (lift_op (agg_step args star acc)) (\<lambda>acc'. then_op (modify_op (put_agg i acc')) advance) vm))"

definition do_AggInverse :: "instruction \<Rightarrow> flow vm_op" where
  "do_AggInverse inst =
     bind_op (func_def ''AggInverse'' inst) (\<lambda>kind. bind_op (agg_args kind inst) (\<lambda>(args, star) vm.
       let i = usize_of (inst_p3 inst) in
       case vm_aggregates vm i of
         None \<Rightarrow> (vm, Inl (error_msg ''AggInverse without a preceding AggStep on the accumulator''))
       | Some acc \<Rightarrow>
           bind_op (lift_op (agg_inverse args star acc)) (\<lambda>acc'. then_op (modify_op (put_agg i acc')) advance) vm))"

definition do_AggFinal :: "instruction \<Rightarrow> flow vm_op" where
  "do_AggFinal inst =
     bind_op (func_def ''AggFinal'' inst) (\<lambda>kind vm.
       let i = usize_of (inst_p1 inst) in
       bind_op (lift_op (case vm_aggregates vm i of
            Some acc \<Rightarrow> finalize_accumulator acc kind | None \<Rightarrow> Inr (empty_aggregate_result kind))) (\<lambda>v.
         then_op (modify_op (\<lambda>vm. vm\<lparr>vm_aggregates := (vm_aggregates vm)(i := None)\<rparr>)) (store_reg (inst_p1 inst) v)) vm)"

definition do_AggValue :: "instruction \<Rightarrow> flow vm_op" where
  "do_AggValue inst =
     bind_op (func_def ''AggValue'' inst) (\<lambda>kind vm.
       let i = usize_of (inst_p1 inst) in
       case vm_aggregates vm i of
         None \<Rightarrow> store_reg (inst_p3 inst) (empty_aggregate_result kind) vm
       | Some acc \<Rightarrow>
           if window_only kind
           then bind_op (lift_op (agg_value_mut acc)) (\<lambda>(acc', v).
                  then_op (modify_op (put_agg i acc')) (store_reg (inst_p3 inst) v)) vm
           else store_reg (inst_p3 inst) (agg_value acc) vm)"

fun do_Agg :: "agg_op \<Rightarrow> instruction \<Rightarrow> flow vm_op" where
  "do_Agg Op_DecrJumpZero inst =
     bind_op (read_reg (inst_p1 inst)) (\<lambda>v. bind_op (lift_op (i64_sub (as_i64 v) 1)) (\<lambda>n.
       then_op (write_reg (inst_p1 inst) (VInt n)) (branch (n = 0) (inst_p2 inst))))"
| "do_Agg Op_IfPos inst =
     bind_op (read_reg (inst_p1 inst)) (\<lambda>v.
       if 0 < sint (as_i64 v)
       then bind_op (lift_op (i64_sub (as_i64 v) (of_int (inst_p3 inst)))) (\<lambda>n.
              then_op (write_reg (inst_p1 inst) (VInt n)) (jump_to (inst_p2 inst)))
       else advance)"
| "do_Agg Op_AggStep inst = do_AggStep inst"
| "do_Agg Op_AggInverse inst = do_AggInverse inst"
| "do_Agg Op_AggFinal inst = do_AggFinal inst"
| "do_Agg Op_AggValue inst = do_AggValue inst"

section \<open>Dispatch\<close>

fun do_Control :: "vm_env \<Rightarrow> control_op \<Rightarrow> instruction \<Rightarrow> flow vm_op" where
  "do_Control env Op_Init inst = do_Init inst"
| "do_Control env Op_Goto inst = do_Goto inst"
| "do_Control env Op_Halt inst = do_Halt env inst"
| "do_Control env Op_Gosub inst = do_Gosub inst"
| "do_Control env Op_Return inst = do_Return inst"
| "do_Control env Op_InitCoroutine inst = do_InitCoroutine inst"
| "do_Control env Op_EndCoroutine inst = do_EndCoroutine inst"
| "do_Control env Op_Yield inst = do_Yield inst"
| "do_Control env Op_Once inst = do_Once inst"
| "do_Control env Op_Program inst = do_Program inst"
| "do_Control env Op_Param inst = do_Param inst"
| "do_Control env Op_Compare inst = do_Compare inst"
| "do_Control env Op_Jump inst = do_Jump inst"
| "do_Control env Op_HaltIfNull inst = do_HaltIfNull inst"

fun do_Txn :: "vm_env \<Rightarrow> txn_op \<Rightarrow> instruction \<Rightarrow> flow vm_op" where
  "do_Txn env Op_Transaction inst = do_Transaction env inst"
| "do_Txn env Op_AutoCommit inst = do_AutoCommit env inst"
| "do_Txn env Op_Savepoint inst = do_Savepoint env inst"
| "do_Txn env Op_SetCookie inst = do_SetCookie inst"
| "do_Txn env Op_ParseSchema inst = do_ParseSchema inst"
| "do_Txn env Op_CreateBtree inst = do_CreateBtree inst"
| "do_Txn env Op_Destroy inst = do_Destroy env inst"
| "do_Txn env Op_Clear inst = do_Clear env inst"
| "do_Txn env Op_Checkpoint inst = do_Checkpoint env inst"
| "do_Txn env Op_FkCheck inst = do_FkCheck env inst"

fun do_Cursor :: "vm_env \<Rightarrow> cursor_op \<Rightarrow> instruction \<Rightarrow> flow vm_op" where
  "do_Cursor env Op_OpenRead inst = do_OpenRead inst"
| "do_Cursor env Op_OpenWrite inst = do_OpenWrite inst"
| "do_Cursor env Op_OpenWriteReg inst = do_OpenWriteReg inst"
| "do_Cursor env Op_Close inst = do_Close inst"
| "do_Cursor env Op_Rewind inst = do_Rewind env inst"
| "do_Cursor env Op_Next inst = do_Next env inst"
| "do_Cursor env Op_NotExists inst = do_NotExists env inst"
| "do_Cursor env Op_NullRow inst = do_NullRow inst"
| "do_Cursor env Op_SeekRowid inst = do_SeekRowid inst"
| "do_Cursor env Op_Last inst = do_Last inst"
| "do_Cursor env Op_Prev inst = do_Prev inst"
| "do_Cursor env Op_Rowid inst = do_Rowid inst"
| "do_Cursor env Op_Column inst = do_Column inst"
| "do_Cursor env Op_ResultRow inst = do_ResultRow inst"

fun do_Write :: "vm_env \<Rightarrow> write_op \<Rightarrow> instruction \<Rightarrow> flow vm_op" where
  "do_Write env Op_MakeRecord inst = do_MakeRecord inst"
| "do_Write env Op_NewRowid inst = do_NewRowid env inst"
| "do_Write env Op_Insert inst = do_Insert env inst"
| "do_Write env Op_Delete inst = do_Delete env inst"
| "do_Write env Op_IdxInsert inst = do_IdxInsert env inst"
| "do_Write env Op_IdxDelete inst = do_IdxDelete env inst"
| "do_Write env Op_IdxRowid inst = do_IdxRowid inst"

definition do_Probe :: "vm_env \<Rightarrow> probe_op \<Rightarrow> instruction \<Rightarrow> flow vm_op" where
  "do_Probe env op inst =
     (case seek_op_of op of
        Some sop \<Rightarrow> do_Seek env sop inst
      | None \<Rightarrow> if op \<in> {Op_Found, Op_NotFound, Op_NoConflict} then do_Found env op inst else do_IdxBound op inst)"

fun do_Buffer :: "buffer_op \<Rightarrow> instruction \<Rightarrow> flow vm_op" where
  "do_Buffer Op_SorterOpen inst = do_SorterOpen inst"
| "do_Buffer Op_SorterInsert inst = do_SorterInsert inst"
| "do_Buffer Op_SorterSort inst = do_SorterSort inst"
| "do_Buffer Op_SorterData inst = do_SorterData inst"
| "do_Buffer Op_SorterNext inst = do_SorterNext inst"
| "do_Buffer Op_ResetSorter inst = do_ResetSorter inst"
| "do_Buffer Op_OpenEphemeral inst = do_OpenEphemeral inst"
| "do_Buffer Op_OpenPseudo inst = do_OpenPseudo inst"
| "do_Buffer Op_OpenDup inst = do_OpenDup inst"
| "do_Buffer Op_RowData inst = do_RowData inst"

fun dispatch :: "vm_env \<Rightarrow> opcode \<Rightarrow> instruction \<Rightarrow> flow vm_op" where
  "dispatch env (Control op) inst = do_Control env op inst"
| "dispatch env (Txn op) inst = do_Txn env op inst"
| "dispatch env (Cursor op) inst = do_Cursor env op inst"
| "dispatch env (Write op) inst = do_Write env op inst"
| "dispatch env (Probe op) inst = do_Probe env op inst"
| "dispatch env (Load op) inst = do_Load op inst"
| "dispatch env (Arith op) inst = do_Arith op inst"
| "dispatch env (Comparison op) inst = do_Comparison op inst"
| "dispatch env (Logic op) inst = do_Logic op inst"
| "dispatch env (Moves op) inst = do_Moves env op inst"
| "dispatch env (Buffer op) inst = do_Buffer op inst"
| "dispatch env (Agg op) inst = do_Agg op inst"

definition turn :: "vm_env \<Rightarrow> flow vm_op" where
  "turn env vm =
     (case get_opt (prog_instructions (vm_program vm)) (vm_pc vm) of
        None \<Rightarrow> (vm, Inl (error_msg ''program counter ran off the end of the program''))
      | Some inst \<Rightarrow> dispatch env (inst_opcode inst) inst vm)"

section \<open>Stepping\<close>

fun run_loop :: "nat \<Rightarrow> vm_env \<Rightarrow> vdbe \<Rightarrow> (vdbe \<times> step_result result) option" where
  "run_loop 0 env vm = None"
| "run_loop (Suc n) env vm =
     (case turn env vm of
        (vm', Inl e) \<Rightarrow> Some (vm', Inl e)
      | (vm', Inr (Give r)) \<Rightarrow> Some (vm', Inr r)
      | (vm', Inr Again) \<Rightarrow> run_loop n env vm')"

definition step_inner :: "nat \<Rightarrow> vm_env \<Rightarrow> vdbe \<Rightarrow> (vdbe \<times> step_result result) option" where
  "step_inner n env vm = (if vm_halted vm then Some (vm, Inr Step_Done) else run_loop n env vm)"

text \<open>The cleanup after an error, on a machine with a write transaction and a pager.\<close>

definition on_fail :: "vm_env \<Rightarrow> pager \<Rightarrow> vdbe \<Rightarrow> vdbe" where
  "on_fail env p vm =
     (case vm_stmt_savepoint vm of
        Some name \<Rightarrow> vm\<lparr>vm_stmt_savepoint := None, vm_pager := Some (fst (release_savepoint name p))\<rparr>
      | None \<Rightarrow> if autocommit vm then vm\<lparr>vm_pager := Some (fst (vm_commit env p)), vm_write_txn := False\<rparr> else vm)"

definition on_rollback :: "pager \<Rightarrow> vdbe \<Rightarrow> vdbe" where
  "on_rollback p vm = vm\<lparr>vm_pager := Some (pager_rollback p), vm_write_txn := False, vm_stmt_savepoint := None\<rparr>"

definition on_abort :: "pager \<Rightarrow> vdbe \<Rightarrow> vdbe" where
  "on_abort p vm =
     (case vm_stmt_savepoint vm of
        Some name \<Rightarrow> vm\<lparr>vm_stmt_savepoint := None,
                       vm_pager := Some (fst (release_savepoint name (fst (rollback_to_savepoint name p))))\<rparr>
      | None \<Rightarrow> vm\<lparr>vm_pager := Some (pager_rollback p), vm_write_txn := False\<rparr>)"

definition clean_up :: "vm_env \<Rightarrow> vdbe \<Rightarrow> vdbe" where
  "clean_up env vm =
     (let oe = oe_from_u8 (case vm_oe_override vm of Some b \<Rightarrow> b | None \<Rightarrow> prog_default_oe (vm_program vm));
          vm1 = vm\<lparr>vm_oe_override := None\<rparr>;
          vm2 = (case vm_pager vm1 of
                   Some p \<Rightarrow> if vm_write_txn vm1
                     then (case oe of Oe_Fail \<Rightarrow> on_fail env p vm1 | Oe_Rollback \<Rightarrow> on_rollback p vm1 | _ \<Rightarrow> on_abort p vm1)
                     else vm1
                 | None \<Rightarrow> vm1)
      in vm2\<lparr>vm_halted := True\<rparr>)"

definition vdbe_step :: "nat \<Rightarrow> vm_env \<Rightarrow> vdbe \<Rightarrow> (vdbe \<times> step_result result) option" where
  "vdbe_step n env vm =
     (case step_inner n env vm of
        None \<Rightarrow> None
      | Some (vm', Inl (Err e)) \<Rightarrow> Some (clean_up env vm', Inl (Err e))
      | Some (vm', r) \<Rightarrow> Some (vm', r))"

end
