(* ===== verification/Vdbe_Inv.thy ===== *)
theory Vdbe_Inv
  imports Vdbe_Exec
begin

text \<open>
  The invariant of the machine: in the running program and in every calling frame the register file has
  the size the program asks for, an open table or index cursor comes with a pager, and an ephemeral
  cursor points to a cell of the store. Every instruction keeps it, so that the run-time checks the
  model writes for a dangling cursor never fire.
\<close>

named_theorems vm_keeps \<open>operations of the machine keep its invariant\<close>

fun slot_ok :: "bool \<Rightarrow> nat \<Rightarrow> vdbe_cursor option \<Rightarrow> bool" where
  "slot_ok db n None = True"
| "slot_ok db n (Some (Cur_Table _)) = db"
| "slot_ok db n (Some (Cur_Index _)) = db"
| "slot_ok db n (Some (Cur_Ephemeral e)) = (eph_data e < n)"
| "slot_ok db n (Some _) = True"

definition frame_ok :: "bool \<Rightarrow> nat \<Rightarrow> vdbe_frame \<Rightarrow> bool" where
  "frame_ok db n f \<longleftrightarrow> length (fr_regs f) = num_regs (fr_program f) \<and> list_all (slot_ok db n) (fr_cursors f)"

definition vm_wf :: "vdbe \<Rightarrow> bool" where
  "vm_wf vm \<longleftrightarrow>
     length (vm_regs vm) = num_regs (vm_program vm)
     \<and> list_all (slot_ok (vm_pager vm \<noteq> None) (length (vm_heap vm))) (vm_cursors vm)
     \<and> list_all (frame_ok (vm_pager vm \<noteq> None) (length (vm_heap vm))) (vm_frames vm)"

lemma keepsI: "(\<And>s. P s \<Longrightarrow> P (fst (m s))) \<Longrightarrow> keeps P m"
  by (simp add: keeps_def)

lemma wf_at: "keeps P m \<Longrightarrow> P s \<Longrightarrow> P (fst (m s))"
  by (simp add: keeps_def)

lemma keeps_if: "keeps P a \<Longrightarrow> keeps P b \<Longrightarrow> keeps P (if c then a else b)"
  by simp

section \<open>Cursors\<close>

lemma slot_ok_grow: "slot_ok db n c \<Longrightarrow> (db \<longrightarrow> db') \<Longrightarrow> n \<le> n' \<Longrightarrow> slot_ok db' n' c"
  by (cases "(db, n, c)" rule: slot_ok.cases) auto

lemma cursors_ok_grow:
  "list_all (slot_ok db n) cs \<Longrightarrow> (db \<longrightarrow> db') \<Longrightarrow> n \<le> n' \<Longrightarrow> list_all (slot_ok db' n') cs"
  by (auto simp: list_all_iff intro: slot_ok_grow)

lemma frames_ok_grow:
  "list_all (frame_ok db n) fs \<Longrightarrow> (db \<longrightarrow> db') \<Longrightarrow> n \<le> n' \<Longrightarrow> list_all (frame_ok db' n') fs"
  by (auto simp: list_all_iff frame_ok_def intro: slot_ok_grow)

lemma list_all_update: "list_all P xs \<Longrightarrow> P x \<Longrightarrow> list_all P (xs[i := x])"
  by (auto simp: list_all_iff dest: set_update_subset_insert [THEN subsetD])

text \<open>Updates of the other fields, and growth of the pager and of the store.\<close>

lemma vm_wf_grow:
  assumes "vm_wf vm" and "vm_program vm' = vm_program vm" and "length (vm_regs vm') = length (vm_regs vm)"
    and "vm_cursors vm' = vm_cursors vm" and "vm_frames vm' = vm_frames vm"
    and "vm_pager vm \<noteq> None \<longrightarrow> vm_pager vm' \<noteq> None" and "length (vm_heap vm) \<le> length (vm_heap vm')"
  shows "vm_wf vm'"
proof -
  have w: "length (vm_regs vm) = num_regs (vm_program vm)"
      "list_all (slot_ok (vm_pager vm \<noteq> None) (length (vm_heap vm))) (vm_cursors vm)"
      "list_all (frame_ok (vm_pager vm \<noteq> None) (length (vm_heap vm))) (vm_frames vm)"
    using assms(1) unfolding vm_wf_def by blast+
  show ?thesis
    unfolding vm_wf_def assms(2-5)
    using w(1) cursors_ok_grow [OF w(2) assms(6,7)] frames_ok_grow [OF w(3) assms(6,7)] by (intro conjI)
qed

lemma slot_in: "slot p vm = Some c \<Longrightarrow> Some c \<in> set (vm_cursors vm)"
  by (auto simp: slot_def get_opt_def split: option.splits if_splits) (metis nth_mem)

lemma slot_wf: "vm_wf vm \<Longrightarrow> slot p vm = Some c \<Longrightarrow> slot_ok (vm_pager vm \<noteq> None) (length (vm_heap vm)) (Some c)"
  using slot_in by (fastforce simp: vm_wf_def list_all_iff)

lemma put_slot_wf:
  "vm_wf vm \<Longrightarrow> slot_ok (vm_pager vm \<noteq> None) (length (vm_heap vm)) (Some c) \<Longrightarrow> vm_wf (put_slot p c vm)"
  by (simp add: vm_wf_def put_slot_def list_all_update)

lemma no_cursors_ok [simp]: "list_all (slot_ok db n) (replicate k None)"
  by (induction k) simp_all

lemma set_cursor_wf:
  "vm_wf vm \<Longrightarrow> slot_ok (vm_pager vm \<noteq> None) (length (vm_heap vm)) (Some c) \<Longrightarrow> vm_wf (fst (vdbe_set_cursor p c vm))"
  by (simp add: vdbe_set_cursor_def Let_def vm_wf_def put_slot_def list_all_update no_cursors_ok)

text \<open>An operation of an ephemeral cursor never moves it to another cell.\<close>

definition stays :: "(eph_state, 'a) op \<Rightarrow> bool" where
  "stays m \<longleftrightarrow> (\<forall>s. eph_data (fst (fst (m s))) = eph_data (fst s))"

lemma stays_ops [simp]:
  "stays (get_op f)" "stays eph_next_rowid" "stays eph_load" "stays (eph_seek_rowid r)"
  "stays (modify_op eph_clear)" "stays (modify_op eph_next)" "stays (modify_op (eph_insert rec))"
  "stays (modify_op (\<lambda>s. fst (eph_idx_insert rec s)))" "stays (modify_op eph_delete_current)"
  "stays (\<lambda>s. case eph_rewind s of (s', b) \<Rightarrow> (s', Inr b))"
  by (auto simp: stays_def eph_next_rowid_def eph_load_def eph_seek_rowid_def eph_clear_def eph_next_def
      eph_insert_def eph_idx_insert_def eph_delete_current_def eph_rewind_def
      split: prod.split sum.split option.split)

lemma stays_then [simp]: "stays m \<Longrightarrow> stays n \<Longrightarrow> stays (then_op m n)"
  by (auto simp: stays_def then_op_def bind_op_def split: prod.splits sum.splits) (metis fst_conv)+


lemma stays_seek: "stays (\<lambda>s. if c s then (s, Inr False) else eph_seek_rowid (r s) s)"
    "stays (\<lambda>s. if c s then eph_seek_rowid (r s) s else (s, Inr False))"
  using stays_ops(4) by (simp_all add: stays_def)

lemma stays_look: "stays (\<lambda>s. (s, r s))"
  by (simp add: stays_def)

lemma keeps_pair: "keeps P (\<lambda>s. (s, r s))"
  by (simp add: keeps_def)

lemma keeps_state: "(\<And>vm. keeps P (g vm)) \<Longrightarrow> keeps P (\<lambda>vm. g vm vm)"
  by (simp add: keeps_def)

section \<open>What an instruction may do to the machine\<close>

text \<open>
  A property of the machine that survives every update an instruction other than \<open>Program\<close> and \<open>Halt\<close>
  makes: registers keep their number, the pager stays open, the store only grows, and a cursor that is
  put into the table is a good one. The laws are what the property promises; below them every such
  instruction is shown to keep it.
\<close>

locale vm_property =
  fixes P :: "vdbe \<Rightarrow> bool"
  assumes grow: "P vm \<Longrightarrow> vm_program vm' = vm_program vm \<Longrightarrow> length (vm_regs vm') = length (vm_regs vm) \<Longrightarrow>
      vm_cursors vm' = vm_cursors vm \<Longrightarrow> vm_frames vm' = vm_frames vm \<Longrightarrow>
      (vm_pager vm \<noteq> None \<longrightarrow> vm_pager vm' \<noteq> None) \<Longrightarrow> length (vm_heap vm) \<le> length (vm_heap vm') \<Longrightarrow> P vm'"
    and slot_of: "P vm \<Longrightarrow> slot p vm = Some c \<Longrightarrow> slot_ok (vm_pager vm \<noteq> None) (length (vm_heap vm)) (Some c)"
    and put: "P vm \<Longrightarrow> slot_ok (vm_pager vm \<noteq> None) (length (vm_heap vm)) (Some c) \<Longrightarrow> P (put_slot p c vm)"
    and open_slot: "P vm \<Longrightarrow> slot_ok (vm_pager vm \<noteq> None) (length (vm_heap vm)) (Some c) \<Longrightarrow>
      P (fst (vdbe_set_cursor p c vm))"
    and close: "P vm \<Longrightarrow> P (vm\<lparr>vm_cursors := (vm_cursors vm)[i := None]\<rparr>)"
begin

section \<open>Primitives\<close>

lemma keeps_advance [vm_keeps]: "keeps P advance"
  by (rule keepsI) (auto simp: advance_def elim: grow)

lemma keeps_jump [vm_keeps]: "keeps P (jump_to p)" "keeps P (jump_addr a)" "keeps P (branch b p)"
  by (rule keepsI, auto simp: jump_to_def jump_addr_def branch_def advance_def elim: grow)+

lemma keeps_halt_done [vm_keeps]: "keeps P halt_done"
  by (rule keepsI) (auto simp: halt_done_def elim: grow)

lemma keeps_read [vm_keeps]: "keeps P (read_reg_at i)" "keeps P (read_reg p)" "keeps P (reg_range p n)"
  by (rule keepsI, simp add: read_reg_at_def read_reg_def reg_range_def Let_def)+

lemma keeps_write [vm_keeps]: "keeps P (write_reg_at i v)" "keeps P (write_reg p v)"
  by (rule keepsI, auto simp: write_reg_at_def write_reg_def elim: grow)+

lemma keeps_store [vm_keeps]: "keeps P (store_reg p v)"
  unfolding store_reg_def by (intro keeps_then vm_keeps)

lemma keeps_look [vm_keeps]:
  "keeps P (cursor_root_of p)" "keeps P (cursor_mut p)" "keeps P (table_cursor_of p)"
  "keeps P (index_cursor_of p)"
  by (rule keepsI, simp add: cursor_root_of_def cursor_mut_def table_cursor_of_def index_cursor_of_def)+

lemma keeps_set_root [vm_keeps]: "keeps P (set_cursor_root p r)" "keeps P forget_decoded"
  by (auto simp: set_cursor_root_def forget_decoded_def intro!: keeps_modify elim: grow)

lemma keeps_with_pager [vm_keeps]: "keeps P (with_pager m)"
  by (rule keepsI) (auto simp: with_pager_def split: option.split prod.split elim: grow)

lemma table_slot: "table_cursor_of p vm = (vm', Inr c) \<longleftrightarrow> vm' = vm \<and> slot p vm = Some (Cur_Table c)"
  by (auto simp: table_cursor_of_def split: option.splits vdbe_cursor.splits)

lemma keeps_with_table [vm_keeps]: "keeps P (with_table p m)"
proof (rule keepsI)
  fix vm
  assume w: "P vm"
  have "P (put_slot p (Cur_Table c) (vm\<lparr>vm_pager := Some pg\<rparr>))" for c pg
    by (rule put, rule grow [OF w]) simp_all
  then show "P (fst (with_table p m vm))"
    using w by (auto simp: with_table_def bind_op_def table_cursor_of_def
        split: option.splits vdbe_cursor.splits prod.splits sum.splits)
qed

lemma keeps_with_index [vm_keeps]: "keeps P (with_index p m)"
proof (rule keepsI)
  fix vm
  assume w: "P vm"
  have "P (put_slot p (Cur_Index c) (vm\<lparr>vm_pager := Some pg\<rparr>))" for c pg
    by (rule put, rule grow [OF w]) simp_all
  then show "P (fst (with_index p m vm))"
    using w by (auto simp: with_index_def bind_op_def index_cursor_of_def
        split: option.splits vdbe_cursor.splits prod.splits sum.splits)
qed

lemma keeps_with_sorter [vm_keeps]: "keeps P (with_sorter p m)"
  by (rule keepsI) (auto simp: with_sorter_def split: option.split vdbe_cursor.split prod.split intro!: put)

lemma keeps_with_eph: "stays m \<Longrightarrow> keeps P (with_eph msg p m)"
proof (rule keepsI)
  fix vm
  assume st: "stays m" and w: "P vm"
  have "P (put_slot p (Cur_Ephemeral e') (vm\<lparr>vm_heap := (vm_heap vm)[eph_data e := d']\<rparr>))"
    if "slot p vm = Some (Cur_Ephemeral e)" "m (e, d) = ((e', d'), r)" for e d e' d' r
  proof (rule put)
    show "P (vm\<lparr>vm_heap := (vm_heap vm)[eph_data e := d']\<rparr>)" by (rule grow [OF w]) simp_all
    have "eph_data e' = eph_data e" using st that(2) unfolding stays_def by (metis fst_conv)
    then show "slot_ok (vm_pager (vm\<lparr>vm_heap := (vm_heap vm)[eph_data e := d']\<rparr>) \<noteq> None)
        (length (vm_heap (vm\<lparr>vm_heap := (vm_heap vm)[eph_data e := d']\<rparr>))) (Some (Cur_Ephemeral e'))"
      using slot_of [OF w that(1)] by simp
  qed
  then show "P (fst (with_eph msg p m vm))"
    using w by (auto simp: with_eph_def split: option.split vdbe_cursor.split prod.split)
qed

lemma keeps_modify_grow:
  assumes "\<And>vm. vm_program (f vm) = vm_program vm" "\<And>vm. vm_regs (f vm) = vm_regs vm"
    "\<And>vm. vm_cursors (f vm) = vm_cursors vm" "\<And>vm. vm_frames (f vm) = vm_frames vm"
    "\<And>vm. vm_pager vm \<noteq> None \<Longrightarrow> vm_pager (f vm) \<noteq> None" "\<And>vm. vm_heap (f vm) = vm_heap vm"
  shows "keeps P (modify_op f)"
proof (rule keeps_modify)
  fix vm
  assume "P vm"
  then show "P (f vm)" by (rule grow) (simp_all add: assms del: not_None_eq)
qed

lemmas op_keeps = keeps_bind keeps_then keeps_each keeps_with_eph keeps_pair vm_keeps

lemma wf_bind_at: "keeps P m \<Longrightarrow> (\<And>x. keeps P (f x)) \<Longrightarrow> P s \<Longrightarrow> P (fst (bind_op m f s))"
  by (rule wf_at [OF keeps_bind])

lemma wf_then_at: "keeps P m \<Longrightarrow> keeps P n \<Longrightarrow> P s \<Longrightarrow> P (fst (then_op m n s))"
  by (rule wf_at [OF keeps_then])

lemmas at_keeps = wf_bind_at wf_then_at vm_keeps [THEN wf_at]

section \<open>Control and transactions\<close>

lemma wf_irrelevant [simp]:
  "P vm \<Longrightarrow> P (vm\<lparr>vm_once_done := od\<rparr>)" "P vm \<Longrightarrow> P (vm\<lparr>vm_pc := pc\<rparr>)"
  "P vm \<Longrightarrow> P (vm\<lparr>vm_pager := Some p\<rparr>)" "P vm \<Longrightarrow> P (override_oe oe vm)"
  "P vm \<Longrightarrow> P (set_autocommit b vm)" "P vm \<Longrightarrow> P (set_is_transaction_savepoint b vm)"
  "P vm \<Longrightarrow> P (set_ctx g vm)" "P vm \<Longrightarrow> P (vm\<lparr>vm_heap := vm_heap vm @ cells\<rparr>)"
  "P vm \<Longrightarrow> P (ignore_jump vm)" "P vm \<Longrightarrow> P (release_stmt_savepoint vm)"
  "P vm \<Longrightarrow> P (vm\<lparr>vm_ctx := c\<rparr>)" "P vm \<Longrightarrow> P (put_agg i a vm)"
  by (erule grow; auto simp: override_oe_def set_autocommit_def set_is_transaction_savepoint_def set_ctx_def
      ignore_jump_def release_stmt_savepoint_def put_agg_def split: option.split)+

lemma keeps_jumps [vm_keeps]:
  "keeps P (do_Init inst)" "keeps P (do_Goto inst)" "keeps P (do_ParseSchema inst)"
  by (simp_all add: do_Init_def do_Goto_def do_ParseSchema_def vm_keeps)

lemma keeps_do_Once [vm_keeps]: "keeps P (do_Once inst)"
  by (rule keepsI) (simp add: do_Once_def at_keeps)

lemma keeps_do_Jump [vm_keeps]: "keeps P (do_Jump inst)"
  by (rule keepsI) (simp add: do_Jump_def at_keeps)

lemma keeps_do_Param [vm_keeps]: "keeps P (do_Param inst)"
  by (rule keepsI) (simp add: do_Param_def at_keeps op_keeps split: list.split)

lemma keeps_do_Gosub [vm_keeps]: "keeps P (do_Gosub inst)"
  by (rule keepsI) (simp add: do_Gosub_def at_keeps op_keeps)

lemma keeps_do_Return [vm_keeps]: "keeps P (do_Return inst)"
  by (simp add: do_Return_def op_keeps split: sql_value.split)

lemma keeps_do_InitCoroutine [vm_keeps]: "keeps P (do_InitCoroutine inst)"
  by (simp add: do_InitCoroutine_def op_keeps)

lemma keeps_do_EndCoroutine [vm_keeps]: "keeps P (do_EndCoroutine inst)"
proof -
  have "keeps P (\<lambda>vm. then_op (write_reg p (VInt (of_nat (vm_pc vm)))) (jump_to q) vm)" for p q
    by (rule keeps_state) (simp add: op_keeps)
  then show ?thesis by (simp add: do_EndCoroutine_def op_keeps split: sql_value.split)
qed

lemma keeps_do_Yield [vm_keeps]: "keeps P (do_Yield inst)"
proof -
  have "keeps P (\<lambda>vm. then_op (write_reg p (VInt (of_nat (vm_pc vm + 1))))
      (if map_option inst_opcode (inst_at a vm) = Some (Control Op_EndCoroutine) then jump_to q else jump_addr a) vm)"
    for p q a
    by (rule keeps_state) (simp add: op_keeps)
  then show ?thesis by (simp add: do_Yield_def op_keeps split: sql_value.split)
qed

lemma keeps_do_Compare [vm_keeps]: "keeps P (do_Compare inst)"
proof -
  have c: "keeps P (compare_regs ki is p1 p2)" for ki "is" p1 p2
    by (induction "is") (simp_all add: Let_def op_keeps)
  have m: "keeps P (modify_op (\<lambda>vm. vm\<lparr>vm_last_compare := ord\<rparr>))" for ord
    by (rule keeps_modify_grow) simp_all
  show ?thesis using c m by (simp add: do_Compare_def op_keeps split: p4.split)
qed

lemma keeps_set_write_txn: "keeps P (modify_op (\<lambda>vm. vm\<lparr>vm_write_txn := b\<rparr>))"
  by (rule keeps_modify_grow) simp_all

lemma keeps_commit_if_open: "keeps P (commit_if_open env)"
  by (rule keepsI) (simp add: commit_if_open_def at_keeps split: option.split)

lemma keeps_do_HaltIfNull [vm_keeps]: "keeps P (do_HaltIfNull inst)"
  by (simp add: do_HaltIfNull_def op_keeps keeps_modify)

lemma open_stmt_savepoint_wf: "P vm \<Longrightarrow> P (open_stmt_savepoint vm)"
  by (erule grow) (simp_all add: open_stmt_savepoint_def)

lemma keeps_do_Transaction [vm_keeps]: "keeps P (do_Transaction env inst)"
  by (simp add: do_Transaction_def op_keeps keeps_set_write_txn keeps_modify open_stmt_savepoint_wf)

lemma leave_transaction_wf: "P vm \<Longrightarrow> P (leave_transaction vm)"
  by (erule grow) (simp_all add: leave_transaction_def set_is_transaction_savepoint_def)

lemma keeps_do_AutoCommit [vm_keeps]: "keeps P (do_AutoCommit env inst)"
proof -
  have "keeps P (\<lambda>vm. case vm_pager vm of None \<Rightarrow> (vm, Inr ()) | Some _ \<Rightarrow> with_pager m vm)" for m
    by (rule keepsI) (simp add: at_keeps split: option.split)
  then show ?thesis
    by (intro keepsI) (simp add: do_AutoCommit_def Let_def at_keeps op_keeps keeps_modify leave_transaction_wf)
qed

lemma keeps_do_Savepoint [vm_keeps]: "keeps P (do_Savepoint env inst)"
proof -
  have b: "keeps P (savepoint_begin name)" for name
    by (rule keepsI) (simp add: savepoint_begin_def Let_def split: option.split)
  have r: "keeps P (savepoint_release env name)" for name
    by (rule keepsI) (simp add: savepoint_release_def at_keeps op_keeps keeps_modify leave_transaction_wf split: option.split)
  show ?thesis using b r by (simp add: do_Savepoint_def Let_def op_keeps split: p4.split)
qed

lemma keeps_do_Checkpoint [vm_keeps]: "keeps P (do_Checkpoint env inst)"
  by (simp add: do_Checkpoint_def Let_def split_def op_keeps split: option.split)

lemma keeps_do_SetCookie [vm_keeps]: "keeps P (do_SetCookie inst)"
proof -
  have "keeps P (modify_op (\<lambda>vm. vm\<lparr>vm_pager := map_option g (vm_pager vm)\<rparr>))" for g
    by (rule keeps_modify_grow) simp_all
  then show ?thesis by (simp add: do_SetCookie_def op_keeps)
qed

lemma keeps_trees [vm_keeps]:
  "keeps P (do_CreateBtree inst)" "keeps P (do_Destroy env inst)" "keeps P (do_FkCheck env inst)"
  by (simp_all add: do_CreateBtree_def do_Destroy_def do_FkCheck_def op_keeps split: p4.split)

lemma keeps_do_Clear [vm_keeps]: "keeps P (do_Clear env inst)"
  by (rule keepsI) (simp add: do_Clear_def at_keeps op_keeps)

section \<open>Cursors and rows\<close>

lemma keeps_open_btree [vm_keeps]: "keeps P (open_btree p root ki)"
proof -
  have "keeps P (bind_op (with_pager (get_op id)) (\<lambda>pg. vdbe_set_cursor p (g pg)))"
    if "\<And>pg n. slot_ok True n (Some (g pg))" for g
    by (rule keepsI)
      (auto simp: bind_op_def with_pager_def that intro!: open_slot split: option.split)
  then show ?thesis by (simp add: open_btree_def op_keeps split: option.split)
qed

lemma keeps_opens [vm_keeps]:
  "keeps P (do_OpenRead inst)" "keeps P (do_OpenWrite inst)" "keeps P (do_OpenWriteReg inst)"
  by (simp_all add: do_OpenRead_def do_OpenWrite_def do_OpenWriteReg_def op_keeps vm_keeps)

lemma then_advance_wf: "P (fst (m vm)) \<Longrightarrow> P (fst (then_op m advance vm))"
  by (auto simp: then_op_def bind_op_def advance_def split: prod.split sum.split)

lemma keeps_do_Close [vm_keeps]: "keeps P (do_Close inst)"
  by (rule keepsI) (simp add: do_Close_def close wf_at [OF keeps_advance])

lemma keeps_do_OpenEphemeral [vm_keeps]: "keeps P (do_OpenEphemeral inst)"
  by (rule keepsI)
    (auto simp: do_OpenEphemeral_def Let_def eph_new_def eph_new_index_def eph_cursor_def
      intro!: then_advance_wf open_slot)

lemma keeps_do_OpenPseudo [vm_keeps]: "keeps P (do_OpenPseudo inst)"
  by (rule keepsI) (simp add: do_OpenPseudo_def then_advance_wf open_slot)

lemma keeps_do_SorterOpen [vm_keeps]: "keeps P (do_SorterOpen inst)"
  by (rule keepsI) (simp add: do_SorterOpen_def then_advance_wf open_slot)

lemma keeps_do_OpenDup [vm_keeps]: "keeps P (do_OpenDup inst)"
proof (rule keepsI)
  fix vm
  assume w: "P vm"
  show "P (fst (do_OpenDup inst vm))"
    using w slot_of [OF w, of "inst_p2 inst"]
    by (auto simp: do_OpenDup_def eph_dup_def eph_cursor_def intro!: then_advance_wf open_slot
        split: option.split vdbe_cursor.split)
qed

lemma keeps_put_table: "keeps P (bind_op (cursor_mut p) (\<lambda>cur.
    case cur of
      Cur_Table c \<Rightarrow> modify_op (put_slot p (Cur_Table (set_null_row c)))
    | Cur_Index c \<Rightarrow> fail_op e1 | Cur_Sorter s \<Rightarrow> fail_op e2 | Cur_Ephemeral e \<Rightarrow> fail_op e3
    | Cur_Pseudo ps \<Rightarrow> modify_op (put_slot p (Cur_Pseudo (ps\<lparr>ps_current := None\<rparr>)))))"
proof (rule keepsI)
  fix vm
  assume w: "P vm"
  show "P (fst (bind_op (cursor_mut p) (\<lambda>cur.
    case cur of
      Cur_Table c \<Rightarrow> modify_op (put_slot p (Cur_Table (set_null_row c)))
    | Cur_Index c \<Rightarrow> fail_op e1 | Cur_Sorter s \<Rightarrow> fail_op e2 | Cur_Ephemeral e \<Rightarrow> fail_op e3
    | Cur_Pseudo ps \<Rightarrow> modify_op (put_slot p (Cur_Pseudo (ps\<lparr>ps_current := None\<rparr>)))) vm))"
    using w slot_of [OF w, of p]
    by (auto simp: bind_op_def cursor_mut_def ok_or_def intro!: put split: option.splits vdbe_cursor.splits)
qed

lemma keeps_do_NullRow [vm_keeps]: "keeps P (do_NullRow inst)"
  by (simp add: do_NullRow_def op_keeps keeps_put_table)

lemma keeps_moves [vm_keeps]:
  "keeps P (do_Rewind env inst)" "keeps P (do_Next env inst)" "keeps P (do_SeekRowid inst)"
  "keeps P (do_NotExists env inst)"
  by (simp_all add: do_Rewind_def do_Next_def do_SeekRowid_def do_NotExists_def Let_def op_keeps split: vdbe_cursor.split)

lemma keeps_do_ResetSorter [vm_keeps]: "keeps P (do_ResetSorter inst)"
  by (rule keepsI) (simp add: do_ResetSorter_def at_keeps op_keeps split: option.split vdbe_cursor.split)

lemma keeps_ends [vm_keeps]: "keeps P (do_Last inst)" "keeps P (do_Prev inst)"
  by (simp_all add: do_Last_def do_Prev_def Let_def stays_seek op_keeps del: op_apply)

lemma keeps_do_Rowid [vm_keeps]: "keeps P (do_Rowid inst)"
  by (rule keepsI) (simp add: do_Rowid_def at_keeps op_keeps)

lemma keeps_column [vm_keeps]: "keeps P (column p col)"
proof -
  have d: "keeps P (modify_op (\<lambda>vm. vm\<lparr>vm_decoded := dr\<rparr>))" for dr
    by (rule keeps_modify_grow) simp_all
  have k: "keeps P (\<lambda>vm. if c vm then (vm, Inr ()) else bind_op (with_table p cursor_payload) (\<lambda>payload.
      bind_op (lift_op (decode_record payload (vm_encoding vm))) (\<lambda>vals.
        modify_op (\<lambda>vm. vm\<lparr>vm_decoded := Some (i, rowid, vals)\<rparr>))) vm)" for c i rowid
    by (rule keepsI) (simp add: at_keeps op_keeps d)
  have t: "keeps P (table_column p col c)" for c
    using k by (simp add: table_column_def op_keeps)
  show ?thesis
    by (rule keepsI) (auto simp: column_def at_keeps op_keeps t [THEN wf_at] wf_at [OF keeps_with_eph]
        intro!: put split: option.split vdbe_cursor.split sum.split)
qed

lemma keeps_reads [vm_keeps]: "keeps P (do_Column inst)"
  by (simp add: do_Column_def op_keeps vm_keeps)

lemma keeps_do_RowData [vm_keeps]: "keeps P (do_RowData inst)"
  by (rule keepsI) (simp add: do_RowData_def at_keeps op_keeps stays_look split: option.split vdbe_cursor.split)

lemma keeps_do_ResultRow [vm_keeps]: "keeps P (do_ResultRow inst)"
  by (rule keepsI) (auto simp: do_ResultRow_def elim: grow)

lemma keeps_probes [vm_keeps]: "keeps P (do_Seek env sop inst)" "keeps P (do_IdxRowid inst)"
  by (simp_all add: do_Seek_def do_IdxRowid_def op_keeps)

lemma keeps_do_IdxBound [vm_keeps]: "keeps P (do_IdxBound op inst)"
  unfolding do_IdxBound_def by (intro keeps_bind vm_keeps, rule keepsI, simp add: at_keeps op_keeps)

lemma keeps_do_Found [vm_keeps]: "keeps P (do_Found env op inst)"
proof -
  have "keeps P (probe_found env p vals)" for p vals
    by (rule keepsI) (simp add: probe_found_def at_keeps wf_at [OF keeps_with_eph] split: option.split vdbe_cursor.split)
  then show ?thesis by (simp add: do_Found_def op_keeps)
qed

section \<open>Writes and buffers\<close>

lemma keeps_record_in [vm_keeps]: "keeps P (record_in msg p)"
  by (simp add: record_in_def op_keeps split: sql_value.split)

lemma keeps_count_changes [vm_keeps]: "keeps P (count_changes both)"
  by (rule keepsI) (simp add: count_changes_def at_keeps op_keeps keeps_modify)

lemma keeps_do_MakeRecord [vm_keeps]: "keeps P (do_MakeRecord inst)"
  by (simp add: do_MakeRecord_def op_keeps)

lemma keeps_do_NewRowid [vm_keeps]: "keeps P (do_NewRowid env inst)"
  by (rule keepsI) (simp add: do_NewRowid_def at_keeps op_keeps)

lemma keeps_do_Insert [vm_keeps]: "keeps P (do_Insert env inst)"
  by (rule keepsI) (simp add: do_Insert_def Let_def at_keeps op_keeps vm_keeps keeps_modify)

lemma keeps_do_Delete [vm_keeps]: "keeps P (do_Delete env inst)"
  by (rule keepsI) (simp add: do_Delete_def Let_def at_keeps op_keeps vm_keeps keeps_modify)

lemma keeps_do_IdxInsert [vm_keeps]: "keeps P (do_IdxInsert env inst)"
proof -
  have "keeps P (\<lambda>vm. catch_unique inst (with_pager (g vm) vm))" for g
  proof (rule keepsI)
    fix vm
    assume "P vm"
    then have "P (fst (with_pager (g vm) vm))" by (simp add: at_keeps)
    then show "P (fst (catch_unique inst (with_pager (g vm) vm)))"
      by (auto simp: catch_unique_def split: prod.split sum.split failure.split)
  qed
  then show ?thesis
    by (intro keepsI) (simp add: do_IdxInsert_def Let_def at_keeps op_keeps vm_keeps)
qed

lemma keeps_do_IdxDelete [vm_keeps]: "keeps P (do_IdxDelete env inst)"
proof -
  have "P (mark_index_deleted p vm)" if "P vm" for p vm
    using that slot_of [OF that, of p]
    by (auto simp: mark_index_deleted_def intro!: put split: option.split vdbe_cursor.split)
  then show ?thesis by (simp add: do_IdxDelete_def op_keeps keeps_modify)
qed

lemma keeps_sorter [vm_keeps]:
  "keeps P (do_SorterInsert inst)" "keeps P (do_SorterSort inst)" "keeps P (do_SorterData inst)"
  "keeps P (do_SorterNext inst)"
  by (simp_all add: do_SorterInsert_def do_SorterSort_def do_SorterData_def do_SorterNext_def op_keeps vm_keeps)

section \<open>Operators, functions and aggregates\<close>

lemma keeps_drop_agg: "keeps P (modify_op (\<lambda>vm. vm\<lparr>vm_aggregates := (vm_aggregates vm)(i := a)\<rparr>))"
  by (rule keeps_modify_grow) simp_all

lemma keeps_do_Load [vm_keeps]: "keeps P (do_Load op inst)"
  by (cases op) (simp_all add: op_keeps keeps_drop_agg)

lemma keeps_do_Arith [vm_keeps]: "keeps P (do_Arith op inst)"
proof -
  have "keeps P (binary_op f inst)" for f by (simp add: binary_op_def op_keeps)
  then show ?thesis by (cases op) (simp_all add: op_keeps)
qed

lemma keeps_do_Comparison [vm_keeps]: "keeps P (do_Comparison op inst)"
  by (simp add: do_Comparison_def op_keeps)

lemma keeps_do_Logic [vm_keeps]: "keeps P (do_Logic op inst)"
  by (cases op) (simp_all add: op_keeps)

lemma keeps_call_function [vm_keeps]: "keeps P (call_function env name args)"
  by (rule keepsI) (auto simp: call_function_def Let_def split: prod.split sum.split)

lemma keeps_do_Moves [vm_keeps]: "keeps P (do_Moves env op inst)"
proof -
  have "keeps P (copy_reg t p q i)" for t p q i by (simp add: copy_reg_def op_keeps)
  moreover have "keeps P (apply_affinity_at p kc)" for p kc
    by (simp add: apply_affinity_at_def split_def op_keeps)
  moreover have "keeps P (do_MustBeInt inst)"
    by (simp add: do_MustBeInt_def op_keeps split: sql_value.split)
  moreover have "keeps P (do_Function env inst)"
    by (simp add: do_Function_def op_keeps vm_keeps)
  ultimately show ?thesis by (cases op) (simp_all add: op_keeps split: sql_value.split)
qed

lemma keeps_func_def: "keeps P (func_def s inst)" "keeps P (agg_args k inst)"
  by (simp_all add: func_def_def agg_args_def Let_def op_keeps split: p4.split)

lemma keeps_do_AggStep [vm_keeps]: "keeps P (do_AggStep inst)"
  unfolding do_AggStep_def Let_def split_def
  by (intro keeps_bind keeps_func_def, rule keepsI, simp add: at_keeps op_keeps keeps_modify)

lemma keeps_do_AggInverse [vm_keeps]: "keeps P (do_AggInverse inst)"
  unfolding do_AggInverse_def Let_def split_def
  by (intro keeps_bind keeps_func_def, rule keepsI) (simp add: at_keeps op_keeps keeps_modify split: option.split)

lemma keeps_do_AggFinal [vm_keeps]: "keeps P (do_AggFinal inst)"
  unfolding do_AggFinal_def Let_def
  by (intro keeps_bind keeps_func_def, rule keepsI) (simp add: at_keeps op_keeps keeps_drop_agg)

lemma keeps_do_AggValue [vm_keeps]: "keeps P (do_AggValue inst)"
  unfolding do_AggValue_def Let_def split_def
  by (intro keeps_bind keeps_func_def, rule keepsI) (simp add: at_keeps op_keeps keeps_modify split: option.split)

lemma keeps_do_Agg [vm_keeps]: "keeps P (do_Agg op inst)"
  by (cases op) (simp_all add: op_keeps vm_keeps)

lemma keeps_dispatch:
  assumes "op \<noteq> Control Op_Program" and "op \<noteq> Control Op_Halt"
  shows "keeps P (dispatch env op inst)"
proof (cases op)
  case (Control c)
  then show ?thesis using assms by (cases c) (simp_all add: vm_keeps)
next
  case (Txn t)
  then show ?thesis by (cases t) (simp_all add: vm_keeps)
next
  case (Cursor c)
  then show ?thesis by (cases c) (simp_all add: vm_keeps)
next
  case (Write w)
  then show ?thesis by (cases w) (simp_all add: vm_keeps)
next
  case (Buffer b)
  then show ?thesis by (cases b) (simp_all add: vm_keeps)
qed (simp_all add: do_Probe_def vm_keeps split: option.split)

lemma keeps_halt_top: "keeps P (halt_top env)"
  by (rule keepsI) (simp add: halt_top_def at_keeps op_keeps keeps_set_write_txn keeps_commit_if_open)

end

section \<open>The machine\<close>

lemma close_wf: "vm_wf vm \<Longrightarrow> vm_wf (vm\<lparr>vm_cursors := (vm_cursors vm)[i := None]\<rparr>)"
  by (simp add: vm_wf_def list_all_update)

interpretation wf: vm_property vm_wf
  by unfold_locales (fact vm_wf_grow slot_wf put_slot_wf set_cursor_wf close_wf)+

lemma push_frame_wf: "vm_wf vm \<Longrightarrow> vm_wf (push_frame prog inst vm)"
  by (simp add: vm_wf_def push_frame_def frame_ok_def)

lemma pop_frame_wf: "vm_wf vm \<Longrightarrow> vm_frames vm = f # fs \<Longrightarrow> vm_wf (pop_frame f vm)"
  by (simp add: vm_wf_def pop_frame_def frame_ok_def)

lemma keeps_do_Program: "keeps vm_wf (do_Program inst)"
  by (rule keepsI) (simp add: do_Program_def push_frame_wf wf_at [OF wf.keeps_advance] split: p4.split)

lemma keeps_do_Halt: "keeps vm_wf (do_Halt env inst)"
  by (rule keepsI)
    (auto simp: do_Halt_def Let_def pop_frame_wf wf.wf_irrelevant wf_at [OF wf.keeps_halt_top] split: list.split)

lemma wf_dispatch: "keeps vm_wf (dispatch env op inst)"
  using wf.keeps_dispatch [of op env inst] keeps_do_Program [of inst] keeps_do_Halt [of env inst]
  by (cases "op = Control Op_Program \<or> op = Control Op_Halt") auto

lemma keeps_turn: "keeps vm_wf (turn env)"
  by (rule keepsI) (simp add: turn_def wf_at [OF wf_dispatch] split: option.split)

lemma run_loop_wf: "run_loop n env vm = Some (vm', r) \<Longrightarrow> vm_wf vm \<Longrightarrow> vm_wf vm'"
proof (induction n arbitrary: vm)
  case (Suc n)
  obtain vm1 r1 where t: "turn env vm = (vm1, r1)" by fastforce
  have "vm_wf vm1" using keepsD [OF keeps_turn Suc.prems(2) t] .
  then show ?case using Suc.prems(1) Suc.IH t by (auto split: sum.splits flow.splits)
qed simp

lemma clean_up_wf: "vm_wf vm \<Longrightarrow> vm_wf (clean_up env vm)"
  by (erule vm_wf_grow)
    (auto simp: clean_up_def Let_def on_fail_def on_rollback_def on_abort_def split: option.split oe_action.split)

lemma vdbe_new_wf: "vm_wf (vdbe_new prog p ctx)"
  by (simp add: vm_wf_def vdbe_new_def)

lemma step_wf: "vdbe_step n env vm = Some (vm', r) \<Longrightarrow> vm_wf vm \<Longrightarrow> vm_wf vm'"
  using run_loop_wf [of n env vm]
  by (auto simp: vdbe_step_def step_inner_def clean_up_wf split: if_splits option.splits sum.splits failure.splits)

end
