(* ===== verification/Vdbe_Calls.thy ===== *)
theory Vdbe_Calls
  imports Vdbe_Inv
begin

text \<open>
  Sub-programs: the stack discipline of the frames. Every instruction but \<open>Program\<close> and \<open>Halt\<close> leaves the
  frames alone, which is a second instance of the laws of \<open>vm_property\<close>; so a sub-program that comes back
  finds its caller's frame as the call left it, and the caller resumes with its own registers, cursors
  and accumulators.
\<close>

interpretation framed: vm_property "\<lambda>vm. vm_wf vm \<and> vm_frames vm = fs \<and> vm_program vm = prog" for fs prog
proof unfold_locales
  fix vm p c i
  assume a: "vm_wf vm \<and> vm_frames vm = fs \<and> vm_program vm = prog"
  show "vm_wf vm' \<and> vm_frames vm' = fs \<and> vm_program vm' = prog"
    if "vm_program vm' = vm_program vm" "length (vm_regs vm') = length (vm_regs vm)" "vm_cursors vm' = vm_cursors vm"
      "vm_frames vm' = vm_frames vm" "vm_pager vm \<noteq> None \<longrightarrow> vm_pager vm' \<noteq> None"
      "length (vm_heap vm) \<le> length (vm_heap vm')" for vm'
    using vm_wf_grow [of vm vm'] that a by simp
  show "slot_ok (vm_pager vm \<noteq> None) (length (vm_heap vm)) (Some c)" if "slot p vm = Some c"
    using slot_wf a that by blast
  let ?put = "put_slot p c vm" and ?open = "fst (vdbe_set_cursor p c vm)"
    and ?close = "vm\<lparr>vm_cursors := (vm_cursors vm)[i := None]\<rparr>"
  show "vm_wf ?put \<and> vm_frames ?put = fs \<and> vm_program ?put = prog"
    if "slot_ok (vm_pager vm \<noteq> None) (length (vm_heap vm)) (Some c)"
    using put_slot_wf [of vm c p] that a by (simp add: put_slot_def)
  show "vm_wf ?open \<and> vm_frames ?open = fs \<and> vm_program ?open = prog"
    if "slot_ok (vm_pager vm \<noteq> None) (length (vm_heap vm)) (Some c)"
    using set_cursor_wf [of vm c p] that a by (simp add: vdbe_set_cursor_def put_slot_def Let_def)
  show "vm_wf ?close \<and> vm_frames ?close = fs \<and> vm_program ?close = prog"
    using close_wf [of vm i] a by simp
qed

lemma other_keeps_frames:
  "op \<noteq> Control Op_Program \<Longrightarrow> op \<noteq> Control Op_Halt \<Longrightarrow> vm_wf vm \<Longrightarrow>
   vm_frames (fst (dispatch env op inst vm)) = vm_frames vm \<and> vm_program (fst (dispatch env op inst vm)) = vm_program vm"
  using framed.keeps_dispatch [of op "vm_frames vm" "vm_program vm" env inst] by (auto simp: keeps_def)

text \<open>What one turn does to the stack.\<close>

definition returns_to :: "vdbe_frame \<Rightarrow> vdbe \<Rightarrow> vdbe \<Rightarrow> bool" where
  "returns_to f vm vm' \<longleftrightarrow> vm' = pop_frame f vm \<or> vm' = ignore_jump (pop_frame f vm)"

lemma turn_frames:
  assumes "vm_wf vm" and "turn env vm = (vm', Inr Again)"
  shows "vm_frames vm' = vm_frames vm \<or> (\<exists>f. vm_frames vm' = f # vm_frames vm)
    \<or> (\<exists>f fs. vm_frames vm = f # fs \<and> returns_to f vm vm')"
proof -
  obtain inst where i: "get_opt (prog_instructions (vm_program vm)) (vm_pc vm) = Some inst"
      "dispatch env (inst_opcode inst) inst vm = (vm', Inr Again)"
    using assms(2) by (auto simp: turn_def split: option.splits)
  consider "inst_opcode inst = Control Op_Program" | "inst_opcode inst = Control Op_Halt"
    | "inst_opcode inst \<noteq> Control Op_Program" "inst_opcode inst \<noteq> Control Op_Halt" by blast
  then show ?thesis
  proof cases
    case 1
    then show ?thesis using i(2)
      by (auto simp: do_Program_def advance_def push_frame_def split: if_splits p4.splits)
  next
    case 2
    have "snd (halt_top env vm) \<noteq> Inr Again"
      by (auto simp: halt_top_def halt_done_def then_op_def bind_op_def split: prod.splits sum.splits)
    then show ?thesis using i(2) 2
      by (auto simp: do_Halt_def returns_to_def Let_def split: list.splits if_splits)
  next
    case 3
    then show ?thesis using other_keeps_frames [OF _ _ assms(1), of "inst_opcode inst" env inst] i(2) by simp
  qed
qed

text \<open>A run of turns that stays inside the frames above depth \<open>k\<close>, up to its last state.\<close>

inductive inside :: "vm_env \<Rightarrow> nat \<Rightarrow> vdbe \<Rightarrow> vdbe \<Rightarrow> bool" for env k vm where
  inside_start: "inside env k vm vm"
| inside_turn: "inside env k vm vm1 \<Longrightarrow> k < length (vm_frames vm1) \<Longrightarrow> turn env vm1 = (vm2, Inr Again) \<Longrightarrow> inside env k vm vm2"

lemma inside_stack:
  assumes "inside env (length fs) vm vm'" and "vm_wf vm" and "vm_frames vm = f # fs"
  shows "vm_wf vm' \<and> ((\<exists>gs. vm_frames vm' = gs @ f # fs)
    \<or> vm_frames vm' = fs \<and> (\<exists>vm1. vm_frames vm1 = f # fs \<and> returns_to f vm1 vm'))"
  using assms(1)
proof induction
  case inside_start
  have "vm_frames vm = [] @ f # fs" using assms(3) by simp
  then show ?case using assms(2) by blast
next
  case (inside_turn vm1 vm2)
  then obtain gs where gs: "vm_frames vm1 = gs @ f # fs" and w1: "vm_wf vm1"
    by (metis less_irrefl_nat)
  have w2: "vm_wf vm2" using keepsD [OF keeps_turn w1 inside_turn.hyps(3)] .
  show ?case
    using turn_frames [OF w1 inside_turn.hyps(3)]
  proof (elim disjE exE conjE)
    assume "vm_frames vm2 = vm_frames vm1"
    then show ?thesis using gs w2 by simp
  next
    fix g
    assume "vm_frames vm2 = g # vm_frames vm1"
    then have "vm_frames vm2 = (g # gs) @ f # fs" using gs by simp
    then show ?thesis using w2 by blast
  next
    fix g gs'
    assume g: "vm_frames vm1 = g # gs'" "returns_to g vm1 vm2"
    have f2: "vm_frames vm2 = gs'"
      using g by (auto simp: returns_to_def pop_frame_def ignore_jump_def split: option.splits)
    show ?thesis
    proof (cases gs)
      case Nil
      then have "g = f" "gs' = fs" using gs g(1) by simp_all
      then show ?thesis using g f2 w2 by blast
    next
      case (Cons h hs)
      then have "vm_frames vm2 = hs @ f # fs" using gs g(1) f2 by simp
      then show ?thesis using w2 by blast
    qed
  qed
qed

section \<open>The programs under execution\<close>

text \<open>The running program above those of the calling frames: a call pushes the callee, a return drops it.\<close>

definition call_stack :: "vdbe \<Rightarrow> program list" where
  "call_stack vm = vm_program vm # map fr_program (vm_frames vm)"

lemma returns_to_stack:
  assumes "vm_frames vm = f # fs" and "returns_to f vm vm'"
  shows "call_stack vm' = tl (call_stack vm)"
  using assms by (auto simp: call_stack_def returns_to_def pop_frame_def ignore_jump_def split: option.splits)

lemma turn_stack:
  assumes "vm_wf vm" and "turn env vm = (vm', Inr Again)"
  shows "call_stack vm' = call_stack vm \<or> (\<exists>p. call_stack vm' = p # call_stack vm)
    \<or> vm_frames vm \<noteq> [] \<and> call_stack vm' = tl (call_stack vm)"
proof -
  obtain inst where i: "get_opt (prog_instructions (vm_program vm)) (vm_pc vm) = Some inst"
      "dispatch env (inst_opcode inst) inst vm = (vm', Inr Again)"
    using assms(2) by (auto simp: turn_def split: option.splits)
  consider "inst_opcode inst = Control Op_Program" | "inst_opcode inst = Control Op_Halt"
    | "inst_opcode inst \<noteq> Control Op_Program" "inst_opcode inst \<noteq> Control Op_Halt" by blast
  then show ?thesis
  proof cases
    case 1
    then show ?thesis using i(2)
      by (auto simp: call_stack_def do_Program_def advance_def push_frame_def split: if_splits p4.splits)
  next
    case 2
    have "snd (halt_top env vm) \<noteq> Inr Again"
      by (auto simp: halt_top_def halt_done_def then_op_def bind_op_def split: prod.splits sum.splits)
    then obtain f fs where "vm_frames vm = f # fs" "returns_to f vm vm'"
      using i(2) 2 by (auto simp: do_Halt_def returns_to_def Let_def split: list.splits if_splits)
    then show ?thesis using returns_to_stack by auto
  next
    case 3
    then show ?thesis using other_keeps_frames [OF _ _ assms(1), of "inst_opcode inst" env inst] i(2)
      by (simp add: call_stack_def)
  qed
qed

lemma failing_turn_stack:
  assumes "vm_wf vm" and "vm_frames vm \<noteq> []" and "turn env vm = (vm', Inl e)"
  shows "vm_frames vm' = vm_frames vm \<and> vm_program vm' = vm_program vm"
proof (cases "get_opt (prog_instructions (vm_program vm)) (vm_pc vm)")
  case None
  then show ?thesis using assms(3) by (simp add: turn_def)
next
  case (Some inst)
  then have d: "dispatch env (inst_opcode inst) inst vm = (vm', Inl e)" using assms(3) by (simp add: turn_def)
  consider "inst_opcode inst = Control Op_Program" | "inst_opcode inst = Control Op_Halt"
    | "inst_opcode inst \<noteq> Control Op_Program" "inst_opcode inst \<noteq> Control Op_Halt" by blast
  then show ?thesis
  proof cases
    case 1
    then show ?thesis using d by (auto simp: do_Program_def advance_def split: if_splits p4.splits)
  next
    case 2
    then show ?thesis using d assms(2)
      by (auto simp: do_Halt_def override_oe_def Let_def split: list.splits if_splits)
  next
    case 3
    then show ?thesis using other_keeps_frames [OF _ _ assms(1), of "inst_opcode inst" env inst] d by simp
  qed
qed

lemma clean_up_stack: "vm_frames (clean_up env vm) = vm_frames vm \<and> vm_program (clean_up env vm) = vm_program vm"
  by (simp add: clean_up_def Let_def on_fail_def on_rollback_def on_abort_def split: option.split oe_action.split)

text \<open>Inside a call the callee stays above its caller in the stack.\<close>

lemma inside_call_stack:
  assumes "inside env k vm vm'" and "vm_wf vm" and "call_stack vm = callee # base" and "length base = Suc k"
  shows "vm_wf vm' \<and> (k < length (vm_frames vm') \<longrightarrow> (\<exists>ps. call_stack vm' = ps @ callee # base))"
  using assms(1)
proof induction
  case inside_start
  have "call_stack vm = [] @ callee # base" using assms(3) by simp
  then show ?case using assms(2) by blast
next
  case (inside_turn vm1 vm2)
  then obtain ps where ps: "call_stack vm1 = ps @ callee # base" and w1: "vm_wf vm1" by blast
  have w2: "vm_wf vm2" using keepsD [OF keeps_turn w1 inside_turn.hyps(3)] .
  have len: "length (call_stack vm2) = Suc (length (vm_frames vm2))" by (simp add: call_stack_def)
  show ?case
    using turn_stack [OF w1 inside_turn.hyps(3)]
  proof (elim disjE exE conjE)
    assume "call_stack vm2 = tl (call_stack vm1)"
    then show ?thesis using ps w2 len assms(4) by (cases ps) auto
  next
    fix p
    assume "call_stack vm2 = p # call_stack vm1"
    then have "call_stack vm2 = (p # ps) @ callee # base" using ps by simp
    then show ?thesis using w2 by blast
  qed (use ps w2 in auto)
qed

text \<open>Turns that go on, and a step that fails at the end of them.\<close>

inductive goes_on :: "vm_env \<Rightarrow> vdbe \<Rightarrow> vdbe \<Rightarrow> bool" for env vm where
  goes_on_start: "goes_on env vm vm"
| goes_on_turn: "goes_on env vm vm1 \<Longrightarrow> turn env vm1 = (vm2, Inr Again) \<Longrightarrow> goes_on env vm vm2"

lemma goes_on_trans: "goes_on env vm1 vm2 \<Longrightarrow> goes_on env vm vm1 \<Longrightarrow> goes_on env vm vm2"
  by (induction rule: goes_on.induct) (auto intro: goes_on_turn)

lemma inside_goes_on: "inside env k vm vm' \<Longrightarrow> goes_on env vm vm'"
  by (induction rule: inside.induct) (auto intro: goes_on.intros)

lemma goes_on_wf: "goes_on env vm vm' \<Longrightarrow> vm_wf vm \<Longrightarrow> vm_wf vm'"
  by (induction rule: goes_on.induct) (auto dest: keepsD [OF keeps_turn])

lemma goes_on_run: "goes_on env vm vm' \<Longrightarrow> \<exists>k. \<forall>n. run_loop (k + n) env vm = run_loop n env vm'"
proof (induction rule: goes_on.induct)
  case goes_on_start
  show ?case by (rule exI [of _ 0]) simp
next
  case (goes_on_turn vm1 vm2)
  then obtain k where "\<forall>n. run_loop (k + n) env vm = run_loop n env vm1" by blast
  then have "run_loop (k + Suc n) env vm = run_loop n env vm2" for n
    using goes_on_turn.hyps(2) by (simp del: add_Suc_right)
  then show ?case by (intro exI [of _ "Suc k"]) simp
qed

lemma failing_step:
  assumes "goes_on env vm vm1" and "\<not> vm_halted vm" and "turn env vm1 = (vm2, Inl (Err e))"
  shows "\<exists>n. vdbe_step n env vm = Some (clean_up env vm2, Inl (Err e))"
proof -
  obtain k where "\<forall>n. run_loop (k + n) env vm = run_loop n env vm1" using goes_on_run [OF assms(1)] by blast
  then have "run_loop (k + 1) env vm = run_loop 1 env vm1" by blast
  then have "run_loop (k + 1) env vm = Some (vm2, Inl (Err e))" using assms(3) by (simp del: add_Suc_right add.right_neutral add_0_right)
  then show ?thesis using assms(2) by (intro exI [of _ "k + 1"]) (simp add: vdbe_step_def step_inner_def)
qed

text \<open>A program that calls another one, with nothing of the database around it.\<close>

definition bare_env :: vm_env where
  "bare_env = \<lparr>ve_depth = 0, ve_autovac = ret_op (), ve_drain = id, ve_salts = (0, 0), ve_cksum_init = 0,
     ve_call_scalar = (\<lambda>_ _. Inr VNull), ve_date_fn = (\<lambda>_ _. Inr VNull)\<rparr>"

definition calling :: "program \<Rightarrow> program" where
  "calling callee = Program [Instruction (Control Op_Program) 0 1 0 (P4_SubProgram callee) 0,
     instruction_new (Control Op_Halt) 0 0 0] 2 0 0"

definition load_program :: program where
  "load_program = Program [instruction_new (Load Op_Integer) 7 0 0, instruction_new (Control Op_Halt) 0 0 0] 1 0 0"

definition abort_program :: program where
  "abort_program = Program [instruction_new (Control Op_Halt) 19 2 0] 1 0 0"

definition started :: "program \<Rightarrow> vdbe" where
  "started prog = vdbe_new prog None (runtime_ctx_new 0 0)"

definition turns :: "nat \<Rightarrow> vm_env \<Rightarrow> vdbe \<Rightarrow> vdbe" where
  "turns k env vm = ((\<lambda>vm. fst (turn env vm)) ^^ k) vm"

lemmas demo_simps = bare_env_def calling_def load_program_def abort_program_def started_def instruction_new_def
  vdbe_new_def turn_def do_Program_def push_frame_def num_regs_def

section \<open>Properties\<close>

text \<open>
  C32. A sub-program returns to its caller: whatever it executes (nested calls included), when control is
  back at the caller's depth the caller's program, registers, cursors, accumulators and the rest of
  its frame are those it had at the call, and it goes on after the call or, after an IGNORE, at the
  jump target of the call.
\<close>

theorem sub_program_returns:
  assumes "vm_wf vm" and "get_opt (prog_instructions (vm_program vm)) (vm_pc vm) = Some inst"
    and "inst_opcode inst = Control Op_Program" and "turn env vm = (push_frame callee inst vm, Inr Again)"
    and "inside env (length (vm_frames vm)) (push_frame callee inst vm) vm'"
    and "length (vm_frames vm') = length (vm_frames vm)"
  shows "vm_frames vm' = vm_frames vm \<and> vm_program vm' = vm_program vm \<and> vm_regs vm' = vm_regs vm
    \<and> vm_cursors vm' = vm_cursors vm \<and> vm_cursor_root vm' = vm_cursor_root vm \<and> vm_decoded vm' = vm_decoded vm
    \<and> vm_aggregates vm' = vm_aggregates vm \<and> vm_once_done vm' = vm_once_done vm \<and> vm_write_txn vm' = vm_write_txn vm
    \<and> vm_pc vm' \<in> {vm_pc vm + 1, usize_of (inst_p2 inst)}"
proof -
  obtain f where f: "vm_frames (push_frame callee inst vm) = f # vm_frames vm" "fr_program f = vm_program vm"
      "fr_pc f = vm_pc vm + 1" "fr_regs f = vm_regs vm" "fr_cursors f = vm_cursors vm"
      "fr_cursor_root f = vm_cursor_root vm" "fr_decoded f = vm_decoded vm" "fr_aggregates f = vm_aggregates vm"
      "fr_once_done f = vm_once_done vm" "fr_write_txn f = vm_write_txn vm"
    by (simp add: push_frame_def)
  have w: "vm_wf (push_frame callee inst vm)" using assms(1) by (rule push_frame_wf)
  have "\<not> (\<exists>gs. vm_frames vm' = gs @ f # vm_frames vm)" using assms(6) by auto
  then obtain vm1 where r: "vm_frames vm' = vm_frames vm" "returns_to f vm1 vm'"
    using inside_stack [OF assms(5) w f(1)] by blast
  define vm2 where "vm2 = pop_frame f vm1"
  have p: "vm_program vm2 = vm_program vm" "vm_regs vm2 = vm_regs vm" "vm_cursors vm2 = vm_cursors vm"
      "vm_cursor_root vm2 = vm_cursor_root vm" "vm_decoded vm2 = vm_decoded vm" "vm_aggregates vm2 = vm_aggregates vm"
      "vm_once_done vm2 = vm_once_done vm" "vm_write_txn vm2 = vm_write_txn vm" "vm_pc vm2 = vm_pc vm + 1"
    using f by (simp_all add: vm2_def pop_frame_def)
  have "ignore_jump vm2 = vm2\<lparr>vm_pc := usize_of (inst_p2 inst)\<rparr>"
    using p(1,9) assms(2,3) by (simp add: ignore_jump_def)
  then have "vm' = vm2 \<or> vm' = vm2\<lparr>vm_pc := usize_of (inst_p2 inst)\<rparr>"
    using r(2) by (auto simp: returns_to_def vm2_def)
  then show ?thesis using r(1) p by (elim disjE) simp_all
qed

theorem sub_program_returns_witness:
  "vm_regs (turns 3 bare_env (started (calling load_program))) = [VNull, VNull]"
proof -
  let ?vm = "started (calling load_program)"
  let ?inst = "Instruction (Control Op_Program) 0 1 0 (P4_SubProgram load_program) 0"
  let ?a = "push_frame load_program ?inst ?vm"
  let ?b = "?a\<lparr>vm_regs := [VInt 7], vm_pc := 1\<rparr>"
  let ?c = "?vm\<lparr>vm_pc := 1\<rparr>"
  have t: "turn bare_env ?vm = (?a, Inr Again)" "turn bare_env ?a = (?b, Inr Again)" "turn bare_env ?b = (?c, Inr Again)"
    by (simp_all add: demo_simps store_reg_def write_reg_def write_reg_at_def usize_of_def advance_def do_Halt_def
        pop_frame_def Let_def)
  have "inside bare_env (length (vm_frames ?vm)) ?a ?c"
    by (rule inside_turn [OF inside_turn [OF inside_start _ t(2)] _ t(3)]) (simp_all add: push_frame_def started_def vdbe_new_def)
  moreover have "vm_wf ?vm" by (simp add: started_def vdbe_new_wf)
  ultimately have "vm_regs ?c = vm_regs ?vm"
    using sub_program_returns [of ?vm ?inst bare_env load_program ?c] t(1)
    by (simp add: started_def calling_def vdbe_new_def)
  moreover have "turns 3 bare_env ?vm = ?c"
    unfolding turns_def numeral_3_eq_3 funpow.simps o_apply t fst_conv id_apply by (rule refl)
  moreover have "vm_regs ?vm = [VNull, VNull]"
    by (simp add: started_def vdbe_new_def calling_def num_regs_def numeral_2_eq_2)
  ultimately show ?thesis by metis
qed

inductive reachable :: "vm_env \<Rightarrow> vdbe \<Rightarrow> vdbe \<Rightarrow> bool" for env vm0 where
  reach_start: "reachable env vm0 vm0"
| reach_step: "reachable env vm0 vm \<Longrightarrow> vdbe_step n env vm = Some (vm', r) \<Longrightarrow> reachable env vm0 vm'"
| reach_reset: "reachable env vm0 vm \<Longrightarrow> reachable env vm0 (vdbe_reset vm)"

text \<open>
  C33. Every state of a statement satisfies the machine's invariant: after any sequence of steps and
  resets, successful or not, each register file has the size its program asks for and no cursor of the
  program or of a calling frame is left without its pager or its store cell.
\<close>

theorem statement_invariant:
  assumes "reachable env (vdbe_new prog p ctx) vm"
  shows "vm_wf vm"
  using assms
proof induction
  case reach_start
  show ?case by (rule vdbe_new_wf)
next
  case (reach_step vm n vm' r)
  then show ?case using step_wf by blast
next
  case (reach_reset vm)
  then show ?case by (simp add: vm_wf_def vdbe_reset_def)
qed

theorem statement_invariant_witness:
  "vm_wf (vdbe_reset (vdbe_new (calling abort_program) None (runtime_ctx_new 0 0)))"
  by (rule statement_invariant [of bare_env "calling abort_program" None "runtime_ctx_new 0 0"], rule reach_reset, rule reach_start)

text \<open>
  C37. Resetting a statement that failed inside a sub-program does not bring its own program back:
  whenever a step of a statement calls a program, runs inside the call (nested calls included) and
  fails there, the step returns that error, and after a reset no calling frame is left and the
  program that was running, the callee itself when the failure is at its own level, is installed with
  its first instruction next.
\<close>

theorem reset_after_failed_call:
  assumes "vm_wf vm0" and "\<not> vm_halted vm0" and "goes_on env vm0 vm"
    and "turn env vm = (push_frame callee inst vm, Inr Again)"
    and "inside env (length (vm_frames vm)) (push_frame callee inst vm) vm1"
    and "length (vm_frames vm) < length (vm_frames vm1)"
    and "turn env vm1 = (vm2, Inl (Err e))"
  shows "\<exists>n vm3. vdbe_step n env vm0 = Some (vm3, Inl (Err e))
     \<and> vm_program (vdbe_reset vm3) = vm_program vm1
     \<and> (length (vm_frames vm1) = Suc (length (vm_frames vm)) \<longrightarrow> vm_program (vdbe_reset vm3) = callee)
     \<and> vm_frames (vdbe_reset vm3) = [] \<and> vm_pc (vdbe_reset vm3) = 0 \<and> \<not> vm_halted (vdbe_reset vm3)"
proof -
  let ?call = "push_frame callee inst vm"
  have w: "vm_wf ?call" using goes_on_wf [OF assms(3,1)] by (rule push_frame_wf)
  have stack: "call_stack ?call = callee # call_stack vm" "length (call_stack vm) = Suc (length (vm_frames vm))"
    by (simp_all add: call_stack_def push_frame_def)
  have w1: "vm_wf vm1" and "\<exists>ps. call_stack vm1 = ps @ callee # call_stack vm"
    using inside_call_stack [OF assms(5) w stack] assms(6) by simp_all
  then obtain ps where ps: "call_stack vm1 = ps @ callee # call_stack vm" by blast
  have own: "vm_program vm1 = callee" if "length (vm_frames vm1) = Suc (length (vm_frames vm))"
  proof -
    have "ps = []" using arg_cong [OF ps, of length] that by (simp add: call_stack_def)
    then show ?thesis using ps by (simp add: call_stack_def)
  qed
  have "goes_on env vm0 vm1"
    using goes_on_trans [OF inside_goes_on [OF assms(5)]] goes_on_turn [OF assms(3,4)] .
  then obtain n where "vdbe_step n env vm0 = Some (clean_up env vm2, Inl (Err e))"
    using failing_step assms(2,7) by blast
  moreover have "vm_program (clean_up env vm2) = vm_program vm1"
    using failing_turn_stack [OF w1 _ assms(7)] assms(6) clean_up_stack by fastforce
  ultimately show ?thesis using own by (intro exI [of _ n] exI [of _ "clean_up env vm2"]) (simp add: vdbe_reset_def)
qed

theorem reset_after_failed_call_witness:
  "\<exists>n vm3 e. vdbe_step n bare_env (started (calling abort_program)) = Some (vm3, Inl (Err e))
     \<and> vm_program (vdbe_reset vm3) = abort_program \<and> vm_frames (vdbe_reset vm3) = []
     \<and> abort_program \<noteq> calling abort_program"
proof -
  let ?vm = "started (calling abort_program)"
  let ?inst = "Instruction (Control Op_Program) 0 1 0 (P4_SubProgram abort_program) 0"
  let ?a = "push_frame abort_program ?inst ?vm"
  have t: "turn bare_env ?vm = (?a, Inr Again)" by (simp add: demo_simps)
  obtain vm2 e where f: "turn bare_env ?a = (vm2, Inl (Err e))"
    by (simp add: demo_simps do_Halt_def constraint_error_def)
  have "vm_wf ?vm" "\<not> vm_halted ?vm" "length (vm_frames ?a) = Suc (length (vm_frames ?vm))"
    by (simp_all add: started_def vdbe_new_wf) (simp_all add: vdbe_new_def push_frame_def)
  then have "\<exists>n vm3. vdbe_step n bare_env ?vm = Some (vm3, Inl (Err e))
      \<and> vm_program (vdbe_reset vm3) = abort_program \<and> vm_frames (vdbe_reset vm3) = []"
    using reset_after_failed_call [OF _ _ goes_on_start t inside_start _ f] by auto
  moreover have "abort_program \<noteq> calling abort_program" by (simp add: abort_program_def calling_def instruction_new_def)
  ultimately show ?thesis by blast
qed

end
