(* ===== verification/Schema.thy ===== *)
theory Schema
  imports Vdbe_Exec
begin

text \<open>
  What the code generator for expressions reads: the expressions of the parser's syntax tree
  (\<open>rustqlite-parser/src/ast.rs\<close>), tables and the resolution of column names (\<open>schema/table.rs\<close>), and the
  arity check of the function registry (\<open>func/registry.rs\<close>). Identifiers are the bytes of their names.
  The bodies of subqueries, and the filter and the window of a function call, are not part of the tree
  here: the code generator modelled on it does not read them.
\<close>

section \<open>Expressions\<close>

datatype literal =
    Lit_Null | Lit_Integer i64 | Lit_Real u64 | Lit_Text bytes | Lit_Blob bytes | Lit_Bool bool

datatype unop = U_Negate | U_Positive | U_Not | U_BitNot

datatype binop =
    B_Or | B_And | B_Eq | B_Ne | B_Lt | B_Le | B_Gt | B_Ge | B_Add | B_Sub | B_Mul | B_Div | B_Mod | B_Concat
  | B_Is | B_IsNot | B_Like | B_Glob | B_Regexp | B_Match | B_BitAnd | B_BitOr | B_ShiftLeft | B_ShiftRight
  | B_JsonExtract | B_JsonExtractText

datatype expr =
    E_Literal literal
  | E_Column "bytes option" bytes
  | E_Unary unop expr
  | E_Binary binop expr expr
  | E_Function bytes bool "expr list option"
  | E_BindParam bytes
  | E_Between expr expr expr bool
  | E_In expr "expr list" bool
  | E_InSubquery expr bool
  | E_Exists
  | E_Subquery
  | E_Row "expr list"
  | E_Cast expr bytes
  | E_Case "expr option" "(expr \<times> expr) list" "expr option"
  | E_Collate expr bytes
  | E_IsDistinctFrom expr expr bool
  | E_AggRef int
  | E_Coalesce2 expr expr

section \<open>Tables\<close>

record column_def =
  cd_name :: bytes
  cd_affinity :: affinity
  cd_collation :: collation

record table_def =
  td_name :: bytes
  td_rootpage :: i64
  td_columns :: "column_def list"
  td_rowid_alias :: "nat option"
  td_without_rowid :: bool
  td_pk_columns :: "(nat \<times> bool) list"

datatype column_ref = Ref_Rowid | Ref_Index nat

definition eq_ignore_ascii_case :: "bytes \<Rightarrow> bytes \<Rightarrow> bool" where
  "eq_ignore_ascii_case a b \<longleftrightarrow> map ascii_lower a = map ascii_lower b"

definition is_rowid_name :: "bytes \<Rightarrow> bool" where
  "is_rowid_name name \<longleftrightarrow>
     eq_ignore_ascii_case name (ascii_bytes ''rowid'') \<or> eq_ignore_ascii_case name (ascii_bytes ''_rowid_'')
     \<or> eq_ignore_ascii_case name (ascii_bytes ''oid'')"

definition column_index :: "table_def \<Rightarrow> bytes \<Rightarrow> nat option" where
  "column_index t name =
     find (\<lambda>i. eq_ignore_ascii_case (cd_name (td_columns t ! i)) name) [0..<length (td_columns t)]"

definition resolve_column :: "table_def \<Rightarrow> bytes \<Rightarrow> column_ref option" where
  "resolve_column t name =
     (case column_index t name of
        Some i \<Rightarrow> Some (if Some i = td_rowid_alias t then Ref_Rowid else Ref_Index i)
      | None \<Rightarrow> if \<not> td_without_rowid t \<and> is_rowid_name name then Some Ref_Rowid else None)"

definition is_pk :: "table_def \<Rightarrow> nat \<Rightarrow> bool" where
  "is_pk t i \<longleftrightarrow> list_ex (\<lambda>(c, _). c = i) (td_pk_columns t)"

definition other_columns :: "table_def \<Rightarrow> nat list" where
  "other_columns t = filter (\<lambda>i. \<not> is_pk t i) [0..<length (td_columns t)]"

text \<open>The position of an element, as the loops that count through a list find it.\<close>

definition position_of :: "'a \<Rightarrow> 'a list \<Rightarrow> nat option" where
  "position_of x xs = find (\<lambda>i. xs ! i = x) [0..<length xs]"

definition without_rowid_storage_index :: "table_def \<Rightarrow> nat \<Rightarrow> nat option" where
  "without_rowid_storage_index t col_idx =
     (if \<not> td_without_rowid t then None
      else (case position_of col_idx (map fst (td_pk_columns t)) of
              Some pos \<Rightarrow> Some pos
            | None \<Rightarrow> map_option (\<lambda>k. length (td_pk_columns t) + k) (position_of col_idx (other_columns t))))"

definition without_rowid_table_index :: "table_def \<Rightarrow> nat \<Rightarrow> nat option" where
  "without_rowid_table_index t storage_idx =
     (if \<not> td_without_rowid t then None
      else (let n_pk = length (td_pk_columns t) in
            if storage_idx < n_pk then Some (fst (td_pk_columns t ! storage_idx))
            else get_opt (other_columns t) (storage_idx - n_pk)))"

definition without_rowid_storage_width :: "table_def \<Rightarrow> nat" where
  "without_rowid_storage_width t = length (td_columns t)"

definition without_rowid_key_info :: "table_def \<Rightarrow> key_field list result" where
  "without_rowid_key_info t =
     (if list_all (\<lambda>(c, _). c < length (td_columns t)) (td_pk_columns t)
      then Inr (map (\<lambda>(c, d). \<lparr>desc = d, key_collation = cd_collation (td_columns t ! c)\<rparr>) (td_pk_columns t)
              @ map (\<lambda>i. \<lparr>desc = False, key_collation = cd_collation (td_columns t ! i)\<rparr>) (other_columns t))
      else Inl Panic)"

section \<open>The arity check of functions\<close>

definition one_argument :: "string list" where
  "one_argument =
     [''abs'', ''length'', ''lower'', ''upper'', ''typeof'', ''zeroblob'', ''likely'', ''unlikely'', ''unicode'', ''hex'',
      ''quote'', ''octet_length'', ''sqrt'', ''exp'', ''ln'', ''log10'', ''log2'', ''ceil'', ''ceiling'', ''floor'',
      ''trunc'', ''sign'', ''sin'', ''cos'', ''tan'', ''asin'', ''acos'', ''atan'', ''sinh'', ''cosh'', ''tanh'', ''asinh'',
      ''acosh'', ''atanh'', ''radians'', ''degrees'', ''json'', ''jsonb'', ''json_quote'', ''json_error_position'',
      ''randomblob'', ''soundex'', ''sqlite_compileoption_get'', ''sqlite_compileoption_used'', ''unistr'']"

definition two_arguments :: "string list" where
  "two_arguments =
     [''ifnull'', ''nullif'', ''likelihood'', ''instr'', ''glob'', ''pow'', ''power'', ''mod'', ''atan2'', ''json_patch'',
      ''jsonb_patch'', ''_json_arrow'', ''_json_arrow_text'', ''timediff'', ''string_agg'']"

definition no_argument :: "string list" where
  "no_argument =
     [''pi'', ''random'', ''changes'', ''total_changes'', ''last_insert_rowid'', ''sqlite_version'', ''current_date'',
      ''current_time'', ''current_timestamp'', ''sqlite_source_id'', ''sqlite_sourceid'']"

definition one_or_two :: "string list" where
  "one_or_two =
     [''round'', ''trim'', ''ltrim'', ''rtrim'', ''unhex'', ''log'', ''json_type'', ''json_valid'', ''json_array_length'',
      ''jsonb_array_length'', ''json_pretty'', ''load_extension'']"

definition any_arguments :: "string list" where
  "any_arguments =
     [''char'', ''json_array'', ''date'', ''datetime'', ''julianday'', ''unixepoch'', ''strftime'', ''time'', ''printf'',
      ''format'']"

definition odd_arguments :: "string list" where
  "odd_arguments =
     [''json_insert'', ''jsonb_insert'', ''json_replace'', ''jsonb_replace'', ''json_set'', ''jsonb_set'']"

definition arity_ok :: "bytes \<Rightarrow> nat \<Rightarrow> bool option" where
  "arity_ok lname n =
     (let is = (\<lambda>names. lname \<in> set (map ascii_bytes names)) in
      if is one_argument then Some (n = 1)
      else if is [''substr'', ''substring'', ''iif'', ''if'', ''like''] then Some (n = 2 \<or> n = 3)
      else if is one_or_two then Some (n = 1 \<or> n = 2)
      else if is [''coalesce'', ''min'', ''max'', ''concat_ws'', ''json_extract'', ''jsonb_extract''] then Some (2 \<le> n)
      else if is two_arguments then Some (n = 2)
      else if is [''replace''] then Some (n = 3)
      else if is any_arguments then Some True
      else if is [''concat'', ''json_remove'', ''jsonb_remove''] then Some (1 \<le> n)
      else if is no_argument then Some (n = 0)
      else if is [''json_object''] then Some (n mod 2 = 0)
      else if is odd_arguments then Some (1 \<le> n \<and> n mod 2 = 1)
      else if is [''sqlite_log''] then Some (n \<le> 2)
      else None)"

definition func_check :: "bytes \<Rightarrow> nat \<Rightarrow> unit result" where
  "func_check name n_arg =
     (if aggregate_from_name name n_arg \<noteq> None then Inr ()
      else (let lname = map ascii_lower name in
            case arity_ok lname n_arg of
              None \<Rightarrow> Inl (error_msg (''no such function: '' @ text_string name))
            | Some False \<Rightarrow>
                Inl (error_msg (''wrong number of arguments to function '' @ text_string lname @ ''()''))
            | Some True \<Rightarrow> Inr ()))"

section \<open>Properties\<close>

lemma position_nth: "position_of x xs = Some i \<Longrightarrow> i < length xs \<and> xs ! i = x" and position_mem: "x \<in> set xs \<Longrightarrow> position_of x xs \<noteq> None"
  by (auto simp: position_of_def find_Some_iff find_None_iff in_set_conv_nth)

lemma other_columns_set: "set (other_columns t) = {..<length (td_columns t)} - fst ` set (td_pk_columns t)"
  by (force simp: other_columns_def is_pk_def list_ex_iff)

text \<open>The key columns and the others together make the width of the record exactly when no column is
  named twice in the key; otherwise they are more.\<close>

lemma pk_and_others:
  assumes "fst ` set (td_pk_columns t) \<subseteq> {..<length (td_columns t)}"
  shows "distinct (map fst (td_pk_columns t)) \<Longrightarrow>
      length (td_pk_columns t) + length (other_columns t) = without_rowid_storage_width t"
    and "\<not> distinct (map fst (td_pk_columns t)) \<Longrightarrow>
      without_rowid_storage_width t < length (td_pk_columns t) + length (other_columns t)"
proof -
  let ?pk = "map fst (td_pk_columns t)"
  have "distinct (other_columns t)" by (simp add: other_columns_def)
  then have "length (other_columns t) = card ({..<length (td_columns t)} - fst ` set (td_pk_columns t))"
    using other_columns_set distinct_card by metis
  then have n: "length (other_columns t) + card (set ?pk) = without_rowid_storage_width t"
    using card_mono [OF _ assms] assms by (simp add: card_Diff_subset without_rowid_storage_width_def)
  show "length (td_pk_columns t) + length (other_columns t) = without_rowid_storage_width t" if "distinct ?pk"
    using n distinct_card [OF that] by simp
  show "without_rowid_storage_width t < length (td_pk_columns t) + length (other_columns t)" if "\<not> distinct ?pk"
    using n card_length [of ?pk] card_distinct [of ?pk] that by fastforce
qed

lemma storage_index_of:
  assumes "td_without_rowid t" and "i < length (td_columns t)"
  shows "\<exists>s. without_rowid_storage_index t i = Some s \<and> without_rowid_table_index t s = Some i
    \<and> s < length (td_pk_columns t) + length (other_columns t)"
proof (cases "position_of i (map fst (td_pk_columns t))")
  case None
  have "i \<notin> fst ` set (td_pk_columns t)" using position_mem [of i "map fst (td_pk_columns t)"] None by auto
  then have "i \<in> set (other_columns t)" using other_columns_set assms(2) by simp
  then obtain k where k: "position_of i (other_columns t) = Some k" using position_mem [of i "other_columns t"] by blast
  then have "k < length (other_columns t)" "other_columns t ! k = i" using position_nth [OF k] by blast+
  then show ?thesis using None k assms(1)
    by (intro exI [of _ "length (td_pk_columns t) + k"]) (simp add: without_rowid_storage_index_def without_rowid_table_index_def)
next
  case (Some k)
  then have "k < length (td_pk_columns t)" "fst (td_pk_columns t ! k) = i" using position_nth [OF Some] by auto
  then show ?thesis using Some assms(1)
    by (intro exI [of _ k]) (simp add: without_rowid_storage_index_def without_rowid_table_index_def)
qed

text \<open>
  C39. The storage order of a WITHOUT ROWID table loses no column: each column of the table, whatever its
  PRIMARY KEY clause names, has a position in the stored record, and the column of that position is the
  column itself. When the key names no column twice, which the schema does not check, the position is
  one of the record's width.
\<close>

theorem storage_index_roundtrip:
  assumes "td_without_rowid t" and "i < length (td_columns t)"
  shows "\<exists>s. without_rowid_storage_index t i = Some s \<and> without_rowid_table_index t s = Some i
    \<and> (distinct (map fst (td_pk_columns t)) \<and> fst ` set (td_pk_columns t) \<subseteq> {..<length (td_columns t)}
       \<longrightarrow> s < without_rowid_storage_width t)"
  using storage_index_of [OF assms] pk_and_others(1) [of t] by (auto split: if_splits)

definition keyed_table :: "(nat \<times> bool) list \<Rightarrow> table_def" where
  "keyed_table key =
     (let col = (\<lambda>n. \<lparr>cd_name = n, cd_affinity = Aff_Blob, cd_collation = Binary\<rparr>) in
      \<lparr>td_name = [], td_rootpage = 2, td_columns = [col [97], col [98], col [99]], td_rowid_alias = None,
       td_without_rowid = True, td_pk_columns = key\<rparr>)"

theorem storage_index_roundtrip_witness:
  "\<exists>s < 3. without_rowid_storage_index (keyed_table [(2, False), (0, True)]) 1 = Some s
     \<and> without_rowid_table_index (keyed_table [(2, False), (0, True)]) s = Some 1"
proof -
  let ?t = "keyed_table [(2, False), (0, True)]"
  have "fst ` set (td_pk_columns ?t) \<subseteq> {..<length (td_columns ?t)}" "distinct (map fst (td_pk_columns ?t))"
      "td_without_rowid ?t" "1 < length (td_columns ?t)" "without_rowid_storage_width ?t = 3"
    by (simp_all add: keyed_table_def without_rowid_storage_width_def Let_def)
  then show ?thesis using storage_index_roundtrip [of ?t 1] by auto
qed

text \<open>
  A key that names a column twice pushes a column out of the record: for every WITHOUT ROWID table
  whose PRIMARY KEY repeats a column and leaves another one out, some column has a storage position at or
  beyond the width of the record that INSERT builds.
\<close>

theorem duplicate_key_column_overflows:
  assumes "td_without_rowid t" and "fst ` set (td_pk_columns t) \<subseteq> {..<length (td_columns t)}"
    and "\<not> distinct (map fst (td_pk_columns t))" and "j < length (td_columns t)" and "j \<notin> fst ` set (td_pk_columns t)"
  shows "\<exists>i s. i < length (td_columns t) \<and> i \<notin> fst ` set (td_pk_columns t)
    \<and> without_rowid_storage_index t i = Some s \<and> without_rowid_storage_width t \<le> s"
proof -
  have ne: "other_columns t \<noteq> []" using assms(4,5) other_columns_set [of t] by auto
  define k where "k = length (other_columns t) - 1"
  define i where "i = other_columns t ! k"
  have k: "k < length (other_columns t)" using ne by (simp add: k_def)
  then have i: "i \<in> set (other_columns t)" by (simp add: i_def)
  then have out: "i < length (td_columns t)" "i \<notin> fst ` set (td_pk_columns t)" using other_columns_set [of t] by auto
  then have "position_of i (map fst (td_pk_columns t)) = None"
    by (auto simp: position_of_def find_None_iff)
  moreover have "position_of i (other_columns t) = Some k"
  proof -
    obtain k' where k': "position_of i (other_columns t) = Some k'" using position_mem [OF i] by blast
    have "distinct (other_columns t)" by (simp add: other_columns_def)
    then have "k' = k" using position_nth [OF k'] k nth_eq_iff_index_eq unfolding i_def by blast
    then show ?thesis using k' by simp
  qed
  ultimately have "without_rowid_storage_index t i = Some (length (td_pk_columns t) + k)"
    using assms(1) by (simp add: without_rowid_storage_index_def)
  moreover have "without_rowid_storage_width t \<le> length (td_pk_columns t) + k"
    using pk_and_others(2) [OF assms(2,3)] ne by (simp add: k_def)
  ultimately show ?thesis using out by blast
qed

theorem duplicate_key_column_overflows_witness:
  "\<exists>i s. i < 3 \<and> without_rowid_storage_index (keyed_table [(0, False), (0, False)]) i = Some s \<and> 3 \<le> s"
proof -
  let ?t = "keyed_table [(0, False), (0, False)]"
  have "fst ` set (td_pk_columns ?t) \<subseteq> {..<length (td_columns ?t)}" "\<not> distinct (map fst (td_pk_columns ?t))"
      "td_without_rowid ?t" "length (td_columns ?t) = 3" "1 \<notin> fst ` set (td_pk_columns ?t)" "without_rowid_storage_width ?t = 3"
    by (simp_all add: keyed_table_def without_rowid_storage_width_def Let_def)
  then show ?thesis using duplicate_key_column_overflows [of ?t 1] by auto
qed

end
