(* ===== verification/Builder.thy ===== *)
theory Builder
  imports Schema
begin

text \<open>
  The program builder (\<open>codegen/builder.rs\<close>): instructions are appended, registers and labels are handed
  out, and jumps to labels are patched when the program is finished. A label is its index in the table
  of label addresses. Vectors of the builder have fewer than \<open>2 ^ 31\<close> elements, so their lengths are the
  \<open>i32\<close> values the code casts them to.
\<close>

type_synonym label = nat

record builder =
  bd_insts :: "instruction list"
  bd_next_reg :: int
  bd_next_cursor :: int
  bd_label_addr :: "int option list"
  bd_fixups :: "(nat \<times> label) list"
  bd_default_oe :: u8

type_synonym 'a code_op = "(builder, 'a) op"

definition builder_new :: builder where
  "builder_new =
     \<lparr>bd_insts = [], bd_next_reg = 1, bd_next_cursor = 0, bd_label_addr = [], bd_fixups = [], bd_default_oe = 0\<rparr>"

definition alloc_regs :: "int \<Rightarrow> int code_op" where
  "alloc_regs n b =
     (case i32_add (bd_next_reg b) (max n 0) of
        Inl e \<Rightarrow> (b, Inl e)
      | Inr r \<Rightarrow> (b\<lparr>bd_next_reg := r\<rparr>, Inr (bd_next_reg b)))"

definition alloc_reg :: "int code_op" where
  "alloc_reg b =
     (case i32_add (bd_next_reg b) 1 of
        Inl e \<Rightarrow> (b, Inl e)
      | Inr r \<Rightarrow> (b\<lparr>bd_next_reg := r\<rparr>, Inr (bd_next_reg b)))"

definition cur_addr :: "builder \<Rightarrow> int" where
  "cur_addr b = int (length (bd_insts b))"

definition advance_regs :: "int \<Rightarrow> builder \<Rightarrow> builder" where
  "advance_regs min_next b = (if bd_next_reg b < min_next then b\<lparr>bd_next_reg := min_next\<rparr> else b)"

definition note_cursor :: "int \<Rightarrow> unit code_op" where
  "note_cursor c b =
     (case i32_add c 1 of
        Inl e \<Rightarrow> (b, Inl e)
      | Inr n \<Rightarrow> (if bd_next_cursor b < n then b\<lparr>bd_next_cursor := n\<rparr> else b, Inr ()))"

definition set_default_oe :: "u8 \<Rightarrow> builder \<Rightarrow> builder" where
  "set_default_oe oe b = b\<lparr>bd_default_oe := oe\<rparr>"

definition add_fixup :: "nat \<Rightarrow> label \<Rightarrow> builder \<Rightarrow> builder" where
  "add_fixup idx l b = b\<lparr>bd_fixups := bd_fixups b @ [(idx, l)]\<rparr>"

definition label_addr_of :: "label \<Rightarrow> builder \<Rightarrow> int result" where
  "label_addr_of l b =
     and_then (ok_or Panic (get_opt (bd_label_addr b) l)) (\<lambda>a. Inr (case a of None \<Rightarrow> 0 | Some a \<Rightarrow> a))"

definition append_inst :: "instruction \<Rightarrow> builder \<Rightarrow> builder" where
  "append_inst inst b = b\<lparr>bd_insts := bd_insts b @ [inst]\<rparr>"

definition emit :: "opcode \<Rightarrow> int \<Rightarrow> int \<Rightarrow> int \<Rightarrow> nat code_op" where
  "emit op p1 p2 p3 b = (append_inst (instruction_new op p1 p2 p3) b, Inr (length (bd_insts b)))"

fun with_p4 :: "p4 \<Rightarrow> instruction \<Rightarrow> instruction" where
  "with_p4 x (Instruction op p1 p2 p3 p4 p5) = Instruction op p1 p2 p3 x p5"

fun with_p5 :: "u8 \<Rightarrow> instruction \<Rightarrow> instruction" where
  "with_p5 x (Instruction op p1 p2 p3 p4 p5) = Instruction op p1 p2 p3 p4 x"

definition update_inst :: "(instruction \<Rightarrow> instruction) \<Rightarrow> nat \<Rightarrow> unit code_op" where
  "update_inst f idx b =
     (if idx < length (bd_insts b) then (b\<lparr>bd_insts := (bd_insts b)[idx := f (bd_insts b ! idx)]\<rparr>, Inr ())
      else (b, Inl Panic))"

definition set_p4 :: "nat \<Rightarrow> p4 \<Rightarrow> unit code_op" where
  "set_p4 idx x = update_inst (with_p4 x) idx"

definition set_p5 :: "nat \<Rightarrow> u8 \<Rightarrow> unit code_op" where
  "set_p5 idx x = update_inst (with_p5 x) idx"

definition new_label :: "label code_op" where
  "new_label b = (b\<lparr>bd_label_addr := bd_label_addr b @ [None]\<rparr>, Inr (length (bd_label_addr b)))"

definition resolve :: "label \<Rightarrow> unit code_op" where
  "resolve l b =
     (if l < length (bd_label_addr b)
      then (b\<lparr>bd_label_addr := (bd_label_addr b)[l := Some (cur_addr b)]\<rparr>, Inr ()) else (b, Inl Panic))"

definition emit_jump :: "opcode \<Rightarrow> int \<Rightarrow> label \<Rightarrow> int \<Rightarrow> nat code_op" where
  "emit_jump op p1 l p3 =
     bind_op (emit op p1 0 p3) (\<lambda>idx. then_op (modify_op (add_fixup idx l)) (ret_op idx))"

definition emit_jump3 :: "opcode \<Rightarrow> label \<Rightarrow> label \<Rightarrow> label \<Rightarrow> nat code_op" where
  "emit_jump3 op l1 l2 l3 =
     bind_op (emit op 0 0 0) (\<lambda>idx. then_op (modify_op (add_fixup idx l2))
       (then_op (modify_op (add_fixup idx l1)) (then_op (modify_op (add_fixup idx l3)) (ret_op idx))))"

section \<open>Finishing a program\<close>

text \<open>The operand that the \<open>n\<close>-th label of an instruction goes to: \<open>p2\<close>, then \<open>p1\<close>, then \<open>p3\<close>.\<close>

fun patch :: "nat \<Rightarrow> int \<Rightarrow> instruction \<Rightarrow> instruction result" where
  "patch n target (Instruction op p1 p2 p3 p4 p5) =
     (if n = 0 then Inr (Instruction op p1 target p3 p4 p5)
      else if n = 1 then Inr (Instruction op target p2 p3 p4 p5)
      else if n = 2 then Inr (Instruction op p1 p2 target p4 p5)
      else Inl Panic)"

definition patch_at :: "int option list \<Rightarrow> nat \<times> label \<Rightarrow> (nat \<Rightarrow> nat) \<times> instruction list
    \<Rightarrow> ((nat \<Rightarrow> nat) \<times> instruction list) result" where
  "patch_at addrs f s =
     (case (f, s) of ((idx, l), (counts, insts)) \<Rightarrow>
        case get_opt addrs l of
          Some (Some target) \<Rightarrow>
            if idx < length insts
            then and_then (patch (counts idx) target (insts ! idx)) (\<lambda>i.
                   Inr (counts(idx := counts idx + 1), insts[idx := i]))
            else Inl Panic
        | _ \<Rightarrow> Inl Panic)"

fun patch_all :: "int option list \<Rightarrow> (nat \<times> label) list \<Rightarrow> (nat \<Rightarrow> nat) \<times> instruction list
    \<Rightarrow> ((nat \<Rightarrow> nat) \<times> instruction list) result" where
  "patch_all addrs [] s = Inr s"
| "patch_all addrs (f # fs) s = and_then (patch_at addrs f s) (patch_all addrs fs)"

definition finish :: "builder \<Rightarrow> program result" where
  "finish b =
     and_then (patch_all (bd_label_addr b) (bd_fixups b) (\<lambda>_. 0, bd_insts b)) (\<lambda>(_, insts).
       Inr (Program insts (usize_of (bd_next_reg b)) (usize_of (bd_next_cursor b)) (bd_default_oe b)))"

end
