(* ===== verification/Codegen_Expr.thy ===== *)
theory Codegen_Expr
  imports Builder
begin

text \<open>
  The code generator for expressions (\<open>codegen/expr.rs\<close>). The functions that are mutually recursive in
  the source take the code of their operands as arguments, \<open>int \<Rightarrow> unit code_op\<close> from the target register
  on. The contexts modelled have no subquery resolver, so a subquery is an error.
\<close>

section \<open>Contexts\<close>

text \<open>A table of a join, or of an enclosing query; \<open>sc_name\<close> is its alias if it has one.\<close>

record scope_table =
  sc_table :: table_def
  sc_cursor :: int
  sc_name :: bytes

record index_read =
  ir_cursor :: int
  ir_column_positions :: "nat list"
  ir_rowid_position :: nat

text \<open>\<open>cx_outer\<close> lists the enclosing scopes from the inside out.\<close>

record ctx =
  cx_table :: table_def
  cx_cursor :: int
  cx_register_base :: "int option"
  cx_index_read :: "index_read option"
  cx_join_tables :: "scope_table list option"
  cx_outer :: "scope_table list list"

definition emit_op :: "opcode \<Rightarrow> int \<Rightarrow> int \<Rightarrow> int \<Rightarrow> unit code_op" where
  "emit_op op p1 p2 p3 = bind_op (emit op p1 p2 p3) (\<lambda>_. ret_op ())"

definition emit_p4 :: "opcode \<Rightarrow> int \<Rightarrow> int \<Rightarrow> int \<Rightarrow> p4 \<Rightarrow> unit code_op" where
  "emit_p4 op p1 p2 p3 x = bind_op (emit op p1 p2 p3) (\<lambda>i. set_p4 i x)"

definition emit_call :: "bytes \<Rightarrow> int \<Rightarrow> int \<Rightarrow> nat \<Rightarrow> unit code_op" where
  "emit_call name start target n =
     bind_op (emit (Moves Op_Function) 0 start target) (\<lambda>i.
       then_op (set_p4 i (P4_Symbol name)) (set_p5 i (of_nat n)))"

definition goto :: "label \<Rightarrow> unit code_op" where
  "goto l = bind_op (emit_jump (Control Op_Goto) 0 l 0) (\<lambda>_. ret_op ())"

definition jump_p5 :: "opcode \<Rightarrow> int \<Rightarrow> label \<Rightarrow> int \<Rightarrow> u8 \<Rightarrow> unit code_op" where
  "jump_p5 op p1 l p3 p5 = bind_op (emit_jump op p1 l p3) (\<lambda>i. set_p5 i p5)"

section \<open>Literals\<close>

fun compile_literal :: "literal \<Rightarrow> int \<Rightarrow> unit code_op" where
  "compile_literal Lit_Null target = emit_op (Load Op_Null) 0 target 0"
| "compile_literal (Lit_Integer n) target =
     (if - (2 ^ 31) \<le> sint n \<and> sint n < 2 ^ 31 then emit_op (Load Op_Integer) (sint n) target 0
      else emit_p4 (Load Op_Int64) 0 target 0 (P4_Int n))"
| "compile_literal (Lit_Real r) target = emit_p4 (Load Op_Real) 0 target 0 (P4_Real r)"
| "compile_literal (Lit_Text s) target = emit_p4 (Load Op_String8) 0 target 0 (P4_Text s)"
| "compile_literal (Lit_Blob s) target = emit_p4 (Load Op_Blob) 0 target 0 (P4_Blob s)"
| "compile_literal (Lit_Bool t) target = emit_op (Load Op_Integer) (if t then 1 else 0) target 0"

fun const_negate :: "expr \<Rightarrow> literal option" where
  "const_negate (E_Literal (Lit_Integer n)) = map_option Lit_Integer (checked_i64 (- sint n))"
| "const_negate (E_Literal (Lit_Real r)) = Some (Lit_Real (f64_neg r))"
| "const_negate _ = None"

section \<open>Columns\<close>

definition no_such_column :: "bytes option \<Rightarrow> bytes \<Rightarrow> failure" where
  "no_such_column qualifier name =
     error_msg (''no such column: '' @ text_string (case qualifier of Some q \<Rightarrow> q @ ascii_bytes ''.'' @ name | None \<Rightarrow> name))"

text \<open>The matches of one scope, in the order of its tables.\<close>

definition scope_matches :: "scope_table list \<Rightarrow> bytes option \<Rightarrow> bytes \<Rightarrow> (scope_table \<times> column_ref) list" where
  "scope_matches ts qualifier name =
     concat (map (\<lambda>t. case qualifier of
                Some q \<Rightarrow> if eq_ignore_ascii_case (sc_name t) q
                          then (case resolve_column (sc_table t) name of Some cr \<Rightarrow> [(t, cr)] | None \<Rightarrow> []) else []
              | None \<Rightarrow> (case resolve_column (sc_table t) name of Some cr \<Rightarrow> [(t, cr)] | None \<Rightarrow> [])) ts)"

fun lookup_outer :: "scope_table list list \<Rightarrow> bytes option \<Rightarrow> bytes \<Rightarrow> (scope_table \<times> column_ref) option" where
  "lookup_outer [] qualifier name = None"
| "lookup_outer (ts # parents) qualifier name =
     (let ms = scope_matches ts qualifier name in
      if ms \<noteq> [] then Some (last ms)
      else if qualifier \<noteq> None then None
      else lookup_outer parents qualifier name)"

definition storage_position :: "table_def \<Rightarrow> nat \<Rightarrow> int result" where
  "storage_position t i =
     (if td_without_rowid t then and_then (ok_or Panic (without_rowid_storage_index t i)) (\<lambda>k. Inr (int k)) else Inr (int i))"

definition realify :: "table_def \<Rightarrow> nat \<Rightarrow> int \<Rightarrow> unit code_op" where
  "realify t i target =
     (if cd_affinity (td_columns t ! i) = Aff_Real then emit_op (Moves Op_RealAffinity) target 0 0 else ret_op ())"

fun emit_outer_column :: "scope_table \<Rightarrow> column_ref \<Rightarrow> int \<Rightarrow> unit code_op" where
  "emit_outer_column ot Ref_Rowid target = emit_op (Cursor Op_Rowid) (sc_cursor ot) target 0"
| "emit_outer_column ot (Ref_Index i) target =
     bind_op (lift_op (storage_position (sc_table ot) i)) (\<lambda>pos.
       then_op (emit_op (Cursor Op_Column) (sc_cursor ot) pos target) (realify (sc_table ot) i target))"

definition column_in_outer :: "ctx \<Rightarrow> bytes option \<Rightarrow> bytes \<Rightarrow> int \<Rightarrow> unit code_op" where
  "column_in_outer cx qualifier name target =
     (case lookup_outer (cx_outer cx) qualifier name of
        Some (ot, cr) \<Rightarrow> emit_outer_column ot cr target
      | None \<Rightarrow> fail_op (no_such_column qualifier name))"

text \<open>\<open>str::parse::<usize>\<close> with 0 for what is not a number.\<close>

definition parse_usize :: "bytes \<Rightarrow> nat" where
  "parse_usize s =
     (let ds = (case s of c # r \<Rightarrow> if c = 0x2b then r else s | [] \<Rightarrow> s);
          n = foldl (\<lambda>n d. 10 * n + (unat d - 48)) 0 ds in
      if ds \<noteq> [] \<and> list_all (\<lambda>d. 48 \<le> d \<and> d \<le> 57) ds \<and> n < 2 ^ 64 then n else 0)"

definition values_column :: "ctx \<Rightarrow> bytes option \<Rightarrow> bytes \<Rightarrow> int \<Rightarrow> unit code_op" where
  "values_column cx qualifier name target =
     (let col_name = (case qualifier of Some q \<Rightarrow> q @ ascii_bytes ''.'' @ name | None \<Rightarrow> name);
          idx = (if take 6 col_name = ascii_bytes ''column'' then parse_usize (drop 6 col_name) else 0) in
      if idx = 0 then column_in_outer cx qualifier name target
      else bind_op (lift_op (i32_add (case cx_register_base cx of Some r \<Rightarrow> r | None \<Rightarrow> 0) (sint (of_nat idx :: 32 word)))) (\<lambda>s.
           bind_op (lift_op (i32_add s (- 1))) (\<lambda>reg. emit_op (Moves Op_SCopy) reg target 0)))"

definition usize_max :: nat where
  "usize_max = 2 ^ 64 - 1"

fun compile_ref :: "ctx \<Rightarrow> column_ref \<Rightarrow> int \<Rightarrow> unit code_op" where
  "compile_ref cx Ref_Rowid target =
     (case cx_register_base cx of
        Some base \<Rightarrow>
          (case td_rowid_alias (cx_table cx) of
             Some alias \<Rightarrow> bind_op (lift_op (i32_add base (int alias))) (\<lambda>r. emit_op (Moves Op_SCopy) r target 0)
           | None \<Rightarrow> emit_op (Cursor Op_Rowid) (cx_cursor cx) target 0)
      | None \<Rightarrow>
          (case cx_index_read cx of
             Some ir \<Rightarrow> emit_op (Cursor Op_Column) (ir_cursor ir) (int (ir_rowid_position ir)) target
           | None \<Rightarrow> emit_op (Cursor Op_Rowid) (cx_cursor cx) target 0))"
| "compile_ref cx (Ref_Index i) target =
     (case cx_register_base cx of
        Some base \<Rightarrow> bind_op (lift_op (i32_add base (int i))) (\<lambda>r. emit_op (Moves Op_SCopy) r target 0)
      | None \<Rightarrow>
          (case cx_index_read cx of
             Some ir \<Rightarrow>
               (let pos = (case get_opt (ir_column_positions ir) i of Some p \<Rightarrow> p | None \<Rightarrow> usize_max) in
                if pos = usize_max then emit_op (Load Op_Null) 0 target 0
                else then_op (emit_op (Cursor Op_Column) (ir_cursor ir) (int pos) target) (realify (cx_table cx) i target))
           | None \<Rightarrow>
               bind_op (lift_op (storage_position (cx_table cx) i)) (\<lambda>pos.
                 then_op (emit_op (Cursor Op_Column) (cx_cursor cx) pos target) (realify (cx_table cx) i target))))"

definition compile_local :: "ctx \<Rightarrow> bytes option \<Rightarrow> bytes \<Rightarrow> int \<Rightarrow> unit code_op" where
  "compile_local cx qualifier name target =
     (if td_columns (cx_table cx) = [] then values_column cx qualifier name target
      else (case resolve_column (cx_table cx) name of
              Some cr \<Rightarrow> compile_ref cx cr target
            | None \<Rightarrow> column_in_outer cx qualifier name target))"

definition join_table_for :: "scope_table list \<Rightarrow> bytes option \<Rightarrow> bytes \<Rightarrow> scope_table option" where
  "join_table_for jt qualifier name =
     (case qualifier of
        Some q \<Rightarrow> find (\<lambda>t. eq_ignore_ascii_case (sc_name t) q) jt
      | None \<Rightarrow> find (\<lambda>t. resolve_column (sc_table t) name \<noteq> None) jt)"

definition compile_column :: "ctx \<Rightarrow> bytes option \<Rightarrow> bytes \<Rightarrow> int \<Rightarrow> unit code_op" where
  "compile_column cx qualifier name target =
     (case cx_join_tables cx of
        None \<Rightarrow> compile_local cx qualifier name target
      | Some jt \<Rightarrow>
          (case join_table_for jt qualifier name of
             None \<Rightarrow> fail_op (no_such_column qualifier name)
           | Some t \<Rightarrow>
               compile_local (cx\<lparr>cx_table := sc_table t, cx_cursor := sc_cursor t, cx_index_read := None,
                                 cx_join_tables := None\<rparr>) qualifier name target))"

section \<open>Affinity and collation of comparisons\<close>

definition is_numeric_affinity :: "affinity \<Rightarrow> bool" where
  "is_numeric_affinity a \<longleftrightarrow> a \<in> {Aff_Integer, Aff_Real, Aff_Numeric}"

fun expr_affinity :: "ctx \<Rightarrow> expr \<Rightarrow> affinity option" where
  "expr_affinity cx (E_Column q name) =
     (case resolve_column (cx_table cx) name of
        Some (Ref_Index i) \<Rightarrow> Some (cd_affinity (td_columns (cx_table cx) ! i))
      | Some Ref_Rowid \<Rightarrow> Some Aff_Integer
      | None \<Rightarrow> None)"
| "expr_affinity cx _ = None"

definition comparison_affinity :: "ctx \<Rightarrow> expr \<Rightarrow> expr \<Rightarrow> affinity option" where
  "comparison_affinity cx left right =
     (case (expr_affinity cx left, expr_affinity cx right) of
        (Some a, Some b) \<Rightarrow> if is_numeric_affinity a \<or> is_numeric_affinity b then Some Aff_Numeric else None
      | (Some a, None) \<Rightarrow> Some a
      | (None, b) \<Rightarrow> b)"

fun column_collation :: "table_def \<Rightarrow> column_ref \<Rightarrow> collation option" where
  "column_collation t (Ref_Index i) =
     (let c = cd_collation (td_columns t ! i) in if c = Binary then None else Some c)"
| "column_collation t Ref_Rowid = None"

definition resolve_column_collation :: "ctx \<Rightarrow> bytes option \<Rightarrow> bytes \<Rightarrow> collation option" where
  "resolve_column_collation cx qualifier name =
     (let local = (if qualifier \<noteq> None \<and> \<not> eq_ignore_ascii_case (td_name (cx_table cx)) (the qualifier) then None
                   else (case resolve_column (cx_table cx) name of
                           Some cr \<Rightarrow> column_collation (cx_table cx) cr
                         | None \<Rightarrow> (case lookup_outer (cx_outer cx) qualifier name of
                                      Some (ot, cr) \<Rightarrow> column_collation (sc_table ot) cr
                                    | None \<Rightarrow> None))) in
      case cx_join_tables cx of
        None \<Rightarrow> local
      | Some jt \<Rightarrow>
          (case join_table_for jt qualifier name of
             None \<Rightarrow> local
           | Some t \<Rightarrow> (case resolve_column (sc_table t) name of
                          Some cr \<Rightarrow> column_collation (sc_table t) cr
                        | None \<Rightarrow> local)))"

fun expr_collation :: "ctx \<Rightarrow> expr \<Rightarrow> collation option" where
  "expr_collation cx (E_Collate e name) =
     (case collation_from_name name of Some c \<Rightarrow> Some c | None \<Rightarrow> expr_collation cx e)"
| "expr_collation cx (E_Column q name) = resolve_column_collation cx q name"
| "expr_collation cx _ = None"

definition comparison_collation :: "ctx \<Rightarrow> expr \<Rightarrow> expr \<Rightarrow> collation option" where
  "comparison_collation cx left right =
     (case (case expr_collation cx left of Some c \<Rightarrow> Some c | None \<Rightarrow> expr_collation cx right) of
        Some c \<Rightarrow> if c = Binary then None else Some c
      | None \<Rightarrow> None)"

fun collation_name :: "collation \<Rightarrow> bytes" where
  "collation_name Binary = ascii_bytes ''BINARY''"
| "collation_name NoCase = ascii_bytes ''NOCASE''"
| "collation_name RTrim = ascii_bytes ''RTRIM''"

definition set_collation :: "ctx \<Rightarrow> expr \<Rightarrow> expr \<Rightarrow> nat \<Rightarrow> unit code_op" where
  "set_collation cx left right idx =
     (case comparison_collation cx left right of
        Some c \<Rightarrow> set_p4 idx (P4_Symbol (collation_name c))
      | None \<Rightarrow> ret_op ())"

section \<open>Operators\<close>

fun arith_opcode :: "binop \<Rightarrow> arith_op option" where
  "arith_opcode B_Add = Some Op_Add"
| "arith_opcode B_Sub = Some Op_Subtract"
| "arith_opcode B_Mul = Some Op_Multiply"
| "arith_opcode B_Div = Some Op_Divide"
| "arith_opcode B_Mod = Some Op_Remainder"
| "arith_opcode B_Concat = Some Op_Concat"
| "arith_opcode B_BitAnd = Some Op_BitAnd"
| "arith_opcode B_BitOr = Some Op_BitOr"
| "arith_opcode B_ShiftLeft = Some Op_ShiftLeft"
| "arith_opcode B_ShiftRight = Some Op_ShiftRight"
| "arith_opcode _ = None"

text \<open>The comparison opcode, and whether NULL compares equal to NULL (\<open>IS\<close>).\<close>

fun cmp_opcode :: "binop \<Rightarrow> (compare_op \<times> bool) option" where
  "cmp_opcode B_Eq = Some (Op_Eq, False)"
| "cmp_opcode B_Ne = Some (Op_Ne, False)"
| "cmp_opcode B_Lt = Some (Op_Lt, False)"
| "cmp_opcode B_Le = Some (Op_Le, False)"
| "cmp_opcode B_Gt = Some (Op_Gt, False)"
| "cmp_opcode B_Ge = Some (Op_Ge, False)"
| "cmp_opcode B_Is = Some (Op_Eq, True)"
| "cmp_opcode B_IsNot = Some (Op_Ne, True)"
| "cmp_opcode _ = None"

fun negate_cmp :: "compare_op \<Rightarrow> compare_op" where
  "negate_cmp Op_Eq = Op_Ne"
| "negate_cmp Op_Ne = Op_Eq"
| "negate_cmp Op_Lt = Op_Ge"
| "negate_cmp Op_Ge = Op_Lt"
| "negate_cmp Op_Le = Op_Gt"
| "negate_cmp Op_Gt = Op_Le"

type_synonym operand = "int \<Rightarrow> unit code_op"

text \<open>Code for an operand in a fresh register.\<close>

definition fresh :: "operand \<Rightarrow> int code_op" where
  "fresh c = bind_op alloc_reg (\<lambda>r. then_op (c r) (ret_op r))"

definition compile_unary :: "unop \<Rightarrow> expr \<Rightarrow> operand \<Rightarrow> operand" where
  "compile_unary op e ce target =
     (case op of
        U_Negate \<Rightarrow>
          (case const_negate e of
             Some lit \<Rightarrow> compile_literal lit target
           | None \<Rightarrow>
               bind_op (fresh ce) (\<lambda>tmp. bind_op alloc_reg (\<lambda>zero.
                 then_op (emit_op (Load Op_Integer) 0 zero 0) (emit_op (Arith Op_Subtract) tmp zero target))))
      | U_Positive \<Rightarrow> ce target
      | U_Not \<Rightarrow> bind_op (fresh ce) (\<lambda>tmp. emit_op (Logic Op_Not) tmp target 0)
      | U_BitNot \<Rightarrow> bind_op (fresh ce) (\<lambda>tmp. emit_op (Arith Op_BitNot) tmp target 0))"

text \<open>A call of a function with two arguments in fresh registers.\<close>

definition call2 :: "bytes \<Rightarrow> operand \<Rightarrow> operand \<Rightarrow> operand" where
  "call2 name c1 c2 target =
     bind_op (alloc_regs 2) (\<lambda>start.
       then_op (c1 start) (then_op (c2 (start + 1)) (emit_call name start target 2)))"

fun json_arrow_path_literal :: "expr \<Rightarrow> bytes option" where
  "json_arrow_path_literal (E_Literal (Lit_Text s)) =
     Some (if take 1 s = ascii_bytes ''$'' then s else ascii_bytes ''$.'' @ s)"
| "json_arrow_path_literal (E_Literal (Lit_Integer n)) =
     (if 0 \<le> sint n then Some (ascii_bytes ''$['' @ i64_to_string n @ ascii_bytes '']'')
      else map_option (\<lambda>k. ascii_bytes ''$[#-'' @ i64_to_string k @ ascii_bytes '']'') (checked_i64 (- sint n)))"
| "json_arrow_path_literal (E_Unary U_Negate (E_Literal (Lit_Integer k))) =
     Some (ascii_bytes ''$[#-'' @ i64_to_string k @ ascii_bytes '']'')"
| "json_arrow_path_literal _ = None"

definition compile_json_arrow :: "binop \<Rightarrow> expr \<Rightarrow> operand \<Rightarrow> operand \<Rightarrow> operand" where
  "compile_json_arrow op right cl cr =
     (let fn_name = ascii_bytes (if op = B_JsonExtract then ''_json_arrow'' else ''_json_arrow_text'') in
      case json_arrow_path_literal right of
        Some path \<Rightarrow> call2 fn_name cl (\<lambda>r. emit_p4 (Load Op_String8) 0 r 0 (P4_Text path))
      | None \<Rightarrow> call2 fn_name cl cr)"

definition compile_comparison :: "ctx \<Rightarrow> compare_op \<Rightarrow> bool \<Rightarrow> expr \<Rightarrow> expr \<Rightarrow> operand \<Rightarrow> operand \<Rightarrow> operand" where
  "compile_comparison cx op nulleq left right cl cr target =
     bind_op (fresh cl) (\<lambda>rl. bind_op (fresh cr) (\<lambda>rr.
     bind_op (emit (Comparison op) rr target rl) (\<lambda>idx.
       then_op (set_p5 idx (aff_to_p5 (comparison_affinity cx left right) OR P5_STOREP2 OR (if nulleq then P5_NULLEQ else 0)))
         (set_collation cx left right idx))))"

definition compile_binary :: "ctx \<Rightarrow> binop \<Rightarrow> expr \<Rightarrow> expr \<Rightarrow> operand \<Rightarrow> operand \<Rightarrow> operand" where
  "compile_binary cx op left right cl cr target =
     (case (arith_opcode op, cmp_opcode op) of
        (Some opcode, _) \<Rightarrow>
          bind_op (fresh cl) (\<lambda>rl. bind_op (fresh cr) (\<lambda>rr. emit_op (Arith opcode) rr rl target))
      | (None, Some (opcode, nulleq)) \<Rightarrow> compile_comparison cx opcode nulleq left right cl cr target
      | (None, None) \<Rightarrow>
          if op = B_And \<or> op = B_Or
          then bind_op (fresh cl) (\<lambda>rl. bind_op (fresh cr) (\<lambda>rr.
                 emit_op (Logic (if op = B_And then Op_And else Op_Or)) rl rr target))
          else if op = B_Like \<or> op = B_Glob
          then call2 (ascii_bytes (if op = B_Like then ''like'' else ''glob'')) cr cl target
          else if op = B_JsonExtract \<or> op = B_JsonExtractText
          then compile_json_arrow op right cl cr target
          else fail_op (error_msg ''REGEXP / MATCH operators are not supported by the executor yet''))"

definition between_affinity :: "ctx \<Rightarrow> expr \<Rightarrow> expr \<Rightarrow> expr \<Rightarrow> affinity option" where
  "between_affinity cx e low high =
     (case comparison_affinity cx e low of Some a \<Rightarrow> Some a | None \<Rightarrow> comparison_affinity cx e high)"

text \<open>The value form of \<open>BETWEEN\<close>; both forms clear the jump-if-NULL flag of their comparisons.\<close>

definition compile_between :: "ctx \<Rightarrow> expr \<Rightarrow> expr \<Rightarrow> expr \<Rightarrow> bool \<Rightarrow> operand \<Rightarrow> operand \<Rightarrow> operand \<Rightarrow> operand" where
  "compile_between cx e low high negated ce clow chigh target =
     bind_op (fresh ce) (\<lambda>r. bind_op (fresh clow) (\<lambda>lo. bind_op (fresh chigh) (\<lambda>hi.
     bind_op new_label (\<lambda>dest_true. bind_op new_label (\<lambda>dest_false. bind_op new_label (\<lambda>dest_null.
     bind_op new_label (\<lambda>dest_end.
       let p5 = (aff_to_p5 (between_affinity cx e low high) OR P5_JUMPIFNULL) AND NOT P5_JUMPIFNULL;
           out = (if negated then dest_true else dest_false) in
       then_op (jump_p5 (Logic Op_IsNull) r dest_null 0 0)
      (then_op (jump_p5 (Comparison Op_Lt) lo out r p5)
      (then_op (jump_p5 (Comparison Op_Gt) hi out r p5)
      (then_op (emit_op (Load Op_Integer) (if negated then 0 else 1) target 0)
      (then_op (goto dest_end)
      (then_op (resolve out)
      (then_op (emit_op (Load Op_Integer) (if negated then 1 else 0) target 0)
      (then_op (goto dest_end)
      (then_op (resolve dest_null)
      (then_op (emit_op (Load Op_Null) target 0 0)
               (resolve dest_end)))))))))))))))))"

definition compile_coalesce2 :: "operand \<Rightarrow> operand \<Rightarrow> operand" where
  "compile_coalesce2 cl cr target =
     then_op (cl target)
      (bind_op new_label (\<lambda>not_null.
         then_op (jump_p5 (Logic Op_NotNull) target not_null 0 0)
        (then_op (cr target) (resolve not_null))))"

definition compile_call :: "bytes \<Rightarrow> bool \<Rightarrow> operand list option \<Rightarrow> operand" where
  "compile_call name is_distinct args target =
     (if is_distinct then fail_op (error_msg ''DISTINCT in function arguments is not supported in M3a'')
      else case args of
        None \<Rightarrow> fail_op (error_msg (text_string name @ ''(*) is not supported in M3a''))
      | Some cs \<Rightarrow>
          then_op (lift_op (func_check name (length cs)))
           (bind_op (alloc_regs (int (length cs))) (\<lambda>start.
              then_op (each_op (\<lambda>(k, c). c (start + int k)) (enumerate 0 cs))
                (emit_call name start target (length cs)))))"

section \<open>Expressions\<close>

definition unsupported :: "string \<Rightarrow> unit code_op" where
  "unsupported what = fail_op (error_msg (what @ '' not supported by the executor yet''))"

fun compile_expr :: "ctx \<Rightarrow> expr \<Rightarrow> operand" where
  "compile_expr cx (E_Literal lit) = compile_literal lit"
| "compile_expr cx (E_Column q name) = compile_column cx q name"
| "compile_expr cx (E_Unary op e) = compile_unary op e (compile_expr cx e)"
| "compile_expr cx (E_Binary op l r) = compile_binary cx op l r (compile_expr cx l) (compile_expr cx r)"
| "compile_expr cx (E_Function name d args) = compile_call name d (map_option (map (compile_expr cx)) args)"
| "compile_expr cx (E_BindParam p) = (\<lambda>_. fail_op (error_msg ''bind parameters are not supported in M3a''))"
| "compile_expr cx (E_Between e low high negated) =
     compile_between cx e low high negated (compile_expr cx e) (compile_expr cx low) (compile_expr cx high)"
| "compile_expr cx (E_In e vs n) = (\<lambda>_. unsupported ''IN is'')"
| "compile_expr cx (E_InSubquery e n) = (\<lambda>_. unsupported ''subqueries are'')"
| "compile_expr cx E_Exists = (\<lambda>_. unsupported ''subqueries are'')"
| "compile_expr cx E_Subquery = (\<lambda>_. unsupported ''subqueries are'')"
| "compile_expr cx (E_Row es) = (\<lambda>_. unsupported ''row-value expressions are'')"
| "compile_expr cx (E_Cast e t) = (\<lambda>_. unsupported ''CAST is'')"
| "compile_expr cx (E_Case b ws el) = (\<lambda>_. unsupported ''CASE is'')"
| "compile_expr cx (E_Collate e c) = compile_expr cx e"
| "compile_expr cx (E_IsDistinctFrom l r n) = (\<lambda>_. unsupported ''IS DISTINCT FROM is'')"
| "compile_expr cx (E_AggRef reg) = (\<lambda>target. emit_op (Moves Op_SCopy) reg target 0)"
| "compile_expr cx (E_Coalesce2 l r) = compile_coalesce2 (compile_expr cx l) (compile_expr cx r)"

section \<open>Conditional jumps\<close>

definition null_flag :: "bool \<Rightarrow> u8" where
  "null_flag on = (if on then P5_JUMPIFNULL else 0)"

definition jump_between :: "ctx \<Rightarrow> expr \<Rightarrow> expr \<Rightarrow> expr \<Rightarrow> bool \<Rightarrow> label \<Rightarrow> bool \<Rightarrow> bool \<Rightarrow> unit code_op" where
  "jump_between cx e low high negated l if_true if_null =
     bind_op (fresh (compile_expr cx e)) (\<lambda>r. bind_op (fresh (compile_expr cx low)) (\<lambda>lo.
     bind_op (fresh (compile_expr cx high)) (\<lambda>hi.
       let aff = aff_to_p5 (between_affinity cx e low high);
           p5 = aff OR null_flag if_null; p5_short = aff OR null_flag (\<not> if_null) in
       if negated = if_true
       then then_op (jump_p5 (Comparison Op_Lt) lo l r p5) (jump_p5 (Comparison Op_Gt) hi l r p5)
       else bind_op new_label (\<lambda>d2.
              then_op (jump_p5 (Comparison Op_Lt) lo d2 r p5_short)
             (then_op (jump_p5 (Comparison Op_Le) hi l r p5) (resolve d2))))))"

definition jump_comparison :: "ctx \<Rightarrow> compare_op \<Rightarrow> bool \<Rightarrow> expr \<Rightarrow> expr \<Rightarrow> label \<Rightarrow> bool \<Rightarrow> bool \<Rightarrow> unit code_op" where
  "jump_comparison cx op nulleq left right l if_true if_null =
     bind_op (fresh (compile_expr cx left)) (\<lambda>rl. bind_op (fresh (compile_expr cx right)) (\<lambda>rr.
     bind_op (emit_jump (Comparison (if if_true then op else negate_cmp op)) rr l rl) (\<lambda>idx.
       then_op (set_p5 idx (aff_to_p5 (comparison_affinity cx left right) OR (if nulleq then P5_NULLEQ else null_flag if_null)))
         (set_collation cx left right idx))))"

definition jump_value :: "ctx \<Rightarrow> expr \<Rightarrow> label \<Rightarrow> bool \<Rightarrow> bool \<Rightarrow> unit code_op" where
  "jump_value cx e l if_true if_null =
     bind_op (fresh (compile_expr cx e)) (\<lambda>r.
       jump_p5 (Logic (if if_true then Op_If else Op_IfNot)) r l (if if_null then 1 else 0) 0)"

fun compile_jump :: "ctx \<Rightarrow> expr \<Rightarrow> label \<Rightarrow> bool \<Rightarrow> bool \<Rightarrow> unit code_op" where
  "compile_jump cx (E_Binary op left right) l if_true if_null =
     (if op = B_And \<or> op = B_Or
      then (if (op = B_And) = if_true
            then bind_op new_label (\<lambda>d2.
                   then_op (compile_jump cx left d2 (\<not> if_true) (\<not> if_null))
                  (then_op (compile_jump cx right l if_true if_null) (resolve d2)))
            else then_op (compile_jump cx left l if_true if_null) (compile_jump cx right l if_true if_null))
      else (case cmp_opcode op of
              Some (opcode, nulleq) \<Rightarrow> jump_comparison cx opcode nulleq left right l if_true if_null
            | None \<Rightarrow> jump_value cx (E_Binary op left right) l if_true if_null))"
| "compile_jump cx (E_Unary U_Not e) l if_true if_null = compile_jump cx e l (\<not> if_true) if_null"
| "compile_jump cx (E_Between e low high negated) l if_true if_null =
     jump_between cx e low high negated l if_true if_null"
| "compile_jump cx e l if_true if_null = jump_value cx e l if_true if_null"

end
