(* ===== verification/Codegen_Link.thy ===== *)
theory Codegen_Link
  imports Codegen_Expr
begin

text \<open>
  From emitted code to the finished program. Code generation only extends a builder (\<open>grows\<close>), and the
  finished program contains the instructions of every builder it went through, with the jumps of that
  builder patched to the final addresses of their labels (\<open>linked\<close>). What a piece of code does can
  therefore be said once, about any program it is linked into.
\<close>

section \<open>Growing builders\<close>

definition grows :: "builder \<Rightarrow> builder \<Rightarrow> bool" where
  "grows b b' \<longleftrightarrow>
     (\<exists>is fs ls. bd_insts b' = bd_insts b @ is \<and> bd_fixups b' = bd_fixups b @ fs \<and> bd_label_addr b' = bd_label_addr b @ ls
        \<and> (\<forall>i \<in> fst ` set fs. length (bd_insts b) \<le> i \<and> i < length (bd_insts b')) \<and> distinct (map fst fs))
     \<and> bd_next_reg b \<le> bd_next_reg b'"

definition fixed :: "builder \<Rightarrow> bool" where
  "fixed b \<longleftrightarrow> (\<forall>i \<in> fst ` set (bd_fixups b). i < length (bd_insts b)) \<and> distinct (map fst (bd_fixups b))"

lemma grows_refl [simp]: "grows b b"
  by (auto simp: grows_def)

lemma grows_trans [trans]:
  assumes "grows a b" and "grows b c"
  shows "grows a c"
proof -
  obtain i1 f1 l1 where 1: "bd_insts b = bd_insts a @ i1" "bd_fixups b = bd_fixups a @ f1" "bd_label_addr b = bd_label_addr a @ l1"
      "\<forall>i \<in> fst ` set f1. length (bd_insts a) \<le> i \<and> i < length (bd_insts b)" "distinct (map fst f1)"
    and r1: "bd_next_reg a \<le> bd_next_reg b"
    using assms(1) unfolding grows_def by blast
  obtain i2 f2 l2 where 2: "bd_insts c = bd_insts b @ i2" "bd_fixups c = bd_fixups b @ f2" "bd_label_addr c = bd_label_addr b @ l2"
      "\<forall>i \<in> fst ` set f2. length (bd_insts b) \<le> i \<and> i < length (bd_insts c)" "distinct (map fst f2)"
    and r2: "bd_next_reg b \<le> bd_next_reg c"
    using assms(2) unfolding grows_def by blast
  have "distinct (map fst (f1 @ f2))" using 1(4,5) 2(4,5) by fastforce
  moreover have "\<forall>i \<in> fst ` set (f1 @ f2). length (bd_insts a) \<le> i \<and> i < length (bd_insts c)"
    using 1(1,4) 2(1,4) by fastforce
  ultimately have "\<exists>is fs ls. bd_insts c = bd_insts a @ is \<and> bd_fixups c = bd_fixups a @ fs \<and> bd_label_addr c = bd_label_addr a @ ls
        \<and> (\<forall>i \<in> fst ` set fs. length (bd_insts a) \<le> i \<and> i < length (bd_insts c)) \<and> distinct (map fst fs)"
    using 1(1-3) 2(1-3) by (intro exI [of _ "i1 @ i2"] exI [of _ "f1 @ f2"] exI [of _ "l1 @ l2"]) simp
  then show ?thesis using order_trans [OF r1 r2] unfolding grows_def by blast
qed

lemma grows_fixed: "grows b b' \<Longrightarrow> fixed b \<Longrightarrow> fixed b'"
  unfolding grows_def fixed_def by fastforce

lemma fixed_new: "fixed builder_new"
  by (auto simp: fixed_def builder_new_def builder.defs)

lemma grows_length: "grows b b' \<Longrightarrow> length (bd_insts b) \<le> length (bd_insts b')"
  by (auto simp: grows_def)

lemma grows_regs: "grows b b' \<Longrightarrow> bd_next_reg b \<le> bd_next_reg b'"
  by (simp add: grows_def)

lemma grows_label: "grows b b' \<Longrightarrow> l < length (bd_label_addr b) \<Longrightarrow>
    l < length (bd_label_addr b') \<and> bd_label_addr b' ! l = bd_label_addr b ! l"
  by (auto simp: grows_def nth_append)

section \<open>Emitting\<close>

text \<open>Every emission appends one instruction, with or without a label to patch.\<close>

definition emit_inst :: "instruction \<Rightarrow> unit code_op" where
  "emit_inst inst b = (append_inst inst b, Inr ())"

definition emit_branch :: "instruction \<Rightarrow> label \<Rightarrow> unit code_op" where
  "emit_branch inst l b = (add_fixup (length (bd_insts b)) l (append_inst inst b), Inr ())"

lemma append_inst_simps [simp]:
  "bd_insts (append_inst inst b) = bd_insts b @ [inst]" "bd_fixups (append_inst inst b) = bd_fixups b"
  "bd_label_addr (append_inst inst b) = bd_label_addr b" "bd_next_reg (append_inst inst b) = bd_next_reg b"
  "bd_insts (add_fixup i l b) = bd_insts b" "bd_fixups (add_fixup i l b) = bd_fixups b @ [(i, l)]"
  "bd_label_addr (add_fixup i l b) = bd_label_addr b" "bd_next_reg (add_fixup i l b) = bd_next_reg b"
  by (simp_all add: append_inst_def add_fixup_def)

lemma grows_append [simp]: "grows b (append_inst inst b)"
  "grows b (add_fixup (length (bd_insts b)) l (append_inst inst b))"
  by (auto simp: grows_def)

named_theorems emitted \<open>emissions as single instructions\<close>

lemma update_last [simp]:
  "update_inst f (length (bd_insts b)) (append_inst inst b) = (append_inst (f inst) b, Inr ())"
  "update_inst f (length (bd_insts b)) (add_fixup i l (append_inst inst b)) = (add_fixup i l (append_inst (f inst) b), Inr ())"
  by (simp_all add: update_inst_def append_inst_def add_fixup_def)

lemma emit_forms [emitted]:
  "emit_op op p1 p2 p3 = emit_inst (Instruction op p1 p2 p3 P4_None 0)"
  "emit_p4 op p1 p2 p3 x = emit_inst (Instruction op p1 p2 p3 x 0)"
  "emit_call name start target n = emit_inst (Instruction (Moves Op_Function) 0 start target (P4_Symbol name) (of_nat n))"
  "jump_p5 op p1 l p3 p5 = emit_branch (Instruction op p1 0 p3 P4_None p5) l"
  "goto l = emit_branch (Instruction (Control Op_Goto) 0 0 0 P4_None 0) l"
  by (rule ext, simp add: emit_op_def emit_p4_def emit_call_def jump_p5_def goto_def emit_def emit_jump_def emit_inst_def
      emit_branch_def instruction_new_def set_p4_def set_p5_def bind_op_def then_op_def)+

definition collation_p4 :: "ctx \<Rightarrow> expr \<Rightarrow> expr \<Rightarrow> p4" where
  "collation_p4 cx left right =
     (case comparison_collation cx left right of Some c \<Rightarrow> P4_Symbol (collation_name c) | None \<Rightarrow> P4_None)"

lemma emit_comparison [emitted]:
  "bind_op (emit op p1 p2 p3) (\<lambda>idx. then_op (set_p5 idx p5) (set_collation cx l r idx)) =
     emit_inst (Instruction op p1 p2 p3 (collation_p4 cx l r) p5)"
  "bind_op (emit_jump op p1 lab p3) (\<lambda>idx. then_op (set_p5 idx p5) (set_collation cx l r idx)) =
     emit_branch (Instruction op p1 0 p3 (collation_p4 cx l r) p5) lab"
  by (rule ext, simp add: emit_def emit_jump_def emit_inst_def emit_branch_def instruction_new_def set_p4_def set_p5_def
      bind_op_def then_op_def set_collation_def collation_p4_def split: option.split)+

section \<open>Linking\<close>

fun with_p2 :: "int \<Rightarrow> instruction \<Rightarrow> instruction" where
  "with_p2 x (Instruction op p1 p2 p3 p4 p5) = Instruction op p1 x p3 p4 p5"

definition final_inst :: "(label \<Rightarrow> int) \<Rightarrow> builder \<Rightarrow> nat \<Rightarrow> instruction" where
  "final_inst L b i =
     (case map_of (bd_fixups b) i of None \<Rightarrow> bd_insts b ! i | Some l \<Rightarrow> with_p2 (L l) (bd_insts b ! i))"

definition linked :: "instruction list \<Rightarrow> (label \<Rightarrow> int) \<Rightarrow> builder \<Rightarrow> bool" where
  "linked insts L b \<longleftrightarrow>
     length (bd_insts b) \<le> length insts \<and> (\<forall>i < length (bd_insts b). insts ! i = final_inst L b i)
     \<and> (\<forall>l < length (bd_label_addr b). \<forall>a. bd_label_addr b ! l = Some a \<longrightarrow> L l = a)"

lemma linked_mono:
  assumes "linked insts L b'" and "grows b b'"
  shows "linked insts L b"
proof -
  obtain "is" fs ls where g: "bd_insts b' = bd_insts b @ is" "bd_fixups b' = bd_fixups b @ fs" "bd_label_addr b' = bd_label_addr b @ ls"
      "\<forall>i \<in> fst ` set fs. length (bd_insts b) \<le> i"
    using assms(2) unfolding grows_def by blast
  have "final_inst L b' i = final_inst L b i" if "i < length (bd_insts b)" for i
  proof -
    have "i \<notin> fst ` set fs" using g(4) that by fastforce
    then have "map_of fs i = None" by (simp add: map_of_eq_None_iff)
    then have "map_of (bd_fixups b') i = map_of (bd_fixups b) i"
      by (simp add: g(2) map_add_def split: option.split)
    then show ?thesis using that by (simp add: final_inst_def g(1) nth_append split: option.split)
  qed
  then show ?thesis using assms(1) by (auto simp: linked_def g nth_append)
qed

lemma linked_plain:
  assumes "linked insts L b'" and "grows (append_inst inst b) b'" and "fixed b"
  shows "get_opt insts (length (bd_insts b)) = Some inst"
proof -
  have l: "linked insts L (append_inst inst b)" using assms(1,2) by (rule linked_mono)
  have "map_of (bd_fixups b) (length (bd_insts b)) = None" using assms(3) by (auto simp: fixed_def map_of_eq_None_iff)
  then show ?thesis using l by (auto simp: linked_def final_inst_def)
qed

lemma linked_branch:
  assumes "linked insts L b'" and "grows (add_fixup (length (bd_insts b)) lab (append_inst inst b)) b'" and "fixed b"
  shows "get_opt insts (length (bd_insts b)) = Some (with_p2 (L lab) inst)"
proof -
  have l: "linked insts L (add_fixup (length (bd_insts b)) lab (append_inst inst b))" using assms(1,2) by (rule linked_mono)
  have "map_of (bd_fixups b) (length (bd_insts b)) = None" using assms(3) by (auto simp: fixed_def map_of_eq_None_iff)
  then show ?thesis using l by (auto simp: linked_def final_inst_def map_add_def)
qed

text \<open>A label made before a piece of code and resolved behind it.\<close>

lemma resolve_grows:
  assumes "new_label b = (b1, Inr l)" and "grows b1 b2" and "resolve l b2 = (b3, Inr ())"
  shows "grows b b3"
proof -
  have n: "b1 = b\<lparr>bd_label_addr := bd_label_addr b @ [None]\<rparr>" "l = length (bd_label_addr b)"
    using assms(1) by (auto simp: new_label_def)
  then show ?thesis using assms(2,3)
    by (auto simp: grows_def resolve_def nth_append list_update_append split: if_splits)
qed

lemma resolve_linked:
  assumes "new_label b = (b1, Inr l)" and "grows b1 b2" and "resolve l b2 = (b3, Inr ())" and "linked insts L b3"
  shows "linked insts L b2" and "L l = int (length (bd_insts b2))" and "bd_insts b3 = bd_insts b2"
    and "bd_next_reg b3 = bd_next_reg b2" and "bd_fixups b3 = bd_fixups b2"
proof -
  have n: "l < length (bd_label_addr b1)" "bd_label_addr b1 ! l = None" using assms(1) by (auto simp: new_label_def)
  then have l2: "l < length (bd_label_addr b2)" "bd_label_addr b2 ! l = None" using grows_label [OF assms(2)] by auto
  have b3: "b3 = b2\<lparr>bd_label_addr := (bd_label_addr b2)[l := Some (cur_addr b2)]\<rparr>" using assms(3) l2(1) by (auto simp: resolve_def)
  show "bd_insts b3 = bd_insts b2" "bd_next_reg b3 = bd_next_reg b2" "bd_fixups b3 = bd_fixups b2" by (simp_all add: b3)
  show "L l = int (length (bd_insts b2))" using assms(4) l2(1) by (auto simp: linked_def b3 cur_addr_def)
  have "\<forall>k < length (bd_label_addr b2). \<forall>a. bd_label_addr b2 ! k = Some a \<longrightarrow> L k = a"
    using assms(4) l2 unfolding linked_def b3 by (auto simp: nth_list_update split: if_splits)
  moreover have "final_inst L b3 i = final_inst L b2 i" for i by (simp add: final_inst_def b3 split: option.split)
  ultimately show "linked insts L b2" using assms(4) by (auto simp: linked_def b3)
qed

lemma new_label_grows: "new_label b = (b', Inr l) \<Longrightarrow> grows b b'"
  by (auto simp: new_label_def grows_def)

lemma alloc_reg_grows: "alloc_reg b = (b', Inr r) \<Longrightarrow> grows b b' \<and> r = bd_next_reg b \<and> bd_next_reg b' = r + 1
    \<and> bd_insts b' = bd_insts b"
  by (auto simp: alloc_reg_def grows_def i32_add_def split: if_splits)

lemma alloc_regs_grows: "alloc_regs n b = (b', Inr r) \<Longrightarrow> grows b b' \<and> r = bd_next_reg b \<and> bd_next_reg b' = r + max n 0
    \<and> bd_insts b' = bd_insts b"
  by (auto simp: alloc_regs_def grows_def i32_add_def split: if_splits)

section \<open>The finished program\<close>

definition final_addr :: "builder \<Rightarrow> label \<Rightarrow> int" where
  "final_addr b l = (case get_opt (bd_label_addr b) l of Some (Some a) \<Rightarrow> a | _ \<Rightarrow> 0)"

lemma patch_all_result:
  assumes "patch_all addrs fs (counts, insts) = Inr (counts', insts')" and "distinct (map fst fs)"
    and "\<And>i. i \<in> fst ` set fs \<Longrightarrow> counts i = 0"
  shows "length insts' = length insts \<and> (\<forall>i < length insts. insts' ! i =
    (case map_of fs i of None \<Rightarrow> insts ! i
     | Some l \<Rightarrow> with_p2 (case get_opt addrs l of Some (Some a) \<Rightarrow> a | _ \<Rightarrow> 0) (insts ! i)))"
  using assms
proof (induction fs arbitrary: counts insts)
  case (Cons f fs)
  obtain idx l where f: "f = (idx, l)" by (cases f) auto
  have c0: "counts idx = 0" using Cons.prems(3) f by auto
  obtain op p1 p2 p3 p4 p5 where i: "insts ! idx = Instruction op p1 p2 p3 p4 p5" by (cases "insts ! idx") auto
  from Cons.prems(1) obtain a where a: "get_opt addrs l = Some (Some a)" "idx < length insts"
      "patch_all addrs fs (counts(idx := 1), insts[idx := with_p2 a (insts ! idx)]) = Inr (counts', insts')"
    by (auto simp: f patch_at_def and_then_def c0 i split: option.splits if_splits sum.splits)
  have n: "idx \<notin> fst ` set fs" using Cons.prems(2) f by auto
  have "(counts(idx := 1)) k = 0" if "k \<in> fst ` set fs" for k using that n Cons.prems(3) [of k] by auto
  then have IH: "length insts' = length insts" "\<forall>i < length insts. insts' ! i =
      (case map_of fs i of None \<Rightarrow> insts[idx := with_p2 a (insts ! idx)] ! i
       | Some l \<Rightarrow> with_p2 (case get_opt addrs l of Some (Some a) \<Rightarrow> a | _ \<Rightarrow> 0) (insts[idx := with_p2 a (insts ! idx)] ! i))"
    using Cons.IH [OF a(3)] Cons.prems(2) by auto
  have "map_of fs idx = None" using n by (simp add: map_of_eq_None_iff)
  then show ?case using IH a by (auto simp: f nth_list_update split: option.split)
qed simp

lemma finish_linked:
  assumes "finish b = Inr prog" and "fixed b"
  shows "linked (prog_instructions prog) (final_addr b) b" and "prog_num_registers prog = usize_of (bd_next_reg b)"
    and "length (prog_instructions prog) = length (bd_insts b)"
proof -
  obtain counts insts where p: "patch_all (bd_label_addr b) (bd_fixups b) (\<lambda>_. 0, bd_insts b) = Inr (counts, insts)"
      "prog = Program insts (usize_of (bd_next_reg b)) (usize_of (bd_next_cursor b)) (bd_default_oe b)"
    using assms(1) by (auto simp: finish_def and_then_def split: sum.splits)
  have r: "length insts = length (bd_insts b)"
    "\<forall>i < length (bd_insts b). insts ! i = final_inst (final_addr b) b i"
    using patch_all_result [OF p(1)] assms(2) by (auto simp: fixed_def final_inst_def final_addr_def split: option.split)
  then show "linked (prog_instructions prog) (final_addr b) b"
    by (auto simp: p(2) linked_def final_addr_def)
  show "prog_num_registers prog = usize_of (bd_next_reg b)" "length (prog_instructions prog) = length (bd_insts b)"
    using r(1) by (simp_all add: p(2))
qed

end
