(* ===== verification/Codegen_Run.thy ===== *)
theory Codegen_Run
  imports Codegen_Link
begin

text \<open>
  Running emitted code. \<open>gives env lo rely c v\<close> says that the code \<open>c\<close> of an operand, linked into any
  program, runs to its end, leaves \<open>v\<close> in its target register and changes no other register but those it
  allocated. \<open>rely\<close> is what the code may rely on beyond the registers, such as the row a cursor is on;
  it may also mention the registers below \<open>lo\<close>. The lemmas of the locale \<open>register_code\<close> build the code of
  an operator from the code of its operands.
\<close>

definition runs :: "vm_env \<Rightarrow> vdbe \<Rightarrow> vdbe \<Rightarrow> bool" where
  "runs env = (\<lambda>a b. turn env a = (b, Inr Again))\<^sup>*\<^sup>*"

lemma runs_refl [simp]: "runs env vm vm"
  by (simp add: runs_def)

lemma runs_trans [trans]: "runs env a b \<Longrightarrow> runs env b c \<Longrightarrow> runs env a c"
  unfolding runs_def by (rule rtranclp_trans)

lemma runs_turn: "turn env a = (b, Inr Again) \<Longrightarrow> runs env a b"
  unfolding runs_def by (rule r_into_rtranclp)

text \<open>The fields that evaluating an expression leaves alone.\<close>

definition same_frame :: "vdbe \<Rightarrow> vdbe \<Rightarrow> bool" where
  "same_frame vm vm' \<longleftrightarrow>
     vm_program vm' = vm_program vm \<and> vm_encoding vm' = vm_encoding vm
     \<and> vm_result_start vm' = vm_result_start vm \<and> vm_result_count vm' = vm_result_count vm
     \<and> vm_halted vm' = vm_halted vm \<and> vm_ctx vm' = vm_ctx vm
     \<and> vm_cursor_root vm' = vm_cursor_root vm \<and> vm_write_txn vm' = vm_write_txn vm
     \<and> vm_autocommit vm' = vm_autocommit vm
     \<and> vm_is_transaction_savepoint vm' = vm_is_transaction_savepoint vm
     \<and> vm_last_compare vm' = vm_last_compare vm \<and> vm_once_done vm' = vm_once_done vm
     \<and> vm_frames vm' = vm_frames vm \<and> vm_stmt_savepoint vm' = vm_stmt_savepoint vm
     \<and> vm_oe_override vm' = vm_oe_override vm \<and> vm_heap vm' = vm_heap vm"

lemma same_frame_refl [simp]: "same_frame vm vm"
  by (simp add: same_frame_def)

lemma same_frame_trans [trans]: "same_frame a b \<Longrightarrow> same_frame b c \<Longrightarrow> same_frame a c"
  by (simp add: same_frame_def)

lemmas same_frame_fields = same_frame_def [THEN iffD1]

definition moved :: "(vdbe \<Rightarrow> bool) \<Rightarrow> int set \<Rightarrow> vdbe \<Rightarrow> vdbe \<Rightarrow> bool" where
  "moved rely W vm vm' \<longleftrightarrow>
     same_frame vm vm' \<and> rely vm' \<and> length (vm_regs vm') = length (vm_regs vm)
     \<and> (\<forall>i < length (vm_regs vm). int i \<notin> W \<longrightarrow> vm_regs vm' ! i = vm_regs vm ! i)"

lemma moved_trans:
  assumes "moved rely W a b" and "moved rely W' b c" and "W \<subseteq> V" and "W' \<subseteq> V"
  shows "moved rely V a c"
proof -
  have "same_frame a c" using assms(1,2) same_frame_trans unfolding moved_def by blast
  moreover have "vm_regs c ! i = vm_regs a ! i" if "i < length (vm_regs a)" "int i \<notin> V" for i
  proof -
    have "int i \<notin> W" "int i \<notin> W'" using that(2) assms(3,4) by auto
    then show ?thesis using assms(1,2) that(1) by (simp add: moved_def)
  qed
  ultimately show ?thesis using assms(1,2) by (simp add: moved_def)
qed

lemma moved_reg:
  "moved rely W vm vm' \<Longrightarrow> 0 \<le> r \<Longrightarrow> nat r < length (vm_regs vm) \<Longrightarrow> r \<notin> W \<Longrightarrow> vm_regs vm' ! nat r = vm_regs vm ! nat r"
  by (simp add: moved_def)

definition ready :: "int \<Rightarrow> (vdbe \<Rightarrow> bool) \<Rightarrow> instruction list \<Rightarrow> builder \<Rightarrow> builder \<Rightarrow> vdbe \<Rightarrow> bool" where
  "ready lo rely insts b b' vm \<longleftrightarrow>
     prog_instructions (vm_program vm) = insts \<and> vm_pc vm = length (bd_insts b) \<and> rely vm \<and> lo \<le> bd_next_reg b
     \<and> bd_next_reg b' \<le> int (length (vm_regs vm)) \<and> fixed b"

definition gives :: "vm_env \<Rightarrow> int \<Rightarrow> (vdbe \<Rightarrow> bool) \<Rightarrow> operand \<Rightarrow> sql_value \<Rightarrow> bool" where
  "gives env lo rely c v \<longleftrightarrow>
     (\<forall>t b b'. c t b = (b', Inr ()) \<longrightarrow> grows b b' \<and> (\<forall>insts L vm. linked insts L b' \<longrightarrow> ready lo rely insts b b' vm \<longrightarrow>
        lo \<le> t \<longrightarrow> t < bd_next_reg b \<longrightarrow>
        (\<exists>vm'. runs env vm vm' \<and> vm_pc vm' = length (bd_insts b') \<and> moved rely ({t} \<union> {bd_next_reg b..<bd_next_reg b'}) vm vm'
           \<and> vm_regs vm' ! nat t = v)))"

lemma gives_grows: "gives env lo rely c v \<Longrightarrow> c t b = (b', Inr ()) \<Longrightarrow> grows b b'"
  by (simp add: gives_def)

lemma gives_cong:
  assumes "gives env lo rely c v" and "\<And>t. c' t = c t"
  shows "gives env lo rely c' v"
proof -
  have "c' = c" using assms(2) by (rule ext)
  then show ?thesis using assms(1) by simp
qed

lemma gives_runs:
  assumes "gives env lo rely c v" and "c t b = (b', Inr ())" and "linked insts L b'" and "ready lo rely insts b b' vm"
    and "lo \<le> t" and "t < bd_next_reg b"
  obtains vm' where "runs env vm vm'" "vm_pc vm' = length (bd_insts b')"
    "moved rely ({t} \<union> {bd_next_reg b..<bd_next_reg b'}) vm vm'" "vm_regs vm' ! nat t = v"
  using assms unfolding gives_def by blast

text \<open>After a piece of code, the next one is ready.\<close>

lemma ready_next:
  assumes "ready lo rely insts b b'' vm" and "grows b b'" and "grows b' b''" and "moved rely W vm vm'"
    and "vm_pc vm' = length (bd_insts b')"
  shows "ready lo rely insts b' b'' vm'"
  using assms grows_regs [OF assms(2)] grows_fixed [OF assms(2)] same_frame_fields [of vm vm']
  by (auto simp: ready_def moved_def)

lemma ready_cut: "ready lo rely insts b b'' vm \<Longrightarrow> grows b' b'' \<Longrightarrow> ready lo rely insts b b' vm"
  using grows_regs [of b' b''] by (simp add: ready_def)

definition stores :: "vm_env \<Rightarrow> instruction \<Rightarrow> int \<Rightarrow> sql_value \<Rightarrow> vdbe \<Rightarrow> bool" where
  "stores env inst t v vm \<longleftrightarrow>
     (\<exists>ag. dispatch env (inst_opcode inst) inst vm =
        (vm\<lparr>vm_pc := vm_pc vm + 1, vm_regs := (vm_regs vm)[nat t := v], vm_aggregates := ag\<rparr>, Inr Again))"

definition extends :: "'a code_op \<Rightarrow> bool" where
  "extends m \<longleftrightarrow> (\<forall>b b' x. m b = (b', Inr x) \<longrightarrow> grows b b')"

lemma extendsD: "extends m \<Longrightarrow> m b = (b', Inr x) \<Longrightarrow> grows b b'"
  by (simp add: extends_def)

lemma extends_bind:
  assumes "extends m" and "\<And>x. extends (f x)"
  shows "extends (bind_op m f)"
  unfolding extends_def
proof (intro allI impI)
  fix b b' x
  assume "bind_op m f b = (b', Inr x)"
  then obtain b1 y where "m b = (b1, Inr y)" "f y b1 = (b', Inr x)" by (auto simp: bind_op_success)
  then have "grows b b1" "grows b1 b'" using extendsD [OF assms(1)] extendsD [OF assms(2)] by simp_all
  then show "grows b b'" by (rule grows_trans)
qed

lemma extends_then: "extends m \<Longrightarrow> extends n \<Longrightarrow> extends (then_op m n)"
  by (simp add: then_op_def extends_bind)

lemma extends_emit [simp]: "extends (emit_inst inst)" "extends (emit_branch inst l)"
  by (simp_all add: extends_def emit_inst_def emit_branch_def)

lemma extends_around:
  assumes "\<And>d. extends (m d)"
  shows "extends (bind_op new_label (\<lambda>d. then_op (m d) (resolve d)))"
  unfolding extends_def
proof (intro allI impI)
  fix b b' x
  assume "bind_op new_label (\<lambda>d. then_op (m d) (resolve d)) b = (b', Inr x)"
  then obtain b1 d b2 where "new_label b = (b1, Inr d)" "m d b1 = (b2, Inr ())" "resolve d b2 = (b', Inr ())"
    by (auto simp: bind_op_success then_op_success)
  then show "grows b b'" using resolve_grows extendsD [OF assms] by metis
qed

lemma then_op_assoc: "then_op (then_op a b) c = then_op a (then_op b c)"
  by (rule ext) (simp add: then_op_def bind_op_def split: prod.split sum.split)

definition branches :: "vm_env \<Rightarrow> int \<Rightarrow> (vdbe \<Rightarrow> bool) \<Rightarrow> unit code_op \<Rightarrow> label \<Rightarrow> bool \<Rightarrow> bool" where
  "branches env lo rely c l taken \<longleftrightarrow>
     (\<forall>b b'. c b = (b', Inr ()) \<longrightarrow> grows b b' \<and> (\<forall>insts L vm. linked insts L b' \<longrightarrow> ready lo rely insts b b' vm \<longrightarrow>
        (\<exists>vm'. runs env vm vm' \<and> vm_pc vm' = (if taken then usize_of (L l) else length (bd_insts b'))
           \<and> moved rely {bd_next_reg b..<bd_next_reg b'} vm vm')))"

lemma branches_grows: "branches env lo rely c l taken \<Longrightarrow> c b = (b', Inr ()) \<Longrightarrow> grows b b'"
  by (simp add: branches_def)

lemma branches_runs:
  assumes "branches env lo rely c l taken" and "c b = (b', Inr ())" and "linked insts L b'" and "ready lo rely insts b b' vm"
  obtains vm' where "runs env vm vm'" "vm_pc vm' = (if taken then usize_of (L l) else length (bd_insts b'))"
    "moved rely {bd_next_reg b..<bd_next_reg b'} vm vm'"
  using assms unfolding branches_def by blast

text \<open>What is known of a register that the code behind it must keep.\<close>

definition and_reg :: "(vdbe \<Rightarrow> bool) \<Rightarrow> int \<Rightarrow> sql_value \<Rightarrow> vdbe \<Rightarrow> bool" where
  "and_reg rely r v vm \<longleftrightarrow> rely vm \<and> nat r < length (vm_regs vm) \<and> vm_regs vm ! nat r = v"

lemma moved_and_reg:
  "moved rely W vm vm' \<Longrightarrow> and_reg rely r v vm \<Longrightarrow> 0 \<le> r \<Longrightarrow> r \<notin> W \<Longrightarrow> moved (and_reg rely r v) W vm vm'"
  by (auto simp: moved_def and_reg_def)

lemma moved_drop: "moved (and_reg rely r v) W vm vm' \<Longrightarrow> moved rely W vm vm'"
  by (auto simp: moved_def and_reg_def)

lemma ready_drop: "ready lo' (and_reg rely r v) insts b b' vm \<Longrightarrow> lo \<le> lo' \<Longrightarrow> ready lo rely insts b b' vm"
  by (auto simp: ready_def and_reg_def)

lemma gives_protect:
  assumes "gives env lo rely c v" and "lo \<le> r" and "0 \<le> r"
  shows "gives env (r + 1) (and_reg rely r w) c v"
  unfolding gives_def
proof (intro allI impI conjI)
  fix t b b' insts L vm
  assume c: "c t b = (b', Inr ())"
  show "grows b b'" using assms(1) c by (rule gives_grows)
  assume l: "linked insts L b'" and rd: "ready (r + 1) (and_reg rely r w) insts b b' vm" and t: "r + 1 \<le> t" "t < bd_next_reg b"
  have "ready lo rely insts b b' vm" using rd by (rule ready_drop) (use assms(2) in simp)
  moreover have "lo \<le> t" using t(1) assms(2) by simp
  ultimately obtain vm' where vm': "runs env vm vm'" "vm_pc vm' = length (bd_insts b')"
      "moved rely ({t} \<union> {bd_next_reg b..<bd_next_reg b'}) vm vm'" "vm_regs vm' ! nat t = v"
    using gives_runs [OF assms(1) c l _ _ t(2)] by blast
  have "moved (and_reg rely r w) ({t} \<union> {bd_next_reg b..<bd_next_reg b'}) vm vm'"
    using vm'(3) rd t assms(3) by (intro moved_and_reg) (auto simp: ready_def)
  then show "\<exists>vm'. runs env vm vm' \<and> vm_pc vm' = length (bd_insts b')
      \<and> moved (and_reg rely r w) ({t} \<union> {bd_next_reg b..<bd_next_reg b'}) vm vm' \<and> vm_regs vm' ! nat t = v"
    using vm' by blast
qed

locale register_code =
  fixes env :: vm_env and lo :: int and rely :: "vdbe \<Rightarrow> bool"
  assumes lo_pos: "0 \<le> lo"
    and rely_regs: "rely vm \<Longrightarrow> length rs = length (vm_regs vm) \<Longrightarrow> (\<And>i. i < nat lo \<Longrightarrow> rs ! i = vm_regs vm ! i)
      \<Longrightarrow> rely (vm\<lparr>vm_pc := pc, vm_regs := rs, vm_aggregates := ag\<rparr>)"
begin

lemma store_moves:
  assumes "linked insts L b'" and "grows (append_inst inst b) b'" and "ready lo rely insts b b' vm"
    and "lo \<le> t" and "t < int (length (vm_regs vm))" and "stores env inst t v vm"
  obtains vm' where "runs env vm vm'" "vm_pc vm' = length (bd_insts (append_inst inst b))" "moved rely {t} vm vm'"
    "vm_regs vm' ! nat t = v"
proof -
  have r: "prog_instructions (vm_program vm) = insts" "vm_pc vm = length (bd_insts b)" "rely vm" "fixed b"
    using assms(3) by (simp_all add: ready_def)
  obtain ag where d: "dispatch env (inst_opcode inst) inst vm =
      (vm\<lparr>vm_pc := vm_pc vm + 1, vm_regs := (vm_regs vm)[nat t := v], vm_aggregates := ag\<rparr>, Inr Again)"
    using assms(6) by (auto simp: stores_def)
  let ?vm' = "vm\<lparr>vm_pc := vm_pc vm + 1, vm_regs := (vm_regs vm)[nat t := v], vm_aggregates := ag\<rparr>"
  have "get_opt insts (length (bd_insts b)) = Some inst" using assms(1,2) r(4) by (rule linked_plain)
  then have "turn env vm = (?vm', Inr Again)" using d by (simp add: turn_def r)
  then have "runs env vm ?vm'" by (rule runs_turn)
  moreover have "rely ?vm'" using r(3) assms(4) lo_pos by (intro rely_regs) (auto simp: nth_list_update)
  moreover have "nat t < length (vm_regs vm)" using assms(4,5) lo_pos by linarith
  ultimately show ?thesis using assms(4) lo_pos
    by (intro that [of ?vm']) (auto simp: r moved_def same_frame_def nth_list_update)
qed

lemma gives_inst:
  assumes "\<And>t vm. 0 \<le> t \<Longrightarrow> nat t < length (vm_regs vm) \<Longrightarrow> stores env (I t) t v vm"
  shows "gives env lo rely (\<lambda>t. emit_inst (I t)) v"
  unfolding gives_def
proof (intro allI impI conjI)
  fix t b b' insts L vm
  assume e: "emit_inst (I t) b = (b', Inr ())"
  then have b': "b' = append_inst (I t) b" by (simp add: emit_inst_def)
  show "grows b b'" by (simp add: b')
  assume l: "linked insts L b'" and r: "ready lo rely insts b b' vm" and t: "lo \<le> t" "t < bd_next_reg b"
  have n: "nat t < length (vm_regs vm)" "t < int (length (vm_regs vm))" using r t lo_pos by (auto simp: ready_def b')
  obtain vm' where "runs env vm vm'" "vm_pc vm' = length (bd_insts b')" "moved rely {t} vm vm'" "vm_regs vm' ! nat t = v"
    using store_moves [OF l _ r t(1) n(2) assms [OF _ n(1)]] t(1) lo_pos by (auto simp: b')
  then show "\<exists>vm'. runs env vm vm' \<and> vm_pc vm' = length (bd_insts b')
      \<and> moved rely ({t} \<union> {bd_next_reg b..<bd_next_reg b'}) vm vm' \<and> vm_regs vm' ! nat t = v"
    by (auto simp: b')
qed

lemma fresh_grows: "gives env lo rely c v \<Longrightarrow> fresh c b = (b', Inr r) \<Longrightarrow>
    grows b b' \<and> r = bd_next_reg b \<and> r < bd_next_reg b'"
proof -
  assume g: "gives env lo rely c v" and "fresh c b = (b', Inr r)"
  then obtain b1 where b1: "alloc_reg b = (b1, Inr r)" "c r b1 = (b', Inr ())"
    by (auto simp: fresh_def bind_op_success then_op_success)
  have "grows b1 b'" using g b1(2) by (rule gives_grows)
  then show ?thesis using alloc_reg_grows [OF b1(1)] grows_trans grows_regs by fastforce
qed

lemma fresh_runs:
  assumes "gives env lo rely c v" and "fresh c b = (b', Inr r)" and "linked insts L b'" and "ready lo rely insts b b' vm"
  obtains vm' where "runs env vm vm'" "vm_pc vm' = length (bd_insts b')" "moved rely {bd_next_reg b..<bd_next_reg b'} vm vm'"
    "vm_regs vm' ! nat r = v"
proof -
  obtain b1 where b1: "alloc_reg b = (b1, Inr r)" "c r b1 = (b', Inr ())"
    using assms(2) by (auto simp: fresh_def bind_op_success then_op_success)
  have a: "grows b b1" "r = bd_next_reg b" "bd_next_reg b1 = r + 1" "bd_insts b1 = bd_insts b"
    using alloc_reg_grows [OF b1(1)] by auto
  have g: "grows b1 b'" using assms(1) b1(2) by (rule gives_grows)
  have ready1: "ready lo rely insts b1 b' vm"
    using ready_next [OF assms(4) a(1) g, of "{}" vm] assms(4) by (simp add: moved_def ready_def a(4))
  have "lo \<le> r" "r < bd_next_reg b1" using assms(4) by (auto simp: ready_def a(2,3))
  then obtain vm' where vm': "runs env vm vm'" "vm_pc vm' = length (bd_insts b')"
      "moved rely ({r} \<union> {bd_next_reg b1..<bd_next_reg b'}) vm vm'" "vm_regs vm' ! nat r = v"
    using gives_runs [OF assms(1) b1(2) assms(3) ready1] by blast
  have "{r} \<union> {bd_next_reg b1..<bd_next_reg b'} = {bd_next_reg b..<bd_next_reg b'}"
    using grows_regs [OF g] by (auto simp: a(2,3))
  then show ?thesis using vm' that by simp
qed

text \<open>An operator on one operand, and on two.\<close>

lemma gives_fresh1:
  assumes "gives env lo rely c v"
    and "\<And>r t vm. 0 \<le> t \<Longrightarrow> nat t < length (vm_regs vm) \<Longrightarrow> 0 \<le> r \<Longrightarrow> nat r < length (vm_regs vm)
      \<Longrightarrow> vm_regs vm ! nat r = v \<Longrightarrow> stores env (I r t) t w vm"
  shows "gives env lo rely (\<lambda>t. bind_op (fresh c) (\<lambda>r. emit_inst (I r t))) w"
  unfolding gives_def
proof (intro allI impI conjI)
  fix t b b' insts L vm
  assume "bind_op (fresh c) (\<lambda>r. emit_inst (I r t)) b = (b', Inr ())"
  then obtain b1 r where b1: "fresh c b = (b1, Inr r)" "b' = append_inst (I r t) b1"
    by (auto simp: bind_op_success emit_inst_def)
  have g: "grows b b1" "r = bd_next_reg b" "r < bd_next_reg b1" using fresh_grows [OF assms(1) b1(1)] by auto
  have g': "grows b1 b'" by (simp add: b1(2))
  show "grows b b'" using g(1) g' by (rule grows_trans)
  assume l: "linked insts L b'" and r: "ready lo rely insts b b' vm" and t: "lo \<le> t" "t < bd_next_reg b"
  obtain vm1 where vm1: "runs env vm vm1" "vm_pc vm1 = length (bd_insts b1)" "moved rely {bd_next_reg b..<bd_next_reg b1} vm vm1"
      "vm_regs vm1 ! nat r = v"
    using fresh_runs [OF assms(1) b1(1) linked_mono [OF l g'] ready_cut [OF r g']] .
  have r1: "ready lo rely insts b1 b' vm1" using ready_next [OF r g(1) g' vm1(3,2)] .
  have n: "t < int (length (vm_regs vm1))" "nat t < length (vm_regs vm1)" "0 \<le> t" "nat r < length (vm_regs vm1)" "0 \<le> r"
    using r r1 t g lo_pos by (auto simp: ready_def b1(2))
  obtain vm2 where vm2: "runs env vm1 vm2" "vm_pc vm2 = length (bd_insts b')" "moved rely {t} vm1 vm2" "vm_regs vm2 ! nat t = w"
    using store_moves [OF l _ r1 t(1) n(1) assms(2) [OF n(3,2,5,4) vm1(4)]] by (auto simp: b1(2))
  have "moved rely ({t} \<union> {bd_next_reg b..<bd_next_reg b'}) vm vm2"
    using vm1(3) vm2(3) by (rule moved_trans) (auto simp: b1(2))
  then show "\<exists>vm'. runs env vm vm' \<and> vm_pc vm' = length (bd_insts b')
      \<and> moved rely ({t} \<union> {bd_next_reg b..<bd_next_reg b'}) vm vm' \<and> vm_regs vm' ! nat t = w"
    using runs_trans [OF vm1(1) vm2(1)] vm2(2,4) by blast
qed

lemma fresh2_runs:
  assumes "gives env lo rely c1 v1" and "gives env lo rely c2 v2" and "fresh c1 b = (b1, Inr r1)"
    and "fresh c2 b1 = (b2, Inr r2)" and "linked insts L b2" and "ready lo rely insts b b2 vm"
  obtains vm' where "runs env vm vm'" "vm_pc vm' = length (bd_insts b2)" "moved rely {bd_next_reg b..<bd_next_reg b2} vm vm'"
    "vm_regs vm' ! nat r1 = v1" "vm_regs vm' ! nat r2 = v2"
proof -
  have g1: "grows b b1" "r1 = bd_next_reg b" "r1 < bd_next_reg b1" using fresh_grows [OF assms(1,3)] by auto
  have g2: "grows b1 b2" "r2 = bd_next_reg b1" "r2 < bd_next_reg b2" using fresh_grows [OF assms(2,4)] by auto
  obtain vm1 where vm1: "runs env vm vm1" "vm_pc vm1 = length (bd_insts b1)" "moved rely {bd_next_reg b..<bd_next_reg b1} vm vm1"
      "vm_regs vm1 ! nat r1 = v1"
    using fresh_runs [OF assms(1,3) linked_mono [OF assms(5) g2(1)] ready_cut [OF assms(6) g2(1)]] .
  have rd: "ready lo rely insts b1 b2 vm1" using ready_next [OF assms(6) g1(1) g2(1) vm1(3,2)] .
  obtain vm2 where vm2: "runs env vm1 vm2" "vm_pc vm2 = length (bd_insts b2)" "moved rely {bd_next_reg b1..<bd_next_reg b2} vm1 vm2"
      "vm_regs vm2 ! nat r2 = v2"
    using fresh_runs [OF assms(2,4,5) rd] .
  have "0 \<le> r1" "nat r1 < length (vm_regs vm1)" using assms(6) rd g1 g2 lo_pos by (auto simp: ready_def)
  then have "vm_regs vm2 ! nat r1 = v1" using moved_reg [OF vm2(3), of r1] vm1(4) g1(3) by simp
  moreover have "moved rely {bd_next_reg b..<bd_next_reg b2} vm vm2"
    using vm1(3) vm2(3) by (rule moved_trans) (use grows_regs [OF g1(1)] grows_regs [OF g2(1)] in auto)
  ultimately show ?thesis using that runs_trans [OF vm1(1) vm2(1)] vm2(2,4) by blast
qed

lemma gives_fresh2:
  assumes "gives env lo rely c1 v1" and "gives env lo rely c2 v2"
    and "\<And>r1 r2 t vm. 0 \<le> t \<Longrightarrow> nat t < length (vm_regs vm) \<Longrightarrow> 0 \<le> r1 \<Longrightarrow> nat r1 < length (vm_regs vm)
      \<Longrightarrow> 0 \<le> r2 \<Longrightarrow> nat r2 < length (vm_regs vm) \<Longrightarrow> vm_regs vm ! nat r1 = v1 \<Longrightarrow> vm_regs vm ! nat r2 = v2
      \<Longrightarrow> stores env (I r1 r2 t) t w vm"
  shows "gives env lo rely (\<lambda>t. bind_op (fresh c1) (\<lambda>r1. bind_op (fresh c2) (\<lambda>r2. emit_inst (I r1 r2 t)))) w"
  unfolding gives_def
proof (intro allI impI conjI)
  fix t b b' insts L vm
  assume "bind_op (fresh c1) (\<lambda>r1. bind_op (fresh c2) (\<lambda>r2. emit_inst (I r1 r2 t))) b = (b', Inr ())"
  then obtain b1 b2 r1 r2 where b1: "fresh c1 b = (b1, Inr r1)" "fresh c2 b1 = (b2, Inr r2)" and b': "b' = append_inst (I r1 r2 t) b2"
    by (auto simp: bind_op_success emit_inst_def)
  have g1: "grows b b1" "r1 = bd_next_reg b" "r1 < bd_next_reg b1" using fresh_grows [OF assms(1) b1(1)] by auto
  have g2: "grows b1 b2" "r2 = bd_next_reg b1" "r2 < bd_next_reg b2" using fresh_grows [OF assms(2) b1(2)] by auto
  have g: "grows b b2" using g1(1) g2(1) by (rule grows_trans)
  have g': "grows b2 b'" by (simp add: b')
  show "grows b b'" using g g' by (rule grows_trans)
  assume l: "linked insts L b'" and r: "ready lo rely insts b b' vm" and t: "lo \<le> t" "t < bd_next_reg b"
  obtain vm1 where vm1: "runs env vm vm1" "vm_pc vm1 = length (bd_insts b2)" "moved rely {bd_next_reg b..<bd_next_reg b2} vm vm1"
      "vm_regs vm1 ! nat r1 = v1" "vm_regs vm1 ! nat r2 = v2"
    using fresh2_runs [OF assms(1,2) b1 linked_mono [OF l g'] ready_cut [OF r g']] .
  have rd: "ready lo rely insts b2 b' vm1" using ready_next [OF r g g' vm1(3,2)] .
  have n: "t < int (length (vm_regs vm1))" "0 \<le> t" "nat t < length (vm_regs vm1)" "0 \<le> r1" "nat r1 < length (vm_regs vm1)"
      "0 \<le> r2" "nat r2 < length (vm_regs vm1)"
    using r rd t g1 g2 lo_pos grows_regs [OF g1(1)] grows_regs [OF g2(1)] by (auto simp: ready_def b')
  obtain vm2 where vm2: "runs env vm1 vm2" "vm_pc vm2 = length (bd_insts b')" "moved rely {t} vm1 vm2" "vm_regs vm2 ! nat t = w"
    using store_moves [OF l _ rd t(1) n(1) assms(3) [OF n(2-7) vm1(4,5)]] by (auto simp: b')
  have "moved rely ({t} \<union> {bd_next_reg b..<bd_next_reg b'}) vm vm2"
    using vm1(3) vm2(3) by (rule moved_trans) (auto simp: b')
  then show "\<exists>vm'. runs env vm vm' \<and> vm_pc vm' = length (bd_insts b')
      \<and> moved rely ({t} \<union> {bd_next_reg b..<bd_next_reg b'}) vm vm' \<and> vm_regs vm' ! nat t = w"
    using runs_trans [OF vm1(1) vm2(1)] vm2(2,4) by blast
qed

section \<open>Calls and coalescing\<close>

lemma args_grow:
  assumes "list_all2 (gives env lo rely) cs vs" and "each_op (\<lambda>(k, c). c (start + int k)) (enumerate n cs) b = (b', Inr ())"
  shows "grows b b'"
  using assms
proof (induction cs vs arbitrary: n b rule: list_all2_induct)
  case (Cons c cs v vs)
  then obtain b1 where "c (start + int n) b = (b1, Inr ())" "each_op (\<lambda>(k, c). c (start + int k)) (enumerate (Suc n) cs) b1 = (b', Inr ())"
    by (auto simp: bind_op_success)
  then show ?case using Cons gives_grows grows_trans by blast
qed simp

lemma args_run:
  assumes "list_all2 (gives env lo rely) cs vs" and "each_op (\<lambda>(k, c). c (start + int k)) (enumerate n cs) b = (b', Inr ())"
    and "linked insts L b'" and "ready lo rely insts b b' vm" and "lo \<le> start" and "start + int (n + length cs) \<le> bd_next_reg b"
  shows "\<exists>vm'. runs env vm vm' \<and> vm_pc vm' = length (bd_insts b')
    \<and> moved rely ({start + int n..<start + int (n + length cs)} \<union> {bd_next_reg b..<bd_next_reg b'}) vm vm'
    \<and> (\<forall>k < length cs. vm_regs vm' ! nat (start + int (n + k)) = vs ! k)"
  using assms
proof (induction cs vs arbitrary: n b vm rule: list_all2_induct)
  case Nil
  then show ?case by (intro exI [of _ vm]) (auto simp: ready_def moved_def)
next
  case (Cons c cs v vs)
  obtain b1 where b1: "c (start + int n) b = (b1, Inr ())" "each_op (\<lambda>(k, c). c (start + int k)) (enumerate (Suc n) cs) b1 = (b', Inr ())"
    using Cons.prems(1) by (auto simp: bind_op_success)
  have g1: "grows b b1" using Cons.hyps(1) b1(1) by (rule gives_grows)
  have g2: "grows b1 b'" using Cons.hyps(2) b1(2) by (rule args_grow)
  have s: "lo \<le> start + int n" "start + int n < bd_next_reg b" using Cons.prems(4,5) by simp_all
  obtain vm1 where vm1: "runs env vm vm1" "vm_pc vm1 = length (bd_insts b1)"
      "moved rely ({start + int n} \<union> {bd_next_reg b..<bd_next_reg b1}) vm vm1" "vm_regs vm1 ! nat (start + int n) = v"
    using gives_runs [OF Cons.hyps(1) b1(1) linked_mono [OF Cons.prems(2) g2] ready_cut [OF Cons.prems(3) g2] s] .
  have rd: "ready lo rely insts b1 b' vm1" using ready_next [OF Cons.prems(3) g1 g2 vm1(3,2)] .
  have "start + int (Suc n + length cs) \<le> bd_next_reg b1" using Cons.prems(5) grows_regs [OF g1] by simp
  then obtain vm2 where vm2: "runs env vm1 vm2" "vm_pc vm2 = length (bd_insts b')"
      "moved rely ({start + int (Suc n)..<start + int (Suc n + length cs)} \<union> {bd_next_reg b1..<bd_next_reg b'}) vm1 vm2"
      "\<forall>k < length cs. vm_regs vm2 ! nat (start + int (Suc n + k)) = vs ! k"
    using Cons.IH [OF b1(2) Cons.prems(2) rd Cons.prems(4)] by blast
  have "0 \<le> start + int n" "nat (start + int n) < length (vm_regs vm1)"
    using s rd lo_pos grows_regs [OF g1] grows_regs [OF g2] by (auto simp: ready_def)
  then have first: "vm_regs vm2 ! nat (start + int n) = v"
    using moved_reg [OF vm2(3), of "start + int n"] vm1(4) s(2) grows_regs [OF g1] by simp
  have "vm_regs vm2 ! nat (start + int (n + k)) = (v # vs) ! k" if "k < length (c # cs)" for k
    using that first vm2(4) by (cases k) auto
  moreover have "moved rely ({start + int n..<start + int (n + length (c # cs))} \<union> {bd_next_reg b..<bd_next_reg b'}) vm vm2"
    using vm1(3) vm2(3) by (rule moved_trans) (use grows_regs [OF g1] grows_regs [OF g2] in auto)
  ultimately show ?case using runs_trans [OF vm1(1) vm2(1)] vm2(2) by blast
qed

lemma gives_call:
  assumes "list_all2 (gives env lo rely) cs vs"
    and "\<And>start t vm. 0 \<le> t \<Longrightarrow> nat t < length (vm_regs vm) \<Longrightarrow> 0 \<le> start \<Longrightarrow> nat start + length vs \<le> length (vm_regs vm)
      \<Longrightarrow> sub (nat start) (nat start + length vs) (vm_regs vm) = vs \<Longrightarrow> rely vm \<Longrightarrow> stores env (I start t) t w vm"
  shows "gives env lo rely (\<lambda>t. bind_op (alloc_regs (int (length cs))) (\<lambda>start.
      then_op (each_op (\<lambda>(k, c). c (start + int k)) (enumerate 0 cs)) (emit_inst (I start t)))) w"
  unfolding gives_def
proof (intro allI impI conjI)
  fix t b b' insts L vm
  assume "bind_op (alloc_regs (int (length cs))) (\<lambda>start.
      then_op (each_op (\<lambda>(k, c). c (start + int k)) (enumerate 0 cs)) (emit_inst (I start t))) b = (b', Inr ())"
  then obtain b1 b2 start where b1: "alloc_regs (int (length cs)) b = (b1, Inr start)"
      and b2: "each_op (\<lambda>(k, c). c (start + int k)) (enumerate 0 cs) b1 = (b2, Inr ())" and b': "b' = append_inst (I start t) b2"
    by (auto simp: bind_op_success then_op_success emit_inst_def)
  have g1: "grows b b1" "start = bd_next_reg b" "bd_next_reg b1 = start + int (length cs)" "bd_insts b1 = bd_insts b"
    using alloc_regs_grows [OF b1] by auto
  have g2: "grows b1 b2" using assms(1) b2 by (rule args_grow)
  have g3: "grows b2 b'" by (simp add: b')
  have g12: "grows b b2" using g1(1) g2 by (rule grows_trans)
  show "grows b b'" using g12 g3 by (rule grows_trans)
  assume l: "linked insts L b'" and r: "ready lo rely insts b b' vm" and t: "lo \<le> t" "t < bd_next_reg b"
  have len: "length vs = length cs" using assms(1) by (simp add: list_all2_lengthD)
  have rd1: "ready lo rely insts b1 b' vm"
    using ready_next [OF r g1(1) grows_trans [OF g2 g3], of "{}" vm] r by (simp add: moved_def ready_def g1(4))
  have lo: "lo \<le> start" using r by (simp add: ready_def g1(2))
  have "start + int (0 + length cs) \<le> bd_next_reg b1" using g1(3) by simp
  then obtain vm1 where vm1: "runs env vm vm1" "vm_pc vm1 = length (bd_insts b2)"
      "moved rely ({start..<start + int (length cs)} \<union> {bd_next_reg b1..<bd_next_reg b2}) vm vm1"
      "\<forall>k < length cs. vm_regs vm1 ! nat (start + int k) = vs ! k"
    using args_run [OF assms(1) b2 linked_mono [OF l g3] ready_cut [OF rd1 g3] lo] by auto
  have rd2: "ready lo rely insts b2 b' vm1" using ready_next [OF rd1 g2 g3 vm1(3,2)] .
  have n: "t < int (length (vm_regs vm1))" "0 \<le> t" "nat t < length (vm_regs vm1)" "0 \<le> start"
      "nat start + length vs \<le> length (vm_regs vm1)"
    using rd2 t lo lo_pos g1 grows_regs [OF g2] len by (auto simp: ready_def b')
  have "nat (start + int k) = nat start + k" for k using n(4) by linarith
  then have "sub (nat start) (nat start + length vs) (vm_regs vm1) = vs"
    using vm1(4) n(5) by (intro nth_equalityI) (auto simp: sub_def len)
  then obtain vm2 where vm2: "runs env vm1 vm2" "vm_pc vm2 = length (bd_insts b')" "moved rely {t} vm1 vm2" "vm_regs vm2 ! nat t = w"
    using store_moves [OF l _ rd2 t(1) n(1) assms(2) [OF n(2-5)]] rd2 by (auto simp: b' ready_def)
  have "moved rely ({t} \<union> {bd_next_reg b..<bd_next_reg b'}) vm vm2"
    using vm1(3) vm2(3) by (rule moved_trans) (use g1 grows_regs [OF g2] in \<open>auto simp: b'\<close>)
  then show "\<exists>vm'. runs env vm vm' \<and> vm_pc vm' = length (bd_insts b')
      \<and> moved rely ({t} \<union> {bd_next_reg b..<bd_next_reg b'}) vm vm' \<and> vm_regs vm' ! nat t = w"
    using runs_trans [OF vm1(1) vm2(1)] vm2(2,4) by blast
qed

section \<open>Jumps\<close>

lemma branch_moves:
  assumes "linked insts L b'" and "grows (add_fixup (length (bd_insts b)) l (append_inst inst b)) b'" and "ready lo rely insts b b' vm"
    and "dispatch env (inst_opcode inst) (with_p2 (L l) inst) vm = branch taken (L l) vm"
  obtains vm' where "runs env vm vm'" "vm_pc vm' = (if taken then usize_of (L l) else length (bd_insts b) + 1)"
    "moved rely {} vm vm'" "vm_regs vm' = vm_regs vm"
proof -
  have r: "prog_instructions (vm_program vm) = insts" "vm_pc vm = length (bd_insts b)" "rely vm" "fixed b"
    using assms(3) by (simp_all add: ready_def)
  let ?vm' = "vm\<lparr>vm_pc := (if taken then usize_of (L l) else length (bd_insts b) + 1)\<rparr>"
  have i: "get_opt insts (length (bd_insts b)) = Some (with_p2 (L l) inst)" using assms(1,2) r(4) by (rule linked_branch)
  have "inst_opcode (with_p2 (L l) inst) = inst_opcode inst" by (cases inst) simp
  then have "turn env vm = (?vm', Inr Again)"
    using assms(4) i by (simp add: turn_def r branch_def jump_to_def advance_def)
  moreover have "rely (vm\<lparr>vm_pc := p, vm_regs := vm_regs vm, vm_aggregates := vm_aggregates vm\<rparr>)" for p
    using r(3) by (rule rely_regs) simp_all
  then have "rely ?vm'" by simp
  ultimately show ?thesis by (intro that [of ?vm']) (auto simp: moved_def same_frame_def intro: runs_turn)
qed

lemma branches_inst:
  assumes "\<And>p vm. rely vm \<Longrightarrow> dispatch env (inst_opcode inst) (with_p2 p inst) vm = branch taken p vm"
  shows "branches env lo rely (emit_branch inst l) l taken"
  unfolding branches_def
proof (intro allI impI conjI)
  fix b b' insts L vm
  assume "emit_branch inst l b = (b', Inr ())"
  then have b': "b' = add_fixup (length (bd_insts b)) l (append_inst inst b)" by (simp add: emit_branch_def)
  show "grows b b'" by (simp add: b')
  assume l: "linked insts L b'" and r: "ready lo rely insts b b' vm"
  have "rely vm" using r by (simp add: ready_def)
  moreover have "grows (add_fixup (length (bd_insts b)) l (append_inst inst b)) b'" by (simp add: b')
  ultimately obtain vm' where vm': "runs env vm vm'" "vm_pc vm' = (if taken then usize_of (L l) else length (bd_insts b) + 1)" "moved rely {} vm vm'"
    using branch_moves [OF l _ r assms] by blast
  then show "\<exists>vm'. runs env vm vm' \<and> vm_pc vm' = (if taken then usize_of (L l) else length (bd_insts b'))
      \<and> moved rely {bd_next_reg b..<bd_next_reg b'} vm vm'"
    by (intro exI [of _ vm']) (auto simp: b' moved_def)
qed

text \<open>Two jumps to the same label, and a jump around a jump.\<close>

lemma branches_then:
  assumes "branches env lo rely c1 l t1" and "branches env lo rely c2 l t2"
  shows "branches env lo rely (then_op c1 c2) l (t1 \<or> t2)"
  unfolding branches_def
proof (intro allI impI conjI)
  fix b b' insts L vm
  assume "then_op c1 c2 b = (b', Inr ())"
  then obtain b1 where b1: "c1 b = (b1, Inr ())" "c2 b1 = (b', Inr ())" by (auto simp: then_op_success)
  have g: "grows b b1" "grows b1 b'" using assms b1 by (auto intro: branches_grows)
  show "grows b b'" using g by (rule grows_trans)
  assume l: "linked insts L b'" and r: "ready lo rely insts b b' vm"
  obtain vm1 where vm1: "runs env vm vm1" "vm_pc vm1 = (if t1 then usize_of (L l) else length (bd_insts b1))"
      "moved rely {bd_next_reg b..<bd_next_reg b1} vm vm1"
    using branches_runs [OF assms(1) b1(1) linked_mono [OF l g(2)] ready_cut [OF r g(2)]] .
  have sub: "{bd_next_reg b..<bd_next_reg b1} \<subseteq> {bd_next_reg b..<bd_next_reg b'}"
    "{bd_next_reg b1..<bd_next_reg b'} \<subseteq> {bd_next_reg b..<bd_next_reg b'}"
    using grows_regs [OF g(1)] grows_regs [OF g(2)] by auto
  show "\<exists>vm'. runs env vm vm' \<and> vm_pc vm' = (if t1 \<or> t2 then usize_of (L l) else length (bd_insts b'))
      \<and> moved rely {bd_next_reg b..<bd_next_reg b'} vm vm'"
  proof (cases t1)
    case True
    have "moved rely {} vm1 vm1" using vm1(3) by (simp add: moved_def)
    with vm1(3) have "moved rely {bd_next_reg b..<bd_next_reg b'} vm vm1" by (rule moved_trans) (use sub in auto)
    then show ?thesis using vm1 True by auto
  next
    case False
    then have rd: "ready lo rely insts b1 b' vm1" using ready_next [OF r g vm1(3)] vm1(2) by simp
    obtain vm2 where vm2: "runs env vm1 vm2" "vm_pc vm2 = (if t2 then usize_of (L l) else length (bd_insts b'))"
        "moved rely {bd_next_reg b1..<bd_next_reg b'} vm1 vm2"
      using branches_runs [OF assms(2) b1(2) l rd] .
    have "moved rely {bd_next_reg b..<bd_next_reg b'} vm vm2" using vm1(3) vm2(3) sub by (rule moved_trans)
    then show ?thesis using runs_trans [OF vm1(1) vm2(1)] vm2(2) False by auto
  qed
qed

lemma branches_around:
  assumes "\<And>d. branches env lo rely (c1 d) d t1" and "branches env lo rely c2 l t2"
  shows "branches env lo rely (bind_op new_label (\<lambda>d. then_op (c1 d) (then_op c2 (resolve d)))) l (\<not> t1 \<and> t2)"
  unfolding branches_def
proof (intro allI impI conjI)
  fix b b' insts L vm
  assume "bind_op new_label (\<lambda>d. then_op (c1 d) (then_op c2 (resolve d))) b = (b', Inr ())"
  then obtain b0 d b1 b2 where b0: "new_label b = (b0, Inr d)" and b1: "c1 d b0 = (b1, Inr ())" and b2: "c2 b1 = (b2, Inr ())"
      and rs: "resolve d b2 = (b', Inr ())"
    by (auto simp: bind_op_success then_op_success)
  have g1: "grows b0 b1" using assms(1) b1 by (rule branches_grows)
  have g2: "grows b1 b2" using assms(2) b2 by (rule branches_grows)
  have g02: "grows b0 b2" using g1 g2 by (rule grows_trans)
  show "grows b b'" using b0 g02 rs by (rule resolve_grows)
  assume l: "linked insts L b'" and r: "ready lo rely insts b b' vm"
  note res = resolve_linked [OF b0 g02 rs l]
  have n0: "bd_insts b0 = bd_insts b" "bd_next_reg b0 = bd_next_reg b" "fixed b \<Longrightarrow> fixed b0"
    using b0 grows_fixed [OF new_label_grows [OF b0]] by (auto simp: new_label_def)
  have rd0: "ready lo rely insts b0 b2 vm" using r res(4) n0 by (simp add: ready_def)
  obtain vm1 where vm1: "runs env vm vm1" "vm_pc vm1 = (if t1 then usize_of (L d) else length (bd_insts b1))"
      "moved rely {bd_next_reg b0..<bd_next_reg b1} vm vm1"
    using branches_runs [OF assms(1) b1 linked_mono [OF res(1) g2] ready_cut [OF rd0 g2]] .
  have sub: "{bd_next_reg b0..<bd_next_reg b1} \<subseteq> {bd_next_reg b..<bd_next_reg b'}"
    "{bd_next_reg b1..<bd_next_reg b2} \<subseteq> {bd_next_reg b..<bd_next_reg b'}"
    using grows_regs [OF g1] grows_regs [OF g2] n0(2) res(4) by auto
  show "\<exists>vm'. runs env vm vm' \<and> vm_pc vm' = (if \<not> t1 \<and> t2 then usize_of (L l) else length (bd_insts b'))
      \<and> moved rely {bd_next_reg b..<bd_next_reg b'} vm vm'"
  proof (cases t1)
    case True
    have "moved rely {} vm1 vm1" using vm1(3) by (simp add: moved_def)
    with vm1(3) have "moved rely {bd_next_reg b..<bd_next_reg b'} vm vm1" by (rule moved_trans) (use sub in auto)
    moreover have "vm_pc vm1 = length (bd_insts b')" using vm1(2) True res(2,3) by (simp add: usize_of_def)
    ultimately show ?thesis using vm1(1) True by auto
  next
    case False
    then have rd: "ready lo rely insts b1 b2 vm1" using ready_next [OF rd0 g1 g2 vm1(3)] vm1(2) by simp
    obtain vm2 where vm2: "runs env vm1 vm2" "vm_pc vm2 = (if t2 then usize_of (L l) else length (bd_insts b2))"
        "moved rely {bd_next_reg b1..<bd_next_reg b2} vm1 vm2"
      using branches_runs [OF assms(2) b2 res(1) rd] .
    have "moved rely {bd_next_reg b..<bd_next_reg b'} vm vm2" using vm1(3) vm2(3) sub by (rule moved_trans)
    then show ?thesis using runs_trans [OF vm1(1) vm2(1)] vm2(2) False res(3) by auto
  qed
qed

text \<open>A jump on an operand in a fresh register, which the code of the jump may rely on.\<close>

lemma branches_fresh:
  assumes "gives env lo rely c v" and "\<And>r. extends (k r)"
    and "\<And>r. lo \<le> r \<Longrightarrow> branches env (r + 1) (and_reg rely r v) (k r) l taken"
  shows "branches env lo rely (bind_op (fresh c) k) l taken"
  unfolding branches_def
proof (intro allI impI conjI)
  fix b b' insts L vm
  assume "bind_op (fresh c) k b = (b', Inr ())"
  then obtain b1 r where b1: "fresh c b = (b1, Inr r)" "k r b1 = (b', Inr ())" by (auto simp: bind_op_success)
  have g1: "grows b b1" "r = bd_next_reg b" "r < bd_next_reg b1" using fresh_grows [OF assms(1) b1(1)] by auto
  have g2: "grows b1 b'" using assms(2) b1(2) by (rule extendsD)
  show "grows b b'" using g1(1) g2 by (rule grows_trans)
  assume l: "linked insts L b'" and rd: "ready lo rely insts b b' vm"
  then have lo: "lo \<le> r" by (simp add: ready_def g1(2))
  obtain vm1 where vm1: "runs env vm vm1" "vm_pc vm1 = length (bd_insts b1)" "moved rely {bd_next_reg b..<bd_next_reg b1} vm vm1"
      "vm_regs vm1 ! nat r = v"
    using fresh_runs [OF assms(1) b1(1) linked_mono [OF l g2] ready_cut [OF rd g2]] .
  have "ready lo rely insts b1 b' vm1" using ready_next [OF rd g1(1) g2 vm1(3,2)] .
  then have "ready (r + 1) (and_reg rely r v) insts b1 b' vm1"
    using g1(3) vm1(4) grows_regs [OF g2] lo lo_pos by (auto simp: ready_def and_reg_def)
  then obtain vm2 where vm2: "runs env vm1 vm2" "vm_pc vm2 = (if taken then usize_of (L l) else length (bd_insts b'))"
      "moved (and_reg rely r v) {bd_next_reg b1..<bd_next_reg b'} vm1 vm2"
    using branches_runs [OF assms(3) [OF lo] b1(2) l] by blast
  have "moved rely {bd_next_reg b..<bd_next_reg b'} vm vm2"
    using vm1(3) moved_drop [OF vm2(3)] by (rule moved_trans) (use grows_regs [OF g1(1)] grows_regs [OF g2] in auto)
  then show "\<exists>vm'. runs env vm vm' \<and> vm_pc vm' = (if taken then usize_of (L l) else length (bd_insts b'))
         \<and> moved rely {bd_next_reg b..<bd_next_reg b'} vm vm'"
    using runs_trans [OF vm1(1) vm2(1)] vm2(2) by blast
qed

lemma extends_fresh: "gives env lo rely c v \<Longrightarrow> extends (fresh c)"
  using fresh_grows by (auto simp: extends_def)

lemma protected: "lo \<le> r \<Longrightarrow> register_code (r + 1) (and_reg rely r v)"
proof (unfold_locales, goal_cases)
  case 1
  then show ?case using lo_pos by simp
next
  case (2 vm rs pc ag)
  have "rely vm" "nat r < length (vm_regs vm)" "vm_regs vm ! nat r = v" using 2(2) by (simp_all add: and_reg_def)
  moreover have "nat r < nat (r + 1)" "nat lo \<le> nat (r + 1)" using 2(1) lo_pos by linarith+
  ultimately show ?case using 2(3,4) rely_regs [of vm rs] by (simp add: and_reg_def)
qed

lemma gives_coalesce:
  assumes "gives env lo rely c1 x" and "gives env lo rely c2 y"
  shows "gives env lo rely (compile_coalesce2 c1 c2) (if is_null x then y else x)"
  unfolding gives_def
proof (intro allI impI conjI)
  fix t b b' insts L vm
  let ?i = "Instruction (Logic Op_NotNull) t 0 0 P4_None 0"
  assume "compile_coalesce2 c1 c2 t b = (b', Inr ())"
  then obtain b1 b2 d b3 b4 where b1: "c1 t b = (b1, Inr ())" and b2: "new_label b1 = (b2, Inr d)"
      and b3: "b3 = add_fixup (length (bd_insts b2)) d (append_inst ?i b2)" and b4: "c2 t b3 = (b4, Inr ())"
      and rs: "resolve d b4 = (b', Inr ())"
    by (auto simp: compile_coalesce2_def bind_op_success then_op_success emitted emit_branch_def)
  have g1: "grows b b1" using assms(1) b1 by (rule gives_grows)
  have g3: "grows b2 b3" by (simp add: b3)
  have g4: "grows b3 b4" using assms(2) b4 by (rule gives_grows)
  have g24: "grows b2 b4" using g3 g4 by (rule grows_trans)
  have g1': "grows b1 b'" using b2 g24 rs by (rule resolve_grows)
  show "grows b b'" using g1 g1' by (rule grows_trans)
  assume l: "linked insts L b'" and r: "ready lo rely insts b b' vm" and t: "lo \<le> t" "t < bd_next_reg b"
  note res = resolve_linked [OF b2 g24 rs l]
  obtain vm1 where vm1: "runs env vm vm1" "vm_pc vm1 = length (bd_insts b1)"
      "moved rely ({t} \<union> {bd_next_reg b..<bd_next_reg b1}) vm vm1" "vm_regs vm1 ! nat t = x"
    using gives_runs [OF assms(1) b1 linked_mono [OF l g1'] ready_cut [OF r g1'] t] .
  have n2: "bd_insts b2 = bd_insts b1" "bd_next_reg b2 = bd_next_reg b1" "fixed b1 \<Longrightarrow> fixed b2"
    using b2 grows_fixed [OF new_label_grows [OF b2]] by (auto simp: new_label_def)
  have rd1: "ready lo rely insts b1 b' vm1" using ready_next [OF r g1 g1' vm1(3,2)] .
  then have rd2: "ready lo rely insts b2 b4 vm1" using res(4) n2 by (simp add: ready_def)
  have n: "0 \<le> t" "nat t < length (vm_regs vm1)" using rd2 t lo_pos n2 grows_regs [OF g24] grows_regs [OF g1] by (auto simp: ready_def)
  have "dispatch env (inst_opcode ?i) (with_p2 (L d) ?i) vm1 = branch (\<not> is_null x) (L d) vm1"
    using n vm1(4) by (simp add: read_reg_def read_reg_at_def usize_of_def ok_or_def bind_op_def)
  then obtain vm2 where vm2: "runs env vm1 vm2" "vm_pc vm2 = (if \<not> is_null x then usize_of (L d) else length (bd_insts b2) + 1)"
      "moved rely {} vm1 vm2" "vm_regs vm2 = vm_regs vm1"
    using branch_moves [OF res(1) g4 [unfolded b3] rd2] by blast
  have regs: "bd_next_reg b \<le> bd_next_reg b1" "bd_next_reg b1 = bd_next_reg b3" "bd_next_reg b3 \<le> bd_next_reg b'"
    using grows_regs [OF g1] grows_regs [OF g4] n2 res(4) by (simp_all add: b3)
  show "\<exists>vm'. runs env vm vm' \<and> vm_pc vm' = length (bd_insts b')
      \<and> moved rely ({t} \<union> {bd_next_reg b..<bd_next_reg b'}) vm vm' \<and> vm_regs vm' ! nat t = (if is_null x then y else x)"
  proof (cases "is_null x")
    case False
    have "moved rely ({t} \<union> {bd_next_reg b..<bd_next_reg b'}) vm vm2" using vm1(3) vm2(3) by (rule moved_trans) (use regs in auto)
    moreover have "vm_pc vm2 = length (bd_insts b')" using vm2(2) False res(2,3) by (simp add: usize_of_def)
    ultimately show ?thesis using runs_trans [OF vm1(1) vm2(1)] vm2(4) vm1(4) False by auto
  next
    case True
    have pc: "vm_pc vm2 = length (bd_insts b3)" using vm2(2) True by (simp add: b3)
    have rd3: "ready lo rely insts b3 b4 vm2" using ready_next [OF rd2 g3 g4 vm2(3) pc] .
    have "t < bd_next_reg b3" using t(2) regs by linarith
    then obtain vm3 where vm3: "runs env vm2 vm3" "vm_pc vm3 = length (bd_insts b4)"
        "moved rely ({t} \<union> {bd_next_reg b3..<bd_next_reg b4}) vm2 vm3" "vm_regs vm3 ! nat t = y"
      using gives_runs [OF assms(2) b4 res(1) rd3 t(1)] by blast
    have "moved rely ({t} \<union> {bd_next_reg b..<bd_next_reg b'}) vm vm2" using vm1(3) vm2(3) by (rule moved_trans) (use regs in auto)
    from this vm3(3) have "moved rely ({t} \<union> {bd_next_reg b..<bd_next_reg b'}) vm vm3"
      by (rule moved_trans) (use regs res(4) in auto)
    then show ?thesis using runs_trans [OF runs_trans [OF vm1(1) vm2(1)] vm3(1)] vm3(2,4) True res(3) by auto
  qed
qed

end

end
