(* ===== verification/Codegen_Sem.thy ===== *)
theory Codegen_Sem
  imports Codegen_Run
begin

text \<open>
  The meaning of an expression, and that the code generated for it computes it. \<open>eval\<close> evaluates the
  syntax tree over a function \<open>fn\<close> for calls and a function \<open>col\<close> for the columns of the current row. The
  locale \<open>row_source\<close> (\<open>Codegen_Correct\<close>) is the contract between an expression and the rows it is evaluated on: code for a
  column gives the value of \<open>col\<close>. Value forms of \<open>BETWEEN\<close> are left out of \<open>supported\<close>, because their code
  does not compute what it should.
\<close>

section \<open>Evaluating the tree\<close>

fun literal_value :: "literal \<Rightarrow> sql_value" where
  "literal_value Lit_Null = VNull"
| "literal_value (Lit_Integer n) = VInt n"
| "literal_value (Lit_Real r) = VReal r"
| "literal_value (Lit_Text s) = VText s"
| "literal_value (Lit_Blob s) = VBlob s"
| "literal_value (Lit_Bool t) = VInt (if t then 1 else 0)"

definition coerce :: "affinity option \<Rightarrow> sql_value \<Rightarrow> sql_value result" where
  "coerce aff v = (case aff of None \<Rightarrow> Inr v | Some a \<Rightarrow> apply_affinity v a)"

text \<open>A comparison in three-valued logic; \<open>IS\<close> compares NULL like a value and converts nothing.\<close>

definition compare3 :: "affinity option \<Rightarrow> collation \<Rightarrow> compare_op \<Rightarrow> bool \<Rightarrow> sql_value \<Rightarrow> sql_value \<Rightarrow> bool option result" where
  "compare3 aff coll op nulleq l r =
     (if nulleq then Inr (Some (holds_for op (mem_compare l r coll)))
      else if is_null l \<or> is_null r then Inr None
      else and_then (coerce aff l) (\<lambda>l'. and_then (coerce aff r) (\<lambda>r'. Inr (Some (holds_for op (mem_compare l' r' coll))))))"

definition collation_or_binary :: "collation option \<Rightarrow> collation" where
  "collation_or_binary c = (case c of Some c \<Rightarrow> c | None \<Rightarrow> Binary)"

definition compare_exprs :: "ctx \<Rightarrow> compare_op \<Rightarrow> bool \<Rightarrow> expr \<Rightarrow> expr \<Rightarrow> sql_value \<Rightarrow> sql_value \<Rightarrow> bool option result" where
  "compare_exprs cx op nulleq l r =
     compare3 (comparison_affinity cx l r) (collation_or_binary (comparison_collation cx l r)) op nulleq"

definition arith_value :: "arith_op \<Rightarrow> sql_value \<Rightarrow> sql_value \<Rightarrow> sql_value result" where
  "arith_value op = (if op = Op_Concat then concat_values
     else if op \<in> {Op_BitAnd, Op_BitOr, Op_ShiftLeft, Op_ShiftRight} then bitwise op else arith op)"

definition binary_value :: "(bytes \<Rightarrow> sql_value list \<Rightarrow> sql_value result) \<Rightarrow> ctx \<Rightarrow> binop \<Rightarrow> expr \<Rightarrow> expr
    \<Rightarrow> sql_value \<Rightarrow> sql_value \<Rightarrow> sql_value result" where
  "binary_value fn cx op l r x y =
     (case (arith_opcode op, cmp_opcode op) of
        (Some a, _) \<Rightarrow> arith_value a x y
      | (None, Some (c, nulleq)) \<Rightarrow> and_then (compare_exprs cx c nulleq l r x y) (\<lambda>t. Inr (bool3_to_value t))
      | (None, None) \<Rightarrow>
          if op = B_And then Inr (bool3_to_value (and3 (truth x) (truth y)))
          else if op = B_Or then Inr (bool3_to_value (or3 (truth x) (truth y)))
          else if op = B_Like then fn (ascii_bytes ''like'') [y, x]
          else if op = B_Glob then fn (ascii_bytes ''glob'') [y, x]
          else if op = B_JsonExtract \<or> op = B_JsonExtractText
          then fn (ascii_bytes (if op = B_JsonExtract then ''_json_arrow'' else ''_json_arrow_text''))
                 [x, case json_arrow_path_literal r of Some p \<Rightarrow> VText p | None \<Rightarrow> y]
          else Inl Panic)"

definition unary_value :: "unop \<Rightarrow> expr \<Rightarrow> sql_value \<Rightarrow> sql_value result" where
  "unary_value op e v =
     (case op of
        U_Negate \<Rightarrow> (case const_negate e of Some lit \<Rightarrow> Inr (literal_value lit) | None \<Rightarrow> arith Op_Subtract (VInt 0) v)
      | U_Positive \<Rightarrow> Inr v
      | U_Not \<Rightarrow> Inr (bool3_to_value (map_option Not (truth v)))
      | U_BitNot \<Rightarrow> Inr (bit_not v))"

text \<open>\<open>e BETWEEN low AND high\<close> is \<open>e >= low AND e <= high\<close>.\<close>

definition between_value :: "ctx \<Rightarrow> expr \<Rightarrow> expr \<Rightarrow> expr \<Rightarrow> bool \<Rightarrow> sql_value \<Rightarrow> sql_value \<Rightarrow> sql_value \<Rightarrow> sql_value result" where
  "between_value cx e low high negated v lo hi =
     and_then (compare_exprs cx Op_Ge False e low v lo) (\<lambda>t1. and_then (compare_exprs cx Op_Le False e high v hi) (\<lambda>t2.
       Inr (bool3_to_value (if negated then map_option Not (and3 t1 t2) else and3 t1 t2))))"

fun all_ok :: "'a result list \<Rightarrow> 'a list result" where
  "all_ok [] = Inr []"
| "all_ok (r # rs) = and_then r (\<lambda>x. and_then (all_ok rs) (\<lambda>xs. Inr (x # xs)))"

fun eval :: "(bytes \<Rightarrow> sql_value list \<Rightarrow> sql_value result) \<Rightarrow> (bytes option \<Rightarrow> bytes \<Rightarrow> sql_value) \<Rightarrow> ctx \<Rightarrow> expr
    \<Rightarrow> sql_value result" where
  "eval fn col cx (E_Literal lit) = Inr (literal_value lit)"
| "eval fn col cx (E_Column q name) = Inr (col q name)"
| "eval fn col cx (E_Unary op e) = and_then (eval fn col cx e) (unary_value op e)"
| "eval fn col cx (E_Binary op l r) =
     and_then (eval fn col cx l) (\<lambda>x. and_then (eval fn col cx r) (binary_value fn cx op l r x))"
| "eval fn col cx (E_Function name d (Some args)) = and_then (all_ok (map (eval fn col cx) args)) (fn name)"
| "eval fn col cx (E_Between e low high negated) =
     and_then (eval fn col cx e) (\<lambda>v. and_then (eval fn col cx low) (\<lambda>lo. and_then (eval fn col cx high)
       (between_value cx e low high negated v lo)))"
| "eval fn col cx (E_Collate e c) = eval fn col cx e"
| "eval fn col cx (E_Coalesce2 l r) =
     and_then (eval fn col cx l) (\<lambda>x. and_then (eval fn col cx r) (\<lambda>y. Inr (if is_null x then y else x)))"
| "eval fn col cx _ = Inl Panic"

section \<open>The expressions covered\<close>

text \<open>\<open>known\<close> says which columns the source of rows has a value for.\<close>

definition volatile :: "bytes \<Rightarrow> bool" where
  "volatile name \<longleftrightarrow> map ascii_lower name \<in> {ascii_bytes ''random'', ascii_bytes ''randomblob''}"

fun supported :: "(bytes option \<Rightarrow> bytes \<Rightarrow> bool) \<Rightarrow> expr \<Rightarrow> bool" where
  "supported known (E_Literal lit) = True"
| "supported known (E_Column q name) = known q name"
| "supported known (E_Unary op e) = supported known e"
| "supported known (E_Binary op l r) = (supported known l \<and> supported known r)"
| "supported known (E_Function name d (Some args)) = (\<not> volatile name \<and> length args < 256 \<and> list_all (supported known) args)"
| "supported known (E_Collate e c) = supported known e"
| "supported known (E_Coalesce2 l r) = (supported known l \<and> supported known r)"
| "supported known _ = False"

text \<open>
  In a condition \<open>BETWEEN\<close> is covered when both comparisons have the same affinity and the collation of
  both is the default.
\<close>

fun condition :: "(bytes option \<Rightarrow> bytes \<Rightarrow> bool) \<Rightarrow> ctx \<Rightarrow> expr \<Rightarrow> bool" where
  "condition known cx (E_Binary op l r) =
     (if op = B_And \<or> op = B_Or then condition known cx l \<and> condition known cx r else supported known l \<and> supported known r)"
| "condition known cx (E_Unary op e) = (if op = U_Not then condition known cx e else supported known e)"
| "condition known cx (E_Between e low high negated) =
     (supported known e \<and> supported known low \<and> supported known high
      \<and> comparison_affinity cx e low = comparison_affinity cx e high
      \<and> comparison_collation cx e low = None \<and> comparison_collation cx e high = None)"
| "condition known cx e = supported known e"

definition jump_taken :: "sql_value \<Rightarrow> bool \<Rightarrow> bool \<Rightarrow> bool" where
  "jump_taken v if_true if_null = (case truth v of Some t \<Rightarrow> t = if_true | None \<Rightarrow> if_null)"

section \<open>Instructions on registers\<close>

lemma read_reg_ok: "0 \<le> r \<Longrightarrow> nat r < length (vm_regs vm) \<Longrightarrow> read_reg r vm = (vm, Inr (vm_regs vm ! nat r))"
  by (simp add: read_reg_def read_reg_at_def usize_of_def ok_or_def)

lemma storesI:
  assumes "dispatch env (inst_opcode inst) inst vm = store_reg t v vm" and "0 \<le> t" and "nat t < length (vm_regs vm)"
  shows "stores env inst t v vm"
  unfolding stores_def assms(1) using assms(2,3)
  by (intro exI [of _ "vm_aggregates vm"]) (simp add: store_reg_def write_reg_def write_reg_at_def usize_of_def advance_def)

lemma stores_null: "0 \<le> t \<Longrightarrow> nat t < length (vm_regs vm) \<Longrightarrow>
    stores env (Instruction (Load Op_Null) 0 t 0 P4_None 0) t VNull vm"
  unfolding stores_def
  by (intro exI [of _ "(vm_aggregates vm)(nat t := None)"])
    (simp add: write_reg_def write_reg_at_def usize_of_def advance_def then_op_def bind_op_def)

lemma call_pure:
  "\<not> volatile name \<Longrightarrow> call_function env name args vm = (vm, snd (call_function env name args (vdbe_new program_empty None (vm_ctx vm))))"
  by (simp add: volatile_def call_function_def Let_def vdbe_new_def)

text \<open>The value of a call that does not draw random numbers.\<close>

definition pure_call :: "vm_env \<Rightarrow> runtime_ctx \<Rightarrow> bytes \<Rightarrow> sql_value list \<Rightarrow> sql_value result" where
  "pure_call env rc name args = snd (call_function env name args (vdbe_new program_empty None rc))"

section \<open>Flags of comparisons\<close>

lemma p5_cases:
  fixes aff :: "affinity option"
  obtains "aff_to_p5 aff = 0" "aff = None" | "aff_to_p5 aff = 1" "aff = Some Aff_Blob" | "aff_to_p5 aff = 2" "aff = Some Aff_Text"
  | "aff_to_p5 aff = 3" "aff = Some Aff_Numeric" | "aff_to_p5 aff = 4" "aff = Some Aff_Integer" | "aff_to_p5 aff = 5" "aff = Some Aff_Real"
  by (cases aff rule: option.exhaust; (cases "the aff")?) (simp_all add: aff_to_p5_def)

lemmas p5_defs = has_flag_def P5_STOREP2_def P5_NULLEQ_def P5_JUMPIFNULL_def P5_AFF_MASK_def p5_to_aff_def null_flag_def

lemma p5_store:
  "has_flag (aff_to_p5 aff OR P5_STOREP2 OR (if n then P5_NULLEQ else 0)) P5_STOREP2"
  "has_flag (aff_to_p5 aff OR P5_STOREP2 OR (if n then P5_NULLEQ else 0)) P5_NULLEQ = n"
  "p5_to_aff (aff_to_p5 aff OR P5_STOREP2 OR (if n then P5_NULLEQ else 0)) = aff"
  by (rule p5_cases [of aff]; cases n; simp add: p5_defs)+

lemma p5_jump:
  "\<not> has_flag (aff_to_p5 aff OR (if n then P5_NULLEQ else null_flag j)) P5_STOREP2"
  "has_flag (aff_to_p5 aff OR (if n then P5_NULLEQ else null_flag j)) P5_NULLEQ = n"
  "has_flag (aff_to_p5 aff OR (if n then P5_NULLEQ else null_flag j)) P5_JUMPIFNULL = (\<not> n \<and> j)"
  "p5_to_aff (aff_to_p5 aff OR (if n then P5_NULLEQ else null_flag j)) = aff"
  by (rule p5_cases [of aff]; cases n; cases j; simp add: p5_defs)+

lemma compare_values_3:
  "has_flag p5 P5_NULLEQ = n \<Longrightarrow> p5_to_aff p5 = aff \<Longrightarrow> compare_values op l r p5 p4 = compare3 aff (collation_of p4) op n l r"
  by (auto simp: compare_values_def compare3_def with_affinity_def coerce_def and_then_def)

lemma collation_of_p4: "collation_of (collation_p4 cx l r) = collation_or_binary (comparison_collation cx l r)"
proof -
  have "collation_from_name (collation_name Binary) = Some Binary" "collation_from_name (collation_name NoCase) = Some NoCase"
    "collation_from_name (collation_name RTrim) = Some RTrim" by code_simp+
  then have "collation_from_name (collation_name c) = Some c" for c by (cases c) simp_all
  then show ?thesis by (simp add: collation_p4_def collation_or_binary_def split: option.split)
qed

lemma truth_bool3 [simp]: "truth (bool3_to_value t) = t"
proof -
  have "f_is_zero (f64_of_i64 0)"
    by (simp add: f64_of_i64_def f64_of_nat_def f64_of_ratio_def f64_pack_def f_is_zero_def f_mag_def f_exp_def f_man_def)
  moreover have "\<not> f_is_zero (f64_of_i64 1)"
  proof -
    have "f_scaled (f64_of_i64 1) = 1 * f64_unit" by (subst f64_of_i64_exact) (simp_all add: f64_exact_def)
    moreover have "1 * f64_unit \<noteq> 0" by (simp add: f64_unit_def)
    ultimately have "f_scaled (f64_of_i64 1) \<noteq> 0" by metis
    then show ?thesis by (auto simp: f_is_zero_def f_scaled_def split: if_splits)
  qed
  ultimately show ?thesis by (cases t) (auto simp: bool3_to_value_def truth_def is_null_def)
qed

lemma and3_table: "and3 s t = (if s = Some False \<or> t = Some False then Some False else if s = Some True \<and> t = Some True then Some True else None)"
  by (induction s t rule: and3.induct) auto

lemma or3_table: "or3 s t = (if s = Some True \<or> t = Some True then Some True else if s = Some False \<and> t = Some False then Some False else None)"
  by (induction s t rule: or3.induct) auto

lemma negate_cmp_holds: "holds_for (negate_cmp op) ord = (\<not> holds_for op ord)"
  by (cases op; cases ord) simp_all

lemma compare3_negate: "compare3 aff coll (negate_cmp op) n l r = and_then (compare3 aff coll op n l r) (\<lambda>t. Inr (map_option Not t))"
  by (auto simp: compare3_def and_then_def negate_cmp_holds split: sum.split)

end
