(* ===== verification/Codegen_Correct.thy ===== *)
theory Codegen_Correct
  imports Codegen_Sem
begin

text \<open>
  The code generated for an expression computes its value, and the code generated for a condition
  jumps exactly when the condition has the wanted truth value. Both are proved once in the locale
  \<open>row_source\<close>, for any source of column values.
\<close>

context register_code
begin

text \<open>A jump on a comparison of two registers.\<close>

lemma compare_branches:
  assumes "\<And>vm. rely vm \<Longrightarrow> nat r1 < length (vm_regs vm) \<and> nat r2 < length (vm_regs vm)"
    and "\<And>vm. rely vm \<Longrightarrow> vm_regs vm ! nat r1 = x" and "\<And>vm. rely vm \<Longrightarrow> vm_regs vm ! nat r2 = y"
    and "0 \<le> r1" and "0 \<le> r2" and "compare3 aff (collation_of p4) op n x y = Inr t3"
  shows "branches env lo rely
    (emit_branch (Instruction (Comparison op) r2 0 r1 p4 (aff_to_p5 aff OR (if n then P5_NULLEQ else null_flag if_null))) l) l
    (case t3 of Some t \<Rightarrow> t | None \<Rightarrow> if_null)"
proof -
  define p5 where "p5 = aff_to_p5 aff OR (if n then P5_NULLEQ else null_flag if_null)"
  note f = p5_jump [of aff n if_null, folded p5_def]
  have cv: "compare_values op x y p5 p4 = Inr t3" using assms(6) compare_values_3 [OF f(2,4)] by simp
  have nn: "\<not> n" if "t3 = None" using assms(6) that by (auto simp: compare3_def and_then_def split: sum.splits)
  have b: "(case t3 of None \<Rightarrow> has_flag (inst_p5 (Instruction (Comparison op) r2 p r1 p4 p5)) P5_JUMPIFNULL | Some b \<Rightarrow> b) =
      (case t3 of Some t \<Rightarrow> t | None \<Rightarrow> if_null)" for p
    using nn f(3) by (cases t3) simp_all
  show ?thesis unfolding p5_def [symmetric]
    using assms(1-5) by (intro branches_inst) (simp add: do_Comparison_def read_reg_ok cv f(1) b)
qed

end

locale row_source = register_code env lo rely
  for env :: vm_env and lo :: int and rely :: "vdbe \<Rightarrow> bool" +
  fixes cx :: ctx and rc :: runtime_ctx and known :: "bytes option \<Rightarrow> bytes \<Rightarrow> bool"
    and col :: "bytes option \<Rightarrow> bytes \<Rightarrow> sql_value"
  assumes rely_ctx: "rely vm \<Longrightarrow> vm_ctx vm = rc"
    and column_gives: "known q name \<Longrightarrow> gives env lo rely (compile_column cx q name) (col q name)"
begin

lemma gives_literal: "gives env lo rely (compile_literal lit) (literal_value lit)"
proof (cases lit)
  case Lit_Null
  have "gives env lo rely (\<lambda>t. emit_inst (Instruction (Load Op_Null) 0 t 0 P4_None 0)) VNull"
    by (rule gives_inst) (rule stores_null)
  then show ?thesis unfolding Lit_Null literal_value.simps by (rule gives_cong) (simp add: emitted)
next
  case (Lit_Integer n)
  define i where "i t = (if - (2 ^ 31) \<le> sint n \<and> sint n < 2 ^ 31 then Instruction (Load Op_Integer) (sint n) t 0 P4_None 0
      else Instruction (Load Op_Int64) 0 t 0 (P4_Int n) 0)" for t
  have "gives env lo rely (\<lambda>t. emit_inst (i t)) (VInt n)"
    by (rule gives_inst) (auto simp: i_def intro: storesI)
  then show ?thesis unfolding Lit_Integer literal_value.simps by (rule gives_cong) (simp add: emitted i_def)
next
  case (Lit_Bool t)
  have "gives env lo rely (\<lambda>r. emit_inst (Instruction (Load Op_Integer) (if t then 1 else 0) r 0 P4_None 0)) (VInt (if t then 1 else 0))"
    by (rule gives_inst) (auto intro: storesI)
  then show ?thesis unfolding Lit_Bool literal_value.simps by (rule gives_cong) (simp add: emitted)
next
  case (Lit_Real r)
  have "gives env lo rely (\<lambda>t. emit_inst (Instruction (Load Op_Real) 0 t 0 (P4_Real r) 0)) (VReal r)"
    by (rule gives_inst) (auto intro: storesI)
  then show ?thesis unfolding Lit_Real literal_value.simps by (rule gives_cong) (simp add: emitted)
next
  case (Lit_Text s)
  have "gives env lo rely (\<lambda>t. emit_inst (Instruction (Load Op_String8) 0 t 0 (P4_Text s) 0)) (VText s)"
    by (rule gives_inst) (auto intro: storesI)
  then show ?thesis unfolding Lit_Text literal_value.simps by (rule gives_cong) (simp add: emitted)
next
  case (Lit_Blob s)
  have "gives env lo rely (\<lambda>t. emit_inst (Instruction (Load Op_Blob) 0 t 0 (P4_Blob s) 0)) (VBlob s)"
    by (rule gives_inst) (auto intro: storesI)
  then show ?thesis unfolding Lit_Blob literal_value.simps by (rule gives_cong) (simp add: emitted)
qed

text \<open>The operand reads in an instruction.\<close>

lemma gives_unary:
  assumes "gives env lo rely ce v" and "unary_value op e v = Inr w"
  shows "gives env lo rely (compile_unary op e ce) w"
proof (cases op)
  case U_Positive
  then have "w = v" using assms(2) by (simp add: unary_value_def)
  then show ?thesis using gives_cong [OF assms(1)] U_Positive by (simp add: compile_unary_def)
next
  case U_Not
  have "gives env lo rely (\<lambda>t. bind_op (fresh ce) (\<lambda>r. emit_inst (Instruction (Logic Op_Not) r t 0 P4_None 0)))
      (bool3_to_value (map_option Not (truth v)))"
    using assms(1) by (rule gives_fresh1) (rule storesI; simp add: read_reg_ok)
  then show ?thesis using assms(2) U_Not by (auto simp: compile_unary_def unary_value_def emitted elim: gives_cong)
next
  case U_BitNot
  have "gives env lo rely (\<lambda>t. bind_op (fresh ce) (\<lambda>r. emit_inst (Instruction (Arith Op_BitNot) r t 0 P4_None 0))) (bit_not v)"
    using assms(1) by (rule gives_fresh1) (rule storesI; simp add: read_reg_ok)
  then show ?thesis using assms(2) U_BitNot by (auto simp: compile_unary_def unary_value_def emitted elim: gives_cong)
next
  case U_Negate
  show ?thesis
  proof (cases "const_negate e")
    case (Some lit)
    then have "w = literal_value lit" using assms(2) U_Negate by (simp add: unary_value_def)
    then show ?thesis using gives_cong [OF gives_literal [of lit]] U_Negate Some by (simp add: compile_unary_def)
  next
    case None
    let ?zero = "\<lambda>t. emit_inst (Instruction (Load Op_Integer) 0 t 0 P4_None 0)"
    have z: "gives env lo rely ?zero (VInt 0)" by (rule gives_inst) (auto intro: storesI)
    have w: "arith Op_Subtract (VInt 0) v = Inr w" using assms(2) U_Negate None by (simp add: unary_value_def)
    have "gives env lo rely (\<lambda>t. bind_op (fresh ce) (\<lambda>tmp. bind_op (fresh ?zero) (\<lambda>zero.
        emit_inst (Instruction (Arith Op_Subtract) tmp zero t P4_None 0)))) w"
      using assms(1) z by (rule gives_fresh2) (rule storesI; simp add: read_reg_ok binary_op_def w)
    moreover have "compile_unary op e ce = (\<lambda>t. bind_op (fresh ce) (\<lambda>tmp. bind_op (fresh ?zero) (\<lambda>zero.
        emit_inst (Instruction (Arith Op_Subtract) tmp zero t P4_None 0))))"
      by (intro ext) (simp add: compile_unary_def U_Negate None emitted fresh_def bind_op_def then_op_def emit_inst_def
          split: prod.split sum.split)
    ultimately show ?thesis by simp
  qed
qed

lemma gives_fn:
  assumes "list_all2 (gives env lo rely) cs vs" and "pure_call env rc name vs = Inr w" and "\<not> volatile name" and "length cs < 256"
  shows "gives env lo rely (\<lambda>t. bind_op (alloc_regs (int (length cs))) (\<lambda>start.
      then_op (each_op (\<lambda>(k, c). c (start + int k)) (enumerate 0 cs)) (emit_call name start t (length cs)))) w"
proof -
  have len: "length vs = length cs" using assms(1) by (simp add: list_all2_lengthD)
  have "gives env lo rely (\<lambda>t. bind_op (alloc_regs (int (length cs))) (\<lambda>start. then_op (each_op (\<lambda>(k, c). c (start + int k)) (enumerate 0 cs))
      (emit_inst (Instruction (Moves Op_Function) 0 start t (P4_Symbol name) (of_nat (length cs)))))) w"
    using assms(1)
  proof (rule gives_call)
    fix start t vm
    assume a: "0 \<le> t" "nat t < length (vm_regs vm)" "0 \<le> start" "nat start + length vs \<le> length (vm_regs vm)"
      "sub (nat start) (nat start + length vs) (vm_regs vm) = vs" "rely vm"
    have "unat (of_nat (length cs) :: u8) = length cs" using assms(4) by (simp add: unat_of_nat)
    moreover have "call_function env name vs vm = (vm, Inr w)"
      using call_pure [OF assms(3), of env vs vm] assms(2) rely_ctx [OF a(6)] by (simp add: pure_call_def)
    ultimately show "stores env (Instruction (Moves Op_Function) 0 start t (P4_Symbol name) (of_nat (length cs))) t w vm"
      using a by (intro storesI) (simp_all add: do_Function_def reg_range_def usize_of_def len)
  qed
  then show ?thesis by (simp add: emitted)
qed

lemma gives_call2:
  assumes "gives env lo rely c1 x" and "gives env lo rely c2 y" and "pure_call env rc name [x, y] = Inr w" and "\<not> volatile name"
  shows "gives env lo rely (call2 name c1 c2) w"
proof -
  have "list_all2 (gives env lo rely) [c1, c2] [x, y]" using assms(1,2) by simp
  from gives_fn [OF this assms(3,4)]
  have "gives env lo rely (\<lambda>t. bind_op (alloc_regs 2) (\<lambda>start.
      then_op (each_op (\<lambda>(k, c). c (start + int k)) (enumerate 0 [c1, c2])) (emit_call name start t 2))) w"
    by (simp add: numeral_2_eq_2)
  moreover have "call2 name c1 c2 = (\<lambda>t. bind_op (alloc_regs 2) (\<lambda>start.
      then_op (each_op (\<lambda>(k, c). c (start + int k)) (enumerate 0 [c1, c2])) (emit_call name start t 2)))"
    by (intro ext) (simp add: call2_def bind_op_def then_op_def split: prod.split sum.split)
  ultimately show ?thesis by simp
qed

lemma gives_binary:
  assumes "gives env lo rely cl x" and "gives env lo rely cr y" and "binary_value (pure_call env rc) cx op l r x y = Inr w"
  shows "gives env lo rely (compile_binary cx op l r cl cr) w"
proof -
  consider (arith) a where "arith_opcode op = Some a"
    | (cmp) c n where "arith_opcode op = None" "cmp_opcode op = Some (c, n)"
    | (logic) "op = B_And \<or> op = B_Or" | (like) "op = B_Like \<or> op = B_Glob"
    | (json) "op = B_JsonExtract \<or> op = B_JsonExtractText" | (none) "op = B_Regexp \<or> op = B_Match"
    by (cases op) auto
  then show ?thesis
  proof cases
    case arith
    then have w: "arith_value a x y = Inr w" "a \<noteq> Op_BitNot" using assms(3) by (auto simp: binary_value_def elim: arith_opcode.elims)
    have d: "dispatch env (Arith a) inst = binary_op (arith_value a) inst" for inst
      using w(2) by (cases a) (simp_all add: arith_value_def)
    have "gives env lo rely (\<lambda>t. bind_op (fresh cl) (\<lambda>rl. bind_op (fresh cr) (\<lambda>rr.
        emit_inst (Instruction (Arith a) rr rl t P4_None 0)))) w"
      using assms(1,2) by (rule gives_fresh2) (rule storesI; simp add: d [simplified] read_reg_ok binary_op_def w(1))
    then show ?thesis by (rule gives_cong) (simp add: compile_binary_def arith emitted)
  next
    case cmp
    define p5 where "p5 = aff_to_p5 (comparison_affinity cx l r) OR P5_STOREP2 OR (if n then P5_NULLEQ else 0)"
    obtain t3 where t3: "compare_exprs cx c n l r x y = Inr t3" "w = bool3_to_value t3"
      using assms(3) cmp by (auto simp: binary_value_def and_then_def split: sum.splits)
    note f = p5_store [of "comparison_affinity cx l r" n, folded p5_def]
    have cv: "compare_values c x y p5 (collation_p4 cx l r) = Inr t3"
      using t3(1) compare_values_3 [OF f(2,3)] by (simp add: compare_exprs_def collation_of_p4)
    have "gives env lo rely (\<lambda>t. bind_op (fresh cl) (\<lambda>rl. bind_op (fresh cr) (\<lambda>rr.
        emit_inst (Instruction (Comparison c) rr t rl (collation_p4 cx l r) p5)))) w"
      using assms(1,2) by (rule gives_fresh2) (rule storesI; simp add: do_Comparison_def read_reg_ok f(1) cv t3(2))
    then show ?thesis by (rule gives_cong) (simp add: compile_binary_def cmp compile_comparison_def emitted p5_def)
  next
    case logic
    define lop where "lop = (if op = B_And then Op_And else Op_Or)"
    have "gives env lo rely (\<lambda>t. bind_op (fresh cl) (\<lambda>rl. bind_op (fresh cr) (\<lambda>rr.
        emit_inst (Instruction (Logic lop) rl rr t P4_None 0)))) w"
      using assms logic by (intro gives_fresh2) (auto intro!: storesI simp: lop_def read_reg_ok binary_value_def)
    then show ?thesis by (rule gives_cong) (use logic in \<open>auto simp: compile_binary_def lop_def emitted\<close>)
  next
    case like
    define nm where "nm = ascii_bytes (if op = B_Like then ''like'' else ''glob'')"
    have "\<not> volatile (ascii_bytes ''like'')" "\<not> volatile (ascii_bytes ''glob'')" by code_simp+
    then have "gives env lo rely (call2 nm cr cl) w"
      using like assms(3) by (intro gives_call2 [OF assms(2,1)]) (auto simp: binary_value_def nm_def)
    then show ?thesis by (rule gives_cong) (use like in \<open>auto simp: compile_binary_def nm_def\<close>)
  next
    case json
    define nm where "nm = ascii_bytes (if op = B_JsonExtract then ''_json_arrow'' else ''_json_arrow_text'')"
    have nv: "\<not> volatile nm"
    proof -
      have "\<not> volatile (ascii_bytes ''_json_arrow'')" "\<not> volatile (ascii_bytes ''_json_arrow_text'')" by code_simp+
      then show ?thesis by (simp add: nm_def)
    qed
    have c: "compile_binary cx op l r cl cr t = compile_json_arrow op r cl cr t" for t
      using json by (auto simp: compile_binary_def)
    show ?thesis
    proof (cases "json_arrow_path_literal r")
      case None
      have "gives env lo rely (call2 nm cl cr) w"
        using json assms(3) nv None by (intro gives_call2 [OF assms(1,2)]) (auto simp: binary_value_def nm_def)
      then show ?thesis by (rule gives_cong) (simp add: c compile_json_arrow_def None nm_def)
    next
      case (Some path)
      have "gives env lo rely (\<lambda>r. emit_p4 (Load Op_String8) 0 r 0 (P4_Text path)) (VText path)"
        unfolding emitted by (rule gives_inst) (auto intro: storesI)
      then have "gives env lo rely (call2 nm cl (\<lambda>r. emit_p4 (Load Op_String8) 0 r 0 (P4_Text path))) w"
        using json assms(3) nv Some by (intro gives_call2 [OF assms(1)]) (auto simp: binary_value_def nm_def)
      then show ?thesis by (rule gives_cong) (simp add: c compile_json_arrow_def Some nm_def)
    qed
  next
    case none
    then show ?thesis using assms(3) by (auto simp: binary_value_def)
  qed
qed

lemma all_ok_gives:
  assumes "\<And>e v. e \<in> set es \<Longrightarrow> eval fn col cx e = Inr v \<Longrightarrow> gives env lo rely (compile_expr cx e) v"
    and "all_ok (map (eval fn col cx) es) = Inr vs"
  shows "list_all2 (gives env lo rely) (map (compile_expr cx) es) vs"
  using assms
  by (induction es arbitrary: vs) (auto simp: and_then_def split: sum.splits)

theorem expr_gives: "supported known e \<Longrightarrow> eval (pure_call env rc) col cx e = Inr v \<Longrightarrow> gives env lo rely (compile_expr cx e) v"
proof (induction e arbitrary: v)
  case (E_Unary op e)
  then show ?case by (auto simp: and_then_def split: sum.splits intro: gives_unary)
next
  case (E_Binary op l r)
  then show ?case by (auto simp: and_then_def split: sum.splits intro: gives_binary)
next
  case (E_Function name d opt_args)
  then obtain args where a: "opt_args = Some args" by (cases opt_args) auto
  obtain vs where vs: "all_ok (map (eval (pure_call env rc) col cx) args) = Inr vs" "pure_call env rc name vs = Inr v"
    using E_Function.prems(2) by (auto simp: a and_then_def split: sum.splits)
  have s: "\<not> volatile name" "length args < 256" "\<And>e. e \<in> set args \<Longrightarrow> supported known e"
    using E_Function.prems(1) by (auto simp: a list_all_iff)
  have "list_all2 (gives env lo rely) (map (compile_expr cx) args) vs"
    using vs(1) by (intro all_ok_gives) (auto simp: a intro: E_Function.IH s(3))
  then have g: "gives env lo rely (\<lambda>t. bind_op (alloc_regs (int (length args))) (\<lambda>start. then_op (each_op (\<lambda>(k, c). c (start + int k))
      (enumerate 0 (map (compile_expr cx) args))) (emit_call name start t (length args)))) v"
    using gives_fn [OF _ vs(2) s(1), of "map (compile_expr cx) args"] s(2) by simp
  show ?case
  proof (cases "d \<or> func_check name (length args) \<noteq> Inr ()")
    case True
    then show ?thesis by (cases "func_check name (length args)") (auto simp: a gives_def compile_call_def then_op_def)
  next
    case False
    then show ?thesis using g by (auto simp: a compile_call_def then_op_def elim: gives_cong)
  qed
next
  case (E_Coalesce2 l r)
  then show ?case by (auto simp: and_then_def split: sum.splits intro: gives_coalesce [of _ VNull, simplified] dest: gives_coalesce)
qed (auto intro: gives_literal column_gives)

section \<open>Conditions\<close>

lemma extends_expr:
  "supported known e \<Longrightarrow> eval (pure_call env rc) col cx e = Inr v \<Longrightarrow> extends (fresh (compile_expr cx e))"
  using expr_gives by (rule extends_fresh)

lemma jump_value_branches:
  assumes "supported known e" and "eval (pure_call env rc) col cx e = Inr v"
  shows "branches env lo rely (jump_value cx e l if_true if_null) l (jump_taken v if_true if_null)"
proof -
  let ?i = "\<lambda>r. Instruction (Logic (if if_true then Op_If else Op_IfNot)) r 0 (if if_null then 1 else 0) P4_None 0"
  have "branches env lo rely (bind_op (fresh (compile_expr cx e)) (\<lambda>r. emit_branch (?i r) l)) l (jump_taken v if_true if_null)"
    using expr_gives [OF assms] extends_emit(2)
  proof (rule branches_fresh)
    fix r assume "lo \<le> r"
    then show "branches env (r + 1) (and_reg rely r v) (emit_branch (?i r) l) l (jump_taken v if_true if_null)"
      using lo_pos by (intro register_code.branches_inst [OF protected])
        (auto simp: and_reg_def read_reg_ok jump_taken_def split: option.split)
  qed
  then show ?thesis by (simp add: jump_value_def emitted)
qed

lemma jump_comparison_branches:
  assumes "supported known left" and "supported known right" and "eval (pure_call env rc) col cx left = Inr x"
    and "eval (pure_call env rc) col cx right = Inr y" and "compare_exprs cx op n left right x y = Inr t3"
  shows "branches env lo rely (jump_comparison cx op n left right l if_true if_null) l
    (jump_taken (bool3_to_value t3) if_true if_null)"
proof -
  let ?op = "if if_true then op else negate_cmp op"
  let ?i = "\<lambda>r1 r2. Instruction (Comparison ?op) r2 0 r1 (collation_p4 cx left right)
      (aff_to_p5 (comparison_affinity cx left right) OR (if n then P5_NULLEQ else null_flag if_null))"
  define t where "t = (if if_true then t3 else map_option Not t3)"
  have c: "compare3 (comparison_affinity cx left right) (collation_of (collation_p4 cx left right)) ?op n x y = Inr t"
    using assms(5) by (simp add: compare_exprs_def collation_of_p4 compare3_negate t_def and_then_def)
  have taken: "(case t of Some b \<Rightarrow> b | None \<Rightarrow> if_null) = jump_taken (bool3_to_value t3) if_true if_null"
    by (cases t3) (auto simp: t_def jump_taken_def)
  have gl: "gives env lo rely (compile_expr cx left) x" and gr: "gives env lo rely (compile_expr cx right) y"
    using expr_gives assms(1-4) by blast+
  have "branches env lo rely (bind_op (fresh (compile_expr cx left)) (\<lambda>r1. bind_op (fresh (compile_expr cx right)) (\<lambda>r2.
      emit_branch (?i r1 r2) l))) l (jump_taken (bool3_to_value t3) if_true if_null)"
    using gl
  proof (rule branches_fresh)
    show "extends (bind_op (fresh (compile_expr cx right)) (\<lambda>r2. emit_branch (?i r1 r2) l))" for r1
      using gr by (intro extends_bind extends_fresh) simp_all
    fix r1 assume r1: "lo \<le> r1"
    have g: "gives env (r1 + 1) (and_reg rely r1 x) (compile_expr cx right) y"
      using gr r1 lo_pos by (intro gives_protect) auto
    have br: "branches env (r2 + 1) (and_reg (and_reg rely r1 x) r2 y) (emit_branch (?i r1 r2) l) l
        (jump_taken (bool3_to_value t3) if_true if_null)" if "r1 + 1 \<le> r2" for r2
      unfolding taken [symmetric] using r1 that lo_pos c
      by (intro register_code.compare_branches [OF register_code.protected [OF protected [OF r1] that]]) (auto simp: and_reg_def)
    show "branches env (r1 + 1) (and_reg rely r1 x) (bind_op (fresh (compile_expr cx right)) (\<lambda>r2. emit_branch (?i r1 r2) l)) l
        (jump_taken (bool3_to_value t3) if_true if_null)"
      by (rule register_code.branches_fresh [OF protected [OF r1] g extends_emit(2)]) (rule br)
  qed
  then show ?thesis by (simp add: jump_comparison_def emitted)
qed

lemma between_branches:
  assumes "supported known e" and "supported known low" and "supported known high"
    and "eval (pure_call env rc) col cx e = Inr v" and "eval (pure_call env rc) col cx low = Inr x"
    and "eval (pure_call env rc) col cx high = Inr y" and "between_value cx e low high negated v x y = Inr w"
    and "comparison_affinity cx e low = comparison_affinity cx e high"
    and "comparison_collation cx e low = None" and "comparison_collation cx e high = None"
  shows "branches env lo rely (jump_between cx e low high negated l if_true if_null) l (jump_taken w if_true if_null)"
proof -
  define aff where "aff = comparison_affinity cx e low"
  obtain t1 t2 where t1: "compare3 aff Binary Op_Ge False v x = Inr t1" and t2: "compare3 aff Binary Op_Le False v y = Inr t2"
      and w: "w = bool3_to_value (if negated then map_option Not (and3 t1 t2) else and3 t1 t2)"
    using assms(7-10) by (auto simp: between_value_def compare_exprs_def collation_or_binary_def aff_def and_then_def split: sum.splits)
  have lt: "compare3 aff Binary Op_Lt False v x = Inr (map_option Not t1)" and gt: "compare3 aff Binary Op_Gt False v y = Inr (map_option Not t2)"
    using compare3_negate [of aff Binary Op_Ge] compare3_negate [of aff Binary Op_Le] t1 t2 by (simp_all add: and_then_def)
  let ?c = "\<lambda>op r r' j l. emit_branch (Instruction (Comparison op) r' 0 r P4_None (aff_to_p5 aff OR (if False then P5_NULLEQ else null_flag j))) l"
  let ?tail = "\<lambda>r x1 y1. if negated = if_true then then_op (?c Op_Lt r x1 if_null l) (?c Op_Gt r y1 if_null l)
    else bind_op new_label (\<lambda>d. then_op (?c Op_Lt r x1 (\<not> if_null) d) (then_op (?c Op_Le r y1 if_null l) (resolve d)))"
  have ge: "gives env lo rely (compile_expr cx e) v" and gx: "gives env lo rely (compile_expr cx low) x"
    and gy: "gives env lo rely (compile_expr cx high) y"
    using expr_gives assms(1-6) by blast+
  have ext: "extends (?tail r x1 y1)" for r x1 y1
    using extends_around [of "\<lambda>d. then_op (?c Op_Lt r x1 (\<not> if_null) d) (?c Op_Le r y1 if_null l)"]
    by (simp add: extends_then then_op_assoc)
  have tail: "branches env (y1 + 1) (and_reg (and_reg (and_reg rely r v) x1 x) y1 y) (?tail r x1 y1) l (jump_taken w if_true if_null)"
    if r: "lo \<le> r" and x1: "r + 1 \<le> x1" and y1: "x1 + 1 \<le> y1" for r x1 y1
  proof -
    have c1: "register_code (x1 + 1) (and_reg (and_reg rely r v) x1 x)" using register_code.protected [OF protected [OF r] x1] .
    have c: "register_code (y1 + 1) (and_reg (and_reg (and_reg rely r v) x1 x) y1 y)" using register_code.protected [OF c1 y1] .
    have n: "0 \<le> r" "0 \<le> x1" "0 \<le> y1" using r x1 y1 lo_pos by linarith+
    note cb = register_code.compare_branches [OF c]
    have jlt: "branches env (y1 + 1) (and_reg (and_reg (and_reg rely r v) x1 x) y1 y) (?c Op_Lt r x1 j d) d
        (case map_option Not t1 of Some t \<Rightarrow> t | None \<Rightarrow> j)" for j d
      using n lt by (intro cb) (auto simp: and_reg_def)
    have jgt: "branches env (y1 + 1) (and_reg (and_reg (and_reg rely r v) x1 x) y1 y) (?c Op_Gt r y1 j d) d
        (case map_option Not t2 of Some t \<Rightarrow> t | None \<Rightarrow> j)" for j d
      using n gt by (intro cb) (auto simp: and_reg_def)
    have jle: "branches env (y1 + 1) (and_reg (and_reg (and_reg rely r v) x1 x) y1 y) (?c Op_Le r y1 j d) d
        (case t2 of Some t \<Rightarrow> t | None \<Rightarrow> j)" for j d
      using n t2 by (intro cb) (auto simp: and_reg_def)
    show ?thesis
    proof (cases "negated = if_true")
      case True
      have "jump_taken w if_true if_null = ((case map_option Not t1 of Some t \<Rightarrow> t | None \<Rightarrow> if_null)
          \<or> (case map_option Not t2 of Some t \<Rightarrow> t | None \<Rightarrow> if_null))"
        using True by (cases t1; cases t2; cases if_true; cases if_null) (auto simp: w jump_taken_def and3_table)
      then show ?thesis using True register_code.branches_then [OF c jlt jgt] by simp
    next
      case False
      have "jump_taken w if_true if_null = (\<not> (case map_option Not t1 of Some t \<Rightarrow> t | None \<Rightarrow> \<not> if_null)
          \<and> (case t2 of Some t \<Rightarrow> t | None \<Rightarrow> if_null))"
        using False by (cases t1; cases t2; cases if_true; cases if_null) (auto simp: w jump_taken_def and3_table)
      then show ?thesis using False register_code.branches_around [OF c jlt jle] by simp
    qed
  qed
  have "branches env lo rely (bind_op (fresh (compile_expr cx e)) (\<lambda>r. bind_op (fresh (compile_expr cx low)) (\<lambda>x1.
      bind_op (fresh (compile_expr cx high)) (?tail r x1)))) l (jump_taken w if_true if_null)"
    using ge
  proof (rule branches_fresh)
    show "extends (bind_op (fresh (compile_expr cx low)) (\<lambda>x1. bind_op (fresh (compile_expr cx high)) (?tail r x1)))" for r
      using extends_fresh [OF gx] extends_fresh [OF gy] ext by (intro extends_bind)
    fix r assume r: "lo \<le> r"
    have "gives env (r + 1) (and_reg rely r v) (compile_expr cx low) x" using gx r lo_pos by (intro gives_protect) auto
    then show "branches env (r + 1) (and_reg rely r v) (bind_op (fresh (compile_expr cx low)) (\<lambda>x1.
        bind_op (fresh (compile_expr cx high)) (?tail r x1))) l (jump_taken w if_true if_null)"
    proof (rule register_code.branches_fresh [OF protected [OF r]])
      show "extends (bind_op (fresh (compile_expr cx high)) (?tail r x1))" for x1
        using extends_fresh [OF gy] ext by (intro extends_bind)
      fix x1 assume x1: "r + 1 \<le> x1"
      have "gives env (x1 + 1) (and_reg (and_reg rely r v) x1 x) (compile_expr cx high) y"
        using gives_protect [OF gives_protect [OF gy r]] x1 r lo_pos by simp
      then show "branches env (x1 + 1) (and_reg (and_reg rely r v) x1 x) (bind_op (fresh (compile_expr cx high)) (?tail r x1)) l
          (jump_taken w if_true if_null)"
        using ext tail [OF r x1] by (intro register_code.branches_fresh [OF register_code.protected [OF protected [OF r] x1]])
    qed
  qed
  moreover have "between_affinity cx e low high = aff"
    using assms(8) by (cases aff) (auto simp: between_affinity_def aff_def)
  ultimately show ?thesis by (simp add: jump_between_def emitted Let_def cong: if_cong)
qed

lemma logic_branches:
  assumes "op = B_And \<or> op = B_Or" and "v = bool3_to_value ((if op = B_And then and3 else or3) (truth x) (truth y))"
    and "\<And>l t n. branches env lo rely (compile_jump cx left l t n) l (jump_taken x t n)"
    and "\<And>l t n. branches env lo rely (compile_jump cx right l t n) l (jump_taken y t n)"
  shows "branches env lo rely (compile_jump cx (E_Binary op left right) l if_true if_null) l (jump_taken v if_true if_null)"
proof (cases "(op = B_And) = if_true")
  case True
  have "jump_taken v if_true if_null = (\<not> jump_taken x (\<not> if_true) (\<not> if_null) \<and> jump_taken y if_true if_null)"
    using assms(1,2) True by (cases "truth x"; cases "truth y"; cases if_null) (auto simp: jump_taken_def and3_table or3_table)
  moreover have "branches env lo rely (bind_op new_label (\<lambda>d. then_op (compile_jump cx left d (\<not> if_true) (\<not> if_null))
      (then_op (compile_jump cx right l if_true if_null) (resolve d)))) l (\<not> jump_taken x (\<not> if_true) (\<not> if_null) \<and> jump_taken y if_true if_null)"
    by (rule branches_around [OF assms(3,4)])
  ultimately show ?thesis using assms(1) True by simp
next
  case False
  have "jump_taken v if_true if_null = (jump_taken x if_true if_null \<or> jump_taken y if_true if_null)"
    using assms(1,2) False by (cases "truth x"; cases "truth y"; cases if_null) (auto simp: jump_taken_def and3_table or3_table)
  moreover have "branches env lo rely (then_op (compile_jump cx left l if_true if_null) (compile_jump cx right l if_true if_null)) l
      (jump_taken x if_true if_null \<or> jump_taken y if_true if_null)"
    by (rule branches_then [OF assms(3,4)])
  ultimately show ?thesis using assms(1) False by auto
qed

theorem condition_branches:
  "condition known cx e \<Longrightarrow> eval (pure_call env rc) col cx e = Inr v \<Longrightarrow>
     branches env lo rely (compile_jump cx e l if_true if_null) l (jump_taken v if_true if_null)"
proof (induction e arbitrary: v l if_true if_null)
  case (E_Binary op left right)
  obtain x y where e: "eval (pure_call env rc) col cx left = Inr x" "eval (pure_call env rc) col cx right = Inr y"
      "binary_value (pure_call env rc) cx op left right x y = Inr v"
    using E_Binary.prems(2) by (auto simp: and_then_def split: sum.splits)
  consider (logic) "op = B_And \<or> op = B_Or" | (cmp) c n where "op \<noteq> B_And" "op \<noteq> B_Or" "cmp_opcode op = Some (c, n)"
    | (other) "op \<noteq> B_And" "op \<noteq> B_Or" "cmp_opcode op = None"
    by (cases "cmp_opcode op") auto
  then show ?case
  proof cases
    case logic
    then have "v = bool3_to_value ((if op = B_And then and3 else or3) (truth x) (truth y))"
      using e(3) by (auto simp: binary_value_def)
    then show ?thesis using logic E_Binary e(1,2) by (intro logic_branches) auto
  next
    case cmp
    have "arith_opcode op = None" using cmp(3) by (cases op) simp_all
    then obtain t3 where "compare_exprs cx c n left right x y = Inr t3" "v = bool3_to_value t3"
      using e(3) cmp by (auto simp: binary_value_def and_then_def split: sum.splits)
    then show ?thesis using jump_comparison_branches [OF _ _ e(1,2)] E_Binary.prems(1) cmp by simp
  next
    case other
    then show ?thesis using E_Binary.prems by (auto intro: jump_value_branches)
  qed
next
  case (E_Unary op e)
  show ?case
  proof (cases "op = U_Not")
    case True
    obtain x where x: "eval (pure_call env rc) col cx e = Inr x" "v = bool3_to_value (map_option Not (truth x))"
      using E_Unary.prems(2) True by (auto simp: and_then_def unary_value_def split: sum.splits)
    have "jump_taken v if_true if_null = jump_taken x (\<not> if_true) if_null"
      by (cases "truth x") (auto simp: x(2) jump_taken_def)
    then show ?thesis using E_Unary.IH [OF _ x(1)] E_Unary.prems(1) True by simp
  next
    case False
    then have "compile_jump cx (E_Unary op e) l if_true if_null = jump_value cx (E_Unary op e) l if_true if_null"
      by (cases op) simp_all
    then show ?thesis using jump_value_branches E_Unary.prems False by simp
  qed
next
  case (E_Between e low high negated)
  then show ?case by (auto simp: and_then_def split: sum.splits intro!: between_branches)
qed (auto intro: jump_value_branches)

end

end
