(* ===== verification/Codegen_Extends.thy ===== *)
theory Codegen_Extends
  imports Codegen_Correct
begin

text \<open>
  Code generation for expressions and conditions only extends the builder, whatever the values are.
\<close>

named_theorems extends_intros \<open>code that extends the builder\<close>

declare extends_bind [extends_intros] extends_then [extends_intros]

lemma extends_basic [extends_intros]:
  "extends (ret_op u)" "extends (fail_op e)" "extends (lift_op r)" "extends alloc_reg" "extends (alloc_regs n)"
  "extends (emit_op op p1 p2 p3)" "extends (emit_p4 op p1 p2 p3 x)" "extends (emit_call name start target k)"
  "extends (jump_p5 op p1 l p3 p5)" "extends (goto l)" "extends (emit_inst inst)" "extends (emit_branch inst l)"
  using alloc_reg_grows alloc_regs_grows by (auto simp: extends_def emitted emit_inst_def emit_branch_def)

lemma extends_fresh_code [extends_intros]: "(\<And>t. extends (c t)) \<Longrightarrow> extends (fresh c)"
  unfolding fresh_def by (intro extends_intros)

lemma extends_each [extends_intros]: "(\<And>x. x \<in> set xs \<Longrightarrow> extends (f x)) \<Longrightarrow> extends (each_op f xs)"
proof (induction xs)
  case Nil
  then show ?case by (simp add: extends_def)
next
  case (Cons x xs)
  have "each_op f (x # xs) = bind_op (f x) (\<lambda>_. each_op f xs)" by (rule ext) simp
  then show ?case using Cons by (auto intro: extends_bind)
qed

lemma extends_label [extends_intros]:
  assumes "\<And>d. extends (m d)"
  shows "extends (bind_op new_label (\<lambda>d. then_op (m d) (resolve d)))"
    "(\<And>d. extends (m' d)) \<Longrightarrow> extends (bind_op new_label (\<lambda>d. then_op (m d) (then_op (m' d) (resolve d))))"
  using extends_around [of m] extends_around [of "\<lambda>d. then_op (m d) (m' d)"] assms
  by (simp_all add: extends_then then_op_assoc)

lemma extends_literal [extends_intros]: "extends (compile_literal lit t)"
  by (cases lit) (auto intro: extends_intros)

lemma extends_outer [extends_intros]: "extends (emit_outer_column ot cr t)"
  by (cases cr) (auto simp: realify_def intro!: extends_intros)

lemma extends_column [extends_intros]: "extends (compile_column cx q name t)"
proof -
  have ref: "extends (compile_ref cx' cr t)" for cx' cr
    by (cases cr) (auto simp: realify_def Let_def split: option.split intro!: extends_intros)
  have "extends (column_in_outer cx' q name t)" for cx'
    by (auto simp: column_in_outer_def split: option.split prod.split intro!: extends_intros)
  then have "extends (compile_local cx' q name t)" for cx'
    using ref by (auto simp: compile_local_def values_column_def Let_def split: option.split intro!: extends_intros)
  then show ?thesis by (auto simp: compile_column_def split: option.split intro!: extends_intros)
qed

lemma extends_unary: "(\<And>t. extends (ce t)) \<Longrightarrow> extends (compile_unary op e ce t)"
  by (auto simp: compile_unary_def split: unop.split option.split intro!: extends_intros)

lemma extends_call2: "(\<And>t. extends (c1 t)) \<Longrightarrow> (\<And>t. extends (c2 t)) \<Longrightarrow> extends (call2 name c1 c2 t)"
  unfolding call2_def by (intro extends_intros)

lemma extends_binary: "(\<And>t. extends (cl t)) \<Longrightarrow> (\<And>t. extends (cr t)) \<Longrightarrow> extends (compile_binary cx op l r cl cr t)"
  by (auto simp: compile_binary_def compile_comparison_def compile_json_arrow_def emitted Let_def extends_call2
      split: option.split prod.split intro!: extends_intros extends_call2)

lemma extends_compile: "supported known e \<Longrightarrow> extends (compile_expr cx e t)"
proof (induction e arbitrary: t)
  case (E_Unary op e)
  then show ?case by (auto intro: extends_unary)
next
  case (E_Binary op l r)
  then show ?case by (auto intro: extends_binary)
next
  case (E_Function name d opt_args)
  then obtain args where a: "opt_args = Some args" by (cases opt_args) auto
  have "extends (compile_expr cx e t)" if "e \<in> set args" for e t
    using E_Function.IH [of args e] E_Function.prems that by (auto simp: a list_all_iff)
  then show ?case by (auto simp: a compile_call_def in_set_enumerate_eq intro!: extends_intros)
next
  case (E_Coalesce2 l r)
  then have "extends (compile_expr cx l t)" "extends (compile_expr cx r t)" by simp_all
  then show ?case by (auto simp: compile_coalesce2_def intro!: extends_intros)
qed (auto intro: extends_intros)

lemma extends_jump_value: "supported known e \<Longrightarrow> extends (jump_value cx e l if_true if_null)"
  unfolding jump_value_def by (intro extends_intros extends_compile)

lemma extends_condition: "condition known cx e \<Longrightarrow> extends (compile_jump cx e l if_true if_null)"
proof (induction e arbitrary: l if_true if_null)
  case (E_Binary op left right)
  have j: "extends (jump_comparison cx c n left right l if_true if_null)" if "supported known left" "supported known right" for c n
    unfolding jump_comparison_def emitted using that by (intro extends_intros extends_compile)
  show ?case using E_Binary j extends_jump_value [of known "E_Binary op left right"]
    by (auto split: option.split intro!: extends_intros)
next
  case (E_Unary op e)
  show ?case using E_Unary extends_jump_value [of known "E_Unary op e"] by (cases op) auto
next
  case (E_Between e low high negated)
  then show ?case by (auto simp: jump_between_def Let_def intro!: extends_intros extends_compile)
qed (auto intro: extends_jump_value)

end
