(* ===== verification/Codegen_Select.thy ===== *)
theory Codegen_Select
  imports Codegen_Extends
begin

text \<open>
  Code for a \<open>SELECT\<close> over one table, or over none (\<open>codegen/select.rs\<close>): the scan loop with \<open>WHERE\<close>,
  \<open>DISTINCT\<close>, \<open>LIMIT\<close> and \<open>OFFSET\<close>, the scan through a sorter for \<open>ORDER BY\<close>, and constant selects. The
  output columns come with their names; queries here have no subquery resolver and no enclosing query.
\<close>

record ordering_term =
  ot_expr :: expr
  ot_desc :: bool

record select_stmt =
  ss_distinct :: bool
  ss_where :: "expr option"
  ss_order_by :: "ordering_term list"
  ss_limit :: "expr option"
  ss_offset :: "expr option"

fun const_int :: "expr \<Rightarrow> i64 option result" where
  "const_int (E_Literal (Lit_Integer n)) = Inr (Some n)"
| "const_int (E_Unary U_Negate e) =
     and_then (const_int e) (\<lambda>r. case r of
        Some n \<Rightarrow> (case checked_i64 (- sint n) of Some k \<Rightarrow> Inr (Some k) | None \<Rightarrow> Inl Panic)
      | None \<Rightarrow> Inr None)"
| "const_int (E_Unary U_Positive e) = const_int e"
| "const_int _ = Inr None"

definition eval_limit_offset :: "select_stmt \<Rightarrow> (i64 option \<times> i64) result" where
  "eval_limit_offset sel =
     and_then (case ss_limit sel of
         None \<Rightarrow> Inr None
       | Some e \<Rightarrow> and_then (const_int e) (\<lambda>r. case r of
            None \<Rightarrow> Inl (error_msg ''only integer-literal LIMIT is supported in M3a'')
          | Some n \<Rightarrow> Inr (if 0 \<le> sint n then Some n else None))) (\<lambda>lim.
     and_then (case ss_offset sel of
         None \<Rightarrow> Inr 0
       | Some e \<Rightarrow> and_then (const_int e) (\<lambda>r. case r of
            None \<Rightarrow> Inl (error_msg ''only integer-literal OFFSET is supported in M3a'')
          | Some n \<Rightarrow> Inr (if 0 \<le> sint n then n else 0))) (\<lambda>off. Inr (lim, off)))"

definition resolve_order_term :: "ordering_term \<Rightarrow> (expr \<times> bytes) list \<Rightarrow> expr result" where
  "resolve_order_term t outputs =
     (case ot_expr t of
        E_Literal (Lit_Integer n) \<Rightarrow>
          if 1 \<le> sint n \<and> sint n \<le> int (length outputs) then Inr (fst (outputs ! nat (sint n - 1)))
          else Inl (error_msg (''ORDER BY term out of range - should be between 1 and '' @ dec (length outputs)))
      | E_Column None name \<Rightarrow>
          (case find (\<lambda>(_, n). eq_ignore_ascii_case n name) outputs of Some (e, _) \<Rightarrow> Inr e | None \<Rightarrow> Inr (ot_expr t))
      | e \<Rightarrow> Inr e)"

definition emit_int :: "i64 \<Rightarrow> int code_op" where
  "emit_int n =
     bind_op alloc_reg (\<lambda>r. then_op
       (if - (2 ^ 31) \<le> sint n \<and> sint n < 2 ^ 31 then emit_op (Load Op_Integer) (sint n) r 0
        else emit_p4 (Load Op_Int64) 0 r 0 (P4_Int n)) (ret_op r))"

definition jump_where :: "select_stmt \<Rightarrow> ctx \<Rightarrow> label \<Rightarrow> unit code_op" where
  "jump_where sel cx l = (case ss_where sel of Some w \<Rightarrow> compile_jump cx w l False True | None \<Rightarrow> ret_op ())"

definition project :: "ctx \<Rightarrow> expr list \<Rightarrow> int \<Rightarrow> unit code_op" where
  "project cx es start = each_op (\<lambda>(j, c). c (start + int j)) (enumerate 0 (map (compile_expr cx) es))"

section \<open>The unordered scan\<close>

definition open_distinct :: "bool \<Rightarrow> int \<Rightarrow> unit code_op" where
  "open_distinct d ncol =
     (if d then then_op (emit_p4 (Buffer Op_OpenEphemeral) 2 ncol 0 (P4_KeyInfo [])) (note_cursor 2) else ret_op ())"

definition skip_duplicate :: "bool \<Rightarrow> int \<Rightarrow> int \<Rightarrow> label \<Rightarrow> unit code_op" where
  "skip_duplicate d result_reg ncol next_label =
     (if d
      then bind_op (emit_jump (Probe Op_Found) 2 next_label result_reg) (\<lambda>found. then_op (set_p4 found (P4_Int (of_int ncol)))
            (bind_op alloc_reg (\<lambda>rec. then_op (emit_op (Write Op_MakeRecord) result_reg ncol rec)
               (emit_op (Write Op_IdxInsert) 2 rec 0))))
      else ret_op ())"

definition skip_offset :: "int option \<Rightarrow> label \<Rightarrow> unit code_op" where
  "skip_offset offset_reg next_label =
     (case offset_reg of Some r \<Rightarrow> jump_p5 (Agg Op_IfPos) r next_label 1 0 | None \<Rightarrow> ret_op ())"

definition stop_at_limit :: "int option \<Rightarrow> label \<Rightarrow> unit code_op" where
  "stop_at_limit limit_reg end_label =
     (case limit_reg of Some r \<Rightarrow> jump_p5 (Agg Op_DecrJumpZero) r end_label 0 0 | None \<Rightarrow> ret_op ())"

definition compile_scan_unordered :: "select_stmt \<Rightarrow> ctx \<Rightarrow> expr list \<Rightarrow> int option \<Rightarrow> int option \<Rightarrow> unit code_op" where
  "compile_scan_unordered sel cx es limit_reg offset_reg =
     (let ncol = int (length es); cursor = cx_cursor cx in
      then_op (open_distinct (ss_distinct sel) ncol)
      (bind_op new_label (\<lambda>end_label.
       then_op (jump_p5 (Cursor Op_Rewind) cursor end_label 0 0)
      (bind_op (get_op cur_addr) (\<lambda>loop_top.
       bind_op new_label (\<lambda>next_label.
       then_op (jump_where sel cx next_label)
      (bind_op (alloc_regs ncol) (\<lambda>result_reg.
       then_op (project cx es result_reg)
      (then_op (skip_duplicate (ss_distinct sel) result_reg ncol next_label)
      (then_op (skip_offset offset_reg next_label)
      (then_op (emit_op (Cursor Op_ResultRow) result_reg ncol 0)
      (then_op (stop_at_limit limit_reg end_label)
      (then_op (resolve next_label)
      (then_op (emit_op (Cursor Op_Next) cursor loop_top 0)
      (then_op (resolve end_label)
               (emit_op (Control Op_Halt) 0 0 0))))))))))))))))"

section \<open>The scan through a sorter\<close>

definition order_key :: "ctx \<Rightarrow> (expr \<times> bytes) list \<Rightarrow> ordering_term \<Rightarrow> key_field" where
  "order_key cx outputs t =
     \<lparr>desc = ot_desc t,
      key_collation = (case resolve_order_term t outputs of
          Inr e \<Rightarrow> (case expr_collation cx e of Some c \<Rightarrow> c | None \<Rightarrow> Binary)
        | Inl _ \<Rightarrow> Binary)\<rparr>"

definition project_keys :: "ctx \<Rightarrow> (expr \<times> bytes) list \<Rightarrow> ordering_term list \<Rightarrow> int \<Rightarrow> unit code_op" where
  "project_keys cx outputs order start =
     each_op (\<lambda>(k, t). bind_op (lift_op (resolve_order_term t outputs)) (\<lambda>e. compile_expr cx e (start + int k))) (enumerate 0 order)"

definition compile_scan_ordered :: "select_stmt \<Rightarrow> ctx \<Rightarrow> (expr \<times> bytes) list \<Rightarrow> int option \<Rightarrow> int option \<Rightarrow> unit code_op" where
  "compile_scan_ordered sel cx outputs limit_reg offset_reg =
     (let ncol = int (length outputs); cursor = cx_cursor cx; order = ss_order_by sel; nkey = int (length order) in
      then_op (emit_p4 (Buffer Op_SorterOpen) 1 (nkey + ncol) 0 (P4_KeyInfo (map (order_key cx outputs) order)))
      (then_op (note_cursor 1)
      (bind_op new_label (\<lambda>end_scan.
       then_op (jump_p5 (Cursor Op_Rewind) cursor end_scan 0 0)
      (bind_op (get_op cur_addr) (\<lambda>scan_top.
       bind_op new_label (\<lambda>scan_next.
       then_op (jump_where sel cx scan_next)
      (bind_op (alloc_regs (nkey + ncol)) (\<lambda>block.
       then_op (project_keys cx outputs order block)
      (then_op (project cx (map fst outputs) (block + nkey))
      (bind_op alloc_reg (\<lambda>rec.
       then_op (emit_op (Write Op_MakeRecord) block (nkey + ncol) rec)
      (then_op (emit_op (Buffer Op_SorterInsert) 1 rec 0)
      (then_op (resolve scan_next)
      (then_op (emit_op (Cursor Op_Next) cursor scan_top 0)
      (then_op (resolve end_scan)
      (bind_op new_label (\<lambda>end_out.
       then_op (jump_p5 (Buffer Op_SorterSort) 1 end_out 0 0)
      (bind_op (get_op cur_addr) (\<lambda>out_top.
       bind_op new_label (\<lambda>sort_next.
       then_op (emit_op (Buffer Op_SorterData) 1 0 0)
      (then_op (skip_offset offset_reg sort_next)
      (bind_op (alloc_regs ncol) (\<lambda>result_reg.
       then_op (each_op (\<lambda>j. emit_op (Cursor Op_Column) 1 (nkey + j) (result_reg + j)) [0..ncol - 1])
      (then_op (emit_op (Cursor Op_ResultRow) result_reg ncol 0)
      (then_op (stop_at_limit limit_reg end_out)
      (then_op (resolve sort_next)
      (then_op (emit_op (Buffer Op_SorterNext) 1 out_top 0)
      (then_op (resolve end_out)
               (emit_op (Control Op_Halt) 0 0 0))))))))))))))))))))))))))))))"

section \<open>Whole programs\<close>

definition table_ctx :: "table_def \<Rightarrow> int \<Rightarrow> ctx" where
  "table_ctx t cursor =
     \<lparr>cx_table = t, cx_cursor = cursor, cx_register_base = None, cx_index_read = None, cx_join_tables = None, cx_outer = []\<rparr>"

definition empty_table :: table_def where
  "empty_table =
     \<lparr>td_name = [], td_rootpage = 0, td_columns = [], td_rowid_alias = None, td_without_rowid = False, td_pk_columns = []\<rparr>"

definition finish_op :: "program code_op" where
  "finish_op b = (b, finish b)"

definition open_table :: "table_def \<Rightarrow> int \<Rightarrow> unit code_op" where
  "open_table t cursor =
     bind_op (emit (Cursor Op_OpenRead) cursor (sint (ucast (td_rootpage t) :: 32 word)) 0) (\<lambda>op.
       then_op (note_cursor cursor)
         (if td_without_rowid t
          then bind_op (lift_op (without_rowid_key_info t)) (\<lambda>ki. set_p4 op (P4_KeyInfo ki))
          else set_p4 op (P4_Int (of_nat (length (td_columns t))))))"

definition counter_regs :: "i64 option \<Rightarrow> i64 \<Rightarrow> (int option \<times> int option) code_op" where
  "counter_regs limit offset =
     bind_op (case limit of Some n \<Rightarrow> if 0 < sint n then bind_op (emit_int n) (\<lambda>r. ret_op (Some r)) else ret_op None
                          | None \<Rightarrow> ret_op None) (\<lambda>limit_reg.
     bind_op (if 0 < sint offset then bind_op (emit_int offset) (\<lambda>r. ret_op (Some r)) else ret_op None) (\<lambda>offset_reg.
       ret_op (limit_reg, offset_reg)))"

definition compile_scan :: "select_stmt \<Rightarrow> table_def \<Rightarrow> (expr \<times> bytes) list \<Rightarrow> i64 option \<Rightarrow> i64 \<Rightarrow> program result" where
  "compile_scan sel t outputs limit offset =
     (let cx = table_ctx t 0 in
      snd (bind_op new_label (\<lambda>setup.
        then_op (jump_p5 (Control Op_Init) 0 setup 0 0)
       (bind_op (get_op cur_addr) (\<lambda>after_init.
        then_op
          (if limit = Some 0 then emit_op (Control Op_Halt) 0 0 0
           else bind_op (counter_regs limit offset) (\<lambda>(limit_reg, offset_reg).
                then_op (open_table t 0)
                 (if ss_order_by sel = [] then compile_scan_unordered sel cx (map fst outputs) limit_reg offset_reg
                  else compile_scan_ordered sel cx outputs limit_reg offset_reg)))
       (then_op (resolve setup)
       (then_op (emit_op (Txn Op_Transaction) 0 0 0)
       (then_op (emit_op (Control Op_Goto) 0 after_init 0)
                finish_op)))))) builder_new))"

definition compile_constant :: "select_stmt \<Rightarrow> expr list \<Rightarrow> i64 option \<Rightarrow> i64 \<Rightarrow> program result" where
  "compile_constant sel es limit offset =
     (let cx = table_ctx empty_table (- 1); ncol = int (length es) in
      snd (bind_op new_label (\<lambda>setup.
        then_op (jump_p5 (Control Op_Init) 0 setup 0 0)
       (bind_op (get_op cur_addr) (\<lambda>after_init.
        then_op
          (if limit = Some 0 \<or> 0 < sint offset then ret_op ()
           else bind_op new_label (\<lambda>end_label.
                then_op (jump_where sel cx end_label)
               (bind_op (alloc_regs ncol) (\<lambda>result_reg.
                then_op (project cx es result_reg)
               (then_op (emit_op (Cursor Op_ResultRow) result_reg ncol 0)
                        (resolve end_label))))))
       (then_op (emit_op (Control Op_Halt) 0 0 0)
       (then_op (resolve setup)
       (then_op (emit_op (Control Op_Goto) 0 after_init 0)
                finish_op)))))) builder_new))"

end
