(* ===== verification/Row_Sources.thy ===== *)
theory Row_Sources
  imports Codegen_Select Btree_Seek
begin

text \<open>
  Where the columns of an expression come from: the current row of a table cursor, a block of
  registers, or nowhere (a constant query). Each is an interpretation of \<open>row_source\<close>.
\<close>

context register_code
begin

lemma gives_step:
  assumes "\<And>t. extends (c t)" and "\<And>t. c t = emit_inst (I t)"
    and "\<And>t vm. 0 \<le> t \<Longrightarrow> nat t < length (vm_regs vm) \<Longrightarrow> rely vm \<Longrightarrow> lo \<le> t \<Longrightarrow>
      \<exists>vm'. dispatch env (inst_opcode (I t)) (I t) vm = (vm', Inr Again) \<and> vm_pc vm' = vm_pc vm + 1 \<and> moved rely {t} vm vm'
        \<and> vm_regs vm' ! nat t = v"
  shows "gives env lo rely c v"
  unfolding gives_def
proof (intro allI impI conjI)
  fix t b b' insts L vm
  assume "c t b = (b', Inr ())"
  then have b': "b' = append_inst (I t) b" by (simp add: assms(2) emit_inst_def)
  show "grows b b'" by (simp add: b')
  assume l: "linked insts L b'" and r: "ready lo rely insts b b' vm" and t: "lo \<le> t" "t < bd_next_reg b"
  have n: "0 \<le> t" "nat t < length (vm_regs vm)" "rely vm" using r t lo_pos by (auto simp: ready_def b')
  obtain vm' where vm': "dispatch env (inst_opcode (I t)) (I t) vm = (vm', Inr Again)" "vm_pc vm' = vm_pc vm + 1"
      "moved rely {t} vm vm'" "vm_regs vm' ! nat t = v"
    using assms(3) [OF n t(1)] by blast
  have "get_opt insts (length (bd_insts b)) = Some (I t)" using l r by (intro linked_plain) (auto simp: b' ready_def)
  then have "turn env vm = (vm', Inr Again)" using vm'(1) r by (simp add: turn_def ready_def)
  then show "\<exists>vm'. runs env vm vm' \<and> vm_pc vm' = length (bd_insts b')
      \<and> moved rely ({t} \<union> {bd_next_reg b..<bd_next_reg b'}) vm vm' \<and> vm_regs vm' ! nat t = v"
    using vm' r by (intro exI [of _ vm']) (auto simp: b' ready_def intro: runs_turn)
qed

text \<open>An instruction that rewrites the target of the code before it.\<close>

lemma gives_then:
  assumes "gives env lo rely c v"
    and "\<And>t vm. 0 \<le> t \<Longrightarrow> nat t < length (vm_regs vm) \<Longrightarrow> vm_regs vm ! nat t = v \<Longrightarrow> stores env (I t) t w vm"
  shows "gives env lo rely (\<lambda>t. then_op (c t) (emit_inst (I t))) w"
  unfolding gives_def
proof (intro allI impI conjI)
  fix t b b' insts L vm
  assume "then_op (c t) (emit_inst (I t)) b = (b', Inr ())"
  then obtain b1 where b1: "c t b = (b1, Inr ())" and b': "b' = append_inst (I t) b1" by (auto simp: then_op_success emit_inst_def)
  have g1: "grows b b1" using assms(1) b1 by (rule gives_grows)
  have g2: "grows b1 b'" by (simp add: b')
  show "grows b b'" using g1 g2 by (rule grows_trans)
  assume l: "linked insts L b'" and r: "ready lo rely insts b b' vm" and t: "lo \<le> t" "t < bd_next_reg b"
  obtain vm1 where vm1: "runs env vm vm1" "vm_pc vm1 = length (bd_insts b1)"
      "moved rely ({t} \<union> {bd_next_reg b..<bd_next_reg b1}) vm vm1" "vm_regs vm1 ! nat t = v"
    using gives_runs [OF assms(1) b1 linked_mono [OF l g2] ready_cut [OF r g2] t] .
  have r1: "ready lo rely insts b1 b' vm1" using ready_next [OF r g1 g2 vm1(3,2)] .
  have n: "t < int (length (vm_regs vm1))" "0 \<le> t" "nat t < length (vm_regs vm1)"
    using r1 t lo_pos grows_regs [OF g1] by (auto simp: ready_def b')
  obtain vm2 where vm2: "runs env vm1 vm2" "vm_pc vm2 = length (bd_insts b')" "moved rely {t} vm1 vm2" "vm_regs vm2 ! nat t = w"
    using store_moves [OF l _ r1 t(1) n(1) assms(2) [OF n(2,3) vm1(4)]] by (auto simp: b')
  have "moved rely ({t} \<union> {bd_next_reg b..<bd_next_reg b'}) vm vm2"
    using vm1(3) vm2(3) by (rule moved_trans) (auto simp: b')
  then show "\<exists>vm'. runs env vm vm' \<and> vm_pc vm' = length (bd_insts b')
      \<and> moved rely ({t} \<union> {bd_next_reg b..<bd_next_reg b'}) vm vm' \<and> vm_regs vm' ! nat t = w"
    using runs_trans [OF vm1(1) vm2(1)] vm2(2,4) by blast
qed

end

definition real_value :: "sql_value \<Rightarrow> sql_value" where
  "real_value v = (case v of VInt i \<Rightarrow> VReal (f64_of_i64 i) | _ \<Rightarrow> v)"

lemma stores_real:
  assumes "0 \<le> t" and "nat t < length (vm_regs vm)" and "vm_regs vm ! nat t = v"
  shows "stores env (Instruction (Moves Op_RealAffinity) t 0 0 P4_None 0) t (real_value v) vm"
proof -
  have same: "(vm_regs vm)[nat t := v] = vm_regs vm" using assms(3) by (metis list_update_id)
  show ?thesis
  proof (cases v)
    case (VInt i)
    then show ?thesis using assms by (auto intro!: storesI simp: read_reg_ok real_value_def)
  qed (use assms same in \<open>auto simp: stores_def read_reg_ok advance_def real_value_def intro!: exI [of _ "vm_aggregates vm"]\<close>)
qed

section \<open>The current row of a table cursor\<close>

text \<open>The value of a column of a row with the rowid \<open>rowid\<close> and the stored values \<open>vals\<close>.\<close>

definition row_column :: "table_def \<Rightarrow> i64 \<Rightarrow> sql_value list \<Rightarrow> bytes option \<Rightarrow> bytes \<Rightarrow> sql_value" where
  "row_column t rowid vals q name =
     (case resolve_column t name of
        Some Ref_Rowid \<Rightarrow> VInt rowid
      | Some (Ref_Index i) \<Rightarrow>
          (if cd_affinity (td_columns t ! i) = Aff_Real then real_value (field vals i) else field vals i)
      | None \<Rightarrow> VNull)"

definition table_row :: "vm_env \<Rightarrow> runtime_ctx \<Rightarrow> table_def \<Rightarrow> i64 \<times> bytes \<Rightarrow> sql_value list \<Rightarrow> (i64 \<times> bytes) list \<Rightarrow> vdbe \<Rightarrow> bool" where
  "table_row env rc t row vals rest vm \<longleftrightarrow>
     td_columns t \<noteq> [] \<and> \<not> td_without_rowid t \<and> vm_ctx vm = rc \<and> decode_record (snd row) (vm_encoding vm) = Inr vals
     \<and> (\<exists>c p. slot 0 vm = Some (Cur_Table c) \<and> vm_pager vm = Some p \<and> cursor_at (ve_depth env) (c, p) (row # rest))
     \<and> (case vm_decoded vm of None \<Rightarrow> True | Some (i, rid, vs) \<Rightarrow> i = 0 \<longrightarrow> rid = fst row \<longrightarrow> vs = vals)"

lemma cursor_reads:
  assumes "cursor_at d (c, p) (row # rest)"
  shows "\<not> tc_null_row c" "cursor_rowid c = Inr (fst row)"
    "\<exists>q. cursor_payload (c, p) = ((c, q), Inr (snd row)) \<and> cursor_at d (c, q) (row # rest)"
proof -
  show "\<not> tc_null_row c" using cursor_at_ConsD [OF assms] by blast
  obtain s' where s': "cursor_row (c, p) = (s', Inr row)" "cursor_at d s' (row # rest)" "fst s' = c"
    using cursor_row_ok [OF assms] by auto
  then show "cursor_rowid c = Inr (fst row)"
    by (cases "cursor_rowid c") (auto simp: cursor_row_def bind_op_def split: prod.splits sum.splits)
  then show "\<exists>q. cursor_payload (c, p) = ((c, q), Inr (snd row)) \<and> cursor_at d (c, q) (row # rest)"
    using s' by (cases s'; cases row) (auto simp: cursor_row_def bind_op_def split: prod.splits sum.splits)
qed

lemma slot_put: "slot p vm = Some c \<Longrightarrow> slot p (put_slot p c' vm) = Some c'"
  by (auto simp: slot_def put_slot_def get_opt_def split: option.splits if_splits)

lemma slot_other [simp]:
  "slot p (vm\<lparr>vm_pager := x\<rparr>) = slot p vm" "slot p (vm\<lparr>vm_decoded := d\<rparr>) = slot p vm" "slot p (vm\<lparr>vm_pc := i\<rparr>) = slot p vm"
  "slot p (vm\<lparr>vm_regs := rs\<rparr>) = slot p vm" "slot p (vm\<lparr>vm_aggregates := ag\<rparr>) = slot p vm"
  by (simp_all add: slot_def)

lemma put_slot_fields [simp]:
  "vm_pc (put_slot p c vm) = vm_pc vm" "vm_regs (put_slot p c vm) = vm_regs vm" "vm_pager (put_slot p c vm) = vm_pager vm"
  "vm_decoded (put_slot p c vm) = vm_decoded vm" "vm_ctx (put_slot p c vm) = vm_ctx vm" "vm_encoding (put_slot p c vm) = vm_encoding vm"
  by (simp_all add: put_slot_def)

lemma same_frame_put_slot [simp]: "same_frame vm (put_slot p c (vm\<lparr>vm_pager := x\<rparr>))"
  by (simp add: same_frame_def put_slot_def)

lemma column_reads:
  assumes "table_row env rc t row vals rest vm"
  shows "\<exists>vm'. column 0 i vm = (vm', Inr (field vals i)) \<and> same_frame vm vm' \<and> table_row env rc t row vals rest vm'
    \<and> vm_pc vm' = vm_pc vm \<and> vm_regs vm' = vm_regs vm"
proof -
  obtain c p where c: "slot 0 vm = Some (Cur_Table c)" "vm_pager vm = Some p" "cursor_at (ve_depth env) (c, p) (row # rest)"
    and d: "decode_record (snd row) (vm_encoding vm) = Inr vals"
    using assms by (auto simp: table_row_def)
  note r = cursor_reads [OF c(3)]
  show ?thesis
  proof (cases "cache_hit 0 (fst row) (vm_decoded vm)")
    case True
    then have "vm_decoded vm = Some (0, fst row, vals)" using assms by (auto simp: cache_hit_def table_row_def split: option.splits)
    then show ?thesis using assms c(1) r(1,2)
      by (intro exI [of _ vm]) (simp add: column_def table_column_def usize_of_def cache_hit_def)
  next
    case False
    obtain q where q: "cursor_payload (c, p) = ((c, q), Inr (snd row))" "cursor_at (ve_depth env) (c, q) (row # rest)" using r(3) by blast
    let ?vm1 = "put_slot 0 (Cur_Table c) (vm\<lparr>vm_pager := Some q\<rparr>)"
    let ?vm' = "?vm1\<lparr>vm_decoded := Some (0, fst row, vals)\<rparr>"
    have "with_table 0 cursor_payload vm = (?vm1, Inr (snd row))"
      using c(1,2) q(1) by (simp add: with_table_def table_cursor_of_def bind_op_def)
    then have "column 0 i vm = (?vm', Inr (field vals i))"
      using c(1) r(1,2) d False by (simp add: column_def table_column_def usize_of_def bind_op_def then_op_def)
    moreover have "slot 0 ?vm1 = Some (Cur_Table c)" using c(1) by (simp add: slot_put [of 0 _ "Cur_Table c"])
    then have "table_row env rc t row vals rest ?vm'" using assms q(2) by (simp add: table_row_def)
    moreover have "same_frame vm ?vm'" using same_frame_put_slot [of vm 0 "Cur_Table c" "Some q"] by (simp add: same_frame_def)
    ultimately show ?thesis by (intro exI [of _ ?vm']) simp
  qed
qed

lemma gives_column:
  "register_code 0 (table_row env rc t row vals rest) \<Longrightarrow>
   gives env 0 (table_row env rc t row vals rest) (\<lambda>r. emit_op (Cursor Op_Column) 0 (int i) r) (field vals i)"
proof (rule register_code.gives_step [where I = "\<lambda>r. Instruction (Cursor Op_Column) 0 (int i) r P4_None 0"])
  fix r vm
  assume r: "0 \<le> r" "nat r < length (vm_regs vm)" "table_row env rc t row vals rest vm"
  obtain vm1 where vm1: "column 0 i vm = (vm1, Inr (field vals i))" "same_frame vm vm1" "table_row env rc t row vals rest vm1"
      "vm_pc vm1 = vm_pc vm" "vm_regs vm1 = vm_regs vm"
    using column_reads [OF r(3)] by blast
  let ?vm' = "vm1\<lparr>vm_pc := vm_pc vm + 1, vm_regs := (vm_regs vm)[nat r := field vals i]\<rparr>"
  have "dispatch env (Cursor Op_Column) (Instruction (Cursor Op_Column) 0 (int i) r P4_None 0) vm = (?vm', Inr Again)"
    using vm1 r by (simp add: do_Column_def usize_of_def bind_op_def store_reg_def write_reg_def write_reg_at_def then_op_def advance_def)
  moreover have "moved (table_row env rc t row vals rest) {r} vm ?vm'"
    using vm1(2,3) r by (auto simp: moved_def same_frame_def table_row_def nth_list_update)
  ultimately show "\<exists>vm'. dispatch env (inst_opcode (Instruction (Cursor Op_Column) 0 (int i) r P4_None 0))
        (Instruction (Cursor Op_Column) 0 (int i) r P4_None 0) vm = (vm', Inr Again) \<and> vm_pc vm' = vm_pc vm + 1
      \<and> moved (table_row env rc t row vals rest) {r} vm vm' \<and> vm_regs vm' ! nat r = field vals i"
    using r by (intro exI [of _ ?vm']) simp
qed (auto simp: emitted intro: extends_intros)

interpretation table_source: row_source env 0 "table_row env rc t row vals rest" "table_ctx t 0" rc "\<lambda>_ _. True"
    "row_column t (fst row) vals" for env rc t row vals rest
proof -
  let ?rely = "table_row env rc t row vals rest"
  have rc: "register_code 0 ?rely" by unfold_locales (auto simp: table_row_def)
  have "gives env 0 ?rely (compile_column (table_ctx t 0) q name) (row_column t (fst row) vals q name)" for q name
  proof (cases "td_columns t = [] \<or> td_without_rowid t \<or> resolve_column t name = None")
    case True
    have "extends (compile_column (table_ctx t 0) q name r)" for r by (rule extends_column)
    moreover have "td_columns t \<noteq> [] \<Longrightarrow> resolve_column t name = None \<Longrightarrow> compile_column (table_ctx t 0) q name r b \<noteq> (b', Inr ())" for r b b'
      by (simp add: compile_column_def table_ctx_def compile_local_def column_in_outer_def)
    ultimately show ?thesis using True by (auto simp: gives_def extends_def ready_def table_row_def)
  next
    case False
    then obtain cr where cr: "resolve_column t name = Some cr" and t: "td_columns t \<noteq> []" "\<not> td_without_rowid t" by auto
    show ?thesis
    proof (cases cr)
      case Ref_Rowid
      have "gives env 0 ?rely (\<lambda>r. emit_inst (Instruction (Cursor Op_Rowid) 0 r 0 P4_None 0)) (VInt (fst row))"
      proof (rule register_code.gives_step [OF rc])
        fix r vm
        assume r: "0 \<le> r" "nat r < length (vm_regs vm)" "?rely vm"
        let ?vm' = "vm\<lparr>vm_pc := vm_pc vm + 1, vm_regs := (vm_regs vm)[nat r := VInt (fst row)]\<rparr>"
        obtain c p where "slot 0 vm = Some (Cur_Table c)" "cursor_at (ve_depth env) (c, p) (row # rest)"
          using r(3) by (auto simp: table_row_def)
        then have "do_Rowid (Instruction (Cursor Op_Rowid) 0 r 0 P4_None 0) vm = (?vm', Inr Again)"
          using cursor_reads(2) r(1,2)
          by (simp add: do_Rowid_def store_reg_def write_reg_def write_reg_at_def usize_of_def then_op_def advance_def bind_op_def)
        moreover have "moved ?rely {r} vm ?vm'" using r by (auto simp: moved_def same_frame_def table_row_def nth_list_update)
        ultimately show "\<exists>vm'. dispatch env (inst_opcode (Instruction (Cursor Op_Rowid) 0 r 0 P4_None 0))
            (Instruction (Cursor Op_Rowid) 0 r 0 P4_None 0) vm = (vm', Inr Again) \<and> vm_pc vm' = vm_pc vm + 1
            \<and> moved ?rely {r} vm vm' \<and> vm_regs vm' ! nat r = VInt (fst row)"
          using r by (intro exI [of _ ?vm']) simp
      qed (simp_all add: extends_intros)
      moreover have "row_column t (fst row) vals q name = VInt (fst row)" by (simp add: row_column_def cr Ref_Rowid)
      ultimately show ?thesis
        using t cr Ref_Rowid by (auto simp: compile_column_def compile_local_def table_ctx_def emitted elim: gives_cong)
    next
      case (Ref_Index i)
      have c: "compile_column (table_ctx t 0) q name r = then_op (emit_op (Cursor Op_Column) 0 (int i) r) (realify t i r)" for r
        using t cr Ref_Index by (simp add: compile_column_def compile_local_def table_ctx_def storage_position_def)
      show ?thesis
      proof (cases "cd_affinity (td_columns t ! i) = Aff_Real")
        case True
        have "gives env 0 ?rely (\<lambda>r. then_op (emit_op (Cursor Op_Column) 0 (int i) r)
            (emit_inst (Instruction (Moves Op_RealAffinity) r 0 0 P4_None 0)))
            (real_value (field vals i))"
          by (rule register_code.gives_then [OF rc gives_column [OF rc] stores_real])
        then show ?thesis using True
          by (auto simp: c realify_def emitted row_column_def cr Ref_Index elim: gives_cong)
      next
        case False
        have "then_op (emit_op (Cursor Op_Column) 0 (int i) r) (ret_op ()) = emit_op (Cursor Op_Column) 0 (int i) r" for r
          by (rule ext) (simp add: emitted then_op_def bind_op_def emit_inst_def)
        then show ?thesis using False gives_column [OF rc, of i]
          by (auto simp: c realify_def row_column_def cr Ref_Index elim: gives_cong)
      qed
    qed
  qed
  then show "row_source env 0 ?rely (table_ctx t 0) rc (\<lambda>_ _. True) (row_column t (fst row) vals)"
    using rc by (intro row_source.intro row_source_axioms.intro) (auto simp: table_row_def)
qed

section \<open>No row at all\<close>

interpretation const_source: row_source env 0 "\<lambda>vm. vm_ctx vm = rc" cx rc "\<lambda>_ _. False" "\<lambda>_ _. VNull" for env rc cx
  by unfold_locales simp_all

end
