(* ===== verification/Query_Result.thy ===== *)
theory Query_Result
  imports Row_Sources
begin

text \<open>
  The rows a statement returns: the caller steps the machine until it is done and reads the result
  registers after each row. \<open>yields env vm rows\<close> says that this loop ends, without an error, after exactly
  the rows \<open>rows\<close>.
\<close>

definition result_row :: "vdbe \<Rightarrow> sql_value list" where
  "result_row vm = map (\<lambda>i. result_value i vm) [0..<vm_result_count vm]"

inductive yields :: "vm_env \<Rightarrow> vdbe \<Rightarrow> sql_value list list \<Rightarrow> bool" for env where
  yields_done: "vdbe_step n env vm = Some (vm', Inr Step_Done) \<Longrightarrow> yields env vm []"
| yields_row: "vdbe_step n env vm = Some (vm', Inr Step_Row) \<Longrightarrow> yields env vm' rs \<Longrightarrow> yields env vm (result_row vm' # rs)"

inductive_cases yieldsE: "yields env vm rs"

lemma run_loop_runs: "runs env vm vm' \<Longrightarrow> \<exists>k. \<forall>n. run_loop (k + n) env vm = run_loop n env vm'"
  unfolding runs_def
proof (induction rule: converse_rtranclp_induct)
  case base
  show ?case by (intro exI [of _ 0]) simp
next
  case (step a b)
  then obtain k where "\<forall>n. run_loop (k + n) env b = run_loop n env vm'" by blast
  then show ?case using step(1) by (intro exI [of _ "Suc k"]) simp
qed

lemma vdbe_step_runs:
  assumes "runs env vm vm'" and "\<not> vm_halted vm" and "\<not> vm_halted vm'"
  shows "\<exists>k. \<forall>n. vdbe_step (k + n) env vm = vdbe_step n env vm'"
proof -
  obtain k where "\<forall>n. run_loop (k + n) env vm = run_loop n env vm'" using run_loop_runs [OF assms(1)] by blast
  then show ?thesis using assms(2,3) by (intro exI [of _ k]) (simp add: vdbe_step_def step_inner_def)
qed

lemma yields_runs:
  assumes "runs env vm vm'" and "\<not> vm_halted vm" and "\<not> vm_halted vm'" and "yields env vm' rs"
  shows "yields env vm rs"
proof -
  obtain k where k: "\<forall>n. vdbe_step (k + n) env vm = vdbe_step n env vm'" using vdbe_step_runs [OF assms(1-3)] by blast
  show ?thesis using assms(4)
  proof (rule yieldsE)
    fix n vm1 assume "rs = []" "vdbe_step n env vm' = Some (vm1, Inr Step_Done)"
    then show ?thesis using yields_done [of "k + n" env vm vm1] k by simp
  next
    fix n vm1 rs' assume "rs = result_row vm1 # rs'" "vdbe_step n env vm' = Some (vm1, Inr Step_Row)" "yields env vm1 rs'"
    then show ?thesis using yields_row [of "k + n" env vm vm1 rs'] k by simp
  qed
qed

lemma yields_give_row:
  assumes "turn env vm = (vm', Inr (Give Step_Row))" and "\<not> vm_halted vm" and "yields env vm' rs" and "result_row vm' = r"
  shows "yields env vm (r # rs)"
proof -
  have "vdbe_step 1 env vm = Some (vm', Inr Step_Row)" using assms(1,2) by (simp add: vdbe_step_def step_inner_def)
  then show ?thesis using yields_row assms(3,4) by metis
qed

lemma yields_give_done: "turn env vm = (vm', Inr (Give Step_Done)) \<Longrightarrow> \<not> vm_halted vm \<Longrightarrow> yields env vm []"
  by (rule yields_done [of 1 _ _ vm']) (simp add: vdbe_step_def step_inner_def)

lemma turn_at: "get_opt (prog_instructions (vm_program vm)) (vm_pc vm) = Some inst \<Longrightarrow>
    turn env vm = dispatch env (inst_opcode inst) inst vm"
  by (simp add: turn_def)

text \<open>A query that has opened nothing but cursors.\<close>

definition reading :: "program \<Rightarrow> vdbe \<Rightarrow> bool" where
  "reading prog vm \<longleftrightarrow>
     vm_program vm = prog \<and> \<not> vm_halted vm \<and> vm_frames vm = [] \<and> \<not> vm_write_txn vm \<and> vm_stmt_savepoint vm = None"

lemma same_frame_reading: "same_frame vm vm' \<Longrightarrow> reading prog vm \<Longrightarrow> reading prog vm'"
  by (simp add: same_frame_def reading_def)

lemma halt_done:
  assumes "get_opt (prog_instructions prog) (vm_pc vm) = Some (Instruction (Control Op_Halt) 0 0 0 P4_None 0)" and "reading prog vm"
  shows "yields env vm []"
proof -
  have "turn env vm = (vm\<lparr>vm_halted := True\<rparr>, Inr (Give Step_Done))"
    using assms by (simp add: turn_def reading_def do_Halt_def halt_top_def halt_done_def release_stmt_savepoint_def)
  then show ?thesis using assms(2) by (intro yields_give_done) (simp_all add: reading_def)
qed

lemma result_row_regs:
  "start + n \<le> length (vm_regs vm) \<Longrightarrow>
   result_row (vm\<lparr>vm_result_start := start, vm_result_count := n, vm_pc := pc\<rparr>) = sub start (start + n) (vm_regs vm)"
  by (auto simp: result_row_def result_value_def field_def sub_def get_opt_def intro: nth_equalityI)

section \<open>The meaning of a query over one table\<close>

definition is_true :: "sql_value \<Rightarrow> bool" where
  "is_true v \<longleftrightarrow> truth v = Some True"

text \<open>What a row contributes: nothing when the condition is not true, otherwise the values of the outputs.\<close>

definition row_output :: "vm_env \<Rightarrow> runtime_ctx \<Rightarrow> text_encoding \<Rightarrow> table_def \<Rightarrow> select_stmt \<Rightarrow> expr list
    \<Rightarrow> i64 \<times> bytes \<Rightarrow> sql_value list list result" where
  "row_output env rc enc t sel es row =
     and_then (decode_record (snd row) enc) (\<lambda>vals.
       let ev = eval (pure_call env rc) (row_column t (fst row) vals) (table_ctx t 0) in
       and_then (case ss_where sel of None \<Rightarrow> Inr True | Some w \<Rightarrow> and_then (ev w) (\<lambda>v. Inr (is_true v))) (\<lambda>keep.
         if keep then and_then (all_ok (map ev es)) (\<lambda>vs. Inr [vs]) else Inr []))"

text \<open>\<open>LIMIT\<close> and \<open>OFFSET\<close>; no limit is \<open>None\<close>.\<close>

definition limited :: "nat option \<Rightarrow> nat \<Rightarrow> 'a list \<Rightarrow> 'a list" where
  "limited limit offset xs = (case limit of None \<Rightarrow> drop offset xs | Some n \<Rightarrow> take n (drop offset xs))"

lemma limited_Cons:
  "limited l (Suc k) (x # xs) = limited l k xs"
  "limited None 0 (x # xs) = x # limited None 0 xs"
  "limited (Some (Suc n)) 0 (x # xs) = x # limited (Some n) 0 xs"
  "limited (Some 0) k ys = []" "limited l k [] = []"
  by (simp_all add: limited_def split: option.split)

interpretation any_state: register_code env 0 "\<lambda>_. True" for env
  by unfold_locales simp_all

end
