(* ===== verification/Scan_Correct.thy ===== *)
theory Scan_Correct
  imports Query_Result
begin

text \<open>
  The scan loop of a query over one table computes the meaning of the query. \<open>scanning\<close> is the state of
  the machine at the top of the loop, with the rows still to come; \<open>scan_code\<close> is the code of the loop in
  the finished program. The proof follows one turn of the loop along the code, for a row that is
  skipped, a row that the offset drops, a row that is returned, and the last row of the limit.
\<close>

section \<open>The state of the loop\<close>

definition counter :: "int option \<Rightarrow> nat \<Rightarrow> sql_value list \<Rightarrow> bool" where
  "counter reg n regs \<longleftrightarrow>
     (case reg of None \<Rightarrow> True | Some r \<Rightarrow> 0 \<le> r \<and> nat r < length regs \<and> regs ! nat r = VInt (of_nat n) \<and> n < 2 ^ 63)"

definition counters :: "int option \<Rightarrow> int option \<Rightarrow> nat option \<Rightarrow> nat \<Rightarrow> sql_value list \<Rightarrow> bool" where
  "counters lreg oreg lim off regs \<longleftrightarrow>
     (case lim of None \<Rightarrow> lreg = None | Some n \<Rightarrow> 0 < n \<and> lreg \<noteq> None \<and> counter lreg n regs)
     \<and> (if oreg = None then off = 0 else counter oreg off regs)"

definition scanning :: "vm_env \<Rightarrow> program \<Rightarrow> runtime_ctx \<Rightarrow> text_encoding \<Rightarrow> (i64 \<times> bytes) list \<Rightarrow> vdbe \<Rightarrow> bool" where
  "scanning env prog rc enc rs vm \<longleftrightarrow>
     reading prog vm \<and> vm_ctx vm = rc \<and> vm_encoding vm = enc \<and> length (vm_regs vm) = num_regs prog
     \<and> (\<exists>c p. slot 0 vm = Some (Cur_Table c) \<and> vm_pager vm = Some p \<and> cursor_at (ve_depth env) (c, p) rs)"

lemma counter_moved:
  assumes "counter reg n (vm_regs vm)" and m: "moved rely W vm vm'" and "\<And>r. reg = Some r \<Longrightarrow> r \<notin> W"
  shows "counter reg n (vm_regs vm')"
proof (cases reg)
  case (Some r)
  have "0 \<le> r" "nat r < length (vm_regs vm)" "r \<notin> W" using assms(1,3) Some by (simp_all add: counter_def)
  then have "vm_regs vm' ! nat r = vm_regs vm ! nat r" by (rule moved_reg [OF m])
  moreover have "length (vm_regs vm') = length (vm_regs vm)" using m by (simp add: moved_def)
  ultimately show ?thesis using assms(1) Some by (simp add: counter_def)
qed (simp add: counter_def)

lemma counters_moved:
  assumes "counters lreg oreg lim off (vm_regs vm)" and m: "moved rely W vm vm'"
    and "\<And>r. lreg = Some r \<Longrightarrow> r \<notin> W" and "\<And>r. oreg = Some r \<Longrightarrow> r \<notin> W"
  shows "counters lreg oreg lim off (vm_regs vm')"
proof -
  have "counter lreg n (vm_regs vm')" if "counter lreg n (vm_regs vm)" for n using that m assms(3) by (rule counter_moved)
  moreover have "counter oreg n (vm_regs vm')" if "counter oreg n (vm_regs vm)" for n using that m assms(4) by (rule counter_moved)
  ultimately show ?thesis using assms(1) by (cases lim) (simp_all add: counters_def split: if_splits)
qed

section \<open>The code of the loop\<close>

definition halt_inst :: instruction where
  "halt_inst = Instruction (Control Op_Halt) 0 0 0 P4_None 0"

definition row_inst :: "int \<Rightarrow> int \<Rightarrow> instruction" where
  "row_inst start n = Instruction (Cursor Op_ResultRow) start n 0 P4_None 0"

definition next_inst :: "int \<Rightarrow> instruction" where
  "next_inst loop_pc = Instruction (Cursor Op_Next) 0 loop_pc 0 P4_None 0"

definition tail_code :: "program \<Rightarrow> (label \<Rightarrow> int) \<Rightarrow> label \<Rightarrow> label \<Rightarrow> nat \<Rightarrow> nat \<Rightarrow> bool" where
  "tail_code prog L nl el loop_pc at_next \<longleftrightarrow>
     L nl = int at_next \<and> L el = int at_next + 1 \<and> get_opt (prog_instructions prog) at_next = Some (next_inst (int loop_pc))
     \<and> get_opt (prog_instructions prog) (at_next + 1) = Some halt_inst"

lemma next_yields:
  assumes "tail_code prog L nl el loop_pc (vm_pc vm)" and "scanning env prog rc enc (row # rest) vm" and "counters lreg oreg lim off (vm_regs vm)"
    and "rest = [] \<Longrightarrow> X = []"
    and "\<And>vm'. rest \<noteq> [] \<Longrightarrow> scanning env prog rc enc rest vm' \<Longrightarrow> vm_decoded vm' = None \<Longrightarrow>
      counters lreg oreg lim off (vm_regs vm') \<Longrightarrow> vm_pc vm' = loop_pc \<Longrightarrow> yields env vm' X"
  shows "yields env vm X"
proof -
  obtain c p where c: "slot 0 vm = Some (Cur_Table c)" "vm_pager vm = Some p" "cursor_at (ve_depth env) (c, p) (row # rest)"
    using assms(2) by (auto simp: scanning_def)
  obtain c' q where n: "cursor_next (ve_depth env) (c, p) = ((c', q), Inr ())" "cursor_at (ve_depth env) (c', q) rest"
    using cursor_next_ok [OF c(3)] by auto
  have v: "cursor_is_valid c' \<longleftrightarrow> rest \<noteq> []" using cursor_at_valid [OF n(2)] by simp
  let ?vm1 = "put_slot 0 (Cur_Table c') (vm\<lparr>vm_pager := Some q\<rparr>)"
  let ?vm' = "?vm1\<lparr>vm_decoded := None, vm_pc := (if rest \<noteq> [] then loop_pc else vm_pc vm + 1)\<rparr>"
  have "with_table 0 (table_moved (cursor_next (ve_depth env))) vm = (?vm1, Inr (rest \<noteq> []))"
    using c(1,2) n(1) v by (simp add: with_table_def table_cursor_of_def table_moved_def bind_op_def then_op_def)
  then have "do_Next env (next_inst (int loop_pc)) vm = (?vm', Inr Again)"
    using c(1) by (simp add: do_Next_def next_inst_def cursor_mut_def ok_or_def bind_op_def then_op_def forget_decoded_def branch_def
        jump_to_def advance_def usize_of_def Let_def)
  then have run: "runs env vm ?vm'"
    using assms(1,2) by (intro runs_turn) (simp add: turn_at tail_code_def scanning_def reading_def next_inst_def)
  have "slot 0 ?vm1 = Some (Cur_Table c')" using c(1) by (simp add: slot_put [of 0 _ "Cur_Table c"])
  then have s: "scanning env prog rc enc rest ?vm'" using assms(2) n(2) by (simp add: scanning_def reading_def put_slot_def)
  have cs: "counters lreg oreg lim off (vm_regs ?vm')" using assms(3) by simp
  have "yields env ?vm' X"
  proof (cases "rest = []")
    case True
    then have "get_opt (prog_instructions prog) (vm_pc ?vm') = Some (Instruction (Control Op_Halt) 0 0 0 P4_None 0)"
      using assms(1) by (simp add: tail_code_def halt_inst_def)
    then show ?thesis using halt_done s assms(4) [OF True] by (simp add: scanning_def)
  next
    case False
    then show ?thesis using assms(5) s cs by simp
  qed
  then show ?thesis using yields_runs [OF run] assms(2) s by (simp add: scanning_def reading_def)
qed

section \<open>One turn of the loop\<close>

text \<open>The builders along the body of the loop, and what the finished program has at their ends.\<close>

definition body_code :: "select_stmt \<Rightarrow> ctx \<Rightarrow> expr list \<Rightarrow> int option \<Rightarrow> int option \<Rightarrow> label \<Rightarrow> label \<Rightarrow> int \<Rightarrow> builder list \<Rightarrow> bool" where
  "body_code sel cx es lreg oreg nl el rr bs \<longleftrightarrow>
     (\<exists>b2 b3 b4 b5 b6 b8. bs = [b2, b3, b4, b5, b6, b8]
        \<and> jump_where sel cx nl b2 = (b3, Inr ()) \<and> alloc_regs (int (length es)) b3 = (b4, Inr rr)
        \<and> project cx es rr b4 = (b5, Inr ()) \<and> skip_offset oreg nl b5 = (b6, Inr ())
        \<and> stop_at_limit lreg el (append_inst (row_inst rr (int (length es))) b6) = (b8, Inr ()))"

definition loop_code :: "program \<Rightarrow> (label \<Rightarrow> int) \<Rightarrow> select_stmt \<Rightarrow> ctx \<Rightarrow> expr list \<Rightarrow> int option \<Rightarrow> int option \<Rightarrow> label \<Rightarrow> label
    \<Rightarrow> int \<Rightarrow> builder list \<Rightarrow> bool" where
  "loop_code prog L sel cx es lreg oreg nl el rr bs \<longleftrightarrow>
     body_code sel cx es lreg oreg nl el rr bs \<and> tail_code prog L nl el (length (bd_insts (hd bs))) (length (bd_insts (last bs)))
     \<and> linked (prog_instructions prog) L (last bs) \<and> fixed (hd bs) \<and> bd_next_reg (last bs) \<le> int (num_regs prog)
     \<and> 0 \<le> bd_next_reg (hd bs)
     \<and> (\<forall>r. lreg = Some r \<or> oreg = Some r \<longrightarrow> r < bd_next_reg (hd bs)) \<and> (lreg = oreg \<longrightarrow> lreg = None)"

text \<open>The turns for the rest of the table return the rest of the result.\<close>

definition continues :: "vm_env \<Rightarrow> program \<Rightarrow> runtime_ctx \<Rightarrow> text_encoding \<Rightarrow> int option \<Rightarrow> int option \<Rightarrow> nat \<Rightarrow> (i64 \<times> bytes) list
    \<Rightarrow> sql_value list list \<Rightarrow> bool" where
  "continues env prog rc enc lreg oreg loop_pc rs X \<longleftrightarrow>
     (rs = [] \<longrightarrow> X = [])
     \<and> (\<forall>vm lim off. rs \<noteq> [] \<longrightarrow> scanning env prog rc enc rs vm \<longrightarrow> vm_decoded vm = None \<longrightarrow> counters lreg oreg lim off (vm_regs vm) \<longrightarrow>
          vm_pc vm = loop_pc \<longrightarrow> yields env vm (limited lim off X))"

lemma limited_Nil [simp]: "limited lim off [] = []"
  by (rule limited_Cons)

lemma continue_yields:
  assumes "continues env prog rc enc lreg oreg loop_pc rest X" and "tail_code prog L nl el loop_pc (vm_pc vm)"
    and "scanning env prog rc enc (row # rest) vm" and "counters lreg oreg lim off (vm_regs vm)"
  shows "yields env vm (limited lim off X)"
  using assms(2-4) by (rule next_yields) (use assms(1) in \<open>simp_all add: continues_def\<close>)

lemma scanning_regs:
  "scanning env prog rc enc rs vm \<Longrightarrow> length regs = length (vm_regs vm) \<Longrightarrow>
   scanning env prog rc enc rs (vm\<lparr>vm_regs := regs, vm_pc := pc\<rparr>)"
  by (simp add: scanning_def reading_def)

lemma scanning_pc: "scanning env prog rc enc rs vm \<Longrightarrow> scanning env prog rc enc rs (vm\<lparr>vm_pc := pc\<rparr>)"
  by (simp add: scanning_def reading_def)

lemma i64_less_one:
  assumes "0 < n" and "n < 2 ^ 63"
  shows "i64_sub (of_nat n) 1 = Inr (of_nat (n - 1))" and "0 < sint (of_nat n :: i64)" and "(of_nat (n - 1) :: i64) = 0 \<longleftrightarrow> n = 1"
proof -
  have s: "sint (of_nat k :: i64) = int k" if "k < 2 ^ 63" for k :: nat
    using that sint_of_int_i64 [of "int k"] by (simp add: in_i64_def)
  show "i64_sub (of_nat n) 1 = Inr (of_nat (n - 1))"
    using assms by (simp add: i64_sub_def s i64_checked_def checked_i64_def in_i64_def of_nat_diff)
  show "0 < sint (of_nat n :: i64)" using assms by (simp add: s)
  show "(of_nat (n - 1) :: i64) = 0 \<longleftrightarrow> n = 1"
  proof
    assume z: "(of_nat (n - 1) :: i64) = 0"
    have "n - 1 < 2 ^ 63" using assms(2) by simp
    then have "int (n - 1) = 0" using s [of "n - 1"] z by simp
    then show "n = 1" using assms(1) by simp
  qed simp
qed

lemma counter_write:
  assumes "counter (Some r) n regs" and "m < 2 ^ 63"
  shows "counter (Some r) m (regs[nat r := VInt (of_nat m)])" and "r' \<noteq> r \<Longrightarrow> counter (Some r') k regs \<Longrightarrow> counter (Some r') k (regs[nat r := v])"
  using assms by (auto simp: counter_def nth_list_update)

lemma counters_write:
  assumes "counters lreg oreg lim off regs" and "lreg = oreg \<longrightarrow> lreg = None"
  shows "lreg = Some r \<Longrightarrow> lim = Some (Suc n) \<Longrightarrow> 0 < n \<Longrightarrow> counters lreg oreg (Some n) off (regs[nat r := VInt (of_nat n)])"
    and "oreg = Some r \<Longrightarrow> off = Suc n \<Longrightarrow> counters lreg oreg lim n (regs[nat r := VInt (of_nat n)])"
proof -
  assume a: "lreg = Some r" "lim = Some (Suc n)" "0 < n"
  then have l: "counter (Some r) (Suc n) regs" using assms(1) by (simp add: counters_def)
  then have n: "n < 2 ^ 63" by (simp add: counter_def)
  show "counters lreg oreg (Some n) off (regs[nat r := VInt (of_nat n)])"
    using assms a counter_write(1) [OF l n] counter_write(2) [OF l n] by (cases oreg) (auto simp: counters_def)
next
  assume a: "oreg = Some r" "off = Suc n"
  then have o: "counter (Some r) (Suc n) regs" using assms(1) by (simp add: counters_def)
  then have n: "n < 2 ^ 63" by (simp add: counter_def)
  show "counters lreg oreg lim n (regs[nat r := VInt (of_nat n)])"
    using assms a counter_write(1) [OF o n] counter_write(2) [OF o n] by (cases lreg; cases lim) (auto simp: counters_def)
qed

lemma counterD: "counter (Some r) n (vm_regs vm) \<Longrightarrow> read_reg r vm = (vm, Inr (VInt (of_nat n))) \<and> n < 2 ^ 63 \<and> 0 \<le> r \<and> nat r < length (vm_regs vm)"
  by (simp add: counter_def read_reg_ok)

lemma end_yields:
  "tail_code prog L nl el loop_pc k \<Longrightarrow> scanning env prog rc enc rs vm \<Longrightarrow> vm_pc vm = usize_of (L el) \<Longrightarrow> yields env vm []"
  by (rule halt_done [of prog]) (simp_all add: tail_code_def scanning_def usize_of_def halt_inst_def nat_add_distrib)

lemma stop_yields:
  assumes "stop_at_limit lreg el b7 = (b8, Inr ())" and tail: "tail_code prog L nl el loop_pc (length (bd_insts b8))"
    and "linked (prog_instructions prog) L b8" and "fixed b7" and "lreg = oreg \<longrightarrow> lreg = None"
    and sc: "scanning env prog rc enc (row # rest) vm" and cs: "counters lreg oreg lim off (vm_regs vm)"
    and pc: "vm_pc vm = length (bd_insts b7)" and cont: "continues env prog rc enc lreg oreg loop_pc rest X"
  shows "yields env vm (limited (map_option (\<lambda>n. n - 1) lim) off X)"
proof (cases lreg)
  case None
  then have l: "lim = None" using cs by (simp add: counters_def split: option.splits)
  have "b8 = b7" using assms(1) None by (simp add: stop_at_limit_def ret_op_def)
  then show ?thesis using continue_yields [OF cont _ sc cs] tail pc l by simp
next
  case (Some r)
  then obtain n where n: "lim = Some n" "0 < n" "counter (Some r) n (vm_regs vm)" using cs by (auto simp: counters_def split: option.splits)
  note r = counterD [OF n(3)]
  let ?i = "Instruction (Agg Op_DecrJumpZero) r 0 0 P4_None 0"
  have b8: "b8 = add_fixup (length (bd_insts b7)) el (append_inst ?i b7)"
    using assms(1) Some by (simp add: stop_at_limit_def emitted emit_branch_def)
  have g: "get_opt (prog_instructions prog) (vm_pc vm) = Some (with_p2 (L el) ?i)"
    using linked_branch [OF assms(3) _ assms(4), of el ?i] by (simp add: b8 pc)
  let ?regs = "(vm_regs vm)[nat r := VInt (of_nat (n - 1))]"
  let ?vm' = "vm\<lparr>vm_regs := ?regs, vm_pc := (if n = 1 then usize_of (L el) else vm_pc vm + 1)\<rparr>"
  have w: "write_reg r v vm = (vm\<lparr>vm_regs := (vm_regs vm)[nat r := v]\<rparr>, Inr ())" for v
    using r by (simp add: write_reg_def write_reg_at_def usize_of_def)
  have "turn env vm = (?vm', Inr Again)"
    using g sc r w i64_less_one [OF n(2)]
    by (auto simp: turn_at scanning_def reading_def bind_op_def then_op_def branch_def jump_to_def advance_def)
  then have run: "runs env vm ?vm'" by (rule runs_turn)
  have sc': "scanning env prog rc enc (row # rest) ?vm'" using sc by (rule scanning_regs) simp
  have "yields env ?vm' (limited (Some (n - 1)) off X)"
  proof (cases "n = 1")
    case True
    then show ?thesis using end_yields [OF tail sc'] by (simp add: limited_Cons)
  next
    case False
    then obtain m where m: "n = Suc m" "0 < m" using n(2) by (cases n) auto
    have "counters lreg oreg (Some m) off ?regs" using counters_write(1) [OF cs assms(5) Some] n(1) m by simp
    then show ?thesis using continue_yields [OF cont _ sc'] tail pc m by (simp add: b8)
  qed
  then show ?thesis using yields_runs [OF run] sc n(1) by (simp add: scanning_def reading_def)
qed

lemma row_yields:
  assumes "get_opt (prog_instructions prog) (vm_pc vm) = Some (row_inst rr (int (length vs)))" and sc: "scanning env prog rc enc rs vm"
    and "0 \<le> rr" and "nat rr + length vs \<le> length (vm_regs vm)" and "sub (nat rr) (nat rr + length vs) (vm_regs vm) = vs"
    and cont: "\<And>vm'. scanning env prog rc enc rs vm' \<Longrightarrow> vm_regs vm' = vm_regs vm \<Longrightarrow> vm_pc vm' = vm_pc vm + 1 \<Longrightarrow> yields env vm' X"
  shows "yields env vm (vs # X)"
proof -
  let ?vm' = "vm\<lparr>vm_result_start := nat rr, vm_result_count := length vs, vm_pc := vm_pc vm + 1\<rparr>"
  have "turn env vm = (?vm', Inr (Give Step_Row))"
    using assms(1,3) sc by (simp add: turn_at scanning_def reading_def row_inst_def do_ResultRow_def usize_of_def)
  moreover have "yields env ?vm' X" using sc by (intro cont) (simp_all add: scanning_def reading_def slot_def)
  moreover have "result_row ?vm' = vs" using result_row_regs [OF assms(4)] assms(5) by simp
  ultimately show ?thesis using sc by (intro yields_give_row) (simp_all add: scanning_def reading_def)
qed

lemma offset_yields:
  assumes "skip_offset oreg nl b5 = (b6, Inr ())" and tail: "tail_code prog L nl el loop_pc k"
    and "linked (prog_instructions prog) L b6" and "fixed b5" and "lreg = oreg \<longrightarrow> lreg = None"
    and sc: "scanning env prog rc enc (row # rest) vm" and cs: "counters lreg oreg lim off (vm_regs vm)"
    and pc: "vm_pc vm = length (bd_insts b5)" and cont: "continues env prog rc enc lreg oreg loop_pc rest X"
    and give: "\<And>vm'. off = 0 \<Longrightarrow> scanning env prog rc enc (row # rest) vm' \<Longrightarrow> vm_regs vm' = vm_regs vm \<Longrightarrow> vm_pc vm' = length (bd_insts b6)
      \<Longrightarrow> yields env vm' (limited lim 0 (vs # X))"
  shows "yields env vm (limited lim off (vs # X))"
proof (cases oreg)
  case None
  then have "off = 0" "b6 = b5" using cs assms(1) by (simp_all add: counters_def skip_offset_def ret_op_def)
  then show ?thesis using give sc pc by simp
next
  case (Some r)
  then have c: "counter (Some r) off (vm_regs vm)" using cs by (simp add: counters_def)
  note r = counterD [OF c]
  let ?i = "Instruction (Agg Op_IfPos) r 0 1 P4_None 0"
  have b6: "b6 = add_fixup (length (bd_insts b5)) nl (append_inst ?i b5)"
    using assms(1) Some by (simp add: skip_offset_def emitted emit_branch_def)
  have g: "get_opt (prog_instructions prog) (vm_pc vm) = Some (with_p2 (L nl) ?i)"
    using linked_branch [OF assms(3) _ assms(4), of nl ?i] by (simp add: b6 pc)
  have w: "write_reg r v vm = (vm\<lparr>vm_regs := (vm_regs vm)[nat r := v]\<rparr>, Inr ())" for v
    using r by (simp add: write_reg_def write_reg_at_def usize_of_def)
  have h: "\<not> vm_halted vm" using sc by (simp add: scanning_def reading_def)
  show ?thesis
  proof (cases off)
    case 0
    let ?vm' = "vm\<lparr>vm_pc := vm_pc vm + 1\<rparr>"
    have "turn env vm = (?vm', Inr Again)"
      using g sc r 0 by (simp add: turn_at scanning_def reading_def bind_op_def advance_def)
    then have run: "runs env vm ?vm'" by (rule runs_turn)
    have "yields env ?vm' (limited lim off (vs # X))" using give 0 scanning_pc [OF sc] pc by (simp add: b6)
    then show ?thesis using yields_runs [OF run] h by simp
  next
    case (Suc n)
    let ?regs = "(vm_regs vm)[nat r := VInt (of_nat n)]"
    let ?vm' = "vm\<lparr>vm_regs := ?regs, vm_pc := k\<rparr>"
    have "usize_of (L nl) = k" using tail by (simp add: tail_code_def usize_of_def)
    then have "turn env vm = (?vm', Inr Again)"
      using g sc r w i64_less_one [of off] Suc
      by (simp add: turn_at scanning_def reading_def bind_op_def then_op_def jump_to_def)
    then have run: "runs env vm ?vm'" by (rule runs_turn)
    have sc': "scanning env prog rc enc (row # rest) ?vm'" using sc by (rule scanning_regs) simp
    have "counters lreg oreg lim n ?regs" using counters_write(2) [OF cs assms(5) Some Suc] .
    then have "yields env ?vm' (limited lim n X)" using continue_yields [OF cont _ sc'] tail by simp
    then show ?thesis using yields_runs [OF run] h Suc by (simp add: limited_Cons)
  qed
qed

lemma scanning_moved:
  assumes "scanning env prog rc enc (row # rest) vm" and "moved (table_row env rc t row vals rest) W vm vm'"
  shows "scanning env prog rc enc (row # rest) vm'"
  using assms same_frame_reading [of vm vm' prog] by (auto simp: scanning_def moved_def table_row_def same_frame_def)

text \<open>The builders of the loop grow along its body.\<close>

lemma extends_where: "(\<And>w. ss_where sel = Some w \<Longrightarrow> condition known cx w) \<Longrightarrow> extends (jump_where sel cx l)"
  by (auto simp: jump_where_def split: option.split intro: extends_intros extends_condition)

lemma extends_project: "(\<And>e. e \<in> set es \<Longrightarrow> supported known e) \<Longrightarrow> extends (project cx es rr)"
  unfolding project_def by (auto simp: in_set_enumerate_eq intro!: extends_intros extends_compile [where known = known])

lemma loop_grows:
  assumes code: "body_code sel (table_ctx t 0) es lreg oreg nl el rr [b2, b3, b4, b5, b6, b8]"
    and sup: "\<And>w. ss_where sel = Some w \<Longrightarrow> condition (\<lambda>_ _. True) (table_ctx t 0) w" "\<And>e. e \<in> set es \<Longrightarrow> supported (\<lambda>_ _. True) e"
  shows "grows b2 b3" and "grows b3 b4" and "grows b4 b5" and "grows b5 b6" and "grows (append_inst (row_inst rr (int (length es))) b6) b8"
    and "grows b6 b8"
proof -
  note c = code [unfolded body_code_def, simplified]
  have j: "extends (jump_where sel (table_ctx t 0) nl)" using sup(1) by (rule extends_where)
  have p: "extends (project (table_ctx t 0) es rr)" using sup(2) by (rule extends_project)
  have o: "extends (skip_offset oreg nl)" by (auto simp: skip_offset_def split: option.split intro: extends_intros)
  have s: "extends (stop_at_limit lreg el)" by (auto simp: stop_at_limit_def split: option.split intro: extends_intros)
  show "grows b2 b3" using extendsD [OF j] c by blast
  show "grows b3 b4" using alloc_regs_grows c by blast
  show "grows b4 b5" using extendsD [OF p] c by blast
  show "grows b5 b6" using extendsD [OF o] c by blast
  show g: "grows (append_inst (row_inst rr (int (length es))) b6) b8" using extendsD [OF s] c by blast
  show "grows b6 b8" using grows_append(1) g by (rule grows_trans)
qed

lemma moved_mono: "moved rely W vm vm' \<Longrightarrow> W \<subseteq> V \<Longrightarrow> moved rely V vm vm'"
  by (auto simp: moved_def)

context row_source
begin

lemma where_runs:
  assumes "jump_where sel cx l b = (b', Inr ())" and "linked insts L b'" and "ready lo rely insts b b' vm"
    and "\<And>w. ss_where sel = Some w \<Longrightarrow> condition known cx w"
    and "(case ss_where sel of None \<Rightarrow> Inr True | Some w \<Rightarrow> and_then (eval (pure_call env rc) col cx w) (\<lambda>v. Inr (is_true v))) = Inr keep"
  obtains vm' where "runs env vm vm'" "vm_pc vm' = (if keep then length (bd_insts b') else usize_of (L l))"
    "moved rely {bd_next_reg b..<bd_next_reg b'} vm vm'"
proof (cases "ss_where sel")
  case None
  then have "b' = b" "keep" using assms(1,5) by (simp_all add: jump_where_def ret_op_def)
  then show ?thesis using that [of vm] assms(3) by (simp add: ready_def moved_def)
next
  case (Some w)
  obtain v where v: "eval (pure_call env rc) col cx w = Inr v" "keep = is_true v"
    using assms(5) Some by (auto simp: and_then_def split: sum.splits)
  have br: "branches env lo rely (compile_jump cx w l False True) l (jump_taken v False True)"
    using assms(4) [OF Some] v(1) by (rule condition_branches)
  have k: "jump_taken v False True \<longleftrightarrow> \<not> keep" using v(2) by (auto simp: jump_taken_def is_true_def split: option.split)
  show ?thesis
  proof (rule branches_runs [OF br _ assms(2,3)])
    show "compile_jump cx w l False True b = (b', Inr ())" using assms(1) Some by (simp add: jump_where_def)
  next
    fix vm' assume "runs env vm vm'" "vm_pc vm' = (if jump_taken v False True then usize_of (L l) else length (bd_insts b'))"
      "moved rely {bd_next_reg b..<bd_next_reg b'} vm vm'"
    then show ?thesis using that k by simp
  qed
qed

lemma project_runs:
  assumes "project cx es rr b = (b', Inr ())" and "linked insts L b'" and "ready lo rely insts b b' vm"
    and rr: "lo \<le> rr" "rr + int (length es) \<le> bd_next_reg b" "grows b b'" and "\<And>e. e \<in> set es \<Longrightarrow> supported known e"
    and "all_ok (map (eval (pure_call env rc) col cx) es) = Inr vs"
  obtains vm' where "runs env vm vm'" "vm_pc vm' = length (bd_insts b')" "moved rely {rr..<bd_next_reg b'} vm vm'"
    "length vs = length es" "sub (nat rr) (nat rr + length es) (vm_regs vm') = vs"
proof -
  have l: "list_all2 (gives env lo rely) (map (compile_expr cx) es) vs"
    using assms(7,8) by (intro all_ok_gives) (auto intro: expr_gives)
  then have n: "length vs = length es" using list_all2_lengthD by fastforce
  obtain vm' where vm': "runs env vm vm'" "vm_pc vm' = length (bd_insts b')"
      "moved rely ({rr + int 0..<rr + int (0 + length (map (compile_expr cx) es))} \<union> {bd_next_reg b..<bd_next_reg b'}) vm vm'"
      "\<forall>k < length (map (compile_expr cx) es). vm_regs vm' ! nat (rr + int (0 + k)) = vs ! k"
    using args_run [OF l, of rr 0 b b' insts L vm] assms(1-5) by (auto simp: project_def)
  have m: "moved rely {rr..<bd_next_reg b'} vm vm'"
    using vm'(3) by (rule moved_mono) (use rr(2) grows_regs [OF rr(3)] in auto)
  have p: "0 \<le> rr" using rr(1) lo_pos by simp
  have "length (vm_regs vm') = length (vm_regs vm)" "bd_next_reg b' \<le> int (length (vm_regs vm))"
    using m assms(3) by (simp_all add: moved_def ready_def)
  then have "nat rr + length es \<le> length (vm_regs vm')" using p rr(2) grows_regs [OF rr(3)] by linarith
  then have "sub (nat rr) (nat rr + length es) (vm_regs vm') = vs"
    using vm'(4) n p by (auto simp: sub_def nat_add_distrib intro!: nth_equalityI)
  then show ?thesis using that [OF vm'(1,2) m n] by simp
qed

end

lemma limited_first: "counters lreg oreg lim off regs \<Longrightarrow> limited lim 0 (x # xs) = x # limited (map_option (\<lambda>n. n - 1) lim) 0 xs"
  by (cases lim) (auto simp: limited_def counters_def take_Cons')

lemma give_yields:
  assumes code: "loop_code prog L sel (table_ctx t 0) es lreg oreg nl el rr [b2, b3, b4, b5, b6, b8]"
    and g: "grows b5 b6" "grows (append_inst (row_inst rr (int (length es))) b6) b8" "fixed b5"
    and rr: "0 \<le> rr" "rr + int (length es) \<le> int (length (vm_regs vm))"
    and vs: "length vs = length es" "sub (nat rr) (nat rr + length es) (vm_regs vm) = vs"
    and sc: "scanning env prog rc enc (row # rest) vm" and cs: "counters lreg oreg lim off (vm_regs vm)"
    and pc: "vm_pc vm = length (bd_insts b5)" and cont: "continues env prog rc enc lreg oreg (length (bd_insts b2)) rest X"
  shows "yields env vm (limited lim off (vs # X))"
proof -
  let ?b7 = "append_inst (row_inst rr (int (length es))) b6"
  note c = code [unfolded loop_code_def body_code_def, simplified]
  have tail: "tail_code prog L nl el (length (bd_insts b2)) (length (bd_insts b8))" and l8: "linked (prog_instructions prog) L b8"
    and o: "skip_offset oreg nl b5 = (b6, Inr ())" and s: "stop_at_limit lreg el ?b7 = (b8, Inr ())" and d: "lreg = oreg \<longrightarrow> lreg = None"
    using c by blast+
  have f6: "fixed b6" using g(1,3) by (rule grows_fixed)
  have l6: "linked (prog_instructions prog) L b6" using linked_mono [OF l8 grows_trans [OF grows_append(1) g(2)]] .
  show ?thesis using o tail l6 g(3) d sc cs pc cont
  proof (rule offset_yields)
    fix vm' assume z: "off = 0" and sc': "scanning env prog rc enc (row # rest) vm'" and r': "vm_regs vm' = vm_regs vm"
      and p': "vm_pc vm' = length (bd_insts b6)"
    have "get_opt (prog_instructions prog) (vm_pc vm') = Some (row_inst rr (int (length vs)))"
      using linked_plain [OF l8 g(2) f6] p' vs(1) by simp
    then have "yields env vm' (vs # limited (map_option (\<lambda>n. n - 1) lim) off X)" using sc' rr(1)
    proof (rule row_yields)
      show "nat rr + length vs \<le> length (vm_regs vm')" unfolding r' vs(1) using rr by linarith
      show "sub (nat rr) (nat rr + length vs) (vm_regs vm') = vs" using vs r' by simp
      fix vm2 assume "scanning env prog rc enc (row # rest) vm2" "vm_regs vm2 = vm_regs vm'" "vm_pc vm2 = vm_pc vm' + 1"
      then show "yields env vm2 (limited (map_option (\<lambda>n. n - 1) lim) off X)"
        using stop_yields [OF s tail l8 grows_fixed [OF grows_append(1) f6] d _ _ _ cont] cs r' p' by simp
    qed
    then show "yields env vm' (limited lim 0 (vs # X))" using limited_first [OF cs, of vs X] z by simp
  qed
qed

lemma turn_yields:
  assumes code: "loop_code prog L sel (table_ctx t 0) es lreg oreg nl el rr [b2, b3, b4, b5, b6, b8]"
    and t: "td_columns t \<noteq> []" "\<not> td_without_rowid t"
    and sup: "\<And>w. ss_where sel = Some w \<Longrightarrow> condition (\<lambda>_ _. True) (table_ctx t 0) w" "\<And>e. e \<in> set es \<Longrightarrow> supported (\<lambda>_ _. True) e"
    and out: "row_output env rc enc t sel es row = Inr o1"
    and sc: "scanning env prog rc enc (row # rest) vm" "vm_decoded vm = None" and cs: "counters lreg oreg lim off (vm_regs vm)"
    and pc: "vm_pc vm = length (bd_insts b2)" and cont: "continues env prog rc enc lreg oreg (length (bd_insts b2)) rest X"
  shows "yields env vm (limited lim off (o1 @ X))"
proof -
  obtain vals keep where vals: "decode_record (snd row) enc = Inr vals"
    and keep: "(case ss_where sel of None \<Rightarrow> Inr True | Some w \<Rightarrow>
      and_then (eval (pure_call env rc) (row_column t (fst row) vals) (table_ctx t 0) w) (\<lambda>v. Inr (is_true v))) = Inr keep"
    and o1: "(if keep then and_then (all_ok (map (eval (pure_call env rc) (row_column t (fst row) vals) (table_ctx t 0)) es)) (\<lambda>vs. Inr [vs])
      else Inr []) = Inr o1"
    using out by (auto simp: row_output_def Let_def and_then_def split: sum.splits)
  let ?rely = "table_row env rc t row vals rest" and ?insts = "prog_instructions prog"
  note c = code [unfolded loop_code_def body_code_def, simplified] and g = loop_grows [OF code [unfolded loop_code_def, THEN conjunct1] sup]
  have al: "rr = bd_next_reg b3" "bd_next_reg b4 = rr + int (length es)" "bd_insts b4 = bd_insts b3"
    using alloc_regs_grows c by fastforce+
  note regs = grows_regs [OF g(1)] grows_regs [OF g(2)] grows_regs [OF g(3)] grows_regs [OF g(4)] grows_regs [OF g(6)]
  have l5: "linked ?insts L b5" using linked_mono [OF _ grows_trans [OF g(4,6)]] c by blast
  have l3: "linked ?insts L b3" using linked_mono [OF l5 grows_trans [OF g(2,3)]] .
  have h: "\<not> vm_halted vm" "vm_program vm = prog" "length (vm_regs vm) = num_regs prog" using sc by (simp_all add: scanning_def reading_def)
  have n: "bd_next_reg b5 \<le> int (length (vm_regs vm))" "0 \<le> bd_next_reg b2" "fixed b2" "0 \<le> rr" using c h(3) regs al by auto
  have "?rely vm" using sc t vals by (auto simp: table_row_def scanning_def)
  then have rd: "ready 0 ?rely ?insts b2 b5 vm" using n h pc by (simp add: ready_def)
  obtain vm1 where vm1: "runs env vm vm1" "vm_pc vm1 = (if keep then length (bd_insts b3) else usize_of (L nl))"
      "moved ?rely {bd_next_reg b2..<bd_next_reg b3} vm vm1"
    using table_source.where_runs [OF _ l3 ready_cut [OF rd grows_trans [OF g(2,3)]] sup(1) keep] c by blast
  have kept: "counters lreg oreg lim off (vm_regs vm')" if "moved ?rely W vm0 vm'" "counters lreg oreg lim off (vm_regs vm0)"
      "W \<subseteq> {bd_next_reg b2..}" for W vm0 vm'
    using counters_moved [OF that(2,1)] that(3) c by fastforce
  have sc1: "scanning env prog rc enc (row # rest) vm1" using sc(1) vm1(3) by (rule scanning_moved)
  have cs1: "counters lreg oreg lim off (vm_regs vm1)" using vm1(3) cs by (rule kept) auto
  have "yields env vm1 (limited lim off (o1 @ X))"
  proof (cases keep)
    case False
    have tail: "tail_code prog L nl el (length (bd_insts b2)) (length (bd_insts b8))" using c by blast
    then have "vm_pc vm1 = length (bd_insts b8)" using vm1(2) False by (simp add: tail_code_def usize_of_def)
    then show ?thesis using continue_yields [OF cont _ sc1 cs1] tail o1 False by simp
  next
    case True
    then obtain vs where vs: "all_ok (map (eval (pure_call env rc) (row_column t (fst row) vals) (table_ctx t 0)) es) = Inr vs" "o1 = [vs]"
      using o1 by (auto simp: and_then_def split: sum.splits)
    have "ready 0 ?rely ?insts b3 b5 vm1" using ready_next [OF rd g(1) grows_trans [OF g(2,3)] vm1(3)] vm1(2) True by simp
    then have rd4: "ready 0 ?rely ?insts b4 b5 vm1"
      using al regs grows_fixed [OF g(2)] by (simp add: ready_def)
    obtain vm2 where vm2: "runs env vm1 vm2" "vm_pc vm2 = length (bd_insts b5)" "moved ?rely {rr..<bd_next_reg b5} vm1 vm2"
        "length vs = length es" "sub (nat rr) (nat rr + length es) (vm_regs vm2) = vs"
    proof (rule table_source.project_runs [OF _ l5 rd4 n(4) _ g(3) _ vs(1)])
      show "project (table_ctx t 0) es rr b4 = (b5, Inr ())" using c by blast
      show "rr + int (length es) \<le> bd_next_reg b4" by (simp add: al)
      show "supported (\<lambda>_ _. True) e" if "e \<in> set es" for e using that by (rule sup(2))
    qed
    have len: "length (vm_regs vm2) = length (vm_regs vm)" using vm1(3) vm2(3) by (simp add: moved_def)
    have sc2: "scanning env prog rc enc (row # rest) vm2" using sc1 vm2(3) by (rule scanning_moved)
    have cs2: "counters lreg oreg lim off (vm_regs vm2)" using vm2(3) cs1 by (rule kept) (use al regs in auto)
    have f5: "fixed b5" using grows_fixed [OF grows_trans [OF g(1) grows_trans [OF g(2,3)]]] n(3) by blast
    have "rr + int (length es) \<le> int (length (vm_regs vm2))" using al regs n(1) len by linarith
    then have "yields env vm2 (limited lim off (vs # X))"
      using give_yields [OF code g(4,5) f5 n(4) _ vm2(4,5) sc2 cs2 vm2(2) cont] by blast
    then show ?thesis using yields_runs [OF vm2(1)] sc1 sc2 vs(2) by (simp add: scanning_def reading_def)
  qed
  then show ?thesis using yields_runs [OF vm1(1)] h(1) sc1 by (simp add: scanning_def reading_def)
qed

text \<open>The loop returns the rows of the query, by induction over the rows of the table.\<close>

lemma loop_yields:
  assumes code: "loop_code prog L sel (table_ctx t 0) es lreg oreg nl el rr [b2, b3, b4, b5, b6, b8]"
    and t: "td_columns t \<noteq> []" "\<not> td_without_rowid t"
    and sup: "\<And>w. ss_where sel = Some w \<Longrightarrow> condition (\<lambda>_ _. True) (table_ctx t 0) w" "\<And>e. e \<in> set es \<Longrightarrow> supported (\<lambda>_ _. True) e"
    and "all_ok (map (row_output env rc enc t sel es) rs) = Inr outs"
  shows "continues env prog rc enc lreg oreg (length (bd_insts b2)) rs (concat outs)"
  using assms(6)
proof (induction rs arbitrary: outs)
  case Nil
  then show ?case by (simp add: continues_def)
next
  case (Cons row rest)
  then obtain o1 os where o: "row_output env rc enc t sel es row = Inr o1" "all_ok (map (row_output env rc enc t sel es) rest) = Inr os"
      "outs = o1 # os"
    by (auto simp: and_then_def split: sum.splits)
  show ?case
    unfolding continues_def using turn_yields [OF code t sup o(1) _ _ _ _ Cons.IH [OF o(2)]] o(3) by simp
qed

end
