(* ===== verification/Select_Correct.thy ===== *)
theory Select_Correct
  imports Scan_Correct Btree_Split
begin

text \<open>
  A whole query over one table: the program that \<open>compile_scan\<close> generates, run from its start on an open
  database, returns the rows of the query. The lemmas read the layout of the program off the builder:
  the initial jump, the counters, the cursor, the loop and the transaction behind it.
\<close>

section \<open>The layout of the loop\<close>

lemma unordered_code:
  assumes "compile_scan_unordered sel (table_ctx t 0) es lreg oreg bo = (bu, Inr ())" and d: "\<not> ss_distinct sel"
    and sup: "\<And>w. ss_where sel = Some w \<Longrightarrow> condition (\<lambda>_ _. True) (table_ctx t 0) w" "\<And>e. e \<in> set es \<Longrightarrow> supported (\<lambda>_ _. True) e"
  obtains el bl nl rr b2 b3 b4 b5 b6 b8 b9 b10 b11 where
    "new_label bo = (bl, Inr el)"
    "new_label (add_fixup (length (bd_insts bl)) el (append_inst (Instruction (Cursor Op_Rewind) 0 0 0 P4_None 0) bl)) = (b2, Inr nl)"
    "body_code sel (table_ctx t 0) es lreg oreg nl el rr [b2, b3, b4, b5, b6, b8]" "resolve nl b8 = (b9, Inr ())"
    "b10 = append_inst (next_inst (int (length (bd_insts b2)))) b9" "resolve el b10 = (b11, Inr ())" "bu = append_inst halt_inst b11"
    "grows b2 b8" "grows bo bu" "grows bl b10"
proof -
  let ?rw = "Instruction (Cursor Op_Rewind) 0 0 0 P4_None 0"
  obtain bl el b2 nl b3 b4 rr b5 b6 b8 b9 b11 where b:
    "new_label bo = (bl, Inr el)" "new_label (add_fixup (length (bd_insts bl)) el (append_inst ?rw bl)) = (b2, Inr nl)"
    "jump_where sel (table_ctx t 0) nl b2 = (b3, Inr ())" "alloc_regs (int (length es)) b3 = (b4, Inr rr)"
    "project (table_ctx t 0) es rr b4 = (b5, Inr ())" "skip_offset oreg nl b5 = (b6, Inr ())"
    "stop_at_limit lreg el (append_inst (row_inst rr (int (length es))) b6) = (b8, Inr ())" "resolve nl b8 = (b9, Inr ())"
    "resolve el (append_inst (next_inst (int (length (bd_insts bl) + 1))) b9) = (b11, Inr ())" "bu = append_inst halt_inst b11"
    using assms(1) d
    by (auto simp: compile_scan_unordered_def Let_def bind_op_success then_op_success open_distinct_def skip_duplicate_def ret_op_def
        emitted emit_inst_def emit_branch_def table_ctx_def get_op_def cur_addr_def row_inst_def next_inst_def halt_inst_def)
  have l2: "length (bd_insts b2) = length (bd_insts bl) + 1" using b(2) by (auto simp: new_label_def)
  have body: "body_code sel (table_ctx t 0) es lreg oreg nl el rr [b2, b3, b4, b5, b6, b8]" using b(3-7) by (simp add: body_code_def)
  note g = loop_grows [OF body sup]
  have g28: "grows b2 b8" using g(1-4,6) grows_trans by blast
  have "grows (add_fixup (length (bd_insts bl)) el (append_inst ?rw bl)) b9" using resolve_grows [OF b(2) g28 b(8)] .
  then have g10: "grows bl (append_inst (next_inst (int (length (bd_insts b2)))) b9)"
    using grows_append grows_trans by blast
  have "grows bo b11" using resolve_grows [OF b(1) g10] b(9) l2 by simp
  then have "grows bo bu" using b(10) grows_append(1) grows_trans by blast
  then show ?thesis using that [OF b(1,2) body b(8)] b(9,10) l2 g28 g10 by simp
qed

lemma unordered_loop:
  assumes "compile_scan_unordered sel (table_ctx t 0) es lreg oreg bo = (bu, Inr ())" and "\<not> ss_distinct sel"
    and sup: "\<And>w. ss_where sel = Some w \<Longrightarrow> condition (\<lambda>_ _. True) (table_ctx t 0) w" "\<And>e. e \<in> set es \<Longrightarrow> supported (\<lambda>_ _. True) e"
    and l: "linked (prog_instructions prog) L bu" and f: "fixed bo" and n: "bd_next_reg bu \<le> int (num_regs prog)" "0 \<le> bd_next_reg bo"
    and regs: "\<And>r. lreg = Some r \<or> oreg = Some r \<Longrightarrow> r < bd_next_reg bo" "lreg = oreg \<Longrightarrow> lreg = None"
  obtains nl el rr b2 b3 b4 b5 b6 b8 where
    "loop_code prog L sel (table_ctx t 0) es lreg oreg nl el rr [b2, b3, b4, b5, b6, b8]"
    "get_opt (prog_instructions prog) (length (bd_insts bo)) = Some (Instruction (Cursor Op_Rewind) 0 (L el) 0 P4_None 0)"
    "length (bd_insts b2) = length (bd_insts bo) + 1"
proof -
  let ?rw = "Instruction (Cursor Op_Rewind) 0 0 0 P4_None 0"
  obtain el bl nl rr b2 b3 b4 b5 b6 b8 b9 b10 b11 where
    b: "new_label bo = (bl, Inr el)" "new_label (add_fixup (length (bd_insts bl)) el (append_inst ?rw bl)) = (b2, Inr nl)"
    and body: "body_code sel (table_ctx t 0) es lreg oreg nl el rr [b2, b3, b4, b5, b6, b8]"
    and r: "resolve nl b8 = (b9, Inr ())" "resolve el b10 = (b11, Inr ())"
    and i: "b10 = append_inst (next_inst (int (length (bd_insts b2)))) b9" "bu = append_inst halt_inst b11"
    and g: "grows b2 b8" "grows bo bu" "grows bl b10"
    using unordered_code [OF assms(1,2) sup] .
  let ?br = "add_fixup (length (bd_insts bl)) el (append_inst ?rw bl)"
  have l11: "linked (prog_instructions prog) L b11" using linked_mono [OF l] i(2) by simp
  note el = resolve_linked [OF b(1) g(3) r(2) l11]
  have l9: "linked (prog_instructions prog) L b9" using linked_mono [OF el(1)] i(1) by simp
  note nl = resolve_linked [OF b(2) g(1) r(1) l9]
  have bl: "bd_insts bl = bd_insts bo" "bd_next_reg bl = bd_next_reg bo" "bd_fixups bl = bd_fixups bo" using b(1) by (auto simp: new_label_def)
  have b2: "bd_insts b2 = bd_insts bo @ [?rw]" "bd_next_reg b2 = bd_next_reg bo" using b(2) bl by (auto simp: new_label_def)
  have fl: "fixed bl" using f bl by (simp add: fixed_def)
  have gr: "grows ?br b2" using b(2) by (rule new_label_grows)
  have f2: "fixed b2" using grows_fixed [OF grows_trans [OF grows_append(2) gr] fl] .
  have f9: "fixed b9" using grows_fixed [OF g(1) f2] nl(3,5) by (simp add: fixed_def)
  have f11: "fixed b11" using grows_fixed [OF grows_append(1) f9] el(3,5) i(1) by (simp add: fixed_def)
  have "get_opt (prog_instructions prog) (length (bd_insts b8)) = Some (next_inst (int (length (bd_insts b2))))"
    using linked_plain [OF el(1) _ f9] nl(3) i(1) by simp
  moreover have "get_opt (prog_instructions prog) (length (bd_insts b8) + 1) = Some halt_inst"
    using linked_plain [OF l _ f11] el(3) nl(3) i by simp
  ultimately have tail: "tail_code prog L nl el (length (bd_insts b2)) (length (bd_insts b8))"
    using el(2) nl(2,3) i(1) by (simp add: tail_code_def)
  have "linked (prog_instructions prog) L ?br" using linked_mono [OF nl(1) grows_trans [OF gr g(1)]] .
  then have rw: "get_opt (prog_instructions prog) (length (bd_insts bo)) = Some (Instruction (Cursor Op_Rewind) 0 (L el) 0 P4_None 0)"
    using linked_branch [OF _ _ fl, of _ L ?br el ?rw] bl(1) by simp
  have "bd_next_reg b8 \<le> int (num_regs prog)" using n(1) el(4) nl(4) i by simp
  then have "loop_code prog L sel (table_ctx t 0) es lreg oreg nl el rr [b2, b3, b4, b5, b6, b8]"
    using body tail nl(1) f2 n(2) regs b2(2) by (auto simp: loop_code_def)
  then show ?thesis using that rw b2(1) by simp
qed

section \<open>The counters\<close>

text \<open>A state in which the statement has not opened a cursor.\<close>

definition starting :: "runtime_ctx \<Rightarrow> pager option \<Rightarrow> vdbe \<Rightarrow> bool" where
  "starting rc p vm \<longleftrightarrow> vm_ctx vm = rc \<and> vm_pager vm = p \<and> vm_cursors vm = [] \<and> vm_decoded vm = None"

interpretation start_source: row_source env 0 "starting rc p" cx rc "\<lambda>_ _. False" "\<lambda>_ _. VNull" for env rc p cx
  by unfold_locales (simp_all add: starting_def)

lemma emit_int_fresh: "emit_int n = fresh (compile_literal (Lit_Integer n))"
  by (rule ext) (simp add: emit_int_def fresh_def)

lemma emit_int_runs:
  assumes "emit_int n b = (b', Inr r)" and "linked insts L b'" and "ready 0 (starting rc p) insts b b' vm"
  obtains vm' where "runs env vm vm'" "vm_pc vm' = length (bd_insts b')" "moved (starting rc p) {bd_next_reg b..<bd_next_reg b'} vm vm'"
    "0 \<le> sint n \<Longrightarrow> counter (Some r) (nat (sint n)) (vm_regs vm')" 
proof -
  have f: "fresh (compile_literal (Lit_Integer n)) b = (b', Inr r)" using assms(1) by (simp add: emit_int_fresh)
  have "gives env 0 (starting rc p) (compile_literal (Lit_Integer n)) (VInt n)"
    using start_source.gives_literal [of env rc p "Lit_Integer n"] by simp
  note g = start_source.fresh_grows [OF this f] and run = start_source.fresh_runs [OF this f assms(2,3)]
  obtain vm' where vm': "runs env vm vm'" "vm_pc vm' = length (bd_insts b')" "moved (starting rc p) {bd_next_reg b..<bd_next_reg b'} vm vm'"
      "vm_regs vm' ! nat r = VInt n"
    using run .
  have "0 \<le> r" "nat r < length (vm_regs vm')" using g assms(3) vm'(3) by (auto simp: ready_def moved_def)
  moreover have "sint n < 2 ^ 63" using sint_range [of n] by simp
  ultimately have "counter (Some r) (nat (sint n)) (vm_regs vm')" if "0 \<le> sint n" using vm'(4) that by (simp add: counter_def)
  then show ?thesis using that vm'(1-3) by blast
qed

lemma emit_int_grows: "emit_int n b = (b', Inr r) \<Longrightarrow> grows b b' \<and> r = bd_next_reg b \<and> r < bd_next_reg b'"
  using start_source.fresh_grows [OF start_source.gives_literal [of undefined undefined undefined "Lit_Integer n"]] by (simp add: emit_int_fresh)

definition counter_if :: "bool \<Rightarrow> i64 \<Rightarrow> int option code_op" where
  "counter_if c n = (if c then bind_op (emit_int n) (\<lambda>r. ret_op (Some r)) else ret_op None)"

lemma counter_if_grows:
  "counter_if c n b = (b', Inr reg) \<Longrightarrow> grows b b' \<and> (\<forall>r. reg = Some r \<longrightarrow> bd_next_reg b \<le> r \<and> r < bd_next_reg b')"
  using emit_int_grows by (auto simp: counter_if_def bind_op_success ret_op_def split: if_splits)

lemma counter_if_runs:
  assumes "counter_if c n b = (b', Inr reg)" and "linked insts L b'" and "ready 0 (starting rc p) insts b b' vm"
  obtains vm' where "runs env vm vm'" "vm_pc vm' = length (bd_insts b')" "moved (starting rc p) {bd_next_reg b..<bd_next_reg b'} vm vm'"
    "c \<Longrightarrow> 0 \<le> sint n \<Longrightarrow> reg \<noteq> None \<and> counter reg (nat (sint n)) (vm_regs vm')" "\<not> c \<Longrightarrow> reg = None"
proof (cases c)
  case True
  then obtain r where r: "emit_int n b = (b', Inr r)" "reg = Some r" using assms(1) by (auto simp: counter_if_def bind_op_success ret_op_def)
  obtain vm' where "runs env vm vm'" "vm_pc vm' = length (bd_insts b')" "moved (starting rc p) {bd_next_reg b..<bd_next_reg b'} vm vm'"
      "0 \<le> sint n \<Longrightarrow> counter (Some r) (nat (sint n)) (vm_regs vm')"
    using emit_int_runs [OF r(1) assms(2,3)] by blast
  then show ?thesis using that True r(2) by blast
next
  case False
  then have "b' = b" "reg = None" using assms(1) by (simp_all add: counter_if_def ret_op_def)
  then show ?thesis using that [of vm] False assms(3) by (simp add: ready_def moved_def)
qed

lemma counter_regs_if:
  "counter_regs limit offset = bind_op (counter_if (\<exists>n. limit = Some n \<and> 0 < sint n) (the limit)) (\<lambda>l.
     bind_op (counter_if (0 < sint offset) offset) (\<lambda>off. ret_op (l, off)))"
  by (cases limit) (simp_all add: counter_regs_def counter_if_def)

lemma counter_regs_grows:
  assumes "counter_regs limit offset b = (b', Inr (lreg, oreg))"
  shows "grows b b'" and "lreg = Some r \<or> oreg = Some r \<Longrightarrow> r < bd_next_reg b'" and "lreg = oreg \<Longrightarrow> lreg = None"
proof -
  obtain b1 where b: "counter_if (\<exists>n. limit = Some n \<and> 0 < sint n) (the limit) b = (b1, Inr lreg)"
      "counter_if (0 < sint offset) offset b1 = (b', Inr oreg)"
    using assms by (auto simp: counter_regs_if bind_op_success ret_op_def)
  note g = counter_if_grows [OF b(1)] counter_if_grows [OF b(2)]
  show "grows b b'" using g grows_trans by blast
  show "lreg = Some r \<or> oreg = Some r \<Longrightarrow> r < bd_next_reg b'" using g grows_regs [of b1 b'] by fastforce
  show "lreg = oreg \<Longrightarrow> lreg = None" using g by (cases lreg) auto
qed

lemma counter_regs_runs:
  assumes "counter_regs limit offset b = (b', Inr (lreg, oreg))" and "linked insts L b'" and "ready 0 (starting rc p) insts b b' vm"
    and lim: "limit \<noteq> Some 0" "\<And>n. limit = Some n \<Longrightarrow> 0 \<le> sint n" "0 \<le> sint offset"
  obtains vm' where "runs env vm vm'" "vm_pc vm' = length (bd_insts b')" "moved (starting rc p) {bd_next_reg b..<bd_next_reg b'} vm vm'"
    "counters lreg oreg (map_option (\<lambda>n. nat (sint n)) limit) (nat (sint offset)) (vm_regs vm')"
proof -
  let ?c = "\<exists>n. limit = Some n \<and> 0 < sint n"
  obtain b1 where b: "counter_if ?c (the limit) b = (b1, Inr lreg)" "counter_if (0 < sint offset) offset b1 = (b', Inr oreg)"
    using assms(1) by (auto simp: counter_regs_if bind_op_success ret_op_def)
  note g = counter_if_grows [OF b(1)] counter_if_grows [OF b(2)]
  have g1: "grows b b1" and g2: "grows b1 b'" using g by blast+
  obtain vm1 where vm1: "runs env vm vm1" "vm_pc vm1 = length (bd_insts b1)" "moved (starting rc p) {bd_next_reg b..<bd_next_reg b1} vm vm1"
      "?c \<Longrightarrow> 0 \<le> sint (the limit) \<Longrightarrow> lreg \<noteq> None \<and> counter lreg (nat (sint (the limit))) (vm_regs vm1)" "\<not> ?c \<Longrightarrow> lreg = None"
    using counter_if_runs [where env = env, OF b(1) linked_mono [OF assms(2) g2] ready_cut [OF assms(3) g2]] by blast
  obtain vm2 where vm2: "runs env vm1 vm2" "vm_pc vm2 = length (bd_insts b')" "moved (starting rc p) {bd_next_reg b1..<bd_next_reg b'} vm1 vm2"
      "0 < sint offset \<Longrightarrow> 0 \<le> sint offset \<Longrightarrow> oreg \<noteq> None \<and> counter oreg (nat (sint offset)) (vm_regs vm2)" "\<not> 0 < sint offset \<Longrightarrow> oreg = None"
    using counter_if_runs [where env = env, OF b(2) assms(2) ready_next [OF assms(3) g1 g2 vm1(3,2)]] by blast
  have m: "moved (starting rc p) {bd_next_reg b..<bd_next_reg b'} vm vm2"
    using vm1(3) vm2(3) by (rule moved_trans) (use grows_regs [OF g1] grows_regs [OF g2] in auto)
  have keep: "counter lreg k (vm_regs vm2)" if "counter lreg k (vm_regs vm1)" for k
    using counter_moved [OF that vm2(3)] g by fastforce
  have pos: "0 < sint n" if "limit = Some n" for n
  proof -
    have "n \<noteq> 0" using lim(1) that by simp
    then have "sint n \<noteq> 0" by (simp add: signed_eq_0_iff)
    then show ?thesis using lim(2) [OF that] by simp
  qed
  have "counters lreg oreg (map_option (\<lambda>n. nat (sint n)) limit) (nat (sint offset)) (vm_regs vm2)"
  proof (cases limit)
    case None
    then show ?thesis using vm1(5) vm2(4,5) by (cases "0 < sint offset") (auto simp: counters_def)
  next
    case (Some n)
    then have "lreg \<noteq> None" "counter lreg (nat (sint n)) (vm_regs vm2)" using vm1(4) pos [OF Some] keep by auto
    then show ?thesis using Some pos [OF Some] vm2(4,5) by (cases "0 < sint offset") (auto simp: counters_def)
  qed
  then show ?thesis using that runs_trans [OF vm1(1) vm2(1)] vm2(2) m by blast
qed

section \<open>Opening the table\<close>

definition open_inst :: "table_def \<Rightarrow> instruction" where
  "open_inst t = Instruction (Cursor Op_OpenRead) 0 (sint (ucast (td_rootpage t) :: 32 word)) 0 (P4_Int (of_nat (length (td_columns t)))) 0"

definition opened :: "vm_env \<Rightarrow> program \<Rightarrow> runtime_ctx \<Rightarrow> text_encoding \<Rightarrow> pager \<Rightarrow> vdbe \<Rightarrow> bool" where
  "opened env prog rc enc q vm \<longleftrightarrow>
     reading prog vm \<and> starting rc (Some q) vm \<and> vm_encoding vm = enc \<and> length (vm_regs vm) = num_regs prog"

lemma opened_moved: "opened env prog rc enc q vm \<Longrightarrow> moved (starting rc (Some q)) W vm vm' \<Longrightarrow> opened env prog rc enc q vm'"
  using same_frame_reading [of vm vm' prog] by (auto simp: opened_def moved_def same_frame_def)

lemma rewind_yields:
  assumes code: "get_opt (prog_instructions prog) (vm_pc vm) = Some (Instruction (Cursor Op_Rewind) 0 (L el) 0 P4_None 0)"
    and tail: "tail_code prog L nl el (vm_pc vm + 1) k"
    and vm: "reading prog vm" "vm_ctx vm = rc" "vm_encoding vm = enc" "length (vm_regs vm) = num_regs prog" "vm_pager vm = Some q"
    and c: "slot 0 vm = Some (Cur_Table c)" "tc_root c = troot tr" "tc_usable c = p_usable_size q"
    and tr: "tree_at q tr" "alloc_ok_pager q" "weight tr \<le> ve_depth env"
    and cs: "counters lreg oreg lim off (vm_regs vm)" and cont: "continues env prog rc enc lreg oreg (vm_pc vm + 1) (rows tr) X"
  shows "yields env vm (limited lim off X)"
proof -
  obtain c' q' where n: "cursor_rewind (ve_depth env) (c, q) = ((c', q'), Inr ())" "cursor_at (ve_depth env) (c', q') (rows tr)"
    using cursor_rewind_ok [OF tr c(2,3)] by blast
  have v: "cursor_is_valid c' \<longleftrightarrow> rows tr \<noteq> []" using cursor_at_valid [OF n(2)] by simp
  let ?vm1 = "put_slot 0 (Cur_Table c') (vm\<lparr>vm_pager := Some q'\<rparr>)"
  let ?vm' = "?vm1\<lparr>vm_decoded := None, vm_pc := (if rows tr = [] then usize_of (L el) else vm_pc vm + 1)\<rparr>"
  have "with_table 0 (table_moved (cursor_rewind (ve_depth env))) vm = (?vm1, Inr (rows tr \<noteq> []))"
    using c(1) vm(5) n(1) v by (simp add: with_table_def table_cursor_of_def table_moved_def bind_op_def then_op_def)
  then have "do_Rewind env (Instruction (Cursor Op_Rewind) 0 (L el) 0 P4_None 0) vm = (?vm', Inr Again)"
    using c(1) by (simp add: do_Rewind_def cursor_mut_def ok_or_def bind_op_def then_op_def forget_decoded_def branch_def
        jump_to_def advance_def Let_def)
  then have run: "runs env vm ?vm'"
    using code vm(1) by (intro runs_turn) (simp add: turn_at reading_def)
  have "slot 0 ?vm1 = Some (Cur_Table c')" using c(1) by (simp add: slot_put [of 0 _ "Cur_Table c"])
  then have s: "scanning env prog rc enc (rows tr) ?vm'" using vm n(2) by (simp add: scanning_def reading_def put_slot_def)
  have "yields env ?vm' (limited lim off X)"
  proof (cases "rows tr = []")
    case True
    then show ?thesis using end_yields [OF tail s] cont by (simp add: continues_def)
  next
    case False
    then show ?thesis using cont s cs by (simp add: continues_def)
  qed
  then show ?thesis using yields_runs [OF run] vm(1) s by (simp add: scanning_def reading_def)
qed

lemma open_yields:
  assumes code: "get_opt (prog_instructions prog) (vm_pc vm) = Some (open_inst t)"
      "get_opt (prog_instructions prog) (vm_pc vm + 1) = Some (Instruction (Cursor Op_Rewind) 0 (L el) 0 P4_None 0)"
    and tail: "tail_code prog L nl el (vm_pc vm + 2) k"
    and vm: "opened env prog rc enc q vm" and root: "ucast (td_rootpage t) = troot tr"
    and tr: "tree_at q tr" "alloc_ok_pager q" "weight tr \<le> ve_depth env"
    and cs: "counters lreg oreg lim off (vm_regs vm)" and cont: "continues env prog rc enc lreg oreg (vm_pc vm + 2) (rows tr) X"
  shows "yields env vm (limited lim off X)"
proof -
  let ?c = "table_cursor_new q (troot tr)"
  let ?vm' = "vm\<lparr>vm_cursors := [Some (Cur_Table ?c)], vm_cursor_root := (vm_cursor_root vm)(0 \<mapsto> troot tr), vm_pc := vm_pc vm + 1\<rparr>"
  have "do_OpenRead (open_inst t) vm = (?vm', Inr Again)"
    using vm root by (simp add: do_OpenRead_def open_inst_def open_btree_def key_info_of_def opened_def starting_def with_pager_def get_op_def
        then_op_def bind_op_def vdbe_set_cursor_def put_slot_def usize_of_def set_cursor_root_def modify_op_def advance_def)
  then have run: "runs env vm ?vm'"
    using code(1) vm by (intro runs_turn) (simp add: turn_at opened_def reading_def open_inst_def)
  have tc: "tc_root ?c = troot tr" "tc_usable ?c = p_usable_size q" by (simp_all add: table_cursor_new_def)
  have "yields env ?vm' (limited lim off X)"
  proof (rule rewind_yields [OF _ _ _ _ _ _ _ _ tc tr])
    show "get_opt (prog_instructions prog) (vm_pc ?vm') = Some (Instruction (Cursor Op_Rewind) 0 (L el) 0 P4_None 0)" using code(2) by simp
    show "tail_code prog L nl el (vm_pc ?vm' + 1) k" using tail by simp
    show "continues env prog rc enc lreg oreg (vm_pc ?vm' + 1) (rows tr) X" using cont by simp
  qed (use vm cs in \<open>simp_all add: opened_def reading_def starting_def slot_def usize_of_def\<close>)
  then show ?thesis using yields_runs [OF run] vm by (simp add: opened_def reading_def)
qed

lemma open_table_rowid:
  assumes "open_table t 0 b = (b', Inr ())" and "\<not> td_without_rowid t"
  shows "grows (append_inst (open_inst t) b) b'" and "bd_insts b' = bd_insts b @ [open_inst t]"
    and "bd_next_reg b' = bd_next_reg b" and "bd_fixups b' = bd_fixups b"
  using assms
  by (auto simp: open_table_def emit_def note_cursor_def i32_add_def set_p4_def update_inst_def bind_op_success then_op_success
      append_inst_def instruction_new_def open_inst_def grows_def split: if_splits)

section \<open>The whole program\<close>

definition query_code :: "select_stmt \<Rightarrow> table_def \<Rightarrow> (expr \<times> bytes) list \<Rightarrow> i64 option \<Rightarrow> i64 \<Rightarrow> unit code_op" where
  "query_code sel t outputs limit offset =
     (if limit = Some 0 then emit_op (Control Op_Halt) 0 0 0
      else bind_op (counter_regs limit offset) (\<lambda>(limit_reg, offset_reg).
           then_op (open_table t 0) (compile_scan_unordered sel (table_ctx t 0) (map fst outputs) limit_reg offset_reg)))"

definition init_builder :: builder where
  "init_builder = add_fixup 0 0 (append_inst (Instruction (Control Op_Init) 0 0 0 P4_None 0) (builder_new\<lparr>bd_label_addr := [None]\<rparr>))"

lemma init_builder_simps [simp]:
  "bd_insts init_builder = [Instruction (Control Op_Init) 0 0 0 P4_None 0]" "bd_next_reg init_builder = 1" "fixed init_builder"
  by (simp_all add: init_builder_def builder_new_def fixed_def)

text \<open>Every program starts with a jump behind its code, to instructions that prepare it and jump back.\<close>

definition append_insts :: "instruction list \<Rightarrow> builder \<Rightarrow> builder" where
  "append_insts is b = b\<lparr>bd_insts := bd_insts b @ is\<rparr>"

lemma append_insts_grows [simp]: "grows b (append_insts is b)"
  by (auto simp: grows_def append_insts_def)

lemma program_layout:
  assumes g: "grows init_builder bm" and r: "resolve 0 bm = (bs, Inr ())" and fin: "finish (append_insts setup bs) = Inr prog"
  obtains L where "linked (prog_instructions prog) L bm" "bd_next_reg bm \<le> int (num_regs prog)"
    "get_opt (prog_instructions prog) 0 = Some (Instruction (Control Op_Init) 0 (int (length (bd_insts bm))) 0 P4_None 0)"
    "\<And>k. k < length setup \<Longrightarrow> get_opt (prog_instructions prog) (length (bd_insts bm) + k) = Some (setup ! k)"
proof -
  let ?init = "Instruction (Control Op_Init) 0 0 0 P4_None 0" and ?b1 = "builder_new\<lparr>bd_label_addr := [None]\<rparr>"
  let ?bg = "append_insts setup bs" let ?L = "final_addr ?bg"
  have n: "new_label builder_new = (?b1, Inr 0)" by (simp add: new_label_def builder_new_def)
  have i: "init_builder = add_fixup (length (bd_insts ?b1)) 0 (append_inst ?init ?b1)" by (simp add: init_builder_def builder_new_def)
  have g1: "grows ?b1 bm" using grows_append(2) g unfolding i by (rule grows_trans)
  have fm: "fixed bm" using g by (rule grows_fixed) simp
  have f1: "fixed ?b1" by (simp add: fixed_def builder_new_def)
  have "bd_insts bs = bd_insts bm" "bd_fixups bs = bd_fixups bm" "bd_next_reg bs = bd_next_reg bm"
    using r by (auto simp: resolve_def split: if_splits)
  then have bs: "bd_insts bs = bd_insts bm" "bd_next_reg bs = bd_next_reg bm" "fixed bs" using fm by (simp_all add: fixed_def)
  have fg: "fixed ?bg" using append_insts_grows bs(3) by (rule grows_fixed)
  note fin = finish_linked [OF fin fg]
  note res = resolve_linked [OF n g1 r linked_mono [OF fin(1) append_insts_grows]]
  have "get_opt (prog_instructions prog) 0 = Some (with_p2 (?L 0) ?init)"
    using linked_branch [OF res(1) _ f1, of 0 ?init] g unfolding i by (simp add: builder_new_def)
  moreover have "get_opt (prog_instructions prog) (length (bd_insts bm) + k) = Some (setup ! k)" if "k < length setup" for k
  proof -
    have "map_of (bd_fixups bs) (length (bd_insts bm) + k) = None" using bs(1,3) by (auto simp: fixed_def map_of_eq_None_iff)
    then have "final_inst ?L ?bg (length (bd_insts bm) + k) = setup ! k" using bs(1) by (simp add: final_inst_def append_insts_def)
    then show ?thesis using fin(1,3) that bs(1) by (simp add: linked_def get_opt_def append_insts_def)
  qed
  moreover have "bd_next_reg bm \<le> int (num_regs prog)"
    using grows_regs [OF g] fin(2) bs(2) by (simp add: num_regs_def usize_of_def append_insts_def)
  ultimately show ?thesis using that [OF res(1)] res(2) by simp
qed

lemma init_emitted: "jump_p5 (Control Op_Init) 0 0 0 0 (builder_new\<lparr>bd_label_addr := [None]\<rparr>) = (init_builder, Inr ())"
  "new_label builder_new = (builder_new\<lparr>bd_label_addr := [None]\<rparr>, Inr 0)"
  by (simp_all add: emitted emit_branch_def init_builder_def builder_new_def new_label_def)

lemma query_program:
  assumes "compile_scan sel t outputs limit offset = Inr prog" and "ss_order_by sel = []"
    and ext: "extends (query_code sel t outputs limit offset)"
  obtains bm L where "query_code sel t outputs limit offset init_builder = (bm, Inr ())" "linked (prog_instructions prog) L bm"
    "bd_next_reg bm \<le> int (num_regs prog)"
    "get_opt (prog_instructions prog) 0 = Some (Instruction (Control Op_Init) 0 (int (length (bd_insts bm))) 0 P4_None 0)"
    "get_opt (prog_instructions prog) (length (bd_insts bm)) = Some (Instruction (Txn Op_Transaction) 0 0 0 P4_None 0)"
    "get_opt (prog_instructions prog) (length (bd_insts bm) + 1) = Some (Instruction (Control Op_Goto) 0 1 0 P4_None 0)"
proof -
  let ?entry = "[Instruction (Txn Op_Transaction) 0 0 0 P4_None 0, Instruction (Control Op_Goto) 0 1 0 P4_None 0]"
  have "snd (bind_op new_label (\<lambda>setup. then_op (jump_p5 (Control Op_Init) 0 setup 0 0) (bind_op (get_op cur_addr) (\<lambda>after_init.
      then_op (query_code sel t outputs limit offset) (then_op (resolve setup) (then_op (emit_op (Txn Op_Transaction) 0 0 0)
        (then_op (emit_op (Control Op_Goto) 0 after_init 0) finish_op)))))) builder_new) = Inr prog"
    using assms(1,2) by (simp add: compile_scan_def query_code_def Let_def cong: if_cong)
  then obtain bm bs where b: "query_code sel t outputs limit offset init_builder = (bm, Inr ())" "resolve 0 bm = (bs, Inr ())"
      "finish (append_insts ?entry bs) = Inr prog"
    by (auto simp: bind_op_def then_op_def init_emitted emit_forms(1) emit_inst_def get_op_def cur_addr_def finish_op_def append_insts_def
        append_inst_def split: prod.splits sum.splits)
  obtain L where L: "linked (prog_instructions prog) L bm" "bd_next_reg bm \<le> int (num_regs prog)"
    "get_opt (prog_instructions prog) 0 = Some (Instruction (Control Op_Init) 0 (int (length (bd_insts bm))) 0 P4_None 0)"
    "\<And>k. k < length ?entry \<Longrightarrow> get_opt (prog_instructions prog) (length (bd_insts bm) + k) = Some (?entry ! k)"
    using program_layout [OF extendsD [OF ext b(1)] b(2,3)] by blast
  show ?thesis using that [OF b(1) L(1-3)] L(4) [of 0] L(4) [of 1] by simp
qed

text \<open>The queries covered: a rowid table read in its own order, with a condition and outputs whose code is covered.\<close>

definition plain_query :: "table_def \<Rightarrow> select_stmt \<Rightarrow> expr list \<Rightarrow> bool" where
  "plain_query t sel es \<longleftrightarrow>
     td_columns t \<noteq> [] \<and> \<not> td_without_rowid t \<and> ss_order_by sel = [] \<and> \<not> ss_distinct sel
     \<and> pred_option (condition (\<lambda>_ _. True) (table_ctx t 0)) (ss_where sel) \<and> list_all (supported (\<lambda>_ _. True)) es"

text \<open>The meaning of a query over the rows of its table.\<close>

definition query_meaning :: "vm_env \<Rightarrow> runtime_ctx \<Rightarrow> text_encoding \<Rightarrow> table_def \<Rightarrow> select_stmt \<Rightarrow> expr list \<Rightarrow> (i64 \<times> bytes) list
    \<Rightarrow> sql_value list list result" where
  "query_meaning env rc enc t sel es rs =
     and_then (eval_limit_offset sel) (\<lambda>(limit, offset).
       and_then (all_ok (map (row_output env rc enc t sel es) rs)) (\<lambda>outs.
         Inr (limited (map_option (\<lambda>n. nat (sint n)) limit) (nat (sint offset)) (concat outs))))"

lemma plain_queryD:
  assumes "plain_query t sel es"
  shows "td_columns t \<noteq> []" "\<not> td_without_rowid t" "ss_order_by sel = []" "\<not> ss_distinct sel"
    "ss_where sel = Some w \<Longrightarrow> condition (\<lambda>_ _. True) (table_ctx t 0) w" "e \<in> set es \<Longrightarrow> supported (\<lambda>_ _. True) e"
  using assms by (auto simp: plain_query_def list_all_iff)

lemma limits_not_negative:
  assumes "eval_limit_offset sel = Inr (limit, offset)"
  shows "limit = Some n \<Longrightarrow> 0 \<le> sint n" and "0 \<le> sint offset"
  using assms by (auto simp: eval_limit_offset_def and_then_def split: option.splits sum.splits if_splits)

lemma extends_query:
  assumes "plain_query t sel (map fst outputs)"
  shows "extends (query_code sel t outputs limit offset)"
proof -
  note q = plain_queryD [OF assms]
  have "extends (counter_regs limit offset)" using counter_regs_grows(1) by (fastforce simp: extends_def)
  moreover have "extends (open_table t 0)"
    using open_table_rowid(1) [OF _ q(2)] by (auto simp: extends_def intro: grows_trans [OF grows_append(1)])
  moreover have "extends (compile_scan_unordered sel (table_ctx t 0) (map fst outputs) lreg oreg)" for lreg oreg
    using unordered_code [OF _ q(4) q(5,6)] by (metis (full_types) extends_def unit.exhaust)
  ultimately show ?thesis by (auto simp: query_code_def intro!: extends_intros split: prod.split)
qed

lemma start_runs:
  assumes "get_opt (prog_instructions prog) 0 = Some (Instruction (Control Op_Init) 0 (int k) 0 P4_None 0)"
    and "get_opt (prog_instructions prog) k = Some (Instruction (Txn Op_Transaction) 0 0 0 P4_None 0)"
    and "get_opt (prog_instructions prog) (k + 1) = Some (Instruction (Control Op_Goto) 0 1 0 P4_None 0)"
    and "begin_read p = (q, Inr ())"
  shows "runs env (vdbe_new prog (Some p) rc) ((vdbe_new prog (Some p) rc)\<lparr>vm_pager := Some q, vm_pc := 1\<rparr>)"
proof -
  let ?v = "vdbe_new prog (Some p) rc"
  have v: "vm_program ?v = prog" "vm_pc ?v = 0" "vm_pager ?v = Some p" by (simp_all add: vdbe_new_def)
  have "runs env ?v (?v\<lparr>vm_pc := k\<rparr>)"
    using assms(1) v by (intro runs_turn) (simp add: turn_at do_Init_def jump_to_def usize_of_def)
  also have "runs env (?v\<lparr>vm_pc := k\<rparr>) (?v\<lparr>vm_pager := Some q, vm_pc := k + 1\<rparr>)"
    using assms(2,4) v by (intro runs_turn) (simp add: turn_at do_Transaction_def with_pager_def then_op_def bind_op_def advance_def)
  also have "runs env (?v\<lparr>vm_pager := Some q, vm_pc := k + 1\<rparr>) (?v\<lparr>vm_pager := Some q, vm_pc := 1\<rparr>)"
    using assms(3) v by (intro runs_turn) (simp add: turn_at do_Goto_def jump_to_def usize_of_def)
  finally show ?thesis .
qed

lemma scan_yields:
  assumes q: "plain_query t sel (map fst outputs)" and code: "query_code sel t outputs limit offset init_builder = (bm, Inr ())"
    and l: "linked (prog_instructions prog) L bm" and n: "bd_next_reg bm \<le> int (num_regs prog)"
    and lim: "limit \<noteq> Some 0" "\<And>n. limit = Some n \<Longrightarrow> 0 \<le> sint n" "0 \<le> sint offset"
    and vm: "opened env prog rc enc q vm" "vm_pc vm = 1"
    and tr: "tree_at q tr" "alloc_ok_pager q" "weight tr \<le> ve_depth env" "ucast (td_rootpage t) = troot tr"
    and outs: "all_ok (map (row_output env rc enc t sel (map fst outputs)) (rows tr)) = Inr outs"
  shows "yields env vm (limited (map_option (\<lambda>n. nat (sint n)) limit) (nat (sint offset)) (concat outs))"
proof -
  note pq = plain_queryD [OF q]
  obtain bc lreg oreg bo where b: "counter_regs limit offset init_builder = (bc, Inr (lreg, oreg))" "open_table t 0 bc = (bo, Inr ())"
      "compile_scan_unordered sel (table_ctx t 0) (map fst outputs) lreg oreg bo = (bm, Inr ())"
    using code lim(1) by (auto simp: query_code_def bind_op_success then_op_success)
  note gc = counter_regs_grows [OF b(1)] and ot = open_table_rowid [OF b(2) pq(2)]
  have gu: "grows bo bm" using unordered_code [OF b(3) pq(4-6)] by blast
  have gco: "grows bc bo" using grows_append(1) ot(1) by (rule grows_trans)
  have lo: "linked (prog_instructions prog) L bo" and lc: "linked (prog_instructions prog) L bc"
    using linked_mono [OF l gu] linked_mono [OF linked_mono [OF l gu] gco] by blast+
  have fc: "fixed bc" and fo: "fixed bo" using grows_fixed [OF gc(1)] grows_fixed [OF gco] by simp_all
  note regs = grows_regs [OF gc(1), simplified] grows_regs [OF gco] grows_regs [OF gu]
  have z: "0 \<le> bd_next_reg bo" "\<And>r. lreg = Some r \<or> oreg = Some r \<Longrightarrow> r < bd_next_reg bo" "lreg = oreg \<Longrightarrow> lreg = None"
    using regs gc(2,3) ot(3) by auto
  obtain nl el rr b2 b3 b4 b5 b6 b8 where
    lp: "loop_code prog L sel (table_ctx t 0) (map fst outputs) lreg oreg nl el rr [b2, b3, b4, b5, b6, b8]"
    and rw: "get_opt (prog_instructions prog) (length (bd_insts bo)) = Some (Instruction (Cursor Op_Rewind) 0 (L el) 0 P4_None 0)"
    and b2: "length (bd_insts b2) = length (bd_insts bo) + 1"
    using unordered_loop [OF b(3) pq(4-6) l fo n z] by blast
  have "ready 0 (starting rc (Some q)) (prog_instructions prog) init_builder bc vm"
    using vm n regs by (simp add: ready_def opened_def reading_def)
  then obtain vm1 where vm1: "runs env vm vm1" "vm_pc vm1 = length (bd_insts bc)"
      "moved (starting rc (Some q)) {bd_next_reg init_builder..<bd_next_reg bc} vm vm1"
      "counters lreg oreg (map_option (\<lambda>n. nat (sint n)) limit) (nat (sint offset)) (vm_regs vm1)"
    using counter_regs_runs [OF b(1) lc _ lim] by blast
  have o1: "opened env prog rc enc q vm1" using vm(1) vm1(3) by (rule opened_moved)
  have op: "get_opt (prog_instructions prog) (vm_pc vm1) = Some (open_inst t)" using linked_plain [OF lo ot(1) fc] vm1(2) by simp
  have "continues env prog rc enc lreg oreg (length (bd_insts b2)) (rows tr) (concat outs)"
    using loop_yields [OF lp pq(1,2) pq(5,6) outs] .
  moreover have "tail_code prog L nl el (length (bd_insts b2)) (length (bd_insts b8))" using lp by (simp add: loop_code_def)
  ultimately have "yields env vm1 (limited (map_option (\<lambda>n. nat (sint n)) limit) (nat (sint offset)) (concat outs))"
    using open_yields [OF op _ _ o1 tr(4) tr(1-3) vm1(4)] rw b2 ot(2) vm1(2) by simp
  then show ?thesis using yields_runs [OF vm1(1)] vm(1) o1 by (simp add: opened_def reading_def)
qed

lemma begin_read_store:
  assumes "begin_read p = (q, Inr ())" and "alloc_ok_pager p"
  shows "pager_alloc.same_store p q" "p_usable_size q = p_usable_size p"
proof -
  obtain l where q: "q = p\<lparr>p_locks := l\<rparr>" using assms(1) by (auto simp: begin_read_def pager_lock_def split: prod.splits)
  have "view q = view p" by (rule ext) (simp add: q view_def base_page_def wal_frame_of_def split: option.split)
  moreover have "alloc_ok_pager q" using assms(2) by (simp add: q alloc_ok_pager_def pager_ok_def cache_ok_def no_freelist_def)
  ultimately show "pager_alloc.same_store p q" "p_usable_size q = p_usable_size p"
    by (simp_all add: pager_alloc.same_store_def q in_range_def pages_left_def fun_eq_iff)
qed

section \<open>A sample query\<close>

text \<open>\<open>SELECT a, rowid FROM t WHERE a > 5 LIMIT 1 OFFSET 1\<close> over three rows.\<close>

definition sample_table :: table_def where
  "sample_table =
     \<lparr>td_name = ascii_bytes ''t'', td_rootpage = 2, td_columns = [\<lparr>cd_name = ascii_bytes ''a'', cd_affinity = Aff_Integer, cd_collation = Binary\<rparr>],
      td_rowid_alias = None, td_without_rowid = False, td_pk_columns = []\<rparr>"

definition sample_select :: select_stmt where
  "sample_select =
     \<lparr>ss_distinct = False, ss_where = Some (E_Binary B_Gt (E_Column None (ascii_bytes ''a'')) (E_Literal (Lit_Integer 5))),
      ss_order_by = [], ss_limit = Some (E_Literal (Lit_Integer 1)), ss_offset = Some (E_Literal (Lit_Integer 1))\<rparr>"

definition sample_outputs :: "(expr \<times> bytes) list" where
  "sample_outputs = [(E_Column None (ascii_bytes ''a''), ascii_bytes ''a''), (E_Column None (ascii_bytes ''rowid''), ascii_bytes ''rowid'')]"

definition sample_rows :: "(i64 \<times> bytes) list" where
  "sample_rows = [(1, [2, 1, 7]), (5, [2, 1, 3]), (9, [2, 1, 8])]"

definition sample_env :: vm_env where
  "sample_env = \<lparr>ve_depth = 4, ve_autovac = ret_op (), ve_drain = id, ve_salts = (0, 0), ve_cksum_init = 0,
     ve_call_scalar = (\<lambda>_ _. Inr VNull), ve_date_fn = (\<lambda>_ _. Inr VNull)\<rparr>"

lemma sample_compiles: "\<exists>prog. compile_scan sample_select sample_table sample_outputs (Some 1) 1 = Inr prog"
proof -
  have "\<not> isl (compile_scan sample_select sample_table sample_outputs (Some 1) 1)" by code_simp
  then show ?thesis by (cases "compile_scan sample_select sample_table sample_outputs (Some 1) 1") simp_all
qed

lemma sample_query_plain: "plain_query sample_table sample_select (map fst sample_outputs)"
  by (simp add: plain_query_def sample_table_def sample_select_def sample_outputs_def)

lemma sample_limits: "eval_limit_offset sample_select = Inr (Some 1, 1)"
  by code_simp

lemma sample_db:
  "\<exists>q. begin_read (leaf_db sample_rows) = (q, Inr ())" "p_text_encoding (leaf_db sample_rows) = Utf8"
  "table_ok (leaf_db sample_rows) (TLeaf 2 (leaf_rows sample_rows))"
proof -
  have "snd (mem_lock 0 Shared (new_sys 2)) = Inr ()" by code_simp
  then have "snd (begin_read (leaf_db sample_rows)) = Inr ()"
    by (simp add: begin_read_def pager_lock_def leaf_db_def pager_of_def case_prod_beta)
  then show "\<exists>q. begin_read (leaf_db sample_rows) = (q, Inr ())" by (cases "begin_read (leaf_db sample_rows)") simp
  show "p_text_encoding (leaf_db sample_rows) = Utf8" by (simp add: p_text_encoding_def leaf_db_fields fresh_header_def)
  have "length (row_cell (1, [2, 1, 7])) = 5" "length (row_cell (5, [2, 1, 3])) = 5" "length (row_cell (9, [2, 1, 8])) = 5"
    by code_simp+
  then show "table_ok (leaf_db sample_rows) (TLeaf 2 (leaf_rows sample_rows))" by (intro leaf_db_table) (simp_all add: sample_rows_def)
qed

lemma sample_records: "decode_record [2, 1, 7] Utf8 = Inr [VInt 7]" "decode_record [2, 1, 3] Utf8 = Inr [VInt 3]" "decode_record [2, 1, 8] Utf8 = Inr [VInt 8]"
  by code_simp+

lemma sample_columns:
  "row_column sample_table rowid [v] q (ascii_bytes ''a'') = v" "row_column sample_table rowid vals q (ascii_bytes ''rowid'') = VInt rowid"
proof -
  have "resolve_column sample_table (ascii_bytes ''a'') = Some (Ref_Index 0)" "resolve_column sample_table (ascii_bytes ''rowid'') = Some Ref_Rowid"
    by code_simp+
  then show "row_column sample_table rowid [v] q (ascii_bytes ''a'') = v" "row_column sample_table rowid vals q (ascii_bytes ''rowid'') = VInt rowid"
    by (simp_all add: row_column_def field_def sample_table_def)
qed

lemma sample_compare:
  "compare_exprs (table_ctx sample_table 0) Op_Gt False (E_Column None (ascii_bytes ''a'')) (E_Literal (Lit_Integer 5)) (VInt 7) (VInt 5) = Inr (Some True)"
  "compare_exprs (table_ctx sample_table 0) Op_Gt False (E_Column None (ascii_bytes ''a'')) (E_Literal (Lit_Integer 5)) (VInt 8) (VInt 5) = Inr (Some True)"
  "compare_exprs (table_ctx sample_table 0) Op_Gt False (E_Column None (ascii_bytes ''a'')) (E_Literal (Lit_Integer 5)) (VInt 3) (VInt 5) = Inr (Some False)"
  by code_simp+

lemma sample_meaning:
  "query_meaning sample_env rc Utf8 sample_table sample_select (map fst sample_outputs) sample_rows = Inr [[VInt 8, VInt 9]]"
proof -
  have "all_ok (map (row_output sample_env rc Utf8 sample_table sample_select (map fst sample_outputs)) sample_rows)
      = Inr [[[VInt 7, VInt 1]], [], [[VInt 8, VInt 9]]]"
    by (simp add: sample_rows_def sample_select_def sample_outputs_def row_output_def sample_records and_then_def sample_columns
       binary_value_def sample_compare Let_def is_true_def)
  then show ?thesis by (simp add: query_meaning_def sample_limits and_then_def limited_def)
qed

text \<open>
  C1. A query over a rowid table runs to its end without an error and returns exactly the rows of its
  meaning. The program is the one the code generator makes for the statement; it is run from its first
  instruction on an open database whose table is the b-tree \<open>tr\<close>. The meaning takes the rows of the tree
  in key order, decodes each record, keeps those whose condition is true, evaluates the output expressions
  and applies \<open>OFFSET\<close> and then \<open>LIMIT\<close>.
\<close>

theorem select_scan_returns:
  assumes "plain_query t sel (map fst outputs)" and "eval_limit_offset sel = Inr (limit, offset)"
    and "compile_scan sel t outputs limit offset = Inr prog"
    and "begin_read p = (q, Inr ())" and "tree_at p tr" and "alloc_ok_pager p" and "weight tr \<le> ve_depth env"
    and "ucast (td_rootpage t) = troot tr"
    and "query_meaning env rc (p_text_encoding p) t sel (map fst outputs) (rows tr) = Inr result"
  shows "yields env (vdbe_new prog (Some p) rc) result"
proof -
  note pq = plain_queryD [OF assms(1)]
  let ?vm = "(vdbe_new prog (Some p) rc)\<lparr>vm_pager := Some q, vm_pc := 1\<rparr>"
  obtain outs where outs: "all_ok (map (row_output env rc (p_text_encoding p) t sel (map fst outputs)) (rows tr)) = Inr outs"
      "result = limited (map_option (\<lambda>n. nat (sint n)) limit) (nat (sint offset)) (concat outs)"
    using assms(2,9) by (auto simp: query_meaning_def and_then_def split: sum.splits)
  obtain bm L where bm: "query_code sel t outputs limit offset init_builder = (bm, Inr ())" "linked (prog_instructions prog) L bm"
      "bd_next_reg bm \<le> int (num_regs prog)"
    and start: "get_opt (prog_instructions prog) 0 = Some (Instruction (Control Op_Init) 0 (int (length (bd_insts bm))) 0 P4_None 0)"
      "get_opt (prog_instructions prog) (length (bd_insts bm)) = Some (Instruction (Txn Op_Transaction) 0 0 0 P4_None 0)"
      "get_opt (prog_instructions prog) (length (bd_insts bm) + 1) = Some (Instruction (Control Op_Goto) 0 1 0 P4_None 0)"
    using query_program [OF assms(3) pq(3) extends_query [OF assms(1)]] .
  have tq: "tree_at q tr" "alloc_ok_pager q"
    using begin_read_store(1) [OF assms(4,6)] tree_at_same [of p q] assms(5) by (auto simp: pager_alloc.same_store_def)
  have o: "opened env prog rc (p_text_encoding p) q ?vm"
    by (simp add: opened_def reading_def starting_def vdbe_new_def)
  have "yields env ?vm result"
  proof (cases "limit = Some 0")
    case True
    then have "bm = append_inst (Instruction (Control Op_Halt) 0 0 0 P4_None 0) init_builder"
      using bm(1) by (simp add: query_code_def emitted emit_inst_def)
    then have "get_opt (prog_instructions prog) 1 = Some (Instruction (Control Op_Halt) 0 0 0 P4_None 0)"
      using linked_plain [OF bm(2), of _ init_builder] by simp
    then show ?thesis using halt_done [of prog ?vm env] o outs(2) True by (simp add: opened_def limited_Cons)
  next
    case False
    then show ?thesis
      using scan_yields [OF assms(1) bm False limits_not_negative [OF assms(2)] o _ tq assms(7,8) outs(1)] outs(2) by simp
  qed
  moreover have "\<not> vm_halted (vdbe_new prog (Some p) rc)" by (simp add: vdbe_new_def)
  ultimately show ?thesis using yields_runs [OF start_runs [OF start assms(4)]] o by (simp add: opened_def reading_def)
qed

theorem select_scan_returns_witness:
  "\<exists>prog. compile_scan sample_select sample_table sample_outputs (Some 1) 1 = Inr prog
     \<and> yields sample_env (vdbe_new prog (Some (leaf_db sample_rows)) (runtime_ctx_new 1 0)) [[VInt 8, VInt 9]]"
proof -
  obtain prog q where p: "compile_scan sample_select sample_table sample_outputs (Some 1) 1 = Inr prog"
      "begin_read (leaf_db sample_rows) = (q, Inr ())"
    using sample_compiles sample_db(1) by blast
  let ?tr = "TLeaf 2 (leaf_rows sample_rows)"
  have t: "tree_at (leaf_db sample_rows) ?tr" "alloc_ok_pager (leaf_db sample_rows)" using sample_db(3) by (simp_all add: table_ok_def)
  have "weight ?tr \<le> ve_depth sample_env" "ucast (td_rootpage sample_table) = troot ?tr"
    by (simp_all add: sample_env_def sample_table_def)
  moreover have "query_meaning sample_env (runtime_ctx_new 1 0) (p_text_encoding (leaf_db sample_rows)) sample_table sample_select
      (map fst sample_outputs) (rows ?tr) = Inr [[VInt 8, VInt 9]]"
    unfolding sample_db(2) leaf_rows_facts(1) by (rule sample_meaning)
  ultimately have "yields sample_env (vdbe_new prog (Some (leaf_db sample_rows)) (runtime_ctx_new 1 0)) [[VInt 8, VInt 9]]"
    by (rule select_scan_returns [OF sample_query_plain sample_limits p t])
  then show ?thesis using p(1) by blast
qed

end
