(* ===== verification/Constant_Select.thy ===== *)
theory Constant_Select
  imports Select_Correct
begin

text \<open>
  Queries without a table: the program of \<open>compile_constant\<close> returns the one row of the query, or none.
\<close>

section \<open>The program\<close>

definition constant_code :: "select_stmt \<Rightarrow> expr list \<Rightarrow> i64 option \<Rightarrow> i64 \<Rightarrow> unit code_op" where
  "constant_code sel es limit offset =
     (if limit = Some 0 \<or> 0 < sint offset then ret_op ()
      else bind_op new_label (\<lambda>end_label.
           then_op (jump_where sel (table_ctx empty_table (- 1)) end_label)
          (bind_op (alloc_regs (int (length es))) (\<lambda>result_reg.
           then_op (project (table_ctx empty_table (- 1)) es result_reg)
          (then_op (emit_op (Cursor Op_ResultRow) result_reg (int (length es)) 0)
                   (resolve end_label))))))"

lemma constant_builders:
  assumes "constant_code sel es limit offset b = (bm, Inr ())" and "\<not> (limit = Some 0 \<or> 0 < sint offset)"
    and sup: "\<And>w. ss_where sel = Some w \<Longrightarrow> condition known (table_ctx empty_table (- 1)) w" "\<And>e. e \<in> set es \<Longrightarrow> supported known e"
  obtains el b2 b3 b4 rr b5 where "new_label b = (b2, Inr el)" "jump_where sel (table_ctx empty_table (- 1)) el b2 = (b3, Inr ())"
    "alloc_regs (int (length es)) b3 = (b4, Inr rr)" "project (table_ctx empty_table (- 1)) es rr b4 = (b5, Inr ())"
    "resolve el (append_inst (row_inst rr (int (length es))) b5) = (bm, Inr ())"
    "grows b2 b3" "grows b3 b4" "grows b4 b5" "grows b2 (append_inst (row_inst rr (int (length es))) b5)" "grows b bm"
proof -
  let ?cx = "table_ctx empty_table (- 1)"
  obtain el b2 b3 b4 rr b5 where b: "new_label b = (b2, Inr el)" "jump_where sel ?cx el b2 = (b3, Inr ())"
      "alloc_regs (int (length es)) b3 = (b4, Inr rr)" "project ?cx es rr b4 = (b5, Inr ())"
      "resolve el (append_inst (row_inst rr (int (length es))) b5) = (bm, Inr ())"
    using assms(1,2) by (auto simp: constant_code_def bind_op_success then_op_success emitted emit_inst_def row_inst_def)
  have g: "grows b2 b3" "grows b3 b4" "grows b4 b5"
    using extendsD [OF extends_where [OF sup(1)] b(2)] alloc_regs_grows [OF b(3)] extendsD [OF extends_project [OF sup(2)] b(4)] by blast+
  have g5: "grows b2 (append_inst (row_inst rr (int (length es))) b5)" using g grows_append(1) grows_trans by blast
  show ?thesis using that [OF b g g5 resolve_grows [OF b(1) g5 b(5)]] .
qed

definition constant_query :: "select_stmt \<Rightarrow> expr list \<Rightarrow> bool" where
  "constant_query sel es \<longleftrightarrow>
     pred_option (condition (\<lambda>_ _. False) (table_ctx empty_table (- 1))) (ss_where sel) \<and> list_all (supported (\<lambda>_ _. False)) es"

lemma constant_queryD:
  assumes "constant_query sel es"
  shows "ss_where sel = Some w \<Longrightarrow> condition (\<lambda>_ _. False) (table_ctx empty_table (- 1)) w" "e \<in> set es \<Longrightarrow> supported (\<lambda>_ _. False) e"
  using assms by (auto simp: constant_query_def list_all_iff)

lemma extends_constant:
  assumes "constant_query sel es"
  shows "extends (constant_code sel es limit offset)"
proof -
  have "grows b bm" if "constant_code sel es limit offset b = (bm, Inr ())" for b bm
  proof (cases "limit = Some 0 \<or> 0 < sint offset")
    case True
    then show ?thesis using that by (auto simp: constant_code_def ret_op_def)
  next
    case False
    then show ?thesis using constant_builders [OF that False constant_queryD [OF assms]] by blast
  qed
  then show ?thesis by (simp add: extends_def)
qed

lemma constant_program:
  assumes "compile_constant sel es limit offset = Inr prog" and q: "constant_query sel es"
  obtains bm L where "constant_code sel es limit offset init_builder = (bm, Inr ())" "linked (prog_instructions prog) L (append_inst halt_inst bm)"
    "bd_next_reg bm \<le> int (num_regs prog)" "grows init_builder bm"
    "get_opt (prog_instructions prog) 0 = Some (Instruction (Control Op_Init) 0 (int (length (bd_insts bm)) + 1) 0 P4_None 0)"
    "get_opt (prog_instructions prog) (length (bd_insts bm) + 1) = Some (Instruction (Control Op_Goto) 0 1 0 P4_None 0)"
proof -
  let ?entry = "[Instruction (Control Op_Goto) 0 1 0 P4_None 0]"
  have "snd (bind_op new_label (\<lambda>setup. then_op (jump_p5 (Control Op_Init) 0 setup 0 0) (bind_op (get_op cur_addr) (\<lambda>after_init.
      then_op (constant_code sel es limit offset) (then_op (emit_op (Control Op_Halt) 0 0 0) (then_op (resolve setup)
        (then_op (emit_op (Control Op_Goto) 0 after_init 0) finish_op)))))) builder_new) = Inr prog"
    using assms(1) by (simp add: compile_constant_def constant_code_def Let_def cong: if_cong)
  then obtain bm bs where b: "constant_code sel es limit offset init_builder = (bm, Inr ())"
      "resolve 0 (append_inst halt_inst bm) = (bs, Inr ())" "finish (append_insts ?entry bs) = Inr prog"
    by (auto simp: bind_op_def then_op_def init_emitted emit_forms(1) emit_inst_def get_op_def cur_addr_def finish_op_def append_insts_def
        append_inst_def halt_inst_def split: prod.splits sum.splits)
  have g: "grows init_builder bm" using extendsD [OF extends_constant [OF q] b(1)] .
  obtain L where L: "linked (prog_instructions prog) L (append_inst halt_inst bm)" "bd_next_reg bm \<le> int (num_regs prog)"
    "get_opt (prog_instructions prog) 0 = Some (Instruction (Control Op_Init) 0 (int (length (bd_insts bm)) + 1) 0 P4_None 0)"
    "\<And>k. k < length ?entry \<Longrightarrow> get_opt (prog_instructions prog) (length (bd_insts bm) + 1 + k) = Some (?entry ! k)"
    using program_layout [OF grows_trans [OF g grows_append(1)] b(2,3)] by (auto simp: add.commute)
  show ?thesis using that [OF b(1) L(1,2) g L(3)] L(4) [of 0] by simp
qed

section \<open>Running it\<close>

definition constant_meaning :: "vm_env \<Rightarrow> runtime_ctx \<Rightarrow> select_stmt \<Rightarrow> expr list \<Rightarrow> sql_value list list result" where
  "constant_meaning env rc sel es =
     (let ev = eval (pure_call env rc) (\<lambda>_ _. VNull) (table_ctx empty_table (- 1)) in
      and_then (eval_limit_offset sel) (\<lambda>(limit, offset).
      and_then (case ss_where sel of None \<Rightarrow> Inr True | Some w \<Rightarrow> and_then (ev w) (\<lambda>v. Inr (is_true v))) (\<lambda>keep.
        if keep then and_then (all_ok (map ev es)) (\<lambda>vs. Inr (limited (map_option (\<lambda>n. nat (sint n)) limit) (nat (sint offset)) [vs]))
        else Inr [])))"

lemma constant_start_runs:
  assumes "get_opt (prog_instructions prog) 0 = Some (Instruction (Control Op_Init) 0 (int k + 1) 0 P4_None 0)"
    and "get_opt (prog_instructions prog) (k + 1) = Some (Instruction (Control Op_Goto) 0 1 0 P4_None 0)"
  shows "runs env (vdbe_new prog p rc) ((vdbe_new prog p rc)\<lparr>vm_pc := 1\<rparr>)"
proof -
  let ?v = "vdbe_new prog p rc"
  have v: "vm_program ?v = prog" "vm_pc ?v = 0" by (simp_all add: vdbe_new_def)
  have "runs env ?v (?v\<lparr>vm_pc := k + 1\<rparr>)"
    using assms(1) v by (intro runs_turn) (simp add: turn_at do_Init_def jump_to_def usize_of_def nat_add_distrib)
  also have "runs env (?v\<lparr>vm_pc := k + 1\<rparr>) (?v\<lparr>vm_pc := 1\<rparr>)"
    using assms(2) v by (intro runs_turn) (simp add: turn_at do_Goto_def jump_to_def usize_of_def)
  finally show ?thesis .
qed

lemma give_only_row:
  assumes "get_opt (prog_instructions prog) (vm_pc vm) = Some (row_inst rr (int (length vs)))"
    and "get_opt (prog_instructions prog) (vm_pc vm + 1) = Some halt_inst" and r: "reading prog vm"
    and "0 \<le> rr" and len: "nat rr + length vs \<le> length (vm_regs vm)" and "sub (nat rr) (nat rr + length vs) (vm_regs vm) = vs"
  shows "yields env vm [vs]"
proof -
  let ?vm' = "vm\<lparr>vm_result_start := nat rr, vm_result_count := length vs, vm_pc := vm_pc vm + 1\<rparr>"
  have "turn env vm = (?vm', Inr (Give Step_Row))"
    using assms(1,4) r by (simp add: turn_at reading_def row_inst_def do_ResultRow_def usize_of_def)
  moreover have "yields env ?vm' []" using halt_done [of prog ?vm'] assms(2) r by (simp add: reading_def halt_inst_def)
  moreover have "result_row ?vm' = vs" using result_row_regs [OF len] assms(6) by simp
  ultimately show ?thesis using r by (intro yields_give_row) (simp_all add: reading_def)
qed

lemma constant_yields:
  assumes q: "constant_query sel es" and code: "constant_code sel es limit offset init_builder = (bm, Inr ())"
    and l: "linked (prog_instructions prog) L (append_inst halt_inst bm)" and n: "bd_next_reg bm \<le> int (num_regs prog)"
    and lim: "\<not> (limit = Some 0 \<or> 0 < sint offset)"
    and vm: "reading prog vm" "vm_ctx vm = rc" "length (vm_regs vm) = num_regs prog" "vm_pc vm = 1"
    and keep: "(case ss_where sel of None \<Rightarrow> Inr True | Some w \<Rightarrow>
      and_then (eval (pure_call env rc) (\<lambda>_ _. VNull) (table_ctx empty_table (- 1)) w) (\<lambda>v. Inr (is_true v))) = Inr keep"
    and vs: "keep \<Longrightarrow> all_ok (map (eval (pure_call env rc) (\<lambda>_ _. VNull) (table_ctx empty_table (- 1))) es) = Inr vs"
  shows "yields env vm (if keep then [vs] else [])"
proof -
  let ?insts = "prog_instructions prog" and ?rely = "\<lambda>vm. vm_ctx vm = rc"
  obtain el b2 b3 b4 rr b5 where b: "new_label init_builder = (b2, Inr el)" "jump_where sel (table_ctx empty_table (- 1)) el b2 = (b3, Inr ())"
      "alloc_regs (int (length es)) b3 = (b4, Inr rr)" "project (table_ctx empty_table (- 1)) es rr b4 = (b5, Inr ())"
      "resolve el (append_inst (row_inst rr (int (length es))) b5) = (bm, Inr ())"
    and g: "grows b2 b3" "grows b3 b4" "grows b4 b5" "grows b2 (append_inst (row_inst rr (int (length es))) b5)" "grows init_builder bm"
    using constant_builders [OF code lim constant_queryD [OF q]] .
  have lm: "linked ?insts L bm" using linked_mono [OF l] by simp
  note res = resolve_linked [OF b(1) g(4) b(5) lm]
  have l5: "linked ?insts L b5" using linked_mono [OF res(1)] by simp
  have l3: "linked ?insts L b3" using linked_mono [OF l5 grows_trans [OF g(2,3)]] .
  have b2: "bd_insts b2 = bd_insts init_builder" "bd_next_reg b2 = 1" "fixed b2"
    using b(1) by (auto simp: new_label_def fixed_def init_builder_def builder_new_def)
  have al: "rr = bd_next_reg b3" "bd_next_reg b4 = rr + int (length es)" "bd_insts b4 = bd_insts b3" using alloc_regs_grows [OF b(3)] by auto
  note regs = grows_regs [OF g(1)] grows_regs [OF g(2)] grows_regs [OF g(3)]
  have f4: "fixed b4" and f5: "fixed b5" and fm: "fixed bm"
    using g b2(3) grows_fixed grows_trans init_builder_simps(3) by blast+
  have n5: "bd_next_reg b5 \<le> int (length (vm_regs vm))" using n res(4) vm(3) by simp
  have halt: "get_opt ?insts (length (bd_insts bm)) = Some halt_inst" using linked_plain [OF l _ fm] by simp
  have rd: "ready 0 ?rely ?insts b2 b5 vm" using vm b2 n5 by (simp add: ready_def reading_def)
  obtain vm1 where vm1: "runs env vm vm1" "vm_pc vm1 = (if keep then length (bd_insts b3) else usize_of (L el))"
      "moved ?rely {bd_next_reg b2..<bd_next_reg b3} vm vm1"
    using const_source.where_runs [OF b(2) l3 ready_cut [OF rd grows_trans [OF g(2,3)]] constant_queryD(1) [OF q] keep] by blast
  have r1: "reading prog vm1" using vm(1) vm1(3) same_frame_reading by (auto simp: moved_def)
  have "yields env vm1 (if keep then [vs] else [])"
  proof (cases keep)
    case False
    have "length (bd_insts bm) = length (bd_insts b5) + 1" using res(3) by simp
    then have "vm_pc vm1 = length (bd_insts bm)" using vm1(2) False res(2) by (simp add: usize_of_def nat_add_distrib)
    then show ?thesis using halt_done [of prog vm1] halt r1 False by (simp add: halt_inst_def)
  next
    case True
    have "ready 0 ?rely ?insts b3 b5 vm1" using ready_next [OF rd g(1) grows_trans [OF g(2,3)] vm1(3)] vm1(2) True by simp
    then have rd4: "ready 0 ?rely ?insts b4 b5 vm1" using al regs f4 by (simp add: ready_def)
    have rr: "0 \<le> rr" "rr + int (length es) \<le> bd_next_reg b4" using al regs b2(2) by auto
    obtain vm2 where vm2: "runs env vm1 vm2" "vm_pc vm2 = length (bd_insts b5)" "moved ?rely {rr..<bd_next_reg b5} vm1 vm2"
        "length vs = length es" "sub (nat rr) (nat rr + length es) (vm_regs vm2) = vs"
      using const_source.project_runs [OF b(4) l5 rd4 rr g(3) constant_queryD(2) [OF q] vs [OF True]] by blast
    have r2: "reading prog vm2" using r1 vm2(3) same_frame_reading by (auto simp: moved_def)
    have "length (vm_regs vm2) = length (vm_regs vm)" using vm1(3) vm2(3) by (simp add: moved_def)
    then have len: "nat rr + length vs \<le> length (vm_regs vm2)" unfolding vm2(4) using rr regs n5 by linarith
    have "get_opt ?insts (vm_pc vm2) = Some (row_inst rr (int (length vs)))"
      using linked_plain [OF res(1) _ f5] vm2(2,4) by simp
    moreover have "get_opt ?insts (vm_pc vm2 + 1) = Some halt_inst" using halt vm2(2) res(3) by simp
    ultimately have "yields env vm2 [vs]" using give_only_row [OF _ _ r2 rr(1) len] vm2(4,5) by simp
    then show ?thesis using yields_runs [OF vm2(1)] r1 r2 True by (simp add: reading_def)
  qed
  then show ?thesis using yields_runs [OF vm1(1)] vm(1) r1 by (simp add: reading_def)
qed

section \<open>Properties\<close>

definition select_of :: "expr option \<Rightarrow> select_stmt" where
  "select_of w = \<lparr>ss_distinct = False, ss_where = w, ss_order_by = [], ss_limit = None, ss_offset = None\<rparr>"

text \<open>
  C38. A query without a table runs to its end and returns its one row, with the values of its
  expressions, when its condition is true and the limit and the offset leave a row, and otherwise none.
  It needs no database.
\<close>

theorem constant_select_returns:
  assumes "constant_query sel es" and "eval_limit_offset sel = Inr (limit, offset)" and "compile_constant sel es limit offset = Inr prog"
    and "constant_meaning env rc sel es = Inr result"
  shows "yields env (vdbe_new prog p rc) result"
proof -
  let ?v = "vdbe_new prog p rc" and ?ev = "eval (pure_call env rc) (\<lambda>_ _. VNull) (table_ctx empty_table (- 1))"
  obtain bm L where bm: "constant_code sel es limit offset init_builder = (bm, Inr ())" "linked (prog_instructions prog) L (append_inst halt_inst bm)"
      "bd_next_reg bm \<le> int (num_regs prog)" "grows init_builder bm"
    and start: "get_opt (prog_instructions prog) 0 = Some (Instruction (Control Op_Init) 0 (int (length (bd_insts bm)) + 1) 0 P4_None 0)"
      "get_opt (prog_instructions prog) (length (bd_insts bm) + 1) = Some (Instruction (Control Op_Goto) 0 1 0 P4_None 0)"
    using constant_program [OF assms(3,1)] .
  obtain keep where keep: "(case ss_where sel of None \<Rightarrow> Inr True | Some w \<Rightarrow> and_then (?ev w) (\<lambda>v. Inr (is_true v))) = Inr keep"
    and res: "(if keep then and_then (all_ok (map ?ev es)) (\<lambda>vs. Inr (limited (map_option (\<lambda>n. nat (sint n)) limit) (nat (sint offset)) [vs]))
        else Inr []) = Inr result"
    using assms(2,4) by (auto simp: constant_meaning_def Let_def and_then_def split: sum.splits)
  obtain vs where vs: "keep \<Longrightarrow> all_ok (map ?ev es) = Inr vs"
      "result = (if keep then limited (map_option (\<lambda>n. nat (sint n)) limit) (nat (sint offset)) [vs] else [])"
    using res by (auto simp: and_then_def split: if_splits sum.splits)
  have r: "reading prog (?v\<lparr>vm_pc := 1\<rparr>)" by (simp add: reading_def vdbe_new_def)
  have "yields env (?v\<lparr>vm_pc := 1\<rparr>) result"
  proof (cases "limit = Some 0 \<or> 0 < sint offset")
    case True
    then have "bm = init_builder" using bm(1) by (auto simp: constant_code_def ret_op_def)
    then have "get_opt (prog_instructions prog) 1 = Some halt_inst" using linked_plain [OF bm(2), of _ init_builder] by simp
    moreover have "result = []" using True vs(2) by (auto simp: limited_def split: option.split)
    ultimately show ?thesis using halt_done [of prog "?v\<lparr>vm_pc := 1\<rparr>"] r by (simp add: halt_inst_def)
  next
    case False
    have "limited (map_option (\<lambda>n. nat (sint n)) limit) (nat (sint offset)) [vs] = [vs]"
    proof (cases limit)
      case (Some n)
      then have "0 < sint n" using False limits_not_negative(1) [OF assms(2)] signed_eq_0_iff [of n] by (metis order_le_imp_less_or_eq)
      then show ?thesis using Some False by (simp add: limited_def take_Cons')
    qed (use False in \<open>simp add: limited_def\<close>)
    moreover have "yields env (?v\<lparr>vm_pc := 1\<rparr>) (if keep then [vs] else [])"
      by (rule constant_yields [OF assms(1) bm(1-3) False r _ _ _ keep]) (simp_all add: vs(1) vdbe_new_def)
    ultimately show ?thesis using vs(2) by (cases keep) simp_all
  qed
  then show ?thesis using yields_runs [OF constant_start_runs [OF start]] r by (simp add: reading_def vdbe_new_def)
qed

text \<open>\<open>SELECT 2 + 3, 7 WHERE 1 < 2\<close>.\<close>

theorem constant_select_returns_witness:
  "\<exists>prog. compile_constant (select_of (Some (E_Binary B_Lt (E_Literal (Lit_Integer 1)) (E_Literal (Lit_Integer 2)))))
       [E_Binary B_Add (E_Literal (Lit_Integer 2)) (E_Literal (Lit_Integer 3)), E_Literal (Lit_Integer 7)] None 0 = Inr prog
     \<and> yields sample_env (vdbe_new prog None (runtime_ctx_new 1 0)) [[VInt 5, VInt 7]]"
proof -
  let ?sel = "select_of (Some (E_Binary B_Lt (E_Literal (Lit_Integer 1)) (E_Literal (Lit_Integer 2))))"
    and ?es = "[E_Binary B_Add (E_Literal (Lit_Integer 2)) (E_Literal (Lit_Integer 3)), E_Literal (Lit_Integer 7)]"
  have "\<not> isl (compile_constant ?sel ?es None 0)" by code_simp
  then obtain prog where prog: "compile_constant ?sel ?es None 0 = Inr prog" by (cases "compile_constant ?sel ?es None 0") simp_all
  have q: "constant_query ?sel ?es" by (simp add: constant_query_def select_of_def)
  have l: "eval_limit_offset ?sel = Inr (None, 0)" by code_simp
  have v: "arith_value Op_Add (VInt 2) (VInt 3) = Inr (VInt 5)"
    by (simp add: arith_value_def arith_def arith_int_def checked_i64_def int_or_real_def in_i64_def)
  have c: "compare_exprs (table_ctx empty_table (- 1)) Op_Lt False (E_Literal (Lit_Integer 1)) (E_Literal (Lit_Integer 2)) (VInt 1) (VInt 2) = Inr (Some True)"
    by code_simp
  have "constant_meaning sample_env (runtime_ctx_new 1 0) ?sel ?es = Inr [[VInt 5, VInt 7]]"
    using v c by (simp add: constant_meaning_def Let_def l and_then_def limited_def)
      (simp add: select_of_def and_then_def binary_value_def is_true_def limited_def)
  then show ?thesis using constant_select_returns [OF q l prog] prog by blast
qed

end
