(* ===== verification/Between_Value.thy ===== *)
theory Between_Value
  imports Select_Correct
begin

text \<open>
  The value form of \<open>BETWEEN\<close> (\<open>compile_between\<close>), which the expressions of \<open>supported\<close> leave out. Its
  four labels are made together and resolved in between, so the code is linked as a whole: \<open>between_code\<close>
  gives its instructions, \<open>between_linked\<close> their final addresses. The code is then run on any row, which
  shows what it computes when a value is NULL.
\<close>

section \<open>The code behind the operands\<close>

definition between_tail :: "affinity option \<Rightarrow> bool \<Rightarrow> int \<Rightarrow> int \<Rightarrow> int \<Rightarrow> int \<Rightarrow> unit code_op" where
  "between_tail aff negated target r lo hi =
     bind_op new_label (\<lambda>dest_true. bind_op new_label (\<lambda>dest_false. bind_op new_label (\<lambda>dest_null.
     bind_op new_label (\<lambda>dest_end.
       let p5 = aff_to_p5 aff OR null_flag False; out = (if negated then dest_true else dest_false) in
       then_op (jump_p5 (Logic Op_IsNull) r dest_null 0 0)
      (then_op (jump_p5 (Comparison Op_Lt) lo out r p5)
      (then_op (jump_p5 (Comparison Op_Gt) hi out r p5)
      (then_op (emit_op (Load Op_Integer) (if negated then 0 else 1) target 0)
      (then_op (goto dest_end)
      (then_op (resolve out)
      (then_op (emit_op (Load Op_Integer) (if negated then 1 else 0) target 0)
      (then_op (goto dest_end)
      (then_op (resolve dest_null)
      (then_op (emit_op (Load Op_Null) target 0 0)
               (resolve dest_end))))))))))))))"

lemma p5_cleared: "(aff_to_p5 aff OR P5_JUMPIFNULL) AND NOT P5_JUMPIFNULL = aff_to_p5 aff OR null_flag False"
  by (rule p5_cases [of aff]; simp add: p5_defs)

lemma compile_between_tail:
  "compile_between cx e low high negated ce clow chigh target =
     bind_op (fresh ce) (\<lambda>r. bind_op (fresh clow) (\<lambda>lo. bind_op (fresh chigh) (\<lambda>hi.
       between_tail (between_affinity cx e low high) negated target r lo hi)))"
  by (simp only: compile_between_def between_tail_def p5_cleared)

definition between_insts :: "affinity option \<Rightarrow> bool \<Rightarrow> int \<Rightarrow> int \<Rightarrow> int \<Rightarrow> int \<Rightarrow> instruction list" where
  "between_insts aff negated target r lo hi =
     (let p5 = aff_to_p5 aff OR null_flag False in
      [Instruction (Logic Op_IsNull) r 0 0 P4_None 0, Instruction (Comparison Op_Lt) lo 0 r P4_None p5,
       Instruction (Comparison Op_Gt) hi 0 r P4_None p5, Instruction (Load Op_Integer) (if negated then 0 else 1) target 0 P4_None 0,
       Instruction (Control Op_Goto) 0 0 0 P4_None 0, Instruction (Load Op_Integer) (if negated then 1 else 0) target 0 P4_None 0,
       Instruction (Control Op_Goto) 0 0 0 P4_None 0, Instruction (Load Op_Null) target 0 0 P4_None 0])"

text \<open>The labels are numbered \<open>n\<close> to \<open>n + 3\<close>; the one that no jump uses stays open.\<close>

lemma between_code:
  assumes "between_tail aff negated target r lo hi b = (b', Inr ())"
  defines "k \<equiv> length (bd_insts b)" and "n \<equiv> length (bd_label_addr b)"
  defines "out \<equiv> (if negated then n else n + 1)"
  shows "bd_insts b' = bd_insts b @ between_insts aff negated target r lo hi"
    and "bd_fixups b' = bd_fixups b @ [(k, n + 2), (k + 1, out), (k + 2, out), (k + 4, n + 3), (k + 6, n + 3)]"
    and "bd_label_addr b' = bd_label_addr b @ (if negated then [Some (int k + 5), None] else [None, Some (int k + 5)])
      @ [Some (int k + 7), Some (int k + 8)]"
    and "bd_next_reg b' = bd_next_reg b"
  using assms(1)
  by (cases negated; force simp: between_tail_def between_insts_def emitted emit_branch_def emit_inst_def new_label_def resolve_def
      bind_op_def then_op_def Let_def cur_addr_def k_def n_def out_def append_inst_def add_fixup_def list_update_append)+

text \<open>In a finished program: the jumps have their addresses.\<close>

lemma between_linked:
  assumes "between_tail aff negated target r lo hi b = (b', Inr ())" and "linked insts L b'" and "fixed b"
  defines "k \<equiv> length (bd_insts b)" and "p5 \<equiv> aff_to_p5 aff OR null_flag False"
  shows "get_opt insts k = Some (Instruction (Logic Op_IsNull) r (int k + 7) 0 P4_None 0)"
    and "get_opt insts (k + 1) = Some (Instruction (Comparison Op_Lt) lo (int k + 5) r P4_None p5)"
    and "get_opt insts (k + 2) = Some (Instruction (Comparison Op_Gt) hi (int k + 5) r P4_None p5)"
    and "get_opt insts (k + 3) = Some (Instruction (Load Op_Integer) (if negated then 0 else 1) target 0 P4_None 0)"
    and "get_opt insts (k + 4) = Some (Instruction (Control Op_Goto) 0 (int k + 8) 0 P4_None 0)"
    and "get_opt insts (k + 5) = Some (Instruction (Load Op_Integer) (if negated then 1 else 0) target 0 P4_None 0)"
    and "get_opt insts (k + 6) = Some (Instruction (Control Op_Goto) 0 (int k + 8) 0 P4_None 0)"
    and "get_opt insts (k + 7) = Some (Instruction (Load Op_Null) target 0 0 P4_None 0)"
proof -
  define n where "n = length (bd_label_addr b)"
  define out where "out = (if negated then n else n + 1)"
  note c = between_code [OF assms(1)]
  have len: "length (bd_insts b') = k + 8" by (simp add: c(1) between_insts_def k_def Let_def)
  have L: "L out = int k + 5" "L (n + 2) = int k + 7" "L (n + 3) = int k + 8"
    using assms(2) by (auto simp: linked_def c(3) k_def n_def out_def nth_append)
  have old: "map_of (bd_fixups b) (k + j) = None" for j
    using assms(3) by (force simp: fixed_def k_def map_of_eq_None_iff)
  define fs where "fs = [(k, n + 2), (k + 1, out), (k + 2, out), (k + 4, n + 3), (k + 6, n + 3)]"
  have fx: "bd_fixups b' = bd_fixups b @ fs" using c(2) by (simp only: fs_def k_def n_def out_def)
  have at: "get_opt insts (k + j) = Some (case map_of fs (k + j) of
      None \<Rightarrow> between_insts aff negated target r lo hi ! j | Some l \<Rightarrow> with_p2 (L l) (between_insts aff negated target r lo hi ! j))"
    if "j < 8" for j
  proof -
    have "k + j < length insts" "insts ! (k + j) = final_inst L b' (k + j)" using assms(2) that len by (auto simp: linked_def)
    moreover have "bd_insts b' ! (k + j) = between_insts aff negated target r lo hi ! j" by (simp add: c(1) k_def)
    moreover have "map_of (bd_fixups b') (k + j) = map_of fs (k + j)" using old [of j] by (simp add: fx map_add_def split: option.split)
    ultimately show ?thesis by (simp add: get_opt_def final_inst_def cong: option.case_cong)
  qed
  show "get_opt insts k = Some (Instruction (Logic Op_IsNull) r (int k + 7) 0 P4_None 0)"
    using at [of 0] L by (simp add: fs_def between_insts_def Let_def)
  show "get_opt insts (k + 1) = Some (Instruction (Comparison Op_Lt) lo (int k + 5) r P4_None p5)"
    "get_opt insts (k + 2) = Some (Instruction (Comparison Op_Gt) hi (int k + 5) r P4_None p5)"
    "get_opt insts (k + 3) = Some (Instruction (Load Op_Integer) (if negated then 0 else 1) target 0 P4_None 0)"
    "get_opt insts (k + 4) = Some (Instruction (Control Op_Goto) 0 (int k + 8) 0 P4_None 0)"
    "get_opt insts (k + 5) = Some (Instruction (Load Op_Integer) (if negated then 1 else 0) target 0 P4_None 0)"
    "get_opt insts (k + 6) = Some (Instruction (Control Op_Goto) 0 (int k + 8) 0 P4_None 0)"
    "get_opt insts (k + 7) = Some (Instruction (Load Op_Null) target 0 0 P4_None 0)"
    using at [of 1] at [of 2] at [of 3] at [of 4] at [of 5] at [of 6] at [of 7] L
    by (simp_all add: fs_def between_insts_def Let_def p5_def)
qed

lemma between_grows:
  assumes "between_tail aff negated target r lo hi b = (b', Inr ())"
  shows "grows b b'" and "length (bd_insts b') = length (bd_insts b) + 8" and "bd_next_reg b' = bd_next_reg b"
proof -
  note c = between_code [OF assms]
  show len: "length (bd_insts b') = length (bd_insts b) + 8" by (simp add: c(1) between_insts_def Let_def)
  show "bd_next_reg b' = bd_next_reg b" by (rule c(4))
  show "grows b b'" using c len by (auto simp: grows_def)
qed

section \<open>Running it\<close>

lemma branch_turn:
  assumes "get_opt (prog_instructions (vm_program vm)) (vm_pc vm) = Some inst"
    and "dispatch env (inst_opcode inst) inst vm = branch taken p vm"
  shows "runs env vm (vm\<lparr>vm_pc := (if taken then usize_of p else vm_pc vm + 1)\<rparr>)"
  using assms by (intro runs_turn) (simp add: turn_def branch_def jump_to_def advance_def)

lemma compare_turn:
  assumes "get_opt (prog_instructions (vm_program vm)) (vm_pc vm)
      = Some (Instruction (Comparison op) r2 p r1 P4_None (aff_to_p5 aff OR null_flag False))"
    and "0 \<le> r1" and "nat r1 < length (vm_regs vm)" and "0 \<le> r2" and "nat r2 < length (vm_regs vm)"
    and "compare3 aff Binary op False (vm_regs vm ! nat r1) (vm_regs vm ! nat r2) = Inr t3"
  shows "runs env vm (vm\<lparr>vm_pc := (if t3 = Some True then usize_of p else vm_pc vm + 1)\<rparr>)"
proof (rule branch_turn [OF assms(1)])
  define p5 where "p5 = aff_to_p5 aff OR null_flag False"
  note f = p5_jump [of aff False False, simplified, folded p5_def]
  have "collation_of P4_None = Binary" by code_simp
  then have "compare_values op (vm_regs vm ! nat r1) (vm_regs vm ! nat r2) p5 P4_None = Inr t3"
    using assms(6) compare_values_3 [of p5 False aff] f by simp
  then show "dispatch env (inst_opcode (Instruction (Comparison op) r2 p r1 P4_None (aff_to_p5 aff OR null_flag False)))
      (Instruction (Comparison op) r2 p r1 P4_None (aff_to_p5 aff OR null_flag False)) vm = branch (t3 = Some True) p vm"
    using assms(2-5) f unfolding p5_def [symmetric]
    by (cases t3) (auto simp: do_Comparison_def read_reg_ok)
qed

lemma load_turn:
  assumes "get_opt (prog_instructions (vm_program vm)) (vm_pc vm) = Some (Instruction (Load Op_Integer) c t 0 P4_None 0)"
    and "0 \<le> t" and "nat t < length (vm_regs vm)"
  shows "runs env vm (vm\<lparr>vm_pc := vm_pc vm + 1, vm_regs := (vm_regs vm)[nat t := VInt (of_int c)]\<rparr>)"
  using assms by (intro runs_turn)
    (simp add: turn_def store_reg_def write_reg_def write_reg_at_def usize_of_def advance_def)

lemma goto_turn:
  assumes "get_opt (prog_instructions (vm_program vm)) (vm_pc vm) = Some (Instruction (Control Op_Goto) 0 p 0 P4_None 0)"
  shows "runs env vm (vm\<lparr>vm_pc := usize_of p\<rparr>)"
  using assms by (intro runs_turn) (simp add: turn_def do_Goto_def jump_to_def)

text \<open>Behind its operands, with an operand that is not NULL.\<close>

lemma between_tail_runs:
  assumes "between_tail aff negated t r lo hi b = (b', Inr ())" and "linked insts L b'" and "fixed b"
    and "prog_instructions (vm_program vm) = insts" and "vm_pc vm = length (bd_insts b)"
    and "0 \<le> t" "nat t < length (vm_regs vm)" "0 \<le> r" "nat r < length (vm_regs vm)" "0 \<le> lo" "nat lo < length (vm_regs vm)"
      "0 \<le> hi" "nat hi < length (vm_regs vm)"
    and "\<not> is_null (vm_regs vm ! nat r)" and "compare3 aff Binary Op_Lt False (vm_regs vm ! nat r) (vm_regs vm ! nat lo) = Inr t1"
    and "compare3 aff Binary Op_Gt False (vm_regs vm ! nat r) (vm_regs vm ! nat hi) = Inr t2"
  shows "runs env vm (vm\<lparr>vm_pc := length (bd_insts b'),
    vm_regs := (vm_regs vm)[nat t := VInt (if (t1 = Some True \<or> t2 = Some True) = negated then 1 else 0)]\<rparr>)"
proof -
  define k where "k = length (bd_insts b)"
  note i = between_linked [OF assms(1-3), folded k_def]
  have end_at: "length (bd_insts b') = k + 8" using between_grows(2) [OF assms(1)] by (simp add: k_def)
  have pc: "vm_pc vm = k" using assms(5) by (simp add: k_def)
  have s0: "runs env vm (vm\<lparr>vm_pc := k + 1\<rparr>)"
    using branch_turn [of vm "Instruction (Logic Op_IsNull) r (int k + 7) 0 P4_None 0" env False "int k + 7"] i(1)
      assms(4,8,9,14) by (simp add: read_reg_ok pc)
  have s1: "runs env (vm\<lparr>vm_pc := k + 1\<rparr>) (vm\<lparr>vm_pc := if t1 = Some True then k + 5 else k + 2\<rparr>)"
    using compare_turn [of "vm\<lparr>vm_pc := k + 1\<rparr>" Op_Lt lo _ r aff t1 env] i(2) assms(4,8-11,15) by (simp add: usize_of_def nat_add_distrib eval_nat_numeral split: if_splits)
  have s2: "runs env (vm\<lparr>vm_pc := k + 2\<rparr>) (vm\<lparr>vm_pc := if t2 = Some True then k + 5 else k + 3\<rparr>)"
    using compare_turn [of "vm\<lparr>vm_pc := k + 2\<rparr>" Op_Gt hi _ r aff t2 env] i(3) assms(4,8,9,12,13,16) by (simp add: usize_of_def nat_add_distrib eval_nat_numeral split: if_splits)
  have out: "runs env vm (vm\<lparr>vm_pc := if t1 = Some True \<or> t2 = Some True then k + 5 else k + 3\<rparr>)"
    using runs_trans [OF s0 s1] runs_trans [OF runs_trans [OF s0 s1]] s2 by (cases "t1 = Some True") simp_all
  have load: "runs env (vm\<lparr>vm_pc := k + j\<rparr>) (vm\<lparr>vm_pc := k + 8, vm_regs := (vm_regs vm)[nat t := VInt (of_int c)]\<rparr>)"
    if "get_opt insts (k + j) = Some (Instruction (Load Op_Integer) c t 0 P4_None 0)"
      "get_opt insts (k + j + 1) = Some (Instruction (Control Op_Goto) 0 (int k + 8) 0 P4_None 0)" for j c
  proof -
    let ?rs = "(vm_regs vm)[nat t := VInt (of_int c)]"
    have "runs env (vm\<lparr>vm_pc := k + j\<rparr>) (vm\<lparr>vm_pc := k + j + 1, vm_regs := ?rs\<rparr>)"
      using load_turn [of "vm\<lparr>vm_pc := k + j\<rparr>" c t env] that(1) assms(4,6,7) by simp
    moreover have "runs env (vm\<lparr>vm_pc := k + j + 1, vm_regs := ?rs\<rparr>) (vm\<lparr>vm_pc := k + 8, vm_regs := ?rs\<rparr>)"
    proof -
      have "(vm\<lparr>vm_pc := k + j + 1, vm_regs := ?rs\<rparr>)\<lparr>vm_pc := usize_of (int k + 8)\<rparr> = vm\<lparr>vm_pc := k + 8, vm_regs := ?rs\<rparr>"
        by (simp add: usize_of_def nat_add_distrib)
      moreover have "get_opt (prog_instructions (vm_program (vm\<lparr>vm_pc := k + j + 1, vm_regs := ?rs\<rparr>))) (vm_pc (vm\<lparr>vm_pc := k + j + 1, vm_regs := ?rs\<rparr>))
          = Some (Instruction (Control Op_Goto) 0 (int k + 8) 0 P4_None 0)"
        using that(2) assms(4) by simp
      from goto_turn [OF this, of env] calculation show ?thesis by argo
    qed
    ultimately show ?thesis by (rule runs_trans)
  qed
  have l0: "runs env (vm\<lparr>vm_pc := k + 3\<rparr>) (vm\<lparr>vm_pc := k + 8, vm_regs := (vm_regs vm)[nat t := VInt (of_int (if negated then 0 else 1))]\<rparr>)"
    by (rule load) (use i(4,5) in \<open>simp_all add: eval_nat_numeral\<close>)
  have l1: "runs env (vm\<lparr>vm_pc := k + 5\<rparr>) (vm\<lparr>vm_pc := k + 8, vm_regs := (vm_regs vm)[nat t := VInt (of_int (if negated then 1 else 0))]\<rparr>)"
    by (rule load) (use i(6,7) in \<open>simp_all add: eval_nat_numeral\<close>)
  show ?thesis
  proof (cases "t1 = Some True \<or> t2 = Some True")
    case True
    then have "runs env vm (vm\<lparr>vm_pc := k + 5\<rparr>)" using out by (simp only: if_True)
    from runs_trans [OF this l1] show ?thesis unfolding end_at using True by (cases negated) simp_all
  next
    case False
    then have "runs env vm (vm\<lparr>vm_pc := k + 3\<rparr>)" using out by (simp only: if_False)
    from runs_trans [OF this l0] show ?thesis unfolding end_at using False by (cases negated) simp_all
  qed
qed

text \<open>With a NULL operand: the NULL goes to register 0, whatever the target is.\<close>

lemma between_tail_null:
  assumes "between_tail aff negated t r lo hi b = (b', Inr ())" and "linked insts L b'" and "fixed b"
    and "prog_instructions (vm_program vm) = insts" and "vm_pc vm = length (bd_insts b)"
    and "0 \<le> r" "nat r < length (vm_regs vm)" and "is_null (vm_regs vm ! nat r)"
  shows "runs env vm (vm\<lparr>vm_pc := length (bd_insts b'), vm_regs := (vm_regs vm)[0 := VNull],
    vm_aggregates := (vm_aggregates vm)(0 := None)\<rparr>)"
proof -
  define k where "k = length (bd_insts b)"
  note i = between_linked [OF assms(1-3), folded k_def]
  have end_at: "length (bd_insts b') = k + 8" using between_grows(2) [OF assms(1)] by (simp add: k_def)
  have pc: "vm_pc vm = k" using assms(5) by (simp add: k_def)
  have "runs env vm (vm\<lparr>vm_pc := k + 7\<rparr>)"
    using branch_turn [of vm "Instruction (Logic Op_IsNull) r (int k + 7) 0 P4_None 0" env True "int k + 7"] i(1)
      assms(4,6-8) by (simp add: read_reg_ok pc usize_of_def nat_add_distrib)
  moreover have ne: "vm_regs vm \<noteq> []" using assms(7) by auto
  have "turn env (vm\<lparr>vm_pc := k + 7\<rparr>) =
      (vm\<lparr>vm_pc := k + 8, vm_regs := (vm_regs vm)[0 := VNull], vm_aggregates := (vm_aggregates vm)(0 := None)\<rparr>, Inr Again)"
    using i(8) assms(4) ne
    by (simp add: turn_def write_reg_def write_reg_at_def usize_of_def advance_def then_op_def bind_op_def)
  ultimately show ?thesis unfolding end_at using runs_turn runs_trans by blast
qed

section \<open>On any row\<close>

context register_code
begin

lemma fresh3_runs:
  assumes "gives env lo rely c1 v1" and "gives env lo rely c2 v2" and "gives env lo rely c3 v3"
    and "fresh c1 b = (b1, Inr r1)" and "fresh c2 b1 = (b2, Inr r2)" and "fresh c3 b2 = (b3, Inr r3)"
    and "linked insts L b3" and "ready lo rely insts b b3 vm"
  obtains vm' where "runs env vm vm'" "vm_pc vm' = length (bd_insts b3)" "moved rely {bd_next_reg b..<bd_next_reg b3} vm vm'"
    "vm_regs vm' ! nat r1 = v1" "vm_regs vm' ! nat r2 = v2" "vm_regs vm' ! nat r3 = v3" "ready lo rely insts b3 b3 vm'"
    "lo \<le> r1" "r1 < bd_next_reg b3" "lo \<le> r2" "r2 < bd_next_reg b3" "lo \<le> r3" "r3 < bd_next_reg b3"
proof -
  have g1: "grows b b1" "r1 = bd_next_reg b" "r1 < bd_next_reg b1" using fresh_grows [OF assms(1,4)] by auto
  have g2: "grows b1 b2" "r2 = bd_next_reg b1" "r2 < bd_next_reg b2" using fresh_grows [OF assms(2,5)] by auto
  have g3: "grows b2 b3" "r3 = bd_next_reg b2" "r3 < bd_next_reg b3" using fresh_grows [OF assms(3,6)] by auto
  have gb: "grows b b2" "grows b b3" using grows_trans [OF g1(1) g2(1)] grows_trans g3(1) by blast+
  obtain vm1 where vm1: "runs env vm vm1" "vm_pc vm1 = length (bd_insts b2)" "moved rely {bd_next_reg b..<bd_next_reg b2} vm vm1"
      "vm_regs vm1 ! nat r1 = v1" "vm_regs vm1 ! nat r2 = v2"
    using fresh2_runs [OF assms(1,2,4,5) linked_mono [OF assms(7) g3(1)] ready_cut [OF assms(8) g3(1)]] .
  have rd: "ready lo rely insts b2 b3 vm1" using ready_next [OF assms(8) gb(1) g3(1) vm1(3,2)] .
  obtain vm2 where vm2: "runs env vm1 vm2" "vm_pc vm2 = length (bd_insts b3)" "moved rely {bd_next_reg b2..<bd_next_reg b3} vm1 vm2"
      "vm_regs vm2 ! nat r3 = v3"
    using fresh_runs [OF assms(3,6,7) rd] .
  note lo = assms(8) [unfolded ready_def] rd [unfolded ready_def]
  have r: "lo \<le> r1" "r1 < bd_next_reg b2" "lo \<le> r2" "r2 < bd_next_reg b2" "lo \<le> r3"
    using lo g1 g2 g3 grows_regs [OF g1(1)] grows_regs [OF g2(1)] by auto
  have "nat r1 < length (vm_regs vm1)" "nat r2 < length (vm_regs vm1)" "0 \<le> r1" "0 \<le> r2"
    using r lo lo_pos grows_regs [OF g3(1)] by linarith+
  then have "vm_regs vm2 ! nat r1 = v1" "vm_regs vm2 ! nat r2 = v2"
    using moved_reg [OF vm2(3), of r1] moved_reg [OF vm2(3), of r2] vm1(4,5) r by auto
  moreover have "moved rely {bd_next_reg b..<bd_next_reg b3} vm vm2"
    using vm1(3) vm2(3) by (rule moved_trans) (use grows_regs [OF gb(1)] grows_regs [OF g3(1)] in auto)
  moreover have "ready lo rely insts b3 b3 vm2" using ready_next [OF rd g3(1) grows_refl vm2(3,2)] .
  ultimately show ?thesis using that runs_trans [OF vm1(1) vm2(1)] vm2(2,4) r grows_regs [OF g3(1)] g3(3) by simp
qed

lemma between_builders:
  assumes "compile_between cx e low high negated ce clow chigh t b = (b', Inr ())"
    and "gives env lo rely ce v" and "gives env lo rely clow x" and "gives env lo rely chigh y"
  obtains b1 r b2 l b3 h where "fresh ce b = (b1, Inr r)" "fresh clow b1 = (b2, Inr l)" "fresh chigh b2 = (b3, Inr h)"
    "between_tail (between_affinity cx e low high) negated t r l h b3 = (b', Inr ())" "grows b b3" "grows b3 b'"
proof -
  obtain b1 r b2 l b3 h where b: "fresh ce b = (b1, Inr r)" "fresh clow b1 = (b2, Inr l)" "fresh chigh b2 = (b3, Inr h)"
      "between_tail (between_affinity cx e low high) negated t r l h b3 = (b', Inr ())"
    using assms(1) by (auto simp: compile_between_tail bind_op_success)
  have "grows b b3"
    using fresh_grows [OF assms(2) b(1)] fresh_grows [OF assms(3) b(2)] fresh_grows [OF assms(4) b(3)] grows_trans by blast
  then show ?thesis using that b between_grows(1) [OF b(4)] by blast
qed

lemma between_gives:
  assumes "gives env lo rely ce v" and "gives env lo rely clow x" and "gives env lo rely chigh y" and "\<not> is_null v"
    and "compare3 (between_affinity cx e low high) Binary Op_Lt False v x = Inr t1"
    and "compare3 (between_affinity cx e low high) Binary Op_Gt False v y = Inr t2"
  shows "gives env lo rely (compile_between cx e low high negated ce clow chigh)
    (VInt (if (t1 = Some True \<or> t2 = Some True) = negated then 1 else 0))"
  unfolding gives_def
proof (intro allI impI conjI)
  fix t b b' insts L vm
  assume "compile_between cx e low high negated ce clow chigh t b = (b', Inr ())"
  then obtain b1 r b2 l b3 h where b: "fresh ce b = (b1, Inr r)" "fresh clow b1 = (b2, Inr l)" "fresh chigh b2 = (b3, Inr h)"
      "between_tail (between_affinity cx e low high) negated t r l h b3 = (b', Inr ())" and g: "grows b b3" "grows b3 b'"
    by (rule between_builders [OF _ assms(1-3)])
  show "grows b b'" using g by (rule grows_trans)
  assume lk: "linked insts L b'" and rd: "ready lo rely insts b b' vm" and t: "lo \<le> t" "t < bd_next_reg b"
  obtain vm1 where vm1: "runs env vm vm1" "vm_pc vm1 = length (bd_insts b3)" "moved rely {bd_next_reg b..<bd_next_reg b3} vm vm1"
      "vm_regs vm1 ! nat r = v" "vm_regs vm1 ! nat l = x" "vm_regs vm1 ! nat h = y" "ready lo rely insts b3 b3 vm1"
      and regs: "lo \<le> r" "r < bd_next_reg b3" "lo \<le> l" "l < bd_next_reg b3" "lo \<le> h" "h < bd_next_reg b3"
    using fresh3_runs [OF assms(1-3) b(1-3) linked_mono [OF lk g(2)] ready_cut [OF rd g(2)]] .
  note r1 = vm1(7) [unfolded ready_def]
  have n: "0 \<le> t" "nat t < length (vm_regs vm1)" "0 \<le> r" "nat r < length (vm_regs vm1)" "0 \<le> l" "nat l < length (vm_regs vm1)"
      "0 \<le> h" "nat h < length (vm_regs vm1)"
    using r1 regs t lo_pos grows_regs [OF g(1)] by linarith+
  define w where "w = VInt (if (t1 = Some True \<or> t2 = Some True) = negated then 1 else 0)"
  let ?vm2 = "vm1\<lparr>vm_pc := length (bd_insts b'), vm_regs := (vm_regs vm1)[nat t := w]\<rparr>"
  have run: "runs env vm1 ?vm2"
    unfolding w_def using between_tail_runs [OF b(4) lk _ _ vm1(2) n] r1 vm1(4-6) assms(4-6) by simp
  have "rely (vm1\<lparr>vm_pc := length (bd_insts b'), vm_regs := (vm_regs vm1)[nat t := w], vm_aggregates := vm_aggregates vm1\<rparr>)"
    using r1 t(1) lo_pos by (intro rely_regs) auto
  then have "moved rely {t} vm1 ?vm2" using n(1) by (auto simp: moved_def same_frame_def nth_list_update)
  with vm1(3) have "moved rely ({t} \<union> {bd_next_reg b..<bd_next_reg b'}) vm ?vm2"
    by (rule moved_trans) (use between_grows(3) [OF b(4)] in auto)
  then have "\<exists>vm'. runs env vm vm' \<and> vm_pc vm' = length (bd_insts b')
      \<and> moved rely ({t} \<union> {bd_next_reg b..<bd_next_reg b'}) vm vm' \<and> vm_regs vm' ! nat t = w"
    using runs_trans [OF vm1(1) run] n(2) by (intro exI [of _ ?vm2]) simp
  then show "\<exists>vm'. runs env vm vm' \<and> vm_pc vm' = length (bd_insts b')
      \<and> moved rely ({t} \<union> {bd_next_reg b..<bd_next_reg b'}) vm vm'
      \<and> vm_regs vm' ! nat t = VInt (if (t1 = Some True \<or> t2 = Some True) = negated then 1 else 0)"
    by (simp only: w_def)
qed

lemma between_keeps:
  assumes "gives env lo rely ce v" and "gives env lo rely clow x" and "gives env lo rely chigh y" and "is_null v"
    and "compile_between cx e low high negated ce clow chigh t b = (b', Inr ())" and "linked insts L b'"
    and "ready lo rely insts b b' vm" and "0 < t" and "t < bd_next_reg b"
  shows "\<exists>vm'. runs env vm vm' \<and> vm_pc vm' = length (bd_insts b') \<and> vm_regs vm' ! nat t = vm_regs vm ! nat t \<and> vm_regs vm' ! 0 = VNull"
proof -
  obtain b1 r b2 l b3 h where b: "fresh ce b = (b1, Inr r)" "fresh clow b1 = (b2, Inr l)" "fresh chigh b2 = (b3, Inr h)"
      "between_tail (between_affinity cx e low high) negated t r l h b3 = (b', Inr ())" and g: "grows b b3" "grows b3 b'"
    by (rule between_builders [OF assms(5,1-3)])
  obtain vm1 where vm1: "runs env vm vm1" "vm_pc vm1 = length (bd_insts b3)" "moved rely {bd_next_reg b..<bd_next_reg b3} vm vm1"
      "vm_regs vm1 ! nat r = v" "ready lo rely insts b3 b3 vm1" and regs: "lo \<le> r" "r < bd_next_reg b3"
    using fresh3_runs [OF assms(1-3) b(1-3) linked_mono [OF assms(6) g(2)] ready_cut [OF assms(7) g(2)]] by blast
  note r1 = vm1(5) [unfolded ready_def]
  have n: "0 \<le> r" "nat r < length (vm_regs vm1)" "nat t < length (vm_regs vm)" "0 < length (vm_regs vm1)"
    using r1 regs assms(7-9) lo_pos grows_regs [OF g(1)] grows_regs [OF g(2)] unfolding ready_def by linarith+
  have "vm_regs vm1 ! nat t = vm_regs vm ! nat t" using moved_reg [OF vm1(3), of t] n(3) assms(8,9) by simp
  then show ?thesis
    using runs_trans [OF vm1(1) between_tail_null [OF b(4) assms(6) _ _ vm1(2) n(1,2)]] r1 vm1(4) assms(4,8) n(4)
    by (intro exI [of _ "vm1\<lparr>vm_pc := length (bd_insts b'), vm_regs := (vm_regs vm1)[0 := VNull],
        vm_aggregates := (vm_aggregates vm1)(0 := None)\<rparr>"]) auto
qed

end

section \<open>Properties\<close>

lemma between_comparisons:
  assumes "comparison_affinity cx e low = comparison_affinity cx e high" and "comparison_collation cx e low = None"
    and "comparison_collation cx e high = None" and "between_value cx e low high negated v x y = Inr w"
  obtains t1 t2 where "compare3 (between_affinity cx e low high) Binary Op_Lt False v x = Inr (map_option Not t1)"
    "compare3 (between_affinity cx e low high) Binary Op_Gt False v y = Inr (map_option Not t2)"
    "w = bool3_to_value (if negated then map_option Not (and3 t1 t2) else and3 t1 t2)" "is_null v \<Longrightarrow> t1 = None \<and> t2 = None"
proof -
  define aff where "aff = comparison_affinity cx e low"
  have a: "between_affinity cx e low high = aff" using assms(1) by (cases aff) (auto simp: between_affinity_def aff_def)
  obtain t1 t2 where t: "compare3 aff Binary Op_Ge False v x = Inr t1" "compare3 aff Binary Op_Le False v y = Inr t2"
      "w = bool3_to_value (if negated then map_option Not (and3 t1 t2) else and3 t1 t2)"
    using assms by (auto simp: between_value_def compare_exprs_def collation_or_binary_def aff_def and_then_def split: sum.splits)
  have "is_null v \<Longrightarrow> t1 = None \<and> t2 = None" using t(1,2) by (auto simp: compare3_def)
  then show ?thesis
    using that [of t1 t2] compare3_negate [of aff Binary Op_Ge] compare3_negate [of aff Binary Op_Le] t a by (simp add: and_then_def)
qed

text \<open>
  C40. The value form of \<open>BETWEEN\<close> on any row of a table, for operands of one affinity and the default
  collation. With an operand that is not NULL the code computes the conjunction of the two comparisons
  when that is 0 or 1, but where the conjunction is NULL, because a bound is, it yields 1 instead (0 for
  \<open>NOT BETWEEN\<close>). With a NULL operand the conjunction is NULL, and the code leaves the target register
  what it was and sets register 0 to NULL.
\<close>

theorem between_null_wrong:
  fixes env :: vm_env and rc :: runtime_ctx and vals :: "sql_value list" and rest :: "(i64 \<times> bytes) list"
  assumes "condition (\<lambda>_ _. True) (table_ctx t 0) (E_Between e low high negated)"
    and "eval (pure_call env rc) (row_column t (fst row) vals) (table_ctx t 0) e = Inr v"
    and "eval (pure_call env rc) (row_column t (fst row) vals) (table_ctx t 0) (E_Between e low high negated) = Inr w"
  shows "(\<not> is_null v \<longrightarrow> gives env 0 (table_row env rc t row vals rest) (compile_expr (table_ctx t 0) (E_Between e low high negated))
        (if is_null w then VInt (if negated then 0 else 1) else w))
    \<and> (is_null v \<longrightarrow> is_null w \<and> (\<forall>target b b' insts L vm.
        compile_expr (table_ctx t 0) (E_Between e low high negated) target b = (b', Inr ()) \<longrightarrow> linked insts L b' \<longrightarrow>
        ready 0 (table_row env rc t row vals rest) insts b b' vm \<longrightarrow> 0 < target \<longrightarrow> target < bd_next_reg b \<longrightarrow>
        (\<exists>vm'. runs env vm vm' \<and> vm_pc vm' = length (bd_insts b') \<and> vm_regs vm' ! nat target = vm_regs vm ! nat target
           \<and> vm_regs vm' ! 0 = VNull)))"
proof -
  let ?ev = "eval (pure_call env rc) (row_column t (fst row) vals) (table_ctx t 0)" and ?cx = "table_ctx t 0"
  let ?rely = "table_row env rc t row vals rest"
  obtain x y where xy: "?ev low = Inr x" "?ev high = Inr y" "between_value ?cx e low high negated v x y = Inr w"
    using assms(2,3) by (auto simp: and_then_def split: sum.splits)
  have g: "gives env 0 ?rely (compile_expr ?cx e) v" "gives env 0 ?rely (compile_expr ?cx low) x" "gives env 0 ?rely (compile_expr ?cx high) y"
    using assms(1,2) xy(1,2) by (auto intro: table_source.expr_gives)
  obtain t1 t2 where t: "compare3 (between_affinity ?cx e low high) Binary Op_Lt False v x = Inr (map_option Not t1)"
      "compare3 (between_affinity ?cx e low high) Binary Op_Gt False v y = Inr (map_option Not t2)"
      "w = bool3_to_value (if negated then map_option Not (and3 t1 t2) else and3 t1 t2)" "is_null v \<Longrightarrow> t1 = None \<and> t2 = None"
    by (rule between_comparisons [OF _ _ _ xy(3)]) (use assms(1) in auto)
  have val: "VInt (if (map_option Not t1 = Some True \<or> map_option Not t2 = Some True) = negated then 1 else 0) =
      (if is_null w then VInt (if negated then 0 else 1) else w)"
    unfolding t(3) by (cases t1; cases t2; cases negated) (auto simp: and3_table bool3_to_value_def is_null_def)
  have "is_null w" if "is_null v" using t(3) t(4) [OF that] by (simp add: and3_table bool3_to_value_def is_null_def)
  moreover have "gives env 0 ?rely (compile_expr ?cx (E_Between e low high negated)) (if is_null w then VInt (if negated then 0 else 1) else w)"
    if "\<not> is_null v"
    using table_source.between_gives [OF g that t(1,2), of negated] unfolding val compile_expr.simps .
  moreover have "\<exists>vm'. runs env vm vm' \<and> vm_pc vm' = length (bd_insts b') \<and> vm_regs vm' ! nat target = vm_regs vm ! nat target \<and> vm_regs vm' ! 0 = VNull"
    if "is_null v" "compile_expr ?cx (E_Between e low high negated) target b = (b', Inr ())" "linked insts L b'"
      "ready 0 ?rely insts b b' vm" "0 < target" "target < bd_next_reg b" for target b b' insts L vm
    using table_source.between_keeps [OF g that(1) that(2) [unfolded compile_expr.simps] that(3-6)] .
  ultimately show ?thesis by blast
qed

section \<open>Two machines that run it\<close>

text \<open>\<open>a BETWEEN NULL AND 9\<close> and \<open>NULL BETWEEN a AND a\<close>, compiled into register 1 and run on a row whose \<open>a\<close> is 7.\<close>

definition null_bound :: expr where
  "null_bound = E_Between (E_Column None (ascii_bytes ''a'')) (E_Literal Lit_Null) (E_Literal (Lit_Integer 9)) False"

definition null_operand :: expr where
  "null_operand = E_Between (E_Literal Lit_Null) (E_Column None (ascii_bytes ''a'')) (E_Column None (ascii_bytes ''a'')) False"

definition before_value :: builder where
  "before_value = builder_new\<lparr>bd_next_reg := 2\<rparr>"

definition value_code :: "expr \<Rightarrow> builder" where
  "value_code e = fst (compile_expr (table_ctx sample_table 0) e 1 before_value)"

abbreviation on_first_row :: "vdbe \<Rightarrow> bool" where
  "on_first_row \<equiv> table_row sample_env (runtime_ctx_new 1 0) sample_table (1, [2, 1, 7]) [VInt 7] [(5, [2, 1, 3]), (9, [2, 1, 8])]"

abbreviation first_value :: "expr \<Rightarrow> sql_value result" where
  "first_value \<equiv> eval (pure_call sample_env (runtime_ctx_new 1 0)) (row_column sample_table 1 [VInt 7]) (table_ctx sample_table 0)"

lemma machine_on_row:
  assumes "finish (value_code e) = Inr prog" and "fixed (value_code e)" and "num_regs prog = n" and "bd_next_reg (value_code e) \<le> int n"
  shows "\<exists>vm. ready 0 on_first_row (prog_instructions prog) before_value (value_code e) vm
    \<and> linked (prog_instructions prog) (final_addr (value_code e)) (value_code e) \<and> vm_regs vm = replicate n (VInt 5)"
proof -
  let ?t = "TLeaf 2 (leaf_rows sample_rows)" and ?p = "leaf_db sample_rows"
  have t: "tree_at ?p ?t" "alloc_ok_pager ?p" using sample_db(3) by (simp_all add: table_ok_def)
  obtain c q where "cursor_at (ve_depth sample_env) (c, q) (rows ?t)"
    using cursor_rewind_ok [OF t, of "ve_depth sample_env" "table_cursor_new ?p 2"]
    by (auto simp: table_cursor_new_def sample_env_def)
  then have c: "cursor_at (ve_depth sample_env) (c, q) ((1, [2, 1, 7]) # [(5, [2, 1, 3]), (9, [2, 1, 8])])"
    unfolding leaf_rows_facts(1) by (simp add: sample_rows_def)
  let ?vm = "(vdbe_new prog None (runtime_ctx_new 1 0))\<lparr>vm_pager := Some q, vm_cursors := [Some (Cur_Table c)], vm_regs := replicate n (VInt 5)\<rparr>"
  have "on_first_row ?vm"
    using c by (simp add: table_row_def vdbe_new_def sample_table_def sample_records slot_def get_opt_def usize_of_def)
  then have "ready 0 on_first_row (prog_instructions prog) before_value (value_code e) ?vm"
    using assms(3,4) by (simp add: ready_def vdbe_new_def before_value_def builder_new_def fixed_def)
  then show ?thesis using finish_linked(1) [OF assms(1,2)] by (intro exI [of _ ?vm]) simp
qed

lemma null_programs:
  "compile_expr (table_ctx sample_table 0) null_bound 1 before_value = (value_code null_bound, Inr ())"
  "compile_expr (table_ctx sample_table 0) null_operand 1 before_value = (value_code null_operand, Inr ())"
  "fixed (value_code null_bound)" "fixed (value_code null_operand)"
  "\<exists>prog. finish (value_code null_bound) = Inr prog \<and> num_regs prog = 5" "bd_next_reg (value_code null_bound) = 5"
  "\<exists>prog. finish (value_code null_operand) = Inr prog \<and> num_regs prog = 5" "bd_next_reg (value_code null_operand) = 5"
proof -
  have "snd (compile_expr (table_ctx sample_table 0) null_bound 1 before_value) = Inr ()"
    "snd (compile_expr (table_ctx sample_table 0) null_operand 1 before_value) = Inr ()" by code_simp+
  then show "compile_expr (table_ctx sample_table 0) null_bound 1 before_value = (value_code null_bound, Inr ())"
    "compile_expr (table_ctx sample_table 0) null_operand 1 before_value = (value_code null_operand, Inr ())"
    by (simp_all add: value_code_def prod_eq_iff)
  show "fixed (value_code null_bound)" by code_simp
  show "fixed (value_code null_operand)" by code_simp
  show "bd_next_reg (value_code null_bound) = 5" "bd_next_reg (value_code null_operand) = 5" by code_simp+
  have "case finish (value_code null_bound) of Inr prog \<Rightarrow> num_regs prog = 5 | Inl _ \<Rightarrow> False"
    "case finish (value_code null_operand) of Inr prog \<Rightarrow> num_regs prog = 5 | Inl _ \<Rightarrow> False" by code_simp+
  then show "\<exists>prog. finish (value_code null_bound) = Inr prog \<and> num_regs prog = 5"
    "\<exists>prog. finish (value_code null_operand) = Inr prog \<and> num_regs prog = 5" by (auto split: sum.splits)
qed

lemma null_meanings:
  "first_value (E_Column None (ascii_bytes ''a'')) = Inr (VInt 7)" "first_value null_bound = Inr VNull"
  "first_value null_operand = Inr VNull"
proof -
  show a: "first_value (E_Column None (ascii_bytes ''a'')) = Inr (VInt 7)" by (simp add: sample_columns)
  have "between_value (table_ctx sample_table 0) (E_Column None (ascii_bytes ''a'')) (E_Literal Lit_Null) (E_Literal (Lit_Integer 9)) False
      (VInt 7) VNull (VInt 9) = Inr VNull"
    "between_value (table_ctx sample_table 0) (E_Literal Lit_Null) (E_Column None (ascii_bytes ''a'')) (E_Column None (ascii_bytes ''a'')) False
      VNull (VInt 7) (VInt 7) = Inr VNull"
    by code_simp+
  then show "first_value null_bound = Inr VNull" "first_value null_operand = Inr VNull"
    using a by (simp_all add: null_bound_def null_operand_def and_then_def)
qed

lemma null_conditions:
  "condition (\<lambda>_ _. True) (table_ctx sample_table 0) null_bound" "condition (\<lambda>_ _. True) (table_ctx sample_table 0) null_operand"
proof -
  have "comparison_affinity (table_ctx sample_table 0) (E_Column None (ascii_bytes ''a'')) (E_Literal Lit_Null)
      = comparison_affinity (table_ctx sample_table 0) (E_Column None (ascii_bytes ''a'')) (E_Literal (Lit_Integer 9))"
    "comparison_collation (table_ctx sample_table 0) (E_Column None (ascii_bytes ''a'')) (E_Literal Lit_Null) = None"
    "comparison_collation (table_ctx sample_table 0) (E_Column None (ascii_bytes ''a'')) (E_Literal (Lit_Integer 9)) = None"
    by code_simp+
  then show "condition (\<lambda>_ _. True) (table_ctx sample_table 0) null_bound" by (simp add: null_bound_def)
  have "comparison_collation (table_ctx sample_table 0) (E_Literal Lit_Null) (E_Column None (ascii_bytes ''a'')) = None" by code_simp
  then show "condition (\<lambda>_ _. True) (table_ctx sample_table 0) null_operand" by (simp add: null_operand_def)
qed

theorem between_null_wrong_witness:
  "(\<exists>prog vm vm'. finish (value_code null_bound) = Inr prog \<and> prog_instructions (vm_program vm) = prog_instructions prog
      \<and> on_first_row vm \<and> runs sample_env vm vm' \<and> vm_regs vm' ! 1 = VInt 1 \<and> first_value null_bound = Inr VNull)
   \<and> (\<exists>prog vm vm'. finish (value_code null_operand) = Inr prog \<and> prog_instructions (vm_program vm) = prog_instructions prog
      \<and> on_first_row vm \<and> runs sample_env vm vm' \<and> vm_regs vm ! 1 = VInt 5 \<and> vm_regs vm' ! 1 = VInt 5
      \<and> vm_regs vm' ! 0 = VNull \<and> first_value null_operand = Inr VNull)"
proof (intro conjI)
  obtain prog where prog: "finish (value_code null_bound) = Inr prog" "num_regs prog = 5" using null_programs(5) by blast
  obtain vm where vm: "ready 0 on_first_row (prog_instructions prog) before_value (value_code null_bound) vm"
      "linked (prog_instructions prog) (final_addr (value_code null_bound)) (value_code null_bound)"
    using machine_on_row [OF prog(1) null_programs(3) prog(2)] null_programs(6) by auto
  have "gives sample_env 0 on_first_row (compile_expr (table_ctx sample_table 0) null_bound) (VInt 1)"
    using between_null_wrong [OF null_conditions(1) [unfolded null_bound_def], of sample_env "runtime_ctx_new 1 0" "(1, [2, 1, 7])" "[VInt 7]" "VInt 7" VNull]
      null_meanings(1,2) by (simp add: null_bound_def is_null_def)
  then obtain vm' where "runs sample_env vm vm'" "vm_regs vm' ! nat 1 = VInt 1"
    using null_programs(1) vm unfolding gives_def by (fastforce simp: before_value_def)
  then show "\<exists>prog vm vm'. finish (value_code null_bound) = Inr prog \<and> prog_instructions (vm_program vm) = prog_instructions prog
      \<and> on_first_row vm \<and> runs sample_env vm vm' \<and> vm_regs vm' ! 1 = VInt 1 \<and> first_value null_bound = Inr VNull"
    using prog(1) vm(1) null_meanings(2) by (auto simp: ready_def)
next
  obtain prog where prog: "finish (value_code null_operand) = Inr prog" "num_regs prog = 5" using null_programs(7) by blast
  obtain vm where vm: "ready 0 on_first_row (prog_instructions prog) before_value (value_code null_operand) vm"
      "linked (prog_instructions prog) (final_addr (value_code null_operand)) (value_code null_operand)" "vm_regs vm = replicate 5 (VInt 5)"
    using machine_on_row [OF prog(1) null_programs(4) prog(2)] null_programs(8) by auto
  have "\<exists>vm'. runs sample_env vm vm' \<and> vm_pc vm' = length (bd_insts (value_code null_operand)) \<and> vm_regs vm' ! nat 1 = vm_regs vm ! nat 1
      \<and> vm_regs vm' ! 0 = VNull"
  proof -
    have n: "0 < (1 :: int)" "1 < bd_next_reg before_value" by (simp_all add: before_value_def)
    have "eval (pure_call sample_env (runtime_ctx_new 1 0)) (row_column sample_table (fst (1, [2, 1, 7])) [VInt 7]) (table_ctx sample_table 0)
        null_operand = Inr VNull" using null_meanings(3) by simp
    from between_null_wrong [OF null_conditions(2) [unfolded null_operand_def] _ this [unfolded null_operand_def],
        folded null_operand_def, of VNull, THEN conjunct2, rule_format, THEN conjunct2, rule_format, OF _ _ null_programs(2) vm(2,1) n]
    show ?thesis by (simp add: is_null_def)
  qed
  then show "\<exists>prog vm vm'. finish (value_code null_operand) = Inr prog \<and> prog_instructions (vm_program vm) = prog_instructions prog
      \<and> on_first_row vm \<and> runs sample_env vm vm' \<and> vm_regs vm ! 1 = VInt 5 \<and> vm_regs vm' ! 1 = VInt 5
      \<and> vm_regs vm' ! 0 = VNull \<and> first_value null_operand = Inr VNull"
    using prog(1) vm(1,3) null_meanings(3) by (force simp: ready_def)
qed

end
