(* ===== verification/Spec2Isabelle.thy ===== *)
theory Spec2Isabelle
  imports Pager_Limits Btree_Drop Coercion Like_Spec Aggregate_Spec Vdbe_Calls Constant_Select Between_Value
begin

text \<open>
  A verification library for Rustqlite, a Rust re-implementation of the SQLite database engine. The
  files named below are under \<open>src/crates/rustsqlite-core/src\<close>.

  \<^bold>\<open>The program.\<close> SQL text is parsed (crate \<open>rustqlite-parser\<close>), compiled to bytecode (\<open>codegen\<close>) and run
  by a virtual machine (\<open>vdbe\<close>). The machine stores rows in table b-trees and keys in index b-trees
  (\<open>btree\<close>), whose pages come from the pager (\<open>pager\<close>): it keeps an overlay of uncommitted pages, a
  rollback journal or a write-ahead log, savepoints, and the free pages. The pager reads and writes
  files and takes file locks through a VFS (\<open>vfs\<close>). Rows and keys are records of values (\<open>format\<close>,
  \<open>types\<close>), compared under a collation; the machine sorts them with an in-memory sorter and converts
  them by type affinity. The library models the storage engine from the bytes of a file up to the
  cursors and the mutations of b-trees, the values and functions that work on records, the whole
  virtual machine on top of both, and the code generator for expressions and for queries over one table.

  \<^bold>\<open>Shape of the model.\<close> Machine integers are words of their width. A method that may fail returns
  \<open>failure + 'a\<close>: \<open>Err e\<close> is the error value the code returns, \<open>Panic\<close> an index, slice, shift or
  arithmetic operation on which the Rust code panics. A method of a stateful component is an operation
  \<open>'s \<Rightarrow> 's \<times> ('a result)\<close> (\<open>State_Ops\<close>): an error keeps the mutations made before it. Files are lists
  of bytes. What the sources take from outside is an argument: the salts of a log, the seed of a
  journal, the order in which a hash map is drained at commit, and the auto-vacuum step of a commit.

  \<^bold>\<open>Foundations.\<close>
  \<^item> \<open>Prelude\<close>: words, byte buffers with Rust's slice operations, big- and little-endian codecs, and the
    locale \<open>tiled_record\<close> for fixed layouts. \<open>State_Ops\<close>: sequencing of fallible operations.
    \<open>Iterator\<close>: the locale \<open>row_iterator\<close>, the contract between a cursor and the loop that drives it.
  \<^item> \<open>Errors\<close> (\<open>error.rs\<close>); \<open>Varint\<close> (\<open>format/varint.rs\<close>); \<open>Header\<close> (\<open>format/header.rs\<close>): the codec of the
    database header is a bijection on valid headers. \<open>Floats\<close>: the order and the exact value of 64-bit
    floats as bit patterns. \<open>Text_Encoding\<close>: UTF-8 and UTF-16 with replacement of invalid input.
  \<^item> \<open>Records\<close> (\<open>format/serial_type.rs\<close>, \<open>format/record.rs\<close>): records decode to what was encoded, and
    decoding any bytes is safe. \<open>Compare\<close> (\<open>vdbe/compare.rs\<close>, \<open>types/collation.rs\<close>): comparison is the
    lexicographic order of exact keys. \<open>Sorter\<close> (\<open>vdbe/sorter.rs\<close>): a stable sort.

  \<^bold>\<open>Values and functions.\<close>
  \<^item> \<open>Numeric\<close> (\<open>util/mod.rs\<close>, \<open>types/value.rs\<close>, \<open>types/affinity.rs\<close>): numeric prefixes, conversions and
    affinity; Rust's parsing of floats is the correctly rounded \<open>f64_of_ratio\<close>.
  \<^item> \<open>Fp_Text\<close> (\<open>util/fp.rs\<close>): rendering of floats, where each table access, each shift and each
    checked operation on \<open>i32\<close>, \<open>u64\<close> and \<open>u8\<close> is a possible panic; \<open>Fp_Safe\<close> shows that none happens, for
    the fixed-point form unless the number of places is within 500 of the largest \<open>i32\<close>. \<open>Coercion\<close>: integers survive the conversion to text and back.
  \<^item> \<open>Like\<close> (\<open>func/like.rs\<close>); \<open>Like_Spec\<close>: the backtracking matcher decides a declarative meaning of the
    pattern, and an escape directly behind \<open>%\<close> does not do what it should.

  \<^bold>\<open>Files and locks.\<close>
  \<^item> \<open>Locks\<close> (\<open>vfs/mod.rs\<close>, \<open>vfs/memvfs.rs\<close>): the lock protocol as a transition system with granted
    and refused requests. Each refused upgrade from SHARED to EXCLUSIVE loses a reader from the shared
    count, so the steps count them: exclusion holds up to that number, and a handle that repeats its
    request often enough gets EXCLUSIVE beside readers.
  \<^item> \<open>Mem_File\<close> (\<open>vfs/memvfs.rs\<close>): positioned I/O, with the locale \<open>byte_file\<close>.

  \<^bold>\<open>Pager.\<close>
  \<^item> \<open>Journal\<close> (\<open>pager/journal.rs\<close>), \<open>Wal_Format\<close> (\<open>format/wal.rs\<close>, \<open>format/wal_index.rs\<close>), \<open>Wal_Index\<close> and
    \<open>Wal\<close> (\<open>pager/wal.rs\<close>): a log refines a list of frames, the hash index finds the last frame of a
    page. \<open>Wal_Log\<close>: a commit to the log is atomic under a crash at any byte, and a checkpoint keeps
    what readers see.
  \<^item> \<open>Ptrmap\<close> (\<open>btree/ptrmap.rs\<close>) and \<open>Pager\<close> (\<open>pager/mod.rs\<close>): all operations of the pager, one definition
    each on the record \<open>pager\<close>.
  \<^item> \<open>Pager_View\<close>: the pager is a page store (locale \<open>page_store\<close>). \<open>Page_Alloc\<close>: it is an allocator of
    pages (\<open>page_alloc\<close>). \<open>Pager_Txn\<close>: transactions as runs of a step relation; rollback and rollback to
    a savepoint restore the pages. \<open>Pager_Crash\<close> and \<open>Pager_Commit\<close>: a commit is durable, and atomic
    under a crash between or within its writes. \<open>Pager_Limits\<close>: three ways in which the code does less
    than its comments say.

  \<^bold>\<open>B-trees.\<close>
  \<^item> \<open>Btree_Page\<close> (\<open>btree/page.rs\<close>): a page refines a list of cells. \<open>Btree_Cell\<close> (\<open>btree/cell.rs\<close>): the
    four cell layouts and overflow chains. \<open>Btree_Node\<close>: both, as the nodes the algorithms use.
  \<^item> \<open>Btree_Table\<close> (\<open>btree/cursor.rs\<close>): scan, cursor and seek; \<open>Btree_Scan\<close> and \<open>Btree_Seek\<close>: they return
    the rows of the tree, end, and find a row exactly when it is there.
  \<^item> \<open>Btree_Balance\<close> (\<open>btree/balance.rs\<close>) and \<open>Btree_Insert\<close> (\<open>btree/insert.rs\<close>): \<open>Btree_Grow\<close> shows that an
    insertion with room keeps the tree well-formed and adds the row in order, \<open>Btree_Split\<close> that a full
    root is split and the insertion returns, and that before a large row it promotes without end.
  \<^item> \<open>Btree_Delete\<close> (\<open>btree/delete.rs\<close>, \<open>btree/destroy.rs\<close>, \<open>btree/mod.rs\<close>); \<open>Btree_Drop\<close>: deletion removes the
    row and links its overflow chain into the freelist; clearing a single leaf leaks such chains.
  \<^item> \<open>Index_Cursor\<close> (\<open>btree/index.rs\<close>, \<open>btree/index_cursor.rs\<close>) and \<open>Index_Insert\<close> (\<open>btree/balance.rs\<close>,
    \<open>btree/index_insert.rs\<close>, \<open>btree/index_delete.rs\<close>): index b-trees.

  \<^bold>\<open>Virtual machine.\<close>
  \<^item> \<open>Float_Ops\<close>: the arithmetic of i64 and f64 the machine uses, with its overflow checks. \<open>Aggregate\<close>
    (\<open>func/aggregate.rs\<close>): the accumulator of aggregate and window functions; \<open>Aggregate_Spec\<close>: a
    sliding sum is exact, min and max are extremes.
  \<^item> \<open>Vdbe_Program\<close> (\<open>vdbe/opcode.rs\<close>, \<open>vdbe/program.rs\<close>, \<open>vdbe/oe.rs\<close>): instructions, with the opcodes in
    groups. \<open>Vdbe_Expr\<close> (\<open>vdbe/exec.rs\<close>): operators on values; arithmetic is total and free of NaN, and
    shifts are arithmetic. \<open>Ephemeral\<close> (\<open>vdbe/ephemeral.rs\<close>): ephemeral tables and indexes; the dedup
    index is a set of byte strings, and so keeps rows apart that differ only in the storage class of
    equal numbers.
  \<^item> \<open>Vdbe_State\<close> (\<open>vdbe/exec.rs\<close>, \<open>vdbe/cursor.rs\<close>): the record \<open>vdbe\<close> with registers, cursors and saved
    frames. \<open>Vdbe_Control\<close>, \<open>Vdbe_Data\<close> and \<open>Vdbe_Exec\<close>: one operation per opcode, their dispatch, the
    fetch loop, and the conflict handling of \<open>step\<close> after an error. What the machine takes from outside
    is the record \<open>vm_env\<close>: scalar and date functions, the bound on pointer loops and the arguments of
    the pager.
  \<^item> \<open>Vdbe_Inv\<close>: the locale \<open>vm_property\<close>, a property that the register and cursor primitives keep is kept
    by every instruction; its instance is the well-formedness of the state. \<open>Vdbe_Calls\<close>: well-formedness
    of all reachable states, that a sub-program returns to its caller unchanged, and that a reset after a
    failure inside a call does not bring the program of the statement back.

  \<^bold>\<open>Code generator.\<close>
  \<^item> \<open>Schema\<close> (\<open>schema/table.rs\<close>, \<open>func/registry.rs\<close>, the parser's \<open>ast.rs\<close>): expressions, tables, column names
    and arities; the stored order of a WITHOUT ROWID table loses no column, and stays within the record
    when the key names no column twice. \<open>Builder\<close> (\<open>codegen/builder.rs\<close>): programs
    under construction. \<open>Codegen_Expr\<close> (\<open>codegen/expr.rs\<close>): values and conditional jumps. \<open>Codegen_Select\<close>
    (\<open>codegen/select.rs\<close>): scans, sorted scans and constant queries.
  \<^item> \<open>Codegen_Link\<close>: what the finished program has of each builder on the way. \<open>Codegen_Run\<close>: the locale
    \<open>register_code\<close>, how code that computes into a register composes. \<open>Codegen_Sem\<close>: the reference
    evaluation of expressions in three-valued logic. \<open>Codegen_Correct\<close>: the locale \<open>row_source\<close>, for any source
    of column values the code of an expression computes its value and the code of a condition jumps as
    its truth value says. \<open>Codegen_Extends\<close>: generation only extends a builder. \<open>Row_Sources\<close>: the locale
    holds for the current row of a table cursor and for no row at all.
  \<^item> \<open>Query_Result\<close>: the rows a caller reads by stepping a statement. \<open>Scan_Correct\<close>: the turns of the scan
    loop. \<open>Select_Correct\<close>: the program of a query over a table returns the rows of the query, from the
    pages of the file to the result registers. \<open>Constant_Select\<close>: the same for queries without a table.
    \<open>Between_Value\<close>: what the code of the value form of \<open>BETWEEN\<close> computes on a row, with NULL among its
    operands or without.

  \<^bold>\<open>Bounds.\<close> A loop of the code along page pointers may not end on a damaged file, so its model takes a
  bound on its turns and panics when it is used up. The theorems say which bound is enough: the weight
  of the tree for traversals, the number of rows for the loop over a cursor, the number of pages for
  an overflow chain, and the depth of the tree with the splits on the way for an insertion. The fetch
  loop of the machine takes the number of turns it may run and is \<open>None\<close> when it needs more, because a
  bytecode program may loop forever.

  \<^bold>\<open>Not modelled.\<close> The parser; of the code generator the planner and index scans, joins, aggregates,
  windows, compounds, subqueries and the statements that change data; the C interface; scalar functions
  other than \<open>LIKE\<close> and \<open>GLOB\<close> (an argument of the machine); auto-vacuum and the integrity checks; file I/O of the
  operating system and the shell, which are input and output only. The theorems on queries cover rowid
  tables without \<open>ORDER BY\<close> and \<open>DISTINCT\<close>, whose code is modelled and not yet proved. The theorems on
  splitting and deletion are for databases without auto-vacuum.
\<close>

end
